(* ===== verification/Hexgen_Prelude.thy ===== *)
theory Hexgen_Prelude
  imports
    Complex_Main
    "HOL-Library.AList"
    "HOL-Library.Product_Lexorder"
    "HOL-Library.List_Lexorder"
    "HOL-Library.Char_ord"
begin

text \<open>
  Shared vocabulary of the HexGen-3 development: the pieces of Python that the components
  use, as HOL functions, with the lemmas the component proofs share.

  \<^item> Exceptions are values: a computation that may raise has type \<open>'a result\<close>, the left
    summand being the exception. The string of an exception is the constant part of the
    message the source formats. \<open>NonTermination\<close> is no exception of Python: it stands for a call
    that does not return, where a loop is modelled by a partial function.
  \<^item> A \<open>dict\<close> is an association list: Python keeps insertion order, an assignment to an
    existing key keeps its place, a new key goes to the end. This is \<^const>\<open>AList.update\<close>.
  \<^item> \<open>min\<close>/\<open>max\<close> with a \<open>key\<close> return the first extremal element.
  \<^item> Python integers are \<^typ>\<open>int\<close>. Floats are \<^typ>\<open>real\<close>: rounding of the IEEE format is
    not modelled; \<open>float('inf')\<close> is the constructor \<open>PosInf\<close> of \<open>xreal\<close>.
\<close>

named_theorems dict_simps \<open>lookup laws of dictionaries and the containers built on them\<close>
named_theorems result_simps \<open>evaluation of computations that may raise\<close>

section \<open>Exceptions\<close>

datatype py_error =
    ValueError string
  | KeyError string
  | IndexError
  | TypeError string
  | AssertionError string
  | RuntimeError string
  | StopIteration
  | ZeroDivisionError
  | AttributeError string
  | OSError string
  | NonTermination

type_synonym 'a result = "py_error + 'a"

definition bind_result :: "'a result \<Rightarrow> ('a \<Rightarrow> 'b result) \<Rightarrow> 'b result" where
  "bind_result m f = (case m of Inl e \<Rightarrow> Inl e | Inr x \<Rightarrow> f x)"

lemma bind_result_Inl [simp, result_simps]: "bind_result (Inl e) f = Inl e"
  by (simp add: bind_result_def)

lemma bind_result_Inr [simp, result_simps]: "bind_result (Inr x) f = f x"
  by (simp add: bind_result_def)

lemma bind_result_eq_Inr [result_simps]:
  "bind_result m f = Inr y \<longleftrightarrow> (\<exists>x. m = Inr x \<and> f x = Inr y)"
  by (cases m) simp_all

text \<open>A comprehension whose element expression may raise: the first exception wins.\<close>

fun map_result :: "('a \<Rightarrow> 'b result) \<Rightarrow> 'a list \<Rightarrow> 'b list result" where
  "map_result f [] = Inr []"
| "map_result f (x # xs) =
     bind_result (f x) (\<lambda>y. bind_result (map_result f xs) (\<lambda>ys. Inr (y # ys)))"

lemma map_result_all_Inr:
  "(\<And>x. x \<in> set xs \<Longrightarrow> f x = Inr (g x)) \<Longrightarrow> map_result f xs = Inr (map g xs)"
  by (induction xs) auto

text \<open>A loop whose body only checks and raises.\<close>

fun check_all :: "('a \<Rightarrow> unit result) \<Rightarrow> 'a list \<Rightarrow> unit result" where
  "check_all f [] = Inr ()"
| "check_all f (x # xs) = bind_result (f x) (\<lambda>_. check_all f xs)"

lemma check_all_Inr: "check_all f xs = Inr () \<longleftrightarrow> (\<forall>x \<in> set xs. f x = Inr ())"
  by (induction xs) (auto simp: bind_result_eq_Inr)

text \<open>A loop that threads a state and may raise.\<close>

fun fold_result :: "('s \<Rightarrow> 'a \<Rightarrow> 's result) \<Rightarrow> 's \<Rightarrow> 'a list \<Rightarrow> 's result" where
  "fold_result f s [] = Inr s"
| "fold_result f s (x # xs) = bind_result (f s x) (\<lambda>s'. fold_result f s' xs)"

lemma fold_result_invariant:
  assumes "fold_result f s xs = Inr s'" "P s"
    and "\<And>s x s'. x \<in> set xs \<Longrightarrow> P s \<Longrightarrow> f s x = Inr s' \<Longrightarrow> P s'"
  shows "P s'"
  using assms by (induction xs arbitrary: s) (auto simp: bind_result_eq_Inr)

lemma fold_result_total:
  assumes "P s"
    and "\<And>s x. x \<in> set xs \<Longrightarrow> P s \<Longrightarrow> \<exists>s'. f s x = Inr s' \<and> P s'"
  shows "\<exists>s'. fold_result f s xs = Inr s' \<and> P s'"
  using assms
proof (induction xs arbitrary: s)
  case (Cons x xs)
  then obtain s' where "f s x = Inr s'" "P s'" by fastforce
  with Cons show ?case by simp
qed simp

lemma fold_result_snoc:
  "fold_result f s (xs @ [x]) = bind_result (fold_result f s xs) (\<lambda>s'. f s' x)"
  by (induction xs arbitrary: s) (auto simp: bind_result_def split: sum.split)

text \<open>What holds of the value, if there is one.\<close>

definition yields :: "'a result \<Rightarrow> ('a \<Rightarrow> bool) \<Rightarrow> bool" where
  "yields m P \<longleftrightarrow> (\<forall>x. m = Inr x \<longrightarrow> P x)"

lemma yields_simps [simp]: "yields (Inr x) P \<longleftrightarrow> P x" "yields (Inl err) P"
  by (auto simp: yields_def)

lemma yieldsD: "yields m P \<Longrightarrow> m = Inr x \<Longrightarrow> P x"
  by (simp add: yields_def)

lemma yieldsI: "(\<And>x. m = Inr x \<Longrightarrow> P x) \<Longrightarrow> yields m P"
  by (simp add: yields_def)

lemma yields_mono: "yields m P \<Longrightarrow> (\<And>x. P x \<Longrightarrow> Q x) \<Longrightarrow> yields m Q"
  by (simp add: yields_def)

lemma yields_bindI: "yields m P \<Longrightarrow> (\<And>x. P x \<Longrightarrow> yields (f x) Q) \<Longrightarrow> yields (bind_result m f) Q"
  by (cases m) auto

lemma yields_fold:
  "P s \<Longrightarrow> (\<And>s x. x \<in> set xs \<Longrightarrow> P s \<Longrightarrow> yields (f s x) P) \<Longrightarrow> yields (fold_result f s xs) P"
  by (induction xs arbitrary: s) (auto intro: yields_bindI)

section \<open>Dictionaries\<close>

type_synonym ('k, 'v) dict = "('k \<times> 'v) list"

definition dict_getd :: "('k, 'v) dict \<Rightarrow> 'k \<Rightarrow> 'v \<Rightarrow> 'v" where
  "dict_getd d k v = (case map_of d k of None \<Rightarrow> v | Some x \<Rightarrow> x)"

definition wf_dict :: "('k, 'v) dict \<Rightarrow> bool" where
  "wf_dict d \<longleftrightarrow> distinct (map fst d)"

lemma dict_getd_update [dict_simps]:
  "dict_getd (AList.update k v d) k' w = (if k' = k then v else dict_getd d k' w)"
  by (auto simp: dict_getd_def update_conv')

lemma dict_getd_Nil [simp]: "dict_getd [] k v = v"
  by (simp add: dict_getd_def)

lemma map_of_update [dict_simps]:
  "map_of (AList.update k v d) k' = (if k' = k then Some v else map_of d k')"
  by (simp add: update_conv')

lemma wf_dict_Nil [simp]: "wf_dict []"
  by (simp add: wf_dict_def)

lemma wf_dict_update [simp, intro]: "wf_dict d \<Longrightarrow> wf_dict (AList.update k v d)"
  by (simp add: wf_dict_def distinct_update)

lemma keys_update: "fst ` set (AList.update k v d) = insert k (fst ` set d)"
  by (induction d) auto

lemma update_keys_present:
  "k \<in> fst ` set d \<Longrightarrow> map fst (AList.update k v d) = map fst d"
  by (induction d) auto

lemma update_keys_absent:
  "k \<notin> fst ` set d \<Longrightarrow> AList.update k v d = d @ [(k, v)]"
  by (induction d) auto

lemma wf_dict_map_of: "wf_dict d \<Longrightarrow> (k, v) \<in> set d \<Longrightarrow> map_of d k = Some v"
  by (simp add: wf_dict_def)

text \<open>Summing the values of a dictionary after one assignment.\<close>

lemma sum_values_update:
  fixes d :: "('k, 'v::ab_group_add) dict"
  assumes "wf_dict d"
  shows "sum_list (map snd (AList.update k v d)) = sum_list (map snd d) - dict_getd d k 0 + v"
  using assms
proof (induction d)
  case (Cons p d)
  have "k \<notin> fst ` set d \<Longrightarrow> dict_getd d k 0 = 0"
    by (simp add: dict_getd_def map_of_eq_None_iff [THEN iffD2])
  with Cons show ?case
    by (cases p) (auto simp: wf_dict_def dict_getd_def algebra_simps)
qed simp

text \<open>A dictionary comprehension \<open>{k: f(k) for k in ks}\<close>.\<close>

definition dict_comp :: "'k list \<Rightarrow> ('k \<Rightarrow> 'v) \<Rightarrow> ('k, 'v) dict" where
  "dict_comp ks f = foldl (\<lambda>d k. AList.update k (f k) d) [] ks"

lemma foldl_update_map_of:
  "map_of (foldl (\<lambda>d k. AList.update k (f k) d) d ks) k' =
     (if k' \<in> set ks then Some (f k') else map_of d k')"
  by (induction ks arbitrary: d) (auto simp: dict_simps)

lemma map_of_dict_comp [dict_simps]:
  "map_of (dict_comp ks f) k = (if k \<in> set ks then Some (f k) else None)"
  by (simp add: dict_comp_def foldl_update_map_of)

lemma wf_dict_comp [simp, intro]: "wf_dict (dict_comp ks f)"
proof -
  have "wf_dict d \<Longrightarrow> wf_dict (foldl (\<lambda>d k. AList.update k (f k) d) d ks)" for d
    by (induction ks arbitrary: d) auto
  then show ?thesis by (simp add: dict_comp_def)
qed

lemma keys_dict_comp: "fst ` set (dict_comp ks f) = set ks"
proof -
  have "fst ` set (foldl (\<lambda>d k. AList.update k (f k) d) d ks) = fst ` set d \<union> set ks" for d
    by (induction ks arbitrary: d) (auto simp: keys_update)
  then show ?thesis by (simp add: dict_comp_def)
qed

lemma foldl_update_distinct:
  "distinct ks \<Longrightarrow> fst ` set d \<inter> set ks = {} \<Longrightarrow>
   foldl (\<lambda>d k. AList.update k (f k) d) d ks = d @ map (\<lambda>k. (k, f k)) ks"
proof (induction ks arbitrary: d)
  case (Cons k ks)
  then have "AList.update k (f k) d = d @ [(k, f k)]"
    by (intro update_keys_absent) auto
  with Cons show ?case by auto
qed simp

lemma dict_comp_distinct: "distinct ks \<Longrightarrow> dict_comp ks f = map (\<lambda>k. (k, f k)) ks"
  by (simp add: dict_comp_def foldl_update_distinct)

section \<open>Order of first occurrence\<close>

text \<open>\<open>if x not in seen: seen.append(x)\<close>\<close>

definition dedup_from :: "'a list \<Rightarrow> 'a list \<Rightarrow> 'a list" where
  "dedup_from seen xs = foldl (\<lambda>s x. if x \<in> set s then s else s @ [x]) seen xs"

lemma dedup_from_Cons:
  "dedup_from s (x # xs) = dedup_from (if x \<in> set s then s else s @ [x]) xs"
  by (simp add: dedup_from_def)

lemma dedup_from_Nil [simp]: "dedup_from s [] = s"
  by (simp add: dedup_from_def)

lemma set_dedup_from [simp]: "set (dedup_from s xs) = set s \<union> set xs"
  by (induction xs arbitrary: s) (auto simp: dedup_from_Cons)

lemma distinct_dedup_from [simp]: "distinct s \<Longrightarrow> distinct (dedup_from s xs)"
  by (induction xs arbitrary: s) (auto simp: dedup_from_Cons)

section \<open>Minimum and maximum by a key\<close>

fun min_key_from :: "('a \<Rightarrow> 'k::linorder) \<Rightarrow> 'a \<Rightarrow> 'a list \<Rightarrow> 'a" where
  "min_key_from key b [] = b"
| "min_key_from key b (x # xs) = min_key_from key (if key x < key b then x else b) xs"

fun max_key_from :: "('a \<Rightarrow> 'k::linorder) \<Rightarrow> 'a \<Rightarrow> 'a list \<Rightarrow> 'a" where
  "max_key_from key b [] = b"
| "max_key_from key b (x # xs) = max_key_from key (if key b < key x then x else b) xs"

text \<open>\<open>min(xs, key=key)\<close> and \<open>max(xs, key=key)\<close>; an empty argument raises.\<close>

definition min_key :: "('a \<Rightarrow> 'k::linorder) \<Rightarrow> 'a list \<Rightarrow> 'a result" where
  "min_key key xs = (case xs of [] \<Rightarrow> Inl (ValueError ''min() arg is an empty sequence'')
                     | x # xs \<Rightarrow> Inr (min_key_from key x xs))"

definition max_key :: "('a \<Rightarrow> 'k::linorder) \<Rightarrow> 'a list \<Rightarrow> 'a result" where
  "max_key key xs = (case xs of [] \<Rightarrow> Inl (ValueError ''max() arg is an empty sequence'')
                     | x # xs \<Rightarrow> Inr (max_key_from key x xs))"

lemma min_key_from_in: "min_key_from key b xs \<in> insert b (set xs)"
proof (induction xs arbitrary: b)
  case (Cons x xs)
  show ?case using Cons.IH[of x] Cons.IH[of b] by auto
qed simp

lemma max_key_from_in: "max_key_from key b xs \<in> insert b (set xs)"
proof (induction xs arbitrary: b)
  case (Cons x xs)
  show ?case using Cons.IH[of x] Cons.IH[of b] by auto
qed simp

lemma min_key_from_le: "x \<in> insert b (set xs) \<Longrightarrow> key (min_key_from key b xs) \<le> key x"
proof (induction xs arbitrary: b x)
  case (Cons y ys)
  have b: "key (min_key_from key b' ys) \<le> key b'" for b'
    by (rule Cons.IH) simp
  show ?case
    using Cons.prems Cons.IH[of x] b[of y] b[of b] by (cases "key y < key b") auto
qed simp

lemma max_key_from_ge: "x \<in> insert b (set xs) \<Longrightarrow> key x \<le> key (max_key_from key b xs)"
proof (induction xs arbitrary: b x)
  case (Cons y ys)
  have b: "key b' \<le> key (max_key_from key b' ys)" for b'
    by (rule Cons.IH) simp
  show ?case
    using Cons.prems Cons.IH[of x] b[of y] b[of b] by (cases "key b < key y") auto
qed simp

lemma min_key_Inr:
  assumes "min_key key xs = Inr m"
  shows "m \<in> set xs" and "x \<in> set xs \<Longrightarrow> key m \<le> key x"
  using assms min_key_from_in[of key] min_key_from_le[of _ _ _ key]
  by (auto simp: min_key_def split: list.splits)

lemma max_key_Inr:
  assumes "max_key key xs = Inr m"
  shows "m \<in> set xs" and "x \<in> set xs \<Longrightarrow> key x \<le> key m"
  using assms max_key_from_in[of key] max_key_from_ge[of _ _ _ key]
  by (auto simp: max_key_def split: list.splits)

lemma min_key_total: "xs \<noteq> [] \<Longrightarrow> \<exists>m. min_key key xs = Inr m"
  by (cases xs) (simp_all add: min_key_def)

lemma max_key_total: "xs \<noteq> [] \<Longrightarrow> \<exists>m. max_key key xs = Inr m"
  by (cases xs) (simp_all add: max_key_def)

text \<open>\<open>all(f(x) == f(xs[0]) for x in xs)\<close>\<close>

definition all_same :: "('a \<Rightarrow> 'b) \<Rightarrow> 'a list \<Rightarrow> bool" where
  "all_same f xs \<longleftrightarrow> list_all (\<lambda>x. f x = f (hd xs)) xs"

lemma all_sameD: "all_same f xs \<Longrightarrow> x \<in> set xs \<Longrightarrow> f x = f (hd xs)"
  by (simp add: all_same_def list_all_iff)

lemma all_same_const: "(\<And>x. x \<in> set xs \<Longrightarrow> f x = c) \<Longrightarrow> all_same f xs"
  by (cases xs) (simp_all add: all_same_def list_all_iff)

lemma all_same_replicate [simp]: "all_same f (replicate n x)"
  by (rule all_same_const[where c = "f x"]) simp

section \<open>Numbers\<close>

datatype xreal = Fin real | PosInf

instantiation xreal :: linorder
begin

fun less_eq_xreal :: "xreal \<Rightarrow> xreal \<Rightarrow> bool" where
  "less_eq_xreal (Fin x) (Fin y) \<longleftrightarrow> x \<le> y"
| "less_eq_xreal PosInf (Fin y) \<longleftrightarrow> False"
| "less_eq_xreal x PosInf \<longleftrightarrow> True"

definition less_xreal :: "xreal \<Rightarrow> xreal \<Rightarrow> bool" where
  "less_xreal x y \<longleftrightarrow> x \<le> y \<and> \<not> y \<le> x"

instance
proof
  fix x y z :: xreal
  show "x \<le> x" by (cases x) simp_all
  show "x \<le> y \<Longrightarrow> y \<le> z \<Longrightarrow> x \<le> z" by (cases x; cases y; cases z) simp_all
  show "x \<le> y \<Longrightarrow> y \<le> x \<Longrightarrow> x = y" by (cases x; cases y) simp_all
  show "x \<le> y \<or> y \<le> x" by (cases x; cases y) auto
qed (simp add: less_xreal_def)

end

lemma less_xreal_simps [simp]:
  "Fin x < Fin y \<longleftrightarrow> x < y" "\<not> PosInf < z" "Fin x < PosInf"
  by (auto simp: less_xreal_def)

text \<open>\<open>int(x)\<close> of a float truncates towards zero.\<close>

definition py_int :: "real \<Rightarrow> int" where
  "py_int x = (if x < 0 then \<lceil>x\<rceil> else \<lfloor>x\<rfloor>)"

text \<open>\<open>round(x)\<close> of Python: to the nearest integer, halves to the even neighbour.\<close>

definition py_round :: "real \<Rightarrow> int" where
  "py_round x = (let f = \<lfloor>x\<rfloor>; r = x - of_int f in
     if r < 1/2 then f else if 1/2 < r then f + 1 else if even f then f else f + 1)"

lemma py_round_of_int [simp]: "py_round (of_int n) = n"
  by (simp add: py_round_def)

lemma py_round_mono_bounds: "of_int a \<le> x \<Longrightarrow> a \<le> py_round x"
  unfolding py_round_def Let_def by (auto; linarith)

lemma py_round_near: "\<bar>of_int (py_round x) - x\<bar> \<le> 1/2"
  unfolding py_round_def Let_def by (auto; linarith)

lemma py_round_mono: "x \<le> y \<Longrightarrow> py_round x \<le> py_round y"
proof (rule ccontr)
  assume le: "x \<le> y" and "\<not> py_round x \<le> py_round y"
  then have "real_of_int (py_round y) + 1 \<le> py_round x" "x \<noteq> y" by auto
  then show False using le py_round_near[of x] py_round_near[of y] by linarith
qed

lemma sum_list_nonneg_map:
  "(\<And>x. x \<in> set xs \<Longrightarrow> (0::'a::ordered_comm_monoid_add) \<le> f x) \<Longrightarrow> 0 \<le> sum_list (map f xs)"
  by (induction xs) (auto intro: add_nonneg_nonneg)

text \<open>Division raises on a zero divisor; \<open>//\<close> rounds towards minus infinity, as \<^const>\<open>divide\<close> on \<^typ>\<open>int\<close>.\<close>

definition true_div :: "real \<Rightarrow> real \<Rightarrow> real result" where
  "true_div x y = (if y = 0 then Inl ZeroDivisionError else Inr (x / y))"

definition floor_div :: "int \<Rightarrow> int \<Rightarrow> int result" where
  "floor_div x y = (if y = 0 then Inl ZeroDivisionError else Inr (x div y))"

lemma true_div_Inr [simp]: "y \<noteq> 0 \<Longrightarrow> true_div x y = Inr (x / y)"
  by (simp add: true_div_def)

lemma floor_div_Inr [simp]: "y \<noteq> 0 \<Longrightarrow> floor_div x y = Inr (x div y)"
  by (simp add: floor_div_def)

section \<open>Strings\<close>

text \<open>\<open>needle in hay\<close> and \<open>s.lower()\<close> on ASCII.\<close>

definition py_contains :: "string \<Rightarrow> string \<Rightarrow> bool" where
  "py_contains needle hay =
     list_ex (\<lambda>i. take (length needle) (drop i hay) = needle) [0..<Suc (length hay)]"

definition lower_char :: "char \<Rightarrow> char" where
  "lower_char c = (let n = of_char c :: nat in if 65 \<le> n \<and> n \<le> 90 then char_of (n + 32) else c)"

definition py_lower :: "string \<Rightarrow> string" where
  "py_lower s = map lower_char s"

text \<open>\<open>str(n)\<close> of a non-negative integer, as f-strings print it.\<close>

fun show_nat :: "nat \<Rightarrow> string" where
  "show_nat n = (if n < 10 then [char_of (48 + n)] else show_nat (n div 10) @ [char_of (48 + n mod 10)])"

declare show_nat.simps [simp del]

definition read_nat :: "string \<Rightarrow> nat" where
  "read_nat s = foldl (\<lambda>a c. a * 10 + (of_char c - 48)) 0 s"

lemma of_char_digit: "d < 10 \<Longrightarrow> of_char (char_of (48 + d :: nat)) = 48 + d"
  by simp

lemma read_show_nat [simp]: "read_nat (show_nat n) = n"
proof (induction n rule: show_nat.induct)
  case (1 n)
  show ?case
  proof (cases "n < 10")
    case True
    then show ?thesis by (simp add: show_nat.simps[of n] read_nat_def)
  next
    case False
    then show ?thesis
      using 1 by (simp add: show_nat.simps[of n] read_nat_def del: of_char_of)
        (simp add: of_char_digit del: of_char_of)
  qed
qed

lemma show_nat_inject [simp]: "show_nat m = show_nat n \<longleftrightarrow> m = n"
  by (metis read_show_nat)

lemma show_nat_digits: "c \<in> set (show_nat n) \<Longrightarrow> c \<in> char_of ` {48..57::nat}"
proof (induction n rule: show_nat.induct)
  case (1 n)
  have digit: "d < 10 \<Longrightarrow> char_of (48 + d :: nat) \<in> char_of ` {48..57::nat}" for d
    by (rule imageI) simp
  show ?case
  proof (cases "n < 10")
    case True
    then show ?thesis using 1 digit[of n] by (simp add: show_nat.simps[of n])
  next
    case False
    then show ?thesis using 1 digit[of "n mod 10"] by (auto simp: show_nat.simps[of n])
  qed
qed

lemma underscore_not_digit: "CHR ''_'' \<notin> set (show_nat n)"
proof
  assume "CHR ''_'' \<in> set (show_nat n)"
  then obtain k :: nat where "CHR ''_'' = char_of k" "k \<in> {48..57}" using show_nat_digits by blast
  then have "(of_char CHR ''_'' :: nat) \<in> {48..57}" by simp
  then show False by simp
qed

text \<open>Splitting at the last separator is unique.\<close>

lemma last_separator_unique:
  assumes "xs @ c # ys = xs' @ c # ys'" "c \<notin> set ys" "c \<notin> set ys'"
  shows "xs = xs' \<and> ys = ys'"
proof -
  have "takeWhile (\<lambda>x. x \<noteq> c) (rev (zs @ c # ws)) = rev ws" if "c \<notin> set ws" for zs ws
    using takeWhile_append2[of "rev ws" "\<lambda>x. x \<noteq> c" "c # rev zs"] that by fastforce
  from this[of ys xs] this[of ys' xs'] have "ys = ys'" using assms by simp
  then show ?thesis using assms(1) by simp
qed

end
