(* ===== verification/Scheduling_Types.thy ===== *)
theory Scheduling_Types
  imports Hexgen_Prelude
begin

text \<open>
  The shared data of the scheduling framework, \<open>scheduler/simulator/scheduling/types.py\<close>:
  the workload profile, parallelism strategies with their validating constructors, and the
  allocation matrix \<open>A[worker_type][hardware]\<close> with every operation on it. The lemmas give
  the lookup laws of the matrix, its well-formedness invariant, and the accounting of GPUs
  under \<open>uniform\<close>, \<open>add\<close> and \<open>move\<close>, which is what the search components rely on.
\<close>

section \<open>Workload profile\<close>

definition WORKER_TYPES :: "string list" where
  "WORKER_TYPES = [''pre'', ''attn'', ''ffn'']"

type_synonym capacity = "(string, int) dict"

record workload_profile =
  arrival_rate :: real
  input_lengths :: "int list"
  output_lengths :: "int list"
  max_batch_size :: int

definition WorkloadProfile ::
    "real \<Rightarrow> int list \<Rightarrow> int list \<Rightarrow> int \<Rightarrow> workload_profile result" where
  "WorkloadProfile rate ins outs mbs =
     (if rate \<le> 0 then Inl (ValueError ''arrival_rate must be positive'')
      else if ins = [] \<or> outs = [] then
        Inl (ValueError ''input_lengths and output_lengths must be non-empty'')
      else if mbs \<le> 0 then Inl (ValueError ''max_batch_size must be positive'')
      else Inr \<lparr>arrival_rate = rate, input_lengths = ins, output_lengths = outs,
                max_batch_size = mbs\<rparr>)"

definition wf_workload :: "workload_profile \<Rightarrow> bool" where
  "wf_workload w \<longleftrightarrow> 0 < arrival_rate w \<and> input_lengths w \<noteq> [] \<and> output_lengths w \<noteq> [] \<and>
     0 < max_batch_size w"

definition mean_round :: "int list \<Rightarrow> int" where
  "mean_round xs = max 1 (py_round (of_int (sum_list xs) / of_nat (length xs)))"

definition mean_input :: "workload_profile \<Rightarrow> int" where
  "mean_input w = mean_round (input_lengths w)"

definition mean_output :: "workload_profile \<Rightarrow> int" where
  "mean_output w = mean_round (output_lengths w)"

definition mean_decode_context :: "workload_profile \<Rightarrow> int" where
  "mean_decode_context w = max 1 (mean_input w + max 1 (mean_output w div 2))"

definition synthetic ::
    "real \<Rightarrow> int \<Rightarrow> int \<Rightarrow> int \<Rightarrow> int \<Rightarrow> real \<Rightarrow> int \<Rightarrow> int \<Rightarrow> workload_profile result" where
  "synthetic rate short_in long_in short_out long_out long_ratio samples mbs =
     (let long_count = py_round (of_int samples * max 0 (min 1 long_ratio));
          short_count = max 0 (samples - long_count);
          inputs = replicate (nat short_count) short_in @ replicate (nat long_count) long_in;
          outputs = replicate (nat short_count) short_out @ replicate (nat long_count) long_out
      in WorkloadProfile rate inputs outputs mbs)"

section \<open>Parallelism strategies\<close>

record replica =
  r_tp :: int
  r_ep :: int

definition ParallelismReplica :: "int \<Rightarrow> int \<Rightarrow> replica result" where
  "ParallelismReplica tp ep =
     (if tp \<le> 0 then Inl (ValueError ''replica tp must be positive'')
      else if ep \<le> 0 then Inl (ValueError ''replica ep must be positive'')
      else Inr \<lparr>r_tp = tp, r_ep = ep\<rparr>)"

definition replica_gpus :: "replica \<Rightarrow> int" where
  "replica_gpus r = r_tp r"

definition replica_as_tuple :: "replica \<Rightarrow> int \<times> int" where
  "replica_as_tuple r = (r_tp r, r_ep r)"

record strategy =
  s_dp :: int
  s_tp :: int
  s_ep :: int
  s_replicas :: "replica list"

text \<open>What the caller may put into \<open>replicas\<close>: replica objects or bare pairs.\<close>

datatype replica_arg = ReplicaObj replica | ReplicaPair int int

definition normalize_replica :: "replica_arg \<Rightarrow> replica result" where
  "normalize_replica a = (case a of ReplicaObj r \<Rightarrow> Inr r
     | ReplicaPair tp ep \<Rightarrow> ParallelismReplica tp ep)"

definition max_int :: "int list \<Rightarrow> int" where
  "max_int xs = foldl max (hd xs) (tl xs)"

text \<open>The fields \<open>__post_init__\<close> writes back once the replicas are known.\<close>

definition finish_strategy :: "replica list \<Rightarrow> strategy" where
  "finish_strategy rs =
     \<lparr>s_dp = int (length rs),
      s_tp = (if all_same r_tp rs then r_tp (hd rs)
              else max_int (map r_tp rs)),
      s_ep = (if all_same r_ep rs then r_ep (hd rs)
              else max_int (map r_ep rs)),
      s_replicas = rs\<rparr>"

definition ParallelismStrategy ::
    "int \<Rightarrow> int \<Rightarrow> int \<Rightarrow> replica_arg list \<Rightarrow> strategy result" where
  "ParallelismStrategy dp tp ep args =
     bind_result
       (if args = [] then
          (if dp \<le> 0 \<or> tp \<le> 0 \<or> ep \<le> 0
           then Inl (ValueError ''dp, tp, and ep must be positive'')
           else map_result (\<lambda>_. ParallelismReplica tp ep) [0..<nat dp])
        else map_result normalize_replica args)
       (\<lambda>rs. if rs = [] then Inl (ValueError ''strategy must have at least one replica'')
             else Inr (finish_strategy rs))"

definition from_replicas :: "replica list \<Rightarrow> strategy result" where
  "from_replicas rs =
     (if rs = [] then Inl (ValueError ''replicas must be non-empty'')
      else ParallelismStrategy (int (length rs)) (r_tp (hd rs)) (r_ep (hd rs))
             (map ReplicaObj rs))"

definition strategy_gpus :: "strategy \<Rightarrow> int" where
  "strategy_gpus s = sum_list (map replica_gpus (s_replicas s))"

definition is_uniform :: "strategy \<Rightarrow> bool" where
  "is_uniform s \<longleftrightarrow> s_replicas s \<noteq> [] \<and>
     all_same r_tp (s_replicas s) \<and>
     all_same r_ep (s_replicas s)"

definition strategy_as_tuple :: "strategy \<Rightarrow> (int \<times> int) list" where
  "strategy_as_tuple s = map replica_as_tuple (s_replicas s)"

text \<open>What every constructed strategy satisfies.\<close>

definition wf_replica :: "replica \<Rightarrow> bool" where
  "wf_replica r \<longleftrightarrow> 0 < r_tp r \<and> 0 < r_ep r"

definition wf_strategy :: "strategy \<Rightarrow> bool" where
  "wf_strategy s \<longleftrightarrow> s_replicas s \<noteq> [] \<and> list_all wf_replica (s_replicas s) \<and>
     s = finish_strategy (s_replicas s)"

section \<open>Worker slices\<close>

record worker_slice =
  ws_worker_type :: string
  ws_hardware :: string

definition WorkerSlice :: "string \<Rightarrow> string \<Rightarrow> worker_slice result" where
  "WorkerSlice w h =
     (if w \<notin> set WORKER_TYPES then Inl (ValueError ''unknown worker_type'')
      else Inr \<lparr>ws_worker_type = w, ws_hardware = h\<rparr>)"

section \<open>Allocation matrix\<close>

record allocation =
  am_values :: "(string, (string, int) dict) dict"

definition am_row :: "allocation \<Rightarrow> string \<Rightarrow> (string, int) dict" where
  "am_row a w = dict_getd (am_values a) w []"

definition am_zeros :: "string list \<Rightarrow> allocation" where
  "am_zeros hws = \<lparr>am_values = dict_comp WORKER_TYPES (\<lambda>_. dict_comp hws (\<lambda>_. 0))\<rparr>"

definition am_get :: "allocation \<Rightarrow> string \<Rightarrow> string \<Rightarrow> int" where
  "am_get a w h = dict_getd (am_row a w) h 0"

text \<open>\<open>alloc.values[w][h] = v\<close>, without the clamp of \<open>set\<close>.\<close>

definition am_put :: "allocation \<Rightarrow> string \<Rightarrow> string \<Rightarrow> int \<Rightarrow> allocation" where
  "am_put a w h v =
     a\<lparr>am_values := AList.update w (AList.update h v (am_row a w)) (am_values a)\<rparr>"

definition am_set :: "allocation \<Rightarrow> string \<Rightarrow> string \<Rightarrow> int \<Rightarrow> allocation" where
  "am_set a w h v = am_put a w h (max 0 v)"

definition uniform_hw :: "string \<Rightarrow> int \<Rightarrow> allocation \<Rightarrow> allocation" where
  "uniform_hw hw cnt a =
     (let n = max 0 cnt; k = int (length WORKER_TYPES);
          base = n div k; rem = n mod k;
          a1 = foldl (\<lambda>a w. am_put a w hw base) a WORKER_TYPES
      in foldl (\<lambda>a w. am_put a w hw (am_get a w hw + 1)) a1 (take (nat rem) WORKER_TYPES))"

definition am_uniform :: "capacity \<Rightarrow> allocation" where
  "am_uniform cap =
     foldl (\<lambda>a (hw, cnt). uniform_hw hw cnt a) (am_zeros (map fst cap)) cap"

text \<open>A deep copy; in a value semantics the matrix itself.\<close>

definition am_clone :: "allocation \<Rightarrow> allocation" where
  "am_clone a = \<lparr>am_values = map (\<lambda>(t, hw). (t, hw)) (am_values a)\<rparr>"

definition hardware_types :: "allocation \<Rightarrow> string list" where
  "hardware_types a = foldl (\<lambda>seen w. dedup_from seen (map fst (am_row a w))) [] WORKER_TYPES"

definition total_for_hardware :: "allocation \<Rightarrow> string \<Rightarrow> int" where
  "total_for_hardware a h = sum_list (map (\<lambda>w. am_get a w h) WORKER_TYPES)"

definition total_gpus :: "allocation \<Rightarrow> int" where
  "total_gpus a = sum_list (map (\<lambda>(w, row). sum_list (map snd row)) (am_values a))"

definition unused_for_hardware :: "allocation \<Rightarrow> capacity \<Rightarrow> string \<Rightarrow> int" where
  "unused_for_hardware a cap h = max 0 (dict_getd cap h 0 - total_for_hardware a h)"

definition total_unused :: "allocation \<Rightarrow> capacity \<Rightarrow> int" where
  "total_unused a cap = sum_list (map (\<lambda>h. unused_for_hardware a cap h) (map fst cap))"

definition am_add :: "allocation \<Rightarrow> string \<Rightarrow> string \<Rightarrow> int \<Rightarrow> capacity \<Rightarrow> bool \<times> allocation" where
  "am_add a dst h block cap =
     (if block \<le> 0 \<or> dst \<notin> set WORKER_TYPES then (False, a)
      else if unused_for_hardware a cap h < block then (False, a)
      else (True, am_set a dst h (am_get a dst h + block)))"

definition am_move :: "allocation \<Rightarrow> string \<Rightarrow> string \<Rightarrow> string \<Rightarrow> int \<Rightarrow> bool \<times> allocation" where
  "am_move a src dst h block =
     (if src = dst \<or> block \<le> 0 then (False, a)
      else if am_get a src h < block then (False, a)
      else let a1 = am_set a src h (am_get a src h - block)
           in (True, am_set a1 dst h (am_get a1 dst h + block)))"

definition am_validate :: "allocation \<Rightarrow> capacity \<Rightarrow> unit result" where
  "am_validate a cap =
     bind_result
       (check_all (\<lambda>(hw, cnt). if cnt < total_for_hardware a hw
                     then Inl (ValueError ''allocation overuses'') else Inr ()) cap)
       (\<lambda>_. check_all (\<lambda>w. check_all (\<lambda>(hw, count). if count < 0
                     then Inl (ValueError ''negative allocation'') else Inr ()) (am_row a w))
              WORKER_TYPES)"

definition am_as_key :: "allocation \<Rightarrow> (string \<times> (string \<times> int) list) list" where
  "am_as_key a = map (\<lambda>w. (w, sort (am_row a w))) WORKER_TYPES"

section \<open>Plans\<close>

record slice_plan =
  sp_worker_type :: string
  sp_hardware :: string
  sp_gpus :: int
  sp_strategy :: "strategy option"
  sp_throughput :: real
  sp_reconfiguration_cost_s :: real
  sp_score :: real

type_synonym throughput_profile = "(string, real) dict"

definition min_real :: "real list \<Rightarrow> real" where
  "min_real xs = foldl min (hd xs) (tl xs)"

definition bottleneck :: "throughput_profile \<Rightarrow> real" where
  "bottleneck by_worker = min_real (map (\<lambda>w. dict_getd by_worker w 0) WORKER_TYPES)"

type_synonym slice_key = "string \<times> string"

text \<open>The metadata dictionary holds values of several types, \<open>'m\<close> is their sum.\<close>

record 'm deployment_plan =
  p_allocation :: allocation
  p_parallelism :: "(slice_key, strategy) dict"
  p_slice_plans :: "(slice_key, slice_plan) dict"
  p_throughput :: throughput_profile
  p_estimated_latency_s :: xreal
  p_cost_per_hour :: real
  p_req_per_dollar :: real
  p_tail_latency_s :: "(string, xreal) dict"
  p_iterations :: int
  p_metadata :: "(string, 'm) dict"


section \<open>Laws of the matrix\<close>

lemma WORKER_TYPES_simps [simp]:
  "set WORKER_TYPES = {''pre'', ''attn'', ''ffn''}" "distinct WORKER_TYPES"
  "length WORKER_TYPES = 3" "WORKER_TYPES \<noteq> []"
  by (auto simp: WORKER_TYPES_def)

lemma am_row_put [dict_simps]:
  "am_row (am_put a w h v) w' = (if w' = w then AList.update h v (am_row a w) else am_row a w')"
  by (simp add: am_row_def am_put_def dict_simps)

lemma am_get_put [dict_simps]:
  "am_get (am_put a w h v) w' h' = (if w' = w \<and> h' = h then v else am_get a w' h')"
  by (simp add: am_get_def dict_simps)

lemma am_get_set [dict_simps]:
  "am_get (am_set a w h v) w' h' = (if w' = w \<and> h' = h then max 0 v else am_get a w' h')"
  by (simp add: am_set_def dict_simps)

lemma am_get_zeros [simp]: "am_get (am_zeros hws) w h = 0"
  by (simp add: am_get_def am_row_def am_zeros_def dict_getd_def dict_simps)

lemma am_row_zeros [dict_simps]:
  "am_row (am_zeros hws) w = (if w \<in> set WORKER_TYPES then dict_comp hws (\<lambda>_. 0) else [])"
  by (simp add: am_row_def am_zeros_def dict_getd_def dict_simps)

lemma am_clone_id [simp]: "am_clone a = a"
  by (simp add: am_clone_def)

lemma total_for_hardware_alt:
  "total_for_hardware a h = am_get a ''pre'' h + am_get a ''attn'' h + am_get a ''ffn'' h"
  by (simp add: total_for_hardware_def WORKER_TYPES_def)

lemma total_for_hardware_set:
  assumes "w \<in> set WORKER_TYPES"
  shows "total_for_hardware (am_set a w h v) h' =
           total_for_hardware a h' + (if h' = h then max 0 v - am_get a w h else 0)"
  using assms by (auto simp: total_for_hardware_alt dict_simps)

lemma total_for_hardware_zeros [simp]: "total_for_hardware (am_zeros hws) h = 0"
  by (simp add: total_for_hardware_alt)

subsection \<open>Well-formedness\<close>

text \<open>
  The invariant of the matrices the framework builds: the worker types are the rows, rows
  are dictionaries, no entry is negative.
\<close>

definition wf_alloc :: "allocation \<Rightarrow> bool" where
  "wf_alloc a \<longleftrightarrow> map fst (am_values a) = WORKER_TYPES \<and>
     list_all (\<lambda>(w, row). wf_dict row \<and> list_all (\<lambda>(h, n). 0 \<le> n) row) (am_values a)"

lemma wf_alloc_keys: "wf_alloc a \<Longrightarrow> fst ` set (am_values a) = set WORKER_TYPES"
  by (metis list.set_map wf_alloc_def)

lemma am_row_in: "wf_alloc a \<Longrightarrow> w \<in> set WORKER_TYPES \<Longrightarrow> (w, am_row a w) \<in> set (am_values a)"
proof -
  assume wf: "wf_alloc a" and "w \<in> set WORKER_TYPES"
  then have "w \<in> fst ` set (am_values a)" by (simp add: wf_alloc_keys)
  then obtain row where "map_of (am_values a) w = Some row"
    by (metis map_of_eq_None_iff not_None_eq)
  then show ?thesis by (simp add: am_row_def dict_getd_def map_of_SomeD)
qed

lemma am_row_not_in: "wf_alloc a \<Longrightarrow> w \<notin> set WORKER_TYPES \<Longrightarrow> am_row a w = []"
  by (metis am_row_def dict_getd_def map_of_eq_None_iff option.simps(4) wf_alloc_keys)

lemma wf_alloc_row: "wf_alloc a \<Longrightarrow> wf_dict (am_row a w) \<and> list_all (\<lambda>(h, n). 0 \<le> n) (am_row a w)"
proof (cases "w \<in> set WORKER_TYPES")
  case True
  assume "wf_alloc a"
  with am_row_in[OF this True] show ?thesis
    by (fastforce simp: wf_alloc_def list_all_iff)
qed (simp add: am_row_not_in)

lemma wf_alloc_get_nonneg: "wf_alloc a \<Longrightarrow> 0 \<le> am_get a w h"
  using wf_alloc_row[of a w]
  by (auto simp: am_get_def dict_getd_def list_all_iff split: option.splits dest!: map_of_SomeD)

lemma list_all_update:
  "list_all P d \<Longrightarrow> P (k, v) \<Longrightarrow> list_all P (AList.update k v d)"
  by (induction d) auto

lemma wf_alloc_put:
  assumes "wf_alloc a" "w \<in> set WORKER_TYPES" "0 \<le> v"
  shows "wf_alloc (am_put a w h v)"
proof -
  have "w \<in> fst ` set (am_values a)" using assms by (simp add: wf_alloc_keys)
  then have "map fst (am_values (am_put a w h v)) = WORKER_TYPES"
    using assms(1) by (simp add: am_put_def update_keys_present wf_alloc_def)
  moreover have "wf_dict (AList.update h v (am_row a w)) \<and>
      list_all (\<lambda>(h, n). 0 \<le> n) (AList.update h v (am_row a w))"
    using wf_alloc_row[OF assms(1), of w] assms(3) by (simp add: list_all_update)
  ultimately show ?thesis
    using assms(1) by (simp add: wf_alloc_def am_put_def list_all_update)
qed

lemma wf_alloc_set [simp, intro]:
  "wf_alloc a \<Longrightarrow> w \<in> set WORKER_TYPES \<Longrightarrow> wf_alloc (am_set a w h v)"
  unfolding am_set_def by (rule wf_alloc_put) simp_all

lemma wf_alloc_zeros [simp, intro]: "wf_alloc (am_zeros hws)"
proof -
  have "list_all (\<lambda>(h, n). 0 \<le> n) (dict_comp hws (\<lambda>_. 0 :: int))"
  proof -
    have "list_all (\<lambda>(h, n). 0 \<le> n) d \<Longrightarrow>
        list_all (\<lambda>(h, n). 0 \<le> n) (foldl (\<lambda>d k. AList.update k (0::int) d) d hws)" for d
      by (induction hws arbitrary: d) (auto intro: list_all_update)
    then show ?thesis by (simp add: dict_comp_def)
  qed
  then show ?thesis
    by (simp add: wf_alloc_def am_zeros_def dict_comp_distinct comp_def list_all_iff)
qed

lemma total_for_hardware_nonneg: "wf_alloc a \<Longrightarrow> 0 \<le> total_for_hardware a h"
  by (simp add: total_for_hardware_alt wf_alloc_get_nonneg)

lemma total_gpus_put:
  assumes "wf_alloc a" "w \<in> set WORKER_TYPES"
  shows "total_gpus (am_put a w h v) = total_gpus a - am_get a w h + v"
proof -
  let ?sum = "\<lambda>row. sum_list (map snd row) :: int"
  have gen: "wf_dict d \<Longrightarrow> sum_list (map (\<lambda>(w, row). ?sum row) (AList.update w r d)) =
     sum_list (map (\<lambda>(w, row). ?sum row) d) - ?sum (dict_getd d w []) + ?sum r"
    for d :: "(string, (string, int) dict) dict" and r
  proof (induction d)
    case (Cons p d)
    have "w \<notin> fst ` set d \<Longrightarrow> dict_getd d w [] = []"
      by (simp add: dict_getd_def map_of_eq_None_iff [THEN iffD2])
    with Cons show ?case
      by (cases p) (auto simp: wf_dict_def dict_getd_def)
  qed simp
  have "wf_dict (am_values a)" using assms(1) by (simp add: wf_alloc_def wf_dict_def)
  from gen[OF this, of "AList.update h v (am_row a w)"] wf_alloc_row[OF assms(1), of w]
  show ?thesis
    by (simp add: total_gpus_def am_put_def am_row_def am_get_def sum_values_update)
qed


subsection \<open>The uniform allocation\<close>

text \<open>The share of a worker type, by its position in \<open>WORKER_TYPES\<close>.\<close>

definition uniform_share :: "int \<Rightarrow> string \<Rightarrow> int" where
  "uniform_share n w = n div 3 +
     (if w = ''pre'' \<and> 0 < n mod 3 \<or> w = ''attn'' \<and> 1 < n mod 3 then 1 else 0)"

lemma mod3_cases: "(n::int) mod 3 = 0 \<or> n mod 3 = 1 \<or> n mod 3 = 2"
  by presburger

lemma am_get_foldl_put:
  "am_get (foldl (\<lambda>a w. am_put a w hw v) a ws) w h =
     (if w \<in> set ws \<and> h = hw then v else am_get a w h)"
  by (induction ws arbitrary: a) (auto simp: dict_simps)

lemma am_get_foldl_incr:
  "distinct ws \<Longrightarrow> am_get (foldl (\<lambda>a w. am_put a w hw (am_get a w hw + 1)) a ws) w h =
     (if w \<in> set ws \<and> h = hw then am_get a w h + 1 else am_get a w h)"
  by (induction ws arbitrary: a) (auto simp: dict_simps)

lemma take_WORKER_TYPES:
  "w \<in> set (take (nat (n mod 3)) WORKER_TYPES) \<longleftrightarrow>
     w = ''pre'' \<and> 0 < n mod 3 \<or> w = ''attn'' \<and> 1 < n mod 3"
  using mod3_cases[of n] by (elim disjE) (simp_all add: WORKER_TYPES_def numeral_2_eq_2)

lemma am_get_uniform_hw:
  assumes "w \<in> set WORKER_TYPES"
  shows "am_get (uniform_hw hw n a) w h =
           (if h = hw then uniform_share (max 0 n) w else am_get a w h)"
  using assms unfolding uniform_hw_def Let_def
  by (simp add: am_get_foldl_incr am_get_foldl_put take_WORKER_TYPES uniform_share_def
      del: WORKER_TYPES_simps(1))

lemma wf_alloc_uniform_hw: "wf_alloc a \<Longrightarrow> wf_alloc (uniform_hw hw n a)"
proof -
  assume wf: "wf_alloc a"
  define k where "k = max 0 n"
  have k: "0 \<le> k div 3" by (simp add: k_def pos_imp_zdiv_nonneg_iff)
  have base: "wf_alloc (foldl (\<lambda>a w. am_put a w hw (k div 3)) a WORKER_TYPES)"
    using wf k by (auto simp: WORKER_TYPES_def intro!: wf_alloc_put)
  have step: "wf_alloc b \<Longrightarrow> set ws \<subseteq> set WORKER_TYPES \<Longrightarrow>
      wf_alloc (foldl (\<lambda>a w. am_put a w hw (am_get a w hw + 1)) b ws)" for b ws
  proof (induction ws arbitrary: b)
    case (Cons w ws)
    have "wf_alloc (am_put b w hw (am_get b w hw + 1))"
      using Cons.prems wf_alloc_get_nonneg[of b w hw] by (intro wf_alloc_put) auto
    with Cons show ?case by simp
  qed simp
  have "wf_alloc (foldl (\<lambda>a w. am_put a w hw (am_get a w hw + 1))
      (foldl (\<lambda>a w. am_put a w hw (k div 3)) a WORKER_TYPES) (take (nat (k mod 3)) WORKER_TYPES))"
    by (rule step[OF base]) (rule set_take_subset)
  then show ?thesis by (simp add: uniform_hw_def Let_def k_def)
qed

lemma uniform_foldl:
  assumes "wf_dict cap" "w \<in> set WORKER_TYPES"
  shows "am_get (foldl (\<lambda>a (hw, n). uniform_hw hw n a) a cap) w h =
           (case map_of cap h of None \<Rightarrow> am_get a w h | Some n \<Rightarrow> uniform_share (max 0 n) w)"
  using assms
proof (induction cap arbitrary: a)
  case (Cons p cap)
  obtain hw n where p: "p = (hw, n)" by (cases p)
  have "h = hw \<Longrightarrow> map_of cap h = None"
    using Cons.prems(1) p by (auto simp: wf_dict_def map_of_eq_None_iff)
  with Cons p show ?case
    by (auto simp: wf_dict_def am_get_uniform_hw split: option.splits)
qed simp

lemma am_get_uniform:
  assumes "wf_dict cap" "w \<in> set WORKER_TYPES"
  shows "am_get (am_uniform cap) w h = (case map_of cap h of None \<Rightarrow> 0
           | Some n \<Rightarrow> uniform_share (max 0 n) w)"
  using uniform_foldl[OF assms] by (simp add: am_uniform_def split: option.split)

lemma wf_alloc_uniform [simp, intro]: "wf_alloc (am_uniform cap)"
proof -
  have "wf_alloc a \<Longrightarrow> wf_alloc (foldl (\<lambda>a (hw, n). uniform_hw hw n a) a cap)" for a
    by (induction cap arbitrary: a) (auto simp: wf_alloc_uniform_hw)
  then show ?thesis by (simp add: am_uniform_def)
qed

lemma uniform_share_sum:
  "uniform_share n ''pre'' + uniform_share n ''attn'' + uniform_share n ''ffn'' = n"
  using mod3_cases[of n] mult_div_mod_eq[of 3 n]
  by (elim disjE) (simp_all add: uniform_share_def)

lemma total_uniform:
  "wf_dict cap \<Longrightarrow> total_for_hardware (am_uniform cap) h = max 0 (dict_getd cap h 0)"
  by (auto simp: total_for_hardware_alt am_get_uniform uniform_share_sum dict_getd_def
      split: option.splits)

subsection \<open>Validation\<close>

lemma dict_getd_nonneg:
  assumes "wf_dict row"
  shows "(\<forall>h. 0 \<le> dict_getd row h (0::int)) \<longleftrightarrow> (\<forall>(h, n) \<in> set row. 0 \<le> n)" (is "?L \<longleftrightarrow> ?R")
proof
  assume L: ?L
  have "0 \<le> n" if "(h, n) \<in> set row" for h n
    using spec[OF L, of h] wf_dict_map_of[OF assms that] by (simp add: dict_getd_def)
  then show ?R by blast
next
  assume ?R
  then show ?L by (auto simp: dict_getd_def split: option.splits dest: map_of_SomeD)
qed

lemma validate_row:
  assumes "wf_dict row"
  shows "check_all (\<lambda>(hw, count). if count < (0::int) then Inl e else Inr ()) row = Inr () \<longleftrightarrow>
    (\<forall>h. 0 \<le> dict_getd row h 0)"
  unfolding check_all_Inr dict_getd_nonneg[OF assms] by (fastforce split: if_splits)

lemma am_validate_Inr:
  assumes "\<And>w. w \<in> set WORKER_TYPES \<Longrightarrow> wf_dict (am_row a w)"
  shows "am_validate a cap = Inr () \<longleftrightarrow>
    (\<forall>(hw, n) \<in> set cap. total_for_hardware a hw \<le> n) \<and>
    (\<forall>w \<in> set WORKER_TYPES. \<forall>h. 0 \<le> am_get a w h)"
proof -
  have "am_validate a cap = Inr () \<longleftrightarrow>
      (\<forall>(hw, n) \<in> set cap. total_for_hardware a hw \<le> n) \<and>
      (\<forall>w \<in> set WORKER_TYPES. check_all (\<lambda>(hw, count). if count < 0
         then Inl (ValueError ''negative allocation'') else Inr ()) (am_row a w) = Inr ())"
    by (fastforce simp: am_validate_def bind_result_eq_Inr check_all_Inr split: if_splits)
  then show ?thesis using assms by (simp add: validate_row am_get_def)
qed


subsection \<open>Moving and adding GPUs\<close>

lemma total_gpus_set:
  "wf_alloc a \<Longrightarrow> w \<in> set WORKER_TYPES \<Longrightarrow>
     total_gpus (am_set a w h v) = total_gpus a - am_get a w h + max 0 v"
  unfolding am_set_def by (rule total_gpus_put)

lemma am_move_cells:
  assumes "src \<noteq> dst" "0 < block" "block \<le> am_get a src h" "0 \<le> am_get a dst h"
    and "am_move a src dst h block = (b, a')"
  shows "am_get a' w h' = am_get a w h' +
     (if h' = h then (if w = src then - block else if w = dst then block else 0) else 0)"
  using assms by (auto simp: am_move_def Let_def dict_simps)

lemma unused_plus_total:
  "total_for_hardware a h \<le> dict_getd cap h 0 \<Longrightarrow>
     unused_for_hardware a cap h + total_for_hardware a h = dict_getd cap h 0"
  by (simp add: unused_for_hardware_def)

definition within_capacity :: "allocation \<Rightarrow> capacity \<Rightarrow> bool" where
  "within_capacity a cap \<longleftrightarrow> list_all (\<lambda>(hw, n). total_for_hardware a hw \<le> n) cap"

lemma within_capacity_iff:
  "wf_dict cap \<Longrightarrow> within_capacity a cap \<longleftrightarrow>
     (\<forall>hw n. map_of cap hw = Some n \<longrightarrow> total_for_hardware a hw \<le> n)"
  by (auto simp: within_capacity_def list_all_iff wf_dict_def)

lemma validate_wf:
  "wf_alloc a \<Longrightarrow> am_validate a cap = Inr () \<longleftrightarrow> within_capacity a cap"
  using am_validate_Inr[of a cap] wf_alloc_row wf_alloc_get_nonneg
  by (fastforce simp: within_capacity_def list_all_iff)

lemma total_move:
  assumes "wf_alloc a" "src \<in> set WORKER_TYPES" "dst \<in> set WORKER_TYPES"
    and "am_move a src dst h block = (b, a')"
  shows "wf_alloc a'" "total_for_hardware a' h' = total_for_hardware a h'"
    "total_gpus a' = total_gpus a"
  using assms wf_alloc_get_nonneg[OF assms(1), of dst h]
  by (auto simp: am_move_def Let_def total_for_hardware_set total_gpus_set dict_simps
      simp del: WORKER_TYPES_simps(1) split: if_splits)

lemma total_add:
  assumes "wf_alloc a" "am_add a dst h block cap = (True, a')"
  shows "wf_alloc a'"
    "total_for_hardware a' h' = total_for_hardware a h' + (if h' = h then block else 0)"
    "total_for_hardware a' h \<le> dict_getd cap h 0"
    "0 < block" "dst \<in> set WORKER_TYPES"
  using assms wf_alloc_get_nonneg[OF assms(1), of dst h]
  by (auto simp: am_add_def total_for_hardware_set unused_for_hardware_def
      simp del: WORKER_TYPES_simps(1) split: if_splits)

lemma add_refused: "am_add a dst h block cap = (False, a') \<Longrightarrow> a' = a"
  by (auto simp: am_add_def split: if_splits)

lemma move_refused: "am_move a src dst h block = (False, a') \<Longrightarrow> a' = a"
  by (auto simp: am_move_def Let_def split: if_splits)

lemma within_capacity_add:
  assumes "wf_alloc a" "wf_dict cap" "within_capacity a cap" "am_add a dst h block cap = (b, a')"
  shows "wf_alloc a' \<and> within_capacity a' cap"
proof (cases b)
  case True
  then have "am_add a dst h block cap = (True, a')" using assms(4) by simp
  note add = total_add[OF assms(1) this]
  have "total_for_hardware a' hw \<le> n" if "map_of cap hw = Some n" for hw n
    using add(2)[of hw] add(3) assms(3) that
    by (cases "hw = h") (auto simp: within_capacity_iff[OF assms(2)] dict_getd_def)
  with add(1) show ?thesis by (simp add: within_capacity_iff[OF assms(2)])
next
  case False
  with assms(4) have "a' = a" by (auto intro: add_refused)
  with assms show ?thesis by simp
qed

lemma within_capacity_move:
  assumes "wf_alloc a" "within_capacity a cap"
    "src \<in> set WORKER_TYPES" "dst \<in> set WORKER_TYPES" "am_move a src dst h block = (b, a')"
  shows "wf_alloc a' \<and> within_capacity a' cap"
  using total_move[OF assms(1,3,4,5)] assms(2) by (simp add: within_capacity_def)

text \<open>The cache key determines every cell of a well-formed matrix.\<close>

lemma map_of_mset_eq:
  assumes "wf_dict d" "wf_dict e" "set d = set e"
  shows "map_of d = map_of e"
  using assms by (metis map_of_inject_set wf_dict_def)

lemma am_as_key_get:
  assumes "wf_alloc a" "wf_alloc b" "am_as_key a = am_as_key b"
  shows "am_get a w h = am_get b w h"
proof (cases "w \<in> set WORKER_TYPES")
  case True
  then have "sort (am_row a w) = sort (am_row b w)" using assms(3) by (auto simp: am_as_key_def)
  then have "set (am_row a w) = set (am_row b w)" by (metis set_sort)
  then show ?thesis
    using map_of_mset_eq wf_alloc_row[OF assms(1)] wf_alloc_row[OF assms(2)]
    by (metis am_get_def dict_getd_def)
qed (simp add: am_get_def am_row_not_in assms(1,2))

lemma within_capacity_cong:
  "(\<And>w h. am_get a w h = am_get b w h) \<Longrightarrow> within_capacity a cap = within_capacity b cap"
  by (simp add: within_capacity_def total_for_hardware_def)

section \<open>Properties of the matrix\<close>

text \<open>
  \<open>AllocationMatrix.uniform\<close> hands out every GPU of a non-negative capacity: the
  matrix passes \<open>validate\<close>, no GPU of any listed hardware stays unused, and for every
  hardware the shares of \<open>pre\<close>, \<open>attn\<close> and \<open>ffn\<close> differ by at most one, the earlier
  worker types taking the remainder.
\<close>

theorem am_uniform_exhausts_capacity:
  assumes "wf_dict cap" "\<forall>(hw, n) \<in> set cap. 0 \<le> n"
  shows "am_validate (am_uniform cap) cap = Inr () \<and>
    total_unused (am_uniform cap) cap = 0 \<and>
    (\<forall>hw. am_get (am_uniform cap) ''ffn'' hw \<le> am_get (am_uniform cap) ''attn'' hw \<and>
          am_get (am_uniform cap) ''attn'' hw \<le> am_get (am_uniform cap) ''pre'' hw \<and>
          am_get (am_uniform cap) ''pre'' hw \<le> am_get (am_uniform cap) ''ffn'' hw + 1)"
proof (intro conjI allI)
  have total: "total_for_hardware (am_uniform cap) hw = n" if "(hw, n) \<in> set cap" for hw n
    using that assms by (auto simp: total_uniform dict_getd_def wf_dict_map_of)
  then show "am_validate (am_uniform cap) cap = Inr ()"
    by (auto simp: validate_wf within_capacity_def list_all_iff)
  have "unused_for_hardware (am_uniform cap) cap hw = 0" if "(hw, n) \<in> set cap" for hw n
    using total[OF that] wf_dict_map_of[OF assms(1) that]
    by (simp add: unused_for_hardware_def dict_getd_def)
  then have "map (\<lambda>h. unused_for_hardware (am_uniform cap) cap h) (map fst cap) = map (\<lambda>_. 0) cap"
    by auto
  then show "total_unused (am_uniform cap) cap = 0"
    by (simp only: total_unused_def) simp
qed (auto simp: am_get_uniform[OF assms(1)] uniform_share_def split: option.splits)

theorem am_uniform_exhausts_capacity_witness:
  "am_validate (am_uniform [(''H100'', 4), (''H20'', 5)]) [(''H100'', 4), (''H20'', 5)] = Inr () \<and>
   total_unused (am_uniform [(''H100'', 4), (''H20'', 5)]) [(''H100'', 4), (''H20'', 5)] = 0"
  using am_uniform_exhausts_capacity[of "[(''H100'', 4), (''H20'', 5)]"]
  by (simp add: wf_dict_def)

text \<open>
  \<open>AllocationMatrix.move\<close> between worker types succeeds exactly when source and
  destination differ, the block is positive and the source holds it. It then shifts the
  block from the one cell to the other and changes no other cell, so the GPUs in use per
  hardware and in total stay the same and no entry becomes negative; a refused move leaves
  the matrix as it was.
\<close>

theorem am_move_conserves_gpus:
  assumes "wf_alloc a" "src \<in> set WORKER_TYPES" "dst \<in> set WORKER_TYPES"
    and "am_move a src dst h block = (moved, a')"
  shows "(moved \<longleftrightarrow> src \<noteq> dst \<and> 0 < block \<and> block \<le> am_get a src h) \<and>
    (if moved then (\<forall>w h'. am_get a' w h' = am_get a w h' +
         (if h' = h then (if w = src then - block else if w = dst then block else 0) else 0))
     else a' = a) \<and>
    wf_alloc a' \<and> (\<forall>h'. total_for_hardware a' h' = total_for_hardware a h') \<and>
    total_gpus a' = total_gpus a"
proof -
  have "moved \<longleftrightarrow> src \<noteq> dst \<and> 0 < block \<and> block \<le> am_get a src h"
    using assms(4) by (auto simp: am_move_def Let_def split: if_splits)
  then show ?thesis
    using total_move[OF assms] am_move_cells[OF _ _ _ _ assms(4)] move_refused assms(4)
      wf_alloc_get_nonneg[OF assms(1)] by auto
qed

theorem am_move_conserves_gpus_witness:
  "total_gpus (snd (am_move (am_uniform [(''H100'', 6)]) ''pre'' ''ffn'' ''H100'' 2)) = 6 \<and>
   fst (am_move (am_uniform [(''H100'', 6)]) ''pre'' ''ffn'' ''H100'' 2)"
proof -
  have "total_gpus (am_uniform [(''H100'', 6)]) = 6"
    and "am_get (am_uniform [(''H100'', 6)]) ''pre'' ''H100'' = 2"
    by code_simp+
  then show ?thesis
    using am_move_conserves_gpus[OF wf_alloc_uniform _ _ prod.collapse [symmetric],
        of "''pre''" "''ffn''" "[(''H100'', 6)]" "''H100''" 2] by simp
qed

text \<open>
  \<open>AllocationMatrix.add\<close> never over-commits: it succeeds exactly when the block is
  positive, the destination is a worker type and that many GPUs of the hardware are unused.
  The block then goes to that one cell, the unused count shrinks by the block, and a matrix
  that fits the capacity still fits it; a refused addition changes nothing.
\<close>

theorem am_add_never_overcommits:
  assumes "wf_alloc a" "wf_dict cap" "within_capacity a cap"
    and "am_add a dst h block cap = (added, a')"
  shows "(added \<longleftrightarrow> 0 < block \<and> dst \<in> set WORKER_TYPES \<and>
        block \<le> unused_for_hardware a cap h) \<and>
    (if added then (\<forall>w h'. am_get a' w h' = am_get a w h' +
         (if w = dst \<and> h' = h then block else 0)) \<and>
         unused_for_hardware a' cap h = unused_for_hardware a cap h - block
     else a' = a) \<and>
    wf_alloc a' \<and> am_validate a' cap = Inr ()"
proof -
  have iff: "added \<longleftrightarrow> 0 < block \<and> dst \<in> set WORKER_TYPES \<and>
      block \<le> unused_for_hardware a cap h"
    using assms(4) by (auto simp: am_add_def split: if_splits)
  have wf: "wf_alloc a'" "am_validate a' cap = Inr ()"
    using within_capacity_add[OF assms] by (simp_all add: validate_wf)
  show ?thesis
  proof (cases added)
    case True
    then have "am_add a dst h block cap = (True, a')" using assms(4) by simp
    note add = total_add[OF assms(1) this]
    have "am_get a' w h' = am_get a w h' + (if w = dst \<and> h' = h then block else 0)" for w h'
      using assms(4) True add(4) wf_alloc_get_nonneg[OF assms(1), of dst h]
      by (auto simp: am_add_def dict_simps split: if_splits)
    moreover have "unused_for_hardware a' cap h = unused_for_hardware a cap h - block"
      using add(2)[of h] add(3,4) by (simp add: unused_for_hardware_def)
    ultimately show ?thesis using iff wf True by simp
  qed (use iff wf add_refused assms(4) in auto)
qed

theorem am_add_never_overcommits_witness:
  "fst (am_add (am_zeros [''H20'']) ''attn'' ''H20'' 3 [(''H20'', 4)]) \<and>
   \<not> fst (am_add (am_zeros [''H20'']) ''attn'' ''H20'' 5 [(''H20'', 4)])"
  using am_add_never_overcommits[of "am_zeros [''H20'']" "[(''H20'', 4)]" "''attn''" "''H20''" 3]
    am_add_never_overcommits[of "am_zeros [''H20'']" "[(''H20'', 4)]" "''attn''" "''H20''" 5]
  by (simp add: wf_dict_def within_capacity_def am_add_def unused_for_hardware_def dict_getd_def)


section \<open>Properties of strategies\<close>

lemma max_int_Max: "xs \<noteq> [] \<Longrightarrow> max_int xs = Max (set xs)"
proof -
  have swap: "(\<lambda>x s. max s x) = (max :: int \<Rightarrow> int \<Rightarrow> int)"
    by (intro ext) (rule max.commute)
  show "xs \<noteq> [] \<Longrightarrow> ?thesis"
    by (cases xs) (simp_all add: max_int_def foldl_conv_fold swap Max.set_eq_fold del: list.set)
qed

lemma all_eq_hd_Max:
  fixes f :: "'a \<Rightarrow> int"
  assumes "xs \<noteq> []" "all_same f xs"
  shows "f (hd xs) = Max (set (map f xs))"
proof -
  have "f ` set xs = (\<lambda>_. f (hd xs)) ` set xs"
    by (rule image_cong) (simp_all add: all_sameD[OF assms(2)])
  then show ?thesis using assms(1) by (simp add: image_constant_conv)
qed

lemma finish_strategy_fields:
  assumes "rs \<noteq> []"
  shows "s_dp (finish_strategy rs) = int (length rs)"
    "s_tp (finish_strategy rs) = Max (set (map r_tp rs))"
    "s_ep (finish_strategy rs) = Max (set (map r_ep rs))"
    "s_replicas (finish_strategy rs) = rs"
  using assms all_eq_hd_Max[OF assms, of r_tp] all_eq_hd_Max[OF assms, of r_ep]
  by (simp_all add: finish_strategy_def max_int_Max)

lemma from_replicas_eq [result_simps]:
  "from_replicas rs = (if rs = [] then Inl (ValueError ''replicas must be non-empty'')
     else Inr (finish_strategy rs))"
proof -
  have "map_result normalize_replica (map ReplicaObj rs) = Inr (map id rs)"
    by (induction rs) (simp_all add: normalize_replica_def)
  then show ?thesis by (simp add: from_replicas_def ParallelismStrategy_def)
qed

lemma ParallelismReplica_pos: "0 < tp \<Longrightarrow> 0 < ep \<Longrightarrow>
    ParallelismReplica tp ep = Inr \<lparr>r_tp = tp, r_ep = ep\<rparr>"
  by (simp add: ParallelismReplica_def)

lemma ParallelismStrategy_uniform [result_simps]:
  "ParallelismStrategy dp tp ep [] =
     (if dp \<le> 0 \<or> tp \<le> 0 \<or> ep \<le> 0 then Inl (ValueError ''dp, tp, and ep must be positive'')
      else Inr (finish_strategy (replicate (nat dp) \<lparr>r_tp = tp, r_ep = ep\<rparr>)))"
proof (cases "dp \<le> 0 \<or> tp \<le> 0 \<or> ep \<le> 0")
  case False
  then have "map_result (\<lambda>_. ParallelismReplica tp ep) [0..<nat dp] =
      Inr (map (\<lambda>_. \<lparr>r_tp = tp, r_ep = ep\<rparr>) [0..<nat dp])"
    by (intro map_result_all_Inr) (simp add: ParallelismReplica_pos)
  then show ?thesis
    using False by (simp add: ParallelismStrategy_def map_replicate_trivial map_replicate_const)
qed (auto simp: ParallelismStrategy_def)

lemma wf_finish_strategy:
  "rs \<noteq> [] \<Longrightarrow> list_all wf_replica rs \<Longrightarrow> wf_strategy (finish_strategy rs)"
  by (simp add: wf_strategy_def finish_strategy_fields)

lemma strategy_gpus_finish: "rs \<noteq> [] \<Longrightarrow> strategy_gpus (finish_strategy rs) = sum_list (map r_tp rs)"
  by (simp add: strategy_gpus_def finish_strategy_fields replica_gpus_def cong: map_cong)

lemma strategy_gpus_pos: "wf_strategy s \<Longrightarrow> 0 < strategy_gpus s"
proof -
  assume wf: "wf_strategy s"
  have "list_all wf_replica rs \<Longrightarrow> 0 \<le> sum_list (map replica_gpus rs)" for rs
    by (induction rs) (auto simp: wf_replica_def replica_gpus_def)
  with wf show ?thesis
    by (cases "s_replicas s")
      (auto simp: wf_strategy_def strategy_gpus_def replica_gpus_def wf_replica_def add_pos_nonneg)
qed

lemma sum_le_length_times:
  fixes f :: "'a \<Rightarrow> int"
  assumes "\<And>x. x \<in> set xs \<Longrightarrow> f x \<le> m"
  shows "sum_list (map f xs) \<le> int (length xs) * m \<and>
    (sum_list (map f xs) = int (length xs) * m \<longleftrightarrow> (\<forall>x \<in> set xs. f x = m))"
  using assms
proof (induction xs)
  case (Cons x xs)
  have "f x \<le> m" by (simp add: Cons.prems)
  moreover have "sum_list (map f xs) \<le> int (length xs) * m \<and>
    (sum_list (map f xs) = int (length xs) * m \<longleftrightarrow> (\<forall>x \<in> set xs. f x = m))"
    using Cons by simp
  ultimately show ?case by (auto simp: algebra_simps)
qed simp

lemma normalize_replica_wf:
  "normalize_replica x = Inr r \<Longrightarrow> (\<And>r. x = ReplicaObj r \<Longrightarrow> wf_replica r) \<Longrightarrow> wf_replica r"
  by (cases x) (auto simp: normalize_replica_def ParallelismReplica_def wf_replica_def
      split: if_splits)

lemma strategy_args_wf:
  assumes "map_result normalize_replica args = Inr rs"
    and "\<And>r. ReplicaObj r \<in> set args \<Longrightarrow> wf_replica r"
  shows "list_all wf_replica rs"
  using assms
proof (induction args arbitrary: rs)
  case (Cons x xs)
  from Cons.prems(1) obtain r rs' where r: "normalize_replica x = Inr r"
      "map_result normalize_replica xs = Inr rs'" "rs = r # rs'"
    by (auto simp: bind_result_eq_Inr)
  have "list_all wf_replica rs'" by (rule Cons.IH[OF r(2)]) (simp add: Cons.prems(2))
  moreover have "wf_replica r" by (rule normalize_replica_wf[OF r(1)]) (simp add: Cons.prems(2))
  ultimately show ?case by (simp add: r(3))
qed simp

lemma ParallelismStrategy_cases:
  assumes "ParallelismStrategy dp tp ep args = Inr s"
    and "\<And>r. ReplicaObj r \<in> set args \<Longrightarrow> wf_replica r"
  obtains rs where "rs \<noteq> []" "list_all wf_replica rs" "s = finish_strategy rs"
    "args = [] \<Longrightarrow> rs = replicate (nat dp) \<lparr>r_tp = tp, r_ep = ep\<rparr> \<and> 0 < dp"
proof (cases "args = []")
  case True
  with assms(1) that[of "replicate (nat dp) \<lparr>r_tp = tp, r_ep = ep\<rparr>"] show ?thesis
    by (auto simp: ParallelismStrategy_uniform list_all_iff wf_replica_def split: if_splits)
next
  case False
  with assms(1) obtain rs where "map_result normalize_replica args = Inr rs" "rs \<noteq> []"
      "s = finish_strategy rs"
    by (auto simp: ParallelismStrategy_def bind_result_eq_Inr split: if_splits)
  with False that strategy_args_wf assms(2) show ?thesis by metis
qed

text \<open>
  C8. A strategy that the \<open>ParallelismStrategy\<close> constructor returns carries summary fields
  that describe its replicas: \<open>dp\<close> is their number, \<open>tp\<close> and \<open>ep\<close> their maxima; the GPUs it
  occupies are the sum of the TP degrees, at most \<open>dp * tp\<close>, and equal to it exactly when
  all replicas have the same TP. The three-argument form yields \<open>dp\<close> equal replicas.
\<close>

theorem ParallelismStrategy_summary:
  assumes "ParallelismStrategy dp tp ep args = Inr s"
    and "\<And>r. ReplicaObj r \<in> set args \<Longrightarrow> wf_replica r"
  shows "wf_strategy s \<and> s_dp s = int (length (s_replicas s)) \<and>
    s_tp s = Max (set (map r_tp (s_replicas s))) \<and> s_ep s = Max (set (map r_ep (s_replicas s))) \<and>
    strategy_gpus s \<le> s_dp s * s_tp s \<and>
    (strategy_gpus s = s_dp s * s_tp s \<longleftrightarrow> list_all (\<lambda>r. r_tp r = s_tp s) (s_replicas s)) \<and>
    (args = [] \<longrightarrow> is_uniform s \<and> s_dp s = dp \<and> s_tp s = tp \<and> s_ep s = ep)"
proof -
  obtain rs where rs: "rs \<noteq> []" "list_all wf_replica rs" "s = finish_strategy rs"
    "args = [] \<Longrightarrow> rs = replicate (nat dp) \<lparr>r_tp = tp, r_ep = ep\<rparr> \<and> 0 < dp"
    using ParallelismStrategy_cases[OF assms] by metis
  note f = finish_strategy_fields[OF rs(1)]
  have gpus: "strategy_gpus s \<le> s_dp s * s_tp s \<and>
      (strategy_gpus s = s_dp s * s_tp s \<longleftrightarrow> list_all (\<lambda>r. r_tp r = s_tp s) (s_replicas s))"
    using sum_le_length_times[of rs r_tp "s_tp s"] rs(1,3) f
    by (simp add: strategy_gpus_finish list_all_iff)
  have uniform: "is_uniform s \<and> s_dp s = dp \<and> s_tp s = tp \<and> s_ep s = ep" if "args = []"
    using rs(1,3) rs(4)[OF that] by (simp add: is_uniform_def finish_strategy_def)
  show ?thesis
    using gpus uniform f wf_finish_strategy[OF rs(1,2)] unfolding rs(3) by simp
qed

theorem ParallelismStrategy_summary_witness:
  "\<exists>s. ParallelismStrategy 3 2 1 [] = Inr s \<and> strategy_gpus s = 6 \<and> is_uniform s"
proof -
  obtain s where s: "ParallelismStrategy 3 2 1 [] = Inr s"
    by (simp add: ParallelismStrategy_uniform)
  have "strategy_gpus s = s_dp s * s_tp s"
    using s by (auto simp: ParallelismStrategy_uniform strategy_gpus_finish finish_strategy_fields
        sum_list_replicate)
  with s ParallelismStrategy_summary[OF s] show ?thesis by auto
qed

end
