(* ===== verification/Local_Scheduler.thy ===== *)
theory Local_Scheduler
  imports Scheduling_Types
begin

text \<open>
  The local scheduler, \<open>scheduler/simulator/scheduling/local_scheduler.py\<close>: for a fixed
  allocation matrix it enumerates the valid \<open>(DP, TP, EP)\<close> strategies of every slice, projects
  the previous strategy, scores the candidates with the reload-cost amortisation and picks
  one per slice, the decode slices under the constraint that attention and FFN get the same
  total DP. The estimator object is an argument, as in the constructor of the class; what
  the lemmas need of it is the locale \<open>estimator_contract\<close>.

  Python's generators are lists here; the loop that consumes them stops at the same element.
  The iteration order of a Python \<open>set\<close> of integers is unspecified, so \<open>max(common_dp, ...)\<close>
  takes the order in which the set is traversed as an argument \<open>set_order\<close>.
\<close>

record local_config =
  node_gpus :: int
  enumerate_non_uniform :: bool
  max_local_strategies :: int
  enable_expert_parallel :: bool
  num_experts :: int
  match_attn_ffn_dp :: bool
  cost_aware :: bool
  stability_window_s :: real
  reload_bandwidth_gbps :: real
  model_size_gb :: real

text \<open>The methods of \<open>SimulatorEstimator\<close> that the scheduler calls.\<close>

record estimator =
  est_slice_throughput :: "string \<Rightarrow> string \<Rightarrow> strategy \<Rightarrow> workload_profile \<Rightarrow> real"
  est_latency :: "workload_profile \<Rightarrow> throughput_profile \<Rightarrow> xreal"
  est_tail_latency :: "workload_profile \<Rightarrow> throughput_profile \<Rightarrow> (string, xreal) dict"
  est_cost_per_hour :: "allocation \<Rightarrow> real"

section \<open>Enumeration of strategies\<close>

text \<open>
  The recursive generator of TP partitions. It is started with \<open>min_tp = 1\<close> and only ever
  raises it; with \<open>min_tp \<le> 0\<close> the Python recursion would not end, the model yields nothing.
\<close>

function tp_partitions :: "int \<Rightarrow> int \<Rightarrow> int \<Rightarrow> int list \<Rightarrow> int list list" where
  "tp_partitions remaining min_tp max_tp prefix =
     (if remaining = 0 then [prefix]
      else if min_tp \<le> 0 then []
      else concat (map (\<lambda>tp. tp_partitions (remaining - tp) tp max_tp (prefix @ [tp]))
                       [min_tp..min max_tp remaining]))"
  by pat_completeness auto
termination
  by (relation "measure (\<lambda>(remaining, _, _, _). nat remaining)") auto

declare tp_partitions.simps [simp del]

definition divisors :: "int \<Rightarrow> int list" where
  "divisors v = filter (\<lambda>c. v mod c = 0) [1..v]"

definition intra_replica_ep_candidates :: "local_config \<Rightarrow> int \<Rightarrow> int list" where
  "intra_replica_ep_candidates cfg tp =
     (let eps = filter (\<lambda>ep. ep \<le> tp \<and> tp mod ep = 0 \<and> num_experts cfg mod ep = 0)
                  (divisors (min tp (num_experts cfg)))
      in if eps = [] then [1] else eps)"

definition cross_replica_ep_candidates :: "local_config \<Rightarrow> int \<Rightarrow> int list" where
  "cross_replica_ep_candidates cfg tp =
     filter (\<lambda>ep. ep mod tp = 0 \<and> num_experts cfg mod ep = 0)
       [tp + 1..min (node_gpus cfg) (num_experts cfg)]"

definition strategy_of_pairs :: "(int \<times> int) list \<Rightarrow> strategy result" where
  "strategy_of_pairs ps =
     bind_result (map_result (\<lambda>(tp, ep). ParallelismReplica tp ep) ps) from_replicas"

definition strategies_for_tp_partition :: "local_config \<Rightarrow> int list \<Rightarrow> strategy result list" where
  "strategies_for_tp_partition cfg tps =
     (if \<not> enable_expert_parallel cfg \<or> num_experts cfg \<le> 1
      then [strategy_of_pairs (map (\<lambda>tp. (tp, 1)) tps)]
      else map (\<lambda>eps. strategy_of_pairs (zip tps eps))
             (product_lists (map (intra_replica_ep_candidates cfg) tps)) @
           (if length (remdups tps) = 1
            then map (\<lambda>ep. strategy_of_pairs (map (\<lambda>tp. (tp, ep)) tps))
                   (cross_replica_ep_candidates cfg (hd tps))
            else []))"

definition replica_fits :: "local_config \<Rightarrow> replica \<Rightarrow> bool" where
  "replica_fits cfg r \<longleftrightarrow> \<not> (node_gpus cfg < max (r_tp r) (r_ep r)) \<and>
     (if r_ep r \<le> r_tp r then r_tp r mod r_ep r = 0 else r_ep r mod r_tp r = 0)"

definition is_strategy_valid :: "local_config \<Rightarrow> strategy \<Rightarrow> int \<Rightarrow> bool" where
  "is_strategy_valid cfg s gpus =
     (if strategy_gpus s \<noteq> gpus then False
      else if list_ex (\<lambda>r. r_tp r < r_ep r) (s_replicas s) \<and>
              \<not> (all_same r_tp (s_replicas s) \<and>
                 all_same r_ep (s_replicas s))
      then False
      else list_all (replica_fits cfg) (s_replicas s))"

definition partitions_of :: "local_config \<Rightarrow> int \<Rightarrow> int list list" where
  "partitions_of cfg gpus =
     (if enumerate_non_uniform cfg
      then tp_partitions gpus 1 (min gpus (node_gpus cfg)) []
      else map (\<lambda>tp. replicate (nat (gpus div tp)) tp)
             (filter (\<lambda>tp. tp \<le> node_gpus cfg) (divisors gpus)))"

fun collect_strategies ::
    "local_config \<Rightarrow> int \<Rightarrow> (int \<times> int) list set \<Rightarrow> strategy list \<Rightarrow> strategy result list \<Rightarrow>
     strategy list result" where
  "collect_strategies cfg gpus seen acc [] = Inr acc"
| "collect_strategies cfg gpus seen acc (Inl e # cs) = Inl e"
| "collect_strategies cfg gpus seen acc (Inr s # cs) =
     (if \<not> is_strategy_valid cfg s gpus then collect_strategies cfg gpus seen acc cs
      else if strategy_as_tuple s \<in> seen then collect_strategies cfg gpus seen acc cs
      else let acc' = acc @ [s] in
           if max_local_strategies cfg \<le> int (length acc') then Inr acc'
           else collect_strategies cfg gpus (insert (strategy_as_tuple s) seen) acc' cs)"

definition enumerate_strategies :: "local_config \<Rightarrow> int \<Rightarrow> strategy list result" where
  "enumerate_strategies cfg gpus =
     (if gpus \<le> 0 then Inr []
      else collect_strategies cfg gpus {} []
             (concat (map (strategies_for_tp_partition cfg) (partitions_of cfg gpus))))"

section \<open>Warm start and scoring\<close>

definition project_strategy ::
    "local_config \<Rightarrow> strategy option \<Rightarrow> int \<Rightarrow> strategy option result" where
  "project_strategy cfg previous gpus =
     (case previous of None \<Rightarrow> Inr None
      | Some prev \<Rightarrow>
         if gpus \<le> 0 then Inr None
         else if strategy_gpus prev = gpus \<and> is_strategy_valid cfg prev gpus then Inr (Some prev)
         else if is_uniform prev then
           (let r = hd (s_replicas prev) in
            if gpus mod r_tp r \<noteq> 0 then Inr None
            else bind_result (ParallelismStrategy (gpus div r_tp r) (r_tp r) (r_ep r) [])
                   (\<lambda>c. Inr (if is_strategy_valid cfg c gpus then Some c else None)))
         else if strategy_gpus prev \<le> 0 \<or> gpus mod strategy_gpus prev \<noteq> 0 then Inr None
         else bind_result
                (from_replicas (concat (replicate (nat (gpus div strategy_gpus prev))
                                                  (s_replicas prev))))
                (\<lambda>c. Inr (if is_strategy_valid cfg c gpus then Some c else None)))"

definition base_reload :: "local_config \<Rightarrow> real" where
  "base_reload cfg = (model_size_gb cfg * 10 ^ 9) /
                     (max (reload_bandwidth_gbps cfg) (1 / 10 ^ 6) * 10 ^ 9)"

definition reconfiguration_cost_s :: "local_config \<Rightarrow> strategy option \<Rightarrow> strategy \<Rightarrow> real" where
  "reconfiguration_cost_s cfg previous candidate =
     (case previous of None \<Rightarrow> 0
      | Some prev \<Rightarrow>
         if strategy_as_tuple prev = strategy_as_tuple candidate then 0
         else if set (map replica_as_tuple (s_replicas candidate)) \<subseteq>
                 set (map replica_as_tuple (s_replicas prev)) then
           (let added = max 0 (s_dp candidate - s_dp prev) in
            if added = 0 then 0
            else base_reload cfg * (of_int added / of_int (max (s_dp candidate) 1)))
         else base_reload cfg)"

definition candidate_score ::
    "local_config \<Rightarrow> real \<Rightarrow> real \<Rightarrow> strategy option \<Rightarrow> strategy \<Rightarrow> real \<times> real" where
  "candidate_score cfg throughput previous_throughput previous candidate =
     (if \<not> cost_aware cfg then (throughput, 0)
      else let tau = reconfiguration_cost_s cfg previous candidate;
               window = stability_window_s cfg
           in if previous = None then (throughput * window, tau)
              else if tau \<le> 0 then (throughput * window, tau)
              else if window \<le> tau then (-1, tau)
              else let gain = (throughput - previous_throughput) * (window - tau);
                       reload_loss = previous_throughput * tau
                   in if gain \<le> reload_loss then (-1, tau)
                      else (throughput * (window - tau), tau))"

definition mk_slice_plan ::
    "local_config \<Rightarrow> estimator \<Rightarrow> string \<Rightarrow> string \<Rightarrow> int \<Rightarrow> workload_profile \<Rightarrow>
     strategy option \<Rightarrow> real \<Rightarrow> strategy \<Rightarrow> slice_plan" where
  "mk_slice_plan cfg est worker hardware gpus workload projected previous_throughput s =
     (let throughput = est_slice_throughput est worker hardware s workload;
          (score, tau) = candidate_score cfg throughput previous_throughput projected s
      in \<lparr>sp_worker_type = worker, sp_hardware = hardware, sp_gpus = gpus,
          sp_strategy = Some s, sp_throughput = throughput,
          sp_reconfiguration_cost_s = tau, sp_score = score\<rparr>)"

definition candidate_slice_plans ::
    "local_config \<Rightarrow> estimator \<Rightarrow> string \<Rightarrow> string \<Rightarrow> int \<Rightarrow> workload_profile \<Rightarrow>
     strategy option \<Rightarrow> slice_plan list result" where
  "candidate_slice_plans cfg est worker hardware gpus workload previous =
     bind_result (project_strategy cfg previous gpus) (\<lambda>projected.
       let previous_throughput = (case projected of None \<Rightarrow> 0
             | Some p \<Rightarrow> est_slice_throughput est worker hardware p workload)
       in bind_result (enumerate_strategies cfg gpus) (\<lambda>strategies.
            let all_strategies = (case projected of None \<Rightarrow> strategies
                  | Some p \<Rightarrow> if strategy_as_tuple p \<in> set (map strategy_as_tuple strategies)
                             then strategies else strategies @ [p])
            in Inr (map (mk_slice_plan cfg est worker hardware gpus workload projected
                           previous_throughput) all_strategies)))"

text \<open>The loop of \<open>choose_strategy\<close>: a strictly better score replaces the best plan so far.\<close>

definition better_plan :: "slice_plan \<Rightarrow> slice_plan \<Rightarrow> slice_plan" where
  "better_plan best plan =
     (if sp_score best < sp_score plan
      then best\<lparr>sp_score := sp_score plan,
                sp_reconfiguration_cost_s := sp_reconfiguration_cost_s plan,
                sp_throughput := sp_throughput plan, sp_strategy := sp_strategy plan\<rparr>
      else best)"

definition choose_strategy ::
    "local_config \<Rightarrow> estimator \<Rightarrow> string \<Rightarrow> string \<Rightarrow> int \<Rightarrow> workload_profile \<Rightarrow>
     strategy option \<Rightarrow> slice_plan result" where
  "choose_strategy cfg est worker hardware gpus workload previous =
     bind_result (candidate_slice_plans cfg est worker hardware gpus workload previous)
       (\<lambda>plans. Inr (foldl better_plan
          \<lparr>sp_worker_type = worker, sp_hardware = hardware, sp_gpus = gpus,
           sp_strategy = None, sp_throughput = 0, sp_reconfiguration_cost_s = 0,
           sp_score = -1\<rparr> plans))"

section \<open>Matched DP for the decode workers\<close>

record combo =
  c_score :: real
  c_throughput :: real
  c_plans :: "(slice_key, slice_plan) dict"

definition relax ::
    "slice_key \<Rightarrow> int \<Rightarrow> combo \<Rightarrow> (int, combo) dict \<Rightarrow> slice_plan \<Rightarrow> (int, combo) dict" where
  "relax key dp_sum state next_states candidate =
     (case sp_strategy candidate of None \<Rightarrow> next_states
      | Some s \<Rightarrow>
         let next_dp = dp_sum + s_dp s;
             score = c_score state + sp_score candidate;
             throughput = c_throughput state + sp_throughput candidate;
             new = \<lparr>c_score = score, c_throughput = throughput,
                    c_plans = AList.update key candidate (c_plans state)\<rparr>
         in case map_of next_states next_dp of
              None \<Rightarrow> AList.update next_dp new next_states
            | Some current \<Rightarrow>
                if (c_score current, c_throughput current) < (score, throughput)
                then AList.update next_dp new next_states else next_states)"

definition combine_slice ::
    "(int, combo) dict \<Rightarrow> slice_key \<times> slice_plan list \<Rightarrow> (int, combo) dict" where
  "combine_slice states kc = (case kc of (key, candidates) \<Rightarrow>
     foldl (\<lambda>next_states (dp_sum, state). foldl (relax key dp_sum state) next_states candidates)
       [] states)"

definition best_worker_combinations_by_dp ::
    "(slice_key \<times> slice_plan list) list \<Rightarrow> (int, combo) dict" where
  "best_worker_combinations_by_dp slices =
     filter (\<lambda>(dp, state). 0 < dp)
       (foldl combine_slice [(0, \<lparr>c_score = 0, c_throughput = 0, c_plans = []\<rparr>)] slices)"

type_synonym previous_parallelism = "(slice_key, strategy) dict option"

definition previous_of :: "previous_parallelism \<Rightarrow> slice_key \<Rightarrow> strategy option" where
  "previous_of pp key = (case pp of None \<Rightarrow> None | Some d \<Rightarrow> map_of d key)"

definition decode_slices ::
    "local_config \<Rightarrow> estimator \<Rightarrow> workload_profile \<Rightarrow> allocation \<Rightarrow> previous_parallelism \<Rightarrow>
     string \<Rightarrow> (slice_key \<times> slice_plan list) list result" where
  "decode_slices cfg est workload a pp worker =
     fold_result (\<lambda>slices hardware.
        let gpus = am_get a worker hardware in
        if gpus \<le> 0 then Inr slices
        else bind_result (candidate_slice_plans cfg est worker hardware gpus workload
                            (previous_of pp (worker, hardware)))
               (\<lambda>candidates. Inr (if candidates = [] then slices
                                  else slices @ [((worker, hardware), candidates)])))
       [] (hardware_types a)"

definition dp_key :: "combo \<Rightarrow> combo \<Rightarrow> real \<times> real \<times> real" where
  "dp_key attn ffn = (min (c_throughput attn) (c_throughput ffn), c_score attn + c_score ffn,
                      - \<bar>c_throughput attn - c_throughput ffn\<bar>)"

definition choose_decode_strategies_with_matched_dp ::
    "(int list \<Rightarrow> int list) \<Rightarrow> local_config \<Rightarrow> estimator \<Rightarrow> workload_profile \<Rightarrow> allocation \<Rightarrow>
     previous_parallelism \<Rightarrow> (slice_key, slice_plan) dict result" where
  "choose_decode_strategies_with_matched_dp set_order cfg est workload a pp =
     bind_result (decode_slices cfg est workload a pp ''attn'') (\<lambda>attn_slices.
     bind_result (decode_slices cfg est workload a pp ''ffn'') (\<lambda>ffn_slices.
       let attn = best_worker_combinations_by_dp attn_slices;
           ffn = best_worker_combinations_by_dp ffn_slices;
           common = set_order (filter (\<lambda>d. d \<in> set (map fst ffn)) (map fst attn))
       in if attn = [] \<or> ffn = [] then Inr []
          else if common = [] then Inr []
          else bind_result
                 (max_key (\<lambda>d. dp_key (the (map_of attn d)) (the (map_of ffn d))) common)
                 (\<lambda>target. Inr (foldl (\<lambda>d (k, p). AList.update k p d)
                    (c_plans (the (map_of attn target))) (c_plans (the (map_of ffn target)))))))"

section \<open>Evaluation of an allocation\<close>

record eval_state =
  ev_slice_plans :: "(slice_key, slice_plan) dict"
  ev_parallelism :: "(slice_key, strategy) dict"
  ev_throughput :: throughput_profile

definition record_plan :: "eval_state \<Rightarrow> slice_key \<Rightarrow> slice_plan \<Rightarrow> eval_state" where
  "record_plan st key plan =
     st\<lparr>ev_slice_plans := AList.update key plan (ev_slice_plans st),
        ev_parallelism := (case sp_strategy plan of None \<Rightarrow> ev_parallelism st
                           | Some s \<Rightarrow> AList.update key s (ev_parallelism st)),
        ev_throughput := AList.update (fst key)
          (dict_getd (ev_throughput st) (fst key) 0 + sp_throughput plan) (ev_throughput st)\<rparr>"

definition evaluate_slice ::
    "local_config \<Rightarrow> estimator \<Rightarrow> workload_profile \<Rightarrow> allocation \<Rightarrow> previous_parallelism \<Rightarrow>
     eval_state \<Rightarrow> slice_key \<Rightarrow> eval_state result" where
  "evaluate_slice cfg est workload a pp st key =
     (case key of (worker, hardware) \<Rightarrow>
        let gpus = am_get a worker hardware in
        if gpus \<le> 0 then Inr st
        else bind_result (choose_strategy cfg est worker hardware gpus workload
                            (previous_of pp key))
               (\<lambda>plan. Inr (record_plan st key plan)))"

definition evaluate ::
    "(int list \<Rightarrow> int list) \<Rightarrow> local_config \<Rightarrow> estimator \<Rightarrow> workload_profile \<Rightarrow> allocation \<Rightarrow>
     previous_parallelism \<Rightarrow> 'm deployment_plan result" where
  "evaluate set_order cfg est workload a pp =
     (let independent = (if match_attn_ffn_dp cfg then [''pre''] else WORKER_TYPES);
          st0 = \<lparr>ev_slice_plans = [], ev_parallelism = [],
                 ev_throughput = dict_comp WORKER_TYPES (\<lambda>_. 0)\<rparr>
      in bind_result
           (fold_result (evaluate_slice cfg est workload a pp) st0
              (concat (map (\<lambda>w. map (Pair w) (hardware_types a)) independent))) (\<lambda>st1.
         bind_result
           (if match_attn_ffn_dp cfg
            then bind_result (choose_decode_strategies_with_matched_dp set_order cfg est
                                workload a pp)
                   (\<lambda>plans. Inr (foldl (\<lambda>st (key, plan). record_plan st key plan) st1 plans))
            else Inr st1) (\<lambda>st2.
         let cost = est_cost_per_hour est a in
         Inr \<lparr>p_allocation = am_clone a, p_parallelism = ev_parallelism st2,
              p_slice_plans = ev_slice_plans st2, p_throughput = ev_throughput st2,
              p_estimated_latency_s = est_latency est workload (ev_throughput st2),
              p_cost_per_hour = cost,
              p_req_per_dollar =
                (if 0 < cost then bottleneck (ev_throughput st2) / (cost / 3600) else 0),
              p_tail_latency_s = est_tail_latency est workload (ev_throughput st2),
              p_iterations = 0, p_metadata = []\<rparr>)))"


section \<open>Partitions\<close>

lemma sum_list_ge_part: "(\<And>y. y \<in> set xs \<Longrightarrow> (0::int) \<le> y) \<Longrightarrow> x \<in> set xs \<Longrightarrow> x \<le> sum_list xs"
proof (induction xs)
  case (Cons y ys)
  have "0 \<le> sum_list ys" using Cons.prems(1) by (intro sum_list_nonneg) simp
  with Cons show ?case by fastforce
qed simp

lemma set_tp_partitions:
  assumes "1 \<le> m"
  shows "set (tp_partitions r m M p) =
    {p @ q |q. sum_list q = r \<and> sorted q \<and> (\<forall>x \<in> set q. m \<le> x \<and> x \<le> M)}"
  using assms
proof (induction r m M p rule: tp_partitions.induct)
  case (1 r m M p)
  show ?case
  proof (cases "r = 0")
    case True
    have "q = []" if "sum_list q = 0" "\<forall>x \<in> set q. m \<le> x" for q :: "int list"
      using that \<open>1 \<le> m\<close> sum_list_ge_part[of q] by (cases q) fastforce+
    then have "{p @ q |q. sum_list q = r \<and> sorted q \<and> (\<forall>x \<in> set q. m \<le> x \<and> x \<le> M)} = {p}"
      using True by force
    then show ?thesis using True by (simp add: tp_partitions.simps)
  next
    case False
    let ?tail = "\<lambda>tp. {(p @ [tp]) @ q |q. sum_list q = r - tp \<and> sorted q \<and>
        (\<forall>x \<in> set q. tp \<le> x \<and> x \<le> M)}"
    have IH: "set (tp_partitions (r - tp) tp M (p @ [tp])) = ?tail tp" if "tp \<in> {m..min M r}" for tp
      using "1.IH"[OF False, of tp] that \<open>1 \<le> m\<close> by simp
    have "set (tp_partitions r m M p) =
        (\<Union>tp \<in> {m..min M r}. set (tp_partitions (r - tp) tp M (p @ [tp])))"
      using False \<open>1 \<le> m\<close> by (simp add: tp_partitions.simps[of r m M p])
    also have "\<dots> = (\<Union>tp \<in> {m..min M r}. ?tail tp)" by (simp only: IH cong: SUP_cong)
    also have "\<dots> = {p @ q |q. sum_list q = r \<and> sorted q \<and> (\<forall>x \<in> set q. m \<le> x \<and> x \<le> M)}"
      (is "?L = ?R")
    proof
      show "?L \<subseteq> ?R"
      proof
        fix xs assume "xs \<in> ?L"
        then obtain tp q where q: "tp \<in> {m..min M r}" "xs = (p @ [tp]) @ q" "sum_list q = r - tp"
            "sorted q" "\<forall>x \<in> set q. tp \<le> x \<and> x \<le> M" by auto
        then have "xs = p @ (tp # q) \<and> sum_list (tp # q) = r \<and> sorted (tp # q) \<and>
            (\<forall>x \<in> set (tp # q). m \<le> x \<and> x \<le> M)" by auto
        then show "xs \<in> ?R" by blast
      qed
      show "?R \<subseteq> ?L"
      proof
        fix xs assume "xs \<in> ?R"
        then obtain q where q: "xs = p @ q" "sum_list q = r" "sorted q"
            "\<forall>x \<in> set q. m \<le> x \<and> x \<le> M" by auto
        with False obtain tp q' where q': "q = tp # q'" by (cases q) auto
        have "0 \<le> sum_list q'" using q q' \<open>1 \<le> m\<close> by (intro sum_list_nonneg) auto
        with q q' have "tp \<in> {m..min M r}" "xs \<in> ?tail tp" by auto
        then show "xs \<in> ?L" by blast
      qed
    qed
    finally show ?thesis .
  qed
qed

text \<open>Every partition handed to the strategy generator is non-empty with positive parts.\<close>

lemma set_divisors: "c \<in> set (divisors v) \<longleftrightarrow> 1 \<le> c \<and> c \<le> v \<and> v mod c = 0"
  by (auto simp: divisors_def)

lemma partitions_of_pos:
  assumes "0 < gpus" "tps \<in> set (partitions_of cfg gpus)"
  shows "tps \<noteq> []" "x \<in> set tps \<Longrightarrow> 1 \<le> x \<and> x \<le> node_gpus cfg" "sum_list tps = gpus"
proof -
  have *: "tps \<noteq> [] \<and> (\<forall>x \<in> set tps. 1 \<le> x \<and> x \<le> node_gpus cfg) \<and> sum_list tps = gpus"
  proof (cases "enumerate_non_uniform cfg")
    case True
    with assms show ?thesis by (auto simp: partitions_of_def set_tp_partitions)
  next
    case False
    with assms(2) obtain tp where tp: "tps = replicate (nat (gpus div tp)) tp" "tp \<le> node_gpus cfg"
        "1 \<le> tp" "tp \<le> gpus" "gpus mod tp = 0" by (auto simp: partitions_of_def set_divisors)
    then have "0 < gpus div tp" by (simp add: pos_imp_zdiv_pos_iff)
    with tp show ?thesis
      by (auto simp: sum_list_replicate)
  qed
  then show "tps \<noteq> []" "x \<in> set tps \<Longrightarrow> 1 \<le> x \<and> x \<le> node_gpus cfg" "sum_list tps = gpus"
    by auto
qed

lemma strategy_of_pairs_pos:
  assumes "ps \<noteq> []" "\<And>tp ep. (tp, ep) \<in> set ps \<Longrightarrow> 0 < tp \<and> 0 < ep"
  shows "strategy_of_pairs ps =
           Inr (finish_strategy (map (\<lambda>(tp, ep). \<lparr>r_tp = tp, r_ep = ep\<rparr>) ps))"
proof -
  have "map_result (\<lambda>(tp, ep). ParallelismReplica tp ep) ps =
      Inr (map (\<lambda>(tp, ep). \<lparr>r_tp = tp, r_ep = ep\<rparr>) ps)"
    using assms(2) by (intro map_result_all_Inr) (auto simp: ParallelismReplica_pos)
  then show ?thesis
    using assms(1) by (simp add: strategy_of_pairs_def from_replicas_eq)
qed

lemma intra_ep_pos: "ep \<in> set (intra_replica_ep_candidates cfg tp) \<Longrightarrow> 0 < ep"
  by (auto simp: intra_replica_ep_candidates_def Let_def set_divisors split: if_splits)

lemma cross_ep_pos: "ep \<in> set (cross_replica_ep_candidates cfg tp) \<Longrightarrow> 0 \<le> tp \<Longrightarrow> 0 < ep"
  by (auto simp: cross_replica_ep_candidates_def)

lemma in_product_lists_zip:
  "eps \<in> set (product_lists (map f tps)) \<Longrightarrow>
     length eps = length tps \<and> (\<forall>(tp, ep) \<in> set (zip tps eps). tp \<in> set tps \<and> ep \<in> set (f tp))"
  by (induction tps arbitrary: eps) (auto, fastforce+)

text \<open>The generator never raises on such a partition; what it yields keeps the TP degrees.\<close>

lemma strategies_for_tp_partition_ok:
  assumes "tps \<noteq> []" "\<And>x. x \<in> set tps \<Longrightarrow> 1 \<le> x"
    and "c \<in> set (strategies_for_tp_partition cfg tps)"
  shows "\<exists>ps. c = Inr (finish_strategy (map (\<lambda>(tp, ep). \<lparr>r_tp = tp, r_ep = ep\<rparr>) ps)) \<and>
    map fst ps = tps \<and> (\<forall>(tp, ep) \<in> set ps. 0 < tp \<and> 0 < ep)"
proof -
  have "\<exists>ps. c = strategy_of_pairs ps \<and> map fst ps = tps \<and> (\<forall>(tp, ep) \<in> set ps. 0 < ep)"
    using assms(3)
  proof (cases "\<not> enable_expert_parallel cfg \<or> num_experts cfg \<le> 1")
    case True
    then show ?thesis using assms(3)
      by (intro exI[of _ "map (\<lambda>tp. (tp, 1)) tps"])
        (auto simp: strategies_for_tp_partition_def comp_def)
  next
    case False
    then consider eps where "eps \<in> set (product_lists (map (intra_replica_ep_candidates cfg) tps))"
        "c = strategy_of_pairs (zip tps eps)"
      | ep where "ep \<in> set (cross_replica_ep_candidates cfg (hd tps))"
        "c = strategy_of_pairs (map (\<lambda>tp. (tp, ep)) tps)"
      using assms(3) by (auto simp: strategies_for_tp_partition_def split: if_splits)
    then show ?thesis
    proof cases
      case 1
      then have "map fst (zip tps eps) = tps" "\<forall>(tp, ep) \<in> set (zip tps eps). 0 < ep"
        using in_product_lists_zip[OF 1(1)] intra_ep_pos by fastforce+
      with 1 show ?thesis by blast
    next
      case 2
      have "1 \<le> hd tps" using assms(1,2) by simp
      then have "0 < ep" using cross_ep_pos[OF 2(1)] by simp
      then show ?thesis using 2
        by (intro exI[of _ "map (\<lambda>tp. (tp, ep)) tps"]) (auto simp: comp_def)
    qed
  qed
  then obtain ps where ps: "c = strategy_of_pairs ps" "map fst ps = tps"
      "\<forall>(tp, ep) \<in> set ps. 0 < ep" by blast
  then have "ps \<noteq> []" "\<forall>(tp, ep) \<in> set ps. 0 < tp \<and> 0 < ep"
    using assms(1,2) by (auto, metis fst_conv image_eqI list.set_map zero_less_one order_less_le_trans)
  then show ?thesis using ps strategy_of_pairs_pos[of ps] by blast
qed


section \<open>The collecting loop\<close>

text \<open>What the loop promises when it continues with \<open>acc\<close> over the candidates \<open>cs\<close>.\<close>

definition collected ::
    "local_config \<Rightarrow> int \<Rightarrow> strategy list \<Rightarrow> strategy result list \<Rightarrow> strategy list \<Rightarrow> bool" where
  "collected cfg gpus acc cs res \<longleftrightarrow>
     distinct (map strategy_as_tuple res) \<and>
     (\<forall>s \<in> set res. is_strategy_valid cfg s gpus) \<and>
     set acc \<subseteq> set res \<and> set res \<subseteq> set acc \<union> {s. Inr s \<in> set cs} \<and>
     int (length res) \<le> max 1 (max_local_strategies cfg) \<and>
     (res = [] \<longrightarrow> (\<forall>s. Inr s \<in> set cs \<longrightarrow> \<not> is_strategy_valid cfg s gpus)) \<and>
     (int (length res) < max_local_strategies cfg \<longrightarrow>
        (\<forall>s. Inr s \<in> set cs \<and> is_strategy_valid cfg s gpus \<longrightarrow>
           strategy_as_tuple s \<in> strategy_as_tuple ` set res))"

lemma collect_strategies_spec:
  assumes "\<And>c. c \<in> set cs \<Longrightarrow> \<exists>s. c = Inr s"
    and "distinct (map strategy_as_tuple acc)" "seen = set (map strategy_as_tuple acc)"
    and "\<And>s. s \<in> set acc \<Longrightarrow> is_strategy_valid cfg s gpus"
    and "int (length acc) < max 1 (max_local_strategies cfg)"
  shows "\<exists>res. collect_strategies cfg gpus seen acc cs = Inr res \<and> collected cfg gpus acc cs res"
  using assms
proof (induction cs arbitrary: acc seen)
  case (Cons c cs)
  obtain s where c: "c = Inr s" using Cons.prems(1)[of c] by auto
  show ?case
  proof (cases "\<not> is_strategy_valid cfg s gpus \<or> strategy_as_tuple s \<in> seen")
    case True
    then have step: "collect_strategies cfg gpus seen acc (c # cs) =
        collect_strategies cfg gpus seen acc cs" by (auto simp: c)
    obtain res where "collect_strategies cfg gpus seen acc cs = Inr res"
        "collected cfg gpus acc cs res"
      using Cons.IH[of acc seen] Cons.prems by auto
    with True Cons.prems(3) step show ?thesis
      by (intro exI[of _ res]) (auto simp: c collected_def)
  next
    case False
    define acc' where "acc' = acc @ [s]"
    have acc': "distinct (map strategy_as_tuple acc')"
        "insert (strategy_as_tuple s) seen = set (map strategy_as_tuple acc')"
        "\<And>x. x \<in> set acc' \<Longrightarrow> is_strategy_valid cfg x gpus"
      using False Cons.prems by (auto simp: acc'_def)
    show ?thesis
    proof (cases "max_local_strategies cfg \<le> int (length acc')")
      case True
      then have "collect_strategies cfg gpus seen acc (c # cs) = Inr acc'"
        using False by (simp add: c acc'_def Let_def)
      with True acc' Cons.prems(5) show ?thesis
        by (intro exI[of _ acc']) (auto simp: c acc'_def collected_def)
    next
      case more: False
      have step: "collect_strategies cfg gpus seen acc (c # cs) =
          collect_strategies cfg gpus (insert (strategy_as_tuple s) seen) acc' cs"
        using False more by (simp add: c acc'_def Let_def)
      obtain res where "collect_strategies cfg gpus (insert (strategy_as_tuple s) seen) acc' cs = Inr res"
          "collected cfg gpus acc' cs res"
        using Cons.IH[OF _ acc'(1,2,3)] Cons.prems(1) more by auto
      with step show ?thesis
        by (intro exI[of _ res]) (auto simp: c acc'_def collected_def)
    qed
  qed
qed (auto simp: collected_def)

text \<open>The candidates of one slice, in the order the generators yield them.\<close>

definition slice_candidates :: "local_config \<Rightarrow> int \<Rightarrow> strategy result list" where
  "slice_candidates cfg gpus =
     concat (map (strategies_for_tp_partition cfg) (partitions_of cfg gpus))"

lemma slice_candidates_ok:
  assumes "0 < gpus" "c \<in> set (slice_candidates cfg gpus)"
  obtains s where "c = Inr s" "wf_strategy s" "map r_tp (s_replicas s) \<in> set (partitions_of cfg gpus)"
proof -
  obtain tps where tps: "tps \<in> set (partitions_of cfg gpus)"
      "c \<in> set (strategies_for_tp_partition cfg tps)" using assms(2) by (auto simp: slice_candidates_def)
  note pos = partitions_of_pos[OF assms(1) tps(1)]
  obtain ps where ps: "c = Inr (finish_strategy (map (\<lambda>(tp, ep). \<lparr>r_tp = tp, r_ep = ep\<rparr>) ps))"
      "map fst ps = tps" "\<forall>(tp, ep) \<in> set ps. 0 < tp \<and> 0 < ep"
    using strategies_for_tp_partition_ok[OF pos(1) _ tps(2)] pos(2) by blast
  let ?rs = "map (\<lambda>(tp, ep). \<lparr>r_tp = tp, r_ep = ep\<rparr>) ps"
  have "?rs \<noteq> []" using ps(2) pos(1) by auto
  moreover have "map r_tp ?rs = tps" unfolding ps(2) [symmetric] by auto
  moreover have "list_all wf_replica ?rs"
    using ps(3) by (auto simp: list_all_iff wf_replica_def)
  ultimately show ?thesis
    using that[of "finish_strategy ?rs"] ps(1) tps(1)
    by (simp add: wf_finish_strategy finish_strategy_fields)
qed

lemma enumerate_strategies_spec:
  assumes "0 < gpus"
  shows "\<exists>res. enumerate_strategies cfg gpus = Inr res \<and>
           collected cfg gpus [] (slice_candidates cfg gpus) res"
proof -
  have "\<exists>s. c = Inr s" if "c \<in> set (slice_candidates cfg gpus)" for c
    by (rule slice_candidates_ok[OF assms that]) blast
  then show ?thesis
    using assms collect_strategies_spec[of "slice_candidates cfg gpus" "[]" "{}" cfg gpus]
    by (simp add: enumerate_strategies_def slice_candidates_def)
qed

lemma enumerate_strategies_collected:
  "0 < gpus \<Longrightarrow> enumerate_strategies cfg gpus = Inr res \<Longrightarrow>
     collected cfg gpus [] (slice_candidates cfg gpus) res"
  using enumerate_strategies_spec[of gpus cfg] by simp

lemma enumerate_strategies_wf:
  assumes "enumerate_strategies cfg gpus = Inr res" "s \<in> set res"
  shows "wf_strategy s \<and> is_strategy_valid cfg s gpus"
proof (cases "0 < gpus")
  case True
  have col: "collected cfg gpus [] (slice_candidates cfg gpus) res"
    by (rule enumerate_strategies_collected[OF True assms(1)])
  then have "Inr s \<in> set (slice_candidates cfg gpus)"
    using assms(2) unfolding collected_def by (simp add: subset_iff)
  then have "wf_strategy s" by (rule slice_candidates_ok[OF True]) simp
  with col assms(2) show ?thesis unfolding collected_def by blast
qed (use assms in \<open>simp add: enumerate_strategies_def\<close>)

section \<open>Properties of the enumeration\<close>

lemma is_strategy_valid_iff:
  "is_strategy_valid cfg s gpus \<longleftrightarrow> strategy_gpus s = gpus \<and>
     list_all (replica_fits cfg) (s_replicas s) \<and>
     (list_ex (\<lambda>r. r_tp r < r_ep r) (s_replicas s) \<longrightarrow>
        all_same r_tp (s_replicas s) \<and> all_same r_ep (s_replicas s))"
  by (auto simp: is_strategy_valid_def)

text \<open>
  For every slice of at least one GPU, \<open>enumerate_strategies\<close> returns (it never raises)
  strategies that satisfy the local-search constraints: the TP degrees of the replicas sum to
  the allocated GPUs, no TP or EP degree exceeds the GPUs of a node, EP divides TP within a
  replica or TP divides EP across replicas, and cross-replica EP occurs only with identical
  replicas. No two of them are equal, and there are at most \<open>max_local_strategies\<close> (one, if
  that limit is not positive).
\<close>

theorem enumerate_strategies_sound:
  assumes "0 < gpus"
  shows "\<exists>res. enumerate_strategies cfg gpus = Inr res \<and>
    distinct (map strategy_as_tuple res) \<and>
    int (length res) \<le> max 1 (max_local_strategies cfg) \<and>
    (\<forall>s \<in> set res. sum_list (map r_tp (s_replicas s)) = gpus \<and>
       (\<forall>r \<in> set (s_replicas s). 0 < r_tp r \<and> r_tp r \<le> node_gpus cfg \<and>
          0 < r_ep r \<and> r_ep r \<le> node_gpus cfg \<and> (r_ep r dvd r_tp r \<or> r_tp r dvd r_ep r)) \<and>
       ((\<exists>r \<in> set (s_replicas s). r_tp r < r_ep r) \<longrightarrow> is_uniform s))"
proof -
  obtain res where res: "enumerate_strategies cfg gpus = Inr res"
      "collected cfg gpus [] (slice_candidates cfg gpus) res"
    using enumerate_strategies_spec[OF assms] by blast
  have "sum_list (map r_tp (s_replicas s)) = gpus \<and>
       (\<forall>r \<in> set (s_replicas s). 0 < r_tp r \<and> r_tp r \<le> node_gpus cfg \<and>
          0 < r_ep r \<and> r_ep r \<le> node_gpus cfg \<and> (r_ep r dvd r_tp r \<or> r_tp r dvd r_ep r)) \<and>
       ((\<exists>r \<in> set (s_replicas s). r_tp r < r_ep r) \<longrightarrow> is_uniform s)" if "s \<in> set res" for s
  proof -
    have wf: "s_replicas s \<noteq> []" "\<forall>r \<in> set (s_replicas s). 0 < r_tp r \<and> 0 < r_ep r"
      and valid: "is_strategy_valid cfg s gpus"
      using enumerate_strategies_wf[OF res(1) that]
      by (auto simp: wf_strategy_def wf_replica_def list_all_iff)
    have fits: "r_tp r \<le> node_gpus cfg \<and> r_ep r \<le> node_gpus cfg \<and>
        (r_ep r dvd r_tp r \<or> r_tp r dvd r_ep r)" if "r \<in> set (s_replicas s)" for r
      using valid that by (auto simp: is_strategy_valid_iff list_all_iff replica_fits_def
          dvd_eq_mod_eq_0 split: if_splits)
    from valid have "sum_list (map r_tp (s_replicas s)) = gpus"
      by (simp add: is_strategy_valid_iff strategy_gpus_def replica_gpus_def cong: map_cong)
    moreover from valid have "(\<exists>r \<in> set (s_replicas s). r_tp r < r_ep r) \<longrightarrow> is_uniform s"
      using wf(1) by (auto simp: is_strategy_valid_iff is_uniform_def list_ex_iff)
    ultimately show ?thesis using wf(2) fits by blast
  qed
  with res show ?thesis unfolding collected_def by blast
qed

definition default_config :: local_config where
  "default_config = \<lparr>node_gpus = 8, enumerate_non_uniform = True, max_local_strategies = 4096,
     enable_expert_parallel = False, num_experts = 1, match_attn_ffn_dp = True,
     cost_aware = False, stability_window_s = 300, reload_bandwidth_gbps = 600,
     model_size_gb = 16\<rparr>"

theorem enumerate_strategies_sound_witness:
  "(0::int) < 3 \<and> (\<exists>res. enumerate_strategies default_config 3 = Inr res \<and>
     distinct (map strategy_as_tuple res))"
  using enumerate_strategies_sound[of 3 default_config] by auto


lemma enumerate_3:
  "enumerate_strategies default_config 3 = Inr (map finish_strategy
     [map (\<lambda>tp. \<lparr>r_tp = tp, r_ep = 1\<rparr>) [1, 1, 1], map (\<lambda>tp. \<lparr>r_tp = tp, r_ep = 1\<rparr>) [1, 2],
      map (\<lambda>tp. \<lparr>r_tp = tp, r_ep = 1\<rparr>) [3]])"
  by code_simp



section \<open>Warm start\<close>

definition replica_kinds :: "strategy \<Rightarrow> (int \<times> int) set" where
  "replica_kinds s = replica_as_tuple ` set (s_replicas s)"

lemma wf_strategy_hd:
  "wf_strategy s \<Longrightarrow> s_replicas s \<noteq> [] \<and> 0 < r_tp (hd (s_replicas s)) \<and> 0 < r_ep (hd (s_replicas s))"
  by (cases "s_replicas s") (auto simp: wf_strategy_def wf_replica_def)

lemma uniform_replicas:
  assumes "is_uniform s" "r \<in> set (s_replicas s)"
  shows "r = hd (s_replicas s)"
  using assms all_sameD[of r_tp "s_replicas s" r] all_sameD[of r_ep "s_replicas s" r]
  by (simp add: is_uniform_def)

lemma replica_kinds_uniform:
  "is_uniform s \<Longrightarrow> replica_kinds s = {replica_as_tuple (hd (s_replicas s))}"
  using uniform_replicas[of s] by (auto simp: replica_kinds_def is_uniform_def)

text \<open>The two projections, as the strategies they build.\<close>

lemma project_strategy_uniform:
  assumes "wf_strategy prev" "0 < gpus" "is_uniform prev" "r_tp (hd (s_replicas prev)) dvd gpus"
    and "\<not> is_strategy_valid cfg prev gpus"
  defines "c \<equiv> finish_strategy (replicate (nat (gpus div r_tp (hd (s_replicas prev))))
                                  (hd (s_replicas prev)))"
  shows "project_strategy cfg (Some prev) gpus =
           Inr (if is_strategy_valid cfg c gpus then Some c else None)"
    and "wf_strategy c" and "replica_kinds c = replica_kinds prev" and "strategy_gpus c = gpus"
proof -
  let ?r = "hd (s_replicas prev)"
  have r: "0 < r_tp ?r" "0 < r_ep ?r" using wf_strategy_hd[OF assms(1)] by auto
  have eta: "\<lparr>r_tp = r_tp ?r, r_ep = r_ep ?r\<rparr> = ?r" by simp
  have dp: "0 < gpus div r_tp ?r"
    using assms(2,4) r(1) by (auto simp: pos_imp_zdiv_pos_iff zdvd_imp_le)
  then show "project_strategy cfg (Some prev) gpus =
      Inr (if is_strategy_valid cfg c gpus then Some c else None)"
    using assms(2-5) r
    by (simp add: project_strategy_def Let_def ParallelismStrategy_uniform c_def mod_eq_0_iff_dvd eta)
  have ne: "replicate (nat (gpus div r_tp ?r)) ?r \<noteq> []" using dp by simp
  show "wf_strategy c"
    unfolding c_def by (rule wf_finish_strategy[OF ne]) (simp add: list_all_iff wf_replica_def r)
  show "replica_kinds c = replica_kinds prev"
    using ne dp replica_kinds_uniform[OF assms(3)]
    by (simp add: replica_kinds_def c_def finish_strategy_fields)
  show "strategy_gpus c = gpus"
    using ne dp assms(4) by (simp add: c_def strategy_gpus_finish sum_list_replicate)
qed

lemma sum_list_concat_replicate:
  "sum_list (map f (concat (replicate n xs))) = int n * sum_list (map f xs)"
  for f :: "'a \<Rightarrow> int"
  by (induction n) (simp_all add: algebra_simps)

lemma project_strategy_pattern:
  assumes "wf_strategy prev" "0 < gpus" "\<not> is_uniform prev" "strategy_gpus prev dvd gpus"
    and "\<not> is_strategy_valid cfg prev gpus"
  defines "c \<equiv> finish_strategy (concat (replicate (nat (gpus div strategy_gpus prev))
                                  (s_replicas prev)))"
  shows "project_strategy cfg (Some prev) gpus =
           Inr (if is_strategy_valid cfg c gpus then Some c else None)"
    and "wf_strategy c" and "replica_kinds c = replica_kinds prev" and "strategy_gpus c = gpus"
proof -
  let ?n = "nat (gpus div strategy_gpus prev)" and ?rs = "s_replicas prev"
  have pos: "0 < strategy_gpus prev" by (rule strategy_gpus_pos[OF assms(1)])
  have n: "0 < gpus div strategy_gpus prev"
    using assms(2,4) pos by (auto simp: pos_imp_zdiv_pos_iff zdvd_imp_le)
  have rs: "?rs \<noteq> []" "list_all wf_replica ?rs" using assms(1) by (auto simp: wf_strategy_def)
  have ne: "concat (replicate ?n ?rs) \<noteq> []" using n rs(1) by auto
  show "project_strategy cfg (Some prev) gpus =
      Inr (if is_strategy_valid cfg c gpus then Some c else None)"
    using assms(2-5) pos ne
    by (simp add: project_strategy_def from_replicas_eq c_def mod_eq_0_iff_dvd del: concat_eq_Nil_conv)
  have set: "set (concat (replicate ?n ?rs)) = set ?rs" using n by auto
  show "wf_strategy c"
    unfolding c_def using rs(2) by (intro wf_finish_strategy[OF ne]) (simp only: list_all_iff set)
  show "replica_kinds c = replica_kinds prev"
    unfolding replica_kinds_def c_def finish_strategy_fields[OF ne] set ..
  show "strategy_gpus c = gpus"
    using assms(4) n unfolding c_def strategy_gpus_finish[OF ne] sum_list_concat_replicate
    by (simp add: strategy_gpus_def replica_gpus_def cong: map_cong)
qed

lemma project_strategy_preserves_kinds_core:
  assumes "wf_strategy prev"
  shows "\<exists>res. project_strategy cfg (Some prev) gpus = Inr res \<and>
    (\<forall>s. res = Some s \<longrightarrow> wf_strategy s \<and> is_strategy_valid cfg s gpus \<and>
       replica_kinds s = replica_kinds prev \<and> strategy_gpus s = gpus) \<and>
    (0 < gpus \<and> is_strategy_valid cfg prev gpus \<longrightarrow> res = Some prev) \<and>
    (0 < gpus \<and> is_uniform prev \<and> r_tp (hd (s_replicas prev)) dvd gpus \<and>
       replica_fits cfg (hd (s_replicas prev)) \<longrightarrow> res \<noteq> None)"
proof (cases "0 < gpus")
  case True
  show ?thesis
  proof (cases "is_strategy_valid cfg prev gpus")
    case valid: True
    then show ?thesis using True assms by (auto simp: project_strategy_def is_strategy_valid_iff)
  next
    case invalid: False
    show ?thesis
    proof (cases "is_uniform prev")
      case uni: True
      show ?thesis
      proof (cases "r_tp (hd (s_replicas prev)) dvd gpus")
        case dvd: True
        define c where "c = finish_strategy (replicate
            (nat (gpus div r_tp (hd (s_replicas prev)))) (hd (s_replicas prev)))"
        note pr = project_strategy_uniform[OF assms True uni dvd invalid, folded c_def]
        have "s_replicas c = replicate (nat (gpus div r_tp (hd (s_replicas prev)))) (hd (s_replicas prev))"
          by (simp add: c_def finish_strategy_def)
        then have "replica_fits cfg (hd (s_replicas prev)) \<Longrightarrow> is_strategy_valid cfg c gpus"
          using pr(4) by (simp add: is_strategy_valid_iff list_all_iff)
        with pr invalid show ?thesis by auto
      next
        case False
        then show ?thesis using True invalid uni assms
          by (auto simp: project_strategy_def Let_def dvd_eq_mod_eq_0)
      qed
    next
      case pat: False
      show ?thesis
      proof (cases "strategy_gpus prev dvd gpus")
        case dvd: True
        from project_strategy_pattern[OF assms True pat dvd invalid] pat invalid show ?thesis
          by auto
      next
        case False
        then show ?thesis using True invalid pat by (auto simp: project_strategy_def dvd_eq_mod_eq_0)
      qed
    qed
  qed
qed (simp add: project_strategy_def)

text \<open>
  Warm start: for a well-formed previous strategy \<open>project_strategy\<close> never raises. What it
  returns is a valid strategy for exactly the new GPU count built from the same kinds of
  replicas, so TP and EP are preserved and only DP changes; a previous strategy that is already
  valid at the new count is kept unchanged; a uniform strategy whose replica still fits is
  always projected when its TP divides the new count.
\<close>

theorem project_strategy_preserves_kinds:
  assumes "wf_strategy prev"
  shows "\<exists>res. project_strategy cfg (Some prev) gpus = Inr res \<and>
    (\<forall>s. res = Some s \<longrightarrow> wf_strategy s \<and> is_strategy_valid cfg s gpus \<and>
       replica_kinds s = replica_kinds prev \<and> strategy_gpus s = gpus) \<and>
    (0 < gpus \<and> is_strategy_valid cfg prev gpus \<longrightarrow> res = Some prev) \<and>
    (0 < gpus \<and> is_uniform prev \<and> r_tp (hd (s_replicas prev)) dvd gpus \<and>
       replica_fits cfg (hd (s_replicas prev)) \<longrightarrow> res \<noteq> None)"
  by (rule project_strategy_preserves_kinds_core[OF assms])

definition uniform_4x2 :: strategy where
  "uniform_4x2 = finish_strategy (replicate 4 \<lparr>r_tp = 2, r_ep = 1\<rparr>)"

lemma wf_uniform_4x2: "wf_strategy uniform_4x2" and kinds_uniform_4x2: "is_uniform uniform_4x2"
  unfolding uniform_4x2_def by code_simp+

theorem project_strategy_preserves_kinds_witness:
  "wf_strategy uniform_4x2 \<and> (\<exists>s. project_strategy default_config (Some uniform_4x2) 12 = Inr (Some s) \<and>
     replica_kinds s = replica_kinds uniform_4x2 \<and> strategy_gpus s = 12)"
proof -
  have "r_tp (hd (s_replicas uniform_4x2)) dvd 12" "replica_fits default_config (hd (s_replicas uniform_4x2))"
    by code_simp+
  with project_strategy_preserves_kinds[OF wf_uniform_4x2, of default_config 12] kinds_uniform_4x2
  show ?thesis using wf_uniform_4x2 by auto
qed


section \<open>Choosing one strategy\<close>

lemma foldl_better_plan:
  "sp_score b \<le> sp_score (foldl better_plan b ps) \<and>
   (\<forall>c \<in> set ps. sp_score c \<le> sp_score (foldl better_plan b ps)) \<and>
   (foldl better_plan b ps = b \<or>
    (\<exists>c \<in> set ps. sp_score b < sp_score c \<and>
       foldl better_plan b ps = b\<lparr>sp_score := sp_score c,
         sp_reconfiguration_cost_s := sp_reconfiguration_cost_s c,
         sp_throughput := sp_throughput c, sp_strategy := sp_strategy c\<rparr>))"
proof (induction ps arbitrary: b)
  case (Cons p ps)
  show ?case
  proof (cases "sp_score b < sp_score p")
    case True
    then show ?thesis using Cons.IH[of "better_plan b p"] by (fastforce simp: better_plan_def)
  next
    case False
    then show ?thesis using Cons.IH[of b] by (fastforce simp: better_plan_def)
  qed
qed simp

text \<open>Candidate plans of a slice: never an exception, one per strategy, all valid for the slice.\<close>

lemma project_strategy_ok:
  assumes "\<And>prev. previous = Some prev \<Longrightarrow> wf_strategy prev"
  obtains res where "project_strategy cfg previous gpus = Inr res"
    "\<And>s. res = Some s \<Longrightarrow> wf_strategy s \<and> is_strategy_valid cfg s gpus"
proof (cases previous)
  case None
  then show ?thesis using that[of None] by (simp add: project_strategy_def)
next
  case (Some prev)
  with project_strategy_preserves_kinds_core[OF assms[OF Some], of cfg gpus] that show ?thesis
    by auto
qed

definition plan_for :: "local_config \<Rightarrow> string \<Rightarrow> string \<Rightarrow> int \<Rightarrow> slice_plan \<Rightarrow> bool" where
  "plan_for cfg worker hardware gpus plan \<longleftrightarrow>
     sp_worker_type plan = worker \<and> sp_hardware plan = hardware \<and> sp_gpus plan = gpus \<and>
     (case sp_strategy plan of None \<Rightarrow> False
      | Some s \<Rightarrow> wf_strategy s \<and> is_strategy_valid cfg s gpus)"

lemma mk_slice_plan_fields [simp]:
  "sp_worker_type (mk_slice_plan cfg est w h g wl pr pt s) = w"
  "sp_hardware (mk_slice_plan cfg est w h g wl pr pt s) = h"
  "sp_gpus (mk_slice_plan cfg est w h g wl pr pt s) = g"
  "sp_strategy (mk_slice_plan cfg est w h g wl pr pt s) = Some s"
  "sp_throughput (mk_slice_plan cfg est w h g wl pr pt s) = est_slice_throughput est w h s wl"
  "sp_score (mk_slice_plan cfg est w h g wl pr pt s) =
     fst (candidate_score cfg (est_slice_throughput est w h s wl) pt pr s)"
  "sp_reconfiguration_cost_s (mk_slice_plan cfg est w h g wl pr pt s) =
     snd (candidate_score cfg (est_slice_throughput est w h s wl) pt pr s)"
  by (simp_all add: mk_slice_plan_def Let_def split: prod.split)

lemma enumerate_strategies_total: "\<exists>res. enumerate_strategies cfg gpus = Inr res"
  using enumerate_strategies_spec[of gpus cfg]
  by (cases "0 < gpus") (auto simp: enumerate_strategies_def)

lemma candidate_slice_plans_ok:
  assumes "\<And>prev. previous = Some prev \<Longrightarrow> wf_strategy prev"
  obtains plans where "candidate_slice_plans cfg est w h gpus wl previous = Inr plans"
    "\<And>p. p \<in> set plans \<Longrightarrow> plan_for cfg w h gpus p"
proof -
  obtain projected where pr: "project_strategy cfg previous gpus = Inr projected"
      "\<And>s. projected = Some s \<Longrightarrow> wf_strategy s \<and> is_strategy_valid cfg s gpus"
    using project_strategy_ok[OF assms] by blast
  obtain res where en: "enumerate_strategies cfg gpus = Inr res"
    using enumerate_strategies_total by blast
  let ?plan = "mk_slice_plan cfg est w h gpus wl projected
      (case projected of None \<Rightarrow> 0 | Some p \<Rightarrow> est_slice_throughput est w h p wl)"
  let ?all = "case projected of None \<Rightarrow> res
      | Some p \<Rightarrow> if strategy_as_tuple p \<in> set (map strategy_as_tuple res) then res else res @ [p]"
  have "candidate_slice_plans cfg est w h gpus wl previous = Inr (map ?plan ?all)"
    by (simp add: candidate_slice_plans_def pr(1) en Let_def)
  moreover have "wf_strategy s \<and> is_strategy_valid cfg s gpus" if "s \<in> set ?all" for s
    using that pr(2) enumerate_strategies_wf[OF en] by (auto split: option.splits if_splits)
  then have "plan_for cfg w h gpus p" if "p \<in> set (map ?plan ?all)" for p
    using that by (auto simp: plan_for_def)
  ultimately show ?thesis using that by blast
qed


section \<open>The estimator interface\<close>

text \<open>What the scheduler relies on: throughput estimates are never negative.\<close>

locale estimator_contract =
  fixes est :: estimator
  assumes throughput_nonneg: "0 \<le> est_slice_throughput est w h s wl"
begin

lemma plan_throughput_nonneg:
  assumes "candidate_slice_plans cfg est w h gpus wl previous = Inr plans" "p \<in> set plans"
  shows "0 \<le> sp_throughput p"
  using assms throughput_nonneg
  by (auto simp: candidate_slice_plans_def bind_result_eq_Inr Let_def)

end

lemma choose_strategy_max:
  assumes "candidate_slice_plans cfg est w h gpus wl previous = Inr cands"
    and "\<And>p. p \<in> set cands \<Longrightarrow> plan_for cfg w h gpus p"
  shows "\<exists>plan. choose_strategy cfg est w h gpus wl previous = Inr plan \<and>
    (\<forall>c \<in> set cands. sp_score c \<le> sp_score plan) \<and>
    (case sp_strategy plan of
       None \<Rightarrow> sp_score plan = -1 \<and> sp_throughput plan = 0 \<and> (\<forall>c \<in> set cands. sp_score c \<le> -1)
     | Some s \<Rightarrow> plan \<in> set cands \<and> -1 < sp_score plan)"
proof -
  let ?b = "\<lparr>sp_worker_type = w, sp_hardware = h, sp_gpus = gpus, sp_strategy = None,
     sp_throughput = 0, sp_reconfiguration_cost_s = 0, sp_score = -1\<rparr> :: slice_plan"
  let ?r = "foldl better_plan ?b cands"
  have ch: "choose_strategy cfg est w h gpus wl previous = Inr ?r"
    by (simp add: choose_strategy_def assms(1))
  note fold = foldl_better_plan[of ?b cands]
  show ?thesis
  proof (cases "?r = ?b")
    case True
    with ch fold show ?thesis by (auto intro!: exI[of _ ?b])
  next
    case False
    with fold obtain c where c: "c \<in> set cands" "-1 < sp_score c"
        "?r = ?b\<lparr>sp_score := sp_score c, sp_reconfiguration_cost_s := sp_reconfiguration_cost_s c,
           sp_throughput := sp_throughput c, sp_strategy := sp_strategy c\<rparr>" by auto
    then have "?r = c" using assms(2)[OF c(1)] by (simp add: plan_for_def)
    then show ?thesis
      using c(1,2) ch fold assms(2)[OF c(1)] by (auto simp: plan_for_def split: option.splits)
  qed
qed

text \<open>Which strategies occur among the candidates of a slice.\<close>

lemma strategy_as_tuple_inj:
  assumes "wf_strategy s" "wf_strategy t" "strategy_as_tuple s = strategy_as_tuple t"
  shows "s = t"
proof -
  have "inj replica_as_tuple" by (auto simp: inj_def replica_as_tuple_def)
  then have "s_replicas s = s_replicas t"
    using assms(3) by (simp add: strategy_as_tuple_def inj_map_eq_map)
  then show ?thesis using assms(1,2) unfolding wf_strategy_def by metis
qed

lemma projected_is_candidate:
  assumes "candidate_slice_plans cfg est w h gpus wl previous = Inr cands"
    and "project_strategy cfg previous gpus = Inr (Some p)" "wf_strategy p"
  shows "mk_slice_plan cfg est w h gpus wl (Some p) (est_slice_throughput est w h p wl) p \<in> set cands"
proof -
  obtain res where en: "enumerate_strategies cfg gpus = Inr res"
    using enumerate_strategies_total by blast
  let ?all = "if strategy_as_tuple p \<in> set (map strategy_as_tuple res) then res else res @ [p]"
  have cands: "cands = map (mk_slice_plan cfg est w h gpus wl (Some p)
      (est_slice_throughput est w h p wl)) ?all"
    using assms(1) by (simp add: candidate_slice_plans_def assms(2) en Let_def)
  have "x = p" if "x \<in> set res" "strategy_as_tuple p = strategy_as_tuple x" for x
    using that enumerate_strategies_wf[OF en that(1)] strategy_as_tuple_inj[OF _ assms(3), of x]
    by simp
  then have "p \<in> set ?all" by auto
  then show ?thesis unfolding cands by simp
qed

lemma candidate_projected:
  assumes "candidate_slice_plans cfg est w h gpus wl previous = Inr cands"
    and "project_strategy cfg previous gpus = Inr (Some p)" "c \<in> set cands"
  obtains s where "c = mk_slice_plan cfg est w h gpus wl (Some p) (est_slice_throughput est w h p wl) s"
  using assms by (auto simp: candidate_slice_plans_def bind_result_eq_Inr Let_def)

lemma reconfiguration_cost_same: "reconfiguration_cost_s cfg (Some p) p = 0"
  by (simp add: reconfiguration_cost_s_def)

lemma base_reload_nonneg: "0 \<le> model_size_gb cfg \<Longrightarrow> 0 \<le> base_reload cfg"
  by (simp add: base_reload_def)

lemma reconfiguration_cost_nonneg:
  "0 \<le> model_size_gb cfg \<Longrightarrow> 0 \<le> reconfiguration_cost_s cfg previous c"
  using base_reload_nonneg[of cfg]
  by (auto simp: reconfiguration_cost_s_def Let_def split: option.split)

lemma candidate_score_cases:
  assumes "cost_aware cfg" "-1 < fst (candidate_score cfg t pt (Some p) s)"
  defines "tau \<equiv> snd (candidate_score cfg t pt (Some p) s)"
  shows "tau = reconfiguration_cost_s cfg (Some p) s \<and>
    (tau \<le> 0 \<and> fst (candidate_score cfg t pt (Some p) s) = t * stability_window_s cfg \<or>
     0 < tau \<and> tau < stability_window_s cfg \<and> pt * stability_window_s cfg < t * (stability_window_s cfg - tau) \<and>
     fst (candidate_score cfg t pt (Some p) s) = t * (stability_window_s cfg - tau))"
  using assms(1,2)
  by (auto simp: tau_def candidate_score_def Let_def algebra_simps split: if_splits)

context estimator_contract
begin

text \<open>Keeping the projected strategy is always one of the options, at no reload cost.\<close>

lemma choose_strategy_amortised:
  assumes "cost_aware cfg" "0 \<le> model_size_gb cfg" "0 \<le> stability_window_s cfg"
    and "\<And>q. previous = Some q \<Longrightarrow> wf_strategy q"
    and pr: "project_strategy cfg previous gpus = Inr (Some p)"
  shows "\<exists>plan s. choose_strategy cfg est w h gpus wl previous = Inr plan \<and>
    sp_strategy plan = Some s \<and> sp_throughput plan = est_slice_throughput est w h s wl \<and>
    sp_reconfiguration_cost_s plan = reconfiguration_cost_s cfg (Some p) s \<and>
    est_slice_throughput est w h p wl * stability_window_s cfg
      \<le> sp_throughput plan * (stability_window_s cfg - sp_reconfiguration_cost_s plan) \<and>
    (0 < sp_reconfiguration_cost_s plan \<longrightarrow>
       sp_reconfiguration_cost_s plan < stability_window_s cfg \<and>
       est_slice_throughput est w h p wl * stability_window_s cfg
         < sp_throughput plan * (stability_window_s cfg - sp_reconfiguration_cost_s plan))"
proof -
  let ?T = "\<lambda>s. est_slice_throughput est w h s wl" and ?W = "stability_window_s cfg"
  obtain cands where cands: "candidate_slice_plans cfg est w h gpus wl previous = Inr cands"
      "\<And>c. c \<in> set cands \<Longrightarrow> plan_for cfg w h gpus c"
    using candidate_slice_plans_ok[OF assms(4)] by metis
  obtain res where res: "project_strategy cfg previous gpus = Inr res"
      "\<And>s. res = Some s \<Longrightarrow> wf_strategy s \<and> is_strategy_valid cfg s gpus"
    using project_strategy_ok[OF assms(4)] by blast
  then have wfp: "wf_strategy p" using pr by simp
  obtain plan where plan: "choose_strategy cfg est w h gpus wl previous = Inr plan"
      "\<forall>c \<in> set cands. sp_score c \<le> sp_score plan"
      "case sp_strategy plan of None \<Rightarrow> sp_score plan = -1 \<and> sp_throughput plan = 0 \<and>
         (\<forall>c \<in> set cands. sp_score c \<le> -1) | Some s \<Rightarrow> plan \<in> set cands \<and> -1 < sp_score plan"
    using choose_strategy_max[OF cands] by blast
  let ?keep = "mk_slice_plan cfg est w h gpus wl (Some p) (?T p) p"
  have keep: "?keep \<in> set cands" by (rule projected_is_candidate[OF cands(1) pr wfp])
  have "sp_score ?keep = ?T p * ?W"
    using assms(1) by (simp add: candidate_score_def reconfiguration_cost_same Let_def)
  then have best: "?T p * ?W \<le> sp_score plan" using plan(2) keep by fastforce
  have "0 \<le> ?T p * ?W" using throughput_nonneg assms(3) by simp
  with best have "-1 < sp_score plan" by simp
  then obtain s' where "sp_strategy plan = Some s'" "plan \<in> set cands"
    using plan(3) by (auto split: option.splits)
  then obtain s where s: "plan = mk_slice_plan cfg est w h gpus wl (Some p) (?T p) s"
    using candidate_projected[OF cands(1) pr] by metis
  have sc: "-1 < fst (candidate_score cfg (?T s) (?T p) (Some p) s)"
    using \<open>-1 < sp_score plan\<close> s by simp
  note cs = candidate_score_cases[OF assms(1) sc]
  show ?thesis
    using plan(1) s cs best reconfiguration_cost_nonneg[OF assms(2), of "Some p" s]
    by (intro exI[of _ plan] exI[of _ s]) auto
qed

end

end
