(* ===== verification/Matched_Dp.thy ===== *)
theory Matched_Dp
  imports Local_Scheduler
begin

text \<open>
  The decode side of the local scheduler: the dynamic program over slices
  (\<open>_best_worker_combinations_by_dp\<close>) finds, for every reachable total DP, the
  lexicographically best combination of one candidate per slice, and
  \<open>_choose_decode_strategies_with_matched_dp\<close> joins attention and FFN at a common total DP.
\<close>

section \<open>Lexicographic values\<close>

lemma lex_le_add:
  fixes a b c d x y :: real
  shows "(a, b) \<le> (c, d) \<Longrightarrow> (a + x, b + y) \<le> (c + x, d + y)"
  by (auto simp: less_eq_prod_def)

definition value_of :: "combo \<Rightarrow> real \<times> real" where
  "value_of st = (c_score st, c_throughput st)"

section \<open>One relaxation step\<close>

text \<open>The entry a candidate contributes to the next table.\<close>

definition extend_combo :: "slice_key \<Rightarrow> combo \<Rightarrow> slice_plan \<Rightarrow> combo" where
  "extend_combo key st cand =
     \<lparr>c_score = c_score st + sp_score cand, c_throughput = c_throughput st + sp_throughput cand,
      c_plans = AList.update key cand (c_plans st)\<rparr>"

definition plan_dp :: "slice_plan \<Rightarrow> int" where
  "plan_dp p = (case sp_strategy p of None \<Rightarrow> 0 | Some s \<Rightarrow> s_dp s)"

lemma relax_alt:
  "relax key d st nxt cand =
     (if sp_strategy cand = None then nxt
      else case map_of nxt (d + plan_dp cand) of
             None \<Rightarrow> AList.update (d + plan_dp cand) (extend_combo key st cand) nxt
           | Some cur \<Rightarrow> if value_of cur < value_of (extend_combo key st cand)
                        then AList.update (d + plan_dp cand) (extend_combo key st cand) nxt
                        else nxt)"
  by (auto simp: relax_def plan_dp_def extend_combo_def value_of_def Let_def split: option.split)

text \<open>A table is a triple-indexed maximum: \<open>best_of\<close> relates it to the contributions so far.\<close>

type_synonym contribution = "int \<times> combo \<times> slice_plan"

definition best_of :: "slice_key \<Rightarrow> contribution list \<Rightarrow> (int, combo) dict \<Rightarrow> bool" where
  "best_of key ts nxt \<longleftrightarrow> wf_dict nxt \<and>
     (\<forall>k st'. map_of nxt k = Some st' \<longrightarrow>
        (\<exists>d st c. (d, st, c) \<in> set ts \<and> sp_strategy c \<noteq> None \<and> k = d + plan_dp c \<and>
           st' = extend_combo key st c)) \<and>
     (\<forall>d st c. (d, st, c) \<in> set ts \<and> sp_strategy c \<noteq> None \<longrightarrow>
        (\<exists>st'. map_of nxt (d + plan_dp c) = Some st' \<and>
           value_of (extend_combo key st c) \<le> value_of st'))"

lemma best_of_sound:
  assumes "best_of key ts nxt" "map_of nxt k = Some st'"
  obtains d st c where "(d, st, c) \<in> set ts" "sp_strategy c \<noteq> None" "k = d + plan_dp c"
    "st' = extend_combo key st c"
  using assms unfolding best_of_def by blast

lemma best_of_opt:
  assumes "best_of key ts nxt" "(d, st, c) \<in> set ts" "sp_strategy c \<noteq> None"
  obtains st' where "map_of nxt (d + plan_dp c) = Some st'"
    "value_of (extend_combo key st c) \<le> value_of st'"
  using assms unfolding best_of_def by blast

text \<open>Extending the contributions by one, given the two halves for the new one.\<close>

lemma best_of_snocI:
  assumes "wf_dict nxt'"
    and "\<And>k st'. map_of nxt' k = Some st' \<Longrightarrow>
      (\<exists>d st c. (d, st, c) \<in> set (ts @ [t]) \<and> sp_strategy c \<noteq> None \<and> k = d + plan_dp c \<and>
         st' = extend_combo key st c)"
    and "\<And>d st c. (d, st, c) \<in> set (ts @ [t]) \<Longrightarrow> sp_strategy c \<noteq> None \<Longrightarrow>
      (\<exists>st'. map_of nxt' (d + plan_dp c) = Some st' \<and> value_of (extend_combo key st c) \<le> value_of st')"
  shows "best_of key (ts @ [t]) nxt'"
  unfolding best_of_def using assms by blast

lemma best_of_soundD:
  assumes "best_of key ts nxt" "map_of nxt k = Some st'" "set ts \<subseteq> set us"
  shows "\<exists>d st c. (d, st, c) \<in> set us \<and> sp_strategy c \<noteq> None \<and> k = d + plan_dp c \<and>
         st' = extend_combo key st c"
  using best_of_sound[OF assms(1,2)] assms(3) by (metis subsetD)

lemma best_of_relax:
  assumes best: "best_of key ts nxt"
  shows "best_of key (ts @ [(d, st, c)]) (relax key d st nxt c)"
proof (cases "sp_strategy c = None")
  case True
  then have r: "relax key d st nxt c = nxt" by (simp add: relax_alt)
  show ?thesis unfolding r
  proof (rule best_of_snocI)
    show "wf_dict nxt" using best by (simp add: best_of_def)
    show "\<exists>st'. map_of nxt (d' + plan_dp c') = Some st' \<and> value_of (extend_combo key s' c') \<le> value_of st'"
      if "(d', s', c') \<in> set (ts @ [(d, st, c)])" "sp_strategy c' \<noteq> None" for d' s' c'
    proof -
      have "(d', s', c') \<in> set ts" using that True by auto
      from best_of_opt[OF best this that(2)] show ?thesis by blast
    qed
  qed (rule best_of_soundD[OF best], assumption, auto)
next
  case False
  let ?k = "d + plan_dp c" and ?new = "extend_combo key st c"
  have nxt: "wf_dict nxt" using best by (simp add: best_of_def)
  show ?thesis
  proof (cases "\<exists>cur. map_of nxt ?k = Some cur \<and> value_of ?new \<le> value_of cur")
    case True
    then obtain cur where cur: "map_of nxt ?k = Some cur" "value_of ?new \<le> value_of cur" by blast
    then have "\<not> value_of cur < value_of ?new" by (simp add: not_less)
    then have r: "relax key d st nxt c = nxt" using False cur(1) by (simp add: relax_alt)
    show ?thesis unfolding r
    proof (rule best_of_snocI)
      show "\<exists>st'. map_of nxt (d' + plan_dp c') = Some st' \<and> value_of (extend_combo key s' c') \<le> value_of st'"
        if "(d', s', c') \<in> set (ts @ [(d, st, c)])" "sp_strategy c' \<noteq> None" for d' s' c'
      proof (cases "(d', s', c') \<in> set ts")
        case True
        from best_of_opt[OF best this that(2)] show ?thesis by blast
      next
        case False
        then have "d' = d" "s' = st" "c' = c" using that(1) by auto
        then show ?thesis using cur by blast
      qed
    qed (rule nxt, rule best_of_soundD[OF best], assumption, auto)
  next
    case upd: False
    then have r: "relax key d st nxt c = AList.update ?k ?new nxt"
      using False by (auto simp: relax_alt not_less split: option.split)
    have bigger: "value_of old \<le> value_of ?new" if "map_of nxt ?k = Some old" for old
      using upd that by (meson linear)
    show ?thesis unfolding r
    proof (rule best_of_snocI)
      show "wf_dict (AList.update ?k ?new nxt)" using nxt by (rule wf_dict_update)
      show "\<exists>st'. map_of (AList.update ?k ?new nxt) (d' + plan_dp c') = Some st' \<and>
          value_of (extend_combo key s' c') \<le> value_of st'"
        if "(d', s', c') \<in> set (ts @ [(d, st, c)])" and str: "sp_strategy c' \<noteq> None" for d' s' c'
      proof (cases "(d', s', c') \<in> set ts")
        case True
        obtain old where old: "map_of nxt (d' + plan_dp c') = Some old"
            "value_of (extend_combo key s' c') \<le> value_of old"
          using best_of_opt[OF best True str] by blast
        show ?thesis
        proof (cases "d' + plan_dp c' = ?k")
          case True
          then have "value_of (extend_combo key s' c') \<le> value_of ?new"
            using old bigger[of old] by (metis order_trans)
          then show ?thesis using True by (simp add: map_of_update)
        qed (use old in \<open>simp add: map_of_update\<close>)
      next
        case False
        then have "d' = d" "s' = st" "c' = c" using that(1) by auto
        then show ?thesis by (simp add: map_of_update)
      qed
      show "\<exists>d0 s0 c0. (d0, s0, c0) \<in> set (ts @ [(d, st, c)]) \<and> sp_strategy c0 \<noteq> None \<and>
          k = d0 + plan_dp c0 \<and> st' = extend_combo key s0 c0"
        if "map_of (AList.update ?k ?new nxt) k = Some st'" for k st'
      proof (cases "k = ?k")
        case True
        then have "st' = ?new" using that by (simp add: map_of_update)
        then show ?thesis using True False
          by (intro exI[of _ d] exI[of _ st] exI[of _ c]) simp
      next
        case False
        then have "map_of nxt k = Some st'" using that by (simp add: map_of_update)
        from best_of_soundD[OF best this, of "ts @ [(d, st, c)]"] show ?thesis by force
      qed
    qed
  qed
qed

lemma best_of_foldl:
  "best_of key ts nxt \<Longrightarrow> best_of key (ts @ us) (foldl (\<lambda>n (d, st, c). relax key d st n c) nxt us)"
proof (induction us arbitrary: ts nxt)
  case (Cons u us)
  obtain d st c where u: "u = (d, st, c)" by (cases u)
  from Cons.IH[OF best_of_relax[OF Cons.prems, of d st c]] show ?case by (simp add: u)
qed simp

lemma combine_slice_best:
  "best_of key (concat (map (\<lambda>(d, st). map (\<lambda>c. (d, st, c)) cands) states))
     (combine_slice states (key, cands))"
proof -
  have inner: "foldl (relax key d st) nxt cs =
      foldl (\<lambda>n (d, st, c). relax key d st n c) nxt (map (\<lambda>c. (d, st, c)) cs)" for d st nxt cs
    by (induction cs arbitrary: nxt) auto
  have outer: "foldl (\<lambda>nxt (d, st). foldl (relax key d st) nxt cands) nxt states =
      foldl (\<lambda>n (d, st, c). relax key d st n c) nxt
        (concat (map (\<lambda>(d, st). map (\<lambda>c. (d, st, c)) cands) states))" for nxt
  proof (induction states arbitrary: nxt)
    case (Cons x xs)
    obtain d st where x: "x = (d, st)" by (cases x)
    show ?case
      using Cons.IH[of "foldl (relax key d st) nxt cands"] inner[of d st nxt cands]
      by (simp add: x)
  qed simp
  have "best_of key [] []" by (simp add: best_of_def)
  from best_of_foldl[OF this, of "concat (map (\<lambda>(d, st). map (\<lambda>c. (d, st, c)) cands) states)"]
  show ?thesis by (simp add: combine_slice_def outer)
qed

section \<open>The whole table\<close>

text \<open>One candidate with a strategy per slice.\<close>

definition picks :: "(slice_key \<times> slice_plan list) list \<Rightarrow> slice_plan list \<Rightarrow> bool" where
  "picks slices ps \<longleftrightarrow>
     list_all2 (\<lambda>(key, cands) p. p \<in> set cands \<and> sp_strategy p \<noteq> None) slices ps"

definition sum_dp :: "slice_plan list \<Rightarrow> int" where "sum_dp ps = sum_list (map plan_dp ps)"
definition sum_score :: "slice_plan list \<Rightarrow> real" where "sum_score ps = sum_list (map sp_score ps)"
definition sum_throughput :: "slice_plan list \<Rightarrow> real" where
  "sum_throughput ps = sum_list (map sp_throughput ps)"

lemmas sum_defs = sum_dp_def sum_score_def sum_throughput_def

definition dict_of_items :: "('k \<times> 'v) list \<Rightarrow> ('k, 'v) dict" where
  "dict_of_items items = foldl (\<lambda>d (k, v). AList.update k v d) [] items"

definition combo_of :: "(slice_key \<times> slice_plan list) list \<Rightarrow> slice_plan list \<Rightarrow> combo" where
  "combo_of slices ps = \<lparr>c_score = sum_score ps, c_throughput = sum_throughput ps,
     c_plans = dict_of_items (zip (map fst slices) ps)\<rparr>"

definition table_ok :: "(slice_key \<times> slice_plan list) list \<Rightarrow> (int, combo) dict \<Rightarrow> bool" where
  "table_ok slices states \<longleftrightarrow> wf_dict states \<and>
     (\<forall>k st. map_of states k = Some st \<longrightarrow>
        (\<exists>ps. picks slices ps \<and> k = sum_dp ps \<and> st = combo_of slices ps)) \<and>
     (\<forall>ps. picks slices ps \<longrightarrow>
        (\<exists>st. map_of states (sum_dp ps) = Some st \<and>
           (sum_score ps, sum_throughput ps) \<le> value_of st))"

lemma picks_snoc:
  "picks (slices @ [(key, cands)]) ps \<longleftrightarrow>
     (\<exists>qs c. ps = qs @ [c] \<and> picks slices qs \<and> c \<in> set cands \<and> sp_strategy c \<noteq> None)"
proof
  assume "picks (slices @ [(key, cands)]) ps"
  then show "\<exists>qs c. ps = qs @ [c] \<and> picks slices qs \<and> c \<in> set cands \<and> sp_strategy c \<noteq> None"
    by (auto simp: picks_def list_all2_append1 list_all2_Cons1)
next
  assume "\<exists>qs c. ps = qs @ [c] \<and> picks slices qs \<and> c \<in> set cands \<and> sp_strategy c \<noteq> None"
  then show "picks (slices @ [(key, cands)]) ps"
    by (auto simp: picks_def intro!: list_all2_appendI)
qed

lemma combo_of_snoc:
  "length qs = length slices \<Longrightarrow>
     combo_of (slices @ [(key, cands)]) (qs @ [c]) = extend_combo key (combo_of slices qs) c"
  by (simp add: combo_of_def extend_combo_def sum_defs dict_of_items_def)

lemma picks_length: "picks slices ps \<Longrightarrow> length ps = length slices"
  by (auto simp: picks_def dest: list_all2_lengthD)

lemma table_ok_step:
  assumes "table_ok slices states"
  shows "table_ok (slices @ [(key, cands)]) (combine_slice states (key, cands))"
proof -
  let ?ts = "concat (map (\<lambda>(d, st). map (\<lambda>c. (d, st, c)) cands) states)"
  let ?nxt = "combine_slice states (key, cands)"
  have ts: "(d, st, c) \<in> set ?ts \<longleftrightarrow> map_of states d = Some st \<and> c \<in> set cands" for d st c
    using assms by (force simp: table_ok_def wf_dict_def)
  note best = combine_slice_best[of key cands states]
  have sound: "\<exists>ps. picks (slices @ [(key, cands)]) ps \<and> k = sum_dp ps \<and>
      st = combo_of (slices @ [(key, cands)]) ps" if nk: "map_of ?nxt k = Some st" for k st
  proof -
    obtain d st0 c where c: "map_of states d = Some st0" "c \<in> set cands" "sp_strategy c \<noteq> None"
        "k = d + plan_dp c" "st = extend_combo key st0 c"
      using best_of_sound[OF best nk] ts by metis
    obtain qs where qs: "picks slices qs" "d = sum_dp qs" "st0 = combo_of slices qs"
      using assms c(1) unfolding table_ok_def by blast
    have "picks (slices @ [(key, cands)]) (qs @ [c])" using qs(1) c(2,3) by (auto simp: picks_snoc)
    moreover have "k = sum_dp (qs @ [c])" using c(4) qs(2) by (simp add: sum_dp_def)
    ultimately show ?thesis
      using combo_of_snoc[OF picks_length[OF qs(1)]] c(5) qs(3) by metis
  qed
  have opt: "\<exists>st. map_of ?nxt (sum_dp ps) = Some st \<and> (sum_score ps, sum_throughput ps) \<le> value_of st"
    if pk: "picks (slices @ [(key, cands)]) ps" for ps
  proof -
    obtain qs c where qs: "ps = qs @ [c]" "picks slices qs" "c \<in> set cands" "sp_strategy c \<noteq> None"
      using pk by (auto simp: picks_snoc)
    obtain st0 where st0: "map_of states (sum_dp qs) = Some st0"
        "(sum_score qs, sum_throughput qs) \<le> value_of st0"
      using assms qs(2) unfolding table_ok_def by blast
    obtain st where st: "map_of ?nxt (sum_dp qs + plan_dp c) = Some st"
        "value_of (extend_combo key st0 c) \<le> value_of st"
      using best_of_opt[OF best _ qs(4)] ts st0(1) qs(3) by metis
    have "(sum_score qs + sp_score c, sum_throughput qs + sp_throughput c)
        \<le> value_of (extend_combo key st0 c)"
      using lex_le_add[OF st0(2)[unfolded value_of_def]]
      by (simp add: extend_combo_def value_of_def del: less_eq_prod_simp)
    then have "(sum_score ps, sum_throughput ps) \<le> value_of st"
      using st(2) qs(1) by (simp add: sum_defs del: less_eq_prod_simp)
    then show ?thesis using st(1) qs(1) by (simp add: sum_dp_def)
  qed
  have "wf_dict ?nxt" using best by (simp add: best_of_def)
  with sound opt show ?thesis unfolding table_ok_def by blast
qed

lemma table_ok_all:
  "table_ok slices (foldl combine_slice [(0, \<lparr>c_score = 0, c_throughput = 0, c_plans = []\<rparr>)] slices)"
proof (induction slices rule: rev_induct)
  case Nil
  show ?case
    by (auto simp: table_ok_def wf_dict_def picks_def sum_defs combo_of_def dict_of_items_def
        value_of_def)
next
  case (snoc x xs)
  obtain key cands where x: "x = (key, cands)" by (cases x)
  show ?case using table_ok_step[OF snoc.IH, of key cands] by (simp add: x)
qed


section \<open>Matching attention and FFN\<close>

lemma best_worker_combinations_ok:
  "map_of (best_worker_combinations_by_dp slices) d = Some st \<Longrightarrow>
     0 < d \<and> (\<exists>ps. picks slices ps \<and> d = sum_dp ps \<and> st = combo_of slices ps)"
  "picks slices ps \<Longrightarrow> 0 < sum_dp ps \<Longrightarrow>
     \<exists>st. map_of (best_worker_combinations_by_dp slices) (sum_dp ps) = Some st \<and>
       (sum_score ps, sum_throughput ps) \<le> value_of st"
proof -
  let ?tab = "foldl combine_slice [(0, \<lparr>c_score = 0, c_throughput = 0, c_plans = []\<rparr>)] slices"
  have ok: "table_ok slices ?tab" by (rule table_ok_all)
  then have wf: "distinct (map fst ?tab)" by (simp add: table_ok_def wf_dict_def)
  have map_of_filter: "map_of (filter (\<lambda>(dp, state). 0 < dp) tab) k =
      (if 0 < k then map_of tab k else None)" for k :: int and tab :: "(int, combo) dict"
    by (induction tab) auto
  show "map_of (best_worker_combinations_by_dp slices) d = Some st \<Longrightarrow>
     0 < d \<and> (\<exists>ps. picks slices ps \<and> d = sum_dp ps \<and> st = combo_of slices ps)"
    using ok by (auto simp: best_worker_combinations_by_dp_def map_of_filter table_ok_def
        split: if_splits)
  show "picks slices ps \<Longrightarrow> 0 < sum_dp ps \<Longrightarrow>
     \<exists>st. map_of (best_worker_combinations_by_dp slices) (sum_dp ps) = Some st \<and>
       (sum_score ps, sum_throughput ps) \<le> value_of st"
    using ok by (auto simp: best_worker_combinations_by_dp_def map_of_filter table_ok_def)
qed

text \<open>The slices of one worker type: distinct keys of that type, every candidate valid for them.\<close>

definition cand_ok :: "local_config \<Rightarrow> string \<Rightarrow> string \<Rightarrow> int \<Rightarrow> slice_plan \<Rightarrow> bool" where
  "cand_ok cfg w h gpus c \<longleftrightarrow> plan_for cfg w h gpus c \<and>
     (\<not> cost_aware cfg \<longrightarrow> sp_score c = sp_throughput c)"

definition slices_ok ::
    "local_config \<Rightarrow> allocation \<Rightarrow> string \<Rightarrow> (slice_key \<times> slice_plan list) list \<Rightarrow> bool" where
  "slices_ok cfg a w slices \<longleftrightarrow> distinct (map fst slices) \<and>
     (\<forall>((w', h), cands) \<in> set slices. w' = w \<and> h \<in> set (hardware_types a) \<and> 0 < am_get a w h \<and>
        cands \<noteq> [] \<and> (\<forall>c \<in> set cands. cand_ok cfg w h (am_get a w h) c))"

lemma slices_okD:
  assumes "slices_ok cfg a w slices" "((w', h), cands) \<in> set slices"
  shows "w' = w" "h \<in> set (hardware_types a)" "0 < am_get a w h"
    "c \<in> set cands \<Longrightarrow> cand_ok cfg w h (am_get a w h) c"
proof -
  have "\<forall>((w', h), cands) \<in> set slices. w' = w \<and> h \<in> set (hardware_types a) \<and>
      0 < am_get a w h \<and> cands \<noteq> [] \<and> (\<forall>c \<in> set cands. cand_ok cfg w h (am_get a w h) c)"
    using assms(1) unfolding slices_ok_def by (rule conjunct2)
  from bspec[OF this assms(2)]
  show "w' = w" "h \<in> set (hardware_types a)" "0 < am_get a w h"
    "c \<in> set cands \<Longrightarrow> cand_ok cfg w h (am_get a w h) c" by simp_all
qed

lemma slices_ok_snoc:
  assumes "slices_ok cfg a w slices" "h \<in> set (hardware_types a)" "0 < am_get a w h" "cands \<noteq> []"
    and "\<And>c. c \<in> set cands \<Longrightarrow> cand_ok cfg w h (am_get a w h) c" "h \<notin> snd ` fst ` set slices"
  shows "slices_ok cfg a w (slices @ [((w, h), cands)])"
proof -
  have "(w, h) \<notin> fst ` set slices" using assms(6) by force
  then show ?thesis using assms(1-5) unfolding slices_ok_def by simp
qed

definition previous_ok :: "previous_parallelism \<Rightarrow> bool" where
  "previous_ok pp \<longleftrightarrow> (\<forall>d. pp = Some d \<longrightarrow> (\<forall>(k, s) \<in> set d. wf_strategy s))"

lemma previous_of_ok: "previous_ok pp \<Longrightarrow> previous_of pp key = Some s \<Longrightarrow> wf_strategy s"
  by (auto simp: previous_ok_def previous_of_def split: option.splits dest!: map_of_SomeD)

lemma candidate_plain_score:
  assumes "candidate_slice_plans cfg est w h gpus wl previous = Inr plans" "p \<in> set plans"
    and "\<not> cost_aware cfg"
  shows "sp_score p = sp_throughput p"
  using assms by (auto simp: candidate_slice_plans_def bind_result_eq_Inr Let_def candidate_score_def)

lemma candidate_slice_plans_cand_ok:
  assumes "previous_ok pp"
  shows "\<exists>cands. candidate_slice_plans cfg est w h gpus wl (previous_of pp (w, h)) = Inr cands \<and>
    (\<forall>c \<in> set cands. cand_ok cfg w h gpus c)"
proof -
  obtain cands where
      c: "candidate_slice_plans cfg est w h gpus wl (previous_of pp (w, h)) = Inr cands"
      "\<And>c. c \<in> set cands \<Longrightarrow> plan_for cfg w h gpus c"
    by (rule candidate_slice_plans_ok[where previous = "previous_of pp (w, h)" and cfg = cfg
          and est = est and w = w and h = h and gpus = gpus and wl = wl])
      (rule previous_of_ok[OF assms], assumption, blast)
  have "cand_ok cfg w h gpus p" if "p \<in> set cands" for p
    using c(2)[OF that] candidate_plain_score[OF c(1) that] by (simp add: cand_ok_def)
  with c(1) show ?thesis by blast
qed

lemma decode_slices_ok:
  assumes "previous_ok pp"
  obtains slices where "decode_slices cfg est wl a pp w = Inr slices" "slices_ok cfg a w slices"
proof -
  let ?body = "\<lambda>slices hardware. let gpus = am_get a w hardware in
        if gpus \<le> 0 then Inr slices
        else bind_result (candidate_slice_plans cfg est w hardware gpus wl
                            (previous_of pp (w, hardware)))
               (\<lambda>candidates. Inr (if candidates = [] then slices
                                  else slices @ [((w, hardware), candidates)]))"
  have "set hws \<subseteq> set (hardware_types a) \<Longrightarrow> distinct hws \<Longrightarrow> slices_ok cfg a w slices \<Longrightarrow>
      snd ` fst ` set slices \<inter> set hws = {} \<Longrightarrow>
      \<exists>res. fold_result ?body slices hws = Inr res \<and> slices_ok cfg a w res" for hws slices
  proof (induction hws arbitrary: slices)
    case (Cons h hws)
    have rest: "set hws \<subseteq> set (hardware_types a)" "distinct hws"
        "snd ` fst ` set slices \<inter> set hws = {}"
      using Cons.prems by auto
    note IH = Cons.IH[OF rest(1,2)]
    show ?case
    proof (cases "am_get a w h \<le> 0")
      case True
      then have "?body slices h = Inr slices" by (simp add: Let_def)
      then show ?thesis
        using IH[OF Cons.prems(3) rest(3)] by (simp only: fold_result.simps bind_result_Inr)
    next
      case False
      obtain cands where cands:
          "candidate_slice_plans cfg est w h (am_get a w h) wl (previous_of pp (w, h)) = Inr cands"
          "\<And>c. c \<in> set cands \<Longrightarrow> cand_ok cfg w h (am_get a w h) c"
        using candidate_slice_plans_cand_ok[OF assms] by blast
      let ?new = "if cands = [] then slices else slices @ [((w, h), cands)]"
      have body: "?body slices h = Inr ?new"
        using False cands(1) by (simp add: Let_def)
      have "h \<notin> snd ` fst ` set slices" using Cons.prems(4) by auto
      then have "slices_ok cfg a w ?new"
        using slices_ok_snoc[OF Cons.prems(3), of h cands] Cons.prems(1,3) False cands(2) by simp
      moreover have "snd ` fst ` set ?new \<inter> set hws = {}"
        using rest(3) Cons.prems(2) by auto
      ultimately show ?thesis using IH[of ?new] body by (simp only: fold_result.simps bind_result_Inr)
    qed
  qed simp
  moreover have "distinct (hardware_types a)"
    by (simp add: hardware_types_def WORKER_TYPES_def)
  moreover have "slices_ok cfg a w []" by (simp add: slices_ok_def)
  ultimately obtain res where "fold_result ?body [] (hardware_types a) = Inr res"
      "slices_ok cfg a w res" by fastforce
  then show ?thesis using that by (simp add: decode_slices_def)
qed


section \<open>The chosen decode plans\<close>

lemma dict_of_items_snoc:
  "dict_of_items (items @ [(k, v)]) = AList.update k v (dict_of_items items)"
  by (simp add: dict_of_items_def)

lemma foldl_update_fresh:
  "distinct (map fst items) \<Longrightarrow> fst ` set d \<inter> fst ` set items = {} \<Longrightarrow>
     foldl (\<lambda>d (k, v). AList.update k v d) d items = d @ items"
proof (induction items arbitrary: d)
  case (Cons x xs)
  obtain k v where x: "x = (k, v)" by (cases x)
  then have "AList.update k v d = d @ [(k, v)]"
    using Cons.prems by (intro update_keys_absent) auto
  then show ?case using Cons.IH[of "d @ [(k, v)]"] Cons.prems by (auto simp: x)
qed simp

lemma dict_of_items_distinct: "distinct (map fst items) \<Longrightarrow> dict_of_items items = items"
  using foldl_update_fresh[of items "[]"] by (simp add: dict_of_items_def)

text \<open>A combination of one worker type: one plan per slice, keyed by the slice.\<close>

lemma combo_plans:
  assumes "slices_ok cfg a w slices" "picks slices ps"
  shows "c_plans (combo_of slices ps) = zip (map fst slices) ps"
proof -
  have "map fst (zip (map fst slices) ps) = map fst slices"
    using picks_length[OF assms(2)] by simp
  then show ?thesis
    using assms(1) by (simp add: combo_of_def dict_of_items_distinct slices_ok_def)
qed

lemma picks_cand_ok:
  assumes "slices_ok cfg a w slices" "picks slices ps" "((w', h), p) \<in> set (zip (map fst slices) ps)"
  shows "w' = w" "h \<in> set (hardware_types a)" "0 < am_get a w h" "cand_ok cfg w h (am_get a w h) p"
proof -
  obtain i where i: "i < length slices" "i < length ps" "map fst slices ! i = (w', h)" "ps ! i = p"
    using assms(3) by (auto simp: set_zip)
  obtain cands where c: "slices ! i = ((w', h), cands)" using i(1,3) by (cases "slices ! i") auto
  have p: "p \<in> set cands"
    using list_all2_nthD[OF assms(2)[unfolded picks_def] i(1)] c i(4) by simp
  have "((w', h), cands) \<in> set slices" using c i(1) by (metis nth_mem)
  note d = slices_okD[OF assms(1) this]
  from d(1-3) d(4)[OF p] show "w' = w" "h \<in> set (hardware_types a)" "0 < am_get a w h"
    "cand_ok cfg w h (am_get a w h) p" by simp_all
qed

lemma picks_plain_score:
  assumes "slices_ok cfg a w slices" "picks slices ps" "\<not> cost_aware cfg"
  shows "sum_score ps = sum_throughput ps"
proof -
  have "sp_score p = sp_throughput p" if p: "p \<in> set ps" for p
  proof -
    obtain k where "(k, p) \<in> set (zip (map fst slices) ps)"
      using p picks_length[OF assms(2)] by (metis in_set_impl_in_set_zip2 length_map)
    then show ?thesis
      using picks_cand_ok(4)[OF assms(1,2)] assms(3) by (cases k) (auto simp: cand_ok_def)
  qed
  then show ?thesis unfolding sum_defs by (metis (mono_tags, lifting) map_eq_conv)
qed

lemma best_combos_wf: "wf_dict (best_worker_combinations_by_dp slices)"
proof -
  have "wf_dict (foldl combine_slice [(0, \<lparr>c_score = 0, c_throughput = 0, c_plans = []\<rparr>)] slices)"
    using table_ok_all[of slices] by (simp add: table_ok_def)
  then show ?thesis
    by (auto simp: best_worker_combinations_by_dp_def wf_dict_def distinct_map_filter)
qed

text \<open>
  C3. The dynamic program over the slices of one worker type is exact. Every entry of the
  table is a positive total DP reached by picking one candidate per slice, with the score,
  throughput and plans of that pick; and every pick with a positive total DP is matched by an
  entry for that total whose (score, throughput) is lexicographically at least as good.
\<close>

theorem best_worker_combinations_optimal:
  "(\<forall>d st. map_of (best_worker_combinations_by_dp slices) d = Some st \<longrightarrow>
      0 < d \<and> (\<exists>ps. picks slices ps \<and> sum_dp ps = d \<and> st = combo_of slices ps)) \<and>
   (\<forall>ps. picks slices ps \<and> 0 < sum_dp ps \<longrightarrow>
      (\<exists>st. map_of (best_worker_combinations_by_dp slices) (sum_dp ps) = Some st \<and>
         (sum_score ps, sum_throughput ps) \<le> (c_score st, c_throughput st)))"
  using best_worker_combinations_ok[of slices]
  unfolding value_of_def by (metis (no_types, lifting))


text \<open>Two H20 attention GPUs: one replica of TP 2, or two of TP 1.\<close>

definition sample_plan :: "strategy \<Rightarrow> real \<Rightarrow> slice_plan" where
  "sample_plan s t = \<lparr>sp_worker_type = ''attn'', sp_hardware = ''H20'', sp_gpus = 2,
     sp_strategy = Some s, sp_throughput = t, sp_reconfiguration_cost_s = 0, sp_score = t\<rparr>"

definition sample_slices :: "(slice_key \<times> slice_plan list) list" where
  "sample_slices = [((''attn'', ''H20''),
     [sample_plan (finish_strategy [\<lparr>r_tp = 2, r_ep = 1\<rparr>]) 5,
      sample_plan (finish_strategy (replicate 2 \<lparr>r_tp = 1, r_ep = 1\<rparr>)) 7])]"

theorem best_worker_combinations_optimal_witness:
  "picks sample_slices [sample_plan (finish_strategy (replicate 2 \<lparr>r_tp = 1, r_ep = 1\<rparr>)) 7] \<and>
   (\<exists>st. map_of (best_worker_combinations_by_dp sample_slices) 2 = Some st \<and> 7 \<le> c_score st)"
proof -
  let ?ps = "[sample_plan (finish_strategy (replicate 2 \<lparr>r_tp = 1, r_ep = 1\<rparr>)) 7]"
  have p: "picks sample_slices ?ps" by (simp add: picks_def sample_slices_def sample_plan_def)
  have dp: "sum_dp ?ps = 2" "sum_score ?ps = 7"
    by (simp_all add: sum_defs plan_dp_def sample_plan_def finish_strategy_def)
  obtain st where "map_of (best_worker_combinations_by_dp sample_slices) 2 = Some st"
      "(sum_score ?ps, sum_throughput ?ps) \<le> (c_score st, c_throughput st)"
    using conjunct2[OF best_worker_combinations_optimal[of sample_slices], rule_format, of ?ps] p dp by auto
  then show ?thesis using p dp(2) by auto
qed

text \<open>Picks for attention and FFN that use the same positive total DP.\<close>

definition matched_picks :: "(slice_key \<times> slice_plan list) list \<Rightarrow>
    (slice_key \<times> slice_plan list) list \<Rightarrow> slice_plan list \<Rightarrow> slice_plan list \<Rightarrow> bool" where
  "matched_picks as fs ps qs \<longleftrightarrow> picks as ps \<and> picks fs qs \<and> sum_dp ps = sum_dp qs \<and> 0 < sum_dp ps"

lemma matched_plans_append:
  assumes "slices_ok cfg a ''attn'' as" "slices_ok cfg a ''ffn'' fs" "picks as ps" "picks fs qs"
  shows "foldl (\<lambda>d (k, p). AList.update k p d) (c_plans (combo_of as ps)) (c_plans (combo_of fs qs)) =
    zip (map fst as) ps @ zip (map fst fs) qs"
proof -
  have keys: "map fst (zip (map fst fs) qs) = map fst fs"
    using picks_length[OF assms(4)] by simp
  have worker: "fst k = w" if "slices_ok cfg a w sl" "(k, p) \<in> set (zip (map fst sl) rs)"
      "picks sl rs" for w sl k p rs
    using picks_cand_ok(1)[OF that(1,3)] that(2) by (cases k) auto
  have "fst ` set (zip (map fst as) ps) \<inter> fst ` set (zip (map fst fs) qs) = {}"
    using worker[OF assms(1) _ assms(3)] worker[OF assms(2) _ assms(4)] by fastforce
  then show ?thesis
    using foldl_update_fresh[of "zip (map fst fs) qs"] keys assms(2)
      combo_plans[OF assms(1,3)] combo_plans[OF assms(2,4)] by (simp add: slices_ok_def)
qed

lemma common_dp:
  "d \<in> set (filter (\<lambda>d. d \<in> set (map fst (best_worker_combinations_by_dp fs)))
              (map fst (best_worker_combinations_by_dp as))) \<longleftrightarrow>
     (\<exists>st st'. map_of (best_worker_combinations_by_dp as) d = Some st \<and>
              map_of (best_worker_combinations_by_dp fs) d = Some st')"
  by (auto simp: map_of_eq_None_iff simp flip: not_None_eq)


lemma choose_decode_strategies_eq:
  fixes as fs :: "(slice_key \<times> slice_plan list) list"
  defines "A \<equiv> best_worker_combinations_by_dp as" and "F \<equiv> best_worker_combinations_by_dp fs"
  defines "common \<equiv> filter (\<lambda>d. d \<in> set (map fst F)) (map fst A)"
  assumes "decode_slices cfg est wl a pp ''attn'' = Inr as" "decode_slices cfg est wl a pp ''ffn'' = Inr fs"
    and "A \<noteq> []" "F \<noteq> []" "set_order common \<noteq> []"
    and "max_key (\<lambda>d. dp_key (the (map_of A d)) (the (map_of F d))) (set_order common) = Inr t"
  shows "choose_decode_strategies_with_matched_dp set_order cfg est wl a pp =
    Inr (foldl (\<lambda>d (k, p). AList.update k p d) (c_plans (the (map_of A t))) (c_plans (the (map_of F t))))"
  unfolding choose_decode_strategies_with_matched_dp_def assms(4,5) bind_result_Inr Let_def
    A_def[symmetric] F_def[symmetric] common_def[symmetric] assms(9)
  using assms(6-8) by simp

lemma combo_value_plain:
  assumes "slices_ok cfg a w slices" "\<not> cost_aware cfg" "picks slices ps"
    and "map_of (best_worker_combinations_by_dp slices) d = Some st"
    and "(sum_score ps, sum_throughput ps) \<le> value_of st"
  shows "sum_throughput ps \<le> c_throughput st"
proof -
  obtain rs where rs: "picks slices rs" "st = combo_of slices rs"
    using best_worker_combinations_ok(1)[OF assms(4)] by blast
  have "sum_score rs = sum_throughput rs" "sum_score ps = sum_throughput ps"
    using picks_plain_score[OF assms(1) _ assms(2)] rs(1) assms(3) by blast+
  then show ?thesis using assms(5) rs(2) by (auto simp: value_of_def combo_of_def)
qed

lemma matched_in_tables:
  assumes "matched_picks as fs ps qs"
  obtains st st' where "map_of (best_worker_combinations_by_dp as) (sum_dp ps) = Some st"
    "map_of (best_worker_combinations_by_dp fs) (sum_dp ps) = Some st'"
    "(sum_score ps, sum_throughput ps) \<le> value_of st" "(sum_score qs, sum_throughput qs) \<le> value_of st'"
  using assms best_worker_combinations_ok(2)[of as ps] best_worker_combinations_ok(2)[of fs qs]
  unfolding matched_picks_def by metis

lemma tables_matched:
  assumes "map_of (best_worker_combinations_by_dp as) d = Some st"
    and "map_of (best_worker_combinations_by_dp fs) d = Some st'"
  obtains ps qs where "matched_picks as fs ps qs" "d = sum_dp ps"
    "st = combo_of as ps" "st' = combo_of fs qs"
proof -
  obtain ps where ps: "0 < d" "picks as ps" "d = sum_dp ps" "st = combo_of as ps"
    using best_worker_combinations_ok(1)[OF assms(1)] by blast
  obtain qs where qs: "picks fs qs" "d = sum_dp qs" "st' = combo_of fs qs"
    using best_worker_combinations_ok(1)[OF assms(2)] by blast
  show ?thesis by (rule that[of ps qs]) (use ps qs in \<open>simp_all add: matched_picks_def\<close>)
qed

lemma matched_best_throughput:
  fixes as fs :: "(slice_key \<times> slice_plan list) list"
  defines "A \<equiv> best_worker_combinations_by_dp as" and "F \<equiv> best_worker_combinations_by_dp fs"
  assumes "slices_ok cfg a ''attn'' as" "slices_ok cfg a ''ffn'' fs" "\<not> cost_aware cfg"
    and m: "matched_picks as fs ps' qs'"
    and st: "map_of A t = Some (combo_of as ps)" "map_of F t = Some (combo_of fs qs)"
    and best: "\<And>d st st'. map_of A d = Some st \<Longrightarrow> map_of F d = Some st' \<Longrightarrow>
      dp_key st st' \<le> dp_key (combo_of as ps) (combo_of fs qs)"
  shows "min (sum_throughput ps') (sum_throughput qs') \<le> min (sum_throughput ps) (sum_throughput qs)"
proof -
  obtain s1 s1' where s1: "map_of A (sum_dp ps') = Some s1" "map_of F (sum_dp ps') = Some s1'"
      "(sum_score ps', sum_throughput ps') \<le> value_of s1"
      "(sum_score qs', sum_throughput qs') \<le> value_of s1'"
    using matched_in_tables[OF m] unfolding A_def F_def by blast
  have "min (c_throughput s1) (c_throughput s1') \<le> min (sum_throughput ps) (sum_throughput qs)"
    using best[OF s1(1,2)] by (auto simp: dp_key_def combo_of_def)
  moreover have "sum_throughput ps' \<le> c_throughput s1" "sum_throughput qs' \<le> c_throughput s1'"
    using m combo_value_plain[OF assms(3,5) _ s1(1)[unfolded A_def] s1(3)]
      combo_value_plain[OF assms(4,5) _ s1(2)[unfolded F_def] s1(4)]
    by (simp_all add: matched_picks_def)
  ultimately show ?thesis by linarith
qed

text \<open>The result of the search, given the two families of slices.\<close>

definition matched_result :: "local_config \<Rightarrow> allocation \<Rightarrow> (slice_key \<times> slice_plan list) list \<Rightarrow>
    (slice_key \<times> slice_plan list) list \<Rightarrow> (slice_key, slice_plan) dict \<Rightarrow> bool" where
  "matched_result cfg a as fs plans \<longleftrightarrow>
     (if \<exists>ps qs. matched_picks as fs ps qs
      then \<exists>ps qs. matched_picks as fs ps qs \<and> plans = zip (map fst as) ps @ zip (map fst fs) qs \<and>
        (\<forall>w h p. ((w, h), p) \<in> set plans \<longrightarrow> plan_for cfg w h (am_get a w h) p) \<and>
        (\<not> cost_aware cfg \<longrightarrow> (\<forall>ps' qs'. matched_picks as fs ps' qs' \<longrightarrow>
           min (sum_throughput ps') (sum_throughput qs') \<le> min (sum_throughput ps) (sum_throughput qs)))
      else plans = [])"

lemma matched_resultI:
  assumes ok: "slices_ok cfg a ''attn'' as" "slices_ok cfg a ''ffn'' fs"
    and t: "map_of (best_worker_combinations_by_dp as) t = Some st"
      "map_of (best_worker_combinations_by_dp fs) t = Some st'"
    and best: "\<And>d s s'. map_of (best_worker_combinations_by_dp as) d = Some s \<Longrightarrow>
      map_of (best_worker_combinations_by_dp fs) d = Some s' \<Longrightarrow> dp_key s s' \<le> dp_key st st'"
  shows "matched_result cfg a as fs
    (foldl (\<lambda>d (k, p). AList.update k p d) (c_plans st) (c_plans st'))"
proof -
  obtain ps qs where pq: "matched_picks as fs ps qs" "st = combo_of as ps" "st' = combo_of fs qs"
    using tables_matched[OF t] by blast
  then have pick: "picks as ps" "picks fs qs" by (simp_all add: matched_picks_def)
  have plan: "plan_for cfg w h (am_get a w h) p"
    if "((w, h), p) \<in> set (zip (map fst as) ps @ zip (map fst fs) qs)" for w h p
    using that picks_cand_ok[OF ok(1) pick(1), of w h p] picks_cand_ok[OF ok(2) pick(2), of w h p]
    by (auto simp: cand_ok_def)
  have opt: "min (sum_throughput ps') (sum_throughput qs') \<le> min (sum_throughput ps) (sum_throughput qs)"
    if "\<not> cost_aware cfg" "matched_picks as fs ps' qs'" for ps' qs'
    using matched_best_throughput[OF ok that t[unfolded pq] best[unfolded pq]] .
  show ?thesis
    unfolding matched_result_def pq matched_plans_append[OF ok pick]
    using pq(1) plan opt by (subst if_P) blast+
qed

lemma choose_decode_matched_core:
  assumes "previous_ok pp" "\<And>xs. set (set_order xs) = set xs"
  obtains as fs plans where "decode_slices cfg est wl a pp ''attn'' = Inr as"
    "decode_slices cfg est wl a pp ''ffn'' = Inr fs"
    "choose_decode_strategies_with_matched_dp set_order cfg est wl a pp = Inr plans"
    "matched_result cfg a as fs plans" "slices_ok cfg a ''attn'' as" "slices_ok cfg a ''ffn'' fs"
proof -
  obtain as where as: "decode_slices cfg est wl a pp ''attn'' = Inr as" "slices_ok cfg a ''attn'' as"
    using decode_slices_ok[OF assms(1)] by blast
  obtain fs where fs: "decode_slices cfg est wl a pp ''ffn'' = Inr fs" "slices_ok cfg a ''ffn'' fs"
    using decode_slices_ok[OF assms(1)] by blast
  let ?A = "best_worker_combinations_by_dp as" and ?F = "best_worker_combinations_by_dp fs"
  let ?common = "set_order (filter (\<lambda>d. d \<in> set (map fst ?F)) (map fst ?A))"
  let ?key = "\<lambda>d. dp_key (the (map_of ?A d)) (the (map_of ?F d))"
  have common: "d \<in> set ?common \<longleftrightarrow>
      (\<exists>st st'. map_of ?A d = Some st \<and> map_of ?F d = Some st')" for d
    using common_dp[of d fs as] assms(2) by simp
  show ?thesis
  proof (cases "?common = []")
    case True
    then have "\<not> matched_picks as fs ps qs" for ps qs
      using matched_in_tables[of as fs ps qs] common[of "sum_dp ps"] by (metis list.set(1) empty_iff)
    moreover have "choose_decode_strategies_with_matched_dp set_order cfg est wl a pp = Inr []"
      using True by (simp add: choose_decode_strategies_with_matched_dp_def as(1) fs(1) Let_def)
    ultimately show ?thesis using that[OF as(1) fs(1)] as(2) fs(2) by (simp add: matched_result_def)
  next
    case False
    obtain t where t: "max_key ?key ?common = Inr t" using max_key_total[OF False] by blast
    then have "t \<in> set ?common" by (rule max_key_Inr)
    then obtain st st' where st: "map_of ?A t = Some st" "map_of ?F t = Some st'" using common by blast
    have "dp_key s s' \<le> dp_key st st'" if "map_of ?A d = Some s" "map_of ?F d = Some s'" for d s s'
      using max_key_Inr(2)[OF t, of d] common[of d] that st by simp
    note res = matched_resultI[OF as(2) fs(2) st this]
    have "?A \<noteq> []" "?F \<noteq> []" using st by auto
    from choose_decode_strategies_eq[where set_order = set_order, OF as(1) fs(1) this False t] st
    show ?thesis using that[OF as(1) fs(1) _ res as(2) fs(2)] by simp
  qed
qed

text \<open>
  C2. \<open>_choose_decode_strategies_with_matched_dp\<close> never raises on well-formed previous
  strategies, whatever the iteration order of the set of common DP totals. When some choice
  of one candidate per attention slice and per FFN slice gives both sides the same positive
  total DP, it returns such a choice: the attention plans followed by the FFN plans, one per
  slice, each a valid strategy for exactly the GPUs the allocation gives that slice. Without
  cost awareness its decode bottleneck, the smaller of the two throughput sums, is the best of
  all matched choices. When no matched choice exists it returns no plans.
\<close>

theorem choose_decode_strategies_matched:
  assumes "previous_ok pp" "\<And>xs. set (set_order xs) = set xs"
  shows "\<exists>as fs plans. decode_slices cfg est wl a pp ''attn'' = Inr as \<and>
    decode_slices cfg est wl a pp ''ffn'' = Inr fs \<and>
    choose_decode_strategies_with_matched_dp set_order cfg est wl a pp = Inr plans \<and>
    (if \<exists>ps qs. matched_picks as fs ps qs
     then \<exists>ps qs. matched_picks as fs ps qs \<and>
        plans = zip (map fst as) ps @ zip (map fst fs) qs \<and>
        (\<forall>w h p. ((w, h), p) \<in> set plans \<longrightarrow> plan_for cfg w h (am_get a w h) p) \<and>
        (\<not> cost_aware cfg \<longrightarrow> (\<forall>ps' qs'. matched_picks as fs ps' qs' \<longrightarrow>
           min (sum_throughput ps') (sum_throughput qs') \<le> min (sum_throughput ps) (sum_throughput qs)))
     else plans = [])"
proof -
  obtain as fs plans where c: "decode_slices cfg est wl a pp ''attn'' = Inr as"
      "decode_slices cfg est wl a pp ''ffn'' = Inr fs"
      "choose_decode_strategies_with_matched_dp set_order cfg est wl a pp = Inr plans"
      "matched_result cfg a as fs plans"
    using choose_decode_matched_core[of pp set_order cfg est wl a, OF assms] by blast
  show ?thesis
    by (intro exI[of _ as] exI[of _ fs] exI[of _ plans] conjI c(1-3) c(4)[unfolded matched_result_def])
qed


text \<open>An estimator whose throughput is the number of GPUs, on one attention and one FFN GPU.\<close>

definition gpu_count_estimator :: estimator where
  "gpu_count_estimator = \<lparr>est_slice_throughput = (\<lambda>w h s wl. of_int (strategy_gpus s)),
     est_latency = (\<lambda>wl t. Fin 0), est_tail_latency = (\<lambda>wl t. []), est_cost_per_hour = (\<lambda>a. 0)\<rparr>"

definition sample_workload :: workload_profile where
  "sample_workload = \<lparr>arrival_rate = 1, input_lengths = [512], output_lengths = [128], max_batch_size = 8\<rparr>"

definition sample_alloc :: allocation where
  "sample_alloc = am_set (am_set (am_zeros [''H20'']) ''attn'' ''H20'' 1) ''ffn'' ''H20'' 1"

lemma sample_decode_plans:
  "case choose_decode_strategies_with_matched_dp (\<lambda>xs. xs) default_config gpu_count_estimator
     sample_workload sample_alloc None of Inl _ \<Rightarrow> False
   | Inr plans \<Rightarrow> map fst plans = [(''attn'', ''H20''), (''ffn'', ''H20'')]"
  by code_simp

theorem choose_decode_strategies_matched_witness:
  "previous_ok None \<and> (\<exists>plans p. choose_decode_strategies_with_matched_dp (\<lambda>xs. xs) default_config
     gpu_count_estimator sample_workload sample_alloc None = Inr plans \<and>
     ((''attn'', ''H20''), p) \<in> set plans \<and> plan_for default_config ''attn'' ''H20'' 1 p)"
proof -
  have prev: "previous_ok None" by (simp add: previous_ok_def)
  obtain as fs plans where t: "choose_decode_strategies_with_matched_dp (\<lambda>xs. xs) default_config
       gpu_count_estimator sample_workload sample_alloc None = Inr plans"
      "if \<exists>ps qs. matched_picks as fs ps qs then \<exists>ps qs. matched_picks as fs ps qs \<and>
        plans = zip (map fst as) ps @ zip (map fst fs) qs \<and>
        (\<forall>w h p. ((w, h), p) \<in> set plans \<longrightarrow> plan_for default_config w h (am_get sample_alloc w h) p) \<and>
        (\<not> cost_aware default_config \<longrightarrow> (\<forall>ps' qs'. matched_picks as fs ps' qs' \<longrightarrow>
           min (sum_throughput ps') (sum_throughput qs') \<le> min (sum_throughput ps) (sum_throughput qs)))
     else plans = []"
    using choose_decode_strategies_matched[OF prev, of "\<lambda>xs. xs" default_config gpu_count_estimator
        sample_workload sample_alloc] by auto
  have keys: "map fst plans = [(''attn'', ''H20''), (''ffn'', ''H20'')]"
    using sample_decode_plans by (simp add: t(1))
  then obtain p where p: "((''attn'', ''H20''), p) \<in> set plans" by (cases plans) auto
  have one: "am_get sample_alloc ''attn'' ''H20'' = 1" by code_simp
  have "plans \<noteq> []" using keys by auto
  then have "plan_for default_config ''attn'' ''H20'' 1 p"
    using t(2) p one by (metis (no_types, lifting))
  then show ?thesis using prev t(1) p by blast
qed

section \<open>Evaluating an allocation\<close>

text \<open>Recording plans under distinct keys only appends.\<close>

definition strategies_of :: "(slice_key, slice_plan) dict \<Rightarrow> (slice_key, strategy) dict" where
  "strategies_of items = List.map_filter (\<lambda>(k, p). map_option (Pair k) (sp_strategy p)) items"

definition worker_throughput :: "(slice_key, slice_plan) dict \<Rightarrow> string \<Rightarrow> real" where
  "worker_throughput items w = sum_list (map (sp_throughput \<circ> snd) (filter (\<lambda>(k, p). fst k = w) items))"

definition worker_dp :: "(slice_key, strategy) dict \<Rightarrow> string \<Rightarrow> int" where
  "worker_dp strategies w = sum_list (map (s_dp \<circ> snd) (filter (\<lambda>(k, s). fst k = w) strategies))"

definition eval_start :: eval_state where
  "eval_start = \<lparr>ev_slice_plans = [], ev_parallelism = [],
     ev_throughput = dict_comp WORKER_TYPES (\<lambda>_. 0)\<rparr>"

lemma strategies_of_append [simp]:
  "strategies_of (xs @ ys) = strategies_of xs @ strategies_of ys"
  by (simp add: strategies_of_def map_filter_def)

lemma strategies_of_Cons:
  "strategies_of ((k, p) # items) =
     (case sp_strategy p of None \<Rightarrow> strategies_of items | Some s \<Rightarrow> (k, s) # strategies_of items)"
  by (simp add: strategies_of_def map_filter_def split: option.split)

lemma strategies_of_keys: "fst ` set (strategies_of items) \<subseteq> fst ` set items"
  by (force simp: strategies_of_def map_filter_def)

lemma record_plans:
  assumes "distinct (map fst items)"
  shows "let st = foldl (\<lambda>st (key, plan). record_plan st key plan) eval_start items in
    ev_slice_plans st = items \<and> ev_parallelism st = strategies_of items \<and>
    (\<forall>w. dict_getd (ev_throughput st) w 0 = worker_throughput items w)"
  using assms
proof (induction items rule: rev_induct)
  case Nil
  show ?case
    by (simp add: eval_start_def strategies_of_def map_filter_def worker_throughput_def
        dict_getd_def map_of_dict_comp)
next
  case (snoc x xs)
  obtain k p where x: "x = (k, p)" by (cases x)
  have k: "k \<notin> fst ` set xs" using snoc.prems by (auto simp: x)
  then have "k \<notin> fst ` set (strategies_of xs)" using strategies_of_keys by blast
  with k snoc show ?case
    by (auto simp: x record_plan_def Let_def update_keys_absent strategies_of_def map_filter_def
        worker_throughput_def dict_getd_update split: option.split)
qed

lemma evaluate_slices_record:
  assumes "\<And>w h. (w, h) \<in> set keys \<Longrightarrow> 0 < am_get a w h \<Longrightarrow>
      choose_strategy cfg est w h (am_get a w h) wl (previous_of pp (w, h)) = Inr (f (w, h))"
  shows "fold_result (evaluate_slice cfg est wl a pp) st keys =
    Inr (foldl (\<lambda>st (key, plan). record_plan st key plan) st
      (map (\<lambda>k. (k, f k)) (filter (\<lambda>(w, h). 0 < am_get a w h) keys)))"
  using assms
proof (induction keys arbitrary: st)
  case (Cons k keys)
  obtain w h where k: "k = (w, h)" by (cases k)
  note IH = Cons.IH[OF Cons.prems]
  show ?case
  proof (cases "am_get a w h \<le> 0")
    case True
    then show ?thesis using IH by (simp add: k evaluate_slice_def)
  next
    case False
    then show ?thesis using IH Cons.prems[of w h] by (simp add: k evaluate_slice_def)
  qed
qed simp

definition item_ok :: "local_config \<Rightarrow> allocation \<Rightarrow> slice_key \<times> slice_plan \<Rightarrow> bool" where
  "item_ok cfg a item = (case item of ((w, h), p) \<Rightarrow> 0 < am_get a w h \<and> sp_gpus p = am_get a w h \<and>
     (\<forall>s. sp_strategy p = Some s \<longrightarrow> wf_strategy s \<and> is_strategy_valid cfg s (am_get a w h)))"

lemma plan_for_item: "plan_for cfg w h (am_get a w h) p \<Longrightarrow> 0 < am_get a w h \<Longrightarrow> item_ok cfg a ((w, h), p)"
  by (auto simp: plan_for_def item_ok_def)

lemma choose_strategy_item:
  assumes "previous_ok pp"
  shows "\<exists>plan. choose_strategy cfg est w h (am_get a w h) wl (previous_of pp (w, h)) = Inr plan \<and>
    (0 < am_get a w h \<longrightarrow> item_ok cfg a ((w, h), plan))"
proof -
  obtain cands where c: "candidate_slice_plans cfg est w h (am_get a w h) wl (previous_of pp (w, h)) = Inr cands"
      "\<And>p. p \<in> set cands \<Longrightarrow> plan_for cfg w h (am_get a w h) p"
    using candidate_slice_plans_cand_ok[OF assms] unfolding cand_ok_def by metis
  obtain plan where plan: "choose_strategy cfg est w h (am_get a w h) wl (previous_of pp (w, h)) = Inr plan"
      "case sp_strategy plan of None \<Rightarrow> sp_score plan = -1 \<and> sp_throughput plan = 0 \<and>
         (\<forall>c \<in> set cands. sp_score c \<le> -1) | Some s \<Rightarrow> plan \<in> set cands \<and> -1 < sp_score plan"
    using choose_strategy_max[OF c] by blast
  have "sp_gpus plan = am_get a w h"
  proof -
    have "sp_gpus (foldl better_plan b ps) = sp_gpus b" for b ps
      by (induction ps arbitrary: b) (simp_all add: better_plan_def)
    then show ?thesis using plan(1) c(1) by (auto simp: choose_strategy_def)
  qed
  then have "0 < am_get a w h \<longrightarrow> item_ok cfg a ((w, h), plan)"
    using plan(2) c(2)[of plan] by (auto simp: item_ok_def plan_for_def split: option.splits)
  with plan(1) show ?thesis by blast
qed


lemma worker_dp_strategies:
  assumes "\<And>k p. (k, p) \<in> set items \<Longrightarrow> fst k = w"
  shows "worker_dp (strategies_of items) w' = (if w' = w then sum_dp (map snd items) else 0)"
  using assms
proof (induction items)
  case (Cons x xs)
  obtain k p where x: "x = (k, p)" by (cases x)
  have "fst k = w" using Cons.prems[of k p] by (simp add: x)
  moreover have "worker_dp (strategies_of xs) w' = (if w' = w then sum_dp (map snd xs) else 0)"
    by (rule Cons.IH) (rule Cons.prems, erule list.set_intros(2))
  ultimately show ?case
    by (cases "w' = w")
      (simp_all add: x worker_dp_def strategies_of_Cons sum_dp_def plan_dp_def split: option.split)
qed (simp add: worker_dp_def strategies_of_def map_filter_def sum_dp_def)

lemma worker_dp_append: "worker_dp (xs @ ys) w = worker_dp xs w + worker_dp ys w"
  by (simp add: worker_dp_def)

definition decode_items_ok :: "local_config \<Rightarrow> allocation \<Rightarrow> (slice_key, slice_plan) dict \<Rightarrow> bool" where
  "decode_items_ok cfg a plans \<longleftrightarrow> distinct (map fst plans) \<and> list_all (item_ok cfg a) plans \<and>
     (\<forall>(k, p) \<in> set plans. fst k \<in> {''attn'', ''ffn''}) \<and>
     worker_dp (strategies_of plans) ''attn'' = worker_dp (strategies_of plans) ''ffn''"

lemma picks_items:
  assumes "slices_ok cfg a w slices" "picks slices ps"
  shows "map fst (zip (map fst slices) ps) = map fst slices" "map snd (zip (map fst slices) ps) = ps"
    "(k, p) \<in> set (zip (map fst slices) ps) \<Longrightarrow> fst k = w \<and> item_ok cfg a (k, p)"
proof -
  show "map fst (zip (map fst slices) ps) = map fst slices" "map snd (zip (map fst slices) ps) = ps"
    using picks_length[OF assms(2)] by simp_all
  obtain w' h where k: "k = (w', h)" by (cases k)
  show "fst k = w \<and> item_ok cfg a (k, p)" if "(k, p) \<in> set (zip (map fst slices) ps)"
    using picks_cand_ok[OF assms that[unfolded k]] plan_for_item[of cfg w h a p]
    by (simp add: k cand_ok_def)
qed

lemma matched_result_items:
  assumes ok: "slices_ok cfg a ''attn'' as" "slices_ok cfg a ''ffn'' fs"
    and res: "matched_result cfg a as fs plans"
  shows "decode_items_ok cfg a plans"
proof (cases "plans = []")
  case False
  then obtain ps qs where pq: "matched_picks as fs ps qs"
      "plans = zip (map fst as) ps @ zip (map fst fs) qs"
    using res unfolding matched_result_def by metis
  then have pick: "picks as ps" "picks fs qs" and dp: "sum_dp ps = sum_dp qs"
    by (simp_all add: matched_picks_def)
  note ia = picks_items[OF ok(1) pick(1)] and jf = picks_items[OF ok(2) pick(2)]
  have "fst ` set (zip (map fst as) ps) \<inter> fst ` set (zip (map fst fs) qs) = {}"
    using ia(3) jf(3) by fastforce
  moreover have "distinct (map fst (zip (map fst as) ps))" "distinct (map fst (zip (map fst fs) qs))"
    using ok unfolding ia(1) jf(1) slices_ok_def by blast+
  ultimately have "distinct (map fst plans)"
    unfolding pq(2) map_append distinct_append set_map by blast
  moreover have "list_all (item_ok cfg a) plans"
    using ia(3) jf(3) by (auto simp: pq(2) list_all_iff)
  moreover have "\<forall>(k, p) \<in> set plans. fst k \<in> {''attn'', ''ffn''}"
    using ia(3) jf(3) by (fastforce simp: pq(2))
  moreover have "worker_dp (strategies_of plans) ''attn'' = worker_dp (strategies_of plans) ''ffn''"
    using worker_dp_strategies[of "zip (map fst as) ps" "''attn''"] ia(2,3)
      worker_dp_strategies[of "zip (map fst fs) qs" "''ffn''"] jf(2,3) dp
    by (simp add: pq(2) worker_dp_append)
  ultimately show ?thesis by (simp add: decode_items_ok_def)
qed (simp add: decode_items_ok_def strategies_of_def map_filter_def worker_dp_def)


text \<open>The items of the independent workers, then the decode items.\<close>

lemma distinct_hardware_types: "distinct (hardware_types a)"
  by (simp add: hardware_types_def WORKER_TYPES_def)

lemma distinct_slice_keys:
  "distinct ws \<Longrightarrow> distinct hs \<Longrightarrow> distinct (concat (map (\<lambda>w. map (Pair w) hs) ws))"
  by (induction ws) (auto simp: distinct_map inj_on_def)

lemma independent_items:
  assumes "previous_ok pp" "distinct ws"
  obtains items where
    "fold_result (evaluate_slice cfg est wl a pp) eval_start
       (concat (map (\<lambda>w. map (Pair w) (hardware_types a)) ws)) =
     Inr (foldl (\<lambda>st (key, plan). record_plan st key plan) eval_start items)"
    "distinct (map fst items)" "list_all (item_ok cfg a) items" "fst ` fst ` set items \<subseteq> set ws"
proof -
  let ?keys = "concat (map (\<lambda>w. map (Pair w) (hardware_types a)) ws)"
  define f where "f k = projr (choose_strategy cfg est (fst k) (snd k) (am_get a (fst k) (snd k)) wl
      (previous_of pp k))" for k
  have f: "choose_strategy cfg est w h (am_get a w h) wl (previous_of pp (w, h)) = Inr (f (w, h)) \<and>
      (0 < am_get a w h \<longrightarrow> item_ok cfg a ((w, h), f (w, h)))" for w h
    using choose_strategy_item[OF assms(1), of cfg est w h a wl] by (auto simp: f_def)
  let ?items = "map (\<lambda>k. (k, f k)) (filter (\<lambda>(w, h). 0 < am_get a w h) ?keys)"
  have "map fst ?items = filter (\<lambda>(w, h). 0 < am_get a w h) ?keys" by (simp add: comp_def)
  then have "distinct (map fst ?items)"
    using distinct_slice_keys[OF assms(2) distinct_hardware_types] by (simp only: distinct_filter)
  moreover have "list_all (item_ok cfg a) ?items" using f by (auto simp: list_all_iff)
  moreover have "fst ` fst ` set ?items \<subseteq> set ws" by auto
  moreover have "fold_result (evaluate_slice cfg est wl a pp) eval_start ?keys =
      Inr (foldl (\<lambda>st (key, plan). record_plan st key plan) eval_start ?items)"
    by (rule evaluate_slices_record) (simp add: f)
  ultimately show ?thesis using that[of ?items] by blast
qed

definition finish_plan :: "estimator \<Rightarrow> workload_profile \<Rightarrow> allocation \<Rightarrow> eval_state \<Rightarrow> 'm deployment_plan" where
  "finish_plan est wl a st = (let cost = est_cost_per_hour est a in
     \<lparr>p_allocation = am_clone a, p_parallelism = ev_parallelism st,
      p_slice_plans = ev_slice_plans st, p_throughput = ev_throughput st,
      p_estimated_latency_s = est_latency est wl (ev_throughput st), p_cost_per_hour = cost,
      p_req_per_dollar = (if 0 < cost then bottleneck (ev_throughput st) / (cost / 3600) else 0),
      p_tail_latency_s = est_tail_latency est wl (ev_throughput st),
      p_iterations = 0, p_metadata = []\<rparr>)"

lemma evaluate_eq:
  assumes "fold_result (evaluate_slice cfg est wl a pp) eval_start
       (concat (map (\<lambda>w. map (Pair w) (hardware_types a))
          (if match_attn_ffn_dp cfg then [''pre''] else WORKER_TYPES))) = Inr st1"
    and "choose_decode_strategies_with_matched_dp set_order cfg est wl a pp = Inr plans"
  shows "evaluate set_order cfg est wl a pp = Inr (finish_plan est wl a
    (if match_attn_ffn_dp cfg then foldl (\<lambda>st (key, plan). record_plan st key plan) st1 plans else st1))"
  unfolding evaluate_def Let_def eval_start_def[symmetric] assms bind_result_Inr finish_plan_def
  by (cases "match_attn_ffn_dp cfg") (simp_all only: if_True if_False simp_thms bind_result_Inr)

lemma evaluate_items:
  assumes "previous_ok pp" "\<And>xs. set (set_order xs) = set xs"
  obtains items plan where "(evaluate set_order cfg est wl a pp :: 'm deployment_plan result) = Inr plan"
    "distinct (map fst items)" "list_all (item_ok cfg a) items"
    "match_attn_ffn_dp cfg \<Longrightarrow>
       worker_dp (strategies_of items) ''attn'' = worker_dp (strategies_of items) ''ffn''"
    "p_allocation plan = a" "p_slice_plans plan = items" "p_parallelism plan = strategies_of items"
    "\<And>w. dict_getd (p_throughput plan) w 0 = worker_throughput items w"
proof -
  let ?ws = "if match_attn_ffn_dp cfg then [''pre''] else WORKER_TYPES"
  let ?rec = "foldl (\<lambda>st (key, plan). record_plan st key plan)"
  obtain items where items:
      "fold_result (evaluate_slice cfg est wl a pp) eval_start
         (concat (map (\<lambda>w. map (Pair w) (hardware_types a)) ?ws)) = Inr (?rec eval_start items)"
      "distinct (map fst items)" "list_all (item_ok cfg a) items" "fst ` fst ` set items \<subseteq> set ?ws"
    by (rule independent_items[OF assms(1), of ?ws]) auto
  obtain as fs plans where c:
      "choose_decode_strategies_with_matched_dp set_order cfg est wl a pp = Inr plans"
      "matched_result cfg a as fs plans" "slices_ok cfg a ''attn'' as" "slices_ok cfg a ''ffn'' fs"
    using choose_decode_matched_core[of pp set_order cfg est wl a, OF assms] by blast
  note dec = matched_result_items[OF c(3,4,2), unfolded decode_items_ok_def]
  let ?all = "if match_attn_ffn_dp cfg then items @ plans else items"
  let ?st = "?rec eval_start ?all"
  have ev: "evaluate set_order cfg est wl a pp = Inr (finish_plan est wl a ?st)"
    using evaluate_eq[OF items(1) c(1)] by (auto split: if_splits)
  have disj: "fst ` set items \<inter> fst ` set plans = {}" if "match_attn_ffn_dp cfg"
    using items(4) dec that by fastforce
  have dist: "distinct (map fst ?all)" using items(2) dec disj by auto
  have ok: "list_all (item_ok cfg a) ?all" using items(3) dec by simp
  have dp: "worker_dp (strategies_of ?all) ''attn'' = worker_dp (strategies_of ?all) ''ffn''"
    if m: "match_attn_ffn_dp cfg"
  proof -
    have "fst k = ''pre''" if "(k, p) \<in> set items" for k p using that items(4) m by force
    from worker_dp_strategies[of items, OF this] show ?thesis
      using m dec by (simp add: worker_dp_append)
  qed
  note rec = record_plans[OF dist, unfolded Let_def]
  show ?thesis
    by (rule that[OF ev dist ok dp]) (use rec in \<open>simp_all add: finish_plan_def Let_def\<close>)
qed


definition strategies_fit :: "local_config \<Rightarrow> allocation \<Rightarrow> (slice_key, strategy) dict \<Rightarrow> bool" where
  "strategies_fit cfg a strategies \<longleftrightarrow>
     (\<forall>w h s. ((w, h), s) \<in> set strategies \<longrightarrow> wf_strategy s \<and>
        is_strategy_valid cfg s (am_get a w h) \<and> strategy_gpus s = am_get a w h \<and> 0 < am_get a w h)"

lemma items_strategies_fit:
  assumes "list_all (item_ok cfg a) items"
  shows "strategies_fit cfg a (strategies_of items)"
  unfolding strategies_fit_def
proof (intro allI impI)
  fix w h s assume mem: "((w, h), s) \<in> set (strategies_of items)"
  obtain p where "((w, h), p) \<in> set items" "sp_strategy p = Some s"
    using mem by (auto simp: strategies_of_def map_filter_def)
  then have "item_ok cfg a ((w, h), p)" "sp_strategy p = Some s"
    using assms by (simp_all add: list_all_iff)
  then show "wf_strategy s \<and> is_strategy_valid cfg s (am_get a w h) \<and>
      strategy_gpus s = am_get a w h \<and> 0 < am_get a w h"
    by (auto simp: item_ok_def is_strategy_valid_def split: if_splits)
qed

lemma strategies_fit_previous: "strategies_fit cfg a d \<Longrightarrow> previous_ok (Some d)"
  by (auto simp: strategies_fit_def previous_ok_def)

lemma evaluate_fit:
  assumes "previous_ok pp" "\<And>xs. set (set_order xs) = set xs"
  obtains plan :: "'m deployment_plan" where "evaluate set_order cfg est wl a pp = Inr plan"
    "p_allocation plan = a" "strategies_fit cfg a (p_parallelism plan)"
proof -
  obtain items and plan :: "'m deployment_plan" where
    "evaluate set_order cfg est wl a pp = Inr plan" "list_all (item_ok cfg a) items"
    "p_allocation plan = a" "p_parallelism plan = strategies_of items"
    by (rule evaluate_items[where set_order = set_order and cfg = cfg and est = est and wl = wl
          and a = a and pp = pp]) (use assms in blast)+
  then show ?thesis using that[of plan] items_strategies_fit[of cfg a items] by simp
qed

text \<open>
  C4. \<open>LocalScheduler.evaluate\<close> never raises on well-formed previous strategies and returns a
  plan for exactly the allocation it was given. Every strategy of the plan is well-formed,
  valid, and uses precisely the positive number of GPUs of its slice; the parallelism table is
  the strategies of the slice plans, one entry per slice; the throughput of a worker type is
  the sum over its slice plans; and with DP matching the attention and the FFN strategies have
  the same total DP.
\<close>

theorem evaluate_plan_consistent:
  assumes "previous_ok pp" "\<And>xs. set (set_order xs) = set xs"
  shows "\<exists>plan :: 'm deployment_plan. evaluate set_order cfg est wl a pp = Inr plan \<and>
    p_allocation plan = a \<and> wf_dict (p_slice_plans plan) \<and>
    p_parallelism plan = strategies_of (p_slice_plans plan) \<and>
    (\<forall>w h s. ((w, h), s) \<in> set (p_parallelism plan) \<longrightarrow> wf_strategy s \<and>
       is_strategy_valid cfg s (am_get a w h) \<and> strategy_gpus s = am_get a w h \<and> 0 < am_get a w h) \<and>
    (\<forall>w. dict_getd (p_throughput plan) w 0 = worker_throughput (p_slice_plans plan) w) \<and>
    (match_attn_ffn_dp cfg \<longrightarrow>
       worker_dp (p_parallelism plan) ''attn'' = worker_dp (p_parallelism plan) ''ffn'')"
proof -
  obtain items and plan :: "'m deployment_plan" where
    ev: "evaluate set_order cfg est wl a pp = Inr plan" and
    items: "distinct (map fst items)" "list_all (item_ok cfg a) items" and
    dp: "match_attn_ffn_dp cfg \<Longrightarrow>
       worker_dp (strategies_of items) ''attn'' = worker_dp (strategies_of items) ''ffn''" and
    plan: "p_allocation plan = a" "p_slice_plans plan = items" "p_parallelism plan = strategies_of items"
    "\<And>w. dict_getd (p_throughput plan) w 0 = worker_throughput items w"
    by (rule evaluate_items[where set_order = set_order and cfg = cfg and est = est and wl = wl
          and a = a and pp = pp]) (use assms in blast)+
  have "strategies_fit cfg a (strategies_of items)" using items(2) by (rule items_strategies_fit)
  then show ?thesis
    using ev items(1) dp plan by (intro exI[of _ plan]) (simp add: wf_dict_def strategies_fit_def)
qed

theorem evaluate_plan_consistent_witness:
  "previous_ok None \<and> (\<exists>plan :: unit deployment_plan. evaluate (\<lambda>xs. xs) default_config gpu_count_estimator
     sample_workload sample_alloc None = Inr plan \<and> p_allocation plan = sample_alloc \<and>
     worker_dp (p_parallelism plan) ''attn'' = worker_dp (p_parallelism plan) ''ffn'')"
proof -
  have "previous_ok None" by (simp add: previous_ok_def)
  moreover have "match_attn_ffn_dp default_config" by (simp add: default_config_def)
  ultimately show ?thesis
    using evaluate_plan_consistent[of None "\<lambda>xs. xs" default_config gpu_count_estimator sample_workload
        sample_alloc] by auto
qed

end
