(* ===== verification/Py_Random.thy ===== *)
theory Py_Random
  imports Hexgen_Prelude
begin

text \<open>
  The pseudo-random generator objects of Python's \<open>random\<close> module that the scheduler and the
  simulator own. A generator is a tape of outcomes and a position: every call consumes one
  cell. What a seed makes of the tape is left open (a generator is any tape), so statements
  about the code hold for every seed and every implementation of the generator. A cell is a
  natural number; \<open>random()\<close> reads it as a multiple of \<open>2 ^ -53\<close> in \<open>[0, 1)\<close>, \<open>choice\<close> as an index
  below the length, \<open>expovariate\<close> as the documented \<open>-log(1 - random()) / lambd\<close>.
\<close>

record rng =
  rng_tape :: "nat \<Rightarrow> nat"
  rng_pos :: nat

definition rng_of_tape :: "(nat \<Rightarrow> nat) \<Rightarrow> rng" where
  "rng_of_tape t = \<lparr>rng_tape = t, rng_pos = 0\<rparr>"

definition rng_next :: "rng \<Rightarrow> nat \<times> rng" where
  "rng_next r = (rng_tape r (rng_pos r), r\<lparr>rng_pos := Suc (rng_pos r)\<rparr>)"

definition rng_random :: "rng \<Rightarrow> real \<times> rng" where
  "rng_random r = (case rng_next r of (n, r') \<Rightarrow> (real (n mod 2 ^ 53) / 2 ^ 53, r'))"

definition rng_choice :: "'a list \<Rightarrow> rng \<Rightarrow> ('a \<times> rng) result" where
  "rng_choice xs r =
     (if xs = [] then Inl IndexError
      else case rng_next r of (n, r') \<Rightarrow> Inr (xs ! (n mod length xs), r'))"

definition rng_expovariate :: "real \<Rightarrow> rng \<Rightarrow> real \<times> rng" where
  "rng_expovariate lambd r = (case rng_random r of (u, r') \<Rightarrow> (- ln (1 - u) / lambd, r'))"

definition rng_uniform :: "real \<Rightarrow> real \<Rightarrow> rng \<Rightarrow> real \<times> rng" where
  "rng_uniform a b r = (case rng_random r of (u, r') \<Rightarrow> (a + (b - a) * u, r'))"

lemma rng_random_bounds: "rng_random r = (u, r') \<Longrightarrow> 0 \<le> u \<and> u < 1"
proof -
  let ?n = "fst (rng_next r)"
  assume "rng_random r = (u, r')"
  then have u: "u = real (?n mod 2 ^ 53) / 2 ^ 53"
    unfolding rng_random_def split_def by (metis fst_conv)
  have "?n mod 2 ^ 53 < 2 ^ 53" by simp
  then have "real (?n mod 2 ^ 53) < 2 ^ 53" by (metis of_nat_less_iff of_nat_power of_nat_numeral)
  then show ?thesis by (simp add: u)
qed

lemma rng_choice_in: "rng_choice xs r = Inr (x, r') \<Longrightarrow> x \<in> set xs"
  by (auto simp: rng_choice_def split: if_splits prod.splits)

lemma rng_choice_total: "xs \<noteq> [] \<Longrightarrow> \<exists>x r'. rng_choice xs r = Inr (x, r') \<and> x \<in> set xs"
  by (cases "rng_next r") (simp add: rng_choice_def)

lemma rng_expovariate_nonneg:
  assumes "0 < lambd" "rng_expovariate lambd r = (x, r')"
  shows "0 \<le> x"
proof -
  obtain u where u: "rng_random r = (u, r')" "x = - ln (1 - u) / lambd"
    using assms(2) by (auto simp: rng_expovariate_def split: prod.splits)
  have "ln (1 - u) \<le> 0" using rng_random_bounds[OF u(1)] by simp
  then show ?thesis using assms(1) u(2) by (simp add: divide_nonpos_pos)
qed

lemma rng_uniform_bounds: "rng_uniform a b r = (x, r') \<Longrightarrow> a \<le> b \<Longrightarrow> a \<le> x \<and> x \<le> b"
  using rng_random_bounds[of r] mult_left_le[of "fst (rng_random r)" "b - a"]
  by (auto simp: rng_uniform_def split: prod.splits)

end
