(* ===== verification/Model_Analyzer.thy ===== *)
theory Model_Analyzer
  imports Hexgen_Prelude
begin

text \<open>
  The analytic cost model, \<open>scheduler/simulator/core/model_analyzer.py\<close> with
  \<open>core/roofline.py\<close>, \<open>configs/models/llama.py\<close> and \<open>configs/hardware.py\<close>. Every transformer
  kernel is a number of operations and of bytes moved; the roofline model turns both into a
  time. The Hugging Face configuration comes from the \<open>transformers\<close> package and is an
  argument: \<open>AutoConfig.from_pretrained\<close> either gives the parameters or fails.

  The lemmas show that the roofline time of a kernel is the larger of its compute and its
  memory time, that \<open>analyze\<close> returns for every admissible shape, and how its totals and the
  attention/FFN breakdown relate to the per-kernel times.
\<close>

section \<open>Model configuration\<close>

record model_params =
  mp_hidden_size :: int
  mp_intermediate_size :: int
  mp_num_hidden_layers :: int
  mp_num_attention_heads :: int
  mp_num_key_value_heads :: int
  mp_vocab_size :: int
  mp_num_experts :: "int option"
  mp_num_experts_per_tok :: "int option"
  mp_moe_intermediate_size :: "int option"

definition fallback_params :: "string \<Rightarrow> model_params" where
  "fallback_params model_id =
     (if py_contains ''qwen3-30b-a3b'' (py_lower model_id) then
        \<lparr>mp_hidden_size = 2048, mp_intermediate_size = 6144, mp_num_hidden_layers = 48,
         mp_num_attention_heads = 32, mp_num_key_value_heads = 4, mp_vocab_size = 151936,
         mp_num_experts = Some 128, mp_num_experts_per_tok = Some 8,
         mp_moe_intermediate_size = Some 768\<rparr>
      else
        \<lparr>mp_hidden_size = 4096, mp_intermediate_size = 14336, mp_num_hidden_layers = 32,
         mp_num_attention_heads = 32, mp_num_key_value_heads = 8, mp_vocab_size = 128256,
         mp_num_experts = None, mp_num_experts_per_tok = None, mp_moe_intermediate_size = None\<rparr>)"

definition load_model_params :: "(string \<Rightarrow> model_params option) \<Rightarrow> string \<Rightarrow> model_params" where
  "load_model_params auto_config model_id =
     (case auto_config model_id of Some p \<Rightarrow> p | None \<Rightarrow> fallback_params model_id)"

definition get_linear_layers :: "model_params \<Rightarrow> int \<Rightarrow> (string, int \<times> int) dict result" where
  "get_linear_layers mp tp_size =
     (let hidden = mp_hidden_size mp; inter = mp_intermediate_size mp;
          kv = mp_num_key_value_heads mp; heads = mp_num_attention_heads mp
      in if 1 < tp_size \<and> \<not> (hidden mod tp_size = 0 \<and> inter mod tp_size = 0 \<and> kv mod tp_size = 0)
         then Inl (AssertionError [])
         else bind_result (floor_div hidden tp_size) (\<lambda>hidden_tp.
              bind_result (floor_div (hidden * kv) heads) (\<lambda>kv_hidden.
              bind_result (floor_div kv_hidden tp_size) (\<lambda>kv_tp.
              bind_result (floor_div inter tp_size) (\<lambda>inter_tp.
              Inr [(''q_proj'', hidden, hidden_tp), (''k_proj'', hidden, kv_tp),
                   (''v_proj'', hidden, kv_tp), (''out_proj'', hidden_tp, hidden),
                   (''gate_proj'', hidden, inter_tp), (''up_proj'', hidden, inter_tp),
                   (''down_proj'', inter_tp, hidden)])))))"

definition get_norm_layers :: "model_params \<Rightarrow> string list" where
  "get_norm_layers mp = [''attn_norm'', ''mlp_norm'']"

section \<open>Hardware table\<close>

record hw_params =
  hw_bandwidth :: real
  hw_fp16 :: real
  hw_int8 :: real
  hw_onchip_buffer :: real
  hw_vmemory :: real
  hw_price_per_hour :: real

definition mk_hw :: "real \<Rightarrow> real \<Rightarrow> real \<Rightarrow> real \<Rightarrow> real \<Rightarrow> real \<Rightarrow> hw_params" where
  "mk_hw bw fp16 int8 buf vmem price =
     \<lparr>hw_bandwidth = bw * 10^9, hw_fp16 = fp16 * 10^12, hw_int8 = int8 * 10^12,
      hw_onchip_buffer = buf * 10^3, hw_vmemory = vmem * 10^9, hw_price_per_hour = price\<rparr>"

definition hardware_params :: "(string, hw_params) dict" where
  "hardware_params =
    [(''NVDA:RTX3090'', mk_hw 936 71 71 18432 24 (13/100)),
     (''NVDA:A6000'', mk_hw 1041 (419892/1000 / 2) (419892/1000) 21504 48 (39/100)),
     (''NVDA:A100'', mk_hw 1555 312 624 27648 40 (65/100)),
     (''NVDA:A100_40G:SXM'', mk_hw 2039 312 624 27648 40 (68/100)),
     (''NVDA:A100_80G:SXM'', mk_hw 2039 312 624 27648 80 (68/100)),
     (''NVDA:A800_80G:SXM'', mk_hw 2039 312 624 27648 80 (68/100)),
     (''NVDA:A40S'', mk_hw 696 (1497/10) (2993/10) 21504 48 (30/100)),
     (''NVDA:H100:SXM'', mk_hw 3072 (1979/2) (3958/2) 33792 80 (156/100)),
     (''NVDA:H100:PCIe'', mk_hw 2048 (1513/2) (3026/2) 29184 80 (120/100)),
     (''NVDA:H20'', mk_hw 4096 148 296 34560 96 2),
     (''NVDA:H800'', mk_hw 3430 989 (989 * 2) 30720 80 (528/100)),
     (''NVDA:L40S'', mk_hw 864 181 362 36352 48 (44/100)),
     (''NVDA:GH200'', mk_hw 3072 (1979/2) (3958/2) 33792 80 (156/100))]"

section \<open>Roofline\<close>

definition xreal_less :: "xreal \<Rightarrow> real \<Rightarrow> bool" where
  "xreal_less x y = (case x of Fin r \<Rightarrow> r < y | PosInf \<Rightarrow> False)"

definition roofline_analyze :: "real \<Rightarrow> real \<Rightarrow> real \<Rightarrow> real \<Rightarrow> (xreal \<times> real \<times> string) result" where
  "roofline_analyze bandwidth max_OPS ops memory_access =
     (if ops = 0 \<and> memory_access = 0 then Inr (Fin 0, 0, ''disabled'')
      else bind_result (true_div max_OPS bandwidth) (\<lambda>turning_point.
        let intensity = (if memory_access = 0 then PosInf else Fin (ops / memory_access))
        in case intensity of
             Fin ai \<Rightarrow> if ai < turning_point then Inr (intensity, ai * bandwidth, ''memory'')
                       else Inr (intensity, max_OPS, ''compute'')
           | PosInf \<Rightarrow> Inr (intensity, max_OPS, ''compute'')))"

record layer_cost =
  lc_OPs :: real
  lc_load_weight :: real
  lc_load_act :: real
  lc_store_act :: real
  lc_load_kv_cache :: real
  lc_store_kv_cache :: real

record layer_result = layer_cost +
  lr_memory_access :: real
  lr_arithmetic_intensity :: xreal
  lr_performance :: real
  lr_bound :: string
  lr_inference_time :: real

definition memory_of :: "layer_cost \<Rightarrow> real" where
  "memory_of c = lc_load_weight c + lc_load_act c + lc_store_act c + lc_load_kv_cache c +
     lc_store_kv_cache c"

type_synonym hw_info = "real \<times> real \<times> real"

definition layer_result_of :: "hw_info \<Rightarrow> layer_cost \<Rightarrow> layer_result result" where
  "layer_result_of hw c = (case hw of (bandwidth, max_OPS, onchip_buffer) \<Rightarrow>
     bind_result (roofline_analyze bandwidth max_OPS (lc_OPs c) (memory_of c))
       (\<lambda>(intensity, performance, bound).
          Inr (layer_cost.extend c
            \<lparr>lr_memory_access = memory_of c, lr_arithmetic_intensity = intensity,
             lr_performance = performance, lr_bound = bound,
             lr_inference_time = (if lc_OPs c = 0 \<or> performance = 0 then 0
                                  else lc_OPs c / performance)\<rparr>)))"

type_synonym stage_results = "(string, layer_result) dict"

definition analyze_to_results ::
    "hw_info \<Rightarrow> stage_results \<Rightarrow> string \<times> layer_cost \<Rightarrow> stage_results result" where
  "analyze_to_results hw res entry = (case entry of (name, c) \<Rightarrow>
     bind_result (layer_result_of hw c) (\<lambda>r. Inr (AList.update name r res)))"

section \<open>The kernels of one layer\<close>

record analysis_args =
  aa_seqlen :: int
  aa_batchsize :: int
  aa_w_bit :: int
  aa_a_bit :: int
  aa_kv_bit :: "int option"
  aa_tp_size :: int
  aa_disable_attention :: bool
  aa_disable_ffn :: bool

definition kv_bits :: "analysis_args \<Rightarrow> int" where
  "kv_bits g = (case aa_kv_bit g of None \<Rightarrow> aa_a_bit g | Some b \<Rightarrow> b)"

definition w_byte :: "analysis_args \<Rightarrow> real" where "w_byte g = of_int (aa_w_bit g) / 8"
definition a_byte :: "analysis_args \<Rightarrow> real" where "a_byte g = of_int (aa_a_bit g) / 8"
definition kv_byte :: "analysis_args \<Rightarrow> real" where "kv_byte g = of_int (kv_bits g) / 8"

definition get_hardware_info :: "string \<Rightarrow> analysis_args \<Rightarrow> hw_info result" where
  "get_hardware_info hardware g =
     (case map_of hardware_params hardware of None \<Rightarrow> Inl (KeyError hardware)
      | Some hw \<Rightarrow> Inr (hw_bandwidth hw,
          (if aa_w_bit g \<le> 8 \<and> aa_a_bit g \<le> 8 \<and> kv_bits g \<le> 8 then hw_int8 hw else hw_fp16 hw),
          hw_onchip_buffer hw))"

text \<open>The linear loop: \<open>tokens\<close> is the batch size for decode, batch size times length for prefill.\<close>

definition linear_cost :: "analysis_args \<Rightarrow> real \<Rightarrow> string \<times> int \<times> int \<Rightarrow> string \<times> layer_cost" where
  "linear_cost g tokens layer = (case layer of (name, ic, oc) \<Rightarrow>
     let is_kv_proj = name \<in> set [''k_proj'', ''v_proj''];
         off = aa_disable_ffn g \<and> name \<in> set [''gate_proj'', ''up_proj'', ''down_proj'']
     in (name, \<lparr>
       lc_OPs = (if off then 0 else of_int ic * of_int oc * tokens * 2),
       lc_load_weight = (if \<not> off then of_int ic * of_int oc * w_byte g else 0),
       lc_load_act = (if \<not> off then of_int ic * tokens * a_byte g else 0),
       lc_store_act = (if is_kv_proj then 0 else if \<not> off then of_int oc * tokens * a_byte g else 0),
       lc_load_kv_cache = 0,
       lc_store_kv_cache = (if \<not> is_kv_proj then 0 else of_int oc * tokens * kv_byte g)\<rparr>))"

text \<open>Attention of \<open>rows\<close> query positions: one for decode, the whole sequence for prefill.\<close>

definition attention_cost ::
    "analysis_args \<Rightarrow> model_params \<Rightarrow> hw_info \<Rightarrow> int \<Rightarrow> (string \<times> layer_cost) result" where
  "attention_cost g mp hw rows =
     bind_result (floor_div (mp_hidden_size mp) (mp_num_attention_heads mp)) (\<lambda>head_size.
     bind_result (true_div (snd (snd hw)) (kv_byte g * of_int head_size)) (\<lambda>fit.
     let block_size_r = min \<lceil>fit\<rceil> head_size in
     bind_result (true_div (of_int rows) (of_int block_size_r)) (\<lambda>blocks.
     let n_blocks_r = \<lceil>blocks\<rceil>;
         seqlen = real_of_int (aa_seqlen g); batch = real_of_int (aa_batchsize g);
         heads = real_of_int (mp_num_attention_heads mp); head = real_of_int head_size;
         r = real_of_int rows;
         qk_matmul_OPs = r * seqlen * head * heads * batch * 2;
         sv_matmul_OPs = r * head * seqlen * heads * batch * 2;
         softmax_OPs = batch * heads * seqlen * r * 5;
         q_numel = r * head * batch * heads * a_byte g;
         o_numel = r * seqlen * batch * heads * a_byte g;
         off = aa_disable_attention g
     in Inr (''fused_attention'', \<lparr>
          lc_OPs = (if off then 0 else qk_matmul_OPs + sv_matmul_OPs + softmax_OPs),
          lc_load_weight = 0,
          lc_load_act = (if \<not> off then q_numel else 0),
          lc_store_act = (if \<not> off then o_numel * 2 else 0),
          lc_load_kv_cache = (if \<not> off then of_int n_blocks_r * seqlen * head * batch *
              of_int (mp_num_key_value_heads mp) * kv_byte g * 2 else 0),
          lc_store_kv_cache = 0\<rparr>))))"

definition pointwise_cost :: "real \<Rightarrow> real \<Rightarrow> real \<Rightarrow> layer_cost" where
  "pointwise_cost ops load store = \<lparr>lc_OPs = ops, lc_load_weight = 0, lc_load_act = load,
     lc_store_act = store, lc_load_kv_cache = 0, lc_store_kv_cache = 0\<rparr>"

definition pointwise_layers ::
    "analysis_args \<Rightarrow> model_params \<Rightarrow> int \<Rightarrow> (string \<times> layer_cost) list" where
  "pointwise_layers g mp rows =
     (let e = real_of_int (aa_batchsize g) * of_int (mp_hidden_size mp) * of_int rows;
          on = \<not> aa_disable_ffn g
      in map (\<lambda>name. (name, pointwise_cost (e * 7) (e * a_byte g) (e * a_byte g))) (get_norm_layers mp) @
         map (\<lambda>name. (name, pointwise_cost e (e * a_byte g) (e * a_byte g))) [''attn_add'', ''mlp_add''] @
         [(''mlp_act'', pointwise_cost (if on then e * 2 else 0) (if on then e * a_byte g * 2 else 0)
                                      (if on then e * a_byte g else 0))])"

text \<open>One stage: the linear layers, fused attention, norms, residual additions, activation.\<close>

definition analyze_stage ::
    "analysis_args \<Rightarrow> model_params \<Rightarrow> hw_info \<Rightarrow> (string, int \<times> int) dict \<Rightarrow> int \<Rightarrow>
     stage_results result" where
  "analyze_stage g mp hw layers rows =
     bind_result (attention_cost g mp hw rows) (\<lambda>attention.
       fold_result (analyze_to_results hw) []
         (map (linear_cost g (of_int (aa_batchsize g) * of_int rows)) layers @ [attention] @
          pointwise_layers g mp rows))"

section \<open>Totals\<close>

definition ALL_DATA_NAMES :: "string list" where
  "ALL_DATA_NAMES = [''OPs'', ''memory_access'', ''load_weight'', ''load_act'', ''store_act'',
     ''load_kv_cache'', ''store_kv_cache'', ''inference_time'']"

definition data_of :: "layer_result \<Rightarrow> string \<Rightarrow> real" where
  "data_of r name =
     (if name = ''OPs'' then lc_OPs r else if name = ''memory_access'' then lr_memory_access r
      else if name = ''load_weight'' then lc_load_weight r else if name = ''load_act'' then lc_load_act r
      else if name = ''store_act'' then lc_store_act r
      else if name = ''load_kv_cache'' then lc_load_kv_cache r
      else if name = ''store_kv_cache'' then lc_store_kv_cache r
      else lr_inference_time r)"

type_synonym stage_total = "(string, real) dict"

definition add_data :: "real \<Rightarrow> stage_total \<Rightarrow> layer_result \<Rightarrow> stage_total" where
  "add_data factor t r =
     foldl (\<lambda>t n. AList.update n (dict_getd t n 0 + data_of r n * factor) t) t ALL_DATA_NAMES"

definition stage_total_of :: "model_params \<Rightarrow> stage_results \<Rightarrow> stage_total" where
  "stage_total_of mp res =
     foldl (\<lambda>t (name, r). add_data (of_int (mp_num_hidden_layers mp)) t r)
       (dict_comp ALL_DATA_NAMES (\<lambda>_. 0)) res"

definition add_memory :: "stage_results \<Rightarrow> stage_total \<Rightarrow> stage_total \<Rightarrow> stage_total" where
  "add_memory res prefill t =
     (let tmp_act = sum_list (map (\<lambda>(name, r). lc_store_act r) res);
          weight = dict_getd prefill ''load_weight'' 0; kv = dict_getd prefill ''store_kv_cache'' 0
      in AList.update ''memory_consumption_kv_cache'' kv
           (AList.update ''memory_consumption_weight'' weight
             (AList.update ''memory_consumption_tmp_act'' tmp_act
               (AList.update ''memory_consumption'' (tmp_act + (weight + kv)) t))))"

definition lm_head_cost :: "analysis_args \<Rightarrow> model_params \<Rightarrow> layer_cost" where
  "lm_head_cost g mp =
     (let hidden = real_of_int (mp_hidden_size mp); vocab = real_of_int (mp_vocab_size mp)
      in \<lparr>lc_OPs = of_int (aa_batchsize g) * hidden * vocab * 1,
          lc_load_weight = hidden * vocab * w_byte g, lc_load_act = hidden * a_byte g,
          lc_store_act = vocab * a_byte g, lc_load_kv_cache = 0, lc_store_kv_cache = 0\<rparr>)"

record analysis =
  an_decode :: stage_results
  an_prefill :: stage_results
  an_total_decode :: stage_total
  an_total_prefill :: stage_total

definition analyze :: "model_params \<Rightarrow> string \<Rightarrow> analysis_args \<Rightarrow> analysis result" where
  "analyze mp hardware g =
     (if \<not> 0 < aa_seqlen g then Inl (AssertionError [])
      else if \<not> 0 < aa_batchsize g then Inl (AssertionError [])
      else bind_result (get_linear_layers mp (aa_tp_size g)) (\<lambda>layers.
        bind_result (get_hardware_info hardware g) (\<lambda>hw.
        bind_result (analyze_stage g mp hw layers 1) (\<lambda>decode.
        bind_result (analyze_stage g mp hw layers (aa_seqlen g)) (\<lambda>prefill.
        let total_prefill = stage_total_of mp prefill;
            total_decode = add_memory decode total_prefill (stage_total_of mp decode);
            total_prefill' = add_memory prefill total_prefill total_prefill
        in bind_result (layer_result_of hw (lm_head_cost g mp)) (\<lambda>head.
           Inr \<lparr>an_decode = AList.update ''lm_head'' head decode,
                an_prefill = AList.update ''lm_head'' head prefill,
                an_total_decode = add_data 1 total_decode head,
                an_total_prefill = add_data 1 total_prefill' head\<rparr>))))))"

definition ATTENTION_LAYER_NAMES :: "string list" where
  "ATTENTION_LAYER_NAMES = [''q_proj'', ''k_proj'', ''v_proj'', ''out_proj'', ''fused_attention'',
     ''attn_add'', ''attn_norm'']"

definition FFN_LAYER_NAMES :: "string list" where
  "FFN_LAYER_NAMES = [''gate_proj'', ''up_proj'', ''down_proj'', ''mlp_act'', ''mlp_add'', ''mlp_norm'']"

definition sum_times :: "stage_results \<Rightarrow> string list \<Rightarrow> real" where
  "sum_times res names = sum_list (map (\<lambda>n. case map_of res n of None \<Rightarrow> 0
     | Some r \<Rightarrow> lr_inference_time r) names)"

record breakdown =
  bd_attention_s :: real
  bd_ffn_s :: real
  bd_total_s :: real
  bd_num_layers :: int
  bd_raw :: analysis

definition analyze_decode_breakdown :: "model_params \<Rightarrow> string \<Rightarrow> analysis_args \<Rightarrow> breakdown result" where
  "analyze_decode_breakdown mp hardware g =
     bind_result (analyze mp hardware g) (\<lambda>res.
       let attention_time = sum_times (an_decode res) ATTENTION_LAYER_NAMES;
           ffn_time = sum_times (an_decode res) FFN_LAYER_NAMES
       in Inr \<lparr>bd_attention_s = attention_time, bd_ffn_s = ffn_time,
               bd_total_s = attention_time + ffn_time,
               bd_num_layers = mp_num_hidden_layers mp, bd_raw = res\<rparr>)"

record generate_estimate =
  ge_inference_time :: real
  ge_prefill_time :: real
  ge_tpot :: real

definition analyze_generate_task ::
    "model_params \<Rightarrow> string \<Rightarrow> int \<Rightarrow> int \<Rightarrow> analysis_args \<Rightarrow> generate_estimate result" where
  "analyze_generate_task mp hardware prompt_len gen_len g =
     (let call = (\<lambda>n. g\<lparr>aa_seqlen := n, aa_disable_attention := False, aa_disable_ffn := False\<rparr>) in
     bind_result (analyze mp hardware (call prompt_len)) (\<lambda>pre.
       let prefill_time = dict_getd (an_total_prefill pre) ''inference_time'' 0 in
       bind_result (fold_result (\<lambda>t i. bind_result (analyze mp hardware (call i))
            (\<lambda>r. Inr (t + dict_getd (an_total_decode r) ''inference_time'' 0)))
          prefill_time [prompt_len..prompt_len + gen_len - 1]) (\<lambda>inference_time.
       bind_result (true_div inference_time (of_int gen_len)) (\<lambda>tpot.
         Inr \<lparr>ge_inference_time = inference_time, ge_prefill_time = prefill_time, ge_tpot = tpot\<rparr>))))"

section \<open>Roofline times\<close>

definition kernel_time :: "hw_info \<Rightarrow> layer_cost \<Rightarrow> real" where
  "kernel_time hw c = (if lc_OPs c = 0 then 0
     else max (lc_OPs c / fst (snd hw)) (memory_of c / fst hw))"

definition hw_ok :: "hw_info \<Rightarrow> bool" where
  "hw_ok hw \<longleftrightarrow> 0 < fst hw \<and> 0 < fst (snd hw) \<and> 0 < snd (snd hw)"

definition cost_ok :: "layer_cost \<Rightarrow> bool" where
  "cost_ok c \<longleftrightarrow> 0 \<le> lc_OPs c \<and> 0 \<le> lc_load_weight c \<and> 0 \<le> lc_load_act c \<and> 0 \<le> lc_store_act c \<and>
     0 \<le> lc_load_kv_cache c \<and> 0 \<le> lc_store_kv_cache c"

definition result_of :: "hw_info \<Rightarrow> layer_cost \<Rightarrow> layer_result" where
  "result_of hw c = projr (layer_result_of hw c)"

lemma layer_result_of_total: "0 < fst hw \<Longrightarrow> layer_result_of hw c = Inr (result_of hw c)"
  by (cases hw) (auto simp: layer_result_of_def roofline_analyze_def result_of_def Let_def
      split: xreal.split)

lemma result_of_fields:
  assumes "0 < fst hw"
  shows "layer_cost.truncate (result_of hw c) = c" "lr_memory_access (result_of hw c) = memory_of c"
    "lc_OPs c = 0 \<Longrightarrow> lr_inference_time (result_of hw c) = 0"
proof -
  obtain bw peak buf where hw: "hw = (bw, peak, buf)" by (cases hw)
  obtain ai perf bound where r: "roofline_analyze bw peak (lc_OPs c) (memory_of c) = Inr (ai, perf, bound)"
    using assms that by (fastforce simp: roofline_analyze_def hw Let_def split: xreal.split)
  then show "layer_cost.truncate (result_of hw c) = c" "lr_memory_access (result_of hw c) = memory_of c"
    "lc_OPs c = 0 \<Longrightarrow> lr_inference_time (result_of hw c) = 0"
    by (simp_all add: result_of_def layer_result_of_def hw layer_cost.defs)
qed

lemma memory_of_nonneg: "cost_ok c \<Longrightarrow> 0 \<le> memory_of c"
  by (simp add: cost_ok_def memory_of_def)

lemma roofline_time:
  assumes "0 < bw" "0 < peak" "0 < ops" "0 \<le> mem"
  obtains ai perf bound where "roofline_analyze bw peak ops mem = Inr (ai, perf, bound)" "0 < perf"
    "ops / perf = max (ops / peak) (mem / bw)"
proof (cases "mem = 0")
  case True
  then show ?thesis using that[of PosInf peak "''compute''"] assms by (simp add: roofline_analyze_def)
next
  case False
  with assms have mem: "0 < mem" by simp
  show ?thesis
  proof (cases "ops / mem < peak / bw")
    case True
    then have "ops / peak \<le> mem / bw" using assms mem by (simp add: field_simps)
    moreover have "ops / (ops / mem * bw) = mem / bw" using assms mem by (simp add: field_simps)
    ultimately show ?thesis
      using that[of "Fin (ops / mem)" "ops / mem * bw" "''memory''"] assms mem True
      by (simp add: roofline_analyze_def max_def)
  next
    case False
    then have "mem / bw \<le> ops / peak" using assms mem by (simp add: field_simps)
    then show ?thesis
      using that[of "Fin (ops / mem)" peak "''compute''"] assms mem False
      by (simp add: roofline_analyze_def max_def)
  qed
qed

lemma result_of_time:
  assumes "hw_ok hw" "cost_ok c"
  shows "lr_inference_time (result_of hw c) = kernel_time hw c"
proof (cases "lc_OPs c = 0")
  case True
  then show ?thesis using result_of_fields(3)[of hw c] assms(1) by (simp add: kernel_time_def hw_ok_def)
next
  case False
  obtain bw peak buf where hw: "hw = (bw, peak, buf)" by (cases hw)
  have "0 < lc_OPs c" using False assms(2) by (simp add: cost_ok_def)
  then obtain ai perf bound where "roofline_analyze bw peak (lc_OPs c) (memory_of c) = Inr (ai, perf, bound)"
      "0 < perf" "lc_OPs c / perf = max (lc_OPs c / peak) (memory_of c / bw)"
    using roofline_time[of bw peak "lc_OPs c" "memory_of c"] memory_of_nonneg[OF assms(2)] assms(1)
    by (auto simp: hw_ok_def hw)
  then show ?thesis
    using False by (simp add: result_of_def layer_result_of_def hw kernel_time_def layer_cost.defs)
qed

lemma kernel_time_nonneg: "hw_ok hw \<Longrightarrow> cost_ok c \<Longrightarrow> 0 \<le> kernel_time hw c"
  using memory_of_nonneg[of c] by (simp add: kernel_time_def hw_ok_def cost_ok_def le_max_iff_disj)

text \<open>
  Roofline: on hardware with positive bandwidth and peak rate, the time that
  \<open>_analyze_to_results\<close> records for a kernel with non-negative costs is zero for a disabled
  kernel and otherwise the larger of operations over peak rate and bytes over bandwidth; the
  recorded costs and the byte total are those of the kernel, and the kernel is entered under
  its name.
\<close>

theorem analyze_to_results_roofline:
  assumes "hw_ok hw" "cost_ok c"
  shows "\<exists>r. analyze_to_results hw res (name, c) = Inr (AList.update name r res) \<and>
    layer_cost.truncate r = c \<and> lr_memory_access r = memory_of c \<and> 
    lr_inference_time r = (if lc_OPs c = 0 then 0
       else max (lc_OPs c / fst (snd hw)) (memory_of c / fst hw))"
proof -
  have tot: "layer_result_of hw c = Inr (result_of hw c)"
    using layer_result_of_total assms(1) by (simp add: hw_ok_def)
  have "0 < fst hw" using assms(1) by (simp add: hw_ok_def)
  then show ?thesis
    using tot result_of_time[OF assms] result_of_fields(1,2)[of hw c] by (auto simp: analyze_to_results_def kernel_time_def)
qed

theorem analyze_to_results_roofline_witness:
  "hw_ok (2, 10, 1) \<and> cost_ok (pointwise_cost 40 3 5) \<and>
   (\<exists>r. analyze_to_results (2, 10, 1) [] (''mlp_act'', pointwise_cost 40 3 5) = Inr [(''mlp_act'', r)] \<and>
        lr_inference_time r = 4)"
  using analyze_to_results_roofline[of "(2, 10, 1)" "pointwise_cost 40 3 5" "[]" "''mlp_act''"]
  by (auto simp: hw_ok_def cost_ok_def pointwise_cost_def memory_of_def)

section \<open>Admissible shapes\<close>

definition wf_params :: "model_params \<Rightarrow> bool" where
  "wf_params mp \<longleftrightarrow> 0 < mp_intermediate_size mp \<and> 0 < mp_num_hidden_layers mp \<and>
     0 < mp_num_attention_heads mp \<and> mp_num_attention_heads mp \<le> mp_hidden_size mp \<and>
     0 < mp_num_key_value_heads mp \<and> 0 < mp_vocab_size mp"

definition args_ok :: "model_params \<Rightarrow> analysis_args \<Rightarrow> bool" where
  "args_ok mp g \<longleftrightarrow> 0 < aa_seqlen g \<and> 0 < aa_batchsize g \<and> 0 < aa_w_bit g \<and> 0 < aa_a_bit g \<and>
     0 < kv_bits g \<and> 0 < aa_tp_size g \<and>
     (1 < aa_tp_size g \<longrightarrow> mp_hidden_size mp mod aa_tp_size g = 0 \<and>
        mp_intermediate_size mp mod aa_tp_size g = 0 \<and> mp_num_key_value_heads mp mod aa_tp_size g = 0)"

lemma fallback_params_wf: "wf_params (fallback_params model_id)"
  by (simp add: wf_params_def fallback_params_def)

lemma hardware_params_ok:
  assumes "get_hardware_info hardware g = Inr hw" shows "hw_ok hw"
proof -
  obtain hwp where hwp: "(hardware, hwp) \<in> set hardware_params" "fst hw = hw_bandwidth hwp"
      "fst (snd hw) \<in> {hw_int8 hwp, hw_fp16 hwp}" "snd (snd hw) = hw_onchip_buffer hwp"
    using assms by (auto simp: get_hardware_info_def split: option.splits dest!: map_of_SomeD)
  have "\<forall>(name, h) \<in> set hardware_params. 0 < hw_bandwidth h \<and> 0 < hw_int8 h \<and> 0 < hw_fp16 h \<and>
      0 < hw_onchip_buffer h" by (simp add: hardware_params_def mk_hw_def)
  then show ?thesis using hwp by (auto simp: hw_ok_def)
qed

lemma byte_nonneg:
  assumes "args_ok mp g" shows "0 < w_byte g" "0 < a_byte g" "0 < kv_byte g"
  using assms by (simp_all add: args_ok_def w_byte_def a_byte_def kv_byte_def)

lemma linear_cost_ok:
  assumes "args_ok mp g" "0 \<le> tokens" "0 \<le> ic" "0 \<le> oc"
  shows "cost_ok (snd (linear_cost g tokens (name, ic, oc)))"
  using byte_nonneg[OF assms(1)] assms(2-4) by (simp add: linear_cost_def cost_ok_def Let_def)

lemma attention_cost_total:
  assumes "wf_params mp" "args_ok mp g" "hw_ok hw" "0 < rows"
  obtains c where "attention_cost g mp hw rows = Inr (''fused_attention'', c)" "cost_ok c"
proof -
  define head where "head = mp_hidden_size mp div mp_num_attention_heads mp"
  define fit where "fit = snd (snd hw) / (kv_byte g * of_int head)"
  define block where "block = min \<lceil>fit\<rceil> head"
  define blocks where "blocks = of_int rows / real_of_int block"
  have head: "0 < head" using assms(1) by (simp add: head_def wf_params_def pos_imp_zdiv_pos_iff)
  have "0 < fit" using head byte_nonneg[OF assms(2)] assms(3) by (simp add: fit_def hw_ok_def)
  then have block: "0 < block" using head by (simp add: block_def)
  then have "0 < blocks" using assms(4) by (simp add: blocks_def)
  then have nb: "0 \<le> \<lceil>blocks\<rceil>" by simp
  have d1: "floor_div (mp_hidden_size mp) (mp_num_attention_heads mp) = Inr head"
    using assms(1) by (simp add: head_def wf_params_def)
  have "kv_byte g * of_int head \<noteq> 0" using head byte_nonneg[OF assms(2)] by simp
  then have d2: "true_div (snd (snd hw)) (kv_byte g * of_int head) = Inr fit" by (simp add: fit_def)
  have d3: "true_div (of_int rows) (of_int block) = Inr blocks" using block by (simp add: blocks_def)
  note pos = head nb assms(4) byte_nonneg[OF assms(2)]
  have dims: "0 \<le> aa_seqlen g" "0 \<le> aa_batchsize g" "0 \<le> mp_num_attention_heads mp"
      "0 \<le> mp_num_key_value_heads mp"
    using assms(1,2) by (simp_all add: wf_params_def args_ok_def)
  show ?thesis
    by (rule that[unfolded attention_cost_def d1 d2 d3 bind_result_Inr Let_def block_def[symmetric]
            cost_ok_def], rule refl) (use pos dims in simp)
qed

lemma pointwise_layers_ok:
  assumes "wf_params mp" "args_ok mp g" "0 < rows" "(n, c) \<in> set (pointwise_layers g mp rows)"
  shows "cost_ok c"
proof -
  have "0 \<le> real_of_int (aa_batchsize g) * of_int (mp_hidden_size mp) * of_int rows"
    using assms(1-3) by (simp add: wf_params_def args_ok_def)
  then show ?thesis
    using assms(4) byte_nonneg[OF assms(2)]
    by (auto simp: pointwise_layers_def Let_def pointwise_cost_def cost_ok_def get_norm_layers_def
        split: if_splits)
qed

section \<open>Stages\<close>

definition STAGE_NAMES :: "string list" where
  "STAGE_NAMES = [''q_proj'', ''k_proj'', ''v_proj'', ''out_proj'', ''gate_proj'', ''up_proj'', ''down_proj'',
     ''fused_attention'', ''attn_norm'', ''mlp_norm'', ''attn_add'', ''mlp_add'', ''mlp_act'']"

definition results_for :: "hw_info \<Rightarrow> (string \<times> layer_cost) list \<Rightarrow> stage_results" where
  "results_for hw entries = map (\<lambda>(n, c). (n, result_of hw c)) entries"

lemma fold_analyze:
  assumes "0 < fst hw" "distinct (map fst entries)" "fst ` set res \<inter> fst ` set entries = {}"
  shows "fold_result (analyze_to_results hw) res entries = Inr (res @ results_for hw entries)"
  using assms(2,3)
proof (induction entries arbitrary: res)
  case (Cons e es)
  obtain n c where e: "e = (n, c)" by (cases e)
  have "AList.update n (result_of hw c) res = res @ [(n, result_of hw c)]"
    using Cons.prems(2) by (intro update_keys_absent) (auto simp: e)
  with Cons show ?case
    by (auto simp: e analyze_to_results_def layer_result_of_total[OF assms(1)] results_for_def)
qed (simp add: results_for_def)

lemma get_linear_layers_total:
  assumes "wf_params mp" "args_ok mp g"
  obtains dims where "get_linear_layers mp (aa_tp_size g) = Inr dims"
    "map fst dims = [''q_proj'', ''k_proj'', ''v_proj'', ''out_proj'', ''gate_proj'', ''up_proj'', ''down_proj'']"
    "list_all (\<lambda>(n, ic, oc). 0 \<le> ic \<and> 0 \<le> oc) dims"
proof -
  let ?t = "aa_tp_size g" and ?h = "mp_hidden_size mp" and ?i = "mp_intermediate_size mp"
  let ?k = "?h * mp_num_key_value_heads mp div mp_num_attention_heads mp"
  have "\<not> (1 < ?t \<and> \<not> (?h mod ?t = 0 \<and> ?i mod ?t = 0 \<and> mp_num_key_value_heads mp mod ?t = 0))"
    using assms(2) by (auto simp: args_ok_def)
  moreover have nz: "?t \<noteq> 0" "mp_num_attention_heads mp \<noteq> 0"
    using assms by (auto simp: args_ok_def wf_params_def)
  ultimately have eq: "get_linear_layers mp ?t = Inr
      [(''q_proj'', ?h, ?h div ?t), (''k_proj'', ?h, ?k div ?t), (''v_proj'', ?h, ?k div ?t),
       (''out_proj'', ?h div ?t, ?h), (''gate_proj'', ?h, ?i div ?t), (''up_proj'', ?h, ?i div ?t),
       (''down_proj'', ?i div ?t, ?h)]"
    unfolding get_linear_layers_def Let_def
    by (simp only: if_False floor_div_Inr[OF nz(1)] floor_div_Inr[OF nz(2)] bind_result_Inr)
  have "0 \<le> ?h" "0 \<le> ?h div ?t" "0 \<le> ?i div ?t" "0 \<le> ?k div ?t"
    using assms by (simp_all add: args_ok_def wf_params_def pos_imp_zdiv_nonneg_iff)
  then show ?thesis by (intro that[OF eq]) auto
qed

lemma analyze_stage_total:
  assumes "wf_params mp" "args_ok mp g" "hw_ok hw" "0 < rows"
    and "map fst dims = [''q_proj'', ''k_proj'', ''v_proj'', ''out_proj'', ''gate_proj'', ''up_proj'', ''down_proj'']"
    and "list_all (\<lambda>(n, ic, oc). 0 \<le> ic \<and> 0 \<le> oc) dims"
  obtains entries where "analyze_stage g mp hw dims rows = Inr (results_for hw entries)"
    "map fst entries = STAGE_NAMES" "list_all (cost_ok \<circ> snd) entries"
proof -
  obtain c where c: "attention_cost g mp hw rows = Inr (''fused_attention'', c)" "cost_ok c"
    using attention_cost_total[OF assms(1-4)] .
  let ?tok = "of_int (aa_batchsize g) * real_of_int rows"
  let ?es = "map (linear_cost g ?tok) dims @ [(''fused_attention'', c)] @ pointwise_layers g mp rows"
  have "map fst (map (linear_cost g ?tok) dims) = map fst dims"
    by (simp add: linear_cost_def Let_def comp_def split_def)
  then have names: "map fst ?es = STAGE_NAMES"
    unfolding map_append assms(5)
    by (simp add: STAGE_NAMES_def pointwise_layers_def Let_def get_norm_layers_def)
  have "0 \<le> ?tok" using assms(2,4) by (simp add: args_ok_def)
  then have "cost_ok (snd (linear_cost g ?tok d))" if "d \<in> set dims" for d
    using linear_cost_ok[OF assms(2)] assms(6) that by (cases d) (auto simp: list_all_iff)
  then have ok: "list_all (cost_ok \<circ> snd) ?es"
    using c(2) pointwise_layers_ok[OF assms(1,2,4)] by (auto simp: list_all_iff)
  have "distinct (map fst ?es)" unfolding names by (simp add: STAGE_NAMES_def)
  with fold_analyze[of hw ?es "[]"] assms(3)
  have "analyze_stage g mp hw dims rows = Inr (results_for hw ?es)"
    unfolding analyze_stage_def c(1) bind_result_Inr by (simp add: hw_ok_def)
  then show ?thesis using that names ok by blast
qed

section \<open>Totals\<close>

lemma add_data_lookup:
  "dict_getd (add_data f t r) n 0 =
     dict_getd t n 0 + (if n \<in> set ALL_DATA_NAMES then data_of r n * f else 0)"
proof -
  have "distinct ns \<Longrightarrow> dict_getd (foldl (\<lambda>t n. AList.update n (dict_getd t n 0 + data_of r n * f) t) t ns) n 0 =
      dict_getd t n 0 + (if n \<in> set ns then data_of r n * f else 0)" for ns
    by (induction ns arbitrary: t) (auto simp: dict_getd_update)
  moreover have "distinct ALL_DATA_NAMES" by (simp add: ALL_DATA_NAMES_def)
  ultimately show ?thesis unfolding add_data_def by blast
qed

lemma stage_total_lookup:
  assumes "n \<in> set ALL_DATA_NAMES"
  shows "dict_getd (stage_total_of mp res) n 0 =
    of_int (mp_num_hidden_layers mp) * sum_list (map (\<lambda>(name, r). data_of r n) res)"
proof -
  let ?L = "of_int (mp_num_hidden_layers mp)"
  have "dict_getd (foldl (\<lambda>t (name, r). add_data ?L t r) t res) n 0 =
      dict_getd t n 0 + ?L * sum_list (map (\<lambda>(name, r). data_of r n) res)" for t
    by (induction res arbitrary: t) (auto simp: add_data_lookup assms algebra_simps)
  then show ?thesis
    by (simp add: stage_total_of_def dict_getd_def map_of_dict_comp)
qed

lemma add_memory_lookup:
  "n \<in> set ALL_DATA_NAMES \<Longrightarrow> dict_getd (add_memory res prefill t) n 0 = dict_getd t n 0"
  by (auto simp: add_memory_def ALL_DATA_NAMES_def Let_def dict_getd_update)

lemma lm_head_cost_ok: "wf_params mp \<Longrightarrow> args_ok mp g \<Longrightarrow> cost_ok (lm_head_cost g mp)"
  using byte_nonneg[of mp g]
  by (simp add: lm_head_cost_def cost_ok_def Let_def wf_params_def args_ok_def)

text \<open>What a successful analysis looks like, in terms of the kernel costs of the two stages.\<close>

definition analysis_of :: "model_params \<Rightarrow> analysis_args \<Rightarrow> hw_info \<Rightarrow> (string \<times> layer_cost) list \<Rightarrow>
    (string \<times> layer_cost) list \<Rightarrow> analysis \<Rightarrow> bool" where
  "analysis_of mp g hw decode prefill r \<longleftrightarrow>
     an_decode r = results_for hw (decode @ [(''lm_head'', lm_head_cost g mp)]) \<and>
     an_prefill r = results_for hw (prefill @ [(''lm_head'', lm_head_cost g mp)]) \<and>
     (\<forall>n \<in> set ALL_DATA_NAMES.
        dict_getd (an_total_decode r) n 0 = of_int (mp_num_hidden_layers mp) *
          sum_list (map (\<lambda>(name, k). data_of k n) (results_for hw decode)) +
          data_of (result_of hw (lm_head_cost g mp)) n \<and>
        dict_getd (an_total_prefill r) n 0 = of_int (mp_num_hidden_layers mp) *
          sum_list (map (\<lambda>(name, k). data_of k n) (results_for hw prefill)) +
          data_of (result_of hw (lm_head_cost g mp)) n)"

lemma results_for_update:
  assumes "map fst es = STAGE_NAMES"
  shows "AList.update ''lm_head'' (result_of hw c) (results_for hw es) = results_for hw (es @ [(''lm_head'', c)])"
proof -
  have "fst ` set (results_for hw es) = set (map fst es)" by (force simp: results_for_def)
  then have "''lm_head'' \<notin> fst ` set (results_for hw es)" by (simp only: assms) (simp add: STAGE_NAMES_def)
  then show ?thesis by (simp add: update_keys_absent results_for_def)
qed

lemma analyze_total:
  assumes "wf_params mp" "args_ok mp g" "hardware \<in> fst ` set hardware_params"
  obtains hw de pe r where "analyze mp hardware g = Inr r" "hw_ok hw" "analysis_of mp g hw de pe r"
    "map fst de = STAGE_NAMES" "map fst pe = STAGE_NAMES"
    "list_all (cost_ok \<circ> snd) (de @ pe)"
proof -
  obtain hwp where "map_of hardware_params hardware = Some hwp"
    using assms(3) by (metis map_of_eq_None_iff not_None_eq)
  then obtain hw where hw: "get_hardware_info hardware g = Inr hw"
    by (simp add: get_hardware_info_def)
  note hwok = hardware_params_ok[OF hw]
  obtain dims where dims: "get_linear_layers mp (aa_tp_size g) = Inr dims"
    "map fst dims = [''q_proj'', ''k_proj'', ''v_proj'', ''out_proj'', ''gate_proj'', ''up_proj'', ''down_proj'']"
    "list_all (\<lambda>(n, ic, oc). 0 \<le> ic \<and> 0 \<le> oc) dims"
    using get_linear_layers_total[OF assms(1,2)] by blast
  have pos: "0 < aa_seqlen g" "0 < aa_batchsize g" using assms(2) by (simp_all add: args_ok_def)
  obtain de where de: "analyze_stage g mp hw dims 1 = Inr (results_for hw de)"
    "map fst de = STAGE_NAMES" "list_all (cost_ok \<circ> snd) de"
    using analyze_stage_total[OF assms(1,2) hwok zero_less_one dims(2,3)] by blast
  obtain pe where pe: "analyze_stage g mp hw dims (aa_seqlen g) = Inr (results_for hw pe)"
    "map fst pe = STAGE_NAMES" "list_all (cost_ok \<circ> snd) pe"
    using analyze_stage_total[OF assms(1,2) hwok pos(1) dims(2,3)] by blast
  have head: "layer_result_of hw (lm_head_cost g mp) = Inr (result_of hw (lm_head_cost g mp))"
    using layer_result_of_total hwok by (simp add: hw_ok_def)
  let ?r = "projr (analyze mp hardware g)"
  note def = analyze_def[of mp hardware g, unfolded dims(1) hw de(1) pe(1) head bind_result_Inr Let_def
      results_for_update[OF de(2)] results_for_update[OF pe(2)]]
  have r: "analyze mp hardware g = Inr ?r" using pos by (simp add: def)
  have "analysis_of mp g hw de pe ?r"
    using pos unfolding analysis_of_def
    by (simp add: def add_data_lookup add_memory_lookup stage_total_lookup)
  from that[OF r hwok this de(2) pe(2)] de(3) pe(3) show ?thesis by simp
qed

lemma stage_sum_split:
  fixes head :: layer_cost and es :: "(string \<times> layer_cost) list" and hw :: hw_info
  defines "res \<equiv> results_for hw (es @ [(''lm_head'', head)])"
  assumes "map fst es = STAGE_NAMES" "hw_ok hw" "list_all (cost_ok \<circ> snd) es"
  shows "sum_times res ATTENTION_LAYER_NAMES + sum_times res FFN_LAYER_NAMES =
      sum_list (map (\<lambda>(name, k). lr_inference_time k) (results_for hw es))"
    "0 \<le> sum_times res ATTENTION_LAYER_NAMES" "0 \<le> sum_times res FFN_LAYER_NAMES"
proof -
  obtain cs where cs: "cs = map snd es" "length cs = 13"
    using arg_cong[OF assms(2), of length] by (simp add: STAGE_NAMES_def)
  obtain c1 c2 c3 c4 c5 c6 c7 c8 c9 c10 c11 c12 c13 where
      "cs = [c1, c2, c3, c4, c5, c6, c7, c8, c9, c10, c11, c12, c13]"
    using cs(2) by (auto simp: numeral_eq_Suc length_Suc_conv)
  then have es: "es = zip STAGE_NAMES [c1, c2, c3, c4, c5, c6, c7, c8, c9, c10, c11, c12, c13]"
    using zip_map_fst_snd[of es] assms(2) cs(1) by metis
  have nn: "0 \<le> lr_inference_time (result_of hw c)" if "c \<in> snd ` set es" for c
    using that assms(4) result_of_time[OF assms(3), of c] kernel_time_nonneg[OF assms(3), of c]
    by (auto simp: list_all_iff)
  show "sum_times res ATTENTION_LAYER_NAMES + sum_times res FFN_LAYER_NAMES =
      sum_list (map (\<lambda>(name, k). lr_inference_time k) (results_for hw es))"
    unfolding res_def es
    by (simp add: sum_times_def results_for_def ATTENTION_LAYER_NAMES_def FFN_LAYER_NAMES_def STAGE_NAMES_def)
  show "0 \<le> sum_times res ATTENTION_LAYER_NAMES" "0 \<le> sum_times res FFN_LAYER_NAMES"
    using nn unfolding res_def es
    by (simp_all add: sum_times_def results_for_def ATTENTION_LAYER_NAMES_def FFN_LAYER_NAMES_def
        STAGE_NAMES_def)
qed

text \<open>What the estimator reads from an analysis.\<close>

lemma breakdown_total:
  assumes "wf_params mp" "args_ok mp g" "hardware \<in> fst ` set hardware_params"
  obtains b where "analyze_decode_breakdown mp hardware g = Inr b" "0 \<le> bd_attention_s b" "0 \<le> bd_ffn_s b"
    "bd_num_layers b = mp_num_hidden_layers mp"
proof -
  obtain hw de pe r where r: "analyze mp hardware g = Inr r" "hw_ok hw" "analysis_of mp g hw de pe r"
    and de: "map fst de = STAGE_NAMES" and ok: "list_all (cost_ok \<circ> snd) (de @ pe)"
    by (rule analyze_total[OF assms]) (rule that; assumption)
  have dec: "an_decode r = results_for hw (de @ [(''lm_head'', lm_head_cost g mp)])"
    using r(3) by (simp add: analysis_of_def)
  have "list_all (cost_ok \<circ> snd) de" using ok by simp
  note split = stage_sum_split[OF de r(2) this, of "lm_head_cost g mp", folded dec]
  let ?b = "projr (analyze_decode_breakdown mp hardware g)"
  have b: "analyze_decode_breakdown mp hardware g = Inr ?b" "bd_num_layers ?b = mp_num_hidden_layers mp"
      "bd_attention_s ?b = sum_times (an_decode r) ATTENTION_LAYER_NAMES"
      "bd_ffn_s ?b = sum_times (an_decode r) FFN_LAYER_NAMES"
    by (simp_all add: analyze_decode_breakdown_def r(1) Let_def)
  show ?thesis by (rule that[OF b(1) _ _ b(2)]) (use split b in simp_all)
qed

lemma prefill_time_positive:
  assumes "wf_params mp" "args_ok mp g" "hardware \<in> fst ` set hardware_params"
  obtains r where "analyze mp hardware g = Inr r" "0 < dict_getd (an_total_prefill r) ''inference_time'' 0"
proof -
  obtain hw de pe r where r: "analyze mp hardware g = Inr r" "hw_ok hw" "analysis_of mp g hw de pe r"
    and ok: "list_all (cost_ok \<circ> snd) (de @ pe)"
    by (rule analyze_total[OF assms]) (rule that; assumption)
  have inf: "data_of k ''inference_time'' = lr_inference_time k" for k by (simp add: data_of_def)
  have time: "lr_inference_time (result_of hw c) = kernel_time hw c" "0 \<le> kernel_time hw c" if "cost_ok c" for c
    using result_of_time[OF r(2) that] kernel_time_nonneg[OF r(2) that] by auto
  have "0 \<le> sum_list (map (\<lambda>(name, k). lr_inference_time k) (results_for hw pe))"
    using ok time by (intro sum_list_nonneg_map) (force simp: results_for_def list_all_iff)
  moreover have "0 < lr_inference_time (result_of hw (lm_head_cost g mp))"
  proof -
    have "0 < lc_OPs (lm_head_cost g mp)"
      using assms(1,2) by (simp add: lm_head_cost_def Let_def wf_params_def args_ok_def)
    then show ?thesis
      using time(1)[OF lm_head_cost_ok[OF assms(1,2)]] r(2) by (simp add: kernel_time_def hw_ok_def less_max_iff_disj)
  qed
  moreover have "0 \<le> real_of_int (mp_num_hidden_layers mp)" using assms(1) by (simp add: wf_params_def)
  moreover have "dict_getd (an_total_prefill r) ''inference_time'' 0 = of_int (mp_num_hidden_layers mp) *
      sum_list (map (\<lambda>(name, k). lr_inference_time k) (results_for hw pe)) +
      lr_inference_time (result_of hw (lm_head_cost g mp))"
    using r(3) by (simp add: analysis_of_def ALL_DATA_NAMES_def inf)
  ultimately show ?thesis by (intro that[OF r(1)]) (simp add: add_nonneg_pos)
qed


text \<open>Llama-3.1-8B with two-way tensor parallelism on an H20.\<close>

definition sample_args :: analysis_args where
  "sample_args = \<lparr>aa_seqlen = 512, aa_batchsize = 8, aa_w_bit = 16, aa_a_bit = 16, aa_kv_bit = Some 16,
     aa_tp_size = 2, aa_disable_attention = False, aa_disable_ffn = False\<rparr>"


end
