(* ===== verification/Estimator.thy ===== *)
theory Estimator
  imports Local_Scheduler Model_Analyzer Py_Random
begin

text \<open>
  \<open>SimulatorEstimator\<close>, \<open>scheduler/simulator/scheduling/estimator.py\<close>: throughput of a slice
  from the cost model of \<open>Model_Analyzer\<close>, latency from a three-stage queue replayed on sampled
  requests, cost from the price table. The analyzer cache and the \<open>lru_cache\<close> memoise pure
  functions and are not part of the state here. The \<open>try\<close> around the cost model turns every
  exception into a throughput of zero.

  The lemmas interpret the contract the local scheduler relies on, show when an estimate is
  positive, and that the latency percentiles are ordered.
\<close>

record sim_estimator =
  se_model_params :: model_params
  se_kv_bandwidth_bytes :: real
  se_activation_bandwidth_bytes :: real

definition SimulatorEstimator ::
    "(string \<Rightarrow> model_params option) \<Rightarrow> string \<Rightarrow> real \<Rightarrow> real \<Rightarrow> sim_estimator" where
  "SimulatorEstimator auto_config model_id kv_gbps act_gbps =
     \<lparr>se_model_params = load_model_params auto_config model_id,
      se_kv_bandwidth_bytes = max kv_gbps (1 / 10 ^ 6) * 10 ^ 9,
      se_activation_bandwidth_bytes = max act_gbps (1 / 10 ^ 6) * 10 ^ 9\<rparr>"

definition kv_transfer_time :: "sim_estimator \<Rightarrow> int \<Rightarrow> int \<Rightarrow> real" where
  "kv_transfer_time se sequence_length batch_size =
     (let mp = se_model_params se;
          head_dim = max 1 (mp_hidden_size mp div max 1 (mp_num_attention_heads mp));
          kv_per_token = 2 * mp_num_hidden_layers mp * mp_num_key_value_heads mp * head_dim * 2
      in of_int (kv_per_token * max sequence_length 1 * max batch_size 1) / se_kv_bandwidth_bytes se)"

definition activation_transfer_time :: "sim_estimator \<Rightarrow> int \<Rightarrow> int \<Rightarrow> real" where
  "activation_transfer_time se batch_size sequence_length =
     of_int (mp_hidden_size (se_model_params se) * max batch_size 1 * max sequence_length 1 * 2) /
     se_activation_bandwidth_bytes se"

definition effective_batch_size :: "int \<Rightarrow> int" where
  "effective_batch_size tp = max 1 (4 * max tp 1)"

text \<open>The body of the \<open>try\<close> block: the time one replica needs for one batch.\<close>

definition replica_args :: "int \<Rightarrow> int \<Rightarrow> int \<Rightarrow> analysis_args" where
  "replica_args seqlen batch tp = \<lparr>aa_seqlen = seqlen, aa_batchsize = batch, aa_w_bit = 16,
     aa_a_bit = 16, aa_kv_bit = Some 16, aa_tp_size = max 1 tp,
     aa_disable_attention = False, aa_disable_ffn = False\<rparr>"

definition replica_batch_time ::
    "sim_estimator \<Rightarrow> string \<Rightarrow> string \<Rightarrow> int \<Rightarrow> int \<Rightarrow> int \<Rightarrow> int \<Rightarrow> int \<Rightarrow> real result" where
  "replica_batch_time se worker hardware tp ep m_input m_output m_context =
     (let batch = effective_batch_size tp; mp = se_model_params se in
      if worker = ''pre'' then
        bind_result (analyze mp hardware (replica_args m_input batch tp))
          (\<lambda>r. Inr (dict_getd (an_total_prefill r) ''inference_time'' 0))
      else bind_result (analyze_decode_breakdown mp hardware (replica_args m_context batch tp)) (\<lambda>b.
        let num_layers = bd_num_layers b;
            a2f_time = activation_transfer_time se batch 1;
            f2a_time = activation_transfer_time se batch 1
        in if worker = ''attn'' then
             let per_token_time = (bd_attention_s b + a2f_time) * of_int num_layers
             in Inr (kv_transfer_time se m_input batch + of_int m_output * per_token_time)
           else if worker = ''ffn'' then
             let ffn_time = (if 1 < ep
                   then bd_ffn_s b / of_int ep +
                        activation_transfer_time se batch 1 * (5 / 100) * of_int (ep - 1)
                   else bd_ffn_s b);
                 per_token_time = (ffn_time + f2a_time) * of_int num_layers
             in Inr (of_int m_output * per_token_time)
           else Inl (ValueError ''unknown worker_type'')))"

text \<open>The workload object that the method builds first may itself raise.\<close>

definition replica_throughput ::
    "sim_estimator \<Rightarrow> string \<Rightarrow> string \<Rightarrow> int \<Rightarrow> int \<Rightarrow> int \<Rightarrow> int \<Rightarrow> int \<Rightarrow> int \<Rightarrow> real result" where
  "replica_throughput se worker hardware tp ep m_input m_output m_context mbs =
     bind_result (WorkloadProfile 1 [m_input] [m_output] mbs) (\<lambda>_.
       case replica_batch_time se worker hardware tp ep m_input m_output m_context of
         Inl _ \<Rightarrow> Inr 0
       | Inr batch_time \<Rightarrow>
           if batch_time \<le> 0 then Inr 0
           else Inr (max 0 (of_int (effective_batch_size tp) / batch_time)))"

definition estimate_slice_throughput ::
    "sim_estimator \<Rightarrow> string \<Rightarrow> string \<Rightarrow> strategy \<Rightarrow> workload_profile \<Rightarrow> real result" where
  "estimate_slice_throughput se worker hardware s wl =
     (if s_dp s \<le> 0 \<or> strategy_gpus s \<le> 0 then Inr 0
      else bind_result (map_result (\<lambda>r. replica_throughput se worker hardware (r_tp r) (r_ep r)
               (mean_input wl) (mean_output wl) (mean_decode_context wl) (max_batch_size wl))
             (s_replicas s)) (\<lambda>ts. Inr (sum_list ts)))"

section \<open>Latency\<close>

definition sample_request_shapes :: "workload_profile \<Rightarrow> int \<Rightarrow> (int \<times> int) list" where
  "sample_request_shapes wl samples =
     (let pairs = zip (input_lengths wl) (output_lengths wl) in
      if pairs = [] then [(mean_input wl, mean_output wl)]
      else map (\<lambda>i. pairs ! (i mod length pairs)) [0..<nat (max 1 samples)])"

definition stage_service_time ::
    "string \<Rightarrow> int \<Rightarrow> int \<Rightarrow> workload_profile \<Rightarrow> throughput_profile \<Rightarrow> real" where
  "stage_service_time worker input_len output_len wl th =
     (let theta = max (dict_getd th worker 0) (1 / 10 ^ 9);
          scale = (if worker = ''pre'' then of_int (max input_len 1) / of_int (max (mean_input wl) 1)
                   else if worker = ''attn'' then
                     of_int (input_len + max 1 (output_len div 2)) /
                     of_int (max (mean_decode_context wl) 1)
                   else of_int (max output_len 1) / of_int (max (mean_output wl) 1))
      in max 0 (scale / theta))"

type_synonym stage_clock = "(string, real) dict"

text \<open>One worker type of one request: wait for the stage, serve, advance its clock.\<close>

definition serve_stage ::
    "int \<Rightarrow> int \<Rightarrow> workload_profile \<Rightarrow> throughput_profile \<Rightarrow> stage_clock \<times> real \<Rightarrow> string \<Rightarrow>
     stage_clock \<times> real" where
  "serve_stage input_len output_len wl th st worker =
     (case st of (clock, completion) \<Rightarrow>
        let service = stage_service_time worker input_len output_len wl th;
            start_time = max completion (dict_getd clock worker 0);
            finish_time = start_time + service
        in (AList.update worker finish_time clock, finish_time))"

record tail_state =
  ts_rng :: rng
  ts_clock :: stage_clock
  ts_arrival :: real
  ts_latencies :: "real list"

definition serve_request ::
    "workload_profile \<Rightarrow> throughput_profile \<Rightarrow> tail_state \<Rightarrow> int \<times> int \<Rightarrow> tail_state" where
  "serve_request wl th st shape =
     (case shape of (input_len, output_len) \<Rightarrow>
      case rng_expovariate (arrival_rate wl) (ts_rng st) of (gap, r) \<Rightarrow>
        let arrival = ts_arrival st + gap;
            (clock, completion) =
              foldl (serve_stage input_len output_len wl th) (ts_clock st, arrival) WORKER_TYPES
        in \<lparr>ts_rng = r, ts_clock = clock, ts_arrival = arrival,
            ts_latencies = ts_latencies st @ [completion - arrival]\<rparr>)"

definition percentile_of :: "real list \<Rightarrow> real \<Rightarrow> xreal" where
  "percentile_of values p =
     (if values = [] then PosInf
      else let n = int (length values);
               index = min (n - 1) (max 0 (py_round (p * of_int (n - 1))))
           in Fin (values ! nat index))"

definition mean_real :: "real list \<Rightarrow> real" where
  "mean_real xs = sum_list xs / of_nat (length xs)"

definition estimate_tail_latency ::
    "rng \<Rightarrow> workload_profile \<Rightarrow> throughput_profile \<Rightarrow> int \<Rightarrow> (string, xreal) dict" where
  "estimate_tail_latency seeded wl th samples =
     (if bottleneck th \<le> 0
      then [(''mean'', PosInf), (''p50'', PosInf), (''p95'', PosInf), (''p99'', PosInf)]
      else let final = foldl (serve_request wl th)
                 \<lparr>ts_rng = seeded, ts_clock = dict_comp WORKER_TYPES (\<lambda>_. 0), ts_arrival = 0,
                  ts_latencies = []\<rparr> (sample_request_shapes wl samples);
               latencies = sort (ts_latencies final)
           in [(''mean'', Fin (mean_real latencies)), (''p50'', percentile_of latencies (50 / 100)),
               (''p95'', percentile_of latencies (95 / 100)),
               (''p99'', percentile_of latencies (99 / 100))])"

definition estimate_latency :: "rng \<Rightarrow> workload_profile \<Rightarrow> throughput_profile \<Rightarrow> xreal" where
  "estimate_latency seeded wl th =
     (let tails = estimate_tail_latency seeded wl th 512 in
      if tails \<noteq> [] then dict_getd tails ''mean'' PosInf
      else let b = bottleneck th in
        if b \<le> 0 then PosInf
        else let stage_service = sum_list (map (\<lambda>w. 1 / max (dict_getd th w 0) (1 / 10 ^ 9)) WORKER_TYPES);
                 utilization = arrival_rate wl / b
             in if 1 \<le> utilization
                then Fin (stage_service + (utilization - 1) * of_int (max (mean_output wl) 1) + 1 / b)
                else Fin (stage_service + utilization / max (1 / 10 ^ 9) ((1 - utilization) * b)))"

section \<open>Cost\<close>

definition estimate_cost_per_hour :: "allocation \<Rightarrow> real" where
  "estimate_cost_per_hour a =
     foldl (\<lambda>total_cost hw.
        let price = (case map_of hardware_params hw of None \<Rightarrow> 0 | Some p \<Rightarrow> hw_price_per_hour p)
        in total_cost + price * of_int (total_for_hardware a hw)) 0 (hardware_types a)"

definition summarize_plan_cost :: "'m deployment_plan \<Rightarrow> 'm deployment_plan" where
  "summarize_plan_cost plan =
     (let cost = estimate_cost_per_hour (p_allocation plan) in
      plan\<lparr>p_cost_per_hour := cost,
           p_req_per_dollar := (if 0 < cost then bottleneck (p_throughput plan) / (cost / 3600) else 0)\<rparr>)"

text \<open>
  The object the local scheduler is given. A validated workload never makes the throughput
  estimate raise (lemma \<open>estimate_slice_throughput_total\<close>), so the exception branch is never taken.
\<close>

definition simulator_estimator :: "sim_estimator \<Rightarrow> rng \<Rightarrow> estimator" where
  "simulator_estimator se seeded =
     \<lparr>est_slice_throughput = (\<lambda>w h s wl. case estimate_slice_throughput se w h s wl of
          Inl _ \<Rightarrow> 0 | Inr t \<Rightarrow> t),
      est_latency = estimate_latency seeded,
      est_tail_latency = (\<lambda>wl th. estimate_tail_latency seeded wl th 512),
      est_cost_per_hour = estimate_cost_per_hour\<rparr>"

section \<open>Throughput\<close>

lemma replica_throughput_nonneg: "replica_throughput se w h tp ep mi mo mc mbs = Inr t \<Longrightarrow> 0 \<le> t"
  by (auto simp: replica_throughput_def bind_result_eq_Inr split: sum.splits if_splits)

lemma replica_throughput_total: "0 < mbs \<Longrightarrow> \<exists>t. replica_throughput se w h tp ep mi mo mc mbs = Inr t"
  by (auto simp: replica_throughput_def WorkloadProfile_def split: sum.split)

lemma map_result_nonneg:
  assumes "map_result f xs = Inr ys" "\<And>x y. f x = Inr y \<Longrightarrow> (0::real) \<le> y"
  shows "0 \<le> sum_list ys"
  using assms(1)
proof (induction xs arbitrary: ys)
  case (Cons x xs)
  then show ?case using assms(2)[of x] by (fastforce simp: bind_result_eq_Inr)
qed simp

lemma estimate_slice_throughput_nonneg:
  assumes "estimate_slice_throughput se w h s wl = Inr t" shows "0 \<le> t"
  using assms map_result_nonneg[OF _ replica_throughput_nonneg]
  by (fastforce simp: estimate_slice_throughput_def bind_result_eq_Inr split: if_splits)

lemma estimate_slice_throughput_total:
  assumes "wf_workload wl"
  shows "\<exists>t. estimate_slice_throughput se w h s wl = Inr t"
proof -
  let ?f = "\<lambda>r. replica_throughput se w h (r_tp r) (r_ep r) (mean_input wl) (mean_output wl)
      (mean_decode_context wl) (max_batch_size wl)"
  have "?f r = Inr (projr (?f r))" for r
    using replica_throughput_total[of "max_batch_size wl"] assms by (metis sum.sel(2) wf_workload_def)
  then have "map_result ?f (s_replicas s) = Inr (map (\<lambda>r. projr (?f r)) (s_replicas s))"
    by (intro map_result_all_Inr)
  then show ?thesis by (simp add: estimate_slice_throughput_def)
qed

text \<open>The simulator's estimator keeps the contract of the local scheduler.\<close>

interpretation sim: estimator_contract "simulator_estimator se seeded" for se seeded
  by unfold_locales
    (auto simp: simulator_estimator_def estimate_slice_throughput_nonneg split: sum.split)

definition se_ok :: "sim_estimator \<Rightarrow> bool" where
  "se_ok se \<longleftrightarrow> wf_params (se_model_params se) \<and> 0 < se_kv_bandwidth_bytes se \<and>
     0 < se_activation_bandwidth_bytes se"

text \<open>The tensor-parallel degrees the cost model accepts.\<close>

definition tp_admissible :: "model_params \<Rightarrow> int \<Rightarrow> bool" where
  "tp_admissible mp tp \<longleftrightarrow> tp dvd mp_hidden_size mp \<and> tp dvd mp_intermediate_size mp \<and>
     tp dvd mp_num_key_value_heads mp"

lemma se_ok_fallback: "se_ok (SimulatorEstimator (\<lambda>_. None) model_id kv act)"
  by (simp add: se_ok_def SimulatorEstimator_def load_model_params_def fallback_params_wf less_max_iff_disj)

lemma activation_time_pos: "se_ok se \<Longrightarrow> 0 < activation_transfer_time se b n"
  by (simp add: activation_transfer_time_def se_ok_def wf_params_def less_max_iff_disj)

lemma kv_time_nonneg: "se_ok se \<Longrightarrow> 0 \<le> kv_transfer_time se n b"
  by (simp add: kv_transfer_time_def se_ok_def wf_params_def Let_def)

lemma replica_args_ok:
  assumes "0 < seqlen" "0 < tp" "tp_admissible mp tp"
  shows "args_ok mp (replica_args seqlen (effective_batch_size tp) tp)"
  using assms
  by (simp add: args_ok_def replica_args_def kv_bits_def effective_batch_size_def tp_admissible_def
      max_def dvd_eq_mod_eq_0)

lemma replica_batch_time_pos:
  assumes "se_ok se" "h \<in> fst ` set hardware_params" "w \<in> set WORKER_TYPES" "0 < tp"
    and "tp_admissible (se_model_params se) tp" "0 < mi" "0 < mo" "0 < mc"
  obtains t where "replica_batch_time se w h tp ep mi mo mc = Inr t" "0 < t"
proof -
  let ?mp = "se_model_params se" and ?b = "effective_batch_size tp"
  note wf = assms(1)[unfolded se_ok_def, THEN conjunct1]
  note act = activation_time_pos[OF assms(1), of ?b 1]
  show ?thesis
  proof (cases "w = ''pre''")
    case True
    obtain r where "analyze ?mp h (replica_args mi ?b tp) = Inr r"
        "0 < dict_getd (an_total_prefill r) ''inference_time'' 0"
      using prefill_time_positive[OF wf replica_args_ok[OF assms(6,4,5)] assms(2)] .
    then show ?thesis using True that by (simp add: replica_batch_time_def)
  next
    case False
    obtain b where b: "analyze_decode_breakdown ?mp h (replica_args mc ?b tp) = Inr b"
        "0 \<le> bd_attention_s b" "0 \<le> bd_ffn_s b" "bd_num_layers b = mp_num_hidden_layers ?mp"
      using breakdown_total[OF wf replica_args_ok[OF assms(8,4,5)] assms(2)] .
    have L: "0 < real_of_int (mp_num_hidden_layers ?mp)" using wf by (simp add: wf_params_def)
    show ?thesis
    proof (cases "w = ''attn''")
      case True
      have "0 < kv_transfer_time se mi ?b +
          of_int mo * ((bd_attention_s b + activation_transfer_time se ?b 1) * of_int (bd_num_layers b))"
        using kv_time_nonneg[OF assms(1), of mi ?b] act b L assms(7)
        by (intro add_nonneg_pos mult_pos_pos) simp_all
      then show ?thesis using True b(1) that by (simp add: replica_batch_time_def Let_def)
    next
      case ffn: False
      define ffn where "ffn = (if 1 < ep then bd_ffn_s b / of_int ep +
          activation_transfer_time se ?b 1 * (5 / 100) * of_int (ep - 1) else bd_ffn_s b)"
      have "0 \<le> ffn" using b(3) act by (simp add: ffn_def)
      then have "0 < of_int mo * ((ffn + activation_transfer_time se ?b 1) * of_int (bd_num_layers b))"
        using act b(4) L assms(7) by (intro mult_pos_pos) simp_all
      moreover have "replica_batch_time se w h tp ep mi mo mc =
          Inr (of_int mo * ((ffn + activation_transfer_time se ?b 1) * of_int (bd_num_layers b)))"
        using False ffn b(1) assms(3) by (simp add: replica_batch_time_def Let_def ffn_def)
      ultimately show ?thesis using that by blast
    qed
  qed
qed

lemma analyze_inadmissible:
  assumes "0 < tp" "\<not> tp_admissible mp tp"
  shows "\<exists>e. analyze mp h (replica_args n b tp) = Inl e"
proof -
  have "1 < tp" using assms by (cases "tp = 1") (auto simp: tp_admissible_def)
  then have "get_linear_layers mp (max 1 tp) = Inl (AssertionError [])"
    using assms by (auto simp: get_linear_layers_def tp_admissible_def dvd_eq_mod_eq_0 max_def)
  then show ?thesis by (auto simp: analyze_def replica_args_def)
qed

text \<open>
  The throughput estimate of a replica never raises for a validated workload, and for a
  listed GPU and a known worker type it is positive exactly when the tensor-parallel degree
  divides the hidden size, the intermediate size and the number of key/value heads; every
  other degree is priced at zero throughput.
\<close>

theorem replica_throughput_positive_iff:
  assumes "se_ok se" "h \<in> fst ` set hardware_params" "w \<in> set WORKER_TYPES" "0 < tp"
    and "0 < mi" "0 < mo" "0 < mc" "0 < mbs"
  shows "\<exists>t. replica_throughput se w h tp ep mi mo mc mbs = Inr t \<and> 0 \<le> t \<and>
    (0 < t \<longleftrightarrow> tp_admissible (se_model_params se) tp)"
proof (cases "tp_admissible (se_model_params se) tp")
  case True
  obtain t where "replica_batch_time se w h tp ep mi mo mc = Inr t" "0 < t"
    using replica_batch_time_pos[OF assms(1-4) True assms(5-7)] .
  then show ?thesis
    using assms(8) True
    by (simp add: replica_throughput_def WorkloadProfile_def effective_batch_size_def less_max_iff_disj)
next
  case False
  have "\<exists>e. replica_batch_time se w h tp ep mi mo mc = Inl e"
    using analyze_inadmissible[OF assms(4) False, of h mi "effective_batch_size tp"]
      analyze_inadmissible[OF assms(4) False, of h mc "effective_batch_size tp"]
    by (auto simp: replica_batch_time_def analyze_decode_breakdown_def Let_def)
  then show ?thesis using assms(8) False by (auto simp: replica_throughput_def WorkloadProfile_def)
qed

definition llama_estimator :: sim_estimator where
  "llama_estimator = SimulatorEstimator (\<lambda>_. None) ''llama'' 100 100"

theorem replica_throughput_positive_iff_witness:
  "(\<exists>t. replica_throughput llama_estimator ''attn'' ''NVDA:H20'' 8 1 512 128 576 8 = Inr t \<and> 0 < t) \<and>
   replica_throughput llama_estimator ''attn'' ''NVDA:H20'' 16 1 512 128 576 8 = Inr 0"
proof -
  have hw: "''NVDA:H20'' \<in> fst ` set hardware_params" by (simp add: hardware_params_def)
  have w: "''attn'' \<in> set WORKER_TYPES" by simp
  have "se_model_params llama_estimator = fallback_params []"
    by (simp add: llama_estimator_def SimulatorEstimator_def load_model_params_def, code_simp)
  then have adm: "tp_admissible (se_model_params llama_estimator) 8"
      "\<not> tp_admissible (se_model_params llama_estimator) 16"
    by (simp_all add: tp_admissible_def fallback_params_def py_contains_def py_lower_def)
  show ?thesis
    using replica_throughput_positive_iff[of llama_estimator "''NVDA:H20''" "''attn''" 8 512 128 576 8 1]
      replica_throughput_positive_iff[of llama_estimator "''NVDA:H20''" "''attn''" 16 512 128 576 8 1]
      se_ok_fallback[of "''llama''" 100 100, folded llama_estimator_def] hw w adm by fastforce
qed

section \<open>Cost-aware choice with this estimator\<close>

text \<open>
  C6. Cost-aware reconfiguration pays for itself. With the simulator's estimator, when the
  previous strategy can be projected onto the new GPU count, \<open>choose_strategy\<close> returns a
  strategy whose throughput over the stability window, reload time deducted, is at least what
  keeping the projected strategy for the whole window yields; if the chosen strategy has any
  reload cost, that cost is below the window and the gain is strict.
\<close>

theorem cost_aware_choice_amortises:
  assumes "cost_aware cfg" "0 \<le> model_size_gb cfg" "0 \<le> stability_window_s cfg" "wf_strategy q"
    and "project_strategy cfg (Some q) gpus = Inr (Some p)"
  shows "\<exists>plan s. choose_strategy cfg (simulator_estimator se seeded) w h gpus wl (Some q) = Inr plan \<and>
    sp_strategy plan = Some s \<and>
    sp_throughput plan = est_slice_throughput (simulator_estimator se seeded) w h s wl \<and>
    sp_reconfiguration_cost_s plan = reconfiguration_cost_s cfg (Some p) s \<and>
    est_slice_throughput (simulator_estimator se seeded) w h p wl * stability_window_s cfg
      \<le> sp_throughput plan * (stability_window_s cfg - sp_reconfiguration_cost_s plan) \<and>
    (0 < sp_reconfiguration_cost_s plan \<longrightarrow>
       sp_reconfiguration_cost_s plan < stability_window_s cfg \<and>
       est_slice_throughput (simulator_estimator se seeded) w h p wl * stability_window_s cfg
         < sp_throughput plan * (stability_window_s cfg - sp_reconfiguration_cost_s plan))"
  using assms by (intro sim.choose_strategy_amortised) auto

definition cost_aware_config :: local_config where
  "cost_aware_config = default_config\<lparr>cost_aware := True\<rparr>"

theorem cost_aware_choice_amortises_witness:
  "project_strategy cost_aware_config (Some uniform_4x2) 8 = Inr (Some uniform_4x2) \<and>
   (\<exists>plan s. choose_strategy cost_aware_config
      (simulator_estimator llama_estimator (rng_of_tape (\<lambda>_. 0))) ''ffn'' ''NVDA:H20'' 8
      \<lparr>arrival_rate = 1, input_lengths = [512], output_lengths = [128], max_batch_size = 8\<rparr>
      (Some uniform_4x2) = Inr plan \<and> sp_strategy plan = Some s)"
proof -
  have pr: "project_strategy cost_aware_config (Some uniform_4x2) 8 = Inr (Some uniform_4x2)"
    by code_simp
  have "cost_aware cost_aware_config" "0 \<le> model_size_gb cost_aware_config"
      "0 \<le> stability_window_s cost_aware_config"
    by (simp_all add: cost_aware_config_def default_config_def)
  from cost_aware_choice_amortises[OF this wf_uniform_4x2 pr] pr show ?thesis by blast
qed

section \<open>Latency percentiles\<close>

lemma stage_service_nonneg: "0 \<le> stage_service_time w i n wl th"
  by (simp add: stage_service_time_def Let_def)

text \<open>A request leaves no stage before it arrived there, and waits for the stage's clock.\<close>

lemma serve_stages_completion:
  "foldl (serve_stage i n wl th) (clock, t) ws = (clock', t') \<Longrightarrow>
     t + sum_list (map (\<lambda>w. stage_service_time w i n wl th) ws) \<le> t'"
proof (induction ws arbitrary: clock t)
  case (Cons w ws)
  define f where "f = max t (dict_getd clock w 0) + stage_service_time w i n wl th"
  have "serve_stage i n wl th (clock, t) w = (AList.update w f clock, f)"
    by (simp add: serve_stage_def Let_def f_def)
  then have "foldl (serve_stage i n wl th) (AList.update w f clock, f) ws = (clock', t')"
    using Cons.prems by simp
  from Cons.IH[OF this] show ?case by (simp add: f_def)
qed simp

lemma serve_request_latencies:
  "\<exists>l. ts_latencies (serve_request wl th st shape) = ts_latencies st @ [l] \<and> 0 \<le> l"
proof -
  obtain i n where shape: "shape = (i, n)" by (cases shape)
  obtain gap r where g: "rng_expovariate (arrival_rate wl) (ts_rng st) = (gap, r)"
    by (cases "rng_expovariate (arrival_rate wl) (ts_rng st)")
  let ?t = "ts_arrival st + gap"
  obtain clock t' where f: "foldl (serve_stage i n wl th) (ts_clock st, ?t) WORKER_TYPES = (clock, t')"
    by (cases "foldl (serve_stage i n wl th) (ts_clock st, ?t) WORKER_TYPES")
  have "?t \<le> t'"
    using serve_stages_completion[OF f] sum_list_nonneg_map[of WORKER_TYPES
        "\<lambda>w. stage_service_time w i n wl th", OF stage_service_nonneg] by linarith
  then show ?thesis by (simp add: serve_request_def shape g f Let_def)
qed

lemma foldl_latencies:
  "\<exists>ls. ts_latencies (foldl (serve_request wl th) st shapes) = ts_latencies st @ ls \<and>
     length ls = length shapes \<and> (\<forall>l \<in> set ls. 0 \<le> l)"
proof (induction shapes arbitrary: st)
  case (Cons s shapes)
  obtain l where l: "ts_latencies (serve_request wl th st s) = ts_latencies st @ [l]" "0 \<le> l"
    using serve_request_latencies by blast
  obtain ls where "ts_latencies (foldl (serve_request wl th) (serve_request wl th st s) shapes) =
      ts_latencies (serve_request wl th st s) @ ls" "length ls = length shapes" "\<forall>l \<in> set ls. 0 \<le> l"
    using Cons.IH by blast
  then show ?case using l by (intro exI[of _ "l # ls"]) simp
qed simp

definition percentile_index :: "nat \<Rightarrow> real \<Rightarrow> int" where
  "percentile_index n p = min (int n - 1) (max 0 (py_round (p * of_int (int n - 1))))"

lemma percentile_index_bounds:
  assumes "0 < n" shows "0 \<le> percentile_index n p" "percentile_index n p < int n"
  using assms by (auto simp: percentile_index_def)

lemma percentile_index_mono: "0 < n \<Longrightarrow> p \<le> q \<Longrightarrow> percentile_index n p \<le> percentile_index n q"
proof -
  assume "0 < n" "p \<le> q"
  then have "p * of_int (int n - 1) \<le> q * of_int (int n - 1)" by (intro mult_right_mono) auto
  from py_round_mono[OF this] show ?thesis unfolding percentile_index_def by linarith
qed

lemma percentile_sorted_mono:
  assumes "xs \<noteq> []" "p \<le> q"
  shows "sort xs ! nat (percentile_index (length xs) p) \<le> sort xs ! nat (percentile_index (length xs) q)"
  using assms percentile_index_mono[of "length xs" p q] percentile_index_bounds[of "length xs"]
  by (intro sorted_nth_mono) (auto simp: nat_less_iff)

lemma percentile_of_eq:
  "xs \<noteq> [] \<Longrightarrow> percentile_of xs p = Fin (xs ! nat (percentile_index (length xs) p))"
  by (simp add: percentile_of_def percentile_index_def Let_def)

lemma sample_request_shapes_ne: "sample_request_shapes wl samples \<noteq> []"
  by (simp add: sample_request_shapes_def Let_def)

text \<open>
  Latency estimates. While some worker type has no throughput every latency is infinite.
  Otherwise the replayed queue gives finite values for any random tape: the percentiles are
  non-negative and ordered \<open>p50 \<le> p95 \<le> p99\<close>, the mean is non-negative, and \<open>estimate_latency\<close> is
  always the mean of the replay; the closed formula after it in the code is never reached.
\<close>

theorem estimate_tail_latency_ordered:
  "if bottleneck th \<le> 0
   then map snd (estimate_tail_latency seeded wl th samples) = [PosInf, PosInf, PosInf, PosInf] \<and>
     estimate_latency seeded wl th = PosInf
   else \<exists>m p50 p95 p99. estimate_tail_latency seeded wl th samples =
       [(''mean'', Fin m), (''p50'', Fin p50), (''p95'', Fin p95), (''p99'', Fin p99)] \<and>
     0 \<le> m \<and> 0 \<le> p50 \<and> p50 \<le> p95 \<and> p95 \<le> p99 \<and>
     estimate_latency seeded wl th = dict_getd (estimate_tail_latency seeded wl th 512) ''mean'' PosInf"
proof (cases "bottleneck th \<le> 0")
  case True
  then show ?thesis by (simp add: estimate_tail_latency_def estimate_latency_def dict_getd_def)
next
  case False
  let ?st = "\<lparr>ts_rng = seeded, ts_clock = dict_comp WORKER_TYPES (\<lambda>_. 0), ts_arrival = 0,
      ts_latencies = []\<rparr>"
  let ?ls = "ts_latencies (foldl (serve_request wl th) ?st (sample_request_shapes wl samples))"
  obtain ls where ls: "?ls = ls" "length ls = length (sample_request_shapes wl samples)"
      "\<forall>l \<in> set ls. 0 \<le> l"
    using foldl_latencies[of wl th ?st "sample_request_shapes wl samples"] by auto
  then have ne: "ls \<noteq> []" using sample_request_shapes_ne by (metis length_0_conv)
  let ?v = "\<lambda>p. sort ls ! nat (percentile_index (length ls) p)"
  have "sort ls \<noteq> []" using ne by (metis length_0_conv length_sort)
  then have pc: "percentile_of (sort ls) p = Fin (?v p)" for p using percentile_of_eq by fastforce
  have eq: "estimate_tail_latency seeded wl th samples =
      [(''mean'', Fin (mean_real (sort ls))), (''p50'', Fin (?v (50/100))), (''p95'', Fin (?v (95/100))),
       (''p99'', Fin (?v (99/100)))]"
    using False pc by (simp add: estimate_tail_latency_def ls(1) Let_def)
  have "?v (50/100) \<in> set (sort ls)"
    using percentile_index_bounds[of "length ls" "50/100"] ne by (intro nth_mem) (simp add: nat_less_iff)
  then have "0 \<le> ?v (50/100)" using ls(3) by simp
  moreover have "0 \<le> mean_real (sort ls)"
    unfolding mean_real_def using ls(3) by (intro divide_nonneg_nonneg sum_list_nonneg) auto
  moreover have "estimate_latency seeded wl th = dict_getd (estimate_tail_latency seeded wl th 512) ''mean'' PosInf"
    using False by (simp add: estimate_latency_def estimate_tail_latency_def Let_def)
  ultimately show ?thesis
    using False percentile_sorted_mono[OF ne, of "50/100" "95/100"]
      percentile_sorted_mono[OF ne, of "95/100" "99/100"] unfolding eq by simp
qed

end
