(* ===== verification/Global_Scheduler.thy ===== *)
theory Global_Scheduler
  imports Estimator Matched_Dp
begin

text \<open>
  The global search, \<open>scheduler/simulator/scheduling/global_scheduler.py\<close>: simulated annealing
  over allocation matrices. The state of the object is its generator and its plan cache. The
  plans are Python objects that the cache shares with the caller; \<open>optimize\<close> writes the
  iteration count and the metadata into the best plan, so the cached entry changes with it.
  The model threads \<open>(generator, cache)\<close> and keeps the key of a plan beside the plan, which is
  how that write reaches the cache.

  The lemmas show that the search never leaves the capacity, never raises, never returns less
  than the plan it started from, and stops.
\<close>

record global_config =
  gc_iterations :: int
  gc_stability_iterations :: int
  gc_initial_temperature :: real
  gc_cooling_rate :: real
  gc_block_size :: int
  gc_model_size_billions :: real
  gc_allow_empty_source :: bool
  gc_seed :: int
  gc_keep_history :: bool

record history_entry =
  h_iteration :: int
  h_temperature :: real
  h_reward :: real
  h_accepted :: bool
  h_current_bottleneck :: real
  h_candidate_bottleneck :: real
  h_best_bottleneck :: real

text \<open>The autoscaling configuration of \<open>framework.py\<close>; it occurs in the metadata of a plan.\<close>

record autoscaling_config =
  target_utilization :: real
  hysteresis :: real
  min_scale_factor :: real
  max_scale_factor :: real
  decode_worker_gpu_choices :: "int list"
  global_search_after_scaling :: bool

type_synonym matrix_values = "(string, (string, int) dict) dict"

text \<open>The values that the scheduler and the framework store under a metadata key.\<close>

datatype plan_meta =
    MHistory "history_entry list"
  | MCapacity capacity
  | MGlobalConfig global_config
  | MInt int
  | MValues matrix_values
  | MAutoscaling "(string, real) dict" matrix_values autoscaling_config

type_synonym plan = "plan_meta deployment_plan"

definition plan_bottleneck :: "plan \<Rightarrow> real" where
  "plan_bottleneck p = bottleneck (p_throughput p)"

record plan_key =
  pk_allocation :: "(string \<times> (string \<times> int) list) list"
  pk_rate :: int
  pk_mean_input :: int
  pk_mean_output :: int
  pk_max_batch :: int
  pk_inputs :: "int list"
  pk_outputs :: "int list"
  pk_previous :: "(slice_key \<times> (int \<times> int) list) list option"

record global_state =
  gs_rng :: rng
  gs_cache :: "(plan_key, plan) dict"

text \<open>
  The collaborators of the scheduler object: its configuration, and the local scheduler with
  its own configuration, estimator and set order.
\<close>

record global_env =
  ge_config :: global_config
  ge_local :: local_config
  ge_estimator :: estimator
  ge_set_order :: "int list \<Rightarrow> int list"

definition effective_block_size :: "global_config \<Rightarrow> int" where
  "effective_block_size cfg =
     (if 0 < gc_block_size cfg then gc_block_size cfg
      else let size = gc_model_size_billions cfg in
        if size \<le> 13 then 1 else if size \<le> 34 then 2 else if size \<le> 90 then 4 else 8)"

definition weighted_pick :: "'a list \<Rightarrow> real list \<Rightarrow> real \<Rightarrow> 'a" where
  "weighted_pick items weights point =
     (case find (\<lambda>(item, acc). point \<le> acc)
             (zip items (map (\<lambda>i. sum_list (take (Suc i) weights)) [0..<length weights])) of
        Some (item, acc) \<Rightarrow> item
      | None \<Rightarrow> last items)"

definition weighted_choice :: "'a list \<Rightarrow> real list \<Rightarrow> rng \<Rightarrow> ('a \<times> rng) result" where
  "weighted_choice items weights r =
     (let s = sum_list weights in
      if s \<le> 0 then rng_choice items r
      else if items = [] then Inl IndexError
      else case rng_random r of (u, r') \<Rightarrow> Inr (weighted_pick items weights (u * s), r'))"

definition sample_destination :: "plan \<Rightarrow> rng \<Rightarrow> (string \<times> rng) result" where
  "sample_destination plan r =
     weighted_choice WORKER_TYPES
       (map (\<lambda>w. 1 / max (dict_getd (p_throughput plan) w 0) (1 / 10 ^ 9)) WORKER_TYPES) r"

definition sample_source ::
    "global_config \<Rightarrow> plan \<Rightarrow> allocation \<Rightarrow> capacity \<Rightarrow> rng \<Rightarrow> (string option \<times> rng) result" where
  "sample_source cfg plan a cap r =
     (let items = map Some WORKER_TYPES;
          weights = map (\<lambda>w. max (dict_getd (p_throughput plan) w 0) (1 / 10 ^ 9)) WORKER_TYPES
      in if gc_allow_empty_source cfg \<and> effective_block_size cfg \<le> total_unused a cap
         then let average_weight = sum_list weights / max (of_nat (length weights)) 1
              in weighted_choice (items @ [None])
                   (weights @ [max (max average_weight (plan_bottleneck plan)) (1 / 10 ^ 9)]) r
         else weighted_choice items weights r)"

text \<open>One of the 32 attempts: \<open>Some\<close> candidate when a block could be shifted.\<close>

definition attempt_candidate ::
    "global_config \<Rightarrow> plan \<Rightarrow> allocation \<Rightarrow> capacity \<Rightarrow> rng \<Rightarrow> (allocation option \<times> rng) result" where
  "attempt_candidate cfg plan a cap r =
     bind_result (sample_source cfg plan a cap r) (\<lambda>(src, r1).
     bind_result (sample_destination plan r1) (\<lambda>(dst, r2).
     if src = Some dst then Inr (None, r2)
     else let block = effective_block_size cfg;
              movable = (case src of
                  None \<Rightarrow> filter (\<lambda>hw. block \<le> unused_for_hardware a cap hw) (map fst cap)
                | Some s \<Rightarrow> filter (\<lambda>hw. block \<le> am_get a s hw) (hardware_types a))
          in if movable = [] then Inr (None, r2)
             else bind_result (rng_choice movable r2) (\<lambda>(hardware, r3).
               let (done, candidate) = (case src of
                     None \<Rightarrow> am_add (am_clone a) dst hardware block cap
                   | Some s \<Rightarrow> am_move (am_clone a) s dst hardware block)
               in Inr (if done then Some candidate else None, r3))))"

fun generate_candidate ::
    "nat \<Rightarrow> global_config \<Rightarrow> plan \<Rightarrow> allocation \<Rightarrow> capacity \<Rightarrow> rng \<Rightarrow> (allocation \<times> rng) result" where
  "generate_candidate 0 cfg plan a cap r = Inr (am_clone a, r)"
| "generate_candidate (Suc n) cfg plan a cap r =
     bind_result (attempt_candidate cfg plan a cap r) (\<lambda>(res, r').
       case res of Some candidate \<Rightarrow> Inr (candidate, r')
       | None \<Rightarrow> generate_candidate n cfg plan a cap r')"

section \<open>Cached evaluation\<close>

definition plan_key_of ::
    "global_env \<Rightarrow> workload_profile \<Rightarrow> allocation \<Rightarrow> previous_parallelism \<Rightarrow> plan_key" where
  "plan_key_of env wl a pp =
     \<lparr>pk_allocation = am_as_key a, pk_rate = py_round (arrival_rate wl * 10 ^ 12),
      pk_mean_input = mean_input wl, pk_mean_output = mean_output wl,
      pk_max_batch = max_batch_size wl, pk_inputs = input_lengths wl,
      pk_outputs = output_lengths wl,
      pk_previous = (if cost_aware (ge_local env)
         then map_option (\<lambda>d. map (\<lambda>(k, s). (k, strategy_as_tuple s)) (sort_key fst d)) pp
         else None)\<rparr>"

definition cached_evaluate ::
    "global_env \<Rightarrow> workload_profile \<Rightarrow> (plan_key, plan) dict \<Rightarrow> allocation \<Rightarrow> previous_parallelism \<Rightarrow>
     ((plan_key \<times> plan) \<times> (plan_key, plan) dict) result" where
  "cached_evaluate env wl cache a pp =
     (let key = plan_key_of env wl a pp in
      case map_of cache key of
        Some p \<Rightarrow> Inr ((key, p), cache)
      | None \<Rightarrow> bind_result (evaluate (ge_set_order env) (ge_local env) (ge_estimator env) wl a pp)
          (\<lambda>p. Inr ((key, p), AList.update key p cache)))"

section \<open>The annealing loop\<close>

record search_state =
  ss_global :: global_state
  ss_current :: "plan_key \<times> plan"
  ss_best :: "plan_key \<times> plan"
  ss_temperature :: real
  ss_stable :: int
  ss_history :: "history_entry list"
  ss_iterations :: int

definition accepts :: "real \<Rightarrow> real \<Rightarrow> rng \<Rightarrow> bool \<times> rng" where
  "accepts reward temperature r =
     (if reward > 0 then (True, r)
      else if temperature > 0
      then case rng_random r of (u, r') \<Rightarrow> (u < exp (reward / max temperature (1 / 10 ^ 9)), r')
      else (False, r))"

definition search_step ::
    "global_env \<Rightarrow> workload_profile \<Rightarrow> capacity \<Rightarrow> int \<Rightarrow> search_state \<Rightarrow> search_state result" where
  "search_step env wl cap iteration st =
     (let cfg = ge_config env; gs = ss_global st; cur = snd (ss_current st) in
      bind_result (generate_candidate 32 cfg cur (p_allocation cur) cap (gs_rng gs)) (\<lambda>(cand_a, r1).
      bind_result (am_validate cand_a cap) (\<lambda>_.
      bind_result (cached_evaluate env wl (gs_cache gs) cand_a (Some (p_parallelism cur)))
        (\<lambda>(candidate, cache).
         let reward = plan_bottleneck (snd candidate) - plan_bottleneck cur;
             (accepted, r2) = accepts reward (ss_temperature st) r1;
             current = (if accepted then candidate else ss_current st);
             better = plan_bottleneck (snd (ss_best st)) < plan_bottleneck (snd current);
             best = (if better then current else ss_best st);
             entry = \<lparr>h_iteration = iteration, h_temperature = ss_temperature st, h_reward = reward,
                      h_accepted = accepted, h_current_bottleneck = plan_bottleneck (snd current),
                      h_candidate_bottleneck = plan_bottleneck (snd candidate),
                      h_best_bottleneck = plan_bottleneck (snd best)\<rparr>
         in Inr \<lparr>ss_global = \<lparr>gs_rng = r2, gs_cache = cache\<rparr>, ss_current = current, ss_best = best,
                 ss_temperature = ss_temperature st,
                 ss_stable = (if better then 0 else ss_stable st + 1),
                 ss_history = (if gc_keep_history cfg then ss_history st @ [entry] else ss_history st),
                 ss_iterations = iteration + 1\<rparr>))))"

fun search_loop ::
    "global_env \<Rightarrow> workload_profile \<Rightarrow> capacity \<Rightarrow> int list \<Rightarrow> search_state \<Rightarrow> search_state result" where
  "search_loop env wl cap [] st = Inr st"
| "search_loop env wl cap (i # is) st =
     bind_result (search_step env wl cap i st) (\<lambda>st'.
       if gc_stability_iterations (ge_config env) \<le> ss_stable st' then Inr st'
       else search_loop env wl cap is
              (st'\<lparr>ss_temperature := ss_temperature st' * gc_cooling_rate (ge_config env)\<rparr>))"

definition finish_best :: "global_config \<Rightarrow> capacity \<Rightarrow> search_state \<Rightarrow> plan" where
  "finish_best cfg cap st =
     (let best = snd (ss_best st) in
      best\<lparr>p_iterations := ss_iterations st,
           p_metadata := AList.update ''effective_block_size'' (MInt (effective_block_size cfg))
             (AList.update ''global_scheduler'' (MGlobalConfig cfg)
               (AList.update ''capacity'' (MCapacity cap)
                 (AList.update ''history'' (MHistory (ss_history st)) (p_metadata best))))\<rparr>)"

definition optimize_keyed ::
    "global_env \<Rightarrow> workload_profile \<Rightarrow> capacity \<Rightarrow> allocation option \<Rightarrow> plan option \<Rightarrow>
     global_state \<Rightarrow> ((plan_key \<times> plan) \<times> global_state) result" where
  "optimize_keyed env wl cap initial previous gs =
     (let a = (case initial of Some a \<Rightarrow> am_clone a | None \<Rightarrow> am_uniform cap) in
      bind_result (am_validate a cap) (\<lambda>_.
      bind_result (cached_evaluate env wl (gs_cache gs) a (map_option p_parallelism previous))
        (\<lambda>(current, cache).
      bind_result (search_loop env wl cap [0..gc_iterations (ge_config env) - 1]
          \<lparr>ss_global = gs\<lparr>gs_cache := cache\<rparr>, ss_current = current, ss_best = current,
           ss_temperature = gc_initial_temperature (ge_config env), ss_stable = 0,
           ss_history = [], ss_iterations = 0\<rparr>) (\<lambda>st.
        let result = finish_best (ge_config env) cap st
        in Inr ((fst (ss_best st), result), (ss_global st)\<lparr>gs_cache :=
             AList.update (fst (ss_best st)) result (gs_cache (ss_global st))\<rparr>)))))"

definition optimize ::
    "global_env \<Rightarrow> workload_profile \<Rightarrow> capacity \<Rightarrow> allocation option \<Rightarrow> plan option \<Rightarrow>
     global_state \<Rightarrow> (plan \<times> global_state) result" where
  "optimize env wl cap initial previous gs =
     bind_result (optimize_keyed env wl cap initial previous gs) (\<lambda>((key, p), gs'). Inr (p, gs'))"

section \<open>Sampling\<close>

lemma weighted_pick_in:
  assumes "items \<noteq> []" shows "weighted_pick items weights x \<in> set items"
proof -
  let ?z = "zip items (map (\<lambda>i. sum_list (take (Suc i) weights)) [0..<length weights])"
  show ?thesis
  proof (cases "find (\<lambda>(item, acc). x \<le> acc) ?z")
    case (Some e)
    have find_in: "find P zs = Some e \<Longrightarrow> e \<in> set zs" for P zs by (induction zs) (auto split: if_splits)
    have "e \<in> set ?z" using find_in[OF Some] .
    moreover obtain item acc where e: "e = (item, acc)" by (cases e)
    ultimately have "item \<in> set items" using set_zip_leftD[of item acc items] by metis
    then show ?thesis unfolding weighted_pick_def Some e by simp
  qed (use assms in \<open>simp add: weighted_pick_def\<close>)
qed

lemma weighted_choice_total:
  assumes "items \<noteq> []"
  obtains x r' where "weighted_choice items weights r = Inr (x, r')" "x \<in> set items"
proof (cases "sum_list weights \<le> 0")
  case True
  then show ?thesis using rng_choice_total[OF assms, of r] that by (auto simp: weighted_choice_def)
next
  case False
  then show ?thesis
    using that assms weighted_pick_in[OF assms, of weights]
    by (cases "rng_random r") (simp add: weighted_choice_def)
qed

lemma effective_block_size_pos: "0 < effective_block_size cfg"
  by (simp add: effective_block_size_def Let_def)

lemma sample_source_total:
  obtains src r' where "sample_source cfg plan a cap r = Inr (src, r')"
    "\<And>s. src = Some s \<Longrightarrow> s \<in> set WORKER_TYPES"
proof -
  let ?items = "if gc_allow_empty_source cfg \<and> effective_block_size cfg \<le> total_unused a cap
      then map Some WORKER_TYPES @ [None] else map Some WORKER_TYPES"
  obtain ws where "sample_source cfg plan a cap r = weighted_choice ?items ws r"
    by (cases "gc_allow_empty_source cfg \<and> effective_block_size cfg \<le> total_unused a cap")
      (simp_all add: sample_source_def Let_def)
  moreover have "?items \<noteq> []" by simp
  ultimately obtain src r' where "sample_source cfg plan a cap r = Inr (src, r')" "src \<in> set ?items"
    using weighted_choice_total[of ?items ws r] by metis
  then show ?thesis by (intro that) (auto split: if_splits)
qed

lemma attempt_candidate_ok:
  assumes "wf_alloc a" "within_capacity a cap" "wf_dict cap"
  obtains res r' where "attempt_candidate cfg plan a cap r = Inr (res, r')"
    "\<And>c. res = Some c \<Longrightarrow> wf_alloc c \<and> within_capacity c cap"
proof -
  obtain src r1 where src: "sample_source cfg plan a cap r = Inr (src, r1)"
      "\<And>s. src = Some s \<Longrightarrow> s \<in> set WORKER_TYPES"
    using sample_source_total by blast
  obtain dst r2 where dst: "sample_destination plan r1 = Inr (dst, r2)" "dst \<in> set WORKER_TYPES"
    using weighted_choice_total[of WORKER_TYPES] unfolding sample_destination_def by (metis WORKER_TYPES_simps(4))
  let ?block = "effective_block_size cfg"
  let ?movable = "case src of None \<Rightarrow> filter (\<lambda>hw. ?block \<le> unused_for_hardware a cap hw) (map fst cap)
      | Some s \<Rightarrow> filter (\<lambda>hw. ?block \<le> am_get a s hw) (hardware_types a)"
  note att = attempt_candidate_def[of cfg plan a cap r, unfolded src(1) bind_result_Inr prod.case dst(1) Let_def]
  show ?thesis
  proof (cases "src = Some dst \<or> ?movable = []")
    case True
    then have "attempt_candidate cfg plan a cap r = Inr (None, r2)" unfolding att by auto
    then show ?thesis using that by blast
  next
    case False
    obtain hw r3 where hw: "rng_choice ?movable r2 = Inr (hw, r3)" using rng_choice_total False by blast
    let ?op = "case src of None \<Rightarrow> am_add a dst hw ?block cap | Some s \<Rightarrow> am_move a s dst hw ?block"
    obtain ok c where op: "?op = (ok, c)" by (cases ?op)
    have "attempt_candidate cfg plan a cap r = Inr (if ok then Some c else None, r3)"
      unfolding att am_clone_id hw bind_result_Inr prod.case op using False by simp
    moreover have "wf_alloc c \<and> within_capacity c cap"
    proof (cases src)
      case None
      then show ?thesis using op within_capacity_add[OF assms(1,3,2)] by simp
    next
      case (Some s)
      then show ?thesis using op within_capacity_move[OF assms(1,2) src(2) dst(2)] by simp
    qed
    ultimately show ?thesis using that[of "if ok then Some c else None" r3] by (auto split: if_splits)
  qed
qed

lemma generate_candidate_ok:
  assumes "wf_alloc a" "within_capacity a cap" "wf_dict cap"
  shows "\<exists>c r'. generate_candidate n cfg plan a cap r = Inr (c, r') \<and> wf_alloc c \<and> within_capacity c cap"
proof (induction n arbitrary: r)
  case (Suc n)
  obtain res r' where "attempt_candidate cfg plan a cap r = Inr (res, r')"
      "\<And>c. res = Some c \<Longrightarrow> wf_alloc c \<and> within_capacity c cap"
    using attempt_candidate_ok[OF assms] by blast
  then show ?case using Suc.IH by (cases res) auto
qed (use assms in auto)

section \<open>Cached plans\<close>

definition env_ok :: "global_env \<Rightarrow> bool" where
  "env_ok env \<longleftrightarrow> (\<forall>xs. set (ge_set_order env xs) = set xs)"

text \<open>A plan the scheduler holds: a well-formed allocation with strategies that fit it.\<close>

definition plan_ok :: "global_env \<Rightarrow> plan \<Rightarrow> bool" where
  "plan_ok env p \<longleftrightarrow> wf_alloc (p_allocation p) \<and>
     strategies_fit (ge_local env) (p_allocation p) (p_parallelism p)"

definition cache_ok :: "global_env \<Rightarrow> (plan_key, plan) dict \<Rightarrow> bool" where
  "cache_ok env cache \<longleftrightarrow>
     list_all (\<lambda>(k, p). plan_ok env p \<and> pk_allocation k = am_as_key (p_allocation p)) cache"

lemma cache_okD:
  "cache_ok env cache \<Longrightarrow> map_of cache k = Some p \<Longrightarrow> plan_ok env p \<and> pk_allocation k = am_as_key (p_allocation p)"
  by (auto simp: cache_ok_def list_all_iff dest!: map_of_SomeD)

lemma cache_ok_update:
  "cache_ok env cache \<Longrightarrow> plan_ok env p \<Longrightarrow> pk_allocation k = am_as_key (p_allocation p) \<Longrightarrow>
     cache_ok env (AList.update k p cache)"
  unfolding cache_ok_def by (rule list_all_update) auto

lemma cached_evaluate_ok:
  assumes "env_ok env" "cache_ok env cache" "wf_alloc a" "previous_ok pp"
  obtains k p cache' where "cached_evaluate env wl cache a pp = Inr ((k, p), cache')"
    "cache_ok env cache'" "plan_ok env p" "pk_allocation k = am_as_key (p_allocation p)"
    "am_as_key (p_allocation p) = am_as_key a"
proof (cases "map_of cache (plan_key_of env wl a pp)")
  case None
  obtain p :: plan where p: "evaluate (ge_set_order env) (ge_local env) (ge_estimator env) wl a pp = Inr p"
      "p_allocation p = a" "strategies_fit (ge_local env) a (p_parallelism p)"
    using evaluate_fit[of pp "ge_set_order env"] assms(1,4) unfolding env_ok_def by metis
  have "plan_ok env p" using p assms(3) by (simp add: plan_ok_def)
  then show ?thesis
    using that[of "plan_key_of env wl a pp" p] None p(1,2) cache_ok_update[OF assms(2)]
    by (simp add: cached_evaluate_def Let_def plan_key_of_def)
next
  case (Some p)
  then show ?thesis
    using that[of "plan_key_of env wl a pp" p cache] cache_okD[OF assms(2) Some] assms(2)
    by (simp add: cached_evaluate_def Let_def plan_key_of_def)
qed

lemma same_key_capacity:
  assumes "wf_alloc a" "wf_alloc b" "am_as_key a = am_as_key b" "within_capacity b cap"
  shows "within_capacity a cap"
  using within_capacity_cong[of a b cap] am_as_key_get[OF assms(1-3)] assms(4) by simp

section \<open>The search invariant\<close>

definition held_ok :: "global_env \<Rightarrow> capacity \<Rightarrow> plan_key \<times> plan \<Rightarrow> bool" where
  "held_ok env cap kp \<longleftrightarrow> plan_ok env (snd kp) \<and> within_capacity (p_allocation (snd kp)) cap \<and>
     pk_allocation (fst kp) = am_as_key (p_allocation (snd kp))"

definition history_ok :: "real \<Rightarrow> history_entry list \<Rightarrow> bool" where
  "history_ok b hs \<longleftrightarrow> sorted (map h_best_bottleneck hs) \<and>
     list_all (\<lambda>h. h_current_bottleneck h \<le> h_best_bottleneck h \<and> h_best_bottleneck h \<le> b \<and>
       (0 < h_reward h \<longrightarrow> h_accepted h)) hs"

definition search_ok :: "global_env \<Rightarrow> capacity \<Rightarrow> real \<Rightarrow> search_state \<Rightarrow> bool" where
  "search_ok env cap b0 st \<longleftrightarrow> cache_ok env (gs_cache (ss_global st)) \<and>
     held_ok env cap (ss_current st) \<and> held_ok env cap (ss_best st) \<and>
     b0 \<le> plan_bottleneck (snd (ss_best st)) \<and>
     plan_bottleneck (snd (ss_current st)) \<le> plan_bottleneck (snd (ss_best st)) \<and>
     history_ok (plan_bottleneck (snd (ss_best st))) (ss_history st)"

lemma history_ok_mono: "history_ok b hs \<Longrightarrow> b \<le> b' \<Longrightarrow> history_ok b' hs"
  by (auto simp: history_ok_def list_all_iff)

lemma history_ok_snoc:
  assumes "history_ok b hs" "b \<le> h_best_bottleneck h" "h_current_bottleneck h \<le> h_best_bottleneck h"
    and "0 < h_reward h \<longrightarrow> h_accepted h"
  shows "history_ok (h_best_bottleneck h) (hs @ [h])"
  using assms by (auto simp: history_ok_def list_all_iff sorted_append)


lemma accepts_positive: "0 < reward \<Longrightarrow> fst (accepts reward t r)"
  by (simp add: accepts_def)

lemma search_step_ok:
  assumes "env_ok env" "wf_dict cap" "search_ok env cap b0 st"
  obtains st' where "search_step env wl cap i st = Inr st'" "search_ok env cap b0 st'"
    "ss_iterations st' = i + 1"
    "gc_keep_history (ge_config env) \<Longrightarrow> \<exists>h. ss_history st' = ss_history st @ [h] \<and>
       h_iteration h = i \<and> h_best_bottleneck h = plan_bottleneck (snd (ss_best st'))"
    "\<not> gc_keep_history (ge_config env) \<Longrightarrow> ss_history st' = ss_history st"
proof -
  let ?cfg = "ge_config env" and ?gs = "ss_global st" and ?cur = "snd (ss_current st)"
  let ?t = "ss_temperature st"
  have cur: "plan_ok env ?cur" "within_capacity (p_allocation ?cur) cap"
    and cache: "cache_ok env (gs_cache ?gs)" and held: "held_ok env cap (ss_current st)"
      "held_ok env cap (ss_best st)"
    using assms(3) by (auto simp: search_ok_def held_ok_def)
  obtain ca r1 where ca: "generate_candidate 32 ?cfg ?cur (p_allocation ?cur) cap (gs_rng ?gs) = Inr (ca, r1)"
      "wf_alloc ca" "within_capacity ca cap"
    using generate_candidate_ok[OF _ cur(2) assms(2)] cur(1) by (metis plan_ok_def)
  have valid: "am_validate ca cap = Inr ()" using ca by (simp add: validate_wf)
  have prev: "previous_ok (Some (p_parallelism ?cur))"
    using cur(1) strategies_fit_previous by (auto simp: plan_ok_def)
  obtain k p cache' where p: "cached_evaluate env wl (gs_cache ?gs) ca (Some (p_parallelism ?cur)) = Inr ((k, p), cache')"
      "cache_ok env cache'" "plan_ok env p" "pk_allocation k = am_as_key (p_allocation p)"
      "am_as_key (p_allocation p) = am_as_key ca"
    using cached_evaluate_ok[OF assms(1) cache ca(2) prev] by blast
  have pheld: "held_ok env cap (k, p)"
    using p(3-5) ca(2,3) same_key_capacity[of "p_allocation p" ca cap] by (simp add: held_ok_def plan_ok_def)
  define reward where "reward = plan_bottleneck p - plan_bottleneck ?cur"
  obtain acc r2 where acc: "accepts reward ?t r1 = (acc, r2)" by (cases "accepts reward ?t r1")
  define current where "current = (if acc then (k, p) else ss_current st)"
  define better where "better = (plan_bottleneck (snd (ss_best st)) < plan_bottleneck (snd current))"
  define best where "best = (if better then current else ss_best st)"
  define entry where "entry = \<lparr>h_iteration = i, h_temperature = ?t, h_reward = reward, h_accepted = acc,
      h_current_bottleneck = plan_bottleneck (snd current), h_candidate_bottleneck = plan_bottleneck p,
      h_best_bottleneck = plan_bottleneck (snd best)\<rparr>"
  define st' where "st' = \<lparr>ss_global = \<lparr>gs_rng = r2, gs_cache = cache'\<rparr>, ss_current = current,
      ss_best = best, ss_temperature = ?t, ss_stable = (if better then 0 else ss_stable st + 1),
      ss_history = (if gc_keep_history ?cfg then ss_history st @ [entry] else ss_history st),
      ss_iterations = i + 1\<rparr>"
  have step: "search_step env wl cap i st = Inr st'"
    unfolding search_step_def Let_def ca(1) bind_result_Inr prod.case valid p(1) snd_conv
      reward_def[symmetric] acc current_def[symmetric] better_def[symmetric] best_def[symmetric]
      entry_def[symmetric] st'_def[symmetric] ..
  have grow: "plan_bottleneck (snd (ss_best st)) \<le> plan_bottleneck (snd best)"
      "plan_bottleneck (snd current) \<le> plan_bottleneck (snd best)"
    by (auto simp: best_def better_def)
  have "0 < reward \<longrightarrow> acc" using accepts_positive[of reward ?t r1] acc by simp
  then have hist: "history_ok (plan_bottleneck (snd best)) (ss_history st')"
    using assms(3) history_ok_snoc[of "plan_bottleneck (snd (ss_best st))" "ss_history st" entry] grow
      history_ok_mono[OF _ grow(1)]
    by (auto simp: st'_def entry_def search_ok_def)
  have "held_ok env cap current" "held_ok env cap best"
    using pheld held by (auto simp: current_def best_def)
  then have "search_ok env cap b0 st'"
    using hist p(2) grow assms(3) by (auto simp: search_ok_def st'_def)
  then show ?thesis by (intro that[OF step]) (auto simp: st'_def entry_def)
qed

definition trace_ok :: "global_env \<Rightarrow> search_state \<Rightarrow> bool" where
  "trace_ok env st \<longleftrightarrow> 0 \<le> ss_iterations st \<and> (gc_keep_history (ge_config env) \<longrightarrow>
     map h_iteration (ss_history st) = [0..ss_iterations st - 1] \<and>
     (ss_history st \<noteq> [] \<longrightarrow> h_best_bottleneck (last (ss_history st)) = plan_bottleneck (snd (ss_best st))))"

lemma trace_ok_step:
  assumes "trace_ok env st" "ss_iterations st = i" "ss_iterations st' = i + 1"
    and "gc_keep_history (ge_config env) \<Longrightarrow> \<exists>h. ss_history st' = ss_history st @ [h] \<and>
       h_iteration h = i \<and> h_best_bottleneck h = plan_bottleneck (snd (ss_best st'))"
  shows "trace_ok env st'"
proof -
  have "[0..i] = [0..i - 1] @ [i]" if "0 \<le> i" using that by (simp add: upto_rec2)
  then show ?thesis using assms by (auto simp: trace_ok_def)
qed

lemma search_loop_ok:
  assumes "env_ok env" "wf_dict cap"
  shows "search_ok env cap b0 st \<Longrightarrow> trace_ok env st \<Longrightarrow> ss_iterations st = i \<Longrightarrow>
    \<exists>st'. search_loop env wl cap [i..n - 1] st = Inr st' \<and> search_ok env cap b0 st' \<and> trace_ok env st' \<and>
      ss_iterations st' \<le> max i n \<and>
      (ss_iterations st' < n \<longrightarrow> gc_stability_iterations (ge_config env) \<le> ss_stable st')"
proof (induction "nat (n - i)" arbitrary: i st)
  case 0
  then have "[i..n - 1] = []" by simp
  then show ?case using 0 by auto
next
  case (Suc m)
  then have upto: "[i..n - 1] = i # [i + 1..n - 1]" by (simp add: upto_rec1)
  obtain st1 where st1: "search_step env wl cap i st = Inr st1" "search_ok env cap b0 st1"
      "ss_iterations st1 = i + 1"
      "gc_keep_history (ge_config env) \<Longrightarrow> \<exists>h. ss_history st1 = ss_history st @ [h] \<and>
         h_iteration h = i \<and> h_best_bottleneck h = plan_bottleneck (snd (ss_best st1))"
    using search_step_ok[OF assms Suc.prems(1)] by metis
  have tr: "trace_ok env st1" by (rule trace_ok_step[OF Suc.prems(2,3) st1(3,4)])
  show ?case
  proof (cases "gc_stability_iterations (ge_config env) \<le> ss_stable st1")
    case True
    then show ?thesis using st1 tr Suc.hyps(2) unfolding upto by auto
  next
    case False
    let ?st2 = "st1\<lparr>ss_temperature := ss_temperature st1 * gc_cooling_rate (ge_config env)\<rparr>"
    have "search_ok env cap b0 ?st2" "trace_ok env ?st2" "ss_iterations ?st2 = i + 1"
      using st1(2,3) tr by (simp_all add: search_ok_def trace_ok_def)
    moreover have "m = nat (n - (i + 1))" using Suc.hyps(2) by simp
    ultimately obtain st' where
      "search_loop env wl cap [i + 1..n - 1] ?st2 = Inr st'" "search_ok env cap b0 st'" "trace_ok env st'"
      "ss_iterations st' \<le> max (i + 1) n"
      "ss_iterations st' < n \<longrightarrow> gc_stability_iterations (ge_config env) \<le> ss_stable st'"
      using Suc.hyps(1)[of "i + 1" ?st2] by auto
    then show ?thesis using st1(1) False Suc.hyps(2) unfolding upto by auto
  qed
qed

text \<open>What a call of \<open>optimize\<close> starts from.\<close>

definition start_ok :: "capacity \<Rightarrow> allocation option \<Rightarrow> plan option \<Rightarrow> bool" where
  "start_ok cap initial previous \<longleftrightarrow> wf_dict cap \<and>
     (case initial of None \<Rightarrow> (\<forall>(hw, n) \<in> set cap. 0 \<le> n)
      | Some a \<Rightarrow> wf_alloc a \<and> within_capacity a cap) \<and>
     previous_ok (map_option p_parallelism previous)"

definition start_allocation :: "capacity \<Rightarrow> allocation option \<Rightarrow> allocation" where
  "start_allocation cap initial = (case initial of Some a \<Rightarrow> a | None \<Rightarrow> am_uniform cap)"

lemma start_allocation_ok:
  assumes "start_ok cap initial previous"
  shows "wf_alloc (start_allocation cap initial)" "within_capacity (start_allocation cap initial) cap"
proof -
  have "total_for_hardware (am_uniform cap) hw \<le> n" if "(hw, n) \<in> set cap" "0 \<le> n" "wf_dict cap" for hw n
    using that total_uniform[of cap hw] wf_dict_map_of[of cap hw n] by (simp add: dict_getd_def)
  then have "within_capacity (am_uniform cap) cap"
    if "wf_dict cap" "\<forall>(hw, n) \<in> set cap. 0 \<le> n" using that by (fastforce simp: within_capacity_def list_all_iff)
  then show "wf_alloc (start_allocation cap initial)" "within_capacity (start_allocation cap initial) cap"
    using assms by (auto simp: start_ok_def start_allocation_def split: option.splits)
qed

lemma optimize_run:
  assumes "env_ok env" "cache_ok env (gs_cache gs)" "start_ok cap initial previous"
  obtains k p0 cache st where
    "cached_evaluate env wl (gs_cache gs) (start_allocation cap initial) (map_option p_parallelism previous) =
       Inr ((k, p0), cache)"
    "optimize_keyed env wl cap initial previous gs = Inr ((fst (ss_best st), finish_best (ge_config env) cap st),
       (ss_global st)\<lparr>gs_cache := AList.update (fst (ss_best st)) (finish_best (ge_config env) cap st)
         (gs_cache (ss_global st))\<rparr>)"
    "search_ok env cap (plan_bottleneck p0) st" "trace_ok env st"
    "ss_iterations st \<le> max 0 (gc_iterations (ge_config env))"
    "ss_iterations st < gc_iterations (ge_config env) \<Longrightarrow>
       gc_stability_iterations (ge_config env) \<le> ss_stable st"
proof -
  let ?a = "start_allocation cap initial" and ?prev = "map_option p_parallelism previous"
  note a = start_allocation_ok[OF assms(3)]
  have prev: "previous_ok ?prev" "wf_dict cap" using assms(3) by (auto simp: start_ok_def)
  obtain k p0 cache where p0: "cached_evaluate env wl (gs_cache gs) ?a ?prev = Inr ((k, p0), cache)"
      "cache_ok env cache" "plan_ok env p0" "pk_allocation k = am_as_key (p_allocation p0)"
      "am_as_key (p_allocation p0) = am_as_key ?a"
    using cached_evaluate_ok[OF assms(1,2) a(1) prev(1)] by blast
  let ?st0 = "\<lparr>ss_global = gs\<lparr>gs_cache := cache\<rparr>, ss_current = (k, p0), ss_best = (k, p0),
      ss_temperature = gc_initial_temperature (ge_config env), ss_stable = 0, ss_history = [],
      ss_iterations = 0\<rparr>"
  have "held_ok env cap (k, p0)"
    using p0 a same_key_capacity[of "p_allocation p0" ?a cap] by (simp add: held_ok_def plan_ok_def)
  then have "search_ok env cap (plan_bottleneck p0) ?st0" "trace_ok env ?st0"
    using p0(2) by (simp_all add: search_ok_def trace_ok_def history_ok_def)
  from search_loop_ok[OF assms(1) prev(2) this, of 0 wl "gc_iterations (ge_config env)"] obtain st where st:
    "search_loop env wl cap [0..gc_iterations (ge_config env) - 1] ?st0 = Inr st"
    "search_ok env cap (plan_bottleneck p0) st" "trace_ok env st"
    "ss_iterations st \<le> max 0 (gc_iterations (ge_config env))"
    "ss_iterations st < gc_iterations (ge_config env) \<longrightarrow> gc_stability_iterations (ge_config env) \<le> ss_stable st"
    by auto
  have "(case initial of Some a \<Rightarrow> am_clone a | None \<Rightarrow> am_uniform cap) = ?a"
    by (simp add: start_allocation_def split: option.split)
  moreover have "am_validate ?a cap = Inr ()" using a by (simp add: validate_wf)
  ultimately have "optimize_keyed env wl cap initial previous gs =
      Inr ((fst (ss_best st), finish_best (ge_config env) cap st),
       (ss_global st)\<lparr>gs_cache := AList.update (fst (ss_best st)) (finish_best (ge_config env) cap st)
         (gs_cache (ss_global st))\<rparr>)"
    unfolding optimize_keyed_def Let_def by (simp only: bind_result_Inr p0(1) prod.case st(1))
  then show ?thesis using that[OF p0(1) _ st(2-4)] st(5) by blast
qed

lemma finish_best_simps [simp]:
  "p_allocation (finish_best cfg cap st) = p_allocation (snd (ss_best st))"
  "p_parallelism (finish_best cfg cap st) = p_parallelism (snd (ss_best st))"
  "plan_bottleneck (finish_best cfg cap st) = plan_bottleneck (snd (ss_best st))"
  "p_iterations (finish_best cfg cap st) = ss_iterations st"
  "map_of (p_metadata (finish_best cfg cap st)) ''history'' = Some (MHistory (ss_history st))"
  by (simp_all add: finish_best_def Let_def plan_bottleneck_def map_of_update)

lemma plan_ok_finish: "plan_ok env (finish_best cfg cap st) = plan_ok env (snd (ss_best st))"
  by (simp add: plan_ok_def)

lemma optimize_keyed_safe:
  assumes "env_ok env" "cache_ok env (gs_cache gs)" "start_ok cap initial previous"
  obtains k' p gs' p0 k cache where "optimize_keyed env wl cap initial previous gs = Inr ((k', p), gs')"
    "cached_evaluate env wl (gs_cache gs) (start_allocation cap initial)
      (map_option p_parallelism previous) = Inr ((k, p0), cache)"
    "plan_bottleneck p0 \<le> plan_bottleneck p" "plan_ok env p" "am_validate (p_allocation p) cap = Inr ()"
    "0 \<le> p_iterations p" "p_iterations p \<le> max 0 (gc_iterations (ge_config env))"
    "cache_ok env (gs_cache gs')" "map_of (gs_cache gs') k' = Some p"
    "pk_allocation k' = am_as_key (p_allocation p)"
proof -
  obtain k p0 cache st where run:
    "cached_evaluate env wl (gs_cache gs) (start_allocation cap initial) (map_option p_parallelism previous) =
       Inr ((k, p0), cache)"
    "optimize_keyed env wl cap initial previous gs = Inr ((fst (ss_best st), finish_best (ge_config env) cap st),
       (ss_global st)\<lparr>gs_cache := AList.update (fst (ss_best st)) (finish_best (ge_config env) cap st)
         (gs_cache (ss_global st))\<rparr>)"
    "search_ok env cap (plan_bottleneck p0) st" "trace_ok env st"
    "ss_iterations st \<le> max 0 (gc_iterations (ge_config env))"
    using optimize_run[OF assms] by metis
  let ?p = "finish_best (ge_config env) cap st"
  have best: "plan_ok env ?p" "within_capacity (p_allocation ?p) cap"
      "pk_allocation (fst (ss_best st)) = am_as_key (p_allocation ?p)"
    using run(3) by (simp_all add: search_ok_def held_ok_def plan_ok_finish)
  have "cache_ok env (AList.update (fst (ss_best st)) ?p (gs_cache (ss_global st)))"
    using run(3) best by (intro cache_ok_update) (simp_all add: search_ok_def)
  moreover have "am_validate (p_allocation ?p) cap = Inr ()" using best by (simp add: validate_wf plan_ok_def)
  moreover have "plan_bottleneck p0 \<le> plan_bottleneck ?p" "0 \<le> p_iterations ?p"
    using run(3,4) by (simp_all add: search_ok_def trace_ok_def)
  moreover have "map_of (AList.update (fst (ss_best st)) ?p (gs_cache (ss_global st))) (fst (ss_best st)) = Some ?p"
    by (simp add: map_of_update)
  ultimately show ?thesis using that[OF run(2,1)] run(5) best(1,3) by simp
qed

text \<open>
  C1. \<open>GlobalScheduler.optimize\<close> is safe and never loses. Started from a valid allocation (or
  none) with an intact plan cache, whatever the random draws, it returns a plan and does not
  raise. The plan's allocation passes \<open>validate\<close> for the given capacity and every strategy uses
  exactly the GPUs of its slice; its bottleneck throughput is at least that of the plan the
  search started from; the loop ran at most \<open>iterations\<close> times; and the plan cache is intact
  for the next call, the returned plan entered under the key of its own allocation.
\<close>

theorem optimize_safe:
  assumes "env_ok env" "cache_ok env (gs_cache gs)" "start_ok cap initial previous"
  shows "\<exists>p gs' p0 k cache. optimize env wl cap initial previous gs = Inr (p, gs') \<and>
    cached_evaluate env wl (gs_cache gs) (start_allocation cap initial)
      (map_option p_parallelism previous) = Inr ((k, p0), cache) \<and>
    plan_bottleneck p0 \<le> plan_bottleneck p \<and> wf_alloc (p_allocation p) \<and>
    am_validate (p_allocation p) cap = Inr () \<and>
    strategies_fit (ge_local env) (p_allocation p) (p_parallelism p) \<and>
    0 \<le> p_iterations p \<and> p_iterations p \<le> max 0 (gc_iterations (ge_config env)) \<and>
    cache_ok env (gs_cache gs') \<and> (\<exists>k'. map_of (gs_cache gs') k' = Some p)"
  by (rule optimize_keyed_safe[OF assms, where wl = wl])
    (force simp: optimize_def plan_ok_def)

text \<open>The default configuration of \<open>GlobalSchedulerConfig\<close>, six H20 GPUs and a llama estimator.\<close>

definition default_global_config :: global_config where
  "default_global_config = \<lparr>gc_iterations = 60, gc_stability_iterations = 12,
     gc_initial_temperature = 25 / 100, gc_cooling_rate = 92 / 100, gc_block_size = 0,
     gc_model_size_billions = 8, gc_allow_empty_source = True, gc_seed = 7, gc_keep_history = True\<rparr>"

definition sample_env :: global_env where
  "sample_env = \<lparr>ge_config = default_global_config, ge_local = default_config,
     ge_estimator = simulator_estimator llama_estimator (rng_of_tape (\<lambda>i. i * i)),
     ge_set_order = (\<lambda>xs. xs)\<rparr>"

definition sample_gs :: global_state where
  "sample_gs = \<lparr>gs_rng = rng_of_tape (\<lambda>i. 7 * i), gs_cache = []\<rparr>"

lemma sample_start:
  "env_ok sample_env" "cache_ok sample_env (gs_cache sample_gs)" "start_ok [(''NVDA:H20'', 6)] None None"
  by (simp_all add: env_ok_def sample_env_def cache_ok_def sample_gs_def start_ok_def wf_dict_def previous_ok_def)

theorem optimize_safe_witness:
  "start_ok [(''NVDA:H20'', 6)] None None \<and>
   (\<exists>p gs'. optimize sample_env sample_workload [(''NVDA:H20'', 6)] None None sample_gs = Inr (p, gs') \<and>
      am_validate (p_allocation p) [(''NVDA:H20'', 6)] = Inr () \<and> p_iterations p \<le> 60)"
  using optimize_safe[OF sample_start, of sample_workload] sample_start(3)
  by (auto simp: sample_env_def default_global_config_def)

text \<open>
  The recorded history is the run. With \<open>keep_history\<close> the metadata of the returned plan
  holds one entry per executed iteration, numbered from zero; the best bottleneck never
  decreases from entry to entry, never lies below the current one, and the last one is the
  bottleneck of the returned plan; a candidate with a positive reward is always accepted.
\<close>

theorem optimize_history_monotone:
  assumes "env_ok env" "cache_ok env (gs_cache gs)" "start_ok cap initial previous"
    and "gc_keep_history (ge_config env)"
    and "optimize env wl cap initial previous gs = Inr (p, gs')"
  shows "\<exists>hs. map_of (p_metadata p) ''history'' = Some (MHistory hs) \<and>
    map h_iteration hs = [0..p_iterations p - 1] \<and> sorted (map h_best_bottleneck hs) \<and>
    list_all (\<lambda>h. h_current_bottleneck h \<le> h_best_bottleneck h \<and>
      h_best_bottleneck h \<le> plan_bottleneck p \<and> (0 < h_reward h \<longrightarrow> h_accepted h)) hs \<and>
    (hs \<noteq> [] \<longrightarrow> h_best_bottleneck (last hs) = plan_bottleneck p)"
proof -
  obtain k gs1 p0 st where
    "optimize_keyed env wl cap initial previous gs = Inr ((k, finish_best (ge_config env) cap st), gs1)"
    and ok: "search_ok env cap (plan_bottleneck p0) st" "trace_ok env st"
    using optimize_run[OF assms(1-3), of wl] by metis
  then have run: "p = finish_best (ge_config env) cap st" using assms(5) by (simp add: optimize_def)
  show ?thesis
    using run ok assms(4) by (intro exI[of _ "ss_history st"])
      (simp add: search_ok_def trace_ok_def history_ok_def)
qed

theorem optimize_history_monotone_witness:
  "gc_keep_history (ge_config sample_env) \<and>
   (\<exists>p gs' hs. optimize sample_env sample_workload [(''NVDA:H20'', 6)] None None sample_gs = Inr (p, gs') \<and>
      map_of (p_metadata p) ''history'' = Some (MHistory hs) \<and> sorted (map h_best_bottleneck hs))"
proof -
  have keep: "gc_keep_history (ge_config sample_env)"
    by (simp add: sample_env_def default_global_config_def)
  obtain p gs' where opt: "optimize sample_env sample_workload [(''NVDA:H20'', 6)] None None sample_gs = Inr (p, gs')"
    using optimize_run[OF sample_start, of sample_workload] by (fastforce simp: optimize_def)
  from optimize_history_monotone[OF sample_start keep opt] opt keep show ?thesis by blast
qed

end
