(* ===== verification/Framework.thy ===== *)
theory Framework
  imports Global_Scheduler
begin

text \<open>
  The orchestration layer, \<open>scheduler/simulator/scheduling/framework.py\<close>: autoscaling by
  proportional expansion, fitting to the capacity, quantisation of the decode workers to the
  allowed GPU counts, and rescheduling.

  The lemmas show that the loops end, that every allocation handed on passes \<open>validate\<close>, and that
  quantisation meets the closest allowed pair exactly.
\<close>

section \<open>The framework object\<close>

record framework =
  fw_env :: global_env
  fw_auto :: autoscaling_config
  fw_model_id :: string
  fw_kv_transfer_bandwidth_gbps :: real
  fw_activation_bandwidth_gbps :: real
  fw_routing_policy :: string

definition HexGenSchedulingFramework ::
    "(string \<Rightarrow> model_params option) \<Rightarrow> rng \<Rightarrow> (int list \<Rightarrow> int list) \<Rightarrow> string \<Rightarrow> local_config \<Rightarrow>
     global_config \<Rightarrow> autoscaling_config \<Rightarrow> real \<Rightarrow> real \<Rightarrow> string \<Rightarrow> framework" where
  "HexGenSchedulingFramework auto_config seeded set_order model_id lcfg gcfg acfg kv act routing =
     \<lparr>fw_env = \<lparr>ge_config = gcfg, ge_local = lcfg,
        ge_estimator = simulator_estimator (SimulatorEstimator auto_config model_id kv act) seeded,
        ge_set_order = set_order\<rparr>,
      fw_auto = acfg, fw_model_id = model_id, fw_kv_transfer_bandwidth_gbps = kv,
      fw_activation_bandwidth_gbps = act, fw_routing_policy = routing\<rparr>"

section \<open>Expansion factors\<close>

definition expansion_factor :: "autoscaling_config \<Rightarrow> real \<Rightarrow> real \<Rightarrow> real" where
  "expansion_factor c rate throughput =
     (let utilization = rate / max throughput (1 / 10 ^ 9);
          factor = (if target_utilization c + hysteresis c < utilization
                    then utilization / max (target_utilization c) (1 / 10 ^ 9)
                    else if utilization < target_utilization c - hysteresis c
                    then utilization / max (target_utilization c) (1 / 10 ^ 9)
                    else 1)
      in min (max_scale_factor c) (max (min_scale_factor c) factor))"

definition worker_expansion_factors ::
    "autoscaling_config \<Rightarrow> workload_profile \<Rightarrow> plan \<Rightarrow> (string, real) dict" where
  "worker_expansion_factors c wl previous =
     foldl (\<lambda>d w. AList.update w
              (expansion_factor c (arrival_rate wl) (dict_getd (p_throughput previous) w 0)) d)
       [] WORKER_TYPES"

section \<open>Fitting to the capacity\<close>

definition shrink_candidates :: "allocation \<Rightarrow> string \<Rightarrow> string list" where
  "shrink_candidates a h = filter (\<lambda>w. 0 < am_get a w h) WORKER_TYPES"

definition shrink_choice :: "(string, real) dict \<Rightarrow> allocation \<Rightarrow> string \<Rightarrow> string" where
  "shrink_choice factors a h =
     (let cands = shrink_candidates a h
      in max_key_from (\<lambda>w. (am_get a w h, - dict_getd factors w 1)) (hd cands) (tl cands))"

lemma shrink_choice_in:
  assumes "shrink_candidates a h \<noteq> []"
  shows "shrink_choice factors a h \<in> set (shrink_candidates a h)"
  using max_key_from_in[of "\<lambda>w. (am_get a w h, - dict_getd factors w 1)" "hd (shrink_candidates a h)"
      "tl (shrink_candidates a h)"] assms
  by (metis (no_types, lifting) list.exhaust_sel list.simps(15) shrink_choice_def)

definition positive_cells :: "allocation \<Rightarrow> string \<Rightarrow> nat" where
  "positive_cells a h = sum_list (map (\<lambda>w. nat (am_get a w h)) WORKER_TYPES)"

lemma positive_cells_shrink:
  assumes "w \<in> set (shrink_candidates a h)"
  shows "positive_cells (am_set a w h (am_get a w h - 1)) h < positive_cells a h"
proof -
  have pos: "0 < am_get a w h" and "w = ''pre'' \<or> w = ''attn'' \<or> w = ''ffn''"
    using assms by (auto simp: shrink_candidates_def)
  then show ?thesis
    by (elim disjE) (simp_all add: positive_cells_def WORKER_TYPES_def am_get_set)
qed

function fit_hardware :: "(string, real) dict \<Rightarrow> string \<Rightarrow> int \<Rightarrow> allocation \<Rightarrow> allocation" where
  "fit_hardware factors h cnt a =
     (if total_for_hardware a h \<le> cnt then a
      else if shrink_candidates a h = [] then a
      else let w = shrink_choice factors a h
           in fit_hardware factors h cnt (am_set a w h (am_get a w h - 1)))"
  by pat_completeness auto
termination
  by (relation "measure (\<lambda>(factors, h, cnt, a). positive_cells a h)")
    (auto intro: positive_cells_shrink shrink_choice_in)

declare fit_hardware.simps [simp del]

definition fit_allocation_to_capacity ::
    "allocation \<Rightarrow> capacity \<Rightarrow> (string, real) dict \<Rightarrow> allocation" where
  "fit_allocation_to_capacity a cap factors =
     foldl (\<lambda>a (h, cnt). fit_hardware factors h cnt a) a cap"

definition first_hardware_with_room :: "allocation \<Rightarrow> capacity \<Rightarrow> string option" where
  "first_hardware_with_room a cap = find (\<lambda>h. 0 < unused_for_hardware a cap h) (map fst cap)"

definition ensure_worker :: "capacity \<Rightarrow> allocation \<Rightarrow> string \<Rightarrow> allocation" where
  "ensure_worker cap a w =
     (if 0 < sum_list (map (am_get a w) (map fst cap)) then a
      else case first_hardware_with_room a cap of None \<Rightarrow> a
           | Some h \<Rightarrow> snd (am_add a w h 1 cap))"

definition ensure_non_empty_workers :: "allocation \<Rightarrow> capacity \<Rightarrow> allocation" where
  "ensure_non_empty_workers a cap = foldl (ensure_worker cap) a WORKER_TYPES"

section \<open>Quantisation of the decode workers\<close>

definition worker_total :: "allocation \<Rightarrow> string \<Rightarrow> int" where
  "worker_total a w = sum_list (map (am_get a w) (hardware_types a))"

text \<open>The \<open>while\<close> loop for one worker: one GPU per turn, on the first hardware with room.\<close>

fun place_gpus :: "capacity \<Rightarrow> string list \<Rightarrow> string \<Rightarrow> nat \<Rightarrow> allocation \<Rightarrow> allocation" where
  "place_gpus cap order w 0 a = a"
| "place_gpus cap order w (Suc n) a =
     (case find (\<lambda>h. 0 < unused_for_hardware a cap h) order of
        None \<Rightarrow> a
      | Some h \<Rightarrow> place_gpus cap order w n (snd (am_add a w h 1 cap)))"

definition hardware_order :: "allocation \<Rightarrow> capacity \<Rightarrow> string \<Rightarrow> string list" where
  "hardware_order a cap w = sort_key (\<lambda>h. (- am_get a w h, h)) (map fst cap)"

definition rebuild_allocation_with_worker_totals ::
    "allocation \<Rightarrow> capacity \<Rightarrow> (string, int) dict \<Rightarrow> allocation" where
  "rebuild_allocation_with_worker_totals a cap targets =
     foldl (\<lambda>rebuilt w. place_gpus cap (hardware_order a cap w) w
                         (nat (max 0 (dict_getd targets w 0))) rebuilt)
       (am_zeros (map fst cap)) WORKER_TYPES"

definition total_capacity :: "capacity \<Rightarrow> int" where
  "total_capacity cap = sum_list (map (\<lambda>(h, cnt). max 0 cnt) cap)"

definition gpu_choices :: "autoscaling_config \<Rightarrow> int list" where
  "gpu_choices c = sort (remdups (filter (\<lambda>n. 0 < n) (decode_worker_gpu_choices c)))"

definition valid_pairs :: "int list \<Rightarrow> int \<Rightarrow> (int \<times> int) list" where
  "valid_pairs choices cap_total =
     concat (map (\<lambda>attn. map (Pair attn) (filter (\<lambda>ffn. attn + ffn \<le> cap_total - 1) choices)) choices)"

definition pair_key :: "int \<Rightarrow> int \<Rightarrow> int \<times> int \<Rightarrow> int \<times> int \<times> int" where
  "pair_key da df p = (\<bar>fst p - da\<bar> + \<bar>snd p - df\<bar>, \<bar>(fst p + snd p) - (da + df)\<bar>, - min (fst p) (snd p))"

definition quantize_decode_worker_allocations ::
    "autoscaling_config \<Rightarrow> allocation \<Rightarrow> capacity \<Rightarrow> allocation" where
  "quantize_decode_worker_allocations c a cap =
     (let choices = gpu_choices c in
      if choices = [] then am_clone a
      else let cap_total = total_capacity cap; pairs = valid_pairs choices cap_total in
        if pairs = [] then am_clone a
        else let desired = (\<lambda>w. max 1 (worker_total a w));
                 (target_attn, target_ffn) =
                   min_key_from (pair_key (desired ''attn'') (desired ''ffn'')) (hd pairs) (tl pairs);
                 target_pre = min (max 1 (desired ''pre'')) (cap_total - target_attn - target_ffn)
             in rebuild_allocation_with_worker_totals a cap
                  [(''pre'', target_pre), (''attn'', target_attn), (''ffn'', target_ffn)])"

definition scaled_cells ::
    "(string, real) dict \<Rightarrow> plan \<Rightarrow> capacity \<Rightarrow> allocation" where
  "scaled_cells factors previous cap =
     foldl (\<lambda>a (w, h). let old = am_get (p_allocation previous) w h in
              if old \<le> 0 then a else am_set a w h \<lceil>of_int old * dict_getd factors w 1\<rceil>)
       (am_zeros (map fst cap)) (concat (map (\<lambda>w. map (Pair w) (map fst cap)) WORKER_TYPES))"

definition proportional_scale_allocation ::
    "autoscaling_config \<Rightarrow> workload_profile \<Rightarrow> plan \<Rightarrow> capacity \<Rightarrow> allocation" where
  "proportional_scale_allocation c wl previous cap =
     (let factors = worker_expansion_factors c wl previous;
          a1 = scaled_cells factors previous cap;
          a2 = fit_allocation_to_capacity a1 cap factors;
          a3 = ensure_non_empty_workers a2 cap
      in quantize_decode_worker_allocations c a3 cap)"

section \<open>Rescheduling\<close>

definition evaluate_allocation ::
    "framework \<Rightarrow> workload_profile \<Rightarrow> allocation \<Rightarrow> previous_parallelism \<Rightarrow> plan result" where
  "evaluate_allocation fw wl a pp =
     evaluate (ge_set_order (fw_env fw)) (ge_local (fw_env fw)) (ge_estimator (fw_env fw)) wl a pp"

text \<open>
  The first component of the result is the cache key when the plan is the cached object
  itself, so that a later write to its metadata reaches the cache.
\<close>

definition apply_autoscaling_allocation_constraints ::
    "framework \<Rightarrow> workload_profile \<Rightarrow> plan_key \<times> plan \<Rightarrow> plan \<Rightarrow> capacity \<Rightarrow>
     (plan_key option \<times> plan) result" where
  "apply_autoscaling_allocation_constraints fw wl kp previous cap =
     (case kp of (key, plan) \<Rightarrow>
        let constrained = quantize_decode_worker_allocations (fw_auto fw) (p_allocation plan) cap in
        if am_as_key constrained = am_as_key (p_allocation plan) then Inr (Some key, plan)
        else bind_result (evaluate_allocation fw wl constrained (Some (p_parallelism previous)))
          (\<lambda>cp. Inr (None, cp\<lparr>p_iterations := p_iterations plan,
             p_metadata := AList.update ''unconstrained_search_allocation''
               (MValues (am_values (p_allocation plan)))
               (foldl (\<lambda>d (k, v). AList.update k v d) (p_metadata cp) (p_metadata plan))\<rparr>)))"

definition reschedule ::
    "framework \<Rightarrow> workload_profile \<Rightarrow> plan \<Rightarrow> capacity \<Rightarrow> global_state \<Rightarrow> (plan \<times> global_state) result" where
  "reschedule fw wl previous cap gs =
     (let scaled = proportional_scale_allocation (fw_auto fw) wl previous cap in
      bind_result
        (if global_search_after_scaling (fw_auto fw)
         then bind_result (optimize_keyed (fw_env fw) wl cap (Some scaled) (Some previous) gs)
                (\<lambda>(kp, gs'). bind_result
                   (apply_autoscaling_allocation_constraints fw wl kp previous cap)
                   (\<lambda>res. Inr (res, gs')))
         else bind_result (evaluate_allocation fw wl scaled (Some (p_parallelism previous)))
                (\<lambda>p. Inr ((None, p), gs)))
        (\<lambda>((key, p), gs').
           let p' = p\<lparr>p_metadata := AList.update ''autoscaling''
                 (MAutoscaling (worker_expansion_factors (fw_auto fw) wl previous) (am_values scaled)
                   (fw_auto fw)) (p_metadata p)\<rparr>
           in Inr (p', case key of None \<Rightarrow> gs'
                       | Some k \<Rightarrow> gs'\<lparr>gs_cache := AList.update k p' (gs_cache gs')\<rparr>)))"

section \<open>Expansion\<close>

lemma worker_expansion_lookup:
  "w \<in> set WORKER_TYPES \<Longrightarrow> dict_getd (worker_expansion_factors c wl p) w d =
     expansion_factor c (arrival_rate wl) (dict_getd (p_throughput p) w 0)"
  by (auto simp: worker_expansion_factors_def WORKER_TYPES_def dict_getd_def)

text \<open>
  C11. The expansion factor of every worker type lies between the configured bounds. Inside
  the hysteresis band it is one; outside the band, when the bounds do not cut it off, scaling
  the throughput by the factor puts the utilisation exactly on the target.
\<close>

theorem worker_expansion_bounded:
  fixes wl :: workload_profile and p :: plan
  assumes "w \<in> set WORKER_TYPES" "min_scale_factor c \<le> max_scale_factor c"
  defines "f \<equiv> dict_getd (worker_expansion_factors c wl p) w 0"
    and "u \<equiv> arrival_rate wl / max (dict_getd (p_throughput p) w 0) (1 / 10 ^ 9)"
  shows "min_scale_factor c \<le> f \<and> f \<le> max_scale_factor c \<and>
    (\<bar>u - target_utilization c\<bar> \<le> hysteresis c \<and> min_scale_factor c \<le> 1 \<and> 1 \<le> max_scale_factor c
       \<longrightarrow> f = 1) \<and>
    (hysteresis c < \<bar>u - target_utilization c\<bar> \<and> 1 / 10 ^ 9 \<le> target_utilization c \<and>
     min_scale_factor c * target_utilization c \<le> u \<and> u \<le> max_scale_factor c * target_utilization c
       \<longrightarrow> f * target_utilization c = u)"
proof -
  have f: "f = (let factor = (if target_utilization c + hysteresis c < u then u / max (target_utilization c) (1 / 10 ^ 9)
      else if u < target_utilization c - hysteresis c then u / max (target_utilization c) (1 / 10 ^ 9) else 1)
      in min (max_scale_factor c) (max (min_scale_factor c) factor))"
    unfolding f_def u_def worker_expansion_lookup[OF assms(1)] by (simp add: expansion_factor_def Let_def)
  have "f = 1" if "\<bar>u - target_utilization c\<bar> \<le> hysteresis c" "min_scale_factor c \<le> 1" "1 \<le> max_scale_factor c"
    using that unfolding f Let_def by (auto simp: abs_le_iff)
  moreover have "f * target_utilization c = u"
    if h: "hysteresis c < \<bar>u - target_utilization c\<bar>" "1 / 10 ^ 9 \<le> target_utilization c"
      "min_scale_factor c * target_utilization c \<le> u" "u \<le> max_scale_factor c * target_utilization c"
  proof -
    let ?t = "target_utilization c"
    have t: "0 < ?t" using h(2) by (rule less_le_trans[rotated]) simp
    have "min_scale_factor c \<le> u / ?t" "u / ?t \<le> max_scale_factor c" using h(3,4) t by (simp_all add: field_simps)
    moreover have "max ?t (1 / 10 ^ 9) = ?t" using h(2) by (simp add: max_def)
    ultimately have "f = u / ?t" using h(1) unfolding f Let_def by (auto simp: abs_if split: if_splits)
    then show ?thesis using t by simp
  qed
  moreover have "min_scale_factor c \<le> f" "f \<le> max_scale_factor c" using assms(2) by (simp_all add: f Let_def)
  ultimately show ?thesis by blast
qed

definition default_autoscaling :: autoscaling_config where
  "default_autoscaling = \<lparr>target_utilization = 75 / 100, hysteresis = 8 / 100, min_scale_factor = 1 / 2,
     max_scale_factor = 2, decode_worker_gpu_choices = [1, 2, 4, 8], global_search_after_scaling = False\<rparr>"

definition sample_plan_with :: "throughput_profile \<Rightarrow> plan" where
  "sample_plan_with th = \<lparr>p_allocation = am_uniform [(''NVDA:H20'', 6)], p_parallelism = [], p_slice_plans = [],
     p_throughput = th, p_estimated_latency_s = PosInf, p_cost_per_hour = 0, p_req_per_dollar = 0,
     p_tail_latency_s = [], p_iterations = 0, p_metadata = []\<rparr>"

theorem worker_expansion_bounded_witness:
  "dict_getd (worker_expansion_factors default_autoscaling (sample_workload\<lparr>arrival_rate := 3\<rparr>)
     (sample_plan_with [(''attn'', 4), (''ffn'', 3)])) ''attn'' 0 = 1 \<and>
   dict_getd (worker_expansion_factors default_autoscaling (sample_workload\<lparr>arrival_rate := 3\<rparr>)
     (sample_plan_with [(''attn'', 4), (''ffn'', 3)])) ''ffn'' 0 * (75 / 100) = 1"
proof -
  let ?p = "sample_plan_with [(''attn'', 4), (''ffn'', 3)]" and ?wl = "sample_workload\<lparr>arrival_rate := 3\<rparr>"
  have "dict_getd (p_throughput ?p) ''attn'' 0 = 4" "dict_getd (p_throughput ?p) ''ffn'' 0 = 3"
    by (simp_all add: sample_plan_with_def dict_getd_def)
  then show ?thesis
    using worker_expansion_bounded[of "''attn''" default_autoscaling ?wl ?p]
      worker_expansion_bounded[of "''ffn''" default_autoscaling ?wl ?p]
    by (simp add: default_autoscaling_def sample_workload_def)
qed

section \<open>Fitting\<close>

definition cap_ok :: "capacity \<Rightarrow> bool" where
  "cap_ok cap \<longleftrightarrow> wf_dict cap \<and> (\<forall>(h, n) \<in> set cap. 0 \<le> n)"

lemma shrink_candidates_types: "w \<in> set (shrink_candidates a h) \<Longrightarrow> w \<in> set WORKER_TYPES \<and> 0 < am_get a w h"
  by (simp add: shrink_candidates_def)

lemma fit_hardware_spec:
  assumes "wf_alloc a"
  shows "wf_alloc (fit_hardware factors h cnt a) \<and>
    total_for_hardware (fit_hardware factors h cnt a) h \<le> max 0 cnt \<and>
    (\<forall>w h'. h' \<noteq> h \<longrightarrow> am_get (fit_hardware factors h cnt a) w h' = am_get a w h') \<and>
    (\<forall>w h'. am_get (fit_hardware factors h cnt a) w h' \<le> am_get a w h')"
  using assms
proof (induction factors h cnt a rule: fit_hardware.induct)
  case (1 factors h cnt a)
  let ?w = "shrink_choice factors a h"
  let ?a = "am_set a ?w h (am_get a ?w h - 1)"
  show ?case
  proof (cases "total_for_hardware a h \<le> cnt")
    case True
    then show ?thesis using 1 by (simp add: fit_hardware.simps[of factors h cnt a])
  next
    case big: False
    show ?thesis
    proof (cases "shrink_candidates a h = []")
      case True
      then have "am_get a w h \<le> 0" if "w \<in> set WORKER_TYPES" for w
        using that by (auto simp: shrink_candidates_def filter_empty_conv)
      then have "total_for_hardware a h \<le> 0" by (simp add: total_for_hardware_alt add_nonpos_nonpos)
      then show ?thesis using 1 big True by (simp add: fit_hardware.simps[of factors h cnt a])
    next
      case False
      have w: "?w \<in> set WORKER_TYPES" "0 < am_get a ?w h"
        using shrink_candidates_types[OF shrink_choice_in[OF False]] by auto
      have eq: "fit_hardware factors h cnt a = fit_hardware factors h cnt ?a"
        using big False by (simp add: fit_hardware.simps[of factors h cnt a] Let_def)
      have "wf_alloc ?a" using "1.prems" w(1) by (rule wf_alloc_set)
      note IH = "1.IH"[OF big False refl this]
      have "am_get ?a w' h' \<le> am_get a w' h'" for w' h' using w(2) by (simp add: am_get_set)
      then have "am_get (fit_hardware factors h cnt ?a) w' h' \<le> am_get a w' h'" for w' h'
        using IH by (meson order_trans)
      moreover have "h' \<noteq> h \<Longrightarrow> am_get (fit_hardware factors h cnt ?a) w' h' = am_get a w' h'" for w' h'
        using IH by (simp add: am_get_set)
      ultimately show ?thesis using IH unfolding eq by blast
    qed
  qed
qed

lemma fit_allocation_spec:
  assumes "wf_alloc a" "cap_ok cap"
  shows "wf_alloc (fit_allocation_to_capacity a cap factors) \<and>
    within_capacity (fit_allocation_to_capacity a cap factors) cap \<and>
    (\<forall>w h. am_get (fit_allocation_to_capacity a cap factors) w h \<le> am_get a w h)"
proof -
  let ?fit = "foldl (\<lambda>a (h, cnt). fit_hardware factors h cnt a)"
  have "wf_alloc (?fit a items) \<and> (\<forall>(h, n) \<in> set items. total_for_hardware (?fit a items) h \<le> max 0 n) \<and>
      (\<forall>w h. am_get (?fit a items) w h \<le> am_get a w h)" if "distinct (map fst items)" for items
    using that
  proof (induction items rule: rev_induct)
    case (snoc x items)
    obtain h n where x: "x = (h, n)" by (cases x)
    let ?a = "?fit a items"
    have IH: "wf_alloc ?a" "\<And>h n. (h, n) \<in> set items \<Longrightarrow> total_for_hardware ?a h \<le> max 0 n"
        "\<And>w h. am_get ?a w h \<le> am_get a w h"
      using snoc by auto
    note fit = fit_hardware_spec[OF IH(1), of factors h n]
    have "total_for_hardware (fit_hardware factors h n ?a) h' = total_for_hardware ?a h'" if "h' \<noteq> h" for h'
      using fit that by (simp add: total_for_hardware_alt)
    moreover have "h' \<noteq> h" if "(h', n') \<in> set items" for h' n' using that snoc.prems by (force simp: x)
    ultimately have "total_for_hardware (fit_hardware factors h n ?a) h' \<le> max 0 n'" if "(h', n') \<in> set items" for h' n'
      using IH(2)[OF that] that by metis
    moreover have "am_get (fit_hardware factors h n ?a) w h' \<le> am_get a w h'" for w h'
      using fit IH(3) by (meson order_trans)
    ultimately show ?case using fit by (auto simp: x)
  qed (simp add: assms(1))
  then have fitted: "wf_alloc (?fit a cap)" "\<forall>(h, n) \<in> set cap. total_for_hardware (?fit a cap) h \<le> max 0 n"
      "\<forall>w h. am_get (?fit a cap) w h \<le> am_get a w h"
    using assms(2) by (simp_all add: cap_ok_def wf_dict_def)
  have "within_capacity (?fit a cap) cap"
    using fitted(2) assms(2) by (fastforce simp: within_capacity_def list_all_iff cap_ok_def)
  then show ?thesis using fitted(1,3) by (simp add: fit_allocation_to_capacity_def)
qed

lemma ensure_non_empty_spec:
  assumes "wf_alloc a" "cap_ok cap" "within_capacity a cap"
  shows "wf_alloc (ensure_non_empty_workers a cap) \<and> within_capacity (ensure_non_empty_workers a cap) cap"
proof -
  have step: "wf_alloc (ensure_worker cap a w) \<and> within_capacity (ensure_worker cap a w) cap"
    if "wf_alloc a" "within_capacity a cap" for a w
  proof (cases "first_hardware_with_room a cap")
    case None
    then show ?thesis using that by (simp add: ensure_worker_def)
  next
    case (Some h)
    obtain b a' where add: "am_add a w h 1 cap = (b, a')" by (cases "am_add a w h 1 cap")
    have "wf_dict cap" using assms(2) by (simp add: cap_ok_def)
    from within_capacity_add[OF that(1) this that(2) add] show ?thesis
      using that by (simp add: ensure_worker_def Some add)
  qed
  have "wf_alloc a \<and> within_capacity a cap \<Longrightarrow>
      wf_alloc (foldl (ensure_worker cap) a ws) \<and> within_capacity (foldl (ensure_worker cap) a ws) cap" for ws a
    using step by (induction ws arbitrary: a) auto
  then show ?thesis using assms by (simp add: ensure_non_empty_workers_def)
qed

section \<open>Rebuilding with given totals\<close>

text \<open>The rows of a rebuilt matrix list the hardware of the capacity, in its order.\<close>

definition rows_of :: "allocation \<Rightarrow> capacity \<Rightarrow> bool" where
  "rows_of a cap \<longleftrightarrow> (\<forall>w \<in> set WORKER_TYPES. map fst (am_row a w) = map fst cap)"

lemma dedup_from_append: "distinct (s @ xs) \<Longrightarrow> dedup_from s xs = s @ xs"
proof (induction xs arbitrary: s)
  case (Cons x xs)
  then have "x \<notin> set s" "distinct ((s @ [x]) @ xs)" by auto
  then show ?case using Cons.IH[of "s @ [x]"] by (simp add: dedup_from_Cons)
qed simp

lemma dedup_from_subset: "set xs \<subseteq> set s \<Longrightarrow> dedup_from s xs = s"
  by (induction xs) (auto simp: dedup_from_Cons)

lemma rows_of_hardware: "rows_of a cap \<Longrightarrow> wf_dict cap \<Longrightarrow> hardware_types a = map fst cap"
  using dedup_from_append[of "[]" "map fst cap"]
  by (simp add: rows_of_def hardware_types_def WORKER_TYPES_def wf_dict_def dedup_from_subset)

lemma rows_of_zeros: "wf_dict cap \<Longrightarrow> rows_of (am_zeros (map fst cap)) cap"
  by (simp add: rows_of_def am_row_zeros dict_comp_distinct wf_dict_def comp_def)

lemma rows_of_set: "rows_of a cap \<Longrightarrow> h \<in> fst ` set cap \<Longrightarrow> rows_of (am_set a w h v) cap"
proof -
  assume "rows_of a cap" "h \<in> fst ` set cap"
  then have "h \<in> fst ` set (am_row a w')" if "w' \<in> set WORKER_TYPES" for w'
    using that by (metis rows_of_def list.set_map)
  then show ?thesis
    using \<open>rows_of a cap\<close> by (auto simp: rows_of_def am_set_def am_row_put update_keys_present)
qed

definition sum_over :: "allocation \<Rightarrow> capacity \<Rightarrow> string \<Rightarrow> int" where
  "sum_over a cap w = sum_list (map (am_get a w) (map fst cap))"

lemma worker_total_rows: "rows_of a cap \<Longrightarrow> wf_dict cap \<Longrightarrow> worker_total a w = sum_over a cap w"
  by (simp add: worker_total_def rows_of_hardware sum_over_def)

lemma sum_list_single_change:
  fixes f g :: "'a \<Rightarrow> int"
  assumes "distinct xs" "x \<in> set xs" "\<And>y. y \<in> set xs \<Longrightarrow> g y = f y + (if y = x then d else 0)"
  shows "sum_list (map g xs) = sum_list (map f xs) + d"
  using assms
proof (induction xs)
  case (Cons y ys)
  show ?case
  proof (cases "y = x")
    case True
    then have "map g ys = map f ys" using Cons.prems by (intro map_cong) auto
    then have "sum_list (map g ys) = sum_list (map f ys)" by (rule arg_cong)
    then show ?thesis using Cons.prems(3)[of y] True by simp
  next
    case False
    then show ?thesis using Cons by simp
  qed
qed simp

lemma sum_list_zero: "(\<And>x. x \<in> set xs \<Longrightarrow> f x = (0::int)) \<Longrightarrow> sum_list (map f xs) = 0"
  by (induction xs) auto

text \<open>One GPU placed on hardware with room.\<close>

lemma add_one:
  assumes "wf_alloc a" "cap_ok cap" "within_capacity a cap" "rows_of a cap" "w \<in> set WORKER_TYPES"
    and "h \<in> fst ` set cap" "0 < unused_for_hardware a cap h"
  defines "a1 \<equiv> snd (am_add a w h 1 cap)"
  shows "wf_alloc a1" "within_capacity a1 cap" "rows_of a1 cap" "sum_over a1 cap w = sum_over a cap w + 1"
    "w' \<noteq> w \<Longrightarrow> sum_over a1 cap w' = sum_over a cap w'" "total_unused a1 cap = total_unused a cap - 1"
proof -
  have d: "distinct (map fst cap)" "wf_dict cap" using assms(2) by (simp_all add: cap_ok_def wf_dict_def)
  have add: "am_add a w h 1 cap = (True, am_set a w h (am_get a w h + 1))"
    using assms(5,7) by (simp add: am_add_def)
  then have a1: "a1 = am_set a w h (am_get a w h + 1)" by (simp add: a1_def)
  note tot = total_add[OF assms(1) add, folded a1]
  have "0 \<le> am_get a w h" using wf_alloc_get_nonneg[OF assms(1)] .
  then have get: "am_get a1 v k = am_get a v k + (if v = w \<and> k = h then 1 else 0)" for v k
    by (simp add: a1 am_get_set)
  show "wf_alloc a1" using tot(1) .
  show "within_capacity a1 cap" using within_capacity_add[OF assms(1) d(2) assms(3) add] a1 by simp
  show "rows_of a1 cap" unfolding a1 using assms(4,6) by (rule rows_of_set)
  show "sum_over a1 cap w = sum_over a cap w + 1"
    unfolding sum_over_def using d(1) assms(6) by (intro sum_list_single_change) (auto simp: get)
  show "w' \<noteq> w \<Longrightarrow> sum_over a1 cap w' = sum_over a cap w'"
    unfolding sum_over_def by (intro arg_cong[where f = sum_list] map_cong) (simp_all add: get)
  have un: "unused_for_hardware a1 cap k = unused_for_hardware a cap k + (if k = h then -1 else 0)" for k
    using assms(7) tot(2)[of k] tot(3) by (auto simp: unused_for_hardware_def)
  show "total_unused a1 cap = total_unused a cap - 1"
    unfolding total_unused_def using sum_list_single_change[OF d(1) _ un] assms(6) by simp
qed

lemma find_room_None:
  assumes "find (\<lambda>h. 0 < unused_for_hardware a cap h) order = None" "set order = fst ` set cap"
  shows "total_unused a cap = 0"
proof -
  have "unused_for_hardware a cap h = 0" if "h \<in> set (map fst cap)" for h
    using assms that by (auto simp: find_None_iff unused_for_hardware_def)
  then show ?thesis unfolding total_unused_def by (rule sum_list_zero)
qed

definition placed :: "capacity \<Rightarrow> string \<Rightarrow> nat \<Rightarrow> allocation \<Rightarrow> allocation \<Rightarrow> bool" where
  "placed cap w n a a' \<longleftrightarrow> wf_alloc a' \<and> within_capacity a' cap \<and> rows_of a' cap \<and>
     sum_over a' cap w = sum_over a cap w + min (int n) (total_unused a cap) \<and>
     (\<forall>w'. w' \<noteq> w \<longrightarrow> sum_over a' cap w' = sum_over a cap w') \<and>
     total_unused a' cap = total_unused a cap - min (int n) (total_unused a cap)"

lemma total_unused_nonneg: "0 \<le> total_unused a cap"
  unfolding total_unused_def by (rule sum_list_nonneg_map) (simp add: unused_for_hardware_def)

lemma place_gpus_placed:
  assumes "cap_ok cap" "w \<in> set WORKER_TYPES" "set order = fst ` set cap"
  shows "wf_alloc a \<Longrightarrow> within_capacity a cap \<Longrightarrow> rows_of a cap \<Longrightarrow>
    placed cap w n a (place_gpus cap order w n a)"
proof (induction n arbitrary: a)
  case 0
  then show ?case using total_unused_nonneg[of a cap] by (simp add: placed_def)
next
  case (Suc n)
  show ?case
  proof (cases "find (\<lambda>h. 0 < unused_for_hardware a cap h) order")
    case None
    then show ?thesis using find_room_None[OF None assms(3)] Suc.prems by (simp add: placed_def)
  next
    case (Some h)
    then have h: "h \<in> fst ` set cap" "0 < unused_for_hardware a cap h"
      using assms(3) by (auto simp: find_Some_iff)
    let ?a1 = "snd (am_add a w h 1 cap)"
    note one = add_one[OF Suc.prems(1) assms(1) Suc.prems(2,3) assms(2) h]
    have "placed cap w n ?a1 (place_gpus cap order w n ?a1)" using Suc.IH[OF one(1-3)] .
    moreover have "0 < total_unused a cap" using one(6) total_unused_nonneg[of ?a1 cap] by linarith
    ultimately show ?thesis using one(4-6) by (simp add: placed_def Some min_def split: if_splits)
  qed
qed

lemma total_unused_zeros:
  assumes "cap_ok cap"
  shows "total_unused (am_zeros (map fst cap)) cap = total_capacity cap"
proof -
  have "unused_for_hardware (am_zeros (map fst cap)) cap h = max 0 n" if "(h, n) \<in> set cap" for h n
    using that assms by (simp add: unused_for_hardware_def cap_ok_def dict_getd_def wf_dict_map_of)
  then have "map (\<lambda>h. unused_for_hardware (am_zeros (map fst cap)) cap h) (map fst cap) =
      map (\<lambda>(h, n). max 0 n) cap" by auto
  then show ?thesis unfolding total_unused_def total_capacity_def by (rule arg_cong)
qed

lemma rebuild_totals:
  fixes a :: allocation
  assumes cap: "cap_ok cap" and t: "0 \<le> p" "0 \<le> q" "0 \<le> r" "p + q + r \<le> total_capacity cap"
  defines "a' \<equiv> rebuild_allocation_with_worker_totals a cap [(''pre'', p), (''attn'', q), (''ffn'', r)]"
  shows "wf_alloc a'" "within_capacity a' cap"
    "worker_total a' ''pre'' = p" "worker_total a' ''attn'' = q" "worker_total a' ''ffn'' = r"
proof -
  have wf: "wf_dict cap" using cap by (simp add: cap_ok_def)
  let ?z = "am_zeros (map fst cap)" and ?o = "hardware_order a cap"
  have order: "set (?o w) = fst ` set cap" for w by (simp add: hardware_order_def)
  have z: "within_capacity ?z cap" "rows_of ?z cap" "total_unused ?z cap = total_capacity cap"
      "\<And>w. sum_over ?z cap w = 0"
    using cap rows_of_zeros[OF wf] total_unused_zeros[OF cap]
    by (auto simp: within_capacity_def list_all_iff cap_ok_def sum_over_def intro!: sum_list_zero)
  define a1 where "a1 = place_gpus cap (?o ''pre'') ''pre'' (nat p) ?z"
  define a2 where "a2 = place_gpus cap (?o ''attn'') ''attn'' (nat q) a1"
  have a': "a' = place_gpus cap (?o ''ffn'') ''ffn'' (nat r) a2"
    using t(1-3) by (simp add: a'_def rebuild_allocation_with_worker_totals_def WORKER_TYPES_def a1_def a2_def
        dict_getd_def)
  have p1: "placed cap ''pre'' (nat p) ?z a1"
    unfolding a1_def using z by (intro place_gpus_placed[OF cap _ order]) auto
  have p2: "placed cap ''attn'' (nat q) a1 a2"
    unfolding a2_def using p1 by (intro place_gpus_placed[OF cap _ order]) (auto simp: placed_def)
  have p3: "placed cap ''ffn'' (nat r) a2 a'"
    unfolding a' using p2 by (intro place_gpus_placed[OF cap _ order]) (auto simp: placed_def)
  have u: "total_unused a1 cap = total_capacity cap - p" "total_unused a2 cap = total_capacity cap - p - q"
    using p1 p2 z(3) t by (simp_all add: placed_def)
  have s: "sum_over a' cap ''pre'' = p" "sum_over a' cap ''attn'' = q" "sum_over a' cap ''ffn'' = r"
    using p1 p2 p3 z(3,4) u t by (simp_all add: placed_def)
  have rows: "rows_of a' cap" using p3 by (simp add: placed_def)
  show "wf_alloc a'" "within_capacity a' cap" using p3 by (simp_all add: placed_def)
  show "worker_total a' ''pre'' = p" "worker_total a' ''attn'' = q" "worker_total a' ''ffn'' = r"
    using worker_total_rows[OF rows wf] s by simp_all
qed

section \<open>Quantisation\<close>

lemma set_valid_pairs:
  "(x, y) \<in> set (valid_pairs choices n) \<longleftrightarrow> x \<in> set choices \<and> y \<in> set choices \<and> x + y \<le> n - 1"
  by (auto simp: valid_pairs_def)

lemma gpu_choices_pos: "n \<in> set (gpu_choices c) \<Longrightarrow> 0 < n \<and> n \<in> set (decode_worker_gpu_choices c)"
  by (simp add: gpu_choices_def)

definition quantize_pairs :: "autoscaling_config \<Rightarrow> capacity \<Rightarrow> (int \<times> int) list" where
  "quantize_pairs c cap = valid_pairs (gpu_choices c) (total_capacity cap)"

lemma quantize_rebuilds:
  assumes "quantize_pairs c cap \<noteq> []"
  obtains q r where "(q, r) \<in> set (quantize_pairs c cap)"
    "\<And>x y. (x, y) \<in> set (quantize_pairs c cap) \<Longrightarrow>
       \<bar>q - max 1 (worker_total a ''attn'')\<bar> + \<bar>r - max 1 (worker_total a ''ffn'')\<bar>
       \<le> \<bar>x - max 1 (worker_total a ''attn'')\<bar> + \<bar>y - max 1 (worker_total a ''ffn'')\<bar>"
    "quantize_decode_worker_allocations c a cap = rebuild_allocation_with_worker_totals a cap
       [(''pre'', min (max 1 (worker_total a ''pre'')) (total_capacity cap - q - r)), (''attn'', q), (''ffn'', r)]"
proof -
  let ?ps = "quantize_pairs c cap"
  let ?key = "pair_key (max 1 (worker_total a ''attn'')) (max 1 (worker_total a ''ffn''))"
  obtain q r where qr: "min_key_from ?key (hd ?ps) (tl ?ps) = (q, r)"
    by (cases "min_key_from ?key (hd ?ps) (tl ?ps)")
  have ps: "insert (hd ?ps) (set (tl ?ps)) = set ?ps" using assms by (cases ?ps) auto
  have mem: "(q, r) \<in> set ?ps" using min_key_from_in[of ?key "hd ?ps" "tl ?ps"] qr ps by simp
  have least: "?key (q, r) \<le> ?key (x, y)" if "(x, y) \<in> set ?ps" for x y
    using min_key_from_le[of "(x, y)" "hd ?ps" "tl ?ps" ?key] that qr ps by simp
  have "gpu_choices c \<noteq> []" using mem by (auto simp: quantize_pairs_def set_valid_pairs)
  then have "quantize_decode_worker_allocations c a cap = rebuild_allocation_with_worker_totals a cap
       [(''pre'', min (max 1 (max 1 (worker_total a ''pre''))) (total_capacity cap - q - r)), (''attn'', q), (''ffn'', r)]"
    using assms qr unfolding quantize_decode_worker_allocations_def Let_def quantize_pairs_def[symmetric] by simp
  moreover have "fst (?key (q, r)) \<le> fst (?key (x, y))" if "(x, y) \<in> set ?ps" for x y
    using least[OF that] by (auto simp: less_eq_prod_def)
  ultimately show ?thesis using that[OF mem] by (simp add: pair_key_def)
qed

lemma quantize_spec:
  fixes a :: allocation
  assumes "cap_ok cap" "quantize_pairs c cap \<noteq> []"
  defines "a' \<equiv> quantize_decode_worker_allocations c a cap"
  shows "wf_alloc a' \<and> within_capacity a' cap \<and>
    (worker_total a' ''attn'', worker_total a' ''ffn'') \<in> set (quantize_pairs c cap) \<and>
    worker_total a' ''pre'' = min (max 1 (worker_total a ''pre''))
       (total_capacity cap - worker_total a' ''attn'' - worker_total a' ''ffn'') \<and>
    1 \<le> worker_total a' ''pre'' \<and>
    (\<forall>(x, y) \<in> set (quantize_pairs c cap).
       \<bar>worker_total a' ''attn'' - max 1 (worker_total a ''attn'')\<bar> +
       \<bar>worker_total a' ''ffn'' - max 1 (worker_total a ''ffn'')\<bar>
       \<le> \<bar>x - max 1 (worker_total a ''attn'')\<bar> + \<bar>y - max 1 (worker_total a ''ffn'')\<bar>)"
proof -
  obtain q r where qr: "(q, r) \<in> set (quantize_pairs c cap)"
    "\<And>x y. (x, y) \<in> set (quantize_pairs c cap) \<Longrightarrow>
       \<bar>q - max 1 (worker_total a ''attn'')\<bar> + \<bar>r - max 1 (worker_total a ''ffn'')\<bar>
       \<le> \<bar>x - max 1 (worker_total a ''attn'')\<bar> + \<bar>y - max 1 (worker_total a ''ffn'')\<bar>"
    "a' = rebuild_allocation_with_worker_totals a cap
       [(''pre'', min (max 1 (worker_total a ''pre'')) (total_capacity cap - q - r)), (''attn'', q), (''ffn'', r)]"
    unfolding a'_def by (rule quantize_rebuilds[OF assms(2)]) blast
  let ?p = "min (max 1 (worker_total a ''pre'')) (total_capacity cap - q - r)"
  have pos: "0 < q" "0 < r" "q + r \<le> total_capacity cap - 1"
    using qr(1) gpu_choices_pos by (auto simp: quantize_pairs_def set_valid_pairs)
  then have p: "1 \<le> ?p" "?p + q + r \<le> total_capacity cap" by auto
  note tot = rebuild_totals[OF assms(1), of ?p q r a, folded qr(3)]
  have "wf_alloc a'" "within_capacity a' cap" "worker_total a' ''pre'' = ?p" "worker_total a' ''attn'' = q"
      "worker_total a' ''ffn'' = r"
    using tot p pos by auto
  then show ?thesis using qr(1,2) p(1) by auto
qed

text \<open>
  Quantisation of the decode workers. When some pair of allowed decode GPU counts leaves
  at least one GPU for prefill, \<open>_quantize_decode_worker_allocations\<close> returns a valid matrix in
  which attention and FFN hold exactly such a pair, the closest one to the desired totals; the
  prefill workers get at least one GPU and never more than desired, as far as the rest of the
  capacity goes.
\<close>

theorem quantize_meets_closest_pair:
  assumes "cap_ok cap" "quantize_pairs c cap \<noteq> []"
  shows "\<exists>a'. quantize_decode_worker_allocations c a cap = a' \<and> am_validate a' cap = Inr () \<and>
    worker_total a' ''attn'' \<in> set (decode_worker_gpu_choices c) \<and>
    worker_total a' ''ffn'' \<in> set (decode_worker_gpu_choices c) \<and>
    worker_total a' ''pre'' = min (max 1 (worker_total a ''pre''))
       (total_capacity cap - worker_total a' ''attn'' - worker_total a' ''ffn'') \<and>
    1 \<le> worker_total a' ''pre'' \<and>
    (\<forall>(x, y) \<in> set (quantize_pairs c cap).
       \<bar>worker_total a' ''attn'' - max 1 (worker_total a ''attn'')\<bar> +
       \<bar>worker_total a' ''ffn'' - max 1 (worker_total a ''ffn'')\<bar>
       \<le> \<bar>x - max 1 (worker_total a ''attn'')\<bar> + \<bar>y - max 1 (worker_total a ''ffn'')\<bar>)"
proof -
  note q = quantize_spec[OF assms, of a]
  then have "am_validate (quantize_decode_worker_allocations c a cap) cap = Inr ()" by (simp add: validate_wf)
  moreover have "x \<in> set (decode_worker_gpu_choices c) \<and> y \<in> set (decode_worker_gpu_choices c)"
    if "(x, y) \<in> set (quantize_pairs c cap)" for x y
    using that gpu_choices_pos by (auto simp: quantize_pairs_def set_valid_pairs)
  ultimately show ?thesis using q by blast
qed

lemma sample_pairs: "quantize_pairs default_autoscaling [(''NVDA:H20'', 6)] \<noteq> []"
proof -
  have "1 \<in> set (gpu_choices default_autoscaling)" by (simp add: gpu_choices_def default_autoscaling_def)
  then have "(1, 1) \<in> set (quantize_pairs default_autoscaling [(''NVDA:H20'', 6)])"
    by (simp add: quantize_pairs_def set_valid_pairs total_capacity_def)
  then show ?thesis by auto
qed

theorem quantize_meets_closest_pair_witness:
  "cap_ok [(''NVDA:H20'', 6)] \<and> (\<exists>a'. quantize_decode_worker_allocations default_autoscaling
     (am_uniform [(''NVDA:H20'', 6)]) [(''NVDA:H20'', 6)] = a' \<and>
     am_validate a' [(''NVDA:H20'', 6)] = Inr () \<and> worker_total a' ''attn'' \<in> {1, 2, 4, 8} \<and>
     1 \<le> worker_total a' ''pre'')"
proof -
  have cap: "cap_ok [(''NVDA:H20'', 6)]" by (simp add: cap_ok_def wf_dict_def)
  have "set (decode_worker_gpu_choices default_autoscaling) = {1, 2, 4, 8}" by (simp add: default_autoscaling_def)
  then show ?thesis
    using quantize_meets_closest_pair[OF cap sample_pairs, of "am_uniform [(''NVDA:H20'', 6)]"] cap
    unfolding Let_def by blast
qed

section \<open>Rescheduling\<close>

lemma quantize_safe:
  assumes "cap_ok cap" "wf_alloc a" "within_capacity a cap"
  shows "wf_alloc (quantize_decode_worker_allocations c a cap) \<and>
    within_capacity (quantize_decode_worker_allocations c a cap) cap"
proof (cases "quantize_pairs c cap = []")
  case True
  then have "quantize_decode_worker_allocations c a cap = a"
    by (simp add: quantize_decode_worker_allocations_def quantize_pairs_def Let_def)
  then show ?thesis using assms by simp
qed (use quantize_spec[OF assms(1), of c a] in blast)

lemma slice_keys_workers: "fst ` set (concat (map (\<lambda>w. map (Pair w) hs) ws)) \<subseteq> set ws"
  by auto

lemma scaled_cells_wf: "wf_alloc (scaled_cells factors p cap)"
proof -
  let ?f = "\<lambda>a (w, h). let old = am_get (p_allocation p) w h in
      if old \<le> 0 then a else am_set a w h \<lceil>of_int old * dict_getd factors w 1\<rceil>"
  have step: "wf_alloc (?f a k)" if "wf_alloc a" "fst k \<in> set WORKER_TYPES" for a k
    using that by (cases k) (simp add: Let_def)
  have "wf_alloc a \<Longrightarrow> fst ` set ks \<subseteq> set WORKER_TYPES \<Longrightarrow> wf_alloc (foldl ?f a ks)" for a ks
  proof (induction ks arbitrary: a)
    case (Cons k ks)
    have "wf_alloc (?f a k)" by (rule step) (use Cons.prems in simp_all)
    moreover have "fst ` set ks \<subseteq> set WORKER_TYPES" using Cons.prems(2) by simp
    ultimately show ?case using Cons.IH by simp
  qed simp
  from this[OF wf_alloc_zeros slice_keys_workers] show ?thesis unfolding scaled_cells_def .
qed

lemma proportional_scale_safe:
  assumes "cap_ok cap"
  shows "wf_alloc (proportional_scale_allocation c wl p cap) \<and>
    within_capacity (proportional_scale_allocation c wl p cap) cap"
proof -
  let ?f = "worker_expansion_factors c wl p"
  let ?a2 = "fit_allocation_to_capacity (scaled_cells ?f p cap) cap ?f"
  have "wf_alloc ?a2" "within_capacity ?a2 cap"
    using fit_allocation_spec[OF scaled_cells_wf assms] by blast+
  then have "wf_alloc (ensure_non_empty_workers ?a2 cap)" "within_capacity (ensure_non_empty_workers ?a2 cap) cap"
    using ensure_non_empty_spec[OF _ assms] by blast+
  then show ?thesis unfolding proportional_scale_allocation_def Let_def by (rule quantize_safe[OF assms])
qed

text \<open>The decode totals of an allocation are an allowed pair.\<close>

definition decode_quantized :: "autoscaling_config \<Rightarrow> capacity \<Rightarrow> allocation \<Rightarrow> bool" where
  "decode_quantized c cap a \<longleftrightarrow> (quantize_pairs c cap \<noteq> [] \<longrightarrow>
     (worker_total a ''attn'', worker_total a ''ffn'') \<in> set (quantize_pairs c cap) \<and> 1 \<le> worker_total a ''pre'')"

lemma quantize_decode_quantized:
  "cap_ok cap \<Longrightarrow> decode_quantized c cap (quantize_decode_worker_allocations c a cap)"
  unfolding decode_quantized_def using quantize_spec[of cap c a] by blast

lemma proportional_scale_quantized:
  "cap_ok cap \<Longrightarrow> decode_quantized c cap (proportional_scale_allocation c wl p cap)"
  unfolding proportional_scale_allocation_def Let_def by (rule quantize_decode_quantized)

lemma evaluate_allocation_ok:
  assumes "env_ok (fw_env fw)" "previous_ok pp" "wf_alloc a"
  obtains p where "evaluate_allocation fw wl a pp = Inr p" "p_allocation p = a" "plan_ok (fw_env fw) p"
proof -
  have order: "\<And>xs. set (ge_set_order (fw_env fw) xs) = set xs" using assms(1) by (simp add: env_ok_def)
  obtain p :: plan where "evaluate (ge_set_order (fw_env fw)) (ge_local (fw_env fw)) (ge_estimator (fw_env fw)) wl a pp = Inr p"
      "p_allocation p = a" "strategies_fit (ge_local (fw_env fw)) a (p_parallelism p)"
    using evaluate_fit[OF assms(2) order] by blast
  then show ?thesis using that assms(3) by (simp add: evaluate_allocation_def plan_ok_def)
qed

lemma as_key_worker_total:
  assumes "wf_alloc a" "wf_alloc b" "am_as_key a = am_as_key b"
  shows "worker_total a w = worker_total b w"
proof -
  have rows: "set (am_row a w) = set (am_row b w)" if "w \<in> set WORKER_TYPES" for w
  proof -
    have "sort (am_row a w) = sort (am_row b w)" using assms(3) that by (auto simp: am_as_key_def)
    then show ?thesis by (metis set_sort)
  qed
  have hw: "set (hardware_types c) = (\<Union>w \<in> set WORKER_TYPES. fst ` set (am_row c w))" for c
    by (simp add: hardware_types_def WORKER_TYPES_def Un_assoc)
  have "set (hardware_types a) = set (hardware_types b)"
    unfolding hw by (intro SUP_cong refl arg_cong[where f = "image fst"] rows)
  then show ?thesis
    unfolding worker_total_def using am_as_key_get[OF assms] distinct_hardware_types
    by (simp add: sum_list_distinct_conv_sum_set)
qed

lemma apply_constraints_ok:
  assumes "env_ok (fw_env fw)" "cap_ok cap" "previous_ok (Some (p_parallelism previous))"
    and "plan_ok (fw_env fw) p" "am_validate (p_allocation p) cap = Inr ()"
  obtains k' p' where "apply_autoscaling_allocation_constraints fw wl (k, p) previous cap = Inr (k', p')"
    "plan_ok (fw_env fw) p'" "within_capacity (p_allocation p') cap"
    "decode_quantized (fw_auto fw) cap (p_allocation p')" "k' = Some k \<and> p' = p \<or> k' = None"
proof -
  let ?q = "quantize_decode_worker_allocations (fw_auto fw) (p_allocation p) cap"
  have wf: "wf_alloc (p_allocation p)" using assms(4) by (simp add: plan_ok_def)
  then have fit: "within_capacity (p_allocation p) cap" using assms(5) by (simp add: validate_wf)
  note q = quantize_safe[OF assms(2) wf fit, of "fw_auto fw"]
  note dq = quantize_decode_quantized[OF assms(2), of "fw_auto fw" "p_allocation p"]
  show ?thesis
  proof (cases "am_as_key ?q = am_as_key (p_allocation p)")
    case True
    then have "worker_total ?q w = worker_total (p_allocation p) w" for w
      using as_key_worker_total q wf by blast
    then have "decode_quantized (fw_auto fw) cap (p_allocation p)" using dq by (simp add: decode_quantized_def)
    then show ?thesis
      using that[of "Some k" p] True assms(4) fit
      by (simp add: apply_autoscaling_allocation_constraints_def Let_def)
  next
    case False
    obtain cp where cp: "evaluate_allocation fw wl ?q (Some (p_parallelism previous)) = Inr cp"
        "p_allocation cp = ?q" "plan_ok (fw_env fw) cp"
      using evaluate_allocation_ok[OF assms(1,3)] q by blast
    let ?cp = "cp\<lparr>p_iterations := p_iterations p, p_metadata := AList.update ''unconstrained_search_allocation''
        (MValues (am_values (p_allocation p))) (foldl (\<lambda>d (k, v). AList.update k v d) (p_metadata cp) (p_metadata p))\<rparr>"
    have "apply_autoscaling_allocation_constraints fw wl (k, p) previous cap = Inr (None, ?cp)"
      using False cp(1) by (simp add: apply_autoscaling_allocation_constraints_def Let_def)
    then show ?thesis by (rule that) (use cp q dq in \<open>simp_all add: plan_ok_def\<close>)
  qed
qed

lemma reschedule_ok:
  assumes "env_ok (fw_env fw)" "cache_ok (fw_env fw) (gs_cache gs)" "cap_ok cap"
    and "previous_ok (Some (p_parallelism previous))"
  obtains p gs' where "reschedule fw wl previous cap gs = Inr (p, gs')" "plan_ok (fw_env fw) p"
    "within_capacity (p_allocation p) cap" "decode_quantized (fw_auto fw) cap (p_allocation p)"
    "map_of (p_metadata p) ''autoscaling'' = Some (MAutoscaling
      (worker_expansion_factors (fw_auto fw) wl previous)
      (am_values (proportional_scale_allocation (fw_auto fw) wl previous cap)) (fw_auto fw))"
    "cache_ok (fw_env fw) (gs_cache gs')"
proof -
  note result = that
  let ?s = "proportional_scale_allocation (fw_auto fw) wl previous cap"
  have s: "wf_alloc ?s" "within_capacity ?s cap" "decode_quantized (fw_auto fw) cap ?s"
    using proportional_scale_safe[OF assms(3)] proportional_scale_quantized[OF assms(3)] by blast+
  define finish where "finish p = p\<lparr>p_metadata := AList.update ''autoscaling''
      (MAutoscaling (worker_expansion_factors (fw_auto fw) wl previous) (am_values ?s) (fw_auto fw))
      (p_metadata p)\<rparr>" for p :: plan
  have fin: "p_allocation (finish p) = p_allocation p" "p_parallelism (finish p) = p_parallelism p"
    "map_of (p_metadata (finish p)) ''autoscaling'' = Some (MAutoscaling
      (worker_expansion_factors (fw_auto fw) wl previous) (am_values ?s) (fw_auto fw))" for p
    by (simp_all add: finish_def map_of_update)
  have finished: thesis if "reschedule fw wl previous cap gs = Inr (finish p, gs')" "plan_ok (fw_env fw) p"
      "within_capacity (p_allocation p) cap" "decode_quantized (fw_auto fw) cap (p_allocation p)"
      "cache_ok (fw_env fw) (gs_cache gs')" for p gs'
    by (rule result[OF that(1)])
      (use that(2-) fin[of p] in \<open>simp_all add: plan_ok_def\<close>)
  show ?thesis
  proof (cases "global_search_after_scaling (fw_auto fw)")
    case False
    obtain p where p: "evaluate_allocation fw wl ?s (Some (p_parallelism previous)) = Inr p"
        "p_allocation p = ?s" "plan_ok (fw_env fw) p"
      using evaluate_allocation_ok[OF assms(1,4) s(1)] by blast
    then have "reschedule fw wl previous cap gs = Inr (finish p, gs)"
      using False by (simp add: reschedule_def Let_def finish_def)
    then show ?thesis by (rule finished) (use p s assms(2) in simp_all)
  next
    case True
    have "start_ok cap (Some ?s) (Some previous)"
      using s assms(3,4) by (simp add: start_ok_def cap_ok_def)
    from optimize_keyed_safe[OF assms(1,2) this, of wl] obtain k p gs1 where
      opt: "optimize_keyed (fw_env fw) wl cap (Some ?s) (Some previous) gs = Inr ((k, p), gs1)"
      "plan_ok (fw_env fw) p" "am_validate (p_allocation p) cap = Inr ()"
      "cache_ok (fw_env fw) (gs_cache gs1)" "pk_allocation k = am_as_key (p_allocation p)" by metis
    obtain k' p' where c: "apply_autoscaling_allocation_constraints fw wl (k, p) previous cap = Inr (k', p')"
      "plan_ok (fw_env fw) p'" "within_capacity (p_allocation p') cap"
      "decode_quantized (fw_auto fw) cap (p_allocation p')" "k' = Some k \<and> p' = p \<or> k' = None"
      using apply_constraints_ok[OF assms(1,3,4) opt(2,3)] by blast
    let ?gs = "case k' of None \<Rightarrow> gs1 | Some k \<Rightarrow> gs1\<lparr>gs_cache := AList.update k (finish p') (gs_cache gs1)\<rparr>"
    have "reschedule fw wl previous cap gs = Inr (finish p', ?gs)"
      using True opt(1) c(1) by (simp add: reschedule_def Let_def finish_def split: option.split)
    moreover have "cache_ok (fw_env fw) (gs_cache ?gs)"
      using c(2,5) opt(4,5) fin[of p'] by (auto intro!: cache_ok_update simp: plan_ok_def)
    ultimately show ?thesis by (rule finished[OF _ c(2-4)])
  qed
qed

text \<open>
  C9. \<open>reschedule\<close>, with or without the global search after scaling, never raises for a
  non-negative capacity, an intact cache and well-formed previous strategies. The new plan's
  allocation passes \<open>validate\<close>, its strategies use exactly the GPUs of their slices, its decode
  worker totals are an allowed pair of GPU counts with at least one prefill GPU whenever the
  capacity admits such a pair, the plan records the scaling in its metadata, and the plan cache
  stays intact.
\<close>

theorem reschedule_safe:
  assumes "env_ok (fw_env fw)" "cache_ok (fw_env fw) (gs_cache gs)" "cap_ok cap"
    and "previous_ok (Some (p_parallelism previous))"
  shows "\<exists>p gs'. reschedule fw wl previous cap gs = Inr (p, gs') \<and>
    am_validate (p_allocation p) cap = Inr () \<and>
    strategies_fit (ge_local (fw_env fw)) (p_allocation p) (p_parallelism p) \<and>
    decode_quantized (fw_auto fw) cap (p_allocation p) \<and>
    map_of (p_metadata p) ''autoscaling'' = Some (MAutoscaling
      (worker_expansion_factors (fw_auto fw) wl previous)
      (am_values (proportional_scale_allocation (fw_auto fw) wl previous cap)) (fw_auto fw)) \<and>
    cache_ok (fw_env fw) (gs_cache gs')"
  by (rule reschedule_ok[OF assms, where wl = wl]) (force simp: plan_ok_def validate_wf)

definition sample_framework :: framework where
  "sample_framework = HexGenSchedulingFramework (\<lambda>_. None) (rng_of_tape (\<lambda>i. i)) (\<lambda>xs. xs)
     ''meta-llama/Llama-3.1-8B-Instruct'' default_config default_global_config default_autoscaling 100 100 ''random''"

theorem reschedule_safe_witness:
  "cap_ok [(''NVDA:H20'', 6)] \<and>
   (\<exists>p gs'. reschedule sample_framework sample_workload (sample_plan_with [(''pre'', 1), (''attn'', 1), (''ffn'', 1)])
      [(''NVDA:H20'', 6)] sample_gs = Inr (p, gs') \<and>
      am_validate (p_allocation p) [(''NVDA:H20'', 6)] = Inr () \<and> 1 \<le> worker_total (p_allocation p) ''pre'')"
proof -
  let ?p = "sample_plan_with [(''pre'', 1), (''attn'', 1), (''ffn'', 1)]"
  have cap: "cap_ok [(''NVDA:H20'', 6)]" by (simp add: cap_ok_def wf_dict_def)
  have env: "env_ok (fw_env sample_framework)" "cache_ok (fw_env sample_framework) (gs_cache sample_gs)"
    and auto: "fw_auto sample_framework = default_autoscaling"
    by (simp_all add: sample_framework_def HexGenSchedulingFramework_def env_ok_def cache_ok_def sample_gs_def)
  have prev: "previous_ok (Some (p_parallelism ?p))" by (simp add: previous_ok_def sample_plan_with_def)
  from reschedule_safe[OF env cap prev, of sample_workload] show ?thesis
    using cap sample_pairs by (auto simp: auto decode_quantized_def)
qed

end
