(* ===== verification/Autoscaling_Stability.thy ===== *)
theory Autoscaling_Stability
  imports Framework "HOL-Library.Multiset"
begin

text \<open>
  The stability check of the live autoscaler, \<open>src/scheduler/cli/_autoscaling_stability.py\<close>. A proposed
  plan is followed through repeated proportional scaling; if it would be reversed, cycles or is
  unsafe, neighbouring allocations are evaluated within a budget and the best admissible plan is
  taken. The constructor arguments of \<open>_StabilityValidator\<close> are the record \<open>validator\<close>, its mutable
  fields the record \<open>validation\<close>. \<open>perf_counter\<close> is a sequence of readings: \<open>va_clock i\<close> is what the \<open>i\<close>-th
  call returns, so the statements hold for every course of time.

  The lemmas show that whatever the budget and the clock do, a plan within the capacity is
  returned that respects a ban on scaling in, and that it is safe whenever an admissible
  candidate that was looked at is.
\<close>

section \<open>State\<close>

type_synonym alloc_key = "(string \<times> (string \<times> int) list) list"

record stability_config =
  sc_max_rounds :: int
  sc_max_candidates :: int
  sc_timeout_s :: real

record validator =
  va_framework :: framework
  va_workload :: workload_profile
  va_current :: plan
  va_capacity :: capacity
  va_max_rounds :: int
  va_allow_scale_in :: bool
  va_started_at :: real
  va_max_candidates :: int
  va_timeout_s :: real
  va_required_throughput :: real
  va_clock :: "nat \<Rightarrow> real"

record validation =
  vs_evaluated :: "(alloc_key, plan) dict"
  vs_new_evaluations :: int
  vs_timed_out :: bool
  vs_readings :: nat

definition StabilityValidator ::
  "framework \<Rightarrow> workload_profile \<Rightarrow> plan \<Rightarrow> capacity \<Rightarrow> stability_config \<Rightarrow> bool \<Rightarrow> (nat \<Rightarrow> real) \<Rightarrow> validator \<times> validation" where
  "StabilityValidator fw wl current cap cfg allow clock =
     (\<lparr>va_framework = fw, va_workload = wl, va_current = current, va_capacity = cap, va_max_rounds = sc_max_rounds cfg,
       va_allow_scale_in = allow, va_started_at = clock 0, va_max_candidates = max 0 (sc_max_candidates cfg),
       va_timeout_s = max 0 (sc_timeout_s cfg),
       va_required_throughput = arrival_rate wl /
         max (1 / 10^9) (target_utilization (fw_auto fw) + hysteresis (fw_auto fw)),
       va_clock = clock\<rparr>,
      \<lparr>vs_evaluated = [(am_as_key (p_allocation current), current)], vs_new_evaluations = 0, vs_timed_out = False,
       vs_readings = 1\<rparr>)"

definition perf_counter :: "validator \<Rightarrow> validation \<Rightarrow> real \<times> validation" where
  "perf_counter va st = (va_clock va (vs_readings st), st\<lparr>vs_readings := vs_readings st + 1\<rparr>)"

section \<open>Candidates\<close>

definition row_total :: "allocation \<Rightarrow> string \<Rightarrow> int" where
  "row_total a w = sum_list (map snd (am_row a w))"

definition allocation_values :: "allocation \<Rightarrow> matrix_values" where
  "allocation_values a = map (\<lambda>w. (w, am_row a w)) WORKER_TYPES"

definition candidate_allowed :: "validator \<Rightarrow> plan \<Rightarrow> bool" where
  "candidate_allowed va p \<longleftrightarrow> va_allow_scale_in va \<or>
     list_all (\<lambda>w. row_total (p_allocation (va_current va)) w \<le> row_total (p_allocation p) w) WORKER_TYPES"

definition is_safe :: "validator \<Rightarrow> plan \<Rightarrow> bool" where
  "is_safe va p \<longleftrightarrow> va_required_throughput va \<le> plan_bottleneck p + 1 / 10^9"

definition plan_rank :: "validator \<Rightarrow> plan \<Rightarrow> real \<times> real \<times> real \<times> real \<times> real" where
  "plan_rank va p =
     (let current = p_allocation (va_current va);
          reconfiguration_cost = sum_list (map (\<lambda>(k, s). sp_reconfiguration_cost_s s) (p_slice_plans p));
          hws = remdups (hardware_types (p_allocation p) @ hardware_types current);
          distance = sum_list (map (\<lambda>w. sum_list (map (\<lambda>h. \<bar>am_get (p_allocation p) w h - am_get current w h\<bar>) hws)) WORKER_TYPES);
          total = of_int (total_gpus (p_allocation p));
          rest = (reconfiguration_cost, of_int distance, - plan_bottleneck p)
      in if cost_aware (ge_local (fw_env (va_framework va))) then (p_cost_per_hour p, total, rest)
         else (total, p_cost_per_hour p, rest))"

definition follow_up_of :: "validator \<Rightarrow> plan \<Rightarrow> allocation" where
  "follow_up_of va p =
     proportional_scale_allocation (fw_auto (va_framework va)) (va_workload va) p (va_capacity va)"

definition is_fixed_point :: "validator \<Rightarrow> plan \<Rightarrow> bool" where
  "is_fixed_point va p \<longleftrightarrow> am_as_key (follow_up_of va p) = am_as_key (p_allocation p)"

section \<open>Evaluation within a budget\<close>

definition over_time :: "validator \<Rightarrow> validation \<Rightarrow> bool \<times> validation" where
  "over_time va st =
     (if 0 < va_timeout_s va
      then (let (t, st1) = perf_counter va st in (va_timeout_s va \<le> t - va_started_at va, st1))
      else (False, st))"

definition within_budget :: "validator \<Rightarrow> validation \<Rightarrow> bool \<times> validation" where
  "within_budget va st =
     (if va_max_candidates va \<le> vs_new_evaluations st then (False, st)
      else let (late, st1) = over_time va st in
           if late then (False, st1\<lparr>vs_timed_out := True\<rparr>) else (True, st1))"

definition evaluate_in :: "validator \<Rightarrow> allocation \<Rightarrow> validation \<Rightarrow> (plan option \<times> validation) result" where
  "evaluate_in va a st =
     (let key = am_as_key a in
      case map_of (vs_evaluated st) key of
        Some p \<Rightarrow> Inr (Some p, st)
      | None \<Rightarrow>
          let (ok, st1) = within_budget va st in
          if \<not> ok then Inr (None, st1)
          else bind_result (evaluate_allocation (va_framework va) (va_workload va) a (Some (p_parallelism (va_current va)))) (\<lambda>plan.
            let st2 = st1\<lparr>vs_evaluated := AList.update key plan (vs_evaluated st1),
                         vs_new_evaluations := vs_new_evaluations st1 + 1\<rparr>;
                (late, st3) = over_time va st2
            in Inr (Some plan, if late then st3\<lparr>vs_timed_out := True\<rparr> else st3)))"

section \<open>The proposal and its follow-ups\<close>

record walk =
  wk_anchors :: "allocation list"
  wk_path :: "matrix_values list"
  wk_triggered :: bool
  wk_fixed :: "alloc_key list"
  wk_seen :: "alloc_key list"

fun follow :: "nat \<Rightarrow> validator \<Rightarrow> plan \<Rightarrow> walk \<Rightarrow> validation \<Rightarrow> (walk \<times> validation) result" where
  "follow 0 va path_plan w st = Inr (w, st)"
| "follow (Suc n) va path_plan w st =
     (let follow_up = follow_up_of va path_plan; key = am_as_key follow_up in
      if key = am_as_key (p_allocation path_plan) then Inr (w\<lparr>wk_fixed := key # wk_fixed w\<rparr>, st)
      else let w1 = w\<lparr>wk_triggered := True, wk_anchors := wk_anchors w @ [am_clone follow_up],
                      wk_path := wk_path w @ [allocation_values follow_up]\<rparr>
           in if key \<in> set (wk_seen w) then Inr (w1, st)
              else let w2 = w1\<lparr>wk_seen := key # wk_seen w1\<rparr> in
                   bind_result (evaluate_in va follow_up st) (\<lambda>(next_plan, st1).
                     case next_plan of None \<Rightarrow> Inr (w2, st1) | Some p \<Rightarrow> follow n va p w2 st1))"

section \<open>Neighbouring allocations\<close>

definition worker_options :: "validator \<Rightarrow> int list list \<Rightarrow> nat \<Rightarrow> string \<Rightarrow> int list" where
  "worker_options va anchor_totals index worker =
     (let observed = map (\<lambda>totals. max 1 (totals ! index)) anchor_totals;
          low = fold min observed (hd observed);
          high = fold max observed (hd observed);
          choices = filter (\<lambda>c. 0 < c) (decode_worker_gpu_choices (fw_auto (va_framework va)))
      in if worker = ''pre'' then [low..high]
         else sort (remdups (filter (\<lambda>c. low \<le> c \<and> c \<le> high) choices @ observed)))"

definition worker_ranges :: "validator \<Rightarrow> int list list \<Rightarrow> int list list" where
  "worker_ranges va anchor_totals =
     map (\<lambda>(i, w). worker_options va anchor_totals i w) (zip [0..<length WORKER_TYPES] WORKER_TYPES)"

definition target_distance :: "int list \<Rightarrow> int list \<Rightarrow> int" where
  "target_distance target totals = sum_list (map (\<lambda>(x, y). \<bar>x - y\<bar>) (zip target totals))"

definition target_key :: "int list list \<Rightarrow> int list \<Rightarrow> int \<times> int \<times> int \<times> int \<times> int" where
  "target_key anchor_totals target =
     (let ds = map (target_distance target) anchor_totals
      in (fold min ds (hd ds), sum_list target, target ! 0, target ! 1, target ! 2))"

definition sorted_targets :: "validator \<Rightarrow> int list list \<Rightarrow> int list list" where
  "sorted_targets va anchor_totals =
     sort_key (target_key anchor_totals)
       (filter (\<lambda>t. sum_list t \<le> total_capacity (va_capacity va)) (product_lists (worker_ranges va anchor_totals)))"

definition rebuild_allocation :: "allocation \<Rightarrow> capacity \<Rightarrow> (string, int) dict \<Rightarrow> allocation" where
  "rebuild_allocation seed cap targets =
     foldl (\<lambda>rebuilt w. place_gpus cap (hardware_order seed cap w) w (nat (max 0 (dict_getd targets w 0))) rebuilt)
       (am_zeros (map fst cap)) WORKER_TYPES"

definition totals_of :: "allocation \<Rightarrow> int list" where
  "totals_of a = map (row_total a) WORKER_TYPES"

text \<open>The loop over the targets; \<open>seen\<close> are the keys that are not to be returned again.\<close>

fun build_targets :: "capacity \<Rightarrow> allocation list \<Rightarrow> alloc_key list \<Rightarrow> int list list \<Rightarrow> allocation list" where
  "build_targets cap anchors seen [] = []"
| "build_targets cap anchors seen (target # targets) =
     (let seed = min_key_from (\<lambda>a. target_distance target (totals_of a)) (hd anchors) (tl anchors);
          allocation = rebuild_allocation seed cap (zip WORKER_TYPES target);
          key = am_as_key allocation
      in if key \<in> set seen \<or> totals_of allocation \<noteq> target then build_targets cap anchors seen targets
         else allocation # build_targets cap anchors (key # seen) targets)"

definition local_allocations :: "validator \<Rightarrow> allocation list \<Rightarrow> allocation list" where
  "local_allocations va anchors =
     (let unique_anchors = foldl (\<lambda>d a. AList.update (am_as_key a) a d) [] anchors;
          anchor_items = map snd unique_anchors
      in build_targets (va_capacity va) anchor_items (map fst unique_anchors)
           (sorted_targets va (map totals_of anchor_items)))"

fun evaluate_neighbours :: "validator \<Rightarrow> allocation list \<Rightarrow> validation \<Rightarrow> validation result" where
  "evaluate_neighbours va [] st = Inr st"
| "evaluate_neighbours va (a # as) st =
     (if am_as_key a \<in> fst ` set (vs_evaluated st) then evaluate_neighbours va as st
      else bind_result (evaluate_in va a st) (\<lambda>(p, st1).
        case p of None \<Rightarrow> Inr st1 | Some _ \<Rightarrow> evaluate_neighbours va as st1))"

section \<open>Selection\<close>

definition select_fallback :: "validator \<Rightarrow> validation \<Rightarrow> (plan \<times> string) result" where
  "select_fallback va st =
     (let allowed0 = filter (candidate_allowed va) (map snd (vs_evaluated st));
          allowed = (if allowed0 = [] then [va_current va] else allowed0);
          safe = filter (is_safe va) allowed;
          stable_safe = filter (is_fixed_point va) safe
      in if stable_safe \<noteq> [] then bind_result (min_key (plan_rank va) stable_safe) (\<lambda>p. Inr (p, ''stable_fixed_point''))
         else if safe \<noteq> [] then bind_result (min_key (plan_rank va) safe) (\<lambda>p. Inr (p, ''quantization_hold''))
         else bind_result (max_key (\<lambda>p. (plan_bottleneck p, - total_gpus (p_allocation p), - p_cost_per_hour p)) allowed)
                (\<lambda>p. Inr (p, ''capacity_limited'')))"

record stability_metadata =
  sm_triggered :: bool
  sm_selection :: string
  sm_proposal_path :: "matrix_values list"
  sm_required_safe_throughput_req_s :: real
  sm_evaluated_candidates :: int
  sm_safe_candidates :: int
  sm_elapsed_s :: real
  sm_timed_out :: bool
  sm_allow_scale_in :: bool
  sm_selected_allocation :: matrix_values
  sm_selected_throughput_req_s :: real

definition metadata_of :: "validator \<Rightarrow> validation \<Rightarrow> bool \<Rightarrow> string \<Rightarrow> matrix_values list \<Rightarrow> plan \<Rightarrow> stability_metadata" where
  "metadata_of va st triggered selection path selected =
     \<lparr>sm_triggered = triggered, sm_selection = selection, sm_proposal_path = path,
      sm_required_safe_throughput_req_s = va_required_throughput va,
      sm_evaluated_candidates = int (length (vs_evaluated st)),
      sm_safe_candidates = int (length (filter (is_safe va) (map snd (vs_evaluated st)))),
      sm_elapsed_s = fst (perf_counter va st) - va_started_at va, sm_timed_out = vs_timed_out st,
      sm_allow_scale_in = va_allow_scale_in va, sm_selected_allocation = allocation_values (p_allocation selected),
      sm_selected_throughput_req_s = plan_bottleneck selected\<rparr>"

definition fixed_safe :: "validator \<Rightarrow> walk \<Rightarrow> validation \<Rightarrow> plan list" where
  "fixed_safe va w st =
     map snd (filter (\<lambda>(k, p). k \<in> set (wk_fixed w) \<and> is_safe va p \<and> candidate_allowed va p) (vs_evaluated st))"

definition select_plan :: "validator \<Rightarrow> walk \<Rightarrow> validation \<Rightarrow> ((plan \<times> string) \<times> validation) result" where
  "select_plan va w st =
     (if fixed_safe va w st \<noteq> []
      then bind_result (min_key (plan_rank va) (fixed_safe va w st)) (\<lambda>p. Inr ((p, ''stable_fixed_point''), st))
      else bind_result (if wk_triggered w then evaluate_neighbours va (local_allocations va (wk_anchors w)) st else Inr st) (\<lambda>st1.
        bind_result (select_fallback va st1) (\<lambda>ps. Inr (ps, st1))))"

definition run_validator :: "validator \<Rightarrow> plan \<Rightarrow> validation \<Rightarrow> (plan \<times> stability_metadata) result" where
  "run_validator va proposed st0 =
     (let current = va_current va;
          proposed_key = am_as_key (p_allocation proposed);
          st = st0\<lparr>vs_evaluated := AList.update proposed_key proposed (vs_evaluated st0)\<rparr>;
          proposal_allowed = candidate_allowed va proposed;
          w = \<lparr>wk_anchors = [am_clone (p_allocation current), am_clone (p_allocation proposed)],
               wk_path = [allocation_values (p_allocation current), allocation_values (p_allocation proposed)],
               wk_triggered = (\<not> proposal_allowed \<or> \<not> is_safe va proposed), wk_fixed = [], wk_seen = [proposed_key]\<rparr>
      in bind_result (follow (nat (max 1 (va_max_rounds va))) va proposed w st) (\<lambda>(w1, st1).
         bind_result (select_plan va w1 st1) (\<lambda>((selected, selection), st2).
         let selection' = (if \<not> proposal_allowed \<and> am_as_key (p_allocation selected) = am_as_key (p_allocation current)
                           then ''backlog_hold'' else selection)
         in Inr (selected, metadata_of va st2 (wk_triggered w1) selection' (wk_path w1) selected))))"

definition stabilize_autoscaling_plan ::
  "framework \<Rightarrow> workload_profile \<Rightarrow> plan \<Rightarrow> plan \<Rightarrow> capacity \<Rightarrow> stability_config \<Rightarrow> bool \<Rightarrow> (nat \<Rightarrow> real) \<Rightarrow>
   (plan \<times> stability_metadata) result" where
  "stabilize_autoscaling_plan fw wl current proposed cap cfg allow clock =
     (case StabilityValidator fw wl current cap cfg allow clock of (va, st) \<Rightarrow> run_validator va proposed st)"

section \<open>The state of a validation\<close>

definition returns :: "'a result \<Rightarrow> ('a \<Rightarrow> bool) \<Rightarrow> bool" where
  "returns m P \<longleftrightarrow> (\<exists>x. m = Inr x \<and> P x)"

lemma returns_simps [simp]: "returns (Inr x) P \<longleftrightarrow> P x" "\<not> returns (Inl err) P"
  by (auto simp: returns_def)

lemma returns_bindI: "returns m P \<Longrightarrow> (\<And>x. P x \<Longrightarrow> returns (f x) Q) \<Longrightarrow> returns (bind_result m f) Q"
  by (auto simp: returns_def)

lemma returns_mono: "returns m P \<Longrightarrow> (\<And>x. P x \<Longrightarrow> Q x) \<Longrightarrow> returns m Q"
  by (auto simp: returns_def)

definition validator_ok :: "validator \<Rightarrow> bool" where
  "validator_ok va \<longleftrightarrow> env_ok (fw_env (va_framework va)) \<and> cap_ok (va_capacity va) \<and>
     previous_ok (Some (p_parallelism (va_current va)))"

definition admissible :: "validator \<Rightarrow> plan \<Rightarrow> bool" where
  "admissible va p \<longleftrightarrow> plan_ok (fw_env (va_framework va)) p \<and> within_capacity (p_allocation p) (va_capacity va)"

text \<open>Every evaluated plan stands under the key of its own allocation and fits the capacity.\<close>

definition sound :: "validator \<Rightarrow> validation \<Rightarrow> bool" where
  "sound va st \<longleftrightarrow> wf_dict (vs_evaluated st) \<and>
     (\<forall>(k, p) \<in> set (vs_evaluated st). k = am_as_key (p_allocation p) \<and> admissible va p)"

text \<open>Evaluated plans are never forgotten, each new one is counted, and the budget is kept.\<close>

definition grows :: "validator \<Rightarrow> validation \<Rightarrow> validation \<Rightarrow> bool" where
  "grows va st st' \<longleftrightarrow> (\<exists>new. vs_evaluated st' = vs_evaluated st @ new \<and>
     vs_new_evaluations st' = vs_new_evaluations st + int (length new)) \<and>
     vs_new_evaluations st' \<le> max (vs_new_evaluations st) (va_max_candidates va)"

lemma grows_refl [simp]: "grows va st st"
  by (simp add: grows_def)

lemma grows_trans [trans]: "grows va st st1 \<Longrightarrow> grows va st1 st2 \<Longrightarrow> grows va st st2"
  by (auto simp: grows_def)

lemma grows_evaluated: "grows va st st' \<Longrightarrow> set (vs_evaluated st) \<subseteq> set (vs_evaluated st')"
  by (auto simp: grows_def)

definition same_plans :: "validation \<Rightarrow> validation \<Rightarrow> bool" where
  "same_plans st st' \<longleftrightarrow> vs_evaluated st' = vs_evaluated st \<and> vs_new_evaluations st' = vs_new_evaluations st"

lemma over_time_same: "same_plans st (snd (over_time va st))"
  by (simp add: over_time_def perf_counter_def same_plans_def Let_def)

lemma within_budget_same: "same_plans st (snd (within_budget va st))"
  using over_time_same[of st va] by (auto simp: within_budget_def same_plans_def split_def Let_def)

lemma within_budget_room: "fst (within_budget va st) \<Longrightarrow> vs_new_evaluations st < va_max_candidates va"
  by (auto simp: within_budget_def Let_def split: if_splits prod.splits)

lemma same_plans_sound: "same_plans st st' \<Longrightarrow> sound va st' = sound va st"
  by (simp add: same_plans_def sound_def)

lemma same_plans_grows: "same_plans st st' \<Longrightarrow> grows va st st'"
  by (simp add: same_plans_def grows_def)

lemma sound_unique: "sound va st \<Longrightarrow> (k, p) \<in> set (vs_evaluated st) \<Longrightarrow> (k, q) \<in> set (vs_evaluated st) \<Longrightarrow> p = q"
  using wf_dict_map_of[of "vs_evaluated st" k p] wf_dict_map_of[of "vs_evaluated st" k q] by (simp add: sound_def)

lemma sound_add:
  assumes "sound va st" "admissible va p" "am_as_key (p_allocation p) \<notin> fst ` set (vs_evaluated st)"
    and "vs_evaluated st' = AList.update (am_as_key (p_allocation p)) p (vs_evaluated st)"
  shows "sound va st'" "vs_evaluated st' = vs_evaluated st @ [(am_as_key (p_allocation p), p)]"
  using assms by (auto simp: sound_def update_keys_absent wf_dict_def)

lemma evaluate_in_returns:
  assumes "validator_ok va" "sound va st" "wf_alloc a" "within_capacity a (va_capacity va)"
  shows "returns (evaluate_in va a st) (\<lambda>(r, st'). sound va st' \<and> grows va st st' \<and>
    (\<forall>p. r = Some p \<longrightarrow> (am_as_key a, p) \<in> set (vs_evaluated st')))"
proof (cases "map_of (vs_evaluated st) (am_as_key a)")
  case (Some p)
  then show ?thesis using assms(2) by (auto simp: evaluate_in_def dest: map_of_SomeD)
next
  case None
  obtain ok st1 where b: "within_budget va st = (ok, st1)" by (cases "within_budget va st")
  then have same: "same_plans st st1" using within_budget_same[of st va] by simp
  then have s1: "sound va st1" "grows va st st1"
    using assms(2) same_plans_sound[OF same] same_plans_grows[OF same] by blast+
  show ?thesis
  proof (cases ok)
    case False
    then show ?thesis using None b s1 by (simp add: evaluate_in_def)
  next
    case True
    have room: "vs_new_evaluations st < va_max_candidates va" using within_budget_room[of va st] b True by simp
    obtain p where p: "evaluate_allocation (va_framework va) (va_workload va) a (Some (p_parallelism (va_current va))) = Inr p"
        "p_allocation p = a" "plan_ok (fw_env (va_framework va)) p"
      using evaluate_allocation_ok[OF _ _ assms(3), of "va_framework va" "Some (p_parallelism (va_current va))" "va_workload va"]
        assms(1) by (auto simp: validator_ok_def)
    have adm: "admissible va p" using p assms(4) by (simp add: admissible_def)
    have new: "am_as_key (p_allocation p) \<notin> fst ` set (vs_evaluated st1)"
      using None same p(2) by (simp add: same_plans_def map_of_eq_None_iff)
    define st2 where "st2 = st1\<lparr>vs_evaluated := AList.update (am_as_key a) p (vs_evaluated st1),
        vs_new_evaluations := vs_new_evaluations st1 + 1\<rparr>"
    have s2: "sound va st2" "vs_evaluated st2 = vs_evaluated st @ [(am_as_key a, p)]"
      using sound_add[OF s1(1) adm new, of st2] same p(2) by (simp_all add: st2_def same_plans_def)
    then have g2: "grows va st st2" using room same by (simp add: grows_def st2_def same_plans_def)
    obtain late st3 where o: "over_time va st2 = (late, st3)" by (cases "over_time va st2")
    define st4 where "st4 = (if late then st3\<lparr>vs_timed_out := True\<rparr> else st3)"
    have same4: "same_plans st2 st4" using over_time_same[of st2 va] o by (simp add: same_plans_def st4_def)
    have "sound va st4" "grows va st st4"
      using s2(1) same_plans_sound[OF same4] grows_trans[OF g2 same_plans_grows[OF same4]] by blast+
    moreover have "(am_as_key a, p) \<in> set (vs_evaluated st4)" using s2(2) same4 by (simp add: same_plans_def)
    moreover have "evaluate_in va a st = Inr (Some p, st4)"
      using None b True p(1) o by (simp add: evaluate_in_def st2_def[symmetric] st4_def)
    ultimately show ?thesis by simp
  qed
qed

section \<open>Following the proposal\<close>

definition fixed_ok :: "validator \<Rightarrow> validation \<Rightarrow> alloc_key list \<Rightarrow> bool" where
  "fixed_ok va st ks \<longleftrightarrow> (\<forall>k \<in> set ks. \<exists>p. (k, p) \<in> set (vs_evaluated st) \<and> is_fixed_point va p)"

lemma fixed_ok_grows: "fixed_ok va st ks \<Longrightarrow> grows va st st' \<Longrightarrow> fixed_ok va st' ks"
  using grows_evaluated[of va st st'] by (fastforce simp: fixed_ok_def)

lemma follow_up_safe:
  "validator_ok va \<Longrightarrow> wf_alloc (follow_up_of va p) \<and> within_capacity (follow_up_of va p) (va_capacity va)"
  unfolding follow_up_of_def validator_ok_def by (rule proportional_scale_safe) simp

lemma follow_returns:
  assumes "validator_ok va" "sound va st" "fixed_ok va st (wk_fixed w)" "wk_anchors w \<noteq> []"
    and "(am_as_key (p_allocation q), q) \<in> set (vs_evaluated st)"
  shows "returns (follow n va q w st) (\<lambda>(w', st'). sound va st' \<and> grows va st st' \<and>
    fixed_ok va st' (wk_fixed w') \<and> wk_anchors w' \<noteq> [])"
  using assms(2-)
proof (induction n arbitrary: q w st)
  case (Suc n)
  let ?f = "follow_up_of va q"
  define w1 where "w1 = w\<lparr>wk_triggered := True, wk_anchors := wk_anchors w @ [am_clone ?f],
      wk_path := wk_path w @ [allocation_values ?f]\<rparr>"
  define w2 where "w2 = w1\<lparr>wk_seen := am_as_key ?f # wk_seen w1\<rparr>"
  have w: "wk_fixed w1 = wk_fixed w" "wk_anchors w1 \<noteq> []" "wk_fixed w2 = wk_fixed w" "wk_anchors w2 \<noteq> []"
    by (simp_all add: w1_def w2_def)
  have step: "follow (Suc n) va q w st =
      (if am_as_key ?f = am_as_key (p_allocation q) then Inr (w\<lparr>wk_fixed := am_as_key ?f # wk_fixed w\<rparr>, st)
       else if am_as_key ?f \<in> set (wk_seen w) then Inr (w1, st)
       else bind_result (evaluate_in va ?f st) (\<lambda>(next_plan, st1).
              case next_plan of None \<Rightarrow> Inr (w2, st1) | Some p \<Rightarrow> follow n va p w2 st1))"
    by (simp only: follow.simps Let_def w1_def w2_def)
  show ?case
  proof (cases "am_as_key ?f = am_as_key (p_allocation q)")
    case True
    then have "is_fixed_point va q" by (simp add: is_fixed_point_def)
    then show ?thesis using True Suc.prems unfolding step by (auto simp: fixed_ok_def)
  next
    case False
    have "wf_alloc ?f" "within_capacity ?f (va_capacity va)" using follow_up_safe[OF assms(1), of q] by simp_all
    note ev = evaluate_in_returns[OF assms(1) Suc.prems(1) this]
    have next_round: "returns (case r of None \<Rightarrow> Inr (w2, st1) | Some p \<Rightarrow> follow n va p w2 st1)
        (\<lambda>(w', st'). sound va st' \<and> grows va st st' \<and> fixed_ok va st' (wk_fixed w') \<and> wk_anchors w' \<noteq> [])"
      if r: "sound va st1" "grows va st st1" "\<And>p. r = Some p \<Longrightarrow> (am_as_key ?f, p) \<in> set (vs_evaluated st1)" for r st1
    proof (cases r)
      case None
      then show ?thesis using r(1,2) w fixed_ok_grows[OF Suc.prems(2) r(2)] by simp
    next
      case (Some p)
      have "am_as_key ?f = am_as_key (p_allocation p)" using r(1) r(3)[OF Some] by (auto simp: sound_def)
      then have "(am_as_key (p_allocation p), p) \<in> set (vs_evaluated st1)" using r(3)[OF Some] by simp
      from Suc.IH[OF r(1) _ w(4) this] show ?thesis
        using fixed_ok_grows[OF Suc.prems(2) r(2)] w(3) grows_trans[OF r(2)] Some
        by (auto elim!: returns_mono)
    qed
    have "returns (bind_result (evaluate_in va ?f st) (\<lambda>(next_plan, st1).
              case next_plan of None \<Rightarrow> Inr (w2, st1) | Some p \<Rightarrow> follow n va p w2 st1))
        (\<lambda>(w', st'). sound va st' \<and> grows va st st' \<and> fixed_ok va st' (wk_fixed w') \<and> wk_anchors w' \<noteq> [])"
      by (rule returns_bindI[OF ev]) (clarify, rule next_round, simp_all)
    then show ?thesis using False Suc.prems w unfolding step by simp
  qed
qed simp

section \<open>The neighbourhood\<close>

lemma rebuild_allocation_eq: "rebuild_allocation = rebuild_allocation_with_worker_totals"
  by (intro ext) (simp add: rebuild_allocation_def rebuild_allocation_with_worker_totals_def)

lemma rebuild_rows:
  assumes cap: "cap_ok cap"
  shows "rows_of (rebuild_allocation_with_worker_totals a cap targets) cap"
proof -
  define inv where "inv b \<longleftrightarrow> wf_alloc b \<and> within_capacity b cap \<and> rows_of b cap" for b
  have order: "set (hardware_order a cap w) = fst ` set cap" for w by (simp add: hardware_order_def)
  have step: "inv (place_gpus cap (hardware_order a cap w) w n b)" if "inv b" "w \<in> set WORKER_TYPES" for b w n
    using place_gpus_placed[OF cap that(2) order, of b n w] that(1) by (simp add: inv_def placed_def)
  have "inv b \<Longrightarrow> set ws \<subseteq> set WORKER_TYPES \<Longrightarrow>
      inv (foldl (\<lambda>b w. place_gpus cap (hardware_order a cap w) w (nat (max 0 (dict_getd targets w 0))) b) b ws)" for b ws
    by (induction ws arbitrary: b) (simp_all add: step)
  moreover have "inv (am_zeros (map fst cap))"
    using cap rows_of_zeros[of cap] by (auto simp: inv_def cap_ok_def within_capacity_def list_all_iff)
  ultimately show ?thesis unfolding rebuild_allocation_with_worker_totals_def inv_def by blast
qed

lemma row_total_rows:
  assumes "wf_alloc a" "rows_of a cap" "w \<in> set WORKER_TYPES"
  shows "row_total a w = sum_over a cap w"
proof -
  have "wf_dict (am_row a w)" using wf_alloc_row[OF assms(1)] by blast
  then have "map (am_get a w) (map fst (am_row a w)) = map snd (am_row a w)"
    by (auto simp: am_get_def dict_getd_def wf_dict_map_of)
  then show ?thesis using assms(2,3) by (metis row_total_def rows_of_def sum_over_def)
qed

lemma row_total_key: "am_as_key a = am_as_key b \<Longrightarrow> w \<in> set WORKER_TYPES \<Longrightarrow> row_total a w = row_total b w"
proof -
  assume "am_as_key a = am_as_key b" "w \<in> set WORKER_TYPES"
  then have "sort (am_row a w) = sort (am_row b w)" by (auto simp: am_as_key_def)
  then have "mset (am_row a w) = mset (am_row b w)" by (metis mset_sort)
  then have "mset (map snd (am_row a w)) = mset (map snd (am_row b w))" by simp
  then show ?thesis unfolding row_total_def by (metis sum_mset_sum_list)
qed

lemma totals_key: "am_as_key a = am_as_key b \<Longrightarrow> totals_of a = totals_of b"
  unfolding totals_of_def by (intro map_cong refl row_total_key)

lemma rebuild_allocation_totals:
  fixes seed :: allocation
  assumes cap: "cap_ok cap" and t: "length t = 3" "\<forall>x \<in> set t. 0 \<le> x" "sum_list t \<le> total_capacity cap"
  defines "a \<equiv> rebuild_allocation seed cap (zip WORKER_TYPES t)"
  shows "wf_alloc a" "within_capacity a cap" "totals_of a = t"
proof -
  obtain p q r where pqr: "t = [p, q, r]" using t(1) by (auto simp: numeral_3_eq_3 length_Suc_conv)
  have z: "zip WORKER_TYPES t = [(''pre'', p), (''attn'', q), (''ffn'', r)]" by (simp add: pqr WORKER_TYPES_def)
  note tot = rebuild_totals[OF cap, of p q r seed, folded rebuild_allocation_eq z, folded a_def]
  have wf: "wf_dict cap" using cap by (simp add: cap_ok_def)
  show a: "wf_alloc a" "within_capacity a cap" using tot(1,2) t by (simp_all add: pqr)
  have rows: "rows_of a cap" unfolding a_def rebuild_allocation_eq
    by (rule rebuild_rows[OF cap])
  have "row_total a w = worker_total a w" if "w \<in> set WORKER_TYPES" for w
    using row_total_rows[OF a(1) rows that] worker_total_rows[OF rows wf] by simp
  then show "totals_of a = t" using tot(3-5) t by (simp add: totals_of_def pqr WORKER_TYPES_def)
qed

lemma fold_min_in: "fold min xs (x::int) \<in> insert x (set xs)"
  by (induction xs arbitrary: x) (auto simp: min_def split: if_splits)

lemma worker_options_pos:
  assumes "ats \<noteq> []" "x \<in> set (worker_options va ats i w)"
  shows "1 \<le> x"
proof -
  let ?obs = "map (\<lambda>totals. max 1 (totals ! i)) ats"
  have "fold min ?obs (hd ?obs) \<in> set ?obs" using fold_min_in[of ?obs "hd ?obs"] assms(1) by (cases ats) auto
  then have "1 \<le> fold min ?obs (hd ?obs)" by auto
  then show ?thesis using assms(2) by (auto simp: worker_options_def Let_def split: if_splits)
qed

definition target_ok :: "capacity \<Rightarrow> int list \<Rightarrow> bool" where
  "target_ok cap t \<longleftrightarrow> length t = 3 \<and> (\<forall>x \<in> set t. 0 \<le> x) \<and> sum_list t \<le> total_capacity cap"

lemma worker_ranges_alt: "worker_ranges va ats =
    [worker_options va ats 0 ''pre'', worker_options va ats 1 ''attn'', worker_options va ats 2 ''ffn'']"
  by (simp add: worker_ranges_def WORKER_TYPES_def upt_rec numeral_2_eq_2)

lemma set_sorted_targets: "t \<in> set (sorted_targets va ats) \<longleftrightarrow>
    (\<exists>p q r. t = [p, q, r] \<and> p \<in> set (worker_options va ats 0 ''pre'') \<and> q \<in> set (worker_options va ats 1 ''attn'') \<and>
       r \<in> set (worker_options va ats 2 ''ffn'') \<and> p + q + r \<le> total_capacity (va_capacity va))"
  by (auto simp: sorted_targets_def product_lists_set worker_ranges_alt list_all2_Cons2)

lemma sorted_targets_ok: "ats \<noteq> [] \<Longrightarrow> t \<in> set (sorted_targets va ats) \<Longrightarrow> target_ok (va_capacity va) t"
  by (fastforce simp: set_sorted_targets target_ok_def dest: worker_options_pos)

text \<open>
  What the loop over the targets returns: new allocations within the capacity, one for every
  target that none of the known ones has the totals of, in the order of the targets.
\<close>

lemma build_targets_spec:
  fixes anchors :: "allocation list" and key :: "int list \<Rightarrow> 'k::linorder"
  assumes "cap_ok cap" "\<forall>t \<in> set ts. target_ok cap t"
  defines "res \<equiv> \<lambda>known. build_targets cap anchors (map am_as_key known) ts"
  shows "\<forall>a \<in> set (res known). wf_alloc a \<and> within_capacity a cap \<and> totals_of a \<in> set ts"
    "distinct (map am_as_key (res known)) \<and> am_as_key ` set known \<inter> am_as_key ` set (res known) = {}"
    "\<forall>t \<in> set ts. \<exists>a \<in> set known \<union> set (res known). totals_of a = t"
    "sorted (map key ts) \<Longrightarrow> sorted (map (key \<circ> totals_of) (res known))"
proof -
  let ?res = "\<lambda>known ts. build_targets cap anchors (map am_as_key known) ts"
  have "(\<forall>a \<in> set (?res known ts). wf_alloc a \<and> within_capacity a cap \<and> totals_of a \<in> set ts) \<and>
    (distinct (map am_as_key (?res known ts)) \<and> am_as_key ` set known \<inter> am_as_key ` set (?res known ts) = {}) \<and>
    (\<forall>t \<in> set ts. \<exists>a \<in> set known \<union> set (?res known ts). totals_of a = t) \<and>
    (sorted (map key ts) \<longrightarrow> sorted (map (key \<circ> totals_of) (?res known ts)))"
    using assms(2)
  proof (induction ts arbitrary: known)
    case (Cons t ts)
    define a where "a = rebuild_allocation (min_key_from (\<lambda>a. target_distance t (totals_of a)) (hd anchors) (tl anchors))
        cap (zip WORKER_TYPES t)"
    have a: "wf_alloc a" "within_capacity a cap" "totals_of a = t"
      using rebuild_allocation_totals[OF assms(1)] Cons.prems by (simp_all add: a_def target_ok_def)
    have eq: "?res known (t # ts) = (if am_as_key a \<in> am_as_key ` set known then ?res known ts
        else a # ?res (a # known) ts)"
      using a(3) by (simp add: a_def[symmetric] Let_def)
    have ok: "\<forall>t \<in> set ts. target_ok cap t" using Cons.prems by simp
    show ?case
    proof (cases "am_as_key a \<in> am_as_key ` set known")
      case True
      then obtain b where b: "b \<in> set known" "am_as_key a = am_as_key b" by blast
      then have "totals_of b = t" using a(3) totals_key[OF b(2)] by simp
      then have "\<exists>b \<in> set known \<union> set (?res known ts). totals_of b = t" using b(1) by blast
      then show ?thesis using Cons.IH[OF ok, of known] True unfolding eq by simp
    next
      case False
      note IH = Cons.IH[OF ok, of "a # known"]
      have "sorted (map (key \<circ> totals_of) (a # ?res (a # known) ts))" if "sorted (map key (t # ts))"
        using that IH a(3) by (auto simp: comp_def)
      moreover have "distinct (map am_as_key (a # ?res (a # known) ts)) \<and>
          am_as_key ` set known \<inter> am_as_key ` set (a # ?res (a # known) ts) = {}"
        using IH False by auto
      moreover have "\<forall>t' \<in> set (t # ts). \<exists>b \<in> set known \<union> set (a # ?res (a # known) ts). totals_of b = t'"
        using IH a(3) by (metis (no_types, opaque_lifting) Un_iff list.set_intros(1) list.set_intros(2) set_ConsD)
      moreover have "\<forall>b \<in> set (a # ?res (a # known) ts). wf_alloc b \<and> within_capacity b cap \<and> totals_of b \<in> set (t # ts)"
        using IH a by simp
      moreover have "?res known (t # ts) = a # ?res (a # known) ts" using eq False by (simp only: if_False)
      ultimately show ?thesis by (simp only: simp_thms) blast
    qed
  qed simp
  then show "\<forall>a \<in> set (res known). wf_alloc a \<and> within_capacity a cap \<and> totals_of a \<in> set ts"
    "distinct (map am_as_key (res known)) \<and> am_as_key ` set known \<inter> am_as_key ` set (res known) = {}"
    "\<forall>t \<in> set ts. \<exists>a \<in> set known \<union> set (res known). totals_of a = t"
    "sorted (map key ts) \<Longrightarrow> sorted (map (key \<circ> totals_of) (res known))"
    unfolding res_def by blast+
qed

definition anchor_items :: "allocation list \<Rightarrow> allocation list" where
  "anchor_items anchors = map snd (foldl (\<lambda>d a. AList.update (am_as_key a) a d) [] anchors)"

lemma anchor_items_spec:
  "map fst (foldl (\<lambda>d a. AList.update (am_as_key a) a d) [] anchors) = map am_as_key (anchor_items anchors)"
  "set (anchor_items anchors) \<subseteq> set anchors" "am_as_key ` set (anchor_items anchors) = am_as_key ` set anchors"
proof -
  let ?d = "\<lambda>as. foldl (\<lambda>d a. AList.update (am_as_key a) a d) [] as"
  have upd: "set (AList.update k v d) \<subseteq> insert (k, v) (set d)" for k :: alloc_key and v :: allocation and d
    by (induction d) auto
  have "(\<forall>(k, a) \<in> set (?d anchors). k = am_as_key a \<and> a \<in> set anchors) \<and> fst ` set (?d anchors) = am_as_key ` set anchors"
  proof (induction anchors rule: rev_induct)
    case (snoc a as)
    show ?case using snoc upd[of "am_as_key a" a "?d as"] by (fastforce simp: dom_update)
  qed simp
  then show "map fst (?d anchors) = map am_as_key (anchor_items anchors)" "set (anchor_items anchors) \<subseteq> set anchors"
      "am_as_key ` set (anchor_items anchors) = am_as_key ` set anchors"
    by (auto simp: anchor_items_def split_def image_image cong: image_cong_simp)
qed

lemma local_allocations_eq: "local_allocations va anchors =
    build_targets (va_capacity va) (anchor_items anchors) (map am_as_key (anchor_items anchors))
      (sorted_targets va (map totals_of (anchor_items anchors)))"
  unfolding local_allocations_def Let_def anchor_items_spec(1)[symmetric] by (simp add: anchor_items_def)

lemma anchor_items_nonempty: "anchors \<noteq> [] \<Longrightarrow> anchor_items anchors \<noteq> []"
  using anchor_items_spec(3)[of anchors] by force

lemma local_allocations_valid:
  assumes "cap_ok (va_capacity va)" "anchors \<noteq> []" "a \<in> set (local_allocations va anchors)"
  shows "wf_alloc a" "within_capacity a (va_capacity va)"
proof -
  let ?ts = "sorted_targets va (map totals_of (anchor_items anchors))"
  have "\<forall>t \<in> set ?ts. target_ok (va_capacity va) t"
    using anchor_items_nonempty[OF assms(2)] by (intro ballI sorted_targets_ok) simp_all
  from build_targets_spec(1)[OF assms(1) this] show "wf_alloc a" "within_capacity a (va_capacity va)"
    using assms(3) unfolding local_allocations_eq by blast+
qed

text \<open>
  The local search misses no target. Around any anchors, \<open>_local_allocations\<close> returns
  allocations that pass \<open>validate\<close>, pairwise different and different from the anchors, ordered
  by their distance to the nearest anchor; and every combination of a prefill count between the
  anchors' extremes with decode counts from the options, as far as the capacity holds it, is the
  worker totals of an anchor or of one returned allocation.
\<close>

theorem local_allocations_cover:
  fixes anchors :: "allocation list" and va :: validator
  assumes "cap_ok (va_capacity va)" "anchors \<noteq> []"
  defines "ats \<equiv> map totals_of (anchor_items anchors)" and "res \<equiv> local_allocations va anchors"
  shows "list_all (\<lambda>a. am_validate a (va_capacity va) = Inr ()) res \<and>
    distinct (map am_as_key res) \<and> am_as_key ` set anchors \<inter> am_as_key ` set res = {} \<and>
    sorted (map (target_key ats \<circ> totals_of) res) \<and>
    (\<forall>p q r. p \<in> set (worker_options va ats 0 ''pre'') \<and> q \<in> set (worker_options va ats 1 ''attn'') \<and>
       r \<in> set (worker_options va ats 2 ''ffn'') \<and> p + q + r \<le> total_capacity (va_capacity va) \<longrightarrow>
       (\<exists>a \<in> set anchors \<union> set res. totals_of a = [p, q, r]))"
proof -
  have "\<forall>t \<in> set (sorted_targets va ats). target_ok (va_capacity va) t"
    using anchor_items_nonempty[OF assms(2)] by (intro ballI sorted_targets_ok) (simp_all add: ats_def)
  note spec = build_targets_spec[OF assms(1) this, where anchors = "anchor_items anchors" and known = "anchor_items anchors",
      unfolded ats_def, folded local_allocations_eq, folded ats_def res_def]
  have "list_all (\<lambda>a. am_validate a (va_capacity va) = Inr ()) res" using spec(1) by (simp add: list_all_iff validate_wf)
  moreover have "am_as_key ` set anchors \<inter> am_as_key ` set res = {}" using spec(2) anchor_items_spec(3) by metis
  moreover have "sorted (map (target_key ats \<circ> totals_of) res)"
    by (rule spec(4)) (simp add: sorted_targets_def)
  moreover have "\<exists>a \<in> set anchors \<union> set res. totals_of a = [p, q, r]" if "[p, q, r] \<in> set (sorted_targets va ats)" for p q r
    using spec(3) that anchor_items_spec(2)[of anchors] by blast
  ultimately show ?thesis using spec(2) by (simp add: set_sorted_targets)
qed

definition sample_validator :: validator where
  "sample_validator = fst (StabilityValidator sample_framework sample_workload (sample_plan_with [])
     [(''NVDA:H20'', 6)] \<lparr>sc_max_rounds = 3, sc_max_candidates = 16, sc_timeout_s = 5\<rparr> True (\<lambda>i. real i))"

theorem local_allocations_cover_witness:
  "cap_ok (va_capacity sample_validator) \<and>
   list_all (\<lambda>a. am_validate a [(''NVDA:H20'', 6)] = Inr ())
     (local_allocations sample_validator [am_uniform [(''NVDA:H20'', 6)], am_uniform [(''NVDA:H20'', 3)]])"
proof -
  have cap: "va_capacity sample_validator = [(''NVDA:H20'', 6)]" by (simp add: sample_validator_def StabilityValidator_def)
  have ok: "cap_ok [(''NVDA:H20'', 6)]" by (simp add: cap_ok_def wf_dict_def)
  show ?thesis
    using local_allocations_cover[of sample_validator "[am_uniform [(''NVDA:H20'', 6)], am_uniform [(''NVDA:H20'', 3)]]"] ok
    unfolding cap by blast
qed

lemma evaluate_neighbours_returns:
  assumes "validator_ok va" "sound va st" "\<And>a. a \<in> set as \<Longrightarrow> wf_alloc a \<and> within_capacity a (va_capacity va)"
  shows "returns (evaluate_neighbours va as st) (\<lambda>st'. sound va st' \<and> grows va st st')"
  using assms(2,3)
proof (induction as arbitrary: st)
  case (Cons a as)
  have rest: "\<And>b. b \<in> set as \<Longrightarrow> wf_alloc b \<and> within_capacity b (va_capacity va)" using Cons.prems(2) by simp
  show ?case
  proof (cases "am_as_key a \<in> fst ` set (vs_evaluated st)")
    case True
    then show ?thesis using Cons.IH[OF Cons.prems(1) rest] by simp
  next
    case False
    have a: "wf_alloc a" "within_capacity a (va_capacity va)" using Cons.prems(2) by simp_all
    have "returns (case r of None \<Rightarrow> Inr st1 | Some _ \<Rightarrow> evaluate_neighbours va as st1) (\<lambda>st'. sound va st' \<and> grows va st st')"
      if "sound va st1" "grows va st st1" for r st1
      using Cons.IH[OF that(1) rest] that grows_trans[OF that(2)]
      by (auto elim!: returns_mono split: option.split)
    then show ?thesis
      using False by (simp only: evaluate_neighbours.simps if_False)
        (rule returns_bindI[OF evaluate_in_returns[OF assms(1) Cons.prems(1) a]], auto)
  qed
qed simp

section \<open>Selection\<close>

text \<open>
  The label that goes with a selected plan is true of it: a fixed point is safe and a fixed
  point of the scaling, a held plan is safe, and when the capacity is the limit no admissible
  plan that was evaluated is safe and none has a larger bottleneck.
\<close>

definition label_true :: "validator \<Rightarrow> (alloc_key, plan) dict \<Rightarrow> plan \<times> string \<Rightarrow> bool" where
  "label_true va d ps \<longleftrightarrow> (case ps of (p, s) \<Rightarrow>
     s = ''stable_fixed_point'' \<and> is_safe va p \<and> is_fixed_point va p \<or>
     s = ''quantization_hold'' \<and> is_safe va p \<or>
     s = ''capacity_limited'' \<and> (\<forall>(k, q) \<in> set d. candidate_allowed va q \<longrightarrow>
        \<not> is_safe va q \<and> plan_bottleneck q \<le> plan_bottleneck p))"

definition selected_from :: "validator \<Rightarrow> (alloc_key, plan) dict \<Rightarrow> plan \<times> string \<Rightarrow> bool" where
  "selected_from va d ps \<longleftrightarrow> label_true va d ps \<and> candidate_allowed va (fst ps) \<and>
     fst ps \<in> insert (va_current va) (snd ` set d)"

lemma current_allowed: "candidate_allowed va (va_current va)"
  by (simp add: candidate_allowed_def list_all_iff)

lemma min_key_returns: "xs \<noteq> [] \<Longrightarrow> (\<And>x. x \<in> set xs \<Longrightarrow> P x) \<Longrightarrow> returns (min_key key xs) P"
  using min_key_total[of xs key] min_key_Inr(1)[of key xs] by (auto simp: returns_def)

lemma max_key_returns:
  "xs \<noteq> [] \<Longrightarrow> returns (max_key key xs) (\<lambda>m. m \<in> set xs \<and> (\<forall>x \<in> set xs. key x \<le> key m))"
  using max_key_total[of xs key] max_key_Inr[of key xs] by (auto simp: returns_def)

lemma select_fallback_returns: "returns (select_fallback va st) (selected_from va (vs_evaluated st))"
proof -
  let ?d = "vs_evaluated st"
  define allowed where "allowed = (let a = filter (candidate_allowed va) (map snd ?d) in if a = [] then [va_current va] else a)"
  define safe where "safe = filter (is_safe va) allowed"
  have sel: "select_fallback va st =
      (if filter (is_fixed_point va) safe \<noteq> []
       then bind_result (min_key (plan_rank va) (filter (is_fixed_point va) safe)) (\<lambda>p. Inr (p, ''stable_fixed_point''))
       else if safe \<noteq> [] then bind_result (min_key (plan_rank va) safe) (\<lambda>p. Inr (p, ''quantization_hold''))
       else bind_result (max_key (\<lambda>p. (plan_bottleneck p, - total_gpus (p_allocation p), - p_cost_per_hour p)) allowed)
              (\<lambda>p. Inr (p, ''capacity_limited'')))"
    by (simp add: select_fallback_def Let_def allowed_def safe_def)
  have mem: "candidate_allowed va p \<and> p \<in> insert (va_current va) (snd ` set ?d)" if "p \<in> set allowed" for p
    using that current_allowed by (auto simp: allowed_def Let_def split: if_splits)
  have ne: "allowed \<noteq> []" by (simp add: allowed_def Let_def)
  have all: "q \<in> set allowed" if "(k, q) \<in> set ?d" "candidate_allowed va q" for k q
    using that by (force simp: allowed_def Let_def filter_empty_conv)
  consider (fixed) "filter (is_fixed_point va) safe \<noteq> []" | (hold) "filter (is_fixed_point va) safe = []" "safe \<noteq> []"
    | (limited) "safe = []" by auto
  then show ?thesis
  proof cases
    case fixed
    have "returns (min_key (plan_rank va) (filter (is_fixed_point va) safe))
        (\<lambda>p. selected_from va ?d (p, ''stable_fixed_point''))"
      using fixed mem by (intro min_key_returns) (auto simp: safe_def selected_from_def label_true_def)
    then show ?thesis using fixed unfolding sel by (auto intro: returns_bindI)
  next
    case hold
    have "returns (min_key (plan_rank va) safe) (\<lambda>p. selected_from va ?d (p, ''quantization_hold''))"
      using hold mem by (intro min_key_returns) (auto simp: safe_def selected_from_def label_true_def)
    then show ?thesis using hold unfolding sel by (auto intro: returns_bindI)
  next
    case limited
    have "\<not> is_safe va q" if "q \<in> set allowed" for q using limited that by (auto simp: safe_def filter_empty_conv)
    then have "selected_from va ?d (m, ''capacity_limited'')"
      if "m \<in> set allowed" "\<forall>q \<in> set allowed. plan_bottleneck q \<le> plan_bottleneck m" for m
      using that mem all by (auto simp: selected_from_def label_true_def)
    moreover have "returns (max_key (\<lambda>p. (plan_bottleneck p, - total_gpus (p_allocation p), - p_cost_per_hour p)) allowed)
        (\<lambda>m. m \<in> set allowed \<and> (\<forall>q \<in> set allowed. plan_bottleneck q \<le> plan_bottleneck m))"
      by (rule returns_mono[OF max_key_returns[OF ne]]) (auto simp: less_eq_prod_def)
    ultimately show ?thesis using limited unfolding sel by (auto elim!: returns_bindI)
  qed
qed

lemma select_plan_returns:
  assumes "validator_ok va" "sound va st" "fixed_ok va st (wk_fixed w)" "wk_anchors w \<noteq> []"
  shows "returns (select_plan va w st) (\<lambda>(ps, st'). sound va st' \<and> grows va st st' \<and>
    selected_from va (vs_evaluated st') ps)"
proof (cases "fixed_safe va w st = []")
  case False
  have "selected_from va (vs_evaluated st) (p, ''stable_fixed_point'')" if p: "p \<in> set (fixed_safe va w st)" for p
  proof -
    obtain k where k: "(k, p) \<in> set (vs_evaluated st)" "k \<in> set (wk_fixed w)" "is_safe va p" "candidate_allowed va p"
      using p by (auto simp: fixed_safe_def)
    then obtain q where "(k, q) \<in> set (vs_evaluated st)" "is_fixed_point va q" using assms(3) by (auto simp: fixed_ok_def)
    then have "is_fixed_point va p" using sound_unique[OF assms(2) k(1)] by simp
    then show ?thesis using k by (force simp: selected_from_def label_true_def)
  qed
  then have "returns (min_key (plan_rank va) (fixed_safe va w st))
      (\<lambda>p. selected_from va (vs_evaluated st) (p, ''stable_fixed_point''))"
    by (rule min_key_returns[OF False])
  then show ?thesis using False assms(2) by (auto simp: select_plan_def intro: returns_bindI)
next
  case True
  have cap: "cap_ok (va_capacity va)" using assms(1) by (simp add: validator_ok_def)
  have "returns (if wk_triggered w then evaluate_neighbours va (local_allocations va (wk_anchors w)) st else Inr st)
      (\<lambda>st'. sound va st' \<and> grows va st st')"
    using evaluate_neighbours_returns[OF assms(1,2)] local_allocations_valid[OF cap assms(4)] assms(2) by simp
  moreover have "returns (bind_result (select_fallback va st1) (\<lambda>ps. Inr (ps, st1)))
      (\<lambda>(ps, st'). sound va st' \<and> grows va st st' \<and> selected_from va (vs_evaluated st') ps)"
    if "sound va st1 \<and> grows va st st1" for st1
    using that by (auto intro: returns_bindI[OF select_fallback_returns])
  ultimately show ?thesis using True by (auto simp: select_plan_def intro: returns_bindI)
qed

text \<open>What a selection means for the caller, in terms of the plans \<open>known\<close> before the run.\<close>

definition sound_choice :: "validator \<Rightarrow> plan list \<Rightarrow> plan \<Rightarrow> bool" where
  "sound_choice va known p \<longleftrightarrow> candidate_allowed va p \<and>
     ((\<exists>q \<in> set known. candidate_allowed va q \<and> is_safe va q) \<longrightarrow> is_safe va p)"

lemma selected_sound_choice:
  assumes "selected_from va d (p, s)" "set known \<subseteq> snd ` set d"
  shows "sound_choice va known p"
  using assms by (fastforce simp: selected_from_def label_true_def sound_choice_def)

definition run_start :: "validator \<Rightarrow> plan \<Rightarrow> validation \<Rightarrow> validation" where
  "run_start va proposed st = st\<lparr>vs_evaluated := AList.update (am_as_key (p_allocation proposed)) proposed (vs_evaluated st)\<rparr>"

lemma run_start_sound:
  assumes "admissible va (va_current va)" "admissible va proposed"
    and "vs_evaluated st = [(am_as_key (p_allocation (va_current va)), va_current va)]"
  shows "sound va (run_start va proposed st)" "length (vs_evaluated (run_start va proposed st)) \<le> 2"
    "(am_as_key (p_allocation proposed), proposed) \<in> set (vs_evaluated (run_start va proposed st))"
    "am_as_key (p_allocation proposed) \<noteq> am_as_key (p_allocation (va_current va)) \<Longrightarrow>
       va_current va \<in> snd ` set (vs_evaluated (run_start va proposed st))"
  using assms by (auto simp: run_start_def sound_def wf_dict_def)

text \<open>The plans a proposal is compared with: the current one, unless the proposal takes its key.\<close>

definition known_plans :: "plan \<Rightarrow> plan \<Rightarrow> plan list" where
  "known_plans current proposed =
     (if am_as_key (p_allocation proposed) = am_as_key (p_allocation current) then [proposed] else [current, proposed])"

definition run_result :: "validator \<Rightarrow> plan \<Rightarrow> plan \<times> stability_metadata \<Rightarrow> bool" where
  "run_result va proposed r \<longleftrightarrow> (case r of (p, md) \<Rightarrow>
     admissible va p \<and> sound_choice va (known_plans (va_current va) proposed) p \<and>
     sm_evaluated_candidates md \<le> 2 + va_max_candidates va \<and>
     (sm_selection md = ''stable_fixed_point'' \<longrightarrow> is_safe va p \<and> is_fixed_point va p) \<and>
     (sm_selection md = ''quantization_hold'' \<longrightarrow> is_safe va p) \<and>
     (sm_selection md = ''backlog_hold'' \<longrightarrow> \<not> va_allow_scale_in va \<and>
        am_as_key (p_allocation p) = am_as_key (p_allocation (va_current va))))"

lemma run_validator_returns:
  assumes ok: "validator_ok va" and adm: "admissible va (va_current va)" "admissible va proposed"
    and st: "vs_evaluated st = [(am_as_key (p_allocation (va_current va)), va_current va)]"
      "vs_new_evaluations st = 0" "0 \<le> va_max_candidates va"
  shows "returns (run_validator va proposed st) (run_result va proposed)"
proof -
  let ?c = "va_current va" and ?k = "am_as_key (p_allocation proposed)" and ?s = "run_start va proposed st"
  let ?allowed = "candidate_allowed va proposed"
  define w where "w = \<lparr>wk_anchors = [am_clone (p_allocation ?c), am_clone (p_allocation proposed)],
     wk_path = [allocation_values (p_allocation ?c), allocation_values (p_allocation proposed)],
     wk_triggered = (\<not> ?allowed \<or> \<not> is_safe va proposed), wk_fixed = [], wk_seen = [?k]\<rparr>"
  define label where "label p s = (if \<not> ?allowed \<and> am_as_key (p_allocation p) = am_as_key (p_allocation ?c)
      then ''backlog_hold'' else s)" for p :: plan and s
  have run: "run_validator va proposed st =
      bind_result (follow (nat (max 1 (va_max_rounds va))) va proposed w ?s) (\<lambda>(w1, st1).
        bind_result (select_plan va w1 st1) (\<lambda>((p, s), st2).
          Inr (p, metadata_of va st2 (wk_triggered w1) (label p s) (wk_path w1) p)))"
    by (simp only: run_validator_def Let_def w_def run_start_def label_def)
  note start = run_start_sound[OF adm st(1)]
  have w: "fixed_ok va ?s (wk_fixed w)" "wk_anchors w \<noteq> []" by (simp_all add: w_def fixed_ok_def)
  have known: "set (known_plans ?c proposed) \<subseteq> snd ` set (vs_evaluated ?s)"
    using start(4) imageI[OF start(3), of snd] by (auto simp: known_plans_def)
  have result: "run_result va proposed (p, metadata_of va st2 tr (label p s) path p)"
    if sel: "sound va st2" "grows va ?s st2" "selected_from va (vs_evaluated st2) (p, s)" for p s st2 tr path
  proof -
    have "p \<in> insert ?c (snd ` set (vs_evaluated st2))" using sel(3) by (simp add: selected_from_def)
    then have "admissible va p" using sel(1) adm(1) by (auto simp: sound_def)
    moreover have "sound_choice va (known_plans ?c proposed) p"
      using selected_sound_choice[OF sel(3)] known grows_evaluated[OF sel(2)] by (meson image_mono order_trans)
    moreover have "int (length (vs_evaluated st2)) \<le> 2 + va_max_candidates va"
      using sel(2) start(2) st(2,3) by (auto simp: grows_def run_start_def)
    moreover have "s \<noteq> ''backlog_hold''" "s = ''stable_fixed_point'' \<Longrightarrow> is_safe va p \<and> is_fixed_point va p"
        "s = ''quantization_hold'' \<Longrightarrow> is_safe va p"
      using sel(3) by (auto simp: selected_from_def label_true_def)
    moreover have "\<not> ?allowed \<Longrightarrow> \<not> va_allow_scale_in va" by (auto simp: candidate_allowed_def)
    ultimately show ?thesis by (auto simp: run_result_def metadata_of_def label_def)
  qed
  show ?thesis unfolding run
  proof (rule returns_bindI[OF follow_returns[OF ok start(1) w start(3)]], clarify)
    fix w1 :: walk and st1 assume w1: "sound va st1" "grows va ?s st1" "fixed_ok va st1 (wk_fixed w1)" "wk_anchors w1 \<noteq> []"
    show "returns (bind_result (select_plan va w1 st1) (\<lambda>((p, s), st2).
          Inr (p, metadata_of va st2 (wk_triggered w1) (label p s) (wk_path w1) p))) (run_result va proposed)"
      by (rule returns_bindI[OF select_plan_returns[OF ok w1(1,3,4)]])
        (use result grows_trans[OF w1(2)] in auto)
  qed
qed

lemma stabilize_ok:
  fixes current proposed :: plan and cfg :: stability_config and wl :: workload_profile
    and allow :: bool and clock :: "nat \<Rightarrow> real"
  assumes "env_ok (fw_env fw)" "cap_ok cap" "previous_ok (Some (p_parallelism current))"
    and "plan_ok (fw_env fw) current" "within_capacity (p_allocation current) cap"
    and "plan_ok (fw_env fw) proposed" "within_capacity (p_allocation proposed) cap"
  obtains p md where "stabilize_autoscaling_plan fw wl current proposed cap cfg allow clock = Inr (p, md)"
    "run_result (fst (StabilityValidator fw wl current cap cfg allow clock)) proposed (p, md)"
proof -
  note result = that
  let ?va = "fst (StabilityValidator fw wl current cap cfg allow clock)"
  let ?st = "snd (StabilityValidator fw wl current cap cfg allow clock)"
  have "returns (run_validator ?va proposed ?st) (run_result ?va proposed)"
    using assms by (intro run_validator_returns) (simp_all add: validator_ok_def admissible_def StabilityValidator_def)
  then obtain p md where "run_validator ?va proposed ?st = Inr (p, md)" "run_result ?va proposed (p, md)"
    by (auto simp: returns_def)
  then show ?thesis by (intro result[of p md]) (simp_all add: stabilize_autoscaling_plan_def split_def)
qed

text \<open>
  C10. The stability check. Whatever the budget of candidates and the readings of the clock,
  \<open>stabilize_autoscaling_plan\<close> returns a plan that passes \<open>validate\<close> for the capacity and whose
  strategies fit it. When scaling in is not allowed no worker type has fewer GPUs than now. If
  the proposal is allowed and safe, or the current plan is safe and not replaced by a proposal
  with the same matrix, the returned plan is safe as well. At most \<open>max_candidates\<close> plans are
  evaluated beside the two given ones, and the reported selection is true: a
  \<open>stable_fixed_point\<close> is safe and mapped to itself by the proportional scaling, a
  \<open>quantization_hold\<close> is safe, and a \<open>backlog_hold\<close> is the current allocation.
\<close>

theorem stabilize_plan_safe:
  fixes current proposed :: plan and cfg :: stability_config and wl :: workload_profile
    and allow :: bool and clock :: "nat \<Rightarrow> real"
  assumes "env_ok (fw_env fw)" "cap_ok cap" "previous_ok (Some (p_parallelism current))"
    and "plan_ok (fw_env fw) current" "within_capacity (p_allocation current) cap"
    and "plan_ok (fw_env fw) proposed" "within_capacity (p_allocation proposed) cap"
  defines "va \<equiv> fst (StabilityValidator fw wl current cap cfg allow clock)"
  shows "\<exists>p md. stabilize_autoscaling_plan fw wl current proposed cap cfg allow clock = Inr (p, md) \<and>
    am_validate (p_allocation p) cap = Inr () \<and>
    strategies_fit (ge_local (fw_env fw)) (p_allocation p) (p_parallelism p) \<and>
    (\<not> allow \<longrightarrow> (\<forall>w \<in> set WORKER_TYPES. row_total (p_allocation current) w \<le> row_total (p_allocation p) w)) \<and>
    (candidate_allowed va proposed \<and> is_safe va proposed \<longrightarrow> is_safe va p) \<and>
    (is_safe va current \<and> am_as_key (p_allocation proposed) \<noteq> am_as_key (p_allocation current) \<longrightarrow> is_safe va p) \<and>
    sm_evaluated_candidates md \<le> 2 + max 0 (sc_max_candidates cfg) \<and>
    (sm_selection md = ''stable_fixed_point'' \<longrightarrow> is_safe va p \<and>
       am_as_key (proportional_scale_allocation (fw_auto fw) wl p cap) = am_as_key (p_allocation p)) \<and>
    (sm_selection md = ''quantization_hold'' \<longrightarrow> is_safe va p) \<and>
    (sm_selection md = ''backlog_hold'' \<longrightarrow> am_as_key (p_allocation p) = am_as_key (p_allocation current))"
proof -
  have va: "va_framework va = fw" "va_current va = current" "va_capacity va = cap" "va_workload va = wl"
      "va_allow_scale_in va = allow" "va_max_candidates va = max 0 (sc_max_candidates cfg)"
    by (simp_all add: va_def StabilityValidator_def)
  obtain p md where r: "stabilize_autoscaling_plan fw wl current proposed cap cfg allow clock = Inr (p, md)"
      "run_result va proposed (p, md)"
    unfolding va_def by (rule stabilize_ok[OF assms(1-7)])
  note r(1)
  moreover have "am_validate (p_allocation p) cap = Inr ()"
      "strategies_fit (ge_local (fw_env fw)) (p_allocation p) (p_parallelism p)"
    using r(2) by (simp_all add: run_result_def admissible_def plan_ok_def validate_wf va)
  moreover have "\<not> allow \<longrightarrow> (\<forall>w \<in> set WORKER_TYPES. row_total (p_allocation current) w \<le> row_total (p_allocation p) w)"
    using r(2) by (auto simp: run_result_def sound_choice_def candidate_allowed_def list_all_iff va)
  moreover have "candidate_allowed va proposed \<and> is_safe va proposed \<longrightarrow> is_safe va p"
    using r(2) by (auto simp: run_result_def sound_choice_def known_plans_def va split: if_splits)
  moreover have "is_safe va current \<and> am_as_key (p_allocation proposed) \<noteq> am_as_key (p_allocation current) \<longrightarrow> is_safe va p"
    using r(2) current_allowed[of va] by (auto simp: run_result_def sound_choice_def known_plans_def va split: if_splits)
  ultimately show ?thesis
    using r(2) by (intro exI[of _ p] exI[of _ md]) (simp add: run_result_def va is_fixed_point_def follow_up_of_def)
qed

lemma sample_plan_ok: "plan_ok (fw_env sample_framework) (sample_plan_with th)"
  by (simp add: plan_ok_def sample_plan_with_def strategies_fit_def)

theorem stabilize_plan_safe_witness:
  "\<exists>p md. stabilize_autoscaling_plan sample_framework sample_workload
      (sample_plan_with [(''pre'', 1), (''attn'', 1), (''ffn'', 1)]) (sample_plan_with [(''pre'', 9), (''attn'', 9), (''ffn'', 9)])
      [(''NVDA:H20'', 6)] \<lparr>sc_max_rounds = 3, sc_max_candidates = 16, sc_timeout_s = 5\<rparr> False (\<lambda>i. real i) = Inr (p, md) \<and>
    am_validate (p_allocation p) [(''NVDA:H20'', 6)] = Inr () \<and> sm_evaluated_candidates md \<le> 18 \<and>
    100 / 83 \<le> plan_bottleneck p + 1 / 10^9"
proof -
  let ?cap = "[(''NVDA:H20'', 6)] :: capacity" and ?c = "sample_plan_with [(''pre'', 1), (''attn'', 1), (''ffn'', 1)]"
    and ?p = "sample_plan_with [(''pre'', 9), (''attn'', 9), (''ffn'', 9)]"
    and ?cfg = "\<lparr>sc_max_rounds = 3, sc_max_candidates = 16, sc_timeout_s = 5\<rparr>"
  let ?va = "fst (StabilityValidator sample_framework sample_workload ?c ?cap ?cfg False (\<lambda>i. real i))"
  have cap: "cap_ok ?cap" by (simp add: cap_ok_def wf_dict_def)
  have env: "env_ok (fw_env sample_framework)"
    by (simp add: sample_framework_def HexGenSchedulingFramework_def env_ok_def)
  have prev: "previous_ok (Some (p_parallelism ?c))" by (simp add: previous_ok_def sample_plan_with_def)
  have within: "within_capacity (p_allocation (sample_plan_with th)) ?cap" for th
    using total_uniform[of ?cap "''NVDA:H20''"] by (simp add: within_capacity_def sample_plan_with_def dict_getd_def wf_dict_def)
  have req: "va_required_throughput ?va = 100 / 83"
    by (simp add: StabilityValidator_def sample_workload_def sample_framework_def HexGenSchedulingFramework_def default_autoscaling_def)
  have "candidate_allowed ?va ?p" by (simp add: candidate_allowed_def StabilityValidator_def sample_plan_with_def list_all_iff)
  moreover have "is_safe ?va ?p"
    unfolding is_safe_def req by (simp add: plan_bottleneck_def bottleneck_def sample_plan_with_def dict_getd_def WORKER_TYPES_def min_real_def)
  ultimately show ?thesis
    using stabilize_plan_safe[OF env cap prev sample_plan_ok within sample_plan_ok within,
        of sample_workload "[(''pre'', 9), (''attn'', 9), (''ffn'', 9)]" ?cfg False "\<lambda>i. real i"]
    by (auto simp: is_safe_def req)
qed

end
