(* ===== verification/Workload_Evaluation.thy ===== *)
theory Workload_Evaluation
  imports Framework
begin

text \<open>
  The evaluation helpers of \<open>scheduler/simulator/scheduling/evaluation.py\<close>: timing the global
  scheduler over cluster sizes, and driving one framework through a sequence of load windows
  with \<open>optimize\<close> for the first and \<open>reschedule\<close> for the later ones. \<open>plan_to_dict\<close> of
  \<open>framework.py\<close> is here too, since the measurements are read off it.

  The framework object is mutated (its stability window, the plan cache, the random generator),
  so the loop threads \<open>eval_state\<close>. \<open>perf_counter\<close> is a sequence of readings. The caller's
  \<open>framework_factory\<close> is a function of the number of the call, giving a framework and its fresh
  scheduler state.

  The lemmas show which windows raise, and that otherwise the recorded allocations form a chain
  of valid, quantised allocations whose deltas add up.
\<close>

section \<open>Serialised plans\<close>

record plan_dict =
  pd_allocation :: matrix_values
  pd_parallelism :: "(string, strategy) dict"
  pd_slice_plans :: "(string, slice_plan) dict"
  pd_throughput_req_s :: throughput_profile
  pd_system_throughput_req_s :: real
  pd_estimated_latency_s :: xreal
  pd_tail_latency_s :: "(string, xreal) dict"
  pd_cost_per_hour :: real
  pd_req_per_dollar :: real
  pd_iterations :: int
  pd_metadata :: "(string, plan_meta) dict"
  pd_history :: "history_entry list"

definition slash_keys :: "(slice_key, 'a) dict \<Rightarrow> (string, 'a) dict" where
  "slash_keys d = foldl (\<lambda>r ((w, h), v). AList.update (w @ ''/'' @ h) v r) [] (sort_key fst d)"

definition history_of :: "(string, plan_meta) dict \<Rightarrow> history_entry list" where
  "history_of md = (case map_of md ''history'' of Some (MHistory hs) \<Rightarrow> hs | _ \<Rightarrow> [])"

definition plan_to_dict :: "plan \<Rightarrow> plan_dict" where
  "plan_to_dict p =
     \<lparr>pd_allocation = dict_comp WORKER_TYPES (\<lambda>w. dict_getd (am_values (p_allocation p)) w []),
      pd_parallelism = slash_keys (p_parallelism p), pd_slice_plans = slash_keys (p_slice_plans p),
      pd_throughput_req_s = p_throughput p, pd_system_throughput_req_s = bottleneck (p_throughput p),
      pd_estimated_latency_s = p_estimated_latency_s p, pd_tail_latency_s = p_tail_latency_s p,
      pd_cost_per_hour = p_cost_per_hour p, pd_req_per_dollar = p_req_per_dollar p,
      pd_iterations = p_iterations p,
      pd_metadata = filter (\<lambda>(k, v). k \<noteq> ''history'') (p_metadata p),
      pd_history = history_of (p_metadata p)\<rparr>"

section \<open>Cases, windows and measurements\<close>

record scheduling_case =
  cs_name :: string
  cs_capacity :: capacity

record scheduling_measurement =
  se_case_name :: string
  se_repeat :: int
  se_capacity :: capacity
  se_elapsed_s :: real
  se_iterations :: int
  se_system_throughput_req_s :: real
  se_estimated_latency_s :: xreal
  se_cost_per_hour :: real
  se_req_per_dollar :: real
  se_allocation :: matrix_values
  se_parallelism :: "(string, strategy) dict"
  se_throughput_req_s :: throughput_profile

record load_window =
  lw_name :: string
  lw_start_s :: real
  lw_duration_s :: real
  lw_arrival_rate :: real
  lw_input_scale :: real
  lw_output_scale :: real
  lw_capacity :: "capacity option"

record autoscaling_measurement =
  me_window_name :: string
  me_start_s :: real
  me_duration_s :: real
  me_arrival_rate :: real
  me_capacity :: capacity
  me_elapsed_s :: real
  me_iterations :: int
  me_worker_expansion :: "(string, real) dict"
  me_action_by_worker :: "(string, string) dict"
  me_allocation_delta_by_worker :: "(string, int) dict"
  me_initial_scaled_allocation :: matrix_values
  me_allocation :: matrix_values
  me_parallelism :: "(string, strategy) dict"
  me_throughput_req_s :: throughput_profile
  me_system_throughput_req_s :: real
  me_estimated_latency_s :: xreal
  me_tail_latency_s :: "(string, xreal) dict"
  me_reconfiguration_cost_s :: real

definition scale_tokens :: "int list \<Rightarrow> real \<Rightarrow> int list result" where
  "scale_tokens vals scale =
     (if scale \<le> 0 then Inl (ValueError ''token scale must be positive'')
      else Inr (map (\<lambda>v. max 1 (py_round (of_int v * scale))) vals))"

definition workload_from :: "load_window \<Rightarrow> workload_profile \<Rightarrow> workload_profile result" where
  "workload_from win base =
     (if lw_duration_s win \<le> 0 then Inl (ValueError ''duration_s must be positive'')
      else if lw_arrival_rate win \<le> 0 then Inl (ValueError ''arrival_rate must be positive'')
      else bind_result (scale_tokens (input_lengths base) (lw_input_scale win)) (\<lambda>ins.
           bind_result (scale_tokens (output_lengths base) (lw_output_scale win)) (\<lambda>outs.
             WorkloadProfile (lw_arrival_rate win) ins outs (max_batch_size base))))"

text \<open>\<open>int(count)\<close> of an integer is the integer itself.\<close>

definition normalize_capacity :: "capacity \<Rightarrow> capacity result" where
  "normalize_capacity cap =
     (if list_ex (\<lambda>(h, n). n < 0) cap then Inl (ValueError ''capacity values must be non-negative'')
      else if sum_list (map snd cap) < int (length WORKER_TYPES)
      then Inl (ValueError ''capacity must have at least one GPU per worker type'')
      else Inr cap)"

definition current_total :: "allocation \<Rightarrow> string \<Rightarrow> int" where
  "current_total a w = sum_list (map (am_get a w) (hardware_types a))"

definition allocation_delta :: "allocation option \<Rightarrow> allocation \<Rightarrow> (string, int) dict" where
  "allocation_delta previous current =
     (case previous of
        None \<Rightarrow> dict_comp WORKER_TYPES (current_total current)
      | Some a \<Rightarrow> dict_comp WORKER_TYPES (\<lambda>w. current_total current w - current_total a w))"

definition action_for_factor :: "real \<Rightarrow> string" where
  "action_for_factor factor =
     (if 1 < factor then ''scale_up'' else if factor < 1 then ''scale_down'' else ''hold'')"

section \<open>Measuring the scheduler\<close>

definition scheduling_measurement_of ::
    "string \<Rightarrow> int \<Rightarrow> capacity \<Rightarrow> real \<Rightarrow> plan \<Rightarrow> scheduling_measurement" where
  "scheduling_measurement_of name repeat cap elapsed p =
     (let d = plan_to_dict p in
      \<lparr>se_case_name = name, se_repeat = repeat, se_capacity = cap, se_elapsed_s = elapsed,
       se_iterations = p_iterations p, se_system_throughput_req_s = pd_system_throughput_req_s d,
       se_estimated_latency_s = pd_estimated_latency_s d, se_cost_per_hour = pd_cost_per_hour d,
       se_req_per_dollar = pd_req_per_dollar d, se_allocation = pd_allocation d,
       se_parallelism = pd_parallelism d, se_throughput_req_s = pd_throughput_req_s d\<rparr>)"

text \<open>
  The state of the loop of \<open>measure_scheduling_cases\<close>: how often the factory was called, which is
  half the number of clock readings, and the measurements so far.
\<close>

definition measure_one ::
    "(nat \<Rightarrow> framework \<times> global_state) \<Rightarrow> (nat \<Rightarrow> real) \<Rightarrow> workload_profile \<Rightarrow> scheduling_case \<Rightarrow> capacity \<Rightarrow>
     nat \<times> scheduling_measurement list \<Rightarrow> int \<Rightarrow> (nat \<times> scheduling_measurement list) result" where
  "measure_one factory clock wl cse cap st repeat =
     (case st of (calls, ms) \<Rightarrow> case factory calls of (fw, gs) \<Rightarrow>
        bind_result (optimize (fw_env fw) wl cap None None gs) (\<lambda>(p, gs').
          Inr (calls + 1, ms @ [scheduling_measurement_of (cs_name cse) repeat cap
                                 (clock (2 * calls + 1) - clock (2 * calls)) p])))"

definition measure_case ::
    "(nat \<Rightarrow> framework \<times> global_state) \<Rightarrow> (nat \<Rightarrow> real) \<Rightarrow> workload_profile \<Rightarrow> int \<Rightarrow>
     nat \<times> scheduling_measurement list \<Rightarrow> scheduling_case \<Rightarrow> (nat \<times> scheduling_measurement list) result" where
  "measure_case factory clock wl repeats st cse =
     bind_result (normalize_capacity (cs_capacity cse)) (\<lambda>cap.
       fold_result (measure_one factory clock wl cse cap) st [0..repeats - 1])"

definition measure_scheduling_cases ::
    "(nat \<Rightarrow> framework \<times> global_state) \<Rightarrow> (nat \<Rightarrow> real) \<Rightarrow> workload_profile \<Rightarrow> scheduling_case list \<Rightarrow> int \<Rightarrow>
     scheduling_measurement list result" where
  "measure_scheduling_cases factory clock wl cases repeats =
     (if repeats \<le> 0 then Inl (ValueError ''repeats must be positive'')
      else bind_result (fold_result (measure_case factory clock wl repeats) (0, []) cases)
             (\<lambda>(calls, ms). Inr ms))"

section \<open>Load windows\<close>

definition autoscaling_measurement_of ::
    "load_window \<Rightarrow> capacity \<Rightarrow> real \<Rightarrow> plan \<Rightarrow> allocation option \<Rightarrow> bool \<Rightarrow> autoscaling_measurement" where
  "autoscaling_measurement_of win cap elapsed p previous initial_window =
     (let d = plan_to_dict p;
          (recorded, scaled) = (case map_of (p_metadata p) ''autoscaling'' of
              Some (MAutoscaling factors vals c) \<Rightarrow> (factors, vals)
            | _ \<Rightarrow> ([], pd_allocation d));
          expansion = (if initial_window then dict_comp WORKER_TYPES (\<lambda>w. 1) else recorded)
      in \<lparr>me_window_name = lw_name win, me_start_s = lw_start_s win, me_duration_s = lw_duration_s win,
          me_arrival_rate = lw_arrival_rate win, me_capacity = cap, me_elapsed_s = elapsed,
          me_iterations = p_iterations p, me_worker_expansion = expansion,
          me_action_by_worker = dict_comp WORKER_TYPES (\<lambda>w. if initial_window then ''initial''
             else action_for_factor (dict_getd expansion w 1)),
          me_allocation_delta_by_worker = allocation_delta previous (p_allocation p),
          me_initial_scaled_allocation = (if initial_window then pd_allocation d else scaled),
          me_allocation = pd_allocation d, me_parallelism = pd_parallelism d,
          me_throughput_req_s = pd_throughput_req_s d,
          me_system_throughput_req_s = pd_system_throughput_req_s d,
          me_estimated_latency_s = pd_estimated_latency_s d, me_tail_latency_s = pd_tail_latency_s d,
          me_reconfiguration_cost_s = sum_list (map (\<lambda>(k, s). sp_reconfiguration_cost_s s) (p_slice_plans p))\<rparr>)"

definition set_stability_window :: "framework \<Rightarrow> real \<Rightarrow> framework" where
  "set_stability_window fw s =
     fw\<lparr>fw_env := (fw_env fw)\<lparr>ge_local := (ge_local (fw_env fw))\<lparr>stability_window_s := s\<rparr>\<rparr>\<rparr>"

text \<open>The branch for the first window of a run that was given no plan.\<close>

definition starting_plan ::
    "framework \<Rightarrow> workload_profile \<Rightarrow> capacity \<Rightarrow> global_state \<Rightarrow> (plan \<times> global_state) result" where
  "starting_plan fw wl cap gs =
     bind_result (optimize (fw_env fw) wl cap None None gs) (\<lambda>(p, gs').
       let constrained = quantize_decode_worker_allocations (fw_auto fw) (p_allocation p) cap in
       if am_as_key constrained = am_as_key (p_allocation p) then Inr (p, gs')
       else bind_result (evaluate_allocation fw wl constrained None) (\<lambda>cp.
         Inr (cp\<lparr>p_iterations := p_iterations p,
                 p_metadata := AList.update ''autoscaling_initial_unconstrained_allocation''
                   (MValues (am_values (p_allocation p)))
                   (foldl (\<lambda>d (k, v). AList.update k v d) (p_metadata cp) (p_metadata p))\<rparr>, gs')))"

record eval_state =
  es_framework :: framework
  es_global :: global_state
  es_previous :: "plan option"
  es_previous_allocation :: "allocation option"
  es_readings :: nat
  es_index :: nat
  es_measurements :: "autoscaling_measurement list"

text \<open>\<open>window.capacity or initial_capacity\<close>: an empty mapping counts as absent.\<close>

definition window_capacity :: "load_window \<Rightarrow> capacity \<Rightarrow> capacity" where
  "window_capacity win initial =
     (case lw_capacity win of Some c \<Rightarrow> if c = [] then initial else c | None \<Rightarrow> initial)"

definition window_step ::
    "(nat \<Rightarrow> real) \<Rightarrow> workload_profile \<Rightarrow> capacity \<Rightarrow> plan option \<Rightarrow> bool \<Rightarrow> eval_state \<Rightarrow> load_window \<Rightarrow>
     eval_state result" where
  "window_step clock base initial_cap initial_plan use_duration st win =
     bind_result (workload_from win base) (\<lambda>wl.
     bind_result (normalize_capacity (window_capacity win initial_cap)) (\<lambda>cap.
       let fw = (if use_duration then set_stability_window (es_framework st) (lw_duration_s win)
                 else es_framework st);
           start = clock (es_readings st)
       in bind_result
            (case es_previous st of
               None \<Rightarrow> starting_plan fw wl cap (es_global st)
             | Some previous \<Rightarrow> reschedule fw wl previous cap (es_global st))
            (\<lambda>(p, gs').
               let elapsed = clock (es_readings st + 1) - start
               in Inr \<lparr>es_framework = fw, es_global = gs', es_previous = Some p,
                       es_previous_allocation = Some (am_clone (p_allocation p)),
                       es_readings = es_readings st + 2, es_index = es_index st + 1,
                       es_measurements = es_measurements st @ [autoscaling_measurement_of win cap elapsed p
                         (es_previous_allocation st) (es_index st = 0 \<and> initial_plan = None)]\<rparr>)))"

definition simulate_autoscaling_windows ::
    "(nat \<Rightarrow> real) \<Rightarrow> framework \<Rightarrow> global_state \<Rightarrow> workload_profile \<Rightarrow> capacity \<Rightarrow> load_window list \<Rightarrow>
     plan option \<Rightarrow> bool \<Rightarrow> autoscaling_measurement list result" where
  "simulate_autoscaling_windows clock fw gs base initial_cap windows initial_plan use_duration =
     (if windows = [] then Inl (ValueError ''windows must not be empty'')
      else bind_result
        (fold_result (window_step clock base initial_cap initial_plan use_duration)
          \<lparr>es_framework = fw, es_global = gs, es_previous = initial_plan,
           es_previous_allocation = map_option (\<lambda>p. am_clone (p_allocation p)) initial_plan,
           es_readings = 0, es_index = 0, es_measurements = []\<rparr> windows)
        (\<lambda>st. Inr (es_measurements st)))"


section \<open>Reading a measurement back\<close>

definition measured_allocation :: "autoscaling_measurement \<Rightarrow> allocation" where
  "measured_allocation m = \<lparr>am_values = me_allocation m\<rparr>"

lemma distinct_WORKER_TYPES: "distinct WORKER_TYPES"
  by (simp add: WORKER_TYPES_def)

lemma current_total_worker [simp]: "current_total a w = worker_total a w"
  by (simp add: current_total_def worker_total_def)

lemma dict_getd_comp: "k \<in> set ks \<Longrightarrow> dict_getd (dict_comp ks f) k d = f k"
  by (simp add: dict_getd_def map_of_dict_comp)

lemma pd_allocation_wf: "wf_alloc (p_allocation p) \<Longrightarrow> pd_allocation (plan_to_dict p) = am_values (p_allocation p)"
proof -
  assume wf: "wf_alloc (p_allocation p)"
  let ?d = "am_values (p_allocation p)"
  have keys: "map fst ?d = WORKER_TYPES" using wf by (simp add: wf_alloc_def)
  then have "distinct (map fst ?d)" by (simp add: distinct_WORKER_TYPES)
  then have "(fst x, dict_getd ?d (fst x) []) = x" if "x \<in> set ?d" for x
    using that by (cases x) (simp add: dict_getd_def)
  then have "map (\<lambda>k. (k, dict_getd ?d k [])) (map fst ?d) = ?d" by (simp add: map_idI)
  then show ?thesis by (simp add: plan_to_dict_def dict_comp_distinct[OF distinct_WORKER_TYPES] keys)
qed

lemma measurement_simps [simp]:
  "me_capacity (autoscaling_measurement_of win cap el p prev b) = cap"
  "me_throughput_req_s (autoscaling_measurement_of win cap el p prev b) = p_throughput p"
  "me_allocation (autoscaling_measurement_of win cap el p prev b) = pd_allocation (plan_to_dict p)"
  "me_allocation_delta_by_worker (autoscaling_measurement_of win cap el p prev b) = allocation_delta prev (p_allocation p)"
  by (simp_all add: autoscaling_measurement_of_def Let_def plan_to_dict_def split: prod.split)

lemma measured_allocation_plan [simp]:
  "wf_alloc (p_allocation p) \<Longrightarrow>
     measured_allocation (autoscaling_measurement_of win cap el p prev b) = p_allocation p"
  by (simp add: measured_allocation_def pd_allocation_wf)

section \<open>Checks of a window\<close>

definition window_check :: "workload_profile \<Rightarrow> capacity \<Rightarrow> load_window \<Rightarrow> unit result" where
  "window_check base initial_cap win =
     bind_result (workload_from win base) (\<lambda>wl.
     bind_result (normalize_capacity (window_capacity win initial_cap)) (\<lambda>cap. Inr ()))"

lemma workload_from_Inr:
  assumes "WorkloadProfile r ins outs mbs = Inr base"
  shows "workload_from win base = Inr wl \<longleftrightarrow>
    0 < lw_duration_s win \<and> 0 < lw_arrival_rate win \<and> 0 < lw_input_scale win \<and> 0 < lw_output_scale win \<and>
    wl = \<lparr>arrival_rate = lw_arrival_rate win,
          input_lengths = map (\<lambda>v. max 1 (py_round (of_int v * lw_input_scale win))) (input_lengths base),
          output_lengths = map (\<lambda>v. max 1 (py_round (of_int v * lw_output_scale win))) (output_lengths base),
          max_batch_size = max_batch_size base\<rparr>"
  using assms by (auto simp: workload_from_def scale_tokens_def WorkloadProfile_def not_le split: if_splits)

lemma normalize_capacity_Inr:
  "normalize_capacity cap = Inr cap' \<longleftrightarrow> cap' = cap \<and> (\<forall>(h, n) \<in> set cap. 0 \<le> n) \<and> 3 \<le> sum_list (map snd cap)"
  unfolding normalize_capacity_def list_ex_iff case_prod_beta by (force simp: not_less WORKER_TYPES_def)

section \<open>Preservation\<close>

definition eval_ok :: "eval_state \<Rightarrow> bool" where
  "eval_ok st \<longleftrightarrow> env_ok (fw_env (es_framework st)) \<and>
     cache_ok (fw_env (es_framework st)) (gs_cache (es_global st)) \<and>
     (\<forall>p. es_previous st = Some p \<longrightarrow> previous_ok (Some (p_parallelism p)))"

lemma is_strategy_valid_window [simp]: "is_strategy_valid (cfg\<lparr>stability_window_s := s\<rparr>) = is_strategy_valid cfg"
proof -
  have "replica_fits (cfg\<lparr>stability_window_s := s\<rparr>) = replica_fits cfg" by (simp add: fun_eq_iff replica_fits_def)
  then show ?thesis by (intro ext) (simp only: is_strategy_valid_def)
qed

lemma plan_ok_window [simp]: "plan_ok (fw_env (set_stability_window fw s)) = plan_ok (fw_env fw)"
  by (simp add: fun_eq_iff plan_ok_def set_stability_window_def strategies_fit_def)

lemma set_stability_window_ok [simp]:
  "env_ok (fw_env (set_stability_window fw s)) = env_ok (fw_env fw)"
  "cache_ok (fw_env (set_stability_window fw s)) = cache_ok (fw_env fw)"
  "fw_auto (set_stability_window fw s) = fw_auto fw"
  by (simp_all add: fun_eq_iff cache_ok_def) (simp_all add: set_stability_window_def env_ok_def)

lemma decode_quantized_as_key:
  assumes "wf_alloc a" "wf_alloc b" "am_as_key a = am_as_key b" "decode_quantized c cap a"
  shows "decode_quantized c cap b"
  using assms(4) as_key_worker_total[OF assms(1-3)] by (simp add: decode_quantized_def)

lemma starting_plan_ok:
  assumes "env_ok (fw_env fw)" "cache_ok (fw_env fw) (gs_cache gs)" "cap_ok cap"
  obtains p gs' where "starting_plan fw wl cap gs = Inr (p, gs')" "plan_ok (fw_env fw) p"
    "within_capacity (p_allocation p) cap" "decode_quantized (fw_auto fw) cap (p_allocation p)"
    "cache_ok (fw_env fw) (gs_cache gs')"
proof -
  have "start_ok cap None None" using assms(3) by (simp add: start_ok_def cap_ok_def previous_ok_def)
  from optimize_keyed_safe[OF assms(1,2) this, where wl = wl] obtain k p gs' where
    opt: "optimize (fw_env fw) wl cap None None gs = Inr (p, gs')" "plan_ok (fw_env fw) p"
      "am_validate (p_allocation p) cap = Inr ()" "cache_ok (fw_env fw) (gs_cache gs')"
    unfolding optimize_def by (metis (mono_tags, lifting) bind_result_Inr case_prod_conv)
  let ?q = "quantize_decode_worker_allocations (fw_auto fw) (p_allocation p) cap"
  have wf: "wf_alloc (p_allocation p)" using opt(2) by (simp add: plan_ok_def)
  have fit: "within_capacity (p_allocation p) cap" using opt(3) wf by (simp add: validate_wf)
  note q = quantize_safe[OF assms(3) wf fit, of "fw_auto fw"]
  note dq = quantize_decode_quantized[OF assms(3), of "fw_auto fw" "p_allocation p"]
  show ?thesis
  proof (cases "am_as_key ?q = am_as_key (p_allocation p)")
    case True
    have "decode_quantized (fw_auto fw) cap (p_allocation p)"
      using decode_quantized_as_key[OF _ wf True dq] q by blast
    then show ?thesis using that[of p gs'] opt True fit by (simp add: starting_plan_def)
  next
    case False
    have "previous_ok None" by (simp add: previous_ok_def)
    then obtain cp where cp: "evaluate_allocation fw wl ?q None = Inr cp" "p_allocation cp = ?q"
        "plan_ok (fw_env fw) cp"
      using evaluate_allocation_ok[OF assms(1)] q by blast
    have "\<exists>p'. starting_plan fw wl cap gs = Inr (p', gs') \<and> p_allocation p' = ?q \<and> p_parallelism p' = p_parallelism cp"
      using False cp(1,2) opt(1) by (simp add: starting_plan_def Let_def)
    then show ?thesis using that opt(4) q dq cp(2,3) by (metis plan_ok_def)
  qed
qed


section \<open>One window\<close>

text \<open>
  What a measurement says of its window: \<open>before\<close> are the worker totals and \<open>th\<close> the throughput of
  the deployment before the window, if there was one.
\<close>

definition window_outcome ::
    "autoscaling_config \<Rightarrow> capacity \<Rightarrow> (string \<Rightarrow> int) \<Rightarrow> throughput_profile option \<Rightarrow> load_window \<Rightarrow>
     autoscaling_measurement \<Rightarrow> bool" where
  "window_outcome c initial_cap before th win m \<longleftrightarrow>
     (let cap = window_capacity win initial_cap; a = measured_allocation m in
      me_capacity m = cap \<and> am_validate a cap = Inr () \<and> decode_quantized c cap a \<and>
      (\<forall>w \<in> set WORKER_TYPES.
         dict_getd (me_allocation_delta_by_worker m) w 0 = worker_total a w - before w \<and>
         (case th of None \<Rightarrow> dict_getd (me_action_by_worker m) w [] = ''initial''
          | Some t \<Rightarrow> let f = expansion_factor c (lw_arrival_rate win) (dict_getd t w 0) in
              dict_getd (me_worker_expansion m) w 1 = f \<and>
              dict_getd (me_action_by_worker m) w [] =
                (if 1 < f then ''scale_up'' else if f < 1 then ''scale_down'' else ''hold''))))"

definition totals_of :: "allocation option \<Rightarrow> string \<Rightarrow> int" where
  "totals_of a w = (case a of None \<Rightarrow> 0 | Some a \<Rightarrow> worker_total a w)"

lemma measured_delta:
  "w \<in> set WORKER_TYPES \<Longrightarrow> dict_getd (allocation_delta prev a) w 0 = worker_total a w - totals_of prev w"
  by (simp add: allocation_delta_def totals_of_def dict_getd_comp split: option.split)

lemma initial_outcome:
  assumes "plan_ok env p" "within_capacity (p_allocation p) cap" "decode_quantized c cap (p_allocation p)"
    and "cap = window_capacity win cap0"
  shows "window_outcome c cap0 (totals_of prev) None win (autoscaling_measurement_of win cap el p prev True)"
  using assms
  by (simp add: window_outcome_def Let_def plan_ok_def validate_wf measured_delta)
    (simp add: autoscaling_measurement_of_def Let_def dict_getd_comp split: prod.split)

lemma later_outcome:
  assumes "plan_ok env p" "within_capacity (p_allocation p) cap" "decode_quantized c cap (p_allocation p)"
    and "cap = window_capacity win cap0" "arrival_rate wl = lw_arrival_rate win"
    and "map_of (p_metadata p) ''autoscaling'' = Some (MAutoscaling (worker_expansion_factors c wl previous) v c)"
  shows "window_outcome c cap0 (totals_of prev) (Some (p_throughput previous)) win
    (autoscaling_measurement_of win cap el p prev False)"
  using assms
  by (simp add: window_outcome_def Let_def plan_ok_def validate_wf measured_delta)
    (simp add: autoscaling_measurement_of_def Let_def dict_getd_comp worker_expansion_lookup action_for_factor_def)

lemma window_step_ok:
  assumes "eval_ok st" "WorkloadProfile r ins outs mbs = Inr base" "window_check base cap0 win = Inr ()"
    and "wf_dict (window_capacity win cap0)"
    and "es_index st = 0 \<and> initial_plan = None \<longleftrightarrow> es_previous st = None"
    and "es_previous_allocation st = map_option p_allocation (es_previous st)"
  obtains st' p m where "window_step clock base cap0 initial_plan use st win = Inr st'" "eval_ok st'"
    "es_measurements st' = es_measurements st @ [m]" "es_previous st' = Some p"
    "es_previous_allocation st' = Some (p_allocation p)" "es_index st' = Suc (es_index st)"
    "p_throughput p = me_throughput_req_s m" "p_allocation p = measured_allocation m"
    "fw_auto (es_framework st') = fw_auto (es_framework st)"
    "window_outcome (fw_auto (es_framework st)) cap0 (totals_of (es_previous_allocation st))
       (map_option p_throughput (es_previous st)) win m"
proof -
  let ?cap = "window_capacity win cap0" and ?c = "fw_auto (es_framework st)"
  obtain wl where wl: "workload_from win base = Inr wl" and cap: "normalize_capacity ?cap = Inr ?cap"
    using assms(3) by (auto simp: window_check_def bind_result_eq_Inr normalize_capacity_Inr)
  have rate: "arrival_rate wl = lw_arrival_rate win" using wl workload_from_Inr[OF assms(2)] by auto
  have cap_ok: "cap_ok ?cap" using cap assms(4) by (auto simp: normalize_capacity_Inr cap_ok_def)
  let ?fw = "if use then set_stability_window (es_framework st) (lw_duration_s win) else es_framework st"
  have env: "env_ok (fw_env ?fw)" "cache_ok (fw_env ?fw) (gs_cache (es_global st))" "fw_auto ?fw = ?c"
    using assms(1) by (simp_all add: eval_ok_def)
  let ?run = "case es_previous st of None \<Rightarrow> starting_plan ?fw wl ?cap (es_global st)
    | Some previous \<Rightarrow> reschedule ?fw wl previous ?cap (es_global st)"
  let ?m = "\<lambda>p. autoscaling_measurement_of win ?cap (clock (es_readings st + 1) - clock (es_readings st)) p
      (es_previous_allocation st) (es_index st = 0 \<and> initial_plan = None)"
  obtain p gs' where p: "?run = Inr (p, gs')" "plan_ok (fw_env ?fw) p" "cache_ok (fw_env ?fw) (gs_cache gs')"
    and out: "window_outcome ?c cap0 (totals_of (es_previous_allocation st))
      (map_option p_throughput (es_previous st)) win (?m p)"
  proof (cases "es_previous st")
    case None
    obtain p gs' where "starting_plan ?fw wl ?cap (es_global st) = Inr (p, gs')" "plan_ok (fw_env ?fw) p"
      "within_capacity (p_allocation p) ?cap" "decode_quantized ?c ?cap (p_allocation p)"
      "cache_ok (fw_env ?fw) (gs_cache gs')"
      using starting_plan_ok[OF env(1,2) cap_ok] unfolding env(3) by blast
    then show ?thesis using that[of p gs'] None assms(5) initial_outcome by simp
  next
    case (Some previous)
    have "previous_ok (Some (p_parallelism previous))" using assms(1) Some by (simp add: eval_ok_def)
    from reschedule_ok[OF env(1,2) cap_ok this, of wl] obtain p gs' where
      "reschedule ?fw wl previous ?cap (es_global st) = Inr (p, gs')" "plan_ok (fw_env ?fw) p"
      "within_capacity (p_allocation p) ?cap" "decode_quantized ?c ?cap (p_allocation p)"
      "map_of (p_metadata p) ''autoscaling'' = Some (MAutoscaling (worker_expansion_factors ?c wl previous)
        (am_values (proportional_scale_allocation ?c wl previous ?cap)) ?c)"
      "cache_ok (fw_env ?fw) (gs_cache gs')" unfolding env(3) by blast
    then show ?thesis using that[of p gs'] Some assms(5) later_outcome[OF _ _ _ refl rate] by simp
  qed
  let ?st = "\<lparr>es_framework = ?fw, es_global = gs', es_previous = Some p,
      es_previous_allocation = Some (p_allocation p), es_readings = es_readings st + 2,
      es_index = es_index st + 1, es_measurements = es_measurements st @ [?m p]\<rparr>"
  have "window_step clock base cap0 initial_plan use st win = Inr ?st"
    using wl cap p(1) by (simp add: window_step_def Let_def)
  moreover have "eval_ok ?st"
    using env p strategies_fit_previous by (auto simp: eval_ok_def plan_ok_def)
  moreover have "wf_alloc (p_allocation p)" using p(2) by (simp add: plan_ok_def)
  ultimately show ?thesis using that[of ?st "?m p" p] env(3) out by simp
qed


section \<open>A run over windows\<close>

definition run_inv :: "plan option \<Rightarrow> eval_state \<Rightarrow> bool" where
  "run_inv initial st \<longleftrightarrow> eval_ok st \<and> (es_index st = 0 \<and> initial = None \<longleftrightarrow> es_previous st = None) \<and>
     es_previous_allocation st = map_option p_allocation (es_previous st)"

abbreviation start_state :: "framework \<Rightarrow> global_state \<Rightarrow> plan option \<Rightarrow> eval_state" where
  "start_state fw gs initial \<equiv> \<lparr>es_framework = fw, es_global = gs, es_previous = initial,
     es_previous_allocation = map_option (\<lambda>p. am_clone (p_allocation p)) initial,
     es_readings = 0, es_index = 0, es_measurements = []\<rparr>"

lemma run_inv_start:
  "env_ok (fw_env fw) \<Longrightarrow> cache_ok (fw_env fw) (gs_cache gs) \<Longrightarrow> previous_ok (map_option p_parallelism initial) \<Longrightarrow>
     run_inv initial (start_state fw gs initial)"
  by (auto simp: run_inv_def eval_ok_def)

lemma window_step_inv:
  assumes "run_inv initial st" "WorkloadProfile r ins outs mbs = Inr base"
    and "wf_dict (window_capacity win cap0)"
  shows "case window_check base cap0 win of Inl e \<Rightarrow> window_step clock base cap0 initial use st win = Inl e
    | Inr _ \<Rightarrow> \<exists>st'. window_step clock base cap0 initial use st win = Inr st' \<and> run_inv initial st'"
proof (cases "window_check base cap0 win")
  case (Inl e)
  then show ?thesis
    by (cases "workload_from win base"; cases "normalize_capacity (window_capacity win cap0)")
      (simp_all add: window_check_def window_step_def)
next
  case (Inr u)
  then have ok: "window_check base cap0 win = Inr ()" by simp
  have inv: "eval_ok st" "es_index st = 0 \<and> initial = None \<longleftrightarrow> es_previous st = None"
      "es_previous_allocation st = map_option p_allocation (es_previous st)"
    using assms(1) by (simp_all add: run_inv_def)
  show ?thesis
    by (rule window_step_ok[OF inv(1) assms(2) ok assms(3) inv(2,3), of clock use])
      (simp add: ok run_inv_def)
qed

lemma windows_check:
  assumes "run_inv initial st" "WorkloadProfile r ins outs mbs = Inr base"
    and "\<forall>win \<in> set windows. wf_dict (window_capacity win cap0)"
  shows "fold_result (window_step clock base cap0 initial use) st windows = Inl e \<longleftrightarrow>
    check_all (window_check base cap0) windows = Inl e"
  using assms(1,3)
proof (induction windows arbitrary: st)
  case (Cons win windows)
  show ?case
    using window_step_inv[OF Cons.prems(1) assms(2), of win cap0 clock use] Cons.prems(2) Cons.IH
    by (cases "window_check base cap0 win") auto
qed simp

definition totals_before :: "plan option \<Rightarrow> autoscaling_measurement list \<Rightarrow> nat \<Rightarrow> string \<Rightarrow> int" where
  "totals_before initial ms i =
     (case i of 0 \<Rightarrow> totals_of (map_option p_allocation initial)
      | Suc j \<Rightarrow> worker_total (measured_allocation (ms ! j)))"

definition throughput_before :: "plan option \<Rightarrow> autoscaling_measurement list \<Rightarrow> nat \<Rightarrow> throughput_profile option" where
  "throughput_before initial ms i =
     (case i of 0 \<Rightarrow> map_option p_throughput initial | Suc j \<Rightarrow> Some (me_throughput_req_s (ms ! j)))"

lemma before_append:
  "i \<le> length ms \<Longrightarrow> totals_before initial (ms @ ms') i = totals_before initial ms i"
  "i \<le> length ms \<Longrightarrow> throughput_before initial (ms @ ms') i = throughput_before initial ms i"
  by (auto simp: totals_before_def throughput_before_def nth_append split: nat.split)

definition chained :: "autoscaling_config \<Rightarrow> capacity \<Rightarrow> plan option \<Rightarrow> load_window list \<Rightarrow> autoscaling_measurement list \<Rightarrow> bool" where
  "chained c cap0 initial windows ms \<longleftrightarrow> length ms = length windows \<and>
     (\<forall>i < length windows. window_outcome c cap0 (totals_before initial ms i)
        (throughput_before initial ms i) (windows ! i) (ms ! i))"

lemma chained_snoc:
  assumes "chained c cap0 initial windows ms"
    and "window_outcome c cap0 (totals_before initial ms (length ms)) (throughput_before initial ms (length ms)) win m"
  shows "chained c cap0 initial (windows @ [win]) (ms @ [m])"
  using assms by (auto simp: chained_def nth_append before_append less_Suc_eq)

lemma windows_run:
  assumes "env_ok (fw_env fw)" "cache_ok (fw_env fw) (gs_cache gs)" "previous_ok (map_option p_parallelism initial)"
    and "WorkloadProfile r ins outs mbs = Inr base"
    and "\<forall>win \<in> set windows. wf_dict (window_capacity win cap0) \<and> window_check base cap0 win = Inr ()"
  shows "\<exists>st. fold_result (window_step clock base cap0 initial use) (start_state fw gs initial) windows = Inr st \<and>
    run_inv initial st \<and> fw_auto (es_framework st) = fw_auto fw \<and> es_index st = length windows \<and>
    chained (fw_auto fw) cap0 initial windows (es_measurements st) \<and>
    totals_of (es_previous_allocation st) = totals_before initial (es_measurements st) (length windows) \<and>
    map_option p_throughput (es_previous st) = throughput_before initial (es_measurements st) (length windows)"
  using assms(5)
proof (induction windows rule: rev_induct)
  case Nil
  then show ?case
    using run_inv_start[OF assms(1-3)]
    by (auto simp: chained_def totals_before_def throughput_before_def)
next
  case (snoc win windows)
  then obtain st where st: "fold_result (window_step clock base cap0 initial use) (start_state fw gs initial) windows = Inr st"
    "run_inv initial st" "fw_auto (es_framework st) = fw_auto fw" "es_index st = length windows"
    "chained (fw_auto fw) cap0 initial windows (es_measurements st)"
    "totals_of (es_previous_allocation st) = totals_before initial (es_measurements st) (length windows)"
    "map_option p_throughput (es_previous st) = throughput_before initial (es_measurements st) (length windows)"
    by auto
  have inv: "eval_ok st" "es_index st = 0 \<and> initial = None \<longleftrightarrow> es_previous st = None"
      "es_previous_allocation st = map_option p_allocation (es_previous st)"
    using st(2) by (simp_all add: run_inv_def)
  have win: "window_check base cap0 win = Inr ()" "wf_dict (window_capacity win cap0)" using snoc.prems by auto
  obtain st' p m where s: "window_step clock base cap0 initial use st win = Inr st'" "eval_ok st'"
    "es_measurements st' = es_measurements st @ [m]" "es_previous st' = Some p"
    "es_previous_allocation st' = Some (p_allocation p)" "es_index st' = Suc (es_index st)"
    "p_throughput p = me_throughput_req_s m" "p_allocation p = measured_allocation m"
    "fw_auto (es_framework st') = fw_auto (es_framework st)"
    "window_outcome (fw_auto (es_framework st)) cap0 (totals_of (es_previous_allocation st))
       (map_option p_throughput (es_previous st)) win m"
    by (rule window_step_ok[OF inv(1) assms(4) win inv(2,3)])
  have len: "length (es_measurements st) = length windows" using st(5) by (simp add: chained_def)
  have "chained (fw_auto fw) cap0 initial (windows @ [win]) (es_measurements st')"
    unfolding s(3) by (rule chained_snoc[OF st(5)]) (use s(10) len in \<open>simp add: st(3,6,7)\<close>)
  then show ?case
    using st s len
    by (intro exI[of _ st']) (simp add: fold_result_snoc run_inv_def totals_before_def throughput_before_def
        totals_of_def fun_eq_iff nth_append)
qed

lemma chained_telescopes:
  assumes "chained c cap0 initial windows ms" "w \<in> set WORKER_TYPES" "n \<le> length ms"
  shows "sum_list (map (\<lambda>m. dict_getd (me_allocation_delta_by_worker m) w 0) (take n ms)) =
    totals_before initial ms n w - totals_of (map_option p_allocation initial) w"
  using assms(3)
proof (induction n)
  case (Suc n)
  have "dict_getd (me_allocation_delta_by_worker (ms ! n)) w 0 =
      worker_total (measured_allocation (ms ! n)) w - totals_before initial ms n w"
    using assms(1,2) Suc.prems by (auto simp: chained_def window_outcome_def Let_def)
  then show ?case using Suc by (simp add: take_Suc_conv_app_nth totals_before_def)
qed (simp add: totals_before_def)


section \<open>Repeated measurements\<close>

lemma measure_repeats:
  assumes "optimize (fw_env fw) wl cap None None gs = Inr (p, gs')"
  shows "fold_result (measure_one (\<lambda>_. (fw, gs)) clock wl cse cap) (calls, ms) [0..int n - 1] =
    Inr (calls + n, ms @ map (\<lambda>j. scheduling_measurement_of (cs_name cse) (int j) cap
      (clock (2 * (calls + j) + 1) - clock (2 * (calls + j))) p) [0..<n])"
proof (induction n)
  case (Suc n)
  have "[0..int (Suc n) - 1] = [0..int n - 1] @ [int n]" using upto_rec2[of 0 "int n"] by simp
  then show ?case using Suc assms by (simp only: fold_result_snoc) (simp add: measure_one_def)
qed simp

lemma measure_case_ok:
  assumes "env_ok (fw_env fw)" "cache_ok (fw_env fw) (gs_cache gs)" "wf_dict (cs_capacity cse)"
    and "normalize_capacity (cs_capacity cse) = Inr (cs_capacity cse)" "0 < repeats"
  shows "\<exists>p gs'. optimize (fw_env fw) wl (cs_capacity cse) None None gs = Inr (p, gs') \<and>
    am_validate (p_allocation p) (cs_capacity cse) = Inr () \<and>
    (\<forall>calls ms. measure_case (\<lambda>_. (fw, gs)) clock wl repeats (calls, ms) cse =
       Inr (calls + nat repeats, ms @ map (\<lambda>j. scheduling_measurement_of (cs_name cse) (int j) (cs_capacity cse)
         (clock (2 * (calls + j) + 1) - clock (2 * (calls + j))) p) [0..<nat repeats]))"
proof -
  have "start_ok (cs_capacity cse) None None"
    using assms(3,4) by (auto simp: start_ok_def normalize_capacity_Inr previous_ok_def)
  from optimize_keyed_safe[OF assms(1,2) this, where wl = wl] obtain p gs' where
    opt: "optimize (fw_env fw) wl (cs_capacity cse) None None gs = Inr (p, gs')"
      "am_validate (p_allocation p) (cs_capacity cse) = Inr ()"
    unfolding optimize_def by (metis (mono_tags, lifting) bind_result_Inr case_prod_conv)
  show ?thesis
    using opt measure_repeats[OF opt(1), of clock cse _ _ "nat repeats"] assms(4,5)
    by (intro exI[of _ p] exI[of _ gs']) (simp add: measure_case_def)
qed

text \<open>
  With a factory that builds the same framework each time, the repeats of a case differ only in
  their times: the plan is a function of the case.
\<close>

theorem measure_cases_repeatable:
  assumes "env_ok (fw_env fw)" "cache_ok (fw_env fw) (gs_cache gs)" "0 < repeats"
    and "\<forall>cse \<in> set cases. wf_dict (cs_capacity cse) \<and> normalize_capacity (cs_capacity cse) = Inr (cs_capacity cse)"
  shows "\<exists>ms plan_of. measure_scheduling_cases (\<lambda>_. (fw, gs)) clock wl cases repeats = Inr ms \<and>
    length ms = length cases * nat repeats \<and>
    (\<forall>i < length cases. am_validate (p_allocation (plan_of (cases ! i))) (cs_capacity (cases ! i)) = Inr () \<and>
      (\<exists>gs'. optimize (fw_env fw) wl (cs_capacity (cases ! i)) None None gs = Inr (plan_of (cases ! i), gs')) \<and>
      (\<forall>j < nat repeats. let k = i * nat repeats + j in
        ms ! k = scheduling_measurement_of (cs_name (cases ! i)) (int j) (cs_capacity (cases ! i))
          (clock (2 * k + 1) - clock (2 * k)) (plan_of (cases ! i))))"
proof -
  let ?n = "nat repeats"
  define plan_of where "plan_of cse = fst (projr (optimize (fw_env fw) wl (cs_capacity cse) None None gs))" for cse :: scheduling_case
  have one: "(\<exists>gs'. optimize (fw_env fw) wl (cs_capacity cse) None None gs = Inr (plan_of cse, gs')) \<and>
      am_validate (p_allocation (plan_of cse)) (cs_capacity cse) = Inr () \<and>
      (\<forall>calls ms. measure_case (\<lambda>_. (fw, gs)) clock wl repeats (calls, ms) cse =
       Inr (calls + ?n, ms @ map (\<lambda>j. scheduling_measurement_of (cs_name cse) (int j) (cs_capacity cse)
         (clock (2 * (calls + j) + 1) - clock (2 * (calls + j))) (plan_of cse)) [0..<?n]))"
    if "cse \<in> set cases" for cse
    using measure_case_ok[OF assms(1,2) _ _ assms(3), of cse wl clock] assms(4) that by (auto simp: plan_of_def)
  have "\<exists>ms. fold_result (measure_case (\<lambda>_. (fw, gs)) clock wl repeats) (0, []) cs = Inr (length cs * ?n, ms) \<and>
      length ms = length cs * ?n \<and> (\<forall>i < length cs. \<forall>j < ?n. ms ! (i * ?n + j) =
        scheduling_measurement_of (cs_name (cs ! i)) (int j) (cs_capacity (cs ! i))
          (clock (2 * (i * ?n + j) + 1) - clock (2 * (i * ?n + j))) (plan_of (cs ! i)))"
    if "set cs \<subseteq> set cases" for cs
    using that
  proof (induction cs rule: rev_induct)
    case (snoc c cs)
    then obtain ms where ms: "fold_result (measure_case (\<lambda>_. (fw, gs)) clock wl repeats) (0, []) cs = Inr (length cs * ?n, ms)"
      "length ms = length cs * ?n" "\<forall>i < length cs. \<forall>j < ?n. ms ! (i * ?n + j) =
        scheduling_measurement_of (cs_name (cs ! i)) (int j) (cs_capacity (cs ! i))
          (clock (2 * (i * ?n + j) + 1) - clock (2 * (i * ?n + j))) (plan_of (cs ! i))" by auto
    have inside: "i * ?n + j < length cs * ?n" if "i < length cs" "j < ?n" for i j
    proof -
      have "i * ?n + j < Suc i * ?n" using that(2) by simp
      also have "\<dots> \<le> length cs * ?n" using that(1) by (intro mult_le_mono1) simp
      finally show ?thesis .
    qed
    have "c \<in> set cases" using snoc.prems by simp
    then show ?case
      using ms one[of c] inside
      by (auto simp: fold_result_snoc nth_append less_Suc_eq add.commute)
  qed simp
  from this[OF subset_refl] obtain ms where
    "fold_result (measure_case (\<lambda>_. (fw, gs)) clock wl repeats) (0, []) cases = Inr (length cases * ?n, ms)"
    "length ms = length cases * ?n" "\<forall>i < length cases. \<forall>j < ?n. ms ! (i * ?n + j) =
        scheduling_measurement_of (cs_name (cases ! i)) (int j) (cs_capacity (cases ! i))
          (clock (2 * (i * ?n + j) + 1) - clock (2 * (i * ?n + j))) (plan_of (cases ! i))" by blast
  then show ?thesis
    using one assms(3) by (intro exI[of _ ms] exI[of _ plan_of]) (simp add: measure_scheduling_cases_def Let_def)
qed

text \<open>
  The plan cache does not see the stability window that the loop over the windows writes: a plan
  found under its key is returned whatever the window is now.
\<close>

lemma cached_plan_ignores_window:
  assumes "map_of cache (plan_key_of (fw_env fw) wl a pp) = Some p"
  shows "cached_evaluate (fw_env (set_stability_window fw s)) wl cache a pp =
    Inr ((plan_key_of (fw_env fw) wl a pp, p), cache)"
proof -
  have "plan_key_of (fw_env (set_stability_window fw s)) wl a pp = plan_key_of (fw_env fw) wl a pp"
    by (simp add: plan_key_of_def set_stability_window_def)
  then show ?thesis using assms by (simp add: cached_evaluate_def Let_def)
qed

section \<open>Properties\<close>

lemma returns_iff: "(\<exists>x. m = Inr x) \<longleftrightarrow> (\<forall>e. m \<noteq> Inl e)"
  by (cases m) auto

lemma returns_unit_iff: "m = Inr () \<longleftrightarrow> (\<forall>e. m \<noteq> Inl e)"
  by (cases m) auto

text \<open>
  \<open>simulate_autoscaling_windows\<close> raises exactly when it is told so by its own checks. For an intact
  framework and a constructed base workload it raises the exception of the first window that fails
  a check (or the one for an empty list); the scheduling in between never raises. It returns just
  when there is a window and every window has a positive duration, rate and token scales and a
  non-negative capacity of at least three GPUs.
\<close>

theorem windows_raise_iff:
  assumes "env_ok (fw_env fw)" "cache_ok (fw_env fw) (gs_cache gs)" "previous_ok (map_option p_parallelism initial)"
    and "WorkloadProfile r ins outs mbs = Inr base"
    and "\<forall>win \<in> set windows. wf_dict (window_capacity win cap0)"
  shows "(simulate_autoscaling_windows clock fw gs base cap0 windows initial use = Inl e \<longleftrightarrow>
      (windows = [] \<and> e = ValueError ''windows must not be empty'') \<or>
      check_all (window_check base cap0) windows = Inl e) \<and>
    ((\<exists>ms. simulate_autoscaling_windows clock fw gs base cap0 windows initial use = Inr ms) \<longleftrightarrow>
      windows \<noteq> [] \<and> (\<forall>win \<in> set windows. 0 < lw_duration_s win \<and> 0 < lw_arrival_rate win \<and>
        0 < lw_input_scale win \<and> 0 < lw_output_scale win \<and>
        (\<forall>(h, n) \<in> set (window_capacity win cap0). 0 \<le> n) \<and>
        3 \<le> sum_list (map snd (window_capacity win cap0))))"
proof -
  let ?sim = "simulate_autoscaling_windows clock fw gs base cap0 windows initial use"
  let ?fold = "fold_result (window_step clock base cap0 initial use) (start_state fw gs initial) windows"
  note check = windows_check[OF run_inv_start[OF assms(1-3)] assms(4,5), of clock use]
  have sim: "?sim = (if windows = [] then Inl (ValueError ''windows must not be empty'')
      else bind_result ?fold (\<lambda>st. Inr (es_measurements st)))"
    by (simp add: simulate_autoscaling_windows_def)
  have Inl: "?sim = Inl e \<longleftrightarrow> (windows = [] \<and> e = ValueError ''windows must not be empty'') \<or>
      check_all (window_check base cap0) windows = Inl e" for e
    using check[of e] unfolding sim by (cases ?fold) auto
  have ok: "window_check base cap0 win = Inr () \<longleftrightarrow> 0 < lw_duration_s win \<and> 0 < lw_arrival_rate win \<and>
        0 < lw_input_scale win \<and> 0 < lw_output_scale win \<and>
        (\<forall>(h, n) \<in> set (window_capacity win cap0). 0 \<le> n) \<and>
        3 \<le> sum_list (map snd (window_capacity win cap0))" for win
    by (auto simp: window_check_def bind_result_eq_Inr workload_from_Inr[OF assms(4)] normalize_capacity_Inr)
  have "(\<exists>ms. ?sim = Inr ms) \<longleftrightarrow> windows \<noteq> [] \<and> check_all (window_check base cap0) windows = Inr ()"
    unfolding returns_iff returns_unit_iff Inl by blast
  then show ?thesis using Inl by (simp add: check_all_Inr ok)
qed

text \<open>
  C12. A run of \<open>simulate_autoscaling_windows\<close> is a chain of safe decisions. When every window passes
  its checks, one measurement is recorded per window; its allocation passes \<open>validate\<close> for the
  window's own capacity and has an allowed pair of decode totals; its expansion factors are those
  for the throughput recorded by the window before (or of the given plan) under the new rate, and
  its actions say whether they exceed one; its deltas are the differences of the worker totals, so
  that all deltas of a worker add up to the change over the whole run.
\<close>

theorem windows_chain_safe:
  assumes "env_ok (fw_env fw)" "cache_ok (fw_env fw) (gs_cache gs)" "previous_ok (map_option p_parallelism initial)"
    and "WorkloadProfile r ins outs mbs = Inr base" "windows \<noteq> []"
    and "\<forall>win \<in> set windows. wf_dict (window_capacity win cap0) \<and> window_check base cap0 win = Inr ()"
  shows "\<exists>ms. simulate_autoscaling_windows clock fw gs base cap0 windows initial use = Inr ms \<and>
    length ms = length windows \<and>
    (\<forall>i < length windows. window_outcome (fw_auto fw) cap0 (totals_before initial ms i)
       (throughput_before initial ms i) (windows ! i) (ms ! i)) \<and>
    (\<forall>w \<in> set WORKER_TYPES. sum_list (map (\<lambda>m. dict_getd (me_allocation_delta_by_worker m) w 0) ms) =
       worker_total (measured_allocation (last ms)) w - totals_of (map_option p_allocation initial) w)"
proof -
  obtain st where st: "fold_result (window_step clock base cap0 initial use) (start_state fw gs initial) windows = Inr st"
      "chained (fw_auto fw) cap0 initial windows (es_measurements st)"
    using windows_run[OF assms(1-4,6)] by blast
  let ?ms = "es_measurements st"
  have len: "length ?ms = length windows" "?ms \<noteq> []" using st(2) assms(5) by (auto simp: chained_def)
  have "sum_list (map (\<lambda>m. dict_getd (me_allocation_delta_by_worker m) w 0) ?ms) =
      worker_total (measured_allocation (last ?ms)) w - totals_of (map_option p_allocation initial) w"
    if "w \<in> set WORKER_TYPES" for w
  proof -
    obtain n where n: "length ?ms = Suc n" using len(2) by (cases ?ms) auto
    have "last ?ms = ?ms ! n" using len(2) by (simp add: last_conv_nth n)
    then show ?thesis using chained_telescopes[OF st(2) that order.refl] by (simp add: totals_before_def n)
  qed
  moreover have "simulate_autoscaling_windows clock fw gs base cap0 windows initial use = Inr ?ms"
    using st(1) assms(5) by (simp add: simulate_autoscaling_windows_def)
  ultimately show ?thesis using st(2) unfolding chained_def by blast
qed

definition sample_windows :: "load_window list" where
  "sample_windows =
     [\<lparr>lw_name = ''low'', lw_start_s = 0, lw_duration_s = 60, lw_arrival_rate = 2, lw_input_scale = 1,
       lw_output_scale = 1, lw_capacity = None\<rparr>,
      \<lparr>lw_name = ''peak'', lw_start_s = 60, lw_duration_s = 120, lw_arrival_rate = 8, lw_input_scale = 2,
       lw_output_scale = 1, lw_capacity = Some [(''NVDA:H20'', 8)]\<rparr>]"

lemma sample_windows_ok:
  "env_ok (fw_env sample_framework)" "cache_ok (fw_env sample_framework) (gs_cache sample_gs)"
  "previous_ok (map_option p_parallelism (None :: plan option))"
  "WorkloadProfile 4 [100] [50] 8 = Inr \<lparr>arrival_rate = 4, input_lengths = [100], output_lengths = [50], max_batch_size = 8\<rparr>"
  "\<forall>win \<in> set sample_windows. wf_dict (window_capacity win [(''NVDA:H20'', 6)])"
  by (simp_all add: sample_framework_def HexGenSchedulingFramework_def env_ok_def cache_ok_def sample_gs_def
      previous_ok_def WorkloadProfile_def sample_windows_def window_capacity_def wf_dict_def)

lemma sample_windows_check:
  "\<forall>win \<in> set sample_windows. wf_dict (window_capacity win [(''NVDA:H20'', 6)]) \<and>
     window_check \<lparr>arrival_rate = 4, input_lengths = [100], output_lengths = [50], max_batch_size = 8\<rparr>
       [(''NVDA:H20'', 6)] win = Inr ()"
  by (simp add: sample_windows_def window_check_def workload_from_def scale_tokens_def WorkloadProfile_def
      window_capacity_def normalize_capacity_def wf_dict_def WORKER_TYPES_def)

theorem windows_raise_iff_witness:
  "(\<exists>ms. simulate_autoscaling_windows (\<lambda>i. of_nat i) sample_framework sample_gs
     \<lparr>arrival_rate = 4, input_lengths = [100], output_lengths = [50], max_batch_size = 8\<rparr>
     [(''NVDA:H20'', 6)] sample_windows None True = Inr ms) \<and>
   simulate_autoscaling_windows (\<lambda>i. of_nat i) sample_framework sample_gs
     \<lparr>arrival_rate = 4, input_lengths = [100], output_lengths = [50], max_batch_size = 8\<rparr>
     [(''NVDA:H20'', 2)] sample_windows None True
       = Inl (ValueError ''capacity must have at least one GPU per worker type'')"
proof -
  have wf: "\<forall>win \<in> set sample_windows. wf_dict (window_capacity win [(''NVDA:H20'', 2)])"
    by (simp add: sample_windows_def window_capacity_def wf_dict_def)
  have "check_all (window_check \<lparr>arrival_rate = 4, input_lengths = [100], output_lengths = [50], max_batch_size = 8\<rparr>
     [(''NVDA:H20'', 2)]) sample_windows = Inl (ValueError ''capacity must have at least one GPU per worker type'')"
    by (simp add: sample_windows_def window_check_def workload_from_def scale_tokens_def WorkloadProfile_def
      window_capacity_def normalize_capacity_def WORKER_TYPES_def)
  then show ?thesis
    using windows_raise_iff[OF sample_windows_ok, of "\<lambda>i. of_nat i" True]
      windows_raise_iff[OF sample_windows_ok(1-4) wf, of "\<lambda>i. of_nat i" True]
    by (simp add: sample_windows_def window_capacity_def)
qed

theorem windows_chain_safe_witness:
  "\<exists>ms. simulate_autoscaling_windows (\<lambda>i. of_nat i) sample_framework sample_gs
     \<lparr>arrival_rate = 4, input_lengths = [100], output_lengths = [50], max_batch_size = 8\<rparr>
     [(''NVDA:H20'', 6)] sample_windows None True = Inr ms \<and> length ms = 2 \<and>
     am_validate (measured_allocation (ms ! 1)) [(''NVDA:H20'', 8)] = Inr ()"
proof -
  have "sample_windows \<noteq> []" "length sample_windows = 2" by (simp_all add: sample_windows_def)
  then show ?thesis
    using windows_chain_safe[OF sample_windows_ok(1-4) _ sample_windows_check, of "\<lambda>i. of_nat i" True]
    by (auto simp: window_outcome_def Let_def sample_windows_def window_capacity_def less_Suc_eq numeral_2_eq_2)
qed

end
