(* ===== verification/Py_Heapq.thy ===== *)
theory Py_Heapq
  imports Hexgen_Prelude "HOL-Library.Multiset"
begin

text \<open>
  The part of Python's \<open>heapq\<close> the event loop uses, on lists and for an arbitrary comparison
  \<open>lt\<close> (an element's \<open>__lt__\<close>), as the standard library documents the algorithm: an array
  heap, \<open>heappush\<close> sifting the new last element towards the root, \<open>heappop\<close> moving the last
  element into the root's hole after the hole has been walked down to a leaf.

  The interface the clients use is the locale \<open>priority_queue\<close>: a multiset of elements, an
  insertion and an extraction of a minimal element. It is interpreted on the array heap, for any
  strict weak order, in the theory of the client that fixes the order.
\<close>

definition parent :: "nat \<Rightarrow> nat" where
  "parent i = (i - 1) div 2"

lemma parent_less: "0 < i \<Longrightarrow> parent i < i"
  by (auto simp: parent_def)

lemma parent_le: "parent i \<le> i"
  by (auto simp: parent_def)

lemma parent_left [simp]: "parent (2 * i + 1) = i"
  by (simp add: parent_def)

lemma parent_right [simp]: "parent (2 * i + 2) = i"
  by (simp add: parent_def)

lemma parent_cases: "0 < i \<Longrightarrow> i = 2 * parent i + 1 \<or> i = 2 * parent i + 2"
  by (auto simp: parent_def)

text \<open>Sifting from \<open>start\<close> does not climb above it.\<close>

function siftdown :: "('a \<Rightarrow> 'a \<Rightarrow> bool) \<Rightarrow> nat \<Rightarrow> 'a \<Rightarrow> 'a list \<Rightarrow> nat \<Rightarrow> 'a list" where
  "siftdown lt start newitem heap pos =
     (if start < pos \<and> lt newitem (heap ! parent pos)
      then siftdown lt start newitem (heap[pos := heap ! parent pos]) (parent pos)
      else heap[pos := newitem])"
  by pat_completeness auto
termination by (relation "measure (\<lambda>(_, _, _, _, pos). pos)") (auto simp: parent_less)

declare siftdown.simps [simp del]

definition smaller_child :: "('a \<Rightarrow> 'a \<Rightarrow> bool) \<Rightarrow> 'a list \<Rightarrow> nat \<Rightarrow> nat" where
  "smaller_child lt heap pos =
     (let childpos = 2 * pos + 1; rightpos = childpos + 1 in
      if rightpos < length heap \<and> \<not> lt (heap ! childpos) (heap ! rightpos) then rightpos else childpos)"

lemma smaller_child_cases:
  "smaller_child lt heap pos = 2 * pos + 1 \<or>
   smaller_child lt heap pos = 2 * pos + 2 \<and> 2 * pos + 2 < length heap"
  by (simp add: smaller_child_def Let_def)

function siftup :: "('a \<Rightarrow> 'a \<Rightarrow> bool) \<Rightarrow> nat \<Rightarrow> 'a \<Rightarrow> 'a list \<Rightarrow> nat \<Rightarrow> 'a list" where
  "siftup lt start newitem heap pos =
     (if 2 * pos + 1 < length heap
      then (let childpos = smaller_child lt heap pos
            in siftup lt start newitem (heap[pos := heap ! childpos]) childpos)
      else siftdown lt start newitem (heap[pos := newitem]) pos)"
  by pat_completeness auto
termination
  by (relation "measure (\<lambda>(_, _, _, heap, pos). length heap - pos)") (auto simp: smaller_child_def Let_def)

declare siftup.simps [simp del]

definition heappush :: "('a \<Rightarrow> 'a \<Rightarrow> bool) \<Rightarrow> 'a list \<Rightarrow> 'a \<Rightarrow> 'a list" where
  "heappush lt heap item = siftdown lt 0 item (heap @ [item]) (length heap)"

text \<open>\<open>heappop\<close> raises \<open>IndexError\<close> on the empty list.\<close>

definition heappop :: "('a \<Rightarrow> 'a \<Rightarrow> bool) \<Rightarrow> 'a list \<Rightarrow> ('a \<times> 'a list) result" where
  "heappop lt heap =
     (if heap = [] then Inl IndexError
      else let lastelt = last heap; rest = butlast heap in
        if rest = [] then Inr (lastelt, rest)
        else Inr (hd rest, siftup lt 0 lastelt rest 0))"

text \<open>\<open>heapify\<close> sifts the inner positions, from the back.\<close>

definition heapify :: "('a \<Rightarrow> 'a \<Rightarrow> bool) \<Rightarrow> 'a list \<Rightarrow> 'a list" where
  "heapify lt heap = foldl (\<lambda>h i. siftup lt i (h ! i) h i) heap (rev [0..<length heap div 2])"

text \<open>The heap property: no element is smaller than the one at its parent index.\<close>

definition is_heap :: "('a \<Rightarrow> 'a \<Rightarrow> bool) \<Rightarrow> 'a list \<Rightarrow> bool" where
  "is_heap lt heap \<longleftrightarrow> (\<forall>i < length heap. 0 < i \<longrightarrow> \<not> lt (heap ! i) (heap ! parent i))"

section \<open>The interface of a priority queue\<close>

locale strict_weak_order =
  fixes lt :: "'a \<Rightarrow> 'a \<Rightarrow> bool"
  assumes lt_asym: "lt x y \<Longrightarrow> \<not> lt y x"
    and not_lt_trans: "\<not> lt x y \<Longrightarrow> \<not> lt y z \<Longrightarrow> \<not> lt x z"
begin

lemma lt_irrefl: "\<not> lt x x"
  using lt_asym by blast

lemma lt_trans: "lt x y \<Longrightarrow> lt y z \<Longrightarrow> lt x z"
  using lt_asym not_lt_trans by blast

end

locale priority_queue = strict_weak_order lt
  for lt :: "'a \<Rightarrow> 'a \<Rightarrow> bool" +
  fixes inv :: "'q \<Rightarrow> bool"
    and items :: "'q \<Rightarrow> 'a multiset"
    and push :: "'q \<Rightarrow> 'a \<Rightarrow> 'q"
    and pop :: "'q \<Rightarrow> ('a \<times> 'q) result"
  assumes push_inv: "inv q \<Longrightarrow> inv (push q x)"
    and push_items: "items (push q x) = add_mset x (items q)"
    and pop_empty: "items q = {#} \<Longrightarrow> pop q = Inl IndexError"
    and pop_items: "items q \<noteq> {#} \<Longrightarrow> \<exists>x q'. pop q = Inr (x, q') \<and> items q = add_mset x (items q')"
    and pop_inv: "inv q \<Longrightarrow> pop q = Inr (x, q') \<Longrightarrow> inv q'"
    and pop_min: "inv q \<Longrightarrow> pop q = Inr (x, q') \<Longrightarrow> y \<in># items q' \<Longrightarrow> \<not> lt y x"
begin

lemma pop_Inr_items: "pop q = Inr (x, q') \<Longrightarrow> items q = add_mset x (items q')"
  using pop_items[of q] pop_empty[of q] by (cases "items q = {#}") auto

lemma pop_minimal: "inv q \<Longrightarrow> pop q = Inr (x, q') \<Longrightarrow> y \<in># items q \<Longrightarrow> \<not> lt y x"
  using pop_min pop_Inr_items lt_irrefl by fastforce

text \<open>Draining: repeated extraction delivers the elements in order, each exactly once.\<close>

fun drain :: "nat \<Rightarrow> 'q \<Rightarrow> 'a list" where
  "drain 0 q = []"
| "drain (Suc n) q = (case pop q of Inl _ \<Rightarrow> [] | Inr (x, q') \<Rightarrow> x # drain n q')"

lemma drain_mset: "size (items q) = n \<Longrightarrow> mset (drain n q) = items q"
proof (induction n arbitrary: q)
  case (Suc n)
  then have "items q \<noteq> {#}" by auto
  from pop_items[OF this] obtain x q' where p: "pop q = Inr (x, q')" "items q = add_mset x (items q')"
    by blast
  then show ?case using Suc by simp
qed simp

lemma drain_subset: "x \<in> set (drain n q) \<Longrightarrow> x \<in># items q"
proof (induction n arbitrary: q)
  case (Suc n)
  then show ?case
    by (cases "pop q") (auto simp: pop_Inr_items split: prod.splits)
qed simp

lemma drain_sorted: "inv q \<Longrightarrow> sorted_wrt (\<lambda>x y. \<not> lt y x) (drain n q)"
proof (induction n arbitrary: q)
  case (Suc n)
  then show ?case
    by (cases "pop q") (auto simp: pop_inv dest: drain_subset pop_min split: prod.splits)
qed simp

end

section \<open>Sifting keeps the elements\<close>

lemma mset_move_hole:
  assumes "i < length xs" "j < length xs" "i \<noteq> j"
  shows "mset ((xs[i := xs ! j])[j := x]) = mset (xs[i := x])"
proof -
  have "mset ((xs[i := x])[j := (xs[i := x]) ! i, i := (xs[i := x]) ! j]) = mset (xs[i := x])"
    using assms by (intro mset_swap) simp_all
  moreover have "(xs[i := x])[j := (xs[i := x]) ! i, i := (xs[i := x]) ! j] = (xs[i := xs ! j])[j := x]"
    using assms by (intro nth_equalityI) (auto simp: nth_list_update)
  ultimately show ?thesis by simp
qed

lemma siftdown_mset:
  "pos < length heap \<Longrightarrow> mset (siftdown lt start x heap pos) = mset (heap[pos := x])"
proof (induction lt start x heap pos rule: siftdown.induct)
  case (1 lt start x heap pos)
  show ?case
  proof (cases "start < pos \<and> lt x (heap ! parent pos)")
    case True
    then have "parent pos < pos" by (simp add: parent_less)
    then show ?thesis using 1 True by (simp add: siftdown.simps[of lt start x heap pos] mset_move_hole)
  next
    case False
    then show ?thesis by (subst siftdown.simps) auto
  qed
qed

lemma smaller_child_bounds:
  "2 * pos + 1 < length heap \<Longrightarrow> pos < smaller_child lt heap pos \<and> smaller_child lt heap pos < length heap"
  using smaller_child_cases[of lt heap pos] by auto

lemma siftup_mset:
  "pos < length heap \<Longrightarrow> mset (siftup lt start x heap pos) = mset (heap[pos := x])"
proof (induction lt start x heap pos rule: siftup.induct)
  case (1 lt start x heap pos)
  let ?c = "smaller_child lt heap pos"
  show ?case
  proof (cases "2 * pos + 1 < length heap")
    case True
    note b = smaller_child_bounds[OF True, of lt]
    have "mset (siftup lt start x (heap[pos := heap ! ?c]) ?c) = mset ((heap[pos := heap ! ?c])[?c := x])"
      using 1 True b by simp
    also have "\<dots> = mset (heap[pos := x])" using 1 b by (intro mset_move_hole) auto
    finally show ?thesis using True by (simp add: siftup.simps[of lt start x heap pos] Let_def)
  qed (use 1 in \<open>simp add: siftup.simps[of lt start x heap pos] siftdown_mset\<close>)
qed

lemma heappush_mset: "mset (heappush lt heap x) = add_mset x (mset heap)"
  by (simp add: heappush_def siftdown_mset)

lemma heappop_mset:
  assumes "heap \<noteq> []"
  shows "\<exists>x heap'. heappop lt heap = Inr (x, heap') \<and> mset heap = add_mset x (mset heap')"
proof (cases "butlast heap")
  case Nil
  then have "heap = [last heap]" using append_butlast_last_id[OF assms] by simp
  then have "mset heap = {#last heap#}" by (metis mset_single_iff)
  then show ?thesis using assms Nil by (simp add: heappop_def)
next
  case (Cons y ys)
  then have h: "heap = y # ys @ [last heap]" using append_butlast_last_id[OF assms] by simp
  have "mset (siftup lt 0 (last heap) (y # ys) 0) = mset (last heap # ys)" by (simp add: siftup_mset)
  moreover have "mset heap = add_mset y (mset (last heap # ys))" by (subst h) simp
  ultimately show ?thesis using assms Cons by (simp add: heappop_def)
qed

lemma heapify_mset: "mset (heapify lt heap) = mset heap"
proof -
  have "mset (foldl (\<lambda>h i. siftup lt i (h ! i) h i) h is) = mset h" if "\<forall>i \<in> set is. i < length h" for h "is"
    using that
  proof (induction "is" arbitrary: h)
    case (Cons i "is")
    have step: "mset (siftup lt i (h ! i) h i) = mset h" using Cons.prems by (simp add: siftup_mset)
    then have "length (siftup lt i (h ! i) h i) = length h" by (rule mset_eq_length)
    then show ?case using Cons step by simp
  qed simp
  moreover have "\<forall>i \<in> set (rev [0..<length heap div 2]). i < length heap" by auto
  ultimately show ?thesis unfolding heapify_def by blast
qed

section \<open>Sifting keeps the heap property\<close>

text \<open>The positions below \<open>s\<close> in the heap, by the indices alone.\<close>

inductive under :: "nat \<Rightarrow> nat \<Rightarrow> bool" for s where
  under_self: "under s s"
| under_parent: "under s (parent p) \<Longrightarrow> 0 < p \<Longrightarrow> under s p"

lemma under_le: "under s p \<Longrightarrow> s \<le> p"
  by (induction rule: under.induct) (use parent_le order.trans in blast)+

lemma under_up: "under s p \<Longrightarrow> s < p \<Longrightarrow> under s (parent p) \<and> s \<le> parent p"
  using under_le by (auto elim: under.cases)

lemma under_zero: "under 0 p"
proof (induction p rule: less_induct)
  case (less p)
  show ?case
  proof (cases "p = 0")
    case False
    then show ?thesis using less[of "parent p"] parent_less[of p] by (auto intro: under_parent)
  qed (auto intro: under_self)
qed

text \<open>
  \<open>heap_from lt s heap\<close>: the heap property from position \<open>s\<close> on. \<open>holed lt s heap p\<close>: it holds if
  the element at \<open>p\<close> is ignored, with the edges over the hole contracted.
\<close>

definition heap_from :: "('a \<Rightarrow> 'a \<Rightarrow> bool) \<Rightarrow> nat \<Rightarrow> 'a list \<Rightarrow> bool" where
  "heap_from lt s heap \<longleftrightarrow> (\<forall>i < length heap. 0 < i \<longrightarrow> s \<le> parent i \<longrightarrow> \<not> lt (heap ! i) (heap ! parent i))"

lemma heap_from_zero: "heap_from lt 0 heap = is_heap lt heap"
  by (simp add: heap_from_def is_heap_def)

definition holed :: "('a \<Rightarrow> 'a \<Rightarrow> bool) \<Rightarrow> nat \<Rightarrow> 'a list \<Rightarrow> nat \<Rightarrow> bool" where
  "holed lt s heap p \<longleftrightarrow> (\<forall>i < length heap. 0 < i \<longrightarrow> i \<noteq> p \<longrightarrow> s \<le> parent i \<longrightarrow>
     (if parent i = p then s < p \<longrightarrow> \<not> lt (heap ! i) (heap ! parent p)
      else \<not> lt (heap ! i) (heap ! parent i)))"

lemma holedI:
  assumes "\<And>i. i < length heap \<Longrightarrow> 0 < i \<Longrightarrow> s \<le> parent i \<Longrightarrow> i \<noteq> p \<Longrightarrow> parent i \<noteq> p \<Longrightarrow> \<not> lt (heap ! i) (heap ! parent i)"
    and "\<And>i. i < length heap \<Longrightarrow> 0 < i \<Longrightarrow> parent i = p \<Longrightarrow> s < p \<Longrightarrow> \<not> lt (heap ! i) (heap ! parent p)"
  shows "holed lt s heap p"
  using assms by (auto simp: holed_def)

lemma holed_edge:
  "holed lt s heap p \<Longrightarrow> i < length heap \<Longrightarrow> 0 < i \<Longrightarrow> s \<le> parent i \<Longrightarrow> i \<noteq> p \<Longrightarrow> parent i \<noteq> p \<Longrightarrow>
   \<not> lt (heap ! i) (heap ! parent i)"
  by (auto simp: holed_def)

lemma holed_over:
  "holed lt s heap p \<Longrightarrow> i < length heap \<Longrightarrow> 0 < i \<Longrightarrow> parent i = p \<Longrightarrow> s < p \<Longrightarrow>
   \<not> lt (heap ! i) (heap ! parent p)"
  using parent_less[of i] by (auto simp: holed_def)

lemma holed_update: "holed lt s (heap[p := x]) p = holed lt s heap p"
  unfolding holed_def using parent_less[of p] by (auto simp: nth_list_update)

context strict_weak_order
begin

lemma siftdown_step:
  assumes h: "holed lt s heap p" and p: "under s p" "s < p" "p < length heap"
    and x: "lt x (heap ! parent p)"
    and c: "\<forall>i < length heap. 0 < i \<longrightarrow> parent i = p \<longrightarrow> \<not> lt (heap ! i) x"
  shows "holed lt s (heap[p := heap ! parent p]) (parent p)"
    and "\<forall>i < length heap. 0 < i \<longrightarrow> parent i = parent p \<longrightarrow> \<not> lt (heap[p := heap ! parent p] ! i) x"
proof -
  let ?q = "parent p"
  have q: "?q < p" "s \<le> ?q" "under s ?q" using p under_up[of s p] by (simp_all add: parent_less)
  have up: "\<not> lt (heap ! ?q) (heap ! parent ?q)" if "s < ?q"
    using holed_edge[OF h, of ?q] that q p parent_less[of ?q] under_up[OF q(3) that] by auto
  show "holed lt s (heap[p := heap ! ?q]) ?q"
  proof (rule holedI)
    fix i assume i: "i < length (heap[p := heap ! ?q])" "0 < i" "s \<le> parent i" "i \<noteq> ?q" "parent i \<noteq> ?q"
    then have "i \<noteq> p" by auto
    then show "\<not> lt (heap[p := heap ! ?q] ! i) (heap[p := heap ! ?q] ! parent i)"
      using i p holed_over[OF h, of i] holed_edge[OF h, of i] by (cases "parent i = p") auto
  next
    fix i assume i: "i < length (heap[p := heap ! ?q])" "0 < i" "parent i = ?q" "s < ?q"
    have "parent ?q < ?q" using i by (simp add: parent_less)
    moreover have "\<not> lt (heap ! i) (heap ! ?q)" if "i \<noteq> p"
      using holed_edge[OF h, of i] i q that by auto
    ultimately show "\<not> lt (heap[p := heap ! ?q] ! i) (heap[p := heap ! ?q] ! parent ?q)"
      using i q p up not_lt_trans[OF _ up, of "heap ! i"] by (cases "i = p") auto
  qed
  show "\<forall>i < length heap. 0 < i \<longrightarrow> parent i = ?q \<longrightarrow> \<not> lt (heap[p := heap ! ?q] ! i) x"
  proof (intro allI impI)
    fix i assume i: "i < length heap" "0 < i" "parent i = ?q"
    have "\<not> lt (heap ! i) (heap ! ?q)" if "i \<noteq> p"
      using holed_edge[OF h, of i] i q that by auto
    then show "\<not> lt (heap[p := heap ! ?q] ! i) x"
      using x p not_lt_trans[OF _ lt_asym[OF x], of "heap ! i"] lt_asym by (cases "i = p") auto
  qed
qed

lemma siftdown_heap:
  "holed lt s heap p \<Longrightarrow> under s p \<Longrightarrow> p < length heap \<Longrightarrow>
   \<forall>i < length heap. 0 < i \<longrightarrow> parent i = p \<longrightarrow> \<not> lt (heap ! i) x \<Longrightarrow>
   heap_from lt s (siftdown lt s x heap p)"
proof (induction p arbitrary: heap rule: less_induct)
  case (less p)
  show ?case
  proof (cases "s < p \<and> lt x (heap ! parent p)")
    case True
    then have q: "parent p < p" "under s (parent p)" using under_up[of s p] less.prems(2) by (simp_all add: parent_less)
    have "heap_from lt s (siftdown lt s x (heap[p := heap ! parent p]) (parent p))"
      using True less.prems siftdown_step[of s heap p x] q by (intro less.IH) auto
    then show ?thesis using True by (simp add: siftdown.simps[of lt s x heap p])
  next
    case False
    have "\<not> lt (heap[p := x] ! i) (heap[p := x] ! parent i)" if i: "i < length heap" "0 < i" "s \<le> parent i" for i
    proof -
      have "parent i < i" using i by (simp add: parent_less)
      consider "i = p" | "parent i = p" | "i \<noteq> p" "parent i \<noteq> p" by blast
      then show ?thesis
      proof cases
        case 1
        then show ?thesis using False i \<open>parent i < i\<close> by auto
      next
        case 2
        then show ?thesis using less.prems i \<open>parent i < i\<close> by auto
      next
        case 3
        then show ?thesis using holed_edge[OF less.prems(1), of i] i by auto
      qed
    qed
    then have "heap_from lt s (heap[p := x])" by (simp add: heap_from_def)
    then show ?thesis using False by (subst siftdown.simps) auto
  qed
qed

lemma siftup_step:
  assumes h: "holed lt s heap p" and p: "2 * p + 1 < length heap" "under s p"
  shows "holed lt s (heap[p := heap ! smaller_child lt heap p]) (smaller_child lt heap p)" "under s (smaller_child lt heap p)"
proof -
  let ?c = "smaller_child lt heap p"
  note b = smaller_child_bounds[OF p(1), of lt]
  have pc: "parent ?c = p" using smaller_child_cases[of lt heap p] by (auto simp: parent_def)
  show "under s ?c" using p(2) b under_parent[of s ?c] pc by auto
  have least: "\<not> lt (heap ! i) (heap ! ?c)" if "0 < i" "i < length heap" "parent i = p" for i
    using parent_cases[OF that(1)] that(2,3) lt_asym lt_irrefl
    by (auto simp: smaller_child_def Let_def)
  show "holed lt s (heap[p := heap ! ?c]) ?c"
  proof (rule holedI)
    fix i assume i: "i < length (heap[p := heap ! ?c])" "0 < i" "s \<le> parent i" "i \<noteq> ?c" "parent i \<noteq> ?c"
    have "parent i < i" using i by (simp add: parent_less)
    consider "i = p" | "parent i = p" "i \<noteq> p" | "i \<noteq> p" "parent i \<noteq> p" by blast
    then show "\<not> lt (heap[p := heap ! ?c] ! i) (heap[p := heap ! ?c] ! parent i)"
    proof cases
      case 1
      then show ?thesis using holed_over[OF h, of ?c] pc b i \<open>parent i < i\<close> by auto
    next
      case 2
      then show ?thesis using least[of i] i b by auto
    next
      case 3
      then show ?thesis using holed_edge[OF h, of i] i by auto
    qed
  next
    fix i assume i: "i < length (heap[p := heap ! ?c])" "0 < i" "parent i = ?c" "s < ?c"
    have "?c < i" using i(2,3) parent_less[of i] by simp
    then show "\<not> lt (heap[p := heap ! ?c] ! i) (heap[p := heap ! ?c] ! parent ?c)"
      using holed_edge[OF h, of i] i b pc by auto
  qed
qed

lemma siftup_heap:
  "holed lt s heap p \<Longrightarrow> under s p \<Longrightarrow> p < length heap \<Longrightarrow> heap_from lt s (siftup lt s x heap p)"
proof (induction "length heap - p" arbitrary: heap p rule: less_induct)
  case less
  show ?case
  proof (cases "2 * p + 1 < length heap")
    case True
    note b = smaller_child_bounds[OF True, of lt]
    have "heap_from lt s (siftup lt s x (heap[p := heap ! smaller_child lt heap p]) (smaller_child lt heap p))"
      using less.prems True b by (intro less.hyps siftup_step) auto
    then show ?thesis using True by (simp add: siftup.simps[of lt s x heap p] Let_def)
  next
    case False
    have leaf: "parent i \<noteq> p" if "i < length heap" "0 < i" for i
      using False that parent_cases[of i] by auto
    have "heap_from lt s (siftdown lt s x (heap[p := x]) p)"
      using less.prems leaf by (intro siftdown_heap) (auto simp: holed_update)
    then show ?thesis using False by (simp add: siftup.simps[of lt s x heap p])
  qed
qed

lemma heappush_heap:
  assumes "is_heap lt heap"
  shows "is_heap lt (heappush lt heap x)"
  unfolding heappush_def heap_from_zero[symmetric]
proof (rule siftdown_heap)
  have leaf: "parent i \<noteq> length heap" if "i < length (heap @ [x])" "0 < i" for i
    using that parent_less[of i] by auto
  then show "\<forall>i < length (heap @ [x]). 0 < i \<longrightarrow> parent i = length heap \<longrightarrow> \<not> lt ((heap @ [x]) ! i) x"
    by blast
  show "holed lt 0 (heap @ [x]) (length heap)"
  proof (rule holedI)
    fix i assume i: "i < length (heap @ [x])" "0 < i" "i \<noteq> length heap"
    then have "i < length heap" "parent i < length heap" using parent_less[of i] by auto
    then show "\<not> lt ((heap @ [x]) ! i) ((heap @ [x]) ! parent i)"
      using assms i by (simp add: is_heap_def nth_append)
  qed (use leaf in blast)
qed (simp_all add: under_zero)

text \<open>Each round of \<open>heapify\<close> extends the heap property by one position.\<close>

lemma heapify_round:
  assumes "heap_from lt (Suc s) h" "s < length h"
  shows "heap_from lt s (siftup lt s (h ! s) h s)"
proof (rule siftup_heap)
  show "holed lt s h s" by (rule holedI) (use assms in \<open>auto simp: heap_from_def\<close>)
qed (rule under_self, rule assms(2))

lemma heapify_heap: "is_heap lt (heapify lt heap)"
proof -
  let ?n = "length heap" and ?step = "\<lambda>h i. siftup lt i (h ! i) h i"
  have "heap_from lt s (foldl ?step heap (rev [s..<?n div 2])) \<and> length (foldl ?step heap (rev [s..<?n div 2])) = ?n"
    if "s \<le> ?n div 2" for s
    using that
  proof (induction "?n div 2 - s" arbitrary: s)
    case 0
    then have "s = ?n div 2" by simp
    moreover have "\<not> ?n div 2 \<le> parent i" if "i < ?n" "0 < i" for i using that by (auto simp: parent_def)
    ultimately show ?case by (simp add: heap_from_def)
  next
    case (Suc d)
    let ?h = "foldl ?step heap (rev [Suc s..<?n div 2])"
    have "s < ?n div 2" using Suc.hyps(2) by simp
    then have up: "[s..<?n div 2] = s # [Suc s..<?n div 2]" by (simp add: upt_conv_Cons)
    have h: "heap_from lt (Suc s) ?h" "length ?h = ?n" using Suc by auto
    have s: "s < length ?h" using \<open>s < ?n div 2\<close> h(2) by simp
    have "mset (?step ?h s) = mset ?h" using siftup_mset[OF s, of lt s "?h ! s"] unfolding list_update_id .
    from mset_eq_length[OF this] have "length (?step ?h s) = ?n" unfolding h(2) .
    then show ?case using heapify_round[OF h(1) s] by (simp add: up)
  qed
  from this[of 0] show ?thesis by (simp add: heap_from_zero heapify_def)
qed

lemma is_heap_butlast: "is_heap lt heap \<Longrightarrow> is_heap lt (butlast heap)"
proof -
  assume h: "is_heap lt heap"
  have "\<not> lt (butlast heap ! i) (butlast heap ! parent i)" if "i < length (butlast heap)" "0 < i" for i
    using h that parent_less[of i] by (simp add: is_heap_def nth_butlast)
  then show ?thesis by (simp add: is_heap_def)
qed

lemma is_heap_holed: "is_heap lt heap \<Longrightarrow> holed lt 0 heap 0"
  by (rule holedI) (auto simp: is_heap_def)

lemma heappop_heap:
  assumes "is_heap lt heap" "heappop lt heap = Inr (x, heap')"
  shows "is_heap lt heap'"
proof (cases "butlast heap = []")
  case True
  then show ?thesis using assms(2) by (auto simp: heappop_def Let_def is_heap_def split: if_splits)
next
  case False
  have "heap_from lt 0 (siftup lt 0 (last heap) (butlast heap) 0)"
    using is_heap_holed[OF is_heap_butlast[OF assms(1)]] False by (auto intro!: siftup_heap under_zero)
  then show ?thesis using assms(2) False by (auto simp: heappop_def Let_def heap_from_zero split: if_splits)
qed

lemma is_heap_root: "is_heap lt heap \<Longrightarrow> i < length heap \<Longrightarrow> \<not> lt (heap ! i) (heap ! 0)"
proof (induction i rule: less_induct)
  case (less i)
  show ?case
  proof (cases "i = 0")
    case False
    then have "\<not> lt (heap ! i) (heap ! parent i)" "\<not> lt (heap ! parent i) (heap ! 0)"
      using less parent_less[of i] by (auto simp: is_heap_def)
    then show ?thesis by (rule not_lt_trans)
  qed (simp add: lt_irrefl)
qed

lemma heappop_hd: "heap \<noteq> [] \<Longrightarrow> heappop lt heap = Inr (x, heap') \<Longrightarrow> x = hd heap"
  by (cases heap rule: rev_cases) (auto simp: heappop_def Let_def hd_append split: if_splits)

lemma heappop_min:
  assumes "is_heap lt heap" "heappop lt heap = Inr (x, heap')" "y \<in># mset heap'"
  shows "\<not> lt y x"
proof -
  have ne: "heap \<noteq> []" using assms(2) by (auto simp: heappop_def)
  have "y \<in># mset heap" using heappop_mset[OF ne, of lt] assms(2,3) by auto
  then obtain i where "i < length heap" "y = heap ! i" by (auto simp: in_set_conv_nth)
  then show ?thesis
    using is_heap_root[OF assms(1)] heappop_hd[OF ne assms(2)] hd_conv_nth[OF ne] by auto
qed

end

sublocale strict_weak_order \<subseteq> heapq: priority_queue lt "is_heap lt" mset "heappush lt" "heappop lt"
proof unfold_locales
  show "\<And>q x. mset (heappush lt q x) = add_mset x (mset q)" by (rule heappush_mset)
  show "\<And>q. mset q \<noteq> {#} \<Longrightarrow> \<exists>x q'. heappop lt q = Inr (x, q') \<and> mset q = add_mset x (mset q')"
    by (simp add: heappop_mset)
qed (auto simp: heappush_heap heappop_heap heappop_min, simp add: heappop_def)

end
