(* ===== verification/Event_Loop.thy ===== *)
theory Event_Loop
  imports Py_Heapq
begin

text \<open>
  The requests and the discrete event loop of the cluster simulator
  (\<open>src/scheduler/simulator/core/request.py\<close> and \<open>events.py\<close>).

  The event queue is the Python list that \<open>heapq\<close> keeps in heap order under \<open>Event.__lt__\<close>.
  A handler is a function that receives the event, the loop and the state \<open>'w\<close> of the
  component that registered it, and returns both updated or raises; the dictionary
  \<open>event_handlers\<close> is an argument of \<open>step\<close> and \<open>run\<close>. \<open>run\<close> need not end, so it is a
  \<open>partial_function\<close> into \<open>option\<close>: \<open>None\<close> means that the loop runs forever. The generated
  \<open>event_id\<close> plays no role in the ordering and is left to the creator of the event.
\<close>

section \<open>Requests\<close>

datatype req_status = PENDING | SCHEDULED | PREFILL | GENERATE | EXIT

record generation_request =
  req_id :: string
  rq_model :: string
  input_length :: int
  output_length :: int
  arrive_at :: real
  rq_status :: req_status
  prefill_time :: "real option"
  generated_tokens :: int
  prefill_finished_at :: "real option"
  generation_finished_at :: "real option"
  prefill_node :: "string option"
  decode_node :: "string option"
  serving_node :: "string option"

definition GenerationRequest :: "string \<Rightarrow> string \<Rightarrow> int \<Rightarrow> int \<Rightarrow> real \<Rightarrow> generation_request" where
  "GenerationRequest rid m inl outl arr =
     \<lparr>req_id = rid, rq_model = m, input_length = inl, output_length = outl, arrive_at = arr,
      rq_status = PENDING, prefill_time = None, generated_tokens = 0, prefill_finished_at = None,
      generation_finished_at = None, prefill_node = None, decode_node = None, serving_node = None\<rparr>"

definition set_generation_finished_at :: "real \<Rightarrow> generation_request \<Rightarrow> generation_request" where
  "set_generation_finished_at t r = r\<lparr>generation_finished_at := Some t\<rparr>"

definition set_prefill_finished_at :: "real \<Rightarrow> generation_request \<Rightarrow> generation_request" where
  "set_prefill_finished_at t r = r\<lparr>prefill_finished_at := Some t, rq_status := GENERATE\<rparr>"

definition req_prefill :: "generation_request \<Rightarrow> generation_request" where
  "req_prefill r = r\<lparr>rq_status := PREFILL\<rparr>"

definition req_stop :: "generation_request \<Rightarrow> generation_request" where
  "req_stop r = r\<lparr>rq_status := EXIT\<rparr>"

definition req_decode :: "generation_request \<Rightarrow> bool \<times> generation_request" where
  "req_decode r =
     (let r1 = r\<lparr>generated_tokens := generated_tokens r + 1\<rparr> in
      if generated_tokens r1 = output_length r1 then (True, req_stop r1) else (False, r1))"

section \<open>Events\<close>

datatype event_type =
    REQUEST_ARRIVAL | NODE_ONLINE | NODE_OFFLINE | PLACEMENT_DECISION | LOAD_BALANCE
  | PREFILL_START | PREFILL_COMPLETE | DECODE_STEP | BATCH_FORM | MEMORY_CHECK
  | MODEL_LOAD | MODEL_UNLOAD | REQUEST_COMPLETE | AFD_ATTENTION_PULL

fun event_type_value :: "event_type \<Rightarrow> string" where
  "event_type_value REQUEST_ARRIVAL = ''request_arrival''"
| "event_type_value NODE_ONLINE = ''node_online''"
| "event_type_value NODE_OFFLINE = ''node_offline''"
| "event_type_value PLACEMENT_DECISION = ''placement_decision''"
| "event_type_value LOAD_BALANCE = ''load_balance''"
| "event_type_value PREFILL_START = ''prefill_start''"
| "event_type_value PREFILL_COMPLETE = ''prefill_complete''"
| "event_type_value DECODE_STEP = ''decode_step''"
| "event_type_value BATCH_FORM = ''batch_form''"
| "event_type_value MEMORY_CHECK = ''memory_check''"
| "event_type_value MODEL_LOAD = ''model_load''"
| "event_type_value MODEL_UNLOAD = ''model_unload''"
| "event_type_value REQUEST_COMPLETE = ''request_complete''"
| "event_type_value AFD_ATTENTION_PULL = ''afd_attention_pull''"

datatype event_priority = HIGHEST | HIGH | MEDIUM | LOW

fun priority_value :: "event_priority \<Rightarrow> int" where
  "priority_value HIGHEST = 1"
| "priority_value HIGH = 2"
| "priority_value MEDIUM = 3"
| "priority_value LOW = 4"

record 'd event =
  timestamp :: real
  ev_type :: event_type
  target :: string
  data :: 'd
  priority :: event_priority
  event_id :: string

definition event_lt :: "'d event \<Rightarrow> 'd event \<Rightarrow> bool" where
  "event_lt e e' =
     (if timestamp e \<noteq> timestamp e' then timestamp e < timestamp e'
      else priority_value (priority e) < priority_value (priority e'))"

section \<open>The event loop\<close>

record loop_statistics =
  events_processed :: int
  total_simulation_time :: real
  events_by_type :: "(string, int) dict"

record 'd event_loop =
  event_queue :: "'d event list"
  current_time :: real
  running :: bool
  statistics :: loop_statistics

definition initial_statistics :: loop_statistics where
  "initial_statistics = \<lparr>events_processed = 0, total_simulation_time = 0, events_by_type = []\<rparr>"

definition EventLoop :: "'d event_loop" where
  "EventLoop = \<lparr>event_queue = [], current_time = 0, running = False, statistics = initial_statistics\<rparr>"

type_synonym ('d, 'w) handler = "'d event \<Rightarrow> 'd event_loop \<Rightarrow> 'w \<Rightarrow> ('d event_loop \<times> 'w) result"

definition schedule_event :: "'d event_loop \<Rightarrow> 'd event \<Rightarrow> 'd event_loop result" where
  "schedule_event el e =
     (if timestamp e < current_time el then Inl (ValueError ''Cannot schedule event in the past'')
      else Inr (el\<lparr>event_queue := heappush event_lt (event_queue el) e\<rparr>))"

definition register_handler ::
  "(event_type, ('d, 'w) handler) dict \<Rightarrow> event_type \<Rightarrow> ('d, 'w) handler \<Rightarrow> (event_type, ('d, 'w) handler) dict" where
  "register_handler hs t h = AList.update t h hs"

definition count_event :: "'d event \<Rightarrow> loop_statistics \<Rightarrow> loop_statistics" where
  "count_event e st =
     (let name = event_type_value (ev_type e) in
      st\<lparr>events_processed := events_processed st + 1,
         events_by_type := AList.update name (dict_getd (events_by_type st) name 0 + 1) (events_by_type st)\<rparr>)"

definition loop_step ::
  "(event_type, ('d, 'w) handler) dict \<Rightarrow> 'd event_loop \<Rightarrow> 'w \<Rightarrow> (bool \<times> 'd event_loop \<times> 'w) result" where
  "loop_step hs el w =
     (if event_queue el = [] then Inr (False, el, w)
      else bind_result (heappop event_lt (event_queue el)) (\<lambda>(e, q).
        let el1 = el\<lparr>event_queue := q, current_time := timestamp e, statistics := count_event e (statistics el)\<rparr> in
        case map_of hs (ev_type e) of
          None \<Rightarrow> Inr (True, el1, w)
        | Some h \<Rightarrow> bind_result (h e el1 w) (\<lambda>(el2, w2). Inr (True, el2, w2))))"

definition budget_spent :: "int option \<Rightarrow> int \<Rightarrow> bool" where
  "budget_spent max_events n = (case max_events of None \<Rightarrow> False | Some m \<Rightarrow> m \<noteq> 0 \<and> m \<le> n)"

partial_function (option) run_loop ::
  "(event_type, ('d, 'w) handler) dict \<Rightarrow> xreal \<Rightarrow> int option \<Rightarrow> int \<Rightarrow> 'd event_loop \<Rightarrow> 'w \<Rightarrow>
   ('d event_loop \<times> 'w) result option" where
  "run_loop hs max_time max_events n el w =
     (if \<not> (running el \<and> event_queue el \<noteq> []) then Some (Inr (el, w))
      else if max_time < Fin (current_time el) then Some (Inr (el, w))
      else if budget_spent max_events n then Some (Inr (el, w))
      else (case loop_step hs el w of
              Inl err \<Rightarrow> Some (Inl err)
            | Inr (progressed, el1, w1) \<Rightarrow>
                if \<not> progressed then Some (Inr (el1, w1))
                else run_loop hs max_time max_events (n + 1) el1 w1))"

definition finish_run :: "'d event_loop \<Rightarrow> 'd event_loop" where
  "finish_run el = el\<lparr>running := False, statistics := (statistics el)\<lparr>total_simulation_time := current_time el\<rparr>\<rparr>"

definition run ::
  "(event_type, ('d, 'w) handler) dict \<Rightarrow> xreal \<Rightarrow> int option \<Rightarrow> 'd event_loop \<Rightarrow> 'w \<Rightarrow>
   ('d event_loop \<times> 'w) result option" where
  "run hs max_time max_events el w =
     map_option (\<lambda>r. bind_result r (\<lambda>(el1, w1). Inr (finish_run el1, w1)))
       (run_loop hs max_time max_events 0 (el\<lparr>running := True\<rparr>) w)"

definition stop :: "'d event_loop \<Rightarrow> 'd event_loop" where
  "stop el = el\<lparr>running := False\<rparr>"

definition get_next_event_time :: "'d event_loop \<Rightarrow> real option" where
  "get_next_event_time el = (case event_queue el of [] \<Rightarrow> None | e # _ \<Rightarrow> Some (timestamp e))"

text \<open>A Python slice \<open>xs[:count]\<close>; a negative bound counts from the end.\<close>

definition peek_next_events :: "int \<Rightarrow> 'd event_loop \<Rightarrow> 'd event list" where
  "peek_next_events k el =
     (let q = event_queue el in
      take (nat (if k < 0 then int (length q) + k else k)) q)"

definition clear_future_events :: "string option \<Rightarrow> 'd event_loop \<Rightarrow> int \<times> 'd event_loop" where
  "clear_future_events tgt el =
     (case tgt of
        None \<Rightarrow> (int (length (event_queue el)), el\<lparr>event_queue := []\<rparr>)
      | Some t \<Rightarrow>
          let q = filter (\<lambda>e. target e \<noteq> t) (event_queue el) in
          (int (length (event_queue el)) - int (length q), el\<lparr>event_queue := q\<rparr>))"

definition reset :: "'d event_loop \<Rightarrow> 'd event_loop" where
  "reset el = el\<lparr>event_queue := [], current_time := 0, running := False, statistics := initial_statistics\<rparr>"

section \<open>Requests: token counting\<close>

fun decode_steps :: "nat \<Rightarrow> generation_request \<Rightarrow> bool list \<times> generation_request" where
  "decode_steps 0 r = ([], r)"
| "decode_steps (Suc n) r =
     (let (b, r1) = req_decode r; (bs, r2) = decode_steps n r1 in (b # bs, r2))"

lemma req_decode_fields:
  "generated_tokens (snd (req_decode r)) = generated_tokens r + 1"
  "output_length (snd (req_decode r)) = output_length r"
  "fst (req_decode r) \<longleftrightarrow> generated_tokens r + 1 = output_length r"
  "rq_status (snd (req_decode r)) = (if fst (req_decode r) then EXIT else rq_status r)"
  by (simp_all add: req_decode_def req_stop_def Let_def)

lemma decode_steps_shape:
  "fst (decode_steps n r) = map (\<lambda>i. generated_tokens r + int i + 1 = output_length r) [0..<n] \<and>
   generated_tokens (snd (decode_steps n r)) = generated_tokens r + int n \<and>
   output_length (snd (decode_steps n r)) = output_length r"
proof (induction n arbitrary: r)
  case (Suc n)
  obtain b r1 where r1: "req_decode r = (b, r1)" by fastforce
  have f: "generated_tokens r1 = generated_tokens r + 1" "output_length r1 = output_length r"
    "b = (generated_tokens r + 1 = output_length r)"
    using req_decode_fields[of r] r1 by simp_all
  have "[0..<Suc n] = 0 # map Suc [0..<n]" by (simp add: upt_conv_Cons map_Suc_upt del: upt_Suc)
  moreover obtain bs r2 where "decode_steps n r1 = (bs, r2)" by fastforce
  ultimately show ?case using Suc[of r1] f by (simp add: r1 ac_simps del: upt_Suc)
qed simp

section \<open>The queue is a priority queue\<close>

interpretation evq: strict_weak_order "event_lt :: 'd event \<Rightarrow> 'd event \<Rightarrow> bool"
  by unfold_locales (auto simp: event_lt_def split: if_splits)

lemma event_lt_timestamp: "\<not> event_lt e' e \<Longrightarrow> timestamp e \<le> timestamp e'"
  by (auto simp: event_lt_def split: if_splits)

text \<open>The loop invariant: heap order, and no pending event lies in the past.\<close>

definition loop_ok :: "'d event_loop \<Rightarrow> bool" where
  "loop_ok el \<longleftrightarrow> is_heap event_lt (event_queue el) \<and>
     (\<forall>e \<in> set (event_queue el). current_time el \<le> timestamp e)"

lemma loop_ok_EventLoop: "loop_ok EventLoop"
  by (simp add: loop_ok_def EventLoop_def is_heap_def)

lemma schedule_event_Inr:
  assumes "loop_ok el" "schedule_event el e = Inr el'"
  shows "loop_ok el'" "current_time el' = current_time el" "statistics el' = statistics el"
    "mset (event_queue el') = add_mset e (mset (event_queue el))"
proof -
  have el': "el' = el\<lparr>event_queue := heappush event_lt (event_queue el) e\<rparr>" "current_time el \<le> timestamp e"
    using assms(2) by (auto simp: schedule_event_def split: if_splits)
  then show "current_time el' = current_time el" "statistics el' = statistics el"
    "mset (event_queue el') = add_mset e (mset (event_queue el))"
    by (simp_all add: heappush_mset)
  then have "set (event_queue el') = insert e (set (event_queue el))"
    by (metis set_mset_mset set_mset_add_mset_insert)
  then show "loop_ok el'"
    using assms(1) el' by (auto simp: loop_ok_def evq.heappush_heap)
qed

lemma loop_ok_simps [simp]:
  "loop_ok (el\<lparr>running := b\<rparr>) = loop_ok el" "loop_ok (el\<lparr>statistics := s\<rparr>) = loop_ok el"
  by (simp_all add: loop_ok_def)

lemma loop_pop:
  assumes "loop_ok el" "event_queue el \<noteq> []"
  obtains e q where "heappop event_lt (event_queue el) = Inr (e, q)"
    "mset (event_queue el) = add_mset e (mset q)" "current_time el \<le> timestamp e"
    "\<forall>e' \<in> set (event_queue el). \<not> event_lt e' e"
    "\<forall>s. loop_ok (el\<lparr>event_queue := q, current_time := timestamp e, statistics := s\<rparr>)"
proof -
  obtain e q where p: "heappop event_lt (event_queue el) = Inr (e, q)"
    "mset (event_queue el) = add_mset e (mset q)"
    using heappop_mset[OF assms(2), of event_lt] by blast
  have heap: "is_heap event_lt (event_queue el)" using assms(1) by (simp add: loop_ok_def)
  have least: "\<forall>e' \<in> set (event_queue el). \<not> event_lt e' e"
    using evq.heapq.pop_minimal[OF heap p(1)] by simp
  have sub: "set (event_queue el) = insert e (set q)"
    using arg_cong[OF p(2), of set_mset] by simp
  have "is_heap event_lt q" by (rule evq.heappop_heap[OF heap p(1)])
  moreover have "\<forall>e' \<in> set q. timestamp e \<le> timestamp e'" using least sub event_lt_timestamp by blast
  ultimately have "\<forall>s. loop_ok (el\<lparr>event_queue := q, current_time := timestamp e, statistics := s\<rparr>)"
    by (simp add: loop_ok_def)
  moreover have "current_time el \<le> timestamp e" using assms(1) sub by (simp add: loop_ok_def)
  ultimately show ?thesis using that[OF p _ least] by blast
qed

section \<open>Handlers\<close>

text \<open>
  What the loop relies on of a handler: it keeps the queue invariant and leaves the clock and the
  statistics alone. A handler that only uses \<open>schedule_event\<close> and \<open>stop\<close> is of this kind.
\<close>

definition handler_ok :: "('d, 'w) handler \<Rightarrow> bool" where
  "handler_ok h \<longleftrightarrow> (\<forall>e el w el' w'. loop_ok el \<longrightarrow> h e el w = Inr (el', w') \<longrightarrow>
     loop_ok el' \<and> current_time el' = current_time el \<and> statistics el' = statistics el)"

definition handlers_ok :: "(event_type, ('d, 'w) handler) dict \<Rightarrow> bool" where
  "handlers_ok hs \<longleftrightarrow> (\<forall>(t, h) \<in> set hs. handler_ok h)"

lemma schedule_handler_ok:
  "handler_ok (\<lambda>e el w. bind_result (schedule_event el (f e el w)) (\<lambda>el1. Inr (el1, g e el w)))"
  by (auto simp: handler_ok_def bind_result_eq_Inr dest: schedule_event_Inr)

lemma set_AList_update: "set (AList.update k v d) \<subseteq> insert (k, v) (set d)"
  by (induction d) auto

lemma register_handler_ok:
  "handlers_ok hs \<Longrightarrow> handler_ok h \<Longrightarrow> handlers_ok (register_handler hs t h)"
  using set_AList_update[of t h hs] unfolding handlers_ok_def register_handler_def by blast

text \<open>The steps of the loop with the events they process.\<close>

inductive processes ::
  "(event_type, ('d, 'w) handler) dict \<Rightarrow> 'd event_loop \<times> 'w \<Rightarrow> 'd event list \<Rightarrow> 'd event_loop \<times> 'w \<Rightarrow> bool"
  for hs where
  processes_none: "processes hs s [] s"
| processes_step: "event_queue el \<noteq> [] \<Longrightarrow> heappop event_lt (event_queue el) = Inr (e, q) \<Longrightarrow>
    loop_step hs el w = Inr (True, s1) \<Longrightarrow> processes hs s1 es s2 \<Longrightarrow> processes hs (el, w) (e # es) s2"

inductive_cases processes_NilE: "processes hs s [] s'"
inductive_cases processes_ConsE: "processes hs s (e # es) s'"

lemma loop_step_Inr:
  assumes ok: "loop_ok el" "handlers_ok hs" and ne: "event_queue el \<noteq> []"
    and p: "heappop event_lt (event_queue el) = Inr (e, q)"
    and st: "loop_step hs el w = Inr (progressed, el1, w1)"
  shows "progressed" "loop_ok el1" "current_time el1 = timestamp e" "current_time el \<le> timestamp e"
    "statistics el1 = count_event e (statistics el)"
proof -
  let ?el = "el\<lparr>event_queue := q, current_time := timestamp e, statistics := count_event e (statistics el)\<rparr>"
  obtain e' q' where p': "heappop event_lt (event_queue el) = Inr (e', q')" "current_time el \<le> timestamp e'"
    "\<forall>s. loop_ok (el\<lparr>event_queue := q', current_time := timestamp e', statistics := s\<rparr>)"
    by (rule loop_pop[OF ok(1) ne])
  then have el: "loop_ok ?el" and t: "current_time el \<le> timestamp e" using p by auto
  show "current_time el \<le> timestamp e" by (rule t)
  have "progressed \<and> loop_ok el1 \<and> current_time el1 = timestamp e \<and> statistics el1 = count_event e (statistics el)"
  proof (cases "map_of hs (ev_type e)")
    case None
    then show ?thesis using st ne p el by (auto simp: loop_step_def Let_def)
  next
    case (Some h)
    then have "handler_ok h" using ok(2) map_of_SomeD unfolding handlers_ok_def by fastforce
    moreover have "h e ?el w = Inr (el1, w1)" "progressed"
      using st ne p Some by (auto simp: loop_step_def Let_def bind_result_eq_Inr)
    ultimately have "loop_ok el1 \<and> current_time el1 = current_time ?el \<and> statistics el1 = statistics ?el"
      using el unfolding handler_ok_def by blast
    with \<open>progressed\<close> show ?thesis by simp
  qed
  then show "progressed" "loop_ok el1" "current_time el1 = timestamp e"
    "statistics el1 = count_event e (statistics el)" by simp_all
qed

lemma processes_sorted:
  "processes hs s es s' \<Longrightarrow> loop_ok (fst s) \<Longrightarrow> handlers_ok hs \<Longrightarrow>
   sorted (map timestamp es) \<and> (\<forall>e \<in> set es. current_time (fst s) \<le> timestamp e) \<and> loop_ok (fst s') \<and>
   current_time (fst s') = (if es = [] then current_time (fst s) else timestamp (last es)) \<and>
   events_processed (statistics (fst s')) = events_processed (statistics (fst s)) + int (length es)"
proof (induction rule: processes.induct)
  case (processes_step el e q w s1 es s2)
  obtain el1 w1 where s1: "s1 = (el1, w1)" by fastforce
  note st = loop_step_Inr[OF _ _ processes_step.hyps(1,2) processes_step.hyps(3)[unfolded s1]]
  then have "loop_ok el1" "current_time el1 = timestamp e" "current_time el \<le> timestamp e"
    "statistics el1 = count_event e (statistics el)"
    using processes_step.prems by auto
  then show ?case
    using processes_step.IH processes_step.prems s1 by (force simp: count_event_def Let_def)
qed simp

lemma loop_step_progress:
  assumes "event_queue el \<noteq> []" "loop_step hs el w = Inr (progressed, s1)"
  shows "progressed \<and> (\<exists>e q. heappop event_lt (event_queue el) = Inr (e, q))"
proof -
  obtain e q where p: "heappop event_lt (event_queue el) = Inr (e, q)"
    using heappop_mset[OF assms(1), of event_lt] by blast
  then show ?thesis
    using assms by (auto simp: loop_step_def Let_def bind_result_eq_Inr split: option.splits)
qed

definition run_ended :: "xreal \<Rightarrow> int option \<Rightarrow> int \<Rightarrow> 'd event_loop \<Rightarrow> bool" where
  "run_ended mt me n el \<longleftrightarrow>
     \<not> running el \<or> event_queue el = [] \<or> mt < Fin (current_time el) \<or> budget_spent me n"

lemma run_loop_processes:
  assumes "run_loop hs mt me n el w = Some r" "r = Inr s'"
  shows "\<exists>es. processes hs (el, w) es s' \<and> run_ended mt me (n + int (length es)) (fst s') \<and>
    (\<forall>m. me = Some m \<longrightarrow> 0 < m \<longrightarrow> n \<le> m \<longrightarrow> n + int (length es) \<le> m)"
  using assms
proof (induction hs mt me n el w r arbitrary: s' rule: run_loop.raw_induct[rotated 1, consumes 1])
  case (1 run hs mt me n el w r)
  show ?case
  proof (cases "\<not> (running el \<and> event_queue el \<noteq> []) \<or> mt < Fin (current_time el) \<or> budget_spent me n")
    case True
    then have s': "s' = (el, w)" using "1.hyps" "1.prems" by (auto split: if_splits)
    then have "run_ended mt me n (fst s')" using True by (auto simp: run_ended_def)
    then show ?thesis using s' by (intro exI[of _ "[]"]) (simp add: processes_none)
  next
    case False
    then obtain e q where p: "heappop event_lt (event_queue el) = Inr (e, q)"
      using heappop_mset[of "event_queue el" event_lt] by blast
    obtain el1 w1 where st: "loop_step hs el w = Inr (True, el1, w1)" "run hs mt me (n + 1) el1 w1 = Some r"
      using False "1.hyps" "1.prems" loop_step_progress[of el hs w]
      by (auto split: sum.splits if_splits prod.splits)
    obtain es where es: "processes hs (el1, w1) es s'" "run_ended mt me (n + 1 + int (length es)) (fst s')"
      "\<forall>m. me = Some m \<longrightarrow> 0 < m \<longrightarrow> n + 1 \<le> m \<longrightarrow> n + 1 + int (length es) \<le> m"
      using "1.IH"[OF st(2) "1.prems"] by blast
    have "n + 1 \<le> m" if "me = Some m" "0 < m" for m using False that by (auto simp: budget_spent_def)
    then show ?thesis
      using False es p st(1) by (intro exI[of _ "e # es"]) (auto simp: ac_simps intro: processes_step)
  qed
qed

lemma run_loop_budget: "0 < m \<Longrightarrow> \<exists>r. run_loop hs mt (Some m) n el w = Some r"
proof (induction "nat (m - n)" arbitrary: n el w rule: less_induct)
  case less
  show ?case
  proof (cases "budget_spent (Some m) n")
    case True
    then show ?thesis by (subst run_loop.simps) simp
  next
    case False
    then have "\<exists>r. run_loop hs mt (Some m) (n + 1) el1 w1 = Some r" for el1 w1
      using less.prems by (intro less.hyps) (auto simp: budget_spent_def)
    then show ?thesis by (subst run_loop.simps) (auto split: sum.split prod.split)
  qed
qed

lemma loop_ok_finish_run: "loop_ok (finish_run el) = loop_ok el"
  by (simp add: finish_run_def)

lemma run_trace:
  assumes "loop_ok el" "handlers_ok hs" "run hs mt me el w = Some (Inr (el', w'))"
  obtains es el1 where "processes hs (el\<lparr>running := True\<rparr>, w) es (el1, w')" "el' = finish_run el1"
    "sorted (map timestamp es)" "\<forall>e \<in> set es. current_time el \<le> timestamp e"
    "loop_ok el1" "current_time el1 = (if es = [] then current_time el else timestamp (last es))"
    "events_processed (statistics el1) = events_processed (statistics el) + int (length es)"
    "run_ended mt me (int (length es)) el1"
    "\<forall>m. me = Some m \<longrightarrow> 0 < m \<longrightarrow> int (length es) \<le> m"
proof -
  obtain el1 where l: "run_loop hs mt me 0 (el\<lparr>running := True\<rparr>) w = Some (Inr (el1, w'))" "el' = finish_run el1"
    using assms(3) by (auto simp: run_def bind_result_eq_Inr)
  obtain es where es: "processes hs (el\<lparr>running := True\<rparr>, w) es (el1, w')" "run_ended mt me (int (length es)) el1"
    "\<forall>m. me = Some m \<longrightarrow> 0 < m \<longrightarrow> int (length es) \<le> m"
    using run_loop_processes[OF l(1) refl] by force
  from processes_sorted[OF es(1)] that[OF es(1) l(2)] es assms(1,2) show ?thesis by simp
qed

section \<open>Properties\<close>

text \<open>
  One step of the loop takes a pending event that no other pending event precedes in the order
  (time, priority), advances the clock to its time, counts it, and hands it to its handler with
  that event removed from the queue; without a handler only the clock and the statistics change.
\<close>

theorem loop_step_earliest_first:
  assumes "loop_ok el" "event_queue el \<noteq> []"
  shows "\<exists>e q. mset (event_queue el) = add_mset e (mset q) \<and> current_time el \<le> timestamp e \<and>
    (\<forall>e' \<in> set q. timestamp e < timestamp e' \<or>
       timestamp e = timestamp e' \<and> priority_value (priority e) \<le> priority_value (priority e')) \<and>
    (let el1 = el\<lparr>event_queue := q, current_time := timestamp e, statistics := count_event e (statistics el)\<rparr>
     in loop_ok el1 \<and> loop_step hs el w = (case map_of hs (ev_type e) of None \<Rightarrow> Inr (True, el1, w)
       | Some h \<Rightarrow> bind_result (h e el1 w) (\<lambda>(el2, w2). Inr (True, el2, w2))))"
proof -
  obtain e q where p: "heappop event_lt (event_queue el) = Inr (e, q)"
    "mset (event_queue el) = add_mset e (mset q)" "current_time el \<le> timestamp e"
    "\<forall>e' \<in> set (event_queue el). \<not> event_lt e' e"
    "\<forall>s. loop_ok (el\<lparr>event_queue := q, current_time := timestamp e, statistics := s\<rparr>)"
    by (rule loop_pop[OF assms])
  have "set q \<subseteq> set (event_queue el)"
    using arg_cong[OF p(2), of set_mset] by auto
  then have "\<forall>e' \<in> set q. \<not> event_lt e' e" using p(4) by blast
  then have "\<forall>e' \<in> set q. timestamp e < timestamp e' \<or>
       timestamp e = timestamp e' \<and> priority_value (priority e) \<le> priority_value (priority e')"
    by (auto simp: event_lt_def split: if_splits)
  then show ?thesis using p assms(2) by (intro exI[of _ e] exI[of _ q]) (simp add: loop_step_def Let_def)
qed

definition sample_event :: "real \<Rightarrow> string \<Rightarrow> unit event" where
  "sample_event t tgt = \<lparr>timestamp = t, ev_type = BATCH_FORM, target = tgt, data = (), priority = MEDIUM, event_id = []\<rparr>"

definition sample_loop :: "unit event_loop" where
  "sample_loop = EventLoop\<lparr>event_queue := [sample_event 1 ''n0'', sample_event 5 ''n1'', sample_event 2 ''n0'']\<rparr>"

definition sample_handlers :: "(event_type, (unit, nat) handler) dict" where
  "sample_handlers = [(BATCH_FORM, \<lambda>e el w. bind_result (schedule_event el (sample_event (timestamp e + 1) ''n2'')) (\<lambda>el1. Inr (el1, w + 1)))]"

lemma is_heap_two: "is_heap lt [a, b] \<longleftrightarrow> \<not> lt b a"
  by (simp add: is_heap_def parent_def All_less_Suc)

lemma is_heap_three: "is_heap lt [a, b, c] \<longleftrightarrow> \<not> lt b a \<and> \<not> lt c a"
  by (auto simp: is_heap_def parent_def All_less_Suc)

lemma sample_loop_ok: "loop_ok sample_loop" "event_queue sample_loop \<noteq> []"
  by (simp_all add: loop_ok_def sample_loop_def EventLoop_def is_heap_three sample_event_def event_lt_def)

lemma sample_handlers_ok: "handlers_ok sample_handlers"
  unfolding handlers_ok_def sample_handlers_def using schedule_handler_ok by fastforce

theorem loop_step_earliest_first_witness:
  "loop_ok sample_loop \<and> event_queue sample_loop \<noteq> [] \<and>
   (\<exists>e q. mset (event_queue sample_loop) = add_mset e (mset q) \<and>
     (\<forall>e' \<in> set q. timestamp e \<le> timestamp e'))"
proof -
  obtain e q where "mset (event_queue sample_loop) = add_mset e (mset q)"
    "\<forall>e' \<in> set q. timestamp e < timestamp e' \<or>
       timestamp e = timestamp e' \<and> priority_value (priority e) \<le> priority_value (priority e')"
    using loop_step_earliest_first[OF sample_loop_ok, of sample_handlers 0] by blast
  then show ?thesis using sample_loop_ok by fastforce
qed

text \<open>
  C31. \<open>run\<close> with handlers that only schedule events or stop the loop: the events are processed in
  non-decreasing time order and none before the clock it started with, the clock ends at the
  last of them, the statistics count exactly them, the queue invariant holds at the end, and
  \<open>run\<close> ends only because the loop was stopped, the queue is empty, the time limit is exceeded
  or the event budget is spent.
\<close>

theorem run_processes_in_time_order:
  assumes "loop_ok el" "handlers_ok hs" "run hs mt me el w = Some (Inr (el', w'))"
  shows "\<exists>es el1. processes hs (el\<lparr>running := True\<rparr>, w) es (el1, w') \<and> el' = finish_run el1 \<and>
    sorted (map timestamp es) \<and> (\<forall>e \<in> set es. current_time el \<le> timestamp e) \<and>
    current_time el' = (if es = [] then current_time el else timestamp (last es)) \<and>
    events_processed (statistics el') = events_processed (statistics el) + int (length es) \<and>
    total_simulation_time (statistics el') = current_time el' \<and> loop_ok el' \<and>
    (\<not> running el1 \<or> event_queue el' = [] \<or> mt < Fin (current_time el') \<or> budget_spent me (int (length es)))"
  by (rule run_trace[OF assms])
    (intro exI conjI; assumption?; auto simp: loop_ok_finish_run finish_run_def run_ended_def)

lemma sample_run:
  "run sample_handlers PosInf (Some 1) (EventLoop\<lparr>event_queue := [sample_event 1 ''n0'']\<rparr>) 0 =
   Some (Inr (EventLoop\<lparr>event_queue := [sample_event 2 ''n2''], current_time := 1,
     statistics := \<lparr>events_processed = 1, total_simulation_time = 1, events_by_type = [(''batch_form'', 1)]\<rparr>\<rparr>, 1))"
proof -
  have "run_loop sample_handlers PosInf (Some 1) 1 el w = Some (Inr (el, w))" for el and w :: nat
    by (subst run_loop.simps) (simp add: budget_spent_def)
  then show ?thesis
    unfolding run_def
    by (subst run_loop.simps)
      (simp add: budget_spent_def loop_step_def heappop_def EventLoop_def sample_handlers_def sample_event_def
        schedule_event_def heappush_def siftdown.simps initial_statistics_def count_event_def finish_run_def Let_def)
qed

theorem run_processes_in_time_order_witness:
  "\<exists>el el' w'. loop_ok el \<and> handlers_ok sample_handlers \<and>
     run sample_handlers PosInf (Some 1) el 0 = Some (Inr (el', w')) \<and> loop_ok el' \<and>
     current_time el < current_time el'"
proof -
  let ?el = "EventLoop\<lparr>event_queue := [sample_event 1 ''n0'']\<rparr>"
  let ?el' = "EventLoop\<lparr>event_queue := [sample_event 2 ''n2''], current_time := 1,
     statistics := \<lparr>events_processed = 1, total_simulation_time = 1, events_by_type = [(''batch_form'', 1)]\<rparr>\<rparr>"
  have ok: "loop_ok ?el" by (simp add: loop_ok_def EventLoop_def is_heap_def sample_event_def)
  have "loop_ok ?el'" using run_processes_in_time_order[OF ok sample_handlers_ok sample_run] by blast
  moreover have "current_time ?el < current_time ?el'" by (simp add: EventLoop_def)
  ultimately show ?thesis using ok sample_handlers_ok sample_run by blast
qed

text \<open>
  With a positive event budget \<open>run\<close> always returns, whatever the handlers schedule, and the
  events processed stay within the budget.
\<close>

theorem run_terminates_within_budget:
  assumes "0 < m"
  shows "\<exists>r. run hs mt (Some m) el w = Some r \<and>
    (\<forall>el' w'. r = Inr (el', w') \<and> loop_ok el \<and> handlers_ok hs \<longrightarrow>
       events_processed (statistics el') \<le> events_processed (statistics el) + m)"
proof -
  obtain r where r: "run hs mt (Some m) el w = Some r"
    using run_loop_budget[OF assms] by (fastforce simp: run_def)
  have "events_processed (statistics el') \<le> events_processed (statistics el) + m"
    if "r = Inr (el', w')" "loop_ok el" "handlers_ok hs" for el' w'
  proof -
    have "run hs mt (Some m) el w = Some (Inr (el', w'))" using r that(1) by simp
    then show ?thesis by (rule run_trace[OF that(2,3)]) (use assms in \<open>simp add: finish_run_def\<close>)
  qed
  then show ?thesis using r by blast
qed

theorem run_terminates_within_budget_witness:
  "0 < (1000::int) \<and> (\<exists>r. run sample_handlers PosInf (Some 1000) sample_loop 0 = Some r)"
  using run_terminates_within_budget[of 1000 sample_handlers PosInf sample_loop 0] by auto

text \<open>
  \<open>schedule_event\<close> refuses an event in the past and otherwise adds exactly that event, keeping
  the queue invariant; the time \<open>get_next_event_time\<close> then reports is the earliest pending one.
\<close>

theorem schedule_event_next_time:
  assumes "loop_ok el"
  shows "if timestamp e < current_time el
    then schedule_event el e = Inl (ValueError ''Cannot schedule event in the past'')
    else \<exists>el'. schedule_event el e = Inr el' \<and> loop_ok el' \<and>
      mset (event_queue el') = add_mset e (mset (event_queue el)) \<and>
      get_next_event_time el' = Some (Min (timestamp ` set (event_queue el')))"
proof (cases "timestamp e < current_time el")
  case False
  then obtain el' where el': "schedule_event el e = Inr el'" by (simp add: schedule_event_def)
  note s = schedule_event_Inr[OF assms el']
  obtain e0 q where q: "event_queue el' = e0 # q" using s(4) by (cases "event_queue el'") auto
  have "timestamp e0 \<le> timestamp x" if "x \<in> set (event_queue el')" for x
  proof -
    obtain i where "i < length (event_queue el')" "x = event_queue el' ! i"
      using \<open>x \<in> set (event_queue el')\<close> by (auto simp: in_set_conv_nth)
    then have "\<not> event_lt x e0"
      using evq.is_heap_root[of "event_queue el'" i] s(1) q by (simp add: loop_ok_def)
    then show ?thesis by (rule event_lt_timestamp)
  qed
  then have "Min (timestamp ` set (event_queue el')) = timestamp e0"
    by (intro Min_eqI) (auto simp: q)
  then have "get_next_event_time el' = Some (Min (timestamp ` set (event_queue el')))"
    by (simp add: get_next_event_time_def q)
  then show ?thesis using False el' s by simp
qed (simp add: schedule_event_def)

theorem schedule_event_next_time_witness:
  "loop_ok sample_loop \<and> (\<exists>el'. schedule_event sample_loop (sample_event (1/2) ''n3'') = Inr el' \<and> loop_ok el')"
  using schedule_event_next_time[OF sample_loop_ok(1), of "sample_event (1/2) ''n3''"] sample_loop_ok(1)
  by (auto simp: sample_event_def sample_loop_def EventLoop_def)

text \<open>
  Clearing the events of one target filters the heap list without restoring the heap order: the
  event at the front of the list need not be the earliest one any more.
\<close>

lemma clear_future_events_breaks_order:
  "\<exists>el :: unit event_loop. loop_ok el \<and>
     (let el' = snd (clear_future_events (Some ''n0'') el) in
      \<not> loop_ok el' \<and> (\<exists>e \<in> set (event_queue el'). \<exists>t. get_next_event_time el' = Some t \<and> timestamp e < t))"
proof -
  let ?q = "[sample_event 1 ''n0'', sample_event 5 ''n1'', sample_event 2 ''n2'']"
  let ?el = "EventLoop\<lparr>event_queue := ?q\<rparr>"
  have "loop_ok ?el"
    by (simp add: loop_ok_def EventLoop_def is_heap_three sample_event_def event_lt_def)
  moreover have "snd (clear_future_events (Some ''n0'') ?el) =
      EventLoop\<lparr>event_queue := [sample_event 5 ''n1'', sample_event 2 ''n2'']\<rparr>" (is "_ = ?el'")
    by (simp add: clear_future_events_def Let_def sample_event_def)
  moreover have "\<not> loop_ok ?el'"
    by (simp add: loop_ok_def EventLoop_def is_heap_two sample_event_def event_lt_def)
  ultimately show ?thesis
    by (intro exI[of _ ?el]) (simp add: get_next_event_time_def sample_event_def EventLoop_def)
qed

end
