(* ===== verification/Memory_Planner.thy ===== *)
theory Memory_Planner
  imports Event_Loop Model_Analyzer
begin

text \<open>
  Block accounting of the KV cache, \<open>src/scheduler/simulator/core/memory.py\<close>, with the parallel
  configuration of \<open>core/config.py\<close>. A planner owns a fixed number of KV blocks and a
  dictionary from request ids to the blocks they hold.

  The model description \<open>model_config\<close> is a Python module whose getters may be missing
  (\<open>hasattr\<close>); it is a record of optional functions, and \<open>llama\<close> is the one the repository
  has (\<open>configs/models/llama.py\<close>). Sizes in bytes are reals. \<open>print_status\<close> only prints.

  The lemmas show that the counters stay consistent, that an admitted request is always
  allocated within the limit and covered by the fewest blocks, that freeing returns exactly the
  blocks of the request, and that the block count is the largest that fits beside the weights.
\<close>

section \<open>Parallel configuration\<close>

record parallel_config =
  tensor_parallel_size :: int
  pipeline_parallel_size :: int

definition with_defaults :: "parallel_config \<Rightarrow> parallel_config" where
  "with_defaults c =
     \<lparr>tensor_parallel_size = max 1 (tensor_parallel_size c),
      pipeline_parallel_size = max 1 (pipeline_parallel_size c)\<rparr>"

datatype parallel_arg =
    NoConfig
  | ConfigArg parallel_config
  | IntArg int
  | DictArg "(string, int) dict"
  | OtherArg

definition normalize_parallel_config :: "parallel_arg \<Rightarrow> parallel_config result" where
  "normalize_parallel_config config =
     (case config of
        NoConfig \<Rightarrow> Inr \<lparr>tensor_parallel_size = 1, pipeline_parallel_size = 1\<rparr>
      | ConfigArg c \<Rightarrow> Inr (with_defaults c)
      | IntArg n \<Rightarrow> Inr \<lparr>tensor_parallel_size = max 1 n, pipeline_parallel_size = 1\<rparr>
      | DictArg d \<Rightarrow>
          Inr \<lparr>tensor_parallel_size = max 1 (dict_getd d ''tensor_parallel_size'' 1),
               pipeline_parallel_size = max 1 (dict_getd d ''pipeline_parallel_size'' 1)\<rparr>
      | OtherArg \<Rightarrow> Inl (TypeError ''Unsupported parallel_config type''))"

section \<open>Model getters\<close>

type_synonym getter = "model_params \<Rightarrow> int result"

record model_config =
  mc_hidden_size :: "getter option"
  mc_num_attention_heads :: "getter option"
  mc_num_key_value_heads :: "getter option"
  mc_head_dim :: "getter option"
  mc_num_hidden_layers :: "getter option"
  mc_intermediate_size :: "getter option"
  mc_vocab_size :: "getter option"

definition llama :: model_config where
  "llama =
     \<lparr>mc_hidden_size = Some (\<lambda>p. Inr (mp_hidden_size p)),
      mc_num_attention_heads = Some (\<lambda>p. Inr (mp_num_attention_heads p)),
      mc_num_key_value_heads = Some (\<lambda>p. Inr (mp_num_key_value_heads p)),
      mc_head_dim = Some (\<lambda>p. floor_div (mp_hidden_size p) (mp_num_attention_heads p)),
      mc_num_hidden_layers = Some (\<lambda>p. Inr (mp_num_hidden_layers p)),
      mc_intermediate_size = Some (\<lambda>p. Inr (mp_intermediate_size p)),
      mc_vocab_size = Some (\<lambda>p. Inr (mp_vocab_size p))\<rparr>"

record memory_planner =
  pl_params :: model_params
  pl_config :: model_config
  pl_parallel :: parallel_config
  pl_vmemory :: real
  pl_w_bit :: int
  pl_kv_bit :: int
  block_size :: int
  allocated_blocks :: int
  allocation_map :: "(string, int) dict"
  block_memory_size_per_shard :: real
  max_num_blocks :: int

definition pl_tp :: "memory_planner \<Rightarrow> int" where
  "pl_tp pl = tensor_parallel_size (pl_parallel pl)"

definition get_hidden_size :: "memory_planner \<Rightarrow> int result" where
  "get_hidden_size pl = (case mc_hidden_size (pl_config pl) of
     Some f \<Rightarrow> f (pl_params pl) | None \<Rightarrow> Inr (mp_hidden_size (pl_params pl)))"

definition get_num_attention_heads :: "memory_planner \<Rightarrow> int result" where
  "get_num_attention_heads pl = (case mc_num_attention_heads (pl_config pl) of
     Some f \<Rightarrow> f (pl_params pl) | None \<Rightarrow> Inr (mp_num_attention_heads (pl_params pl)))"

definition get_num_key_value_heads :: "memory_planner \<Rightarrow> int result" where
  "get_num_key_value_heads pl = (case mc_num_key_value_heads (pl_config pl) of
     Some f \<Rightarrow> f (pl_params pl)
   | None \<Rightarrow> bind_result (get_num_attention_heads pl) (\<lambda>_. Inr (mp_num_key_value_heads (pl_params pl))))"

definition get_head_dim :: "memory_planner \<Rightarrow> int result" where
  "get_head_dim pl = (case mc_head_dim (pl_config pl) of
     Some f \<Rightarrow> f (pl_params pl)
   | None \<Rightarrow> bind_result (get_num_attention_heads pl) (\<lambda>heads.
       bind_result (get_hidden_size pl) (\<lambda>h. floor_div h (max 1 heads))))"

definition get_num_hidden_layers :: "memory_planner \<Rightarrow> int result" where
  "get_num_hidden_layers pl = (case mc_num_hidden_layers (pl_config pl) of
     Some f \<Rightarrow> f (pl_params pl) | None \<Rightarrow> Inr (mp_num_hidden_layers (pl_params pl)))"

definition get_intermediate_size :: "memory_planner \<Rightarrow> int result" where
  "get_intermediate_size pl = (case mc_intermediate_size (pl_config pl) of
     Some f \<Rightarrow> f (pl_params pl)
   | None \<Rightarrow> bind_result (get_hidden_size pl) (\<lambda>_. Inr (mp_intermediate_size (pl_params pl))))"

definition get_vocab_size :: "memory_planner \<Rightarrow> int result" where
  "get_vocab_size pl = (case mc_vocab_size (pl_config pl) of
     Some f \<Rightarrow> f (pl_params pl) | None \<Rightarrow> Inr (mp_vocab_size (pl_params pl)))"

section \<open>Sizes\<close>

definition get_weights_memory :: "memory_planner \<Rightarrow> real result" where
  "get_weights_memory pl =
     bind_result (get_hidden_size pl) (\<lambda>hidden.
     bind_result (get_intermediate_size pl) (\<lambda>inter.
     bind_result (get_num_attention_heads pl) (\<lambda>heads.
     bind_result (get_head_dim pl) (\<lambda>head_dim.
     bind_result (get_num_key_value_heads pl) (\<lambda>kv_heads.
     bind_result (get_vocab_size pl) (\<lambda>vocab.
     bind_result (get_num_hidden_layers pl) (\<lambda>layers.
       let mlp_weights = of_int (3 * hidden * inter * pl_w_bit pl) / 8;
           q_weights = hidden * heads * head_dim;
           kv_weights = 2 * hidden * head_dim * kv_heads;
           o_weights = hidden * heads * head_dim;
           self_attn_weights = of_int ((q_weights + kv_weights + o_weights) * pl_w_bit pl) / 8;
           lm_head_weights = of_int (hidden * vocab * pl_w_bit pl) / 8;
           embedding_weights = of_int (hidden * vocab * pl_w_bit pl) / 8
       in Inr ((mlp_weights + self_attn_weights) * of_int layers + lm_head_weights + embedding_weights))))))))"

definition get_weights_memory_per_shard :: "memory_planner \<Rightarrow> real result" where
  "get_weights_memory_per_shard pl =
     (if pl_tp pl = 0 then get_weights_memory pl
      else bind_result (get_weights_memory pl) (\<lambda>w. Inr (w / of_int (pl_tp pl))))"

definition calculate_block_memory_size_per_shard :: "memory_planner \<Rightarrow> real result" where
  "calculate_block_memory_size_per_shard pl =
     bind_result (get_num_key_value_heads pl) (\<lambda>kv_heads.
     bind_result (true_div (of_int kv_heads) (of_int (pl_tp pl))) (\<lambda>q.
     bind_result (get_head_dim pl) (\<lambda>head_dim.
     bind_result (get_num_hidden_layers pl) (\<lambda>layers.
       let heads_per_shard = max 1 \<lceil>q\<rceil>;
           bytes_per_element = of_int (pl_kv_bit pl) / 8;
           per_layer = of_int (2 * block_size pl * heads_per_shard * head_dim) * bytes_per_element
       in Inr (per_layer * of_int layers)))))"

definition get_max_num_blocks :: "memory_planner \<Rightarrow> int result" where
  "get_max_num_blocks pl =
     bind_result (get_weights_memory pl) (\<lambda>w_total.
       let w_per_shard = (if pl_tp pl \<noteq> 0 then w_total / of_int (pl_tp pl) else w_total);
           block = block_memory_size_per_shard pl;
           available = pl_vmemory pl - w_per_shard
       in if pl_vmemory pl \<le> w_per_shard then Inr 0
          else if block \<le> 0 then Inr 0
          else if available \<le> 0 then Inr 0
          else Inr (max 0 \<lfloor>available / block\<rfloor>))"

definition MemoryPlanner ::
  "model_params \<Rightarrow> model_config option \<Rightarrow> hw_params \<Rightarrow> int \<Rightarrow> int \<Rightarrow> parallel_arg \<Rightarrow> int \<Rightarrow> memory_planner result" where
  "MemoryPlanner params config hw w_bit kv_bit par bsize =
     bind_result (normalize_parallel_config par) (\<lambda>pc.
       case config of
         None \<Rightarrow> Inl (ValueError ''Model config is required for memory planning'')
       | Some cfg \<Rightarrow>
           let pl = \<lparr>pl_params = params, pl_config = cfg, pl_parallel = pc, pl_vmemory = hw_vmemory hw,
                     pl_w_bit = w_bit, pl_kv_bit = kv_bit, block_size = bsize, allocated_blocks = 0,
                     allocation_map = [], block_memory_size_per_shard = 0, max_num_blocks = 0\<rparr>
           in bind_result (calculate_block_memory_size_per_shard pl) (\<lambda>b.
              let pl1 = pl\<lparr>block_memory_size_per_shard := b\<rparr>
              in bind_result (get_max_num_blocks pl1) (\<lambda>n. Inr (pl1\<lparr>max_num_blocks := n\<rparr>))))"

section \<open>Allocation\<close>

definition has_allocation :: "memory_planner \<Rightarrow> string \<Rightarrow> bool" where
  "has_allocation pl rid \<longleftrightarrow> map_of (allocation_map pl) rid \<noteq> None"

definition current_tokens :: "generation_request \<Rightarrow> int" where
  "current_tokens r = max 1 (input_length r + generated_tokens r)"

definition estimate_required_blocks :: "memory_planner \<Rightarrow> generation_request \<Rightarrow> int result" where
  "estimate_required_blocks pl r =
     (case map_of (allocation_map pl) (req_id r) of
        None \<Rightarrow> bind_result (true_div (of_int (current_tokens r)) (of_int (block_size pl))) (\<lambda>q. Inr \<lceil>q\<rceil>)
      | Some held \<Rightarrow>
          let num_tokens_reserved = held * block_size pl;
              num_tokens_required = max 0 (current_tokens r - num_tokens_reserved)
          in if num_tokens_required = 0 then Inr 0
             else bind_result (true_div (of_int num_tokens_required) (of_int (block_size pl))) (\<lambda>q. Inr \<lceil>q\<rceil>))"

definition alloc_limit :: "memory_planner \<Rightarrow> int" where
  "alloc_limit pl = \<lfloor>real_of_int (max_num_blocks pl) * (95 / 100)\<rfloor>"

definition can_allocate_request :: "memory_planner \<Rightarrow> generation_request \<Rightarrow> bool result" where
  "can_allocate_request pl r =
     (if max_num_blocks pl = 0 then Inr False
      else bind_result (estimate_required_blocks pl r) (\<lambda>additional.
        if additional = 0 then Inr True
        else if alloc_limit pl \<le> 0 then Inr False
        else Inr (allocated_blocks pl + additional \<le> alloc_limit pl)))"

definition allocate_blocks :: "memory_planner \<Rightarrow> string \<Rightarrow> int \<Rightarrow> memory_planner result" where
  "allocate_blocks pl rid n =
     (if n = 0 then Inr pl
      else let pl1 = pl\<lparr>allocated_blocks := allocated_blocks pl + n,
                 allocation_map := AList.update rid (dict_getd (allocation_map pl) rid 0 + n) (allocation_map pl)\<rparr>
           in if allocated_blocks pl1 \<le> max_num_blocks pl1 then Inr pl1
              else Inl (AssertionError ''Exceeding memory limit''))"

definition allocate :: "memory_planner \<Rightarrow> generation_request \<Rightarrow> memory_planner result" where
  "allocate pl r =
     bind_result (estimate_required_blocks pl r) (\<lambda>additional.
       if additional = 0 then Inr pl else allocate_blocks pl (req_id r) additional)"

definition free_one :: "memory_planner \<Rightarrow> string \<Rightarrow> memory_planner" where
  "free_one pl rid = pl\<lparr>allocated_blocks := allocated_blocks pl - dict_getd (allocation_map pl) rid 0,
     allocation_map := AList.delete rid (allocation_map pl)\<rparr>"

definition free :: "memory_planner \<Rightarrow> string list \<Rightarrow> memory_planner result" where
  "free pl ids =
     (let pl1 = foldl free_one pl ids in
      if 0 \<le> allocated_blocks pl1 then Inr pl1 else Inl (AssertionError ''Negative allocated blocks''))"

definition usage :: "memory_planner \<Rightarrow> int \<times> int" where
  "usage pl = (allocated_blocks pl, max_num_blocks pl)"

definition reset_allocations :: "memory_planner \<Rightarrow> memory_planner" where
  "reset_allocations pl = pl\<lparr>allocated_blocks := 0, allocation_map := []\<rparr>"

definition get_allocated_kv_memory_per_shard :: "memory_planner \<Rightarrow> real" where
  "get_allocated_kv_memory_per_shard pl = of_int (allocated_blocks pl) * block_memory_size_per_shard pl"

definition get_total_kv_memory_capacity_per_shard :: "memory_planner \<Rightarrow> real" where
  "get_total_kv_memory_capacity_per_shard pl = of_int (max_num_blocks pl) * block_memory_size_per_shard pl"

definition estimate_additional_kv_memory_per_shard :: "memory_planner \<Rightarrow> generation_request \<Rightarrow> real result" where
  "estimate_additional_kv_memory_per_shard pl r =
     bind_result (estimate_required_blocks pl r) (\<lambda>n. Inr (of_int n * block_memory_size_per_shard pl))"

section \<open>The counters are consistent\<close>

definition held :: "memory_planner \<Rightarrow> string \<Rightarrow> int" where
  "held pl rid = dict_getd (allocation_map pl) rid 0"

definition mem_ok :: "memory_planner \<Rightarrow> bool" where
  "mem_ok pl \<longleftrightarrow> 0 < block_size pl \<and> wf_dict (allocation_map pl) \<and>
     (\<forall>v \<in> snd ` set (allocation_map pl). 0 < v) \<and>
     allocated_blocks pl = sum_list (map snd (allocation_map pl)) \<and>
     allocated_blocks pl \<le> max_num_blocks pl"

lemma held_eq: "held pl rid = (case map_of (allocation_map pl) rid of None \<Rightarrow> 0 | Some v \<Rightarrow> v)"
  by (simp add: held_def dict_getd_def)

lemma held_pos: "mem_ok pl \<Longrightarrow> has_allocation pl rid \<longleftrightarrow> 0 < held pl rid"
  by (force simp: mem_ok_def has_allocation_def held_eq dest: map_of_SomeD split: option.splits)

lemma held_nonneg: "mem_ok pl \<Longrightarrow> 0 \<le> held pl rid"
  by (force simp: mem_ok_def held_eq dest: map_of_SomeD split: option.splits)

lemma mem_ok_bounds: "mem_ok pl \<Longrightarrow> 0 \<le> allocated_blocks pl \<and> allocated_blocks pl \<le> max_num_blocks pl"
proof -
  assume ok: "mem_ok pl"
  then have "0 \<le> sum_list (map snd (allocation_map pl))"
    by (intro sum_list_nonneg) (force simp: mem_ok_def)
  then show ?thesis using ok by (simp add: mem_ok_def)
qed

text \<open>The blocks a request needs, by its current number of tokens.\<close>

definition needed_blocks :: "memory_planner \<Rightarrow> generation_request \<Rightarrow> int" where
  "needed_blocks pl r = \<lceil>real_of_int (current_tokens r) / of_int (block_size pl)\<rceil>"

lemma needed_blocks_bounds:
  assumes "0 < block_size pl"
  shows "current_tokens r \<le> needed_blocks pl r * block_size pl"
    and "(needed_blocks pl r - 1) * block_size pl < current_tokens r" and "1 \<le> needed_blocks pl r"
proof -
  let ?q = "real_of_int (current_tokens r) / of_int (block_size pl)"
  have "?q \<le> of_int (needed_blocks pl r)" "of_int (needed_blocks pl r) - 1 < ?q"
    using ceiling_correct[of ?q] by (simp_all add: needed_blocks_def)
  then have "real_of_int (current_tokens r) \<le> real_of_int (needed_blocks pl r * block_size pl)"
    "real_of_int ((needed_blocks pl r - 1) * block_size pl) < real_of_int (current_tokens r)"
    using assms by (simp_all add: field_simps)
  then show "current_tokens r \<le> needed_blocks pl r * block_size pl"
    "(needed_blocks pl r - 1) * block_size pl < current_tokens r" by linarith+
  have "0 < ?q" using assms by (simp add: current_tokens_def)
  then show "1 \<le> needed_blocks pl r" unfolding needed_blocks_def by linarith
qed

lemma estimate_eq:
  assumes ok: "mem_ok pl"
  shows "estimate_required_blocks pl r = Inr (max (held pl (req_id r)) (needed_blocks pl r) - held pl (req_id r))"
proof -
  have b: "0 < block_size pl" using ok by (simp add: mem_ok_def)
  note nb = needed_blocks_bounds[OF b, of r]
  show ?thesis
  proof (cases "map_of (allocation_map pl) (req_id r)")
    case None
    then show ?thesis using b nb by (simp add: estimate_required_blocks_def held_eq needed_blocks_def)
  next
    case (Some h)
    show ?thesis
    proof (cases "current_tokens r \<le> h * block_size pl")
      case True
      then have "(needed_blocks pl r - 1) * block_size pl < h * block_size pl" using nb by linarith
      then have "needed_blocks pl r \<le> h" using b by (simp add: mult_less_cancel_right)
      then show ?thesis using Some True by (simp add: estimate_required_blocks_def held_eq)
    next
      case False
      then have "h * block_size pl < needed_blocks pl r * block_size pl" using nb by linarith
      then have lt: "h < needed_blocks pl r" using b by (simp add: mult_less_cancel_right)
      have "real_of_int (current_tokens r - h * block_size pl) / of_int (block_size pl) =
          real_of_int (current_tokens r) / of_int (block_size pl) - of_int h"
        using b by (simp add: field_simps)
      then have "\<lceil>real_of_int (current_tokens r - h * block_size pl) / of_int (block_size pl)\<rceil> = needed_blocks pl r - h"
        by (simp add: needed_blocks_def)
      then show ?thesis using Some False lt b by (simp add: estimate_required_blocks_def held_eq Let_def)
    qed
  qed
qed

lemma sum_values_update_int:
  "wf_dict d \<Longrightarrow> sum_list (map snd (AList.update k (dict_getd d k 0 + n) d)) = sum_list (map snd d) + (n :: int)"
  by (induction d) (auto simp: wf_dict_def dict_getd_def map_of_eq_None_iff split: option.split)

lemma values_update: "\<forall>x \<in> snd ` set d. P x \<Longrightarrow> P v \<Longrightarrow> \<forall>x \<in> snd ` set (AList.update k v d). P x"
  using set_AList_update[of k v d] by fastforce

lemma allocate_blocks_ok:
  assumes ok: "mem_ok pl" and n: "0 < n" and a: "allocate_blocks pl rid n = Inr pl'"
  shows "mem_ok pl'" "held pl' = (held pl)(rid := held pl rid + n)"
    "allocated_blocks pl' = allocated_blocks pl + n" "max_num_blocks pl' = max_num_blocks pl"
    "block_size pl' = block_size pl"
proof -
  let ?m = "AList.update rid (dict_getd (allocation_map pl) rid 0 + n) (allocation_map pl)"
  have pl': "pl' = pl\<lparr>allocated_blocks := allocated_blocks pl + n, allocation_map := ?m\<rparr>"
    "allocated_blocks pl + n \<le> max_num_blocks pl"
    using a n by (auto simp: allocate_blocks_def Let_def split: if_splits)
  have "0 < dict_getd (allocation_map pl) rid 0 + n" using held_nonneg[OF ok, of rid] n by (simp add: held_def)
  moreover have "\<forall>v \<in> snd ` set (allocation_map pl). 0 < v" using ok by (simp add: mem_ok_def)
  ultimately have "\<forall>v \<in> snd ` set ?m. 0 < v"
    by (intro values_update)
  then show "mem_ok pl'" using ok pl' by (simp add: mem_ok_def sum_values_update_int wf_dict_update)
  show "held pl' = (held pl)(rid := held pl rid + n)"
    by (rule ext) (simp add: pl' held_def dict_getd_update)
qed (use a n in \<open>auto simp: allocate_blocks_def Let_def split: if_splits\<close>)

section \<open>Refinement: a pool of blocks\<close>

text \<open>
  The abstract pool: how many blocks each owner holds. Reserving raises an owner's share to what
  it needs; releasing sets it to zero.
\<close>

type_synonym pool = "string \<Rightarrow> int"

definition pool_reserve :: "string \<Rightarrow> int \<Rightarrow> pool \<Rightarrow> pool" where
  "pool_reserve rid n p = p(rid := max (p rid) n)"

definition pool_release :: "string list \<Rightarrow> pool \<Rightarrow> pool" where
  "pool_release ids p = (\<lambda>rid. if rid \<in> set ids then 0 else p rid)"

lemma allocate_spec:
  fixes pl :: memory_planner and r :: generation_request
  assumes ok: "mem_ok pl"
  defines "n \<equiv> max (held pl (req_id r)) (needed_blocks pl r) - held pl (req_id r)"
  shows "if allocated_blocks pl + n \<le> max_num_blocks pl
    then \<exists>pl'. allocate pl r = Inr pl' \<and> mem_ok pl' \<and> held pl' = pool_reserve (req_id r) (needed_blocks pl r) (held pl) \<and>
      allocated_blocks pl' = allocated_blocks pl + n \<and> max_num_blocks pl' = max_num_blocks pl \<and>
      block_size pl' = block_size pl
    else allocate pl r = Inl (AssertionError ''Exceeding memory limit'')"
proof (cases "n = 0")
  case True
  then have "pool_reserve (req_id r) (needed_blocks pl r) (held pl) = held pl"
    by (auto simp: pool_reserve_def n_def)
  then show ?thesis using True ok estimate_eq[OF ok, of r] mem_ok_bounds[OF ok] by (simp add: allocate_def n_def)
next
  case False
  then have n: "0 < n" by (simp add: n_def)
  have "estimate_required_blocks pl r = Inr n" using estimate_eq[OF ok, of r] by (simp add: n_def)
  then have a: "allocate pl r = allocate_blocks pl (req_id r) n" using False by (simp add: allocate_def)
  show ?thesis
  proof (cases "allocated_blocks pl + n \<le> max_num_blocks pl")
    case True
    then have "\<exists>pl'. allocate_blocks pl (req_id r) n = Inr pl'"
      by (simp add: allocate_blocks_def Let_def)
    then obtain pl' where pl': "allocate_blocks pl (req_id r) n = Inr pl'" by blast
    have "held pl (req_id r) + n = max (held pl (req_id r)) (needed_blocks pl r)" by (simp add: n_def)
    then show ?thesis
      using True a pl' allocate_blocks_ok[OF ok n pl'] by (simp add: pool_reserve_def)
  qed (use n a in \<open>simp add: allocate_blocks_def Let_def\<close>)
qed

lemma delete_wf: "wf_dict d \<Longrightarrow> wf_dict (AList.delete k d)"
  by (simp add: wf_dict_def distinct_delete)

lemma sum_values_delete:
  "wf_dict d \<Longrightarrow> sum_list (map snd (AList.delete k d)) = sum_list (map snd d) - (dict_getd d k (0 :: int))"
proof (induction d)
  case (Cons x d)
  obtain a b where x: "x = (a, b)" by fastforce
  show ?case
  proof (cases "a = k")
    case True
    then have "AList.delete k d = d" using Cons.prems x
      by (intro delete_id) (auto simp: wf_dict_def)
    then show ?thesis using True by (simp add: x dict_getd_def)
  qed (use Cons x in \<open>auto simp: wf_dict_def dict_getd_def split: option.split\<close>)
qed simp

lemma free_one_ok:
  assumes ok: "mem_ok pl"
  shows "mem_ok (free_one pl rid)" "held (free_one pl rid) = pool_release [rid] (held pl)"
    "allocated_blocks (free_one pl rid) = allocated_blocks pl - held pl rid"
proof -
  have "set (AList.delete rid (allocation_map pl)) \<subseteq> set (allocation_map pl)"
    by (auto simp: AList.delete_eq)
  then have "\<forall>v \<in> snd ` set (AList.delete rid (allocation_map pl)). 0 < v"
    using ok unfolding mem_ok_def by blast
  then show "mem_ok (free_one pl rid)"
    using ok held_nonneg[OF ok, of rid]
    by (simp add: mem_ok_def free_one_def delete_wf sum_values_delete held_def)
  show "held (free_one pl rid) = pool_release [rid] (held pl)"
    by (rule ext) (simp add: pool_release_def held_eq free_one_def delete_conv')
  show "allocated_blocks (free_one pl rid) = allocated_blocks pl - held pl rid"
    by (simp add: free_one_def held_def)
qed

lemma free_all_ok:
  "mem_ok pl \<Longrightarrow> mem_ok (foldl free_one pl ids) \<and> held (foldl free_one pl ids) = pool_release ids (held pl) \<and>
   allocated_blocks (foldl free_one pl ids) = allocated_blocks pl - (\<Sum>rid \<in> set ids. held pl rid)"
proof (induction ids arbitrary: pl)
  case (Cons rid ids)
  note f = free_one_ok[OF Cons.prems, of rid]
  note ih = Cons.IH[OF f(1)]
  have "(\<Sum>x \<in> set ids. held (free_one pl rid) x) = (\<Sum>x \<in> set ids - {rid}. held pl x)"
    by (simp add: f(2) pool_release_def sum.If_cases Int_def Diff_eq Compl_eq)
  moreover have "(\<Sum>x \<in> set (rid # ids). held pl x) = held pl rid + (\<Sum>x \<in> set ids - {rid}. held pl x)"
    by (simp add: sum.insert_remove)
  moreover have "pool_release ids (pool_release [rid] (held pl)) = pool_release (rid # ids) (held pl)"
    by (auto simp: pool_release_def)
  ultimately show ?case using ih f by simp
qed (simp add: pool_release_def)

lemma admitted_allocates:
  assumes ok: "mem_ok pl" and can: "can_allocate_request pl r = Inr True"
  shows "\<exists>pl'. allocate pl r = Inr pl' \<and> mem_ok pl' \<and> current_tokens r \<le> held pl' (req_id r) * block_size pl' \<and>
    allocated_blocks pl' \<le> max (allocated_blocks pl) (alloc_limit pl)"
proof -
  let ?n = "max (held pl (req_id r)) (needed_blocks pl r) - held pl (req_id r)"
  have b: "0 < block_size pl" using ok by (simp add: mem_ok_def)
  have "real_of_int (max_num_blocks pl) * (95 / 100) \<le> of_int (max_num_blocks pl)"
    using mem_ok_bounds[OF ok] by simp
  then have "alloc_limit pl \<le> max_num_blocks pl" unfolding alloc_limit_def by linarith
  moreover have lim: "allocated_blocks pl + ?n \<le> alloc_limit pl \<or> ?n = 0"
    using can estimate_eq[OF ok, of r] by (auto simp: can_allocate_request_def split: if_splits)
  ultimately have fits: "allocated_blocks pl + ?n \<le> max_num_blocks pl" using mem_ok_bounds[OF ok] by auto
  obtain pl' where pl': "allocate pl r = Inr pl'" "mem_ok pl'" "block_size pl' = block_size pl"
    "held pl' = pool_reserve (req_id r) (needed_blocks pl r) (held pl)" "allocated_blocks pl' = allocated_blocks pl + ?n"
    using allocate_spec[OF ok, of r] fits by auto
  have "needed_blocks pl r * block_size pl \<le> held pl' (req_id r) * block_size pl'"
    using b by (simp add: pl' pool_reserve_def)
  then have "current_tokens r \<le> held pl' (req_id r) * block_size pl'"
    using needed_blocks_bounds(1)[OF b, of r] by linarith
  then show ?thesis using pl' lim by auto
qed

lemma MemoryPlanner_core:
  assumes pl: "MemoryPlanner params (Some cfg) hw w_bit kv_bit par bsize = Inr pl" and b: "0 < bsize"
  shows "1 \<le> pl_tp pl \<and> mem_ok pl \<and>
    (\<exists>w. get_weights_memory_per_shard pl = Inr w \<and>
      (if hw_vmemory hw \<le> w then max_num_blocks pl = 0
       else 0 < block_memory_size_per_shard pl \<longrightarrow>
         w + get_total_kv_memory_capacity_per_shard pl \<le> hw_vmemory hw \<and>
         hw_vmemory hw < w + get_total_kv_memory_capacity_per_shard pl + block_memory_size_per_shard pl))"
proof -
  obtain pc bm n where pc: "normalize_parallel_config par = Inr pc"
    and pl_eq: "pl = \<lparr>pl_params = params, pl_config = cfg, pl_parallel = pc, pl_vmemory = hw_vmemory hw,
        pl_w_bit = w_bit, pl_kv_bit = kv_bit, block_size = bsize, allocated_blocks = 0, allocation_map = [],
        block_memory_size_per_shard = bm, max_num_blocks = n\<rparr>"
    and n: "get_max_num_blocks (pl\<lparr>max_num_blocks := 0\<rparr>) = Inr n"
    using pl by (auto simp: MemoryPlanner_def bind_result_eq_Inr Let_def)
  have w_eq: "get_weights_memory (pl\<lparr>max_num_blocks := 0\<rparr>) = get_weights_memory pl"
    by (simp add: get_weights_memory_def get_hidden_size_def get_intermediate_size_def get_num_attention_heads_def
        get_head_dim_def get_num_key_value_heads_def get_vocab_size_def get_num_hidden_layers_def cong: option.case_cong)
  have tp: "1 \<le> pl_tp pl"
    using pc by (auto simp: pl_tp_def pl_eq normalize_parallel_config_def with_defaults_def split: parallel_arg.splits)
  obtain wt where wt: "get_weights_memory pl = Inr wt"
    using n w_eq by (auto simp: get_max_num_blocks_def bind_result_eq_Inr)
  define w where "w = wt / of_int (pl_tp pl)"
  have shard: "get_weights_memory_per_shard pl = Inr w"
    using tp wt by (simp add: get_weights_memory_per_shard_def w_def)
  have n_eq: "n = (if hw_vmemory hw \<le> w \<or> bm \<le> 0 then 0 else max 0 \<lfloor>(hw_vmemory hw - w) / bm\<rfloor>)"
    using n wt w_eq tp by (auto simp: get_max_num_blocks_def Let_def w_def pl_tp_def pl_eq split: if_splits)
  have fit: "w + of_int n * bm \<le> hw_vmemory hw \<and> hw_vmemory hw < w + of_int n * bm + bm"
    if "\<not> hw_vmemory hw \<le> w" "0 < bm"
  proof -
    let ?q = "(hw_vmemory hw - w) / bm"
    have "0 \<le> ?q" using that by simp
    then have "n = \<lfloor>?q\<rfloor>" using n_eq that by simp
    then have "of_int n \<le> ?q" "?q < of_int n + 1" by linarith+
    then show ?thesis using that by (simp add: field_simps)
  qed
  have "0 \<le> n" by (simp add: n_eq)
  then have "mem_ok pl" using b by (simp add: mem_ok_def pl_eq)
  then show ?thesis
    using tp shard fit n_eq by (auto simp: pl_eq get_total_kv_memory_capacity_per_shard_def)
qed

section \<open>Properties\<close>

text \<open>
  C32. \<open>allocate\<close> implements the reservation of an abstract block pool: a request's share rises to
  the number of blocks its current tokens need, nobody else's share changes, the counter moves by
  the difference, and exceeding the capacity is the assertion failure of the source.
\<close>

theorem allocate_refines_pool:
  assumes "mem_ok pl"
  shows "if allocated_blocks pl + (max (held pl (req_id r)) (needed_blocks pl r) - held pl (req_id r)) \<le> max_num_blocks pl
    then \<exists>pl'. allocate pl r = Inr pl' \<and> mem_ok pl' \<and>
      held pl' = pool_reserve (req_id r) (needed_blocks pl r) (held pl) \<and>
      current_tokens r \<le> held pl' (req_id r) * block_size pl' \<and>
      (held pl (req_id r) < held pl' (req_id r) \<longrightarrow> (held pl' (req_id r) - 1) * block_size pl' < current_tokens r)
    else allocate pl r = Inl (AssertionError ''Exceeding memory limit'')"
proof -
  have b: "0 < block_size pl" using assms by (simp add: mem_ok_def)
  note nb = needed_blocks_bounds[OF b, of r]
  have "needed_blocks pl r * block_size pl \<le> max (held pl (req_id r)) (needed_blocks pl r) * block_size pl"
    using b by (intro mult_right_mono) simp_all
  then have cover: "current_tokens r \<le> max (held pl (req_id r)) (needed_blocks pl r) * block_size pl"
    using nb(1) by linarith
  have tight: "(max (held pl (req_id r)) (needed_blocks pl r) - 1) * block_size pl < current_tokens r"
    if "held pl (req_id r) < max (held pl (req_id r)) (needed_blocks pl r)"
    using that nb(2) by (simp add: max_def split: if_splits)
  show ?thesis using allocate_spec[OF assms, of r] cover tight by (auto simp: pool_reserve_def)
qed

definition sample_planner :: memory_planner where
  "sample_planner = \<lparr>pl_params = fallback_params ''m'', pl_config = llama,
     pl_parallel = \<lparr>tensor_parallel_size = 1, pipeline_parallel_size = 1\<rparr>, pl_vmemory = 10^10, pl_w_bit = 16,
     pl_kv_bit = 16, block_size = 16, allocated_blocks = 3, allocation_map = [(''r0'', 3)],
     block_memory_size_per_shard = 10^6, max_num_blocks = 100\<rparr>"

definition sample_request :: generation_request where
  "sample_request = GenerationRequest ''r1'' ''llama'' 100 10 0"

lemma sample_planner_ok: "mem_ok sample_planner"
  by (simp add: sample_planner_def mem_ok_def wf_dict_def)

lemma sample_facts:
  "needed_blocks sample_planner sample_request = 7" "held sample_planner ''r1'' = 0" "held sample_planner ''r0'' = 3"
  "req_id sample_request = ''r1''" "allocated_blocks sample_planner = 3" "max_num_blocks sample_planner = 100"
  "alloc_limit sample_planner = 95" "\<not> has_allocation sample_planner ''r1''"
  by (simp_all add: needed_blocks_def sample_planner_def sample_request_def GenerationRequest_def current_tokens_def
      ceiling_eq_iff held_def dict_getd_def alloc_limit_def has_allocation_def)

theorem allocate_refines_pool_witness:
  "mem_ok sample_planner \<and> (\<exists>pl'. allocate sample_planner sample_request = Inr pl' \<and> held pl' ''r1'' = 7 \<and> held pl' ''r0'' = 3)"
  using allocate_refines_pool[OF sample_planner_ok, of sample_request] sample_planner_ok
  by (auto simp: pool_reserve_def sample_facts)

text \<open>
  An admitted request never trips the assertion: when \<open>can_allocate_request\<close> says yes,
  \<open>allocate\<close> succeeds, the request's tokens are covered, and the planner stays within 95 percent of
  its blocks unless it already was beyond them.
\<close>

theorem admitted_request_allocates:
  assumes "mem_ok pl" and "can_allocate_request pl r = Inr True"
  shows "\<exists>pl'. allocate pl r = Inr pl' \<and> mem_ok pl' \<and> current_tokens r \<le> held pl' (req_id r) * block_size pl' \<and>
    allocated_blocks pl' \<le> max (allocated_blocks pl) (alloc_limit pl)"
  using assms by (rule admitted_allocates)

theorem admitted_request_allocates_witness:
  "mem_ok sample_planner \<and> can_allocate_request sample_planner sample_request = Inr True \<and>
   (\<exists>pl'. allocate sample_planner sample_request = Inr pl' \<and> allocated_blocks pl' \<le> 95)"
proof -
  have can: "can_allocate_request sample_planner sample_request = Inr True"
    using estimate_eq[OF sample_planner_ok, of sample_request] by (simp add: can_allocate_request_def sample_facts)
  show ?thesis using admitted_request_allocates[OF sample_planner_ok can] can sample_planner_ok
    by (auto simp: sample_facts)
qed

text \<open>
  \<open>free\<close> releases exactly the blocks of the given requests, unknown and repeated ids included,
  and its own assertion never fails.
\<close>

theorem free_refines_pool:
  assumes "mem_ok pl"
  shows "\<exists>pl'. free pl ids = Inr pl' \<and> mem_ok pl' \<and> held pl' = pool_release ids (held pl) \<and>
    allocated_blocks pl' = allocated_blocks pl - (\<Sum>rid \<in> set ids. held pl rid) \<and>
    (\<forall>rid. has_allocation pl' rid \<longleftrightarrow> has_allocation pl rid \<and> rid \<notin> set ids)"
proof -
  let ?pl = "foldl free_one pl ids"
  note f = free_all_ok[OF assms, of ids]
  then have "free pl ids = Inr ?pl" using mem_ok_bounds[of ?pl] by (simp add: free_def Let_def)
  moreover have "has_allocation ?pl rid \<longleftrightarrow> has_allocation pl rid \<and> rid \<notin> set ids" for rid
    using f held_pos[of ?pl rid] held_pos[OF assms, of rid] by (simp add: pool_release_def)
  ultimately show ?thesis using f by auto
qed

theorem free_refines_pool_witness:
  "mem_ok sample_planner \<and> (\<exists>pl'. free sample_planner [''r0'', ''zz'', ''r0''] = Inr pl' \<and> allocated_blocks pl' = 0)"
proof -
  have "held sample_planner ''zz'' = 0" by (simp add: sample_planner_def held_def dict_getd_def)
  moreover have "set [''r0'', ''zz'', ''r0''] = {''r0'', ''zz''}" by auto
  ultimately have "(\<Sum>rid \<in> set [''r0'', ''zz'', ''r0'']. held sample_planner rid) = 3" by (simp add: sample_facts)
  then show ?thesis
    using free_refines_pool[OF sample_planner_ok, of "[''r0'', ''zz'', ''r0'']"] sample_planner_ok sample_facts(5)
    by fastforce
qed

text \<open>
  Allocating blocks for a new request and freeing that request restores the planner exactly.
\<close>

theorem allocate_free_roundtrip:
  assumes ok: "mem_ok pl" and new: "\<not> has_allocation pl (req_id r)" and a: "allocate pl r = Inr pl'"
  shows "free pl' [req_id r] = Inr pl"
proof -
  have b: "0 < block_size pl" using ok by (simp add: mem_ok_def)
  have h: "held pl (req_id r) = 0" and none: "map_of (allocation_map pl) (req_id r) = None"
    using new by (simp_all add: has_allocation_def held_eq)
  let ?n = "needed_blocks pl r"
  have n: "0 < ?n" using needed_blocks_bounds(3)[OF b, of r] by simp
  then have "allocate_blocks pl (req_id r) ?n = Inr pl'"
    using a estimate_eq[OF ok, of r] h by (simp add: allocate_def)
  then have pl': "pl' = pl\<lparr>allocated_blocks := allocated_blocks pl + ?n,
      allocation_map := allocation_map pl @ [(req_id r, ?n)]\<rparr>"
    using n none by (auto simp: allocate_blocks_def Let_def dict_getd_def update_keys_absent map_of_eq_None_iff
        split: if_splits)
  have "AList.delete (req_id r) (allocation_map pl @ [(req_id r, ?n)]) = allocation_map pl"
    using none by (force simp: AList.delete_eq map_of_eq_None_iff filter_id_conv)
  then have "free_one pl' (req_id r) = pl"
    using none by (simp add: pl' free_one_def dict_getd_def map_add_def)
  then show ?thesis using mem_ok_bounds[OF ok] by (simp add: free_def Let_def)
qed

theorem allocate_free_roundtrip_witness:
  "mem_ok sample_planner \<and> \<not> has_allocation sample_planner (req_id sample_request) \<and>
   (\<exists>pl'. allocate sample_planner sample_request = Inr pl' \<and> free pl' [''r1''] = Inr sample_planner)"
proof -
  have new: "\<not> has_allocation sample_planner (req_id sample_request)" by (simp add: sample_facts)
  obtain pl' where "allocate sample_planner sample_request = Inr pl'"
    using allocate_spec[OF sample_planner_ok, of sample_request] by (auto simp: sample_facts)
  then show ?thesis using allocate_free_roundtrip[OF sample_planner_ok new] sample_planner_ok new
    by (auto simp: sample_facts)
qed

text \<open>
  The planner's block count is the largest number of KV blocks that fits into the memory of a
  shard beside its share of the weights, and zero when the weights alone do not fit; the tensor
  parallel size used is at least one, and a new planner is consistent.
\<close>

theorem MemoryPlanner_capacity:
  assumes "MemoryPlanner params (Some cfg) hw w_bit kv_bit par bsize = Inr pl" and "0 < bsize"
  shows "1 \<le> pl_tp pl \<and> mem_ok pl \<and>
    (\<exists>w. get_weights_memory_per_shard pl = Inr w \<and>
      (if hw_vmemory hw \<le> w then max_num_blocks pl = 0
       else 0 < block_memory_size_per_shard pl \<longrightarrow>
         w + get_total_kv_memory_capacity_per_shard pl \<le> hw_vmemory hw \<and>
         hw_vmemory hw < w + get_total_kv_memory_capacity_per_shard pl + block_memory_size_per_shard pl))"
  using assms by (rule MemoryPlanner_core)

theorem MemoryPlanner_capacity_witness:
  "\<exists>pl. MemoryPlanner (fallback_params ''m'') (Some llama) (mk_hw 936 71 71 18432 24 (13/100)) 16 16 (IntArg 0) 16 = Inr pl \<and>
     (0::int) < 16 \<and> 1 \<le> pl_tp pl \<and> mem_ok pl"
proof -
  have "\<exists>pl. MemoryPlanner (fallback_params ''m'') (Some llama) (mk_hw 936 71 71 18432 24 (13/100)) 16 16 (IntArg 0) 16 = Inr pl"
    by (simp add: MemoryPlanner_def normalize_parallel_config_def fallback_params_def py_contains_def py_lower_def
        calculate_block_memory_size_per_shard_def get_max_num_blocks_def get_weights_memory_def get_hidden_size_def
        get_intermediate_size_def get_num_attention_heads_def get_head_dim_def get_num_key_value_heads_def
        get_vocab_size_def get_num_hidden_layers_def llama_def pl_tp_def Let_def)
  then obtain pl where pl: "MemoryPlanner (fallback_params ''m'') (Some llama) (mk_hw 936 71 71 18432 24 (13/100)) 16 16 (IntArg 0) 16 = Inr pl"
    by blast
  from MemoryPlanner_capacity[OF pl] pl show ?thesis by auto
qed

end
