(* ===== verification/Serving_Engine.thy ===== *)
theory Serving_Engine
  imports Memory_Planner
begin

text \<open>
  The simulated serving engine, \<open>src/scheduler/simulator/core/engine.py\<close>, with the trace records of
  \<open>core/trace.py\<close> it writes.

  Requests are shared mutable objects: the engine's queues, its decode batch and the cluster
  manager refer to the same \<open>GenerationRequest\<close>. The model keeps them in a \<open>store\<close>, indexed by the
  (unique) request id, and the queues hold ids. An operation maps the engine and the store to
  their new values, or raises. The event callback of the cluster manager only enqueues the event
  it is given, so emitted events are collected, in order, in the engine's \<open>outbox\<close>; the
  cluster manager drains it after every engine call.

  The engine is built as the cluster manager builds it, with \<open>model_instance = None\<close> and the
  keyword arguments of a \<open>NodeConfiguration\<close>. \<open>AutoConfig\<close> is the argument \<open>auto_config\<close> as in
  \<open>Model_Analyzer\<close>; the patch of the rope validation inside \<open>transformers\<close> has no effect on the
  parameters and is left out, as are the printed warnings.
\<close>

section \<open>Events and traces\<close>

datatype event_data =
    NoData
  | ModelLoadData string real
  | ModelUnloadData string
  | RequestIdData string
  | PrefillData string real
  | CompletionData string int real
  | ArrivalData string string int int
  | PlacementData string string
  | NodeData string

fun data_request_id :: "event_data \<Rightarrow> string option" where
  "data_request_id (RequestIdData rid) = Some rid"
| "data_request_id (PrefillData rid _) = Some rid"
| "data_request_id (CompletionData rid _ _) = Some rid"
| "data_request_id (ArrivalData rid _ _ _) = Some rid"
| "data_request_id (PlacementData rid _) = Some rid"
| "data_request_id _ = None"

type_synonym sim_event = "event_data event"

definition mk_event :: "real \<Rightarrow> event_type \<Rightarrow> string \<Rightarrow> event_data \<Rightarrow> event_priority \<Rightarrow> sim_event" where
  "mk_event t ty tgt d p = \<lparr>timestamp = t, ev_type = ty, target = tgt, data = d, priority = p, event_id = []\<rparr>"

datatype trace_value = TStr string | TInt int | TReal real | TNone

record trace_event =
  te_name :: string
  te_cat :: string
  te_ph :: string
  te_pid :: string
  te_tid :: trace_value
  te_ts :: int
  te_args :: "(string, trace_value) dict"
  te_dur :: "int option"
  te_cname :: "string option"

definition trace_colors :: "string list" where
  "trace_colors = [''generic_work'', ''good'', ''rail_response'', ''rail_animation'', ''rail_load'', ''startup'',
     ''cq_build_running'', ''cq_build_passed'', ''thread_state_running'', ''thread_state_iowait'']"

text \<open>\<open>hashlib.md5\<close>, read as an integer, is the argument \<open>md5\<close>.\<close>

definition get_request_color :: "(string \<Rightarrow> nat) \<Rightarrow> string \<Rightarrow> string" where
  "get_request_color md5 rid = trace_colors ! (md5 rid mod length trace_colors)"

text \<open>\<open>round(x, 6)\<close> rounds to six digits.\<close>

definition round6 :: "real \<Rightarrow> real" where
  "round6 x = of_int (py_round (x * 10^6)) / 10^6"

section \<open>Batches\<close>

record batch =
  batch_id :: string
  b_requests :: "string list"
  created_at :: real
  b_status :: string
  b_memory_usage :: real

definition Batch :: "string \<Rightarrow> string list \<Rightarrow> batch" where
  "Batch bid rs = \<lparr>batch_id = bid, b_requests = rs, created_at = 0, b_status = ''forming'', b_memory_usage = 0\<rparr>"

definition join_batch :: "string list \<Rightarrow> string \<Rightarrow> string list" where
  "join_batch rs rid = (if rid \<in> set rs then rs else rs @ [rid])"

definition batch_add_request :: "batch \<Rightarrow> string \<Rightarrow> batch" where
  "batch_add_request b rid = b\<lparr>b_requests := join_batch (b_requests b) rid\<rparr>"

definition batch_remove_request :: "batch \<Rightarrow> string \<Rightarrow> batch" where
  "batch_remove_request b rid =
     (let b1 = b\<lparr>b_requests := remove1 rid (b_requests b)\<rparr> in
      if b_requests b1 = [] then b1\<lparr>b_status := ''completed''\<rparr> else b1)"

definition batch_is_empty :: "batch \<Rightarrow> bool" where
  "batch_is_empty b \<longleftrightarrow> b_requests b = []"

definition get_batch_size :: "batch \<Rightarrow> int" where
  "get_batch_size b = int (length (b_requests b))"

section \<open>Engine state\<close>

record node_configuration =
  node_id :: string
  nc_model_id :: string
  nc_hardware :: string
  nc_max_batch_size :: "int option"
  nc_parallel_config :: parallel_arg
  nc_disable_attention :: bool
  nc_disable_ffn :: bool
  nc_pd_separation :: bool
  nc_pd_prefill_only :: bool
  nc_pd_decode_only :: bool
  nc_kv_transfer_bandwidth_gbps :: real
  nc_afd_attention :: bool
  nc_afd_ffn :: bool
  nc_afd_activation_bandwidth_gbps :: real
  nc_afd_enabled :: bool

record engine_statistics =
  requests_processed :: int
  prefill_requests_processed :: int
  total_tokens_generated :: int
  total_prefill_time :: real
  total_decode_time :: real
  memory_peak :: real
  batch_sizes :: "int list"

record engine =
  engine_id :: string
  en_model_id :: string
  en_params :: model_params
  en_hardware :: string
  en_spec :: hw_params
  max_batch_size :: int
  disable_attention :: bool
  disable_ffn :: bool
  pd_separation :: bool
  pd_prefill_only :: bool
  pd_decode_only :: bool
  kv_transfer_bandwidth_gbps :: real
  en_afd_enabled :: bool
  memory_planner :: "memory_planner option"
  request_queue :: "string list"
  active_requests :: "string set"
  completed_requests :: "string list"
  prefill_queue :: "string list"
  decode_ready_requests :: "string list"
  current_decode_batch :: "batch option"
  batch_counter :: int
  current_prefill_request :: "string option"
  en_trace :: "trace_event list"
  en_now :: real
  time_cursor :: real
  analyzer_config :: "model_config option"
  analyzer_params :: model_params
  model_loaded :: bool
  model_memory_usage :: real
  kv_cache_memory :: real
  kv_cache_capacity :: real
  en_statistics :: engine_statistics
  has_callback :: bool
  outbox :: "sim_event list"

type_synonym store = "string \<Rightarrow> generation_request"

definition engine_fallback_params :: model_params where
  "engine_fallback_params =
     \<lparr>mp_hidden_size = 4096, mp_intermediate_size = 11008, mp_num_hidden_layers = 32,
      mp_num_attention_heads = 32, mp_num_key_value_heads = 32, mp_vocab_size = 128256,
      mp_num_experts = None, mp_num_experts_per_tok = None, mp_moe_intermediate_size = None\<rparr>"

definition select_analyzer_config :: "string \<Rightarrow> model_config option" where
  "select_analyzer_config model_id =
     (if py_contains ''llama'' (py_lower model_id) \<or> py_contains ''Llama-2'' model_id then Some llama else None)"

definition ServingEngine :: "(string \<Rightarrow> model_params option) \<Rightarrow> bool \<Rightarrow> node_configuration \<Rightarrow> engine result" where
  "ServingEngine auto_config afd nc =
     (case map_of hardware_params (nc_hardware nc) of
        None \<Rightarrow> Inl (KeyError (nc_hardware nc))
      | Some spec \<Rightarrow>
          let params = (case auto_config (nc_model_id nc) of Some p \<Rightarrow> p | None \<Rightarrow> engine_fallback_params);
              config = select_analyzer_config (nc_model_id nc);
              planner = (case config of None \<Rightarrow> None
                 | Some _ \<Rightarrow> (case MemoryPlanner params config spec 16 16 (nc_parallel_config nc) 16 of
                      Inl _ \<Rightarrow> None | Inr pl \<Rightarrow> Some pl))
          in Inr \<lparr>engine_id = node_id nc, en_model_id = nc_model_id nc, en_params = params,
                  en_hardware = nc_hardware nc, en_spec = spec,
                  max_batch_size = (case nc_max_batch_size nc of None \<Rightarrow> 1000000 | Some n \<Rightarrow> n),
                  disable_attention = nc_disable_attention nc, disable_ffn = nc_disable_ffn nc,
                  pd_separation = nc_pd_separation nc, pd_prefill_only = nc_pd_prefill_only nc,
                  pd_decode_only = nc_pd_decode_only nc,
                  kv_transfer_bandwidth_gbps = nc_kv_transfer_bandwidth_gbps nc, en_afd_enabled = afd,
                  memory_planner = planner, request_queue = [], active_requests = {}, completed_requests = [],
                  prefill_queue = [], decode_ready_requests = [], current_decode_batch = None, batch_counter = 0,
                  current_prefill_request = None, en_trace = [], en_now = 0, time_cursor = 0,
                  analyzer_config = config, analyzer_params = load_model_params auto_config (nc_model_id nc),
                  model_loaded = False, model_memory_usage = 0, kv_cache_memory = 0, kv_cache_capacity = 0,
                  en_statistics = \<lparr>requests_processed = 0, prefill_requests_processed = 0,
                    total_tokens_generated = 0, total_prefill_time = 0, total_decode_time = 0, memory_peak = 0,
                    batch_sizes = []\<rparr>,
                  has_callback = False, outbox = []\<rparr>)"

definition gpu_memory_capacity :: "engine \<Rightarrow> real" where "gpu_memory_capacity e = hw_vmemory (en_spec e)"
definition memory_bandwidth :: "engine \<Rightarrow> real" where "memory_bandwidth e = hw_bandwidth (en_spec e)"
definition compute_throughput :: "engine \<Rightarrow> real" where "compute_throughput e = hw_fp16 (en_spec e)"

definition set_event_callback :: "engine \<Rightarrow> engine" where
  "set_event_callback e = e\<lparr>has_callback := True\<rparr>"

definition call_back :: "sim_event \<Rightarrow> engine \<Rightarrow> engine" where
  "call_back ev e = (if has_callback e then e\<lparr>outbox := outbox e @ [ev]\<rparr> else e)"

definition emit_event :: "event_type \<Rightarrow> event_data \<Rightarrow> event_priority \<Rightarrow> engine \<Rightarrow> engine" where
  "emit_event ty d p e = call_back (mk_event 0 ty (engine_id e) d p) e"

section \<open>Memory\<close>

definition note_peak :: "engine \<Rightarrow> engine" where
  "note_peak e = e\<lparr>en_statistics := (en_statistics e)\<lparr>memory_peak :=
     max (memory_peak (en_statistics e)) (model_memory_usage e + kv_cache_memory e)\<rparr>\<rparr>"

definition refresh_memory_usage :: "engine \<Rightarrow> engine" where
  "refresh_memory_usage e =
     note_peak (case memory_planner e of
        Some pl \<Rightarrow> e\<lparr>kv_cache_memory := get_allocated_kv_memory_per_shard pl,
                    kv_cache_capacity := get_total_kv_memory_capacity_per_shard pl\<rparr>
      | None \<Rightarrow> e\<lparr>kv_cache_capacity := 0\<rparr>)"

definition planned_model_memory :: "engine \<Rightarrow> real" where
  "planned_model_memory e =
     (case memory_planner e of None \<Rightarrow> 0
      | Some pl \<Rightarrow> (case get_weights_memory_per_shard pl of Inl _ \<Rightarrow> 0 | Inr w \<Rightarrow> w))"

definition heuristic_model_memory :: "model_params \<Rightarrow> real" where
  "heuristic_model_memory mp =
     (let h = mp_hidden_size mp; l = mp_num_hidden_layers mp; v = mp_vocab_size mp;
          total_params = h * h * 4 * l + h * h * 3 * l + h * v * 2
      in of_int (total_params * 2))"

definition load_model :: "engine \<Rightarrow> bool \<times> engine" where
  "load_model e =
     (if model_loaded e then (True, e)
      else let planned = planned_model_memory e;
               model_memory = (if planned \<le> 0 then heuristic_model_memory (en_params e) else planned)
           in if gpu_memory_capacity e < model_memory then (False, e)
              else (True, emit_event MODEL_LOAD (ModelLoadData (en_model_id e) model_memory) HIGH
                      (refresh_memory_usage (e\<lparr>model_memory_usage := model_memory, model_loaded := True\<rparr>))))"

definition unload_model :: "engine \<Rightarrow> engine" where
  "unload_model e =
     (if model_loaded e
      then emit_event MODEL_UNLOAD (ModelUnloadData (en_model_id e)) HIGH
             (e\<lparr>model_loaded := False, model_memory_usage := 0, kv_cache_memory := 0, kv_cache_capacity := 0,
                memory_planner := map_option reset_allocations (memory_planner e)\<rparr>)
      else e)"

definition kv_per_token :: "model_params \<Rightarrow> int result" where
  "kv_per_token mp =
     bind_result (floor_div (mp_hidden_size mp) (mp_num_attention_heads mp)) (\<lambda>head_dim.
       Inr (2 * mp_num_hidden_layers mp * mp_num_attention_heads mp * head_dim * 2))"

definition estimate_kv_cache_memory :: "engine \<Rightarrow> generation_request \<Rightarrow> real result" where
  "estimate_kv_cache_memory e r =
     bind_result (kv_per_token (en_params e)) (\<lambda>kv. Inr (of_int (kv * (input_length r + output_length r))))"

definition estimate_kv_cache_memory_for_length :: "engine \<Rightarrow> int \<Rightarrow> real result" where
  "estimate_kv_cache_memory_for_length e n =
     bind_result (kv_per_token (en_params e)) (\<lambda>kv. Inr (of_int (kv * max n 1)))"

definition get_kv_transfer_time :: "engine \<Rightarrow> generation_request \<Rightarrow> real result" where
  "get_kv_transfer_time e r =
     bind_result (estimate_kv_cache_memory_for_length e (input_length r)) (\<lambda>kv_bytes.
       Inr (kv_bytes / (max (kv_transfer_bandwidth_gbps e) (1 / 10^6) * 10^9)))"

definition fits_memory :: "engine \<Rightarrow> generation_request \<Rightarrow> bool result" where
  "fits_memory e r =
     (let available_memory = gpu_memory_capacity e * (1 - 1 / 10) in
      case memory_planner e of
        Some pl \<Rightarrow>
          bind_result (can_allocate_request pl r) (\<lambda>can.
            if \<not> can then Inr False
            else bind_result (estimate_additional_kv_memory_per_shard pl r) (\<lambda>additional_kv.
              Inr (model_memory_usage e + get_allocated_kv_memory_per_shard pl + additional_kv \<le> available_memory)))
      | None \<Rightarrow>
          if pd_prefill_only e then
            bind_result (estimate_kv_cache_memory_for_length e (max (input_length r) 1)) (\<lambda>kv.
              Inr (model_memory_usage e + kv_cache_memory e + kv \<le> available_memory))
          else
            bind_result (estimate_kv_cache_memory_for_length e
                (max (input_length r + max (generated_tokens r) 1) 1)) (\<lambda>kv.
              Inr ((if pd_decode_only e then model_memory_usage e + kv
                    else model_memory_usage e + kv_cache_memory e + kv) \<le> available_memory)))"

definition can_accommodate_request :: "engine \<Rightarrow> generation_request \<Rightarrow> (bool \<times> engine) result" where
  "can_accommodate_request e r =
     (let (loaded, e1) = load_model e in
      if \<not> loaded then Inr (False, e1)
      else bind_result (fits_memory e1 r) (\<lambda>ok. Inr (ok, e1)))"

definition set_pd_role :: "bool option \<Rightarrow> bool option \<Rightarrow> engine \<Rightarrow> engine" where
  "set_pd_role prefill decode e =
     (let e1 = (case prefill of None \<Rightarrow> e | Some b \<Rightarrow> e\<lparr>pd_prefill_only := b\<rparr>)
      in case decode of None \<Rightarrow> e1 | Some b \<Rightarrow> e1\<lparr>pd_decode_only := b\<rparr>)"

definition set_current_time :: "real \<Rightarrow> engine \<Rightarrow> engine" where
  "set_current_time t e =
     (let e1 = e\<lparr>en_now := t\<rparr> in if time_cursor e1 < t then e1\<lparr>time_cursor := t\<rparr> else e1)"

definition allocate_in :: "engine \<Rightarrow> generation_request \<Rightarrow> engine result" where
  "allocate_in e r =
     (case memory_planner e of
        None \<Rightarrow> Inr e
      | Some pl \<Rightarrow>
          if has_allocation pl (req_id r) then Inr e
          else bind_result (allocate pl r) (\<lambda>pl'. Inr (refresh_memory_usage (e\<lparr>memory_planner := Some pl'\<rparr>))))"

definition add_request :: "engine \<Rightarrow> store \<Rightarrow> string \<Rightarrow> (bool \<times> engine \<times> store) result" where
  "add_request e st rid =
     (if pd_decode_only e then Inr (False, e, st)
      else bind_result (can_accommodate_request e (st rid)) (\<lambda>(ok, e1).
        if \<not> ok then Inr (False, e1, st)
        else bind_result (allocate_in e1 (st rid)) (\<lambda>e2.
          Inr (True, e2\<lparr>prefill_queue := prefill_queue e2 @ [rid]\<rparr>, st(rid := (st rid)\<lparr>rq_status := SCHEDULED\<rparr>)))))"

definition add_decode_ready_request :: "engine \<Rightarrow> store \<Rightarrow> string \<Rightarrow> real \<Rightarrow> (bool \<times> engine \<times> store) result" where
  "add_decode_ready_request e st rid ready_time =
     (if pd_prefill_only e then Inr (False, e, st)
      else bind_result (can_accommodate_request e (st rid)) (\<lambda>(ok, e1).
        if \<not> ok then Inr (False, e1, st)
        else bind_result (allocate_in e1 (st rid)) (\<lambda>e2.
          let e3 = set_current_time (max (en_now e2) ready_time) e2
          in Inr (True, e3\<lparr>active_requests := insert rid (active_requests e3),
                          decode_ready_requests := decode_ready_requests e3 @ [rid]\<rparr>,
                  st(rid := (st rid)\<lparr>rq_status := GENERATE\<rparr>)))))"

definition get_current_load :: "engine \<Rightarrow> int" where
  "get_current_load e = int (card (active_requests e)) + int (length (decode_ready_requests e)) +
     (if current_prefill_request e \<noteq> None then 1 else 0)"

definition has_model_loaded :: "engine \<Rightarrow> string \<Rightarrow> bool" where
  "has_model_loaded e model = (model_loaded e \<and> en_model_id e = model)"

record memory_info =
  mi_total :: real
  mi_model_weights :: real
  mi_kv_cache :: real
  mi_kv_cache_capacity :: real
  mi_available :: real
  mi_used :: real
  mi_utilization :: real
  mi_kv_blocks :: "(int \<times> int) option"

definition get_memory_info :: "engine \<Rightarrow> (memory_info \<times> engine) result" where
  "get_memory_info e =
     (let e1 = refresh_memory_usage e;
          total_used = model_memory_usage e1 + kv_cache_memory e1
      in bind_result (true_div total_used (gpu_memory_capacity e1)) (\<lambda>u.
         Inr (\<lparr>mi_total = gpu_memory_capacity e1, mi_model_weights = model_memory_usage e1,
               mi_kv_cache = kv_cache_memory e1, mi_kv_cache_capacity = kv_cache_capacity e1,
               mi_available = gpu_memory_capacity e1 - total_used, mi_used = total_used, mi_utilization = u,
               mi_kv_blocks = map_option (\<lambda>pl. (allocated_blocks pl, max_num_blocks pl)) (memory_planner e1)\<rparr>, e1)))"

section \<open>Timing\<close>

definition run_analysis :: "engine \<Rightarrow> int \<Rightarrow> int \<Rightarrow> analysis result" where
  "run_analysis e seqlen bsz =
     (case analyzer_config e of
        None \<Rightarrow> Inl (AttributeError ''get_num_attention_heads'')
      | Some _ \<Rightarrow> analyze (analyzer_params e) (en_hardware e)
          \<lparr>aa_seqlen = seqlen, aa_batchsize = bsz, aa_w_bit = 16, aa_a_bit = 16, aa_kv_bit = Some 16,
           aa_tp_size = 1, aa_disable_attention = disable_attention e,
           aa_disable_ffn = disable_ffn e\<rparr>)"

definition get_prefill_time :: "engine \<Rightarrow> int \<Rightarrow> int \<Rightarrow> real" where
  "get_prefill_time e seqlen bsz =
     (case run_analysis e seqlen bsz of
        Inr a \<Rightarrow> dict_getd (an_total_prefill a) ''inference_time'' 0
      | Inl _ \<Rightarrow> if compute_throughput e \<le> 0 then 0
                 else of_int (seqlen * seqlen * bsz) / compute_throughput e)"

definition get_decode_time :: "engine \<Rightarrow> int \<Rightarrow> int \<Rightarrow> real" where
  "get_decode_time e seqlen bsz =
     (case run_analysis e seqlen bsz of
        Inr a \<Rightarrow> dict_getd (an_total_decode a) ''inference_time'' 0
      | Inl _ \<Rightarrow> if compute_throughput e \<le> 0 then 0
                 else of_int (1024 * bsz) / compute_throughput e)"

section \<open>Tracing\<close>

definition trace_args :: "engine \<Rightarrow> string \<Rightarrow> real \<Rightarrow> real \<Rightarrow> generation_request \<Rightarrow> (string, trace_value) dict" where
  "trace_args e phase start_at end_at r =
     [(''request_id'', TStr (req_id r)), (''requested_model'', TStr (rq_model r)), (''engine_id'', TStr (engine_id e)),
      (''engine_model'', TStr (en_model_id e)), (''hardware'', TStr (en_hardware e)), (''phase'', TStr phase),
      (''start_time_s'', TReal (round6 start_at)), (''end_time_s'', TReal (round6 end_at)),
      (''duration_s'', TReal (round6 (max (end_at - start_at) 0)))] @
     (if phase = ''prefill'' then
        [(''prompt_tokens'', TInt (input_length r)), (''target_output_tokens'', TInt (output_length r))]
      else if phase = ''decode'' then
        [(''target_output_tokens'', TInt (output_length r)), (''generated_tokens_total'', TInt (generated_tokens r)),
         (''tokens_emitted_this_step'', TInt 1)]
      else [])"

definition upper_initial :: "string \<Rightarrow> string" where
  "upper_initial phase = (if phase = ''prefill'' then ''P'' else ''D'')"

definition create_detailed_events ::
  "engine \<Rightarrow> string \<Rightarrow> generation_request list \<Rightarrow> real \<Rightarrow> real \<Rightarrow> trace_event list" where
  "create_detailed_events e phase rs start_at end_at =
     map (\<lambda>r. \<lparr>te_name = upper_initial phase @ '':'' @ req_id r, te_cat = ''request.'' @ phase, te_ph = ''X'',
               te_pid = engine_id e, te_tid = TInt 0, te_ts = py_int (max start_at 0 * 1000000),
               te_args = trace_args e phase start_at end_at r,
               te_dur = Some (max (py_int (max (end_at - start_at) 0 * 1000000)) 1), te_cname = None\<rparr>) rs"

section \<open>Prefill\<close>

definition start_next_prefill :: "engine \<Rightarrow> store \<Rightarrow> (engine \<times> store) result" where
  "start_next_prefill e st =
     (case prefill_queue e of
        [] \<Rightarrow> Inr (e, st)
      | rid # q \<Rightarrow>
          let e1 = e\<lparr>prefill_queue := q\<rparr>; r = st rid
          in bind_result (can_accommodate_request e1 r) (\<lambda>(ok, e2).
               if \<not> ok then Inr (e2\<lparr>prefill_queue := rid # prefill_queue e2\<rparr>, st)
               else bind_result (allocate_in e2 r) (\<lambda>e3.
                 let e4 = e3\<lparr>current_prefill_request := Some rid, active_requests := insert rid (active_requests e3)\<rparr>
                 in Inr (call_back (mk_event (max (time_cursor e4) (en_now e4)) PREFILL_START (engine_id e4)
                           (RequestIdData rid) HIGH) e4,
                         st(rid := req_prefill r)))))"

text \<open>The duration of a prefill, and with PD separation the first token and the KV transfer.\<close>

definition prefill_parts :: "engine \<Rightarrow> generation_request \<Rightarrow> (real \<times> real \<times> real) result" where
  "prefill_parts e r =
     (if pd_separation e
      then bind_result (get_kv_transfer_time e r) (\<lambda>kv.
             Inr (max (get_prefill_time e (input_length r) 1) 0, max (get_decode_time e (input_length r) 1) 0, max kv 0))
      else Inr (get_prefill_time e (input_length r) 1, 0, 0))"

definition process_individual_prefill :: "engine \<Rightarrow> store \<Rightarrow> (bool \<times> engine \<times> store) result" where
  "process_individual_prefill e st =
     (case current_prefill_request e of
        None \<Rightarrow> Inr (False, e, st)
      | Some rid \<Rightarrow>
          let r = st rid in
          bind_result (prefill_parts e r) (\<lambda>(pre, first, kv).
            let raw_total = pre + first + kv;
                duration_total = (if raw_total \<le> 0 then 1 / 1000 else raw_total);
                start_time = max (time_cursor e) (en_now e);
                end_time = start_time + duration_total;
                tr = create_detailed_events e ''prefill'' [r] start_time end_time;
                tr1 = (if pd_separation e
                       then map (\<lambda>t. t\<lparr>te_args := te_args t @ [(''pd_first_token_decode_s'', TReal first),
                                                         (''pd_kv_transfer_s'', TReal kv)]\<rparr>) tr
                       else tr);
                s = en_statistics e;
                r1 = (if pd_separation e then r\<lparr>generated_tokens := max (generated_tokens r) 1\<rparr> else r);
                e1 = e\<lparr>time_cursor := end_time, en_trace := en_trace e @ tr1,
                       en_statistics := s\<lparr>total_prefill_time := total_prefill_time s + duration_total,
                         total_tokens_generated := total_tokens_generated s + (if pd_separation e then 1 else 0),
                         prefill_requests_processed := prefill_requests_processed s + 1\<rparr>,
                       active_requests := (if pd_separation e \<and> pd_prefill_only e
                         then active_requests e - {rid} else active_requests e)\<rparr>
            in Inr (True, call_back (mk_event end_time PREFILL_COMPLETE (engine_id e)
                            (PrefillData rid duration_total) HIGH) e1,
                    st(rid := set_prefill_finished_at end_time r1))))"

section \<open>Decode\<close>

fun pull_ready ::
  "(string list \<Rightarrow> string \<Rightarrow> string list) \<Rightarrow> store \<Rightarrow> string list \<Rightarrow> engine \<Rightarrow> string list \<Rightarrow> (engine \<times> string list) result" where
  "pull_ready join st [] e batch = Inr (e\<lparr>decode_ready_requests := []\<rparr>, batch)"
| "pull_ready join st (rid # q) e batch =
     (if int (length batch) < max_batch_size e
      then bind_result (can_accommodate_request e (st rid)) (\<lambda>(ok, e1).
             if ok then pull_ready join st q e1 (join batch rid)
             else Inr (e1\<lparr>decode_ready_requests := rid # q\<rparr>, batch))
      else Inr (e\<lparr>decode_ready_requests := rid # q\<rparr>, batch))"

definition note_batch_size :: "int \<Rightarrow> engine \<Rightarrow> engine" where
  "note_batch_size n e = e\<lparr>en_statistics := (en_statistics e)\<lparr>batch_sizes := batch_sizes (en_statistics e) @ [n]\<rparr>\<rparr>"

definition form_decode_batch :: "engine \<Rightarrow> store \<Rightarrow> engine result" where
  "form_decode_batch e st =
     (if decode_ready_requests e = [] \<or> current_decode_batch e \<noteq> None then Inr e
      else bind_result (pull_ready (\<lambda>b rid. b @ [rid]) st (decode_ready_requests e) e []) (\<lambda>(e1, rs).
        let e2 = e1\<lparr>batch_counter := batch_counter e1 + 1\<rparr>;
            b = (Batch (''decode_batch_'' @ show_nat (nat (batch_counter e2))) rs)\<lparr>b_status := ''decode''\<rparr>
        in Inr (note_batch_size (int (length rs)) (e2\<lparr>current_decode_batch := Some b\<rparr>))))"

definition add_to_decode_batch :: "engine \<Rightarrow> store \<Rightarrow> engine result" where
  "add_to_decode_batch e st =
     (case current_decode_batch e of
        None \<Rightarrow> Inr e
      | Some b \<Rightarrow>
          if decode_ready_requests e = [] then Inr e
          else bind_result (pull_ready join_batch st (decode_ready_requests e) e (b_requests b)) (\<lambda>(e1, rs).
            Inr (note_batch_size (int (length rs)) (e1\<lparr>current_decode_batch := Some (b\<lparr>b_requests := rs\<rparr>)\<rparr>))))"

definition update_kv_cache_memory :: "engine \<Rightarrow> store \<Rightarrow> engine result" where
  "update_kv_cache_memory e st =
     (case memory_planner e of
        Some _ \<Rightarrow> Inr (refresh_memory_usage e)
      | None \<Rightarrow>
          if active_requests e = {} \<and> decode_ready_requests e = []
          then Inr (note_peak (e\<lparr>kv_cache_memory := 0\<rparr>))
          else bind_result (kv_per_token (en_params e)) (\<lambda>kv.
            let tokens = (\<lambda>rid. input_length (st rid) + generated_tokens (st rid));
                total = kv * (\<Sum>rid \<in> active_requests e. tokens rid) +
                        kv * sum_list (map tokens (decode_ready_requests e))
            in Inr (note_peak (e\<lparr>kv_cache_memory := of_int total\<rparr>))))"

text \<open>One token for one request of the batch: count it, grow its allocation, note completion.\<close>

definition decode_one ::
  "engine \<times> store \<times> string list \<Rightarrow> string \<Rightarrow> (engine \<times> store \<times> string list) result" where
  "decode_one s rid = (case s of (e, st, fin) \<Rightarrow>
     let (is_complete, r1) = req_decode (st rid);
         st1 = st(rid := r1);
         fin1 = (if is_complete then fin @ [rid] else fin)
     in case memory_planner e of
          None \<Rightarrow> Inr (e, st1, fin1)
        | Some pl \<Rightarrow> bind_result (allocate pl r1) (\<lambda>pl'. Inr (e\<lparr>memory_planner := Some pl'\<rparr>, st1, fin1)))"

definition complete_one :: "real \<Rightarrow> store \<Rightarrow> engine \<times> sim_event list \<Rightarrow> string \<Rightarrow> (engine \<times> sim_event list) result" where
  "complete_one end_time st s rid = (case s of (e, evs) \<Rightarrow>
     if rid \<notin> active_requests e then Inl (KeyError rid)
     else let st' = en_statistics e;
              e1 = e\<lparr>active_requests := active_requests e - {rid}, completed_requests := completed_requests e @ [rid],
                     current_decode_batch := map_option (\<lambda>b. batch_remove_request b rid) (current_decode_batch e),
                     en_statistics := st'\<lparr>requests_processed := requests_processed st' + 1\<rparr>\<rparr>
          in Inr (e1, evs @ [mk_event end_time REQUEST_COMPLETE (engine_id e)
                       (CompletionData rid (generated_tokens (st rid)) end_time) HIGH]))"

definition batch_seq_length :: "store \<Rightarrow> string list \<Rightarrow> int" where
  "batch_seq_length st rs =
     (if rs = [] then 1024 else fold max (map (\<lambda>rid. input_length (st rid) + generated_tokens (st rid)) (tl rs))
        (input_length (st (hd rs)) + generated_tokens (st (hd rs))))"

definition decode_duration :: "engine \<Rightarrow> store \<Rightarrow> string list \<Rightarrow> real" where
  "decode_duration e st rs =
     (let d = get_decode_time e (batch_seq_length st rs) (int (length rs)) in if d \<le> 0 then 1 / 1000 else d)"

definition process_decode_batch :: "engine \<Rightarrow> store \<Rightarrow> (sim_event list \<times> engine \<times> store) result" where
  "process_decode_batch e st =
     (case current_decode_batch e of
        None \<Rightarrow> Inr ([], e, st)
      | Some b \<Rightarrow>
          let rs = b_requests b;
              duration = decode_duration e st rs;
              start_time = max (time_cursor e) (en_now e);
              end_time = start_time + duration;
              active = filter (\<lambda>rid. rq_status (st rid) \<noteq> EXIT) rs;
              e1 = e\<lparr>time_cursor := end_time,
                     en_trace := en_trace e @ create_detailed_events e ''decode'' (map st active) start_time end_time\<rparr>
          in bind_result (fold_result decode_one (e1, st, []) rs) (\<lambda>(e2, st2, fin).
             let s = en_statistics e2;
                 e3 = e2\<lparr>en_statistics := s\<lparr>total_decode_time := total_decode_time s + duration,
                          total_tokens_generated := total_tokens_generated s + int (length rs)\<rparr>\<rparr>
             in bind_result (update_kv_cache_memory e3 st2) (\<lambda>e4.
                bind_result (fold_result (complete_one end_time st2) (e4, []) fin) (\<lambda>(e5, evs).
                case memory_planner e5 of
                  None \<Rightarrow> Inr (evs, e5, st2)
                | Some pl \<Rightarrow>
                    if fin = [] then Inr (evs, e5, st2)
                    else bind_result (free pl fin) (\<lambda>pl'.
                           Inr (evs, refresh_memory_usage (e5\<lparr>memory_planner := Some pl'\<rparr>), st2))))))"

definition release_request_allocation :: "engine \<Rightarrow> string \<Rightarrow> engine result" where
  "release_request_allocation e rid =
     (case memory_planner e of
        None \<Rightarrow> Inr e
      | Some pl \<Rightarrow> if has_allocation pl rid
          then bind_result (free pl [rid]) (\<lambda>pl'. Inr (refresh_memory_usage (e\<lparr>memory_planner := Some pl'\<rparr>)))
          else Inr e)"

section \<open>One engine step\<close>

definition step_time :: "real option \<Rightarrow> engine \<Rightarrow> engine" where
  "step_time now e = (case now of None \<Rightarrow> e | Some t \<Rightarrow> set_current_time t e)"

definition step_prefill :: "engine \<Rightarrow> store \<Rightarrow> (engine \<times> store) result" where
  "step_prefill e st =
     bind_result (if current_prefill_request e = None \<and> prefill_queue e \<noteq> [] then start_next_prefill e st else Inr (e, st))
       (\<lambda>(e1, st1).
         case current_prefill_request e1 of
           None \<Rightarrow> Inr (e1, st1)
         | Some rid \<Rightarrow> bind_result (process_individual_prefill e1 st1) (\<lambda>(completed, e2, st2).
             if \<not> completed then Inr (e2, st2)
             else let e3 = (if pd_separation e2 then e2
                            else e2\<lparr>decode_ready_requests := decode_ready_requests e2 @ [rid]\<rparr>)
                  in Inr (e3\<lparr>current_prefill_request := None\<rparr>, st2)))"

definition step_decode :: "engine \<Rightarrow> store \<Rightarrow> (sim_event list \<times> engine \<times> store) result" where
  "step_decode e st =
     bind_result (if current_decode_batch e = None \<and> decode_ready_requests e \<noteq> [] then form_decode_batch e st
                  else if current_decode_batch e \<noteq> None \<and> decode_ready_requests e \<noteq> [] then add_to_decode_batch e st
                  else Inr e) (\<lambda>e1.
     bind_result (case current_decode_batch e1 of
                    None \<Rightarrow> Inr ([], e1, st)
                  | Some b \<Rightarrow> if batch_is_empty b then Inr ([], e1, st) else process_decode_batch e1 st)
       (\<lambda>(evs, e2, st2).
         case current_decode_batch e2 of
           None \<Rightarrow> Inr (evs, e2, st2)
         | Some b \<Rightarrow> Inr (evs, if batch_is_empty b then e2\<lparr>current_decode_batch := None\<rparr> else e2, st2)))"

definition engine_step :: "real option \<Rightarrow> engine \<Rightarrow> store \<Rightarrow> (sim_event list \<times> engine \<times> store) result" where
  "engine_step now e st =
     (let e1 = step_time now e in
      if en_afd_enabled e1 \<and> pd_decode_only e1 then Inr ([], e1, st)
      else bind_result (step_prefill e1 st) (\<lambda>(e2, st2). step_decode e2 st2))"

end
