(* ===== verification/Engine_Safety.thy ===== *)
theory Engine_Safety
  imports Serving_Engine
begin

text \<open>
  Correctness of the serving engine (\<open>core/engine.py\<close>): the invariant \<open>engine_ok\<close>, that every
  engine step keeps it, and what a decode step does to the requests of the batch.

  Operations that may raise are specified by \<open>guarded m P\<close>: either the computation returns a
  value with \<open>P\<close>, or it raises the one exception the planner's accounting allows, running
  out of KV blocks while decoding.
\<close>

section \<open>Computations that may run out of blocks\<close>

definition guarded :: "'a result \<Rightarrow> ('a \<Rightarrow> bool) \<Rightarrow> bool" where
  "guarded m P = (case m of Inl err \<Rightarrow> err = AssertionError ''Exceeding memory limit'' | Inr x \<Rightarrow> P x)"

lemma guarded_Inr [simp]: "guarded (Inr x) P \<longleftrightarrow> P x"
  by (simp add: guarded_def)

lemma guarded_bind: "guarded m (\<lambda>x. guarded (f x) P) \<Longrightarrow> guarded (bind_result m f) P"
  by (cases m) (auto simp: guarded_def)

lemma guarded_mono: "guarded m P \<Longrightarrow> (\<And>x. P x \<Longrightarrow> Q x) \<Longrightarrow> guarded m Q"
  by (cases m) (auto simp: guarded_def)

lemma guarded_bindI: "guarded m P \<Longrightarrow> (\<And>x. P x \<Longrightarrow> guarded (f x) Q) \<Longrightarrow> guarded (bind_result m f) Q"
  by (rule guarded_bind) (rule guarded_mono)

lemma guarded_fold:
  assumes "P [] s"
    and "\<And>pre x s. P pre s \<Longrightarrow> x \<notin> set pre \<Longrightarrow> x \<in> set xs \<Longrightarrow> guarded (f s x) (P (pre @ [x]))" and "distinct xs"
  shows "guarded (fold_result f s xs) (P xs)"
proof -
  have "guarded (fold_result f s ys) (P (pre @ ys))" if "P pre s" "distinct (pre @ ys)" "set ys \<subseteq> set xs" for pre ys s
    using that
  proof (induction ys arbitrary: pre s)
    case (Cons y ys)
    have "guarded (f s y) (P (pre @ [y]))" using Cons.prems by (intro assms(2)) auto
    then show ?case using Cons.IH[of "pre @ [y]"] Cons.prems by (auto intro!: guarded_bindI)
  qed simp
  from this[of "[]" s xs] show ?thesis using assms by simp
qed

section \<open>The invariant\<close>

definition cur_list :: "engine \<Rightarrow> string list" where
  "cur_list e = (case current_prefill_request e of None \<Rightarrow> [] | Some rid \<Rightarrow> [rid])"

definition batch_list :: "engine \<Rightarrow> string list" where
  "batch_list e = (case current_decode_batch e of None \<Rightarrow> [] | Some b \<Rightarrow> b_requests b)"

definition waiting :: "engine \<Rightarrow> string list" where
  "waiting e = prefill_queue e @ cur_list e @ decode_ready_requests e @ batch_list e"

definition engine_ok :: "engine \<Rightarrow> bool" where
  "engine_ok e \<longleftrightarrow> (\<forall>pl. memory_planner e = Some pl \<longrightarrow> mem_ok pl) \<and>
     mp_num_attention_heads (en_params e) \<noteq> 0 \<and> distinct (waiting e) \<and>
     set (cur_list e @ decode_ready_requests e @ batch_list e) \<subseteq> active_requests e \<and>
     int (length (batch_list e)) \<le> max 0 (max_batch_size e) \<and> en_now e \<le> time_cursor e"

definition store_ok :: "store \<Rightarrow> bool" where
  "store_ok st \<longleftrightarrow> (\<forall>rid. req_id (st rid) = rid)"

lemma store_ok_upd: "store_ok st \<Longrightarrow> req_id r = rid \<Longrightarrow> store_ok (st(rid := r))"
  by (simp add: store_ok_def)

text \<open>Loading the model and refreshing the memory figures leave the rest of the engine alone.\<close>

definition same_core :: "engine \<Rightarrow> engine \<Rightarrow> bool" where
  "same_core e e' \<longleftrightarrow> memory_planner e' = memory_planner e \<and> prefill_queue e' = prefill_queue e \<and>
     decode_ready_requests e' = decode_ready_requests e \<and> current_decode_batch e' = current_decode_batch e \<and>
     current_prefill_request e' = current_prefill_request e \<and> active_requests e' = active_requests e \<and>
     en_now e' = en_now e \<and> time_cursor e' = time_cursor e \<and> max_batch_size e' = max_batch_size e \<and>
     en_params e' = en_params e \<and> pd_separation e' = pd_separation e \<and> pd_prefill_only e' = pd_prefill_only e \<and>
     engine_id e' = engine_id e \<and> completed_requests e' = completed_requests e \<and> request_queue e' = request_queue e"

lemma same_core_fields:
  assumes "same_core e e'"
  shows "memory_planner e' = memory_planner e" "prefill_queue e' = prefill_queue e"
    "decode_ready_requests e' = decode_ready_requests e" "current_decode_batch e' = current_decode_batch e"
    "current_prefill_request e' = current_prefill_request e" "active_requests e' = active_requests e"
    "en_now e' = en_now e" "time_cursor e' = time_cursor e" "max_batch_size e' = max_batch_size e"
    "en_params e' = en_params e" "pd_separation e' = pd_separation e" "pd_prefill_only e' = pd_prefill_only e"
    "engine_id e' = engine_id e" "completed_requests e' = completed_requests e" "request_queue e' = request_queue e"
  using assms by (simp_all add: same_core_def)

lemma same_core_trans: "same_core e e1 \<Longrightarrow> same_core e1 e2 \<Longrightarrow> same_core e e2"
  by (simp add: same_core_def)

lemma same_core_lists:
  assumes "same_core e e'"
  shows "cur_list e' = cur_list e" "batch_list e' = batch_list e" "waiting e' = waiting e"
  using same_core_fields[OF assms] by (simp_all add: cur_list_def batch_list_def waiting_def)

lemma same_core_ok: "same_core e e' \<Longrightarrow> engine_ok e' = engine_ok e"
  by (simp add: engine_ok_def same_core_fields same_core_lists)

lemma same_core_refl: "same_core e e"
  by (simp add: same_core_def)

lemma same_core_note_peak: "same_core e (note_peak e)"
  by (simp add: same_core_def note_peak_def)

lemma same_core_call_back: "same_core e (call_back ev e)"
  by (simp add: same_core_def call_back_def)

lemma same_core_refresh: "same_core e (refresh_memory_usage e)"
  unfolding refresh_memory_usage_def
  by (rule same_core_trans[OF _ same_core_note_peak]) (simp add: same_core_def split: option.split)

lemma same_core_load_model: "same_core e (snd (load_model e))"
proof -
  have "same_core e (emit_event ty d p (refresh_memory_usage (e\<lparr>model_memory_usage := m, model_loaded := True\<rparr>)))" for ty d p m
    unfolding emit_event_def
    by (rule same_core_trans[OF same_core_trans[OF _ same_core_refresh] same_core_call_back]) (simp add: same_core_def)
  then show ?thesis by (simp add: load_model_def Let_def same_core_refl)
qed

lemma fits_memory_total: "engine_ok e \<Longrightarrow> \<exists>b. fits_memory e r = Inr b"
proof (cases "memory_planner e")
  case None
  moreover assume "engine_ok e"
  ultimately show ?thesis
    by (simp add: fits_memory_def engine_ok_def estimate_kv_cache_memory_for_length_def kv_per_token_def Let_def)
next
  case (Some pl)
  moreover assume "engine_ok e"
  ultimately have ok: "mem_ok pl" by (simp add: engine_ok_def)
  have "\<exists>c. can_allocate_request pl r = Inr c"
    using estimate_eq[OF ok, of r] by (auto simp: can_allocate_request_def)
  then obtain c where "can_allocate_request pl r = Inr c" by blast
  then show ?thesis using Some estimate_eq[OF ok, of r]
    by (cases c) (auto simp: fits_memory_def estimate_additional_kv_memory_per_shard_def Let_def)
qed

lemma can_accommodate_spec:
  assumes "engine_ok e"
  obtains ok e' where "can_accommodate_request e r = Inr (ok, e')" "same_core e e'"
    "\<forall>pl. ok \<longrightarrow> memory_planner e = Some pl \<longrightarrow> can_allocate_request pl r = Inr True"
proof -
  obtain loaded e1 where l: "load_model e = (loaded, e1)" by fastforce
  have c: "same_core e e1" using same_core_load_model[of e] l by simp
  obtain b where b: "fits_memory e1 r = Inr b" using fits_memory_total same_core_ok[OF c] assms by blast
  have "\<forall>pl. b \<longrightarrow> memory_planner e = Some pl \<longrightarrow> can_allocate_request pl r = Inr True"
    using b same_core_fields(1)[OF c]
    by (auto simp: fits_memory_def Let_def bind_result_eq_Inr split: if_splits)
  then show ?thesis using that[of loaded e1] that[of b e1] l b c
    by (cases loaded) (simp_all add: can_accommodate_request_def that)
qed

lemma engine_ok_planner: "engine_ok e \<Longrightarrow> mem_ok pl \<Longrightarrow> engine_ok (e\<lparr>memory_planner := Some pl\<rparr>)"
  by (simp add: engine_ok_def waiting_def cur_list_def batch_list_def)

text \<open>After an admission the allocation cannot fail.\<close>

lemma allocate_in_spec:
  assumes ok: "engine_ok e"
    and can: "\<forall>pl. memory_planner e = Some pl \<longrightarrow> can_allocate_request pl r = Inr True"
  obtains p e' where "allocate_in e r = Inr e'" "same_core (e\<lparr>memory_planner := p\<rparr>) e'" "engine_ok (e\<lparr>memory_planner := p\<rparr>)"
proof (cases "memory_planner e")
  case None
  then have eq: "e\<lparr>memory_planner := None\<rparr> = e" by simp
  have "allocate_in e r = Inr e" using None by (simp add: allocate_in_def)
  then show ?thesis by (rule that[of e None]) (simp_all only: eq same_core_refl ok)
next
  case (Some pl)
  show ?thesis
  proof (cases "has_allocation pl (req_id r)")
    case True
    have eq: "e\<lparr>memory_planner := Some pl\<rparr> = e" using Some by simp
    have "allocate_in e r = Inr e" using True Some by (simp add: allocate_in_def)
    then show ?thesis by (rule that[of e "Some pl"]) (simp_all only: eq same_core_refl ok)
  next
    case False
    have "mem_ok pl" using ok Some by (simp add: engine_ok_def)
    then obtain pl' where pl': "allocate pl r = Inr pl'" "mem_ok pl'"
      using admitted_allocates[of pl r] can Some by auto
    have "allocate_in e r = Inr (refresh_memory_usage (e\<lparr>memory_planner := Some pl'\<rparr>))"
      using Some False pl' by (simp add: allocate_in_def)
    then show ?thesis using that[OF _ same_core_refresh] engine_ok_planner[OF ok pl'(2)] by simp
  qed
qed

section \<open>Prefill\<close>

text \<open>What an operation may do to the clock: it never runs back.\<close>

definition advances :: "engine \<Rightarrow> engine \<Rightarrow> bool" where
  "advances e e' \<longleftrightarrow> engine_ok e' \<and> time_cursor e \<le> time_cursor e' \<and> en_now e' = en_now e"

lemma advances_trans: "advances e e1 \<Longrightarrow> advances e1 e2 \<Longrightarrow> advances e e2"
  by (auto simp: advances_def)

lemma start_next_prefill_spec:
  assumes ok: "engine_ok e" and st: "store_ok st" and cur: "current_prefill_request e = None"
  shows "guarded (start_next_prefill e st) (\<lambda>(e', st'). advances e e' \<and> store_ok st')"
proof (cases "prefill_queue e")
  case Nil
  then show ?thesis using ok st by (simp add: start_next_prefill_def advances_def)
next
  case (Cons rid q)
  let ?e1 = "e\<lparr>prefill_queue := q\<rparr>"
  have ok1: "engine_ok ?e1" and fresh: "rid \<notin> set (waiting ?e1)"
    using ok Cons by (auto simp: engine_ok_def waiting_def cur_list_def batch_list_def)
  obtain b e2 where c: "can_accommodate_request ?e1 (st rid) = Inr (b, e2)" "same_core ?e1 e2"
    "\<forall>pl. b \<longrightarrow> memory_planner ?e1 = Some pl \<longrightarrow> can_allocate_request pl (st rid) = Inr True"
    using can_accommodate_spec[OF ok1] by blast
  note f = same_core_fields[OF c(2)] same_core_lists[OF c(2)]
  have ok2: "engine_ok e2" using same_core_ok[OF c(2)] ok1 by simp
  show ?thesis
  proof (cases b)
    case False
    have "engine_ok (e2\<lparr>prefill_queue := rid # prefill_queue e2\<rparr>)"
      using ok Cons f by (simp add: engine_ok_def waiting_def cur_list_def batch_list_def)
    then show ?thesis using Cons c(1) False st f by (simp add: start_next_prefill_def advances_def Let_def)
  next
    case True
    obtain p e3 where a: "allocate_in e2 (st rid) = Inr e3" "same_core (e2\<lparr>memory_planner := p\<rparr>) e3"
      "engine_ok (e2\<lparr>memory_planner := p\<rparr>)"
      by (rule allocate_in_spec[OF ok2, of "st rid"]) (use c(3) True f(1) in auto)
    note g = same_core_fields[OF a(2)]
    let ?e4 = "e3\<lparr>current_prefill_request := Some rid, active_requests := insert rid (active_requests e3)\<rparr>"
    have "engine_ok ?e4"
      using a(3) g f fresh cur by (auto simp: engine_ok_def waiting_def cur_list_def batch_list_def)
    moreover have "time_cursor ?e4 = time_cursor e" "en_now ?e4 = en_now e" using f g by simp_all
    ultimately have "advances e (call_back ev ?e4)" for ev
      using same_core_call_back[of ?e4 ev] same_core_ok[of ?e4 "call_back ev ?e4"]
        same_core_fields[of ?e4 "call_back ev ?e4"] by (simp add: advances_def)
    moreover have "store_ok (st(rid := req_prefill (st rid)))"
      using st by (intro store_ok_upd) (simp_all add: store_ok_def req_prefill_def)
    ultimately show ?thesis using Cons c(1) True a(1) by (simp add: start_next_prefill_def Let_def)
  qed
qed

lemma kv_transfer_total: "engine_ok e \<Longrightarrow> \<exists>t. get_kv_transfer_time e r = Inr t"
  by (simp add: get_kv_transfer_time_def estimate_kv_cache_memory_for_length_def kv_per_token_def engine_ok_def)

lemma prefill_parts_total: "engine_ok e \<Longrightarrow> \<exists>x. prefill_parts e r = Inr x"
  using kv_transfer_total[of e r] by (auto simp: prefill_parts_def)

text \<open>
  A prefill leaves the queues alone except for the request it worked on, which stays active
  unless it is handed over.
\<close>

lemma process_prefill_spec:
  assumes ok: "engine_ok e" and st: "store_ok st" and cur: "current_prefill_request e = Some rid"
  shows "guarded (process_individual_prefill e st) (\<lambda>(c, e', st'). c \<and> store_ok st' \<and>
    time_cursor e < time_cursor e' \<and> en_now e' = en_now e \<and> pd_separation e' = pd_separation e \<and>
    engine_ok (e'\<lparr>current_prefill_request := None\<rparr>) \<and>
    (\<not> pd_separation e' \<longrightarrow> engine_ok (e'\<lparr>decode_ready_requests := decode_ready_requests e' @ [rid],
       current_prefill_request := None\<rparr>)))"
proof -
  obtain pre first kv where p: "prefill_parts e (st rid) = Inr (pre, first, kv)"
    using prefill_parts_total[OF ok, of "st rid"] by fastforce
  define d where "d = (if pre + first + kv \<le> 0 then 1 / 1000 else pre + first + kv)"
  have d: "0 < d" by (simp add: d_def)
  have now: "en_now e \<le> time_cursor e" using ok by (simp add: engine_ok_def)
  obtain c e' st' where r: "process_individual_prefill e st = Inr (c, e', st')"
    using cur p by (simp add: process_individual_prefill_def Let_def)
  have st': "st' = st(rid := set_prefill_finished_at (time_cursor e + d)
        (if pd_separation e then (st rid)\<lparr>generated_tokens := max (generated_tokens (st rid)) 1\<rparr> else st rid))"
    and e': "c" "time_cursor e' = time_cursor e + d" "en_now e' = en_now e" "pd_separation e' = pd_separation e"
    "memory_planner e' = memory_planner e" "en_params e' = en_params e" "prefill_queue e' = prefill_queue e"
    "decode_ready_requests e' = decode_ready_requests e" "current_decode_batch e' = current_decode_batch e"
    "max_batch_size e' = max_batch_size e"
    "active_requests e' = (if pd_separation e \<and> pd_prefill_only e then active_requests e - {rid} else active_requests e)"
    using r cur p now same_core_call_back[THEN same_core_fields(7)]
    by (auto simp: process_individual_prefill_def Let_def d_def max_def same_core_call_back[THEN same_core_fields(1)]
        same_core_call_back[THEN same_core_fields(2)] same_core_call_back[THEN same_core_fields(3)]
        same_core_call_back[THEN same_core_fields(4)] same_core_call_back[THEN same_core_fields(6)]
        same_core_call_back[THEN same_core_fields(7)] same_core_call_back[THEN same_core_fields(8)]
        same_core_call_back[THEN same_core_fields(9)] same_core_call_back[THEN same_core_fields(10)]
        same_core_call_back[THEN same_core_fields(11)])
  have store: "store_ok st'"
    unfolding st' using st by (intro store_ok_upd) (auto simp: store_ok_def set_prefill_finished_at_def)
  have none: "rid \<notin> set (decode_ready_requests e @ batch_list e)"
    using ok cur by (auto simp: engine_ok_def waiting_def cur_list_def)
  have "engine_ok (e'\<lparr>current_prefill_request := None\<rparr>)"
    using ok cur e' d none by (auto simp: engine_ok_def waiting_def cur_list_def batch_list_def)
  moreover have "engine_ok (e'\<lparr>decode_ready_requests := decode_ready_requests e' @ [rid], current_prefill_request := None\<rparr>)"
    if "\<not> pd_separation e'"
    using ok cur e' d none that by (auto simp: engine_ok_def waiting_def cur_list_def batch_list_def)
  ultimately show ?thesis using r e' d store by simp
qed

lemma step_prefill_spec:
  assumes "engine_ok e" "store_ok st"
  shows "guarded (step_prefill e st) (\<lambda>(e', st'). advances e e' \<and> store_ok st')"
proof -
  have first: "guarded (if current_prefill_request e = None \<and> prefill_queue e \<noteq> [] then start_next_prefill e st else Inr (e, st))
      (\<lambda>(e', st'). advances e e' \<and> store_ok st')"
    using start_next_prefill_spec[OF assms] assms by (simp add: advances_def)
  have second: "guarded (case current_prefill_request e1 of None \<Rightarrow> Inr (e1, st1)
         | Some rid \<Rightarrow> bind_result (process_individual_prefill e1 st1) (\<lambda>(completed, e2, st2).
             if \<not> completed then Inr (e2, st2)
             else let e3 = (if pd_separation e2 then e2
                            else e2\<lparr>decode_ready_requests := decode_ready_requests e2 @ [rid]\<rparr>)
                  in Inr (e3\<lparr>current_prefill_request := None\<rparr>, st2))) (\<lambda>(e', st'). advances e e' \<and> store_ok st')"
    if a: "advances e e1" "store_ok st1" for e1 st1
  proof (cases "current_prefill_request e1")
    case (Some rid)
    have ok: "engine_ok e1" using a by (simp add: advances_def)
    show ?thesis
      unfolding Some option.case
      by (rule guarded_bindI[OF process_prefill_spec[OF ok a(2) Some]])
        (use a(1) in \<open>auto simp: advances_def Let_def\<close>)
  qed (use a in simp)
  show ?thesis
    unfolding step_prefill_def by (rule guarded_bindI[OF first]) (use second in auto)
qed

section \<open>Forming batches\<close>

text \<open>
  Pulling ready requests takes a prefix of the ready queue, in order, as long as the batch has room
  and the next request fits.
\<close>

lemma pull_ready_spec:
  assumes "engine_ok e" "distinct (q @ batch)" "\<And>b rid. rid \<notin> set b \<Longrightarrow> join b rid = b @ [rid]"
  shows "\<exists>e' taken rest. pull_ready join st q e batch = Inr (e'\<lparr>decode_ready_requests := rest\<rparr>, batch @ taken) \<and>
    same_core e e' \<and> q = taken @ rest \<and>
    int (length (batch @ taken)) \<le> max (int (length batch)) (max_batch_size e)"
  using assms(1,2)
proof (induction q arbitrary: e batch)
  case Nil
  then show ?case using same_core_refl[of e] by (intro exI[of _ e] exI[of _ "[]"]) simp
next
  case (Cons rid q)
  show ?case
  proof (cases "int (length batch) < max_batch_size e")
    case False
    then show ?thesis using same_core_refl[of e]
      by (intro exI[of _ e] exI[of _ "[]"] exI[of _ "rid # q"]) simp
  next
    case True
    obtain ok e1 where c: "can_accommodate_request e (st rid) = Inr (ok, e1)" "same_core e e1"
      using can_accommodate_spec[OF Cons.prems(1)] by blast
    show ?thesis
    proof (cases ok)
      case False
      then show ?thesis using c True by (intro exI[of _ e1] exI[of _ "[]"] exI[of _ "rid # q"]) simp
    next
      case True
      have j: "join batch rid = batch @ [rid]" using Cons.prems by (intro assms(3)) auto
      have "engine_ok e1" using same_core_ok[OF c(2)] Cons.prems by simp
      then obtain e' taken rest where ih:
        "pull_ready join st q e1 (batch @ [rid]) = Inr (e'\<lparr>decode_ready_requests := rest\<rparr>, (batch @ [rid]) @ taken)"
        "same_core e1 e'" "q = taken @ rest"
        "int (length ((batch @ [rid]) @ taken)) \<le> max (int (length (batch @ [rid]))) (max_batch_size e1)"
        using Cons.IH[of e1 "batch @ [rid]"] Cons.prems by auto
      have "pull_ready join st (rid # q) e batch = Inr (e'\<lparr>decode_ready_requests := rest\<rparr>, batch @ rid # taken)"
        using \<open>int (length batch) < max_batch_size e\<close> c(1) True j ih(1) by simp
      moreover have "int (length (batch @ rid # taken)) \<le> max (int (length batch)) (max_batch_size e)"
        using ih(4) \<open>int (length batch) < max_batch_size e\<close> same_core_fields(9)[OF c(2)] by simp
      ultimately show ?thesis
        using same_core_trans[OF c(2) ih(2)] ih(3)
        by (intro exI[of _ e'] exI[of _ "rid # taken"] exI[of _ rest]) simp
    qed
  qed
qed

text \<open>Moving a prefix of the ready queue into the batch keeps the invariant.\<close>

lemma engine_ok_batch:
  assumes ok: "engine_ok e" and c: "same_core e e'" and q: "decode_ready_requests e = taken @ rest"
    and b: "b_requests b = batch_list e @ taken"
    and len: "int (length (batch_list e @ taken)) \<le> max 0 (max_batch_size e)"
  shows "engine_ok (e'\<lparr>decode_ready_requests := rest, current_decode_batch := Some b\<rparr>)"
proof -
  have "distinct (waiting e)" "set (cur_list e @ decode_ready_requests e @ batch_list e) \<subseteq> active_requests e"
    using ok by (simp_all add: engine_ok_def)
  then show ?thesis
    using ok same_core_fields[OF c] q b len
    by (auto simp: engine_ok_def waiting_def cur_list_def batch_list_def)
qed

lemma note_batch_size_core: "same_core e (note_batch_size n e)"
  by (simp add: same_core_def note_batch_size_def)

lemma advances_core: "engine_ok e1 \<Longrightarrow> time_cursor e \<le> time_cursor e1 \<Longrightarrow> en_now e1 = en_now e \<Longrightarrow> same_core e1 e2 \<Longrightarrow> advances e e2"
  by (simp add: advances_def same_core_ok same_core_fields)

lemma form_decode_batch_spec:
  assumes ok: "engine_ok e" and none: "current_decode_batch e = None"
  shows "guarded (form_decode_batch e st) (advances e)"
proof (cases "decode_ready_requests e = []")
  case False
  have d: "distinct (decode_ready_requests e @ [])" using ok by (simp add: engine_ok_def waiting_def)
  obtain e' taken rest where p:
    "pull_ready (\<lambda>b rid. b @ [rid]) st (decode_ready_requests e) e [] = Inr (e'\<lparr>decode_ready_requests := rest\<rparr>, [] @ taken)"
    "same_core e e'" "decode_ready_requests e = taken @ rest"
    "int (length ([] @ taken)) \<le> max (int (length ([] :: string list))) (max_batch_size e)"
    using pull_ready_spec[OF ok d, of "\<lambda>b rid. b @ [rid]" st] by blast
  define n where "n = batch_counter (e'\<lparr>decode_ready_requests := rest\<rparr>) + 1"
  define b where "b = (Batch (''decode_batch_'' @ show_nat (nat n)) taken)\<lparr>b_status := ''decode''\<rparr>"
  have "b_requests b = batch_list e @ taken" using none by (simp add: b_def Batch_def batch_list_def)
  then have ok': "engine_ok (e'\<lparr>decode_ready_requests := rest, current_decode_batch := Some b\<rparr>)"
    using engine_ok_batch[OF ok p(2,3)] p(4) none by (simp add: batch_list_def)
  have "same_core (e'\<lparr>decode_ready_requests := rest, current_decode_batch := Some b\<rparr>)
      (note_batch_size m (e'\<lparr>decode_ready_requests := rest, batch_counter := n, current_decode_batch := Some b\<rparr>))" for m
    by (rule same_core_trans[OF _ note_batch_size_core]) (simp add: same_core_def)
  then have "advances e (note_batch_size m (e'\<lparr>decode_ready_requests := rest, batch_counter := n, current_decode_batch := Some b\<rparr>))" for m
    using ok' same_core_fields[OF p(2)] by (intro advances_core[OF ok']) simp_all
  then show ?thesis using False none p(1) by (simp add: form_decode_batch_def Let_def n_def b_def)
qed (use ok in \<open>simp add: form_decode_batch_def advances_def\<close>)

lemma add_to_decode_batch_spec:
  assumes ok: "engine_ok e" and some: "current_decode_batch e = Some b"
  shows "guarded (add_to_decode_batch e st) (advances e)"
proof (cases "decode_ready_requests e = []")
  case False
  have bl: "batch_list e = b_requests b" using some by (simp add: batch_list_def)
  have d: "distinct (decode_ready_requests e @ b_requests b)"
    using ok bl by (auto simp: engine_ok_def waiting_def)
  have j: "rid \<notin> set xs \<Longrightarrow> join_batch xs rid = xs @ [rid]" for xs rid by (simp add: join_batch_def)
  obtain e' taken rest where p:
    "pull_ready join_batch st (decode_ready_requests e) e (b_requests b) = Inr (e'\<lparr>decode_ready_requests := rest\<rparr>, b_requests b @ taken)"
    "same_core e e'" "decode_ready_requests e = taken @ rest"
    "int (length (b_requests b @ taken)) \<le> max (int (length (b_requests b))) (max_batch_size e)"
    using pull_ready_spec[OF ok d j, of st] by blast
  let ?b = "b\<lparr>b_requests := b_requests b @ taken\<rparr>"
  have "int (length (b_requests b)) \<le> max 0 (max_batch_size e)" using ok bl by (simp add: engine_ok_def)
  then have ok': "engine_ok (e'\<lparr>decode_ready_requests := rest, current_decode_batch := Some ?b\<rparr>)"
    using engine_ok_batch[OF ok p(2,3), of ?b] p(4) bl by simp
  have "advances e (note_batch_size m (e'\<lparr>decode_ready_requests := rest, current_decode_batch := Some ?b\<rparr>))" for m
    using ok' same_core_fields[OF p(2)] by (intro advances_core[OF ok' _ _ note_batch_size_core]) simp_all
  then show ?thesis using False some p(1) by (simp add: add_to_decode_batch_def)
qed (use ok some in \<open>simp add: add_to_decode_batch_def advances_def\<close>)

section \<open>Decoding\<close>

definition decoded :: "store \<Rightarrow> string set \<Rightarrow> store" where
  "decoded st A = (\<lambda>rid. if rid \<in> A then snd (req_decode (st rid)) else st rid)"

definition finishing :: "store \<Rightarrow> string list \<Rightarrow> string list" where
  "finishing st rs = filter (\<lambda>rid. generated_tokens (st rid) + 1 = output_length (st rid)) rs"

lemma decoded_store_ok: "store_ok st \<Longrightarrow> store_ok (decoded st A)"
  by (auto simp: store_ok_def decoded_def req_decode_def req_stop_def Let_def)

lemma allocate_guarded: "mem_ok pl \<Longrightarrow> guarded (allocate pl r) mem_ok"
  using allocate_spec[of pl r] by (auto simp: guarded_def split: if_splits)

lemma planner_self: "memory_planner e = p \<Longrightarrow> e\<lparr>memory_planner := p\<rparr> = e"
  by auto

lemma decode_one_spec:
  assumes p: "\<forall>pl. memory_planner e = Some pl \<longrightarrow> mem_ok pl"
  shows "guarded (decode_one (e, st, fin) rid) (\<lambda>(e', st', fin'). \<exists>p. e' = e\<lparr>memory_planner := p\<rparr> \<and>
    (\<forall>pl. p = Some pl \<longrightarrow> mem_ok pl) \<and> st' = st(rid := snd (req_decode (st rid))) \<and>
    fin' = (if fst (req_decode (st rid)) then fin @ [rid] else fin))"
proof -
  obtain c r1 where d: "req_decode (st rid) = (c, r1)" by fastforce
  show ?thesis
  proof (cases "memory_planner e")
    case None
    show ?thesis
      by (simp add: decode_one_def Let_def d None) (intro exI[of _ None] conjI; simp add: planner_self None)
  next
    case (Some pl)
    then have "mem_ok pl" using p by simp
    then show ?thesis
      unfolding decode_one_def
      by (auto simp: Some d Let_def intro!: guarded_bindI[OF allocate_guarded])
  qed
qed

lemma decode_all_spec:
  assumes p: "\<forall>pl. memory_planner e = Some pl \<longrightarrow> mem_ok pl" and d: "distinct rs"
  shows "guarded (fold_result decode_one (e, st, []) rs) (\<lambda>(e', st', fin). \<exists>p. e' = e\<lparr>memory_planner := p\<rparr> \<and>
    (\<forall>pl. p = Some pl \<longrightarrow> mem_ok pl) \<and> st' = decoded st (set rs) \<and> fin = finishing st rs)"
proof -
  let ?P = "\<lambda>pre (e', st', fin). \<exists>p. e' = e\<lparr>memory_planner := p\<rparr> \<and> (\<forall>pl. p = Some pl \<longrightarrow> mem_ok pl) \<and>
     st' = decoded st (set pre) \<and> fin = finishing st pre"
  show ?thesis
  proof (rule guarded_fold[where P = ?P, OF _ _ d])
    show "?P [] (e, st, [])"
      using p by (simp add: decoded_def finishing_def) (intro exI[of _ "memory_planner e"]; simp)
  next
    fix pre rid and s :: "engine \<times> store \<times> string list"
    assume inv: "?P pre s" and new: "rid \<notin> set pre"
    obtain p where s: "s = (e\<lparr>memory_planner := p\<rparr>, decoded st (set pre), finishing st pre)"
      and ok: "\<forall>pl. p = Some pl \<longrightarrow> mem_ok pl" using inv by (cases s) auto
    have st: "decoded st (set pre) rid = st rid" using new by (simp add: decoded_def)
    have "(decoded st (set pre))(rid := snd (req_decode (st rid))) = decoded st (set (pre @ [rid]))"
      by (rule ext) (simp add: decoded_def)
    moreover have "(if fst (req_decode (st rid)) then finishing st pre @ [rid] else finishing st pre) = finishing st (pre @ [rid])"
      by (simp add: finishing_def req_decode_fields)
    ultimately show "guarded (decode_one s rid) (?P (pre @ [rid]))"
      using ok st unfolding s by (intro guarded_mono[OF decode_one_spec]) auto
  qed
qed

lemma update_kv_total:
  assumes "mp_num_attention_heads (en_params e) \<noteq> 0"
  obtains e' where "update_kv_cache_memory e st = Inr e'" "same_core e e'"
proof (cases "memory_planner e")
  case (Some pl)
  then show ?thesis using that same_core_refresh by (simp add: update_kv_cache_memory_def)
next
  case None
  have "same_core e (note_peak (e\<lparr>kv_cache_memory := k\<rparr>))" for k
    by (rule same_core_trans[OF _ same_core_note_peak]) (simp add: same_core_def)
  then show ?thesis using that None assms
    by (cases "active_requests e = {} \<and> decode_ready_requests e = []")
      (simp_all add: update_kv_cache_memory_def kv_per_token_def Let_def)
qed

lemma remove1_filter_notin:
  assumes "distinct xs"
  shows "remove1 x (filter (\<lambda>y. y \<notin> set pre) xs) = filter (\<lambda>y. y \<notin> set (pre @ [x])) xs"
proof -
  have "distinct (filter (\<lambda>y. y \<notin> set pre) xs)" using assms by simp
  then have "remove1 x (filter (\<lambda>y. y \<notin> set pre) xs) = filter ((\<noteq>) x) (filter (\<lambda>y. y \<notin> set pre) xs)"
    by (simp add: distinct_remove1_removeAll removeAll_filter_not_eq)
  then show ?thesis by (auto simp: intro!: filter_cong)
qed

definition completion_event :: "real \<Rightarrow> store \<Rightarrow> string \<Rightarrow> string \<Rightarrow> sim_event" where
  "completion_event t st eid rid =
     mk_event t REQUEST_COMPLETE eid (CompletionData rid (generated_tokens (st rid)) t) HIGH"

lemma complete_all_spec:
  assumes sub: "set fin \<subseteq> active_requests e" and d: "distinct fin"
    and b: "current_decode_batch e = Some b" "distinct (b_requests b)"
  shows "\<exists>e' b'. fold_result (complete_one t st) (e, []) fin = Inr (e', map (completion_event t st (engine_id e)) fin) \<and>
    same_core (e\<lparr>active_requests := active_requests e - set fin, completed_requests := completed_requests e @ fin,
       current_decode_batch := Some b'\<rparr>) e' \<and> b_requests b' = filter (\<lambda>rid. rid \<notin> set fin) (b_requests b)"
proof -
  let ?Q = "\<lambda>pre (e', evs). evs = map (completion_event t st (engine_id e)) pre \<and>
    (\<exists>b'. same_core (e\<lparr>active_requests := active_requests e - set pre, completed_requests := completed_requests e @ pre,
       current_decode_batch := Some b'\<rparr>) e' \<and> b_requests b' = filter (\<lambda>rid. rid \<notin> set pre) (b_requests b))"
  have "\<exists>s'. fold_result (complete_one t st) s ys = Inr s' \<and> ?Q (pre @ ys) s'"
    if "?Q pre s" "distinct (pre @ ys)" "set ys \<subseteq> active_requests e" for pre ys s
    using that
  proof (induction ys arbitrary: pre s)
    case (Cons rid ys)
    obtain e1 evs where s: "s = (e1, evs)" by fastforce
    obtain b' where q: "evs = map (completion_event t st (engine_id e)) pre"
      "same_core (e\<lparr>active_requests := active_requests e - set pre, completed_requests := completed_requests e @ pre,
         current_decode_batch := Some b'\<rparr>) e1" "b_requests b' = filter (\<lambda>rid. rid \<notin> set pre) (b_requests b)"
      using Cons.prems(1) s by auto
    note f = same_core_fields[OF q(2)]
    have act: "rid \<in> active_requests e1" using f Cons.prems by auto
    define e2 where "e2 = e1\<lparr>active_requests := active_requests e1 - {rid}, completed_requests := completed_requests e1 @ [rid],
        current_decode_batch := map_option (\<lambda>b. batch_remove_request b rid) (current_decode_batch e1),
        en_statistics := (en_statistics e1)\<lparr>requests_processed := requests_processed (en_statistics e1) + 1\<rparr>\<rparr>"
    have one: "complete_one t st (e1, evs) rid = Inr (e2, evs @ [completion_event t st (engine_id e) rid])"
      using act f by (simp add: complete_one_def e2_def completion_event_def Let_def)
    let ?b = "batch_remove_request b' rid"
    have "b_requests ?b = filter (\<lambda>x. x \<notin> set (pre @ [rid])) (b_requests b)"
      using q(3) remove1_filter_notin[OF b(2), of rid pre] by (simp add: batch_remove_request_def Let_def)
    moreover have "same_core (e\<lparr>active_requests := active_requests e - set (pre @ [rid]),
        completed_requests := completed_requests e @ pre @ [rid], current_decode_batch := Some ?b\<rparr>) e2"
      using f by (auto simp: same_core_def e2_def)
    ultimately have "?Q (pre @ [rid]) (e2, evs @ [completion_event t st (engine_id e) rid])" using q(1) by auto
    from Cons.IH[OF this] Cons.prems(2,3)
    have "\<exists>s'. fold_result (complete_one t st) (e2, evs @ [completion_event t st (engine_id e) rid]) ys = Inr s' \<and>
        ?Q ((pre @ [rid]) @ ys) s'" by simp
    then show ?case unfolding s fold_result.simps one bind_result_Inr by simp
  qed simp
  moreover have "?Q [] (e, [])"
    using b by (auto simp: same_core_def intro!: exI[of _ b])
  ultimately show ?thesis using sub d by fastforce
qed

lemma release_finished:
  assumes ok: "engine_ok e"
  shows "\<exists>p e'. (case memory_planner e of None \<Rightarrow> Inr (evs, e, st)
      | Some pl \<Rightarrow> if fin = [] then Inr (evs, e, st)
          else bind_result (free pl fin) (\<lambda>pl'. Inr (evs, refresh_memory_usage (e\<lparr>memory_planner := Some pl'\<rparr>), st))) =
      Inr (evs, e', st) \<and> same_core (e\<lparr>memory_planner := p\<rparr>) e' \<and> engine_ok (e\<lparr>memory_planner := p\<rparr>) \<and>
      (\<forall>pl. p = Some pl \<longrightarrow> (\<forall>rid \<in> set fin. \<not> has_allocation pl rid))"
proof (cases "memory_planner e")
  case None
  then show ?thesis using ok
    by (intro exI[of _ None] exI[of _ e]) (simp add: planner_self same_core_refl)
next
  case (Some pl)
  then have m: "mem_ok pl" using ok by (simp add: engine_ok_def)
  show ?thesis
  proof (cases "fin = []")
    case True
    show ?thesis using Some True ok
      by (intro exI[of _ "Some pl"] exI[of _ e]) (simp add: planner_self same_core_refl)
  next
    case False
    let ?pl = "foldl free_one pl fin"
    have f: "mem_ok ?pl" "held ?pl = pool_release fin (held pl)" using free_all_ok[OF m, of fin] by simp_all
    have "free pl fin = Inr ?pl" using mem_ok_bounds[OF f(1)] by (simp add: free_def Let_def)
    moreover have "\<forall>rid \<in> set fin. \<not> has_allocation ?pl rid"
      using f held_pos[OF f(1)] by (simp add: pool_release_def)
    ultimately show ?thesis using Some False engine_ok_planner[OF ok f(1)] same_core_refresh
      by (intro exI[of _ "Some ?pl"] exI[of _ "refresh_memory_usage (e\<lparr>memory_planner := Some ?pl\<rparr>)"]) simp
  qed
qed

lemma decode_duration_pos: "0 < decode_duration e st rs"
  by (simp add: decode_duration_def Let_def)

lemma finishing_props:
  "set (finishing st rs) \<subseteq> set rs" "distinct rs \<Longrightarrow> distinct (finishing st rs)"
  by (auto simp: finishing_def)

lemma engine_ok_finish:
  assumes ok: "engine_ok e" and b: "current_decode_batch e = Some b" and fin: "set fin \<subseteq> set (b_requests b)"
    and b': "b_requests b' = filter (\<lambda>rid. rid \<notin> set fin) (b_requests b)"
    and c: "same_core (e\<lparr>active_requests := active_requests e - set fin, completed_requests := done,
       current_decode_batch := Some b'\<rparr>) e'"
  shows "engine_ok e'"
proof -
  have "int (length (filter (\<lambda>rid. rid \<notin> set fin) (b_requests b))) \<le> int (length (b_requests b))" by simp
  also have "\<dots> \<le> max 0 (max_batch_size e)" using ok b by (simp add: engine_ok_def batch_list_def)
  finally have len: "int (length (filter (\<lambda>rid. rid \<notin> set fin) (b_requests b))) \<le> max 0 (max_batch_size e)" .
  have "distinct (waiting e)" "set (cur_list e @ decode_ready_requests e @ batch_list e) \<subseteq> active_requests e"
    using ok by (simp_all add: engine_ok_def)
  then have "engine_ok (e\<lparr>active_requests := active_requests e - set fin, completed_requests := done,
       current_decode_batch := Some b'\<rparr>)"
    using ok b fin b' len by (auto simp: engine_ok_def waiting_def cur_list_def batch_list_def)
  then show ?thesis using same_core_ok[OF c] by simp
qed

definition decode_outcome ::
  "engine \<Rightarrow> store \<Rightarrow> string list \<Rightarrow> sim_event list \<times> engine \<times> store \<Rightarrow> bool" where
  "decode_outcome e st rs res = (case res of (evs, e', st') \<Rightarrow>
     let fin = finishing st rs in
     advances e e' \<and> store_ok st' \<and> time_cursor e < time_cursor e' \<and> st' = decoded st (set rs) \<and>
     batch_list e' = filter (\<lambda>rid. rid \<notin> set fin) rs \<and> active_requests e' = active_requests e - set fin \<and>
     completed_requests e' = completed_requests e @ fin \<and> decode_ready_requests e' = decode_ready_requests e \<and>
     evs = map (completion_event (time_cursor e') st' (engine_id e)) fin \<and>
     (\<forall>pl. memory_planner e' = Some pl \<longrightarrow> (\<forall>rid \<in> set fin. \<not> has_allocation pl rid)))"

lemma process_decode_batch_spec:
  assumes ok: "engine_ok e" and st: "store_ok st" and b: "current_decode_batch e = Some b"
  shows "guarded (process_decode_batch e st) (decode_outcome e st (b_requests b))"
proof -
  let ?rs = "b_requests b" and ?fin = "finishing st (b_requests b)"
  let ?t = "max (time_cursor e) (en_now e) + decode_duration e st ?rs"
  have now: "en_now e \<le> time_cursor e" using ok by (simp add: engine_ok_def)
  have t: "?t = time_cursor e + decode_duration e st ?rs" "time_cursor e < ?t"
    using now decode_duration_pos[of e st ?rs] by (simp_all add: max_def)
  have bl: "batch_list e = ?rs" using b by (simp add: batch_list_def)
  have d: "distinct ?rs" and sub: "set ?rs \<subseteq> active_requests e"
    using ok bl by (auto simp: engine_ok_def waiting_def)
  define tr where "tr = create_detailed_events e ''decode''
      (map st (filter (\<lambda>rid. rq_status (st rid) \<noteq> EXIT) ?rs)) (max (time_cursor e) (en_now e)) ?t"
  define e1 where "e1 = e\<lparr>time_cursor := ?t, en_trace := en_trace e @ tr\<rparr>"
  have p1: "\<forall>pl. memory_planner e1 = Some pl \<longrightarrow> mem_ok pl" using ok by (simp add: e1_def engine_ok_def)
  show ?thesis
    unfolding process_decode_batch_def b option.case Let_def tr_def[symmetric] e1_def[symmetric]
  proof (rule guarded_bindI[OF decode_all_spec[OF p1 d]], clarsimp, goal_cases)
    case (1 p)
    let ?e2 = "e1\<lparr>memory_planner := p\<rparr>"
    let ?s = "(en_statistics e1)\<lparr>total_decode_time := total_decode_time (en_statistics e1) + decode_duration e st ?rs,
        total_tokens_generated := total_tokens_generated (en_statistics e1) + int (length ?rs)\<rparr>"
    let ?e3 = "?e2\<lparr>en_statistics := ?s\<rparr>"
    have ok3: "engine_ok ?e3"
      using ok 1 t(2) now by (simp add: engine_ok_def e1_def waiting_def cur_list_def batch_list_def)
    obtain e4 where e4: "update_kv_cache_memory ?e3 (decoded st (set ?rs)) = Inr e4" "same_core ?e3 e4"
      by (rule update_kv_total[of ?e3]) (use ok3 in \<open>simp add: engine_ok_def\<close>)
    note f4 = same_core_fields[OF e4(2)]
    have ok4: "engine_ok e4" using same_core_ok[OF e4(2)] ok3 by simp
    have b4: "current_decode_batch e4 = Some b" "active_requests e4 = active_requests e" "engine_id e4 = engine_id e"
      using f4 b by (simp_all add: e1_def)
    have fin: "set ?fin \<subseteq> set ?rs" "distinct ?fin" using finishing_props d by blast+
    obtain e5 b' where e5: "fold_result (complete_one ?t (decoded st (set ?rs))) (e4, []) ?fin =
        Inr (e5, map (completion_event ?t (decoded st (set ?rs)) (engine_id e4)) ?fin)"
      "same_core (e4\<lparr>active_requests := active_requests e4 - set ?fin,
         completed_requests := completed_requests e4 @ ?fin, current_decode_batch := Some b'\<rparr>) e5"
      "b_requests b' = filter (\<lambda>rid. rid \<notin> set ?fin) ?rs"
      using complete_all_spec[of ?fin e4 b ?t "decoded st (set ?rs)"] fin sub b4 d by auto
    note f5 = same_core_fields[OF e5(2)]
    have ok5: "engine_ok e5" by (rule engine_ok_finish[OF ok4 b4(1) fin(1) e5(3,2)])
    let ?evs = "map (completion_event ?t (decoded st (set ?rs)) (engine_id e)) ?fin"
    obtain p6 e6 where e6: "(case memory_planner e5 of None \<Rightarrow> Inr (?evs, e5, decoded st (set ?rs))
        | Some pl \<Rightarrow> if ?fin = [] then Inr (?evs, e5, decoded st (set ?rs))
            else bind_result (free pl ?fin) (\<lambda>pl'. Inr (?evs, refresh_memory_usage (e5\<lparr>memory_planner := Some pl'\<rparr>),
              decoded st (set ?rs)))) = Inr (?evs, e6, decoded st (set ?rs))"
      "same_core (e5\<lparr>memory_planner := p6\<rparr>) e6" "engine_ok (e5\<lparr>memory_planner := p6\<rparr>)"
      "\<forall>pl. p6 = Some pl \<longrightarrow> (\<forall>rid \<in> set ?fin. \<not> has_allocation pl rid)"
      using release_finished[OF ok5, of ?evs "decoded st (set ?rs)" ?fin] by blast
    note f6 = same_core_fields[OF e6(2)]
    have "engine_ok e6" using same_core_ok[OF e6(2)] e6(3) by simp
    moreover have fields: "time_cursor e6 = ?t" "en_now e6 = en_now e" "memory_planner e6 = p6"
      "active_requests e6 = active_requests e - set ?fin" "completed_requests e6 = completed_requests e @ ?fin"
      "decode_ready_requests e6 = decode_ready_requests e" "batch_list e6 = filter (\<lambda>rid. rid \<notin> set ?fin) ?rs"
      using f4 f5 f6 e5(3) by (simp_all add: e1_def batch_list_def)
    ultimately have "decode_outcome e st ?rs (?evs, e6, decoded st (set ?rs))"
      using t(2) e6(4) decoded_store_ok[OF st] by (simp add: decode_outcome_def Let_def advances_def)
    then show ?case using e4(1) e5(1) e6(1) b4(3) by simp
  qed
qed

section \<open>Steps\<close>

lemma batch_cleanup_ok: "engine_ok e \<Longrightarrow> batch_list e = [] \<Longrightarrow> engine_ok (e\<lparr>current_decode_batch := None\<rparr>)"
  by (auto simp: engine_ok_def waiting_def cur_list_def batch_list_def split: option.splits)

definition step_outcome :: "engine \<Rightarrow> sim_event list \<times> engine \<times> store \<Rightarrow> bool" where
  "step_outcome e res = (case res of (evs, e', st') \<Rightarrow> advances e e' \<and> store_ok st' \<and>
     (\<forall>ev \<in> set evs. ev_type ev = REQUEST_COMPLETE \<and> timestamp ev = time_cursor e'))"

lemma decode_outcome_step: "decode_outcome e st rs res \<Longrightarrow> step_outcome e res"
  by (auto simp: decode_outcome_def step_outcome_def Let_def completion_event_def mk_event_def split: prod.splits)

lemma step_outcome_trans: "advances e e1 \<Longrightarrow> step_outcome e1 res \<Longrightarrow> step_outcome e res"
  by (auto simp: step_outcome_def intro: advances_trans split: prod.splits)

lemma batch_phase_spec:
  assumes "engine_ok e"
  shows "guarded (if current_decode_batch e = None \<and> decode_ready_requests e \<noteq> [] then form_decode_batch e st
      else if current_decode_batch e \<noteq> None \<and> decode_ready_requests e \<noteq> [] then add_to_decode_batch e st
      else Inr e) (advances e)"
  using form_decode_batch_spec[OF assms, of st] add_to_decode_batch_spec[OF assms, of _ st] assms
  by (auto simp: advances_def)

lemma step_decode_spec:
  assumes ok: "engine_ok e" and st: "store_ok st"
  shows "guarded (step_decode e st) (step_outcome e)"
  unfolding step_decode_def
proof (rule guarded_bindI[OF batch_phase_spec[OF ok]], rule guarded_bindI)
  fix e1 assume a: "advances e e1"
  then have ok1: "engine_ok e1" by (simp add: advances_def)
  have idle: "step_outcome e1 ([], e1, st)" using ok1 st by (simp add: step_outcome_def advances_def)
  show "guarded (case current_decode_batch e1 of None \<Rightarrow> Inr ([], e1, st)
      | Some b \<Rightarrow> if batch_is_empty b then Inr ([], e1, st) else process_decode_batch e1 st) (step_outcome e)"
    using idle step_outcome_trans[OF a] guarded_mono[OF process_decode_batch_spec[OF ok1 st]] decode_outcome_step
    by (auto split: option.split)
next
  fix res assume o: "step_outcome e res"
  obtain evs e2 st2 where res: "res = (evs, e2, st2)" by (cases res)
  have ok2: "engine_ok e2" using o res by (simp add: step_outcome_def advances_def)
  show "guarded (case res of (evs, e2, st2) \<Rightarrow>
         case current_decode_batch e2 of
           None \<Rightarrow> Inr (evs, e2, st2)
         | Some b \<Rightarrow> Inr (evs, if batch_is_empty b then e2\<lparr>current_decode_batch := None\<rparr> else e2, st2)) (step_outcome e)"
  proof (cases "current_decode_batch e2")
    case (Some b)
    have "batch_is_empty b \<Longrightarrow> engine_ok (e2\<lparr>current_decode_batch := None\<rparr>)"
      using batch_cleanup_ok[OF ok2] Some by (simp add: batch_list_def batch_is_empty_def)
    then show ?thesis using o Some by (simp add: res step_outcome_def advances_def)
  qed (use o in \<open>simp add: res\<close>)
qed

lemma step_time_ok:
  assumes "engine_ok e"
  shows "engine_ok (step_time now e)" "time_cursor e \<le> time_cursor (step_time now e)"
    "now = Some t \<Longrightarrow> t \<le> time_cursor (step_time now e)"
  using assms
  by (auto simp: step_time_def set_current_time_def engine_ok_def waiting_def cur_list_def batch_list_def Let_def
      split: option.split)

lemma ServingEngine_ok:
  assumes e: "ServingEngine ac afd nc = Inr e" and h: "mp_num_attention_heads (en_params e) \<noteq> 0"
  shows "engine_ok e" "waiting e = []"
proof -
  have "\<forall>pl. memory_planner e = Some pl \<longrightarrow> mem_ok pl"
    using e by (auto simp: ServingEngine_def Let_def split: option.splits sum.splits dest: MemoryPlanner_core)
  moreover have "waiting e = []" "en_now e = 0" "time_cursor e = 0" "batch_list e = []" "cur_list e = []"
    "decode_ready_requests e = []"
    using e by (auto simp: ServingEngine_def Let_def waiting_def cur_list_def batch_list_def split: option.splits)
  ultimately show "engine_ok e" "waiting e = []" using h by (simp_all add: engine_ok_def)
qed

section \<open>Properties\<close>

text \<open>
  C33. A step of the engine keeps the engine consistent: no request is queued twice, everything being
  prefilled, ready or in the batch is tracked as active, the batch respects the maximal size,
  the block accounting adds up, and the GPU time line never runs backwards nor behind the clock.
  Completions carry the end of the step. The only exception a step can raise is running out of
  KV blocks.
\<close>

theorem engine_step_safe:
  assumes "engine_ok e" "store_ok st"
  shows "case engine_step now e st of
      Inl err \<Rightarrow> err = AssertionError ''Exceeding memory limit''
    | Inr (evs, e', st') \<Rightarrow> engine_ok e' \<and> store_ok st' \<and> time_cursor e \<le> time_cursor e' \<and>
        (\<forall>t. now = Some t \<longrightarrow> t \<le> time_cursor e') \<and>
        (\<forall>ev \<in> set evs. ev_type ev = REQUEST_COMPLETE \<and> timestamp ev = time_cursor e')"
proof -
  let ?e = "step_time now e"
  note t = step_time_ok[OF assms(1), of now]
  have "guarded (engine_step now e st) (\<lambda>res. step_outcome ?e res)"
  proof (cases "en_afd_enabled ?e \<and> pd_decode_only ?e")
    case True
    then show ?thesis using t(1) assms(2) by (simp add: engine_step_def Let_def step_outcome_def advances_def)
  next
    case False
    have "guarded (bind_result (step_prefill ?e st) (\<lambda>(e2, st2). step_decode e2 st2)) (step_outcome ?e)"
      by (rule guarded_bindI[OF step_prefill_spec[OF t(1) assms(2)]])
        (auto intro!: guarded_mono[OF step_decode_spec] intro: step_outcome_trans simp: advances_def)
    then show ?thesis using False by (auto simp: engine_step_def Let_def)
  qed
  then show ?thesis
    using t by (auto simp: guarded_def step_outcome_def advances_def split: sum.splits prod.splits)
qed

definition sample_node :: node_configuration where
  "sample_node = \<lparr>node_id = ''n0'', nc_model_id = ''meta-llama/Llama-3.1-8B'', nc_hardware = ''NVDA:RTX3090'',
     nc_max_batch_size = Some 4, nc_parallel_config = IntArg 1, nc_disable_attention = False, nc_disable_ffn = False,
     nc_pd_separation = False, nc_pd_prefill_only = False, nc_pd_decode_only = False,
     nc_kv_transfer_bandwidth_gbps = 100, nc_afd_attention = False, nc_afd_ffn = False,
     nc_afd_activation_bandwidth_gbps = 100, nc_afd_enabled = False\<rparr>"

definition sample_store :: store where
  "sample_store = (\<lambda>rid. GenerationRequest rid ''meta-llama/Llama-3.1-8B'' 100 10 0)"

lemma sample_engine_ok:
  obtains e where "ServingEngine (\<lambda>_. None) False sample_node = Inr e" "engine_ok e" "max_batch_size e = 4"
proof -
  have "\<exists>spec. map_of hardware_params ''NVDA:RTX3090'' = Some spec" by (simp add: hardware_params_def)
  then obtain e where e: "ServingEngine (\<lambda>_. None) False sample_node = Inr e"
    "en_params e = engine_fallback_params" "max_batch_size e = 4"
    by (auto simp: ServingEngine_def sample_node_def Let_def)
  then show ?thesis using that ServingEngine_ok[OF e(1)] by (simp add: engine_fallback_params_def)
qed

lemma sample_store_ok: "store_ok sample_store"
  by (simp add: store_ok_def sample_store_def GenerationRequest_def)

theorem engine_step_safe_witness:
  "\<exists>e. engine_ok e \<and> store_ok sample_store \<and> (case engine_step (Some 1) e sample_store of
      Inl err \<Rightarrow> err = AssertionError ''Exceeding memory limit'' | Inr (evs, e', st') \<Rightarrow> engine_ok e' \<and> 1 \<le> time_cursor e')"
proof -
  obtain e where "engine_ok e" by (rule sample_engine_ok)
  with engine_step_safe[OF this sample_store_ok, of "Some 1"] sample_store_ok
  show ?thesis by (intro exI[of _ e]) (auto split: sum.splits)
qed

text \<open>
  One decode step of a batch: every request of the batch gets exactly one more token and no
  other request changes; the requests that reach their output length, and only they, leave the
  batch and the active set, are recorded as completed, reported with the end time of the step,
  and hold no KV blocks afterwards; the step takes positive time.
\<close>

theorem decode_batch_one_token:
  assumes "engine_ok e" "store_ok st" "current_decode_batch e = Some b"
  shows "case process_decode_batch e st of
      Inl err \<Rightarrow> err = AssertionError ''Exceeding memory limit''
    | Inr (evs, e', st') \<Rightarrow> \<exists>fin.
        fin = filter (\<lambda>rid. generated_tokens (st rid) + 1 = output_length (st rid)) (b_requests b) \<and>
        (\<forall>rid. generated_tokens (st' rid) = generated_tokens (st rid) + (if rid \<in> set (b_requests b) then 1 else 0)) \<and>
        (\<forall>rid \<in> set fin. rq_status (st' rid) = EXIT) \<and>
        batch_list e' = filter (\<lambda>rid. rid \<notin> set fin) (b_requests b) \<and>
        active_requests e' = active_requests e - set fin \<and> completed_requests e' = completed_requests e @ fin \<and>
        map data_request_id (map data evs) = map Some fin \<and> (\<forall>ev \<in> set evs. timestamp ev = time_cursor e') \<and>
        (\<forall>pl. memory_planner e' = Some pl \<longrightarrow> (\<forall>rid \<in> set fin. \<not> has_allocation pl rid)) \<and>
        time_cursor e < time_cursor e'"
proof (cases "process_decode_batch e st")
  case (Inl err)
  then show ?thesis using process_decode_batch_spec[OF assms] by (simp add: guarded_def)
next
  case (Inr res)
  obtain evs e' st' where res: "res = (evs, e', st')" by (cases res)
  have o: "decode_outcome e st (b_requests b) (evs, e', st')"
    using process_decode_batch_spec[OF assms] Inr res by simp
  have st': "st' = decoded st (set (b_requests b))" using o by (simp add: decode_outcome_def Let_def)
  have evs: "map data_request_id (map data evs) = map Some (finishing st (b_requests b))"
    "\<forall>ev \<in> set evs. timestamp ev = time_cursor e'"
    using o by (auto simp: decode_outcome_def Let_def completion_event_def mk_event_def)
  have tok: "\<forall>rid. generated_tokens (st' rid) = generated_tokens (st rid) + (if rid \<in> set (b_requests b) then 1 else 0)"
    by (simp add: st' decoded_def req_decode_fields)
  have ex: "\<forall>rid \<in> set (finishing st (b_requests b)). rq_status (st' rid) = EXIT"
    by (auto simp: st' decoded_def req_decode_fields finishing_def)
  show ?thesis
    unfolding Inr res sum.case prod.case
    using o evs tok ex by (intro exI[of _ "finishing st (b_requests b)"]) (simp add: decode_outcome_def Let_def finishing_def[symmetric])
qed

definition with_batch :: "engine \<Rightarrow> engine" where
  "with_batch e = e\<lparr>active_requests := {''r1''}, current_decode_batch := Some (Batch ''b'' [''r1''])\<rparr>"

theorem decode_batch_one_token_witness:
  "\<exists>e. engine_ok e \<and> store_ok sample_store \<and> current_decode_batch e = Some (Batch ''b'' [''r1'']) \<and>
     (case process_decode_batch e sample_store of
        Inl err \<Rightarrow> err = AssertionError ''Exceeding memory limit''
      | Inr (evs, e', st') \<Rightarrow> generated_tokens (st' ''r1'') = 1 \<and> batch_list e' = [''r1''])"
proof -
  obtain e where e: "ServingEngine (\<lambda>_. None) False sample_node = Inr e" "engine_ok e" "max_batch_size e = 4"
    by (rule sample_engine_ok)
  have w: "waiting e = []" using ServingEngine_ok(2)[OF e(1)] e(2) by (simp add: engine_ok_def)
  have ok: "engine_ok (with_batch e)"
    using e(2,3) w by (auto simp: engine_ok_def with_batch_def waiting_def cur_list_def batch_list_def Batch_def
        split: option.splits)
  have b: "current_decode_batch (with_batch e) = Some (Batch ''b'' [''r1''])" by (simp add: with_batch_def)
  show ?thesis
    using decode_batch_one_token[OF ok sample_store_ok b] ok b sample_store_ok
    by (intro exI[of _ "with_batch e"])
      (auto simp: Batch_def sample_store_def GenerationRequest_def split: sum.splits prod.splits)
qed

text \<open>
  A request that has already produced its target number of tokens never completes by decoding: the
  comparison in \<open>_decode\<close> is an equality. With PD separation the prefill engine counts the first
  token, so a request with output length one is in this state when its decoding starts.
\<close>

lemma overshoot_never_completes:
  "output_length r \<le> generated_tokens r \<Longrightarrow> fst (decode_steps n r) = replicate n False"
  by (simp add: decode_steps_shape list_eq_iff_nth_eq)

end
