(* ===== verification/Placement.thy ===== *)
theory Placement
  imports Engine_Safety Py_Random
begin

text \<open>
  The request placement algorithms of the cluster simulator,
  \<open>src/scheduler/simulator/core/scheduler.py\<close>. The subclasses of \<open>PlacementAlgorithm\<close> are the
  constructors of \<open>policy\<close>, with their own state and parameters; the statistics every one of them
  keeps are fields of \<open>placement_algorithm\<close>. Engines are referred to by their id in the dictionary
  of serving engines, because one policy refreshes the memory figures of the engines it looks
  at. \<open>input_length ** 1.5\<close> is \<open>n * sqrt n\<close>.

  The lemmas show that a decision names an available engine, that the scanning loops agree with
  taking the first maximum of (score, least load), that round robin is fair, and that the
  risk-aware policy never picks a small GPU whose KV budget the request endangers.
\<close>

section \<open>Decisions and statistics\<close>

record placement_decision =
  target_engine :: string
  reason :: string
  confidence :: real
  estimated_completion_time :: "real option"

datatype policy =
    RandomScheduler
  | RoundRobinScheduler int
  | OracleScheduler
  | FLOPsScheduler
  | BandwidthScheduler
  | RooflineScheduler
  | InputOutputAdaptiveScheduler_Roofline
  | InputOutputAdaptiveScheduler_Threshold int int
  | HeterogeneousRiskAwareScheduler int real

record placement_algorithm =
  pa_policy :: policy
  total_decisions :: int
  rejections :: int
  placement_reasons :: "(string, int) dict"

definition PlacementAlgorithm :: "policy \<Rightarrow> placement_algorithm" where
  "PlacementAlgorithm p = \<lparr>pa_policy = p, total_decisions = 0, rejections = 0, placement_reasons = []\<rparr>"

definition update_statistics :: "placement_algorithm \<Rightarrow> placement_decision option \<Rightarrow> placement_algorithm" where
  "update_statistics a d =
     (let a1 = a\<lparr>total_decisions := total_decisions a + 1\<rparr> in
      case d of
        None \<Rightarrow> a1\<lparr>rejections := rejections a1 + 1\<rparr>
      | Some x \<Rightarrow> a1\<lparr>placement_reasons := AList.update (reason x)
          (dict_getd (placement_reasons a1) (reason x) 0 + 1) (placement_reasons a1)\<rparr>)"

type_synonym engines = "(string, engine) dict"

definition eng :: "engines \<Rightarrow> string \<Rightarrow> engine" where
  "eng es nid = the (map_of es nid)"

definition load_of :: "engines \<Rightarrow> string \<Rightarrow> int" where
  "load_of es nid = get_current_load (eng es nid)"

definition decide :: "string \<Rightarrow> string \<Rightarrow> real \<Rightarrow> real option \<Rightarrow> placement_decision" where
  "decide nid why conf est =
     \<lparr>target_engine = nid, reason = why, confidence = conf, estimated_completion_time = est\<rparr>"

section \<open>Scanning loops\<close>

text \<open>The loop state is (best engine, best score, load of the best engine).\<close>

definition scan_step ::
  "('k \<Rightarrow> real result) \<Rightarrow> ('k \<Rightarrow> int) \<Rightarrow> 'k option \<times> real \<times> xreal \<Rightarrow> 'k \<Rightarrow> ('k option \<times> real \<times> xreal) result" where
  "scan_step score load s k = (case s of (best_engine, best_score, best_load) \<Rightarrow>
     bind_result (score k) (\<lambda>sc. let l = Fin (of_int (load k)) in
       if best_score < sc \<or> sc = best_score \<and> l < best_load then Inr (Some k, sc, l)
       else Inr (best_engine, best_score, best_load)))"

definition scan_best :: "('k \<Rightarrow> real result) \<Rightarrow> ('k \<Rightarrow> int) \<Rightarrow> 'k list \<Rightarrow> 'k option result" where
  "scan_best score load ks = bind_result (fold_result (scan_step score load) (None, -1, PosInf) ks) (\<lambda>s. Inr (fst s))"

definition scan_least_step ::
  "('k \<Rightarrow> real result) \<Rightarrow> ('k \<Rightarrow> int) \<Rightarrow> 'k option \<times> xreal \<times> xreal \<Rightarrow> 'k \<Rightarrow> ('k option \<times> xreal \<times> xreal) result" where
  "scan_least_step time load s k = (case s of (best_engine, best_time, best_load) \<Rightarrow>
     bind_result (time k) (\<lambda>t. let l = Fin (of_int (load k)) in
       if Fin t < best_time \<or> Fin t = best_time \<and> l < best_load then Inr (Some k, Fin t, l)
       else Inr (best_engine, best_time, best_load)))"

section \<open>Scores\<close>

definition oracle_time :: "generation_request \<Rightarrow> engine \<Rightarrow> real result" where
  "oracle_time r e =
     (let n = real_of_int (input_length r); prefill_work = n * sqrt n;
          decode_work = of_int (output_length r * input_length r)
      in bind_result (true_div prefill_work (compute_throughput e / 10^12)) (\<lambda>prefill_time.
         bind_result (true_div decode_work (memory_bandwidth e / 10^9)) (\<lambda>decode_time.
         Inr (prefill_time + decode_time))))"

definition ratio_or_zero :: "real \<Rightarrow> real \<Rightarrow> real" where
  "ratio_or_zero x y = (if 0 < y then x / y else 0)"

definition request_intensity :: "generation_request \<Rightarrow> real" where
  "request_intensity r =
     (let i = real_of_int (input_length r); out = real_of_int (output_length r);
          total_ops = i ^ 2 * 10^6 + i * out * 10^6;
          total_mem = i * 10^6 + i * out * 10^6
      in ratio_or_zero total_ops total_mem)"

definition roofline_side :: "real \<Rightarrow> engine \<Rightarrow> (real \<times> string) result" where
  "roofline_side intensity e =
     bind_result (true_div (compute_throughput e) (memory_bandwidth e)) (\<lambda>turning_point.
       if intensity < turning_point then Inr (memory_bandwidth e, ''memory'')
       else Inr (compute_throughput e, ''compute''))"

definition roofline_score :: "real \<Rightarrow> engine \<Rightarrow> real result" where
  "roofline_score intensity e = bind_result (roofline_side intensity e) (\<lambda>s. Inr (fst s))"

definition adaptive_score :: "generation_request \<Rightarrow> engine \<Rightarrow> real result" where
  "adaptive_score r e =
     (let i = real_of_int (input_length r); out = real_of_int (output_length r);
          prefill_intensity = ratio_or_zero (i ^ 2 * 10^6) (i * 10^6);
          decode_intensity = ratio_or_zero (i * out * 10^6) (i * out * 10^6);
          total_work = i + out;
          prefill_weight = (if 0 < total_work then i / total_work else 1 / 2);
          decode_weight = (if 0 < total_work then out / total_work else 1 / 2)
      in bind_result (roofline_score prefill_intensity e) (\<lambda>prefill_score.
         bind_result (roofline_score decode_intensity e) (\<lambda>decode_score.
         Inr (prefill_weight * prefill_score + decode_weight * decode_score))))"

definition threshold_weights :: "int \<Rightarrow> int \<Rightarrow> generation_request \<Rightarrow> real \<times> real" where
  "threshold_weights input_threshold output_threshold r =
     (if input_threshold < input_length r then 1 else 3 / 10,
      if output_threshold < output_length r then 1 else 3 / 10)"

definition threshold_score :: "int \<Rightarrow> int \<Rightarrow> generation_request \<Rightarrow> engine \<Rightarrow> real result" where
  "threshold_score ti to r e = (case threshold_weights ti to r of (cw, bw) \<Rightarrow>
     true_div (cw * compute_throughput e + bw * memory_bandwidth e) (cw + bw))"

definition threshold_reason :: "int \<Rightarrow> int \<Rightarrow> generation_request \<Rightarrow> string" where
  "threshold_reason ti to r =
     (if ti < input_length r then if to < output_length r then ''long_input_long_output'' else ''long_input''
      else if to < output_length r then ''long_output'' else ''short_request'')"

section \<open>The risk-aware policy\<close>

definition get_tier :: "engine \<Rightarrow> int" where
  "get_tier e =
     (let hw = py_lower (en_hardware e) in
      if py_contains ''h100'' hw then 1
      else if py_contains ''a100'' hw then 2
      else if py_contains ''3090'' hw \<or> py_contains ''rtx'' hw then 3
      else 2)"

text \<open>Hard filter: a tier 3 engine is blocked when the request would take too much of its KV budget.\<close>

definition filter_candidate ::
  "real \<Rightarrow> generation_request \<Rightarrow> engines \<times> string list \<Rightarrow> string \<Rightarrow> (engines \<times> string list) result" where
  "filter_candidate buffer r s nid = (case s of (es, candidates) \<Rightarrow>
     let e = eng es nid in
     if get_tier e = 3
     then bind_result (estimate_kv_cache_memory e r) (\<lambda>est_mem_init.
          bind_result (get_memory_info e) (\<lambda>(info, e1).
            let es1 = AList.update nid e1 es;
                kv_safe = (mi_total info - mi_model_weights info) * (8 / 10)
            in if kv_safe * buffer < est_mem_init then Inr (es1, candidates)
               else Inr (es1, candidates @ [nid])))
     else Inr (es, candidates @ [nid]))"

definition pressure_step ::
  "generation_request \<Rightarrow> engines \<times> string option \<times> xreal \<Rightarrow> string \<Rightarrow> (engines \<times> string option \<times> xreal) result" where
  "pressure_step r s nid = (case s of (es, best_engine, best_score) \<Rightarrow>
     bind_result (get_memory_info (eng es nid)) (\<lambda>(info, e1).
       let es1 = AList.update nid e1 es;
           total_kv_capacity = mi_total info - mi_model_weights info
       in if total_kv_capacity \<le> 0 then Inr (es1, best_engine, best_score)
          else bind_result (estimate_kv_cache_memory e1 r) (\<lambda>new_kv.
            let score = Fin ((mi_kv_cache info + new_kv) / total_kv_capacity) in
            if score < best_score then Inr (es1, Some nid, score)
            else if score = best_score then
              (case best_engine of
                 None \<Rightarrow> Inl (AttributeError ''get_current_load'')
               | Some b \<Rightarrow> Inr (es1, if load_of es1 nid < load_of es1 b then Some nid else Some b, best_score))
            else Inr (es1, best_engine, best_score))))"

definition tier_reason :: "engine \<Rightarrow> string" where
  "tier_reason e = ''risk_aware_tier'' @ show_nat (nat (get_tier e))"

definition risk_aware_choice ::
  "int \<Rightarrow> real \<Rightarrow> generation_request \<Rightarrow> engines \<Rightarrow> string list \<Rightarrow> (placement_decision option \<times> engines) result" where
  "risk_aware_choice threshold buffer r es avail =
     bind_result (fold_result (filter_candidate buffer r) (es, []) avail) (\<lambda>(es1, candidates).
       if candidates = [] then Inr (None, es1)
       else let priority = (if threshold < input_length r
                            then filter (\<lambda>nid. get_tier (eng es1 nid) = 1) candidates else []);
                final = (if priority \<noteq> [] then priority else candidates)
            in bind_result (fold_result (pressure_step r) (es1, None, PosInf) final) (\<lambda>(es2, best, _).
               case best of
                 None \<Rightarrow> Inr (None, es2)
               | Some b \<Rightarrow> Inr (Some (decide b (tier_reason (eng es2 b)) (9 / 10) None), es2)))"

section \<open>Placing a request\<close>

text \<open>
  A scan that found no engine leaves \<open>target_engine\<close> at \<open>None\<close>; the decision cannot be used, and the
  model raises the \<open>AttributeError\<close> of its first use here. It does not happen for positive scores.
  The factory \<open>get_scheduler\<close> is modelled without keyword arguments, so with the defaults.
\<close>

definition chosen :: "(string option) result \<Rightarrow> (string \<Rightarrow> placement_decision) \<Rightarrow> (placement_decision option) result" where
  "chosen m mk = bind_result m (\<lambda>b. case b of
     None \<Rightarrow> Inl (AttributeError ''engine_id'') | Some k \<Rightarrow> Inr (Some (mk k)))"

definition pure_choice ::
  "policy \<Rightarrow> generation_request \<Rightarrow> engines \<Rightarrow> string list \<Rightarrow> (placement_decision option) result" where
  "pure_choice p r es avail =
     (case p of
        FLOPsScheduler \<Rightarrow>
          chosen (map_sum id Some (max_key (\<lambda>k. (compute_throughput (eng es k), - load_of es k)) avail))
            (\<lambda>k. decide k ''max_compute_throughput'' (6 / 10) None)
      | BandwidthScheduler \<Rightarrow>
          chosen (map_sum id Some (max_key (\<lambda>k. (memory_bandwidth (eng es k), - load_of es k)) avail))
            (\<lambda>k. decide k ''max_memory_bandwidth'' (6 / 10) None)
      | RooflineScheduler \<Rightarrow>
          bind_result (roofline_side (request_intensity r) (eng es (last avail))) (\<lambda>(_, bound_type).
            chosen (scan_best (\<lambda>k. roofline_score (request_intensity r) (eng es k)) (load_of es) avail)
              (\<lambda>k. decide k (''roofline_'' @ bound_type @ ''_bound'') (8 / 10) None))
      | InputOutputAdaptiveScheduler_Roofline \<Rightarrow>
          chosen (scan_best (\<lambda>k. adaptive_score r (eng es k)) (load_of es) avail)
            (\<lambda>k. decide k ''input_output_adaptive_roofline'' (9 / 10) None)
      | InputOutputAdaptiveScheduler_Threshold ti to \<Rightarrow>
          chosen (scan_best (\<lambda>k. threshold_score ti to r (eng es k)) (load_of es) avail)
            (\<lambda>k. decide k (''threshold_adaptive_'' @ threshold_reason ti to r) (85 / 100) None)
      | OracleScheduler \<Rightarrow>
          bind_result (fold_result (scan_least_step (\<lambda>k. oracle_time r (eng es k)) (load_of es)) (None, PosInf, PosInf) avail)
            (\<lambda>(b, t, _). case (b, t) of
               (Some k, Fin x) \<Rightarrow> Inr (Some (decide k ''oracle_minimum_completion_time'' 1 (Some x)))
             | _ \<Rightarrow> Inl (AttributeError ''engine_id''))
      | _ \<Rightarrow> Inr None)"

definition place_request ::
  "placement_algorithm \<Rightarrow> generation_request \<Rightarrow> engines \<Rightarrow> string list \<Rightarrow> rng \<Rightarrow>
   (placement_decision option \<times> placement_algorithm \<times> engines \<times> rng) result" where
  "place_request a r es avail g =
     (if avail = [] then Inr (None, update_statistics a None, es, g)
      else case pa_policy a of
        RandomScheduler \<Rightarrow>
          bind_result (rng_choice avail g) (\<lambda>(k, g1).
            let d = decide k ''random_selection'' (1 / 10) None in Inr (Some d, update_statistics a (Some d), es, g1))
      | RoundRobinScheduler i \<Rightarrow>
          let d = decide (avail ! nat (i mod int (length avail))) ''round_robin'' (2 / 10) None
          in Inr (Some d, update_statistics (a\<lparr>pa_policy := RoundRobinScheduler (i + 1)\<rparr>) (Some d), es, g)
      | HeterogeneousRiskAwareScheduler threshold buffer \<Rightarrow>
          bind_result (risk_aware_choice threshold buffer r es avail) (\<lambda>(d, es1).
            Inr (d, update_statistics a d, es1, g))
      | p \<Rightarrow> bind_result (pure_choice p r es avail) (\<lambda>d. Inr (d, update_statistics a d, es, g)))"

definition get_scheduler :: "string \<Rightarrow> placement_algorithm result" where
  "get_scheduler name =
     (case map_of [(''random'', RandomScheduler), (''round_robin'', RoundRobinScheduler 0), (''oracle'', OracleScheduler),
        (''flops'', FLOPsScheduler), (''bandwidth'', BandwidthScheduler), (''roofline'', RooflineScheduler),
        (''inputoutput_roofline'', InputOutputAdaptiveScheduler_Roofline),
        (''inputoutput_threshold'', InputOutputAdaptiveScheduler_Threshold 1024 512),
        (''heterogeneous_risk_aware'', HeterogeneousRiskAwareScheduler 2048 (1 / 2))] (py_lower name) of
        None \<Rightarrow> Inl (ValueError ''Unknown scheduler'')
      | Some p \<Rightarrow> Inr (PlacementAlgorithm p))"

section \<open>Scans find the first best engine\<close>

lemma scan_fold:
  assumes "\<forall>k \<in> set ks. score k = Inr (f k)"
  shows "fold_result (scan_step score load) (Some b, f b, Fin (of_int (load b))) ks =
    (let m = max_key_from (\<lambda>k. (f k, - load k)) b ks in Inr (Some m, f m, Fin (of_int (load m))))"
  using assms
proof (induction ks arbitrary: b)
  case (Cons k ks)
  have "((f b, - load b) < (f k, - load k)) = (f b < f k \<or> f k = f b \<and> load k < load b)" by auto
  then show ?case using Cons by (simp add: scan_step_def Let_def)
qed simp

lemma scan_best_eq:
  assumes "\<forall>k \<in> set ks. score k = Inr (f k) \<and> -1 < f k" "ks \<noteq> []"
  shows "scan_best score load ks = map_sum id Some (max_key (\<lambda>k. (f k, - load k)) ks)"
proof -
  obtain k ks' where ks: "ks = k # ks'" using assms(2) by (cases ks) auto
  have "scan_step score load (None, -1, PosInf) k = Inr (Some k, f k, Fin (of_int (load k)))"
    using assms(1) by (simp add: ks scan_step_def Let_def)
  then show ?thesis
    using assms(1) scan_fold[of ks' score f load k] by (simp add: ks scan_best_def max_key_def Let_def)
qed

lemma scan_least_fold:
  assumes "\<forall>k \<in> set ks. time k = Inr (f k)"
  shows "fold_result (scan_least_step time load) (Some b, Fin (f b), Fin (of_int (load b))) ks =
    (let m = max_key_from (\<lambda>k. (- f k, - load k)) b ks in Inr (Some m, Fin (f m), Fin (of_int (load m))))"
  using assms
proof (induction ks arbitrary: b)
  case (Cons k ks)
  have "((- f b, - load b) < (- f k, - load k)) = (f k < f b \<or> f k = f b \<and> load k < load b)" by auto
  then show ?case using Cons by (simp add: scan_least_step_def Let_def)
qed simp

text \<open>What the deterministic policies maximise, written without loops.\<close>

definition roofline_value :: "real \<Rightarrow> engine \<Rightarrow> real" where
  "roofline_value intensity e =
     (if intensity < compute_throughput e / memory_bandwidth e then memory_bandwidth e else compute_throughput e)"

definition adaptive_value :: "generation_request \<Rightarrow> engine \<Rightarrow> real" where
  "adaptive_value r e =
     (let i = real_of_int (input_length r); out = real_of_int (output_length r);
          w = (if 0 < i + out then i / (i + out) else 1 / 2); v = (if 0 < i + out then out / (i + out) else 1 / 2)
      in w * roofline_value (ratio_or_zero (i ^ 2 * 10^6) (i * 10^6)) e +
         v * roofline_value (ratio_or_zero (i * out * 10^6) (i * out * 10^6)) e)"

definition policy_value :: "policy \<Rightarrow> generation_request \<Rightarrow> (engine \<Rightarrow> real) option" where
  "policy_value p r =
     (case p of
        FLOPsScheduler \<Rightarrow> Some compute_throughput
      | BandwidthScheduler \<Rightarrow> Some memory_bandwidth
      | RooflineScheduler \<Rightarrow> Some (roofline_value (request_intensity r))
      | InputOutputAdaptiveScheduler_Roofline \<Rightarrow> Some (adaptive_value r)
      | InputOutputAdaptiveScheduler_Threshold ti to \<Rightarrow>
          Some (\<lambda>e. let (c, b) = threshold_weights ti to r in (c * compute_throughput e + b * memory_bandwidth e) / (c + b))
      | OracleScheduler \<Rightarrow>
          Some (\<lambda>e. - (of_int (input_length r) * sqrt (of_int (input_length r)) / (compute_throughput e / 10^12) +
                      of_int (output_length r * input_length r) / (memory_bandwidth e / 10^9)))
      | _ \<Rightarrow> None)"

definition engines_ok :: "engines \<Rightarrow> string list \<Rightarrow> bool" where
  "engines_ok es avail \<longleftrightarrow> (\<forall>k \<in> set avail. map_of es k \<noteq> None \<and>
     0 < compute_throughput (eng es k) \<and> 0 < memory_bandwidth (eng es k))"

lemma roofline_score_eq: "0 < memory_bandwidth e \<Longrightarrow> roofline_score x e = Inr (roofline_value x e)"
  by (simp add: roofline_score_def roofline_side_def roofline_value_def)

lemma roofline_value_pos: "0 < memory_bandwidth e \<Longrightarrow> 0 < compute_throughput e \<Longrightarrow> 0 < roofline_value x e"
  by (simp add: roofline_value_def)

lemma adaptive_score_eq: "0 < memory_bandwidth e \<Longrightarrow> adaptive_score r e = Inr (adaptive_value r e)"
  by (simp add: adaptive_score_def adaptive_value_def roofline_score_eq Let_def)

lemma adaptive_value_nonneg:
  assumes "0 < memory_bandwidth e" "0 < compute_throughput e" "0 \<le> input_length r" "0 \<le> output_length r"
  shows "0 \<le> adaptive_value r e"
proof -
  have "0 \<le> roofline_value x e" for x using roofline_value_pos[OF assms(1,2)] by (simp add: less_imp_le)
  then show ?thesis using assms(3,4) by (simp add: adaptive_value_def Let_def)
qed

lemma threshold_weights_pos: "threshold_weights ti to r = (c, b) \<Longrightarrow> 0 < c \<and> 0 < b"
  by (auto simp: threshold_weights_def split: if_splits)

lemma threshold_score_eq:
  "threshold_score ti to r e = Inr (let (c, b) = threshold_weights ti to r in
     (c * compute_throughput e + b * memory_bandwidth e) / (c + b))"
proof -
  obtain c b where w: "threshold_weights ti to r = (c, b)" by fastforce
  then have "c + b \<noteq> 0" using threshold_weights_pos[OF w] by simp
  then show ?thesis by (simp add: threshold_score_def w)
qed

lemma threshold_value_nonneg:
  assumes "0 < memory_bandwidth e" "0 < compute_throughput e"
  shows "0 \<le> (let (c, b) = threshold_weights ti to r in (c * compute_throughput e + b * memory_bandwidth e) / (c + b))"
proof -
  obtain c b where w: "threshold_weights ti to r = (c, b)" by fastforce
  then show ?thesis using threshold_weights_pos[OF w] assms by simp
qed

lemma chosen_best:
  assumes "\<forall>k \<in> set avail. score k = Inr (f k) \<and> -1 < f k" "avail \<noteq> []"
  shows "\<exists>m. max_key (\<lambda>k. (f k, - load k)) avail = Inr m \<and> chosen (scan_best score load avail) mk = Inr (Some (mk m))"
  using max_key_total[OF assms(2), of "\<lambda>k. (f k, - load k)"] scan_best_eq[OF assms, of load] by (auto simp: chosen_def)

lemma oracle_choice:
  assumes "\<forall>k \<in> set avail. time k = Inr (f k)" "avail \<noteq> []"
  shows "\<exists>m. max_key (\<lambda>k. (- f k, - load k)) avail = Inr m \<and>
    fold_result (scan_least_step time load) (None, PosInf, PosInf) avail = Inr (Some m, Fin (f m), Fin (of_int (load m)))"
proof -
  obtain k ks where a: "avail = k # ks" using assms(2) by (cases avail) auto
  have "scan_least_step time load (None, PosInf, PosInf) k = Inr (Some k, Fin (f k), Fin (of_int (load k)))"
    using assms(1) by (simp add: a scan_least_step_def Let_def)
  then show ?thesis using scan_least_fold[of ks time f load k] assms(1) by (simp add: a max_key_def Let_def)
qed


lemma hardware_params_speeds:
  "map_of hardware_params hw = Some spec \<Longrightarrow> 0 < hw_bandwidth spec \<and> 0 < hw_fp16 spec \<and> 0 < hw_vmemory spec"
  by (auto simp: hardware_params_def mk_hw_def split: if_splits)

lemma ServingEngine_speeds:
  "ServingEngine ac afd nc = Inr e \<Longrightarrow> 0 < compute_throughput e \<and> 0 < memory_bandwidth e \<and> 0 < gpu_memory_capacity e"
  by (auto simp: ServingEngine_def compute_throughput_def memory_bandwidth_def gpu_memory_capacity_def Let_def
      dest!: hardware_params_speeds split: option.splits)


section \<open>Round robin\<close>

fun place_all ::
  "placement_algorithm \<Rightarrow> generation_request list \<Rightarrow> engines \<Rightarrow> string list \<Rightarrow> rng \<Rightarrow> (string list \<times> placement_algorithm) result" where
  "place_all a [] es avail g = Inr ([], a)"
| "place_all a (r # rs) es avail g =
     bind_result (place_request a r es avail g) (\<lambda>(d, a1, es1, g1).
       bind_result (place_all a1 rs es1 avail g1) (\<lambda>(ts, a2).
         Inr ((case d of None \<Rightarrow> ts | Some x \<Rightarrow> target_engine x # ts), a2)))"

lemma policy_update_statistics: "pa_policy (update_statistics a d) = pa_policy a"
  by (simp add: update_statistics_def Let_def split: option.split)

lemma round_robin_sequence:
  assumes "pa_policy a = RoundRobinScheduler (int i)" "avail \<noteq> []"
  shows "\<exists>a'. place_all a rs es avail g = Inr (map (\<lambda>j. avail ! ((i + j) mod length avail)) [0..<length rs], a') \<and>
    pa_policy a' = RoundRobinScheduler (int (i + length rs))"
  using assms(1)
proof (induction rs arbitrary: a i)
  case (Cons r rs)
  let ?d = "decide (avail ! (i mod length avail)) ''round_robin'' (2 / 10) None"
  let ?a = "update_statistics (a\<lparr>pa_policy := RoundRobinScheduler (int i + 1)\<rparr>) (Some ?d)"
  have "nat (int i mod int (length avail)) = i mod length avail" by (metis nat_int zmod_int)
  then have p: "place_request a r es avail g = Inr (Some ?d, ?a, es, g)"
    using Cons.prems assms(2) by (simp add: place_request_def Let_def)
  have "pa_policy ?a = RoundRobinScheduler (int (Suc i))" by (simp add: policy_update_statistics)
  from Cons.IH[OF this] obtain a' where ih: "place_all ?a rs es avail g =
      Inr (map (\<lambda>j. avail ! ((Suc i + j) mod length avail)) [0..<length rs], a')"
    "pa_policy a' = RoundRobinScheduler (int (Suc i + length rs))" by blast
  have "map (\<lambda>j. avail ! ((i + j) mod length avail)) [0..<length (r # rs)] =
      avail ! (i mod length avail) # map (\<lambda>j. avail ! ((Suc i + j) mod length avail)) [0..<length rs]"
    by (simp add: upt_conv_Cons map_Suc_upt[symmetric] del: upt_Suc)
  then show ?case using p ih by (simp add: decide_def del: upt_Suc)
qed simp

lemma mset_rotated: "avail \<noteq> [] \<Longrightarrow> mset (map (\<lambda>j. avail ! ((i + j) mod length avail)) [0..<length avail]) = mset avail"
proof -
  assume ne: "avail \<noteq> []"
  have "map (\<lambda>j. avail ! ((i + j) mod length avail)) [0..<length avail] = rotate i avail"
    by (rule nth_equalityI) (simp_all add: nth_rotate add.commute)
  moreover have "mset (rotate n xs) = mset xs" for n and xs :: "'a list"
    by (metis append_take_drop_id mset_append rotate_drop_take union_commute)
  ultimately show ?thesis by simp
qed

text \<open>
  Round robin is fair: any \<open>n\<close> consecutive placements over the same \<open>n\<close> available engines use
  every engine exactly once, whatever the requests are.
\<close>

theorem round_robin_fair:
  assumes "pa_policy a = RoundRobinScheduler (int i)" "avail \<noteq> []" "length rs = length avail"
  shows "\<exists>ts a'. place_all a rs es avail g = Inr (ts, a') \<and> mset ts = mset avail \<and>
    pa_policy a' = RoundRobinScheduler (int (i + length avail))"
  using round_robin_sequence[OF assms(1,2), of rs es g] mset_rotated[OF assms(2), of i] assms(3) by auto

theorem round_robin_fair_witness:
  "pa_policy (PlacementAlgorithm (RoundRobinScheduler 0)) = RoundRobinScheduler (int 0) \<and>
   (\<exists>ts a'. place_all (PlacementAlgorithm (RoundRobinScheduler 0)) [sample_store ''a'', sample_store ''b'']
      [] [''n0'', ''n1''] (rng_of_tape (\<lambda>i. i)) = Inr (ts, a') \<and> mset ts = {#''n0'', ''n1''#})"
proof -
  have p: "pa_policy (PlacementAlgorithm (RoundRobinScheduler 0)) = RoundRobinScheduler (int 0)"
    by (simp add: PlacementAlgorithm_def)
  have "\<exists>ts a'. place_all (PlacementAlgorithm (RoundRobinScheduler 0)) [sample_store ''a'', sample_store ''b'']
      [] [''n0'', ''n1''] (rng_of_tape (\<lambda>i. i)) = Inr (ts, a') \<and> mset ts = mset [''n0'', ''n1''] \<and>
      pa_policy a' = RoundRobinScheduler (int (0 + length [''n0'', ''n1'']))"
    by (rule round_robin_fair[OF p]) simp_all
  then show ?thesis using p by (simp del: place_all.simps) blast
qed

section \<open>The risk-aware policy\<close>

text \<open>Looking at memory refreshes the cached figures of an engine, and nothing else of the engines.\<close>

definition refreshed :: "engines \<Rightarrow> engines \<Rightarrow> bool" where
  "refreshed es es' \<longleftrightarrow> map fst es' = map fst es \<and>
     (\<forall>k. k \<in> fst ` set es \<longrightarrow> eng es' k = eng es k \<or> eng es' k = refresh_memory_usage (eng es k))"

lemma refreshed_refl [simp]: "refreshed es es"
  by (simp add: refreshed_def)

lemma refresh_fields [simp]:
  "get_tier (refresh_memory_usage e) = get_tier e" "gpu_memory_capacity (refresh_memory_usage e) = gpu_memory_capacity e"
  "model_memory_usage (refresh_memory_usage e) = model_memory_usage e"
  "estimate_kv_cache_memory (refresh_memory_usage e) r = estimate_kv_cache_memory e r"
  "refresh_memory_usage (refresh_memory_usage e) = refresh_memory_usage e"
  by (simp_all add: get_tier_def gpu_memory_capacity_def refresh_memory_usage_def note_peak_def
      estimate_kv_cache_memory_def max_def split: option.split)

lemma refreshed_view:
  assumes "refreshed es es'" "k \<in> fst ` set es"
  shows "get_tier (eng es' k) = get_tier (eng es k)" "gpu_memory_capacity (eng es' k) = gpu_memory_capacity (eng es k)"
    "model_memory_usage (eng es' k) = model_memory_usage (eng es k)"
    "estimate_kv_cache_memory (eng es' k) r = estimate_kv_cache_memory (eng es k) r"
  using assms by (auto simp: refreshed_def dest!: spec[of _ k])

lemma eng_update: "eng (AList.update k e es) k' = (if k' = k then e else eng es k')"
  by (simp add: eng_def update_conv')

lemma refreshed_update:
  assumes "refreshed es es'" "k \<in> fst ` set es"
  shows "refreshed es (AList.update k (refresh_memory_usage (eng es' k)) es')"
proof -
  have keys: "map fst es' = map fst es" using assms(1) by (simp add: refreshed_def)
  then have "k \<in> fst ` set es'" using assms(2) by (metis list.set_map)
  then show ?thesis
    using assms keys by (auto simp: refreshed_def eng_update update_keys_present)
qed

lemma get_memory_info_Inr:
  "get_memory_info e = Inr (info, e1) \<Longrightarrow> e1 = refresh_memory_usage e \<and> mi_total info = gpu_memory_capacity e \<and>
     mi_model_weights info = model_memory_usage e"
  by (auto simp: get_memory_info_def Let_def bind_result_eq_Inr)

definition within_budget :: "real \<Rightarrow> generation_request \<Rightarrow> engine \<Rightarrow> bool" where
  "within_budget buffer r e \<longleftrightarrow> (get_tier e = 3 \<longrightarrow> (\<exists>m. estimate_kv_cache_memory e r = Inr m \<and>
     m \<le> (gpu_memory_capacity e - model_memory_usage e) * (8 / 10) * buffer))"

lemma filter_candidate_Inr:
  assumes s: "filter_candidate buffer r (es', c) k = Inr (es'', c')" and rf: "refreshed es es'" and k: "k \<in> fst ` set es"
  shows "refreshed es es''" "c' = c \<or> c' = c @ [k] \<and> within_budget buffer r (eng es k)" "get_tier (eng es k) \<noteq> 3 \<Longrightarrow> c' = c @ [k]"
proof -
  note v = refreshed_view[OF rf k]
  have "refreshed es es'' \<and> (c' = c \<or> c' = c @ [k] \<and> within_budget buffer r (eng es k)) \<and>
    (get_tier (eng es k) \<noteq> 3 \<longrightarrow> c' = c @ [k])"
  proof (cases "get_tier (eng es' k) = 3")
    case False
    then show ?thesis using s rf v by (auto simp: filter_candidate_def within_budget_def)
  next
    case True
    then obtain m info e1 where m: "estimate_kv_cache_memory (eng es' k) r = Inr m"
      "get_memory_info (eng es' k) = Inr (info, e1)" "es'' = AList.update k e1 es'"
      "c' = (if (mi_total info - mi_model_weights info) * (8 / 10) * buffer < m then c else c @ [k])"
      using s by (auto simp: filter_candidate_def Let_def bind_result_eq_Inr split: if_splits)
    note g = get_memory_info_Inr[OF m(2)]
    have "refreshed es es''" using refreshed_update[OF rf k] m(3) g by simp
    then show ?thesis using m(1,4) g v True by (auto simp: within_budget_def)
  qed
  then show "refreshed es es''" "c' = c \<or> c' = c @ [k] \<and> within_budget buffer r (eng es k)"
    "get_tier (eng es k) \<noteq> 3 \<Longrightarrow> c' = c @ [k]" by blast+
qed

lemma filter_fold:
  assumes "fold_result (filter_candidate buffer r) (es', c) ks = Inr (es'', c')" "refreshed es es'" "set ks \<subseteq> fst ` set es"
    and "\<forall>k \<in> set c. within_budget buffer r (eng es k)"
  shows "refreshed es es'' \<and> set c' \<subseteq> set c \<union> set ks \<and> (\<forall>k \<in> set c'. within_budget buffer r (eng es k)) \<and>
    (\<forall>k \<in> set ks. get_tier (eng es k) \<noteq> 3 \<longrightarrow> k \<in> set c') \<and> set c \<subseteq> set c'"
  using assms
proof (induction ks arbitrary: es' c)
  case (Cons k ks)
  obtain es1 c1 where s: "filter_candidate buffer r (es', c) k = Inr (es1, c1)"
    "fold_result (filter_candidate buffer r) (es1, c1) ks = Inr (es'', c')"
    using Cons.prems(1) by (auto simp: bind_result_eq_Inr)
  have k: "k \<in> fst ` set es" using Cons.prems(3) by simp
  note f = filter_candidate_Inr[OF s(1) Cons.prems(2) k]
  have "\<forall>k \<in> set c1. within_budget buffer r (eng es k)" using f(2) Cons.prems(4) by auto
  from Cons.IH[OF s(2) f(1) _ this] f(2,3) Cons.prems(3) show ?case by auto
qed simp

lemma pressure_Inr:
  assumes s: "pressure_step r (es', b, x) k = Inr (es'', b', x')" and rf: "refreshed es es'" and k: "k \<in> fst ` set es"
  shows "refreshed es es''" "b' = b \<or> b' = Some k"
proof -
  obtain info e1 where g: "get_memory_info (eng es' k) = Inr (info, e1)"
    using s by (auto simp: pressure_step_def bind_result_eq_Inr)
  have "es'' = AList.update k e1 es'"
    using s g by (auto simp: pressure_step_def Let_def bind_result_eq_Inr split: if_splits option.splits)
  then show "refreshed es es''" using refreshed_update[OF rf k] get_memory_info_Inr[OF g] by simp
  show "b' = b \<or> b' = Some k"
    using s g by (auto simp: pressure_step_def Let_def bind_result_eq_Inr split: if_splits option.splits)
qed

lemma pressure_fold:
  assumes "fold_result (pressure_step r) (es', b, x) ks = Inr (es'', b', x')" "refreshed es es'" "set ks \<subseteq> fst ` set es"
  shows "refreshed es es'' \<and> (b' = b \<or> (\<exists>k \<in> set ks. b' = Some k))"
  using assms
proof (induction ks arbitrary: es' b x)
  case (Cons k ks)
  obtain es1 b1 x1 where s: "pressure_step r (es', b, x) k = Inr (es1, b1, x1)"
    "fold_result (pressure_step r) (es1, b1, x1) ks = Inr (es'', b', x')"
    using Cons.prems(1) by (auto simp: bind_result_eq_Inr)
  have k: "k \<in> fst ` set es" using Cons.prems(3) by simp
  note f = pressure_Inr[OF s(1) Cons.prems(2) k]
  from Cons.IH[OF s(2) f(1)] f(2) Cons.prems(3) show ?case by auto
qed simp

lemma risk_aware_Inr:
  assumes c: "risk_aware_choice th buffer r es avail = Inr (d, es')" and sub: "set avail \<subseteq> fst ` set es"
  shows "refreshed es es' \<and> (\<forall>x. d = Some x \<longrightarrow> target_engine x \<in> set avail \<and>
    within_budget buffer r (eng es (target_engine x)) \<and>
    (th < input_length r \<longrightarrow> (\<exists>k \<in> set avail. get_tier (eng es k) = 1) \<longrightarrow> get_tier (eng es (target_engine x)) = 1))"
proof -
  obtain es1 cs where f: "fold_result (filter_candidate buffer r) (es, []) avail = Inr (es1, cs)"
    using c by (auto simp: risk_aware_choice_def bind_result_eq_Inr)
  have ff: "refreshed es es1" "set cs \<subseteq> set avail" "\<forall>k \<in> set cs. within_budget buffer r (eng es k)"
    "\<forall>k \<in> set avail. get_tier (eng es k) \<noteq> 3 \<longrightarrow> k \<in> set cs"
    using filter_fold[OF f refreshed_refl sub] by auto
  show ?thesis
  proof (cases "cs = []")
    case True
    then show ?thesis using c f ff(1) by (auto simp: risk_aware_choice_def)
  next
    case False
    define pr where "pr = (if th < input_length r then filter (\<lambda>k. get_tier (eng es1 k) = 1) cs else [])"
    define fin where "fin = (if pr \<noteq> [] then pr else cs)"
    have eq: "risk_aware_choice th buffer r es avail = bind_result (fold_result (pressure_step r) (es1, None, PosInf) fin)
        (\<lambda>(es2, best, _). case best of None \<Rightarrow> Inr (None, es2)
           | Some b \<Rightarrow> Inr (Some (decide b (tier_reason (eng es2 b)) (9 / 10) None), es2))"
      unfolding risk_aware_choice_def f bind_result_Inr prod.case Let_def fin_def pr_def using False by simp
    obtain b x where p: "fold_result (pressure_step r) (es1, None, PosInf) fin = Inr (es', b, x)"
      "d = (case b of None \<Rightarrow> None | Some k \<Rightarrow> Some (decide k (tier_reason (eng es' k)) (9 / 10) None))"
      using c unfolding eq bind_result_eq_Inr by (auto split: option.splits)
    have fsub: "set fin \<subseteq> set cs" by (auto simp: fin_def pr_def)
    have pf: "refreshed es es'" "b = None \<or> (\<exists>k \<in> set fin. b = Some k)"
      using pressure_fold[OF p(1) ff(1)] fsub ff(2) sub by auto
    have tier1: "get_tier (eng es k) = 1"
      if k: "k \<in> set fin" and th: "th < input_length r" and ex: "\<exists>k \<in> set avail. get_tier (eng es k) = 1" for k
    proof -
      have same: "\<forall>k \<in> set cs. get_tier (eng es1 k) = get_tier (eng es k)"
        using refreshed_view(1)[OF ff(1)] ff(2) sub by blast
      obtain k1 where "k1 \<in> set cs" "get_tier (eng es k1) = 1" using ex ff(4) by force
      then have "pr \<noteq> []" using th same by (auto simp: pr_def filter_empty_conv)
      then show ?thesis using k th same by (auto simp: fin_def pr_def)
    qed
    show ?thesis using pf p(2) fsub ff(2,3) tier1 by (auto simp: decide_def split: option.splits)
  qed
qed

text \<open>
  The risk-aware policy only names available engines; if it names a tier 3 GPU, the estimated KV
  memory of the whole request is within the configured fraction of 80 percent of that GPU's KV
  budget; and a long prompt goes to a tier 1 GPU whenever one is available.
\<close>

theorem risk_aware_respects_budget:
  assumes p: "pa_policy a = HeterogeneousRiskAwareScheduler th buffer" and sub: "set avail \<subseteq> fst ` set es"
    and d: "place_request a r es avail g = Inr (Some d, a', es', g')"
  shows "target_engine d \<in> set avail \<and>
    (get_tier (eng es (target_engine d)) = 3 \<longrightarrow>
       (\<exists>m. estimate_kv_cache_memory (eng es (target_engine d)) r = Inr m \<and>
          m \<le> (gpu_memory_capacity (eng es (target_engine d)) - model_memory_usage (eng es (target_engine d))) * (8 / 10) * buffer)) \<and>
    (th < input_length r \<longrightarrow> (\<exists>k \<in> set avail. get_tier (eng es k) = 1) \<longrightarrow> get_tier (eng es (target_engine d)) = 1)"
proof -
  have "risk_aware_choice th buffer r es avail = Inr (Some d, es')"
    using d p by (auto simp: place_request_def bind_result_eq_Inr split: if_splits)
  from risk_aware_Inr[OF this sub] show ?thesis by (simp add: within_budget_def)
qed

theorem risk_aware_respects_budget_witness:
  "\<exists>es d a' es' g'. set [''n0''] \<subseteq> fst ` set es \<and>
     place_request (PlacementAlgorithm (HeterogeneousRiskAwareScheduler 2048 (1 / 2))) (sample_store ''r1'') es [''n0'']
       (rng_of_tape (\<lambda>i. i)) = Inr (Some d, a', es', g') \<and> target_engine d = ''n0''"
proof -
  obtain e where e: "ServingEngine (\<lambda>_. None) False sample_node = Inr e" by (rule sample_engine_ok)
  let ?es = "[(''n0'', e)]" and ?a = "PlacementAlgorithm (HeterogeneousRiskAwareScheduler 2048 (1 / 2))"
  have hw: "en_hardware e = ''NVDA:RTX3090''" "en_params e = engine_fallback_params" "model_memory_usage e = 0"
    "gpu_memory_capacity e = 24 * 10^9"
    using e by (auto simp: ServingEngine_def sample_node_def gpu_memory_capacity_def hardware_params_def mk_hw_def Let_def)
  have "(let hw = py_lower ''NVDA:RTX3090'' in if py_contains ''h100'' hw then 1 else if py_contains ''a100'' hw then 2
      else if py_contains ''3090'' hw \<or> py_contains ''rtx'' hw then 3 else 2) = (3 :: int)" by code_simp
  then have "get_tier e = 3" unfolding get_tier_def hw .
  moreover have kv: "estimate_kv_cache_memory e (sample_store ''r1'') = Inr 57671680"
    by (simp add: estimate_kv_cache_memory_def kv_per_token_def hw engine_fallback_params_def sample_store_def GenerationRequest_def)
  moreover obtain info where i: "get_memory_info e = Inr (info, refresh_memory_usage e)"
    "mi_total info = 24 * 10^9" "mi_model_weights info = 0"
    using hw(3,4) by (simp add: get_memory_info_def Let_def)
  ultimately have f: "fold_result (filter_candidate (1 / 2) (sample_store ''r1'')) (?es, []) [''n0''] =
      Inr ([(''n0'', refresh_memory_usage e)], [''n0''])"
    by (simp add: filter_candidate_def eng_def Let_def)
  obtain info' where i': "get_memory_info (refresh_memory_usage e) = Inr (info', refresh_memory_usage e)"
    "mi_total info' = 24 * 10^9" "mi_model_weights info' = 0"
    using hw(3,4) by (simp add: get_memory_info_def Let_def)
  have "pressure_step (sample_store ''r1'') ([(''n0'', refresh_memory_usage e)], None, PosInf) ''n0'' =
      Inr ([(''n0'', refresh_memory_usage e)], Some ''n0'', Fin ((mi_kv_cache info' + 57671680) / (24 * 10^9)))"
    using i' kv by (simp add: pressure_step_def eng_def Let_def)
  moreover have "\<not> 2048 < input_length (sample_store ''r1'')" by (simp add: sample_store_def GenerationRequest_def)
  ultimately obtain d a' es' g' where p: "place_request ?a (sample_store ''r1'') ?es [''n0''] (rng_of_tape (\<lambda>i. i)) = Inr (Some d, a', es', g')"
    using f by (simp add: place_request_def risk_aware_choice_def PlacementAlgorithm_def Let_def)
  have "pa_policy ?a = HeterogeneousRiskAwareScheduler 2048 (1 / 2)" by (simp add: PlacementAlgorithm_def)
  from risk_aware_respects_budget[OF this _ p] show ?thesis
    by (intro exI[of _ ?es] exI[of _ d] exI[of _ a'] exI[of _ es'] exI[of _ g']) (simp add: p)
qed

section \<open>The contract the cluster manager relies on\<close>

locale placement_policy =
  fixes place :: "placement_algorithm \<Rightarrow> generation_request \<Rightarrow> engines \<Rightarrow> string list \<Rightarrow> rng \<Rightarrow>
      (placement_decision option \<times> placement_algorithm \<times> engines \<times> rng) result"
  assumes target_available: "place a r es avail g = Inr (Some d, a', es', g') \<Longrightarrow> set avail \<subseteq> fst ` set es \<Longrightarrow>
      target_engine d \<in> set avail"
    and engines_refreshed: "place a r es avail g = Inr (dd, a', es', g') \<Longrightarrow> set avail \<subseteq> fst ` set es \<Longrightarrow> refreshed es es'"
begin

lemma target_known:
  assumes "place a r es avail g = Inr (Some d, a', es', g')" "set avail \<subseteq> fst ` set es"
  shows "target_engine d \<in> fst ` set es'"
proof -
  have "map fst es' = map fst es" using engines_refreshed[OF assms] by (simp add: refreshed_def)
  then have "fst ` set es' = fst ` set es" by (metis list.set_map)
  then show ?thesis using target_available[OF assms] assms(2) by blast
qed

lemma core_kept:
  assumes "place a r es avail g = Inr (dd, a', es', g')" "set avail \<subseteq> fst ` set es" "k \<in> fst ` set es"
  shows "same_core (eng es k) (eng es' k)"
  using engines_refreshed[OF assms(1,2)] assms(3) same_core_refl same_core_refresh unfolding refreshed_def by metis

end

lemma chosen_Inr: "chosen m mk = Inr (Some d) \<Longrightarrow> \<exists>k. m = Inr (Some k) \<and> d = mk k"
  by (auto simp: chosen_def bind_result_eq_Inr split: option.splits)

lemma pure_choice_target:
  assumes "pure_choice p r es avail = Inr (Some d)" "avail \<noteq> []"
  shows "target_engine d \<in> set avail"
proof -
  have scan: "k \<in> set ks" if "scan_best score load ks = Inr (Some k)" for score load ks and k :: string
  proof -
    have "fold_result (scan_step score load) s ys = Inr s' \<Longrightarrow> fst s' = fst s \<or> fst s' \<in> Some ` set ys" for s s' ys
    proof (induction ys arbitrary: s)
      case (Cons y ys)
      then obtain s1 where s1: "scan_step score load s y = Inr s1" "fold_result (scan_step score load) s1 ys = Inr s'"
        by (auto simp: bind_result_eq_Inr)
      have "fst s1 = fst s \<or> fst s1 = Some y"
        using s1(1) by (auto simp: scan_step_def bind_result_eq_Inr Let_def split: prod.splits if_splits)
      then show ?case using Cons.IH[OF s1(2)] by auto
    qed auto
    then show ?thesis using that by (fastforce simp: scan_best_def bind_result_eq_Inr)
  qed
  have least: "fst s' = fst s \<or> fst s' \<in> Some ` set ys"
    if "fold_result (scan_least_step time load) s ys = Inr s'" for time load s s' and ys :: "string list"
    using that
  proof (induction ys arbitrary: s)
    case (Cons y ys)
    then obtain s1 where s1: "scan_least_step time load s y = Inr s1" "fold_result (scan_least_step time load) s1 ys = Inr s'"
      by (auto simp: bind_result_eq_Inr)
    have "fst s1 = fst s \<or> fst s1 = Some y"
      using s1(1) by (auto simp: scan_least_step_def bind_result_eq_Inr Let_def split: prod.splits if_splits)
    then show ?case using Cons.IH[OF s1(2)] by auto
  qed auto
  have mk: "k \<in> set avail" if "map_sum id Some (max_key key avail) = Inr (Some k)" for key :: "string \<Rightarrow> real \<times> int" and k
    using that max_key_Inr(1)[of key avail k] by (cases "max_key key avail") auto
  show ?thesis
  proof (cases p)
    case OracleScheduler
    let ?m = "fold_result (scan_least_step (\<lambda>k. oracle_time r (eng es k)) (load_of es)) (None, PosInf, PosInf) avail"
    obtain b t l where o: "?m = Inr (b, t, l)"
      using assms(1) OracleScheduler by (cases ?m) (auto simp: pure_choice_def)
    obtain k where "b = Some k" "target_engine d = k"
      using assms(1) OracleScheduler o by (auto simp: pure_choice_def decide_def split: option.splits xreal.splits)
    then show ?thesis using least[OF o] by auto
  next
    case RooflineScheduler
    then obtain x where "chosen (scan_best (\<lambda>k. roofline_score (request_intensity r) (eng es k)) (load_of es) avail)
        (\<lambda>k. decide k x (8 / 10) None) = Inr (Some d)"
      using assms(1) unfolding pure_choice_def by (auto simp: bind_result_eq_Inr)
    from chosen_Inr[OF this] show ?thesis using scan by (auto simp: decide_def)
  next
    case InputOutputAdaptiveScheduler_Roofline
    then show ?thesis using assms(1) scan by (auto simp: pure_choice_def decide_def dest!: chosen_Inr)
  next
    case (InputOutputAdaptiveScheduler_Threshold ti to)
    then show ?thesis using assms(1) scan by (auto simp: pure_choice_def decide_def dest!: chosen_Inr)
  next
    case FLOPsScheduler
    then show ?thesis using assms(1) mk by (auto simp: pure_choice_def decide_def dest!: chosen_Inr)
  next
    case BandwidthScheduler
    then show ?thesis using assms(1) mk by (auto simp: pure_choice_def decide_def dest!: chosen_Inr)
  qed (use assms(1) in \<open>simp_all add: pure_choice_def\<close>)
qed

interpretation pp: placement_policy place_request
proof
  fix a r es avail g d a' es' g'
  assume p: "place_request a r es avail g = Inr (Some d, a', es', g')" and sub: "set avail \<subseteq> fst ` set es"
  then have ne: "avail \<noteq> []" by (auto simp: place_request_def)
  show "target_engine d \<in> set avail"
  proof (cases "pa_policy a")
    case RandomScheduler
    then show ?thesis using p ne
      by (auto simp: place_request_def bind_result_eq_Inr decide_def Let_def dest: rng_choice_in)
  next
    case (RoundRobinScheduler i)
    have "nat (i mod int (length avail)) < length avail" using ne by (simp add: nat_less_iff)
    then show ?thesis using p ne RoundRobinScheduler by (auto simp: place_request_def decide_def Let_def)
  next
    case (HeterogeneousRiskAwareScheduler th b)
    then have "risk_aware_choice th b r es avail = Inr (Some d, es')"
      using p ne by (auto simp: place_request_def bind_result_eq_Inr)
    from risk_aware_Inr[OF this sub] show ?thesis by simp
  qed (use p ne in \<open>auto simp: place_request_def bind_result_eq_Inr intro: pure_choice_target\<close>)
next
  fix a r es avail g dd a' es' g'
  assume p: "place_request a r es avail g = Inr (dd, a', es', g')" and sub: "set avail \<subseteq> fst ` set es"
  show "refreshed es es'"
  proof (cases "pa_policy a")
    case (HeterogeneousRiskAwareScheduler th b)
    show ?thesis
    proof (cases "avail = []")
      case False
      then have "risk_aware_choice th b r es avail = Inr (dd, es')"
        using p HeterogeneousRiskAwareScheduler by (auto simp: place_request_def bind_result_eq_Inr)
      from risk_aware_Inr[OF this sub] show ?thesis by simp
    qed (use p in \<open>simp add: place_request_def\<close>)
  qed (use p in \<open>auto simp: place_request_def bind_result_eq_Inr Let_def split: if_splits\<close>)
qed

text \<open>
  The label of a roofline decision is taken from the last engine the loop looked at, not from the
  engine it chose.
\<close>

lemma roofline_reason_of_last:
  assumes "pa_policy a = RooflineScheduler" "place_request a r es avail g = Inr (Some d, a', es', g')"
  shows "\<exists>s b. roofline_side (request_intensity r) (eng es (last avail)) = Inr (s, b) \<and> reason d = ''roofline_'' @ b @ ''_bound''"
proof -
  have "pure_choice RooflineScheduler r es avail = Inr (Some d)"
    using assms by (auto simp: place_request_def bind_result_eq_Inr split: if_splits)
  then obtain s b where s: "roofline_side (request_intensity r) (eng es (last avail)) = Inr (s, b)"
    "chosen (scan_best (\<lambda>k. roofline_score (request_intensity r) (eng es k)) (load_of es) avail)
        (\<lambda>k. decide k (''roofline_'' @ b @ ''_bound'') (8 / 10) None) = Inr (Some d)"
    unfolding pure_choice_def by (auto simp: bind_result_eq_Inr)
  from chosen_Inr[OF s(2)] s(1) show ?thesis by (auto simp: decide_def)
qed

end
