(* ===== verification/Afd_Analyzer.thy ===== *)
theory Afd_Analyzer
  imports Serving_Engine
begin

text \<open>
  The latency model of attention/FFN disaggregated decoding,
  \<open>src/scheduler/simulator/core/afd_analyzer.py\<close>: time lines of attention and FFN instances, a
  memo table of per-layer times, and the two schedulers over them, \<open>schedule_next_batch\<close> (used by
  the cluster manager) and \<open>analyze_decode_latency\<close>. An \<open>AFDInstanceState\<close> is its only field, the
  time from which the instance is free. Requests are read through the store of
  \<open>Serving_Engine\<close>; wait lists hold request ids.

  The loop of \<open>_ffn_layer_time_for_batch\<close> makes no progress when a run has size zero or less. It
  is a partial function; the memo invariant shows that such a run raises in the analyzer
  instead, so that the loop always returns.
\<close>

section \<open>State\<close>

record model_analyzer =
  ma_config :: "model_config option"
  ma_params :: model_params
  ma_hardware :: string

definition model_analyzer_of :: "engine \<Rightarrow> model_analyzer" where
  "model_analyzer_of e =
     \<lparr>ma_config = analyzer_config e, ma_params = analyzer_params e, ma_hardware = en_hardware e\<rparr>"

type_synonym layer_key = "string \<times> nat \<times> int \<times> int"

record afd_analyzer =
  afd_model :: model_analyzer
  attention_batch_size :: int
  ffn_max_batch_size :: int
  attention_analyzers :: "model_analyzer list"
  ffn_analyzers :: "model_analyzer list"
  kv_bandwidth_bytes :: real
  activation_bandwidth_bytes :: real
  afd_hidden_size :: int
  afd_num_layers :: int
  attn_states :: "real list"
  ffn_states :: "real list"
  layer_time_cache :: "(layer_key, real \<times> real) dict"

definition config_value :: "(model_config \<Rightarrow> getter option) \<Rightarrow> string \<Rightarrow> model_analyzer \<Rightarrow> int result" where
  "config_value sel name ma =
     (case ma_config ma of None \<Rightarrow> Inl (AttributeError name)
      | Some c \<Rightarrow> (case sel c of None \<Rightarrow> Inl (AttributeError name) | Some f \<Rightarrow> f (ma_params ma)))"

definition AFDAnalyzer ::
  "model_analyzer \<Rightarrow> int \<Rightarrow> int \<Rightarrow> int \<Rightarrow> int \<Rightarrow> real \<Rightarrow> real \<Rightarrow> model_analyzer list \<Rightarrow> model_analyzer list \<Rightarrow>
   afd_analyzer result" where
  "AFDAnalyzer ma attn_bs ffn_bs num_attn num_ffn kv_gbps act_gbps attn_as ffn_as =
     (let attn = (if attn_as = [] then replicate (nat (max 1 num_attn)) ma else attn_as);
          ffn = (if ffn_as = [] then replicate (nat (max 1 num_ffn)) ma else ffn_as)
      in bind_result (config_value mc_hidden_size ''get_hidden_size'' ma) (\<lambda>hidden.
         bind_result (config_value mc_num_hidden_layers ''get_num_hidden_layers'' ma) (\<lambda>layers.
         Inr \<lparr>afd_model = ma, attention_batch_size = attn_bs, ffn_max_batch_size = ffn_bs,
              attention_analyzers = attn, ffn_analyzers = ffn,
              kv_bandwidth_bytes = max kv_gbps (1 / 10^6) * 10^9,
              activation_bandwidth_bytes = max act_gbps (1 / 10^6) * 10^9,
              afd_hidden_size = hidden, afd_num_layers = layers,
              attn_states = replicate (max 1 (length attn)) 0, ffn_states = replicate (max 1 (length ffn)) 0,
              layer_time_cache = []\<rparr>)))"

definition seq_len_for_request :: "generation_request \<Rightarrow> int" where
  "seq_len_for_request r = max (input_length r + generated_tokens r) 1"

section \<open>Layer times\<close>

definition decode_breakdown :: "model_analyzer \<Rightarrow> int \<Rightarrow> int \<Rightarrow> breakdown result" where
  "decode_breakdown ma seq_len batch_size =
     (if seq_len \<le> 0 \<or> batch_size \<le> 0 then Inl (AssertionError [])
      else case ma_config ma of
        None \<Rightarrow> Inl (AttributeError ''get_num_attention_heads'')
      | Some _ \<Rightarrow> analyze_decode_breakdown (ma_params ma) (ma_hardware ma)
          \<lparr>aa_seqlen = seq_len, aa_batchsize = batch_size, aa_w_bit = 16, aa_a_bit = 16, aa_kv_bit = None,
           aa_tp_size = 1, aa_disable_attention = False, aa_disable_ffn = False\<rparr>)"

definition get_layer_times ::
  "afd_analyzer \<Rightarrow> int \<Rightarrow> int \<Rightarrow> model_analyzer \<Rightarrow> string \<Rightarrow> nat \<Rightarrow> ((real \<times> real) \<times> afd_analyzer) result" where
  "get_layer_times a seq_len batch_size ma role idx =
     (let key = (role, idx, seq_len, batch_size) in
      case map_of (layer_time_cache a) key of
        Some v \<Rightarrow> Inr (v, a)
      | None \<Rightarrow> bind_result (decode_breakdown ma seq_len batch_size) (\<lambda>b.
          let v = (bd_attention_s b, bd_ffn_s b)
          in Inr (v, a\<lparr>layer_time_cache := AList.update key v (layer_time_cache a)\<rparr>)))"

definition get_attention_layer_time :: "afd_analyzer \<Rightarrow> nat \<Rightarrow> int \<Rightarrow> int \<Rightarrow> (real \<times> afd_analyzer) result" where
  "get_attention_layer_time a idx seq_len batch_size =
     bind_result (get_layer_times a seq_len batch_size
         (attention_analyzers a ! (idx mod length (attention_analyzers a))) ''attn'' idx)
       (\<lambda>(v, a1). Inr (fst v, a1))"

definition get_ffn_layer_time :: "afd_analyzer \<Rightarrow> nat \<Rightarrow> int \<Rightarrow> int \<Rightarrow> (real \<times> afd_analyzer) result" where
  "get_ffn_layer_time a idx seq_len batch_size =
     bind_result (get_layer_times a seq_len batch_size
         (ffn_analyzers a ! (idx mod length (ffn_analyzers a))) ''ffn'' idx)
       (\<lambda>(v, a1). Inr (snd v, a1))"

definition estimate_kv_bytes :: "afd_analyzer \<Rightarrow> int \<Rightarrow> real result" where
  "estimate_kv_bytes a seq_len =
     (let mp = ma_params (afd_model a) in
      bind_result (floor_div (mp_hidden_size mp) (mp_num_attention_heads mp)) (\<lambda>head_dim.
        Inr (of_int (2 * mp_num_hidden_layers mp * mp_num_key_value_heads mp * head_dim * 2 * max seq_len 1))))"

definition kv_transfer_time :: "afd_analyzer \<Rightarrow> int \<Rightarrow> real result" where
  "kv_transfer_time a seq_len =
     bind_result (estimate_kv_bytes a seq_len) (\<lambda>kv_bytes. true_div kv_bytes (kv_bandwidth_bytes a))"

definition activation_transfer_time :: "afd_analyzer \<Rightarrow> int \<Rightarrow> real result" where
  "activation_transfer_time a batch_size =
     true_div (of_int (afd_hidden_size a * batch_size * 2)) (activation_bandwidth_bytes a)"

partial_function (option) ffn_runs ::
  "nat \<Rightarrow> int \<Rightarrow> int \<Rightarrow> real \<Rightarrow> afd_analyzer \<Rightarrow> (real \<times> afd_analyzer) result option" where
  "ffn_runs idx seq_len remaining total_time a =
     (if \<not> 0 < remaining then Some (Inr (total_time, a))
      else case get_ffn_layer_time a idx seq_len (min remaining (ffn_max_batch_size a)) of
             Inl err \<Rightarrow> Some (Inl err)
           | Inr (t, a1) \<Rightarrow> ffn_runs idx seq_len (remaining - min remaining (ffn_max_batch_size a)) (total_time + t) a1)"

definition ffn_layer_time_for_batch :: "afd_analyzer \<Rightarrow> int \<Rightarrow> int \<Rightarrow> nat \<Rightarrow> (real \<times> afd_analyzer) result" where
  "ffn_layer_time_for_batch a seq_len batch_size idx =
     (case ffn_runs idx seq_len batch_size 0 a of None \<Rightarrow> Inl NonTermination | Some r \<Rightarrow> r)"

definition afd_reset :: "afd_analyzer \<Rightarrow> afd_analyzer" where
  "afd_reset a = a\<lparr>attn_states := map (\<lambda>_. 0) (attn_states a), ffn_states := map (\<lambda>_. 0) (ffn_states a)\<rparr>"

section \<open>Scheduling\<close>

record batch_report =
  br_batch_size :: int
  br_attention_instance :: nat
  br_ffn_instance :: nat
  br_request_ids :: "string list"
  br_max_seq_len :: int
  br_kv_transfer_time_s :: real
  br_attention_layer_time_s :: real
  br_ffn_layer_time_s :: real
  br_ffn_wait_s :: real
  br_activation_transfer_s :: real
  br_per_layer_duration_s :: real
  br_per_token_duration_s :: real
  br_num_layers :: int
  br_total_decode_time_s :: real
  br_max_output_len :: int
  br_start_time_s :: real
  br_completion_time_s :: real

definition earliest_instance :: "real list \<Rightarrow> nat result" where
  "earliest_instance states = min_key (\<lambda>i. states ! i) [0..<length states]"

text \<open>
  The part shared by both schedulers: place one batch on the earliest attention and FFN
  instances and advance their time lines. The batch decodes \<open>tokens\<close> tokens:
  \<open>schedule_next_batch\<close> takes the longest output, \<open>analyze_decode_latency\<close> one (the reports of
  the latter do not have the two fields that depend on the output length).
\<close>

definition run_batch ::
  "afd_analyzer \<Rightarrow> store \<Rightarrow> real \<Rightarrow> int \<Rightarrow> string list \<Rightarrow> (batch_report \<times> afd_analyzer) result" where
  "run_batch a st start_time tokens batch =
     bind_result (earliest_instance (attn_states a)) (\<lambda>attn_idx.
     let attn_start = max start_time (attn_states a ! attn_idx);
         size = int (length batch);
         seq_lens = map (\<lambda>rid. seq_len_for_request (st rid)) batch
     in bind_result (max_key id seq_lens) (\<lambda>max_seq_len.
        bind_result (map_result (kv_transfer_time a) seq_lens) (\<lambda>kv_times.
        bind_result (get_attention_layer_time a attn_idx max_seq_len size) (\<lambda>(attn_layer_time, a1).
        bind_result (earliest_instance (ffn_states a1)) (\<lambda>ffn_idx.
        bind_result (ffn_layer_time_for_batch a1 max_seq_len size ffn_idx) (\<lambda>(ffn_layer_time, a2).
        bind_result (activation_transfer_time a2 size) (\<lambda>activation_transfer.
        let kv_time = sum_list kv_times;
            earliest_ffn_start = attn_start + kv_time + attn_layer_time + activation_transfer;
            ffn_wait = max 0 (ffn_states a2 ! ffn_idx - earliest_ffn_start);
            effective_ffn_time = ffn_wait + ffn_layer_time;
            per_layer_duration = max attn_layer_time effective_ffn_time + 2 * activation_transfer;
            per_token_duration = per_layer_duration * of_int (afd_num_layers a2);
            total_decode_time = kv_time + per_token_duration * of_int (max tokens 1);
            completion_time = attn_start + total_decode_time
        in Inr (\<lparr>br_batch_size = size, br_attention_instance = attn_idx, br_ffn_instance = ffn_idx,
                 br_request_ids = map (\<lambda>rid. req_id (st rid)) batch, br_max_seq_len = max_seq_len,
                 br_kv_transfer_time_s = kv_time, br_attention_layer_time_s = attn_layer_time,
                 br_ffn_layer_time_s = ffn_layer_time, br_ffn_wait_s = ffn_wait,
                 br_activation_transfer_s = activation_transfer, br_per_layer_duration_s = per_layer_duration,
                 br_per_token_duration_s = per_token_duration, br_num_layers = afd_num_layers a2,
                 br_total_decode_time_s = total_decode_time, br_max_output_len = tokens,
                 br_start_time_s = attn_start, br_completion_time_s = completion_time\<rparr>,
                a2\<lparr>attn_states := (attn_states a2)[attn_idx := completion_time],
                   ffn_states := (ffn_states a2)[ffn_idx :=
                     max (ffn_states a2 ! ffn_idx) earliest_ffn_start + ffn_layer_time]\<rparr>))))))))"

definition next_attention_available_time :: "afd_analyzer \<Rightarrow> real result" where
  "next_attention_available_time a = min_key id (attn_states a)"

record afd_result =
  ar_batch :: "string list"
  ar_batch_report :: batch_report
  ar_completion_times :: "(string, real) dict"

definition schedule_next_batch ::
  "afd_analyzer \<Rightarrow> store \<Rightarrow> string list \<Rightarrow> real \<Rightarrow> (afd_result option \<times> string list \<times> afd_analyzer) result" where
  "schedule_next_batch a st waitlist start_time =
     (let batch = take (nat (attention_batch_size a)) waitlist;
          rest = drop (nat (attention_batch_size a)) waitlist
      in if batch = [] then Inr (None, waitlist, a)
         else bind_result (max_key id (map (\<lambda>rid. output_length (st rid)) batch)) (\<lambda>max_output_len.
           bind_result (run_batch a st start_time max_output_len batch) (\<lambda>(report, a1).
             Inr (Some \<lparr>ar_batch = batch, ar_batch_report = report,
                        ar_completion_times = dict_comp (br_request_ids report) (\<lambda>_. br_completion_time_s report)\<rparr>,
                  rest, a1))))"

function latency_loop ::
  "store \<Rightarrow> real \<Rightarrow> afd_analyzer \<Rightarrow> string list \<Rightarrow> batch_report list \<Rightarrow> (string, real) dict \<Rightarrow>
   (batch_report list \<times> (string, real) dict \<times> afd_analyzer) result" where
  "latency_loop st start_time a waitlist reports completion_times =
     (if take (nat (attention_batch_size a)) waitlist = [] then Inr (reports, completion_times, a)
      else bind_result (run_batch a st start_time 1 (take (nat (attention_batch_size a)) waitlist)) (\<lambda>(report, a1).
        latency_loop st start_time a1
          (drop (nat (attention_batch_size a)) waitlist) (reports @ [report])
          (foldl (\<lambda>d rid. AList.update rid (br_completion_time_s report) d) completion_times (br_request_ids report))))"
  by pat_completeness auto
termination
  by (relation "measure (\<lambda>(st, start, a, waitlist, reports, times). length waitlist)") auto

declare latency_loop.simps [simp del]

record latency_report =
  lat_batches :: "batch_report list"
  lat_completion_s :: "(string, real) dict"
  lat_makespan_s :: real

definition analyze_decode_latency ::
  "afd_analyzer \<Rightarrow> store \<Rightarrow> string list \<Rightarrow> real \<Rightarrow> (latency_report \<times> afd_analyzer) result" where
  "analyze_decode_latency a st requests start_time =
     bind_result (latency_loop st start_time a requests [] []) (\<lambda>(reports, times, a1).
       bind_result (if times = [] then Inr start_time else max_key id (map snd times)) (\<lambda>makespan.
         Inr (\<lparr>lat_batches = reports, lat_completion_s = times, lat_makespan_s = makespan\<rparr>, a1)))"

section \<open>Invariant\<close>

definition analyzer_ok :: "model_analyzer \<Rightarrow> bool" where
  "analyzer_ok ma \<longleftrightarrow> ma_config ma \<noteq> None \<and> wf_params (ma_params ma) \<and> ma_hardware ma \<in> fst ` set hardware_params"

definition role_analyzer :: "afd_analyzer \<Rightarrow> string \<Rightarrow> nat \<Rightarrow> model_analyzer" where
  "role_analyzer a role idx =
     (if role = ''attn'' then attention_analyzers a ! (idx mod length (attention_analyzers a))
      else ffn_analyzers a ! (idx mod length (ffn_analyzers a)))"

definition layer_times :: "afd_analyzer \<Rightarrow> layer_key \<Rightarrow> (real \<times> real) result" where
  "layer_times a key = (case key of (role, idx, s, b) \<Rightarrow>
     bind_result (decode_breakdown (role_analyzer a role idx) s b) (\<lambda>bd. Inr (bd_attention_s bd, bd_ffn_s bd)))"

text \<open>The memo table holds what the analyzer of the key returns, and the time lines are non-empty.\<close>

definition afd_ok :: "afd_analyzer \<Rightarrow> bool" where
  "afd_ok a \<longleftrightarrow> analyzer_ok (afd_model a) \<and> attention_analyzers a \<noteq> [] \<and> ffn_analyzers a \<noteq> [] \<and>
     list_all analyzer_ok (attention_analyzers a @ ffn_analyzers a) \<and> attn_states a \<noteq> [] \<and> ffn_states a \<noteq> [] \<and>
     0 < kv_bandwidth_bytes a \<and> 0 < activation_bandwidth_bytes a \<and> 0 \<le> afd_hidden_size a \<and> 0 \<le> afd_num_layers a \<and>
     (\<forall>key v. map_of (layer_time_cache a) key = Some v \<longrightarrow> layer_times a key = Inr v)"

lemma layer_times_cache [simp]: "layer_times (a\<lparr>layer_time_cache := c\<rparr>) = layer_times a"
  by (rule ext) (simp add: layer_times_def role_analyzer_def split_def)

lemma layer_times_states [simp]: "layer_times (a\<lparr>attn_states := x, ffn_states := y\<rparr>) = layer_times a"
  by (rule ext) (simp add: layer_times_def role_analyzer_def split_def)

lemma role_analyzer_ok: "afd_ok a \<Longrightarrow> analyzer_ok (role_analyzer a role idx)"
  by (auto simp: afd_ok_def role_analyzer_def list_all_iff)

lemma layer_times_total:
  assumes "afd_ok a" "0 < s" "0 < b"
  obtains v where "layer_times a (role, idx, s, b) = Inr v" "0 \<le> fst v" "0 \<le> snd v"
proof -
  let ?ma = "role_analyzer a role idx"
  let ?g = "\<lparr>aa_seqlen = s, aa_batchsize = b, aa_w_bit = 16, aa_a_bit = 16, aa_kv_bit = None, aa_tp_size = 1,
    aa_disable_attention = False, aa_disable_ffn = False\<rparr>"
  note ok = role_analyzer_ok[OF assms(1), of role idx, unfolded analyzer_ok_def]
  have g: "args_ok (ma_params ?ma) ?g" using assms(2,3) by (simp add: args_ok_def kv_bits_def)
  obtain bd where "analyze_decode_breakdown (ma_params ?ma) (ma_hardware ?ma) ?g = Inr bd"
    "0 \<le> bd_attention_s bd" "0 \<le> bd_ffn_s bd"
    by (rule breakdown_total[OF _ g]) (use ok in auto)
  then show ?thesis
    using ok assms(2,3) by (intro that[of "(bd_attention_s bd, bd_ffn_s bd)"]) (auto simp: layer_times_def decode_breakdown_def)
qed

lemma afd_ok_cache:
  "afd_ok a \<Longrightarrow> layer_times a key = Inr v \<Longrightarrow> afd_ok (a\<lparr>layer_time_cache := AList.update key v (layer_time_cache a)\<rparr>)"
  by (auto simp: afd_ok_def map_of_update split: if_splits)

lemma cache_self: "a\<lparr>layer_time_cache := layer_time_cache a\<rparr> = a"
  by simp

text \<open>The memo table is transparent: a lookup returns what the analyzer would compute.\<close>

lemma get_layer_times_spec:
  assumes "afd_ok a" "layer_times a (role, idx, s, b) = Inr v" "ma = role_analyzer a role idx"
  obtains c where "get_layer_times a s b ma role idx = Inr (v, a\<lparr>layer_time_cache := c\<rparr>)"
    "afd_ok (a\<lparr>layer_time_cache := c\<rparr>)"
proof (cases "map_of (layer_time_cache a) (role, idx, s, b)")
  case None
  obtain bd where "decode_breakdown ma s b = Inr bd" "v = (bd_attention_s bd, bd_ffn_s bd)"
    using assms(2,3) by (auto simp: layer_times_def bind_result_def split: sum.splits)
  then show ?thesis
    using None afd_ok_cache[OF assms(1,2)]
    by (intro that[of "AList.update (role, idx, s, b) v (layer_time_cache a)"]) (simp_all add: get_layer_times_def Let_def)
next
  case (Some w)
  then have "layer_times a (role, idx, s, b) = Inr w" using assms(1) unfolding afd_ok_def by blast
  then have "w = v" using assms(2) by simp
  then show ?thesis
    using Some assms(1) by (intro that[of "layer_time_cache a"]) (simp_all add: get_layer_times_def Let_def)
qed

lemma get_layer_times_raises:
  assumes "afd_ok a" "b \<le> 0"
  shows "get_layer_times a s b ma role idx = Inl (AssertionError [])"
proof -
  have "layer_times a (role, idx, s, b) = Inl (AssertionError [])"
    using assms(2) by (simp add: layer_times_def decode_breakdown_def)
  then have "map_of (layer_time_cache a) (role, idx, s, b) = None"
    using assms(1) unfolding afd_ok_def by (metis not_None_eq sum.distinct(1))
  then show ?thesis using assms(2) by (simp add: get_layer_times_def decode_breakdown_def)
qed

section \<open>FFN runs\<close>

definition ffn_time :: "afd_analyzer \<Rightarrow> nat \<Rightarrow> int \<Rightarrow> int \<Rightarrow> real" where
  "ffn_time a idx s b = snd (projr (layer_times a (''ffn'', idx, s, b)))"

text \<open>The reference: full runs and at most one remainder run.\<close>

definition ffn_batch_time :: "afd_analyzer \<Rightarrow> nat \<Rightarrow> int \<Rightarrow> int \<Rightarrow> real" where
  "ffn_batch_time a idx s n =
     of_int (n div ffn_max_batch_size a) * ffn_time a idx s (ffn_max_batch_size a) +
     (if n mod ffn_max_batch_size a = 0 then 0 else ffn_time a idx s (n mod ffn_max_batch_size a))"

lemma ffn_time_cache [simp]: "ffn_time (a\<lparr>layer_time_cache := c\<rparr>) = ffn_time a"
  by (simp add: ffn_time_def fun_eq_iff)

lemma ffn_batch_time_cache [simp]: "ffn_batch_time (a\<lparr>layer_time_cache := c\<rparr>) = ffn_batch_time a"
  by (simp add: ffn_batch_time_def fun_eq_iff)

lemma ffn_time_nonneg: "afd_ok a \<Longrightarrow> 0 < s \<Longrightarrow> 0 < b \<Longrightarrow> 0 \<le> ffn_time a idx s b"
  by (rule layer_times_total[of a s b "''ffn''" idx]) (auto simp: ffn_time_def)

lemma ffn_batch_time_nonneg:
  assumes "afd_ok a" "0 < s" "0 \<le> n" "0 < ffn_max_batch_size a"
  shows "0 \<le> ffn_batch_time a idx s n"
proof -
  have "n mod ffn_max_batch_size a = 0 \<or> 0 < n mod ffn_max_batch_size a"
    using assms(4) pos_mod_sign[of "ffn_max_batch_size a" n] by linarith
  then show ?thesis
    using ffn_time_nonneg[OF assms(1,2)] assms(3,4)
    by (auto simp: ffn_batch_time_def pos_imp_zdiv_nonneg_iff intro!: add_nonneg_nonneg mult_nonneg_nonneg)
qed

lemma get_ffn_layer_time_spec:
  assumes "afd_ok a" "0 < s" "0 < b"
  obtains c where "get_ffn_layer_time a idx s b = Inr (ffn_time a idx s b, a\<lparr>layer_time_cache := c\<rparr>)"
    "afd_ok (a\<lparr>layer_time_cache := c\<rparr>)"
proof -
  obtain v where v: "layer_times a (''ffn'', idx, s, b) = Inr v" by (rule layer_times_total[OF assms])
  show ?thesis
    by (rule get_layer_times_spec[OF assms(1) v, of "ffn_analyzers a ! (idx mod length (ffn_analyzers a))"])
      (auto simp: role_analyzer_def get_ffn_layer_time_def ffn_time_def v intro: that)
qed

lemma ffn_runs_spec:
  assumes "afd_ok a" "0 < s" "0 \<le> n" "0 < ffn_max_batch_size a"
  shows "\<exists>c. ffn_runs idx s n t a = Some (Inr (t + ffn_batch_time a idx s n, a\<lparr>layer_time_cache := c\<rparr>)) \<and>
    afd_ok (a\<lparr>layer_time_cache := c\<rparr>)"
  using assms
proof (induction "nat n" arbitrary: n t a rule: less_induct)
  case less
  let ?m = "ffn_max_batch_size a"
  show ?case
  proof (cases "n = 0")
    case True
    then show ?thesis using less.prems(1)
      by (intro exI[of _ "layer_time_cache a"]) (simp add: ffn_runs.simps[of _ _ 0] ffn_batch_time_def)
  next
    case False
    then have n: "0 < n" "0 < min n ?m" using less.prems(3,4) by auto
    obtain c where c: "get_ffn_layer_time a idx s (min n ?m) =
        Inr (ffn_time a idx s (min n ?m), a\<lparr>layer_time_cache := c\<rparr>)" "afd_ok (a\<lparr>layer_time_cache := c\<rparr>)"
      by (rule get_ffn_layer_time_spec[OF less.prems(1,2) n(2), of idx])
    have decr: "nat (n - min n ?m) < nat n" "0 \<le> n - min n ?m" using n by auto
    obtain c' where c': "ffn_runs idx s (n - min n ?m) (t + ffn_time a idx s (min n ?m)) (a\<lparr>layer_time_cache := c\<rparr>) =
        Some (Inr (t + ffn_time a idx s (min n ?m) + ffn_batch_time a idx s (n - min n ?m), a\<lparr>layer_time_cache := c'\<rparr>))"
      "afd_ok (a\<lparr>layer_time_cache := c'\<rparr>)"
      using less.hyps[OF decr(1) c(2) less.prems(2) decr(2), of "t + ffn_time a idx s (min n ?m)"] less.prems(4) by auto
    have "ffn_time a idx s (min n ?m) + ffn_batch_time a idx s (n - min n ?m) = ffn_batch_time a idx s n"
    proof (cases "n < ?m")
      case True
      then show ?thesis using n by (simp add: ffn_batch_time_def)
    next
      case False
      then have d: "n div ?m = (n - ?m) div ?m + 1" "(n - ?m) mod ?m = n mod ?m" "min n ?m = ?m"
        using less.prems(4) div_add_self2[of ?m "n - ?m"] by auto
      show ?thesis unfolding ffn_batch_time_def d by (simp add: algebra_simps)
    qed
    then show ?thesis
      using c c' n(1) by (intro exI[of _ c']) (simp add: ffn_runs.simps[of _ _ n] add.assoc)
  qed
qed

text \<open>
  \<open>_ffn_layer_time_for_batch\<close> always returns. With a positive maximal FFN batch size the time
  is that of the full runs and of one run for the remainder, computed through the memo table
  without changing it into an inconsistent one; with a maximal batch size of zero or less, for
  which its loop makes no progress, the analyzer's assertion is raised in the first run.
\<close>

theorem ffn_layer_time_for_batch_runs:
  assumes "afd_ok a" "0 < s" "0 < n"
  shows "if 0 < ffn_max_batch_size a
    then \<exists>c. ffn_layer_time_for_batch a s n idx = Inr (ffn_batch_time a idx s n, a\<lparr>layer_time_cache := c\<rparr>) \<and>
      afd_ok (a\<lparr>layer_time_cache := c\<rparr>)
    else ffn_layer_time_for_batch a s n idx = Inl (AssertionError [])"
proof (cases "0 < ffn_max_batch_size a")
  case True
  then show ?thesis
    using ffn_runs_spec[OF assms(1,2) _ True, of n idx 0] assms(3) by (auto simp: ffn_layer_time_for_batch_def)
next
  case False
  then show ?thesis
    using get_layer_times_raises[OF assms(1), of "min n (ffn_max_batch_size a)"] assms(3)
    by (simp add: ffn_layer_time_for_batch_def ffn_runs.simps[of _ _ n] get_ffn_layer_time_def)
qed

text \<open>Two attention instances and one FFN instance of the default model on H20 GPUs.\<close>

definition sample_analyzer :: model_analyzer where
  "sample_analyzer = \<lparr>ma_config = Some llama, ma_params = engine_fallback_params, ma_hardware = ''NVDA:H20''\<rparr>"

definition sample_afd :: afd_analyzer where
  "sample_afd = projr (AFDAnalyzer sample_analyzer 6 4 2 1 100 100 [] [])"

lemma AFDAnalyzer_ok:
  assumes "AFDAnalyzer ma n m i j kv act as fs = Inr a" "list_all analyzer_ok (ma # as @ fs)"
    "ma_config ma = Some llama"
  shows "afd_ok a" "attention_batch_size a = n" "ffn_max_batch_size a = m"
proof -
  note built = assms(1)[unfolded AFDAnalyzer_def Let_def config_value_def assms(3) llama_def, simplified]
  have fields: "afd_model a = ma" "kv_bandwidth_bytes a = max kv (1 / 10^6) * 10^9"
      "activation_bandwidth_bytes a = max act (1 / 10^6) * 10^9"
      "afd_hidden_size a = mp_hidden_size (ma_params ma)" "afd_num_layers a = mp_num_hidden_layers (ma_params ma)"
      "attn_states a \<noteq> []" "ffn_states a \<noteq> []" "layer_time_cache a = []"
      "attention_analyzers a = (if as = [] then replicate (nat (max 1 i)) ma else as)"
      "ffn_analyzers a = (if fs = [] then replicate (nat (max 1 j)) ma else fs)"
    unfolding built[symmetric] by simp_all
  have bw: "0 < max x (1 / 10^6) * (10::real)^9" for x by (simp add: less_max_iff_disj)
  have lists: "attention_analyzers a \<noteq> []" "ffn_analyzers a \<noteq> []"
      "list_all analyzer_ok (attention_analyzers a @ ffn_analyzers a)"
    using assms(2) unfolding fields by (auto simp: list_all_iff)
  have "wf_params (ma_params ma)" using assms(2) by (simp add: analyzer_ok_def)
  then show "afd_ok a"
    using assms(2) lists bw fields(6,7) unfolding afd_ok_def fields by (simp add: wf_params_def)
  show "attention_batch_size a = n" "ffn_max_batch_size a = m" unfolding built[symmetric] by simp_all
qed

lemma sample_analyzer_ok: "analyzer_ok sample_analyzer"
  by (simp add: analyzer_ok_def sample_analyzer_def wf_params_def engine_fallback_params_def hardware_params_def)

lemma sample_afd_ok: "afd_ok sample_afd" "attention_batch_size sample_afd = 6" "ffn_max_batch_size sample_afd = 4"
proof -
  have "AFDAnalyzer sample_analyzer 6 4 2 1 100 100 [] [] = Inr sample_afd"
    by (simp add: sample_afd_def AFDAnalyzer_def config_value_def sample_analyzer_def llama_def Let_def)
  note ok = AFDAnalyzer_ok[OF this]
  show "afd_ok sample_afd" "attention_batch_size sample_afd = 6" "ffn_max_batch_size sample_afd = 4"
    using ok sample_analyzer_ok by (simp_all add: sample_analyzer_def)
qed

theorem ffn_layer_time_for_batch_runs_witness:
  "afd_ok sample_afd \<and> (\<exists>c. ffn_layer_time_for_batch sample_afd 100 6 0 =
     Inr (ffn_time sample_afd 0 100 4 + ffn_time sample_afd 0 100 2, sample_afd\<lparr>layer_time_cache := c\<rparr>))"
  using ffn_layer_time_for_batch_runs[OF sample_afd_ok(1), of 100 6 0] sample_afd_ok
  by (auto simp: ffn_batch_time_def)

section \<open>One batch\<close>

text \<open>What placing a batch does to the time lines.\<close>

definition batch_placed ::
  "afd_analyzer \<Rightarrow> store \<Rightarrow> real \<Rightarrow> string list \<Rightarrow> batch_report \<Rightarrow> afd_analyzer \<Rightarrow> bool" where
  "batch_placed a st start batch rep a' \<longleftrightarrow>
     (let i = br_attention_instance rep; j = br_ffn_instance rep in
      i < length (attn_states a) \<and> (\<forall>k < length (attn_states a). attn_states a ! i \<le> attn_states a ! k) \<and>
      j < length (ffn_states a) \<and> (\<forall>k < length (ffn_states a). ffn_states a ! j \<le> ffn_states a ! k) \<and>
      br_start_time_s rep = max start (attn_states a ! i) \<and> br_start_time_s rep \<le> br_completion_time_s rep \<and>
      attn_states a' = (attn_states a)[i := br_completion_time_s rep] \<and>
      length (ffn_states a') = length (ffn_states a) \<and> ffn_states a ! j \<le> ffn_states a' ! j \<and>
      (\<forall>k < length (ffn_states a). k \<noteq> j \<longrightarrow> ffn_states a' ! k = ffn_states a ! k) \<and>
      br_request_ids rep = map (\<lambda>rid. req_id (st rid)) batch \<and> br_batch_size rep = int (length batch) \<and>
      attention_batch_size a' = attention_batch_size a \<and> ffn_max_batch_size a' = ffn_max_batch_size a)"

lemma earliest_instance_total:
  assumes "xs \<noteq> []"
  obtains i where "earliest_instance xs = Inr i" "i < length xs" "\<forall>k < length xs. xs ! i \<le> xs ! k"
proof -
  obtain i where i: "earliest_instance xs = Inr i"
    using min_key_total[of "[0..<length xs]" "\<lambda>i. xs ! i"] assms by (auto simp: earliest_instance_def)
  show ?thesis
    using min_key_Inr[OF i[unfolded earliest_instance_def]] by (intro that[OF i]) auto
qed

lemma kv_transfer_time_total:
  assumes "afd_ok a" obtains t where "kv_transfer_time a s = Inr t" "0 \<le> t"
proof -
  let ?mp = "ma_params (afd_model a)"
  have wf: "wf_params ?mp" "0 < kv_bandwidth_bytes a" using assms by (simp_all add: afd_ok_def analyzer_ok_def)
  have "0 \<le> mp_hidden_size ?mp div mp_num_attention_heads ?mp"
    using wf by (simp add: wf_params_def pos_imp_zdiv_nonneg_iff)
  then have "0 \<le> 2 * mp_num_hidden_layers ?mp * mp_num_key_value_heads ?mp *
      (mp_hidden_size ?mp div mp_num_attention_heads ?mp) * 2 * max s 1"
    using wf by (intro mult_nonneg_nonneg) (auto simp: wf_params_def)
  then have "0 \<le> real_of_int (2 * mp_num_hidden_layers ?mp * mp_num_key_value_heads ?mp *
      (mp_hidden_size ?mp div mp_num_attention_heads ?mp) * 2 * max s 1)" by (simp only: of_int_0_le_iff)
  note nn = divide_nonneg_pos[OF this wf(2)]
  show ?thesis
    by (rule that[OF _ nn]) (use wf in \<open>simp add: kv_transfer_time_def estimate_kv_bytes_def wf_params_def Let_def\<close>)
qed

lemma kv_times_total:
  assumes "afd_ok a" obtains ts where "map_result (kv_transfer_time a) ss = Inr ts" "0 \<le> sum_list ts"
proof -
  have "\<exists>ts. map_result (kv_transfer_time a) ss = Inr ts \<and> 0 \<le> sum_list ts"
  proof (induction ss)
    case (Cons s ss)
    then obtain ts where "map_result (kv_transfer_time a) ss = Inr ts" "0 \<le> sum_list ts" by blast
    moreover obtain t where "kv_transfer_time a s = Inr t" "0 \<le> t" by (rule kv_transfer_time_total[OF assms])
    ultimately show ?case by simp
  qed simp
  then show ?thesis using that by blast
qed

lemma activation_transfer_time_total:
  assumes "afd_ok a" "0 \<le> n" obtains t where "activation_transfer_time a n = Inr t" "0 \<le> t"
  using assms by (intro that[of "of_int (afd_hidden_size a * n * 2) / activation_bandwidth_bytes a"])
    (auto simp: activation_transfer_time_def afd_ok_def)

lemma get_attention_layer_time_spec:
  assumes "afd_ok a" "0 < s" "0 < b"
  obtains c t where "get_attention_layer_time a idx s b = Inr (t, a\<lparr>layer_time_cache := c\<rparr>)"
    "afd_ok (a\<lparr>layer_time_cache := c\<rparr>)" "0 \<le> t"
proof -
  obtain v where v: "layer_times a (''attn'', idx, s, b) = Inr v" "0 \<le> fst v" by (rule layer_times_total[OF assms])
  show ?thesis
    by (rule get_layer_times_spec[OF assms(1) v(1), of "attention_analyzers a ! (idx mod length (attention_analyzers a))"])
      (use v in \<open>auto simp: role_analyzer_def get_attention_layer_time_def intro: that\<close>)
qed

lemma afd_ok_states:
  "afd_ok a \<Longrightarrow> afd_ok (a\<lparr>attn_states := (attn_states a)[i := x], ffn_states := (ffn_states a)[j := y]\<rparr>)"
  by (simp add: afd_ok_def)

lemma max_seq_len_pos:
  assumes "batch \<noteq> []"
  obtains m where "max_key id (map (\<lambda>rid. seq_len_for_request (st rid)) batch) = Inr m" "0 < m"
proof -
  obtain m where m: "max_key id (map (\<lambda>rid. seq_len_for_request (st rid)) batch) = Inr m"
    using max_key_total[of "map (\<lambda>rid. seq_len_for_request (st rid)) batch" id] assms by auto
  show ?thesis using max_key_Inr(1)[OF m] by (intro that[OF m]) (auto simp: seq_len_for_request_def)
qed

lemma run_batch_spec:
  assumes ok: "afd_ok a" and ffn: "0 < ffn_max_batch_size a" and ne: "batch \<noteq> []"
  obtains rep a' where "run_batch a st start tokens batch = Inr (rep, a')" "batch_placed a st start batch rep a'"
    "afd_ok a'"
proof -
  let ?n = "int (length batch)"
  have n: "0 < ?n" "0 \<le> ?n" using ne by simp_all
  obtain i where i: "earliest_instance (attn_states a) = Inr i" "i < length (attn_states a)"
      "\<forall>k < length (attn_states a). attn_states a ! i \<le> attn_states a ! k"
    by (rule earliest_instance_total[of "attn_states a"]) (use ok in \<open>auto simp: afd_ok_def\<close>)
  obtain j where j: "earliest_instance (ffn_states a) = Inr j" "j < length (ffn_states a)"
      "\<forall>k < length (ffn_states a). ffn_states a ! j \<le> ffn_states a ! k"
    by (rule earliest_instance_total[of "ffn_states a"]) (use ok in \<open>auto simp: afd_ok_def\<close>)
  obtain m where m: "max_key id (map (\<lambda>rid. seq_len_for_request (st rid)) batch) = Inr m" "0 < m"
    by (rule max_seq_len_pos[OF ne])
  obtain ts where ts: "map_result (kv_transfer_time a) (map (\<lambda>rid. seq_len_for_request (st rid)) batch) = Inr ts"
      "0 \<le> sum_list ts" by (rule kv_times_total[OF ok])
  obtain c ta where c: "get_attention_layer_time a i m ?n = Inr (ta, a\<lparr>layer_time_cache := c\<rparr>)"
      "afd_ok (a\<lparr>layer_time_cache := c\<rparr>)" "0 \<le> ta" by (rule get_attention_layer_time_spec[OF ok m(2) n(1)])
  obtain c' where c': "ffn_runs j m ?n 0 (a\<lparr>layer_time_cache := c\<rparr>) =
        Some (Inr (ffn_batch_time a j m ?n, a\<lparr>layer_time_cache := c'\<rparr>))" "afd_ok (a\<lparr>layer_time_cache := c'\<rparr>)"
    using ffn_runs_spec[OF c(2) m(2) n(2), of j 0] ffn by auto
  obtain x where x: "activation_transfer_time (a\<lparr>layer_time_cache := c'\<rparr>) ?n = Inr x" "0 \<le> x"
    by (rule activation_transfer_time_total[OF c'(2) n(2)])
  let ?r = "run_batch a st start tokens batch" and ?f = "ffn_batch_time a j m ?n"
  note r = run_batch_def[of a st start tokens batch, unfolded Let_def i(1) m(1) ts(1) bind_result_Inr c(1)
      ffn_layer_time_for_batch_def prod.case, simplified, unfolded j(1) bind_result_Inr, simplified, unfolded c'(1), simplified, unfolded x(1), simplified]
  have f: "0 \<le> ?f" by (rule ffn_batch_time_nonneg[OF ok m(2) n(2) ffn])
  have L: "0 \<le> afd_num_layers a" using ok by (simp add: afd_ok_def)
  have time: "0 \<le> sum_list ts + (max ta (w + ?f) + 2 * x) * real_of_int (afd_num_layers a) * real_of_int (max tokens 1)"
    if "0 \<le> w" for w
    using ts(2) c(3) x(2) L by (intro add_nonneg_nonneg mult_nonneg_nonneg) auto
  have rep: "\<exists>rep a'. ?r = Inr (rep, a') \<and> batch_placed a st start batch rep a' \<and> afd_ok a'"
    unfolding r
    by (intro exI conjI, rule refl)
      (use i(2,3) j(2,3) f time[OF max.cobounded1] afd_ok_states[OF c'(2)] in
        \<open>simp_all add: batch_placed_def Let_def\<close>)
  then show ?thesis using that by blast
qed

lemma batch_placed_monotone:
  assumes "batch_placed a st start batch rep a'" "k < length (attn_states a)"
  shows "attn_states a ! k \<le> attn_states a' ! k"
  using assms by (cases "k = br_attention_instance rep") (auto simp: batch_placed_def Let_def)

text \<open>
  One pull of the cluster manager. On a consistent analyzer with positive batch sizes,
  \<open>schedule_next_batch\<close> takes the first requests of the wait list, as many as the attention batch
  size allows, in order, and leaves the others; it runs them on the attention instance that is
  free first and not before the start time; all of them complete at the time the report names,
  which is not before they start; that instance is busy until then, no other attention time line
  changes, and no FFN time line moves backwards.
\<close>

theorem schedule_next_batch_places:
  assumes "afd_ok a" "0 < attention_batch_size a" "0 < ffn_max_batch_size a" "waitlist \<noteq> []"
  shows "\<exists>res rest a'. schedule_next_batch a st waitlist start = Inr (Some res, rest, a') \<and> afd_ok a' \<and>
    ar_batch res @ rest = waitlist \<and> int (length (ar_batch res)) = min (attention_batch_size a) (int (length waitlist)) \<and>
    batch_placed a st start (ar_batch res) (ar_batch_report res) a' \<and>
    fst ` set (ar_completion_times res) = (\<lambda>rid. req_id (st rid)) ` set (ar_batch res) \<and>
    (\<forall>rid t. (rid, t) \<in> set (ar_completion_times res) \<longrightarrow> t = br_completion_time_s (ar_batch_report res) \<and> start \<le> t)"
proof -
  let ?b = "take (nat (attention_batch_size a)) waitlist"
  have ne: "?b \<noteq> []" using assms(2,4) by simp
  obtain out where out: "max_key id (map (\<lambda>rid. output_length (st rid)) ?b) = Inr out"
    using max_key_total[of "map (\<lambda>rid. output_length (st rid)) ?b" id] ne by auto
  obtain rep a' where r: "run_batch a st start out ?b = Inr (rep, a')" "batch_placed a st start ?b rep a'" "afd_ok a'"
    by (rule run_batch_spec[OF assms(1,3) ne])
  let ?res = "\<lparr>ar_batch = ?b, ar_batch_report = rep,
    ar_completion_times = dict_comp (br_request_ids rep) (\<lambda>_. br_completion_time_s rep)\<rparr>"
  have run: "schedule_next_batch a st waitlist start = Inr (Some ?res, drop (nat (attention_batch_size a)) waitlist, a')"
    using ne by (simp add: schedule_next_batch_def Let_def out r(1))
  have ids: "br_request_ids rep = map (\<lambda>rid. req_id (st rid)) ?b" "start \<le> br_completion_time_s rep"
    using r(2) by (auto simp: batch_placed_def Let_def)
  have times: "t = br_completion_time_s rep" if "(rid, t) \<in> set (dict_comp (br_request_ids rep) (\<lambda>_. br_completion_time_s rep))" for rid t
    using wf_dict_map_of[OF wf_dict_comp that] by (simp add: map_of_dict_comp split: if_splits)
  show ?thesis
    by (rule exI[of _ ?res], rule exI[of _ "drop (nat (attention_batch_size a)) waitlist"], rule exI[of _ a'])
      (use run r(2,3) ids times assms(2) in \<open>auto simp: keys_dict_comp\<close>)
qed

definition sample_requests :: store where
  "sample_requests rid = GenerationRequest rid ''m'' 100 8 0"

theorem schedule_next_batch_places_witness:
  "afd_ok sample_afd \<and> (\<exists>res rest a'.
     schedule_next_batch sample_afd sample_requests [''r1'', ''r2''] 3 = Inr (Some res, rest, a') \<and>
     ar_batch res = [''r1'', ''r2''] \<and> rest = [] \<and> 3 \<le> br_completion_time_s (ar_batch_report res))"
proof -
  obtain res rest a' where "schedule_next_batch sample_afd sample_requests [''r1'', ''r2''] 3 = Inr (Some res, rest, a')"
    "ar_batch res @ rest = [''r1'', ''r2'']" "int (length (ar_batch res)) = 2"
    "batch_placed sample_afd sample_requests 3 (ar_batch res) (ar_batch_report res) a'"
    using schedule_next_batch_places[OF sample_afd_ok(1), of "[''r1'', ''r2'']" sample_requests 3] sample_afd_ok by auto
  then show ?thesis
    using sample_afd_ok(1) by (auto simp: batch_placed_def Let_def append_eq_Cons_conv)
qed

section \<open>A list of requests\<close>

definition completions :: "batch_report list \<Rightarrow> (string \<times> real) list" where
  "completions reps = concat (map (\<lambda>r. map (\<lambda>rid. (rid, br_completion_time_s r)) (br_request_ids r)) reps)"

definition no_overlap :: "batch_report \<Rightarrow> batch_report \<Rightarrow> bool" where
  "no_overlap r r' \<longleftrightarrow> (br_attention_instance r = br_attention_instance r' \<longrightarrow> br_completion_time_s r \<le> br_start_time_s r')"

text \<open>The reports of the batches placed from analyzer \<open>a\<close> on.\<close>

definition latency_outcome ::
  "store \<Rightarrow> real \<Rightarrow> afd_analyzer \<Rightarrow> string list \<Rightarrow> batch_report list \<Rightarrow> bool" where
  "latency_outcome st start a wl new \<longleftrightarrow>
     concat (map br_request_ids new) = map (\<lambda>rid. req_id (st rid)) wl \<and> sorted_wrt no_overlap new \<and>
     (\<forall>r \<in> set new. br_batch_size r = int (length (br_request_ids r)) \<and> 0 < br_batch_size r \<and>
        br_batch_size r \<le> attention_batch_size a \<and> br_attention_instance r < length (attn_states a) \<and>
        max start (attn_states a ! br_attention_instance r) \<le> br_start_time_s r \<and>
        br_start_time_s r \<le> br_completion_time_s r)"

lemma latency_outcome_Cons:
  assumes p: "batch_placed a st start b rep a1" and o: "latency_outcome st start a1 wl new"
    and b: "b \<noteq> []" "int (length b) \<le> attention_batch_size a"
  shows "latency_outcome st start a (b @ wl) (rep # new)"
proof -
  note pl = p[unfolded batch_placed_def Let_def]
  have states: "attn_states a1 = (attn_states a)[br_attention_instance rep := br_completion_time_s rep]"
      "br_attention_instance rep < length (attn_states a)"
      "br_start_time_s rep = max start (attn_states a ! br_attention_instance rep)"
      "br_start_time_s rep \<le> br_completion_time_s rep"
    using pl by auto
  have mono: "attn_states a ! br_attention_instance r \<le> attn_states a1 ! br_attention_instance r \<and>
      br_attention_instance r < length (attn_states a)" if "r \<in> set new" for r
    using that o states batch_placed_monotone[OF p, of "br_attention_instance r"] by (auto simp: latency_outcome_def)
  have "no_overlap rep r" if "r \<in> set new" for r
    using bspec[OF o[unfolded latency_outcome_def, THEN conjunct2, THEN conjunct2] that] states by (auto simp: no_overlap_def)
  then have overlap: "sorted_wrt no_overlap (rep # new)" using o by (simp add: latency_outcome_def)
  have start: "max start (attn_states a ! br_attention_instance rep) \<le> br_start_time_s rep"
      "br_start_time_s rep \<le> br_completion_time_s rep" using states(3,4) by simp_all
  have sizes: "br_batch_size rep = int (length b)" "br_request_ids rep = map (\<lambda>rid. req_id (st rid)) b"
    using pl by auto
  have ids: "concat (map br_request_ids (rep # new)) = map (\<lambda>rid. req_id (st rid)) (b @ wl)"
    using o sizes by (simp add: latency_outcome_def)
  have first: "br_batch_size rep = int (length (br_request_ids rep))" "0 < br_batch_size rep"
      "br_batch_size rep \<le> attention_batch_size a" "br_attention_instance rep < length (attn_states a)"
      "max start (attn_states a ! br_attention_instance rep) \<le> br_start_time_s rep"
      "br_start_time_s rep \<le> br_completion_time_s rep"
    using states(2) start b by (simp_all only: sizes length_map of_nat_0_less_iff length_greater_0_conv simp_thms)
  have others: "br_batch_size r = int (length (br_request_ids r)) \<and> 0 < br_batch_size r \<and>
      br_batch_size r \<le> attention_batch_size a \<and> br_attention_instance r < length (attn_states a) \<and>
      max start (attn_states a ! br_attention_instance r) \<le> br_start_time_s r \<and>
      br_start_time_s r \<le> br_completion_time_s r" if r: "r \<in> set new" for r
  proof -
    have "attention_batch_size a1 = attention_batch_size a" using pl by simp
    moreover note bspec[OF o[unfolded latency_outcome_def, THEN conjunct2, THEN conjunct2] r]
    ultimately show ?thesis using mono[OF r] by linarith
  qed
  have "\<forall>r \<in> set (rep # new). br_batch_size r = int (length (br_request_ids r)) \<and> 0 < br_batch_size r \<and>
      br_batch_size r \<le> attention_batch_size a \<and> br_attention_instance r < length (attn_states a) \<and>
      max start (attn_states a ! br_attention_instance r) \<le> br_start_time_s r \<and>
      br_start_time_s r \<le> br_completion_time_s r"
    unfolding list.set ball_simps using first others by blast
  then show ?thesis unfolding latency_outcome_def using overlap ids by blast
qed

lemma fst_completions: "map fst (completions reps) = concat (map br_request_ids reps)"
  by (induction reps) (auto simp: completions_def comp_def)

lemma completions_values:
  "(\<And>r. r \<in> set reps \<Longrightarrow> 0 < length (br_request_ids r)) \<Longrightarrow>
   snd ` set (completions reps) = br_completion_time_s ` set reps"
proof (induction reps)
  case (Cons r reps)
  have "snd ` set (completions (r # reps)) =
      (\<lambda>_. br_completion_time_s r) ` set (br_request_ids r) \<union> snd ` set (completions reps)"
    by (simp add: completions_def image_Un image_image)
  moreover have "br_request_ids r \<noteq> []" using Cons.prems[of r] by auto
  ultimately show ?case using Cons by (simp add: image_constant_conv)
qed (simp add: completions_def)

lemma latency_loop_spec:
  assumes "afd_ok a" "0 < attention_batch_size a" "0 < ffn_max_batch_size a"
    "distinct (map fst tms @ map (\<lambda>rid. req_id (st rid)) wl)"
  shows "\<exists>new a'. latency_loop st start a wl reps tms = Inr (reps @ new, tms @ completions new, a') \<and>
    latency_outcome st start a wl new \<and> afd_ok a'"
  using assms
proof (induction st start a wl reps tms rule: latency_loop.induct)
  case (1 st start a wl reps tms)
  let ?k = "nat (attention_batch_size a)"
  show ?case
  proof (cases "take ?k wl = []")
    case True
    then show ?thesis using 1(3,2)
      by (intro exI[of _ "[]"] exI[of _ a]) (auto simp: latency_loop.simps completions_def latency_outcome_def)
  next
    case False
    obtain rep a1 where r: "run_batch a st start 1 (take ?k wl) = Inr (rep, a1)"
        "batch_placed a st start (take ?k wl) rep a1" "afd_ok a1"
      by (rule run_batch_spec[OF 1(2,4) False])
    have ids: "br_request_ids rep = map (\<lambda>rid. req_id (st rid)) (take ?k wl)"
        "attention_batch_size a1 = attention_batch_size a" "ffn_max_batch_size a1 = ffn_max_batch_size a"
      using r(2) by (auto simp: batch_placed_def Let_def)
    let ?tms = "tms @ map (\<lambda>rid. (rid, br_completion_time_s rep)) (br_request_ids rep)"
    have split: "map (\<lambda>rid. req_id (st rid)) wl = br_request_ids rep @ map (\<lambda>rid. req_id (st rid)) (drop ?k wl)"
      unfolding ids(1) by (simp flip: map_append)
    have d: "distinct (map fst tms @ br_request_ids rep @ map (\<lambda>rid. req_id (st rid)) (drop ?k wl))"
      using 1(5) by (simp only: split)
    then have upd: "foldl (\<lambda>d rid. AList.update rid (br_completion_time_s rep) d) tms (br_request_ids rep) = ?tms"
      by (intro foldl_update_distinct) auto
    have "distinct (map fst ?tms @ map (\<lambda>rid. req_id (st rid)) (drop ?k wl))" using d by (simp add: comp_def)
    then obtain new a' where n: "latency_loop st start a1 (drop ?k wl) (reps @ [rep]) ?tms =
        Inr ((reps @ [rep]) @ new, ?tms @ completions new, a')" "latency_outcome st start a1 (drop ?k wl) new" "afd_ok a'"
      using 1(1)[OF False, of a1 rep, unfolded upd] r(3) 1(3,4) ids(2,3) by auto
    have "latency_outcome st start a (take ?k wl @ drop ?k wl) (rep # new)"
      by (rule latency_outcome_Cons[OF r(2) n(2) False]) (use 1(3) in simp)
    then show ?thesis
      using n(1,3) False r(1) upd
      by (intro exI[of _ "rep # new"] exI[of _ a']) (simp add: latency_loop.simps[of _ _ _ wl] completions_def)
  qed
qed

text \<open>
  C40. \<open>analyze_decode_latency\<close> on distinct requests and a consistent analyzer with positive batch
  sizes: it returns; the reported batches split the requests, in order, into non-empty groups of
  at most the attention batch size; every request gets exactly one completion time, that of its
  batch; no batch starts before the start time or before its attention instance was free; two batches
  on one attention instance never overlap; and the makespan is the latest completion, or
  the start time when there is no request.
\<close>

theorem analyze_decode_latency_schedule:
  assumes "afd_ok a" "0 < attention_batch_size a" "0 < ffn_max_batch_size a"
    "distinct (map (\<lambda>rid. req_id (st rid)) requests)"
  shows "\<exists>rep a'. analyze_decode_latency a st requests start = Inr (rep, a') \<and> afd_ok a' \<and>
    latency_outcome st start a requests (lat_batches rep) \<and> lat_completion_s rep = completions (lat_batches rep) \<and>
    lat_makespan_s rep = (if requests = [] then start else Max (br_completion_time_s ` set (lat_batches rep)))"
proof -
  obtain new a' where n: "latency_loop st start a requests [] [] = Inr (new, completions new, a')"
      "latency_outcome st start a requests new" "afd_ok a'"
    using latency_loop_spec[OF assms(1-3), of "[]" st requests start "[]"] assms(4) by auto
  note out = n(2)[unfolded latency_outcome_def]
  have keys: "map fst (completions new) = map (\<lambda>rid. req_id (st rid)) requests" using out by (simp add: fst_completions)
  then have empty: "completions new = [] \<longleftrightarrow> requests = []" by (metis map_is_Nil_conv)
  have "0 < length (br_request_ids r)" if "r \<in> set new" for r using out that by auto
  note vals = completions_values[OF this]
  have max: "max_key id (map snd (completions new)) = Inr (Max (br_completion_time_s ` set new))" if "requests \<noteq> []"
  proof -
    have "map snd (completions new) \<noteq> []" using that empty by simp
    from max_key_total[OF this, of id] obtain m where m: "max_key id (map snd (completions new)) = Inr m" ..
    have "m \<in> br_completion_time_s ` set new" using max_key_Inr(1)[OF m] by (simp only: set_map vals)
    moreover have "t \<le> m" if "t \<in> br_completion_time_s ` set new" for t
      using max_key_Inr(2)[OF m, of t] that by (simp only: set_map vals id_apply)
    ultimately have "m = Max (br_completion_time_s ` set new)" by (intro Max_eqI[symmetric]) simp_all
    then show ?thesis using m by simp
  qed
  show ?thesis
  proof (cases "requests = []")
    case True
    then show ?thesis
      using n empty by (intro exI[of _ "\<lparr>lat_batches = new, lat_completion_s = completions new, lat_makespan_s = start\<rparr>"]
          exI[of _ a']) (simp add: analyze_decode_latency_def)
  next
    case False
    then show ?thesis
      using n empty max by (intro exI[of _ "\<lparr>lat_batches = new, lat_completion_s = completions new,
          lat_makespan_s = Max (br_completion_time_s ` set new)\<rparr>"] exI[of _ a']) (simp add: analyze_decode_latency_def)
  qed
qed

theorem analyze_decode_latency_schedule_witness:
  "afd_ok sample_afd \<and> (\<exists>rep a'. analyze_decode_latency sample_afd sample_requests [''r1'', ''r2'', ''r3''] 0 = Inr (rep, a') \<and>
     map fst (lat_completion_s rep) = [''r1'', ''r2'', ''r3''])"
proof -
  obtain rep a' where "analyze_decode_latency sample_afd sample_requests [''r1'', ''r2'', ''r3''] 0 = Inr (rep, a')"
      "latency_outcome sample_requests 0 sample_afd [''r1'', ''r2'', ''r3''] (lat_batches rep)"
      "lat_completion_s rep = completions (lat_batches rep)"
    using analyze_decode_latency_schedule[OF sample_afd_ok(1), of sample_requests "[''r1'', ''r2'', ''r3'']" 0]
      sample_afd_ok by (auto simp: sample_requests_def GenerationRequest_def)
  then show ?thesis
    using sample_afd_ok(1) by (auto simp: latency_outcome_def fst_completions sample_requests_def GenerationRequest_def)
qed

end
