(* ===== verification/Cluster_Manager.thy ===== *)
theory Cluster_Manager
  imports Placement Afd_Analyzer
begin

text \<open>
  The cluster manager of the simulator, \<open>src/scheduler/simulator/core/cluster_manager.py\<close>: the event
  handlers that move a request through arrival, placement, prefill, decode (on one engine, with
  separated prefill and decode engines, or through the disaggregated decode queue) and completion,
  node failures, and the main program \<open>run_simulation\<close>.

  The state of the manager is the record \<open>cluster\<close>; its event loop is passed beside it, as the
  event loop of \<open>Event_Loop\<close> passes it to handlers. Requests live in the store of
  \<open>Serving_Engine\<close>, so \<open>active_requests\<close> is the list of its keys. The callback that engines
  use, \<open>_handle_engine_event\<close>, only stamps an event with the clock and enqueues it; the clock does
  not move during a handler, so \<open>deliver\<close> enqueues what an engine call has put in the outbox, in
  order, right after the call. \<open>numpy.random\<close> and \<open>random\<close> are two tapes. \<open>md5\<close> and
  \<open>auto_config\<close> are parameters as in \<open>Serving_Engine\<close>. \<open>scheduler_config\<close> is taken as absent. Printing
  and \<open>get_results\<close>, which only collects figures, are not modelled.
\<close>

section \<open>State\<close>

record cluster_configuration =
  cluster_id :: string
  cc_nodes :: "node_configuration list"
  scheduler_algorithm :: string
  cc_afd_enabled :: bool
  cc_afd_attention_batch_size :: int
  cc_afd_ffn_max_batch_size :: int
  cc_afd_activation_bandwidth_gbps :: real

record cluster_metrics =
  m_total_requests :: int
  m_completed_requests :: int
  m_rejected_requests :: int
  m_cluster_utilization :: real
  m_average_latency :: real
  m_throughput :: real
  m_scheduler_decisions :: "(string, int) dict"
  m_node_failures :: int
  m_node_recoveries :: int

record rejection =
  rj_req_id :: string
  rj_model :: string
  rj_input_length :: int
  rj_output_length :: int
  rj_arrive_at :: real
  rj_prefill_node :: "string option"
  rj_decode_node :: "string option"
  rj_reason :: string

record cluster =
  cm_config :: cluster_configuration
  serving_engines :: engines
  online_nodes :: "string set"
  offline_nodes :: "string set"
  cm_scheduler :: placement_algorithm
  cm_active :: "string list"
  cm_completed :: "string list"
  cm_rejected :: "rejection list"
  request_counter :: nat
  metrics :: cluster_metrics
  start_time :: real
  cm_current_time :: real
  last_metrics_update :: real
  metrics_update_interval :: real
  cm_trace :: "trace_event list"
  afd_enabled :: bool
  afd_attention_nodes :: "string list"
  afd_ffn_nodes :: "string list"
  afd_waitlist :: "string list"
  cm_afd_analyzer :: "afd_analyzer option"
  afd_next_pull_at :: "real option"
  afd_requests_processed :: int
  afd_tokens_generated :: int
  afd_request_components :: "(string, real \<times> real) dict"
  cm_store :: store
  cm_rng :: rng
  cm_np_random :: rng

type_synonym sim_loop = "event_data event_loop"
type_synonym sim_handler = "(event_data, cluster) handler"

definition initial_metrics :: cluster_metrics where
  "initial_metrics = \<lparr>m_total_requests = 0, m_completed_requests = 0, m_rejected_requests = 0,
     m_cluster_utilization = 0, m_average_latency = 0, m_throughput = 0, m_scheduler_decisions = [],
     m_node_failures = 0, m_node_recoveries = 0\<rparr>"

text \<open>An engine per node, in the order of the configuration.\<close>

definition add_node ::
  "(string \<Rightarrow> model_params option) \<Rightarrow> bool \<Rightarrow> cluster \<Rightarrow> node_configuration \<Rightarrow> cluster result" where
  "add_node auto_config afd cl nc =
     bind_result (ServingEngine auto_config afd nc) (\<lambda>e.
       Inr (cl\<lparr>serving_engines := AList.update (node_id nc) (set_event_callback e) (serving_engines cl),
               online_nodes := insert (node_id nc) (online_nodes cl),
               afd_attention_nodes := (if nc_afd_attention nc then afd_attention_nodes cl @ [node_id nc] else afd_attention_nodes cl),
               afd_ffn_nodes := (if nc_afd_ffn nc then afd_ffn_nodes cl @ [node_id nc] else afd_ffn_nodes cl)\<rparr>))"

definition init_afd :: "cluster \<Rightarrow> cluster result" where
  "init_afd cl =
     (if \<not> afd_enabled cl then Inr cl
      else if afd_attention_nodes cl = [] \<or> afd_ffn_nodes cl = []
      then Inl (ValueError ''AFD mode requires at least one attention node and one FFN node'')
      else let attn_engine = eng (serving_engines cl) (hd (afd_attention_nodes cl));
               cfg = cm_config cl;
               analyzers = map (\<lambda>nid. model_analyzer_of (eng (serving_engines cl) nid))
           in bind_result (AFDAnalyzer (model_analyzer_of attn_engine) (cc_afd_attention_batch_size cfg)
                  (cc_afd_ffn_max_batch_size cfg) (int (length (afd_attention_nodes cl))) (int (length (afd_ffn_nodes cl)))
                  (kv_transfer_bandwidth_gbps attn_engine) (cc_afd_activation_bandwidth_gbps cfg)
                  (analyzers (afd_attention_nodes cl)) (analyzers (afd_ffn_nodes cl))) (\<lambda>a.
                Inr (cl\<lparr>cm_afd_analyzer := Some (afd_reset a)\<rparr>)))"

definition ClusterManager ::
  "(string \<Rightarrow> model_params option) \<Rightarrow> cluster_configuration \<Rightarrow> rng \<Rightarrow> rng \<Rightarrow> cluster result" where
  "ClusterManager auto_config cfg g np =
     bind_result (get_scheduler (scheduler_algorithm cfg)) (\<lambda>sch.
     bind_result (fold_result (add_node auto_config (cc_afd_enabled cfg))
       \<lparr>cm_config = cfg, serving_engines = [], online_nodes = {}, offline_nodes = {}, cm_scheduler = sch,
        cm_active = [], cm_completed = [], cm_rejected = [], request_counter = 0, metrics = initial_metrics,
        start_time = 0, cm_current_time = 0, last_metrics_update = 0, metrics_update_interval = 1, cm_trace = [],
        afd_enabled = cc_afd_enabled cfg, afd_attention_nodes = [], afd_ffn_nodes = [], afd_waitlist = [],
        cm_afd_analyzer = None, afd_next_pull_at = None, afd_requests_processed = 0, afd_tokens_generated = 0,
        afd_request_components = [], cm_store = (\<lambda>rid. GenerationRequest rid [] 0 0 0), cm_rng = g, cm_np_random = np\<rparr>
       (cc_nodes cfg)) init_afd)"

section \<open>Engine callbacks and bookkeeping\<close>

definition handle_engine_event :: "sim_loop \<Rightarrow> sim_event \<Rightarrow> sim_loop result" where
  "handle_engine_event el ev = schedule_event el (ev\<lparr>timestamp := current_time el\<rparr>)"

definition deliver :: "sim_loop \<Rightarrow> engine \<Rightarrow> (sim_loop \<times> engine) result" where
  "deliver el e = bind_result (fold_result handle_engine_event el (outbox e)) (\<lambda>el1. Inr (el1, e\<lparr>outbox := []\<rparr>))"

definition put_engine :: "string \<Rightarrow> engine \<Rightarrow> cluster \<Rightarrow> cluster" where
  "put_engine nid e cl = cl\<lparr>serving_engines := AList.update nid e (serving_engines cl)\<rparr>"

definition add_trace :: "trace_event \<Rightarrow> cluster \<Rightarrow> cluster" where
  "add_trace t cl = cl\<lparr>cm_trace := cm_trace cl @ [t]\<rparr>"

definition lifecycle_trace ::
  "(string \<Rightarrow> nat) \<Rightarrow> string \<Rightarrow> string \<Rightarrow> real \<Rightarrow> string \<Rightarrow> (string, trace_value) dict \<Rightarrow> trace_event" where
  "lifecycle_trace md5 name ph t rid args =
     \<lparr>te_name = name, te_cat = ''request_lifecycle'', te_ph = ph, te_pid = ''request_tracker'',
      te_tid = TStr ''lifecycle'', te_ts = py_int (t * 10^6), te_args = args, te_dur = None,
      te_cname = Some (get_request_color md5 rid)\<rparr>"

definition set_request :: "string \<Rightarrow> (generation_request \<Rightarrow> generation_request) \<Rightarrow> cluster \<Rightarrow> cluster" where
  "set_request rid f cl = cl\<lparr>cm_store := (cm_store cl)(rid := f (cm_store cl rid))\<rparr>"

definition schedule_engine_step :: "sim_loop \<Rightarrow> string \<Rightarrow> sim_loop result" where
  "schedule_engine_step el nid = schedule_event el (mk_event (current_time el) BATCH_FORM nid NoData HIGH)"

definition reject_request :: "(string \<Rightarrow> nat) \<Rightarrow> string \<Rightarrow> string \<Rightarrow> sim_loop \<Rightarrow> cluster \<Rightarrow> cluster result" where
  "reject_request md5 rid why el cl =
     (if rid \<notin> set (cm_active cl) then Inl (KeyError rid)
      else let r = cm_store cl rid;
               entry = \<lparr>rj_req_id = rid, rj_model = rq_model r, rj_input_length = input_length r,
                 rj_output_length = output_length r, rj_arrive_at = arrive_at r, rj_prefill_node = prefill_node r,
                 rj_decode_node = decode_node r, rj_reason = why\<rparr>;
               cl1 = cl\<lparr>cm_rejected := cm_rejected cl @ [entry], cm_active := remove1 rid (cm_active cl),
                 metrics := (metrics cl)\<lparr>m_rejected_requests := m_rejected_requests (metrics cl) + 1\<rparr>\<rparr>
           in Inr (add_trace (lifecycle_trace md5 ''RequestRejected'' ''E'' (current_time el) rid [(''reason'', TStr why)]) cl1))"

definition record_placement_decision :: "placement_decision \<Rightarrow> cluster \<Rightarrow> cluster" where
  "record_placement_decision d cl =
     cl\<lparr>metrics := (metrics cl)\<lparr>m_scheduler_decisions := AList.update (reason d)
       (dict_getd (m_scheduler_decisions (metrics cl)) (reason d) 0 + 1) (m_scheduler_decisions (metrics cl))\<rparr>\<rparr>"

definition cleanup_prefill_residuals :: "string \<Rightarrow> cluster \<Rightarrow> cluster result" where
  "cleanup_prefill_residuals rid cl =
     (case prefill_node (cm_store cl rid) of
        None \<Rightarrow> Inr cl
      | Some nid \<Rightarrow> if nid = [] then Inr cl
          else case map_of (serving_engines cl) nid of
            None \<Rightarrow> Inr cl
          | Some e \<Rightarrow>
              let e1 = e\<lparr>active_requests := active_requests e - {rid}, prefill_queue := remove1 rid (prefill_queue e),
                        current_prefill_request := (if current_prefill_request e = Some rid then None
                                                    else current_prefill_request e)\<rparr>
              in bind_result (release_request_allocation e1 rid) (\<lambda>e2. Inr (put_engine nid e2 cl)))"

section \<open>The disaggregated decode queue\<close>

definition schedule_next_afd_pull :: "real \<Rightarrow> sim_loop \<Rightarrow> cluster \<Rightarrow> (sim_loop \<times> cluster) result" where
  "schedule_next_afd_pull not_before el cl =
     (case cm_afd_analyzer cl of
        None \<Rightarrow> Inr (el, cl)
      | Some a \<Rightarrow>
          if \<not> afd_enabled cl \<or> afd_waitlist cl = [] then Inr (el, cl)
          else bind_result (next_attention_available_time a) (\<lambda>next_available.
            let t = max (max not_before next_available) (current_time el) in
            if (case afd_next_pull_at cl of None \<Rightarrow> False | Some p \<Rightarrow> p \<le> t) then Inr (el, cl)
            else bind_result (schedule_event el (mk_event t AFD_ATTENTION_PULL ''cluster_manager'' NoData HIGH)) (\<lambda>el1.
              Inr (el1, cl\<lparr>afd_next_pull_at := Some t\<rparr>))))"

definition enqueue_afd_request :: "(string \<Rightarrow> nat) \<Rightarrow> string \<Rightarrow> sim_loop \<Rightarrow> cluster \<Rightarrow> (sim_loop \<times> cluster) result" where
  "enqueue_afd_request md5 rid el cl =
     (if \<not> afd_enabled cl \<or> cm_afd_analyzer cl = None then Inr (el, cl)
      else let cl1 = cl\<lparr>afd_waitlist := afd_waitlist cl @ [rid]\<rparr>;
               tr = \<lparr>te_name = ''AFDEnqueue'', te_cat = ''afd'', te_ph = ''i'', te_pid = ''request_tracker'',
                 te_tid = TStr ''afd_queue'', te_ts = py_int (current_time el * 10^6),
                 te_args = [(''request_id'', TStr rid), (''queue_length'', TInt (int (length (afd_waitlist cl1))))],
                 te_dur = None, te_cname = Some (get_request_color md5 rid)\<rparr>
           in schedule_next_afd_pull (current_time el) el (add_trace tr cl1))"

definition afd_finish_request :: "string option \<Rightarrow> int \<Rightarrow> real \<Rightarrow> real \<Rightarrow> cluster \<Rightarrow> string \<Rightarrow> cluster" where
  "afd_finish_request nid max_output_len attn_total ffn_total cl rid =
     (let r = cm_store cl rid; share = of_int (output_length r) / of_int max_output_len in
      (set_request rid (\<lambda>r. r\<lparr>decode_node := nid, serving_node := nid, generated_tokens := output_length r\<rparr>) cl)
        \<lparr>afd_requests_processed := afd_requests_processed cl + 1,
         afd_tokens_generated := afd_tokens_generated cl + output_length r,
         afd_request_components := AList.update rid (attn_total * share, ffn_total * share) (afd_request_components cl)\<rparr>)"

definition schedule_completions :: "sim_loop \<Rightarrow> (string, real) dict \<Rightarrow> sim_loop result" where
  "schedule_completions el ts =
     fold_result (\<lambda>el (rid, t). schedule_event el (mk_event t REQUEST_COMPLETE ''cluster_manager'' (RequestIdData rid) HIGH)) el ts"

text \<open>The second half of \<open>_handle_afd_pull\<close>, for a batch that was scheduled.\<close>

definition finish_afd_batch :: "real \<Rightarrow> afd_result \<Rightarrow> sim_loop \<Rightarrow> cluster \<Rightarrow> (sim_loop \<times> cluster) result" where
  "finish_afd_batch t x el cl =
     (let rep = ar_batch_report x;
          i = br_attention_instance rep;
          nid = (if i < length (afd_attention_nodes cl) then Some (afd_attention_nodes cl ! i) else None);
          max_output_len = max (br_max_output_len rep) 1;
          depth = of_int (br_num_layers rep) * of_int max_output_len;
          attn_total = br_attention_layer_time_s rep * depth;
          ffn_total = (br_ffn_layer_time_s rep + br_ffn_wait_s rep) * depth;
          cl1 = foldl (afd_finish_request nid max_output_len attn_total ffn_total) cl (ar_batch x)
      in bind_result (schedule_completions el (ar_completion_times x)) (\<lambda>el1.
           if afd_waitlist cl1 = [] then Inr (el1, cl1) else schedule_next_afd_pull t el1 cl1))"

definition handle_afd_pull :: sim_handler where
  "handle_afd_pull ev el cl0 =
     (let cl = cl0\<lparr>afd_next_pull_at := None\<rparr> in
      case cm_afd_analyzer cl of
        None \<Rightarrow> Inr (el, cl)
      | Some a \<Rightarrow>
          if \<not> afd_enabled cl \<or> afd_waitlist cl = [] then Inr (el, cl)
          else bind_result (schedule_next_batch a (cm_store cl) (afd_waitlist cl) (timestamp ev)) (\<lambda>(res, rest, a1).
            let cl1 = cl\<lparr>cm_afd_analyzer := Some a1, afd_waitlist := rest\<rparr> in
            case res of
              None \<Rightarrow> Inr (el, cl1)
            | Some x \<Rightarrow> finish_afd_batch (timestamp ev) x el cl1))"

section \<open>Arrival and placement\<close>

definition handle_request_arrival :: "(string \<Rightarrow> nat) \<Rightarrow> sim_handler" where
  "handle_request_arrival md5 ev el cl =
     (case data ev of
        ArrivalData rid model inl outl \<Rightarrow>
          let cl1 = cl\<lparr>cm_store := (cm_store cl)(rid := GenerationRequest rid model inl outl (timestamp ev)),
                 cm_active := (if rid \<in> set (cm_active cl) then cm_active cl else cm_active cl @ [rid]),
                 metrics := (metrics cl)\<lparr>m_total_requests := m_total_requests (metrics cl) + 1\<rparr>\<rparr>;
              cl2 = add_trace (lifecycle_trace md5 ''RequestArrival'' ''B'' (timestamp ev) rid
                 [(''request_id'', TStr rid), (''model'', TStr model), (''input_length'', TInt inl), (''output_length'', TInt outl)]) cl1
          in bind_result (schedule_event el (mk_event (timestamp ev) PLACEMENT_DECISION ''cluster_manager''
                 (PlacementData rid ''prefill'') MEDIUM)) (\<lambda>el1. Inr (el1, cl2))
      | _ \<Rightarrow> Inl (KeyError ''request_id''))"

definition pd_mode :: "cluster \<Rightarrow> bool" where
  "pd_mode cl \<longleftrightarrow> list_ex (\<lambda>(nid, e). nid \<in> online_nodes cl \<and> pd_separation e) (serving_engines cl)"

definition available_engines :: "(engine \<Rightarrow> bool) \<Rightarrow> cluster \<Rightarrow> string list" where
  "available_engines P cl = map fst (filter (\<lambda>(nid, e). nid \<in> online_nodes cl \<and> P e) (serving_engines cl))"

definition candidates :: "string \<Rightarrow> cluster \<Rightarrow> string list" where
  "candidates phase cl =
     available_engines (\<lambda>e. \<not> pd_mode cl \<or> (if phase = ''prefill'' then pd_prefill_only e else pd_decode_only e)) cl"

definition data_phase :: "event_data \<Rightarrow> string" where
  "data_phase d = (case d of PlacementData _ phase \<Rightarrow> phase | _ \<Rightarrow> ''prefill'')"

text \<open>Hand the request to the chosen engine; on success note the node, for a decode placement after removing the request from its prefill engine.\<close>

definition place_on ::
  "string \<Rightarrow> string \<Rightarrow> string \<Rightarrow> sim_loop \<Rightarrow> cluster \<Rightarrow> (bool \<times> sim_loop \<times> cluster) result" where
  "place_on phase rid nid el cl =
     (let e = eng (serving_engines cl) nid in
      bind_result (if phase = ''prefill'' then add_request e (cm_store cl) rid
                   else add_decode_ready_request e (cm_store cl) rid (current_time el)) (\<lambda>(success, e1, st1).
      bind_result (deliver el e1) (\<lambda>(el1, e2).
        let cl1 = (put_engine nid e2 cl)\<lparr>cm_store := st1\<rparr> in
        if \<not> success then Inr (False, el1, cl1)
        else if phase = ''prefill'' then Inr (True, el1, set_request rid (\<lambda>r. r\<lparr>prefill_node := Some (engine_id e)\<rparr>) cl1)
        else bind_result (cleanup_prefill_residuals rid cl1) (\<lambda>cl2.
          Inr (True, el1, set_request rid (\<lambda>r. r\<lparr>decode_node := Some (engine_id e), serving_node := Some (engine_id e)\<rparr>) cl2)))))"

definition commit_placement ::
  "(string \<Rightarrow> nat) \<Rightarrow> string \<Rightarrow> string \<Rightarrow> placement_decision \<Rightarrow> sim_loop \<Rightarrow> cluster \<Rightarrow> (sim_loop \<times> cluster) result" where
  "commit_placement md5 phase rid d el cl =
     (let cl1 = add_trace (lifecycle_trace md5 ''RequestScheduled'' ''I'' (current_time el) rid
            [(''request_id'', TStr rid), (''target_engine'', TStr (target_engine d)), (''placement_reason'', TStr (reason d)),
             (''phase'', TStr phase), (''estimated_latency'', TNone)]) (record_placement_decision d cl)
      in bind_result (schedule_engine_step el (target_engine d)) (\<lambda>el1. Inr (el1, cl1)))"

definition handle_placement_decision :: "(string \<Rightarrow> nat) \<Rightarrow> sim_handler" where
  "handle_placement_decision md5 ev el cl =
     (case data_request_id (data ev) of
        None \<Rightarrow> Inl (KeyError ''request_id'')
      | Some rid \<Rightarrow>
          let phase = data_phase (data ev);
              reject = (\<lambda>why el cl. bind_result (reject_request md5 rid why el cl) (\<lambda>cl'. Inr (el, cl')))
          in if rid \<notin> set (cm_active cl) then Inr (el, cl)
          else if phase \<noteq> ''prefill'' \<and> afd_enabled cl
          then bind_result (cleanup_prefill_residuals rid cl) (enqueue_afd_request md5 rid el)
          else if candidates phase cl = []
          then reject (if phase = ''prefill'' then ''no_prefill_engine_available'' else ''no_decode_engine_available'') el cl
          else bind_result (place_request (cm_scheduler cl) (cm_store cl rid) (serving_engines cl) (candidates phase cl) (cm_rng cl))
            (\<lambda>(decision, sch, es, g).
              let cl1 = cl\<lparr>cm_scheduler := sch, serving_engines := es, cm_rng := g\<rparr> in
              case decision of
                None \<Rightarrow> reject ''no_suitable_engine'' el cl1
              | Some d \<Rightarrow> bind_result (place_on phase rid (target_engine d) el cl1) (\<lambda>(success, el2, cl2).
                  if success then commit_placement md5 phase rid d el2 cl2 else reject ''engine_rejection'' el2 cl2)))"

section \<open>Completion, nodes and engine steps\<close>

definition handle_request_complete :: "(string \<Rightarrow> nat) \<Rightarrow> sim_handler" where
  "handle_request_complete md5 ev el cl =
     (case data_request_id (data ev) of
        None \<Rightarrow> Inl (KeyError ''request_id'')
      | Some rid \<Rightarrow>
          if rid \<notin> set (cm_active cl) then Inr (el, cl)
          else let r = cm_store cl rid;
                   cl1 = (set_request rid (set_generation_finished_at (timestamp ev)) cl)
                     \<lparr>cm_completed := cm_completed cl @ [rid], cm_active := remove1 rid (cm_active cl),
                      metrics := (metrics cl)\<lparr>m_completed_requests := m_completed_requests (metrics cl) + 1\<rparr>\<rparr>
               in Inr (el, add_trace (lifecycle_trace md5 ''RequestComplete'' ''E'' (timestamp ev) rid
                    [(''request_id'', TStr rid), (''total_time'', TReal (timestamp ev - arrive_at r)),
                     (''tokens_generated'', TInt (generated_tokens r))]) cl1))"

definition handle_node_online :: sim_handler where
  "handle_node_online ev el cl =
     (case data ev of
        NodeData nid \<Rightarrow>
          if nid \<in> offline_nodes cl
          then Inr (el, cl\<lparr>offline_nodes := offline_nodes cl - {nid}, online_nodes := insert nid (online_nodes cl),
                 metrics := (metrics cl)\<lparr>m_node_recoveries := m_node_recoveries (metrics cl) + 1\<rparr>\<rparr>)
          else Inr (el, cl)
      | _ \<Rightarrow> Inl (KeyError ''node_id''))"

definition rebalance_requests :: "string option \<Rightarrow> sim_loop \<Rightarrow> cluster \<Rightarrow> (sim_loop \<times> cluster) result" where
  "rebalance_requests failed el cl =
     (case failed of
        None \<Rightarrow> Inr (el, cl)
      | Some nid \<Rightarrow> if nid = [] then Inr (el, cl)
          else case map_of (serving_engines cl) nid of
            None \<Rightarrow> Inr (el, cl)
          | Some e \<Rightarrow> bind_result (fold_result (\<lambda>el rid. schedule_event el (mk_event (current_time el) PLACEMENT_DECISION
                 ''cluster_manager'' (PlacementData rid ''prefill'') MEDIUM)) el (request_queue e)) (\<lambda>el1.
               Inr (el1, put_engine nid (e\<lparr>request_queue := []\<rparr>) cl)))"

definition handle_node_offline :: sim_handler where
  "handle_node_offline ev el cl =
     (case data ev of
        NodeData nid \<Rightarrow>
          if nid \<in> online_nodes cl
          then rebalance_requests (Some nid) el
                 (cl\<lparr>online_nodes := online_nodes cl - {nid}, offline_nodes := insert nid (offline_nodes cl),
                     metrics := (metrics cl)\<lparr>m_node_failures := m_node_failures (metrics cl) + 1\<rparr>\<rparr>)
          else Inr (el, cl)
      | _ \<Rightarrow> Inl (KeyError ''node_id''))"

definition handle_load_balance :: sim_handler where
  "handle_load_balance ev el cl = rebalance_requests None el cl"

definition handle_prefill_complete :: "(string \<Rightarrow> nat) \<Rightarrow> sim_handler" where
  "handle_prefill_complete md5 ev el cl =
     (case data_request_id (data ev) of
        None \<Rightarrow> Inr (el, cl)
      | Some rid \<Rightarrow> if rid = [] then Inr (el, cl)
          else case map_of (serving_engines cl) (target ev) of
            None \<Rightarrow> Inr (el, cl)
          | Some e \<Rightarrow>
              if rid \<notin> set (cm_active cl) then Inr (el, cl)
              else if afd_enabled cl then bind_result (cleanup_prefill_residuals rid cl) (enqueue_afd_request md5 rid el)
              else if \<not> pd_separation e then Inr (el, cl)
              else bind_result (schedule_event el (mk_event (timestamp ev) PLACEMENT_DECISION ''cluster_manager''
                     (PlacementData rid ''decode'') MEDIUM)) (\<lambda>el1. Inr (el1, cl)))"

definition schedule_engine_events :: "sim_loop \<Rightarrow> sim_event list \<Rightarrow> sim_loop result" where
  "schedule_engine_events el evs =
     fold_result (\<lambda>el ev. schedule_event el
       (if timestamp ev < current_time el then ev\<lparr>timestamp := current_time el\<rparr> else ev)) el evs"

definition has_pending_work :: "engine \<Rightarrow> bool" where
  "has_pending_work e \<longleftrightarrow> prefill_queue e \<noteq> [] \<or> current_prefill_request e \<noteq> None \<or> decode_ready_requests e \<noteq> [] \<or>
     (case current_decode_batch e of None \<Rightarrow> False | Some b \<Rightarrow> \<not> batch_is_empty b)"

definition handle_batch_form :: sim_handler where
  "handle_batch_form ev el cl =
     (case map_of (serving_engines cl) (target ev) of
        None \<Rightarrow> Inr (el, cl)
      | Some e \<Rightarrow>
          bind_result (engine_step (Some (current_time el)) e (cm_store cl)) (\<lambda>(evs, e1, st1).
          bind_result (deliver el e1) (\<lambda>(el1, e2).
          bind_result (schedule_engine_events el1 evs) (\<lambda>el2.
            let cl1 = (put_engine (target ev) e2 cl)\<lparr>cm_store := st1\<rparr> in
            if \<not> has_pending_work e2 then Inr (el2, cl1)
            else let next_step = max (time_cursor e2) (current_time el2);
                     next_step_time = (if next_step \<le> current_time el2 then current_time el2 + 1 / 10^6 else next_step)
                 in bind_result (schedule_event el2 (mk_event next_step_time BATCH_FORM (target ev) NoData HIGH)) (\<lambda>el3.
                      Inr (el3, cl1))))))"

text \<open>\<open>_handle_prefill_start\<close>, \<open>_handle_decode_step\<close>, \<open>_handle_memory_check\<close>, \<open>_handle_model_load\<close> and \<open>_handle_model_unload\<close> do nothing.\<close>

definition handle_nothing :: sim_handler where
  "handle_nothing ev el cl = Inr (el, cl)"

definition register_event_handlers :: "(string \<Rightarrow> nat) \<Rightarrow> (event_type, sim_handler) dict" where
  "register_event_handlers md5 =
     foldl (\<lambda>hs (t, h). register_handler hs t h) []
       [(REQUEST_ARRIVAL, handle_request_arrival md5), (PLACEMENT_DECISION, handle_placement_decision md5),
        (NODE_ONLINE, handle_node_online), (NODE_OFFLINE, handle_node_offline),
        (REQUEST_COMPLETE, handle_request_complete md5), (LOAD_BALANCE, handle_load_balance),
        (PREFILL_START, handle_nothing), (PREFILL_COMPLETE, handle_prefill_complete md5),
        (DECODE_STEP, handle_nothing), (BATCH_FORM, handle_batch_form), (MEMORY_CHECK, handle_nothing),
        (MODEL_LOAD, handle_nothing), (MODEL_UNLOAD, handle_nothing), (AFD_ATTENTION_PULL, handle_afd_pull)]"

section \<open>The simulation\<close>

definition engine_used_memory :: "string \<times> engine \<Rightarrow> (real \<times> string \<times> engine) result" where
  "engine_used_memory ne = bind_result (get_memory_info (snd ne)) (\<lambda>(mi, e1). Inr (mi_used mi, fst ne, e1))"

definition computed_metrics :: "sim_loop \<Rightarrow> cluster \<Rightarrow> real \<Rightarrow> cluster_metrics" where
  "computed_metrics el cl used_memory =
     (let total_gpu_memory = sum_list (map (\<lambda>(nid, e). hw_vmemory (en_spec e)) (serving_engines cl));
          latencies = concat (map (\<lambda>rid. case generation_finished_at (cm_store cl rid) of
            None \<Rightarrow> [] | Some t \<Rightarrow> [t - arrive_at (cm_store cl rid)]) (cm_completed cl));
          elapsed_time = current_time el - start_time cl;
          m = metrics cl
      in m\<lparr>m_cluster_utilization := (if 0 < total_gpu_memory then used_memory / total_gpu_memory else 0),
           m_average_latency := (if cm_completed cl = [] then m_average_latency m
             else if latencies = [] then 0 else sum_list latencies / of_nat (length latencies)),
           m_throughput := (if 0 < elapsed_time then of_nat (length (cm_completed cl)) / elapsed_time else m_throughput m)\<rparr>)"

definition update_metrics :: "sim_loop \<Rightarrow> cluster \<Rightarrow> cluster result" where
  "update_metrics el cl =
     (if current_time el - last_metrics_update cl < metrics_update_interval cl then Inr cl
      else bind_result (map_result engine_used_memory (serving_engines cl)) (\<lambda>used.
         Inr (cl\<lparr>serving_engines := map snd used, metrics := computed_metrics el cl (sum_list (map fst used)),
                 last_metrics_update := current_time el\<rparr>)))"

text \<open>\<open>np.random.randint(lo, hi)\<close>\<close>

definition np_randint :: "int \<Rightarrow> int \<Rightarrow> rng \<Rightarrow> int \<times> rng" where
  "np_randint lo hi g = (case rng_next g of (n, g1) \<Rightarrow> (lo + int n mod (hi - lo), g1))"

definition request_name :: "nat \<Rightarrow> string" where
  "request_name n = ''req_'' @ show_nat n"

definition schedule_arrival :: "sim_loop \<times> cluster \<Rightarrow> real \<Rightarrow> (sim_loop \<times> cluster) result" where
  "schedule_arrival s t = (case s of (el, cl) \<Rightarrow>
     let n = request_counter cl + 1;
         (inl, g1) = np_randint 128 2048 (cm_np_random cl);
         (outl, g2) = np_randint 32 512 g1
     in case cc_nodes (cm_config cl) of
          [] \<Rightarrow> Inl IndexError
        | nc # _ \<Rightarrow> bind_result (schedule_event el (mk_event t REQUEST_ARRIVAL ''cluster_manager''
              (ArrivalData (request_name n) (nc_model_id nc) inl outl) MEDIUM)) (\<lambda>el1.
            Inr (el1, cl\<lparr>request_counter := n, cm_np_random := g2\<rparr>)))"

text \<open>\<open>arrivals\<close> are the times that the arrival process generates.\<close>

definition schedule_request_arrivals :: "real list \<Rightarrow> sim_loop \<Rightarrow> cluster \<Rightarrow> (sim_loop \<times> cluster) result" where
  "schedule_request_arrivals arrivals el cl = fold_result schedule_arrival (el, cl) arrivals"

definition simulate_node_failure :: "string \<Rightarrow> real \<Rightarrow> real \<Rightarrow> sim_loop \<Rightarrow> sim_loop result" where
  "simulate_node_failure nid failure_time recovery_time el =
     bind_result (schedule_event el (mk_event failure_time NODE_OFFLINE ''cluster_manager'' (NodeData nid) HIGHEST)) (\<lambda>el1.
       schedule_event el1 (mk_event recovery_time NODE_ONLINE ''cluster_manager'' (NodeData nid) HIGHEST))"

function schedule_balancing :: "real \<Rightarrow> real \<Rightarrow> sim_loop \<Rightarrow> sim_loop result" where
  "schedule_balancing t duration el =
     (if t < duration
      then bind_result (schedule_event el (mk_event t LOAD_BALANCE ''cluster_manager'' NoData LOW))
             (schedule_balancing (t + 10) duration)
      else Inr el)"
  by pat_completeness auto
termination
  by (relation "measure (\<lambda>(t, duration, el). nat \<lceil>duration - t\<rceil>)") (auto simp: nat_less_eq_zless ceiling_less_iff, linarith)

declare schedule_balancing.simps [simp del]

definition prepare_simulation :: "real list \<Rightarrow> real \<Rightarrow> bool \<Rightarrow> sim_loop \<Rightarrow> cluster \<Rightarrow> (sim_loop \<times> cluster) result" where
  "prepare_simulation arrivals duration enable_failures el cl0 =
     bind_result (schedule_request_arrivals arrivals el (cl0\<lparr>start_time := 0, cm_current_time := 0\<rparr>)) (\<lambda>(el1, cl).
     bind_result (schedule_balancing 10 duration el1) (\<lambda>el2.
     if enable_failures \<and> 1 < length (cc_nodes (cm_config cl))
     then bind_result (simulate_node_failure (node_id (hd (cc_nodes (cm_config cl)))) (duration * (3 / 10)) (duration * (5 / 10)) el2)
            (\<lambda>el3. Inr (el3, cl))
     else Inr (el2, cl)))"

definition run_simulation ::
  "(string \<Rightarrow> nat) \<Rightarrow> real list \<Rightarrow> real \<Rightarrow> bool \<Rightarrow> sim_loop \<Rightarrow> cluster \<Rightarrow> (sim_loop \<times> cluster) result option" where
  "run_simulation md5 arrivals duration enable_failures el cl =
     (case prepare_simulation arrivals duration enable_failures el cl of
        Inl err \<Rightarrow> Some (Inl err)
      | Inr (el1, cl1) \<Rightarrow>
          map_option (\<lambda>r. bind_result r (\<lambda>(el2, cl2).
              bind_result (update_metrics el2 (cl2\<lparr>cm_current_time := current_time el2\<rparr>)) (\<lambda>cl3. Inr (el2, cl3))))
            (run (register_event_handlers md5) (Fin (duration * 10)) (Some 100000) el1 cl1))"

definition update_engine_timing :: "real \<Rightarrow> cluster \<Rightarrow> cluster" where
  "update_engine_timing t cl = cl\<lparr>serving_engines := map (\<lambda>(nid, e). (nid, set_current_time t e)) (serving_engines cl)\<rparr>"

definition set_node_pd_role :: "string \<Rightarrow> bool option \<Rightarrow> bool option \<Rightarrow> cluster \<Rightarrow> cluster" where
  "set_node_pd_role nid prefill decode cl =
     (case map_of (serving_engines cl) nid of
        None \<Rightarrow> cl | Some e \<Rightarrow> put_engine nid (set_pd_role prefill decode e) cl)"

end
