(* ===== verification/Cluster_Accounting.thy ===== *)
theory Cluster_Accounting
  imports Cluster_Manager
begin

text \<open>
  The cluster manager loses no request. Every id of a generated request is, at any time, in
  exactly one place: a pending arrival event, the active requests, the completed or the rejected
  ones. The argument has three parts: engines emit no arrival events (\<open>quiet\<close>), handlers only
  add events to the loop and add no arrivals (\<open>extends\<close>), and each handler moves at most one id
  (\<open>accounts\<close>). It is lifted to whole runs through the trace relation of \<open>Event_Loop\<close>.
\<close>

section \<open>Engines do not emit arrivals\<close>

definition quiet :: "engine \<Rightarrow> engine \<Rightarrow> bool" where
  "quiet e e' \<longleftrightarrow> (\<forall>ev \<in> set (outbox e'). ev \<in> set (outbox e) \<or> ev_type ev \<noteq> REQUEST_ARRIVAL)"

lemma quiet_refl: "quiet e e"
  by (simp add: quiet_def)

lemma quiet_trans: "quiet e e1 \<Longrightarrow> quiet e1 e2 \<Longrightarrow> quiet e e2"
  by (auto simp: quiet_def)

lemma quiet_outbox: "outbox e' = outbox e \<Longrightarrow> quiet e e'"
  by (simp add: quiet_def)

lemma quiet_cong: "outbox e1 = outbox e \<Longrightarrow> quiet e1 e2 \<Longrightarrow> quiet e e2"
  by (simp add: quiet_def)

lemma quiet_to: "quiet e e1 \<Longrightarrow> outbox e' = outbox e1 \<Longrightarrow> quiet e e'"
  by (simp add: quiet_def)

lemma quiet_call_back: "ev_type ev \<noteq> REQUEST_ARRIVAL \<Longrightarrow> quiet e (call_back ev e)"
  by (auto simp: quiet_def call_back_def)

lemma outbox_refresh [simp]: "outbox (refresh_memory_usage e) = outbox e" "outbox (note_peak e) = outbox e"
  by (simp_all add: refresh_memory_usage_def note_peak_def split: option.split)

lemma quiet_load_model: "quiet e (snd (load_model e))"
  by (auto simp: load_model_def emit_event_def call_back_def mk_event_def quiet_def Let_def)

lemma quiet_can_accommodate: "can_accommodate_request e r = Inr (ok, e') \<Longrightarrow> quiet e e'"
  using quiet_load_model[of e]
  by (auto simp: can_accommodate_request_def split_def Let_def bind_result_eq_Inr split: if_splits)

lemma outbox_allocate_in: "allocate_in e r = Inr e' \<Longrightarrow> outbox e' = outbox e"
  by (auto simp: allocate_in_def bind_result_eq_Inr split: option.splits if_splits)

lemma outbox_set_current_time [simp]: "outbox (set_current_time t e) = outbox e"
  by (simp add: set_current_time_def Let_def)

lemma quiet_add_request: "add_request e st rid = Inr (ok, e', st') \<Longrightarrow> quiet e e'"
  by (auto simp: add_request_def bind_result_eq_Inr quiet_refl split: if_splits
      dest!: quiet_can_accommodate outbox_allocate_in elim: quiet_to)

lemma quiet_add_decode_ready: "add_decode_ready_request e st rid t = Inr (ok, e', st') \<Longrightarrow> quiet e e'"
  by (auto simp: add_decode_ready_request_def bind_result_eq_Inr quiet_refl Let_def split: if_splits
      dest!: quiet_can_accommodate outbox_allocate_in elim: quiet_to)

lemma quiet_start_next_prefill:
  assumes "start_next_prefill e st = Inr (e', st')"
  shows "quiet e e'"
proof (cases "prefill_queue e")
  case Nil
  then show ?thesis using assms by (simp add: start_next_prefill_def quiet_refl)
next
  case (Cons rid q)
  obtain ok e2 where c: "can_accommodate_request (e\<lparr>prefill_queue := q\<rparr>) (st rid) = Inr (ok, e2)"
    using assms Cons by (auto simp: start_next_prefill_def Let_def bind_result_eq_Inr)
  have q: "quiet e e2" by (rule quiet_cong[OF _ quiet_can_accommodate[OF c]]) simp
  show ?thesis
  proof (cases ok)
    case True
    obtain e3 where e3: "allocate_in e2 (st rid) = Inr e3"
      "e' = call_back (mk_event (max (time_cursor e3) (en_now e3)) PREFILL_START (engine_id e3) (RequestIdData rid) HIGH)
         (e3\<lparr>current_prefill_request := Some rid, active_requests := insert rid (active_requests e3)\<rparr>)"
      using assms Cons c True by (auto simp: start_next_prefill_def Let_def bind_result_eq_Inr)
    have "quiet (e3\<lparr>current_prefill_request := Some rid, active_requests := insert rid (active_requests e3)\<rparr>) e'"
      unfolding e3(2) by (rule quiet_call_back) (simp add: mk_event_def)
    then have "quiet e2 e'" by (rule quiet_cong[rotated]) (simp add: outbox_allocate_in[OF e3(1)])
    then show ?thesis by (rule quiet_trans[OF q])
  next
    case False
    then have "outbox e' = outbox e2" using assms Cons c by (auto simp: start_next_prefill_def Let_def)
    then show ?thesis by (rule quiet_trans[OF q quiet_outbox])
  qed
qed

lemma quiet_process_prefill: "process_individual_prefill e st = Inr (b, e', st') \<Longrightarrow> quiet e e'"
  by (auto simp: process_individual_prefill_def Let_def bind_result_eq_Inr quiet_refl mk_event_def split: option.splits
      intro!: quiet_cong[OF _ quiet_call_back])

lemma quiet_step_prefill:
  assumes "step_prefill e st = Inr (e', st')"
  shows "quiet e e'"
proof -
  obtain e1 st1 where 1: "(if current_prefill_request e = None \<and> prefill_queue e \<noteq> [] then start_next_prefill e st
      else Inr (e, st)) = Inr (e1, st1)" using assms by (auto simp: step_prefill_def bind_result_eq_Inr)
  then have q: "quiet e e1" by (auto split: if_splits intro: quiet_start_next_prefill quiet_refl)
  have "quiet e1 e'"
    using assms 1 by (auto simp: step_prefill_def bind_result_eq_Inr quiet_refl Let_def split: option.splits if_splits
        dest!: quiet_process_prefill elim: quiet_to)
  then show ?thesis by (rule quiet_trans[OF q])
qed

lemma quiet_pull_ready: "pull_ready join st q e b = Inr (e', b') \<Longrightarrow> quiet e e'"
proof (induction join st q e b rule: pull_ready.induct)
  case (2 join st rid q e b)
  show ?case
  proof (cases "int (length b) < max_batch_size e")
    case True
    then obtain ok e1 where c: "can_accommodate_request e (st rid) = Inr (ok, e1)"
      using "2.prems" by (auto simp: bind_result_eq_Inr)
    note q = quiet_can_accommodate[OF c]
    show ?thesis
      using "2.IH"[OF True, of ok e1] "2.prems" True c
      by (cases ok) (auto intro: quiet_trans[OF q] quiet_to[OF q])
  qed (use "2.prems" in \<open>auto intro: quiet_outbox\<close>)
qed (auto intro: quiet_outbox)

lemma outbox_note_batch_size [simp]: "outbox (note_batch_size n e) = outbox e"
  by (simp add: note_batch_size_def)

lemma quiet_form_decode_batch: "form_decode_batch e st = Inr e' \<Longrightarrow> quiet e e'"
  by (auto simp: form_decode_batch_def bind_result_eq_Inr quiet_refl Let_def split: if_splits
      dest!: quiet_pull_ready elim: quiet_to)

lemma quiet_add_to_decode_batch: "add_to_decode_batch e st = Inr e' \<Longrightarrow> quiet e e'"
  by (auto simp: add_to_decode_batch_def bind_result_eq_Inr quiet_refl split: if_splits option.splits
      dest!: quiet_pull_ready elim: quiet_to)

lemma outbox_update_kv: "update_kv_cache_memory e st = Inr e' \<Longrightarrow> outbox e' = outbox e"
  by (auto simp: update_kv_cache_memory_def bind_result_eq_Inr Let_def split: option.splits if_splits)

lemma outbox_decode_all: "yields (fold_result decode_one (e, st, fin) rs) (\<lambda>(e', st', fin'). outbox e' = outbox e)"
proof (rule yields_fold)
  show "yields (decode_one s r) (\<lambda>(e', st', fin'). outbox e' = outbox e)"
    if "case s of (e', st', fin') \<Rightarrow> outbox e' = outbox e" for s r
    using that by (auto simp: decode_one_def Let_def split_def split: option.split intro!: yieldsI simp: bind_result_eq_Inr)
qed simp

lemma outbox_complete_all:
  "yields (fold_result (complete_one t st) (e, []) rs)
     (\<lambda>(e', evs). outbox e' = outbox e \<and> (\<forall>ev \<in> set evs. ev_type ev = REQUEST_COMPLETE))"
proof (rule yields_fold)
  show "yields (complete_one t st s r) (\<lambda>(e', evs). outbox e' = outbox e \<and> (\<forall>ev \<in> set evs. ev_type ev = REQUEST_COMPLETE))"
    if "case s of (e', evs) \<Rightarrow> outbox e' = outbox e \<and> (\<forall>ev \<in> set evs. ev_type ev = REQUEST_COMPLETE)" for s r
    using that by (auto simp: complete_one_def Let_def mk_event_def)
qed simp

lemma process_decode_batch_quiet:
  "yields (process_decode_batch e st) (\<lambda>(evs, e', st'). outbox e' = outbox e \<and> (\<forall>ev \<in> set evs. ev_type ev = REQUEST_COMPLETE))"
proof (cases "current_decode_batch e")
  case (Some b)
  have kv: "yields (update_kv_cache_memory e1 st1) (\<lambda>e2. outbox e2 = outbox e1)" for e1 st1
    by (rule yieldsI) (rule outbox_update_kv)
  show ?thesis
    unfolding process_decode_batch_def Some option.case Let_def
    by (rule yields_bindI[OF outbox_decode_all], clarsimp, rule yields_bindI[OF kv], clarsimp,
        rule yields_bindI[OF outbox_complete_all])
      (auto split: option.splits if_splits intro!: yieldsI simp: bind_result_eq_Inr)
qed (simp add: process_decode_batch_def)

lemma step_decode_quiet:
  "yields (step_decode e st) (\<lambda>(evs, e', st'). quiet e e' \<and> (\<forall>ev \<in> set evs. ev_type ev = REQUEST_COMPLETE))"
proof -
  have form: "yields (if current_decode_batch e = None \<and> decode_ready_requests e \<noteq> [] then form_decode_batch e st
      else if current_decode_batch e \<noteq> None \<and> decode_ready_requests e \<noteq> [] then add_to_decode_batch e st else Inr e) (quiet e)"
    by (auto intro!: yieldsI intro: quiet_form_decode_batch quiet_add_to_decode_batch quiet_refl split: if_splits)
  have batch: "yields (case current_decode_batch e1 of None \<Rightarrow> Inr ([], e1, st)
      | Some b \<Rightarrow> if batch_is_empty b then Inr ([], e1, st) else process_decode_batch e1 st)
      (\<lambda>(evs, e', st'). outbox e' = outbox e1 \<and> (\<forall>ev \<in> set evs. ev_type ev = REQUEST_COMPLETE))" for e1
    using process_decode_batch_quiet[of e1 st] by (auto split: option.split)
  show ?thesis
    unfolding step_decode_def
    by (rule yields_bindI[OF form], rule yields_bindI[OF batch]) (auto split: option.split simp: quiet_def)
qed

lemma engine_step_quiet:
  "yields (engine_step now e st) (\<lambda>(evs, e', st'). quiet e e' \<and> (\<forall>ev \<in> set evs. ev_type ev = REQUEST_COMPLETE))"
proof -
  let ?e = "step_time now e"
  have o: "outbox ?e = outbox e" by (simp add: step_time_def split: option.split)
  have "yields (step_prefill ?e st) (\<lambda>(e2, st2). quiet e e2)"
    by (auto intro!: yieldsI quiet_cong[OF o] dest: quiet_step_prefill)
  then have "yields (bind_result (step_prefill ?e st) (\<lambda>(e2, st2). step_decode e2 st2))
      (\<lambda>(evs, e', st'). quiet e e' \<and> (\<forall>ev \<in> set evs. ev_type ev = REQUEST_COMPLETE))"
    by (rule yields_bindI) (auto intro: yields_mono[OF step_decode_quiet] quiet_trans)
  then show ?thesis using quiet_outbox[OF o] by (auto simp: engine_step_def Let_def)
qed

section \<open>Handlers extend the loop\<close>

definition arrival_id :: "sim_event \<Rightarrow> string" where
  "arrival_id ev = (case data ev of ArrivalData rid _ _ _ \<Rightarrow> rid | _ \<Rightarrow> [])"

definition arrivals :: "sim_loop \<Rightarrow> string multiset" where
  "arrivals el = image_mset arrival_id (filter_mset (\<lambda>e. ev_type e = REQUEST_ARRIVAL) (mset (event_queue el)))"

definition extends :: "sim_loop \<Rightarrow> sim_loop \<Rightarrow> bool" where
  "extends el el' \<longleftrightarrow> loop_ok el' \<and> current_time el' = current_time el \<and> statistics el' = statistics el \<and>
     arrivals el' = arrivals el"

lemma extends_refl: "loop_ok el \<Longrightarrow> extends el el"
  by (simp add: extends_def)

lemma extends_trans: "extends el el1 \<Longrightarrow> extends el1 el2 \<Longrightarrow> extends el el2"
  by (simp add: extends_def)

lemma extends_ok: "extends el el' \<Longrightarrow> loop_ok el'"
  by (simp add: extends_def)

lemma extends_event:
  assumes "loop_ok el" "ev_type ev \<noteq> REQUEST_ARRIVAL"
  shows "yields (schedule_event el ev) (extends el)"
  by (rule yieldsI) (use schedule_event_Inr[OF assms(1)] assms(2) in \<open>auto simp: extends_def arrivals_def\<close>)

lemma extends_mk_event:
  "loop_ok el \<Longrightarrow> ty \<noteq> REQUEST_ARRIVAL \<Longrightarrow> yields (schedule_event el (mk_event t ty tgt d p)) (extends el)"
  by (rule extends_event) (simp_all add: mk_event_def)

lemma extends_fold:
  assumes "loop_ok el" "\<And>el x. x \<in> set xs \<Longrightarrow> loop_ok el \<Longrightarrow> yields (f el x) (extends el)"
  shows "yields (fold_result f el xs) (extends el)"
  by (rule yields_fold[where P = "extends el"])
    (auto intro: extends_refl assms(1) yields_mono[OF assms(2)] extends_trans dest: extends_ok)

lemma deliver_extends:
  assumes "loop_ok el" "quiet e e'" "outbox e = []"
  shows "yields (deliver el e') (\<lambda>(el', e''). extends el el' \<and> e'' = e'\<lparr>outbox := []\<rparr>)"
proof -
  have "yields (fold_result handle_engine_event el (outbox e')) (extends el)"
    using assms by (intro extends_fold) (auto simp: handle_engine_event_def quiet_def intro: extends_event)
  then show ?thesis unfolding deliver_def by (rule yields_bindI) simp
qed

section \<open>What handlers leave alone\<close>

definition silent :: "cluster \<Rightarrow> bool" where
  "silent cl \<longleftrightarrow> (\<forall>nid e. map_of (serving_engines cl) nid = Some e \<longrightarrow> outbox e = [])"

definition calm :: "cluster \<Rightarrow> cluster \<Rightarrow> bool" where
  "calm cl cl' \<longleftrightarrow> cm_active cl' = cm_active cl \<and> cm_completed cl' = cm_completed cl \<and> cm_rejected cl' = cm_rejected cl \<and>
     m_total_requests (metrics cl') = m_total_requests (metrics cl) \<and>
     m_completed_requests (metrics cl') = m_completed_requests (metrics cl) \<and>
     m_rejected_requests (metrics cl') = m_rejected_requests (metrics cl) \<and> (silent cl \<longrightarrow> silent cl')"

definition moved :: "sim_loop \<Rightarrow> cluster \<Rightarrow> sim_loop \<times> cluster \<Rightarrow> bool" where
  "moved el cl s \<longleftrightarrow> extends el (fst s) \<and> calm cl (snd s)"

lemma calm_refl: "calm cl cl"
  by (simp add: calm_def)

lemma calm_trans: "calm cl cl1 \<Longrightarrow> calm cl1 cl2 \<Longrightarrow> calm cl cl2"
  by (simp add: calm_def)

lemma moved_refl: "loop_ok el \<Longrightarrow> moved el cl (el, cl)"
  by (simp add: moved_def extends_refl calm_refl)

lemma moved_trans: "extends el el1 \<Longrightarrow> calm cl cl1 \<Longrightarrow> moved el1 cl1 s \<Longrightarrow> moved el cl s"
  by (auto simp: moved_def intro: extends_trans calm_trans)

lemma yields_moved:
  "yields m (moved el1 cl1) \<Longrightarrow> extends el el1 \<Longrightarrow> calm cl cl1 \<Longrightarrow> yields m (moved el cl)"
  unfolding yields_def by (auto intro: moved_trans)

lemma calm_fields: "serving_engines cl' = serving_engines cl \<Longrightarrow> metrics cl' = metrics cl \<Longrightarrow> cm_active cl' = cm_active cl \<Longrightarrow>
   cm_completed cl' = cm_completed cl \<Longrightarrow> cm_rejected cl' = cm_rejected cl \<Longrightarrow> calm cl cl'"
  by (simp add: calm_def silent_def)

lemma calm_add_trace: "calm cl (add_trace t cl)"
  by (rule calm_fields) (simp_all add: add_trace_def)

lemma calm_set_request: "calm cl (set_request rid f cl)"
  by (rule calm_fields) (simp_all add: set_request_def)

lemma calm_put_engine: "(silent cl \<Longrightarrow> outbox e = []) \<Longrightarrow> calm cl (put_engine nid e cl)"
  by (auto simp: calm_def put_engine_def silent_def map_of_update split: if_splits)

lemma outbox_release: "release_request_allocation e rid = Inr e' \<Longrightarrow> outbox e' = outbox e"
  by (auto simp: release_request_allocation_def bind_result_eq_Inr split: option.splits if_splits)

lemma cleanup_calm: "yields (cleanup_prefill_residuals rid cl) (calm cl)"
proof (cases "prefill_node (cm_store cl rid)")
  case (Some nid)
  have rel: "yields (bind_result (release_request_allocation e1 rid) (\<lambda>e2. Inr (put_engine nid e2 cl))) (calm cl)"
    if "silent cl \<Longrightarrow> outbox e1 = []" for e1
    by (rule yields_bindI[OF yieldsI[OF outbox_release]]) (use that in \<open>auto intro: calm_put_engine\<close>)
  show ?thesis
    unfolding cleanup_prefill_residuals_def Some option.case
    by (auto simp: calm_refl Let_def silent_def split: option.split intro!: rel)
qed (simp add: cleanup_prefill_residuals_def calm_refl)

section \<open>Handlers that move no request\<close>

lemma afd_pull_moved:
  assumes "loop_ok el" shows "yields (schedule_next_afd_pull t el cl) (moved el cl)"
proof (cases "cm_afd_analyzer cl")
  case (Some a)
  have ev: "yields (schedule_event el (mk_event t' AFD_ATTENTION_PULL ''cluster_manager'' NoData HIGH)) (extends el)" for t'
    using assms by (rule extends_mk_event) simp
  have "calm cl (cl\<lparr>afd_next_pull_at := p\<rparr>)" for p by (rule calm_fields) simp_all
  then have pull: "yields (bind_result (schedule_event el (mk_event t' AFD_ATTENTION_PULL ''cluster_manager'' NoData HIGH)) (\<lambda>el1.
      Inr (el1, cl\<lparr>afd_next_pull_at := Some t'\<rparr>))) (moved el cl)" for t'
    by (intro yields_bindI[OF ev]) (simp add: moved_def)
  have "yields (bind_result (next_attention_available_time a) g) (moved el cl)"
    if "\<And>x. yields (g x) (moved el cl)" for g using that by (cases "next_attention_available_time a") auto
  then show ?thesis
    using moved_refl[OF assms] pull unfolding schedule_next_afd_pull_def Some by (simp add: Let_def)
qed (simp add: schedule_next_afd_pull_def moved_refl[OF assms])

lemma enqueue_afd_moved:
  assumes "loop_ok el" shows "yields (enqueue_afd_request md5 rid el cl) (moved el cl)"
proof -
  have "calm cl (add_trace tr (cl\<lparr>afd_waitlist := w\<rparr>))" for tr w
    by (rule calm_fields) (simp_all add: add_trace_def)
  then have "yields (schedule_next_afd_pull t el (add_trace tr (cl\<lparr>afd_waitlist := w\<rparr>))) (moved el cl)" for tr w t
    by (rule yields_moved[OF afd_pull_moved[OF assms] extends_refl[OF assms]])
  then show ?thesis using moved_refl[OF assms] unfolding enqueue_afd_request_def Let_def by simp
qed

lemma afd_handoff_moved:
  assumes "loop_ok el"
  shows "yields (bind_result (cleanup_prefill_residuals rid cl) (enqueue_afd_request md5 rid el)) (moved el cl)"
  by (rule yields_bindI[OF cleanup_calm])
    (rule yields_moved[OF enqueue_afd_moved[OF assms] extends_refl[OF assms]])

lemma calm_afd_finish: "calm cl (foldl (afd_finish_request nid n x y) cl rs)"
proof (induction rs arbitrary: cl)
  case (Cons r rs)
  have "calm cl (afd_finish_request nid n x y cl r)"
    by (rule calm_fields) (simp_all add: afd_finish_request_def set_request_def Let_def)
  from calm_trans[OF this Cons.IH] show ?case by simp
qed (simp add: calm_refl)

lemma schedule_completions_extends: "loop_ok el \<Longrightarrow> yields (schedule_completions el ts) (extends el)"
  unfolding schedule_completions_def by (rule extends_fold) (auto intro: extends_mk_event)

lemma finish_afd_batch_moved:
  assumes "loop_ok el" shows "yields (finish_afd_batch t x el cl) (moved el cl)"
proof -
  have pull: "yields (if afd_waitlist cl1 = [] then Inr (el1, cl1) else schedule_next_afd_pull t el1 cl1) (moved el cl)"
    if "extends el el1" "calm cl cl1" for el1 cl1
    using yields_moved[OF afd_pull_moved[OF extends_ok[OF that(1)]] that, of t] that by (simp add: moved_def)
  show ?thesis
    unfolding finish_afd_batch_def Let_def
    by (rule yields_bindI[OF schedule_completions_extends[OF assms]]) (rule pull[OF _ calm_afd_finish])
qed

lemma handle_afd_pull_moved:
  assumes "loop_ok el" shows "yields (handle_afd_pull ev el cl) (moved el cl)"
proof -
  let ?cl = "cl\<lparr>afd_next_pull_at := None\<rparr>"
  have c0: "calm cl ?cl" by (rule calm_fields) simp_all
  have c1: "calm cl (?cl\<lparr>cm_afd_analyzer := x, afd_waitlist := w\<rparr>)" for x w by (rule calm_fields) simp_all
  have finish: "yields (finish_afd_batch t x el (?cl\<lparr>cm_afd_analyzer := a, afd_waitlist := w\<rparr>)) (moved el cl)" for t x a w
    by (rule yields_moved[OF finish_afd_batch_moved[OF assms] extends_refl[OF assms] c1])
  have batch: "yields (bind_result m (\<lambda>(res, rest, a1). case res of
        None \<Rightarrow> Inr (el, ?cl\<lparr>cm_afd_analyzer := Some a1, afd_waitlist := rest\<rparr>)
      | Some x \<Rightarrow> finish_afd_batch t x el (?cl\<lparr>cm_afd_analyzer := Some a1, afd_waitlist := rest\<rparr>))) (moved el cl)" for m t
    using c1 finish by (cases m) (auto simp: moved_def[of _ _ "(_, _)"] extends_refl assms split: option.split)
  show ?thesis
    unfolding handle_afd_pull_def Let_def
    using c0 batch by (auto simp: moved_def[of _ _ "(_, _)"] extends_refl assms split: option.split)
qed

lemma handle_node_online_moved: "loop_ok el \<Longrightarrow> yields (handle_node_online ev el cl) (moved el cl)"
  by (auto simp: handle_node_online_def moved_def extends_refl calm_def silent_def split: event_data.split)

lemma rebalance_moved:
  assumes "loop_ok el" shows "yields (rebalance_requests failed el cl) (moved el cl)"
proof -
  have fold: "yields (fold_result (\<lambda>el rid. schedule_event el (mk_event (current_time el) PLACEMENT_DECISION
      ''cluster_manager'' (PlacementData rid ''prefill'') MEDIUM)) el q) (extends el)" for q
    using assms by (intro extends_fold extends_mk_event) simp_all
  show ?thesis
    unfolding rebalance_requests_def
    by (auto simp: extends_refl[OF assms] calm_refl moved_def silent_def split: option.split
        intro!: yields_bindI[OF fold] calm_put_engine)
qed

lemma handle_node_offline_moved:
  assumes "loop_ok el" shows "yields (handle_node_offline ev el cl) (moved el cl)"
  by (auto simp: handle_node_offline_def moved_refl[OF assms] split: event_data.split
      intro!: yields_moved[OF rebalance_moved[OF assms] extends_refl[OF assms]])
    (simp add: calm_def silent_def)

lemma handle_prefill_complete_moved:
  assumes "loop_ok el" shows "yields (handle_prefill_complete md5 ev el cl) (moved el cl)"
proof -
  have ev: "yields (bind_result (schedule_event el (mk_event t PLACEMENT_DECISION tgt d p)) (\<lambda>el1. Inr (el1, cl))) (moved el cl)"
    for t tgt d p
    by (rule yields_bindI[OF extends_mk_event[OF assms]]) (simp_all add: moved_def calm_refl)
  show ?thesis
    unfolding handle_prefill_complete_def
    by (auto simp: moved_refl[OF assms] split: option.split intro!: ev afd_handoff_moved[OF assms])
qed

lemma handle_batch_form_moved:
  assumes ok: "loop_ok el" and si: "silent cl"
  shows "yields (handle_batch_form ev el cl) (moved el cl)"
proof (cases "map_of (serving_engines cl) (target ev)")
  case (Some e)
  have o: "outbox e = []" using si Some by (simp add: silent_def)
  have evs: "yields (schedule_engine_events el1 evs) (extends el1)"
    if "loop_ok el1" "\<forall>ev \<in> set evs. ev_type ev = REQUEST_COMPLETE" for el1 and evs :: "sim_event list"
    unfolding schedule_engine_events_def by (rule extends_fold) (use that in \<open>auto intro: extends_event\<close>)
  let ?out = "\<lambda>e2 st1. (put_engine (target ev) e2 cl)\<lparr>cm_store := st1\<rparr>"
  have c: "calm cl (?out e2 st1)" if "outbox e2 = []" for e2 st1
    using calm_trans[OF calm_put_engine calm_fields] that by simp
  have next_step: "yields (bind_result (schedule_event el2 (mk_event t BATCH_FORM tgt NoData HIGH)) (\<lambda>el3. Inr (el3, ?out e2 st1))) (moved el cl)"
    if "extends el el2" "outbox e2 = []" for el2 t tgt e2 st1
    by (rule yields_bindI[OF extends_mk_event[OF extends_ok[OF that(1)]]])
      (use c[OF that(2)] extends_trans[OF that(1)] in \<open>simp_all add: moved_def\<close>)
  show ?thesis
    unfolding handle_batch_form_def Some option.case Let_def
  proof (rule yields_bindI[OF engine_step_quiet], clarify)
    fix evs :: "sim_event list" and e1 st1
    assume q: "quiet e e1" and comp: "\<forall>ev \<in> set evs. ev_type ev = REQUEST_COMPLETE"
    show "yields (bind_result (deliver el e1) (\<lambda>(el1, e2). bind_result (schedule_engine_events el1 evs) (\<lambda>el2.
        if \<not> has_pending_work e2 then Inr (el2, ?out e2 st1)
        else bind_result (schedule_event el2 (mk_event (if max (time_cursor e2) (current_time el2) \<le> current_time el2
            then current_time el2 + 1 / 10 ^ 6 else max (time_cursor e2) (current_time el2)) BATCH_FORM (target ev) NoData HIGH))
          (\<lambda>el3. Inr (el3, ?out e2 st1))))) (moved el cl)"
    proof (rule yields_bindI[OF deliver_extends[OF ok q o]], clarify)
      fix el1
      assume e1: "extends el el1"
      show "yields (bind_result (schedule_engine_events el1 evs) (\<lambda>el2.
          if \<not> has_pending_work (e1\<lparr>outbox := []\<rparr>) then Inr (el2, ?out (e1\<lparr>outbox := []\<rparr>) st1)
          else bind_result (schedule_event el2 (mk_event (if max (time_cursor (e1\<lparr>outbox := []\<rparr>)) (current_time el2) \<le> current_time el2
              then current_time el2 + 1 / 10 ^ 6 else max (time_cursor (e1\<lparr>outbox := []\<rparr>)) (current_time el2)) BATCH_FORM (target ev) NoData HIGH))
            (\<lambda>el3. Inr (el3, ?out (e1\<lparr>outbox := []\<rparr>) st1)))) (moved el cl)"
        by (rule yields_bindI[OF evs[OF extends_ok[OF e1] comp]])
          (use c extends_trans[OF e1] next_step in \<open>auto simp: moved_def[of _ _ "(_, _)"]\<close>)
    qed
  qed
qed (simp add: handle_batch_form_def moved_refl[OF ok])

section \<open>Accounting\<close>

definition known_requests :: "cluster \<Rightarrow> string list" where
  "known_requests cl = cm_active cl @ cm_completed cl @ map rj_req_id (cm_rejected cl)"

definition counted :: "cluster \<Rightarrow> bool" where
  "counted cl \<longleftrightarrow> m_total_requests (metrics cl) = int (length (known_requests cl)) \<and>
     m_completed_requests (metrics cl) = int (length (cm_completed cl)) \<and>
     m_rejected_requests (metrics cl) = int (length (cm_rejected cl))"

text \<open>The generated requests \<open>M\<close>, each of them once, are the known ones and the pending arrivals.\<close>

definition accounts :: "string multiset \<Rightarrow> sim_loop \<Rightarrow> cluster \<Rightarrow> bool" where
  "accounts M el cl \<longleftrightarrow> mset (known_requests cl) + arrivals el = M \<and> (\<forall>rid. count M rid \<le> 1) \<and>
     counted cl \<and> silent cl \<and> loop_ok el"

lemma accounts_ok: "accounts M el cl \<Longrightarrow> loop_ok el" "accounts M el cl \<Longrightarrow> silent cl"
  by (simp_all add: accounts_def)

lemma accounts_moved: "accounts M el cl \<Longrightarrow> moved el cl (el', cl') \<Longrightarrow> accounts M el' cl'"
  by (simp add: accounts_def moved_def extends_def calm_def known_requests_def counted_def)

lemma yields_accounts:
  "accounts M el cl \<Longrightarrow> yields m (moved el cl) \<Longrightarrow> yields m (\<lambda>(el', cl'). accounts M el' cl')"
  by (auto simp: yields_def intro: accounts_moved)

lemma remove1_split:
  assumes "x \<in> set xs"
  obtains ys where "remove1 x xs = ys" "mset xs = add_mset x (mset ys)" "length xs = Suc (length ys)"
  using assms length_pos_if_in_set[OF assms] by (intro that[OF refl]) (simp_all add: length_remove1)

lemma yields_if: "(b \<Longrightarrow> yields m P) \<Longrightarrow> (\<not> b \<Longrightarrow> yields m' P) \<Longrightarrow> yields (if b then m else m') P"
  by simp

lemma reject_accounts:
  assumes "accounts M el cl" shows "yields (reject_request md5 rid why el cl) (accounts M el)"
proof (cases "rid \<in> set (cm_active cl)")
  case True
  from remove1_split[OF True] obtain ys where "remove1 rid (cm_active cl) = ys"
    "mset (cm_active cl) = add_mset rid (mset ys)" "length (cm_active cl) = Suc (length ys)" .
  then show ?thesis
    using True assms
    by (simp add: reject_request_def Let_def accounts_def known_requests_def counted_def silent_def add_trace_def)
qed (simp add: reject_request_def)

lemma complete_accounts:
  assumes "accounts M el cl"
  shows "yields (handle_request_complete md5 ev el cl) (\<lambda>(el', cl'). accounts M el' cl')"
proof (cases "data_request_id (data ev)")
  case (Some rid)
  show ?thesis
  proof (cases "rid \<in> set (cm_active cl)")
    case True
    from remove1_split[OF True] obtain ys where "remove1 rid (cm_active cl) = ys"
      "mset (cm_active cl) = add_mset rid (mset ys)" "length (cm_active cl) = Suc (length ys)" .
    then show ?thesis
      using True assms
      by (simp add: handle_request_complete_def Some Let_def accounts_def known_requests_def counted_def silent_def
          add_trace_def set_request_def)
  qed (simp add: handle_request_complete_def Some assms)
qed (simp add: handle_request_complete_def)

text \<open>An arrival event, already taken from the queue, becomes an active request.\<close>

lemma arrival_accounts:
  assumes M: "mset (known_requests cl) + add_mset (arrival_id ev) (arrivals el) = M" "\<forall>rid. count M rid \<le> 1"
    and ok: "counted cl" "silent cl" "loop_ok el"
  shows "yields (handle_request_arrival md5 ev el cl) (\<lambda>(el', cl'). accounts M el' cl')"
proof (cases "data ev")
  case (ArrivalData rid model inl outl)
  then have id: "arrival_id ev = rid" by (simp add: arrival_id_def)
  have "count M rid = count (mset (known_requests cl)) rid + 1 + count (arrivals el) rid"
    unfolding M(1)[symmetric] id by simp
  then have "count (mset (known_requests cl)) rid = 0" using M(2)[rule_format, of rid] by linarith
  then have new: "rid \<notin> set (cm_active cl)" by (auto simp: known_requests_def count_eq_zero_iff)
  show ?thesis
    unfolding handle_request_arrival_def ArrivalData event_data.case Let_def
    by (rule yields_bindI[OF extends_mk_event[OF ok(3)]])
      (use M ok new id in \<open>auto simp: accounts_def known_requests_def counted_def silent_def add_trace_def extends_def\<close>)
qed (simp_all add: handle_request_arrival_def)

section \<open>Placement\<close>

lemma silent_refreshed: "refreshed (serving_engines cl) es \<Longrightarrow> silent cl \<Longrightarrow> silent (cl\<lparr>serving_engines := es\<rparr>)"
  unfolding silent_def
proof (intro allI impI)
  fix nid e
  assume r: "refreshed (serving_engines cl) es" and si: "\<forall>nid e. map_of (serving_engines cl) nid = Some e \<longrightarrow> outbox e = []"
    and e: "map_of (serving_engines (cl\<lparr>serving_engines := es\<rparr>)) nid = Some e"
  have "set (map fst es) = set (map fst (serving_engines cl))" using r by (simp only: refreshed_def)
  moreover have "nid \<in> set (map fst es)" using map_of_SomeD[of es nid e] e by force
  ultimately have k: "nid \<in> fst ` set (serving_engines cl)" by simp
  then obtain e0 where e0: "map_of (serving_engines cl) nid = Some e0" by (metis map_of_eq_None_iff not_Some_eq)
  have "e = e0 \<or> e = refresh_memory_usage e0"
    using r k e e0 unfolding refreshed_def by (auto simp: eng_def)
  then show "outbox e = []" using si e0 by auto
qed

lemma candidates_known: "set (candidates phase cl) \<subseteq> fst ` set (serving_engines cl)"
  by (auto simp: candidates_def available_engines_def)

lemma place_on_moved:
  assumes ok: "loop_ok el" and si: "silent cl" and known: "nid \<in> fst ` set (serving_engines cl)"
  shows "yields (place_on phase rid nid el cl) (\<lambda>(success, el', cl'). extends el el' \<and> calm cl cl')"
proof -
  let ?e = "eng (serving_engines cl) nid"
  obtain e where "map_of (serving_engines cl) nid = Some e" using known by (metis map_of_eq_None_iff not_Some_eq)
  then have o: "outbox ?e = []" using si by (simp add: silent_def eng_def)
  have add: "yields (if phase = ''prefill'' then add_request ?e (cm_store cl) rid
      else add_decode_ready_request ?e (cm_store cl) rid (current_time el)) (\<lambda>(success, e1, st1). quiet ?e e1)"
    by (auto intro!: yieldsI dest: quiet_add_request quiet_add_decode_ready)
  have c: "calm cl ((put_engine nid e2 cl)\<lparr>cm_store := st1\<rparr>)" if "outbox e2 = []" for e2 st1
    using calm_trans[OF calm_put_engine calm_fields] that by simp
  have note_node: "calm cl (set_request rid f cl1)" if "calm cl cl1" for f cl1
    using calm_trans[OF that calm_set_request] .
  show ?thesis
    unfolding place_on_def Let_def
  proof (rule yields_bindI[OF add], clarify)
    fix success e1 st1
    assume q: "quiet ?e e1"
    let ?cl = "(put_engine nid (e1\<lparr>outbox := []\<rparr>) cl)\<lparr>cm_store := st1\<rparr>"
    have clean: "yields (bind_result (cleanup_prefill_residuals rid ?cl) (\<lambda>cl2. Inr (True, el1, set_request rid f cl2)))
        (\<lambda>(success, el', cl'). extends el el' \<and> calm cl cl')" if "extends el el1" for el1 f
      by (rule yields_bindI[OF cleanup_calm]) (use that note_node[OF calm_trans[OF c[of "e1\<lparr>outbox := []\<rparr>" st1]]] in auto)
    show "yields (bind_result (deliver el e1) (\<lambda>(el1, e2).
        if \<not> success then Inr (False, el1, (put_engine nid e2 cl)\<lparr>cm_store := st1\<rparr>)
        else if phase = ''prefill'' then Inr (True, el1, set_request rid (\<lambda>r. r\<lparr>prefill_node := Some (engine_id ?e)\<rparr>)
               ((put_engine nid e2 cl)\<lparr>cm_store := st1\<rparr>))
        else bind_result (cleanup_prefill_residuals rid ((put_engine nid e2 cl)\<lparr>cm_store := st1\<rparr>)) (\<lambda>cl2.
          Inr (True, el1, set_request rid (\<lambda>r. r\<lparr>decode_node := Some (engine_id ?e), serving_node := Some (engine_id ?e)\<rparr>) cl2))))
        (\<lambda>(success, el', cl'). extends el el' \<and> calm cl cl')"
      by (rule yields_bindI[OF deliver_extends[OF ok q o]]) (use clean c note_node in \<open>auto split: if_split\<close>)
  qed
qed

lemma commit_moved:
  assumes "loop_ok el" shows "yields (commit_placement md5 phase rid d el cl) (moved el cl)"
proof -
  have "calm cl (add_trace t (record_placement_decision d cl))" for t
    by (simp add: calm_def add_trace_def record_placement_decision_def silent_def)
  then show ?thesis
    unfolding commit_placement_def schedule_engine_step_def Let_def
    by (intro yields_bindI[OF extends_mk_event[OF assms]]) (simp_all add: moved_def)
qed

lemma placement_accounts:
  assumes a: "accounts M el cl"
  shows "yields (handle_placement_decision md5 ev el cl) (\<lambda>(el', cl'). accounts M el' cl')"
proof (cases "data_request_id (data ev)")
  case (Some rid)
  note ok = accounts_ok[OF a]
  have reject: "yields (bind_result (reject_request md5 rid why el1 cl1) (\<lambda>cl'. Inr (el1, cl'))) (\<lambda>(el', cl'). accounts M el' cl')"
    if "accounts M el1 cl1" for why el1 cl1
    by (rule yields_bindI[OF reject_accounts[OF that]]) simp
  have place: "yields (case decision of
        None \<Rightarrow> bind_result (reject_request md5 rid ''no_suitable_engine'' el cl1) (\<lambda>cl'. Inr (el, cl'))
      | Some d \<Rightarrow> bind_result (place_on phase rid (target_engine d) el cl1) (\<lambda>(success, el2, cl2).
          if success then commit_placement md5 phase rid d el2 cl2
          else bind_result (reject_request md5 rid ''engine_rejection'' el2 cl2) (\<lambda>cl'. Inr (el2, cl'))))
      (\<lambda>(el', cl'). accounts M el' cl')"
    if acc: "accounts M el cl1" and known: "\<And>d. decision = Some d \<Longrightarrow> target_engine d \<in> fst ` set (serving_engines cl1)"
    for decision phase cl1
  proof (cases decision)
    case (Some d)
    have moved: "accounts M el2 cl2" if "extends el el2" "calm cl1 cl2" for el2 cl2
      using accounts_moved[OF acc, of el2 cl2] that by (simp add: moved_def)
    have commit: "yields (commit_placement md5 phase rid d el2 cl2) (\<lambda>(el', cl'). accounts M el' cl')" if "accounts M el2 cl2" for el2 cl2
      using yields_accounts[OF that commit_moved[OF accounts_ok(1)[OF that]]] .
    show ?thesis
      unfolding Some option.case
      by (rule yields_bindI[OF place_on_moved[OF ok(1) accounts_ok(2)[OF acc] known[OF Some]]])
        (use moved commit reject in \<open>auto split: if_split\<close>)
  qed (simp add: reject[OF acc])
  have policy: "yields (place_request (cm_scheduler cl) (cm_store cl rid) (serving_engines cl) (candidates phase cl) (cm_rng cl))
      (\<lambda>(decision, sch, es, g). accounts M el (cl\<lparr>cm_scheduler := sch, serving_engines := es, cm_rng := g\<rparr>) \<and>
        (\<forall>d. decision = Some d \<longrightarrow> target_engine d \<in> fst ` set es))" for phase
  proof (rule yieldsI, clarify)
    fix decision sch es g
    assume p: "place_request (cm_scheduler cl) (cm_store cl rid) (serving_engines cl) (candidates phase cl) (cm_rng cl) = Inr (decision, sch, es, g)"
    have "silent (cl\<lparr>serving_engines := es\<rparr>)"
      using pp.engines_refreshed[OF p candidates_known] ok(2) by (rule silent_refreshed)
    then have "calm cl (cl\<lparr>cm_scheduler := sch, serving_engines := es, cm_rng := g\<rparr>)" by (simp add: calm_def silent_def)
    then have "accounts M el (cl\<lparr>cm_scheduler := sch, serving_engines := es, cm_rng := g\<rparr>)"
      using accounts_moved[OF a] extends_refl[OF ok(1)] by (simp add: moved_def)
    then show "accounts M el (cl\<lparr>cm_scheduler := sch, serving_engines := es, cm_rng := g\<rparr>) \<and>
        (\<forall>d. decision = Some d \<longrightarrow> target_engine d \<in> fst ` set es)"
      using pp.target_known[OF _ candidates_known] p by blast
  qed
  show ?thesis
    unfolding handle_placement_decision_def Some option.case Let_def
    by (intro yields_if reject[OF a] yields_accounts[OF a afd_handoff_moved[OF ok(1)]] yields_bindI[OF policy])
      (auto simp: a intro!: place)
qed (simp add: handle_placement_decision_def)

section \<open>Steps and runs\<close>

lemma registered_handlers:
  "map_of (register_event_handlers md5) REQUEST_ARRIVAL = Some (handle_request_arrival md5)"
  "map_of (register_event_handlers md5) PLACEMENT_DECISION = Some (handle_placement_decision md5)"
  "map_of (register_event_handlers md5) NODE_ONLINE = Some handle_node_online"
  "map_of (register_event_handlers md5) NODE_OFFLINE = Some handle_node_offline"
  "map_of (register_event_handlers md5) REQUEST_COMPLETE = Some (handle_request_complete md5)"
  "map_of (register_event_handlers md5) LOAD_BALANCE = Some handle_load_balance"
  "map_of (register_event_handlers md5) PREFILL_COMPLETE = Some (handle_prefill_complete md5)"
  "map_of (register_event_handlers md5) BATCH_FORM = Some handle_batch_form"
  "map_of (register_event_handlers md5) AFD_ATTENTION_PULL = Some handle_afd_pull"
  "t \<in> {PREFILL_START, DECODE_STEP, MEMORY_CHECK, MODEL_LOAD, MODEL_UNLOAD} \<Longrightarrow>
     map_of (register_event_handlers md5) t = Some handle_nothing"
  by (auto simp: register_event_handlers_def register_handler_def)

lemma handler_accounts:
  assumes a: "accounts M el cl" and "ev_type ev \<noteq> REQUEST_ARRIVAL" "map_of (register_event_handlers md5) (ev_type ev) = Some h"
  shows "yields (h ev el cl) (\<lambda>(el', cl'). accounts M el' cl')"
proof -
  note ok = accounts_ok[OF a] and acc = yields_accounts[OF a]
  show ?thesis
    using assms(2,3)
    by (cases "ev_type ev")
      (auto simp: registered_handlers handle_nothing_def handle_load_balance_def a
        intro!: placement_accounts[OF a] complete_accounts[OF a] acc[OF handle_node_online_moved[OF ok(1)]]
          acc[OF handle_node_offline_moved[OF ok(1)]] acc[OF rebalance_moved[OF ok(1)]]
          acc[OF handle_prefill_complete_moved[OF ok(1)]] acc[OF handle_batch_form_moved[OF ok]]
          acc[OF handle_afd_pull_moved[OF ok(1)]])
qed

lemma step_accounts:
  assumes a: "accounts M el cl"
  shows "yields (loop_step (register_event_handlers md5) el cl) (\<lambda>(progressed, el', cl'). accounts M el' cl')"
proof (cases "event_queue el = []")
  case True
  then show ?thesis using a by (simp add: loop_step_def)
next
  case False
  obtain e q where p: "heappop event_lt (event_queue el) = Inr (e, q)" "mset (event_queue el) = add_mset e (mset q)"
    "\<forall>s. loop_ok (el\<lparr>event_queue := q, current_time := timestamp e, statistics := s\<rparr>)"
    by (rule loop_pop[OF accounts_ok(1)[OF a] False])
  let ?el = "el\<lparr>event_queue := q, current_time := timestamp e, statistics := count_event e (statistics el)\<rparr>"
  obtain h where h: "map_of (register_event_handlers md5) (ev_type e) = Some h"
    by (cases "ev_type e") (auto simp: registered_handlers)
  have "yields (h e ?el cl) (\<lambda>(el', cl'). accounts M el' cl')"
  proof (cases "ev_type e = REQUEST_ARRIVAL")
    case True
    then have "arrivals el = add_mset (arrival_id e) (arrivals ?el)" by (simp add: arrivals_def p(2))
    then have "yields (handle_request_arrival md5 e ?el cl) (\<lambda>(el', cl'). accounts M el' cl')"
      using a p(3) by (intro arrival_accounts) (auto simp: accounts_def)
    then show ?thesis using h True by (simp add: registered_handlers)
  next
    case False
    then have "arrivals el = arrivals ?el" by (simp add: arrivals_def p(2))
    then have "accounts M ?el cl" using a p(3) by (simp add: accounts_def)
    from handler_accounts[OF this False h] show ?thesis .
  qed
  then have "yields (bind_result (h e ?el cl) (\<lambda>(el2, w2). Inr (True, el2, w2))) (\<lambda>(progressed, el', cl'). accounts M el' cl')"
    by (rule yields_bindI) auto
  then show ?thesis using False p(1) h by (simp add: loop_step_def Let_def)
qed

lemma processes_accounts:
  "processes (register_event_handlers md5) s es s' \<Longrightarrow> accounts M (fst s) (snd s) \<Longrightarrow> accounts M (fst s') (snd s')"
proof (induction rule: processes.induct)
  case (processes_step el e q w s1 es s2)
  have "accounts M (fst s1) (snd s1)"
    using yieldsD[OF step_accounts processes_step.hyps(3)] processes_step.prems by (simp add: split_def)
  then show ?case by (rule processes_step.IH)
qed simp

section \<open>Preparing a simulation\<close>

lemma schedule_arrivals_spec:
  assumes "loop_ok el"
  shows "yields (fold_result schedule_arrival (el, cl) ts) (\<lambda>(el', cl'). loop_ok el' \<and> calm cl cl' \<and>
    request_counter cl' = request_counter cl + length ts \<and>
    arrivals el' = arrivals el + mset (map request_name [Suc (request_counter cl)..<Suc (request_counter cl + length ts)]))"
  using assms
proof (induction ts arbitrary: el cl)
  case (Cons t ts)
  let ?n = "request_counter cl"
  have one: "yields (schedule_arrival (el, cl) t) (\<lambda>(el', cl'). loop_ok el' \<and> calm cl cl' \<and>
      request_counter cl' = Suc ?n \<and> arrivals el' = add_mset (request_name (Suc ?n)) (arrivals el))"
  proof (rule yieldsI)
    fix s
    assume r: "schedule_arrival (el, cl) t = Inr s"
    obtain el1 g2 nc inl outl where s: "s = (el1, cl\<lparr>request_counter := ?n + 1, cm_np_random := g2\<rparr>)"
      "schedule_event el (mk_event t REQUEST_ARRIVAL ''cluster_manager'' (ArrivalData (request_name (?n + 1)) nc inl outl) MEDIUM) = Inr el1"
      using r by (auto simp: schedule_arrival_def Let_def split_def bind_result_eq_Inr split: list.splits)
    have "calm cl (cl\<lparr>request_counter := ?n + 1, cm_np_random := g2\<rparr>)" by (rule calm_fields) simp_all
    then show "case s of (el', cl') \<Rightarrow> loop_ok el' \<and> calm cl cl' \<and> request_counter cl' = Suc ?n \<and>
        arrivals el' = add_mset (request_name (Suc ?n)) (arrivals el)"
      using schedule_event_Inr(1,4)[OF Cons.prems s(2)] s(1) by (simp add: arrivals_def mk_event_def arrival_id_def)
  qed
  have upt: "[Suc ?n..<Suc (Suc (?n + k))] = Suc ?n # [Suc (Suc ?n)..<Suc (Suc (?n + k))]" for k by (simp add: upt_rec)
  show ?case
    unfolding fold_result.simps
  proof (rule yields_bindI[OF one], clarify)
    fix el1 cl1
    assume 1: "loop_ok el1" "calm cl cl1" "request_counter cl1 = Suc ?n" "arrivals el1 = add_mset (request_name (Suc ?n)) (arrivals el)"
    show "yields (fold_result schedule_arrival (el1, cl1) ts) (\<lambda>(el', cl'). loop_ok el' \<and> calm cl cl' \<and>
        request_counter cl' = ?n + length (t # ts) \<and>
        arrivals el' = arrivals el + mset (map request_name [Suc ?n..<Suc (?n + length (t # ts))]))"
      by (rule yields_mono[OF Cons.IH[OF 1(1)]]) (use 1 in \<open>auto simp: upt simp del: upt_Suc mset_upt intro: calm_trans\<close>)
  qed
qed (simp add: calm_refl)

lemma schedule_balancing_extends: "loop_ok el \<Longrightarrow> yields (schedule_balancing t duration el) (extends el)"
proof (induction t duration el rule: schedule_balancing.induct)
  case (1 t duration el)
  have ev: "yields (schedule_event el (mk_event t LOAD_BALANCE ''cluster_manager'' NoData LOW)) (extends el)"
    using 1(2) by (rule extends_mk_event) simp
  show ?case
  proof (cases "t < duration")
    case True
    have "yields (schedule_balancing (t + 10) duration el1) (extends el)" if "extends el el1" for el1
      by (rule yields_mono[OF 1(1)[OF True extends_ok[OF that]]]) (rule extends_trans[OF that])
    then show ?thesis
      using True by (subst schedule_balancing.simps) (auto intro: yields_bindI[OF ev])
  next
    case False
    then show ?thesis using 1(2) by (subst schedule_balancing.simps) (simp add: extends_refl)
  qed
qed

lemma node_failure_extends: "loop_ok el \<Longrightarrow> yields (simulate_node_failure nid t t' el) (extends el)"
  unfolding simulate_node_failure_def
  by (rule yields_bindI[OF extends_mk_event])
    (auto intro: yields_mono[OF extends_mk_event] extends_trans dest: extends_ok)

lemma prepare_spec:
  assumes "loop_ok el"
  shows "yields (prepare_simulation ts duration fails el cl) (\<lambda>(el', cl'). loop_ok el' \<and> calm cl cl' \<and>
    arrivals el' = arrivals el + mset (map request_name [Suc (request_counter cl)..<Suc (request_counter cl + length ts)]))"
proof -
  let ?cl = "cl\<lparr>start_time := 0, cm_current_time := 0\<rparr>"
  have c: "calm cl ?cl" by (rule calm_fields) simp_all
  show ?thesis
    unfolding prepare_simulation_def schedule_request_arrivals_def
  proof (rule yields_bindI[OF schedule_arrivals_spec[OF assms]], clarify)
    fix el1 cl1
    assume 1: "loop_ok el1" "calm ?cl cl1" "arrivals el1 = arrivals el +
      mset (map request_name [Suc (request_counter ?cl)..<Suc (request_counter ?cl + length ts)])"
    have c1: "calm cl cl1" using calm_trans[OF c 1(2)] .
    have fail: "yields (bind_result (simulate_node_failure nid t t' el2) (\<lambda>el3. Inr (el3, cl1)))
        (\<lambda>(el', cl'). extends el1 el' \<and> cl' = cl1)" if "extends el1 el2" for el2 nid t t'
      by (rule yields_bindI[OF node_failure_extends[OF extends_ok[OF that]]]) (use that in \<open>auto intro: extends_trans\<close>)
    have "yields (bind_result (schedule_balancing 10 duration el1) (\<lambda>el2.
        if fails \<and> 1 < length (cc_nodes (cm_config cl1))
        then bind_result (simulate_node_failure (node_id (hd (cc_nodes (cm_config cl1)))) (duration * (3 / 10)) (duration * (5 / 10)) el2)
            (\<lambda>el3. Inr (el3, cl1))
        else Inr (el2, cl1))) (\<lambda>(el', cl'). extends el1 el' \<and> cl' = cl1)"
      by (rule yields_bindI[OF schedule_balancing_extends[OF 1(1)]]) (use fail in auto)
    then show "yields (bind_result (schedule_balancing 10 duration el1) (\<lambda>el2.
        if fails \<and> 1 < length (cc_nodes (cm_config cl1))
        then bind_result (simulate_node_failure (node_id (hd (cc_nodes (cm_config cl1)))) (duration * (3 / 10)) (duration * (5 / 10)) el2)
            (\<lambda>el3. Inr (el3, cl1))
        else Inr (el2, cl1))) (\<lambda>(el', cl'). loop_ok el' \<and> calm cl cl' \<and>
      arrivals el' = arrivals el + mset (map request_name [Suc (request_counter cl)..<Suc (request_counter cl + length ts)]))"
      by (rule yields_mono) (use 1(3) c1 in \<open>auto simp: extends_def\<close>)
  qed
qed

lemma computed_metrics_counts:
  "m_total_requests (computed_metrics el cl u) = m_total_requests (metrics cl)"
  "m_completed_requests (computed_metrics el cl u) = m_completed_requests (metrics cl)"
  "m_rejected_requests (computed_metrics el cl u) = m_rejected_requests (metrics cl)"
  by (simp_all add: computed_metrics_def Let_def)

lemma update_metrics_counts:
  "yields (update_metrics el cl) (\<lambda>cl'. known_requests cl' = known_requests cl \<and> counted cl' = counted cl)"
proof -
  have "known_requests (cl\<lparr>serving_engines := es, metrics := computed_metrics el cl u, last_metrics_update := t\<rparr>) = known_requests cl \<and>
      counted (cl\<lparr>serving_engines := es, metrics := computed_metrics el cl u, last_metrics_update := t\<rparr>) = counted cl" for es u t
    by (simp add: known_requests_def counted_def computed_metrics_counts)
  then show ?thesis
    unfolding update_metrics_def by (intro yields_if yields_bindI[where P = "\<lambda>_. True"]) (simp_all add: yields_def)
qed

lemma ServingEngine_outbox: "ServingEngine ac afd nc = Inr e \<Longrightarrow> outbox (set_event_callback e) = []"
  by (auto simp: ServingEngine_def Let_def set_event_callback_def split: option.splits)

lemma add_node_calm: "yields (add_node ac afd cl nc) (\<lambda>cl'. calm cl cl' \<and> request_counter cl' = request_counter cl)"
  unfolding add_node_def
  by (rule yieldsI)
    (auto simp: bind_result_eq_Inr calm_def silent_def map_of_update dest: ServingEngine_outbox split: if_splits)

lemma ClusterManager_fresh:
  assumes "ClusterManager ac cfg g np = Inr cl"
  shows "known_requests cl = []" "counted cl" "silent cl" "request_counter cl = 0"
proof -
  define P where "P cl' \<longleftrightarrow> known_requests cl' = [] \<and> counted cl' \<and> silent cl' \<and> request_counter cl' = 0" for cl'
  have nodes: "yields (fold_result (add_node ac afd) cl0 ns) P" if "P cl0" for afd cl0 ns
    by (rule yields_fold[where P = P, OF that], rule yields_mono[OF add_node_calm])
      (auto simp: P_def calm_def known_requests_def counted_def)
  have afd: "yields (init_afd cl1) P" if "P cl1" for cl1
    using that by (intro yieldsI)
      (auto simp: init_afd_def Let_def bind_result_eq_Inr P_def known_requests_def counted_def silent_def split: if_splits)
  have "yields (ClusterManager ac cfg g np) P"
    unfolding ClusterManager_def
    by (rule yields_bindI[where P = "\<lambda>_. True"], simp add: yields_def, rule yields_bindI[OF nodes afd])
      (simp_all add: P_def known_requests_def counted_def silent_def initial_metrics_def)
  then have "P cl" by (rule yieldsD[OF _ assms])
  then show "known_requests cl = []" "counted cl" "silent cl" "request_counter cl = 0" by (simp_all add: P_def)
qed

section \<open>Properties\<close>


text \<open>
  C38. The simulator loses and duplicates no request. When a simulation of a freshly built cluster
  ends without an exception, every generated request \<open>req_1, ..., req_n\<close> is in exactly one of four
  places: a pending arrival event, the active requests, the completed ones, the rejected ones. The
  metrics count the arrived, completed and rejected requests exactly. At most 100000 events were
  processed, and if the event queue ran empty, every generated request has arrived.
\<close>

theorem run_simulation_conserves_requests:
  assumes "ClusterManager ac cfg g np = Inr cl" "run_simulation md5 ts duration fails EventLoop cl = Some (Inr (el', cl'))"
  shows "mset (known_requests cl') + arrivals el' = mset (map request_name [1..<Suc (length ts)]) \<and>
    distinct (known_requests cl') \<and> counted cl' \<and>
    (\<exists>el1 cl1 es s. prepare_simulation ts duration fails EventLoop cl = Inr (el1, cl1) \<and>
       processes (register_event_handlers md5) (el1\<lparr>running := True\<rparr>, cl1) es s \<and> length es \<le> 100000 \<and>
       el' = finish_run (fst s)) \<and>
    (event_queue el' = [] \<longrightarrow> set (known_requests cl') = request_name ` {1..length ts})"
proof -
  let ?M = "mset (map request_name [1..<Suc (length ts)])"
  note fresh = ClusterManager_fresh[OF assms(1)]
  obtain el1 cl1 where p: "prepare_simulation ts duration fails EventLoop cl = Inr (el1, cl1)"
    using assms(2) by (auto simp: run_simulation_def split: sum.splits)
  obtain el2 cl2 where r: "run_loop (register_event_handlers md5) (Fin (duration * 10)) (Some 100000) 0 (el1\<lparr>running := True\<rparr>) cl1 =
      Some (Inr (el2, cl2))" "update_metrics el' (cl2\<lparr>cm_current_time := current_time el'\<rparr>) = Inr cl'" "el' = finish_run el2"
    using assms(2) by (auto simp: run_simulation_def p run_def bind_result_eq_Inr)
  have names: "distinct (map request_name [1..<Suc (length ts)])" by (simp add: distinct_map inj_on_def request_name_def)
  then have once: "\<forall>rid. count ?M rid \<le> 1" by (simp only: distinct_count_atmost_1) auto
  have "arrivals EventLoop = {#}" by (simp add: arrivals_def EventLoop_def)
  then have prep: "loop_ok el1" "calm cl cl1" "arrivals el1 = ?M"
    using yieldsD[OF prepare_spec[OF loop_ok_EventLoop] p] fresh(4) by simp_all
  have start: "accounts ?M (el1\<lparr>running := True\<rparr>) cl1"
    using prep fresh once by (simp add: accounts_def calm_def known_requests_def counted_def arrivals_def)
  obtain es where es: "processes (register_event_handlers md5) (el1\<lparr>running := True\<rparr>, cl1) es (el2, cl2)" "length es \<le> 100000"
    using run_loop_processes[OF r(1) refl] by auto
  have fin: "accounts ?M el2 cl2" using processes_accounts[OF es(1)] start by simp
  have same: "known_requests (cl2\<lparr>cm_current_time := t\<rparr>) = known_requests cl2"
      "counted (cl2\<lparr>cm_current_time := t\<rparr>) = counted cl2" for t
    by (simp_all add: known_requests_def counted_def)
  have "known_requests cl' = known_requests cl2 \<and> counted cl' = counted cl2"
    using yieldsD[OF update_metrics_counts r(2)] same by simp
  moreover have "arrivals el' = arrivals el2" by (simp add: r(3) finish_run_def arrivals_def)
  ultimately have acc: "mset (known_requests cl') + arrivals el' = ?M" "counted cl'" using fin by (simp_all add: accounts_def)
  have "count (mset (known_requests cl')) rid \<le> 1" for rid
    using once[rule_format, of rid] unfolding acc(1)[symmetric] by simp
  then have "distinct (known_requests cl')"
    by (simp add: distinct_count_atmost_1 le_Suc_eq flip: count_mset)
  moreover have "set (known_requests cl') = request_name ` {1..length ts}" if "event_queue el' = []"
  proof -
    have "arrivals el' = {#}" using that by (simp add: arrivals_def)
    then have "set_mset (mset (known_requests cl')) = set_mset ?M" using acc(1) by simp
    moreover have "{1..<Suc (length ts)} = {1..length ts}" by auto
    ultimately show ?thesis by (simp only: set_mset_mset set_map set_upt)
  qed
  moreover have "\<exists>el1 cl1 es s. prepare_simulation ts duration fails EventLoop cl = Inr (el1, cl1) \<and>
       processes (register_event_handlers md5) (el1\<lparr>running := True\<rparr>, cl1) es s \<and> length es \<le> 100000 \<and>
       el' = finish_run (fst s)"
    using p es r(3) by (intro exI[of _ el1] exI[of _ cl1] exI[of _ es] exI[of _ "(el2, cl2)"]) simp
  ultimately show ?thesis using acc by blast
qed

text \<open>A cluster with a decode-only engine: the single request of a one-second simulation is rejected.\<close>

definition decode_only_node :: node_configuration where
  "decode_only_node = sample_node\<lparr>nc_pd_separation := True, nc_pd_decode_only := True\<rparr>"

definition decode_only_config :: cluster_configuration where
  "decode_only_config = \<lparr>cluster_id = ''c0'', cc_nodes = [decode_only_node], scheduler_algorithm = ''round_robin'',
     cc_afd_enabled = False, cc_afd_attention_batch_size = 6, cc_afd_ffn_max_batch_size = 6,
     cc_afd_activation_bandwidth_gbps = 100\<rparr>"

definition zero_rng :: rng where "zero_rng = rng_of_tape (\<lambda>_. 0)"

lemma decode_only_cluster:
  obtains cl e where "ClusterManager (\<lambda>_. None) decode_only_config zero_rng zero_rng = Inr cl"
    "serving_engines cl = [(''n0'', e)]" "pd_separation e" "\<not> pd_prefill_only e" "online_nodes cl = {''n0''}"
    "cm_config cl = decode_only_config" "\<not> afd_enabled cl" "request_counter cl = 0" "cm_np_random cl = zero_rng"
    "cm_active cl = []" "cm_completed cl = []" "cm_rejected cl = []" "metrics cl = initial_metrics"
    "last_metrics_update cl = 0" "metrics_update_interval cl = 1"
proof -
  have "\<exists>spec. map_of hardware_params ''NVDA:RTX3090'' = Some spec" by (simp add: hardware_params_def)
  then obtain e where e: "ServingEngine (\<lambda>_. None) False decode_only_node = Inr e" "pd_separation e" "\<not> pd_prefill_only e"
    by (auto simp: ServingEngine_def decode_only_node_def sample_node_def Let_def)
  have sch: "get_scheduler ''round_robin'' = Inr (PlacementAlgorithm (RoundRobinScheduler 0))" by code_simp
  have n: "node_id decode_only_node = ''n0''" "\<not> nc_afd_attention decode_only_node" "\<not> nc_afd_ffn decode_only_node"
    by (simp_all add: decode_only_node_def sample_node_def)
  let ?cl = "projr (ClusterManager (\<lambda>_. None) decode_only_config zero_rng zero_rng)"
  have cl: "ClusterManager (\<lambda>_. None) decode_only_config zero_rng zero_rng = Inr ?cl"
    by (simp add: ClusterManager_def decode_only_config_def sch add_node_def e(1) init_afd_def n)
  show ?thesis
    by (rule that[OF cl, of "set_event_callback e"])
      (use e(2,3) in \<open>simp_all add: ClusterManager_def decode_only_config_def sch add_node_def e(1) init_afd_def n
        set_event_callback_def\<close>)
qed

lemma run_loop_more:
  "running el \<Longrightarrow> event_queue el \<noteq> [] \<Longrightarrow> \<not> mt < Fin (current_time el) \<Longrightarrow> \<not> budget_spent me n \<Longrightarrow>
   loop_step hs el w = Inr (True, el1, w1) \<Longrightarrow> run_loop hs mt me n el w = run_loop hs mt me (n + 1) el1 w1"
  by (subst run_loop.simps) simp

lemma decode_only_run:
  obtains cl el' cl' where "ClusterManager (\<lambda>_. None) decode_only_config zero_rng zero_rng = Inr cl"
    "run_simulation (\<lambda>_. 0) [0] 1 False EventLoop cl = Some (Inr (el', cl'))" "event_queue el' = []"
    "map rj_reason (cm_rejected cl') = [''no_prefill_engine_available'']"
proof -
  obtain cl e where cl: "ClusterManager (\<lambda>_. None) decode_only_config zero_rng zero_rng = Inr cl"
    "serving_engines cl = [(''n0'', e)]" "pd_separation e" "\<not> pd_prefill_only e" "online_nodes cl = {''n0''}"
    "cm_config cl = decode_only_config" "\<not> afd_enabled cl" "request_counter cl = 0" "cm_np_random cl = zero_rng"
    "cm_active cl = []" "cm_completed cl = []" "cm_rejected cl = []" "metrics cl = initial_metrics"
    "last_metrics_update cl = 0" "metrics_update_interval cl = 1"
    by (rule decode_only_cluster)
  let ?hs = "register_event_handlers (\<lambda>_. 0)" and ?rid = "request_name 1"
  let ?place = "mk_event 0 PLACEMENT_DECISION ''cluster_manager'' (PlacementData ?rid ''prefill'') MEDIUM"
  obtain m inl outl cl1 where p: "prepare_simulation [0] 1 False EventLoop cl = Inr (EventLoop\<lparr>event_queue :=
      [mk_event 0 REQUEST_ARRIVAL ''cluster_manager'' (ArrivalData ?rid m inl outl) MEDIUM]\<rparr>, cl1)"
    "serving_engines cl1 = [(''n0'', e)]" "online_nodes cl1 = {''n0''}" "\<not> afd_enabled cl1" "cm_active cl1 = []"
    "cm_rejected cl1 = []" "last_metrics_update cl1 = 0" "metrics_update_interval cl1 = 1"
    using cl by (auto simp: prepare_simulation_def schedule_request_arrivals_def schedule_arrival_def np_randint_def
        zero_rng_def rng_of_tape_def rng_next_def decode_only_config_def schedule_event_def EventLoop_def mk_event_def
        heappush_def siftdown.simps schedule_balancing.simps)
  let ?el1 = "EventLoop\<lparr>event_queue := [mk_event 0 REQUEST_ARRIVAL ''cluster_manager'' (ArrivalData ?rid m inl outl) MEDIUM], running := True\<rparr>"
  obtain st cl2 where 1: "loop_step ?hs ?el1 cl1 = Inr (True, EventLoop\<lparr>event_queue := [?place], running := True, statistics := st\<rparr>, cl2)"
    "serving_engines cl2 = [(''n0'', e)]" "online_nodes cl2 = {''n0''}" "\<not> afd_enabled cl2" "cm_active cl2 = [?rid]"
    "cm_rejected cl2 = []" "last_metrics_update cl2 = 0" "metrics_update_interval cl2 = 1"
    using p by (auto simp: loop_step_def heappop_def registered_handlers mk_event_def handle_request_arrival_def EventLoop_def
        schedule_event_def heappush_def siftdown.simps Let_def add_trace_def)
  let ?el2 = "EventLoop\<lparr>event_queue := [?place], running := True, statistics := st\<rparr>"
  have none: "candidates ''prefill'' cl2 = []"
    using cl(3,4) 1 by (simp add: candidates_def available_engines_def pd_mode_def)
  obtain st' cl3 where 2: "loop_step ?hs ?el2 cl2 = Inr (True, EventLoop\<lparr>running := True, statistics := st'\<rparr>, cl3)"
    "map rj_reason (cm_rejected cl3) = [''no_prefill_engine_available'']" "last_metrics_update cl3 = 0" "metrics_update_interval cl3 = 1"
    using 1 none by (auto simp: loop_step_def heappop_def registered_handlers mk_event_def handle_placement_decision_def
        data_phase_def reject_request_def EventLoop_def Let_def add_trace_def)
  let ?el3 = "EventLoop\<lparr>running := True, statistics := st'\<rparr>"
  have "run_loop ?hs (Fin (1 * 10)) (Some 100000) 0 ?el1 cl1 = run_loop ?hs (Fin (1 * 10)) (Some 100000) (0 + 1) ?el2 cl2"
    by (rule run_loop_more[OF _ _ _ _ 1(1)]) (simp_all add: EventLoop_def budget_spent_def)
  also have "\<dots> = run_loop ?hs (Fin (1 * 10)) (Some 100000) (0 + 1 + 1) ?el3 cl3"
    by (rule run_loop_more[OF _ _ _ _ 2(1)]) (simp_all add: EventLoop_def budget_spent_def)
  also have "\<dots> = Some (Inr (?el3, cl3))" by (subst run_loop.simps) (simp add: EventLoop_def)
  finally have "run_simulation (\<lambda>_. 0) [0] 1 False EventLoop cl =
      Some (Inr (finish_run ?el3, cl3\<lparr>cm_current_time := 0\<rparr>))"
    using p(1) 2(3,4) by (simp add: run_simulation_def run_def update_metrics_def finish_run_def EventLoop_def)
  then show ?thesis by (rule that[OF cl(1)]) (use 2(2) in \<open>simp_all add: finish_run_def EventLoop_def\<close>)
qed

theorem run_simulation_conserves_requests_witness:
  "\<exists>cl el' cl'. ClusterManager (\<lambda>_. None) decode_only_config zero_rng zero_rng = Inr cl \<and>
     run_simulation (\<lambda>_. 0) [0] 1 False EventLoop cl = Some (Inr (el', cl')) \<and>
     map rj_reason (cm_rejected cl') = [''no_prefill_engine_available''] \<and> set (known_requests cl') = {request_name 1}"
proof -
  obtain cl el' cl' where r: "ClusterManager (\<lambda>_. None) decode_only_config zero_rng zero_rng = Inr cl"
    "run_simulation (\<lambda>_. 0) [0] 1 False EventLoop cl = Some (Inr (el', cl'))" "event_queue el' = []"
    "map rj_reason (cm_rejected cl') = [''no_prefill_engine_available'']"
    by (rule decode_only_run)
  have "event_queue el' = [] \<longrightarrow> set (known_requests cl') = request_name ` {1..length [0 :: real]}"
    by (intro run_simulation_conserves_requests[OF r(1,2), THEN conjunct2, THEN conjunct2, THEN conjunct2, THEN conjunct2])
  moreover have "{1..length [0 :: real]} = {1}" by simp
  ultimately have "set (known_requests cl') = {request_name 1}" using r(3) by (simp only: simp_thms image_insert image_empty)
  then show ?thesis by (intro exI[of _ cl] exI[of _ el'] exI[of _ cl'] conjI r(1,2,4))
qed

end
