(* ===== verification/Arrival_Process.thy ===== *)
theory Arrival_Process
  imports Hexgen_Prelude
begin

text \<open>
  The arrival processes of the simulator, \<open>src/scheduler/simulator/core/arrival.py\<close>.
  \<open>numpy.random.gamma\<close> is a parameter: \<open>gamma shape scale k\<close> is the \<open>k\<close>-th sample drawn after the
  seeding of the generator. Samples are drawn in blocks; the loop over them ends only if their
  sums reach the end of the window, so it is a partial function. The lemmas identify the result
  with the partial sums below the end.
\<close>

section \<open>Deterministic arrivals\<close>

definition deterministic_arrivals :: "real \<Rightarrow> real \<Rightarrow> real \<Rightarrow> real list result" where
  "deterministic_arrivals rate start duration =
     (let n_requests = py_int (duration * rate) in
      bind_result (true_div 1 rate) (\<lambda>interval. Inr (map (\<lambda>i. start + real i * interval) [0..<nat n_requests])))"

lemma deterministic_arrivals_window:
  assumes "0 < rate" "0 \<le> duration"
  obtains ts where "deterministic_arrivals rate start duration = Inr ts" "int (length ts) = \<lfloor>duration * rate\<rfloor>"
    "sorted ts" "\<forall>t \<in> set ts. start \<le> t \<and> t < start + duration"
proof -
  let ?ts = "map (\<lambda>i. start + real i * (1 / rate)) [0..<nat \<lfloor>duration * rate\<rfloor>]"
  have r: "0 \<le> duration * rate" using assms by simp
  have "py_int (duration * rate) = \<lfloor>duration * rate\<rfloor>" using r by (simp add: py_int_def)
  then have "deterministic_arrivals rate start duration = Inr ?ts" using assms(1) by (simp add: deterministic_arrivals_def Let_def)
  moreover have "int (length ?ts) = \<lfloor>duration * rate\<rfloor>" using r by simp
  moreover have "sorted ?ts"
    unfolding sorted_iff_nth_mono using assms(1) by (auto simp: divide_right_mono)
  moreover have "\<forall>t \<in> set ?ts. start \<le> t \<and> t < start + duration"
  proof
    fix t assume "t \<in> set ?ts"
    then obtain i where i: "t = start + real i / rate" "i < nat \<lfloor>duration * rate\<rfloor>" by fastforce
    then have "int i + 1 \<le> \<lfloor>duration * rate\<rfloor>" by linarith
    then have "real i + 1 \<le> duration * rate" by (simp add: le_floor_iff)
    then have "real i / rate < duration" using assms(1) by (simp add: pos_divide_less_eq)
    then show "start \<le> t \<and> t < start + duration" using i(1) assms(1) by simp
  qed
  ultimately show ?thesis by (rule that)
qed

section \<open>Gamma arrivals\<close>

record gamma_process =
  gp_rate :: real
  gp_cv :: real
  gp_shape :: real
  gp_scale :: real

definition GammaProcess :: "real \<Rightarrow> real \<Rightarrow> gamma_process result" where
  "GammaProcess rate cv =
     bind_result (true_div 1 (cv * cv)) (\<lambda>shape. bind_result (true_div (cv * cv) rate) (\<lambda>scale.
       Inr \<lparr>gp_rate = rate, gp_cv = cv, gp_shape = shape, gp_scale = scale\<rparr>))"

definition PoissonProcess :: "real \<Rightarrow> gamma_process result" where
  "PoissonProcess rate = GammaProcess rate 1"

text \<open>\<open>base\<close> samples were drawn in earlier blocks; \<open>pt\<close> is the position in the current one.\<close>

partial_function (option) gamma_loop ::
  "(nat \<Rightarrow> real) \<Rightarrow> nat \<Rightarrow> real \<Rightarrow> nat \<Rightarrow> nat \<Rightarrow> real \<Rightarrow> real list \<Rightarrow> real list option" where
  "gamma_loop sample batch_size finish base pt cur ticks =
     (if \<not> cur < finish then Some ticks
      else let base' = (if batch_size \<le> pt + 1 then base + batch_size else base);
               pt' = (if batch_size \<le> pt + 1 then 0 else pt + 1)
           in gamma_loop sample batch_size finish base' pt' (cur + sample (base' + pt')) (ticks @ [cur]))"

definition gamma_arrivals :: "(real \<Rightarrow> real \<Rightarrow> nat \<Rightarrow> real) \<Rightarrow> gamma_process \<Rightarrow> real \<Rightarrow> real \<Rightarrow> real list option" where
  "gamma_arrivals gamma gp start duration =
     (let batch_size = nat (max (py_int (gp_rate gp * duration * (12 / 10))) 1);
          sample = gamma (gp_shape gp) (gp_scale gp)
      in gamma_loop sample batch_size (start + duration) 0 0 (start + sample 0) [])"

definition arrival_time :: "(nat \<Rightarrow> real) \<Rightarrow> real \<Rightarrow> nat \<Rightarrow> real" where
  "arrival_time sample start k = start + (\<Sum>i \<le> k. sample i)"

lemma gamma_loop_spec:
  assumes "pt < batch_size" "base + pt \<le> n" "finish \<le> arrival_time sample start n"
    "\<forall>k < n. arrival_time sample start k < finish"
  shows "gamma_loop sample batch_size finish base pt (arrival_time sample start (base + pt)) ticks =
    Some (ticks @ map (arrival_time sample start) [base + pt..<n])"
  using assms(1,2)
proof (induction "n - (base + pt)" arbitrary: base pt ticks)
  case 0
  then have "base + pt = n" by simp
  then show ?case using assms(3) by (subst gamma_loop.simps) simp
next
  case (Suc d)
  let ?base = "if batch_size \<le> pt + 1 then base + batch_size else base"
  let ?pt = "if batch_size \<le> pt + 1 then 0 else pt + 1"
  have nxt: "?base + ?pt = Suc (base + pt)" "?pt < batch_size" using Suc.prems by auto
  have less: "base + pt < n" using Suc.hyps(2) by simp
  have "arrival_time sample start (base + pt) + sample (?base + ?pt) = arrival_time sample start (?base + ?pt)"
    unfolding nxt(1) by (simp add: arrival_time_def)
  moreover have "gamma_loop sample batch_size finish ?base ?pt (arrival_time sample start (?base + ?pt))
      (ticks @ [arrival_time sample start (base + pt)]) =
      Some ((ticks @ [arrival_time sample start (base + pt)]) @ map (arrival_time sample start) [?base + ?pt..<n])"
    using Suc.hyps(2) nxt less by (intro Suc.hyps(1)) auto
  moreover have "[base + pt..<n] = (base + pt) # [Suc (base + pt)..<n]" using less by (simp add: upt_rec)
  ultimately show ?case
    using less assms(4) nxt(1) by (subst gamma_loop.simps) (simp add: Let_def)
qed

text \<open>
  \<open>GammaProcess.generate_arrivals\<close> (and so the Poisson process) returns as soon as the sums of
  the samples reach the end of the window, and its result is the list of the partial sums before
  that, each sample used once and in order although they are drawn in blocks. When samples are
  not negative the times are in order and lie in the window.
\<close>

theorem gamma_arrivals_partial_sums:
  assumes "start + duration \<le> arrival_time (gamma (gp_shape gp) (gp_scale gp)) start n"
    "\<forall>k < n. arrival_time (gamma (gp_shape gp) (gp_scale gp)) start k < start + duration"
  shows "\<exists>ts. gamma_arrivals gamma gp start duration = Some ts \<and>
    ts = map (arrival_time (gamma (gp_shape gp) (gp_scale gp)) start) [0..<n] \<and>
    ((\<forall>k. 0 \<le> gamma (gp_shape gp) (gp_scale gp) k) \<longrightarrow> sorted ts \<and> (\<forall>t \<in> set ts. start \<le> t \<and> t < start + duration))"
proof -
  let ?s = "gamma (gp_shape gp) (gp_scale gp)"
  have "gamma_arrivals gamma gp start duration = Some (map (arrival_time ?s start) [0..<n])"
    using gamma_loop_spec[OF _ _ assms, of 0 _ 0 "[]"] by (simp add: gamma_arrivals_def Let_def arrival_time_def)
  moreover have "sorted (map (arrival_time ?s start) [0..<n])" if "\<forall>k. 0 \<le> ?s k"
    unfolding sorted_iff_nth_mono using that by (auto simp: arrival_time_def intro!: sum_mono2)
  moreover have "start \<le> arrival_time ?s start k" if "\<forall>k. 0 \<le> ?s k" for k
    using that by (simp add: arrival_time_def sum_nonneg)
  ultimately show ?thesis using assms(2) by auto
qed

text \<open>Samples of one half in a window of one second from time three.\<close>

theorem gamma_arrivals_partial_sums_witness:
  "gamma_arrivals (\<lambda>_ _ _. 1 / 2) \<lparr>gp_rate = 2, gp_cv = 1, gp_shape = 1, gp_scale = 1 / 2\<rparr> 3 1 = Some [7 / 2]"
proof -
  have "arrival_time (\<lambda>_. 1 / 2) 3 0 = 7 / 2" "arrival_time (\<lambda>_. 1 / 2) 3 1 = 4" by (simp_all add: arrival_time_def)
  then show ?thesis
    using gamma_arrivals_partial_sums[of 3 1 "\<lambda>_ _ _. 1 / 2" "\<lparr>gp_rate = 2, gp_cv = 1, gp_shape = 1, gp_scale = 1 / 2\<rparr>" 1]
    by simp
qed

end
