(* ===== verification/Cluster_Config.thy ===== *)
theory Cluster_Config
  imports Framework Cluster_Manager
begin

text \<open>
  The bridge from the scheduler to the simulator: \<open>build_afd_cluster_config\<close> and
  \<open>build_pd_cluster_config\<close> of \<open>scheduling/framework.py\<close> turn a deployment plan into the
  configuration that \<open>core/cluster_manager.py\<close> starts a cluster from, one node per replica.
  \<open>NodeConfiguration\<close> is the dataclass constructor with its defaults.

  The lemmas show that node names never clash, whatever the hardware names, that the nodes hold
  exactly the GPUs of the plan, and that the cluster manager starts on the configuration with
  one engine per node.
\<close>

section \<open>Configurations\<close>

definition NodeConfiguration :: "string \<Rightarrow> string \<Rightarrow> string \<Rightarrow> node_configuration" where
  "NodeConfiguration nid model hardware =
     \<lparr>node_id = nid, nc_model_id = model, nc_hardware = hardware, nc_max_batch_size = None, nc_parallel_config = NoConfig,
      nc_disable_attention = False, nc_disable_ffn = False, nc_pd_separation = False, nc_pd_prefill_only = False,
      nc_pd_decode_only = False, nc_kv_transfer_bandwidth_gbps = 100, nc_afd_attention = False, nc_afd_ffn = False,
      nc_afd_activation_bandwidth_gbps = 100, nc_afd_enabled = False\<rparr>"

definition ClusterConfiguration :: "string \<Rightarrow> node_configuration list \<Rightarrow> string \<Rightarrow> cluster_configuration" where
  "ClusterConfiguration cid nodes algorithm =
     \<lparr>cluster_id = cid, cc_nodes = nodes, scheduler_algorithm = algorithm, cc_afd_enabled = False,
      cc_afd_attention_batch_size = 6, cc_afd_ffn_max_batch_size = 6, cc_afd_activation_bandwidth_gbps = 100\<rparr>"

text \<open>\<open>ParallelConfig(tensor_parallel_size=tp)\<close>\<close>

definition tp_config :: "int \<Rightarrow> parallel_arg" where
  "tp_config tp = ConfigArg \<lparr>tensor_parallel_size = tp, pipeline_parallel_size = 1\<rparr>"

definition sorted_items :: "(slice_key, strategy) dict \<Rightarrow> (slice_key \<times> strategy) list" where
  "sorted_items d = sort_key fst d"

section \<open>Attention-FFN disaggregation\<close>

definition afd_node :: "framework \<Rightarrow> string \<Rightarrow> string \<Rightarrow> nat \<Rightarrow> replica \<Rightarrow> node_configuration list" where
  "afd_node fw worker hardware idx r =
     (if worker = ''pre'' then
        [(NodeConfiguration (hardware @ ''_pre_'' @ show_nat idx) (fw_model_id fw) hardware)
           \<lparr>nc_max_batch_size := Some 1, nc_parallel_config := tp_config (r_tp r), nc_pd_separation := True,
            nc_pd_prefill_only := True, nc_kv_transfer_bandwidth_gbps := fw_kv_transfer_bandwidth_gbps fw\<rparr>]
      else if worker = ''attn'' then
        [(NodeConfiguration (hardware @ ''_attn_'' @ show_nat idx) (fw_model_id fw) hardware)
           \<lparr>nc_max_batch_size := Some (max 1 (r_tp r * 4)), nc_parallel_config := tp_config (r_tp r),
            nc_pd_separation := True, nc_pd_decode_only := True,
            nc_kv_transfer_bandwidth_gbps := fw_kv_transfer_bandwidth_gbps fw, nc_afd_attention := True,
            nc_afd_enabled := True\<rparr>]
      else if worker = ''ffn'' then
        [(NodeConfiguration (hardware @ ''_ffn_'' @ show_nat idx) (fw_model_id fw) hardware)
           \<lparr>nc_max_batch_size := Some (max 1 (r_tp r * 4)), nc_parallel_config := tp_config (r_tp r),
            nc_pd_separation := True, nc_pd_decode_only := True,
            nc_kv_transfer_bandwidth_gbps := fw_kv_transfer_bandwidth_gbps fw, nc_afd_ffn := True,
            nc_afd_enabled := True\<rparr>]
      else [])"

definition slice_nodes ::
  "(string \<Rightarrow> string \<Rightarrow> nat \<Rightarrow> replica \<Rightarrow> node_configuration list) \<Rightarrow> slice_key \<times> strategy \<Rightarrow> node_configuration list" where
  "slice_nodes mk item =
     (case item of ((worker, hardware), s) \<Rightarrow>
        concat (map (\<lambda>(idx, r). mk worker hardware idx r) (List.enumerate 0 (s_replicas s))))"

definition max_worker_batch :: "plan \<Rightarrow> string \<Rightarrow> int" where
  "max_worker_batch p worker_type =
     (let batches = concat (map (\<lambda>((worker, h), s).
            if worker = worker_type then map (\<lambda>r. max 1 (r_tp r * 4)) (s_replicas s) else []) (p_parallelism p))
      in if batches = [] then 1 else max_int batches)"

definition build_afd_cluster_config :: "framework \<Rightarrow> plan \<Rightarrow> cluster_configuration" where
  "build_afd_cluster_config fw p =
     (ClusterConfiguration ''hexgen3_scheduled_afd''
        (concat (map (slice_nodes (afd_node fw)) (sorted_items (p_parallelism p)))) (fw_routing_policy fw))
       \<lparr>cc_afd_enabled := True, cc_afd_attention_batch_size := max 1 (max_worker_batch p ''attn''),
        cc_afd_ffn_max_batch_size := max 1 (max_worker_batch p ''ffn''),
        cc_afd_activation_bandwidth_gbps := fw_activation_bandwidth_gbps fw\<rparr>"

section \<open>Prefill-decode separation\<close>

definition pd_node :: "framework \<Rightarrow> string \<Rightarrow> string \<Rightarrow> nat \<Rightarrow> replica \<Rightarrow> node_configuration list" where
  "pd_node fw worker hardware idx r =
     (if worker = ''pre'' then
        [(NodeConfiguration (hardware @ ''_prefill_'' @ show_nat idx) (fw_model_id fw) hardware)
           \<lparr>nc_parallel_config := tp_config (r_tp r), nc_pd_separation := True, nc_pd_prefill_only := True,
            nc_kv_transfer_bandwidth_gbps := fw_kv_transfer_bandwidth_gbps fw\<rparr>]
      else if worker \<in> {''attn'', ''ffn''} then
        [(NodeConfiguration (hardware @ ''_decode_'' @ worker @ ''_'' @ show_nat idx) (fw_model_id fw) hardware)
           \<lparr>nc_max_batch_size := Some (max 1 (r_tp r * 4)), nc_parallel_config := tp_config (r_tp r),
            nc_pd_separation := True, nc_pd_decode_only := True,
            nc_kv_transfer_bandwidth_gbps := fw_kv_transfer_bandwidth_gbps fw\<rparr>]
      else [])"

definition build_pd_cluster_config :: "framework \<Rightarrow> plan \<Rightarrow> cluster_configuration" where
  "build_pd_cluster_config fw p =
     ClusterConfiguration ''hexgen3_scheduled_pd''
       (concat (map (slice_nodes (pd_node fw)) (sorted_items (p_parallelism p)))) (fw_routing_policy fw)"

section \<open>Names of nodes\<close>

lemma name_unique:
  assumes "x @ CHR ''_'' # role @ CHR ''_'' # show_nat i = x' @ CHR ''_'' # role' @ CHR ''_'' # show_nat i'"
    and "CHR ''_'' \<notin> set role" "CHR ''_'' \<notin> set role'"
  shows "x = x' \<and> role = role' \<and> i = i'"
proof -
  have "x @ CHR ''_'' # role = x' @ CHR ''_'' # role' \<and> show_nat i = show_nat i'"
    using last_separator_unique[of "x @ CHR ''_'' # role" "CHR ''_''" "show_nat i" "x' @ CHR ''_'' # role'" "show_nat i'"]
      assms(1) underscore_not_digit by simp
  then show ?thesis using last_separator_unique[of x "CHR ''_''" role x' role'] assms(2,3) by simp
qed

text \<open>A builder of nodes: one node per replica of a known worker type, under an injective name.\<close>

definition names_nodes ::
  "(string \<Rightarrow> string \<Rightarrow> nat \<Rightarrow> replica \<Rightarrow> node_configuration list) \<Rightarrow> (string \<Rightarrow> string \<Rightarrow> nat \<Rightarrow> string) \<Rightarrow> bool" where
  "names_nodes mk nm \<longleftrightarrow>
     (\<forall>w \<in> set WORKER_TYPES. \<forall>h i r. map node_id (mk w h i r) = [nm w h i]) \<and>
     (\<forall>w \<in> set WORKER_TYPES. \<forall>w' \<in> set WORKER_TYPES. \<forall>h h' i i'.
        nm w h i = nm w' h' i' \<longrightarrow> w = w' \<and> h = h' \<and> i = i')"

definition slice_names :: "(string \<Rightarrow> string \<Rightarrow> nat \<Rightarrow> string) \<Rightarrow> slice_key \<times> strategy \<Rightarrow> string list" where
  "slice_names nm item = (case item of ((w, h), s) \<Rightarrow> map (nm w h) [0..<length (s_replicas s)])"

definition keys_known :: "(slice_key \<times> strategy) list \<Rightarrow> bool" where
  "keys_known items \<longleftrightarrow> (\<forall>((w, h), s) \<in> set items. w \<in> set WORKER_TYPES)"

lemma slice_nodes_names:
  assumes "names_nodes mk nm" "w \<in> set WORKER_TYPES"
  shows "map node_id (slice_nodes mk ((w, h), s)) = slice_names nm ((w, h), s)"
proof -
  have name: "map node_id (mk w h i r) = [nm w h i]" for i r using assms unfolding names_nodes_def by blast
  have "map node_id (slice_nodes mk ((w, h), s)) =
      concat (map (\<lambda>(i, r). map node_id (mk w h i r)) (List.enumerate 0 (s_replicas s)))"
    by (simp add: slice_nodes_def map_concat split_def comp_def)
  also have "\<dots> = concat (map (\<lambda>x. [nm w h (fst x)]) (List.enumerate 0 (s_replicas s)))"
    by (simp add: name split_def)
  also have "\<dots> = map (nm w h) (map fst (List.enumerate 0 (s_replicas s)))"
    unfolding map_map by (induction "List.enumerate 0 (s_replicas s)") simp_all
  finally show ?thesis unfolding map_fst_enumerate by (simp add: slice_names_def)
qed

lemma slice_names_mem: "x \<in> set (slice_names nm ((w, h), s)) \<Longrightarrow> \<exists>i. x = nm w h i"
  by (auto simp: slice_names_def)

lemma names_distinct:
  assumes "names_nodes mk nm"
  shows "distinct (map fst items) \<Longrightarrow> keys_known items \<Longrightarrow> distinct (concat (map (slice_names nm) items))"
proof (induction items)
  case (Cons item items)
  obtain w h s where item: "item = ((w, h), s)" by (metis prod.exhaust)
  have w: "w \<in> set WORKER_TYPES" and known: "keys_known items" using Cons.prems by (auto simp: keys_known_def item)
  have inj: "nm w h i = nm w' h' j \<Longrightarrow> w' \<in> set WORKER_TYPES \<Longrightarrow> w = w' \<and> h = h' \<and> i = j" for w' h' i j
    using assms w unfolding names_nodes_def by blast
  have "distinct (slice_names nm item)" using inj[OF _ w] by (auto simp: slice_names_def item distinct_map inj_on_def)
  moreover have "set (slice_names nm item) \<inter> set (concat (map (slice_names nm) items)) = {}"
  proof (rule ccontr)
    assume "\<not> ?thesis"
    then obtain x w' h' s' where x: "x \<in> set (slice_names nm item)" "((w', h'), s') \<in> set items"
        "x \<in> set (slice_names nm ((w', h'), s'))" by fastforce
    then have "w' \<in> set WORKER_TYPES" using known by (auto simp: keys_known_def)
    moreover obtain i j where "x = nm w h i" "x = nm w' h' j" using x(1,3) slice_names_mem unfolding item by metis
    ultimately have "w = w' \<and> h = h' \<and> i = j" by (intro inj) simp_all
    then have "(w, h) = (w', h')" by simp
    then show False using x(2) Cons.prems(1) by (force simp: item)
  qed
  ultimately show ?case using Cons.IH Cons.prems(1) known by simp
qed simp

lemma nodes_names:
  assumes "names_nodes mk nm" "keys_known items"
  shows "map node_id (concat (map (slice_nodes mk) items)) = concat (map (slice_names nm) items)"
  using assms(2)
proof (induction items)
  case (Cons item items)
  obtain w h s where item: "item = ((w, h), s)" by (metis prod.exhaust)
  then show ?case using Cons slice_nodes_names[OF assms(1), of w h s] by (simp add: keys_known_def)
qed simp

lemma sorted_items_spec: "set (sorted_items d) = set d" "distinct (map fst d) \<Longrightarrow> distinct (map fst (sorted_items d))"
  "keys_known (sorted_items d) \<longleftrightarrow> keys_known d"
  by (simp_all add: sorted_items_def keys_known_def distinct_map inj_on_def)

lemma afd_names: "names_nodes (afd_node fw) (\<lambda>w h i. h @ CHR ''_'' # w @ CHR ''_'' # show_nat i)"
  unfolding names_nodes_def
proof (intro conjI ballI allI impI)
  fix w w' :: string and h h' :: string and i i' :: nat
  assume "w \<in> set WORKER_TYPES" "w' \<in> set WORKER_TYPES"
    "h @ CHR ''_'' # w @ CHR ''_'' # show_nat i = h' @ CHR ''_'' # w' @ CHR ''_'' # show_nat i'"
  then have "h = h' \<and> w = w' \<and> i = i'" by (intro name_unique) (auto simp: WORKER_TYPES_def)
  then show "w = w'" "h = h'" "i = i'" by simp_all
qed (auto simp: afd_node_def WORKER_TYPES_def NodeConfiguration_def)

definition pd_name :: "string \<Rightarrow> string \<Rightarrow> nat \<Rightarrow> string" where
  "pd_name w h i = (if w = ''pre'' then h @ ''_prefill_'' @ show_nat i else h @ ''_decode_'' @ w @ ''_'' @ show_nat i)"

lemma pd_names: "names_nodes (pd_node fw) pd_name"
proof -
  define base where "base w h = (if w = ''pre'' then h else h @ ''_decode'')" for w h :: string
  define role where "role w = (if w = ''pre'' then ''prefill'' else w)" for w :: string
  have nm: "pd_name w h i = base w h @ CHR ''_'' # role w @ CHR ''_'' # show_nat i" for w h i
    by (simp add: pd_name_def base_def role_def)
  have role: "CHR ''_'' \<notin> set (role w)" if "w \<in> set WORKER_TYPES" for w using that by (auto simp: role_def WORKER_TYPES_def)
  have "w = w' \<and> h = h' \<and> i = i'" if w: "w \<in> set WORKER_TYPES" "w' \<in> set WORKER_TYPES" "pd_name w h i = pd_name w' h' i'" for w w' h h' i i'
  proof -
    have eq: "base w h = base w' h' \<and> role w = role w' \<and> i = i'"
      using w unfolding nm by (intro name_unique role)
    then have "w = w'" using w(1,2) by (auto simp: role_def WORKER_TYPES_def split: if_splits)
    then show ?thesis using eq by (simp add: base_def split: if_splits)
  qed
  moreover have "map node_id (pd_node fw w h i r) = [pd_name w h i]" if "w \<in> set WORKER_TYPES" for w h i r
    using that by (auto simp: pd_node_def pd_name_def WORKER_TYPES_def NodeConfiguration_def)
  ultimately show ?thesis unfolding names_nodes_def by blast
qed

lemma config_names_distinct:
  assumes "wf_dict d" "keys_known d" "names_nodes mk nm"
  shows "distinct (map node_id (concat (map (slice_nodes mk) (sorted_items d))))"
  using assms names_distinct[OF assms(3), of "sorted_items d"] nodes_names[OF assms(3), of "sorted_items d"]
  by (simp add: sorted_items_spec wf_dict_def)

section \<open>GPUs of nodes\<close>

text \<open>The GPUs an engine takes from its parallel configuration, and the worker type a node serves.\<close>

definition node_gpus :: "node_configuration \<Rightarrow> int" where
  "node_gpus nc = (case normalize_parallel_config (nc_parallel_config nc) of
     Inl _ \<Rightarrow> 0 | Inr c \<Rightarrow> tensor_parallel_size c * pipeline_parallel_size c)"

definition afd_worker :: "node_configuration \<Rightarrow> string" where
  "afd_worker nc = (if nc_afd_attention nc then ''attn'' else if nc_afd_ffn nc then ''ffn'' else ''pre'')"

definition gpus_where :: "(node_configuration \<Rightarrow> bool) \<Rightarrow> node_configuration list \<Rightarrow> int" where
  "gpus_where P ncs = sum_list (map node_gpus (filter P ncs))"

lemma gpus_where_append [simp]: "gpus_where P (xs @ ys) = gpus_where P xs + gpus_where P ys"
  by (simp add: gpus_where_def)

lemma gpus_where_nil [simp]: "gpus_where P [] = 0"
  by (simp add: gpus_where_def)

text \<open>A predicate on nodes that only looks at the slice a node belongs to.\<close>

definition slice_predicate :: "(string \<Rightarrow> string \<Rightarrow> nat \<Rightarrow> replica \<Rightarrow> node_configuration list) \<Rightarrow>
  (node_configuration \<Rightarrow> bool) \<Rightarrow> (slice_key \<Rightarrow> bool) \<Rightarrow> bool" where
  "slice_predicate mk P Q \<longleftrightarrow> (\<forall>w \<in> set WORKER_TYPES. \<forall>h i r. 0 < r_tp r \<longrightarrow>
     gpus_where P (mk w h i r) = (if Q (w, h) then r_tp r else 0))"

lemma slice_gpus:
  assumes "slice_predicate mk P Q" "w \<in> set WORKER_TYPES" "list_all wf_replica (s_replicas s)"
  shows "gpus_where P (slice_nodes mk ((w, h), s)) = (if Q (w, h) then strategy_gpus s else 0)"
proof -
  have "gpus_where P (concat (map (\<lambda>(i, r). mk w h i r) (List.enumerate n rs))) =
      (if Q (w, h) then sum_list (map r_tp rs) else 0)" if "list_all wf_replica rs" for n rs
    using that
  proof (induction rs arbitrary: n)
    case (Cons r rs)
    have "0 < r_tp r" using Cons.prems by (simp add: wf_replica_def)
    then have "gpus_where P (mk w h n r) = (if Q (w, h) then r_tp r else 0)"
      using assms(1,2) unfolding slice_predicate_def by blast
    then show ?case using Cons by simp
  qed simp
  then show ?thesis using assms(3) by (simp add: slice_nodes_def strategy_gpus_def replica_gpus_def[abs_def])
qed

definition items_ok :: "(slice_key \<times> strategy) list \<Rightarrow> bool" where
  "items_ok items \<longleftrightarrow> keys_known items \<and> (\<forall>(k, s) \<in> set items. wf_strategy s)"

lemma config_gpus:
  assumes "slice_predicate mk P Q" "items_ok items"
  shows "gpus_where P (concat (map (slice_nodes mk) items)) = sum_list (map (\<lambda>(k, s). if Q k then strategy_gpus s else 0) items)"
  using assms(2)
proof (induction items)
  case (Cons item items)
  obtain w h s where item: "item = ((w, h), s)" by (metis prod.exhaust)
  have "gpus_where P (slice_nodes mk item) = (if Q (w, h) then strategy_gpus s else 0)"
    unfolding item using Cons.prems by (intro slice_gpus[OF assms(1)]) (auto simp: items_ok_def keys_known_def wf_strategy_def item)
  then show ?case using Cons by (simp add: items_ok_def keys_known_def item)
qed simp

lemma sum_one_key:
  fixes f :: "'s \<Rightarrow> int"
  assumes "distinct (map fst items)"
  shows "sum_list (map (\<lambda>(k, s). if k = key then f s else 0) items) = (case map_of items key of None \<Rightarrow> 0 | Some s \<Rightarrow> f s)"
  using assms
proof (induction items)
  case (Cons item items)
  obtain k s where item: "item = (k, s)" by (cases item)
  have "map_of items key = None" if "k = key" using Cons.prems that by (simp add: item map_of_eq_None_iff)
  then show ?case using Cons by (auto simp: item)
qed simp

lemma map_of_sorted_items: "wf_dict d \<Longrightarrow> map_of (sorted_items d) = map_of d"
proof
  fix k assume "wf_dict d"
  then have d: "distinct (map fst d)" "distinct (map fst (sorted_items d))"
    using sorted_items_spec(2) by (auto simp: wf_dict_def)
  show "map_of (sorted_items d) k = map_of d k"
  proof (cases "map_of d k")
    case None
    then have "map_of (sorted_items d) k = None" by (simp add: map_of_eq_None_iff sorted_items_spec(1))
    then show ?thesis using None by simp
  next
    case (Some s)
    then have "(k, s) \<in> set (sorted_items d)" using map_of_SomeD sorted_items_spec(1) by metis
    then show ?thesis using d(2) Some by simp
  qed
qed

lemma afd_predicate:
  "slice_predicate (afd_node fw) (\<lambda>nc. afd_worker nc = w \<and> nc_hardware nc = h) (\<lambda>k. k = (w, h))"
  by (auto simp: slice_predicate_def WORKER_TYPES_def afd_node_def NodeConfiguration_def gpus_where_def afd_worker_def
      node_gpus_def tp_config_def normalize_parallel_config_def with_defaults_def)

lemma pd_predicates:
  "slice_predicate (pd_node fw) (\<lambda>nc. nc_pd_prefill_only nc \<and> nc_hardware nc = h) (\<lambda>k. k = (''pre'', h))"
  "slice_predicate (pd_node fw) (\<lambda>nc. nc_pd_decode_only nc \<and> nc_hardware nc = h) (\<lambda>k. k = (''attn'', h) \<or> k = (''ffn'', h))"
  by (auto simp: slice_predicate_def WORKER_TYPES_def pd_node_def NodeConfiguration_def gpus_where_def
      node_gpus_def tp_config_def normalize_parallel_config_def with_defaults_def)

text \<open>The GPUs that a plan's strategies use of a slice.\<close>

definition planned_gpus :: "plan \<Rightarrow> string \<Rightarrow> string \<Rightarrow> int" where
  "planned_gpus p w h = (case map_of (p_parallelism p) (w, h) of None \<Rightarrow> 0 | Some s \<Rightarrow> strategy_gpus s)"

definition plan_shape :: "plan \<Rightarrow> bool" where
  "plan_shape p \<longleftrightarrow> wf_dict (p_parallelism p) \<and> items_ok (p_parallelism p)"

lemma sorted_items_ok: "items_ok (sorted_items d) \<longleftrightarrow> items_ok d"
  by (simp add: items_ok_def sorted_items_spec)

lemma planned_sum:
  assumes "plan_shape p"
  shows "sum_list (map (\<lambda>(k, s). if k = (w, h) then strategy_gpus s else 0) (sorted_items (p_parallelism p))) = planned_gpus p w h"
  using assms sum_one_key[OF sorted_items_spec(2), of "p_parallelism p" "(w, h)" strategy_gpus]
  by (simp add: plan_shape_def wf_dict_def map_of_sorted_items planned_gpus_def)

lemma afd_config_gpus:
  assumes "plan_shape p"
  shows "gpus_where (\<lambda>nc. afd_worker nc = w \<and> nc_hardware nc = h) (cc_nodes (build_afd_cluster_config fw p)) = planned_gpus p w h"
  using config_gpus[OF afd_predicate[of fw w h], of "sorted_items (p_parallelism p)"] planned_sum[OF assms] assms
  by (simp add: build_afd_cluster_config_def ClusterConfiguration_def sorted_items_ok plan_shape_def)

lemma pd_config_gpus:
  assumes "plan_shape p"
  shows "gpus_where (\<lambda>nc. nc_pd_prefill_only nc \<and> nc_hardware nc = h) (cc_nodes (build_pd_cluster_config fw p)) =
      planned_gpus p ''pre'' h"
    "gpus_where (\<lambda>nc. nc_pd_decode_only nc \<and> nc_hardware nc = h) (cc_nodes (build_pd_cluster_config fw p)) =
      planned_gpus p ''attn'' h + planned_gpus p ''ffn'' h"
proof -
  let ?items = "sorted_items (p_parallelism p)"
  have ok: "items_ok ?items" using assms by (simp add: sorted_items_ok plan_shape_def)
  have nodes: "cc_nodes (build_pd_cluster_config fw p) = concat (map (slice_nodes (pd_node fw)) ?items)"
    by (simp add: build_pd_cluster_config_def ClusterConfiguration_def)
  show "gpus_where (\<lambda>nc. nc_pd_prefill_only nc \<and> nc_hardware nc = h) (cc_nodes (build_pd_cluster_config fw p)) =
      planned_gpus p ''pre'' h"
    unfolding nodes config_gpus[OF pd_predicates(1) ok] by (rule planned_sum[OF assms])
  have "(\<lambda>(k, s). if k = (''attn'', h) \<or> k = (''ffn'', h) then strategy_gpus s else 0) =
      (\<lambda>x. (case x of (k, s) \<Rightarrow> if k = (''attn'', h) then strategy_gpus s else 0) +
           (case x of (k, s) \<Rightarrow> if k = (''ffn'', h) then strategy_gpus s else 0))"
    by (auto simp: fun_eq_iff)
  then show "gpus_where (\<lambda>nc. nc_pd_decode_only nc \<and> nc_hardware nc = h) (cc_nodes (build_pd_cluster_config fw p)) =
      planned_gpus p ''attn'' h + planned_gpus p ''ffn'' h"
    unfolding nodes config_gpus[OF pd_predicates(2) ok] by (simp add: sum_list_addf planned_sum[OF assms])
qed

section \<open>Plans of the scheduler\<close>

lemma distinct_strategies_of: "distinct (map fst items) \<Longrightarrow> distinct (map fst (strategies_of items))"
proof (induction items)
  case (Cons item items)
  obtain k sp where item: "item = (k, sp)" by (cases item)
  have "k \<notin> fst ` set (strategies_of items)" using Cons.prems strategies_of_keys[of items] by (auto simp: item)
  then show ?case using Cons by (simp add: item strategies_of_Cons split: option.split)
qed (simp add: strategies_of_def map_filter_def)

lemma evaluated_plan_shape:
  assumes "env_ok (fw_env fw)" "previous_ok pp" "wf_alloc a"
  obtains p where "evaluate_allocation fw wl a pp = Inr p" "p_allocation p = a" "plan_shape p"
    "strategies_fit (ge_local (fw_env fw)) a (p_parallelism p)"
    "match_attn_ffn_dp (ge_local (fw_env fw)) \<Longrightarrow>
       worker_dp (p_parallelism p) ''attn'' = worker_dp (p_parallelism p) ''ffn''"
proof -
  have order: "\<And>xs. set (ge_set_order (fw_env fw) xs) = set xs" using assms(1) by (simp add: env_ok_def)
  obtain items and p :: plan where p: "evaluate (ge_set_order (fw_env fw)) (ge_local (fw_env fw)) (ge_estimator (fw_env fw)) wl a pp = Inr p"
      "distinct (map fst items)" "list_all (item_ok (ge_local (fw_env fw)) a) items" "p_allocation p = a" "p_parallelism p = strategies_of items"
      "match_attn_ffn_dp (ge_local (fw_env fw)) \<Longrightarrow> worker_dp (strategies_of items) ''attn'' = worker_dp (strategies_of items) ''ffn''"
    by (rule evaluate_items[where set_order = "ge_set_order (fw_env fw)" and cfg = "ge_local (fw_env fw)" and
          est = "ge_estimator (fw_env fw)" and wl = wl and a = a and pp = pp]) (use assms(2) order in blast)+
  have fit: "strategies_fit (ge_local (fw_env fw)) a (p_parallelism p)" using items_strategies_fit[OF p(3)] p(5) by simp
  have "w \<in> set WORKER_TYPES" if "((w, h), s) \<in> set (p_parallelism p)" for w h s
  proof (rule ccontr)
    assume "w \<notin> set WORKER_TYPES"
    then have "am_get a w h = 0" using am_row_not_in[OF assms(3)] by (simp add: am_get_def dict_getd_def)
    moreover have "0 < am_get a w h" using fit that unfolding strategies_fit_def by blast
    ultimately show False by simp
  qed
  moreover have "wf_strategy s" if "((w, h), s) \<in> set (p_parallelism p)" for w h s
    using fit that unfolding strategies_fit_def by blast
  moreover have "distinct (map fst (p_parallelism p))" using p(2,5) by (simp add: distinct_strategies_of)
  ultimately have "plan_shape p" by (auto simp: plan_shape_def items_ok_def keys_known_def wf_dict_def)
  then show ?thesis using that[of p] p(1,4-6) fit by (simp add: evaluate_allocation_def)
qed

lemma planned_gpus_fit:
  assumes "strategies_fit cfg a (p_parallelism p)"
  shows "planned_gpus p w h = (if (w, h) \<in> fst ` set (p_parallelism p) then am_get a w h else 0)"
proof (cases "map_of (p_parallelism p) (w, h)")
  case None
  then have "(w, h) \<notin> fst ` set (p_parallelism p)" by (simp add: map_of_eq_None_iff)
  then show ?thesis using None by (simp add: planned_gpus_def)
next
  case (Some s)
  then have mem: "((w, h), s) \<in> set (p_parallelism p)" by (rule map_of_SomeD)
  then have "strategy_gpus s = am_get a w h" using assms unfolding strategies_fit_def by blast
  then show ?thesis using Some mem by (force simp: planned_gpus_def)
qed



section \<open>Starting the cluster\<close>

definition node_engine :: "(string \<Rightarrow> model_params option) \<Rightarrow> bool \<Rightarrow> node_configuration \<Rightarrow> engine" where
  "node_engine auto_config afd nc = set_event_callback (projr (ServingEngine auto_config afd nc))"

definition same_setup :: "cluster \<Rightarrow> cluster \<Rightarrow> bool" where
  "same_setup cl cl' \<longleftrightarrow> cm_config cl' = cm_config cl \<and> afd_enabled cl' = afd_enabled cl \<and> cm_scheduler cl' = cm_scheduler cl"

lemma ServingEngine_total:
  "nc_hardware nc \<in> fst ` set hardware_params \<Longrightarrow> \<exists>e. ServingEngine auto_config afd nc = Inr e"
  by (auto simp: ServingEngine_def Let_def map_of_eq_None_iff split: option.split)

lemma add_nodes:
  assumes "\<forall>nc \<in> set ncs. nc_hardware nc \<in> fst ` set hardware_params"
    and "distinct (map fst (serving_engines cl) @ map node_id ncs)"
  shows "\<exists>cl'. fold_result (add_node auto_config afd) cl ncs = Inr cl' \<and> same_setup cl cl' \<and>
    serving_engines cl' = serving_engines cl @ map (\<lambda>nc. (node_id nc, node_engine auto_config afd nc)) ncs \<and>
    online_nodes cl' = online_nodes cl \<union> node_id ` set ncs \<and>
    afd_attention_nodes cl' = afd_attention_nodes cl @ map node_id (filter nc_afd_attention ncs) \<and>
    afd_ffn_nodes cl' = afd_ffn_nodes cl @ map node_id (filter nc_afd_ffn ncs)"
  using assms
proof (induction ncs arbitrary: cl)
  case (Cons nc ncs)
  obtain e where e: "ServingEngine auto_config afd nc = Inr e" using ServingEngine_total Cons.prems(1) by fastforce
  define cl1 where "cl1 = cl\<lparr>serving_engines := AList.update (node_id nc) (set_event_callback e) (serving_engines cl),
     online_nodes := insert (node_id nc) (online_nodes cl),
     afd_attention_nodes := (if nc_afd_attention nc then afd_attention_nodes cl @ [node_id nc] else afd_attention_nodes cl),
     afd_ffn_nodes := (if nc_afd_ffn nc then afd_ffn_nodes cl @ [node_id nc] else afd_ffn_nodes cl)\<rparr>"
  have upd: "serving_engines cl1 = serving_engines cl @ [(node_id nc, node_engine auto_config afd nc)]"
    using Cons.prems(2) by (simp add: cl1_def update_keys_absent node_engine_def e)
  have "add_node auto_config afd cl nc = Inr cl1" by (simp add: add_node_def e cl1_def)
  moreover obtain cl' where "fold_result (add_node auto_config afd) cl1 ncs = Inr cl'" "same_setup cl1 cl'"
      "serving_engines cl' = serving_engines cl1 @ map (\<lambda>nc. (node_id nc, node_engine auto_config afd nc)) ncs"
      "online_nodes cl' = online_nodes cl1 \<union> node_id ` set ncs"
      "afd_attention_nodes cl' = afd_attention_nodes cl1 @ map node_id (filter nc_afd_attention ncs)"
      "afd_ffn_nodes cl' = afd_ffn_nodes cl1 @ map node_id (filter nc_afd_ffn ncs)"
    using Cons.IH[of cl1] Cons.prems upd by auto
  moreover have "same_setup cl cl1" by (simp add: same_setup_def cl1_def)
  ultimately show ?case using upd by (intro exI[of _ cl']) (auto simp: cl1_def same_setup_def)
qed (simp add: same_setup_def)

text \<open>What the start of a cluster finds in the nodes of a disaggregated configuration.\<close>

definition afd_nodes :: "framework \<Rightarrow> plan \<Rightarrow> node_configuration list" where
  "afd_nodes fw p = cc_nodes (build_afd_cluster_config fw p)"

lemma afd_nodes_alt: "afd_nodes fw p = concat (map (slice_nodes (afd_node fw)) (sorted_items (p_parallelism p)))"
  by (simp add: afd_nodes_def build_afd_cluster_config_def ClusterConfiguration_def)

lemma slice_nodes_mem:
  "nc \<in> set (slice_nodes (afd_node fw) ((w, h), s)) \<longleftrightarrow>
     (\<exists>i r. (i, r) \<in> set (List.enumerate 0 (s_replicas s)) \<and> nc \<in> set (afd_node fw w h i r))"
  by (auto simp: slice_nodes_def)

lemma afd_node_fields:
  assumes "nc \<in> set (afd_node fw w h i r)"
  shows "nc_model_id nc = fw_model_id fw" "nc_hardware nc = h" "nc_afd_attention nc \<longleftrightarrow> w = ''attn''" "nc_afd_ffn nc \<longleftrightarrow> w = ''ffn''"
  using assms by (auto simp: afd_node_def NodeConfiguration_def split: if_splits)

lemma afd_nodes_mem: "nc \<in> set (afd_nodes fw p) \<longleftrightarrow>
    (\<exists>w h s. ((w, h), s) \<in> set (p_parallelism p) \<and> nc \<in> set (slice_nodes (afd_node fw) ((w, h), s)))"
  by (fastforce simp: afd_nodes_alt sorted_items_spec)

lemma afd_nodes_fields:
  assumes "nc \<in> set (afd_nodes fw p)"
  shows "nc_model_id nc = fw_model_id fw \<and> nc_hardware nc \<in> snd ` fst ` set (p_parallelism p)"
proof -
  obtain w h s i r where nc: "((w, h), s) \<in> set (p_parallelism p)" "nc \<in> set (afd_node fw w h i r)"
    using assms unfolding afd_nodes_mem slice_nodes_mem by blast
  then have "(w, h) \<in> fst ` set (p_parallelism p)" by force
  then show ?thesis using afd_node_fields[OF nc(2)] by force
qed

text \<open>The worker types a plan has a strategy for.\<close>

definition serves :: "plan \<Rightarrow> string \<Rightarrow> bool" where
  "serves p w \<longleftrightarrow> w \<in> fst ` fst ` set (p_parallelism p)"

lemma afd_nodes_serve:
  assumes "\<forall>(k, s) \<in> set (p_parallelism p). s_replicas s \<noteq> []"
  shows "(\<exists>nc \<in> set (afd_nodes fw p). nc_afd_attention nc) \<longleftrightarrow> serves p ''attn''"
    "(\<exists>nc \<in> set (afd_nodes fw p). nc_afd_ffn nc) \<longleftrightarrow> serves p ''ffn''"
proof -
  have slice: "\<exists>nc \<in> set (slice_nodes (afd_node fw) ((w, h), s)). (w = ''attn'' \<longrightarrow> nc_afd_attention nc) \<and> (w = ''ffn'' \<longrightarrow> nc_afd_ffn nc)"
    if ne: "s_replicas s \<noteq> []" and w: "w \<in> {''attn'', ''ffn''}" for w h s
  proof -
    obtain r rs where "s_replicas s = r # rs" using ne by (cases "s_replicas s") auto
    then show ?thesis using w by (auto simp: slice_nodes_def afd_node_def NodeConfiguration_def)
  qed
  have serving: "\<exists>h s. ((w, h), s) \<in> set (p_parallelism p) \<and> s_replicas s \<noteq> []" if "serves p w" for w
    using that assms by (fastforce simp: serves_def)
  have serves_mem: "serves p w" if "((w, h), s) \<in> set (p_parallelism p)" for w h s
    using that by (force simp: serves_def)
  have serve: "nc_afd_attention nc \<Longrightarrow> serves p ''attn''" "nc_afd_ffn nc \<Longrightarrow> serves p ''ffn''" if nc: "nc \<in> set (afd_nodes fw p)" for nc
  proof -
    obtain w h s i r where "((w, h), s) \<in> set (p_parallelism p)" "nc \<in> set (afd_node fw w h i r)"
      using nc unfolding afd_nodes_mem slice_nodes_mem by blast
    then show "nc_afd_attention nc \<Longrightarrow> serves p ''attn''" "nc_afd_ffn nc \<Longrightarrow> serves p ''ffn''"
      using serves_mem afd_node_fields(3,4) by blast+
  qed
  have "\<exists>nc \<in> set (afd_nodes fw p). (w = ''attn'' \<longrightarrow> nc_afd_attention nc) \<and> (w = ''ffn'' \<longrightarrow> nc_afd_ffn nc)"
    if w: "serves p w" "w \<in> {''attn'', ''ffn''}" for w
  proof -
    obtain h s where hs: "((w, h), s) \<in> set (p_parallelism p)" "s_replicas s \<noteq> []" using serving[OF w(1)] by blast
    from slice[OF hs(2) w(2)] show ?thesis using hs(1) unfolding Bex_def afd_nodes_mem by metis
  qed
  from this[of "''attn''"] this[of "''ffn''"] have "serves p ''attn'' \<Longrightarrow> \<exists>nc \<in> set (afd_nodes fw p). nc_afd_attention nc"
      "serves p ''ffn'' \<Longrightarrow> \<exists>nc \<in> set (afd_nodes fw p). nc_afd_ffn nc" by auto
  with serve show "(\<exists>nc \<in> set (afd_nodes fw p). nc_afd_attention nc) \<longleftrightarrow> serves p ''attn''"
      "(\<exists>nc \<in> set (afd_nodes fw p). nc_afd_ffn nc) \<longleftrightarrow> serves p ''ffn''" by blast+
qed

lemma AFDAnalyzer_llama:
  assumes "ma_config ma = Some llama" "attn \<noteq> []" "ffn \<noteq> []"
  shows "\<exists>an. AFDAnalyzer ma ab fb na nf kv act attn ffn = Inr an \<and> attention_analyzers an = attn \<and> ffn_analyzers an = ffn"
  using assms by (simp add: AFDAnalyzer_def Let_def config_value_def) (simp add: llama_def)

lemma init_afd_starts:
  assumes "afd_enabled cl" "distinct (map fst (serving_engines cl))" "afd_attention_nodes cl \<noteq> []" "afd_ffn_nodes cl \<noteq> []"
    and "(hd (afd_attention_nodes cl), e) \<in> set (serving_engines cl)" "analyzer_config e = Some llama"
  shows "\<exists>a. init_afd cl = Inr (cl\<lparr>cm_afd_analyzer := Some (afd_reset a)\<rparr>) \<and>
    length (attention_analyzers a) = length (afd_attention_nodes cl) \<and> length (ffn_analyzers a) = length (afd_ffn_nodes cl)"
proof -
  let ?as = "\<lambda>ns. map (\<lambda>nid. model_analyzer_of (eng (serving_engines cl) nid)) ns"
  have e: "eng (serving_engines cl) (hd (afd_attention_nodes cl)) = e" using assms(2,5) by (simp add: eng_def)
  have "ma_config (model_analyzer_of e) = Some llama" using assms(6) by (simp add: model_analyzer_of_def)
  moreover have "?as (afd_attention_nodes cl) \<noteq> []" "?as (afd_ffn_nodes cl) \<noteq> []" using assms(3,4) by simp_all
  ultimately obtain an where an: "AFDAnalyzer (model_analyzer_of e) (cc_afd_attention_batch_size (cm_config cl))
      (cc_afd_ffn_max_batch_size (cm_config cl)) (int (length (afd_attention_nodes cl))) (int (length (afd_ffn_nodes cl)))
      (kv_transfer_bandwidth_gbps e) (cc_afd_activation_bandwidth_gbps (cm_config cl))
      (?as (afd_attention_nodes cl)) (?as (afd_ffn_nodes cl)) = Inr an"
      "attention_analyzers an = ?as (afd_attention_nodes cl)" "ffn_analyzers an = ?as (afd_ffn_nodes cl)"
    using AFDAnalyzer_llama by blast
  then show ?thesis using assms(1,3,4) by (intro exI[of _ an]) (simp add: init_afd_def Let_def e)
qed

text \<open>
  C14. Starting the simulator on a scheduler plan. Let \<open>p\<close> be a plan with well-formed strategies
  under distinct slices, as \<open>evaluate_allocation\<close> returns it, its hardware known, the model a
  Llama and the routing policy known. If the plan serves both attention and FFN, \<open>ClusterManager\<close> starts on the
  disaggregated configuration: it holds exactly one engine per node under the node's name, every
  node is online, the attention and FFN lists are those nodes in order, and the analyzer has one
  time line per attention and FFN node. Otherwise it raises the \<open>ValueError\<close> of the source.
\<close>

theorem scheduled_cluster_starts:
  fixes p :: plan
  assumes "plan_shape p"
    and "snd ` fst ` set (p_parallelism p) \<subseteq> fst ` set hardware_params"
    and "get_scheduler (fw_routing_policy fw) = Inr sch" "select_analyzer_config (fw_model_id fw) = Some llama"
  defines "nodes \<equiv> cc_nodes (build_afd_cluster_config fw p)"
  shows "if serves p ''attn'' \<and> serves p ''ffn''
    then \<exists>cl an. ClusterManager auto_config (build_afd_cluster_config fw p) g np = Inr cl \<and>
      serving_engines cl = map (\<lambda>nc. (node_id nc, node_engine auto_config True nc)) nodes \<and>
      distinct (map fst (serving_engines cl)) \<and> online_nodes cl = node_id ` set nodes \<and>
      afd_attention_nodes cl = map node_id (filter nc_afd_attention nodes) \<and>
      afd_ffn_nodes cl = map node_id (filter nc_afd_ffn nodes) \<and>
      cm_scheduler cl = sch \<and> cm_afd_analyzer cl = Some (afd_reset an) \<and>
      length (attention_analyzers an) = length (filter nc_afd_attention nodes) \<and>
      length (ffn_analyzers an) = length (filter nc_afd_ffn nodes)
    else ClusterManager auto_config (build_afd_cluster_config fw p) g np =
      Inl (ValueError ''AFD mode requires at least one attention node and one FFN node'')"
proof -
  let ?cfg = "build_afd_cluster_config fw p"
  have nodes: "nodes = afd_nodes fw p" by (simp add: nodes_def afd_nodes_def)
  have ne: "\<forall>(k, s) \<in> set (p_parallelism p). s_replicas s \<noteq> []"
    using assms(1) by (auto simp: plan_shape_def items_ok_def wf_strategy_def)
  have dist: "distinct (map node_id nodes)"
    using config_names_distinct[OF _ _ afd_names[of fw], of "p_parallelism p"] assms(1)
    by (simp add: nodes afd_nodes_alt plan_shape_def items_ok_def)
  have hw: "\<forall>nc \<in> set nodes. nc_hardware nc \<in> fst ` set hardware_params"
    using afd_nodes_fields assms(2) unfolding nodes by blast
  define cl0 where "cl0 = \<lparr>cm_config = ?cfg, serving_engines = [], online_nodes = {}, offline_nodes = {}, cm_scheduler = sch,
        cm_active = [], cm_completed = [], cm_rejected = [], request_counter = 0, metrics = initial_metrics,
        start_time = 0, cm_current_time = 0, last_metrics_update = 0, metrics_update_interval = 1, cm_trace = [],
        afd_enabled = True, afd_attention_nodes = [], afd_ffn_nodes = [], afd_waitlist = [],
        cm_afd_analyzer = None, afd_next_pull_at = None, afd_requests_processed = 0, afd_tokens_generated = 0,
        afd_request_components = [], cm_store = (\<lambda>rid. GenerationRequest rid [] 0 0 0), cm_rng = g, cm_np_random = np\<rparr>"
  have "distinct (map fst (serving_engines cl0) @ map node_id nodes)" using dist by (simp add: cl0_def)
  from add_nodes[OF hw this, of auto_config True] obtain cl1 where
    cl1: "fold_result (add_node auto_config True) cl0 nodes = Inr cl1" "same_setup cl0 cl1"
      "serving_engines cl1 = map (\<lambda>nc. (node_id nc, node_engine auto_config True nc)) nodes"
      "online_nodes cl1 = node_id ` set nodes" "afd_attention_nodes cl1 = map node_id (filter nc_afd_attention nodes)"
      "afd_ffn_nodes cl1 = map node_id (filter nc_afd_ffn nodes)"
    by (auto simp: cl0_def)
  have cfg: "cc_afd_enabled ?cfg" "cc_nodes ?cfg = nodes" "scheduler_algorithm ?cfg = fw_routing_policy fw"
    by (simp_all add: build_afd_cluster_config_def ClusterConfiguration_def nodes_def)
  have start: "ClusterManager auto_config ?cfg g np = init_afd cl1"
    using cl1(1) assms(3) cfg by (simp add: ClusterManager_def cl0_def)
  have afd: "afd_enabled cl1" "cm_scheduler cl1 = sch" using cl1(2) by (simp_all add: same_setup_def cl0_def)
  have ids: "map fst (serving_engines cl1) = map node_id nodes" by (simp add: cl1(3))
  show ?thesis
  proof (cases "serves p ''attn'' \<and> serves p ''ffn''")
    case False
    then have "afd_attention_nodes cl1 = [] \<or> afd_ffn_nodes cl1 = []"
      using afd_nodes_serve[OF ne, of fw] by (auto simp: cl1(5,6) filter_empty_conv nodes)
    then show ?thesis using False afd(1) by (auto simp: start init_afd_def)
  next
    case True
    then have lists: "afd_attention_nodes cl1 \<noteq> []" "afd_ffn_nodes cl1 \<noteq> []"
      using afd_nodes_serve[OF ne, of fw] by (auto simp: cl1(5,6) filter_empty_conv nodes)
    obtain nc where nc: "nc \<in> set nodes" "hd (afd_attention_nodes cl1) = node_id nc"
      using lists(1) hd_in_set[OF lists(1)] by (auto simp: cl1(5))
    have e: "(hd (afd_attention_nodes cl1), node_engine auto_config True nc) \<in> set (serving_engines cl1)"
      using nc by (auto simp: cl1(3))
    obtain se where se: "ServingEngine auto_config True nc = Inr se" using ServingEngine_total hw nc(1) by blast
    have "nc_model_id nc = fw_model_id fw" using afd_nodes_fields nc(1) by (simp add: nodes)
    then have "analyzer_config se = Some llama"
      using se assms(4) by (auto simp: ServingEngine_def Let_def split: option.splits)
    then have "analyzer_config (node_engine auto_config True nc) = Some llama"
      by (simp add: node_engine_def se set_event_callback_def)
    from init_afd_starts[OF afd(1) _ lists e this] obtain an where
      "init_afd cl1 = Inr (cl1\<lparr>cm_afd_analyzer := Some (afd_reset an)\<rparr>)"
      "length (attention_analyzers an) = length (afd_attention_nodes cl1)" "length (ffn_analyzers an) = length (afd_ffn_nodes cl1)"
      using dist by (auto simp: ids)
    then show ?thesis
      using True cl1(3-6) afd(2) dist unfolding start
      by (simp only: simp_thms if_True)
        (intro exI[of _ "cl1\<lparr>cm_afd_analyzer := Some (afd_reset an)\<rparr>"] exI[of _ an], simp add: comp_def)
  qed
qed

definition sample_decode_plan :: plan where
  "sample_decode_plan = (sample_plan_with [])\<lparr>p_parallelism :=
     [((''pre'', ''NVDA:H20''), finish_strategy [\<lparr>r_tp = 2, r_ep = 1\<rparr>]),
      ((''attn'', ''NVDA:H20''), finish_strategy [\<lparr>r_tp = 1, r_ep = 1\<rparr>, \<lparr>r_tp = 1, r_ep = 1\<rparr>]),
      ((''ffn'', ''NVDA:H20''), finish_strategy [\<lparr>r_tp = 2, r_ep = 1\<rparr>])]\<rparr>"

lemma finish_strategy_replicas: "s_replicas (finish_strategy rs) = rs"
  by (simp add: finish_strategy_def)

theorem scheduled_cluster_starts_witness:
  "\<exists>cl. ClusterManager (\<lambda>_. None) (build_afd_cluster_config sample_framework sample_decode_plan)
      (rng_of_tape (\<lambda>i. i)) (rng_of_tape (\<lambda>i. i)) = Inr cl \<and>
    map fst (serving_engines cl) = [''NVDA:H20_attn_0'', ''NVDA:H20_attn_1'', ''NVDA:H20_ffn_0'', ''NVDA:H20_pre_0''] \<and>
    afd_attention_nodes cl = [''NVDA:H20_attn_0'', ''NVDA:H20_attn_1'']"
proof -
  let ?nodes = "cc_nodes (build_afd_cluster_config sample_framework sample_decode_plan)"
  have shape: "plan_shape sample_decode_plan"
    by (simp add: plan_shape_def wf_dict_def items_ok_def keys_known_def sample_decode_plan_def wf_strategy_def
        wf_replica_def finish_strategy_replicas)
  have hw: "snd ` fst ` set (p_parallelism sample_decode_plan) \<subseteq> fst ` set hardware_params"
    by (simp add: sample_decode_plan_def hardware_params_def)
  have fw: "fw_routing_policy sample_framework = ''random''" "fw_model_id sample_framework = ''meta-llama/Llama-3.1-8B-Instruct''"
    by (simp_all add: sample_framework_def HexGenSchedulingFramework_def)
  have sch: "get_scheduler (fw_routing_policy sample_framework) = Inr (PlacementAlgorithm RandomScheduler)"
    unfolding fw by code_simp
  have model: "select_analyzer_config (fw_model_id sample_framework) = Some llama"
    unfolding fw select_analyzer_config_def by (subst if_P) (code_simp, rule refl)
  have serves: "serves sample_decode_plan ''attn''" "serves sample_decode_plan ''ffn''"
    by (simp_all add: serves_def sample_decode_plan_def)
  have "sorted_items (p_parallelism sample_decode_plan) =
     [((''attn'', ''NVDA:H20''), finish_strategy [\<lparr>r_tp = 1, r_ep = 1\<rparr>, \<lparr>r_tp = 1, r_ep = 1\<rparr>]),
      ((''ffn'', ''NVDA:H20''), finish_strategy [\<lparr>r_tp = 2, r_ep = 1\<rparr>]),
      ((''pre'', ''NVDA:H20''), finish_strategy [\<lparr>r_tp = 2, r_ep = 1\<rparr>])]"
    by code_simp
  moreover have "show_nat 0 = ''0''" "show_nat (Suc 0) = ''1''" by code_simp+
  ultimately have ids: "map node_id ?nodes = [''NVDA:H20_attn_0'', ''NVDA:H20_attn_1'', ''NVDA:H20_ffn_0'', ''NVDA:H20_pre_0'']"
      "map node_id (filter nc_afd_attention ?nodes) = [''NVDA:H20_attn_0'', ''NVDA:H20_attn_1'']"
    by (simp_all add: build_afd_cluster_config_def ClusterConfiguration_def slice_nodes_def finish_strategy_replicas
        afd_node_def NodeConfiguration_def)
  show ?thesis
    using scheduled_cluster_starts[OF shape hw sch model, of "\<lambda>_. None" "rng_of_tape (\<lambda>i. i)" "rng_of_tape (\<lambda>i. i)"] serves ids
    by (auto simp: comp_def)
qed

end
