(* ===== verification/Afd_Deployment.thy ===== *)
theory Afd_Deployment
  imports Cluster_Config
begin

text \<open>
  From a deployment plan to processes, \<open>scheduling/afd_deployment.py\<close>: the specification of a
  disaggregated deployment with its validation, its derivation from a plan, and the launch
  commands of the three server processes. Keyword arguments of \<open>plan_to_afd_deployment_spec\<close> are
  the record \<open>deployment_args\<close>. \<open>str\<close> of a float is the parameter \<open>str_float\<close>. The metadata of a launch
  specification, \<open>spec.as_dict()\<close>, is the specification itself.

  The lemmas show when a plan of the scheduler can be launched, that the launched processes use
  exactly its GPUs, and that the parallelism can be read back from the command lines.
\<close>

section \<open>Deployment specifications\<close>

definition str_int :: "int \<Rightarrow> string" where
  "str_int i = (if i < 0 then ''-'' @ show_nat (nat (- i)) else show_nat (nat i))"

text \<open>\<open>x or default\<close> for an optional string.\<close>

definition or_default :: "string option \<Rightarrow> string \<Rightarrow> string" where
  "or_default x d = (case x of None \<Rightarrow> d | Some s \<Rightarrow> if s = '''' then d else s)"

record spec_metadata =
  sp_throughput :: throughput_profile
  sp_estimated_latency_s :: xreal
  sp_cost_per_hour :: real

record afd_spec =
  model_path :: string
  prefill_gpus :: int
  attention_gpus :: int
  ffn_gpus :: int
  prefill_dp :: int
  prefill_tp :: int
  attention_dp :: int
  attention_tp :: int
  ffn_dp :: int
  ffn_tp :: int
  afd_micro_batch :: int
  disaggregation_ib_device :: string
  disaggregation_bootstrap_port :: int
  spec_host :: string
  prefill_port :: int
  attention_port :: int
  ffn_port :: int
  chunked_prefill_size :: int
  max_prefill_tokens :: int
  prefill_bootstrap_timeout_s :: int
  afd_sched_host :: string
  dmlc_ps_root_uri :: "string option"
  dmlc_node_host :: "string option"
  mlc_interface :: string
  ffn_mem_fraction_static :: real
  spec_metadata :: spec_metadata

definition validate_stage_shape :: "string \<Rightarrow> int \<Rightarrow> int \<Rightarrow> int \<Rightarrow> unit result" where
  "validate_stage_shape stage gpus dp tp =
     (if dp * tp \<noteq> gpus
      then Inl (ValueError (stage @ '' parallelism does not use all allocated GPUs: dp='' @ str_int dp @
             '' tp='' @ str_int tp @ '' gpus='' @ str_int gpus))
      else Inr ())"

definition require_positive :: "unit \<Rightarrow> string \<times> int \<Rightarrow> unit result" where
  "require_positive u field =
     (if snd field \<le> 0 then Inl (ValueError (fst field @ '' must be positive'')) else Inr ())"

text \<open>The constructor: the fields, then \<open>__post_init__\<close>.\<close>

definition AFDDeploymentSpec :: "afd_spec \<Rightarrow> afd_spec result" where
  "AFDDeploymentSpec s =
     bind_result (fold_result require_positive ()
       [(''prefill_gpus'', prefill_gpus s), (''attention_gpus'', attention_gpus s), (''ffn_gpus'', ffn_gpus s)]) (\<lambda>_.
     bind_result (fold_result require_positive ()
       [(''prefill_dp'', prefill_dp s), (''prefill_tp'', prefill_tp s), (''attention_dp'', attention_dp s),
        (''attention_tp'', attention_tp s), (''ffn_dp'', ffn_dp s), (''ffn_tp'', ffn_tp s),
        (''afd_micro_batch'', afd_micro_batch s)]) (\<lambda>_.
     bind_result (validate_stage_shape ''prefill'' (prefill_gpus s) (prefill_dp s) (prefill_tp s)) (\<lambda>_.
     bind_result (validate_stage_shape ''attention'' (attention_gpus s) (attention_dp s) (attention_tp s)) (\<lambda>_.
     bind_result (validate_stage_shape ''ffn'' (ffn_gpus s) (ffn_dp s) (ffn_tp s)) (\<lambda>_.
     if attention_dp s \<noteq> ffn_dp s
     then Inl (ValueError (''attention_dp must equal ffn_dp for HexGen-3 AFD communication: '' @
            str_int (attention_dp s) @ '' != '' @ str_int (ffn_dp s)))
     else Inr s)))))"

section \<open>Plans\<close>

record deployment_args =
  da_model_path :: string
  da_afd_micro_batch :: int
  da_ib_device :: string
  da_bootstrap_port :: int
  da_host :: string
  da_base_port :: int
  da_afd_sched_host :: string
  da_dmlc_ps_root_uri :: "string option"
  da_dmlc_node_host :: "string option"
  da_mlc_interface :: string
  da_ffn_mem_fraction_static :: real

definition worker_gpus :: "plan \<Rightarrow> string \<Rightarrow> int" where
  "worker_gpus p w = sum_list (map snd (am_row (p_allocation p) w))"

definition single_uniform_strategy :: "plan \<Rightarrow> string \<Rightarrow> strategy result" where
  "single_uniform_strategy p w =
     (let strategies = map snd (filter (\<lambda>((slice_worker, _), s). slice_worker = w) (sorted_items (p_parallelism p))) in
      if length strategies \<noteq> 1
      then Inl (ValueError (''expected exactly one '' @ w @ '' strategy for single-process launch, got '' @
             show_nat (length strategies)))
      else let s = strategies ! 0 in
           if \<not> is_uniform s
           then Inl (ValueError (w @ '' strategy is non-uniform and cannot be represented by a single sglang.launch_server command''))
           else bind_result (validate_stage_shape w (worker_gpus p w) (s_dp s) (s_tp s)) (\<lambda>_. Inr s))"

definition plan_to_afd_deployment_spec :: "deployment_args \<Rightarrow> plan \<Rightarrow> afd_spec result" where
  "plan_to_afd_deployment_spec args p =
     bind_result (single_uniform_strategy p ''pre'') (\<lambda>prefill.
     bind_result (single_uniform_strategy p ''attn'') (\<lambda>attention.
     bind_result (single_uniform_strategy p ''ffn'') (\<lambda>ffn.
     AFDDeploymentSpec
       \<lparr>model_path = da_model_path args, prefill_gpus = worker_gpus p ''pre'', attention_gpus = worker_gpus p ''attn'',
        ffn_gpus = worker_gpus p ''ffn'', prefill_dp = s_dp prefill, prefill_tp = s_tp prefill,
        attention_dp = s_dp attention, attention_tp = s_tp attention, ffn_dp = s_dp ffn, ffn_tp = s_tp ffn,
        afd_micro_batch = da_afd_micro_batch args, disaggregation_ib_device = da_ib_device args,
        disaggregation_bootstrap_port = da_bootstrap_port args, spec_host = da_host args,
        prefill_port = da_base_port args, attention_port = da_base_port args + 1, ffn_port = da_base_port args + 2,
        chunked_prefill_size = 65536, max_prefill_tokens = 65536, prefill_bootstrap_timeout_s = 1200,
        afd_sched_host = da_afd_sched_host args,
        dmlc_ps_root_uri = Some (or_default (da_dmlc_ps_root_uri args) (da_afd_sched_host args)),
        dmlc_node_host = Some (or_default (da_dmlc_node_host args) (da_afd_sched_host args)),
        mlc_interface = da_mlc_interface args, ffn_mem_fraction_static = da_ffn_mem_fraction_static args,
        spec_metadata = \<lparr>sp_throughput = p_throughput p, sp_estimated_latency_s = p_estimated_latency_s p,
          sp_cost_per_hour = p_cost_per_hour p\<rparr>\<rparr>)))"

section \<open>Launch commands\<close>

record process_spec =
  ps_name :: string
  ps_role :: string
  ps_command :: "string list"
  ps_env :: "(string, string) dict"
  ps_cwd :: "string option"
  ps_metadata :: "(string, int) dict"

record launch_spec =
  ls_runtime :: string
  ls_processes :: "process_spec list"
  ls_warnings :: "string list"
  ls_metadata :: afd_spec

definition launch_server_command ::
  "afd_spec \<Rightarrow> string \<Rightarrow> string \<Rightarrow> int \<Rightarrow> string list \<Rightarrow> int \<Rightarrow> int \<Rightarrow> string list" where
  "launch_server_command s python mode port extra_args tp dp =
     [python, ''-m'', ''sglang.launch_server'', ''--model-path'', model_path s, ''--disable-overlap-schedule'',
      ''--disable-cuda-graph'', ''--disaggregation-mode'', mode] @ extra_args @
     [''--port'', str_int port, ''--chunked-prefill-size'', str_int (chunked_prefill_size s),
      ''--max-prefill-tokens'', str_int (max_prefill_tokens s)] @
     (if 1 < tp then [''--tp'', str_int tp] else []) @ (if 1 < dp then [''--dp'', str_int dp] else [])"

definition decode_env :: "afd_spec \<Rightarrow> (string, string) dict" where
  "decode_env s =
     [(''AFD_SCHED_HOST'', afd_sched_host s), (''DMLC_PS_ROOT_URI'', or_default (dmlc_ps_root_uri s) (afd_sched_host s)),
      (''DMLC_NODE_HOST'', or_default (dmlc_node_host s) (afd_sched_host s)), (''MLC_INTERFACE'', mlc_interface s)]"

definition launch_process ::
  "afd_spec \<Rightarrow> string \<Rightarrow> string option \<Rightarrow> string \<Rightarrow> string \<Rightarrow> string \<Rightarrow> int \<Rightarrow> int \<Rightarrow> int \<Rightarrow> int \<Rightarrow> string list \<Rightarrow>
   (string, string) dict \<Rightarrow> process_spec" where
  "launch_process s python cwd name role mode port gpus dp tp extra_args env =
     \<lparr>ps_name = name, ps_role = role, ps_command = launch_server_command s python mode port extra_args tp dp,
      ps_env = env, ps_cwd = cwd, ps_metadata = [(''gpus'', gpus)]\<rparr>"

definition afd_deployment_spec_to_runtime_launch_spec ::
  "(real \<Rightarrow> string) \<Rightarrow> string \<Rightarrow> string option \<Rightarrow> afd_spec \<Rightarrow> launch_spec" where
  "afd_deployment_spec_to_runtime_launch_spec str_float python cwd s =
     \<lparr>ls_runtime = ''sglang-hexgen3-stepmesh'',
      ls_processes =
        [launch_process s python cwd ''prefill-0'' ''prefill'' ''prefill'' (prefill_port s) (prefill_gpus s) (prefill_dp s)
           (prefill_tp s)
           [''--disaggregation-ib-device'', disaggregation_ib_device s, ''--disaggregation-bootstrap-port'',
            str_int (disaggregation_bootstrap_port s), ''--host'', spec_host s]
           [(''SGLANG_DISAGGREGATION_BOOTSTRAP_TIMEOUT'', str_int (prefill_bootstrap_timeout_s s))],
         launch_process s python cwd ''decode-attn-0'' ''attention'' ''decode'' (attention_port s) (attention_gpus s)
           (attention_dp s) (attention_tp s)
           [''--afd-perspective'', ''attn'', ''--disaggregation-ib-device'', disaggregation_ib_device s,
            ''--disaggregation-bootstrap-port'', str_int (disaggregation_bootstrap_port s), ''--afd-mirco-batch'',
            str_int (afd_micro_batch s)] (decode_env s),
         launch_process s python cwd ''decode-ffn-0'' ''ffn'' ''null'' (ffn_port s) (ffn_gpus s) (ffn_dp s) (ffn_tp s)
           [''--skip-server-warmup'', ''--afd-perspective'', ''ffn'', ''--afd-mirco-batch'', str_int (afd_micro_batch s),
            ''--mem-fraction-static'', str_float (ffn_mem_fraction_static s)] (decode_env s)],
      ls_warnings = [], ls_metadata = s\<rparr>"

section \<open>Valid specifications\<close>

definition spec_ok :: "afd_spec \<Rightarrow> bool" where
  "spec_ok s \<longleftrightarrow> 0 < prefill_gpus s \<and> 0 < attention_gpus s \<and> 0 < ffn_gpus s \<and> 0 < prefill_dp s \<and> 0 < prefill_tp s \<and>
     0 < attention_dp s \<and> 0 < attention_tp s \<and> 0 < ffn_dp s \<and> 0 < ffn_tp s \<and> 0 < afd_micro_batch s \<and>
     prefill_dp s * prefill_tp s = prefill_gpus s \<and> attention_dp s * attention_tp s = attention_gpus s \<and>
     ffn_dp s * ffn_tp s = ffn_gpus s \<and> attention_dp s = ffn_dp s"

lemma AFDDeploymentSpec_iff: "AFDDeploymentSpec s = Inr t \<longleftrightarrow> t = s \<and> spec_ok s"
  by (auto simp: AFDDeploymentSpec_def spec_ok_def require_positive_def validate_stage_shape_def)

lemma AFDDeploymentSpec_error: "\<not> spec_ok s \<Longrightarrow> \<exists>msg. AFDDeploymentSpec s = Inl (ValueError msg)"
  by (auto simp: AFDDeploymentSpec_def spec_ok_def require_positive_def validate_stage_shape_def)

lemma uniform_gpus:
  assumes "wf_strategy s" "is_uniform s"
  shows "s_dp s * s_tp s = strategy_gpus s" "0 < s_dp s" "0 < s_tp s"
proof -
  let ?rs = "s_replicas s"
  have rs: "?rs \<noteq> []" "list_all wf_replica ?rs" "s = finish_strategy ?rs" using assms(1) by (simp_all add: wf_strategy_def)
  note f = finish_strategy_fields[OF rs(1), folded rs(3)]
  have same: "r_tp r = r_tp (hd ?rs)" if "r \<in> set ?rs" for r
    using assms(2) that all_sameD[of r_tp ?rs r] by (simp add: is_uniform_def)
  have rep: "map r_tp ?rs = replicate (length ?rs) (r_tp (hd ?rs))"
    by (rule replicate_eqI) (auto dest: same)
  have "sum_list (map r_tp ?rs) = int (length ?rs) * r_tp (hd ?rs)" unfolding rep by (simp add: sum_list_replicate)
  moreover have max: "Max (set (map r_tp ?rs)) = r_tp (hd ?rs)" unfolding rep using rs(1) by simp
  ultimately show "s_dp s * s_tp s = strategy_gpus s"
    using f strategy_gpus_finish[OF rs(1)] rs(3) by simp
  show "0 < s_dp s" using f(1) rs(1) by simp
  have "0 < r_tp (hd ?rs)" using rs(1,2) by (cases ?rs) (simp_all add: wf_replica_def)
  then show "0 < s_tp s" using f(2) max by simp
qed

section \<open>Plans on one hardware type\<close>

lemma single_hardware_row:
  assumes "wf_alloc a" "hardware_types a = [h]" "w \<in> set WORKER_TYPES"
  shows "sum_list (map snd (am_row a w)) = am_get a w h" "h' \<noteq> h \<Longrightarrow> am_get a w h' = 0"
proof -
  have "set (hardware_types a) = (\<Union>w \<in> set WORKER_TYPES. fst ` set (am_row a w))"
    by (simp add: hardware_types_def WORKER_TYPES_def Un_assoc)
  then have keys: "fst ` set (am_row a w) \<subseteq> {h}" using assms(2,3) by auto
  have d: "distinct (map fst (am_row a w))" using wf_alloc_row[OF assms(1)] by (simp add: wf_dict_def)
  show "sum_list (map snd (am_row a w)) = am_get a w h"
  proof (cases "am_row a w")
    case Nil
    then show ?thesis by (simp add: am_get_def dict_getd_def)
  next
    case (Cons x xs)
    then have "fst x = h" "xs = []" using keys d by (cases xs; fastforce)+
    then show ?thesis using Cons by (cases x) (simp add: am_get_def dict_getd_def)
  qed
  assume "h' \<noteq> h"
  then have "map_of (am_row a w) h' = None" using keys by (auto simp: map_of_eq_None_iff)
  then show "am_get a w h' = 0" by (simp add: am_get_def dict_getd_def)
qed

lemma filter_one_key:
  assumes "distinct (map fst items)" "\<And>k s. (k, s) \<in> set items \<Longrightarrow> P (k, s) \<Longrightarrow> k = key" "\<And>s. P (key, s)"
  shows "filter P items = (case map_of items key of None \<Rightarrow> [] | Some s \<Rightarrow> [(key, s)])"
  using assms(1,2)
proof (induction items)
  case (Cons item items)
  obtain k s where item: "item = (k, s)" by (cases item)
  have IH: "filter P items = (case map_of items key of None \<Rightarrow> [] | Some s \<Rightarrow> [(key, s)])"
    using Cons.IH Cons.prems by auto
  show ?case
  proof (cases "k = key")
    case True
    then have "map_of items key = None" using Cons.prems(1) by (simp add: item map_of_eq_None_iff)
    then show ?thesis using IH True assms(3) by (simp add: item)
  next
    case False
    then show ?thesis using IH Cons.prems(2)[of k s] by (auto simp: item)
  qed
qed simp

definition on_hardware :: "plan \<Rightarrow> string \<Rightarrow> bool" where
  "on_hardware p h \<longleftrightarrow> plan_shape p \<and> hardware_types (p_allocation p) = [h] \<and> wf_alloc (p_allocation p) \<and>
     (\<exists>cfg. strategies_fit cfg (p_allocation p) (p_parallelism p))"

lemma worker_items:
  assumes "on_hardware p h" "w \<in> set WORKER_TYPES" "distinct (map fst items)" "set items = set (p_parallelism p)"
  shows "filter (\<lambda>((w', _), s). w' = w) items = (case map_of items (w, h) of None \<Rightarrow> [] | Some s \<Rightarrow> [((w, h), s)])"
proof -
  have "(\<lambda>((w', _), s). w' = w) = (\<lambda>x :: slice_key \<times> strategy. fst (fst x) = w)" by auto
  moreover have "k = (w, h)" if ks: "(k, s) \<in> set items" "fst (fst (k, s)) = w" for k s
  proof -
    obtain h' where k: "k = (w, h')" using ks(2) by (cases k) auto
    then have "0 < am_get (p_allocation p) w h'"
      using assms(1,4) ks(1) unfolding on_hardware_def strategies_fit_def by blast
    then show ?thesis
      using single_hardware_row(2)[of "p_allocation p" h w h'] assms(1,2) by (force simp: k on_hardware_def)
  qed
  ultimately show ?thesis using filter_one_key[OF assms(3), of "\<lambda>x. fst (fst x) = w" "(w, h)"] by simp
qed

lemma single_uniform_on_hardware:
  assumes "on_hardware p h" "w \<in> set WORKER_TYPES"
  shows "single_uniform_strategy p w =
    (case map_of (p_parallelism p) (w, h) of
       None \<Rightarrow> Inl (ValueError (''expected exactly one '' @ w @ '' strategy for single-process launch, got '' @ show_nat 0))
     | Some s \<Rightarrow> if is_uniform s then Inr s
         else Inl (ValueError (w @ '' strategy is non-uniform and cannot be represented by a single sglang.launch_server command'')))"
proof -
  have d: "wf_dict (p_parallelism p)" using assms(1) by (simp add: on_hardware_def plan_shape_def)
  then have items: "filter (\<lambda>((w', _), s). w' = w) (sorted_items (p_parallelism p)) =
      (case map_of (p_parallelism p) (w, h) of None \<Rightarrow> [] | Some s \<Rightarrow> [((w, h), s)])"
    using worker_items[OF assms sorted_items_spec(2), of "p_parallelism p"]
    by (simp add: wf_dict_def sorted_items_spec(1) map_of_sorted_items)
  have shape: "validate_stage_shape w (worker_gpus p w) (s_dp s) (s_tp s) = Inr ()"
    if "map_of (p_parallelism p) (w, h) = Some s" "is_uniform s" for s
  proof -
    have "((w, h), s) \<in> set (p_parallelism p)" using that(1) by (rule map_of_SomeD)
    then have "wf_strategy s" "strategy_gpus s = am_get (p_allocation p) w h"
      using assms(1) unfolding on_hardware_def strategies_fit_def by blast+
    moreover have "worker_gpus p w = am_get (p_allocation p) w h"
      using single_hardware_row(1)[of "p_allocation p" h w] assms by (simp add: worker_gpus_def on_hardware_def)
    ultimately show ?thesis using uniform_gpus(1)[OF _ that(2)] by (simp add: validate_stage_shape_def)
  qed
  show ?thesis
    using shape by (auto simp: single_uniform_strategy_def items Let_def split: option.split)
qed

lemma matched_dp_equal:
  assumes "on_hardware p h" "worker_dp (p_parallelism p) ''attn'' = worker_dp (p_parallelism p) ''ffn''"
    and "map_of (p_parallelism p) (''attn'', h) = Some s" "map_of (p_parallelism p) (''ffn'', h) = Some t"
  shows "s_dp s = s_dp t"
proof -
  have d: "distinct (map fst (p_parallelism p))" using assms(1) by (simp add: on_hardware_def plan_shape_def wf_dict_def)
  have dp: "worker_dp (p_parallelism p) w = s_dp u"
    if "w \<in> set WORKER_TYPES" "map_of (p_parallelism p) (w, h) = Some u" for w u
  proof -
    have eq: "(\<lambda>(k, s). fst k = w) = (\<lambda>((w', _), s :: strategy). w' = w)" by (auto simp: fun_eq_iff)
    show ?thesis unfolding worker_dp_def eq using worker_items[OF assms(1) that(1) d refl] that(2) by simp
  qed
  show ?thesis using dp[of "''attn''" s] dp[of "''ffn''" t] assms(2-4) by simp
qed

definition deploys :: "plan \<Rightarrow> string \<Rightarrow> bool" where
  "deploys p h \<longleftrightarrow> (\<forall>w \<in> set WORKER_TYPES. \<exists>s. map_of (p_parallelism p) (w, h) = Some s \<and> is_uniform s)"

text \<open>
  C15. Deployment of a scheduler plan. For a well-formed allocation of one hardware type and
  matched data parallelism, \<open>evaluate_allocation\<close> returns a plan that
  \<open>plan_to_afd_deployment_spec\<close> turns into a valid specification exactly when every worker type
  has a strategy and the three strategies are uniform: neither the shape checks nor the check of
  equal attention and FFN data parallelism can fail. The specification uses exactly the
  allocation's GPUs, each stage as data times tensor parallelism, on three different ports.
  Otherwise a \<open>ValueError\<close> is raised.
\<close>

theorem scheduled_plan_deploys:
  fixes args :: deployment_args
  assumes "env_ok (fw_env fw)" "previous_ok pp" "wf_alloc a" "hardware_types a = [h]"
    and "match_attn_ffn_dp (ge_local (fw_env fw))" "0 < da_afd_micro_batch args"
  shows "\<exists>p. evaluate_allocation fw wl a pp = Inr p \<and>
    (if deploys p h
     then \<exists>spec. plan_to_afd_deployment_spec args p = Inr spec \<and>
       prefill_gpus spec = am_get a ''pre'' h \<and> attention_gpus spec = am_get a ''attn'' h \<and> ffn_gpus spec = am_get a ''ffn'' h \<and>
       prefill_dp spec * prefill_tp spec = prefill_gpus spec \<and> attention_dp spec * attention_tp spec = attention_gpus spec \<and>
       ffn_dp spec * ffn_tp spec = ffn_gpus spec \<and> attention_dp spec = ffn_dp spec \<and>
       distinct [prefill_port spec, attention_port spec, ffn_port spec]
     else \<exists>msg. plan_to_afd_deployment_spec args p = Inl (ValueError msg))"
proof -
  obtain p where p: "evaluate_allocation fw wl a pp = Inr p" "p_allocation p = a" "plan_shape p"
      "strategies_fit (ge_local (fw_env fw)) a (p_parallelism p)"
      "worker_dp (p_parallelism p) ''attn'' = worker_dp (p_parallelism p) ''ffn''"
    by (rule evaluated_plan_shape[OF assms(1-3)]) (use assms(5) in blast)
  have on: "on_hardware p h" using p assms(3,4) by (auto simp: on_hardware_def)
  note single = single_uniform_on_hardware[OF on]
  have gpus: "worker_gpus p w = am_get a w h" if "w \<in> set WORKER_TYPES" for w
    using single_hardware_row(1)[OF assms(3,4) that] by (simp add: worker_gpus_def p(2))
  have stage: "s_dp s * s_tp s = am_get a w h \<and> 0 < s_dp s \<and> 0 < s_tp s \<and> 0 < am_get a w h"
    if s: "map_of (p_parallelism p) (w, h) = Some s" "is_uniform s" for w s
  proof -
    have "((w, h), s) \<in> set (p_parallelism p)" using s(1) by (rule map_of_SomeD)
    then have "wf_strategy s" "strategy_gpus s = am_get a w h" "0 < am_get a w h"
      using p(4) unfolding strategies_fit_def by blast+
    then show ?thesis using uniform_gpus[OF _ s(2)] by simp
  qed
  show ?thesis
  proof (cases "deploys p h")
    case True
    then obtain s t u where stu: "map_of (p_parallelism p) (''pre'', h) = Some s" "is_uniform s"
        "map_of (p_parallelism p) (''attn'', h) = Some t" "is_uniform t"
        "map_of (p_parallelism p) (''ffn'', h) = Some u" "is_uniform u"
      by (auto simp: deploys_def WORKER_TYPES_def)
    have "s_dp t = s_dp u" using matched_dp_equal[OF on p(5) stu(3,5)] .
    then show ?thesis
      using True p(1) stage[OF stu(1,2)] stage[OF stu(3,4)] stage[OF stu(5,6)] stu assms(6)
      by (intro exI[of _ p])
        (simp add: plan_to_afd_deployment_spec_def single gpus AFDDeploymentSpec_iff spec_ok_def)
  next
    case False
    then obtain w where w0: "w \<in> set WORKER_TYPES" "\<And>s. map_of (p_parallelism p) (w, h) = Some s \<Longrightarrow> \<not> is_uniform s"
      unfolding deploys_def by blast
    then have w: "w \<in> set WORKER_TYPES" "\<exists>msg. single_uniform_strategy p w = Inl (ValueError msg)"
      unfolding single[OF w0(1)] by (auto split: option.split)
    have value_error: "(\<exists>s. single_uniform_strategy p v = Inr s) \<or> (\<exists>msg. single_uniform_strategy p v = Inl (ValueError msg))"
      if "v \<in> set WORKER_TYPES" for v
      using single[OF that] by (auto split: option.split if_splits)
    have "\<exists>msg. plan_to_afd_deployment_spec args p = Inl (ValueError msg)"
      using value_error[of "''pre''"] value_error[of "''attn''"] value_error[of "''ffn''"] w
      by (auto simp: plan_to_afd_deployment_spec_def)
    then show ?thesis using False p(1) by auto
  qed
qed

text \<open>The witness: two GPUs per worker type, no previous strategy.\<close>

definition sample_h20 :: allocation where
  "sample_h20 = am_uniform [(''NVDA:H20'', 6)]"

definition sample_args :: deployment_args where
  "sample_args = \<lparr>da_model_path = ''/models/llama'', da_afd_micro_batch = 2, da_ib_device = ''mlx5_bond_1'', da_bootstrap_port = 9001,
     da_host = ''127.0.0.1'', da_base_port = 30001, da_afd_sched_host = ''127.0.0.1'', da_dmlc_ps_root_uri = None,
     da_dmlc_node_host = None, da_mlc_interface = ''bond2'', da_ffn_mem_fraction_static = 75 / 100\<rparr>"

theorem scheduled_plan_deploys_witness:
  "\<exists>p. evaluate_allocation sample_framework sample_workload sample_h20 None = Inr p \<and>
    (deploys p ''NVDA:H20'' \<longrightarrow> (\<exists>spec. plan_to_afd_deployment_spec sample_args p = Inr spec \<and> prefill_gpus spec = 2))"
proof -
  have wf: "wf_alloc sample_h20" by (simp add: sample_h20_def)
  have hw: "hardware_types sample_h20 = [''NVDA:H20'']" by code_simp
  have env: "env_ok (fw_env sample_framework)" "match_attn_ffn_dp (ge_local (fw_env sample_framework))"
    by (simp_all add: sample_framework_def HexGenSchedulingFramework_def env_ok_def default_config_def)
  have get: "am_get sample_h20 ''pre'' ''NVDA:H20'' = 2" by code_simp
  have "previous_ok None" "0 < da_afd_micro_batch sample_args" by (simp_all add: previous_ok_def sample_args_def)
  from scheduled_plan_deploys[OF env(1) this(1) wf hw env(2) this(2), of sample_workload] show ?thesis
    by (auto simp: get split: if_splits)
qed

section \<open>Reading the commands back\<close>

text \<open>The value after the first occurrence of a flag.\<close>

fun flag_value :: "string \<Rightarrow> string list \<Rightarrow> string option" where
  "flag_value f [] = None"
| "flag_value f [x] = None"
| "flag_value f (x # y # xs) = (if x = f then Some y else flag_value f (y # xs))"

lemma flag_value_skip: "f \<notin> set xs \<Longrightarrow> flag_value f (xs @ ys) = flag_value f ys"
proof (induction xs)
  case (Cons x xs)
  then show ?case by (cases "xs @ ys") auto
qed simp

definition int_flag :: "string \<Rightarrow> string list \<Rightarrow> int" where
  "int_flag f cmd = (case flag_value f cmd of None \<Rightarrow> 1 | Some v \<Rightarrow> int (read_nat v))"

definition plain :: "string \<Rightarrow> bool" where
  "plain s \<longleftrightarrow> take 2 s \<noteq> ''--''"

lemma dash_not_digit: "CHR ''-'' \<notin> set (show_nat n)"
proof
  assume "CHR ''-'' \<in> set (show_nat n)"
  then obtain k :: nat where "CHR ''-'' = char_of k" "k \<in> {48..57}" using show_nat_digits by blast
  then have "(of_char CHR ''-'' :: nat) \<in> {48..57}" by simp
  then show False by simp
qed

lemma str_int_plain: "plain (str_int i)"
proof (cases "i < 0")
  case True
  then show ?thesis
    using dash_not_digit[of "nat (- i)"] by (cases "show_nat (nat (- i))") (auto simp: plain_def str_int_def)
next
  case False
  then show ?thesis
    using dash_not_digit[of "nat i"] by (cases "show_nat (nat i)") (auto simp: plain_def str_int_def)
qed

lemma plain_not_flag: "plain s \<Longrightarrow> s \<noteq> CHR ''-'' # CHR ''-'' # f"
  by (auto simp: plain_def)

lemma read_str_int: "0 < i \<Longrightarrow> int (read_nat (str_int i)) = i"
  by (simp add: str_int_def)

lemmas not_flag = plain_not_flag plain_not_flag[THEN not_sym] plain_not_flag[OF str_int_plain] plain_not_flag[OF str_int_plain, THEN not_sym]

lemma command_flags:
  assumes "plain python" "plain (model_path s)" "plain mode" "0 < tp" "0 < dp"
    and "''--tp'' \<notin> set extra" "''--dp'' \<notin> set extra" "''--port'' \<notin> set extra"
  shows "int_flag ''--tp'' (launch_server_command s python mode port extra tp dp) = tp"
    "int_flag ''--dp'' (launch_server_command s python mode port extra tp dp) = dp"
    "flag_value ''--port'' (launch_server_command s python mode port extra tp dp) = Some (str_int port)"
proof -
  let ?pre = "[python, ''-m'', ''sglang.launch_server'', ''--model-path'', model_path s, ''--disable-overlap-schedule'',
      ''--disable-cuda-graph'', ''--disaggregation-mode'', mode] @ extra"
  let ?mid = "[''--port'', str_int port, ''--chunked-prefill-size'', str_int (chunked_prefill_size s),
      ''--max-prefill-tokens'', str_int (max_prefill_tokens s)]"
  let ?tp = "if 1 < tp then [''--tp'', str_int tp] else []" and ?dp = "if 1 < dp then [''--dp'', str_int dp] else []"
  have cmd: "launch_server_command s python mode port extra tp dp = ?pre @ ?mid @ ?tp @ ?dp"
    by (simp add: launch_server_command_def)
  have pre: "''--tp'' \<notin> set ?pre" "''--dp'' \<notin> set ?pre" "''--port'' \<notin> set ?pre"
    and mid: "''--tp'' \<notin> set ?mid" "''--dp'' \<notin> set ?mid"
    using assms(1-3,6-8) by (auto simp: not_flag)
  have "flag_value ''--tp'' (?tp @ ?dp) = (if 1 < tp then Some (str_int tp) else None)" by simp
  then show "int_flag ''--tp'' (launch_server_command s python mode port extra tp dp) = tp"
    unfolding cmd int_flag_def using assms(4) by (simp only: flag_value_skip[OF pre(1)] flag_value_skip[OF mid(1)])
      (simp add: read_str_int)
  have tp: "''--dp'' \<notin> set ?tp" by (simp add: not_flag)
  have "flag_value ''--dp'' (?tp @ ?dp) = (if 1 < dp then Some (str_int dp) else None)"
    unfolding flag_value_skip[OF tp] by simp
  then show "int_flag ''--dp'' (launch_server_command s python mode port extra tp dp) = dp"
    unfolding cmd int_flag_def using assms(5) by (simp only: flag_value_skip[OF pre(2)] flag_value_skip[OF mid(2)])
      (simp add: read_str_int)
  show "flag_value ''--port'' (launch_server_command s python mode port extra tp dp) = Some (str_int port)"
    unfolding cmd by (simp only: flag_value_skip[OF pre(3)]) simp
qed

definition args_plain :: "(real \<Rightarrow> string) \<Rightarrow> string \<Rightarrow> afd_spec \<Rightarrow> bool" where
  "args_plain str_float python s \<longleftrightarrow> plain python \<and> plain (model_path s) \<and> plain (disaggregation_ib_device s) \<and>
     plain (spec_host s) \<and> plain (str_float (ffn_mem_fraction_static s))"

text \<open>
  C16. The launch commands carry the specification. For a specification accepted by
  \<open>AFDDeploymentSpec\<close> and string arguments that do not start with two dashes, reading the flags
  back from the three commands gives the tensor and data parallelism of prefill, attention and
  FFN (one where a flag is absent) and their ports; the product of the two flags is the GPU count
  in the process metadata; and the attention and FFN process get the same micro batch and the
  same environment.
\<close>

theorem launch_commands_roundtrip:
  fixes str_float :: "real \<Rightarrow> string" and cwd :: "string option"
  assumes "AFDDeploymentSpec s = Inr spec" "args_plain str_float python spec"
  defines "ps \<equiv> ls_processes (afd_deployment_spec_to_runtime_launch_spec str_float python cwd spec)"
  shows "map (\<lambda>p. (ps_role p, int_flag ''--tp'' (ps_command p), int_flag ''--dp'' (ps_command p))) ps =
      [(''prefill'', prefill_tp spec, prefill_dp spec), (''attention'', attention_tp spec, attention_dp spec),
       (''ffn'', ffn_tp spec, ffn_dp spec)] \<and>
    map (\<lambda>p. flag_value ''--port'' (ps_command p)) ps =
      map (Some \<circ> str_int) [prefill_port spec, attention_port spec, ffn_port spec] \<and>
    (\<forall>p \<in> set ps. ps_metadata p = [(''gpus'', int_flag ''--tp'' (ps_command p) * int_flag ''--dp'' (ps_command p))]) \<and>
    flag_value ''--afd-mirco-batch'' (ps_command (ps ! 1)) = Some (str_int (afd_micro_batch spec)) \<and>
    flag_value ''--afd-mirco-batch'' (ps_command (ps ! 2)) = Some (str_int (afd_micro_batch spec)) \<and>
    ps_env (ps ! 1) = ps_env (ps ! 2)"
proof -
  have ok: "spec_ok spec" using assms(1) by (auto simp: AFDDeploymentSpec_iff)
  have pl: "plain python" "plain (model_path spec)" "plain (disaggregation_ib_device spec)" "plain (spec_host spec)"
      "plain (str_float (ffn_mem_fraction_static spec))"
    using assms(2) by (simp_all add: args_plain_def)
  have mode: "plain ''prefill''" "plain ''decode''" "plain ''null''" by (simp_all add: plain_def)
  have pos: "0 < prefill_tp spec" "0 < prefill_dp spec" "0 < attention_tp spec" "0 < attention_dp spec" "0 < ffn_tp spec" "0 < ffn_dp spec"
    and gpus: "prefill_tp spec * prefill_dp spec = prefill_gpus spec" "attention_tp spec * attention_dp spec = attention_gpus spec"
      "ffn_tp spec * ffn_dp spec = ffn_gpus spec"
    using ok unfolding spec_ok_def by (simp_all add: mult.commute) (metis mult.commute)
  note pre = command_flags[OF pl(1,2) mode(1) pos(1,2)] and attn = command_flags[OF pl(1,2) mode(2) pos(3,4)]
    and ffn = command_flags[OF pl(1,2) mode(3) pos(5,6)]
  have ps: "ps = ls_processes (afd_deployment_spec_to_runtime_launch_spec str_float python cwd spec)" by (simp add: ps_def)
  note eqs = ps afd_deployment_spec_to_runtime_launch_spec_def launch_process_def
  have mb: "flag_value ''--afd-mirco-batch'' (ps_command (ps ! 1)) = Some (str_int (afd_micro_batch spec))"
      "flag_value ''--afd-mirco-batch'' (ps_command (ps ! 2)) = Some (str_int (afd_micro_batch spec))"
    using pl by (simp_all add: eqs launch_server_command_def not_flag)
  show ?thesis using mb pl pre attn ffn gpus by (simp add: eqs not_flag)
qed

definition sample_spec :: afd_spec where
  "sample_spec = \<lparr>model_path = ''/models/llama'', prefill_gpus = 2, attention_gpus = 4, ffn_gpus = 2, prefill_dp = 1,
     prefill_tp = 2, attention_dp = 2, attention_tp = 2, ffn_dp = 2, ffn_tp = 1, afd_micro_batch = 2,
     disaggregation_ib_device = ''mlx5_bond_1'', disaggregation_bootstrap_port = 9001, spec_host = ''127.0.0.1'',
     prefill_port = 30001, attention_port = 30002, ffn_port = 30003, chunked_prefill_size = 65536,
     max_prefill_tokens = 65536, prefill_bootstrap_timeout_s = 1200, afd_sched_host = ''127.0.0.1'',
     dmlc_ps_root_uri = None, dmlc_node_host = None, mlc_interface = ''bond2'', ffn_mem_fraction_static = 75 / 100,
     spec_metadata = \<lparr>sp_throughput = [], sp_estimated_latency_s = PosInf, sp_cost_per_hour = 0\<rparr>\<rparr>"

theorem launch_commands_roundtrip_witness:
  "AFDDeploymentSpec sample_spec = Inr sample_spec \<and>
   map (\<lambda>p. (ps_role p, int_flag ''--tp'' (ps_command p), int_flag ''--dp'' (ps_command p)))
     (ls_processes (afd_deployment_spec_to_runtime_launch_spec (\<lambda>_. ''0.75'') ''python'' None sample_spec)) =
     [(''prefill'', 2, 1), (''attention'', 2, 2), (''ffn'', 1, 2)]"
proof -
  have ok: "AFDDeploymentSpec sample_spec = Inr sample_spec"
    by (simp add: AFDDeploymentSpec_iff spec_ok_def sample_spec_def)
  have plain: "args_plain (\<lambda>_. ''0.75'') ''python'' sample_spec" by (simp add: args_plain_def plain_def sample_spec_def)
  show ?thesis using launch_commands_roundtrip[OF ok plain, of None] ok by (simp add: sample_spec_def)
qed

end
