(* ===== verification/Py_Io.thy ===== *)
theory Py_Io
  imports Hexgen_Prelude
begin

text \<open>
  Effects for the command line programs: a computation reads and changes a world and may raise.
  An exception keeps the changes made before it, so the world is returned in both cases.
  The second part is the text processing these programs do: \<open>split\<close>, \<open>strip\<close>, \<open>splitlines\<close>,
  \<open>join\<close> and \<open>int\<close> of a string.

  \<open>outcome P m Q E\<close> is the Hoare triple of such a computation: from a world with \<open>P\<close> it either
  returns with \<open>Q\<close> or raises with \<open>E\<close>. The rules for sequences and loops are collected in
  \<open>outcome_rules\<close>.
\<close>

named_theorems outcome_rules \<open>Hoare rules for computations with effects\<close>

section \<open>Computations\<close>

type_synonym ('w, 'a) io = "'w \<Rightarrow> 'a result \<times> 'w"

definition io_return :: "'a \<Rightarrow> ('w, 'a) io" where
  "io_return x w = (Inr x, w)"

definition io_raise :: "py_error \<Rightarrow> ('w, 'a) io" where
  "io_raise err w = (Inl err, w)"

definition io_of :: "'a result \<Rightarrow> ('w, 'a) io" where
  "io_of m w = (m, w)"

definition io_bind :: "('w, 'a) io \<Rightarrow> ('a \<Rightarrow> ('w, 'b) io) \<Rightarrow> ('w, 'b) io" where
  "io_bind m f w = (case m w of (Inl err, w') \<Rightarrow> (Inl err, w') | (Inr x, w') \<Rightarrow> f x w')"

lemma io_simps [simp]:
  "io_return x w = (Inr x, w)" "io_raise err w = (Inl err, w)" "io_of m w = (m, w)"
  by (simp_all add: io_return_def io_raise_def io_of_def)

lemma io_bind_Inr [simp]: "m w = (Inr x, w') \<Longrightarrow> io_bind m f w = f x w'"
  by (simp add: io_bind_def)

lemma io_bind_Inl [simp]: "m w = (Inl err, w') \<Longrightarrow> io_bind m f w = (Inl err, w')"
  by (simp add: io_bind_def)

text \<open>A \<open>for\<close> loop, a comprehension, and a comprehension that filters by a condition with effects.\<close>

fun io_each :: "('a \<Rightarrow> ('w, unit) io) \<Rightarrow> 'a list \<Rightarrow> ('w, unit) io" where
  "io_each f [] = io_return ()"
| "io_each f (x # xs) = io_bind (f x) (\<lambda>_. io_each f xs)"

fun io_map :: "('a \<Rightarrow> ('w, 'b) io) \<Rightarrow> 'a list \<Rightarrow> ('w, 'b list) io" where
  "io_map f [] = io_return []"
| "io_map f (x # xs) = io_bind (f x) (\<lambda>y. io_bind (io_map f xs) (\<lambda>ys. io_return (y # ys)))"

fun io_filter :: "('a \<Rightarrow> ('w, bool) io) \<Rightarrow> 'a list \<Rightarrow> ('w, 'a list) io" where
  "io_filter f [] = io_return []"
| "io_filter f (x # xs) =
     io_bind (f x) (\<lambda>b. io_bind (io_filter f xs) (\<lambda>ys. io_return (if b then x # ys else ys)))"

section \<open>Hoare triples\<close>

definition outcome ::
  "('w \<Rightarrow> bool) \<Rightarrow> ('w, 'a) io \<Rightarrow> ('a \<Rightarrow> 'w \<Rightarrow> bool) \<Rightarrow> (py_error \<Rightarrow> 'w \<Rightarrow> bool) \<Rightarrow> bool" where
  "outcome P m Q E \<longleftrightarrow> (\<forall>w. P w \<longrightarrow> (case m w of (Inr x, w') \<Rightarrow> Q x w' | (Inl err, w') \<Rightarrow> E err w'))"

lemma outcomeI:
  assumes "\<And>w x w'. P w \<Longrightarrow> m w = (Inr x, w') \<Longrightarrow> Q x w'"
    and "\<And>w err w'. P w \<Longrightarrow> m w = (Inl err, w') \<Longrightarrow> E err w'"
  shows "outcome P m Q E"
  using assms unfolding outcome_def by (fastforce split: prod.split sum.split)

lemma outcomeD:
  assumes "outcome P m Q E" "P w"
  shows "m w = (Inr x, w') \<Longrightarrow> Q x w'" "m w = (Inl err, w') \<Longrightarrow> E err w'"
  using assms unfolding outcome_def by fastforce+

lemma outcome_conseq:
  assumes "outcome P' m Q' E'" "\<And>w. P w \<Longrightarrow> P' w" "\<And>x w. Q' x w \<Longrightarrow> Q x w" "\<And>err w. E' err w \<Longrightarrow> E err w"
  shows "outcome P m Q E"
  by (rule outcomeI) (use outcomeD[OF assms(1)] assms(2-4) in blast)+

lemma outcome_pre: "(A \<Longrightarrow> outcome P m Q E) \<Longrightarrow> outcome (\<lambda>w. A \<and> P w) m Q E"
  by (simp add: outcome_def)

lemma outcome_return [outcome_rules]: "(\<And>w. P w \<Longrightarrow> Q x w) \<Longrightarrow> outcome P (io_return x) Q E"
  by (simp add: outcome_def)

lemma outcome_raise [outcome_rules]: "(\<And>w. P w \<Longrightarrow> E err w) \<Longrightarrow> outcome P (io_raise err) Q E"
  by (simp add: outcome_def)

lemma outcome_of [outcome_rules]:
  "(\<And>x w. P w \<Longrightarrow> m = Inr x \<Longrightarrow> Q x w) \<Longrightarrow> (\<And>err w. P w \<Longrightarrow> m = Inl err \<Longrightarrow> E err w) \<Longrightarrow> outcome P (io_of m) Q E"
  by (cases m) (auto simp: outcome_def)

lemma outcome_bind [outcome_rules]:
  assumes "outcome P m R E" "\<And>x. outcome (R x) (f x) Q E"
  shows "outcome P (io_bind m f) Q E"
proof (rule outcomeI)
  fix w y w' assume "P w" "io_bind m f w = (Inr y, w')"
  then show "Q y w'"
    using outcomeD(1)[OF assms(1)] outcomeD(1)[OF assms(2)]
    by (fastforce simp: io_bind_def split: prod.splits sum.splits)
next
  fix w err w' assume "P w" "io_bind m f w = (Inl err, w')"
  then show "E err w'"
    using outcomeD[OF assms(1)] outcomeD(2)[OF assms(2)]
    by (fastforce simp: io_bind_def split: prod.splits sum.splits)
qed

text \<open>A loop keeps an invariant.\<close>

lemma outcome_each:
  assumes "\<And>x. x \<in> set xs \<Longrightarrow> outcome I (f x) (\<lambda>_. I) E"
  shows "outcome I (io_each f xs) (\<lambda>_. I) E"
  using assms by (induction xs) (auto intro!: outcome_rules)

text \<open>A loop that establishes a property of each element and keeps those it has established.\<close>

lemma outcome_each_all:
  assumes "\<And>x. x \<in> set xs \<Longrightarrow> outcome I (f x) (\<lambda>_ w. I w \<and> G x w) E"
    and "\<And>x y. outcome (\<lambda>w. I w \<and> G y w) (f x) (\<lambda>_. G y) (\<lambda>_ _. True)"
  shows "outcome I (io_each f xs) (\<lambda>_ w. I w \<and> (\<forall>x \<in> set xs. G x w)) E"
  using assms(1)
proof (induction xs)
  case (Cons x xs)
  have keep: "outcome (\<lambda>w. I w \<and> G x w) (io_each f xs) (\<lambda>_ w. I w \<and> (\<forall>x' \<in> set (x # xs). G x' w)) E"
  proof (rule outcomeI)
    fix w u w' assume start: "I w \<and> G x w" "io_each f xs w = (Inr u, w')"
    have "G x w'" using start Cons.prems
    proof (induction xs arbitrary: w)
      case (Cons y ys)
      obtain v w1 where y: "f y w = (Inr v, w1)" "io_each f ys w1 = (Inr u, w')"
        using Cons.prems(2) by (auto simp: io_bind_def split: prod.splits sum.splits)
      have "I w1" using outcomeD(1)[OF Cons.prems(3)[of y], of w v w1] Cons.prems(1) y(1) by simp
      moreover have "G x w1" using outcomeD(1)[OF assms(2), of w x y v w1] Cons.prems(1) y(1) by simp
      ultimately show ?case by (intro Cons.IH[OF _ y(2)]) (auto intro: Cons.prems(3))
    qed simp
    moreover have "I w' \<and> (\<forall>x \<in> set xs. G x w')"
      using outcomeD(1)[OF Cons.IH, of w u w'] Cons.prems start by simp
    ultimately show "I w' \<and> (\<forall>x' \<in> set (x # xs). G x' w')" by simp
  next
    fix w err w' assume "I w \<and> G x w" "io_each f xs w = (Inl err, w')"
    then show "E err w'" using outcomeD(2)[OF Cons.IH, of w err w'] Cons.prems by simp
  qed
  then show ?case using Cons.prems by (auto intro: outcome_bind)
qed (auto intro: outcome_rules)

section \<open>Text\<close>

text \<open>\<open>s.split(c)\<close> for one character.\<close>

fun split_from :: "char \<Rightarrow> string \<Rightarrow> string \<Rightarrow> string list" where
  "split_from c acc [] = [acc]"
| "split_from c acc (x # xs) = (if x = c then acc # split_from c [] xs else split_from c (acc @ [x]) xs)"

definition py_split :: "char \<Rightarrow> string \<Rightarrow> string list" where
  "py_split c s = split_from c [] s"

text \<open>\<open>s.strip()\<close> and \<open>s.splitlines()\<close> on ASCII: the white space and the line boundaries of Python.\<close>

definition is_space :: "char \<Rightarrow> bool" where
  "is_space c = (let n = of_char c :: nat in n = 32 \<or> (9 \<le> n \<and> n \<le> 13) \<or> (28 \<le> n \<and> n \<le> 31))"

definition py_strip :: "string \<Rightarrow> string" where
  "py_strip s = rev (dropWhile is_space (rev (dropWhile is_space s)))"

definition is_newline :: "char \<Rightarrow> bool" where
  "is_newline c = (let n = of_char c :: nat in (10 \<le> n \<and> n \<le> 13) \<or> (28 \<le> n \<and> n \<le> 30))"

fun lines_from :: "string \<Rightarrow> string \<Rightarrow> string list" where
  "lines_from acc [] = (if acc = [] then [] else [acc])"
| "lines_from acc [x] = (if is_newline x then [acc] else [acc @ [x]])"
| "lines_from acc (x # y # xs) =
     (if is_newline x
      then acc # (if of_char x = (13 :: nat) \<and> of_char y = (10 :: nat) then lines_from [] xs else lines_from [] (y # xs))
      else lines_from (acc @ [x]) (y # xs))"

definition py_splitlines :: "string \<Rightarrow> string list" where
  "py_splitlines s = lines_from [] s"

text \<open>\<open>sep.join(xs)\<close>\<close>

fun py_join :: "string \<Rightarrow> string list \<Rightarrow> string" where
  "py_join sep [] = ''''"
| "py_join sep [x] = x"
| "py_join sep (x # y # xs) = x @ sep @ py_join sep (y # xs)"

text \<open>\<open>int(s)\<close>: white space, a sign, digits with single underscores between them.\<close>

definition is_digit :: "char \<Rightarrow> bool" where
  "is_digit c = (let n = of_char c :: nat in 48 \<le> n \<and> n \<le> 57)"

fun underscores_ok :: "bool \<Rightarrow> string \<Rightarrow> bool" where
  "underscores_ok after_digit [] = after_digit"
| "underscores_ok after_digit (c # cs) =
     (if is_digit c then underscores_ok True cs else c = CHR ''_'' \<and> after_digit \<and> underscores_ok False cs)"

definition parse_digits :: "string \<Rightarrow> nat option" where
  "parse_digits s = (if underscores_ok False s then Some (read_nat (filter is_digit s)) else None)"

definition py_int_str :: "string \<Rightarrow> int result" where
  "py_int_str s =
     (let t = py_strip s; err = Inl (ValueError ''invalid literal for int() with base 10'') in
      case t of
        [] \<Rightarrow> err
      | c # cs \<Rightarrow>
          if c = CHR ''-'' then (case parse_digits cs of None \<Rightarrow> err | Some n \<Rightarrow> Inr (- int n))
          else if c = CHR ''+'' then (case parse_digits cs of None \<Rightarrow> err | Some n \<Rightarrow> Inr (int n))
          else (case parse_digits t of None \<Rightarrow> err | Some n \<Rightarrow> Inr (int n)))"

lemma is_digit_show_nat: "list_all is_digit (show_nat n)"
proof -
  have "is_digit c" if "c \<in> set (show_nat n)" for c
    using show_nat_digits[OF that] by (auto simp: is_digit_def)
  then show ?thesis by (simp add: list_all_iff)
qed

lemma show_nat_nonempty [simp]: "show_nat n \<noteq> []"
  by (subst show_nat.simps) simp

lemma underscores_ok_digits: "list_all is_digit s \<Longrightarrow> underscores_ok b s \<longleftrightarrow> b \<or> s \<noteq> []"
  by (induction s arbitrary: b) auto

lemma digit_not_space: "is_digit c \<Longrightarrow> \<not> is_space c"
  by (auto simp: is_digit_def is_space_def Let_def)

lemma py_strip_digits: "list_all is_digit s \<Longrightarrow> py_strip s = s"
proof -
  have drop: "dropWhile is_space t = t" if "list_all is_digit t" for t
    using that by (cases t) (simp_all add: digit_not_space)
  assume "list_all is_digit s"
  then show ?thesis by (simp add: py_strip_def drop list_all_iff)
qed

lemma py_int_show_nat: "py_int_str (show_nat n) = Inr (int n)"
proof -
  have all: "list_all is_digit (show_nat n)" by (rule is_digit_show_nat)
  obtain c cs where s: "show_nat n = c # cs" by (cases "show_nat n") auto
  then have "is_digit c" using all by simp
  then have c: "c \<noteq> CHR ''-''" "c \<noteq> CHR ''+''" by (auto simp: is_digit_def)
  have "filter is_digit (show_nat n) = show_nat n" using all by (simp add: filter_id_conv list_all_iff)
  then have digits: "parse_digits (show_nat n) = Some n"
    using all by (simp add: parse_digits_def underscores_ok_digits)
  show ?thesis
    unfolding py_int_str_def py_strip_digits[OF all] Let_def digits by (simp add: s c)
qed

end
