(* ===== verification/Runtime_Apply.thy ===== *)
theory Runtime_Apply
  imports Afd_Deployment Py_Io
begin

text \<open>
  Applying a planned window to the machine, \<open>cli/_runtime_apply.py\<close>: the processes of a window
  get their GPUs, the processes recorded in the pid file are stopped, stale processes are cleaned
  up, the new processes are started and recorded, and a last check looks for early exits.

  The operating system is a parameter: the record \<open>os\<close> holds the calls the helper makes, each on
  a state of type \<open>'s\<close>. Its state and the pid files make up the \<open>world\<close>. A JSON object whose
  fields the code reads with \<open>get\<close> is a record with optional fields; a pid file may hold anything
  that parses, or not parse at all. Printing is left out. \<open>str\<close> of a float is the parameter
  \<open>str_float\<close>.
\<close>

section \<open>The operating system\<close>

datatype signum = Probe | SIGTERM | SIGKILL

datatype kill_status = Delivered | No_such_process | Not_permitted

datatype fs_op = Make_dirs string | Make_parent string | Open_append string | Open_write string

record 's os =
  sys_kill :: "int \<Rightarrow> signum \<Rightarrow> 's \<Rightarrow> kill_status \<times> 's"
  sys_killpg :: "int \<Rightarrow> signum \<Rightarrow> 's \<Rightarrow> kill_status \<times> 's"
  sys_sleep :: "real \<Rightarrow> 's \<Rightarrow> 's"
  sys_popen :: "string list \<Rightarrow> string \<Rightarrow> (string, string) dict \<Rightarrow> 's \<Rightarrow> int result \<times> 's"
  sys_run :: "string list \<Rightarrow> 's \<Rightarrow> (int \<times> string) option \<times> 's"
  sys_fs :: "fs_op \<Rightarrow> 's \<Rightarrow> unit result"
  sys_getpid :: int
  sys_getppid :: int
  sys_getcwd :: string
  sys_environ :: "(string, string) dict"
  sys_now :: "'s \<Rightarrow> string"
  sys_resolve :: "string \<Rightarrow> string"

section \<open>Data\<close>

text \<open>A process of a window, as \<open>RuntimeProcessSpec.as_dict\<close> writes it; \<open>Not_a_mapping\<close> stands for a field of another type.\<close>

datatype 'a mapping_field = Not_a_mapping | Mapping_field 'a

record rt_process =
  pr_name :: "string option"
  pr_role :: "string option"
  pr_command :: "string list option"
  pr_env :: "(string, string) dict option"
  pr_cwd :: "string option"
  pr_metadata :: "(string, int) dict mapping_field"

definition process_as_dict :: "process_spec \<Rightarrow> rt_process" where
  "process_as_dict p =
     \<lparr>pr_name = Some (ps_name p), pr_role = Some (ps_role p), pr_command = Some (ps_command p), pr_env = Some (ps_env p),
      pr_cwd = ps_cwd p, pr_metadata = Mapping_field (ps_metadata p)\<rparr>"

record runtime_window =
  rw_index :: "int option"
  rw_name :: "string option"
  rw_launch :: "rt_process list mapping_field"

text \<open>An entry of the pid file; \<open>Foreign_entry\<close> is one that is no mapping.\<close>

record launched_process =
  lp_name :: "string option"
  lp_role :: "string option"
  lp_pid :: "int option"
  lp_command :: "string list"
  lp_cwd :: string
  lp_cuda_visible_devices :: string
  lp_stdout :: string
  lp_stderr :: string

datatype pid_entry = Foreign_entry | Entry launched_process

datatype pid_entries = Not_a_list | Entries "pid_entry list"

record pid_document =
  pd_created_at :: string
  pd_plan :: string
  pd_window :: "int option \<times> string option"
  pd_log_dir :: string
  pd_processes :: pid_entries

datatype pid_json = Invalid_json | Not_an_object | Json_object pid_document

record 's world =
  w_os :: 's
  w_files :: "string \<Rightarrow> pid_json option"

record apply_options =
  ao_plan_path :: string
  ao_window :: runtime_window
  ao_gpu_ids :: "string option"
  ao_cwd :: "string option"
  ao_log_dir :: string
  ao_pid_file :: string
  ao_extra_env :: "(string, string) dict"
  ao_lb_host :: string
  ao_lb_port :: int
  ao_drain_state_file :: string
  ao_drain_wait_timeout_s :: real
  ao_startup_wait_s :: real
  ao_restart_lb :: bool
  ao_cleanup_stale_runtime :: bool

section \<open>The load balancer\<close>

definition key_of :: "string \<Rightarrow> 'a option \<Rightarrow> 'a result" where
  "key_of k x = (case x of None \<Rightarrow> Inl (KeyError k) | Some v \<Rightarrow> Inr v)"

fun command_option :: "string list \<Rightarrow> string \<Rightarrow> string option \<Rightarrow> string option" where
  "command_option [] opt d = d"
| "command_option (x # xs) opt d =
     (if x = opt then (case xs of [] \<Rightarrow> d | v # _ \<Rightarrow> Some v) else command_option xs opt d)"

definition default_command :: "rt_process \<Rightarrow> string list" where
  "default_command p = (case pr_command p of None \<Rightarrow> [] | Some c \<Rightarrow> c)"

definition server_url :: "rt_process \<Rightarrow> string result" where
  "server_url p =
     (let command = default_command p;
          host = (case command_option command ''--host'' (Some ''127.0.0.1'') of None \<Rightarrow> '''' | Some h \<Rightarrow> h)
      in case command_option command ''--port'' None of
           None \<Rightarrow> Inl (ValueError (''process '' @ (case pr_name p of None \<Rightarrow> ''None'' | Some n \<Rightarrow> n) @ '' has no --port''))
         | Some port \<Rightarrow>
             let host = (if host = ''0.0.0.0'' \<or> host = ''::'' then ''127.0.0.1'' else host)
             in Inr (''http://'' @ host @ '':'' @ port))"

definition first_role :: "string \<Rightarrow> rt_process list \<Rightarrow> rt_process result" where
  "first_role role ps = (case find (\<lambda>p. pr_role p = Some role) ps of None \<Rightarrow> Inl StopIteration | Some p \<Rightarrow> Inr p)"

definition build_lb_process :: "(real \<Rightarrow> string) \<Rightarrow> rt_process list \<Rightarrow> apply_options \<Rightarrow> rt_process result" where
  "build_lb_process str_float procs args =
     bind_result (first_role ''prefill'' procs) (\<lambda>prefill.
     bind_result (first_role ''attention'' procs) (\<lambda>attention.
     bind_result (server_url prefill) (\<lambda>prefill_url.
     bind_result (server_url attention) (\<lambda>attention_url.
     Inr \<lparr>pr_name = Some ''mini-lb'', pr_role = Some ''lb'',
       pr_command = Some [''python3'', ''-m'', ''sglang.srt.disaggregation.mini_lb'', ''--prefill'', prefill_url,
         ''--decode'', attention_url, ''--host'', ao_lb_host args, ''--port'', str_int (ao_lb_port args),
         ''--drain-state-file'', ao_drain_state_file args, ''--drain-wait-timeout-s'',
         str_float (ao_drain_wait_timeout_s args)],
       pr_env = Some [], pr_cwd = None, pr_metadata = Mapping_field [(''gpus'', 0)]\<rparr>))))"

section \<open>GPUs and environments\<close>

definition process_gpus :: "rt_process \<Rightarrow> int" where
  "process_gpus p =
     (case pr_metadata p of Not_a_mapping \<Rightarrow> 1 | Mapping_field m \<Rightarrow> max 0 (dict_getd m ''gpus'' 1))"

definition gpu_id_list :: "string option \<Rightarrow> int \<Rightarrow> string list" where
  "gpu_id_list raw needed =
     (let raw = or_default raw '''' in
      if raw \<noteq> '''' then filter (\<lambda>item. item \<noteq> '''') (map py_strip (py_split CHR '','' raw))
      else map str_int [0..needed - 1])"

text \<open>The loop over the processes: \<open>offset\<close> and \<open>assignments\<close> are its state.\<close>

definition assign_step ::
  "string list \<Rightarrow> int \<times> (string, string list) dict \<Rightarrow> rt_process \<Rightarrow> (int \<times> (string, string list) dict) result" where
  "assign_step gpu_ids st p =
     (let n = process_gpus p in
      bind_result (key_of ''name'' (pr_name p)) (\<lambda>name.
      Inr (fst st + n, AList.update name (take (nat n) (drop (nat (fst st)) gpu_ids)) (snd st))))"

definition assign_gpus :: "rt_process list \<Rightarrow> string option \<Rightarrow> (string, string list) dict result" where
  "assign_gpus procs raw =
     (let needed = sum_list (map process_gpus procs); gpu_ids = gpu_id_list raw needed in
      if int (length gpu_ids) < needed
      then Inl (ValueError (''need '' @ str_int needed @ '' GPU ids, got '' @ show_nat (length gpu_ids)))
      else bind_result (fold_result (assign_step gpu_ids) (0, []) procs) (\<lambda>st. Inr (snd st)))"

definition dict_update :: "(string, string) dict \<Rightarrow> (string, string) dict \<Rightarrow> (string, string) dict" where
  "dict_update d e = foldl (\<lambda>d kv. AList.update (fst kv) (snd kv) d) d e"

definition effective_env ::
  "rt_process \<Rightarrow> string list \<Rightarrow> (string, string) dict \<Rightarrow> (string, string) dict" where
  "effective_env p gpu_ids extra_env =
     (let env = dict_update (case pr_env p of None \<Rightarrow> [] | Some e \<Rightarrow> e) extra_env in
      if gpu_ids \<noteq> [] then AList.update ''CUDA_VISIBLE_DEVICES'' (py_join '','' gpu_ids) env else env)"

section \<open>Signals\<close>

definition os_call :: "('s \<Rightarrow> 'a \<times> 's) \<Rightarrow> ('s world, 'a) io" where
  "os_call f w = (case f (w_os w) of (x, s) \<Rightarrow> (Inr x, w\<lparr>w_os := s\<rparr>))"

definition os_try :: "('s \<Rightarrow> 'a result \<times> 's) \<Rightarrow> ('s world, 'a) io" where
  "os_try f w = (case f (w_os w) of (x, s) \<Rightarrow> (x, w\<lparr>w_os := s\<rparr>))"

definition os_sleep :: "'s os \<Rightarrow> real \<Rightarrow> ('s world, unit) io" where
  "os_sleep os t = os_call (\<lambda>s. ((), sys_sleep os t s))"

definition os_fs :: "'s os \<Rightarrow> fs_op \<Rightarrow> ('s world, unit) io" where
  "os_fs os opn w = (sys_fs os opn (w_os w), w)"

definition send_signal :: "'s os \<Rightarrow> int \<Rightarrow> signum \<Rightarrow> bool \<Rightarrow> ('s world, bool) io" where
  "send_signal os pid sig process_group =
     io_bind (if process_group then os_call (sys_killpg os pid sig) else io_return No_such_process) (\<lambda>st.
     if st = Delivered then io_return True
     else io_bind (os_call (sys_kill os pid sig)) (\<lambda>st.
       case st of Delivered \<Rightarrow> io_return True | No_such_process \<Rightarrow> io_return False
       | Not_permitted \<Rightarrow> io_raise (OSError ''PermissionError'')))"

definition pid_exists :: "'s os \<Rightarrow> int \<Rightarrow> ('s world, bool) io" where
  "pid_exists os pid =
     io_bind (os_call (sys_kill os pid Probe)) (\<lambda>st.
       case st of Delivered \<Rightarrow> io_return True | No_such_process \<Rightarrow> io_return False
       | Not_permitted \<Rightarrow> io_raise (OSError ''PermissionError''))"

definition kill_if_exists :: "'s os \<Rightarrow> bool \<Rightarrow> int \<Rightarrow> ('s world, unit) io" where
  "kill_if_exists os process_group pid =
     io_bind (pid_exists os pid) (\<lambda>alive.
     if \<not> alive then io_return ()
     else io_bind (send_signal os pid SIGKILL process_group) (\<lambda>_. io_return ()))"

definition terminate_process_targets :: "'s os \<Rightarrow> int list \<Rightarrow> bool \<Rightarrow> real \<Rightarrow> ('s world, unit) io" where
  "terminate_process_targets os targets process_group grace_s =
     io_bind (io_each (\<lambda>pid. io_bind (send_signal os pid SIGTERM process_group) (\<lambda>_. io_return ())) targets) (\<lambda>_.
     io_bind (os_sleep os grace_s) (\<lambda>_.
     io_each (kill_if_exists os process_group) targets))"

section \<open>The pid file\<close>

definition load_json :: "pid_json \<Rightarrow> pid_document result" where
  "load_json j =
     (case j of Invalid_json \<Rightarrow> Inl (ValueError ''JSONDecodeError'')
      | Not_an_object \<Rightarrow> Inl (ValueError ''JSON root must be an object'')
      | Json_object d \<Rightarrow> Inr d)"

definition read_pid_file :: "string \<Rightarrow> ('s world, pid_entries option) io" where
  "read_pid_file path w =
     (case w_files w path of None \<Rightarrow> (Inr None, w)
      | Some j \<Rightarrow> (bind_result (load_json j) (\<lambda>d. Inr (Some (pd_processes d))), w))"

definition entry_role :: "launched_process \<Rightarrow> string" where
  "entry_role p = (case lp_role p of None \<Rightarrow> '''' | Some r \<Rightarrow> r)"

definition keep_entry :: "'s os \<Rightarrow> string list \<Rightarrow> pid_entry \<Rightarrow> ('s world, bool) io" where
  "keep_entry os keep_roles entry =
     (case entry of Foreign_entry \<Rightarrow> io_return False
      | Entry p \<Rightarrow>
          if entry_role p \<notin> set keep_roles then io_return False
          else io_bind (io_of (key_of ''pid'' (lp_pid p))) (pid_exists os))"

definition kept_existing_processes :: "'s os \<Rightarrow> string \<Rightarrow> string list \<Rightarrow> ('s world, pid_entry list) io" where
  "kept_existing_processes os pid_file keep_roles =
     (if keep_roles = [] then io_return []
      else io_bind (read_pid_file pid_file) (\<lambda>es.
        case es of None \<Rightarrow> io_return [] | Some Not_a_list \<Rightarrow> io_return []
        | Some (Entries entries) \<Rightarrow> io_filter (keep_entry os keep_roles) entries))"

fun stop_entries :: "string list \<Rightarrow> pid_entry list \<Rightarrow> launched_process list" where
  "stop_entries keep_roles [] = []"
| "stop_entries keep_roles (Foreign_entry # es) = stop_entries keep_roles es"
| "stop_entries keep_roles (Entry p # es) =
     (if entry_role p \<notin> set keep_roles then p # stop_entries keep_roles es else stop_entries keep_roles es)"

definition stop_existing :: "'s os \<Rightarrow> string \<Rightarrow> string list \<Rightarrow> ('s world, unit) io" where
  "stop_existing os pid_file keep_roles =
     io_bind (read_pid_file pid_file) (\<lambda>es.
       case es of None \<Rightarrow> io_return () | Some Not_a_list \<Rightarrow> io_return ()
       | Some (Entries entries) \<Rightarrow>
           io_bind (io_of (map_result (\<lambda>p. key_of ''pid'' (lp_pid p)) (stop_entries keep_roles entries))) (\<lambda>targets.
           terminate_process_targets os targets True 2))"

definition write_pid_file ::
  "'s os \<Rightarrow> string \<Rightarrow> string \<Rightarrow> runtime_window \<Rightarrow> pid_entry list \<Rightarrow> string \<Rightarrow> ('s world, unit) io" where
  "write_pid_file os pid_file plan_path window launched log_dir w =
     (let data = \<lparr>pd_created_at = sys_now os (w_os w), pd_plan = plan_path, pd_window = (rw_index window, rw_name window),
            pd_log_dir = log_dir, pd_processes = Entries launched\<rparr> in
      io_bind (os_fs os (Make_parent pid_file)) (\<lambda>_.
      io_bind (os_fs os (Open_write pid_file)) (\<lambda>_.
      (\<lambda>w. (Inr (), w\<lparr>w_files := (w_files w)(pid_file := Some (Json_object data))\<rparr>)))) w)"

section \<open>Stale processes\<close>

definition other_pid :: "'s os \<Rightarrow> string \<Rightarrow> int option" where
  "other_pid os line =
     (let line = py_strip line in
      if line = '''' then None
      else case py_int_str line of Inl _ \<Rightarrow> None
           | Inr pid \<Rightarrow> if pid \<in> {sys_getpid os, sys_getppid os} then None else Some pid)"

definition output_pids :: "'s os \<Rightarrow> string \<Rightarrow> int list" where
  "output_pids os out = List.map_filter (other_pid os) (py_splitlines out)"

text \<open>The loop over the patterns; \<open>None\<close> is the early return when \<open>pgrep\<close> is missing.\<close>

fun scan_patterns :: "'s os \<Rightarrow> string list \<Rightarrow> int list \<Rightarrow> ('s world, int list option) io" where
  "scan_patterns os [] pids = io_return (Some pids)"
| "scan_patterns os (pattern # patterns) pids =
     io_bind (os_call (sys_run os [''pgrep'', ''-f'', pattern])) (\<lambda>res.
       case res of None \<Rightarrow> io_return None
       | Some (returncode, out) \<Rightarrow>
           scan_patterns os patterns (if returncode \<in> {0, 1} then dedup_from pids (output_pids os out) else pids))"

definition cleanup_stale_runtime_processes :: "'s os \<Rightarrow> bool \<Rightarrow> ('s world, unit) io" where
  "cleanup_stale_runtime_processes os include_lb =
     (let patterns = [''sglang.launch_server'', ''torch/_inductor/compile_worker'', ''sglang::''] @
            (if include_lb then [''sglang.srt.disaggregation.mini_lb''] else []) in
      io_bind (scan_patterns os patterns []) (\<lambda>found.
        case found of None \<Rightarrow> io_return ()
        | Some pids \<Rightarrow> if pids = [] then io_return () else terminate_process_targets os (sort pids) True 2))"

definition cleanup_rdma_cm_users :: "'s os \<Rightarrow> ('s world, unit) io" where
  "cleanup_rdma_cm_users os =
     io_bind (os_call (sys_run os [''lsof'', ''-t'', ''/dev/infiniband/rdma_cm''])) (\<lambda>res.
       case res of None \<Rightarrow> io_return ()
       | Some (returncode, out) \<Rightarrow>
           if returncode \<notin> {0, 1} then io_return ()
           else let unique_pids = sort (remdups (output_pids os out)) in
             if unique_pids = [] then io_return () else terminate_process_targets os unique_pids False 1)"

section \<open>Launching\<close>

definition two_digits :: "nat \<Rightarrow> string" where
  "two_digits n = (if n < 10 then ''0'' @ show_nat n else show_nat n)"

definition log_path :: "string \<Rightarrow> nat \<Rightarrow> string \<Rightarrow> string \<Rightarrow> string" where
  "log_path log_dir index name suffix = log_dir @ ''/'' @ two_digits index @ ''_'' @ name @ suffix"

definition launch_one_process ::
  "'s os \<Rightarrow> nat \<Rightarrow> rt_process \<Rightarrow> string list \<Rightarrow> (string, string) dict \<Rightarrow> string option \<Rightarrow> string \<Rightarrow>
   ('s world, pid_entry) io" where
  "launch_one_process os index p gpu_ids extra_env cwd_override log_dir =
     io_bind (io_of (key_of ''name'' (pr_name p))) (\<lambda>name.
     io_bind (io_of (key_of ''command'' (pr_command p))) (\<lambda>command.
     let role = (case pr_role p of None \<Rightarrow> ''unknown'' | Some r \<Rightarrow> r);
         cwd = or_default cwd_override (or_default (pr_cwd p) (sys_getcwd os));
         env = dict_update (sys_environ os) (effective_env p gpu_ids extra_env);
         stdout_path = log_path log_dir index name ''.out'';
         stderr_path = log_path log_dir index name ''.err''
     in io_bind (os_fs os (Open_append stdout_path)) (\<lambda>_.
        io_bind (os_fs os (Open_append stderr_path)) (\<lambda>_.
        io_bind (os_try (sys_popen os command cwd env)) (\<lambda>pid.
        io_return (Entry \<lparr>lp_name = Some name, lp_role = Some role, lp_pid = Some pid, lp_command = command, lp_cwd = cwd,
          lp_cuda_visible_devices = dict_getd env ''CUDA_VISIBLE_DEVICES'' '''', lp_stdout = stdout_path,
          lp_stderr = stderr_path\<rparr>))))))"

definition launch_all ::
  "'s os \<Rightarrow> rt_process list \<Rightarrow> (string, string list) dict \<Rightarrow> (string, string) dict \<Rightarrow> string option \<Rightarrow> string \<Rightarrow>
   ('s world, pid_entry list) io" where
  "launch_all os procs assignments extra_env cwd_override log_dir =
     io_map (\<lambda>(index, p).
       io_bind (io_of (key_of ''name'' (pr_name p))) (\<lambda>name.
       launch_one_process os index p (dict_getd assignments name []) extra_env cwd_override log_dir))
       (enumerate 0 procs)"

definition entry_pid :: "pid_entry \<Rightarrow> int option" where
  "entry_pid e = (case e of Foreign_entry \<Rightarrow> None | Entry p \<Rightarrow> lp_pid p)"

definition check_immediate_exits :: "'s os \<Rightarrow> pid_entry list \<Rightarrow> ('s world, pid_entry list) io" where
  "check_immediate_exits os launched =
     io_filter (\<lambda>e. io_bind (io_of (key_of ''pid'' (entry_pid e))) (\<lambda>pid.
       io_bind (pid_exists os pid) (\<lambda>alive. io_return (\<not> alive)))) launched"

section \<open>Applying a window\<close>

definition window_processes :: "runtime_window \<Rightarrow> rt_process list result" where
  "window_processes window =
     (case rw_launch window of
        Not_a_mapping \<Rightarrow> Inl (ValueError ''window has no runtime_launch'')
      | Mapping_field ps \<Rightarrow> if ps = [] then Inl (ValueError ''window has no runtime processes'') else Inr ps)"

definition apply_runtime_window :: "(real \<Rightarrow> string) \<Rightarrow> 's os \<Rightarrow> apply_options \<Rightarrow> ('s world, int) io" where
  "apply_runtime_window str_float os args =
     io_bind (io_of (window_processes (ao_window args))) (\<lambda>runtime_processes.
     io_bind (io_of (assign_gpus runtime_processes (ao_gpu_ids args))) (\<lambda>assignments.
     let cwd_override = (if or_default (ao_cwd args) '''' \<noteq> '''' then Some (sys_resolve os (or_default (ao_cwd args) ''''))
                         else None) in
     io_bind (if \<not> ao_restart_lb args then kept_existing_processes os (ao_pid_file args) [''lb''] else io_return []) (\<lambda>kept.
     let launch_lb = ao_restart_lb args \<or> kept = [] in
     io_bind (if launch_lb
              then io_bind (io_of (build_lb_process str_float runtime_processes args)) (\<lambda>lb. io_return (runtime_processes @ [lb]))
              else io_return runtime_processes) (\<lambda>procs.
     io_bind (stop_existing os (ao_pid_file args) (if kept \<noteq> [] then [''lb''] else [])) (\<lambda>_.
     io_bind (if ao_cleanup_stale_runtime args then cleanup_stale_runtime_processes os launch_lb else io_return ()) (\<lambda>_.
     io_bind (cleanup_rdma_cm_users os) (\<lambda>_.
     io_bind (os_fs os (Make_dirs (ao_log_dir args))) (\<lambda>_.
     io_bind (launch_all os procs assignments (ao_extra_env args) cwd_override (ao_log_dir args)) (\<lambda>launched.
     io_bind (write_pid_file os (ao_pid_file args) (sys_resolve os (ao_plan_path args)) (ao_window args) (kept @ launched)
                (sys_resolve os (ao_log_dir args))) (\<lambda>_.
     io_bind (if 0 < ao_startup_wait_s args then os_sleep os (ao_startup_wait_s args) else io_return ()) (\<lambda>_.
     io_bind (check_immediate_exits os launched) (\<lambda>failed.
     io_return (if failed \<noteq> [] then 1 else 0)))))))))))))"

end
