(* ===== verification/Process_Table.thy ===== *)
theory Process_Table
  imports Runtime_Apply
begin

text \<open>
  What the runtime helper relies on from the operating system, as the locale \<open>process_table\<close>, and
  what it achieves on every system that keeps those promises: no process it has started is lost.
  \<open>managed\<close> are the processes started by the helper that are still running. Signals, sleeping and
  running another program start none of them; \<open>SIGKILL\<close> ends the process it is delivered to; a
  process that \<open>kill\<close> does not find is not running; \<open>Popen\<close> adds at most the process it returns.
  The law for \<open>killpg\<close> holds because \<open>Popen\<close> is called with \<open>start_new_session\<close>: a managed process
  leads the group of its own pid.

  The interpretation \<open>unix\<close> is a POSIX process table with groups, permissions and zombies. It
  shows that the laws can hold, and it carries the counterexamples of the last section.
\<close>

section \<open>Recorded processes\<close>

definition pids_with :: "(launched_process \<Rightarrow> bool) \<Rightarrow> pid_entry list \<Rightarrow> int set" where
  "pids_with P es = {p. \<exists>e. Entry e \<in> set es \<and> P e \<and> lp_pid e = Some p}"

definition pids_of :: "pid_entry list \<Rightarrow> int set" where
  "pids_of es = pids_with (\<lambda>_. True) es"

definition entries_at :: "(string \<Rightarrow> pid_json option) \<Rightarrow> string \<Rightarrow> pid_entry list" where
  "entries_at files path =
     (case files path of Some (Json_object d) \<Rightarrow> (case pd_processes d of Entries es \<Rightarrow> es | Not_a_list \<Rightarrow> []) | _ \<Rightarrow> [])"

text \<open>
  \<open>keeps_lb restart es ks\<close>: \<open>ks\<close> are load balancers recorded in \<open>es\<close>, none after a restart.
  \<open>started ps lb es\<close>: \<open>es\<close> are the entries of the processes \<open>ps\<close>, and of a load balancer if \<open>lb\<close>.
\<close>

definition keeps_lb :: "bool \<Rightarrow> pid_entry list \<Rightarrow> pid_entry list \<Rightarrow> bool" where
  "keeps_lb restart es ks \<longleftrightarrow> set ks \<subseteq> set es \<and> (restart \<longrightarrow> ks = []) \<and> (\<forall>k \<in> set ks. \<exists>e. k = Entry e \<and> entry_role e = ''lb'')"

definition started :: "rt_process list \<Rightarrow> bool \<Rightarrow> pid_entry list \<Rightarrow> bool" where
  "started ps lb es \<longleftrightarrow> (\<exists>xs. es = map Entry xs \<and> map lp_name xs = map pr_name ps @ (if lb then [Some ''mini-lb''] else []))"

lemma pids_with_Cons: "pids_with P (e # es) = pids_with P [e] \<union> pids_with P es"
  by (auto simp: pids_with_def)

lemma pids_of_append: "pids_of (xs @ ys) = pids_of xs \<union> pids_of ys"
  by (auto simp: pids_of_def pids_with_def)

lemma pids_of_split: "pids_of es = pids_with P es \<union> pids_with (\<lambda>e. \<not> P e) es"
  by (auto simp: pids_of_def pids_with_def)

section \<open>Laws\<close>

locale process_table =
  fixes os :: "'s os" and managed :: "'s \<Rightarrow> int set"
  assumes kill_keeps: "sys_kill os p sg s = (st, s') \<Longrightarrow> managed s' \<subseteq> managed s"
    and killpg_keeps: "sys_killpg os p sg s = (st, s') \<Longrightarrow> managed s' \<subseteq> managed s"
    and sleep_keeps: "managed (sys_sleep os t s) \<subseteq> managed s"
    and run_keeps: "sys_run os c s = (r, s') \<Longrightarrow> managed s' \<subseteq> managed s"
    and kill_ends: "sys_kill os p SIGKILL s = (Delivered, s') \<Longrightarrow> p \<notin> managed s'"
    and killpg_ends: "sys_killpg os p SIGKILL s = (Delivered, s') \<Longrightarrow> p \<notin> managed s'"
    and kill_misses: "sys_kill os p sg s = (No_such_process, s') \<Longrightarrow> p \<notin> managed s'"
    and popen_adds: "sys_popen os c d env s = (Inr p, s') \<Longrightarrow> managed s' \<subseteq> insert p (managed s)"
    and popen_fails: "sys_popen os c d env s = (Inl err, s') \<Longrightarrow> managed s' \<subseteq> managed s"
begin

text \<open>The managed processes are among \<open>M\<close> and the files are \<open>F\<close>.\<close>

definition bounded :: "int set \<Rightarrow> (string \<Rightarrow> pid_json option) \<Rightarrow> 's world \<Rightarrow> bool" where
  "bounded M F w \<longleftrightarrow> managed (w_os w) \<subseteq> M \<and> w_files w = F"

definition stays :: "int set \<Rightarrow> (string \<Rightarrow> pid_json option) \<Rightarrow> ('s world, 'a) io \<Rightarrow> bool" where
  "stays M F m \<longleftrightarrow> outcome (bounded M F) m (\<lambda>_. bounded M F) (\<lambda>_. bounded M F)"

lemma stays_kill: "stays M F (os_call (sys_kill os p sg))"
  unfolding stays_def
  by (rule outcomeI) (auto simp: os_call_def bounded_def split: prod.splits dest!: kill_keeps)

lemma stays_killpg: "stays M F (os_call (sys_killpg os p sg))"
  unfolding stays_def
  by (rule outcomeI) (auto simp: os_call_def bounded_def split: prod.splits dest!: killpg_keeps)

lemma stays_run: "stays M F (os_call (sys_run os c))"
  unfolding stays_def
  by (rule outcomeI) (auto simp: os_call_def bounded_def split: prod.splits dest!: run_keeps)

lemma stays_sleep: "stays M F (os_sleep os t)"
  unfolding stays_def
  by (rule outcomeI) (use sleep_keeps in \<open>fastforce simp: os_sleep_def os_call_def bounded_def\<close>)+

lemma stays_fs: "stays M F (os_fs os opn)"
  unfolding stays_def by (rule outcomeI) (auto simp: os_fs_def)

lemma stays_pure: "stays M F (io_return x)" "stays M F (io_raise err)" "stays M F (io_of r)"
  unfolding stays_def by (auto intro!: outcome_rules)

lemma stays_read: "stays M F (read_pid_file path)"
  unfolding stays_def by (rule outcomeI) (auto simp: read_pid_file_def split: option.splits)

lemma stays_bind: "stays M F m \<Longrightarrow> (\<And>x. stays M F (f x)) \<Longrightarrow> stays M F (io_bind m f)"
  unfolding stays_def by (rule outcome_bind)

lemma stays_each: "(\<And>x. stays M F (f x)) \<Longrightarrow> stays M F (io_each f xs)"
  unfolding stays_def by (rule outcome_each)

lemma stays_filter: "(\<And>x. stays M F (f x)) \<Longrightarrow> stays M F (io_filter f xs)"
  by (induction xs) (auto intro!: stays_bind stays_pure)

lemmas stays_rules = stays_kill stays_killpg stays_run stays_sleep stays_fs stays_pure stays_read stays_bind stays_each
  stays_filter

section \<open>Signals\<close>

lemma stays_send_signal: "stays M F (send_signal os p sg grp)"
  unfolding send_signal_def by (auto intro!: stays_rules split: kill_status.split)

lemma stays_pid_exists: "stays M F (pid_exists os p)"
  unfolding pid_exists_def by (auto intro!: stays_rules split: kill_status.split)

lemma stays_terminate: "stays M F (terminate_process_targets os ts grp g)"
  unfolding terminate_process_targets_def kill_if_exists_def
  by (auto intro!: stays_rules stays_send_signal stays_pid_exists)

lemma pid_exists_false:
  assumes "pid_exists os p w = (Inr False, w')"
  shows "p \<notin> managed (w_os w')"
  using assms kill_misses
  by (auto simp: pid_exists_def os_call_def io_bind_def split: prod.splits kill_status.splits)

lemma send_kill_ends:
  assumes "send_signal os p SIGKILL grp w = (Inr b, w')"
  shows "p \<notin> managed (w_os w')"
  using assms kill_misses kill_ends killpg_ends
  by (auto simp: send_signal_def os_call_def io_bind_def split: prod.splits kill_status.splits if_splits)

lemma kill_if_exists_ends:
  "outcome (bounded M F) (kill_if_exists os grp p) (\<lambda>_ w. bounded M F w \<and> p \<notin> managed (w_os w)) (\<lambda>_. bounded M F)"
proof (rule outcomeI)
  fix w u w' assume start: "bounded M F w" "kill_if_exists os grp p w = (Inr u, w')"
  have "stays M F (kill_if_exists os grp p)"
    unfolding kill_if_exists_def by (auto intro!: stays_rules stays_send_signal stays_pid_exists)
  then have "bounded M F w'" using start by (auto simp: stays_def dest: outcomeD(1))
  moreover have "p \<notin> managed (w_os w')"
    using start(2) pid_exists_false[of p] send_kill_ends[of p]
    by (auto simp: kill_if_exists_def io_bind_def split: prod.splits sum.splits if_splits)
  ultimately show "bounded M F w' \<and> p \<notin> managed (w_os w')" ..
next
  fix w err w' assume start: "bounded M F w" "kill_if_exists os grp p w = (Inl err, w')"
  have "stays M F (kill_if_exists os grp p)"
    unfolding kill_if_exists_def by (auto intro!: stays_rules stays_send_signal stays_pid_exists)
  then show "bounded M F w'" using start by (auto simp: stays_def dest: outcomeD(2))
qed

text \<open>After \<open>_terminate_process_targets\<close> none of the targets is running.\<close>

lemma terminate_ends:
  "outcome (bounded M F) (terminate_process_targets os ts grp g) (\<lambda>_. bounded (M - set ts) F) (\<lambda>_. bounded M F)"
  unfolding terminate_process_targets_def
proof (rule outcome_bind[where R = "\<lambda>_. bounded M F"], goal_cases)
  case 1
  have "stays M F (io_each (\<lambda>pid. io_bind (send_signal os pid SIGTERM grp) (\<lambda>_. io_return ())) ts)"
    by (auto intro!: stays_rules stays_send_signal)
  then show ?case by (simp add: stays_def)
next
  case 2
  have "outcome (bounded M F) (io_each (kill_if_exists os grp) ts)
      (\<lambda>_ w. bounded M F w \<and> (\<forall>p \<in> set ts. p \<notin> managed (w_os w))) (\<lambda>_. bounded M F)"
  proof (rule outcome_each_all[OF kill_if_exists_ends])
    fix p q
    have "outcome (bounded (M - {q}) F) (kill_if_exists os grp p)
        (\<lambda>_ w. bounded (M - {q}) F w \<and> p \<notin> managed (w_os w)) (\<lambda>_. bounded (M - {q}) F)"
      by (rule kill_if_exists_ends)
    then show "outcome (\<lambda>w. bounded M F w \<and> q \<notin> managed (w_os w)) (kill_if_exists os grp p)
        (\<lambda>_ w. q \<notin> managed (w_os w)) (\<lambda>_ _. True)"
      by (rule outcome_conseq) (auto simp: bounded_def)
  qed
  then have "outcome (bounded M F) (io_each (kill_if_exists os grp) ts) (\<lambda>_. bounded (M - set ts) F) (\<lambda>_. bounded M F)"
    by (rule outcome_conseq) (auto simp: bounded_def)
  moreover have "outcome (bounded M F) (os_sleep os g) (\<lambda>_. bounded M F) (\<lambda>_. bounded M F)"
    using stays_sleep by (simp add: stays_def)
  ultimately show ?case by (auto intro: outcome_bind)
qed

section \<open>Keeping and stopping\<close>

text \<open>A load balancer that is not kept is not running.\<close>

lemma keep_entry_false:
  assumes "keep_entry os roles (Entry e) w = (Inr False, w')" "entry_role e \<in> set roles" "lp_pid e = Some p"
  shows "p \<notin> managed (w_os w')"
  using assms pid_exists_false by (auto simp: keep_entry_def key_of_def io_bind_def split: prod.splits sum.splits)

lemma stays_keep_entry: "stays M F (keep_entry os roles e)"
  unfolding keep_entry_def by (auto intro!: stays_rules stays_pid_exists split: pid_entry.split)

lemma filter_kept:
  "outcome (bounded (M \<union> pids_with (\<lambda>e. entry_role e \<in> set roles) es) F) (io_filter (keep_entry os roles) es)
     (\<lambda>ks w. set ks \<subseteq> set es \<and> (\<forall>k \<in> set ks. \<exists>e. k = Entry e \<and> entry_role e \<in> set roles) \<and>
        bounded (M \<union> pids_with (\<lambda>_. True) ks) F w)
     (\<lambda>_ w. w_files w = F)"
proof (induction es arbitrary: M)
  case Nil
  show ?case unfolding io_filter.simps by (rule outcome_return) (auto simp: pids_with_def)
next
  case (Cons e es)
  let ?lb = "\<lambda>e. entry_role e \<in> set roles"
  let ?here = "\<lambda>b. if b then pids_with (\<lambda>_. True) [e] else {}"
  have step: "outcome (bounded (M \<union> pids_with ?lb (e # es)) F) (keep_entry os roles e)
      (\<lambda>b w. (b \<longrightarrow> (\<exists>x. e = Entry x \<and> ?lb x)) \<and> bounded (M \<union> ?here b \<union> pids_with ?lb es) F w) (\<lambda>_ w. w_files w = F)"
  proof (rule outcomeI)
    fix w b w' assume start: "bounded (M \<union> pids_with ?lb (e # es)) F w" "keep_entry os roles e w = (Inr b, w')"
    have role: "b \<longrightarrow> (\<exists>x. e = Entry x \<and> ?lb x)" using start(2) by (auto simp: keep_entry_def split: pid_entry.splits if_splits)
    have kept: "bounded (M \<union> pids_with ?lb (e # es)) F w'"
      using outcomeD(1)[OF stays_keep_entry[unfolded stays_def] start] .
    have "p \<notin> managed (w_os w')" if "\<not> b" "e = Entry x" "?lb x" "lp_pid x = Some p" for x p
      using keep_entry_false[of roles x w w' p] start(2) that by simp
    then have "bounded (M \<union> ?here b \<union> pids_with ?lb es) F w'"
      using kept by (auto simp: bounded_def pids_with_def)
    then show "(b \<longrightarrow> (\<exists>x. e = Entry x \<and> ?lb x)) \<and> bounded (M \<union> ?here b \<union> pids_with ?lb es) F w'" using role by simp
  next
    fix w err w' assume start: "bounded (M \<union> pids_with ?lb (e # es)) F w" "keep_entry os roles e w = (Inl err, w')"
    then show "w_files w' = F"
      using outcomeD(2)[OF stays_keep_entry[unfolded stays_def] start] by (simp add: bounded_def)
  qed
  show ?case
    unfolding io_filter.simps
  proof (rule outcome_bind[OF step], goal_cases)
    case (1 b)
    show ?case
    proof (rule outcome_pre)
      assume role: "b \<longrightarrow> (\<exists>x. e = Entry x \<and> ?lb x)"
      show "outcome (bounded (M \<union> ?here b \<union> pids_with ?lb es) F)
          (io_bind (io_filter (keep_entry os roles) es) (\<lambda>ys. io_return (if b then e # ys else ys)))
          (\<lambda>ks w. set ks \<subseteq> set (e # es) \<and> (\<forall>k \<in> set ks. \<exists>e. k = Entry e \<and> ?lb e) \<and>
             bounded (M \<union> pids_with (\<lambda>_. True) ks) F w) (\<lambda>_ w. w_files w = F)"
      proof (rule outcome_bind[OF Cons.IH], rule outcome_return)
        fix ks w
        assume "set ks \<subseteq> set es \<and> (\<forall>k \<in> set ks. \<exists>e. k = Entry e \<and> ?lb e) \<and>
          bounded (M \<union> ?here b \<union> pids_with (\<lambda>_. True) ks) F w"
        then show "set (if b then e # ks else ks) \<subseteq> set (e # es) \<and>
            (\<forall>k \<in> set (if b then e # ks else ks). \<exists>e. k = Entry e \<and> ?lb e) \<and>
            bounded (M \<union> pids_with (\<lambda>_. True) (if b then e # ks else ks)) F w"
          using role pids_with_Cons[of "\<lambda>_. True" e ks] by (auto simp: Un_assoc)
      qed
    qed
  qed
qed

lemma set_stop_entries: "set (stop_entries roles es) = {e. Entry e \<in> set es \<and> entry_role e \<notin> set roles}"
  by (induction roles es rule: stop_entries.induct) auto

lemma pids_of_targets:
  "map_result (\<lambda>p. key_of ''pid'' (lp_pid p)) ps = Inr ts \<Longrightarrow> set ts = {p. \<exists>e \<in> set ps. lp_pid e = Some p}"
proof (induction ps arbitrary: ts)
  case (Cons e ps)
  then obtain t ts' where "lp_pid e = Some t" "map_result (\<lambda>p. key_of ''pid'' (lp_pid p)) ps = Inr ts'" "ts = t # ts'"
    by (auto simp: bind_result_eq_Inr key_of_def split: option.splits)
  then show ?case using Cons.IH by auto
qed simp

text \<open>After \<open>_stop_existing\<close> only processes with a kept role can be running.\<close>

lemma stop_existing_ends:
  assumes "F path = Some (Json_object d)" "pd_processes d = Entries es"
  shows "outcome (bounded M F) (stop_existing os path roles)
     (\<lambda>_. bounded (M - pids_with (\<lambda>e. entry_role e \<notin> set roles) es) F) (\<lambda>_. bounded M F)"
proof -
  have rd: "outcome (bounded M F) (read_pid_file path) (\<lambda>x w. x = Some (Entries es) \<and> bounded M F w) (\<lambda>_. bounded M F)"
    by (rule outcomeI) (auto simp: read_pid_file_def bounded_def assms load_json_def)
  have stop: "outcome (bounded M F)
      (io_bind (io_of (map_result (\<lambda>p. key_of ''pid'' (lp_pid p)) (stop_entries roles es))) (\<lambda>targets.
         terminate_process_targets os targets True 2))
      (\<lambda>_. bounded (M - pids_with (\<lambda>e. entry_role e \<notin> set roles) es) F) (\<lambda>_. bounded M F)"
  proof (rule outcome_bind[where R = "\<lambda>ts w. set ts = pids_with (\<lambda>e. entry_role e \<notin> set roles) es \<and> bounded M F w"],
      goal_cases)
    case 1
    show ?case
      by (rule outcome_of) (auto simp: pids_with_def set_stop_entries pids_of_targets)
  next
    case (2 ts)
    show ?case
      by (cases "set ts = pids_with (\<lambda>e. entry_role e \<notin> set roles) es")
        (use terminate_ends[of M F ts True 2] in \<open>auto intro: outcomeI\<close>)
  qed
  show ?thesis
    unfolding stop_existing_def
    by (rule outcome_bind[OF rd], rule outcome_pre) (use stop in simp)
qed

lemma stop_recorded_ends:
  "outcome (bounded M F) (stop_existing os path roles)
     (\<lambda>_. bounded (M - pids_with (\<lambda>e. entry_role e \<notin> set roles) (entries_at F path)) F) (\<lambda>_ _. True)"
proof (cases "\<exists>d es. F path = Some (Json_object d) \<and> pd_processes d = Entries es")
  case True
  then obtain d es where d: "F path = Some (Json_object d)" "pd_processes d = Entries es" by blast
  then have "entries_at F path = es" by (simp add: entries_at_def)
  then show ?thesis using stop_existing_ends[of F path d es M roles] d by (auto elim: outcome_conseq)
next
  case False
  then have "entries_at F path = []"
    by (auto simp: entries_at_def split: option.split pid_json.split pid_entries.split)
  moreover have "outcome (bounded M F) (stop_existing os path roles) (\<lambda>_. bounded M F) (\<lambda>_ _. True)"
    by (rule outcomeI)
      (use False in \<open>auto simp: stop_existing_def read_pid_file_def bounded_def load_json_def io_bind_def
         split: option.splits pid_json.splits pid_entries.splits\<close>)
  ultimately show ?thesis by (simp add: pids_with_def)
qed

lemma kept_bounds:
  fixes F path
  defines "es \<equiv> entries_at F path"
  shows "outcome (bounded (pids_of es) F) (if \<not> restart then kept_existing_processes os path [''lb''] else io_return [])
     (\<lambda>ks w. keeps_lb restart es ks \<and>
        bounded (if ks = [] then pids_of es else pids_with (\<lambda>e. entry_role e \<noteq> ''lb'') es \<union> pids_of ks) F w) (\<lambda>_ _. True)"
proof (cases restart)
  case True
  then show ?thesis by (simp del: io_simps) (rule outcome_return, simp add: keeps_lb_def)
next
  case False
  let ?post = "\<lambda>ks w. keeps_lb restart es ks \<and>
        bounded (if ks = [] then pids_of es else pids_with (\<lambda>e. entry_role e \<noteq> ''lb'') es \<union> pids_of ks) F w"
  have filt: "outcome (bounded (pids_of es) F) (io_filter (keep_entry os [''lb'']) es) ?post (\<lambda>_ _. True)"
  proof (rule outcome_conseq[OF filter_kept[of "pids_with (\<lambda>e. entry_role e \<noteq> ''lb'') es" "[''lb'']" es F]], goal_cases)
    case (1 w)
    then show ?case by (simp add: pids_of_split[of es "\<lambda>e. entry_role e \<noteq> ''lb''"])
  next
    case (2 ks w)
    then show ?case by (auto simp: keeps_lb_def bounded_def pids_of_def pids_with_def False)
  qed simp
  have empty: "outcome (bounded (pids_of es) F) (io_return []) ?post (\<lambda>_ _. True)"
    by (rule outcome_return) (simp add: keeps_lb_def)
  have rd: "outcome (bounded (pids_of es) F) (read_pid_file path)
      (\<lambda>x w. (\<forall>xs. x = Some (Entries xs) \<longrightarrow> xs = es) \<and> bounded (pids_of es) F w) (\<lambda>_ _. True)"
    by (rule outcomeI)
      (auto simp: read_pid_file_def bounded_def es_def entries_at_def load_json_def split: option.splits pid_json.splits)
  have "outcome (bounded (pids_of es) F) (kept_existing_processes os path [''lb'']) ?post (\<lambda>_ _. True)"
    unfolding kept_existing_processes_def
    by (simp, rule outcome_bind[OF rd], rule outcome_pre)
      (use filt empty in \<open>auto split: option.split pid_entries.split\<close>)
  then show ?thesis using False by simp
qed

section \<open>Cleaning up and launching\<close>

lemma stays_scan: "stays M F (scan_patterns os patterns pids)"
proof (induction patterns arbitrary: pids)
  case (Cons x xs)
  show ?case
    unfolding scan_patterns.simps
    by (rule stays_bind[OF stays_run]) (auto intro: Cons.IH stays_pure split: option.split)
qed (simp only: scan_patterns.simps stays_pure)

lemma stays_cleanup: "stays M F (cleanup_stale_runtime_processes os lb)" "stays M F (cleanup_rdma_cm_users os)"
  unfolding cleanup_stale_runtime_processes_def cleanup_rdma_cm_users_def Let_def
  by (auto intro!: stays_bind stays_scan stays_terminate stays_run stays_pure split: option.split)

lemma popen_bounds:
  "outcome (bounded K F) (os_try (sys_popen os c d env)) (\<lambda>p. bounded (insert p K) F) (\<lambda>_ _. True)"
  by (rule outcomeI) (auto simp: os_try_def bounded_def split: prod.splits dest!: popen_adds)

lemma launch_one_bounds:
  "outcome (bounded K F) (launch_one_process os i p gs env cwd dir)
     (\<lambda>e w. (\<exists>x. e = Entry x \<and> lp_name x = pr_name p) \<and> bounded (K \<union> pids_of [e]) F w) (\<lambda>_ _. True)"
proof -
  have st: "outcome (bounded K F) (os_fs os opn) (\<lambda>_. bounded K F) (\<lambda>_ _. True)" for opn
    using stays_fs[of K F opn] by (auto simp: stays_def elim: outcome_conseq)
  have key: "outcome (bounded K F) (io_of (key_of k x)) (\<lambda>v w. x = Some v \<and> bounded K F w) (\<lambda>_ _. True)" for k and x :: "'x option"
    by (rule outcome_of) (auto simp: key_of_def split: option.splits)
  show ?thesis
    unfolding launch_one_process_def Let_def
    by (rule outcome_bind[OF key], rule outcome_pre, rule outcome_bind[OF key], rule outcome_pre,
        rule outcome_bind[OF st], rule outcome_bind[OF st], rule outcome_bind[OF popen_bounds], rule outcome_return)
      (auto simp: pids_of_def pids_with_def bounded_def)
qed

lemma launch_all_bounds:
  "outcome (bounded K F) (launch_all os ps assignments env cwd dir)
     (\<lambda>es w. list_all2 (\<lambda>e p. \<exists>x. e = Entry x \<and> lp_name x = pr_name p) es ps \<and> bounded (K \<union> pids_of es) F w) (\<lambda>_ _. True)"
proof -
  have "outcome (bounded K F) (io_map (\<lambda>(i, p).
       io_bind (io_of (key_of ''name'' (pr_name p))) (\<lambda>name.
       launch_one_process os i p (dict_getd assignments name []) env cwd dir)) (enumerate n ps))
     (\<lambda>es w. list_all2 (\<lambda>e p. \<exists>x. e = Entry x \<and> lp_name x = pr_name p) es ps \<and> bounded (K \<union> pids_of es) F w)
     (\<lambda>_ _. True)" for n
  proof (induction ps arbitrary: n K)
    case Nil
    show ?case unfolding enumerate_simps io_map.simps by (rule outcome_return) (auto simp: pids_of_def pids_with_def)
  next
    case (Cons p ps)
    have one: "outcome (bounded K F) (io_bind (io_of (key_of ''name'' (pr_name p))) (\<lambda>name.
        launch_one_process os n p (dict_getd assignments name []) env cwd dir))
        (\<lambda>e w. (\<exists>x. e = Entry x \<and> lp_name x = pr_name p) \<and> bounded (K \<union> pids_of [e]) F w) (\<lambda>_ _. True)"
      by (rule outcome_bind[OF outcome_of[where Q = "\<lambda>_. bounded K F"] launch_one_bounds]) simp_all
    show ?case
      unfolding enumerate_simps io_map.simps prod.case
      by (rule outcome_bind[OF one], rule outcome_pre, rule outcome_bind[OF Cons.IH], rule outcome_pre, rule outcome_return)
        (auto simp: pids_of_def pids_with_Cons[of _ _ "_ # _"] pids_with_def bounded_def)
  qed
  then show ?thesis by (simp add: launch_all_def)
qed

section \<open>A whole apply\<close>

lemma write_bounds:
  "outcome (bounded M F) (write_pid_file os path plan window es dir)
     (\<lambda>_ w. \<exists>d. pd_processes d = Entries es \<and> bounded M (F(path := Some (Json_object d))) w) (\<lambda>_ _. True)"
proof (rule outcomeI)
  fix w u w' assume "bounded M F w" "write_pid_file os path plan window es dir w = (Inr u, w')"
  then have "bounded M (F(path := Some (Json_object \<lparr>pd_created_at = sys_now os (w_os w), pd_plan = plan,
      pd_window = (rw_index window, rw_name window), pd_log_dir = dir, pd_processes = Entries es\<rparr>))) w'"
    by (auto simp: write_pid_file_def os_fs_def io_bind_def bounded_def split: sum.splits)
  then show "\<exists>d. pd_processes d = Entries es \<and> bounded M (F(path := Some (Json_object d))) w'"
    by (intro exI conjI) (rule pid_document.select_convs)
qed simp

lemma stays_check: "stays M F (check_immediate_exits os es)"
  unfolding check_immediate_exits_def by (auto intro!: stays_rules stays_pid_exists)

lemma staysI: "stays M F m \<Longrightarrow> outcome (bounded M F) m (\<lambda>_. bounded M F) (\<lambda>_ _. True)"
  unfolding stays_def by (erule outcome_conseq) simp_all

lemma started_all:
  assumes "list_all2 (\<lambda>e p. \<exists>x. e = Entry x \<and> lp_name x = pr_name p) es ps"
  shows "\<exists>xs. es = map Entry xs \<and> map lp_name xs = map pr_name ps"
  using assms
proof (induction es ps rule: list_all2_induct)
  case (Cons e es p ps)
  then obtain x xs where "e = Entry x" "lp_name x = pr_name p" "es = map Entry xs" "map lp_name xs = map pr_name ps" by blast
  then show ?case by (intro exI[of _ "x # xs"]) simp
qed simp

lemma lb_name: "build_lb_process sf ps args = Inr lb \<Longrightarrow> pr_name lb = Some ''mini-lb''"
  by (auto simp: build_lb_process_def bind_result_eq_Inr)

text \<open>From the launch on: the processes of \<open>K\<close> and the new ones are recorded.\<close>

lemma launch_and_record:
  "outcome (bounded (pids_of kept) F)
     (io_bind (os_fs os (Make_dirs dir)) (\<lambda>_.
      io_bind (launch_all os procs assignments env cwd dir) (\<lambda>launched.
      io_bind (write_pid_file os path plan window (kept @ launched) logs) (\<lambda>_.
      io_bind (if 0 < t then os_sleep os t else io_return ()) (\<lambda>_.
      io_bind (check_immediate_exits os launched) (\<lambda>failed. io_return (if failed \<noteq> [] then (1 :: int) else 0)))))))
     (\<lambda>_ w. \<exists>launched d. list_all2 (\<lambda>e p. \<exists>x. e = Entry x \<and> lp_name x = pr_name p) launched procs \<and>
        pd_processes d = Entries (kept @ launched) \<and> bounded (pids_of (kept @ launched)) (F(path := Some (Json_object d))) w)
     (\<lambda>_ _. True)"
proof (rule outcome_bind[OF staysI[OF stays_fs]], rule outcome_bind[OF launch_all_bounds], rule outcome_pre, goal_cases)
  case (1 _ launched)
  let ?M = "pids_of (kept @ launched)"
  let ?post = "\<lambda>_ w. \<exists>d. pd_processes d = Entries (kept @ launched) \<and> bounded ?M (F(path := Some (Json_object d))) w"
  have keeps: "outcome (?post ()) m ?post (\<lambda>_ _. True)" if "\<And>M F. stays M F m" for m :: "('s world, 'x) io"
    by (rule outcomeI) (use outcomeD(1)[OF staysI[OF that]] in blast, simp)
  have "outcome (bounded (pids_of kept \<union> pids_of launched) F)
      (io_bind (write_pid_file os path plan window (kept @ launched) logs) (\<lambda>_.
       io_bind (if 0 < t then os_sleep os t else io_return ()) (\<lambda>_.
       io_bind (check_immediate_exits os launched) (\<lambda>failed. io_return (if failed \<noteq> [] then (1 :: int) else 0)))))
      ?post (\<lambda>_ _. True)"
    unfolding pids_of_append[symmetric]
    by (rule outcome_bind[OF write_bounds], rule keeps) (auto intro!: stays_rules stays_check)
  then show ?case by (rule outcome_conseq) (use 1 in blast)+
qed

lemma apply_records:
  fixes F args
  defines "path \<equiv> ao_pid_file args" and "es \<equiv> entries_at F (ao_pid_file args)"
  shows "outcome (bounded (pids_of es) F) (apply_runtime_window sf os args)
    (\<lambda>_ w. \<exists>ps kept launched d. window_processes (ao_window args) = Inr ps \<and> keeps_lb (ao_restart_lb args) es kept \<and>
       started ps (kept = []) launched \<and> pd_processes d = Entries (kept @ launched) \<and>
       bounded (pids_of (kept @ launched)) (F(path := Some (Json_object d))) w) (\<lambda>_ _. True)"
proof -
  let ?M = "\<lambda>ks. if ks = [] then pids_of es else pids_with (\<lambda>e. entry_role e \<noteq> ''lb'') es \<union> pids_of ks"
  let ?rec = "\<lambda>kept procs w. \<exists>launched d. list_all2 (\<lambda>e p. \<exists>x. e = Entry x \<and> lp_name x = pr_name p) launched procs \<and>
        pd_processes d = Entries (kept @ launched) \<and> bounded (pids_of (kept @ launched)) (F(path := Some (Json_object d))) w"
  have pure: "outcome P (io_of m) (\<lambda>x w. m = Inr x \<and> P w) (\<lambda>_ _. True)" for P and m :: "'x result"
    by (rule outcome_of) auto
  have procs: "outcome P (if lb then io_bind (io_of (build_lb_process sf ps args)) (\<lambda>l. io_return (ps @ [l])) else io_return ps)
      (\<lambda>procs w. map pr_name procs = map pr_name ps @ (if lb then [Some ''mini-lb''] else []) \<and> P w) (\<lambda>_ _. True)" for P lb ps
    by (cases lb) (simp_all del: io_simps, (rule outcome_bind[OF pure], rule outcome_pre, rule outcome_return, simp add: lb_name),
      rule outcome_return, simp)
  have stopped: "outcome (bounded (?M ks) F) (stop_existing os path (if ks \<noteq> [] then [''lb''] else []))
      (\<lambda>_. bounded (pids_of ks) F) (\<lambda>_ _. True)" for ks
    by (rule outcome_conseq[OF stop_recorded_ends[of "?M ks"]]) (auto simp: bounded_def path_def es_def pids_of_def pids_with_def split: if_splits)
  have clean: "outcome (bounded K F) (if c then cleanup_stale_runtime_processes os lb else io_return ()) (\<lambda>_. bounded K F) (\<lambda>_ _. True)"
    for K c lb
    by (rule staysI) (auto intro: stays_cleanup stays_pure)
  have es_path: "entries_at F path = es" by (simp add: es_def path_def)
  show ?thesis
    unfolding apply_runtime_window_def Let_def path_def[symmetric]
  proof (rule outcome_bind[OF pure], rule outcome_pre, rule outcome_bind[OF pure], rule outcome_pre,
      rule outcome_bind[OF kept_bounds[of F path, unfolded es_path]], rule outcome_pre,
      rule outcome_bind[OF procs], rule outcome_pre, rule outcome_bind[OF stopped], rule outcome_bind[OF clean],
      rule outcome_bind[OF staysI[OF stays_cleanup(2)]], goal_cases)
    case (1 ps assignments kept procs)
    note r = 1
    show ?case
    proof (rule outcome_conseq[OF launch_and_record[of kept F]])
      fix x :: int and w :: "'s world" assume "?rec kept procs w"
      then obtain launched d where l: "list_all2 (\<lambda>e p. \<exists>x. e = Entry x \<and> lp_name x = pr_name p) launched procs"
          "pd_processes d = Entries (kept @ launched)" "bounded (pids_of (kept @ launched)) (F(path := Some (Json_object d))) w"
        by blast
      have "started ps (kept = []) launched"
        using started_all[OF l(1)] r(3,4) by (auto simp: started_def keeps_lb_def split: if_splits)
      then show "\<exists>ps kept launched d. window_processes (ao_window args) = Inr ps \<and> keeps_lb (ao_restart_lb args) es kept \<and>
          started ps (kept = []) launched \<and> pd_processes d = Entries (kept @ launched) \<and>
          bounded (pids_of (kept @ launched)) (F(path := Some (Json_object d))) w"
        using r(1,3) l(2,3) by (intro exI conjI)
    qed simp_all
  qed
qed

end

end
