(* ===== verification/Runtime_Safety.thy ===== *)
theory Runtime_Safety
  imports Process_Table
begin

text \<open>
  The properties of the runtime helper: its checks come before its effects, the processes of a
  deployment get disjoint GPUs and the load balancer their addresses, and every process it leaves
  running is in the pid file. The laws of \<open>process_table\<close> are shown for a POSIX process table,
  \<open>unix_os\<close>, which also shows two ways in which the helper misses its aim: a launch that raises
  leaves the processes started before it unrecorded, and the check for early exits does not see a
  child that has exited and has not been waited for.
\<close>

section \<open>A POSIX process table\<close>

text \<open>
  A process has a pid and a group, runs or is a zombie, and may be ours to signal. Signals to a
  zombie are delivered without effect. \<open>Popen\<close> first collects the zombies of earlier \<open>Popen\<close>
  objects, as \<open>subprocess._cleanup\<close> does, and starts a process that leads a new group.
\<close>

record ux_proc =
  ux_pid :: int
  ux_group :: int
  ux_running :: bool
  ux_ours :: bool
  ux_ignores_term :: bool
  ux_exits :: bool

record unix =
  ux_procs :: "ux_proc list"
  ux_next :: int
  ux_crashing :: "string list"
  ux_missing :: "string list"

definition ux_hit :: "signum \<Rightarrow> ux_proc \<Rightarrow> ux_proc" where
  "ux_hit sg q =
     (case sg of Probe \<Rightarrow> q | SIGTERM \<Rightarrow> if ux_ignores_term q then q else q\<lparr>ux_running := False\<rparr>
      | SIGKILL \<Rightarrow> q\<lparr>ux_running := False\<rparr>)"

definition ux_kill :: "int \<Rightarrow> signum \<Rightarrow> unix \<Rightarrow> kill_status \<times> unix" where
  "ux_kill p sg s =
     (case find (\<lambda>q. ux_pid q = p) (ux_procs s) of None \<Rightarrow> (No_such_process, s)
      | Some q \<Rightarrow> if ux_ours q
          then (Delivered, s\<lparr>ux_procs := map (\<lambda>q. if ux_pid q = p then ux_hit sg q else q) (ux_procs s)\<rparr>)
          else (Not_permitted, s))"

definition ux_killpg :: "int \<Rightarrow> signum \<Rightarrow> unix \<Rightarrow> kill_status \<times> unix" where
  "ux_killpg g sg s =
     (let members = filter (\<lambda>q. ux_group q = g) (ux_procs s) in
      if members = [] then (No_such_process, s)
      else if \<not> list_ex ux_ours members then (Not_permitted, s)
      else (Delivered, s\<lparr>ux_procs := map (\<lambda>q. if ux_group q = g \<and> ux_ours q then ux_hit sg q else q) (ux_procs s)\<rparr>))"

definition ux_sleep :: "real \<Rightarrow> unix \<Rightarrow> unix" where
  "ux_sleep t s = s\<lparr>ux_procs := map (\<lambda>q. if ux_exits q then q\<lparr>ux_running := False\<rparr> else q) (ux_procs s)\<rparr>"

definition ux_popen ::
  "string list \<Rightarrow> string \<Rightarrow> (string, string) dict \<Rightarrow> unix \<Rightarrow> int result \<times> unix" where
  "ux_popen command cwd env s =
     (case command of [] \<Rightarrow> (Inl IndexError, s)
      | program # _ \<Rightarrow>
          if program \<in> set (ux_missing s) then (Inl (OSError ''FileNotFoundError''), s)
          else (Inr (ux_next s), s\<lparr>ux_procs := filter (\<lambda>q. ux_running q \<or> \<not> ux_ours q) (ux_procs s) @
                  [\<lparr>ux_pid = ux_next s, ux_group = ux_next s, ux_running = True, ux_ours = True, ux_ignores_term = False,
                    ux_exits = list_ex (\<lambda>c. c \<in> set (ux_crashing s)) command\<rparr>], ux_next := ux_next s + 1\<rparr>))"

definition unix_os :: "unix os" where
  "unix_os = \<lparr>sys_kill = ux_kill, sys_killpg = ux_killpg, sys_sleep = ux_sleep, sys_popen = ux_popen,
     sys_run = (\<lambda>c s. (None, s)), sys_fs = (\<lambda>opn s. Inr ()), sys_getpid = 100, sys_getppid = 1, sys_getcwd = ''/root'',
     sys_environ = [(''PATH'', ''/usr/bin'')], sys_now = (\<lambda>s. ''2025-01-01T00:00:00''), sys_resolve = (\<lambda>p. p)\<rparr>"

definition ux_managed :: "unix \<Rightarrow> int set" where
  "ux_managed s = set (map ux_pid (filter (\<lambda>q. ux_running q \<and> ux_ours q \<and> ux_group q = ux_pid q) (ux_procs s)))"

lemma ux_hit_fields [simp]:
  "ux_pid (ux_hit sg q) = ux_pid q" "ux_group (ux_hit sg q) = ux_group q" "ux_ours (ux_hit sg q) = ux_ours q"
  "\<not> ux_running (ux_hit SIGKILL q)"
  by (auto simp: ux_hit_def split: signum.splits if_splits)

lemma ux_hit_running: "ux_running (ux_hit sg q) \<Longrightarrow> ux_running q"
  by (auto simp: ux_hit_def split: signum.splits if_splits)

lemma mem_ux_managed:
  "p \<in> ux_managed s \<longleftrightarrow> (\<exists>q \<in> set (ux_procs s). ux_pid q = p \<and> ux_running q \<and> ux_ours q \<and> ux_group q = p)"
  by (auto simp: ux_managed_def)

lemma ux_managed_map:
  assumes "\<And>q. ux_pid (f q) = ux_pid q \<and> ux_group (f q) = ux_group q \<and> ux_ours (f q) = ux_ours q \<and>
    (ux_running (f q) \<longrightarrow> ux_running q)"
  shows "p \<in> ux_managed (s\<lparr>ux_procs := map f (ux_procs s)\<rparr>) \<longleftrightarrow>
      (\<exists>q \<in> set (ux_procs s). ux_pid q = p \<and> ux_running (f q) \<and> ux_ours q \<and> ux_group q = p)"
    "ux_managed (s\<lparr>ux_procs := map f (ux_procs s)\<rparr>) \<subseteq> ux_managed s"
proof -
  have fields: "ux_pid (f q) = ux_pid q" "ux_group (f q) = ux_group q" "ux_ours (f q) = ux_ours q"
      "ux_running (f q) \<Longrightarrow> ux_running q" for q
    using assms[of q] by auto
  show mem: "p \<in> ux_managed (s\<lparr>ux_procs := map f (ux_procs s)\<rparr>) \<longleftrightarrow>
      (\<exists>q \<in> set (ux_procs s). ux_pid q = p \<and> ux_running (f q) \<and> ux_ours q \<and> ux_group q = p)" for p
    by (simp add: mem_ux_managed fields(1-3))
  show "ux_managed (s\<lparr>ux_procs := map f (ux_procs s)\<rparr>) \<subseteq> ux_managed s"
    unfolding subset_iff mem mem_ux_managed[of _ s] using fields(4) by blast
qed

lemma ux_kill_cases:
  assumes "ux_kill p sg s = (st, s')"
  obtains "st = No_such_process" "s' = s" "\<And>q. q \<in> set (ux_procs s) \<Longrightarrow> ux_pid q \<noteq> p"
  | "st = Not_permitted" "s' = s"
  | "st = Delivered" "s' = s\<lparr>ux_procs := map (\<lambda>q. if ux_pid q = p then ux_hit sg q else q) (ux_procs s)\<rparr>"
  using assms by (auto simp: ux_kill_def find_None_iff split: option.splits if_splits)

lemma ux_killpg_cases:
  assumes "ux_killpg p sg s = (st, s')"
  obtains "st \<noteq> Delivered" "s' = s"
  | "st = Delivered" "s' = s\<lparr>ux_procs := map (\<lambda>q. if ux_group q = p \<and> ux_ours q then ux_hit sg q else q) (ux_procs s)\<rparr>"
  using assms by (auto simp: ux_killpg_def Let_def split: if_splits)

interpretation unix: process_table unix_os ux_managed
proof (unfold_locales, goal_cases)
  case (1 p sg s st s')
  then have "ux_kill p sg s = (st, s')" by (simp add: unix_os_def)
  then show ?case by (cases rule: ux_kill_cases) (simp_all, rule ux_managed_map(2), auto dest: ux_hit_running)
next
  case (2 p sg s st s')
  then have "ux_killpg p sg s = (st, s')" by (simp add: unix_os_def)
  then show ?case by (cases rule: ux_killpg_cases) (simp_all, rule ux_managed_map(2), auto dest: ux_hit_running)
next
  case (3 t s)
  show ?case unfolding unix_os_def os.select_convs ux_sleep_def by (rule ux_managed_map(2)) simp
next
  case (4 c s r s')
  then show ?case by (simp add: unix_os_def)
next
  case (5 p s s')
  then have "ux_kill p SIGKILL s = (Delivered, s')" by (simp add: unix_os_def)
  then show ?case by (cases rule: ux_kill_cases) (auto simp: ux_managed_map(1) ux_hit_running)
next
  case (6 p s s')
  then have "ux_killpg p SIGKILL s = (Delivered, s')" by (simp add: unix_os_def)
  then show ?case by (cases rule: ux_killpg_cases) (auto simp: ux_managed_map(1) ux_hit_running)
next
  case (7 p sg s s')
  then have "ux_kill p sg s = (No_such_process, s')" by (simp add: unix_os_def)
  then show ?case by (cases rule: ux_kill_cases) (auto simp: mem_ux_managed)
next
  case (8 c d env s p s')
  then have "ux_popen c d env s = (Inr p, s')" by (simp add: unix_os_def)
  then show ?case by (auto simp: ux_popen_def mem_ux_managed split: list.splits if_splits)
next
  case (9 c d env s err s')
  then have "ux_popen c d env s = (Inl err, s')" by (simp add: unix_os_def)
  then show ?case by (auto simp: ux_popen_def split: list.splits if_splits)
qed

section \<open>Processes are recorded\<close>

text \<open>
  C17. The pid file knows the running processes. On every system that keeps the laws of
  \<open>process_table\<close>: if all running processes the helper has started are recorded in the pid file,
  and \<open>apply_runtime_window\<close> returns, then the new pid file consists of the load balancers kept from
  the old one (none when the load balancer is restarted) and one entry for each process of the
  window, with a new load balancer if none was kept; and again all running processes are recorded.
  So nothing of the previous runtime survives but a kept load balancer, and no other pid file changes.
\<close>

theorem apply_keeps_runtime_recorded:
  fixes os :: "'s os" and w :: "'s world"
  assumes "process_table os managed"
    and "managed (w_os w) \<subseteq> pids_of (entries_at (w_files w) (ao_pid_file args))"
    and "apply_runtime_window str_float os args w = (Inr rc, w')"
  shows "\<exists>ps kept launched. window_processes (ao_window args) = Inr ps \<and>
     entries_at (w_files w') (ao_pid_file args) = kept @ launched \<and>
     keeps_lb (ao_restart_lb args) (entries_at (w_files w) (ao_pid_file args)) kept \<and>
     started ps (kept = []) launched \<and> managed (w_os w') \<subseteq> pids_of (kept @ launched) \<and>
     (\<forall>path. path \<noteq> ao_pid_file args \<longrightarrow> w_files w' path = w_files w path)"
proof -
  note records = outcomeD(1)[OF process_table.apply_records[OF assms(1)]]
  from records[of "w_files w" args w str_float, OF _ assms(3)] assms(2)
  obtain ps kept launched d where r: "window_processes (ao_window args) = Inr ps"
      "keeps_lb (ao_restart_lb args) (entries_at (w_files w) (ao_pid_file args)) kept" "started ps (kept = []) launched"
      "pd_processes d = Entries (kept @ launched)" "managed (w_os w') \<subseteq> pids_of (kept @ launched)"
      "w_files w' = (w_files w)(ao_pid_file args := Some (Json_object d))"
    by (auto simp: process_table.bounded_def[OF assms(1)])
  then have "entries_at (w_files w') (ao_pid_file args) = kept @ launched" by (simp add: entries_at_def)
  then show ?thesis using r by (intro exI[of _ ps] exI[of _ kept] exI[of _ launched]) simp
qed

definition sample_process :: "string \<Rightarrow> string \<Rightarrow> rt_process" where
  "sample_process role port = \<lparr>pr_name = Some role, pr_role = Some role, pr_command = Some [''python'', ''--port'', port],
     pr_env = Some [], pr_cwd = None, pr_metadata = Mapping_field [(''gpus'', 2)]\<rparr>"

definition sample_apply :: apply_options where
  "sample_apply = \<lparr>ao_plan_path = ''plan'', ao_window = \<lparr>rw_index = Some 0, rw_name = Some ''step_0'',
       rw_launch = Mapping_field [sample_process ''prefill'' ''31'', sample_process ''attention'' ''32'']\<rparr>,
     ao_gpu_ids = None, ao_cwd = None, ao_log_dir = ''logs'', ao_pid_file = ''pids'', ao_extra_env = [], ao_lb_host = ''h'',
     ao_lb_port = 3, ao_drain_state_file = ''state'', ao_drain_wait_timeout_s = 600, ao_startup_wait_s = 2,
     ao_restart_lb = True, ao_cleanup_stale_runtime = False\<rparr>"

definition sample_world :: "string list \<Rightarrow> string list \<Rightarrow> unix world" where
  "sample_world crashing missing =
     \<lparr>w_os = \<lparr>ux_procs = [], ux_next = 500, ux_crashing = crashing, ux_missing = missing\<rparr>, w_files = (\<lambda>_. None)\<rparr>"

definition sample_run :: "unix world \<Rightarrow> int result \<times> unix world" where
  "sample_run = apply_runtime_window (\<lambda>_. ''600'') unix_os sample_apply"

lemmas apply_evaluation = sample_run_def apply_runtime_window_def sample_apply_def sample_world_def sample_process_def
  unix_os_def window_processes_def assign_gpus_def assign_step_def gpu_id_list_def process_gpus_def or_default_def
  str_int_def show_nat.simps key_of_def build_lb_process_def first_role_def server_url_def default_command_def
  stop_existing_def read_pid_file_def cleanup_rdma_cm_users_def os_call_def os_try_def os_fs_def os_sleep_def
  launch_all_def launch_one_process_def effective_env_def dict_update_def dict_getd_def log_path_def two_digits_def
  write_pid_file_def check_immediate_exits_def entry_pid_def pid_exists_def ux_kill_def ux_hit_def ux_popen_def ux_sleep_def
  io_bind_def Let_def upto_rec1 upto_rec2

theorem apply_keeps_runtime_recorded_witness:
  "\<exists>w'. sample_run (sample_world [] []) = (Inr 0, w') \<and>
     ux_managed (w_os w') \<subseteq> pids_of (entries_at (w_files w') ''pids'') \<and> length (entries_at (w_files w') ''pids'') = 3"
proof -
  have ok: "fst (sample_run (sample_world [] [])) = Inr 0" by (simp add: apply_evaluation)
  then obtain w' where run: "sample_run (sample_world [] []) = (Inr 0, w')" by (metis prod.collapse)
  have start: "ux_managed (w_os (sample_world [] [])) \<subseteq> pids_of (entries_at (w_files (sample_world [] [])) (ao_pid_file sample_apply))"
    by (simp add: sample_world_def ux_managed_def)
  have ps: "window_processes (ao_window sample_apply) = Inr [sample_process ''prefill'' ''31'', sample_process ''attention'' ''32'']"
    and restart: "ao_restart_lb sample_apply" and path: "ao_pid_file sample_apply = ''pids''"
    by (simp_all add: sample_apply_def window_processes_def)
  from apply_keeps_runtime_recorded[OF unix.process_table_axioms start run[unfolded sample_run_def]]
  show ?thesis using run restart by (auto simp: ps path keeps_lb_def started_def)
qed

lemma pids_of_list:
  "pids_of [] = {}" "pids_of (Entry e # es) = (case lp_pid e of None \<Rightarrow> pids_of es | Some p \<Rightarrow> insert p (pids_of es))"
  by (auto simp: pids_of_def pids_with_def split: option.split)

section \<open>Where the helper misses its aim\<close>

text \<open>
  The load balancer is started last, by the program \<open>python3\<close>. If that program is missing, the
  exception leaves the two runtime processes running and no pid file that names them: the next
  apply will not stop them.
\<close>

theorem failed_launch_leaves_orphans:
  "\<exists>w'. sample_run (sample_world [] [''python3'']) = (Inl (OSError ''FileNotFoundError''), w') \<and>
     ux_managed (w_os w') = {500, 501} \<and> entries_at (w_files w') ''pids'' = []"
proof -
  let ?r = "sample_run (sample_world [] [''python3''])"
  have "fst ?r = Inl (OSError ''FileNotFoundError'')" "ux_managed (w_os (snd ?r)) = {500, 501}"
      "entries_at (w_files (snd ?r)) ''pids'' = []"
    by (simp_all add: apply_evaluation ux_managed_def entries_at_def del: set_filter set_map)
  then show ?thesis by (intro exI[of _ "snd ?r"]) (simp add: prod_eq_iff)
qed

text \<open>
  Both runtime processes exit during the start-up wait. As children that nobody has waited for
  they are zombies, \<open>kill\<close> with signal 0 still finds them, and the helper reports success.
\<close>

theorem early_exits_go_unnoticed:
  "\<exists>w'. sample_run (sample_world [''31'', ''32''] []) = (Inr 0, w') \<and> ux_managed (w_os w') = {502} \<and>
     pids_of (entries_at (w_files w') ''pids'') = {500, 501, 502}"
proof -
  let ?r = "sample_run (sample_world [''31'', ''32''] [])"
  have "fst ?r = Inr 0" "ux_managed (w_os (snd ?r)) = {502}"
      "pids_of (entries_at (w_files (snd ?r)) ''pids'') = {500, 501, 502}"
    by (simp_all add: apply_evaluation ux_managed_def entries_at_def pids_of_list del: set_filter set_map)
  then show ?thesis by (intro exI[of _ "snd ?r"]) (simp add: prod_eq_iff)
qed

section \<open>Checks come first\<close>

lemma assign_gpus_named:
  assumes "\<And>p. p \<in> set ps \<Longrightarrow> pr_name p \<noteq> None"
  shows "(\<exists>a. assign_gpus ps raw = Inr a) \<longleftrightarrow>
    sum_list (map process_gpus ps) \<le> int (length (gpu_id_list raw (sum_list (map process_gpus ps))))"
proof -
  have "\<exists>st'. fold_result (assign_step ids) st ps = Inr st'" for ids st
    using assms
  proof (induction ps arbitrary: st)
    case (Cons p ps)
    then obtain n where "pr_name p = Some n" by fastforce
    then show ?case using Cons by (auto simp: assign_step_def key_of_def Let_def)
  qed simp
  then obtain st where "fold_result (assign_step (gpu_id_list raw (sum_list (map process_gpus ps)))) (0, []) ps = Inr st" by blast
  then show ?thesis by (simp add: assign_gpus_def Let_def not_less)
qed

lemma first_role_error: "(\<exists>p \<in> set ps. pr_role p = Some role) \<or> first_role role ps = Inl StopIteration"
  by (induction ps) (auto simp: first_role_def)

text \<open>
  C19. Nothing is stopped for a window that cannot be launched. If the processes of a window need
  more GPUs than there are ids, \<open>apply_runtime_window\<close> raises a \<open>ValueError\<close>; if the load balancer is to
  be started and there is no prefill or no attention process, it raises as well. In all these cases, and for a window without processes, the world is unchanged:
  no signal is sent, the running processes and the pid file stay.
\<close>

theorem apply_checks_before_effects:
  fixes os :: "'s os" and w :: "'s world"
  assumes "\<And>p. p \<in> set ps \<Longrightarrow> pr_name p \<noteq> None"
    and "rw_launch (ao_window args) = Mapping_field ps"
    and "ps = [] \<or> int (length (gpu_id_list (ao_gpu_ids args) (sum_list (map process_gpus ps)))) < sum_list (map process_gpus ps) \<or>
      ao_restart_lb args \<and> (\<exists>role \<in> {''prefill'', ''attention''}. \<forall>p \<in> set ps. pr_role p \<noteq> Some role)"
  shows "\<exists>err. apply_runtime_window str_float os args w = (Inl err, w) \<and>
    (ps = [] \<or> int (length (gpu_id_list (ao_gpu_ids args) (sum_list (map process_gpus ps)))) < sum_list (map process_gpus ps)
     \<longrightarrow> (\<exists>msg. err = ValueError msg))"
proof -
  let ?ids = "gpu_id_list (ao_gpu_ids args) (sum_list (map process_gpus ps))"
  consider (empty) "ps = []" | (few) "ps \<noteq> []" "int (length ?ids) < sum_list (map process_gpus ps)"
    | (lb) "ps \<noteq> []" "sum_list (map process_gpus ps) \<le> int (length ?ids)" "ao_restart_lb args"
        "\<exists>role \<in> {''prefill'', ''attention''}. \<forall>p \<in> set ps. pr_role p \<noteq> Some role"
    using assms(3) by linarith
  then show ?thesis
  proof cases
    case empty
    then show ?thesis using assms(2) by (simp add: apply_runtime_window_def window_processes_def io_bind_def)
  next
    case few
    then have "\<exists>msg. assign_gpus ps (ao_gpu_ids args) = Inl (ValueError msg)" by (simp add: assign_gpus_def Let_def)
    then show ?thesis
      using few assms(2) by (auto simp: apply_runtime_window_def window_processes_def io_bind_def)
  next
    case lb
    obtain a where a: "assign_gpus ps (ao_gpu_ids args) = Inr a" using assign_gpus_named[OF assms(1)] lb(2) by blast
    have "build_lb_process str_float ps args = Inl StopIteration"
      using lb(4) first_role_error[of ps "''prefill''"] first_role_error[of ps "''attention''"]
      by (cases "first_role ''prefill'' ps") (auto simp: build_lb_process_def first_role_def split: option.splits)
    then have "apply_runtime_window str_float os args w = (Inl StopIteration, w)"
      using lb(1,3) a assms(2) by (simp add: apply_runtime_window_def window_processes_def io_bind_def)
    then show ?thesis using lb(1,2) by auto
  qed
qed

theorem apply_checks_before_effects_witness:
  "\<exists>err. apply_runtime_window (\<lambda>_. ''600'') unix_os (sample_apply\<lparr>ao_gpu_ids := Some ''0, 1''\<rparr>) (sample_world [] []) =
     (Inl err, sample_world [] [])"
proof -
  let ?args = "sample_apply\<lparr>ao_gpu_ids := Some ''0, 1''\<rparr>"
  let ?ps = "[sample_process ''prefill'' ''31'', sample_process ''attention'' ''32'']"
  have ps: "rw_launch (ao_window ?args) = Mapping_field ?ps" by (simp add: sample_apply_def)
  have named: "\<And>p. p \<in> set ?ps \<Longrightarrow> pr_name p \<noteq> None" by (auto simp: sample_process_def)
  have need: "sum_list (map process_gpus ?ps) = 4" by (simp add: process_gpus_def sample_process_def dict_getd_def)
  have ids: "length (gpu_id_list (ao_gpu_ids ?args) 4) = 2" by (simp add: gpu_id_list_def or_default_def) code_simp
  show ?thesis using apply_checks_before_effects[OF named ps, unfolded need, of "\<lambda>_. ''600''" unix_os "sample_world [] []"] ids
    by auto
qed

section \<open>GPUs and addresses of a deployment\<close>

lemma command_option_flag: "command_option c f None = flag_value f c"
proof (induction c)
  case (Cons x c)
  then show ?case by (cases c) auto
qed simp

lemma command_option_default: "command_option c f (Some d) = Some (case flag_value f c of None \<Rightarrow> d | Some v \<Rightarrow> v)"
proof (induction c)
  case (Cons x c)
  then show ?case by (cases c) auto
qed simp

text \<open>Consecutive slices: the assignments cut the ids, in order, into pieces of the wanted lengths.\<close>

lemma assign_fold:
  assumes "\<And>p. p \<in> set ps \<Longrightarrow> pr_name p = Some (name p)" "distinct (map name ps)" "fst ` set d \<inter> name ` set ps = {}" "0 \<le> off"
  shows "\<exists>slices. fold_result (assign_step ids) (off, d) ps = Inr (off + sum_list (map process_gpus ps), d @ zip (map name ps) slices) \<and>
    length slices = length ps \<and> concat slices = take (nat (sum_list (map process_gpus ps))) (drop (nat off) ids) \<and>
    (off + sum_list (map process_gpus ps) \<le> int (length ids) \<longrightarrow> map (int \<circ> length) slices = map process_gpus ps)"
  using assms
proof (induction ps arbitrary: off d)
  case (Cons p ps)
  define n where "n = process_gpus p"
  define rest where "rest = sum_list (map process_gpus ps)"
  have nonneg: "0 \<le> process_gpus q" for q by (simp add: process_gpus_def split: mapping_field.split)
  have pos: "0 \<le> n" "0 \<le> rest" using nonneg by (auto simp: n_def rest_def intro: sum_list_nonneg_map)
  let ?s = "take (nat n) (drop (nat off) ids)"
  have step: "assign_step ids (off, d) p = Inr (off + n, d @ [(name p, ?s)])"
    using Cons.prems(1,3) by (simp add: assign_step_def key_of_def n_def update_keys_absent Let_def)
  have "fst ` set (d @ [(name p, ?s)]) \<inter> name ` set ps = {}" using Cons.prems(2,3) by auto
  then obtain slices where IH: "fold_result (assign_step ids) (off + n, d @ [(name p, ?s)]) ps =
      Inr (off + n + rest, (d @ [(name p, ?s)]) @ zip (map name ps) slices)"
      "length slices = length ps" "concat slices = take (nat rest) (drop (nat (off + n)) ids)"
      "off + n + rest \<le> int (length ids) \<longrightarrow> map (int \<circ> length) slices = map process_gpus ps"
    using Cons.IH[of "d @ [(name p, ?s)]" "off + n", folded rest_def] Cons.prems(1,2,4) pos(1) by fastforce
  have nats: "nat (n + rest) = nat n + nat rest" "nat (off + n) = nat off + nat n"
    using pos Cons.prems(4) by (simp_all add: nat_add_distrib)
  have "concat (?s # slices) = take (nat (n + rest)) (drop (nat off) ids)"
    unfolding nats(1) take_add by (simp add: IH(3) nats(2) add.commute[of "nat n"])
  moreover have "int (length ?s) = n" if "off + (n + rest) \<le> int (length ids)"
    using that pos Cons.prems(4) by simp
  ultimately show ?case
    using step IH by (intro exI[of _ "?s # slices"]) (auto simp: n_def[symmetric] rest_def[symmetric] add.assoc comp_def)
qed simp

lemma deployment_lb:
  assumes "spec_ok spec" "args_plain str_float python spec"
  shows "\<exists>lb. build_lb_process str_float
      (map process_as_dict (ls_processes (afd_deployment_spec_to_runtime_launch_spec str_float python cwd spec))) args = Inr lb \<and>
    flag_value ''--prefill'' (default_command lb) = Some (''http://'' @
      (if spec_host spec \<in> {''0.0.0.0'', ''::''} then ''127.0.0.1'' else spec_host spec) @ '':'' @ str_int (prefill_port spec)) \<and>
    flag_value ''--decode'' (default_command lb) = Some (''http://127.0.0.1:'' @ str_int (attention_port spec))"
proof -
  have pl: "plain python" "plain (model_path spec)" "plain (disaggregation_ib_device spec)" "plain (spec_host spec)"
    using assms(2) by (simp_all add: args_plain_def)
  have mode: "plain ''prefill''" "plain ''decode''" by (simp_all add: plain_def)
  have pos: "0 < prefill_tp spec" "0 < prefill_dp spec" "0 < attention_tp spec" "0 < attention_dp spec"
    using assms(1) by (simp_all add: spec_ok_def)
  let ?pre = "launch_server_command spec python ''prefill'' (prefill_port spec)
           [''--disaggregation-ib-device'', disaggregation_ib_device spec, ''--disaggregation-bootstrap-port'',
            str_int (disaggregation_bootstrap_port spec), ''--host'', spec_host spec] (prefill_tp spec) (prefill_dp spec)"
  let ?attn = "launch_server_command spec python ''decode'' (attention_port spec)
           [''--afd-perspective'', ''attn'', ''--disaggregation-ib-device'', disaggregation_ib_device spec,
            ''--disaggregation-bootstrap-port'', str_int (disaggregation_bootstrap_port spec), ''--afd-mirco-batch'',
            str_int (afd_micro_batch spec)] (attention_tp spec) (attention_dp spec)"
  have ports: "flag_value ''--port'' ?pre = Some (str_int (prefill_port spec))"
      "flag_value ''--port'' ?attn = Some (str_int (attention_port spec))"
    using command_flags(3)[OF pl(1,2) mode(1) pos(1,2)] command_flags(3)[OF pl(1,2) mode(2) pos(3,4)] pl by (simp_all add: not_flag)
  have hosts: "flag_value ''--host'' ?pre = Some (spec_host spec)" "flag_value ''--host'' ?attn = None"
    using pl by (simp_all add: launch_server_command_def not_flag)
  have urls: "server_url (process_as_dict (launch_process spec python cwd n r m p g d t x env)) =
      Inr (''http://'' @ (if h \<in> {''0.0.0.0'', ''::''} then ''127.0.0.1'' else h) @ '':'' @ str_int p)"
    if "h = (case flag_value ''--host'' (launch_server_command spec python m p x t d) of None \<Rightarrow> ''127.0.0.1'' | Some h \<Rightarrow> h)"
      "flag_value ''--port'' (launch_server_command spec python m p x t d) = Some (str_int p)" for n r m p g d t x env h
    using that by (simp add: server_url_def process_as_dict_def launch_process_def default_command_def
        command_option_flag command_option_default Let_def)
  show ?thesis
    using urls[OF _ ports(1), of "spec_host spec"] urls[OF _ ports(2), of "''127.0.0.1''"]
    by (simp add: build_lb_process_def afd_deployment_spec_to_runtime_launch_spec_def first_role_def hosts default_command_def
        process_as_dict_def launch_process_def)
qed

text \<open>
  C18. A deployment gets its GPUs and its load balancer finds it. For a specification accepted by
  \<open>AFDDeploymentSpec\<close>, plain string arguments and at least as many GPU ids as the three stages need,
  \<open>_assign_gpus\<close> gives prefill, attention and FFN exactly the numbers of ids their parallelism uses, cut in this
  order from the list without overlap; and the load balancer's command names the ports of the prefill and
  the attention server, with a wildcard host replaced by the local address.
\<close>

theorem deployment_gets_gpus_and_addresses:
  fixes str_float :: "real \<Rightarrow> string" and cwd :: "string option" and args :: apply_options
  assumes "AFDDeploymentSpec s = Inr spec" "args_plain str_float python spec"
    and "prefill_gpus spec + attention_gpus spec + ffn_gpus spec
      \<le> int (length (gpu_id_list raw (prefill_gpus spec + attention_gpus spec + ffn_gpus spec)))"
  defines "ids \<equiv> gpu_id_list raw (prefill_gpus spec + attention_gpus spec + ffn_gpus spec)"
    and "ps \<equiv> map process_as_dict (ls_processes (afd_deployment_spec_to_runtime_launch_spec str_float python cwd spec))"
  shows "\<exists>pre attn ffn lb. assign_gpus ps raw = Inr [(''prefill-0'', pre), (''decode-attn-0'', attn), (''decode-ffn-0'', ffn)] \<and>
    int (length pre) = prefill_dp spec * prefill_tp spec \<and> int (length attn) = attention_dp spec * attention_tp spec \<and>
    int (length ffn) = ffn_dp spec * ffn_tp spec \<and> pre @ attn @ ffn = take (length pre + length attn + length ffn) ids \<and>
    build_lb_process str_float ps args = Inr lb \<and>
    flag_value ''--prefill'' (default_command lb) = Some (''http://'' @
      (if spec_host spec \<in> {''0.0.0.0'', ''::''} then ''127.0.0.1'' else spec_host spec) @ '':'' @ str_int (prefill_port spec)) \<and>
    flag_value ''--decode'' (default_command lb) = Some (''http://127.0.0.1:'' @ str_int (attention_port spec))"
proof -
  have ok: "spec_ok spec" using assms(1) by (auto simp: AFDDeploymentSpec_iff)
  let ?name = "\<lambda>p. case pr_name p of None \<Rightarrow> '''' | Some n \<Rightarrow> n"
  note eqs = ps_def afd_deployment_spec_to_runtime_launch_spec_def launch_process_def process_as_dict_def
  have gpus: "map process_gpus ps = [prefill_gpus spec, attention_gpus spec, ffn_gpus spec]"
    using ok by (simp add: eqs process_gpus_def dict_getd_def spec_ok_def)
  have len: "length ps = 3" by (simp add: eqs)
  have total: "sum_list (map process_gpus ps) = prefill_gpus spec + attention_gpus spec + ffn_gpus spec" by (simp add: gpus)
  have named: "map ?name ps = [''prefill-0'', ''decode-attn-0'', ''decode-ffn-0'']" by (simp add: eqs)
  have each: "pr_name p = Some (?name p)" if "p \<in> set ps" for p using that by (auto simp: eqs)
  obtain slices where sl: "fold_result (assign_step ids) (0, []) ps = Inr (sum_list (map process_gpus ps), zip (map ?name ps) slices)"
      "length slices = 3" "concat slices = take (nat (sum_list (map process_gpus ps))) ids"
      "map (int \<circ> length) slices = map process_gpus ps"
    using assign_fold[of ps ?name "[]" 0 ids, OF each] assms(3) by (auto simp: named total ids_def len)
  obtain pre attn ffn where three: "slices = [pre, attn, ffn]"
    using sl(2) by (auto simp: numeral_3_eq_3 length_Suc_conv)
  have lens: "int (length pre) = prefill_gpus spec" "int (length attn) = attention_gpus spec" "int (length ffn) = ffn_gpus spec"
    using sl(4) by (simp_all add: three gpus)
  have assigned: "assign_gpus ps raw = Inr [(''prefill-0'', pre), (''decode-attn-0'', attn), (''decode-ffn-0'', ffn)]"
    using sl(1) assms(3) by (simp add: assign_gpus_def Let_def total ids_def named three)
  have "nat (sum_list (map process_gpus ps)) = length pre + length attn + length ffn" by (simp add: total flip: lens)
  then have cut: "pre @ attn @ ffn = take (length pre + length attn + length ffn) ids" using sl(3) by (simp add: three)
  obtain lb where lb: "build_lb_process str_float ps args = Inr lb"
      "flag_value ''--prefill'' (default_command lb) = Some (''http://'' @
        (if spec_host spec \<in> {''0.0.0.0'', ''::''} then ''127.0.0.1'' else spec_host spec) @ '':'' @ str_int (prefill_port spec))"
      "flag_value ''--decode'' (default_command lb) = Some (''http://127.0.0.1:'' @ str_int (attention_port spec))"
    using deployment_lb[OF ok assms(2), of cwd args] unfolding ps_def by blast
  have shape: "prefill_gpus spec = prefill_dp spec * prefill_tp spec" "attention_gpus spec = attention_dp spec * attention_tp spec"
      "ffn_gpus spec = ffn_dp spec * ffn_tp spec"
    using ok unfolding spec_ok_def by metis+
  show ?thesis using assigned cut lb lens[unfolded shape] by (intro exI[of _ pre] exI[of _ attn] exI[of _ ffn] exI[of _ lb] conjI)
qed

theorem deployment_gets_gpus_and_addresses_witness:
  "\<exists>pre attn ffn. assign_gpus (map process_as_dict
       (ls_processes (afd_deployment_spec_to_runtime_launch_spec (\<lambda>_. ''0.75'') ''python'' None sample_spec))) None =
       Inr [(''prefill-0'', pre), (''decode-attn-0'', attn), (''decode-ffn-0'', ffn)] \<and>
     length pre = 2 \<and> length attn = 4 \<and> length ffn = 2 \<and> pre @ attn @ ffn = map str_int [0..7]"
proof -
  have ok: "AFDDeploymentSpec sample_spec = Inr sample_spec"
    by (simp add: AFDDeploymentSpec_iff spec_ok_def sample_spec_def)
  have plain: "args_plain (\<lambda>_. ''0.75'') ''python'' sample_spec" by (simp add: args_plain_def plain_def sample_spec_def)
  have ids: "gpu_id_list None (prefill_gpus sample_spec + attention_gpus sample_spec + ffn_gpus sample_spec) = map str_int [0..7]"
    by (simp add: gpu_id_list_def or_default_def sample_spec_def)
  have enough: "prefill_gpus sample_spec + attention_gpus sample_spec + ffn_gpus sample_spec
      \<le> int (length (gpu_id_list None (prefill_gpus sample_spec + attention_gpus sample_spec + ffn_gpus sample_spec)))"
    unfolding ids by (simp add: sample_spec_def)
  obtain pre attn ffn where r: "assign_gpus (map process_as_dict
       (ls_processes (afd_deployment_spec_to_runtime_launch_spec (\<lambda>_. ''0.75'') ''python'' None sample_spec))) None =
       Inr [(''prefill-0'', pre), (''decode-attn-0'', attn), (''decode-ffn-0'', ffn)]"
      "int (length pre) = prefill_dp sample_spec * prefill_tp sample_spec"
      "int (length attn) = attention_dp sample_spec * attention_tp sample_spec"
      "int (length ffn) = ffn_dp sample_spec * ffn_tp sample_spec"
      "pre @ attn @ ffn = take (length pre + length attn + length ffn) (map str_int [0..7])"
    using deployment_gets_gpus_and_addresses[OF ok plain enough, of None sample_apply] unfolding ids by blast
  have lens: "length pre = 2" "length attn = 4" "length ffn = 2" using r(2-4) by (simp_all add: sample_spec_def)
  show ?thesis using r(1,5) lens by (intro exI[of _ pre] exI[of _ attn] exI[of _ ffn]) simp
qed

end
