(* ===== verification/Live_Metrics.thy ===== *)
theory Live_Metrics
  imports Scheduling_Types Py_Io "HOL-Library.Sublist"
begin

text \<open>
  The metrics side of the live autoscaler, \<open>cli/run_hexgen3_live_autoscaler.py\<close>: reading the samples
  that have not been read yet, aggregating the samples of one file and of several files, and the
  workload profile derived from them with its memory of recent token averages.

  A sample is a JSON object, a dictionary of values of type \<open>json\<close>. All numbers are finite: \<open>float\<close>
  of a value is \<open>py_float\<close>, and \<open>NaN\<close>, which the source uses as the default of a lookup that found
  nothing, is \<open>None\<close>. The metrics directory is the list of its files with their contents. A key of the last sample read is a string, or for several files
  a dictionary, which the source keeps in a string with the prefix \<open>multi:\<close>.

  The lemmas show that reading a growing file neither skips nor repeats a sample, that
  aggregated averages stay between the extreme samples, and that every workload is well formed.
\<close>

section \<open>Values\<close>

datatype json = JNull | JBool bool | JNum real | JStr string | JOther bool

type_synonym metrics = "(string, json) dict"

text \<open>\<open>float(s)\<close> of a string with a decimal number.\<close>

fun split_at :: "(char \<Rightarrow> bool) \<Rightarrow> string \<Rightarrow> string \<times> string option" where
  "split_at P [] = ([], None)"
| "split_at P (c # cs) = (if P c then ([], Some cs) else (case split_at P cs of (a, b) \<Rightarrow> (c # a, b)))"

definition parse_part :: "string \<Rightarrow> (nat \<times> nat) option" where
  "parse_part s = (if s = [] then Some (0, 0) else map_option (\<lambda>n. (n, length (filter is_digit s))) (parse_digits s))"

definition parse_mantissa :: "string \<Rightarrow> real option" where
  "parse_mantissa s =
     (case split_at (\<lambda>c. c = CHR ''.'') s of
        (a, None) \<Rightarrow> map_option real (parse_digits a)
      | (a, Some b) \<Rightarrow>
          if a = [] \<and> b = [] then None
          else (case (parse_part a, parse_part b) of
                  (Some (n, _), Some (m, k)) \<Rightarrow> Some (real n + real m / 10 ^ k)
                | _ \<Rightarrow> None))"

definition parse_exponent :: "string \<Rightarrow> int option" where
  "parse_exponent s =
     (case s of [] \<Rightarrow> None
      | c # cs \<Rightarrow> if c = CHR ''-'' then map_option (\<lambda>n. - int n) (parse_digits cs)
                  else if c = CHR ''+'' then map_option int (parse_digits cs) else map_option int (parse_digits s))"

definition scale10 :: "real \<Rightarrow> int \<Rightarrow> real" where
  "scale10 x e = (if 0 \<le> e then x * 10 ^ nat e else x / 10 ^ nat (- e))"

definition parse_unsigned :: "string \<Rightarrow> real option" where
  "parse_unsigned s =
     (case split_at (\<lambda>c. c = CHR ''e'' \<or> c = CHR ''E'') s of
        (m, None) \<Rightarrow> parse_mantissa m
      | (m, Some e) \<Rightarrow> (case (parse_mantissa m, parse_exponent e) of (Some x, Some k) \<Rightarrow> Some (scale10 x k) | _ \<Rightarrow> None))"

definition py_float_str :: "string \<Rightarrow> real option" where
  "py_float_str s =
     (let t = py_strip s in
      case t of [] \<Rightarrow> None
      | c # cs \<Rightarrow> if c = CHR ''-'' then map_option uminus (parse_unsigned cs)
                  else if c = CHR ''+'' then parse_unsigned cs else parse_unsigned t)"

definition py_float :: "json \<Rightarrow> real option" where
  "py_float v =
     (case v of JNull \<Rightarrow> None | JBool b \<Rightarrow> Some (if b then 1 else 0) | JNum x \<Rightarrow> Some x | JStr s \<Rightarrow> py_float_str s | JOther _ \<Rightarrow> None)"

definition truthy :: "json \<Rightarrow> bool" where
  "truthy v =
     (case v of JNull \<Rightarrow> False | JBool b \<Rightarrow> b | JNum x \<Rightarrow> x \<noteq> 0 | JStr s \<Rightarrow> s \<noteq> '''' | JOther nonempty \<Rightarrow> nonempty)"

section \<open>Lookups\<close>

text \<open>\<open>_first_float\<close>: the first key with a value that is a number. \<open>found_float\<close> is its call with the default \<open>NaN\<close>.\<close>

fun found_float :: "metrics \<Rightarrow> string list \<Rightarrow> real option" where
  "found_float ms [] = None"
| "found_float ms (k # ks) =
     (case map_of ms k of None \<Rightarrow> found_float ms ks
      | Some v \<Rightarrow> (case py_float v of None \<Rightarrow> found_float ms ks | Some x \<Rightarrow> Some x))"

definition first_float :: "metrics \<Rightarrow> string list \<Rightarrow> real \<Rightarrow> real" where
  "first_float ms ks d = (case found_float ms ks of None \<Rightarrow> d | Some x \<Rightarrow> x)"

fun first_positive_float :: "metrics \<Rightarrow> string list \<Rightarrow> real \<Rightarrow> real" where
  "first_positive_float ms [] d = d"
| "first_positive_float ms (k # ks) d =
     (case found_float ms [k] of None \<Rightarrow> first_positive_float ms ks d
      | Some x \<Rightarrow> if 0 < x then x else first_positive_float ms ks d)"

definition metric_json :: "metrics \<Rightarrow> string \<Rightarrow> json" where
  "metric_json ms k = (case map_of ms k of None \<Rightarrow> JNull | Some v \<Rightarrow> v)"

text \<open>\<open>sample.get("timestamp", sample.get("timestamp_s"))\<close>\<close>

definition timestamp_json :: "metrics \<Rightarrow> json" where
  "timestamp_json ms = (case map_of ms ''timestamp'' of None \<Rightarrow> metric_json ms ''timestamp_s'' | Some v \<Rightarrow> v)"

text \<open>\<open>str(sample.get("worker_type", "")).lower() == "lb"\<close>: only a string prints as \<open>lb\<close>.\<close>

definition is_lb :: "metrics \<Rightarrow> bool" where
  "is_lb ms = (case map_of ms ''worker_type'' of Some (JStr s) \<Rightarrow> py_lower s = ''lb'' | _ \<Rightarrow> False)"

definition sample_timestamp :: "metrics \<Rightarrow> real" where
  "sample_timestamp ms = first_float ms [''timestamp'', ''timestamp_s''] 0"

definition sample_start_timestamp :: "metrics \<Rightarrow> real" where
  "sample_start_timestamp ms = first_float ms [''aggregated_start_timestamp'', ''timestamp'', ''timestamp_s''] 0"

definition sample_end_timestamp :: "metrics \<Rightarrow> real" where
  "sample_end_timestamp ms = first_float ms [''aggregated_end_timestamp'', ''timestamp'', ''timestamp_s''] 0"

definition arrival_keys :: "string list" where
  "arrival_keys = [''arrival_rate_rps'', ''arrival_rate'', ''request_throughput'', ''rps'']"

definition input_keys :: "string list" where
  "input_keys = [''avg_input_tokens'', ''mean_input'', ''input_tokens'']"

definition output_keys :: "string list" where
  "output_keys = [''avg_output_tokens'', ''mean_output'', ''output_tokens'']"

definition running_keys :: "string list" where
  "running_keys = [''running_requests'', ''num_running_requests'', ''running_reqs'']"

definition waiting_keys :: "string list" where
  "waiting_keys = [''waiting_requests'', ''num_waiting_requests'', ''waiting_reqs'']"

section \<open>Averages\<close>

definition mean_of :: "real list \<Rightarrow> real \<Rightarrow> real" where
  "mean_of vs d = (if vs = [] then d else sum_list vs / real (length vs))"

text \<open>\<open>_mean_metric\<close>; the source never sets \<open>positive_only\<close>, it is kept as an argument.\<close>

definition mean_metric :: "metrics list \<Rightarrow> string list \<Rightarrow> real \<Rightarrow> bool \<Rightarrow> real" where
  "mean_metric samples ks d positive_only =
     mean_of (filter (\<lambda>x. \<not> (positive_only \<and> x \<le> 0)) (List.map_filter (\<lambda>s. found_float s ks) samples)) d"

definition finished_output_tokens :: "metrics \<Rightarrow> real" where
  "finished_output_tokens s =
     (if map_of s ''aggregated_finished_output_tokens'' \<noteq> None
      then max 0 (first_float s [''aggregated_finished_output_tokens''] 0)
      else if map_of s ''window_finished_output_tokens'' \<noteq> None
      then max 0 (first_float s [''window_finished_output_tokens''] 0)
      else max 0 (first_float s [''aggregated_finished_requests'', ''window_finished_requests''] 0) *
           max 0 (first_float s output_keys 0))"

definition running_output_tokens :: "metrics \<Rightarrow> real" where
  "running_output_tokens s =
     (if map_of s ''running_output_tokens'' \<noteq> None then max 0 (first_float s [''running_output_tokens''] 0)
      else max 0 (first_float s running_keys 0) * max 0 (first_float s [''avg_running_output_tokens''] 0))"

text \<open>The loop of \<open>_weighted_mean_metric\<close>: the weighted sum, the weights and the values so far.\<close>

definition weigh :: "string list \<Rightarrow> string list \<Rightarrow> real \<times> real \<times> real list \<Rightarrow> metrics \<Rightarrow> real \<times> real \<times> real list" where
  "weigh value_keys weight_keys st s =
     (case st of (weighted_sum, total_weight, vs) \<Rightarrow>
        case found_float s value_keys of None \<Rightarrow> st
        | Some x \<Rightarrow>
            if x \<le> 0 then st
            else let weight = first_positive_float s weight_keys 0 in
              if weight \<le> 0 then (weighted_sum, total_weight, vs @ [x])
              else (weighted_sum + x * weight, total_weight + weight, vs @ [x]))"

definition weighted_mean_metric :: "metrics list \<Rightarrow> string list \<Rightarrow> string list \<Rightarrow> real \<Rightarrow> real" where
  "weighted_mean_metric samples value_keys weight_keys d =
     (case foldl (weigh value_keys weight_keys) (0, 0, []) samples of (weighted_sum, total_weight, vs) \<Rightarrow>
        if 0 < total_weight then weighted_sum / total_weight else mean_of vs d)"

section \<open>Aggregation\<close>

definition sum_metric :: "metrics list \<Rightarrow> string list \<Rightarrow> real" where
  "sum_metric samples ks = sum_list (map (\<lambda>s. first_float s ks 0) samples)"

definition sum_positive_metric :: "metrics list \<Rightarrow> string list \<Rightarrow> real" where
  "sum_positive_metric samples ks = sum_list (map (\<lambda>s. max 0 (first_float s ks 0)) samples)"

definition metrics_update :: "metrics \<Rightarrow> metrics \<Rightarrow> metrics" where
  "metrics_update d e = foldl (\<lambda>d kv. AList.update (fst kv) (snd kv) d) d e"

definition aggregate_metrics_samples :: "metrics list \<Rightarrow> metrics result" where
  "aggregate_metrics_samples samples =
     (if samples = [] then Inl IndexError
      else let latest = last samples;
        window_s = sum_positive_metric samples [''window_s''];
        window_requests = sum_positive_metric samples [''window_requests''];
        received_requests = sum_positive_metric samples [''window_received_requests''];
        finished_requests = sum_positive_metric samples [''window_finished_requests''];
        failed_requests = sum_positive_metric samples [''window_failed_requests''];
        finished_tokens = sum_list (map finished_output_tokens samples);
        running_requests = max 0 (first_float latest running_keys 0);
        has_running_output_shape = map_of latest ''running_output_tokens'' \<noteq> None \<or> map_of latest ''avg_running_output_tokens'' \<noteq> None;
        running_tokens = (if has_running_output_shape then running_output_tokens latest else 0);
        rate = (if is_lb latest \<and> 0 < window_s then window_requests / window_s else mean_metric samples arrival_keys 0 False);
        finished_rate = mean_metric samples [''finished_requests_per_sec'', ''finished_request_rate_rps''] 0 False;
        avg_input = weighted_mean_metric samples input_keys (''window_received_requests'' # arrival_keys) 0;
        completed = weighted_mean_metric samples output_keys
          [''window_finished_requests'', ''finished_requests_per_sec'', ''finished_request_rate_rps''] 0;
        completed_avg_output = (if 0 < finished_requests \<and> 0 < finished_tokens then finished_tokens / finished_requests else completed);
        avg_running_output = (if has_running_output_shape \<and> 0 < running_requests then running_tokens / running_requests else 0);
        avg_output = (if 0 < completed_avg_output then completed_avg_output else avg_running_output)
      in Inr (metrics_update latest
        [(''arrival_rate_rps'', JNum rate), (''finished_requests_per_sec'', JNum finished_rate), (''avg_input_tokens'', JNum avg_input),
         (''avg_output_tokens'', JNum avg_output), (''completed_avg_output_tokens'', JNum completed_avg_output),
         (''aggregated_window_s'', JNum window_s), (''aggregated_window_requests'', JNum window_requests),
         (''aggregated_received_requests'', JNum received_requests), (''aggregated_finished_requests'', JNum finished_requests),
         (''aggregated_failed_requests'', JNum failed_requests), (''aggregated_finished_output_tokens'', JNum finished_tokens),
         (''running_requests'', JNum running_requests), (''running_output_tokens'', JNum running_tokens),
         (''avg_running_output_tokens'', JNum avg_running_output), (''has_running_output_shape'', JBool has_running_output_shape),
         (''waiting_requests'', JNum (first_float latest waiting_keys 0)),
         (''aggregated_metrics_samples'', JNum (real (length samples))),
         (''aggregated_start_timestamp'', timestamp_json (hd samples)), (''aggregated_end_timestamp'', timestamp_json (last samples))]))"

definition has_shape :: "metrics \<Rightarrow> bool" where
  "has_shape s = truthy (metric_json s ''has_running_output_shape'')"

definition aggregate_parallel_metrics_samples :: "metrics list \<Rightarrow> nat \<Rightarrow> metrics result" where
  "aggregate_parallel_metrics_samples samples raw_sample_count =
     bind_result (max_key sample_timestamp samples) (\<lambda>latest.
     bind_result (min_key id (map sample_start_timestamp samples)) (\<lambda>start_ts.
     bind_result (max_key id (map sample_end_timestamp samples)) (\<lambda>end_ts.
     let lb_samples = filter is_lb samples; worker_samples = filter (Not \<circ> is_lb) samples;
         arrival_source = (if lb_samples \<noteq> [] then lb_samples else samples);
         source = (if worker_samples \<noteq> [] then worker_samples else samples);
         rate = sum_metric arrival_source arrival_keys;
         shape_rate = sum_metric source arrival_keys;
         finished_rate = sum_metric source [''finished_requests_per_sec'', ''finished_request_rate_rps''];
         finished_requests = sum_metric source [''aggregated_finished_requests'', ''window_finished_requests''];
         failed_requests = sum_metric source [''aggregated_failed_requests'', ''window_failed_requests''];
         finished_tokens = sum_list (map finished_output_tokens source);
         running_requests = sum_metric source running_keys;
         running_tokens = sum_list (map running_output_tokens (filter has_shape source));
         has_running_output_shape = list_ex has_shape source;
         avg_input = weighted_mean_metric source input_keys
           ([''aggregated_received_requests'', ''window_received_requests''] @ arrival_keys) 0;
         completed = weighted_mean_metric source output_keys
           [''aggregated_finished_requests'', ''window_finished_requests'', ''finished_requests_per_sec'', ''finished_request_rate_rps''] 0;
         completed_avg_output = (if 0 < finished_requests \<and> 0 < finished_tokens then finished_tokens / finished_requests else completed);
         avg_running_output = (if has_running_output_shape \<and> 0 < running_requests then running_tokens / running_requests else 0);
         avg_output = (if 0 < completed_avg_output then completed_avg_output else avg_running_output)
     in Inr (metrics_update latest
       [(''arrival_rate_rps'', JNum rate), (''shape_arrival_rate_rps'', JNum shape_rate),
        (''finished_requests_per_sec'', JNum finished_rate), (''avg_input_tokens'', JNum avg_input),
        (''avg_output_tokens'', JNum avg_output), (''completed_avg_output_tokens'', JNum completed_avg_output),
        (''aggregated_received_requests'', JNum (sum_metric source [''aggregated_received_requests'', ''window_received_requests''])),
        (''aggregated_finished_requests'', JNum finished_requests), (''aggregated_failed_requests'', JNum failed_requests),
        (''aggregated_finished_output_tokens'', JNum finished_tokens), (''running_requests'', JNum running_requests),
        (''running_output_tokens'', JNum running_tokens), (''avg_running_output_tokens'', JNum avg_running_output),
        (''has_running_output_shape'', JBool has_running_output_shape), (''waiting_requests'', JNum (sum_metric samples waiting_keys)),
        (''aggregated_metrics_samples'', JNum (real raw_sample_count)), (''aggregated_metrics_files'', JNum (real (length samples))),
        (''aggregated_start_timestamp'', JNum start_ts), (''aggregated_end_timestamp'', JNum end_ts)]))))"

section \<open>Reading\<close>

abbreviation FileNotFoundError :: py_error where
  "FileNotFoundError \<equiv> OSError ''FileNotFoundError''"

text \<open>A file of the metrics directory: its path and name, the time of its last change, whether its suffix is \<open>.jsonl\<close>, and its content.\<close>

record metrics_file =
  mf_path :: string
  mf_name :: string
  mf_mtime :: real
  mf_jsonl :: bool
  mf_samples :: "metrics list"
  mf_json :: "metrics result"

datatype metrics_key = Single_key string | Multi_key "(string, string) dict"

definition INITIAL_METRICS :: metrics where
  "INITIAL_METRICS = [(''source'', JStr ''initial_default''), (''arrival_rate_rps'', JNum 1), (''avg_input_tokens'', JNum 2048),
     (''avg_output_tokens'', JNum 512)]"

definition initial_runtime_metrics :: "real \<Rightarrow> metrics" where
  "initial_runtime_metrics now =
     AList.update ''timestamp'' (JNum now) (AList.update ''source'' (JStr ''initial_runtime'') INITIAL_METRICS)"

text \<open>\<open>directory.glob(prefix*suffix)\<close>, ordered by the time of the last change; \<open>directory\<close> is in the order of the file system.\<close>

definition glob_by_mtime :: "string \<Rightarrow> string \<Rightarrow> metrics_file list \<Rightarrow> metrics_file list" where
  "glob_by_mtime pre suf directory =
     sort_key mf_mtime (filter (\<lambda>f. prefix pre (mf_name f) \<and> suffix suf (drop (length pre) (mf_name f))) directory)"

definition select_metrics_files :: "metrics_file list \<Rightarrow> metrics_file list result" where
  "select_metrics_files directory =
     (let lb_files = sort_key mf_mtime (filter (\<lambda>f. mf_name f = ''afd_metrics_lb.jsonl'') directory);
          dp_files = glob_by_mtime ''afd_metrics_dp'' ''_attn.jsonl'' directory;
          attn_files = (if dp_files = [] then glob_by_mtime '''' ''_attn.jsonl'' directory else dp_files);
          jsonl_files = glob_by_mtime '''' ''.jsonl'' directory;
          json_files = glob_by_mtime '''' ''.json'' directory
      in if attn_files \<noteq> [] then Inr (lb_files @ attn_files)
         else if lb_files \<noteq> [] then Inr lb_files
         else if jsonl_files \<noteq> [] then Inr [last jsonl_files]
         else if json_files \<noteq> [] then Inr [last json_files]
         else Inl FileNotFoundError)"

definition read_latest_json :: "metrics_file \<Rightarrow> metrics result" where
  "read_latest_json f =
     (if mf_jsonl f
      then if mf_samples f = [] then Inl (ValueError (''no valid JSON lines found in '' @ mf_path f)) else Inr (last (mf_samples f))
      else mf_json f)"

text \<open>The parameter \<open>str_json\<close> is \<open>str\<close> of a JSON value, \<open>dumps\<close> is \<open>json.dumps\<close> of a sample.\<close>

fun first_key :: "(json \<Rightarrow> string) \<Rightarrow> metrics \<Rightarrow> string list \<Rightarrow> string option" where
  "first_key str_json ms [] = None"
| "first_key str_json ms (k # ks) =
     (case metric_json ms k of JNull \<Rightarrow> first_key str_json ms ks | v \<Rightarrow> Some (k @ '':'' @ str_json v))"

definition metrics_sample_key :: "(json \<Rightarrow> string) \<Rightarrow> (metrics \<Rightarrow> string) \<Rightarrow> metrics \<Rightarrow> string" where
  "metrics_sample_key str_json dumps ms =
     (case first_key str_json ms [''sample_id'', ''sample_index'', ''sequence'', ''seq'', ''timestamp'', ''timestamp_s''] of
        None \<Rightarrow> dumps ms | Some k \<Rightarrow> k)"

text \<open>The samples after the last one with the given key; all of them if there is none.\<close>

definition unread_after :: "(metrics \<Rightarrow> string) \<Rightarrow> string \<Rightarrow> metrics list \<Rightarrow> metrics list" where
  "unread_after key k samples = rev (takeWhile (\<lambda>s. key s \<noteq> k) (rev samples))"

definition decode_multi_metrics_state :: "metrics_key option \<Rightarrow> (string, string) dict" where
  "decode_multi_metrics_state last_key = (case last_key of Some (Multi_key d) \<Rightarrow> d | _ \<Rightarrow> [])"

type_synonym unread = "metrics option \<times> metrics_key option \<times> nat"

text \<open>The loop over the files: the new state, the aggregates of the files and the number of samples.\<close>

definition file_step ::
  "(metrics \<Rightarrow> string) \<Rightarrow> (string, string) dict \<Rightarrow> (string, string) dict \<times> metrics list \<times> nat \<Rightarrow> metrics_file \<Rightarrow>
   ((string, string) dict \<times> metrics list \<times> nat) result" where
  "file_step key previous_state st f =
     (case st of (next_state, per_file, total_unread) \<Rightarrow>
        if mf_samples f = [] then Inr st
        else let unread = (case map_of previous_state (mf_path f) of None \<Rightarrow> [last (mf_samples f)]
                           | Some k \<Rightarrow> unread_after key k (mf_samples f)) in
          if unread = [] then Inr st
          else bind_result (aggregate_metrics_samples unread) (\<lambda>agg.
            Inr (AList.update (mf_path f) (key (last unread)) next_state, per_file @ [agg], total_unread + length unread)))"

definition read_unread_metrics_from_files ::
  "(metrics \<Rightarrow> string) \<Rightarrow> metrics_file list \<Rightarrow> metrics_key option \<Rightarrow> unread result" where
  "read_unread_metrics_from_files key files last_key =
     (let previous_state = decode_multi_metrics_state last_key in
      bind_result (fold_result (file_step key previous_state) (previous_state, [], 0) files) (\<lambda>(next_state, per_file, total_unread).
      if per_file = [] then Inr (None, last_key, 0)
      else bind_result (aggregate_parallel_metrics_samples per_file total_unread) (\<lambda>agg.
        Inr (Some agg, Some (Multi_key next_state), total_unread))))"

text \<open>\<open>found\<close> is the result of \<open>_select_metrics_files\<close>: the chosen files, never none, or a \<open>FileNotFoundError\<close>.\<close>

definition read_unread_metrics ::
  "(metrics \<Rightarrow> string) \<Rightarrow> real \<Rightarrow> bool \<Rightarrow> metrics_file list result \<Rightarrow> metrics_key option \<Rightarrow> unread result" where
  "read_unread_metrics key now has_dir found last_key =
     (if \<not> has_dir
      then let ms = initial_runtime_metrics now in Inr (Some ms, Some (Single_key (key ms)), 1)
      else bind_result found (\<lambda>files.
        if 1 < length files \<and> list_all mf_jsonl files then read_unread_metrics_from_files key files last_key
        else if files = [] then Inl IndexError
        else let f = last files in
          if \<not> mf_jsonl f
          then bind_result (read_latest_json f) (\<lambda>ms.
            if Some (Single_key (key ms)) = last_key then Inr (None, last_key, 0)
            else Inr (Some ms, Some (Single_key (key ms)), 1))
          else let samples = mf_samples f in
            if samples = [] then Inl (ValueError (''no valid JSON lines found in '' @ mf_path f))
            else case last_key of
                None \<Rightarrow> Inr (Some (last samples), Some (Single_key (key (last samples))), 1)
              | Some k \<Rightarrow>
                  let unread = (case k of Single_key s \<Rightarrow> unread_after key s samples | Multi_key _ \<Rightarrow> samples) in
                  if unread = [] then Inr (None, last_key, 0)
                  else bind_result (aggregate_metrics_samples unread) (\<lambda>agg.
                    Inr (Some agg, Some (Single_key (key (last unread))), length unread))))"

definition read_metrics_or_default :: "real \<Rightarrow> bool \<Rightarrow> metrics_file list result \<Rightarrow> metrics result" where
  "read_metrics_or_default now has_dir found =
     (if \<not> has_dir then Inr (initial_runtime_metrics now)
      else bind_result found (\<lambda>files.
        if 1 < length files \<and> list_all mf_jsonl files
        then bind_result (map_result read_latest_json files) (\<lambda>samples. aggregate_parallel_metrics_samples samples (length samples))
        else if files = [] then Inl IndexError else read_latest_json (last files)))"

section \<open>Workloads\<close>

text \<open>The memory of recent averages is passed by reference, or not at all: it is the state of these functions.\<close>

type_synonym shape_state = "(string, real \<times> real) dict option"

definition cached_shape_metric :: "string \<Rightarrow> real \<Rightarrow> real \<Rightarrow> (shape_state, real) io" where
  "cached_shape_metric state_key observed_at max_age_s st =
     (case st of None \<Rightarrow> (Inr 0, st)
      | Some d \<Rightarrow> (case map_of d state_key of None \<Rightarrow> (Inr 0, st)
          | Some (cached_value, cached_at) \<Rightarrow>
              if 0 < cached_value \<and> max 0 (observed_at - cached_at) \<le> max_age_s then (Inr cached_value, st)
              else (Inr 0, Some (AList.delete state_key d))))"

definition remember_shape :: "string \<Rightarrow> real \<Rightarrow> real \<Rightarrow> (shape_state, unit) io" where
  "remember_shape state_key x observed_at st = (Inr (), map_option (AList.update state_key (x, observed_at)) st)"

definition current_or_cached_shape_metric ::
  "metrics \<Rightarrow> string list \<Rightarrow> string \<Rightarrow> string \<Rightarrow> real \<Rightarrow> real \<Rightarrow> (shape_state, real) io" where
  "current_or_cached_shape_metric ms ks label state_key observed_at max_age_s =
     (let x = first_float ms ks 0 in
      if 0 < x then io_bind (remember_shape state_key x observed_at) (\<lambda>_. io_return x)
      else io_bind (cached_shape_metric state_key observed_at max_age_s) (\<lambda>c.
        if 0 < c then io_return c else io_raise (ValueError (''metrics missing positive '' @ label))))"

definition stable_output_shape_metric :: "metrics \<Rightarrow> real \<Rightarrow> real \<Rightarrow> (shape_state, real) io" where
  "stable_output_shape_metric ms observed_at max_age_s =
     (let completed_requests = max 0 (first_float ms [''aggregated_finished_requests'', ''window_finished_requests''] 0);
          completed = first_float ms [''completed_avg_output_tokens''] 0;
          completed_tokens = finished_output_tokens ms;
          completed_avg = (if completed \<le> 0 \<and> 0 < completed_requests \<and> 0 < completed_tokens
                           then completed_tokens / completed_requests else completed);
          running_requests = max 0 (first_float ms running_keys 0);
          running = first_float ms [''avg_running_output_tokens''] 0;
          running_tokens = running_output_tokens ms;
          running_avg = (if running \<le> 0 \<and> 0 < running_requests \<and> 0 < running_tokens
                         then running_tokens / running_requests else running);
          direct_avg = first_float ms output_keys 0
      in io_bind (cached_shape_metric ''output'' observed_at max_age_s) (\<lambda>cached_avg.
        let (x, has_observation) =
              (if 0 < completed_requests \<and> 0 < completed_avg then (max completed_avg running_avg, True)
               else if 0 < running_avg then (max running_avg cached_avg, True)
               else if 0 < direct_avg then (direct_avg, True)
               else (cached_avg, False))
        in if x \<le> 0 then io_raise (ValueError ''metrics missing positive output tokens'')
           else io_bind (if has_observation then remember_shape ''output'' x observed_at else io_return ()) (\<lambda>_. io_return x)))"

definition workload_from_metrics :: "real \<Rightarrow> metrics \<Rightarrow> real \<Rightarrow> (shape_state, workload_profile) io" where
  "workload_from_metrics workload_shape_max_age_s ms observed_at =
     (let rate = first_float ms arrival_keys 1; max_age_s = max 0 workload_shape_max_age_s in
      io_bind (current_or_cached_shape_metric ms input_keys ''input tokens'' ''input'' observed_at max_age_s) (\<lambda>avg_input.
      io_bind (stable_output_shape_metric ms observed_at max_age_s) (\<lambda>avg_output.
      io_of (WorkloadProfile (max rate (1 / 10 ^ 9)) [max 1 (py_round avg_input)] [max 1 (py_round avg_output)] 8))))"

section \<open>No sample is lost or read twice\<close>

lemma unread_after_append: "k \<notin> key ` set new \<Longrightarrow> key s = k \<Longrightarrow> unread_after key k (old @ s # new) = new"
proof -
  assume "k \<notin> key ` set new" "key s = k"
  then have "takeWhile (\<lambda>s. key s \<noteq> k) (rev new @ s # rev old) = rev new" by (subst takeWhile_append2) (auto simp: image_iff)
  then show ?thesis by (simp add: unread_after_def)
qed

lemma unread_after_all: "k \<notin> key ` set samples \<Longrightarrow> unread_after key k samples = samples"
proof -
  assume "k \<notin> key ` set samples"
  then have "\<forall>s \<in> set (rev samples). key s \<noteq> k" by auto
  then have "takeWhile (\<lambda>s. key s \<noteq> k) (rev samples) = rev samples" unfolding takeWhile_eq_all_conv .
  then show ?thesis unfolding unread_after_def by (simp only: rev_rev_ident)
qed

text \<open>A single file of samples that grows: the polls see the first \<open>n\<close> samples, for each \<open>n\<close> of the list.\<close>

definition jsonl_file :: "string \<Rightarrow> metrics list \<Rightarrow> metrics_file" where
  "jsonl_file path samples = \<lparr>mf_path = path, mf_name = path, mf_mtime = 0, mf_jsonl = True, mf_samples = samples, mf_json = Inl (ValueError path)\<rparr>"

fun poll_reads :: "(metrics \<Rightarrow> string) \<Rightarrow> real \<Rightarrow> string \<Rightarrow> metrics list \<Rightarrow> metrics_key option \<Rightarrow> nat list \<Rightarrow> (metrics option \<times> nat) list result" where
  "poll_reads key now path samples last_key [] = Inr []"
| "poll_reads key now path samples last_key (n # ns) =
     bind_result (read_unread_metrics key now True (Inr [jsonl_file path (take n samples)]) last_key) (\<lambda>(ms, k, c).
     bind_result (poll_reads key now path samples k ns) (\<lambda>reads. Inr ((ms, c) # reads)))"

text \<open>One poll returns the aggregate of a segment of the file, or nothing.\<close>

definition reads_segment :: "metrics option \<times> nat \<Rightarrow> metrics list \<Rightarrow> bool" where
  "reads_segment r seg \<longleftrightarrow> snd r = length seg \<and>
     (if seg = [] then fst r = None else \<exists>agg. aggregate_metrics_samples seg = Inr agg \<and> fst r = Some agg)"

lemma aggregate_total: "seg \<noteq> [] \<Longrightarrow> \<exists>agg. aggregate_metrics_samples seg = Inr agg"
  by (simp add: aggregate_metrics_samples_def Let_def)

lemma unread_after_cut:
  assumes "distinct (map key samples)" "0 < m" "m \<le> n" "n \<le> length samples"
  shows "unread_after key (key (samples ! (m - 1))) (take n samples) = drop m (take n samples)"
proof -
  have parts: "take n samples = take (m - 1) samples @ samples ! (m - 1) # drop m (take n samples)"
    using assms id_take_nth_drop[of "m - 1" "take n samples"] by (cases m) (simp_all add: min_def)
  have "distinct (map key (take n samples))" using distinct_take[OF assms(1), of n] by (simp add: take_map)
  then have "key (samples ! (m - 1)) \<notin> key ` set (drop m (take n samples))"
    by (subst (asm) parts) (simp only: map_append list.map distinct_append distinct.simps set_map, blast)
  from unread_after_append[OF this refl, of "take (m - 1) samples"] show ?thesis by (subst parts)
qed

lemma read_growing:
  assumes "distinct (map key samples)" "0 < m" "m \<le> n" "n \<le> length samples"
  shows "\<exists>r. read_unread_metrics key now True (Inr [jsonl_file path (take n samples)]) (Some (Single_key (key (samples ! (m - 1))))) =
      Inr (r, Some (Single_key (key (samples ! (n - 1)))), n - m) \<and> reads_segment (r, n - m) (drop m (take n samples))"
proof (cases "m = n")
  case True
  then have "unread_after key (key (samples ! (m - 1))) (take n samples) = []" using unread_after_cut[OF assms] by simp
  then show ?thesis using True assms by (auto simp: read_unread_metrics_def jsonl_file_def reads_segment_def Let_def)
next
  case False
  let ?seg = "drop m (take n samples)"
  have "?seg \<noteq> []" "last ?seg = samples ! (n - 1)" "length ?seg = n - m" using False assms by (auto simp: last_conv_nth)
  moreover obtain agg where "aggregate_metrics_samples ?seg = Inr agg" using aggregate_total calculation(1) by blast
  ultimately show ?thesis
    using unread_after_cut[OF assms] assms by (auto simp: read_unread_metrics_def jsonl_file_def reads_segment_def Let_def)
qed

lemma segments_join:
  assumes "m \<le> n" "n \<le> l"
  shows "drop m (take n xs) @ drop n (take l xs) = drop m (take l xs)"
proof -
  have eq: "take n xs @ drop n (take l xs) = take l xs" using append_take_drop_id[of n "take l xs"] assms by (simp add: min_def)
  have "drop m (take n xs) @ drop n (take l xs) = drop m (take n xs @ drop n (take l xs))"
    using assms by (cases "n \<le> length xs") auto
  then show ?thesis by (simp only: eq)
qed

lemma polls_cover:
  assumes "distinct (map key samples)" "0 < m" "sorted (m # ns)" "\<forall>n \<in> set (m # ns). n \<le> length samples"
  shows "\<exists>reads segs. poll_reads key now path samples (Some (Single_key (key (samples ! (m - 1))))) ns = Inr reads \<and>
    list_all2 reads_segment reads segs \<and> concat segs = drop m (take (last (m # ns)) samples)"
  using assms(2-)
proof (induction ns arbitrary: m)
  case Nil
  then show ?case by (intro exI[of _ "[]"]) simp
next
  case (Cons n ns)
  obtain r where r: "read_unread_metrics key now True (Inr [jsonl_file path (take n samples)]) (Some (Single_key (key (samples ! (m - 1))))) =
      Inr (r, Some (Single_key (key (samples ! (n - 1)))), n - m)" "reads_segment (r, n - m) (drop m (take n samples))"
    using read_growing[OF assms(1), of m n now path] Cons.prems by auto
  obtain reads segs where rest: "poll_reads key now path samples (Some (Single_key (key (samples ! (n - 1))))) ns = Inr reads"
      "list_all2 reads_segment reads segs" "concat segs = drop n (take (last (n # ns)) samples)"
    using Cons.IH[of n] Cons.prems by auto
  have "n \<le> last (n # ns)" using Cons.prems(2) by (cases ns rule: rev_cases) auto
  then have "drop m (take n samples) @ drop n (take (last (n # ns)) samples) = drop m (take (last (n # ns)) samples)"
    using Cons.prems(2) by (intro segments_join) auto
  then show ?case
    using r rest by (intro exI[of _ "(r, n - m) # reads"] exI[of _ "drop m (take n samples) # segs"]) simp
qed

text \<open>
  C24. The autoscaler counts every sample once. Poll a file of samples with distinct keys at any
  sequence of growing lengths, from the first poll on. The first poll takes the latest sample. Each later poll
  returns the aggregate of exactly the samples that were appended since the poll before it, with their number,
  and nothing when there are none; together the segments are, in order, all samples after the
  first poll's: none is lost and none is counted twice.
\<close>

theorem samples_read_once:
  assumes "distinct (map key samples)" "sorted (m # ns)" "0 < m" "\<forall>n \<in> set (m # ns). n \<le> length samples"
  shows "\<exists>reads segs. poll_reads key now path samples None (m # ns) = Inr ((Some (samples ! (m - 1)), 1) # reads) \<and>
    list_all2 reads_segment reads segs \<and> concat segs = drop m (take (last (m # ns)) samples)"
proof -
  have "read_unread_metrics key now True (Inr [jsonl_file path (take m samples)]) None =
      Inr (Some (samples ! (m - 1)), Some (Single_key (key (samples ! (m - 1)))), 1)"
    using assms(3,4) by (auto simp: read_unread_metrics_def jsonl_file_def Let_def last_conv_nth min_def)
  then show ?thesis using polls_cover[OF assms(1,3,2,4), of now path] by auto
qed

theorem samples_read_once_witness:
  "\<exists>reads segs. poll_reads (\<lambda>s. case metric_json s ''sample_id'' of JStr k \<Rightarrow> k | _ \<Rightarrow> '''') 0 ''afd_metrics_lb.jsonl''
      [[(''sample_id'', JStr ''a'')], [(''sample_id'', JStr ''b'')], [(''sample_id'', JStr ''c'')]] None [1, 1, 3] =
      Inr ((Some [(''sample_id'', JStr ''a'')], 1) # reads) \<and> list_all2 reads_segment reads segs \<and>
    concat segs = [[(''sample_id'', JStr ''b'')], [(''sample_id'', JStr ''c'')]]"
  using samples_read_once[of "\<lambda>s. case metric_json s ''sample_id'' of JStr k \<Rightarrow> k | _ \<Rightarrow> ''''"
      "[[(''sample_id'', JStr ''a'')], [(''sample_id'', JStr ''b'')], [(''sample_id'', JStr ''c'')]]" 1 "[1, 3]" 0 "''afd_metrics_lb.jsonl''"]
  by (simp add: metric_json_def del: poll_reads.simps)

section \<open>Averages are averages\<close>

lemma foldl_weigh:
  assumes "\<forall>s \<in> set samples. \<forall>x. found_float s vks = Some x \<longrightarrow> 0 < x \<longrightarrow> lo \<le> x \<and> x \<le> hi"
    and "foldl (weigh vks wks) (a, b, vs) samples = (a', b', vs')"
    and "lo * b \<le> a \<and> a \<le> hi * b \<and> (\<forall>x \<in> set vs. lo \<le> x \<and> x \<le> hi)"
  shows "lo * b' \<le> a' \<and> a' \<le> hi * b' \<and> (\<forall>x \<in> set vs'. lo \<le> x \<and> x \<le> hi)"
  using assms
proof (induction samples arbitrary: a b vs)
  case (Cons s samples)
  obtain a1 b1 vs1 where w: "weigh vks wks (a, b, vs) s = (a1, b1, vs1)" using prod_cases3 by blast
  then have "lo * b1 \<le> a1 \<and> a1 \<le> hi * b1 \<and> (\<forall>x \<in> set vs1. lo \<le> x \<and> x \<le> hi)"
    using Cons.prems(1,3)
    by (auto simp: weigh_def Let_def distrib_left mult_right_mono intro!: add_mono split: option.splits if_splits)
  then show ?case using Cons.IH[of a1 b1 vs1] Cons.prems(1,2) w by simp
qed simp

lemma mean_between:
  fixes vs :: "real list"
  assumes "vs \<noteq> []" "\<forall>x \<in> set vs. lo \<le> x \<and> x \<le> hi"
  shows "lo \<le> mean_of vs d \<and> mean_of vs d \<le> hi"
proof -
  have "lo * real (length vs) \<le> sum_list vs \<and> sum_list vs \<le> hi * real (length vs)"
    using assms(2) by (induction vs) (auto simp: algebra_simps)
  then show ?thesis using assms(1) by (simp add: mean_of_def field_simps)
qed

lemma weighted_mean_between:
  assumes "\<forall>s \<in> set samples. \<forall>x. found_float s vks = Some x \<longrightarrow> 0 < x \<longrightarrow> lo \<le> x \<and> x \<le> hi"
  shows "weighted_mean_metric samples vks wks d = d \<or>
    lo \<le> weighted_mean_metric samples vks wks d \<and> weighted_mean_metric samples vks wks d \<le> hi"
proof -
  obtain a b vs where f: "foldl (weigh vks wks) (0, 0, []) samples = (a, b, vs)" using prod_cases3 by blast
  have "lo * b \<le> a \<and> a \<le> hi * b \<and> (\<forall>x \<in> set vs. lo \<le> x \<and> x \<le> hi)" by (rule foldl_weigh[OF assms f]) simp
  then show ?thesis
    using mean_between[of vs lo hi d] by (auto simp: weighted_mean_metric_def f mean_of_def field_simps)
qed

lemma workload_wf: "workload_from_metrics age ms now st = (Inr wl, st') \<Longrightarrow> wf_workload wl"
  by (auto simp: workload_from_metrics_def io_bind_def Let_def WorkloadProfile_def wf_workload_def
      split: prod.splits sum.splits if_splits)

end
