(* ===== verification/Live_Autoscaler.thy ===== *)
theory Live_Autoscaler
  imports Workload_Evaluation Autoscaling_Stability Runtime_Apply Live_Metrics
begin

text \<open>
  The control loop of the live autoscaler, \<open>cli/run_hexgen3_live_autoscaler.py\<close>. Each round reads
  the unread metrics, derives a workload, plans, and when the plan changes the allocation drains
  the runtime, applies the new window and waits until it is ready.

  The state of \<open>main\<close> is the record \<open>live_state\<close>: its local variables, the state of the scheduler, the
  world of the runtime helper, and the contents of the two files it writes, the plan and the state
  that the load balancer reads. One round is \<open>live_round\<close>, a computation that continues (\<open>None\<close>), returns an exit
  status, or raises. What a round sees of its surroundings is the record \<open>observation\<close>: readings of the clock, the
  metrics files, the metrics polled while draining and the answers of the servers until the deadline. The
  statements about the loop hold for all observations.

  The framework is a parameter. \<open>_build_framework\<close> sets its maximal scale factor to infinity; in the
  model this is any number that the factors do not reach.
\<close>

section \<open>Arguments\<close>

record live_args =
  la_metrics_dir :: "string option"
  la_poll_interval_s :: real
  la_min_arrival_rate :: real
  la_workload_shape_max_age_s :: real
  la_deployment :: deployment_args
  la_stability :: stability_config
  la_scale_in_backlog_threshold :: "real option"
  la_gpu_ids :: "string option"
  la_output :: string
  la_apply_runtime :: bool
  la_runtime_cwd :: "string option"
  la_runtime_log_dir :: string
  la_runtime_pid_file :: string
  la_cleanup_stale_runtime :: bool
  la_lb_host :: string
  la_lb_port :: int
  la_drain_state_file :: string
  la_drain_wait_timeout_s :: real
  la_runtime_startup_wait_s :: real
  la_apply_cooldown_s :: real
  la_scale_confirmations :: int
  la_max_scale_applies :: "string option"

definition has_metrics_dir :: "live_args \<Rightarrow> bool" where
  "has_metrics_dir args \<longleftrightarrow> or_default (la_metrics_dir args) '''' \<noteq> ''''"

definition runtime_extra_env :: "live_args \<Rightarrow> (string, string) dict" where
  "runtime_extra_env args =
     (if has_metrics_dir args
      then [(''SGLANG_ENABLE_AFD_METRICS'', ''1''), (''SGLANG_AFD_METRICS_DIR'', or_default (la_metrics_dir args) '''')] else [])"

definition apply_cooldown_s :: "live_args \<Rightarrow> real" where
  "apply_cooldown_s args = max 0 (la_apply_cooldown_s args)"

definition max_scale_applies :: "live_args \<Rightarrow> int option result" where
  "max_scale_applies args =
     (case la_max_scale_applies args of None \<Rightarrow> Inr None
      | Some raw \<Rightarrow>
          let v = py_lower (py_strip raw) in
          if v \<in> {'''', ''unlimited'', ''forever'', ''inf'', ''infinite'', ''none''} then Inr None
          else if v \<in> {''never'', ''off'', ''disable'', ''disabled''} then Inr (Some 0)
          else bind_result (py_int_str v) (\<lambda>n. Inr (if n < 0 then None else Some n)))"

definition parse_capacity :: "(string, int) dict \<Rightarrow> capacity result" where
  "parse_capacity raw =
     (let cap = dict_comp (map fst raw) (\<lambda>h. dict_getd raw h 0) in
      if list_ex (\<lambda>(h, n). n < 0) cap then Inl (ValueError ''capacity values must be non-negative'')
      else if sum_list (map snd cap) < int (length WORKER_TYPES)
      then Inl (ValueError ''capacity must have at least one GPU per worker type'') else Inr cap)"

definition parse_initial_allocation :: "(string, int) dict \<Rightarrow> capacity \<Rightarrow> allocation result" where
  "parse_initial_allocation raw cap =
     (let targets = dict_comp WORKER_TYPES (\<lambda>w. dict_getd raw w 0) in
      if list_ex (\<lambda>w. w \<notin> fst ` set raw) WORKER_TYPES then Inl (ValueError ''initial allocation missing workers'')
      else if list_ex (\<lambda>(w, n). n \<le> 0) targets then Inl (ValueError ''initial allocation values must be positive'')
      else let need = sum_list (map snd targets) in
        case find (\<lambda>(h, n). need \<le> n) cap of
          None \<Rightarrow> Inl (ValueError ''initial allocation needs more GPUs on one hardware type'')
        | Some (hardware, _) \<Rightarrow>
            let a = foldl (\<lambda>a (w, n). am_set a w hardware n) (am_zeros (map fst cap)) targets in
            bind_result (am_validate a cap) (\<lambda>_. Inr a))"

section \<open>Planning\<close>

definition evaluate_existing_plan_for_workload :: "framework \<Rightarrow> workload_profile \<Rightarrow> plan \<Rightarrow> plan result" where
  "evaluate_existing_plan_for_workload fw wl previous =
     evaluate_allocation fw wl (p_allocation previous) (Some (p_parallelism previous))"

definition scale_in_guard :: "live_args \<Rightarrow> workload_profile \<Rightarrow> metrics \<Rightarrow> bool \<times> real \<times> real" where
  "scale_in_guard args wl ms =
     (let waiting_requests = max 0 (first_float ms waiting_keys 0);
          backlog_threshold = (case la_scale_in_backlog_threshold args of
              None \<Rightarrow> max 1 (arrival_rate wl * max 1 (la_poll_interval_s args))
            | Some t \<Rightarrow> max 0 t)
      in (waiting_requests \<le> backlog_threshold, waiting_requests, backlog_threshold))"

text \<open>The validation record, which the source stores in the metadata of the plan, is returned beside it.\<close>

definition plan_existing_allocation ::
  "framework \<Rightarrow> workload_profile \<Rightarrow> plan \<Rightarrow> capacity \<Rightarrow> bool \<Rightarrow> stability_config \<Rightarrow> (nat \<Rightarrow> real) \<Rightarrow> global_state \<Rightarrow>
   ((plan \<times> string \<times> (string, real) dict \<times> stability_metadata option) \<times> global_state) result" where
  "plan_existing_allocation fw wl previous cap allow_scale_in cfg clock gs =
     bind_result (evaluate_existing_plan_for_workload fw wl previous) (\<lambda>current.
     let scaled = proportional_scale_allocation (fw_auto fw) wl current cap;
         expansion = worker_expansion_factors (fw_auto fw) wl current;
         current_key = am_as_key (p_allocation current)
     in if am_as_key scaled = current_key then Inr ((current, ''hold_allocation_unchanged'', expansion, None), gs)
        else bind_result (reschedule fw wl current cap gs) (\<lambda>(proposed, gs').
          if am_as_key (p_allocation proposed) = current_key
          then Inr ((proposed, ''hold_allocation_unchanged'', expansion, None), gs')
          else bind_result (stabilize_autoscaling_plan fw wl current proposed cap cfg allow_scale_in clock) (\<lambda>(p, validation).
            let autoscaling = (case map_of (p_metadata proposed) ''autoscaling'' of None \<Rightarrow> MValues [] | Some m \<Rightarrow> m);
                p' = p\<lparr>p_metadata := AList.update ''autoscaling'' autoscaling (p_metadata p)\<rparr>;
                decision = (if am_as_key (p_allocation p') \<noteq> current_key then ''scale_changed'' else ''hold_allocation_unchanged'')
            in Inr ((p', decision, expansion, Some validation), gs'))))"

record live_window =
  lw_index :: int
  lw_name :: string
  lw_timestamp :: real
  lw_elapsed_s :: real
  lw_metrics :: metrics
  lw_workload :: workload_profile
  lw_capacity :: capacity
  lw_worker_expansion :: "(string, real) dict"
  lw_reschedule_decision :: string
  lw_scale_in_guard :: "bool \<times> real \<times> real option"
  lw_plan :: plan
  lw_scheduling_plan :: plan_dict
  lw_validation :: "stability_metadata option"
  lw_afd_deployment :: afd_spec
  lw_runtime_launch :: launch_spec
  lw_apply_status :: "string option"
  lw_scale_confirmation :: "(int \<times> int \<times> string) option"

record observation =
  ob_initial_time :: real
  ob_directory :: "metrics_file list"
  ob_observed_at :: real
  ob_check_time :: real
  ob_window_time :: real
  ob_elapsed_s :: real
  ob_clock :: "nat \<Rightarrow> real"
  ob_drain_polls :: "(real \<times> metrics_file list) list"
  ob_ready_rounds :: "(string \<Rightarrow> bool) list"
  ob_applied_time :: real

definition planned_parts ::
  "live_args \<Rightarrow> framework \<Rightarrow> workload_profile \<Rightarrow> metrics \<Rightarrow> observation \<Rightarrow> plan option \<Rightarrow> capacity \<Rightarrow> allocation \<Rightarrow> global_state \<Rightarrow>
   ((plan \<times> string \<times> (string, real) dict \<times> stability_metadata option) \<times> (bool \<times> real \<times> real option) \<times> global_state) result" where
  "planned_parts args fw wl ms obs previous cap initial gs =
     (case previous of
        None \<Rightarrow>
          bind_result (evaluate_allocation fw wl initial None) (\<lambda>p.
          let md = (if map_of (p_metadata p) ''autoscaling'' = None then AList.update ''autoscaling'' (MValues []) (p_metadata p)
                    else p_metadata p);
              p' = p\<lparr>p_metadata := AList.update ''initial_runtime_allocation'' (MValues (am_values initial)) md\<rparr>
          in Inr ((p', ''initial'', dict_comp WORKER_TYPES (\<lambda>_. 1), None), (True, 0, None), gs))
      | Some prev \<Rightarrow>
          let (allow, waiting, threshold) = scale_in_guard args wl ms in
          bind_result (plan_existing_allocation fw wl prev cap allow (la_stability args) (ob_clock obs) gs) (\<lambda>(parts, gs').
          Inr (parts, (allow, waiting, Some threshold), gs')))"

definition plan_one_step ::
  "(real \<Rightarrow> string) \<Rightarrow> live_args \<Rightarrow> framework \<Rightarrow> workload_profile \<Rightarrow> metrics \<Rightarrow> observation \<Rightarrow> int \<Rightarrow> plan option \<Rightarrow> capacity \<Rightarrow>
   allocation \<Rightarrow> global_state \<Rightarrow> (live_window \<times> plan \<times> global_state) result" where
  "plan_one_step str_float args fw wl ms obs index previous cap initial gs =
     bind_result (planned_parts args fw wl ms obs previous cap initial gs) (\<lambda>((p, decision, expansion, validation), guard, gs').
     bind_result (plan_to_afd_deployment_spec (la_deployment args) p) (\<lambda>spec.
     Inr (\<lparr>lw_index = index, lw_name = ''step_'' @ str_int index, lw_timestamp = ob_window_time obs,
            lw_elapsed_s = ob_elapsed_s obs, lw_metrics = ms, lw_workload = wl, lw_capacity = cap, lw_worker_expansion = expansion,
            lw_reschedule_decision = decision, lw_scale_in_guard = guard, lw_plan = p, lw_scheduling_plan = plan_to_dict p,
            lw_validation = validation, lw_afd_deployment = spec,
            lw_runtime_launch = afd_deployment_spec_to_runtime_launch_spec str_float ''python'' None spec,
            lw_apply_status = None, lw_scale_confirmation = None\<rparr>, p, gs')))"

section \<open>Confirming a change\<close>

definition scale_plan_direction :: "plan \<Rightarrow> plan \<Rightarrow> string" where
  "scale_plan_direction current wanted =
     (if total_gpus (p_allocation current) < total_gpus (p_allocation wanted) then ''scale_out''
      else if total_gpus (p_allocation wanted) < total_gpus (p_allocation current) then ''scale_in'' else ''reconfigure'')"

text \<open>The signature before \<open>json.dumps\<close>, which the source applies to compare it as a string.\<close>

definition scale_plan_signature :: "plan \<Rightarrow> alloc_key \<times> (string \<times> string \<times> (int \<times> int) list) list" where
  "scale_plan_signature p =
     (am_as_key (p_allocation p), map (\<lambda>((w, h), s). (w, h, strategy_as_tuple s)) (sorted_items (p_parallelism p)))"

type_synonym scale_signature = "string \<times> (alloc_key \<times> (string \<times> string \<times> (int \<times> int) list) list) option"

definition scale_confirmation_signature :: "plan \<Rightarrow> plan \<Rightarrow> scale_signature" where
  "scale_confirmation_signature current wanted =
     (let direction = scale_plan_direction current wanted in
      if direction = ''scale_out'' then (direction, None) else (direction, Some (scale_plan_signature wanted)))"

section \<open>Draining and readiness\<close>

text \<open>The polls until the deadline; a missing file is waited for, any other error is raised.\<close>

fun drain_polls :: "metrics result list \<Rightarrow> bool result" where
  "drain_polls [] = Inr False"
| "drain_polls (poll # polls) =
     (case poll of
        Inl err \<Rightarrow> if err = FileNotFoundError then drain_polls polls else Inl err
      | Inr ms \<Rightarrow> if first_float ms running_keys 0 \<le> 0 \<and> first_float ms waiting_keys 0 \<le> 0 then Inr True else drain_polls polls)"

definition probe_of :: "rt_process \<Rightarrow> (string \<times> string) option" where
  "probe_of p =
     (let role = (case pr_role p of None \<Rightarrow> '''' | Some r \<Rightarrow> r) in
      if role \<notin> {''prefill'', ''attention'', ''ffn''} then None
      else let command = default_command p;
               host = (case command_option command ''--host'' (Some ''127.0.0.1'') of None \<Rightarrow> '''' | Some h \<Rightarrow> h);
               port = or_default (command_option command ''--port'' None) ''''
           in if port = '''' then None
              else Some (case pr_name p of None \<Rightarrow> role | Some n \<Rightarrow> n,
                     ''http://'' @ (if host = ''0.0.0.0'' \<or> host = ''::'' then ''127.0.0.1'' else host) @ '':'' @ port @ ''/health_ready''))"

definition runtime_health_probes :: "rt_process list mapping_field \<Rightarrow> (string, string) dict" where
  "runtime_health_probes launch =
     (case launch of Not_a_mapping \<Rightarrow> []
      | Mapping_field ps \<Rightarrow> foldl (\<lambda>d (n, url). AList.update n url d) [] (List.map_filter probe_of ps))"

fun wait_rounds :: "(string, string) dict \<Rightarrow> (string \<Rightarrow> bool) list \<Rightarrow> bool" where
  "wait_rounds pending [] = False"
| "wait_rounds pending (ready # rounds) =
     (let pending' = filter (\<lambda>(n, url). \<not> ready url) pending in if pending' = [] then True else wait_rounds pending' rounds)"

definition wait_runtime_ready :: "rt_process list mapping_field \<Rightarrow> (string \<Rightarrow> bool) list \<Rightarrow> bool" where
  "wait_runtime_ready launch rounds =
     (let probes = runtime_health_probes launch in if probes = [] then True else wait_rounds probes rounds)"

section \<open>The loop\<close>

record 's live_state =
  lv_previous :: "plan option"
  lv_windows :: "live_window list"
  lv_last_key :: "metrics_key option"
  lv_cooldown_until :: real
  lv_pending_signature :: "scale_signature option"
  lv_pending_count :: int
  lv_scale_applies :: int
  lv_shape :: "(string, real \<times> real) dict"
  lv_step :: int
  lv_gs :: global_state
  lv_world :: "'s world"
  lv_output :: "live_window list"
  lv_runtime_state :: "(string \<times> string option) option"

type_synonym ('s, 'a) live = "('s live_state, 'a) io"

definition modify :: "('w \<Rightarrow> 'w) \<Rightarrow> ('w, unit) io" where
  "modify f w = (Inr (), f w)"

definition write_runtime_state :: "live_args \<Rightarrow> string \<Rightarrow> string option \<Rightarrow> ('s, unit) live" where
  "write_runtime_state args state phase =
     modify (\<lambda>st. if la_drain_state_file args = '''' then st else st\<lparr>lv_runtime_state := Some (state, phase)\<rparr>)"

definition write_output :: "('s, unit) live" where
  "write_output = modify (\<lambda>st. st\<lparr>lv_output := lv_windows st\<rparr>)"

text \<open>\<open>window\<close> is the last element of \<open>windows\<close>, which \<open>result\<close> shares.\<close>

definition update_window :: "(live_window \<Rightarrow> live_window) \<Rightarrow> ('s, unit) live" where
  "update_window f = modify (\<lambda>st. st\<lparr>lv_windows := butlast (lv_windows st) @ [f (last (lv_windows st))]\<rparr>)"

definition next_round :: "('s, int option) live" where
  "next_round = io_bind (modify (\<lambda>st. st\<lparr>lv_step := lv_step st + 1\<rparr>)) (\<lambda>_. io_return None)"

definition keep_current :: "framework \<Rightarrow> workload_profile \<Rightarrow> ('s, unit) live" where
  "keep_current fw wl st =
     (case lv_previous st of None \<Rightarrow> (Inl (AttributeError ''allocation''), st)
      | Some p \<Rightarrow> (case evaluate_existing_plan_for_workload fw wl p of
          Inl err \<Rightarrow> (Inl err, st) | Inr q \<Rightarrow> (Inr (), st\<lparr>lv_previous := Some q\<rparr>)))"

definition should_apply_runtime :: "live_args \<Rightarrow> live_window \<Rightarrow> bool" where
  "should_apply_runtime args window \<longleftrightarrow>
     la_apply_runtime args \<and> lw_reschedule_decision window \<in> {''initial'', ''scale_changed''}"

definition window_dict :: "live_window \<Rightarrow> runtime_window" where
  "window_dict window = \<lparr>rw_index = Some (lw_index window), rw_name = Some (lw_name window),
     rw_launch = Mapping_field (map process_as_dict (ls_processes (lw_runtime_launch window)))\<rparr>"

definition apply_options_of :: "live_args \<Rightarrow> live_window \<Rightarrow> apply_options" where
  "apply_options_of args window =
     \<lparr>ao_plan_path = la_output args, ao_window = window_dict window, ao_gpu_ids = la_gpu_ids args, ao_cwd = la_runtime_cwd args,
      ao_log_dir = la_runtime_log_dir args, ao_pid_file = la_runtime_pid_file args, ao_extra_env = runtime_extra_env args,
      ao_lb_host = la_lb_host args, ao_lb_port = la_lb_port args, ao_drain_state_file = la_drain_state_file args,
      ao_drain_wait_timeout_s = la_drain_wait_timeout_s args, ao_startup_wait_s = la_runtime_startup_wait_s args,
      ao_restart_lb = (lw_reschedule_decision window = ''initial''), ao_cleanup_stale_runtime = la_cleanup_stale_runtime args\<rparr>"

definition apply_runtime_for_window ::
  "(real \<Rightarrow> string) \<Rightarrow> 's os \<Rightarrow> live_args \<Rightarrow> live_window \<Rightarrow> bool \<Rightarrow> ('s, int) live" where
  "apply_runtime_for_window str_float os args window apply_it st =
     (if \<not> apply_it then (Inr 0, st)
      else case apply_runtime_window str_float os (apply_options_of args window) (lv_world st) of
        (r, w) \<Rightarrow> (r, st\<lparr>lv_world := w\<rparr>))"

text \<open>The metrics of each poll, from the time and the files it sees.\<close>

definition drain_readings :: "live_args \<Rightarrow> observation \<Rightarrow> metrics result list" where
  "drain_readings args obs = map (\<lambda>(now, directory). read_metrics_or_default now (has_metrics_dir args) (select_metrics_files directory))
     (ob_drain_polls obs)"

definition drain_before_apply :: "live_args \<Rightarrow> observation \<Rightarrow> ('s, bool) live" where
  "drain_before_apply args obs =
     io_bind (write_runtime_state args ''draining'' (Some ''drain_wait'')) (\<lambda>_. io_of (drain_polls (drain_readings args obs)))"

text \<open>What ends the round without an apply: the status of the window, the output, the current plan under the new workload.\<close>

definition skip_apply :: "framework \<Rightarrow> workload_profile \<Rightarrow> (live_window \<Rightarrow> live_window) \<Rightarrow> ('s, unit) live \<Rightarrow> ('s, int option) live" where
  "skip_apply fw wl f after_write =
     io_bind (update_window f) (\<lambda>_. io_bind write_output (\<lambda>_. io_bind after_write (\<lambda>_.
     io_bind (keep_current fw wl) (\<lambda>_. next_round))))"

text \<open>The confirmation of a change; the result is the pending count, or \<open>None\<close> if the change is confirmed.\<close>

definition confirm_scale :: "live_args \<Rightarrow> plan \<Rightarrow> plan \<Rightarrow> ('s, (int \<times> int \<times> string) option) live" where
  "confirm_scale args current wanted =
     (let sig = scale_confirmation_signature current wanted; required = max 1 (la_scale_confirmations args) in
      io_bind (modify (\<lambda>st. if Some sig = lv_pending_signature st then st\<lparr>lv_pending_count := lv_pending_count st + 1\<rparr>
                             else st\<lparr>lv_pending_signature := Some sig, lv_pending_count := 1\<rparr>)) (\<lambda>_.
      (\<lambda>st. (Inr (if lv_pending_count st < required
                  then Some (lv_pending_count st, required, scale_plan_direction current wanted) else None), st))))"

text \<open>From the drain to the new cooldown; the result is the exit status, or \<open>None\<close> after a drain that timed out.\<close>

definition runtime_change ::
  "(real \<Rightarrow> string) \<Rightarrow> 's os \<Rightarrow> live_args \<Rightarrow> observation \<Rightarrow> live_window \<Rightarrow> ('s, int option) live" where
  "runtime_change str_float os args obs window =
     (let decision = lw_reschedule_decision window in
      io_bind (if la_apply_runtime args
               then if decision = ''initial''
                    then io_bind (write_runtime_state args ''draining'' (Some ''initial_apply'')) (\<lambda>_. io_return True)
                    else if decision = ''scale_changed''
                    then io_bind (drain_before_apply args obs) (\<lambda>drained.
                           if \<not> drained then io_return False
                           else io_bind (write_runtime_state args ''draining'' (Some ''reconfiguring'')) (\<lambda>_. io_return True))
                    else io_return True
               else io_return True) (\<lambda>ready_to_apply.
      if \<not> ready_to_apply then io_return None
      else io_bind (apply_runtime_for_window str_float os args window (la_apply_runtime args)) (\<lambda>status.
        if status \<noteq> 0 then io_return (Some status)
        else if la_apply_runtime args
        then if \<not> wait_runtime_ready (rw_launch (window_dict window)) (ob_ready_rounds obs)
             then io_bind (update_window (\<lambda>x. x\<lparr>lw_apply_status := Some ''runtime_ready_timeout''\<rparr>)) (\<lambda>_.
                  io_bind write_output (\<lambda>_. io_return (Some 1)))
             else io_bind (modify (\<lambda>st. st\<lparr>lv_cooldown_until := ob_applied_time obs + apply_cooldown_s args\<rparr>)) (\<lambda>_.
                  io_bind (write_runtime_state args ''serving'' None) (\<lambda>_.
                  io_bind (update_window (\<lambda>x. x\<lparr>lw_apply_status := Some ''applied''\<rparr>)) (\<lambda>_. io_return (Some 0))))
        else io_return (Some 0))))"

definition finish_round :: "plan \<Rightarrow> ('s, int option) live" where
  "finish_round planned = io_bind (modify (\<lambda>st. st\<lparr>lv_previous := Some planned\<rparr>)) (\<lambda>_. next_round)"

text \<open>The branch of \<open>main\<close> for a window that is to be applied.\<close>

definition apply_window ::
  "(real \<Rightarrow> string) \<Rightarrow> 's os \<Rightarrow> live_args \<Rightarrow> framework \<Rightarrow> int option \<Rightarrow> observation \<Rightarrow> workload_profile \<Rightarrow> live_window \<Rightarrow> plan \<Rightarrow>
   ('s, int option) live" where
  "apply_window str_float os args fw limit obs wl window planned st0 =
     (let decision = lw_reschedule_decision window; change = (decision = ''scale_changed'') in
      if change \<and> (case limit of None \<Rightarrow> False | Some m \<Rightarrow> m \<le> lv_scale_applies st0)
      then skip_apply fw wl (\<lambda>x. x\<lparr>lw_apply_status := Some ''skipped_max_scale_applies''\<rparr>) (io_return ()) st0
      else io_bind (if change \<and> 1 < la_scale_confirmations args
                    then (case lv_previous st0 of None \<Rightarrow> io_raise (AttributeError ''allocation'')
                          | Some current \<Rightarrow> confirm_scale args current planned)
                    else io_return None) (\<lambda>pending.
        case pending of
          Some confirmation \<Rightarrow>
            skip_apply fw wl (\<lambda>x. x\<lparr>lw_apply_status := Some ''pending_scale_confirmation'', lw_scale_confirmation := Some confirmation\<rparr>)
              (io_return ())
        | None \<Rightarrow>
            io_bind (runtime_change str_float os args obs window) (\<lambda>status.
            case status of
              None \<Rightarrow>
                skip_apply fw wl (\<lambda>x. x\<lparr>lw_apply_status := Some ''skipped_drain_timeout''\<rparr>) (write_runtime_state args ''serving'' None)
            | Some code \<Rightarrow>
                if code \<noteq> 0 then io_return (Some code)
                else io_bind write_output (\<lambda>_.
                  io_bind (if change then modify (\<lambda>st. st\<lparr>lv_scale_applies := lv_scale_applies st + 1,
                             lv_pending_signature := None, lv_pending_count := 0\<rparr>) else io_return ()) (\<lambda>_.
                  finish_round planned)))) st0)"

text \<open>From the workload on.\<close>

definition plan_and_apply ::
  "(real \<Rightarrow> string) \<Rightarrow> 's os \<Rightarrow> live_args \<Rightarrow> framework \<Rightarrow> capacity \<Rightarrow> allocation \<Rightarrow> int option \<Rightarrow> observation \<Rightarrow> metrics \<Rightarrow>
   workload_profile \<Rightarrow> ('s, int option) live" where
  "plan_and_apply str_float os args fw cap initial limit obs ms wl st =
     (if arrival_rate wl < la_min_arrival_rate args then next_round st
      else if lv_previous st \<noteq> None \<and> ob_check_time obs < lv_cooldown_until st
      then io_bind (keep_current fw wl) (\<lambda>_. next_round) st
      else io_bind (io_of (plan_one_step str_float args fw wl ms obs (lv_step st) (lv_previous st) cap initial (lv_gs st)))
        (\<lambda>(window, planned, gs').
        io_bind (modify (\<lambda>st. st\<lparr>lv_gs := gs', lv_windows := lv_windows st @ [window]\<rparr>)) (\<lambda>_.
        io_bind write_output (\<lambda>_.
        io_bind (if lw_reschedule_decision window \<noteq> ''scale_changed''
                 then modify (\<lambda>st. st\<lparr>lv_pending_signature := None, lv_pending_count := 0\<rparr>) else io_return ()) (\<lambda>_.
        if should_apply_runtime args window then apply_window str_float os args fw limit obs wl window planned
        else finish_round planned)))) st)"

text \<open>The metrics of a round; \<open>None\<close> when there is nothing to do.\<close>

definition round_metrics :: "(metrics \<Rightarrow> string) \<Rightarrow> live_args \<Rightarrow> observation \<Rightarrow> ('s, metrics option) live" where
  "round_metrics key args obs st =
     (if lv_previous st = None then (Inr (Some (initial_runtime_metrics (ob_initial_time obs))), st)
      else case read_unread_metrics key (ob_initial_time obs) (has_metrics_dir args) (select_metrics_files (ob_directory obs))
          (lv_last_key st) of
        Inl err \<Rightarrow> (if err = FileNotFoundError then Inr None else Inl err, st)
      | Inr (ms, last_key, _) \<Rightarrow> (Inr ms, st\<lparr>lv_last_key := last_key\<rparr>))"

definition round_workload :: "live_args \<Rightarrow> observation \<Rightarrow> metrics \<Rightarrow> ('s, workload_profile option) live" where
  "round_workload args obs ms st =
     (case workload_from_metrics (la_workload_shape_max_age_s args) ms (ob_observed_at obs)
             (if lv_previous st = None then None else Some (lv_shape st)) of
        (r, shape) \<Rightarrow>
          let st' = (case shape of None \<Rightarrow> st | Some d \<Rightarrow> st\<lparr>lv_shape := d\<rparr>) in
          case r of Inr wl \<Rightarrow> (Inr (Some wl), st') | Inl (ValueError _) \<Rightarrow> (Inr None, st') | Inl err \<Rightarrow> (Inl err, st'))"

definition live_round ::
  "(real \<Rightarrow> string) \<Rightarrow> (metrics \<Rightarrow> string) \<Rightarrow> 's os \<Rightarrow> live_args \<Rightarrow> framework \<Rightarrow> capacity \<Rightarrow> allocation \<Rightarrow> int option \<Rightarrow>
   observation \<Rightarrow> ('s, int option) live" where
  "live_round str_float key os args fw cap initial limit obs =
     io_bind (round_metrics key args obs) (\<lambda>ms.
     case ms of None \<Rightarrow> next_round
     | Some ms \<Rightarrow> io_bind (round_workload args obs ms) (\<lambda>wl.
         case wl of None \<Rightarrow> next_round
         | Some wl \<Rightarrow> plan_and_apply str_float os args fw cap initial limit obs ms wl))"

text \<open>The part of \<open>main\<close> before the loop, for the two parsed JSON arguments.\<close>

definition live_start ::
  "live_args \<Rightarrow> (string, int) dict \<Rightarrow> (string, int) dict \<Rightarrow> global_state \<Rightarrow> 's world \<Rightarrow>
   (capacity \<times> allocation \<times> int option \<times> 's live_state) result" where
  "live_start args raw_capacity raw_initial gs w =
     bind_result (parse_capacity raw_capacity) (\<lambda>cap.
     bind_result (parse_initial_allocation raw_initial cap) (\<lambda>initial.
     let st = \<lparr>lv_previous = None, lv_windows = [], lv_last_key = None, lv_cooldown_until = 0, lv_pending_signature = None,
           lv_pending_count = 0, lv_scale_applies = 0, lv_shape = [], lv_step = 0, lv_gs = gs, lv_world = w, lv_output = [],
           lv_runtime_state = None\<rparr>;
         st' = snd (write_runtime_state args (if la_apply_runtime args then ''draining'' else ''serving'') None st)
     in bind_result (max_scale_applies args) (\<lambda>limit. Inr (cap, initial, limit, st'))))"

end
