(* ===== verification/Live_Rounds.thy ===== *)
theory Live_Rounds
  imports Live_Autoscaler
begin

text \<open>
  What one round of the live autoscaler does to its state. A round that continues either only updates
  its memory of the metrics, or re-evaluates the held plan, or plans a window; a planned window is
  skipped (\<open>skipped_round\<close>), applied (\<open>applied_round\<close>), or recorded without an apply. Each of these
  relations writes out the complete new state. A round that leaves the loop has told the load balancer
  to drain, or it raised before it touched the processes.
\<close>

section \<open>What a round does\<close>

definition state_after :: "live_args \<Rightarrow> string \<Rightarrow> string option \<Rightarrow> 's live_state \<Rightarrow> (string \<times> string option) option" where
  "state_after args s phase st = (if la_drain_state_file args = '''' then lv_runtime_state st else Some (s, phase))"

lemma write_runtime_state_eq:
  "write_runtime_state args s phase st = (Inr (), st\<lparr>lv_runtime_state := state_after args s phase st\<rparr>)"
  by (simp add: write_runtime_state_def modify_def state_after_def)

lemma next_round_eq: "next_round st = (Inr None, st\<lparr>lv_step := lv_step st + 1\<rparr>)"
  by (simp add: next_round_def modify_def io_bind_def)

lemma finish_round_eq: "finish_round p st = (Inr None, st\<lparr>lv_previous := Some p, lv_step := lv_step st + 1\<rparr>)"
  by (simp add: finish_round_def next_round_eq modify_def io_bind_def)

definition mark_last :: "(live_window \<Rightarrow> live_window) \<Rightarrow> 's live_state \<Rightarrow> live_window list" where
  "mark_last f st = butlast (lv_windows st) @ [f (last (lv_windows st))]"

lemma update_window_eq: "update_window f st = (Inr (), st\<lparr>lv_windows := mark_last f st\<rparr>)"
  by (simp add: update_window_def modify_def mark_last_def)

lemma write_output_eq: "write_output st = (Inr (), st\<lparr>lv_output := lv_windows st\<rparr>)"
  by (simp add: write_output_def modify_def)

lemmas basic_steps = write_runtime_state_eq next_round_eq finish_round_eq update_window_eq write_output_eq modify_def io_bind_def

text \<open>A round that ends without an apply keeps the plan of the running runtime, under the new workload.\<close>

lemma skip_apply_continues:
  assumes "skip_apply fw wl f (io_return ()) st = (Inr r, st')"
  obtains p q where "lv_previous st = Some p" "evaluate_existing_plan_for_workload fw wl p = Inr q" "r = None"
    "st' = st\<lparr>lv_windows := mark_last f st, lv_output := mark_last f st, lv_previous := Some q, lv_step := lv_step st + 1\<rparr>"
  using assms
  by (auto simp: skip_apply_def basic_steps keep_current_def mark_last_def split: option.splits sum.splits)

lemma skip_drained_continues:
  assumes "skip_apply fw wl f (write_runtime_state args s ph) st = (Inr r, st')"
  obtains p q where "lv_previous st = Some p" "evaluate_existing_plan_for_workload fw wl p = Inr q" "r = None"
    "st' = st\<lparr>lv_windows := mark_last f st, lv_output := mark_last f st, lv_runtime_state := state_after args s ph st,
       lv_previous := Some q, lv_step := lv_step st + 1\<rparr>"
  using assms
  by (auto simp: skip_apply_def basic_steps keep_current_def mark_last_def state_after_def split: option.splits sum.splits)

text \<open>The three ways in which the change of the runtime ends.\<close>

lemma runtime_change_timeout:
  assumes "runtime_change sf os args obs window st = (Inr None, st')" "la_apply_runtime args"
  shows "lw_reschedule_decision window = ''scale_changed'' \<and> drain_polls (drain_readings args obs) = Inr False \<and>
    st' = st\<lparr>lv_runtime_state := state_after args ''draining'' (Some ''drain_wait'') st\<rparr>"
  using assms
  by (auto simp: runtime_change_def basic_steps Let_def drain_before_apply_def apply_runtime_for_window_def
      split: prod.splits sum.splits if_splits)

lemma runtime_change_applied:
  assumes "runtime_change sf os args obs window st = (Inr (Some 0), st')" "la_apply_runtime args"
    "lw_reschedule_decision window \<in> {''initial'', ''scale_changed''}"
  obtains w' where "apply_runtime_window sf os (apply_options_of args window) (lv_world st) = (Inr 0, w')"
    "wait_runtime_ready (rw_launch (window_dict window)) (ob_ready_rounds obs)"
    "lw_reschedule_decision window = ''scale_changed'' \<Longrightarrow> drain_polls (drain_readings args obs) = Inr True"
    "st' = st\<lparr>lv_world := w', lv_cooldown_until := ob_applied_time obs + apply_cooldown_s args,
       lv_runtime_state := state_after args ''serving'' None st,
       lv_windows := mark_last (\<lambda>x. x\<lparr>lw_apply_status := Some ''applied''\<rparr>) st\<rparr>"
  using assms
  by (auto simp: runtime_change_def basic_steps Let_def drain_before_apply_def apply_runtime_for_window_def state_after_def
      mark_last_def split: prod.splits sum.splits if_splits)

lemma runtime_change_failed:
  assumes "runtime_change sf os args obs window st = (Inr (Some c), st')" "la_apply_runtime args" "c \<noteq> 0"
    "lw_reschedule_decision window \<in> {''initial'', ''scale_changed''}" "la_drain_state_file args \<noteq> ''''"
  shows "\<exists>phase. lv_runtime_state st' = Some (''draining'', phase)"
  using assms
  by (auto simp: runtime_change_def basic_steps Let_def drain_before_apply_def apply_runtime_for_window_def state_after_def
      mark_last_def split: prod.splits sum.splits if_splits)

text \<open>The number of confirmations a change has after this round.\<close>

definition pending_after :: "'s live_state \<Rightarrow> scale_signature \<Rightarrow> int" where
  "pending_after st sig = (if Some sig = lv_pending_signature st then lv_pending_count st + 1 else 1)"

lemma confirm_scale_eq:
  "confirm_scale args p t st =
     (Inr (if pending_after st (scale_confirmation_signature p t) < max 1 (la_scale_confirmations args)
           then Some (pending_after st (scale_confirmation_signature p t), max 1 (la_scale_confirmations args), scale_plan_direction p t)
           else None),
      st\<lparr>lv_pending_signature := Some (scale_confirmation_signature p t),
         lv_pending_count := pending_after st (scale_confirmation_signature p t)\<rparr>)"
  by (auto simp: confirm_scale_def basic_steps Let_def pending_after_def)

text \<open>Marks that leave a window what it is but are not \<open>applied\<close>.\<close>

definition skip_mark :: "(live_window \<Rightarrow> live_window) \<Rightarrow> bool" where
  "skip_mark f \<longleftrightarrow> (\<forall>x. lw_apply_status (f x) \<noteq> Some ''applied'' \<and> lw_reschedule_decision (f x) = lw_reschedule_decision x \<and>
     lw_plan (f x) = lw_plan x)"

definition skipped_round ::
  "live_args \<Rightarrow> framework \<Rightarrow> workload_profile \<Rightarrow> live_window \<Rightarrow> plan \<Rightarrow> 's live_state \<Rightarrow> 's live_state \<Rightarrow> bool" where
  "skipped_round args fw wl window planned st st' \<longleftrightarrow> lw_reschedule_decision window = ''scale_changed'' \<and>
     (\<exists>p q f sig n rs. lv_previous st = Some p \<and> evaluate_existing_plan_for_workload fw wl p = Inr q \<and> skip_mark f \<and>
        (rs = lv_runtime_state st \<or> rs = state_after args ''serving'' None st) \<and>
        (sig = lv_pending_signature st \<and> n = lv_pending_count st \<or>
         sig = Some (scale_confirmation_signature p planned) \<and> n = pending_after st (scale_confirmation_signature p planned)) \<and>
        st' = st\<lparr>lv_windows := mark_last f st, lv_output := mark_last f st, lv_pending_signature := sig, lv_pending_count := n,
          lv_runtime_state := rs, lv_previous := Some q, lv_step := lv_step st + 1\<rparr>)"

definition applied_round ::
  "(real \<Rightarrow> string) \<Rightarrow> 's os \<Rightarrow> live_args \<Rightarrow> int option \<Rightarrow> observation \<Rightarrow> live_window \<Rightarrow> plan \<Rightarrow> 's live_state \<Rightarrow> 's live_state \<Rightarrow> bool" where
  "applied_round sf os args limit obs window planned st st' \<longleftrightarrow>
     (let change = (lw_reschedule_decision window = ''scale_changed'') in
      wait_runtime_ready (rw_launch (window_dict window)) (ob_ready_rounds obs) \<and>
      (change \<longrightarrow> drain_polls (drain_readings args obs) = Inr True \<and>
         (\<forall>m. limit = Some m \<longrightarrow> lv_scale_applies st < m) \<and>
         (1 < la_scale_confirmations args \<longrightarrow> (\<exists>p. lv_previous st = Some p \<and>
            la_scale_confirmations args \<le> pending_after st (scale_confirmation_signature p planned)))) \<and>
      (\<exists>w' sig n. apply_runtime_window sf os (apply_options_of args window) (lv_world st) = (Inr 0, w') \<and>
         (if change then sig = None \<and> n = 0 else sig = lv_pending_signature st \<and> n = lv_pending_count st) \<and>
         (let ws = mark_last (\<lambda>x. x\<lparr>lw_apply_status := Some ''applied''\<rparr>) st in
          st' = st\<lparr>lv_world := w', lv_cooldown_until := ob_applied_time obs + apply_cooldown_s args,
            lv_runtime_state := state_after args ''serving'' None st, lv_windows := ws, lv_output := ws,
            lv_scale_applies := lv_scale_applies st + (if change then 1 else 0), lv_pending_signature := sig, lv_pending_count := n,
            lv_previous := Some planned, lv_step := lv_step st + 1\<rparr>)))"

lemma skip_marks [simp]:
  "s \<noteq> ''applied'' \<Longrightarrow> skip_mark (\<lambda>x. x\<lparr>lw_apply_status := Some s\<rparr>)"
  "s \<noteq> ''applied'' \<Longrightarrow> skip_mark (\<lambda>x. x\<lparr>lw_apply_status := Some s, lw_scale_confirmation := c\<rparr>)"
  by (simp_all add: skip_mark_def)

lemma skipped_roundI:
  assumes "lw_reschedule_decision window = ''scale_changed''" "lv_previous st = Some p"
    "evaluate_existing_plan_for_workload fw wl p = Inr q" "skip_mark f" "rs = lv_runtime_state st \<or> rs = state_after args ''serving'' None st"
    "sig = lv_pending_signature st \<and> n = lv_pending_count st \<or>
     sig = Some (scale_confirmation_signature p planned) \<and> n = pending_after st (scale_confirmation_signature p planned)"
    "st' = st\<lparr>lv_windows := mark_last f st, lv_output := mark_last f st, lv_pending_signature := sig, lv_pending_count := n,
          lv_runtime_state := rs, lv_previous := Some q, lv_step := lv_step st + 1\<rparr>"
  shows "skipped_round args fw wl window planned st st'"
  using assms unfolding skipped_round_def by blast

text \<open>What the confirmation of a change leaves: the new pending change, or nothing when one confirmation is enough.\<close>

definition confirm_phase ::
  "live_args \<Rightarrow> live_window \<Rightarrow> plan \<Rightarrow> (int \<times> int \<times> string) option \<Rightarrow> 's live_state \<Rightarrow> 's live_state \<Rightarrow> bool" where
  "confirm_phase args window planned pending st st1 \<longleftrightarrow>
     (let change = (lw_reschedule_decision window = ''scale_changed'') in
      (\<exists>p. lv_previous st = Some p \<and> change \<and> st1 = st\<lparr>lv_pending_signature := Some (scale_confirmation_signature p planned),
          lv_pending_count := pending_after st (scale_confirmation_signature p planned)\<rparr> \<and>
          (pending = None \<longrightarrow> la_scale_confirmations args \<le> pending_after st (scale_confirmation_signature p planned))) \<or>
      pending = None \<and> st1 = st \<and> \<not> (change \<and> 1 < la_scale_confirmations args))"

lemma confirm_phase_same:
  assumes "confirm_phase args window planned pending st st1"
  shows "mark_last f st1 = mark_last f st" "lv_previous st1 = lv_previous st" "lv_runtime_state st1 = lv_runtime_state st"
    "lv_world st1 = lv_world st" "lv_scale_applies st1 = lv_scale_applies st" "lv_step st1 = lv_step st"
    "state_after args s ph st1 = state_after args s ph st"
  using assms by (auto simp: confirm_phase_def Let_def mark_last_def state_after_def)

lemma confirm_phase_skips:
  assumes phase: "confirm_phase args window planned pending st st1" and "lw_reschedule_decision window = ''scale_changed''"
    and "lv_previous st1 = Some p" "evaluate_existing_plan_for_workload fw wl p = Inr q" "skip_mark f"
    and "rs = lv_runtime_state st \<or> rs = state_after args ''serving'' None st"
    and "st' = st1\<lparr>lv_windows := mark_last f st1, lv_output := mark_last f st1, lv_runtime_state := rs, lv_previous := Some q,
      lv_step := lv_step st1 + 1\<rparr>"
  shows "skipped_round args fw wl window planned st st'"
  by (rule skipped_roundI[of window st p fw wl q f rs args "lv_pending_signature st1" "lv_pending_count st1"])
    (use assms confirm_phase_same[OF phase] in \<open>auto simp: confirm_phase_def Let_def\<close>)

lemma confirm_phase_applies:
  assumes phase: "confirm_phase args window planned None st st1" and "la_apply_runtime args"
    and window: "lw_reschedule_decision window \<in> {''initial'', ''scale_changed''}"
    and limit: "\<And>m. lw_reschedule_decision window = ''scale_changed'' \<Longrightarrow> limit = Some m \<Longrightarrow> lv_scale_applies st < m"
    and run: "runtime_change sf os args obs window st1 = (Inr (Some 0), st2)"
    and st': "st' = st2\<lparr>lv_output := lv_windows st2,
      lv_scale_applies := lv_scale_applies st2 + (if lw_reschedule_decision window = ''scale_changed'' then 1 else 0),
      lv_pending_signature := (if lw_reschedule_decision window = ''scale_changed'' then None else lv_pending_signature st2),
      lv_pending_count := (if lw_reschedule_decision window = ''scale_changed'' then 0 else lv_pending_count st2),
      lv_previous := Some planned, lv_step := lv_step st2 + 1\<rparr>"
  shows "applied_round sf os args limit obs window planned st st'"
proof -
  let ?change = "lw_reschedule_decision window = ''scale_changed''"
  obtain w' where "apply_runtime_window sf os (apply_options_of args window) (lv_world st1) = (Inr 0, w')"
      "wait_runtime_ready (rw_launch (window_dict window)) (ob_ready_rounds obs)"
      "?change \<Longrightarrow> drain_polls (drain_readings args obs) = Inr True"
      "st2 = st1\<lparr>lv_world := w', lv_cooldown_until := ob_applied_time obs + apply_cooldown_s args,
         lv_runtime_state := state_after args ''serving'' None st1,
         lv_windows := mark_last (\<lambda>x. x\<lparr>lw_apply_status := Some ''applied''\<rparr>) st1\<rparr>"
    by (rule runtime_change_applied[OF run assms(2) window]) (rule that)
  moreover have "\<exists>p. lv_previous st = Some p \<and> la_scale_confirmations args \<le> pending_after st (scale_confirmation_signature p planned)"
    if "?change" "1 < la_scale_confirmations args" using phase that by (auto simp: confirm_phase_def)
  ultimately show ?thesis
    unfolding applied_round_def Let_def
    by (intro conjI impI allI exI[of _ w'] exI[of _ "if ?change then None else lv_pending_signature st"]
        exI[of _ "if ?change then 0 else lv_pending_count st"])
      (use limit phase confirm_phase_same[OF phase] in \<open>auto simp: st' confirm_phase_def Let_def\<close>)
qed

lemma apply_window_continues:
  assumes "apply_window sf os args fw limit obs wl window planned st = (Inr None, st')" "la_apply_runtime args"
    and "lw_reschedule_decision window \<in> {''initial'', ''scale_changed''}"
  shows "skipped_round args fw wl window planned st st' \<or> applied_round sf os args limit obs window planned st st'"
proof -
  let ?change = "lw_reschedule_decision window = ''scale_changed''"
  let ?limit = "?change \<and> (case limit of None \<Rightarrow> False | Some m \<Rightarrow> m \<le> lv_scale_applies st)"
  let ?pending = "if ?change \<and> 1 < la_scale_confirmations args
      then (case lv_previous st of None \<Rightarrow> io_raise (AttributeError ''allocation'') | Some current \<Rightarrow> confirm_scale args current planned)
      else io_return None"
  note run = assms(1)[unfolded apply_window_def Let_def]
  show ?thesis
  proof (cases ?limit)
    case True
    then have "skip_apply fw wl (\<lambda>x. x\<lparr>lw_apply_status := Some ''skipped_max_scale_applies''\<rparr>) (io_return ()) st = (Inr None, st')"
      using run by simp
    then show ?thesis
      by (rule skip_apply_continues) (rule disjI1, rule skipped_roundI, use True in auto)
  next
    case False
    then obtain pending st1 where p: "?pending st = (Inr pending, st1)"
      using run by (auto simp: io_bind_def split: prod.splits sum.splits)
    have phase: "confirm_phase args window planned pending st st1"
      using p by (auto simp: confirm_phase_def Let_def confirm_scale_eq split: if_splits option.splits)
    note rest = run[unfolded if_not_P[OF False] io_bind_Inr[of ?pending, OF p]]
    show ?thesis
    proof (cases pending)
      case (Some c)
      then have "?change" "skip_apply fw wl (\<lambda>x. x\<lparr>lw_apply_status := Some ''pending_scale_confirmation'', lw_scale_confirmation := Some c\<rparr>)
          (io_return ()) st1 = (Inr None, st')" using rest phase by (auto simp: confirm_phase_def Let_def)
      then show ?thesis
        by (elim skip_apply_continues)
          (rule disjI1, rule confirm_phase_skips[OF phase, where rs = "lv_runtime_state st" and
             f = "\<lambda>x. x\<lparr>lw_apply_status := Some ''pending_scale_confirmation'', lw_scale_confirmation := Some c\<rparr>"],
           use confirm_phase_same[OF phase] in auto)
    next
      case None
      then obtain status st2 where r: "runtime_change sf os args obs window st1 = (Inr status, st2)"
        using rest by (auto simp: io_bind_def split: prod.splits sum.splits)
      show ?thesis
      proof (cases status)
        case none: None
        then have t: "?change" "st2 = st1\<lparr>lv_runtime_state := state_after args ''draining'' (Some ''drain_wait'') st1\<rparr>"
          using runtime_change_timeout[of sf os args obs window st1 st2] r assms(2) by simp_all
        have "skip_apply fw wl (\<lambda>x. x\<lparr>lw_apply_status := Some ''skipped_drain_timeout''\<rparr>) (write_runtime_state args ''serving'' None) st2 =
            (Inr None, st')" using rest r None none by (simp add: io_bind_Inr)
        then show ?thesis
          by (rule skip_drained_continues)
            (rule disjI1, rule confirm_phase_skips[OF phase t(1), where rs = "state_after args ''serving'' None st" and
               f = "\<lambda>x. x\<lparr>lw_apply_status := Some ''skipped_drain_timeout''\<rparr>"],
             use t confirm_phase_same[OF phase] in \<open>auto simp: mark_last_def state_after_def\<close>)
      next
        case (Some code)
        then have code: "code = 0" using rest r None by (auto simp: io_bind_Inr split: if_splits)
        have "applied_round sf os args limit obs window planned st st'"
          by (rule confirm_phase_applies[OF phase[unfolded None] assms(2,3), of limit sf os obs st2])
            (use rest r None Some code False in \<open>auto simp: io_bind_Inr basic_steps split: if_splits\<close>)
        then show ?thesis ..
      qed
    qed
  qed
qed

section \<open>Rounds that continue\<close>

text \<open>The state when a window has been planned: it is recorded and written, and without a change the pending change is forgotten.\<close>

definition planned_state :: "live_window \<Rightarrow> global_state \<Rightarrow> 's live_state \<Rightarrow> 's live_state" where
  "planned_state window gs st =
     (let change = (lw_reschedule_decision window = ''scale_changed''); ws = lv_windows st @ [window] in
      st\<lparr>lv_gs := gs, lv_windows := ws, lv_output := ws, lv_pending_signature := (if change then lv_pending_signature st else None),
         lv_pending_count := (if change then lv_pending_count st else 0)\<rparr>)"

definition planned_round ::
  "(real \<Rightarrow> string) \<Rightarrow> 's os \<Rightarrow> live_args \<Rightarrow> framework \<Rightarrow> capacity \<Rightarrow> allocation \<Rightarrow> int option \<Rightarrow> observation \<Rightarrow>
   's live_state \<Rightarrow> 's live_state \<Rightarrow> bool" where
  "planned_round sf os args fw cap initial limit obs st st' \<longleftrightarrow>
     \<not> (lv_previous st \<noteq> None \<and> ob_check_time obs < lv_cooldown_until st) \<and>
     (\<exists>ms wl window planned gs'.
        plan_one_step sf args fw wl ms obs (lv_step st) (lv_previous st) cap initial (lv_gs st) = Inr (window, planned, gs') \<and>
        (if should_apply_runtime args window
         then skipped_round args fw wl window planned (planned_state window gs' st) st' \<or>
              applied_round sf os args limit obs window planned (planned_state window gs' st) st'
         else st' = (planned_state window gs' st)\<lparr>lv_previous := Some planned, lv_step := lv_step st + 1\<rparr>))"

lemma plan_and_apply_continues:
  assumes "plan_and_apply sf os args fw cap initial limit obs ms wl st = (Inr None, st')"
  shows "st' = st\<lparr>lv_step := lv_step st + 1\<rparr> \<or>
    (\<exists>p q. lv_previous st = Some p \<and> evaluate_existing_plan_for_workload fw wl p = Inr q \<and>
       st' = st\<lparr>lv_previous := Some q, lv_step := lv_step st + 1\<rparr>) \<or>
    planned_round sf os args fw cap initial limit obs st st'"
proof -
  consider (low) "arrival_rate wl < la_min_arrival_rate args"
    | (cool) "\<not> arrival_rate wl < la_min_arrival_rate args" "lv_previous st \<noteq> None \<and> ob_check_time obs < lv_cooldown_until st"
    | (plan) "\<not> arrival_rate wl < la_min_arrival_rate args" "\<not> (lv_previous st \<noteq> None \<and> ob_check_time obs < lv_cooldown_until st)"
    by blast
  then show ?thesis
  proof cases
    case low
    then show ?thesis using assms by (simp add: plan_and_apply_def next_round_eq)
  next
    case cool
    then show ?thesis
      using assms by (auto simp: plan_and_apply_def basic_steps keep_current_def split: option.splits sum.splits)
  next
    case plan
    then obtain window planned gs' where p:
        "plan_one_step sf args fw wl ms obs (lv_step st) (lv_previous st) cap initial (lv_gs st) = Inr (window, planned, gs')"
      using assms by (auto simp: plan_and_apply_def io_bind_def split: prod.splits sum.splits if_splits)
    let ?st = "planned_state window gs' st"
    have run: "(if should_apply_runtime args window then apply_window sf os args fw limit obs wl window planned
        else finish_round planned) ?st = (Inr None, st')"
      using assms plan p by (auto simp: plan_and_apply_def basic_steps planned_state_def Let_def split: if_splits)
    have "if should_apply_runtime args window
         then skipped_round args fw wl window planned ?st st' \<or> applied_round sf os args limit obs window planned ?st st'
         else st' = ?st\<lparr>lv_previous := Some planned, lv_step := lv_step st + 1\<rparr>"
      using run apply_window_continues[of sf os args fw limit obs wl window planned ?st st']
      by (auto simp: should_apply_runtime_def finish_round_eq planned_state_def Let_def split: if_splits)
    then show ?thesis unfolding planned_round_def using plan(2) p by blast
  qed
qed

definition live_step ::
  "(real \<Rightarrow> string) \<Rightarrow> 's os \<Rightarrow> live_args \<Rightarrow> framework \<Rightarrow> capacity \<Rightarrow> allocation \<Rightarrow> int option \<Rightarrow> observation \<Rightarrow>
   's live_state \<Rightarrow> 's live_state \<Rightarrow> bool" where
  "live_step sf os args fw cap initial limit obs st st' \<longleftrightarrow>
     st' = st\<lparr>lv_step := lv_step st + 1\<rparr> \<or>
     (\<exists>wl p q. lv_previous st = Some p \<and> evaluate_existing_plan_for_workload fw wl p = Inr q \<and>
       st' = st\<lparr>lv_previous := Some q, lv_step := lv_step st + 1\<rparr>) \<or>
     planned_round sf os args fw cap initial limit obs st st'"

lemma round_metrics_state: "round_metrics key args obs st = (r, st1) \<Longrightarrow> \<exists>k. st1 = st\<lparr>lv_last_key := k\<rparr>"
proof -
  have same: "\<exists>k. st = st\<lparr>lv_last_key := k\<rparr>" by (rule exI[of _ "lv_last_key st"]) simp
  assume "round_metrics key args obs st = (r, st1)"
  then show ?thesis
    using same by (auto simp: round_metrics_def split: if_splits sum.splits py_error.splits)
qed

lemma round_workload_state: "round_workload args obs ms st = (r, st1) \<Longrightarrow> \<exists>d. st1 = st\<lparr>lv_shape := d\<rparr>"
proof -
  have same: "\<exists>d. st = st\<lparr>lv_shape := d\<rparr>" by (rule exI[of _ "lv_shape st"]) simp
  assume "round_workload args obs ms st = (r, st1)"
  then show ?thesis
    using same by (auto simp: round_workload_def Let_def split: prod.splits option.splits sum.splits py_error.splits)
qed

lemma live_round_continues:
  assumes "live_round sf key os args fw cap initial limit obs st = (Inr None, st')"
  shows "\<exists>k d. live_step sf os args fw cap initial limit obs (st\<lparr>lv_last_key := k, lv_shape := d\<rparr>) st'"
proof -
  obtain ms st1 k where m: "round_metrics key args obs st = (Inr ms, st1)" "st1 = st\<lparr>lv_last_key := k\<rparr>"
    using assms round_metrics_state by (fastforce simp: live_round_def io_bind_def split: prod.splits sum.splits)
  show ?thesis
  proof (cases ms)
    case None
    then have "st' = st1\<lparr>lv_step := lv_step st1 + 1\<rparr>" using assms m(1) by (simp add: live_round_def next_round_eq)
    then show ?thesis by (intro exI[of _ k] exI[of _ "lv_shape st"]) (simp add: m(2) live_step_def)
  next
    case (Some x)
    then have run: "io_bind (round_workload args obs x) (\<lambda>wl. case wl of None \<Rightarrow> next_round
        | Some wl \<Rightarrow> plan_and_apply sf os args fw cap initial limit obs x wl) st1 = (Inr None, st')"
      using assms m(1) by (simp add: live_round_def)
    then obtain wl st2 d where w: "round_workload args obs x st1 = (Inr wl, st2)" "st2 = st1\<lparr>lv_shape := d\<rparr>"
      using round_workload_state by (fastforce simp: io_bind_def split: prod.splits sum.splits)
    have "live_step sf os args fw cap initial limit obs st2 st'"
    proof (cases wl)
      case None
      then show ?thesis using run w(1) by (simp add: next_round_eq live_step_def)
    next
      case (Some y)
      then have "plan_and_apply sf os args fw cap initial limit obs x y st2 = (Inr None, st')" using run w(1) by simp
      then show ?thesis unfolding live_step_def using plan_and_apply_continues by blast
    qed
    then show ?thesis by (intro exI[of _ k] exI[of _ d]) (simp add: m(2) w(2))
  qed
qed

section \<open>Rounds that end the loop\<close>

lemma apply_window_exits:
  assumes "apply_window sf os args fw limit obs wl window planned st = (Inr (Some c), st')"
  shows "c \<noteq> 0 \<and> (\<exists>st1. runtime_change sf os args obs window st1 = (Inr (Some c), st'))"
proof -
  have skip: "r = None" if "skip_apply fw wl f m st1 = (Inr r, st2)" for f m st1 st2 r
    using that by (auto simp: skip_apply_def next_round_eq io_bind_def split: prod.splits sum.splits)
  show ?thesis
    using assms skip
    by (fastforce simp: apply_window_def Let_def io_bind_def finish_round_eq split: prod.splits sum.splits option.splits if_splits)
qed

text \<open>Unless the loop continues, the runtime state is \<open>draining\<close> or the processes have not been touched.\<close>

lemma runtime_change_raises:
  assumes "runtime_change sf os args obs window st = (Inl err, st')" "la_apply_runtime args"
    "lw_reschedule_decision window \<in> {''initial'', ''scale_changed''}" "la_drain_state_file args \<noteq> ''''"
  shows "\<exists>phase. lv_runtime_state st' = Some (''draining'', phase)"
  using assms
  by (auto simp: runtime_change_def basic_steps Let_def drain_before_apply_def apply_runtime_for_window_def state_after_def
      split: prod.splits sum.splits if_splits)

lemma skip_apply_world:
  assumes "skip_apply fw wl f m st = (r, st')" "\<And>s t u. m s = (t, u) \<Longrightarrow> lv_world u = lv_world s"
  shows "lv_world st' = lv_world st"
  using assms
  by (fastforce simp: skip_apply_def basic_steps keep_current_def split: prod.splits sum.splits option.splits)

lemma apply_window_raises:
  assumes run: "apply_window sf os args fw limit obs wl window planned st = (Inl err, st')" and "la_apply_runtime args"
    and "lw_reschedule_decision window \<in> {''initial'', ''scale_changed''}" "la_drain_state_file args \<noteq> ''''"
  shows "lv_world st' = lv_world st \<or> (\<exists>phase. lv_runtime_state st' = Some (''draining'', phase))"
proof -
  let ?change = "lw_reschedule_decision window = ''scale_changed''"
  have quiet: "lv_world st2 = lv_world st1" if "skip_apply fw wl f (io_return ()) st1 = (r, st2)" for f st1 r st2
    by (rule skip_apply_world[OF that]) simp
  have serving: "lv_world st2 = lv_world st1" if "skip_apply fw wl f (write_runtime_state args a b) st1 = (r, st2)" for f a b st1 r st2
    by (rule skip_apply_world[OF that]) (auto simp: write_runtime_state_eq)
  have timeout: "lv_world st2 = lv_world st1" if "runtime_change sf os args obs window st1 = (Inr None, st2)" for st1 st2
    using runtime_change_timeout[OF that assms(2)] by simp
  have confirm: "lv_world st2 = lv_world st1" if "confirm_scale args p planned st1 = (r, st2)" for p st1 r st2
    using that by (auto simp: confirm_scale_eq)
  let ?pending = "if ?change \<and> 1 < la_scale_confirmations args
      then (case lv_previous st of None \<Rightarrow> io_raise (AttributeError ''allocation'') | Some current \<Rightarrow> confirm_scale args current planned)
      else io_return None"
  obtain r1 st1 where r1: "?pending st = (r1, st1)" by (cases "?pending st")
  then have w1: "lv_world st1 = lv_world st" using confirm by (auto split: if_splits option.splits)
  obtain r2 st2 where r2: "runtime_change sf os args obs window st1 = (r2, st2)" by (cases "runtime_change sf os args obs window st1")
  show ?thesis
  proof (cases "?change \<and> (case limit of None \<Rightarrow> False | Some m \<Rightarrow> m \<le> lv_scale_applies st)")
    case True
    then show ?thesis using run quiet by (auto simp: apply_window_def Let_def)
  next
    case False
    note run1 = run[unfolded apply_window_def Let_def if_not_P[OF False] io_bind_def[of "?pending"] r1 prod.case]
    consider e where "r1 = Inl e" | c where "r1 = Inr (Some c)" | "r1 = Inr None" by (metis option.exhaust sum.exhaust)
    then show ?thesis
    proof cases
      case 1
      then show ?thesis using run1 w1 by simp
    next
      case 2
      then show ?thesis using run1 w1 quiet by fastforce
    next
      case 3
      consider e where "r2 = Inl e" | "r2 = Inr None" | code where "r2 = Inr (Some code)" by (metis option.exhaust sum.exhaust)
      then show ?thesis
      proof cases
        case (1 e)
        then show ?thesis using run1 3 r2 runtime_change_raises[of sf os args obs window st1 e st2] assms(2-4) by simp
      next
        case 2
        then have "skip_apply fw wl (\<lambda>x. x\<lparr>lw_apply_status := Some ''skipped_drain_timeout''\<rparr>) (write_runtime_state args ''serving'' None) st2 =
            (Inl err, st')" using run1 3 r2 by simp
        then show ?thesis using serving timeout[of st1 st2] r2 2 w1 by fastforce
      next
        case code: (3 code)
        then show ?thesis using run1 3 r2 by (auto simp: basic_steps split: if_splits)
      qed
    qed
  qed
qed

lemma plan_and_apply_ends:
  assumes "plan_and_apply sf os args fw cap initial limit obs ms wl st = (r, st')" "r \<noteq> Inr None" "la_apply_runtime args"
    "la_drain_state_file args \<noteq> ''''"
  shows "(\<exists>phase. lv_runtime_state st' = Some (''draining'', phase)) \<and> (\<forall>c. r = Inr (Some c) \<longrightarrow> c \<noteq> 0) \<or>
    (\<exists>err. r = Inl err) \<and> lv_world st' = lv_world st"
proof (cases "\<exists>window planned gs'. \<not> arrival_rate wl < la_min_arrival_rate args \<and>
    \<not> (lv_previous st \<noteq> None \<and> ob_check_time obs < lv_cooldown_until st) \<and> should_apply_runtime args window \<and>
    plan_one_step sf args fw wl ms obs (lv_step st) (lv_previous st) cap initial (lv_gs st) = Inr (window, planned, gs')")
  case True
  then obtain window planned gs' where p: "should_apply_runtime args window"
      "\<not> arrival_rate wl < la_min_arrival_rate args" "\<not> (lv_previous st \<noteq> None \<and> ob_check_time obs < lv_cooldown_until st)"
      "plan_one_step sf args fw wl ms obs (lv_step st) (lv_previous st) cap initial (lv_gs st) = Inr (window, planned, gs')" by blast
  let ?st = "planned_state window gs' st"
  have run: "apply_window sf os args fw limit obs wl window planned ?st = (r, st')"
    using assms(1) p by (auto simp: plan_and_apply_def basic_steps planned_state_def Let_def split: if_splits)
  have d: "lw_reschedule_decision window \<in> {''initial'', ''scale_changed''}" using p(1) by (simp add: should_apply_runtime_def)
  have world: "lv_world ?st = lv_world st" by (simp add: planned_state_def Let_def)
  show ?thesis
  proof (cases r)
    case (Inl err)
    then show ?thesis using apply_window_raises[of sf os args fw limit obs wl window planned ?st err st'] run assms(3,4) d world by auto
  next
    case (Inr x)
    then obtain c where c: "r = Inr (Some c)" using assms(2) by (cases x) auto
    then obtain st1 where "c \<noteq> 0" "runtime_change sf os args obs window st1 = (Inr (Some c), st')"
      using apply_window_exits[of sf os args fw limit obs wl window planned ?st c st'] run by auto
    then show ?thesis using runtime_change_failed[OF _ assms(3) _ d assms(4)] c by fastforce
  qed
next
  case False
  then show ?thesis
    using assms(1,2)
    by (auto simp: plan_and_apply_def basic_steps keep_current_def split: if_splits option.splits sum.splits prod.splits)
qed

lemma live_round_ends:
  assumes "live_round sf key os args fw cap initial limit obs st = (r, st')" "r \<noteq> Inr None" "la_apply_runtime args"
    "la_drain_state_file args \<noteq> ''''"
  shows "(\<exists>phase. lv_runtime_state st' = Some (''draining'', phase)) \<and> (\<forall>c. r = Inr (Some c) \<longrightarrow> c \<noteq> 0) \<or>
    (\<exists>err. r = Inl err) \<and> lv_world st' = lv_world st"
proof -
  obtain r1 st1 where m: "round_metrics key args obs st = (r1, st1)" by (cases "round_metrics key args obs st")
  then have w1: "lv_world st1 = lv_world st" using round_metrics_state by fastforce
  consider e where "r1 = Inl e" | "r1 = Inr None" | x where "r1 = Inr (Some x)" by (metis option.exhaust sum.exhaust)
  then show ?thesis
  proof cases
    case 1
    then show ?thesis using assms(1) m w1 by (auto simp: live_round_def)
  next
    case 2
    then show ?thesis using assms(1,2) m by (simp add: live_round_def next_round_eq)
  next
    case (3 x)
    obtain r2 st2 where l: "round_workload args obs x st1 = (r2, st2)" by (cases "round_workload args obs x st1")
    then have w2: "lv_world st2 = lv_world st" using round_workload_state w1 by fastforce
    consider e where "r2 = Inl e" | "r2 = Inr None" | y where "r2 = Inr (Some y)" by (metis option.exhaust sum.exhaust)
    then show ?thesis
    proof cases
      case 1
      then show ?thesis using assms(1) m 3 l w2 by (auto simp: live_round_def)
    next
      case 2
      then show ?thesis using assms(1,2) m 3 l by (simp add: live_round_def next_round_eq)
    next
      case y: (3 y)
      then have "plan_and_apply sf os args fw cap initial limit obs x y st2 = (r, st')" using assms(1) m 3 l by (simp add: live_round_def)
      then show ?thesis using plan_and_apply_ends[OF _ assms(2-4)] w2 by metis
    qed
  qed
qed

end
