(* ===== verification/Live_Safety.thy ===== *)
theory Live_Safety
  imports Live_Rounds Runtime_Safety
begin

text \<open>
  The control loop of the live autoscaler is safe. The invariant \<open>live_inv\<close> ties the held plan to the
  last applied window, the counters to the recorded windows and the state file to the deployment. Every
  round keeps it, for every observation, so it holds in all states that \<open>live_reaches\<close> from the
  start of the loop. The properties are the four contracts of the loop: plans stay within the
  capacity and the limit on changes, the load balancer is told the truth, each change is confirmed,
  and the runtime's processes stay in the pid file. The last one rests on the laws of \<open>process_table\<close>
  and is instantiated by the interpretation for \<open>unix_os\<close>.
\<close>

section \<open>Plans\<close>

lemma plan_ok_previous: "plan_ok env p \<Longrightarrow> previous_ok (Some (p_parallelism p))"
  by (auto simp: plan_ok_def previous_ok_def strategies_fit_def)

lemma existing_plan_ok:
  assumes "env_ok (fw_env fw)" "plan_ok (fw_env fw) p"
  obtains q where "evaluate_existing_plan_for_workload fw wl p = Inr q" "plan_ok (fw_env fw) q" "p_allocation q = p_allocation p"
proof -
  have "wf_alloc (p_allocation p)" using assms(2) by (simp add: plan_ok_def)
  then show ?thesis
    using evaluate_allocation_ok[OF assms(1) plan_ok_previous[OF assms(2)], of "p_allocation p" wl] that
    unfolding evaluate_existing_plan_for_workload_def by metis
qed

definition plan_held :: "framework \<Rightarrow> capacity \<Rightarrow> plan option \<Rightarrow> bool" where
  "plan_held fw cap previous \<longleftrightarrow> (\<forall>p. previous = Some p \<longrightarrow> plan_ok (fw_env fw) p \<and> within_capacity (p_allocation p) cap)"

lemma plan_existing_ok:
  assumes "env_ok (fw_env fw)" "cap_ok cap" "cache_ok (fw_env fw) (gs_cache gs)" "plan_ok (fw_env fw) previous"
    "within_capacity (p_allocation previous) cap"
  obtains p decision x validation gs' where
    "plan_existing_allocation fw wl previous cap allow cfg clock gs = Inr ((p, decision, x, validation), gs')"
    "plan_ok (fw_env fw) p" "within_capacity (p_allocation p) cap" "cache_ok (fw_env fw) (gs_cache gs')"
    "decision = (if am_as_key (p_allocation p) = am_as_key (p_allocation previous) then ''hold_allocation_unchanged'' else ''scale_changed'')"
proof -
  note result = that
  obtain c where c: "evaluate_existing_plan_for_workload fw wl previous = Inr c" "plan_ok (fw_env fw) c"
      "p_allocation c = p_allocation previous"
    by (rule existing_plan_ok[OF assms(1,4)])
  have within_c: "within_capacity (p_allocation c) cap" using c(3) assms(5) by simp
  note prev = plan_ok_previous[OF c(2)]
  let ?x = "worker_expansion_factors (fw_auto fw) wl c"
  show ?thesis
  proof (cases "am_as_key (proportional_scale_allocation (fw_auto fw) wl c cap) = am_as_key (p_allocation c)")
    case True
    show ?thesis
      by (rule result[of c "''hold_allocation_unchanged''" ?x None gs])
        (use True c within_c assms(3) in \<open>simp_all add: plan_existing_allocation_def Let_def\<close>)
  next
    case scaled: False
    obtain pr gs' where pr: "reschedule fw wl c cap gs = Inr (pr, gs')" "plan_ok (fw_env fw) pr"
        "within_capacity (p_allocation pr) cap" "cache_ok (fw_env fw) (gs_cache gs')"
      by (rule reschedule_ok[OF assms(1,3,2) prev])
    show ?thesis
    proof (cases "am_as_key (p_allocation pr) = am_as_key (p_allocation c)")
      case True
      show ?thesis
        by (rule result[of pr "''hold_allocation_unchanged''" ?x None gs'])
          (use True scaled c pr in \<open>simp_all add: plan_existing_allocation_def Let_def\<close>)
    next
      case False
      obtain p md where s: "stabilize_autoscaling_plan fw wl c pr cap cfg allow clock = Inr (p, md)"
          "run_result (fst (StabilityValidator fw wl c cap cfg allow clock)) pr (p, md)"
        by (rule stabilize_ok[OF assms(1,2) prev c(2) within_c pr(2,3)])
      have p: "plan_ok (fw_env fw) p" "within_capacity (p_allocation p) cap"
        using s(2) by (simp_all add: run_result_def admissible_def StabilityValidator_def)
      let ?p = "p\<lparr>p_metadata := AList.update ''autoscaling''
          (case map_of (p_metadata pr) ''autoscaling'' of None \<Rightarrow> MValues [] | Some m \<Rightarrow> m) (p_metadata p)\<rparr>"
      show ?thesis
        by (rule result[of ?p _ ?x "Some md" gs'])
          (use False scaled c pr s(1) p in \<open>simp_all add: plan_existing_allocation_def Let_def plan_ok_def\<close>)
    qed
  qed
qed

lemma plan_one_step_ok:
  assumes "plan_one_step sf args fw wl ms obs i previous cap initial gs = Inr (window, planned, gs')"
    and "env_ok (fw_env fw)" "cap_ok cap" "cache_ok (fw_env fw) (gs_cache gs)" "plan_held fw cap previous"
    and "wf_alloc initial" "within_capacity initial cap"
  shows "plan_held fw cap (Some planned) \<and> cache_ok (fw_env fw) (gs_cache gs') \<and> lw_plan window = planned \<and>
    lw_apply_status window = None \<and>
    lw_reschedule_decision window = (case previous of None \<Rightarrow> ''initial''
      | Some p \<Rightarrow> if am_as_key (p_allocation planned) = am_as_key (p_allocation p) then ''hold_allocation_unchanged'' else ''scale_changed'')"
proof -
  obtain x validation guard where parts: "planned_parts args fw wl ms obs previous cap initial gs =
      Inr ((planned, lw_reschedule_decision window, x, validation), guard, gs')"
      and w: "lw_plan window = planned" "lw_apply_status window = None"
    using assms(1) by (auto simp: plan_one_step_def bind_result_eq_Inr split: prod.splits)
  have "plan_held fw cap (Some planned) \<and> cache_ok (fw_env fw) (gs_cache gs') \<and>
    lw_reschedule_decision window = (case previous of None \<Rightarrow> ''initial''
      | Some p \<Rightarrow> if am_as_key (p_allocation planned) = am_as_key (p_allocation p) then ''hold_allocation_unchanged'' else ''scale_changed'')"
  proof (cases previous)
    case None
    obtain p where p: "evaluate_allocation fw wl initial None = Inr p" "p_allocation p = initial" "plan_ok (fw_env fw) p"
      by (rule evaluate_allocation_ok[OF assms(2) _ assms(6), of None]) (simp add: previous_ok_def)
    have "plan_ok (fw_env fw) planned" "p_allocation planned = initial" "lw_reschedule_decision window = ''initial''" "gs' = gs"
      using parts None p by (auto simp: planned_parts_def Let_def plan_ok_def)
    then show ?thesis using None assms(4,7) by (simp add: plan_held_def)
  next
    case (Some prev)
    then have held: "plan_ok (fw_env fw) prev" "within_capacity (p_allocation prev) cap" using assms(5) by (simp_all add: plan_held_def)
    obtain allow waiting threshold where g: "scale_in_guard args wl ms = (allow, waiting, threshold)" by (cases "scale_in_guard args wl ms")
    obtain p decision x' validation' gs1 where e:
        "plan_existing_allocation fw wl prev cap allow (la_stability args) (ob_clock obs) gs = Inr ((p, decision, x', validation'), gs1)"
        "plan_ok (fw_env fw) p" "within_capacity (p_allocation p) cap" "cache_ok (fw_env fw) (gs_cache gs1)"
        "decision = (if am_as_key (p_allocation p) = am_as_key (p_allocation prev) then ''hold_allocation_unchanged'' else ''scale_changed'')"
      by (rule plan_existing_ok[OF assms(2-4) held])
    have "p = planned" "decision = lw_reschedule_decision window" "gs1 = gs'"
      using parts Some g e(1) by (auto simp: planned_parts_def)
    then show ?thesis using e(2-5) Some by (simp add: plan_held_def)
  qed
  then show ?thesis using w by simp
qed

section \<open>The invariant of the loop\<close>

definition applied_windows :: "live_window list \<Rightarrow> live_window list" where
  "applied_windows ws = filter (\<lambda>w. lw_apply_status w = Some ''applied'') ws"

definition scale_changes :: "live_window list \<Rightarrow> live_window list" where
  "scale_changes ws = filter (\<lambda>w. lw_reschedule_decision w = ''scale_changed'') ws"

text \<open>The plan in force: the last applied window carries the allocation of the held plan.\<close>

definition deployed :: "'s live_state \<Rightarrow> bool" where
  "deployed st \<longleftrightarrow> (\<forall>p. lv_previous st = Some p \<longrightarrow> applied_windows (lv_windows st) \<noteq> [] \<and>
     am_as_key (p_allocation (lw_plan (last (applied_windows (lv_windows st))))) = am_as_key (p_allocation p))"

text \<open>The last \<open>n\<close> windows all wanted a change.\<close>

definition wanted_change :: "int \<Rightarrow> live_window list \<Rightarrow> bool" where
  "wanted_change n ws \<longleftrightarrow> 0 \<le> n \<and> nat n \<le> length ws \<and> list_all (\<lambda>w. lw_reschedule_decision w = ''scale_changed'') (take (nat n) (rev ws))"

definition expected_state :: "plan option \<Rightarrow> (string \<times> string option) option" where
  "expected_state previous = Some (if previous = None then ''draining'' else ''serving'', None)"

definition live_inv :: "live_args \<Rightarrow> framework \<Rightarrow> capacity \<Rightarrow> int option \<Rightarrow> 's live_state \<Rightarrow> bool" where
  "live_inv args fw cap limit st \<longleftrightarrow> plan_held fw cap (lv_previous st) \<and> cache_ok (fw_env fw) (gs_cache (lv_gs st)) \<and>
     lv_scale_applies st = int (length (scale_changes (applied_windows (lv_windows st)))) \<and>
     (\<forall>m. limit = Some m \<longrightarrow> lv_scale_applies st \<le> m) \<and>
     (la_apply_runtime args \<longrightarrow> deployed st \<and>
        (la_drain_state_file args \<noteq> '''' \<longrightarrow> lv_runtime_state st = expected_state (lv_previous st))) \<and>
     wanted_change (lv_pending_count st) (lv_windows st)"

lemma windows_snoc [simp]:
  "applied_windows (ws @ [w]) = applied_windows ws @ (if lw_apply_status w = Some ''applied'' then [w] else [])"
  "scale_changes (ws @ vs) = scale_changes ws @ scale_changes vs"
  "scale_changes [w] = (if lw_reschedule_decision w = ''scale_changed'' then [w] else [])" "scale_changes [] = []"
  by (simp_all add: applied_windows_def scale_changes_def)

lemma wanted_change_0 [simp]: "wanted_change 0 ws"
  by (simp add: wanted_change_def)

lemma wanted_change_snoc:
  assumes "wanted_change n ws" "lw_reschedule_decision w = ''scale_changed''"
  shows "wanted_change (n + 1) (ws @ [w])" "wanted_change n (ws @ [w])" "wanted_change 1 (ws @ [w])"
proof -
  have "nat (n + 1) = Suc (nat n)" using assms(1) by (simp add: wanted_change_def nat_add_distrib)
  then show "wanted_change (n + 1) (ws @ [w])" using assms by (simp add: wanted_change_def)
  show "wanted_change n (ws @ [w])"
    using assms set_take_subset_set_take[of "nat n - 1" "nat n" "rev ws"]
    by (cases "nat n") (auto simp: wanted_change_def list_all_iff)
  show "wanted_change 1 (ws @ [w])" using assms(2) by (simp add: wanted_change_def)
qed

lemma mark_planned [simp]: "mark_last f (planned_state window gs st) = lv_windows st @ [f window]"
  by (simp add: mark_last_def planned_state_def Let_def)

text \<open>The parts of the invariant that planning a window keeps; only the held plan is still the old one.\<close>

lemma planned_keeps_inv:
  assumes "live_inv args fw cap limit st" "cache_ok (fw_env fw) (gs_cache gs')" "lw_apply_status window \<noteq> Some ''applied''"
  shows "live_inv args fw cap limit (planned_state window gs' st)"
  using assms wanted_change_snoc[of "lv_pending_count st" "lv_windows st" window]
  by (auto simp: live_inv_def planned_state_def deployed_def Let_def)

lemma skipped_keeps_inv:
  assumes inv: "live_inv args fw cap limit st" and gs: "cache_ok (fw_env fw) (gs_cache gs')"
    and w: "lw_apply_status window = None" and env: "env_ok (fw_env fw)" and run: "la_apply_runtime args"
    and skip: "skipped_round args fw wl window planned (planned_state window gs' st) st'"
  shows "live_inv args fw cap limit st'"
proof -
  let ?st = "planned_state window gs' st"
  have fields: "lv_previous ?st = lv_previous st" "lv_runtime_state ?st = lv_runtime_state st"
      "lv_windows ?st = lv_windows st @ [window]" "lv_scale_applies ?st = lv_scale_applies st" "lv_gs ?st = gs'"
    by (simp_all add: planned_state_def Let_def)
  obtain p q f sig n rs where r: "lv_previous ?st = Some p" "evaluate_existing_plan_for_workload fw wl p = Inr q" "skip_mark f"
      "rs = lv_runtime_state ?st \<or> rs = state_after args ''serving'' None ?st" "lw_reschedule_decision window = ''scale_changed''"
      "sig = lv_pending_signature ?st \<and> n = lv_pending_count ?st \<or>
       sig = Some (scale_confirmation_signature p planned) \<and> n = pending_after ?st (scale_confirmation_signature p planned)"
      "st' = ?st\<lparr>lv_windows := mark_last f ?st, lv_output := mark_last f ?st, lv_pending_signature := sig,
         lv_pending_count := n, lv_runtime_state := rs, lv_previous := Some q, lv_step := lv_step ?st + 1\<rparr>"
    using skip unfolding skipped_round_def by blast
  have s: "lv_previous st = Some p" "evaluate_existing_plan_for_workload fw wl p = Inr q" "skip_mark f"
      "rs = lv_runtime_state st \<or> rs = state_after args ''serving'' None st" "lw_reschedule_decision window = ''scale_changed''"
      "n = lv_pending_count st \<or> n = lv_pending_count st + 1 \<or> n = 1"
    using r(1-6) by (auto simp: fields pending_after_def state_after_def planned_state_def Let_def split: if_splits)
  have "plan_ok (fw_env fw) p" "within_capacity (p_allocation p) cap" using inv s(1) by (simp_all add: live_inv_def plan_held_def)
  then have q: "plan_ok (fw_env fw) q" "p_allocation q = p_allocation p"
    using existing_plan_ok[OF env, of p wl] s(2) by (metis sum.inject(2))+
  have mark: "lw_apply_status (f window) \<noteq> Some ''applied''" "lw_reschedule_decision (f window) = ''scale_changed''"
    using s(3,5) by (simp_all add: skip_mark_def)
  have want: "wanted_change n (lv_windows st @ [f window])"
    using s(6) wanted_change_snoc[of "lv_pending_count st" "lv_windows st" "f window"] inv mark(2) by (auto simp: live_inv_def)
  show ?thesis
    using inv want mark q s(1,4) gs run
    by (auto simp: live_inv_def r(7) fields deployed_def plan_held_def expected_state_def state_after_def)
qed

lemma applied_keeps_inv:
  assumes inv: "live_inv args fw cap limit st" and gs: "cache_ok (fw_env fw) (gs_cache gs')"
    and w: "lw_apply_status window = None" "lw_plan window = planned" "plan_held fw cap (Some planned)"
    and ap: "applied_round sf os args limit obs window planned (planned_state window gs' st) st'"
  shows "live_inv args fw cap limit st'"
proof -
  let ?st = "planned_state window gs' st" and ?change = "lw_reschedule_decision window = ''scale_changed''"
  let ?w = "window\<lparr>lw_apply_status := Some ''applied''\<rparr>"
  have fields: "lv_windows ?st = lv_windows st @ [window]" "lv_scale_applies ?st = lv_scale_applies st" "lv_gs ?st = gs'"
      "lv_pending_count ?st = (if ?change then lv_pending_count st else 0)"
    by (simp_all add: planned_state_def Let_def)
  obtain w' sig n where r: "if ?change then sig = None \<and> n = 0 else sig = lv_pending_signature ?st \<and> n = lv_pending_count ?st"
      "st' = ?st\<lparr>lv_world := w', lv_cooldown_until := ob_applied_time obs + apply_cooldown_s args,
            lv_runtime_state := state_after args ''serving'' None ?st, lv_windows := lv_windows st @ [?w], lv_output := lv_windows st @ [?w],
            lv_scale_applies := lv_scale_applies ?st + (if ?change then 1 else 0), lv_pending_signature := sig, lv_pending_count := n,
            lv_previous := Some planned, lv_step := lv_step ?st + 1\<rparr>"
    using ap unfolding applied_round_def Let_def mark_planned by blast
  have a: "?change \<Longrightarrow> limit = Some m \<Longrightarrow> lv_scale_applies st < m" for m
    using ap unfolding applied_round_def Let_def by (simp add: fields)
  have n: "n = 0" using r(1) by (simp add: fields split: if_splits)
  show ?thesis
    using inv a gs w
    by (auto simp: live_inv_def r(2) n fields deployed_def expected_state_def state_after_def)
qed

lemma step_keeps_inv:
  assumes inv: "live_inv args fw cap limit st" and step: "live_step sf os args fw cap initial limit obs st st'"
    and fw: "env_ok (fw_env fw)" "cap_ok cap" "wf_alloc initial" "within_capacity initial cap"
  shows "live_inv args fw cap limit st'"
  using step unfolding live_step_def
proof (elim disjE)
  assume "st' = st\<lparr>lv_step := lv_step st + 1\<rparr>"
  then show ?thesis using inv by (auto simp: live_inv_def deployed_def)
next
  assume "\<exists>wl p q. lv_previous st = Some p \<and> evaluate_existing_plan_for_workload fw wl p = Inr q \<and>
       st' = st\<lparr>lv_previous := Some q, lv_step := lv_step st + 1\<rparr>"
  then obtain wl p q where q: "lv_previous st = Some p" "evaluate_existing_plan_for_workload fw wl p = Inr q"
      "st' = st\<lparr>lv_previous := Some q, lv_step := lv_step st + 1\<rparr>" by blast
  have "plan_ok (fw_env fw) p" "within_capacity (p_allocation p) cap" using inv q(1) by (simp_all add: live_inv_def plan_held_def)
  then have "plan_ok (fw_env fw) q" "p_allocation q = p_allocation p"
    using existing_plan_ok[OF fw(1), of p wl] q(2) by (metis sum.inject(2))+
  then show ?thesis using inv q by (auto simp: live_inv_def deployed_def plan_held_def expected_state_def)
next
  assume "planned_round sf os args fw cap initial limit obs st st'"
  then obtain ms wl window planned gs' where
      p: "plan_one_step sf args fw wl ms obs (lv_step st) (lv_previous st) cap initial (lv_gs st) = Inr (window, planned, gs')"
      and run: "if should_apply_runtime args window
         then skipped_round args fw wl window planned (planned_state window gs' st) st' \<or>
              applied_round sf os args limit obs window planned (planned_state window gs' st) st'
         else st' = (planned_state window gs' st)\<lparr>lv_previous := Some planned, lv_step := lv_step st + 1\<rparr>"
    unfolding planned_round_def by blast
  have held: "plan_held fw cap (lv_previous st)" "cache_ok (fw_env fw) (gs_cache (lv_gs st))" using inv by (simp_all add: live_inv_def)
  note ok = plan_one_step_ok[OF p fw(1,2) held(2,1) fw(3,4)]
  show ?thesis
  proof (cases "should_apply_runtime args window")
    case True
    then show ?thesis
      using run skipped_keeps_inv[OF inv, of gs' window wl planned st'] applied_keeps_inv[OF inv, of gs' window planned sf os obs st'] ok fw(1)
      by (auto simp: should_apply_runtime_def)
  next
    case False
    then have st': "st' = (planned_state window gs' st)\<lparr>lv_previous := Some planned, lv_step := lv_step st + 1\<rparr>" using run by simp
    have same: "\<exists>p. lv_previous st = Some p \<and> am_as_key (p_allocation planned) = am_as_key (p_allocation p)" if "la_apply_runtime args"
      using False that ok by (auto simp: should_apply_runtime_def split: option.splits if_splits)
    show ?thesis
      using planned_keeps_inv[OF inv, of gs' window] ok same
      by (auto simp: live_inv_def st' deployed_def expected_state_def planned_state_def Let_def)
  qed
qed

section \<open>Runs of the loop\<close>

inductive live_reaches ::
  "(real \<Rightarrow> string) \<Rightarrow> (metrics \<Rightarrow> string) \<Rightarrow> 's os \<Rightarrow> live_args \<Rightarrow> framework \<Rightarrow> capacity \<Rightarrow> allocation \<Rightarrow> int option \<Rightarrow>
   's live_state \<Rightarrow> 's live_state \<Rightarrow> bool"
  for sf key os args fw cap initial limit st0 where
  start: "live_reaches sf key os args fw cap initial limit st0 st0"
| round: "live_reaches sf key os args fw cap initial limit st0 st \<Longrightarrow>
    live_round sf key os args fw cap initial limit obs st = (Inr None, st') \<Longrightarrow>
    live_reaches sf key os args fw cap initial limit st0 st'"

lemma parse_capacity_ok: "parse_capacity raw = Inr cap \<Longrightarrow> cap_ok cap"
  by (auto simp: parse_capacity_def Let_def cap_ok_def list_ex_iff split: if_splits)

lemma parse_initial_ok:
  assumes "parse_initial_allocation raw cap = Inr a"
  shows "wf_alloc a" "within_capacity a cap"
proof -
  obtain h where a: "a = foldl (\<lambda>a (w, n). am_set a w h n) (am_zeros (map fst cap)) (dict_comp WORKER_TYPES (\<lambda>w. dict_getd raw w 0))"
      "am_validate a cap = Inr ()"
    using assms by (auto simp: parse_initial_allocation_def Let_def bind_result_eq_Inr split: if_splits option.splits)
  have "wf_alloc (foldl (\<lambda>a (w, n). am_set a w h n) b ts)" if "wf_alloc b" "fst ` set ts \<subseteq> set WORKER_TYPES"
    for b and ts :: "(string \<times> int) list"
    using that by (induction ts arbitrary: b) (auto simp: split_def)
  then show wf: "wf_alloc a" unfolding a(1) by (simp add: keys_dict_comp)
  show "within_capacity a cap" using a(2) validate_wf[OF wf] by simp
qed

lemma max_scale_applies_nonneg: "max_scale_applies args = Inr (Some m) \<Longrightarrow> 0 \<le> m"
  by (auto simp: max_scale_applies_def Let_def bind_result_eq_Inr split: option.splits if_splits)

lemma live_start_ok:
  assumes "live_start args raw_capacity raw_initial gs w = Inr (cap, initial, limit, st)" "cache_ok (fw_env fw) (gs_cache gs)"
  shows "cap_ok cap" "wf_alloc initial" "within_capacity initial cap" "live_inv args fw cap limit st" "lv_world st = w"
proof -
  have s: "parse_capacity raw_capacity = Inr cap" "parse_initial_allocation raw_initial cap = Inr initial"
      "max_scale_applies args = Inr limit" "lv_world st = w" "lv_gs st = gs" "lv_previous st = None" "lv_windows st = []"
      "lv_pending_count st = 0" "lv_scale_applies st = 0"
      "la_apply_runtime args \<Longrightarrow> la_drain_state_file args \<noteq> '''' \<Longrightarrow> lv_runtime_state st = Some (''draining'', None)"
    using assms(1) by (auto simp: live_start_def bind_result_eq_Inr Let_def write_runtime_state_eq state_after_def)
  show "cap_ok cap" using parse_capacity_ok s(1) .
  show "wf_alloc initial" "within_capacity initial cap" using parse_initial_ok s(2) by blast+
  show "live_inv args fw cap limit st"
    using s(3-) assms(2) max_scale_applies_nonneg[of args]
    by (auto simp: live_inv_def plan_held_def deployed_def expected_state_def applied_windows_def)
  show "lv_world st = w" by fact
qed

lemma live_inv_metrics [simp]: "live_inv args fw cap limit (st\<lparr>lv_last_key := k, lv_shape := d\<rparr>) = live_inv args fw cap limit st"
  by (simp add: live_inv_def deployed_def)

lemma live_reaches_inv:
  assumes "live_reaches sf key os args fw cap initial limit st0 st" "live_inv args fw cap limit st0"
    and "env_ok (fw_env fw)" "cap_ok cap" "wf_alloc initial" "within_capacity initial cap"
  shows "live_inv args fw cap limit st"
  using assms(1)
proof (induction rule: live_reaches.induct)
  case start
  show ?case by fact
next
  case (round st obs st')
  then show ?case
    using live_round_continues[OF round.hyps(2)] step_keeps_inv[OF _ _ assms(3-6)] live_inv_metrics by blast
qed

text \<open>
  C20. The live autoscaler plans within its means. Start the loop on parsed arguments and a framework
  whose plan cache is sound. In every state it reaches, whatever the metrics, the clock, the draining and the
  servers did: the held plan passes \<open>validate\<close> for the capacity and its strategies fit its
  allocation; the number of scale changes is the number of windows applied as \<open>scale_changed\<close> and never exceeds
  \<open>--max-scale-applies\<close>; and when the runtime is applied, the allocation of the held plan is the
  allocation of the last window that was applied: the planner never believes in GPUs that were not deployed.
\<close>

theorem live_loop_safe:
  fixes w :: "'s world" and fw :: framework
  assumes "env_ok (fw_env fw)" "cache_ok (fw_env fw) (gs_cache gs)"
    and "live_start args raw_capacity raw_initial gs w = Inr (cap, initial, limit, st0)"
    and "live_reaches str_float key os args fw cap initial limit st0 st"
  shows "(\<forall>p. lv_previous st = Some p \<longrightarrow> am_validate (p_allocation p) cap = Inr () \<and>
      strategies_fit (ge_local (fw_env fw)) (p_allocation p) (p_parallelism p) \<and>
      (la_apply_runtime args \<longrightarrow> applied_windows (lv_windows st) \<noteq> [] \<and>
         am_as_key (p_allocation (lw_plan (last (applied_windows (lv_windows st))))) = am_as_key (p_allocation p))) \<and>
    lv_scale_applies st = int (length (scale_changes (applied_windows (lv_windows st)))) \<and>
    (\<forall>m. limit = Some m \<longrightarrow> lv_scale_applies st \<le> m)"
proof -
  note start = live_start_ok[OF assms(3,2)]
  have inv: "live_inv args fw cap limit st" by (rule live_reaches_inv[OF assms(4) start(4) assms(1) start(1-3)])
  then show ?thesis by (auto simp: live_inv_def plan_held_def plan_ok_def validate_wf deployed_def)
qed


section \<open>Changes are confirmed\<close>

lemma wanted_change_mono: "wanted_change n ws \<Longrightarrow> 0 \<le> m \<Longrightarrow> m \<le> n \<Longrightarrow> wanted_change m ws"
  using set_take_subset_set_take[of "nat m" "nat n" "rev ws"] nat_mono[of m n] by (auto simp: wanted_change_def list_all_iff)

text \<open>What a round has to show for a scale change.\<close>

definition justified_change :: "live_args \<Rightarrow> int option \<Rightarrow> observation \<Rightarrow> 's live_state \<Rightarrow> 's live_state \<Rightarrow> bool" where
  "justified_change args limit obs st st' \<longleftrightarrow> lv_scale_applies st' = lv_scale_applies st + 1 \<and>
     (\<forall>m. limit = Some m \<longrightarrow> lv_scale_applies st' \<le> m) \<and> lv_cooldown_until st \<le> ob_check_time obs \<and>
     lv_cooldown_until st' = ob_applied_time obs + apply_cooldown_s args \<and> drain_polls (drain_readings args obs) = Inr True \<and>
     wanted_change (max 1 (la_scale_confirmations args)) (lv_windows st') \<and>
     lw_apply_status (last (lv_windows st')) = Some ''applied''"

lemma step_change_justified:
  assumes inv: "live_inv args fw cap limit st" and step: "live_step sf os args fw cap initial limit obs st st'"
    and fw: "env_ok (fw_env fw)" "cap_ok cap" "wf_alloc initial" "within_capacity initial cap"
    and change: "lv_scale_applies st' \<noteq> lv_scale_applies st"
  shows "justified_change args limit obs st st'"
proof -
  have "planned_round sf os args fw cap initial limit obs st st'" using step change unfolding live_step_def by auto
  then obtain ms wl window planned gs' where
      p: "plan_one_step sf args fw wl ms obs (lv_step st) (lv_previous st) cap initial (lv_gs st) = Inr (window, planned, gs')"
      and cool: "\<not> (lv_previous st \<noteq> None \<and> ob_check_time obs < lv_cooldown_until st)"
      and run: "if should_apply_runtime args window
         then skipped_round args fw wl window planned (planned_state window gs' st) st' \<or>
              applied_round sf os args limit obs window planned (planned_state window gs' st) st'
         else st' = (planned_state window gs' st)\<lparr>lv_previous := Some planned, lv_step := lv_step st + 1\<rparr>"
    unfolding planned_round_def by blast
  let ?st = "planned_state window gs' st"
  have fields: "lv_scale_applies ?st = lv_scale_applies st" "lv_previous ?st = lv_previous st"
      "lw_reschedule_decision window = ''scale_changed'' \<Longrightarrow> lv_pending_count ?st = lv_pending_count st"
    by (simp_all add: planned_state_def Let_def)
  have held: "plan_held fw cap (lv_previous st)" "cache_ok (fw_env fw) (gs_cache (lv_gs st))" using inv by (simp_all add: live_inv_def)
  note ok = plan_one_step_ok[OF p fw(1,2) held(2,1) fw(3,4)]
  have ap: "applied_round sf os args limit obs window planned ?st st'"
    using run change by (auto simp: skipped_round_def fields split: if_splits)
  then obtain w' sig n where st': "st' = ?st\<lparr>lv_world := w', lv_cooldown_until := ob_applied_time obs + apply_cooldown_s args,
            lv_runtime_state := state_after args ''serving'' None ?st,
            lv_windows := lv_windows st @ [window\<lparr>lw_apply_status := Some ''applied''\<rparr>],
            lv_output := lv_windows st @ [window\<lparr>lw_apply_status := Some ''applied''\<rparr>],
            lv_scale_applies := lv_scale_applies ?st + (if lw_reschedule_decision window = ''scale_changed'' then 1 else 0),
            lv_pending_signature := sig, lv_pending_count := n, lv_previous := Some planned, lv_step := lv_step ?st + 1\<rparr>"
    unfolding applied_round_def Let_def mark_planned by blast
  then have d: "lw_reschedule_decision window = ''scale_changed''" using change by (auto simp: fields split: if_splits)
  have prev: "lv_previous st \<noteq> None" using ok d by (auto split: option.splits)
  have a: "drain_polls (drain_readings args obs) = Inr True" "\<forall>m. limit = Some m \<longrightarrow> lv_scale_applies st < m"
      "1 < la_scale_confirmations args \<Longrightarrow> la_scale_confirmations args \<le> lv_pending_count st + 1"
    using ap d inv unfolding applied_round_def Let_def
    by (auto simp: fields pending_after_def live_inv_def wanted_change_def split: if_splits)
  let ?ws = "lv_windows st @ [window\<lparr>lw_apply_status := Some ''applied''\<rparr>]"
  have "wanted_change (lv_pending_count st + 1) ?ws" "wanted_change 1 ?ws"
    using wanted_change_snoc[of "lv_pending_count st" "lv_windows st"] inv d by (simp_all add: live_inv_def)
  then have "wanted_change (max 1 (la_scale_confirmations args)) ?ws"
    using a(3) by (cases "1 < la_scale_confirmations args") (auto intro: wanted_change_mono simp: max_def)
  then show ?thesis
    using a(1,2) cool prev d by (auto simp: justified_change_def st' fields)
qed


section \<open>The processes of the runtime\<close>

lemma step_keeps_recorded:
  assumes "process_table os managed" "live_step sf os args fw cap initial limit obs st st'"
    and "managed (w_os (lv_world st)) \<subseteq> pids_of (entries_at (w_files (lv_world st)) (la_runtime_pid_file args))"
  shows "managed (w_os (lv_world st')) \<subseteq> pids_of (entries_at (w_files (lv_world st')) (la_runtime_pid_file args))"
proof (cases "lv_world st' = lv_world st")
  case False
  then have "planned_round sf os args fw cap initial limit obs st st'" using assms(2) unfolding live_step_def by auto
  then obtain wl window planned gs' where
      run: "if should_apply_runtime args window
         then skipped_round args fw wl window planned (planned_state window gs' st) st' \<or>
              applied_round sf os args limit obs window planned (planned_state window gs' st) st'
         else st' = (planned_state window gs' st)\<lparr>lv_previous := Some planned, lv_step := lv_step st + 1\<rparr>"
    unfolding planned_round_def by blast
  let ?st = "planned_state window gs' st"
  have world: "lv_world ?st = lv_world st" by (simp add: planned_state_def Let_def)
  have "applied_round sf os args limit obs window planned ?st st'"
    using run False by (auto simp: skipped_round_def world split: if_splits)
  then have "apply_runtime_window sf os (apply_options_of args window) (lv_world st) = (Inr 0, lv_world st')"
    unfolding applied_round_def Let_def by (auto simp: world)
  then have "\<exists>kept launched d. pd_processes d = Entries (kept @ launched) \<and> process_table.bounded managed (pids_of (kept @ launched))
      ((w_files (lv_world st))(la_runtime_pid_file args := Some (Json_object d))) (lv_world st')"
    using outcomeD(1)[OF process_table.apply_records[OF assms(1), of "w_files (lv_world st)" "apply_options_of args window" sf],
        of "lv_world st" 0 "lv_world st'"] assms(3)
    by (auto simp: process_table.bounded_def[OF assms(1)] apply_options_of_def)
  then show ?thesis by (auto simp: process_table.bounded_def[OF assms(1)] entries_at_def)
qed (use assms(3) in simp)

text \<open>
  C23. The autoscaler does not lose processes. On a system with the laws of \<open>process_table\<close>, if all running
  processes of the runtime are in the pid file at the start, they are in every state the loop
  reaches: through any number of deployments, skipped changes, drains and re-evaluations.
\<close>

theorem live_runtime_recorded:
  fixes os :: "'s os" and w :: "'s world"
  assumes "process_table os managed"
    and "live_start args raw_capacity raw_initial gs w = Inr (cap, initial, limit, st0)"
    and "managed (w_os w) \<subseteq> pids_of (entries_at (w_files w) (la_runtime_pid_file args))"
    and "live_reaches str_float key os args fw cap initial limit st0 st"
  shows "managed (w_os (lv_world st)) \<subseteq> pids_of (entries_at (w_files (lv_world st)) (la_runtime_pid_file args))"
  using assms(4)
proof (induction rule: live_reaches.induct)
  case start
  have "lv_world st0 = w" using assms(2) by (auto simp: live_start_def bind_result_eq_Inr Let_def write_runtime_state_eq)
  then show ?case using assms(3) by simp
next
  case (round st obs st')
  obtain k d where "live_step str_float os args fw cap initial limit obs (st\<lparr>lv_last_key := k, lv_shape := d\<rparr>) st'"
    using live_round_continues[OF round.hyps(2)] by blast
  from step_keeps_recorded[OF assms(1) this] round.IH show ?case by simp
qed

section \<open>Witnesses\<close>

text \<open>A concrete start, with six GPUs and three in the initial allocation, and a round that waits for the arrival rate.\<close>

definition sample_live_args :: live_args where
  "sample_live_args = \<lparr>la_metrics_dir = None, la_poll_interval_s = 30, la_min_arrival_rate = 2, la_workload_shape_max_age_s = 300,
     la_deployment = sample_args, la_stability = \<lparr>sc_max_rounds = 3, sc_max_candidates = 16, sc_timeout_s = 5\<rparr>,
     la_scale_in_backlog_threshold = None, la_gpu_ids = None, la_output = ''plan'', la_apply_runtime = True, la_runtime_cwd = None,
     la_runtime_log_dir = ''logs'', la_runtime_pid_file = ''pids'', la_cleanup_stale_runtime = False, la_lb_host = ''h'',
     la_lb_port = 30000, la_drain_state_file = ''state'', la_drain_wait_timeout_s = 600, la_runtime_startup_wait_s = 2,
     la_apply_cooldown_s = 20, la_scale_confirmations = 2, la_max_scale_applies = Some ''off''\<rparr>"

definition sample_observation :: observation where
  "sample_observation = \<lparr>ob_initial_time = 0, ob_directory = [], ob_observed_at = 0, ob_check_time = 0,
     ob_window_time = 0, ob_elapsed_s = 0, ob_clock = (\<lambda>i. 0), ob_drain_polls = [], ob_ready_rounds = [], ob_applied_time = 0\<rparr>"

lemma sample_live_start:
  "\<exists>initial st0. live_start sample_live_args [(''NVDA:H20'', 6)] [(''pre'', 1), (''attn'', 1), (''ffn'', 1)] sample_gs w =
     Inr ([(''NVDA:H20'', 6)], initial, Some 0, st0) \<and> lv_previous st0 = None \<and> lv_scale_applies st0 = 0 \<and> lv_world st0 = w"
proof -
  have cap: "parse_capacity [(''NVDA:H20'', 6)] = Inr [(''NVDA:H20'', 6)]" by code_simp
  have "\<exists>a. parse_initial_allocation [(''pre'', 1), (''attn'', 1), (''ffn'', 1)] [(''NVDA:H20'', 6)] = Inr a"
  proof -
    have "(case parse_initial_allocation [(''pre'', 1), (''attn'', 1), (''ffn'', 1)] [(''NVDA:H20'', 6)] of Inl _ \<Rightarrow> False | Inr _ \<Rightarrow> True)"
      by code_simp
    then show ?thesis by (auto split: sum.splits)
  qed
  moreover have "max_scale_applies sample_live_args = Inr (Some 0)" by code_simp
  ultimately show ?thesis using cap by (auto simp: live_start_def Let_def write_runtime_state_eq)
qed

lemma sample_live_round:
  assumes "lv_previous st = None"
  shows "\<exists>st'. live_round sf key os sample_live_args fw cap initial limit sample_observation st = (Inr None, st') \<and>
    lv_previous st' = None \<and> lv_step st' = lv_step st + 1"
proof -
  have wl: "workload_from_metrics 300 (initial_runtime_metrics 0) 0 None =
      (Inr \<lparr>arrival_rate = 1, input_lengths = [2048], output_lengths = [512], max_batch_size = 8\<rparr>, None)"
    by (simp add: workload_from_metrics_def initial_runtime_metrics_def INITIAL_METRICS_def first_float_def py_float_def input_keys_def
        output_keys_def arrival_keys_def running_keys_def current_or_cached_shape_metric_def stable_output_shape_metric_def
        cached_shape_metric_def remember_shape_def finished_output_tokens_def running_output_tokens_def io_bind_def Let_def
        WorkloadProfile_def py_round_def)
  show ?thesis
    using assms wl
    by (simp add: live_round_def round_metrics_def round_workload_def plan_and_apply_def next_round_eq io_bind_def sample_live_args_def
        sample_observation_def)
qed

lemma sample_env: "env_ok (fw_env sample_framework)" "cache_ok (fw_env sample_framework) (gs_cache sample_gs)"
  by (simp_all add: sample_framework_def HexGenSchedulingFramework_def env_ok_def cache_ok_def sample_gs_def)

definition sample_initial :: "(string, int) dict" where
  "sample_initial = [(''pre'', 1), (''attn'', 1), (''ffn'', 1)]"

lemma sample_run_obtain:
  fixes w :: "'s world"
  obtains initial st0 st1 where
    "live_start sample_live_args [(''NVDA:H20'', 6)] sample_initial sample_gs w = Inr ([(''NVDA:H20'', 6)], initial, Some 0, st0)"
    "live_reaches sf key os sample_live_args fw [(''NVDA:H20'', 6)] initial (Some 0) st0 st0"
    "live_reaches sf key os sample_live_args fw [(''NVDA:H20'', 6)] initial (Some 0) st0 st1"
    "live_round sf key os sample_live_args fw [(''NVDA:H20'', 6)] initial (Some 0) sample_observation st0 = (Inr None, st1)"
    "lv_step st1 = lv_step st0 + 1" "lv_previous st1 = None"
proof -
  obtain initial st0 where s: "live_start sample_live_args [(''NVDA:H20'', 6)] sample_initial sample_gs w =
      Inr ([(''NVDA:H20'', 6)], initial, Some 0, st0)" "lv_previous st0 = None"
    using sample_live_start[of w] unfolding sample_initial_def by blast
  obtain st1 where r: "live_round sf key os sample_live_args fw [(''NVDA:H20'', 6)] initial (Some 0) sample_observation st0 =
      (Inr None, st1)" "lv_previous st1 = None" "lv_step st1 = lv_step st0 + 1"
    using sample_live_round[OF s(2)] by blast
  show ?thesis by (rule that[OF s(1) live_reaches.start live_reaches.round[OF live_reaches.start r(1)] r(1,3,2)])
qed

theorem live_loop_safe_witness:
  "\<exists>initial st0 st. live_start sample_live_args [(''NVDA:H20'', 6)] sample_initial sample_gs (sample_world [] []) =
      Inr ([(''NVDA:H20'', 6)], initial, Some 0, st0) \<and>
    live_reaches (\<lambda>_. ''1'') (\<lambda>_. ''k'') unix_os sample_live_args sample_framework [(''NVDA:H20'', 6)] initial (Some 0) st0 st \<and>
    lv_step st = lv_step st0 + 1 \<and> lv_scale_applies st = int (length (scale_changes (applied_windows (lv_windows st)))) \<and>
    lv_scale_applies st \<le> 0"
proof -
  obtain initial st0 st where run:
      "live_start sample_live_args [(''NVDA:H20'', 6)] sample_initial sample_gs (sample_world [] []) =
        Inr ([(''NVDA:H20'', 6)], initial, Some 0, st0)"
      "live_reaches (\<lambda>_. ''1'') (\<lambda>_. ''k'') unix_os sample_live_args sample_framework [(''NVDA:H20'', 6)] initial (Some 0) st0 st"
      "lv_step st = lv_step st0 + 1" by (rule sample_run_obtain)
  show ?thesis using run live_loop_safe[OF sample_env run(1,2)] by blast
qed



theorem live_runtime_recorded_witness:
  "\<exists>initial st0 st. live_start sample_live_args [(''NVDA:H20'', 6)] sample_initial sample_gs (sample_world [] []) =
      Inr ([(''NVDA:H20'', 6)], initial, Some 0, st0) \<and>
    live_reaches (\<lambda>_. ''1'') (\<lambda>_. ''k'') unix_os sample_live_args sample_framework [(''NVDA:H20'', 6)] initial (Some 0) st0 st \<and>
    lv_step st = lv_step st0 + 1 \<and> ux_managed (w_os (lv_world st)) \<subseteq> pids_of (entries_at (w_files (lv_world st)) ''pids'')"
proof -
  obtain initial st0 st where run:
      "live_start sample_live_args [(''NVDA:H20'', 6)] sample_initial sample_gs (sample_world [] []) =
        Inr ([(''NVDA:H20'', 6)], initial, Some 0, st0)"
      "live_reaches (\<lambda>_. ''1'') (\<lambda>_. ''k'') unix_os sample_live_args sample_framework [(''NVDA:H20'', 6)] initial (Some 0) st0 st"
      "lv_step st = lv_step st0 + 1" by (rule sample_run_obtain)
  have "ux_managed (w_os (sample_world [] [])) \<subseteq>
      pids_of (entries_at (w_files (sample_world [] [])) (la_runtime_pid_file sample_live_args))"
    by (simp add: sample_world_def ux_managed_def)
  from live_runtime_recorded[OF unix.process_table_axioms run(1) this run(2)] show ?thesis
    using run by (auto simp: sample_live_args_def)
qed

end
