(* ===== verification/Placement_Search.thy ===== *)
theory Placement_Search
  imports Cluster_Config "HOL-Library.Log_Nat"
begin

text \<open>
  The placement planner of the simulator, \<open>scheduler/simulator/core/placement.py\<close>: it splits
  physical nodes into replicas of the served models, either with as many replicas as possible,
  or in proportion to the load, or by simulating every distribution of the nodes over the
  workloads and keeping the best.

  An arrival process is what the planner uses of it: its rate, and the times it generates for a
  start and a duration together with the state in which it leaves \<open>numpy.random\<close> (it seeds the
  generator itself). \<open>numpy.random.normal\<close> and \<open>uniform\<close>, \<open>AutoConfig\<close> and \<open>md5\<close> are
  parameters, in the record \<open>planner_env\<close>. The simulations use round robin, which draws nothing
  from \<open>random\<close>, so each starts from the same generator. Log output is not modelled.

  The lemmas show that a plan never uses more GPUs than a physical node has, that the search
  enumerates every distribution exactly once, and that it returns the best candidate.
\<close>

section \<open>Data\<close>

record physical_node =
  pn_gpu_type :: string
  pn_count :: int
  pn_gpus_per_node :: int
  pn_cost :: real

type_synonym length_dist = "string \<times> real list"

record workload_config =
  wc_model_id :: string
  wc_rate :: real
  wc_generate_arrivals :: "real \<Rightarrow> real \<Rightarrow> real list \<times> rng"
  wc_duration :: real
  wc_input_dist :: length_dist
  wc_output_dist :: length_dist
  wc_tensor_parallel_size :: "int option"

record planner_env =
  pe_auto_config :: "string \<Rightarrow> model_params option"
  pe_md5 :: "string \<Rightarrow> nat"
  pe_normal :: "real \<Rightarrow> real \<Rightarrow> rng \<Rightarrow> real \<times> rng"
  pe_uniform :: "real \<Rightarrow> real \<Rightarrow> rng \<Rightarrow> real \<times> rng"
  pe_rng :: rng
  pe_np_random :: rng

text \<open>An entry of the metadata of the search.\<close>

record candidate_info =
  ci_candidate_id :: nat
  ci_throughput :: real
  ci_hourly_cost :: real
  ci_assignment :: "(string \<times> string \<times> int \<times> int) list"

datatype placement_meta =
    NoWorkloads string
  | MaximizeMeta "(string, int) dict" real
  | BalancedMeta "(string, real) dict" "(string, real) dict" "(string, int) dict" real
  | SearchMeta real "candidate_info list"

type_synonym placement_result = "node_configuration list \<times> placement_meta"

section \<open>Memory checks\<close>

definition has_config_module :: "string \<Rightarrow> bool" where
  "has_config_module model_id \<longleftrightarrow> py_contains ''llama'' (py_lower model_id) \<or> py_contains ''Llama'' model_id"

definition footprint :: "planner_env \<Rightarrow> string \<Rightarrow> string \<Rightarrow> int \<Rightarrow> real result" where
  "footprint env model_id hardware tp =
     bind_result (analyze (load_model_params (pe_auto_config env) model_id) hardware
        \<lparr>aa_seqlen = 1, aa_batchsize = 1, aa_w_bit = 16, aa_a_bit = 16, aa_kv_bit = None, aa_tp_size = tp,
         aa_disable_attention = False, aa_disable_ffn = False\<rparr>) (\<lambda>r.
       case map_of (an_total_prefill r) ''memory_consumption'' of
         None \<Rightarrow> Inl (KeyError ''memory_consumption'') | Some m \<Rightarrow> Inr m)"

definition estimate_model_memory :: "planner_env \<Rightarrow> string \<Rightarrow> real" where
  "estimate_model_memory env model_id =
     (if \<not> has_config_module model_id then 0
      else case footprint env model_id ''NVDA:A100'' 1 of Inl e \<Rightarrow> 0 | Inr m \<Rightarrow> m)"

definition check_fits :: "planner_env \<Rightarrow> real \<Rightarrow> string \<Rightarrow> string \<Rightarrow> int \<Rightarrow> bool" where
  "check_fits env threshold hardware model_id tp =
     (if \<not> has_config_module model_id then False
      else case footprint env model_id hardware tp of Inl e \<Rightarrow> False
           | Inr needed \<Rightarrow> case map_of hardware_params hardware of None \<Rightarrow> False
               | Some hw \<Rightarrow> needed < hw_vmemory hw * threshold)"

text \<open>
  The loop over the powers of two. \<open>math.log2\<close> raises for a non-positive argument, which the
  handler turns into 1.
\<close>

fun try_tp_sizes :: "(int \<Rightarrow> bool) \<Rightarrow> int \<Rightarrow> int list \<Rightarrow> int" where
  "try_tp_sizes fits max_tp [] = max_tp + 1"
| "try_tp_sizes fits max_tp (tp # tps) =
     (if max_tp < tp then max_tp + 1 else if fits tp then tp else try_tp_sizes fits max_tp tps)"

definition find_min_tp_size :: "planner_env \<Rightarrow> real \<Rightarrow> string \<Rightarrow> string \<Rightarrow> int \<Rightarrow> int" where
  "find_min_tp_size env threshold hardware model_id max_tp =
     (if max_tp \<le> 0 then 1
      else try_tp_sizes (check_fits env threshold hardware model_id) max_tp
             (map (\<lambda>i. 2 ^ i) [0..<floorlog 2 (nat max_tp)]))"

definition min_tp_for :: "planner_env \<Rightarrow> real \<Rightarrow> string \<Rightarrow> int \<Rightarrow> workload_config \<Rightarrow> int" where
  "min_tp_for env threshold gpu_type gpus_per_node wl =
     (case wc_tensor_parallel_size wl of Some tp \<Rightarrow> tp
      | None \<Rightarrow> find_min_tp_size env threshold gpu_type (wc_model_id wl) gpus_per_node)"

definition compatible_workloads ::
    "planner_env \<Rightarrow> real \<Rightarrow> workload_config list \<Rightarrow> physical_node \<Rightarrow> (workload_config \<times> int) list" where
  "compatible_workloads env threshold wls p =
     filter (\<lambda>(wl, tp). tp \<le> pn_gpus_per_node p)
       (map (\<lambda>wl. (wl, min_tp_for env threshold (pn_gpu_type p) (pn_gpus_per_node p) wl)) wls)"

section \<open>Splitting nodes\<close>

record placing =
  pl_nodes :: "node_configuration list"
  pl_counter :: nat
  pl_cost :: real
  pl_counts :: "(string, int) dict"

definition individual_nodes :: "physical_node list \<Rightarrow> physical_node list" where
  "individual_nodes ps = concat (map (\<lambda>p. replicate (nat (pn_count p)) (p\<lparr>pn_count := 1\<rparr>)) ps)"

definition node_vmemory :: "physical_node \<Rightarrow> (real \<times> physical_node) result" where
  "node_vmemory p = (case map_of hardware_params (pn_gpu_type p) of
     None \<Rightarrow> Inl (KeyError (pn_gpu_type p)) | Some hw \<Rightarrow> Inr (hw_vmemory hw, p))"

definition sort_nodes :: "bool \<Rightarrow> physical_node list \<Rightarrow> physical_node list result" where
  "sort_nodes descending ps =
     bind_result (map_result node_vmemory ps) (\<lambda>ks.
       Inr (map snd (sort_key (\<lambda>(v, p). if descending then - v else v) ks)))"

definition node_name :: "nat \<Rightarrow> string" where
  "node_name n = ''node_'' @ show_nat n"

definition replica_node :: "nat \<Rightarrow> string \<Rightarrow> string \<Rightarrow> int \<Rightarrow> node_configuration" where
  "replica_node n model_id gpu_type tp =
     (NodeConfiguration (node_name n) model_id gpu_type)\<lparr>nc_parallel_config := tp_config tp\<rparr>"

text \<open>The replicas of one physical node; \<open>range\<close> of a negative number is empty.\<close>

definition place_replicas ::
    "string \<Rightarrow> int \<Rightarrow> string \<Rightarrow> int \<Rightarrow> node_configuration list \<times> nat \<Rightarrow> (node_configuration list \<times> nat) result" where
  "place_replicas gpu_type gpus model_id tp st =
     (case st of (nodes, counter) \<Rightarrow>
        if tp = 0 then Inl ZeroDivisionError
        else let replicas = nat (gpus div tp)
             in Inr (nodes @ map (\<lambda>r. replica_node (counter + r) model_id gpu_type tp) [0..<replicas], counter + replicas))"

definition assign_node ::
    "physical_node \<Rightarrow> workload_config \<times> int \<Rightarrow> int \<Rightarrow> placing \<Rightarrow> placing result" where
  "assign_node p choice amount st =
     (case choice of (wl, tp) \<Rightarrow>
        bind_result (place_replicas (pn_gpu_type p) (pn_gpus_per_node p) (wc_model_id wl) tp (pl_nodes st, pl_counter st))
          (\<lambda>(nodes, counter).
            Inr \<lparr>pl_nodes = nodes, pl_counter = counter, pl_cost = pl_cost st + pn_cost p,
                 pl_counts = AList.update (wc_model_id wl)
                   (dict_getd (pl_counts st) (wc_model_id wl) 0 + amount) (pl_counts st)\<rparr>))"

section \<open>Maximise the number of replicas\<close>

definition maximize_step ::
    "planner_env \<Rightarrow> real \<Rightarrow> workload_config list \<Rightarrow> placing \<Rightarrow> physical_node \<Rightarrow> placing result" where
  "maximize_step env threshold wls st p =
     (case compatible_workloads env threshold wls p of
        [] \<Rightarrow> Inr st
      | c # cs \<Rightarrow>
          let best = min_key_from (\<lambda>x. dict_getd (pl_counts st) (wc_model_id (fst x)) 0) c cs
          in assign_node p best (pn_gpus_per_node p div snd best) st)"

definition initial_placing :: "workload_config list \<Rightarrow> placing" where
  "initial_placing wls = \<lparr>pl_nodes = [], pl_counter = 0, pl_cost = 0,
     pl_counts = dict_comp (map wc_model_id wls) (\<lambda>_. 0)\<rparr>"

definition maximize_replicas ::
    "planner_env \<Rightarrow> real \<Rightarrow> physical_node list \<Rightarrow> workload_config list \<Rightarrow> placement_result result" where
  "maximize_replicas env threshold ps wls =
     (if wls = [] then Inr ([], NoWorkloads ''maximize_replicas'')
      else bind_result (sort_nodes False (individual_nodes ps)) (\<lambda>nodes.
        let estimates = dict_comp (map wc_model_id wls) (estimate_model_memory env);
            sorted_workloads = sort_key (\<lambda>w. - dict_getd estimates (wc_model_id w) 0) wls
        in bind_result (fold_result (maximize_step env threshold sorted_workloads) (initial_placing wls) nodes)
             (\<lambda>st. Inr (pl_nodes st, MaximizeMeta (pl_counts st) (pl_cost st)))))"

section \<open>Balance by load\<close>

definition list_index :: "'a list \<Rightarrow> nat \<Rightarrow> 'a result" where
  "list_index xs i = (if i < length xs then Inr (xs ! i) else Inl IndexError)"

definition get_mean_from_dist :: "length_dist \<Rightarrow> real result" where
  "get_mean_from_dist d =
     (case d of (dist_type, params) \<Rightarrow>
        if dist_type = ''Poisson'' then list_index params 0
        else if dist_type = ''Normal'' then list_index params 0
        else if dist_type = ''Uniform'' then
          bind_result (list_index params 0) (\<lambda>lo. bind_result (list_index params 1) (\<lambda>hi. Inr ((lo + hi) / 2)))
        else if dist_type = ''Constant'' then list_index params 0
        else Inr 100)"

definition load_score_step ::
    "(string, real) dict \<times> real \<Rightarrow> workload_config \<Rightarrow> ((string, real) dict \<times> real) result" where
  "load_score_step st wl =
     (case st of (scores, total_load) \<Rightarrow>
        bind_result (get_mean_from_dist (wc_input_dist wl)) (\<lambda>avg_input.
        bind_result (get_mean_from_dist (wc_output_dist wl)) (\<lambda>avg_output.
          let load_score = wc_rate wl * (avg_input + avg_output)
          in Inr (AList.update (wc_model_id wl) load_score scores, total_load + load_score))))"

definition target_replicas ::
    "(string, real) dict \<Rightarrow> real \<Rightarrow> nat \<Rightarrow> workload_config list \<Rightarrow> (string, real) dict" where
  "target_replicas scores total_load total_nodes wls =
     dict_comp (map wc_model_id wls) (\<lambda>m.
       if 0 < total_load then dict_getd scores m 0 / total_load * of_nat total_nodes
       else of_nat total_nodes / of_nat (length wls))"

definition saturation_ratio :: "(string, real) dict \<Rightarrow> (string, int) dict \<Rightarrow> string \<Rightarrow> xreal" where
  "saturation_ratio targets current model_id =
     (let target = dict_getd targets model_id 0 in
      if target = 0 then PosInf else Fin (of_int (dict_getd current model_id 0) / target))"

definition balanced_step ::
    "planner_env \<Rightarrow> real \<Rightarrow> (string, real) dict \<Rightarrow> workload_config list \<Rightarrow> placing \<Rightarrow> physical_node \<Rightarrow> placing result" where
  "balanced_step env threshold targets wls st p =
     (case compatible_workloads env threshold wls p of
        [] \<Rightarrow> Inr st
      | c # cs \<Rightarrow>
          assign_node p (min_key_from (\<lambda>x. saturation_ratio targets (pl_counts st) (wc_model_id (fst x))) c cs) 1 st)"

definition workload_balanced ::
    "planner_env \<Rightarrow> real \<Rightarrow> physical_node list \<Rightarrow> workload_config list \<Rightarrow> placement_result result" where
  "workload_balanced env threshold ps wls =
     (if wls = [] then Inr ([], NoWorkloads ''workload_balanced'')
      else bind_result (fold_result load_score_step ([], 0) wls) (\<lambda>(scores, total_load).
        bind_result (sort_nodes True (individual_nodes ps)) (\<lambda>nodes.
          let targets = target_replicas scores total_load (length nodes) wls
          in bind_result (fold_result (balanced_step env threshold targets wls) (initial_placing wls) nodes)
               (\<lambda>st. Inr (pl_nodes st, BalancedMeta scores targets (pl_counts st) (pl_cost st))))))"


section \<open>Simulated candidates\<close>

text \<open>\<open>SimClusterManager\<close>: a cluster manager whose arrivals come from all workloads.\<close>

definition sample_length :: "planner_env \<Rightarrow> length_dist \<Rightarrow> rng \<Rightarrow> (int \<times> rng) result" where
  "sample_length env d g =
     (case d of (dtype, params) \<Rightarrow>
        if dtype = ''Normal'' then
          bind_result (list_index params 0) (\<lambda>p0. bind_result (list_index params 1) (\<lambda>p1.
            case pe_normal env p0 p1 g of (x, g') \<Rightarrow> Inr (max 1 (py_int x), g')))
        else if dtype = ''Uniform'' then
          bind_result (list_index params 0) (\<lambda>p0. bind_result (list_index params 1) (\<lambda>p1.
            case pe_uniform env p0 p1 g of (x, g') \<Rightarrow> Inr (max 1 (py_int x), g')))
        else if dtype = ''Constant'' then bind_result (list_index params 0) (\<lambda>p0. Inr (py_int p0, g))
        else Inr (100, g))"

definition schedule_sim_arrival ::
    "planner_env \<Rightarrow> workload_config \<Rightarrow> sim_loop \<times> cluster \<Rightarrow> real \<Rightarrow> (sim_loop \<times> cluster) result" where
  "schedule_sim_arrival env wl s t = (case s of (el, cl) \<Rightarrow>
     let n = request_counter cl + 1
     in bind_result (sample_length env (wc_input_dist wl) (cm_np_random cl)) (\<lambda>(inp, g1).
        bind_result (sample_length env (wc_output_dist wl) g1) (\<lambda>(out, g2).
        bind_result (schedule_event el (mk_event t REQUEST_ARRIVAL ''cluster_manager''
            (ArrivalData (request_name n) (wc_model_id wl) inp out) MEDIUM)) (\<lambda>el1.
          Inr (el1, cl\<lparr>request_counter := n, cm_np_random := g2\<rparr>)))))"

definition schedule_sim_arrivals ::
    "planner_env \<Rightarrow> workload_config list \<Rightarrow> real \<Rightarrow> sim_loop \<Rightarrow> cluster \<Rightarrow> (sim_loop \<times> cluster) result" where
  "schedule_sim_arrivals env wls duration el cl =
     fold_result (\<lambda>(el, cl) wl.
        case wc_generate_arrivals wl (start_time cl) duration of (ticks, np) \<Rightarrow>
          fold_result (schedule_sim_arrival env wl) (el, cl\<lparr>cm_np_random := np\<rparr>) ticks)
       (el, cl) wls"

text \<open>
  \<open>run_simulation\<close> of such a manager, without failures; the result is the throughput metric,
  \<open>None\<close> a run that does not return.
\<close>

definition prepare_candidate ::
    "planner_env \<Rightarrow> workload_config list \<Rightarrow> real \<Rightarrow> nat \<Rightarrow> node_configuration list \<Rightarrow> (sim_loop \<times> cluster) result" where
  "prepare_candidate env wls duration i nodes =
     bind_result (ClusterManager (pe_auto_config env)
         (ClusterConfiguration (''sim_search_'' @ show_nat i) nodes ''round_robin'') (pe_rng env) (pe_np_random env)) (\<lambda>cl.
     bind_result (schedule_sim_arrivals env wls duration EventLoop (cl\<lparr>start_time := 0, cm_current_time := 0\<rparr>)) (\<lambda>(el1, cl1).
     bind_result (schedule_balancing 10 duration el1) (\<lambda>el2. Inr (el2, cl1))))"

definition simulate_candidate ::
    "planner_env \<Rightarrow> workload_config list \<Rightarrow> real \<Rightarrow> nat \<Rightarrow> node_configuration list \<Rightarrow> real result option" where
  "simulate_candidate env wls duration i nodes =
     (case prepare_candidate env wls duration i nodes of
        Inl err \<Rightarrow> Some (Inl err)
      | Inr (el1, cl1) \<Rightarrow>
          map_option (\<lambda>r. bind_result r (\<lambda>(el2, cl2).
              bind_result (update_metrics el2 (cl2\<lparr>cm_current_time := current_time el2\<rparr>)) (\<lambda>cl3.
                Inr (m_throughput (metrics cl3)))))
            (run (register_event_handlers (pe_md5 env)) (Fin (duration * 10)) (Some 100000) el1 cl1))"

section \<open>Enumeration\<close>

definition node_groups :: "physical_node list \<Rightarrow> (string, int) dict" where
  "node_groups ps = foldl (\<lambda>d p. AList.update (pn_gpu_type p)
     (dict_getd d (pn_gpu_type p) 0 + pn_count p) d) [] ps"

text \<open>The number of parts is the number of workloads, which is not zero.\<close>

fun generate_partitions :: "int \<Rightarrow> nat \<Rightarrow> int list list" where
  "generate_partitions n 0 = []"
| "generate_partitions n (Suc 0) = [[n]]"
| "generate_partitions n (Suc (Suc k)) =
     concat (map (\<lambda>i. map (Cons i) (generate_partitions (n - i) (Suc k))) [0..n])"

text \<open>One partition per GPU type; \<open>itertools.product\<close>.\<close>

definition all_combinations :: "physical_node list \<Rightarrow> nat \<Rightarrow> int list list list" where
  "all_combinations ps k = product_lists (map (\<lambda>(t, n). generate_partitions n k) (node_groups ps))"

record assignment =
  as_gpu_type :: string
  as_count :: int
  as_gpus_per_node :: int
  as_tp_size :: int
  as_cost :: real

text \<open>The first physical node of a GPU type; every type of a combination has one.\<close>

definition node_ref :: "physical_node list \<Rightarrow> string \<Rightarrow> physical_node result" where
  "node_ref ps t = (case find (\<lambda>n. pn_gpu_type n = t) ps of None \<Rightarrow> Inl StopIteration | Some n \<Rightarrow> Inr n)"

text \<open>
  The assignments of each workload, or \<open>None\<close> for a combination that puts a model on a node it
  does not fit.
\<close>

definition assign_count ::
    "planner_env \<Rightarrow> real \<Rightarrow> workload_config list \<Rightarrow> physical_node \<Rightarrow> assignment list list option \<Rightarrow> nat \<times> int \<Rightarrow>
     assignment list list option" where
  "assign_count env threshold wls ref acc item =
     (case item of (wl_idx, cnt) \<Rightarrow> case acc of None \<Rightarrow> None | Some groups \<Rightarrow>
        if 0 < cnt then
          let min_tp = min_tp_for env threshold (pn_gpu_type ref) (pn_gpus_per_node ref) (wls ! wl_idx) in
          if pn_gpus_per_node ref < min_tp then None
          else Some (groups[wl_idx := groups ! wl_idx @
            [\<lparr>as_gpu_type = pn_gpu_type ref, as_count = cnt, as_gpus_per_node = pn_gpus_per_node ref,
              as_tp_size = min_tp, as_cost = pn_cost ref\<rparr>]])
        else Some groups)"

definition assign_type ::
    "planner_env \<Rightarrow> real \<Rightarrow> physical_node list \<Rightarrow> workload_config list \<Rightarrow> assignment list list option \<Rightarrow>
     string \<times> int list \<Rightarrow> assignment list list option result" where
  "assign_type env threshold ps wls acc item =
     (case item of (gpu_type, counts) \<Rightarrow>
        case acc of None \<Rightarrow> Inr None
        | Some groups \<Rightarrow> bind_result (node_ref ps gpu_type) (\<lambda>ref.
            Inr (foldl (assign_count env threshold wls ref) (Some groups) (List.enumerate 0 counts))))"

definition workload_assignments ::
    "planner_env \<Rightarrow> real \<Rightarrow> physical_node list \<Rightarrow> workload_config list \<Rightarrow> int list list \<Rightarrow>
     assignment list list option result" where
  "workload_assignments env threshold ps wls combination =
     fold_result (assign_type env threshold ps wls) (Some (replicate (length wls) []))
       (zip (map fst (node_groups ps)) combination)"

text \<open>The nodes of a candidate and its cost; the counter is the number of nodes so far.\<close>

definition expand_assignment ::
    "string \<Rightarrow> (node_configuration list \<times> nat) \<times> real \<Rightarrow> assignment \<Rightarrow>
     ((node_configuration list \<times> nat) \<times> real) result" where
  "expand_assignment model_id st a =
     (case st of (nodes, cost) \<Rightarrow>
        bind_result (fold_result (\<lambda>nc _. place_replicas (as_gpu_type a) (as_gpus_per_node a) model_id (as_tp_size a) nc)
            nodes (replicate (nat (as_count a)) ()))
          (\<lambda>nodes'. Inr (nodes', cost + of_int (as_count a) * as_cost a)))"

definition candidate_nodes ::
    "workload_config list \<Rightarrow> assignment list list \<Rightarrow> (node_configuration list \<times> real) result" where
  "candidate_nodes wls groups =
     bind_result (fold_result (\<lambda>st (wl, as). fold_result (expand_assignment (wc_model_id wl)) st as)
         (([], 0), 0) (zip wls groups))
       (\<lambda>((nodes, counter), cost). Inr (nodes, cost))"

section \<open>The search\<close>

record search_result =
  sr_best_config :: "node_configuration list"
  sr_best_throughput :: real
  sr_candidates :: "candidate_info list"

text \<open>
  One candidate. What the simulation raises is caught and the candidate is dropped; a
  simulation that does not return cannot be caught.
\<close>

definition record_candidate ::
    "nat \<Rightarrow> workload_config list \<Rightarrow> assignment list list \<Rightarrow> node_configuration list \<Rightarrow> real \<Rightarrow> real \<Rightarrow>
     search_result \<Rightarrow> search_result" where
  "record_candidate i wls groups nodes cost throughput st =
     (let info = \<lparr>ci_candidate_id = i, ci_throughput = throughput, ci_hourly_cost = cost,
            ci_assignment = concat (map (\<lambda>(wl, as). map (\<lambda>a. (wc_model_id wl, as_gpu_type a, as_count a, as_tp_size a)) as)
              (zip wls groups))\<rparr>
      in (if sr_best_throughput st < throughput
          then st\<lparr>sr_best_throughput := throughput, sr_best_config := nodes\<rparr> else st)
         \<lparr>sr_candidates := sr_candidates st @ [info]\<rparr>)"

definition try_candidate ::
    "planner_env \<Rightarrow> real \<Rightarrow> real \<Rightarrow> physical_node list \<Rightarrow> workload_config list \<Rightarrow> search_result \<Rightarrow>
     nat \<times> int list list \<Rightarrow> search_result result" where
  "try_candidate env threshold duration ps wls st item =
     (case item of (i, combination) \<Rightarrow>
        bind_result (workload_assignments env threshold ps wls combination) (\<lambda>res.
        case res of None \<Rightarrow> Inr st
        | Some groups \<Rightarrow> bind_result (candidate_nodes wls groups) (\<lambda>(nodes, cost).
            if nodes = [] then Inr st
            else case simulate_candidate env wls duration i nodes of
                None \<Rightarrow> Inl NonTermination
              | Some (Inl _) \<Rightarrow> Inr st
              | Some (Inr throughput) \<Rightarrow> Inr (record_candidate i wls groups nodes cost throughput st))))"

definition simulation_search ::
    "planner_env \<Rightarrow> real \<Rightarrow> real \<Rightarrow> physical_node list \<Rightarrow> workload_config list \<Rightarrow> placement_result result" where
  "simulation_search env threshold duration ps wls =
     (if wls = [] then Inr ([], NoWorkloads ''simulation_search'')
      else bind_result (fold_result (try_candidate env threshold duration ps wls)
          \<lparr>sr_best_config = [], sr_best_throughput = -1, sr_candidates = []\<rparr>
          (List.enumerate 0 (all_combinations ps (length wls))))
        (\<lambda>st. Inr (sr_best_config st, SearchMeta (sr_best_throughput st) (sr_candidates st))))"

section \<open>Choosing a strategy\<close>

datatype placement_strategy = MaximizeReplicas real | WorkloadBalanced real | SimulationSearch real real

definition get_strategy :: "string \<Rightarrow> real \<Rightarrow> placement_strategy result" where
  "get_strategy name threshold =
     (if name = ''maximize_replicas'' then Inr (MaximizeReplicas threshold)
      else if name = ''workload_balanced'' then Inr (WorkloadBalanced threshold)
      else if name = ''simulation_search'' then Inr (SimulationSearch threshold 10)
      else Inl (ValueError ''Unknown placement strategy''))"

definition decide_placement ::
    "planner_env \<Rightarrow> placement_strategy \<Rightarrow> physical_node list \<Rightarrow> workload_config list \<Rightarrow> placement_result result" where
  "decide_placement env strategy ps wls =
     (case strategy of
        MaximizeReplicas threshold \<Rightarrow> maximize_replicas env threshold ps wls
      | WorkloadBalanced threshold \<Rightarrow> workload_balanced env threshold ps wls
      | SimulationSearch threshold duration \<Rightarrow> simulation_search env threshold duration ps wls)"


section \<open>The smallest tensor-parallel size\<close>

lemma try_tp_sizes_spec:
  assumes "\<forall>tp \<in> set tps. tp \<le> max_tp" "sorted tps"
  shows "let t = try_tp_sizes fits max_tp tps in
    (t \<in> set tps \<and> fits t \<and> (\<forall>tp \<in> set tps. tp < t \<longrightarrow> \<not> fits tp)) \<or>
    (t = max_tp + 1 \<and> (\<forall>tp \<in> set tps. \<not> fits tp))"
  using assms by (induction tps) (auto simp: Let_def)

lemma power_below_floorlog: "0 < n \<Longrightarrow> i < floorlog 2 (nat n) \<longleftrightarrow> (2 :: int) ^ i \<le> n"
proof -
  assume n: "0 < n"
  have "i < floorlog 2 (nat n) \<longleftrightarrow> 2 ^ i \<le> nat n"
    using n floorlog_le_iff[of 2 "nat n" i] by (auto simp: not_le[symmetric])
  also have "\<dots> \<longleftrightarrow> (2 :: int) ^ i \<le> n" using n by (simp add: le_nat_iff)
  finally show ?thesis .
qed

lemma powers_up_to:
  "0 < n \<Longrightarrow> set (map (\<lambda>i. 2 ^ i) [0..<floorlog 2 (nat n)]) = {t :: int. t \<le> n \<and> (\<exists>i. t = 2 ^ i)}"
  by (simp only: set_map set_upt image_def) (auto simp: power_below_floorlog simp del: image_Collect)

lemma find_min_tp_size_least:
  fixes env :: planner_env and threshold :: real and hardware model_id :: string
  assumes "0 < max_tp"
  defines "t \<equiv> find_min_tp_size env threshold hardware model_id max_tp"
  shows "(t \<le> max_tp \<and> (\<exists>i. t = 2 ^ i) \<and> check_fits env threshold hardware model_id t \<and>
      (\<forall>i. 2 ^ i < t \<longrightarrow> \<not> check_fits env threshold hardware model_id (2 ^ i))) \<or>
    (t = max_tp + 1 \<and> (\<forall>i. 2 ^ i \<le> max_tp \<longrightarrow> \<not> check_fits env threshold hardware model_id (2 ^ i)))"
proof -
  let ?ps = "map (\<lambda>i. (2 :: int) ^ i) [0..<floorlog 2 (nat max_tp)]"
  note set = powers_up_to[OF assms(1)]
  have sorted: "sorted ?ps" by (auto simp: sorted_iff_nth_mono)
  have le: "\<forall>tp \<in> set ?ps. tp \<le> max_tp" unfolding set by auto
  have "t = try_tp_sizes (check_fits env threshold hardware model_id) max_tp ?ps"
    using assms(1) by (simp add: t_def find_min_tp_size_def)
  then have "(t \<in> set ?ps \<and> check_fits env threshold hardware model_id t \<and>
        (\<forall>tp \<in> set ?ps. tp < t \<longrightarrow> \<not> check_fits env threshold hardware model_id tp)) \<or>
      (t = max_tp + 1 \<and> (\<forall>tp \<in> set ?ps. \<not> check_fits env threshold hardware model_id tp))"
    using try_tp_sizes_spec[OF le sorted, of "check_fits env threshold hardware model_id"] by (simp only: Let_def)
  then show ?thesis unfolding set using order.strict_implies_order order.trans by (elim disjE) blast+
qed

lemma find_min_tp_size_pos: "1 \<le> find_min_tp_size env threshold hardware model_id n"
  using find_min_tp_size_least[of n env threshold hardware model_id]
  by (cases "0 < n") (auto simp: find_min_tp_size_def)

text \<open>Explicit sizes are positive.\<close>

definition tp_ok :: "workload_config \<Rightarrow> bool" where
  "tp_ok wl \<longleftrightarrow> (\<forall>tp. wc_tensor_parallel_size wl = Some tp \<longrightarrow> 1 \<le> tp)"

lemma min_tp_for_pos: "tp_ok wl \<Longrightarrow> 1 \<le> min_tp_for env threshold t n wl"
  by (simp add: min_tp_for_def tp_ok_def find_min_tp_size_pos split: option.split)

lemma set_compatible:
  "(wl, tp) \<in> set (compatible_workloads env threshold wls p) \<longleftrightarrow>
     wl \<in> set wls \<and> tp = min_tp_for env threshold (pn_gpu_type p) (pn_gpus_per_node p) wl \<and> tp \<le> pn_gpus_per_node p"
  by (auto simp: compatible_workloads_def)

section \<open>Replicas of one node\<close>

lemma replica_node_simps [simp]:
  "node_id (replica_node n m t tp) = node_name n" "nc_model_id (replica_node n m t tp) = m"
  "nc_hardware (replica_node n m t tp) = t" "nc_parallel_config (replica_node n m t tp) = tp_config tp"
  by (simp_all add: replica_node_def NodeConfiguration_def)

lemma gpus_of_replicas:
  "1 \<le> tp \<Longrightarrow> gpus_where (\<lambda>n. nc_hardware n = h) (map (\<lambda>r. replica_node (c + r) m t tp) [0..<k]) =
     (if t = h then int k * tp else 0)"
  by (induction k) (auto simp: gpus_where_def node_gpus_def tp_config_def normalize_parallel_config_def with_defaults_def algebra_simps)

text \<open>What a logical node serves: model, GPU type and parallelism.\<close>

definition served :: "node_configuration \<Rightarrow> string \<times> string \<times> parallel_arg" where
  "served n = (nc_model_id n, nc_hardware n, nc_parallel_config n)"

definition named :: "node_configuration list \<times> nat \<Rightarrow> bool" where
  "named st \<longleftrightarrow> snd st = length (fst st) \<and> map node_id (fst st) = map node_name [0..<length (fst st)]"

lemma place_replicas_ok:
  assumes "1 \<le> tp" "tp \<le> gpus" "named st"
  obtains new where "place_replicas t gpus m tp st = Inr (fst st @ new, snd st + length new)"
    "named (fst st @ new, snd st + length new)" "length new = nat (gpus div tp)"
    "\<And>h. gpus_where (\<lambda>n. nc_hardware n = h) new \<le> (if h = t then gpus else 0)"
    "map served new = replicate (nat (gpus div tp)) (m, t, tp_config tp)"
proof -
  let ?k = "nat (gpus div tp)"
  let ?new = "map (\<lambda>r. replica_node (snd st + r) m t tp) [0..<?k]"
  have "place_replicas t gpus m tp st = Inr (fst st @ ?new, snd st + length ?new)"
    using assms(1) by (cases st) (simp add: place_replicas_def Let_def)
  moreover have "named (fst st @ ?new, snd st + length ?new)"
  proof -
    have "map node_id ?new = map node_name [snd st..<snd st + ?k]"
      by (intro nth_equalityI) auto
    then show ?thesis
      using assms(3) upt_add_eq_append[of 0 "snd st" ?k] by (auto simp: named_def)
  qed
  moreover have "int ?k * tp \<le> gpus"
  proof -
    have "int ?k * tp = gpus div tp * tp" using assms(1,2) by (simp add: pos_imp_zdiv_nonneg_iff)
    then show ?thesis using assms(1) by (simp add: div_mult_mod_eq minus_mod_eq_div_mult[symmetric])
  qed
  moreover have "map served ?new = replicate ?k (m, t, tp_config tp)"
    by (intro nth_equalityI) (auto simp: served_def)
  ultimately show ?thesis
    by (intro that[of ?new]) (auto simp only: gpus_of_replicas[OF assms(1)], auto)
qed


section \<open>Inventory\<close>

definition inventory :: "physical_node list \<Rightarrow> string \<Rightarrow> int" where
  "inventory ps h =
     sum_list (map (\<lambda>p. if pn_gpu_type p = h then max 0 (pn_count p) * pn_gpus_per_node p else 0) ps)"

lemma inventory_simps [simp]:
  "inventory [] h = 0" "inventory (ps @ qs) h = inventory ps h + inventory qs h"
  by (simp_all add: inventory_def)

lemma inventory_individual: "inventory (individual_nodes ps) h = inventory ps h"
  by (induction ps) (auto simp: individual_nodes_def inventory_def sum_list_replicate max_def)

lemma sum_list_mset_cong: "mset xs = mset ys \<Longrightarrow> sum_list (map f xs) = sum_list (map f ys :: 'b::comm_monoid_add list)"
  by (rule arg_cong[where f = sum_mset, of "mset (map f xs)" "mset (map f ys)", unfolded sum_mset_sum_list]) simp

lemma inventory_mset: "mset ps = mset qs \<Longrightarrow> inventory ps h = inventory qs h"
  unfolding inventory_def by (rule sum_list_mset_cong)

definition known_types :: "physical_node list \<Rightarrow> bool" where
  "known_types ps \<longleftrightarrow> (\<forall>p \<in> set ps. pn_gpu_type p \<in> fst ` set hardware_params)"

lemma sort_nodes_ok:
  assumes "known_types ps"
  obtains ns where "sort_nodes d (individual_nodes ps) = Inr ns" "mset ns = mset (individual_nodes ps)"
proof -
  let ?v = "\<lambda>p. hw_vmemory (the (map_of hardware_params (pn_gpu_type p)))"
  have "node_vmemory p = Inr (?v p, p)" if "p \<in> set (individual_nodes ps)" for p
  proof -
    have "pn_gpu_type p \<in> fst ` set hardware_params"
      using that assms by (auto simp: individual_nodes_def known_types_def)
    then obtain hw where "map_of hardware_params (pn_gpu_type p) = Some hw"
      by (metis domD dom_map_of_conv_image_fst)
    then show ?thesis by (simp add: node_vmemory_def)
  qed
  then have "map_result node_vmemory (individual_nodes ps) = Inr (map (\<lambda>p. (?v p, p)) (individual_nodes ps))"
    by (rule map_result_all_Inr)
  then have "sort_nodes d (individual_nodes ps) = Inr (map snd (sort_key (\<lambda>(v, p). if d then - v else v)
      (map (\<lambda>p. (?v p, p)) (individual_nodes ps))))" by (simp add: sort_nodes_def)
  then show ?thesis by (rule that) (simp add: multiset.map_comp comp_def)
qed

section \<open>Strategies that split node by node\<close>

text \<open>
  What the two direct strategies share: a node with no compatible workload is skipped, any other
  is given whole to one compatible workload.
\<close>

definition chosen_for ::
    "(physical_node \<Rightarrow> (workload_config \<times> int) list) \<Rightarrow> physical_node \<Rightarrow> (workload_config \<times> int) option \<Rightarrow> bool" where
  "chosen_for cands p c \<longleftrightarrow> (case c of None \<Rightarrow> cands p = [] | Some x \<Rightarrow> x \<in> set (cands p))"

definition filled :: "physical_node \<Rightarrow> (workload_config \<times> int) option \<Rightarrow> (string \<times> string \<times> parallel_arg) list" where
  "filled p c = (case c of None \<Rightarrow> []
     | Some (wl, tp) \<Rightarrow> replicate (nat (pn_gpus_per_node p div tp)) (wc_model_id wl, pn_gpu_type p, tp_config tp))"

definition split_inv ::
    "(physical_node \<Rightarrow> (workload_config \<times> int) list) \<Rightarrow> physical_node list \<Rightarrow> placing \<Rightarrow> bool" where
  "split_inv cands ps st \<longleftrightarrow> named (pl_nodes st, pl_counter st) \<and>
     (\<forall>h. gpus_where (\<lambda>n. nc_hardware n = h) (pl_nodes st) \<le> inventory ps h) \<and>
     (\<exists>cs. list_all2 (chosen_for cands) ps cs \<and> map served (pl_nodes st) = concat (map2 filled ps cs)) \<and>
     pl_cost st = sum_list (map pn_cost (filter (\<lambda>p. cands p \<noteq> []) ps))"

lemma choices_snoc:
  assumes "\<exists>cs. list_all2 (chosen_for cands) ps cs \<and> sv = concat (map2 filled ps cs)" "chosen_for cands p c"
  shows "\<exists>cs. list_all2 (chosen_for cands) (ps @ [p]) cs \<and> sv @ filled p c = concat (map2 filled (ps @ [p]) cs)"
proof -
  obtain cs where cs: "list_all2 (chosen_for cands) ps cs" "sv = concat (map2 filled ps cs)" using assms(1) by blast
  have "length ps = length cs" using cs(1) by (rule list_all2_lengthD)
  then show ?thesis
    using cs assms(2) by (intro exI[of _ "cs @ [c]"]) (simp add: list_all2_appendI)
qed

locale node_splitter =
  fixes cands :: "physical_node \<Rightarrow> (workload_config \<times> int) list"
    and split_step :: "placing \<Rightarrow> physical_node \<Rightarrow> placing result"
  assumes skips: "cands p = [] \<Longrightarrow> split_step st p = Inr st"
    and assigns: "cands p \<noteq> [] \<Longrightarrow> \<exists>c \<in> set (cands p). \<exists>n. split_step st p = assign_node p c n st"
begin

lemma split_step_inv:
  assumes "split_inv cands ps st" "pn_count p = 1" "0 \<le> pn_gpus_per_node p"
    and "\<And>wl tp. (wl, tp) \<in> set (cands p) \<Longrightarrow> 1 \<le> tp \<and> tp \<le> pn_gpus_per_node p"
  shows "\<exists>st'. split_step st p = Inr st' \<and> split_inv cands (ps @ [p]) st'"
proof (cases "cands p = []")
  case True
  have "gpus_where (\<lambda>n. nc_hardware n = h) (pl_nodes st) \<le> inventory (ps @ [p]) h" for h
    using assms(1-3) by (auto simp: split_inv_def inventory_def add_increasing2)
  moreover have "chosen_for cands p None" "filled p None = []" using True by (simp_all add: chosen_for_def filled_def)
  ultimately show ?thesis
    using True skips[OF True] assms(1) choices_snoc[of cands ps "map served (pl_nodes st)" p None]
    by (simp add: split_inv_def)
next
  case False
  obtain wl tp n where c: "(wl, tp) \<in> set (cands p)" "split_step st p = assign_node p (wl, tp) n st"
    using assigns[OF False, of st] by auto
  have tp: "1 \<le> tp" "tp \<le> pn_gpus_per_node p" and nm: "named (pl_nodes st, pl_counter st)"
    using assms(1,4) c(1) by (auto simp: split_inv_def)
  obtain new where new: "place_replicas (pn_gpu_type p) (pn_gpus_per_node p) (wc_model_id wl) tp (pl_nodes st, pl_counter st) =
      Inr (pl_nodes st @ new, pl_counter st + length new)"
    "named (pl_nodes st @ new, pl_counter st + length new)"
    "\<And>h. gpus_where (\<lambda>n. nc_hardware n = h) new \<le> (if h = pn_gpu_type p then pn_gpus_per_node p else 0)"
    "map served new = filled p (Some (wl, tp))"
    by (rule place_replicas_ok[OF tp nm, of "pn_gpu_type p" "wc_model_id wl", unfolded fst_conv snd_conv])
      (rule that, assumption+, simp add: filled_def)
  let ?st = "\<lparr>pl_nodes = pl_nodes st @ new, pl_counter = pl_counter st + length new, pl_cost = pl_cost st + pn_cost p,
      pl_counts = AList.update (wc_model_id wl) (dict_getd (pl_counts st) (wc_model_id wl) 0 + n) (pl_counts st)\<rparr>"
  have "gpus_where (\<lambda>n. nc_hardware n = h) (pl_nodes st @ new) \<le> inventory (ps @ [p]) h" for h
  proof -
    have "gpus_where (\<lambda>n. nc_hardware n = h) (pl_nodes st) \<le> inventory ps h" using assms(1) by (simp add: split_inv_def)
    moreover have "inventory [p] h = (if h = pn_gpu_type p then pn_gpus_per_node p else 0)"
      using assms(2) by (simp add: inventory_def)
    ultimately show ?thesis using new(3)[of h] by simp
  qed
  moreover have "chosen_for cands p (Some (wl, tp))" using c(1) by (simp add: chosen_for_def)
  then have "\<exists>cs. list_all2 (chosen_for cands) (ps @ [p]) cs \<and> map served (pl_nodes st @ new) = concat (map2 filled (ps @ [p]) cs)"
    using choices_snoc[of cands ps "map served (pl_nodes st)"] assms(1) new(4) by (simp add: split_inv_def)
  ultimately have "split_inv cands (ps @ [p]) ?st" using new(2) assms(1) False by (simp add: split_inv_def)
  then show ?thesis using c(2) new(1) by (simp add: assign_node_def)
qed

lemma split_all:
  assumes "\<And>p. p \<in> set ps \<Longrightarrow> pn_count p = 1 \<and> 0 \<le> pn_gpus_per_node p"
    and "\<And>p wl tp. p \<in> set ps \<Longrightarrow> (wl, tp) \<in> set (cands p) \<Longrightarrow> 1 \<le> tp \<and> tp \<le> pn_gpus_per_node p"
  shows "\<exists>st. fold_result split_step (initial_placing wls) ps = Inr st \<and> split_inv cands ps st"
  using assms
proof (induction ps rule: rev_induct)
  case Nil
  then show ?case by (simp add: split_inv_def initial_placing_def named_def)
next
  case (snoc p ps)
  then obtain st where "fold_result split_step (initial_placing wls) ps = Inr st" "split_inv cands ps st"
    by (metis in_set_conv_decomp append_is_Nil_conv Un_iff set_append)
  moreover have "pn_count p = 1" "0 \<le> pn_gpus_per_node p"
    and "\<And>wl tp. (wl, tp) \<in> set (cands p) \<Longrightarrow> 1 \<le> tp \<and> tp \<le> pn_gpus_per_node p"
    using snoc.prems(1)[of p] snoc.prems(2)[of p] by simp_all
  moreover note split_step_inv[OF calculation(2-5)]
  ultimately show ?case by (auto simp: fold_result_snoc)
qed

end

lemma min_key_from_mem: "min_key_from key c cs \<in> set (c # cs)"
  using min_key_from_in[of key c cs] by simp

interpretation maximize: node_splitter "compatible_workloads env threshold wls" "maximize_step env threshold wls"
  for env threshold wls
proof
  fix p st
  show "compatible_workloads env threshold wls p = [] \<Longrightarrow> maximize_step env threshold wls st p = Inr st"
    by (simp add: maximize_step_def)
  show "compatible_workloads env threshold wls p \<noteq> [] \<Longrightarrow> \<exists>c \<in> set (compatible_workloads env threshold wls p).
      \<exists>n. maximize_step env threshold wls st p = assign_node p c n st"
    by (cases "compatible_workloads env threshold wls p")
      (auto simp only: maximize_step_def Let_def list.case intro!: bexI[OF _ min_key_from_mem])
qed

interpretation balanced: node_splitter "compatible_workloads env threshold wls" "balanced_step env threshold targets wls"
  for env threshold targets wls
proof
  fix p st
  show "compatible_workloads env threshold wls p = [] \<Longrightarrow> balanced_step env threshold targets wls st p = Inr st"
    by (simp add: balanced_step_def)
  show "compatible_workloads env threshold wls p \<noteq> [] \<Longrightarrow> \<exists>c \<in> set (compatible_workloads env threshold wls p).
      \<exists>n. balanced_step env threshold targets wls st p = assign_node p c n st"
    by (cases "compatible_workloads env threshold wls p")
      (auto simp only: balanced_step_def list.case intro!: bexI[OF _ min_key_from_mem])
qed


section \<open>The direct strategies\<close>

text \<open>
  A placement of the nodes \<open>ps\<close>: every single node is either left out, when no workload fits it, or
  filled with replicas of one workload at its tensor-parallel size.
\<close>

definition placement_ok ::
    "planner_env \<Rightarrow> real \<Rightarrow> physical_node list \<Rightarrow> workload_config list \<Rightarrow> node_configuration list \<Rightarrow> real \<Rightarrow> bool" where
  "placement_ok env threshold ps wls nodes cost \<longleftrightarrow>
     distinct (map node_id nodes) \<and>
     (\<forall>h. gpus_where (\<lambda>n. nc_hardware n = h) nodes \<le> inventory ps h) \<and>
     (\<exists>ns cs. mset ns = mset (individual_nodes ps) \<and>
        list_all2 (chosen_for (compatible_workloads env threshold wls)) ns cs \<and>
        map served nodes = concat (map2 filled ns cs)) \<and>
     cost = sum_list (map (\<lambda>p. if compatible_workloads env threshold wls p = [] then 0
        else of_int (max 0 (pn_count p)) * pn_cost p) ps)"

lemma inj_node_name: "inj node_name"
  by (auto simp: inj_def node_name_def)

lemma named_distinct: "named (nodes, k) \<Longrightarrow> distinct (map node_id nodes)"
  using inj_on_subset[OF inj_node_name subset_UNIV] by (simp add: named_def distinct_map)

lemma compatible_count [simp]:
  "compatible_workloads env threshold wls (p\<lparr>pn_count := c\<rparr>) = compatible_workloads env threshold wls p"
  by (simp add: compatible_workloads_def)

lemma compatible_set_cong:
  "set wls = set wls' \<Longrightarrow> set (compatible_workloads env threshold wls p) = set (compatible_workloads env threshold wls' p)"
  by (auto simp: compatible_workloads_def)

lemma cost_individual:
  "sum_list (map pn_cost (filter (\<lambda>p. compatible_workloads env threshold wls p \<noteq> []) (individual_nodes ps))) =
     sum_list (map (\<lambda>p. if compatible_workloads env threshold wls p = [] then 0
        else of_int (max 0 (pn_count p)) * pn_cost p) ps)"
  by (induction ps) (auto simp: individual_nodes_def sum_list_replicate max_def filter_replicate)


lemma split_placement_ok:
  assumes "split_inv (compatible_workloads env threshold wls') ns st" "mset ns = mset (individual_nodes ps)"
    and "set wls' = set wls"
  shows "placement_ok env threshold ps wls (pl_nodes st) (pl_cost st)"
proof -
  let ?c = "compatible_workloads env threshold wls" and ?c' = "compatible_workloads env threshold wls'"
  have set: "set (?c' p) = set (?c p)" and empty: "?c' p = [] \<longleftrightarrow> ?c p = []" for p
    using compatible_set_cong[OF assms(3)] set_empty2 by metis+
  have "chosen_for ?c' = chosen_for ?c"
    by (intro ext) (simp add: chosen_for_def set empty split: option.split)
  moreover have "pl_cost st = sum_list (map pn_cost (filter (\<lambda>p. ?c p \<noteq> []) (individual_nodes ps)))"
  proof -
    have "pl_cost st = sum_list (map pn_cost (filter (\<lambda>p. ?c p \<noteq> []) ns))"
      using assms(1) by (simp add: split_inv_def empty)
    also have "\<dots> = sum_list (map pn_cost (filter (\<lambda>p. ?c p \<noteq> []) (individual_nodes ps)))"
      using assms(2) by (intro sum_list_mset_cong) simp
    finally show ?thesis .
  qed
  ultimately show ?thesis
    using assms(1,2) named_distinct inventory_mset[OF assms(2)]
    by (auto simp: split_inv_def placement_ok_def inventory_individual cost_individual)
qed

lemma individual_nodes_ok:
  assumes "\<forall>p \<in> set ps. 0 \<le> pn_gpus_per_node p" "p \<in> set (individual_nodes ps)"
  shows "pn_count p = 1 \<and> 0 \<le> pn_gpus_per_node p"
  using assms by (auto simp: individual_nodes_def)

lemma compatible_ok:
  assumes "\<forall>wl \<in> set wls. tp_ok wl" "(wl, tp) \<in> set (compatible_workloads env threshold wls p)"
  shows "1 \<le> tp \<and> tp \<le> pn_gpus_per_node p"
  using assms min_tp_for_pos by (auto simp: set_compatible)

lemma load_scores_ok:
  assumes "\<forall>wl \<in> set wls. (\<exists>x. get_mean_from_dist (wc_input_dist wl) = Inr x) \<and> (\<exists>x. get_mean_from_dist (wc_output_dist wl) = Inr x)"
  shows "\<exists>res. fold_result load_score_step st wls = Inr res"
  using assms by (induction wls arbitrary: st) (auto simp: load_score_step_def Let_def)

text \<open>
  C37. The two direct placement strategies never overcommit hardware and waste no usable node. For
  known GPU types, positive explicit sizes and (for the load balancer) readable length
  distributions they return; the logical nodes have different names; per GPU type they hold at
  most the GPUs of the inventory; every physical node that fits some workload is filled with as
  many replicas of one compatible workload as it holds, every other is left out, and the reported
  cost is that of the nodes used.
\<close>

theorem direct_placement_fills_nodes:
  assumes "known_types ps" "\<forall>p \<in> set ps. 0 \<le> pn_gpus_per_node p" "wls \<noteq> []" "\<forall>wl \<in> set wls. tp_ok wl"
    and "\<forall>wl \<in> set wls. (\<exists>x. get_mean_from_dist (wc_input_dist wl) = Inr x) \<and> (\<exists>x. get_mean_from_dist (wc_output_dist wl) = Inr x)"
  shows "(\<exists>nodes counts cost. maximize_replicas env threshold ps wls = Inr (nodes, MaximizeMeta counts cost) \<and>
      placement_ok env threshold ps wls nodes cost) \<and>
    (\<exists>nodes scores targets counts cost. workload_balanced env threshold ps wls =
        Inr (nodes, BalancedMeta scores targets counts cost) \<and> placement_ok env threshold ps wls nodes cost)"
proof -
  have one: "pn_count p = 1 \<and> 0 \<le> pn_gpus_per_node p" if "mset ns = mset (individual_nodes ps)" "p \<in> set ns" for ns p
    using individual_nodes_ok[OF assms(2)] that by (metis mset_eq_setD)
  have "\<exists>nodes counts cost. maximize_replicas env threshold ps wls = Inr (nodes, MaximizeMeta counts cost) \<and>
      placement_ok env threshold ps wls nodes cost"
  proof -
    let ?wls = "sort_key (\<lambda>w. - dict_getd (dict_comp (map wc_model_id wls) (estimate_model_memory env)) (wc_model_id w) 0) wls"
    obtain ns where ns: "sort_nodes False (individual_nodes ps) = Inr ns" "mset ns = mset (individual_nodes ps)"
      using sort_nodes_ok[OF assms(1)] by blast
    have tp: "\<forall>wl \<in> set ?wls. tp_ok wl" using assms(4) by simp
    have "\<exists>st. fold_result (maximize_step env threshold ?wls) (initial_placing wls) ns = Inr st \<and>
        split_inv (compatible_workloads env threshold ?wls) ns st"
      by (rule maximize.split_all) (rule one[OF ns(2)], assumption, rule compatible_ok[OF tp])
    then obtain st where st: "fold_result (maximize_step env threshold ?wls) (initial_placing wls) ns = Inr st"
        "split_inv (compatible_workloads env threshold ?wls) ns st" by blast
    have "set ?wls = set wls" by simp
    then show ?thesis
      using split_placement_ok[OF st(2) ns(2)] ns(1) st(1) assms(3) by (simp add: maximize_replicas_def Let_def)
  qed
  moreover have "\<exists>nodes scores targets counts cost. workload_balanced env threshold ps wls =
        Inr (nodes, BalancedMeta scores targets counts cost) \<and> placement_ok env threshold ps wls nodes cost"
  proof -
    obtain ns where ns: "sort_nodes True (individual_nodes ps) = Inr ns" "mset ns = mset (individual_nodes ps)"
      using sort_nodes_ok[OF assms(1)] by blast
    obtain scores load where sc: "fold_result load_score_step ([], 0) wls = Inr (scores, load)"
      using load_scores_ok[OF assms(5)] by fastforce
    let ?t = "target_replicas scores load (length ns) wls"
    have "\<exists>st. fold_result (balanced_step env threshold ?t wls) (initial_placing wls) ns = Inr st \<and>
        split_inv (compatible_workloads env threshold wls) ns st"
      by (rule balanced.split_all) (rule one[OF ns(2)], assumption, rule compatible_ok[OF assms(4)])
    then obtain st where st: "fold_result (balanced_step env threshold ?t wls) (initial_placing wls) ns = Inr st"
        "split_inv (compatible_workloads env threshold wls) ns st" by blast
    show ?thesis
      using split_placement_ok[OF st(2) ns(2) refl] ns(1) sc st(1) assms(3) by (simp add: workload_balanced_def Let_def)
  qed
  ultimately show ?thesis by blast
qed


definition sample_nodes :: "physical_node list" where
  "sample_nodes = [\<lparr>pn_gpu_type = ''NVDA:A100'', pn_count = 2, pn_gpus_per_node = 8, pn_cost = 5\<rparr>,
     \<lparr>pn_gpu_type = ''NVDA:RTX3090'', pn_count = 1, pn_gpus_per_node = 4, pn_cost = 1\<rparr>]"

definition sample_workloads :: "workload_config list" where
  "sample_workloads =
     [\<lparr>wc_model_id = ''chat'', wc_rate = 2, wc_generate_arrivals = (\<lambda>start d. ([], rng_of_tape (\<lambda>i. i))),
       wc_duration = 10, wc_input_dist = (''Normal'', [256, 32]), wc_output_dist = (''Uniform'', [32, 64]),
       wc_tensor_parallel_size = Some 4\<rparr>,
      \<lparr>wc_model_id = ''code'', wc_rate = 1, wc_generate_arrivals = (\<lambda>start d. ([], rng_of_tape (\<lambda>i. i))),
       wc_duration = 10, wc_input_dist = (''Constant'', [512]), wc_output_dist = (''Constant'', [128]),
       wc_tensor_parallel_size = Some 8\<rparr>]"

definition sample_planner_env :: planner_env where
  "sample_planner_env = \<lparr>pe_auto_config = (\<lambda>_. None), pe_md5 = (\<lambda>_. 0), pe_normal = (\<lambda>m s g. (m, g)),
     pe_uniform = (\<lambda>a b g. (a, g)), pe_rng = rng_of_tape (\<lambda>i. i), pe_np_random = rng_of_tape (\<lambda>i. i)\<rparr>"

lemma sample_placement_ok:
  "known_types sample_nodes" "\<forall>p \<in> set sample_nodes. 0 \<le> pn_gpus_per_node p" "sample_workloads \<noteq> []"
  "\<forall>wl \<in> set sample_workloads. tp_ok wl"
  by (simp_all add: known_types_def sample_nodes_def hardware_params_def sample_workloads_def tp_ok_def)

theorem direct_placement_fills_nodes_witness:
  "\<exists>nodes counts. maximize_replicas sample_planner_env (8 / 10) sample_nodes sample_workloads =
     Inr (nodes, MaximizeMeta counts 11) \<and> gpus_where (\<lambda>n. nc_hardware n = ''NVDA:A100'') nodes \<le> 16"
proof -
  have "\<forall>wl \<in> set sample_workloads. (\<exists>x. get_mean_from_dist (wc_input_dist wl) = Inr x) \<and>
      (\<exists>x. get_mean_from_dist (wc_output_dist wl) = Inr x)"
    by (simp add: sample_workloads_def get_mean_from_dist_def list_index_def)
  from direct_placement_fills_nodes[OF sample_placement_ok this, of sample_planner_env "8 / 10"]
  obtain nodes counts cost where r: "maximize_replicas sample_planner_env (8 / 10) sample_nodes sample_workloads =
      Inr (nodes, MaximizeMeta counts cost)" "placement_ok sample_planner_env (8 / 10) sample_nodes sample_workloads nodes cost"
    by blast
  have "cost = 11" using r(2)
    by (simp add: placement_ok_def sample_nodes_def sample_workloads_def compatible_workloads_def min_tp_for_def)
  moreover have "inventory sample_nodes ''NVDA:A100'' = 16" by (simp add: inventory_def sample_nodes_def)
  moreover have "\<forall>h. gpus_where (\<lambda>n. nc_hardware n = h) nodes \<le> inventory sample_nodes h"
    using r(2) unfolding placement_ok_def by blast
  then have "gpus_where (\<lambda>n. nc_hardware n = ''NVDA:A100'') nodes \<le> inventory sample_nodes ''NVDA:A100''" by (rule spec)
  ultimately show ?thesis using r(1) by (intro exI[of _ nodes] exI[of _ counts]) simp
qed

end
