(* ===== verification/Simulation_Search.thy ===== *)
theory Simulation_Search
  imports Placement_Search
begin

text \<open>
  The search over simulated placements of \<open>core/placement.py\<close>: its enumeration is exact, its
  candidates stay within the inventory when the nodes of a GPU type have the same size, it always
  returns, and it returns the best candidate.
\<close>

section \<open>Enumeration\<close>

lemma distinct_concat_Cons:
  "distinct xs \<Longrightarrow> (\<And>x. x \<in> set xs \<Longrightarrow> distinct (f x)) \<Longrightarrow> distinct (concat (map (\<lambda>x. map (Cons x) (f x)) xs))"
  by (induction xs) (auto simp: distinct_map)

definition parts :: "int \<Rightarrow> nat \<Rightarrow> int list set" where
  "parts n k = {xs. length xs = k \<and> sum_list xs = n \<and> (\<forall>x \<in> set xs. 0 \<le> x)}"

lemma parts_Suc: "parts n (Suc k) = (\<Union>i \<in> {0..n}. Cons i ` parts (n - i) k)"
proof (intro set_eqI iffI)
  fix xs assume "xs \<in> parts n (Suc k)"
  then obtain i ys where xs: "xs = i # ys" "length ys = k" "i + sum_list ys = n" "0 \<le> i" "\<forall>x \<in> set ys. 0 \<le> x"
    by (auto simp: parts_def length_Suc_conv)
  then have "0 \<le> sum_list ys" by (auto intro: sum_list_nonneg)
  then show "xs \<in> (\<Union>i \<in> {0..n}. Cons i ` parts (n - i) k)" using xs by (intro UN_I[of i]) (auto simp: parts_def)
qed (auto simp: parts_def)

lemma set_generate_partitions: "0 \<le> n \<Longrightarrow> set (generate_partitions n (Suc k)) = parts n (Suc k)"
proof (induction k arbitrary: n)
  case 0
  have "xs \<in> parts n (Suc 0) \<longleftrightarrow> xs = [n]" for xs using 0 by (auto simp: parts_def length_Suc_conv)
  then show ?case by auto
next
  case (Suc k)
  have "set (generate_partitions n (Suc (Suc k))) = (\<Union>i \<in> {0..n}. Cons i ` set (generate_partitions (n - i) (Suc k)))"
    by simp
  also have "\<dots> = (\<Union>i \<in> {0..n}. Cons i ` parts (n - i) (Suc k))" using Suc.IH by simp
  finally show ?case using parts_Suc by simp
qed

lemma distinct_generate_partitions: "distinct (generate_partitions n k)"
proof (induction n k rule: generate_partitions.induct)
  case (3 n k)
  then show ?case unfolding generate_partitions.simps by (intro distinct_concat_Cons) simp_all
qed simp_all

lemma upto_int: "[0..int n] = map int [0..<Suc n]"
proof (induction n)
  case (Suc n)
  have "[0..int (Suc n)] = [0..int n] @ [int (Suc n)]" using upto_rec2[of 0 "int (Suc n)"] by simp
  then show ?case using Suc by simp
qed simp

lemma length_generate_partitions: "length (generate_partitions (int n) (Suc k)) = (n + k) choose k"
proof (induction k arbitrary: n)
  case (Suc k)
  have "length (generate_partitions (int n) (Suc (Suc k))) =
      (\<Sum>i \<leftarrow> [0..<Suc n]. length (generate_partitions (int n - int i) (Suc k)))"
    unfolding generate_partitions.simps upto_int by (simp add: length_concat comp_def del: upt_Suc)
  also have "\<dots> = (\<Sum>i \<leftarrow> [0..<Suc n]. (n - i + k) choose k)"
  proof (intro arg_cong[where f = sum_list] map_cong refl)
    fix i assume "i \<in> set [0..<Suc n]"
    then have eq: "int n - int i = int (n - i)" by auto
    show "length (generate_partitions (int n - int i) (Suc k)) = (n - i + k) choose k" unfolding eq by (rule Suc.IH)
  qed
  also have "\<dots> = (\<Sum>i \<le> n. (n - i + k) choose k)"
  proof -
    have "set [0..<Suc n] = {..n}" by auto
    then show ?thesis by (simp only: interv_sum_list_conv_sum_set_nat)
  qed
  also have "\<dots> = (\<Sum>i \<le> n. (i + k) choose k)" 
    using sum.nat_diff_reindex[of "\<lambda>i. (i + k) choose k" "Suc n"] by (simp add: lessThan_Suc_atMost)
  also have "\<dots> = (n + Suc k) choose (Suc k)" 
  proof -
    have "(i + k) choose k = (k + i) choose i" for i using binomial_symmetric[of k "i + k"] by (simp add: add.commute)
    then show ?thesis
      using sum_choose_lower[of k n] binomial_symmetric[of "Suc k" "n + Suc k"] by (simp add: add.commute)
  qed
  finally show ?case .
qed simp

lemma distinct_product_lists: "\<forall>ys \<in> set yss. distinct ys \<Longrightarrow> distinct (product_lists yss)"
  by (induction yss) (auto intro!: distinct_concat_Cons)


lemma node_groups_update:
  "dict_getd (node_groups (ps @ [p])) t 0 = dict_getd (node_groups ps) t 0 + (if pn_gpu_type p = t then pn_count p else 0)"
  by (simp add: node_groups_def dict_getd_update)

lemma node_groups_count:
  "dict_getd (node_groups ps) t 0 = sum_list (map pn_count (filter (\<lambda>p. pn_gpu_type p = t) ps))"
  by (induction ps rule: rev_induct) (auto simp: node_groups_update, simp add: node_groups_def)

lemma node_groups_wf: "wf_dict (node_groups ps)"
  by (induction ps rule: rev_induct) (auto simp: node_groups_def)

lemma node_groups_keys: "fst ` set (node_groups ps) = pn_gpu_type ` set ps"
  by (induction ps rule: rev_induct) (auto simp: node_groups_def update_conv' dom_update)

lemma node_groups_entry:
  assumes "(t, n) \<in> set (node_groups ps)"
  shows "n = sum_list (map pn_count (filter (\<lambda>p. pn_gpu_type p = t) ps))"
proof -
  have "map_of (node_groups ps) t = Some n" using assms node_groups_wf by (simp add: wf_dict_map_of)
  then show ?thesis using node_groups_count[of ps t] by (simp add: dict_getd_def)
qed

lemma node_groups_nonneg:
  assumes "\<forall>p \<in> set ps. 0 \<le> pn_count p" "(t, n) \<in> set (node_groups ps)"
  shows "0 \<le> n"
  unfolding node_groups_entry[OF assms(2)] using assms(1) by (intro sum_list_nonneg) auto

text \<open>
  C36. The search tries every distribution of the physical nodes over the workloads exactly once. A
  combination holds, for each GPU type, one non-negative count per workload, adding up to the
  nodes of that type; all of these are enumerated, none twice, so that there are as many as the
  product over the types of the ways to put the nodes of a type into bins.
\<close>

theorem all_combinations_exact:
  assumes "\<forall>p \<in> set ps. 0 \<le> pn_count p" "0 < k"
  shows "set (all_combinations ps k) = {cs. list_all2 (\<lambda>counts (t, n). length counts = k \<and>
      (\<forall>x \<in> set counts. 0 \<le> x) \<and>
      sum_list counts = sum_list (map pn_count (filter (\<lambda>p. pn_gpu_type p = t) ps))) cs (node_groups ps)} \<and>
    map fst (node_groups ps) = dedup_from [] (map pn_gpu_type ps) \<and>
    distinct (all_combinations ps k) \<and>
    length (all_combinations ps k) = prod_list (map (\<lambda>(t, n). (nat n + (k - 1)) choose (k - 1)) (node_groups ps))"
proof -
  obtain j where k: "k = Suc j" using assms(2) gr0_implies_Suc by blast
  let ?gs = "node_groups ps"
  have parts: "set (generate_partitions n k) = parts n k" "length (generate_partitions n k) = (nat n + j) choose j"
    if "(t, n) \<in> set ?gs" for t n
    using node_groups_nonneg[OF assms(1) that] set_generate_partitions[of n j] length_generate_partitions[of "nat n" j]
    by (simp_all add: k)
  have "list_all2 (\<lambda>x ys. x \<in> set ys) cs (map (\<lambda>(t, n). generate_partitions n k) gs) \<longleftrightarrow>
      list_all2 (\<lambda>counts (t, n). length counts = k \<and> (\<forall>x \<in> set counts. 0 \<le> x) \<and>
        sum_list counts = sum_list (map pn_count (filter (\<lambda>p. pn_gpu_type p = t) ps))) cs gs"
    if "set gs \<subseteq> set ?gs" for cs gs
    using that
  proof (induction gs arbitrary: cs)
    case (Cons g gs)
    obtain t n where g: "g = (t, n)" by fastforce
    then show ?case
      using Cons parts(1)[of t n] node_groups_entry[of t n ps] by (cases cs) (auto simp: parts_def)
  qed simp
  then have "set (all_combinations ps k) = {cs. list_all2 (\<lambda>counts (t, n). length counts = k \<and>
      (\<forall>x \<in> set counts. 0 \<le> x) \<and>
      sum_list counts = sum_list (map pn_count (filter (\<lambda>p. pn_gpu_type p = t) ps))) cs ?gs}"
    by (simp add: all_combinations_def product_lists_set)
  moreover have "distinct (all_combinations ps k)"
    unfolding all_combinations_def by (rule distinct_product_lists) (auto simp: distinct_generate_partitions)
  moreover have "length (all_combinations ps k) = prod_list (map (\<lambda>(t, n). (nat n + (k - 1)) choose (k - 1)) ?gs)"
  proof -
    have "length (product_lists yss) = prod_list (map length yss)" for yss :: "int list list list"
      by (induction yss) (simp_all add: length_concat comp_def sum_list_triv)
    then have "length (all_combinations ps k) = prod_list (map length (map (\<lambda>(t, n). generate_partitions n k) ?gs))"
      by (simp only: all_combinations_def)
    also have "\<dots> = prod_list (map (\<lambda>(t, n). (nat n + (k - 1)) choose (k - 1)) ?gs)"
      using parts(2) by (intro arg_cong[where f = prod_list]) (auto simp: k)
    finally show ?thesis .
  qed
  moreover have "map fst ?gs = dedup_from [] (map pn_gpu_type ps)"
    by (induction ps rule: rev_induct) (auto simp: node_groups_def dedup_from_def update_keys)
  ultimately show ?thesis by blast
qed


section \<open>Assignments\<close>

definition demand :: "assignment list \<Rightarrow> string \<Rightarrow> int" where
  "demand as h = sum_list (map (\<lambda>a. if as_gpu_type a = h then as_count a * as_gpus_per_node a else 0) as)"

lemma demand_simps [simp]: "demand [] h = 0" "demand (as @ bs) h = demand as h + demand bs h"
  by (simp_all add: demand_def)

lemma demand_mset: "mset as = mset bs \<Longrightarrow> demand as h = demand bs h"
  unfolding demand_def by (rule sum_list_mset_cong)

definition assignment_ok :: "assignment \<Rightarrow> bool" where
  "assignment_ok a \<longleftrightarrow> 0 < as_count a \<and> 1 \<le> as_tp_size a \<and> as_tp_size a \<le> as_gpus_per_node a"

definition groups_ok :: "nat \<Rightarrow> assignment list list \<Rightarrow> bool" where
  "groups_ok k groups \<longleftrightarrow> length groups = k \<and> (\<forall>a \<in> set (concat groups). assignment_ok a)"

lemma mset_concat_update:
  "i < length gs \<Longrightarrow> mset (concat (gs[i := gs ! i @ xs])) = mset (concat gs) + mset xs"
  by (induction gs arbitrary: i) (auto split: nat.split simp: nth_Cons)

lemma assign_count_None [simp]: "foldl (assign_count env threshold wls ref) None xs = None"
  by (induction xs) (auto simp: assign_count_def split: prod.split)

lemma assign_count_cases:
  defines "tp \<equiv> \<lambda>env threshold wls ref m. min_tp_for env threshold (pn_gpu_type ref) (pn_gpus_per_node ref) (wls ! m)"
  shows "0 < c \<Longrightarrow> pn_gpus_per_node ref < tp env threshold wls ref m \<Longrightarrow> assign_count env threshold wls ref (Some g) (m, c) = None"
    and "0 < c \<Longrightarrow> tp env threshold wls ref m \<le> pn_gpus_per_node ref \<Longrightarrow> assign_count env threshold wls ref (Some g) (m, c) =
      Some (g[m := g ! m @ [\<lparr>as_gpu_type = pn_gpu_type ref, as_count = c, as_gpus_per_node = pn_gpus_per_node ref,
        as_tp_size = tp env threshold wls ref m, as_cost = pn_cost ref\<rparr>]])"
    and "c \<le> 0 \<Longrightarrow> assign_count env threshold wls ref (Some g) (m, c) = Some g"
  by (simp_all add: assign_count_def tp_def Let_def)

lemma assign_counts_spec:
  assumes "foldl (assign_count env threshold wls ref) (Some groups) (List.enumerate m counts) = Some groups'"
    and "groups_ok (length wls) groups" "m + length counts \<le> length wls" "\<forall>wl \<in> set wls. tp_ok wl"
  shows "groups_ok (length wls) groups' \<and> demand (concat groups') h = demand (concat groups) h +
    (if pn_gpu_type ref = h then sum_list (map (max 0) counts) * pn_gpus_per_node ref else 0)"
  using assms(1-3)
proof (induction counts arbitrary: m groups)
  case (Cons c counts)
  let ?tp = "min_tp_for env threshold (pn_gpu_type ref) (pn_gpus_per_node ref) (wls ! m)"
  let ?a = "\<lparr>as_gpu_type = pn_gpu_type ref, as_count = c, as_gpus_per_node = pn_gpus_per_node ref,
      as_tp_size = ?tp, as_cost = pn_cost ref\<rparr>"
  have m: "m < length groups" "m < length wls" using Cons.prems by (auto simp: groups_ok_def)
  show ?case
  proof (cases "0 < c")
    case True
    let ?g = "groups[m := groups ! m @ [?a]]"
    have fit: "?tp \<le> pn_gpus_per_node ref"
      using Cons.prems(1) True by (intro leI notI) (simp add: assign_count_cases(1))
    then have step: "foldl (assign_count env threshold wls ref) (Some ?g) (List.enumerate (Suc m) counts) = Some groups'"
      using Cons.prems(1) True by (simp add: assign_count_cases(2))
    have "1 \<le> ?tp" using assms(4) m(2) by (intro min_tp_for_pos) simp
    then have "assignment_ok ?a" using True fit by (simp add: assignment_ok_def)
    moreover have "set (concat ?g) = set (concat groups) \<union> {?a}"
      using mset_concat_update[OF m(1), of "[?a]"] by (metis set_mset_mset set_mset_union mset.simps(1,2) set_mset_single add_mset_add_single empty_neutral(1))
    ultimately have "groups_ok (length wls) ?g" using Cons.prems(2) by (simp add: groups_ok_def)
    moreover have "demand (concat ?g) h = demand (concat groups) h + demand [?a] h"
      using demand_mset[of "concat ?g" "concat groups @ [?a]" h] mset_concat_update[OF m(1), of "[?a]"] by simp
    ultimately show ?thesis
      using Cons.IH[OF step] Cons.prems(3) True by (simp add: demand_def algebra_simps)
  next
    case False
    then show ?thesis using Cons by (simp add: assign_count_cases(3))
  qed
qed simp


definition ref_gpus :: "physical_node list \<Rightarrow> string \<Rightarrow> int" where
  "ref_gpus ps t = (case find (\<lambda>n. pn_gpu_type n = t) ps of None \<Rightarrow> 0 | Some n \<Rightarrow> pn_gpus_per_node n)"

lemma node_ref_ok:
  assumes "t \<in> pn_gpu_type ` set ps"
  obtains n where "node_ref ps t = Inr n" "n \<in> set ps" "pn_gpu_type n = t" "pn_gpus_per_node n = ref_gpus ps t"
proof -
  obtain n where n: "find (\<lambda>n. pn_gpu_type n = t) ps = Some n"
    using assms by (cases "find (\<lambda>n. pn_gpu_type n = t) ps") (auto simp: find_None_iff)
  then have "n \<in> set ps" "pn_gpu_type n = t" by (auto simp: find_Some_iff)
  then show ?thesis using that n by (simp add: node_ref_def ref_gpus_def)
qed

lemma assign_types_spec:
  assumes "\<forall>wl \<in> set wls. tp_ok wl"
    and "\<forall>(t, counts) \<in> set items. t \<in> pn_gpu_type ` set ps \<and> length counts = length wls \<and> (\<forall>x \<in> set counts. 0 \<le> x)"
    and "\<forall>groups. acc = Some groups \<longrightarrow> groups_ok (length wls) groups"
  shows "\<exists>res. fold_result (assign_type env threshold ps wls) acc items = Inr res \<and>
    (\<forall>groups'. res = Some groups' \<longrightarrow> (\<exists>groups. acc = Some groups \<and> groups_ok (length wls) groups' \<and>
       (\<forall>h. demand (concat groups') h = demand (concat groups) h +
         sum_list (map (\<lambda>(t, counts). if t = h then sum_list counts * ref_gpus ps t else 0) items))))"
  using assms(2,3)
proof (induction items arbitrary: acc)
  case (Cons item items)
  obtain t counts where item: "item = (t, counts)" by fastforce
  then have t: "t \<in> pn_gpu_type ` set ps" "length counts = length wls" "\<forall>x \<in> set counts. 0 \<le> x"
    using Cons.prems(1) by auto
  have nonneg: "map (max 0) counts = counts" using t(3) by (simp add: map_idI max_def)
  show ?case
  proof (cases acc)
    case None
    then have "assign_type env threshold ps wls acc item = Inr None" by (simp add: assign_type_def item)
    then show ?thesis using Cons.IH[of None] Cons.prems(1) None by auto
  next
    case (Some groups)
    obtain ref where ref: "node_ref ps t = Inr ref" "pn_gpu_type ref = t" "pn_gpus_per_node ref = ref_gpus ps t"
      using node_ref_ok[OF t(1)] by blast
    let ?r = "foldl (assign_count env threshold wls ref) (Some groups) (List.enumerate 0 counts)"
    have step: "assign_type env threshold ps wls acc item = Inr ?r" using ref(1) by (simp add: assign_type_def item Some)
    have ok: "groups_ok (length wls) groups" using Cons.prems(2) Some by simp
    have r: "groups_ok (length wls) g \<and> demand (concat g) h = demand (concat groups) h +
        (if t = h then sum_list counts * ref_gpus ps t else 0)" if "?r = Some g" for g h
      using assign_counts_spec[OF that ok _ assms(1), of h] t(2) ref(2,3) nonneg by simp
    obtain res where res: "fold_result (assign_type env threshold ps wls) ?r items = Inr res"
      "\<forall>groups'. res = Some groups' \<longrightarrow> (\<exists>groups. ?r = Some groups \<and> groups_ok (length wls) groups' \<and>
       (\<forall>h. demand (concat groups') h = demand (concat groups) h +
         sum_list (map (\<lambda>(t, counts). if t = h then sum_list counts * ref_gpus ps t else 0) items)))"
      using Cons.IH[of ?r] Cons.prems(1) r by auto
    show ?thesis
    proof (intro exI[of _ res] conjI allI impI)
      show "fold_result (assign_type env threshold ps wls) acc (item # items) = Inr res" using step res(1) by simp
    next
      fix groups' assume "res = Some groups'"
      then obtain g where "?r = Some g" "groups_ok (length wls) groups'"
        "\<forall>h. demand (concat groups') h = demand (concat g) h +
           sum_list (map (\<lambda>(t, counts). if t = h then sum_list counts * ref_gpus ps t else 0) items)"
        using res(2) by blast
      then show "\<exists>groups. acc = Some groups \<and> groups_ok (length wls) groups' \<and> (\<forall>h. demand (concat groups') h =
          demand (concat groups) h +
          sum_list (map (\<lambda>(t, counts). if t = h then sum_list counts * ref_gpus ps t else 0) (item # items)))"
        using r[of g] Some item by simp
    qed
  qed
qed simp

section \<open>Within the inventory\<close>

text \<open>The nodes of a GPU type have the same number of GPUs.\<close>

definition uniform_nodes :: "physical_node list \<Rightarrow> bool" where
  "uniform_nodes ps \<longleftrightarrow> (\<forall>p \<in> set ps. \<forall>q \<in> set ps. pn_gpu_type p = pn_gpu_type q \<longrightarrow> pn_gpus_per_node p = pn_gpus_per_node q)"

lemma inventory_uniform:
  assumes "uniform_nodes ps" "\<forall>p \<in> set ps. 0 \<le> pn_count p"
  shows "inventory ps t = sum_list (map pn_count (filter (\<lambda>p. pn_gpu_type p = t) ps)) * ref_gpus ps t"
proof -
  have gpus: "pn_gpus_per_node p = ref_gpus ps t" if "p \<in> set ps" "pn_gpu_type p = t" for p
    using node_ref_ok[of t ps] assms(1) that by (metis imageI uniform_nodes_def)
  have "inventory qs t = sum_list (map pn_count (filter (\<lambda>p. pn_gpu_type p = t) qs)) * ref_gpus ps t"
    if "set qs \<subseteq> set ps" for qs
    using that assms(2) gpus by (induction qs) (auto simp: inventory_def algebra_simps)
  then show ?thesis by blast
qed

lemma sum_list_single_key:
  fixes f :: "'v \<Rightarrow> int"
  assumes "distinct (map fst xs)"
  shows "sum_list (map (\<lambda>(k, v). if k = h then f v else 0) xs) = (case map_of xs h of None \<Rightarrow> 0 | Some v \<Rightarrow> f v)"
  using assms by (induction xs) (force split: option.split)+

lemma workload_assignments_spec:
  assumes "\<forall>p \<in> set ps. 0 \<le> pn_count p" "\<forall>p \<in> set ps. 0 \<le> pn_gpus_per_node p" "uniform_nodes ps" "wls \<noteq> []"
    and "\<forall>wl \<in> set wls. tp_ok wl" "comb \<in> set (all_combinations ps (length wls))"
  shows "\<exists>res. workload_assignments env threshold ps wls comb = Inr res \<and>
    (\<forall>groups. res = Some groups \<longrightarrow> groups_ok (length wls) groups \<and> (\<forall>h. demand (concat groups) h \<le> inventory ps h))"
proof -
  obtain k where k: "length wls = Suc k" using assms(4) by (cases wls) auto
  let ?gs = "node_groups ps" and ?items = "zip (map fst (node_groups ps)) comb"
  have comb: "list_all2 (\<lambda>counts (t, n). counts \<in> parts n (length wls)) comb ?gs"
  proof -
    have "list_all2 (\<lambda>x ys. x \<in> set ys) comb (map (\<lambda>(t, n). generate_partitions n (length wls)) ?gs)"
      using assms(6) by (simp add: all_combinations_def product_lists_set)
    then have "list_all2 (\<lambda>x (t, n). x \<in> set (generate_partitions n (length wls))) comb ?gs"
      by (simp add: list_all2_map2 case_prod_beta')
    moreover have "set (generate_partitions n (length wls)) = parts n (length wls)" if "(t, n) \<in> set ?gs" for t n
      using node_groups_nonneg[OF assms(1) that] set_generate_partitions[of n k] by (simp add: k)
    ultimately show ?thesis by (fastforce elim: list.rel_mono_strong)
  qed
  have len: "length comb = length ?gs" using comb by (rule list_all2_lengthD)
  have item: "t \<in> pn_gpu_type ` set ps \<and> counts \<in> parts (sum_list (map pn_count (filter (\<lambda>p. pn_gpu_type p = t) ps))) (length wls)"
    if tc: "(t, counts) \<in> set ?items" for t counts
  proof -
    obtain i where i: "i < length ?gs" "fst (?gs ! i) = t" "comb ! i = counts" using tc len by (auto simp: in_set_zip)
    then obtain n where n: "?gs ! i = (t, n)" by (metis prod.collapse)
    then have "(t, n) \<in> set ?gs" using i(1) by (metis nth_mem)
    moreover have "counts \<in> parts n (length wls)" using list_all2_nthD2[OF comb i(1)] i(3) n by simp
    ultimately show ?thesis using node_groups_entry[of t n ps] node_groups_keys[of ps] by force
  qed
  have "distinct (map fst ?items)" using node_groups_wf[of ps] len by (simp add: wf_dict_def)
  then have items_sum: "sum_list (map (\<lambda>(t, counts). if t = h then sum_list counts * ref_gpus ps t else 0) ?items) \<le> inventory ps h" for h
  proof -
    have same: "(\<lambda>(t, counts). if t = h then sum_list counts * ref_gpus ps t else 0) =
        (\<lambda>(t, counts). if t = h then sum_list counts * ref_gpus ps h else 0)" by (auto simp: fun_eq_iff)
    have "0 \<le> inventory ps h" using assms(1,2) unfolding inventory_def by (intro sum_list_nonneg) auto
    moreover have "sum_list counts * ref_gpus ps h = inventory ps h" if "map_of ?items h = Some counts" for counts
      using item[of h counts] map_of_SomeD[OF that] inventory_uniform[OF assms(3,1), of h] by (simp add: parts_def)
    ultimately show ?thesis
      unfolding same sum_list_single_key[OF \<open>distinct (map fst ?items)\<close>, of h "\<lambda>counts. sum_list counts * ref_gpus ps h"]
      by (simp split: option.split)
  qed
  have "\<forall>(t, counts) \<in> set ?items. t \<in> pn_gpu_type ` set ps \<and> length counts = length wls \<and> (\<forall>x \<in> set counts. 0 \<le> x)"
    using item by (auto simp: parts_def)
  moreover have "groups_ok (length wls) (replicate (length wls) [])" "demand (concat (replicate n [])) h = 0" for n h
    by (auto simp: groups_ok_def)
  ultimately show ?thesis
    using assign_types_spec[OF assms(5), of ?items ps "Some (replicate (length wls) [])" env threshold] items_sum
    unfolding workload_assignments_def by fastforce
qed


section \<open>Nodes of a candidate\<close>

definition nodes_within :: "(string \<Rightarrow> int) \<Rightarrow> node_configuration list \<times> nat \<Rightarrow> bool" where
  "nodes_within d st \<longleftrightarrow> named st \<and> (\<forall>h. gpus_where (\<lambda>n. nc_hardware n = h) (fst st) \<le> d h)"

lemma within_step:
  assumes "assignment_ok a" "nodes_within d st"
  shows "\<exists>st'. place_replicas (as_gpu_type a) (as_gpus_per_node a) m (as_tp_size a) st = Inr st' \<and>
    nodes_within (\<lambda>h. d h + (if as_gpu_type a = h then as_gpus_per_node a else 0)) st'"
proof -
  have tp: "1 \<le> as_tp_size a" "as_tp_size a \<le> as_gpus_per_node a" "named st"
    using assms by (simp_all add: assignment_ok_def nodes_within_def)
  obtain new where new: "place_replicas (as_gpu_type a) (as_gpus_per_node a) m (as_tp_size a) st = Inr (fst st @ new, snd st + length new)"
    "named (fst st @ new, snd st + length new)"
    "\<And>h. gpus_where (\<lambda>n. nc_hardware n = h) new \<le> (if h = as_gpu_type a then as_gpus_per_node a else 0)"
    using place_replicas_ok[OF tp, of "as_gpu_type a" m] by metis
  have "gpus_where (\<lambda>n. nc_hardware n = h) (fst st @ new) \<le> d h + (if as_gpu_type a = h then as_gpus_per_node a else 0)" for h
  proof -
    have "gpus_where (\<lambda>n. nc_hardware n = h) (fst st) \<le> d h" using assms(2) by (simp add: nodes_within_def)
    then show ?thesis using new(3)[of h] by (simp add: eq_commute[of h] split: if_splits)
  qed
  then show ?thesis using new(1,2) by (simp add: nodes_within_def)
qed

lemma within_repeat:
  assumes "assignment_ok a" "nodes_within d st"
  shows "\<exists>st'. fold_result (\<lambda>nc _. place_replicas (as_gpu_type a) (as_gpus_per_node a) m (as_tp_size a) nc) st
      (replicate n ()) = Inr st' \<and>
    nodes_within (\<lambda>h. d h + int n * (if as_gpu_type a = h then as_gpus_per_node a else 0)) st'"
proof (induction n)
  case (Suc n)
  then obtain st1 where st1: "fold_result (\<lambda>nc _. place_replicas (as_gpu_type a) (as_gpus_per_node a) m (as_tp_size a) nc) st
      (replicate n ()) = Inr st1"
    "nodes_within (\<lambda>h. d h + int n * (if as_gpu_type a = h then as_gpus_per_node a else 0)) st1" by blast
  have rep: "replicate (Suc n) () = replicate n () @ [()]" by (simp add: replicate_append_same)
  have "(\<lambda>h. d h + int n * (if as_gpu_type a = h then as_gpus_per_node a else 0) + (if as_gpu_type a = h then as_gpus_per_node a else 0)) =
      (\<lambda>h. d h + int (Suc n) * (if as_gpu_type a = h then as_gpus_per_node a else 0))"
    by (simp add: fun_eq_iff algebra_simps)
  then show ?case using within_step[OF assms(1) st1(2), of m] st1(1) unfolding rep fold_result_snoc by simp
qed (use assms(2) in simp)

lemma within_expand:
  assumes "assignment_ok a" "nodes_within d (fst st)"
  shows "\<exists>st'. expand_assignment m st a = Inr st' \<and> nodes_within (\<lambda>h. d h + demand [a] h) (fst st')"
proof -
  obtain nodes cost where st: "st = (nodes, cost)" by fastforce
  have "int (nat (as_count a)) = as_count a" using assms(1) by (simp add: assignment_ok_def)
  then have "nodes_within (\<lambda>h. d h + int (nat (as_count a)) * (if as_gpu_type a = h then as_gpus_per_node a else 0)) =
      nodes_within (\<lambda>h. d h + demand [a] h)"
    by (intro arg_cong[where f = nodes_within] ext) (simp add: demand_def)
  then show ?thesis
    using within_repeat[OF assms, of m "nat (as_count a)"] by (auto simp: expand_assignment_def st)
qed

lemma within_group:
  assumes "\<forall>a \<in> set as. assignment_ok a" "nodes_within d (fst st)"
  shows "\<exists>st'. fold_result (expand_assignment m) st as = Inr st' \<and> nodes_within (\<lambda>h. d h + demand as h) (fst st')"
  using assms
proof (induction as arbitrary: d st)
  case (Cons a as)
  then obtain st1 where st1: "expand_assignment m st a = Inr st1" "nodes_within (\<lambda>h. d h + demand [a] h) (fst st1)"
    using within_expand[of a d st m] by auto
  have "(\<lambda>h. d h + demand [a] h + demand as h) = (\<lambda>h. d h + demand (a # as) h)" by (simp add: demand_def fun_eq_iff)
  then show ?case using Cons.IH[OF _ st1(2)] Cons.prems(1) st1(1) by simp
qed simp

lemma candidate_nodes_within:
  assumes "groups_ok (length wls) groups"
  shows "\<exists>nodes cost. candidate_nodes wls groups = Inr (nodes, cost) \<and> distinct (map node_id nodes) \<and>
    (\<forall>h. gpus_where (\<lambda>n. nc_hardware n = h) nodes \<le> demand (concat groups) h)"
proof -
  let ?step = "\<lambda>st (wl, as). fold_result (expand_assignment (wc_model_id wl)) st as"
  have "\<exists>st'. fold_result ?step st (zip ws gs) = Inr st' \<and> nodes_within (\<lambda>h. d h + demand (concat gs) h) (fst st')"
    if "length ws = length gs" "\<forall>a \<in> set (concat gs). assignment_ok a" "nodes_within d (fst st)" for ws gs d st
    using that
  proof (induction ws gs arbitrary: d st rule: list_induct2)
    case (Cons w ws g gs)
    then obtain st1 where st1: "fold_result (expand_assignment (wc_model_id w)) st g = Inr st1"
        "nodes_within (\<lambda>h. d h + demand g h) (fst st1)"
      using within_group[of g d st "wc_model_id w"] by auto
    then show ?case using Cons.IH[OF _ st1(2)] Cons.prems(1) by (simp add: add.assoc)
  qed simp
  from this[of wls groups "\<lambda>_. 0" "(([], 0), 0)"] obtain st' where
    st': "fold_result ?step (([], 0), 0) (zip wls groups) = Inr st'" "nodes_within (demand (concat groups)) (fst st')"
    using assms by (auto simp: groups_ok_def nodes_within_def named_def)
  obtain nodes k cost where "st' = ((nodes, k), cost)" by (metis surj_pair)
  then show ?thesis using st' named_distinct[of nodes k] by (auto simp: candidate_nodes_def nodes_within_def)
qed

section \<open>The best candidate\<close>

text \<open>The nodes a combination stands for, and its simulated throughput, when it has one.\<close>

definition candidate_value ::
    "planner_env \<Rightarrow> real \<Rightarrow> real \<Rightarrow> physical_node list \<Rightarrow> workload_config list \<Rightarrow> nat \<times> int list list \<Rightarrow>
     (node_configuration list \<times> real) option" where
  "candidate_value env threshold duration ps wls item =
     (case item of (i, combination) \<Rightarrow>
        case workload_assignments env threshold ps wls combination of
          Inr (Some groups) \<Rightarrow> (case candidate_nodes wls groups of
              Inr (nodes, cost) \<Rightarrow>
                if nodes = [] then None
                else (case simulate_candidate env wls duration i nodes of
                        Some (Inr t) \<Rightarrow> Some (nodes, t) | _ \<Rightarrow> None)
            | _ \<Rightarrow> None)
        | _ \<Rightarrow> None)"

lemma simulate_candidate_returns: "\<exists>r. simulate_candidate env wls duration i nodes = Some r"
proof (cases "prepare_candidate env wls duration i nodes")
  case (Inr s)
  obtain el1 cl1 where s: "s = (el1, cl1)" by fastforce
  have "\<exists>r. run_loop (register_event_handlers (pe_md5 env)) (Fin (duration * 10)) (Some 100000) 0 (el1\<lparr>running := True\<rparr>) cl1 = Some r"
    by (rule run_loop_budget) simp
  then show ?thesis by (auto simp: simulate_candidate_def Inr s run_def)
qed (simp add: simulate_candidate_def)

lemma try_candidate_spec:
  assumes "workload_assignments env threshold ps wls comb = Inr res"
    and "\<And>groups. res = Some groups \<Longrightarrow> groups_ok (length wls) groups"
  shows "\<exists>st'. try_candidate env threshold duration ps wls st (i, comb) = Inr st' \<and>
    (case candidate_value env threshold duration ps wls (i, comb) of
       None \<Rightarrow> st' = st
     | Some (nodes, t) \<Rightarrow>
         map ci_throughput (sr_candidates st') = map ci_throughput (sr_candidates st) @ [t] \<and>
         (if sr_best_throughput st < t then sr_best_throughput st' = t \<and> sr_best_config st' = nodes
          else sr_best_throughput st' = sr_best_throughput st \<and> sr_best_config st' = sr_best_config st))"
proof (cases res)
  case None
  then show ?thesis using assms(1) by (simp add: try_candidate_def candidate_value_def)
next
  case (Some groups)
  obtain nodes cost where n: "candidate_nodes wls groups = Inr (nodes, cost)"
    using candidate_nodes_within[OF assms(2)[OF Some]] by blast
  obtain r where "simulate_candidate env wls duration i nodes = Some r" using simulate_candidate_returns by blast
  then show ?thesis
    using assms(1) Some n
    by (cases r) (auto simp: try_candidate_def candidate_value_def record_candidate_def Let_def)
qed

lemma candidate_value_within:
  assumes "workload_assignments env threshold ps wls comb = Inr res"
    and "\<And>groups. res = Some groups \<Longrightarrow> groups_ok (length wls) groups \<and> (\<forall>h. demand (concat groups) h \<le> inventory ps h)"
    and "candidate_value env threshold duration ps wls (i, comb) = Some (nodes, t)"
  shows "distinct (map node_id nodes) \<and> (\<forall>h. gpus_where (\<lambda>n. nc_hardware n = h) nodes \<le> inventory ps h)"
proof -
  obtain groups where g: "res = Some groups" using assms(1,3) by (cases res) (auto simp: candidate_value_def)
  obtain nodes' cost where n: "candidate_nodes wls groups = Inr (nodes', cost)" "distinct (map node_id nodes')"
    "\<forall>h. gpus_where (\<lambda>n. nc_hardware n = h) nodes' \<le> demand (concat groups) h"
    using candidate_nodes_within[of wls groups] assms(2)[OF g] by blast
  have "nodes = nodes'"
    using assms(1,3) g n(1) by (auto simp: candidate_value_def split: if_splits option.splits sum.splits)
  then show ?thesis using n assms(2)[OF g] by (meson order.trans)
qed


definition first_best :: "(node_configuration list \<times> real) option list \<Rightarrow> node_configuration list \<Rightarrow> real \<Rightarrow> bool" where
  "first_best vals best throughput \<longleftrightarrow>
     (\<exists>before after. vals = before @ Some (best, throughput) # after \<and>
        (\<forall>nodes t. Some (nodes, t) \<in> set before \<longrightarrow> t < throughput))"

definition best_among ::
    "(node_configuration list \<times> real) option list \<Rightarrow> node_configuration list \<Rightarrow> real \<Rightarrow> candidate_info list \<Rightarrow> bool" where
  "best_among vals best throughput infos \<longleftrightarrow>
     map ci_throughput infos = concat (map (\<lambda>v. case v of None \<Rightarrow> [] | Some (nodes, t) \<Rightarrow> [t]) vals) \<and>
     (\<forall>nodes t. Some (nodes, t) \<in> set vals \<longrightarrow> t \<le> throughput) \<and>
     (best = [] \<and> throughput = -1 \<or> first_best vals best throughput)"

lemma first_best_snoc: "first_best vals best b \<Longrightarrow> first_best (vals @ [v]) best b"
  unfolding first_best_def by (metis append.assoc append_Cons)

lemma best_among_skip: "best_among vals best b infos \<Longrightarrow> best_among (vals @ [None]) best b infos"
  using first_best_snoc[of vals best b None] by (auto simp: best_among_def)

lemma best_among_keep:
  assumes "best_among vals best b infos" "t \<le> b" "map ci_throughput infos' = map ci_throughput infos @ [t]"
  shows "best_among (vals @ [Some (nodes, t)]) best b infos'"
  using assms first_best_snoc[of vals best b "Some (nodes, t)"] by (auto simp: best_among_def)

lemma best_among_new:
  assumes "best_among vals best b infos" "b < t" "map ci_throughput infos' = map ci_throughput infos @ [t]"
  shows "best_among (vals @ [Some (nodes, t)]) nodes t infos'"
proof -
  have below: "s < t" if "Some (n, s) \<in> set vals" for n s
    using assms(1,2) that by (auto simp: best_among_def intro: order.strict_trans1)
  then have "first_best (vals @ [Some (nodes, t)]) nodes t" by (auto simp: first_best_def)
  then show ?thesis using assms(1,3) below by (auto simp: best_among_def intro: order.strict_implies_order)
qed

lemma search_fold:
  assumes "\<And>i comb. (i, comb) \<in> set items \<Longrightarrow> \<exists>res. workload_assignments env threshold ps wls comb = Inr res \<and>
      (\<forall>groups. res = Some groups \<longrightarrow> groups_ok (length wls) groups)"
  shows "\<exists>st. fold_result (try_candidate env threshold duration ps wls)
      \<lparr>sr_best_config = [], sr_best_throughput = -1, sr_candidates = []\<rparr> items = Inr st \<and>
    best_among (map (candidate_value env threshold duration ps wls) items) (sr_best_config st) (sr_best_throughput st) (sr_candidates st)"
  using assms
proof (induction items rule: rev_induct)
  case Nil
  then show ?case by (simp add: best_among_def)
next
  case (snoc item items)
  then obtain st where st: "fold_result (try_candidate env threshold duration ps wls)
      \<lparr>sr_best_config = [], sr_best_throughput = -1, sr_candidates = []\<rparr> items = Inr st"
    "best_among (map (candidate_value env threshold duration ps wls) items) (sr_best_config st) (sr_best_throughput st) (sr_candidates st)"
    by (metis UnI1 set_append)
  obtain i comb where item: "item = (i, comb)" by fastforce
  obtain res where "workload_assignments env threshold ps wls comb = Inr res"
      "\<And>groups. res = Some groups \<Longrightarrow> groups_ok (length wls) groups"
    using snoc.prems[of i comb] item by auto
  from try_candidate_spec[OF this, of duration st i] obtain st' where
    st': "try_candidate env threshold duration ps wls st item = Inr st'"
    "case candidate_value env threshold duration ps wls item of None \<Rightarrow> st' = st
     | Some (nodes, t) \<Rightarrow> map ci_throughput (sr_candidates st') = map ci_throughput (sr_candidates st) @ [t] \<and>
         (if sr_best_throughput st < t then sr_best_throughput st' = t \<and> sr_best_config st' = nodes
          else sr_best_throughput st' = sr_best_throughput st \<and> sr_best_config st' = sr_best_config st)"
    unfolding item by blast
  have "best_among (map (candidate_value env threshold duration ps wls) items @ [candidate_value env threshold duration ps wls item])
      (sr_best_config st') (sr_best_throughput st') (sr_candidates st')"
    using st'(2) best_among_skip[OF st(2)] best_among_keep[OF st(2)] best_among_new[OF st(2)]
    by (auto split: option.splits if_splits)
  then show ?case using st(1) st'(1) by (simp add: fold_result_snoc)
qed

text \<open>
  C35. The simulation search returns the best placement within the inventory. It always returns (each
  simulation does, and its exceptions only drop the candidate); the throughputs in the metadata are
  those of the candidates that could be simulated, in order; the result is the first of them with
  the greatest throughput; its nodes have different names and hold, per GPU type, at most the GPUs
  of the inventory, provided that all nodes of a type have the same number of GPUs.
\<close>

theorem simulation_search_best:
  assumes "\<forall>p \<in> set ps. 0 \<le> pn_count p" "\<forall>p \<in> set ps. 0 \<le> pn_gpus_per_node p" "uniform_nodes ps" "wls \<noteq> []"
    and "\<forall>wl \<in> set wls. tp_ok wl"
  shows "\<exists>best throughput infos. simulation_search env threshold duration ps wls = Inr (best, SearchMeta throughput infos) \<and>
    best_among (map (candidate_value env threshold duration ps wls) (List.enumerate 0 (all_combinations ps (length wls))))
      best throughput infos \<and>
    distinct (map node_id best) \<and> (\<forall>h. gpus_where (\<lambda>n. nc_hardware n = h) best \<le> inventory ps h)"
proof -
  let ?items = "List.enumerate 0 (all_combinations ps (length wls))"
  let ?vals = "map (candidate_value env threshold duration ps wls) ?items"
  have mem: "comb \<in> set (all_combinations ps (length wls))" if "(i, comb) \<in> set ?items" for i comb
    using that by (auto simp: in_set_enumerate_eq nth_mem)
  note spec = workload_assignments_spec[OF assms mem, of _ _ env threshold]
  obtain st where st: "fold_result (try_candidate env threshold duration ps wls)
      \<lparr>sr_best_config = [], sr_best_throughput = -1, sr_candidates = []\<rparr> ?items = Inr st"
    "best_among ?vals (sr_best_config st) (sr_best_throughput st) (sr_candidates st)"
    using search_fold[of ?items env threshold ps wls duration] spec by blast
  have empty: "0 \<le> inventory ps h" for h using assms(1,2) unfolding inventory_def by (intro sum_list_nonneg) auto
  have "distinct (map node_id (sr_best_config st)) \<and>
      (\<forall>h. gpus_where (\<lambda>n. nc_hardware n = h) (sr_best_config st) \<le> inventory ps h)"
  proof (cases "sr_best_config st = []")
    case False
    then have "first_best ?vals (sr_best_config st) (sr_best_throughput st)" using st(2) by (simp add: best_among_def)
    then have "Some (sr_best_config st, sr_best_throughput st) \<in> set ?vals" unfolding first_best_def by force
    then obtain k comb where kc: "(k, comb) \<in> set ?items"
      and "candidate_value env threshold duration ps wls (k, comb) = Some (sr_best_config st, sr_best_throughput st)"
      by auto
    then show ?thesis using candidate_value_within spec[OF kc] by blast
  qed (simp add: empty)
  then show ?thesis using st assms(4) by (simp add: simulation_search_def)
qed

theorem simulation_search_best_witness:
  "\<exists>best throughput infos. simulation_search sample_planner_env (8 / 10) 10 sample_nodes sample_workloads =
     Inr (best, SearchMeta throughput infos) \<and> distinct (map node_id best) \<and>
     gpus_where (\<lambda>n. nc_hardware n = ''NVDA:A100'') best \<le> 16"
proof -
  have hyps: "\<forall>p \<in> set sample_nodes. 0 \<le> pn_count p" "\<forall>p \<in> set sample_nodes. 0 \<le> pn_gpus_per_node p"
      "uniform_nodes sample_nodes"
    by (simp_all add: sample_nodes_def uniform_nodes_def)
  have "inventory sample_nodes ''NVDA:A100'' = 16" by (simp add: inventory_def sample_nodes_def)
  then show ?thesis
    using simulation_search_best[OF hyps sample_placement_ok(3,4), of sample_planner_env "8 / 10" 10] by metis
qed

theorem all_combinations_exact_witness:
  "length (all_combinations sample_nodes 2) = 6 \<and> [[1, 1], [0, 1]] \<in> set (all_combinations sample_nodes 2)"
proof -
  have "\<forall>p \<in> set sample_nodes. 0 \<le> pn_count p" by (simp add: sample_nodes_def)
  moreover have "node_groups sample_nodes = [(''NVDA:A100'', 2), (''NVDA:RTX3090'', 1)]"
    by (simp add: node_groups_def sample_nodes_def dict_getd_def)
  ultimately show ?thesis
    using all_combinations_exact[of sample_nodes 2] by (simp add: sample_nodes_def)
qed

text \<open>
  Without that proviso the search overcommits: it takes the size of the first node of a type for
  all of them. Here a node with 8 and one with 4 GPUs of a type are planned as 16 GPUs.
\<close>

definition mixed_nodes :: "physical_node list" where
  "mixed_nodes = [\<lparr>pn_gpu_type = ''NVDA:A100'', pn_count = 1, pn_gpus_per_node = 8, pn_cost = 5\<rparr>,
     \<lparr>pn_gpu_type = ''NVDA:A100'', pn_count = 1, pn_gpus_per_node = 4, pn_cost = 3\<rparr>]"

theorem search_overcommits_mixed_nodes:
  "\<exists>groups nodes cost. [[2]] \<in> set (all_combinations mixed_nodes 1) \<and>
     workload_assignments sample_planner_env (8 / 10) mixed_nodes [hd sample_workloads] [[2]] = Inr (Some groups) \<and>
     candidate_nodes [hd sample_workloads] groups = Inr (nodes, cost) \<and>
     inventory mixed_nodes ''NVDA:A100'' = 12 \<and> gpus_where (\<lambda>n. nc_hardware n = ''NVDA:A100'') nodes = 16"
proof -
  let ?g = "[[\<lparr>as_gpu_type = ''NVDA:A100'', as_count = 2, as_gpus_per_node = 8, as_tp_size = 4, as_cost = 5\<rparr>]]"
  let ?n = "map (\<lambda>r. replica_node r ''chat'' ''NVDA:A100'' 4) [0, 1, 2, 3]"
  have "workload_assignments sample_planner_env (8 / 10) mixed_nodes [hd sample_workloads] [[2]] = Inr (Some ?g)"
    by (simp add: workload_assignments_def node_groups_def mixed_nodes_def dict_getd_def assign_type_def node_ref_def
        assign_count_def min_tp_for_def sample_workloads_def)
  moreover have "candidate_nodes [hd sample_workloads] ?g = Inr (?n, 10)"
    by (simp add: candidate_nodes_def expand_assignment_def place_replicas_def sample_workloads_def numeral_2_eq_2 numeral_3_eq_3 upt_rec)
  moreover have "[[2]] \<in> set (all_combinations mixed_nodes 1)"
    by (simp add: all_combinations_def node_groups_def mixed_nodes_def dict_getd_def)
  moreover have "gpus_where (\<lambda>n. nc_hardware n = ''NVDA:A100'') ?n = 16"
    by (simp add: gpus_where_def node_gpus_def tp_config_def normalize_parallel_config_def with_defaults_def)
  moreover have "inventory mixed_nodes ''NVDA:A100'' = 12" by (simp add: inventory_def mixed_nodes_def)
  ultimately show ?thesis by blast
qed

end
