(* ===== verification/Kv_Allocator.thy ===== *)
theory Kv_Allocator
  imports Hexgen_Prelude "HOL-Library.Multiset"
begin

text \<open>
  The slot allocators of the serving runtime, under \<open>src/runtime/python/sglang/srt/mem_cache\<close>:
  \<open>TokenToKVPoolAllocator\<close> of \<open>allocator.py\<close> with the operations it inherits (KV cache slots, freed slots
  are kept apart and merged on demand, frees may be deferred in a group), and \<open>ReqToTokenPool\<close> of
  \<open>memory_pool.py\<close> (rows of request slots). Tensors are lists.

  Both are instances of the locale \<open>slot_pool\<close>, whose laws say that slots are neither lost nor
  duplicated; its lemmas give the ownership discipline that the prefix cache relies on.
\<close>

section \<open>KV slots\<close>

record kv_allocator =
  kv_size :: nat
  kv_free_pages :: "int list"
  kv_release_pages :: "int list"
  kv_not_in_free_group :: bool
  kv_free_group :: "int list list"

definition kv_clear :: "kv_allocator \<Rightarrow> kv_allocator" where
  "kv_clear a = a\<lparr>kv_free_pages := [1..int (kv_size a)], kv_release_pages := [], kv_not_in_free_group := True,
     kv_free_group := []\<rparr>"

definition TokenToKVPoolAllocator :: "nat \<Rightarrow> kv_allocator" where
  "TokenToKVPoolAllocator n = kv_clear \<lparr>kv_size = n, kv_free_pages = [], kv_release_pages = [],
     kv_not_in_free_group = True, kv_free_group = []\<rparr>"

definition kv_available_size :: "kv_allocator \<Rightarrow> nat" where
  "kv_available_size a = length (kv_free_pages a) + length (kv_release_pages a)"

definition merge_and_sort_free :: "kv_allocator \<Rightarrow> kv_allocator" where
  "merge_and_sort_free a =
     (if kv_release_pages a \<noteq> []
      then a\<lparr>kv_free_pages := sort (kv_free_pages a @ kv_release_pages a), kv_release_pages := []\<rparr> else a)"

definition kv_alloc :: "nat \<Rightarrow> kv_allocator \<Rightarrow> int list option \<times> kv_allocator" where
  "kv_alloc need_size a =
     (let a1 = (if length (kv_free_pages a) < need_size then merge_and_sort_free a else a) in
      if length (kv_free_pages a1) < need_size then (None, a1)
      else (Some (take need_size (kv_free_pages a1)), a1\<lparr>kv_free_pages := drop need_size (kv_free_pages a1)\<rparr>))"

definition kv_free :: "int list \<Rightarrow> kv_allocator \<Rightarrow> kv_allocator" where
  "kv_free free_index a =
     (if free_index = [] then a
      else if kv_not_in_free_group a then a\<lparr>kv_release_pages := kv_release_pages a @ free_index\<rparr>
      else a\<lparr>kv_free_group := kv_free_group a @ [free_index]\<rparr>)"

definition free_group_begin :: "kv_allocator \<Rightarrow> kv_allocator" where
  "free_group_begin a = a\<lparr>kv_not_in_free_group := False, kv_free_group := []\<rparr>"

definition free_group_end :: "kv_allocator \<Rightarrow> kv_allocator" where
  "free_group_end a =
     (let a1 = a\<lparr>kv_not_in_free_group := True\<rparr> in
      if kv_free_group a1 \<noteq> [] then kv_free (concat (kv_free_group a1)) a1 else a1)"

definition backup_state :: "kv_allocator \<Rightarrow> int list \<times> int list" where
  "backup_state a = (kv_free_pages a, kv_release_pages a)"

definition restore_state :: "int list \<times> int list \<Rightarrow> kv_allocator \<Rightarrow> kv_allocator" where
  "restore_state st a = a\<lparr>kv_free_pages := fst st, kv_release_pages := snd st\<rparr>"

section \<open>Request slots\<close>

record req_pool =
  rp_size :: nat
  rp_req_to_token :: "int list list"
  rp_free_slots :: "int list"

definition ReqToTokenPool :: "nat \<Rightarrow> nat \<Rightarrow> req_pool" where
  "ReqToTokenPool n max_context_len =
     \<lparr>rp_size = n, rp_req_to_token = replicate n (replicate max_context_len 0), rp_free_slots = [0..int n - 1]\<rparr>"

text \<open>\<open>write((row, slice(start, stop)), values)\<close> for values of the length of the slice.\<close>

definition rp_write :: "nat \<Rightarrow> nat \<Rightarrow> int list \<Rightarrow> req_pool \<Rightarrow> req_pool" where
  "rp_write row start values p =
     (let r = rp_req_to_token p ! row
      in p\<lparr>rp_req_to_token := (rp_req_to_token p)[row := take start r @ values @ drop (start + length values) r]\<rparr>)"

definition rp_available_size :: "req_pool \<Rightarrow> nat" where
  "rp_available_size p = length (rp_free_slots p)"

definition rp_alloc :: "nat \<Rightarrow> req_pool \<Rightarrow> int list option \<times> req_pool" where
  "rp_alloc need_size p =
     (if length (rp_free_slots p) < need_size then (None, p)
      else (Some (take need_size (rp_free_slots p)), p\<lparr>rp_free_slots := drop need_size (rp_free_slots p)\<rparr>))"

definition rp_free :: "int list \<Rightarrow> req_pool \<Rightarrow> req_pool" where
  "rp_free free_index p = p\<lparr>rp_free_slots := rp_free_slots p @ free_index\<rparr>"

definition rp_clear :: "req_pool \<Rightarrow> req_pool" where
  "rp_clear p = p\<lparr>rp_free_slots := [0..int (rp_size p) - 1]\<rparr>"

section \<open>The interface\<close>

lemma count_mset_set_le: "count (mset_set U) x \<le> 1"
  by (cases "finite U \<and> x \<in> U") auto

locale slot_pool =
  fixes items :: "'p \<Rightarrow> int multiset"
    and available :: "'p \<Rightarrow> nat"
    and alloc :: "nat \<Rightarrow> 'p \<Rightarrow> int list option \<times> 'p"
    and free :: "int list \<Rightarrow> 'p \<Rightarrow> 'p"
  assumes free_items: "items (free idx p) = items p + mset idx"
    and alloc_Some: "alloc n p = (Some idx, p') \<Longrightarrow> items p = mset idx + items p' \<and> length idx = n"
    and alloc_None: "alloc n p = (None, p') \<Longrightarrow> items p' = items p"
    and alloc_enough: "(\<exists>idx p'. alloc n p = (Some idx, p')) \<longleftrightarrow> n \<le> available p"
    and available_le: "available p \<le> size (items p)"
begin

text \<open>Ownership: the slots of the pool and those handed out make up the universe exactly.\<close>

definition owns :: "int set \<Rightarrow> int multiset \<Rightarrow> 'p \<Rightarrow> bool" where
  "owns U held p \<longleftrightarrow> finite U \<and> items p + held = mset_set U"

lemma owns_disjoint: "owns U held p \<Longrightarrow> set_mset (items p) \<inter> set_mset held = {}"
proof (rule ccontr)
  assume o: "owns U held p" and "\<not> ?thesis"
  then obtain x where "x \<in># items p" "x \<in># held" by auto
  then have "1 \<le> count (items p) x" "1 \<le> count held x" unfolding Suc_le_eq One_nat_def by (simp_all only: count_greater_zero_iff)
  moreover have "count (items p) x + count held x \<le> 1"
    using o count_mset_set_le[of U x] unfolding owns_def by (metis count_union)
  ultimately show False by linarith
qed

lemma owns_distinct: "owns U (held + mset idx) p \<Longrightarrow> distinct idx"
proof -
  assume o: "owns U (held + mset idx) p"
  have le: "count (mset idx) x \<le> 1" for x
    using o count_mset_set_le[of U x] unfolding owns_def by (metis add_leE count_union)
  have "count (mset idx) x = (if x \<in> set idx then 1 else 0)" for x
  proof (cases "x \<in> set idx")
    case True
    then have "0 < count (mset idx) x" by simp
    then have "count (mset idx) x = 1" using le[of x] by linarith
    then show ?thesis using True by simp
  qed (simp add: count_eq_zero_iff)
  then show ?thesis by (simp add: distinct_count_atmost_1)
qed

lemma alloc_owns: "owns U held p \<Longrightarrow> alloc n p = (Some idx, p') \<Longrightarrow> owns U (held + mset idx) p'"
  using alloc_Some[of n p idx p'] by (auto simp: owns_def ac_simps)

lemma alloc_None_owns: "owns U held p \<Longrightarrow> alloc n p = (None, p') \<Longrightarrow> owns U held p'"
  using alloc_None[of n p p'] by (simp add: owns_def)

lemma free_owns: "owns U (held + mset idx) p \<Longrightarrow> owns U held (free idx p)"
  by (simp add: owns_def free_items ac_simps)

text \<open>A fresh allocation never overlaps with what is already held.\<close>

lemma alloc_fresh:
  assumes "owns U held p" "alloc n p = (Some idx, p')"
  shows "distinct idx" "set idx \<inter> set_mset held = {}" "set idx \<subseteq> U"
proof -
  have o: "owns U (held + mset idx) p'" using assms by (rule alloc_owns)
  then show "distinct idx" by (rule owns_distinct)
  have "set idx \<subseteq> set_mset (items p)" using alloc_Some[OF assms(2)] by auto
  then show "set idx \<inter> set_mset held = {}" using owns_disjoint[OF assms(1)] by blast
  have "set_mset (items p' + (held + mset idx)) = U" using o by (simp add: owns_def)
  then show "set idx \<subseteq> U" by auto
qed

end

section \<open>The allocators are slot pools\<close>

definition kv_items :: "kv_allocator \<Rightarrow> int multiset" where
  "kv_items a = mset (kv_free_pages a) + mset (kv_release_pages a) +
     (if kv_not_in_free_group a then {#} else mset (concat (kv_free_group a)))"

interpretation kv: slot_pool kv_items kv_available_size kv_alloc kv_free
proof
  fix idx :: "int list" and a :: kv_allocator
  show "kv_items (kv_free idx a) = kv_items a + mset idx" by (simp add: kv_items_def kv_free_def ac_simps)
next
  fix n idx and a a' :: kv_allocator
  assume al: "kv_alloc n a = (Some idx, a')"
  define b where "b = (if length (kv_free_pages a) < n then merge_and_sort_free a else a)"
  have b: "kv_items b = kv_items a" by (simp add: b_def merge_and_sort_free_def kv_items_def)
  have "n \<le> length (kv_free_pages b)" "idx = take n (kv_free_pages b)" "a' = b\<lparr>kv_free_pages := drop n (kv_free_pages b)\<rparr>"
    using al by (auto simp: kv_alloc_def Let_def b_def[symmetric] split: if_splits)
  moreover have "mset (kv_free_pages b) = mset (take n (kv_free_pages b)) + mset (drop n (kv_free_pages b))"
    by (metis append_take_drop_id mset_append)
  ultimately have "kv_items b = mset idx + kv_items a' \<and> length idx = n" by (simp add: kv_items_def ac_simps)
  then show "kv_items a = mset idx + kv_items a' \<and> length idx = n" by (simp add: b)
next
  fix n and a a' :: kv_allocator
  assume "kv_alloc n a = (None, a')"
  then show "kv_items a' = kv_items a"
    by (auto simp: kv_alloc_def Let_def merge_and_sort_free_def kv_items_def split: if_splits)
next
  fix n and a :: kv_allocator
  show "(\<exists>idx a'. kv_alloc n a = (Some idx, a')) \<longleftrightarrow> n \<le> kv_available_size a"
    by (auto simp: kv_alloc_def Let_def merge_and_sort_free_def kv_available_size_def)
next
  fix a :: kv_allocator
  show "kv_available_size a \<le> size (kv_items a)" by (simp add: kv_available_size_def kv_items_def)
qed

interpretation rp: slot_pool "\<lambda>p. mset (rp_free_slots p)" rp_available_size rp_alloc rp_free
  by unfold_locales
    (auto simp: rp_free_def rp_alloc_def rp_available_size_def split: if_splits simp flip: mset_append)

section \<open>Runs of the KV allocator\<close>

text \<open>
  The states a client can reach from a fresh allocator with what it holds: it allocates, frees
  held slots, and opens and closes groups of deferred frees, which do not nest.
\<close>

inductive kv_run :: "nat \<Rightarrow> int multiset \<Rightarrow> kv_allocator \<Rightarrow> bool" for n where
  start: "kv_run n {#} (TokenToKVPoolAllocator n)"
| alloc: "kv_run n held a \<Longrightarrow> kv_alloc k a = (Some idx, a') \<Longrightarrow> kv_run n (held + mset idx) a'"
| refused: "kv_run n held a \<Longrightarrow> kv_alloc k a = (None, a') \<Longrightarrow> kv_run n held a'"
| free: "kv_run n (held + mset idx) a \<Longrightarrow> kv_run n held (kv_free idx a)"
| begin_group: "kv_run n held a \<Longrightarrow> kv_not_in_free_group a \<Longrightarrow> kv_run n held (free_group_begin a)"
| end_group: "kv_run n held a \<Longrightarrow> \<not> kv_not_in_free_group a \<Longrightarrow> kv_run n held (free_group_end a)"

lemma fresh_items: "kv_items (TokenToKVPoolAllocator n) = mset_set {1..int n}"
proof -
  have "mset [1..int n] = mset_set (set [1..int n])" by (rule mset_set_set[symmetric]) simp
  then show ?thesis by (simp add: kv_items_def TokenToKVPoolAllocator_def kv_clear_def)
qed

lemma group_items:
  "kv_not_in_free_group a \<Longrightarrow> kv_items (free_group_begin a) = kv_items a"
  "\<not> kv_not_in_free_group a \<Longrightarrow> kv_items (free_group_end a) = kv_items a"
  by (auto simp: kv_items_def free_group_begin_def free_group_end_def kv_free_def Let_def)

lemma kv_run_owns: "kv_run n held a \<Longrightarrow> kv.owns {1..int n} held a"
proof (induction rule: kv_run.induct)
  case start
  then show ?case by (simp add: kv.owns_def fresh_items)
next
  case (begin_group held a)
  then show ?case by (simp add: kv.owns_def group_items)
next
  case (end_group held a)
  then show ?case by (simp add: kv.owns_def group_items)
qed (auto intro: kv.alloc_owns kv.alloc_None_owns kv.free_owns)

text \<open>
  KV slots are neither lost nor handed out twice. In every run of \<open>TokenToKVPoolAllocator\<close>, with
  allocations, frees of held slots and groups of deferred frees in any order, an allocation
  succeeds exactly when the free and the released slots together suffice; it then returns that
  many different slots between one and the size, none of which is held, and slot zero never. A
  refused allocation loses nothing: what is held and what is free always make up the pool.
\<close>

theorem kv_alloc_fresh:
  assumes "kv_run n held a"
  shows "(case kv_alloc k a of
      (Some idx, a') \<Rightarrow> k \<le> kv_available_size a \<and> length idx = k \<and> distinct idx \<and> set idx \<subseteq> {1..int n} \<and>
        set idx \<inter> set_mset held = {} \<and> kv_items a' + (held + mset idx) = mset_set {1..int n}
    | (None, a') \<Rightarrow> kv_available_size a < k \<and> kv_items a' + held = mset_set {1..int n})"
proof -
  have o: "kv.owns {1..int n} held a" using assms by (rule kv_run_owns)
  obtain r a' where al: "kv_alloc k a = (r, a')" by (cases "kv_alloc k a")
  show ?thesis
  proof (cases r)
    case None
    then have "kv_available_size a < k" using kv.alloc_enough[of k a] al by (auto simp: not_le[symmetric])
    then show ?thesis using kv.alloc_None_owns[OF o] al None by (simp add: kv.owns_def)
  next
    case (Some idx)
    then have al': "kv_alloc k a = (Some idx, a')" using al by simp
    then have "k \<le> kv_available_size a" using kv.alloc_enough[of k a] by blast
    then show ?thesis
      using kv.alloc_owns[OF o al'] kv.alloc_fresh[OF o al'] kv.alloc_Some[OF al'] by (simp add: al' kv.owns_def)
  qed
qed

theorem kv_alloc_fresh_witness:
  "case kv_alloc 2 (TokenToKVPoolAllocator 3) of
     (Some idx, a') \<Rightarrow> idx = [1, 2] \<and> distinct idx \<and> set idx \<subseteq> {1..3} | (None, a') \<Rightarrow> False"
proof -
  have "kv_alloc 2 (TokenToKVPoolAllocator 3) = (Some [1, 2], \<lparr>kv_size = 3, kv_free_pages = [3], kv_release_pages = [],
      kv_not_in_free_group = True, kv_free_group = []\<rparr>)"
    by code_simp
  then show ?thesis using kv_alloc_fresh[OF kv_run.start, of 3 2] by simp
qed

end
