(* ===== verification/Radix_Cache.thy ===== *)
theory Radix_Cache
  imports Kv_Allocator Py_Heapq
begin

text \<open>
  The prefix cache of the serving runtime, \<open>src/runtime/python/sglang/srt/mem_cache/radix_cache.py\<close>: a
  radix tree from token sequences to KV slots, shared between requests, with reference-counted
  locks and eviction of unlocked leaves.

  Nodes are mutable objects with parent pointers that requests keep references to, so they live in
  a store: \<open>rc_nodes\<close> maps addresses to nodes, \<open>rc_counter\<close> is \<open>TreeNode.counter\<close>, the next address.
  \<open>time.monotonic\<close> is a sequence of readings, \<open>hash\<close> of a tuple a parameter in the record. Calls
  of the allocator's \<open>free\<close> are recorded in \<open>rc_freed\<close>, in order; the caller hands them to its
  allocator. The key of a child is the first page of its tokens. The loops over the tree are partial functions:
  \<open>None\<close> stands for not returning, by running forever or by following a missing parent. Fields of
  \<open>TreeNode\<close> that only the hierarchical cache uses are left out.
\<close>

section \<open>State\<close>

record tree_node =
  tn_children :: "(int list, nat) dict"
  tn_parent :: "nat option"
  tn_key :: "int list"
  tn_value :: "int list"
  tn_lock_ref :: int
  tn_last_access_time :: real

datatype kv_event =
    BlockStored int "int option" "int list" int
  | BlockRemoved int
  | AllBlocksCleared

record radix_cache =
  rc_page_size :: nat
  rc_disable :: bool
  rc_enable_kv_cache_events :: bool
  rc_nodes :: "nat \<Rightarrow> tree_node"
  rc_counter :: nat
  rc_root :: nat
  rc_evictable_size :: int
  rc_protected_size :: int
  rc_kv_event_queue :: "kv_event list"
  rc_freed :: "int list list"
  rc_hash :: "int list \<Rightarrow> int"
  rc_clock :: "nat \<Rightarrow> real"
  rc_readings :: nat

abbreviation nd :: "radix_cache \<Rightarrow> nat \<Rightarrow> tree_node" where
  "nd c n \<equiv> rc_nodes c n"

definition upd_node :: "nat \<Rightarrow> (tree_node \<Rightarrow> tree_node) \<Rightarrow> radix_cache \<Rightarrow> radix_cache" where
  "upd_node n f c = c\<lparr>rc_nodes := (rc_nodes c)(n := f (rc_nodes c n))\<rparr>"

definition monotonic :: "radix_cache \<Rightarrow> real \<times> radix_cache" where
  "monotonic c = (rc_clock c (rc_readings c), c\<lparr>rc_readings := rc_readings c + 1\<rparr>)"

text \<open>\<open>node.last_access_time = time.monotonic()\<close>\<close>

definition touch :: "nat \<Rightarrow> radix_cache \<Rightarrow> radix_cache" where
  "touch n c = (let (t, c1) = monotonic c in upd_node n (\<lambda>x. x\<lparr>tn_last_access_time := t\<rparr>) c1)"

definition TreeNode :: "radix_cache \<Rightarrow> nat \<times> radix_cache" where
  "TreeNode c =
     (let (t, c1) = monotonic c; n = rc_counter c1 in
      (n, c1\<lparr>rc_counter := n + 1, rc_nodes := (rc_nodes c1)(n :=
         \<lparr>tn_children = [], tn_parent = None, tn_key = [], tn_value = [], tn_lock_ref = 0, tn_last_access_time = t\<rparr>)\<rparr>))"

section \<open>Events\<close>

text \<open>\<open>range(0, len(key), page_size)\<close> and the pages it starts.\<close>

fun pages_from :: "nat \<Rightarrow> int list \<Rightarrow> nat \<Rightarrow> int list list" where
  "pages_from p key 0 = []"
| "pages_from p key (Suc fuel) = (if key = [] then [] else take p key # pages_from p (drop p key) fuel)"

definition pages :: "nat \<Rightarrow> int list \<Rightarrow> int list list" where
  "pages p key = filter (\<lambda>page. page \<noteq> []) (pages_from p key (length key))"

fun stored_events :: "(int list \<Rightarrow> int) \<Rightarrow> int option \<Rightarrow> int list list \<Rightarrow> kv_event list" where
  "stored_events hash up [] = []"
| "stored_events hash up (page # rest) =
     BlockStored (hash page) up page (int (length page)) # stored_events hash (Some (hash page)) rest"

definition last_page :: "nat \<Rightarrow> int list \<Rightarrow> int list" where
  "last_page p key = (if key = [] then [] else drop ((length key - 1) div p * p) key)"

definition record_store_event :: "nat \<Rightarrow> radix_cache \<Rightarrow> radix_cache" where
  "record_store_event n c =
     (if rc_enable_kv_cache_events c
      then let parent_block_hash = (case tn_parent (nd c n) of None \<Rightarrow> None
                 | Some q \<Rightarrow> Some (rc_hash c (last_page (rc_page_size c) (tn_key (nd c q)))))
           in c\<lparr>rc_kv_event_queue := rc_kv_event_queue c @
                stored_events (rc_hash c) parent_block_hash (pages (rc_page_size c) (tn_key (nd c n)))\<rparr>
      else c)"

definition record_remove_event :: "nat \<Rightarrow> radix_cache \<Rightarrow> radix_cache" where
  "record_remove_event n c =
     (if rc_enable_kv_cache_events c
      then c\<lparr>rc_kv_event_queue := rc_kv_event_queue c @
             map (\<lambda>page. BlockRemoved (rc_hash c page)) (pages (rc_page_size c) (tn_key (nd c n)))\<rparr>
      else c)"

definition record_all_cleared_event :: "radix_cache \<Rightarrow> radix_cache" where
  "record_all_cleared_event c =
     (if rc_enable_kv_cache_events c then c\<lparr>rc_kv_event_queue := rc_kv_event_queue c @ [AllBlocksCleared]\<rparr> else c)"

definition take_events :: "radix_cache \<Rightarrow> kv_event list \<times> radix_cache" where
  "take_events c =
     (if \<not> rc_enable_kv_cache_events c then ([], c) else (rc_kv_event_queue c, c\<lparr>rc_kv_event_queue := []\<rparr>))"

section \<open>Keys\<close>

fun key_match_page_size1 :: "int list \<Rightarrow> int list \<Rightarrow> nat" where
  "key_match_page_size1 (x # xs) (y # ys) = (if x \<noteq> y then 0 else Suc (key_match_page_size1 xs ys))"
| "key_match_page_size1 _ _ = 0"

text \<open>The loop over the pages of two keys; a page size is positive.\<close>

function key_match_paged :: "nat \<Rightarrow> int list \<Rightarrow> int list \<Rightarrow> nat" where
  "key_match_paged p key0 key1 =
     (if p = 0 \<or> key0 = [] \<or> key1 = [] then 0
      else if take p key0 \<noteq> take p key1 then 0
      else p + key_match_paged p (drop p key0) (drop p key1))"
  by pat_completeness auto
termination
  by (relation "measure (\<lambda>(p, key0, key1). length key0)") auto

declare key_match_paged.simps [simp del]

definition key_match :: "radix_cache \<Rightarrow> int list \<Rightarrow> int list \<Rightarrow> nat" where
  "key_match c key0 key1 =
     (if rc_page_size c = 1 then key_match_page_size1 key0 key1 else key_match_paged (rc_page_size c) key0 key1)"

definition get_child_key :: "radix_cache \<Rightarrow> int list \<Rightarrow> int list" where
  "get_child_key c key = take (rc_page_size c) key"

section \<open>The cache\<close>

definition radix_reset :: "radix_cache \<Rightarrow> radix_cache" where
  "radix_reset c =
     (let (r, c1) = TreeNode c in
      record_all_cleared_event
        ((upd_node r (\<lambda>x. x\<lparr>tn_key := [], tn_value := [], tn_lock_ref := 1\<rparr>) c1)
           \<lparr>rc_root := r, rc_evictable_size := 0, rc_protected_size := 0\<rparr>))"

definition RadixCache :: "nat \<Rightarrow> bool \<Rightarrow> bool \<Rightarrow> (int list \<Rightarrow> int) \<Rightarrow> (nat \<Rightarrow> real) \<Rightarrow> radix_cache" where
  "RadixCache page_size disable events hash clock =
     radix_reset \<lparr>rc_page_size = page_size, rc_disable = disable, rc_enable_kv_cache_events = events,
       rc_nodes = (\<lambda>_. \<lparr>tn_children = [], tn_parent = None, tn_key = [], tn_value = [], tn_lock_ref = 0, tn_last_access_time = 0\<rparr>),
       rc_counter = 0, rc_root = 0, rc_evictable_size = 0, rc_protected_size = 0, rc_kv_event_queue = [], rc_freed = [],
       rc_hash = hash, rc_clock = clock, rc_readings = 0\<rparr>"

definition split_node :: "int list \<Rightarrow> nat \<Rightarrow> nat \<Rightarrow> radix_cache \<Rightarrow> (nat \<times> radix_cache) option" where
  "split_node key child split_len c =
     (let (new_node, c1) = TreeNode (record_remove_event child c); ch = nd c1 child in
      case tn_parent ch of
        None \<Rightarrow> None
      | Some q \<Rightarrow>
          let c2 = upd_node new_node (\<lambda>x. x\<lparr>tn_children := [(get_child_key c1 (drop split_len key), child)],
                     tn_parent := Some q, tn_lock_ref := tn_lock_ref ch, tn_key := take split_len (tn_key ch),
                     tn_value := take split_len (tn_value ch)\<rparr>) c1;
              c3 = upd_node child (\<lambda>x. x\<lparr>tn_parent := Some new_node, tn_key := drop split_len (tn_key x),
                     tn_value := drop split_len (tn_value x)\<rparr>) c2;
              c4 = upd_node q (\<lambda>x. x\<lparr>tn_children := AList.update (get_child_key c1 key) new_node (tn_children x)\<rparr>) c3
          in Some (new_node, record_store_event child (record_store_event new_node c4)))"

partial_function (option) match_loop ::
  "nat \<Rightarrow> int list \<Rightarrow> int list list \<Rightarrow> radix_cache \<Rightarrow> (int list list \<times> nat \<times> radix_cache) option" where
  "match_loop node key value c =
     (case (if key = [] then None else map_of (tn_children (nd c node)) (get_child_key c key)) of
        None \<Rightarrow> Some (value, node, c)
      | Some child \<Rightarrow>
          let c1 = touch child c; prefix_len = key_match c1 (tn_key (nd c1 child)) key in
          if prefix_len < length (tn_key (nd c1 child))
          then (case split_node (tn_key (nd c1 child)) child prefix_len c1 of
                  None \<Rightarrow> None
                | Some (new_node, c2) \<Rightarrow> Some (value @ [tn_value (nd c2 new_node)], new_node, c2))
          else match_loop child (drop prefix_len key) (value @ [tn_value (nd c1 child)]) c1)"

definition match_prefix_helper ::
  "nat \<Rightarrow> int list \<Rightarrow> radix_cache \<Rightarrow> (int list list \<times> nat \<times> radix_cache) option" where
  "match_prefix_helper node key c = match_loop node key [] (touch node c)"

definition page_aligned :: "radix_cache \<Rightarrow> 'a list \<Rightarrow> 'a list" where
  "page_aligned c xs =
     (if rc_page_size c \<noteq> 1 then take (length xs div rc_page_size c * rc_page_size c) xs else xs)"

definition match_prefix :: "int list \<Rightarrow> radix_cache \<Rightarrow> ((int list \<times> nat) \<times> radix_cache) option" where
  "match_prefix key c =
     (if rc_disable c \<or> key = [] then Some (([], rc_root c), c)
      else case match_prefix_helper (rc_root c) (page_aligned c key) c of
        None \<Rightarrow> None
      | Some (value, last_node, c1) \<Rightarrow> Some ((concat value, last_node), c1))"

partial_function (option) insert_loop ::
  "nat \<Rightarrow> int list \<Rightarrow> int list \<Rightarrow> nat \<Rightarrow> radix_cache \<Rightarrow> (nat \<times> int list \<times> int list \<times> nat \<times> radix_cache) option" where
  "insert_loop node key value total_prefix_length c =
     (case (if key = [] then None else map_of (tn_children (nd c node)) (get_child_key c key)) of
        None \<Rightarrow> Some (node, key, value, total_prefix_length, c)
      | Some child \<Rightarrow>
          let c1 = touch child c; prefix_len = key_match c1 (tn_key (nd c1 child)) key in
          (case (if prefix_len < length (tn_key (nd c1 child))
                 then split_node (tn_key (nd c1 child)) child prefix_len c1 else Some (child, c1)) of
             None \<Rightarrow> None
           | Some (node', c2) \<Rightarrow>
               insert_loop node' (drop prefix_len key) (drop prefix_len value) (total_prefix_length + prefix_len) c2))"

definition add_leaf :: "nat \<Rightarrow> int list \<Rightarrow> int list \<Rightarrow> radix_cache \<Rightarrow> radix_cache" where
  "add_leaf node key value c =
     (let (new_node, c1) = TreeNode c;
          c2 = upd_node new_node (\<lambda>x. x\<lparr>tn_parent := Some node, tn_key := key, tn_value := value\<rparr>) c1;
          c3 = upd_node node (\<lambda>x. x\<lparr>tn_children := AList.update (get_child_key c key) new_node (tn_children x)\<rparr>) c2
      in record_store_event new_node (c3\<lparr>rc_evictable_size := rc_evictable_size c3 + int (length value)\<rparr>))"

definition insert_helper :: "nat \<Rightarrow> int list \<Rightarrow> int list \<Rightarrow> radix_cache \<Rightarrow> (nat \<times> radix_cache) option" where
  "insert_helper node key value c =
     (let c1 = touch node c in
      if key = [] then Some (0, c1)
      else case insert_loop node key value 0 c1 of
        None \<Rightarrow> None
      | Some (node', key', value', total_prefix_length, c2) \<Rightarrow>
          Some (total_prefix_length, if key' \<noteq> [] then add_leaf node' key' value' c2 else c2))"

definition radix_insert :: "int list \<Rightarrow> int list option \<Rightarrow> radix_cache \<Rightarrow> (nat \<times> radix_cache) option" where
  "radix_insert key value c =
     (if rc_disable c then Some (0, c)
      else insert_helper (rc_root c) key (case value of None \<Rightarrow> key | Some v \<Rightarrow> v) c)"

section \<open>Locks\<close>

partial_function (option) inc_loop :: "nat \<Rightarrow> int \<Rightarrow> radix_cache \<Rightarrow> (int \<times> radix_cache) option" where
  "inc_loop node delta c =
     (if node = rc_root c then Some (delta, c)
      else let n = int (length (tn_value (nd c node)));
               unlocked = (tn_lock_ref (nd c node) = 0);
               c1 = (if unlocked then c\<lparr>rc_evictable_size := rc_evictable_size c - n,
                       rc_protected_size := rc_protected_size c + n\<rparr> else c);
               c2 = upd_node node (\<lambda>x. x\<lparr>tn_lock_ref := tn_lock_ref x + 1\<rparr>) c1
           in (case tn_parent (nd c node) of None \<Rightarrow> None
               | Some q \<Rightarrow> inc_loop q (if unlocked then delta - n else delta) c2))"

definition inc_lock_ref :: "nat \<Rightarrow> radix_cache \<Rightarrow> (int \<times> radix_cache) option" where
  "inc_lock_ref node c = (if rc_disable c then Some (0, c) else inc_loop node 0 c)"

partial_function (option) dec_loop :: "nat \<Rightarrow> int \<Rightarrow> radix_cache \<Rightarrow> (int \<times> radix_cache) option" where
  "dec_loop node delta c =
     (if node = rc_root c then Some (delta, c)
      else let n = int (length (tn_value (nd c node)));
               last_lock = (tn_lock_ref (nd c node) = 1);
               c1 = (if last_lock then c\<lparr>rc_evictable_size := rc_evictable_size c + n,
                       rc_protected_size := rc_protected_size c - n\<rparr> else c);
               c2 = upd_node node (\<lambda>x. x\<lparr>tn_lock_ref := tn_lock_ref x - 1\<rparr>) c1
           in (case tn_parent (nd c node) of None \<Rightarrow> None
               | Some q \<Rightarrow> dec_loop q (if last_lock then delta + n else delta) c2))"

definition dec_lock_ref :: "nat \<Rightarrow> radix_cache \<Rightarrow> (int \<times> radix_cache) option" where
  "dec_lock_ref node c = (if rc_disable c then Some (0, c) else dec_loop node 0 c)"

section \<open>Eviction\<close>

partial_function (option) collect_loop :: "radix_cache \<Rightarrow> nat list \<Rightarrow> nat list \<Rightarrow> nat list option" where
  "collect_loop c stack ret_list =
     (if stack = [] then Some ret_list
      else let cur = last stack; rest = butlast stack; children = tn_children (nd c cur) in
           if children = [] then collect_loop c rest (ret_list @ [cur])
           else collect_loop c (rest @ map snd children) ret_list)"

definition collect_leaves :: "radix_cache \<Rightarrow> nat list option" where
  "collect_leaves c = collect_loop c [rc_root c] []"

definition delete_leaf :: "nat \<Rightarrow> radix_cache \<Rightarrow> radix_cache option" where
  "delete_leaf node c =
     (case tn_parent (nd c node) of
        None \<Rightarrow> None
      | Some q \<Rightarrow>
          let children = tn_children (nd c q) in
          if children = [] then None
          else let k = fst (case find (\<lambda>(k, v). v = node) children of Some kv \<Rightarrow> kv | None \<Rightarrow> last children);
                   c1 = upd_node q (\<lambda>x. x\<lparr>tn_children := AList.delete k (tn_children x)\<rparr>) c
               in Some (c1\<lparr>rc_evictable_size := rc_evictable_size c1 - int (length (tn_key (nd c1 node)))\<rparr>))"

text \<open>\<open>TreeNode.__lt__\<close>\<close>

definition node_lt :: "radix_cache \<Rightarrow> nat \<Rightarrow> nat \<Rightarrow> bool" where
  "node_lt c a b \<longleftrightarrow> tn_last_access_time (nd c a) < tn_last_access_time (nd c b)"

partial_function (option) evict_loop :: "int \<Rightarrow> int \<Rightarrow> nat list \<Rightarrow> radix_cache \<Rightarrow> radix_cache option" where
  "evict_loop num_tokens num_evicted leaves c =
     (if \<not> (num_evicted < num_tokens \<and> leaves \<noteq> []) then Some c
      else (case heappop (node_lt c) leaves of
        Inl _ \<Rightarrow> None
      | Inr (x, leaves1) \<Rightarrow>
          if x = rc_root c then Some c
          else if 0 < tn_lock_ref (nd c x) then evict_loop num_tokens num_evicted leaves1 c
          else let v = tn_value (nd c x); c1 = c\<lparr>rc_freed := rc_freed c @ [v]\<rparr> in
               (case delete_leaf x c1 of
                  None \<Rightarrow> None
                | Some c2 \<Rightarrow>
                    (case tn_parent (nd c2 x) of
                       None \<Rightarrow> None
                     | Some q \<Rightarrow>
                         let leaves2 = (if tn_children (nd c2 q) = [] then heappush (node_lt c2) leaves1 q else leaves1)
                         in evict_loop num_tokens (num_evicted + int (length v)) leaves2 (record_remove_event x c2)))))"

definition evict :: "int \<Rightarrow> radix_cache \<Rightarrow> radix_cache option" where
  "evict num_tokens c =
     (if rc_disable c then Some c
      else case collect_leaves c of None \<Rightarrow> None | Some leaves \<Rightarrow> evict_loop num_tokens 0 (heapify (node_lt c) leaves) c)"

section \<open>Sizes\<close>

text \<open>The value of a node is never absent in this cache, so no child counts as evicted.\<close>

partial_function (option) total_size_loop :: "radix_cache \<Rightarrow> nat list \<Rightarrow> nat \<Rightarrow> nat option" where
  "total_size_loop c stack total_size =
     (if stack = [] then Some total_size
      else let cur = last stack; rest = butlast stack
           in total_size_loop c (rest @ map snd (tn_children (nd c cur))) (total_size + length (tn_value (nd c cur))))"

definition total_size :: "radix_cache \<Rightarrow> nat option" where
  "total_size c = total_size_loop c [rc_root c] 0"

section \<open>Requests\<close>

record cache_req =
  cr_req_pool_idx :: nat
  cr_origin_input_ids :: "int list"
  cr_output_ids :: "int list"
  cr_fill_ids :: "int list"
  cr_prefix_indices :: "int list"
  cr_last_node :: nat

definition call_free :: "int list \<Rightarrow> radix_cache \<Rightarrow> radix_cache" where
  "call_free idx c = c\<lparr>rc_freed := rc_freed c @ [idx]\<rparr>"

definition kv_row :: "req_pool \<Rightarrow> cache_req \<Rightarrow> nat \<Rightarrow> int list" where
  "kv_row p r n = take n (rp_req_to_token p ! cr_req_pool_idx r)"

text \<open>\<open>xs[start:stop]\<close>\<close>

definition slice :: "nat \<Rightarrow> nat \<Rightarrow> 'a list \<Rightarrow> 'a list" where
  "slice start stop xs = take (stop - start) (drop start xs)"

definition cache_finished_req :: "cache_req \<Rightarrow> radix_cache \<Rightarrow> req_pool \<Rightarrow> (radix_cache \<times> req_pool) option" where
  "cache_finished_req r c p =
     (if rc_disable c
      then let kv_indices = kv_row p r (length (cr_origin_input_ids r) + length (cr_output_ids r) - 1)
           in Some (call_free kv_indices c, rp_free [int (cr_req_pool_idx r)] p)
      else let token_ids = butlast (cr_origin_input_ids r @ cr_output_ids r);
               kv_indices = kv_row p r (length token_ids);
               page_aligned_kv_indices = page_aligned c kv_indices;
               page_aligned_len = length page_aligned_kv_indices;
               c1 = (if rc_page_size c \<noteq> 1 then call_free (drop page_aligned_len kv_indices) c else c)
           in case radix_insert (take page_aligned_len token_ids) (Some page_aligned_kv_indices) c1 of
                None \<Rightarrow> None
              | Some (new_prefix_len, c2) \<Rightarrow>
                  let c3 = call_free (slice (length (cr_prefix_indices r)) new_prefix_len kv_indices) c2;
                      p1 = rp_free [int (cr_req_pool_idx r)] p
                  in map_option (\<lambda>(_, c4). (c4, p1)) (dec_lock_ref (cr_last_node r) c3))"

definition cache_unfinished_req ::
  "cache_req \<Rightarrow> radix_cache \<Rightarrow> req_pool \<Rightarrow> (cache_req \<times> radix_cache \<times> req_pool) option" where
  "cache_unfinished_req r c p =
     (if rc_disable c then Some (r, c, p)
      else let token_ids = cr_fill_ids r;
               kv_indices = kv_row p r (length token_ids);
               page_aligned_kv_indices = page_aligned c kv_indices;
               page_aligned_len = length page_aligned_kv_indices;
               page_aligned_token_ids = take page_aligned_len token_ids;
               old = length (cr_prefix_indices r)
           in case radix_insert page_aligned_token_ids (Some page_aligned_kv_indices) c of
                None \<Rightarrow> None
              | Some (new_prefix_len, c1) \<Rightarrow>
                  let c2 = call_free (slice old new_prefix_len kv_indices) c1 in
                  case match_prefix page_aligned_token_ids c2 of
                    None \<Rightarrow> None
                  | Some ((new_indices, new_last_node), c3) \<Rightarrow>
                      let p1 = rp_write (cr_req_pool_idx r) old (drop old new_indices) p in
                      case dec_lock_ref (cr_last_node r) c3 of
                        None \<Rightarrow> None
                      | Some (_, c4) \<Rightarrow>
                          case inc_lock_ref new_last_node c4 of
                            None \<Rightarrow> None
                          | Some (_, c5) \<Rightarrow>
                              let prefix = (if rc_page_size c \<noteq> 1 then new_indices @ drop (length new_indices) kv_indices
                                            else new_indices)
                              in Some (r\<lparr>cr_prefix_indices := prefix, cr_last_node := new_last_node\<rparr>, c5, p1))"

declare match_loop.simps [code] insert_loop.simps [code] inc_loop.simps [code] dec_loop.simps [code] collect_loop.simps [code] evict_loop.simps [code] total_size_loop.simps [code]

end
