(* ===== verification/Radix_Tree.thy ===== *)
theory Radix_Tree
  imports Radix_Cache "HOL-Library.Sublist"
begin

text \<open>
  The structural invariant of the prefix cache and what it implies: the nodes reachable from the
  root form a radix tree in which the tokens on the way to a node determine it.
\<close>

section \<open>Views\<close>

text \<open>What the tree is made of, without times, events and readings of the clock.\<close>

definition same_view :: "radix_cache \<Rightarrow> radix_cache \<Rightarrow> bool" where
  "same_view c c' \<longleftrightarrow> rc_page_size c' = rc_page_size c \<and> rc_disable c' = rc_disable c \<and> rc_root c' = rc_root c \<and>
     rc_counter c' = rc_counter c \<and> rc_evictable_size c' = rc_evictable_size c \<and>
     rc_protected_size c' = rc_protected_size c \<and> rc_freed c' = rc_freed c \<and>
     (\<forall>n. tn_children (nd c' n) = tn_children (nd c n)) \<and> (\<forall>n. tn_parent (nd c' n) = tn_parent (nd c n)) \<and>
     (\<forall>n. tn_key (nd c' n) = tn_key (nd c n)) \<and> (\<forall>n. tn_value (nd c' n) = tn_value (nd c n)) \<and>
     (\<forall>n. tn_lock_ref (nd c' n) = tn_lock_ref (nd c n))"

lemma same_view_refl [simp]: "same_view c c"
  by (simp add: same_view_def)

lemma same_view_trans: "same_view c c1 \<Longrightarrow> same_view c1 c2 \<Longrightarrow> same_view c c2"
  by (simp add: same_view_def)

lemma same_view_touch [simp]: "same_view c (touch n c)"
  by (simp add: same_view_def touch_def monotonic_def upd_node_def)

lemma same_view_record [simp]: "same_view c (record_store_event n c)" "same_view c (record_remove_event n c)"
  "same_view c (record_all_cleared_event c)"
  by (simp_all add: same_view_def record_store_event_def record_remove_event_def record_all_cleared_event_def Let_def)

section \<open>The invariant\<close>

definition node_inv :: "radix_cache \<Rightarrow> nat set \<Rightarrow> (nat \<Rightarrow> int list) \<Rightarrow> (nat \<Rightarrow> int list) \<Rightarrow> nat \<Rightarrow> nat \<Rightarrow> bool" where
  "node_inv c N T V n q \<longleftrightarrow> q \<in> N \<and> tn_parent (nd c n) = Some q \<and>
     (take (rc_page_size c) (tn_key (nd c n)), n) \<in> set (tn_children (nd c q)) \<and>
     T n = T q @ tn_key (nd c n) \<and> V n = V q @ tn_value (nd c n) \<and> tn_key (nd c n) \<noteq> [] \<and>
     rc_page_size c dvd length (tn_key (nd c n)) \<and> length (tn_value (nd c n)) = length (tn_key (nd c n))"

definition children_inv :: "radix_cache \<Rightarrow> nat set \<Rightarrow> nat \<Rightarrow> bool" where
  "children_inv c N n \<longleftrightarrow> wf_dict (tn_children (nd c n)) \<and>
     (\<forall>(k, m) \<in> set (tn_children (nd c n)). m \<in> N \<and> m \<noteq> rc_root c \<and> tn_parent (nd c m) = Some n \<and>
        k = take (rc_page_size c) (tn_key (nd c m)))"

text \<open>\<open>N\<close> are the nodes of the tree, \<open>T n\<close> and \<open>V n\<close> the tokens and slots on the way to \<open>n\<close>.\<close>

definition tree_inv :: "radix_cache \<Rightarrow> nat set \<Rightarrow> (nat \<Rightarrow> int list) \<Rightarrow> (nat \<Rightarrow> int list) \<Rightarrow> bool" where
  "tree_inv c N T V \<longleftrightarrow> 0 < rc_page_size c \<and> finite N \<and> rc_root c \<in> N \<and> (\<forall>n \<in> N. n < rc_counter c) \<and>
     T (rc_root c) = [] \<and> V (rc_root c) = [] \<and> tn_key (nd c (rc_root c)) = [] \<and> tn_value (nd c (rc_root c)) = [] \<and>
     tn_parent (nd c (rc_root c)) = None \<and>
     (\<forall>n \<in> N. children_inv c N n) \<and> (\<forall>n \<in> N - {rc_root c}. \<exists>q. node_inv c N T V n q)"

lemma tree_inv_same_view: "same_view c c' \<Longrightarrow> tree_inv c' N T V = tree_inv c N T V"
  by (simp add: same_view_def tree_inv_def node_inv_def children_inv_def)

lemma tree_parent:
  assumes "tree_inv c N T V" "n \<in> N" "n \<noteq> rc_root c"
  obtains q where "node_inv c N T V n q"
  using assms unfolding tree_inv_def by blast

lemma node_inv_fields:
  assumes "node_inv c N T V n q"
  shows "q \<in> N" "tn_parent (nd c n) = Some q" "(take (rc_page_size c) (tn_key (nd c n)), n) \<in> set (tn_children (nd c q))"
    "T n = T q @ tn_key (nd c n)" "V n = V q @ tn_value (nd c n)" "tn_key (nd c n) \<noteq> []"
    "rc_page_size c dvd length (tn_key (nd c n))" "length (tn_value (nd c n)) = length (tn_key (nd c n))"
  using assms by (simp_all add: node_inv_def)

lemma node_shorter: "node_inv c N T V n q \<Longrightarrow> length (T q) < length (T n)"
  using node_inv_fields(4,6)[of c N T V n q] by simp

lemma tree_child:
  assumes "tree_inv c N T V" "n \<in> N" "map_of (tn_children (nd c n)) k = Some m"
  shows "m \<in> N" "m \<noteq> rc_root c" "tn_parent (nd c m) = Some n" "k = take (rc_page_size c) (tn_key (nd c m))" "node_inv c N T V m n"
proof -
  have "children_inv c N n" using assms(1,2) by (simp add: tree_inv_def)
  then show m: "m \<in> N" "m \<noteq> rc_root c" "tn_parent (nd c m) = Some n" "k = take (rc_page_size c) (tn_key (nd c m))"
    using map_of_SomeD[OF assms(3)] by (auto simp: children_inv_def)
  obtain q where "node_inv c N T V m q" using tree_parent[OF assms(1) m(1,2)] by blast
  then show "node_inv c N T V m n" using m(3) by (simp add: node_inv_def)
qed

lemma tree_child_unique:
  assumes "tree_inv c N T V" "node_inv c N T V a n" "node_inv c N T V b n"
    and "take (rc_page_size c) (tn_key (nd c a)) = take (rc_page_size c) (tn_key (nd c b))"
  shows "a = b"
proof -
  have "wf_dict (tn_children (nd c n))" using assms(1) node_inv_fields(1)[OF assms(2)] by (simp add: tree_inv_def children_inv_def)
  then show ?thesis
    using wf_dict_map_of node_inv_fields(3)[OF assms(2)] node_inv_fields(3)[OF assms(3)] assms(4) by (metis option.inject)
qed

lemma tree_lengths:
  assumes "tree_inv c N T V" "n \<in> N"
  shows "rc_page_size c dvd length (T n)" "length (V n) = length (T n)"
proof -
  have "\<forall>n \<in> N. length (T n) = l \<longrightarrow> rc_page_size c dvd length (T n) \<and> length (V n) = length (T n)" for l
  proof (induction l rule: less_induct)
    case (less l)
    show ?case
    proof (intro ballI impI)
      fix n assume n: "n \<in> N" "length (T n) = l"
      show "rc_page_size c dvd length (T n) \<and> length (V n) = length (T n)"
      proof (cases "n = rc_root c")
        case True
        then show ?thesis using assms(1) by (simp add: tree_inv_def)
      next
        case False
        then obtain q where q: "node_inv c N T V n q" using tree_parent[OF assms(1) n(1)] by blast
        note f = node_inv_fields[OF q]
        have "length (T q) < l" using node_shorter[OF q] n(2) by simp
        then have "rc_page_size c dvd length (T q) \<and> length (V q) = length (T q)" using less f(1) by blast
        then show ?thesis using f by simp
      qed
    qed
  qed
  then show "rc_page_size c dvd length (T n)" "length (V n) = length (T n)" using assms(2) by blast+
qed

section \<open>Ancestors\<close>

inductive anc :: "radix_cache \<Rightarrow> nat \<Rightarrow> nat \<Rightarrow> bool" for c where
  anc_refl: "anc c n n"
| anc_step: "tn_parent (nd c n) = Some q \<Longrightarrow> anc c a q \<Longrightarrow> anc c a n"

lemma anc_tree:
  assumes "anc c a m" "tree_inv c N T V" "m \<in> N"
  shows "a \<in> N \<and> prefix (T a) (T m) \<and> prefix (V a) (V m)"
  using assms
proof (induction rule: anc.induct)
  case (anc_step n q a)
  have "n \<noteq> rc_root c" using anc_step.hyps(1) anc_step.prems(1) by (auto simp: tree_inv_def)
  then obtain q' where q': "node_inv c N T V n q'" using tree_parent anc_step.prems by blast
  then have [simp]: "q' = q" using node_inv_fields(2)[OF q'] anc_step.hyps(1) by simp
  have "a \<in> N \<and> prefix (T a) (T q) \<and> prefix (V a) (V q)"
    using anc_step.IH anc_step.prems(1) node_inv_fields(1)[OF q'] by simp
  then show ?case using node_inv_fields(4,5)[OF q'] by simp
qed simp

lemma anc_same_length:
  assumes "anc c a m" "tree_inv c N T V" "m \<in> N" "length (T m) \<le> length (T a)"
  shows "a = m"
  using assms
proof (cases rule: anc.cases)
  case (anc_step q)
  then have "m \<noteq> rc_root c" using assms(2) by (auto simp: tree_inv_def)
  then obtain q' where q': "node_inv c N T V m q'" using tree_parent assms(2,3) by blast
  then have "q' = q" using node_inv_fields(2)[OF q'] anc_step(1) by simp
  then have "prefix (T a) (T q')" "length (T q') < length (T m)"
    using anc_tree[OF _ assms(2) node_inv_fields(1)[OF q']] anc_step(2) node_shorter[OF q'] by simp_all
  then show ?thesis using assms(4) prefix_length_le by fastforce
qed simp

lemma tree_root_only: "tree_inv c N T V \<Longrightarrow> n \<in> N \<Longrightarrow> T n = [] \<Longrightarrow> n = rc_root c"
  using tree_parent[of c N T V n] node_shorter by (metis length_greater_0_conv not_less_zero length_0_conv)

text \<open>The ancestor whose key covers position \<open>l\<close> of the tokens of \<open>m\<close>.\<close>

lemma anc_covering:
  assumes "tree_inv c N T V" "m \<in> N" "l < length (T m)"
  shows "\<exists>a q. anc c a m \<and> node_inv c N T V a q \<and> a \<in> N \<and> length (T q) \<le> l \<and> l < length (T a)"
proof -
  have "\<forall>m \<in> N. length (T m) = k \<longrightarrow> l < length (T m) \<longrightarrow>
      (\<exists>a q. anc c a m \<and> node_inv c N T V a q \<and> a \<in> N \<and> length (T q) \<le> l \<and> l < length (T a))" for k
  proof (induction k rule: less_induct)
    case (less k)
    show ?case
    proof (intro ballI impI)
      fix m assume m: "m \<in> N" "length (T m) = k" "l < length (T m)"
      then have "m \<noteq> rc_root c" using assms(1) by (auto simp: tree_inv_def)
      then obtain q where q: "node_inv c N T V m q" using tree_parent[OF assms(1) m(1)] by blast
      note f = node_inv_fields[OF q]
      show "\<exists>a q. anc c a m \<and> node_inv c N T V a q \<and> a \<in> N \<and> length (T q) \<le> l \<and> l < length (T a)"
      proof (cases "length (T q) \<le> l")
        case True
        then show ?thesis using q m anc_refl by blast
      next
        case False
        then have "\<exists>a r. anc c a q \<and> node_inv c N T V a r \<and> a \<in> N \<and> length (T r) \<le> l \<and> l < length (T a)"
          using less node_shorter[OF q] m(2) f(1) by auto
        then show ?thesis using anc_step[OF f(2)] by blast
      qed
    qed
  qed
  then show ?thesis using assms(2,3) by blast
qed

section \<open>Tokens determine nodes\<close>

lemma page_of_prefix:
  assumes "prefix (x @ k) (x @ y)" "k \<noteq> []" "p dvd length k" "0 < p"
  shows "take p k = take p y"
proof -
  have "p \<le> length k" using assms(2,3) by (simp add: dvd_imp_le)
  moreover obtain z where "y = k @ z" using assms(1) by (auto simp: prefix_def)
  ultimately show ?thesis by simp
qed

text \<open>The tokens of \<open>n\<close> continue, inside the tokens of \<open>m\<close>, into exactly one child of \<open>n\<close>, an ancestor of \<open>m\<close>.\<close>

lemma tree_descend:
  assumes inv: "tree_inv c N T V"
  shows "n \<in> N \<Longrightarrow> m \<in> N \<Longrightarrow> prefix (T n) (T m) \<Longrightarrow> length (T n) < length (T m) \<Longrightarrow>
    \<exists>a. a \<in> N \<and> node_inv c N T V a n \<and> anc c a m \<and>
      take (rc_page_size c) (tn_key (nd c a)) = take (rc_page_size c) (drop (length (T n)) (T m))"
proof (induction "length (T n)" arbitrary: n m rule: less_induct)
  case less
  let ?p = "rc_page_size c"
  have p: "0 < ?p" using inv by (simp add: tree_inv_def)
  obtain a q where a: "anc c a m" "node_inv c N T V a q" "a \<in> N" "length (T q) \<le> length (T n)" "length (T n) < length (T a)"
    using anc_covering[OF inv less.prems(2,4)] by blast
  note fa = node_inv_fields[OF a(2)]
  have am: "prefix (T a) (T m)" using anc_tree[OF a(1) inv less.prems(2)] by blast
  have qm: "prefix (T q) (T m)" using am fa(4) by (auto intro: append_prefixD)
  have qn: "prefix (T q) (T n)" using qm less.prems(3) a(4) by (meson prefix_length_prefix)
  have page: "take ?p (tn_key (nd c a)) = take ?p (drop (length (T q)) (T m))"
    using am fa(4,6,7) p by (metis append_eq_conv_conj page_of_prefix prefix_def qm)
  have "q = n"
  proof (cases "length (T q) < length (T n)")
    case True
    obtain b where b: "node_inv c N T V b q" "anc c b n"
        "take ?p (tn_key (nd c b)) = take ?p (drop (length (T q)) (T n))"
      using less.hyps[OF True fa(1) less.prems(1) qn True] by blast
    obtain z where z: "T m = T n @ z" using less.prems(3) by (auto simp: prefix_def)
    have "?p \<le> length (drop (length (T q)) (T n))"
    proof -
      have "?p dvd length (T n) - length (T q)" using tree_lengths(1)[OF inv] less.prems(1) fa(1) by (simp add: dvd_diff_nat)
      then show ?thesis using True by (simp add: dvd_imp_le)
    qed
    then have "take ?p (drop (length (T q)) (T m)) = take ?p (drop (length (T q)) (T n))" using True by (simp add: z)
    then have "a = b" using tree_child_unique[OF inv a(2) b(1)] page b(3) by simp
    then have "length (T a) \<le> length (T n)" using anc_tree[OF b(2) inv less.prems(1)] prefix_length_le by blast
    then show ?thesis using a(5) by simp
  next
    case False
    then have eq: "T q = T n" using a(4) qn by (auto simp: prefix_def)
    show ?thesis
    proof (cases "n = rc_root c")
      case True
      then have "T q = []" using inv eq by (simp add: tree_inv_def)
      then show ?thesis using tree_root_only[OF inv fa(1)] True by simp
    next
      case False
      then obtain r where r: "node_inv c N T V n r" using tree_parent[OF inv less.prems(1)] by blast
      note fr = node_inv_fields[OF r]
      have lt: "length (T r) < length (T n)" using node_shorter[OF r] .
      have "prefix (T r) (T q)" "length (T r) < length (T q)" using eq fr(4) lt by simp_all
      from less.hyps[OF lt fr(1) fa(1) this] obtain b where b: "node_inv c N T V b r" "anc c b q"
          "take ?p (tn_key (nd c b)) = take ?p (drop (length (T r)) (T q))" by blast
      have "drop (length (T r)) (T q) = tn_key (nd c n)" using eq fr(4) by simp
      then have "b = n" using tree_child_unique[OF inv b(1) r] b(3) by simp
      then show ?thesis using anc_same_length[OF b(2) inv fa(1)] eq by simp
    qed
  qed
  then show ?case using a page by blast
qed

lemma tree_node_unique:
  assumes "tree_inv c N T V" "n \<in> N" "m \<in> N" "T n = T m"
  shows "n = m"
proof (cases "n = rc_root c")
  case True
  then have "T m = []" using assms(1,4) by (simp add: tree_inv_def)
  then show ?thesis using tree_root_only[OF assms(1,3)] True by simp
next
  case False
  then obtain r where r: "node_inv c N T V n r" using tree_parent[OF assms(1,2)] by blast
  note fr = node_inv_fields[OF r]
  have tm: "T m = T r @ tn_key (nd c n)" using fr(4) assms(4) by simp
  then have "prefix (T r) (T m)" "length (T r) < length (T m)" using fr(6) by simp_all
  from tree_descend[OF assms(1) fr(1) assms(3) this] obtain b where b: "node_inv c N T V b r" "anc c b m"
      "take (rc_page_size c) (tn_key (nd c b)) = take (rc_page_size c) (drop (length (T r)) (T m))" by blast
  have "drop (length (T r)) (T m) = tn_key (nd c n)" by (simp add: tm)
  then have "b = n" using tree_child_unique[OF assms(1) b(1) r] b(3) by simp
  then show ?thesis using anc_same_length[OF b(2) assms(1,3)] assms(4) by simp
qed

lemma anc_trans: "anc c a b \<Longrightarrow> anc c b m \<Longrightarrow> anc c a m"
  by (rotate_tac, induction rule: anc.induct) (auto intro: anc_step)

lemma anc_iff_prefix:
  assumes "tree_inv c N T V" "n \<in> N" "m \<in> N"
  shows "anc c n m \<longleftrightarrow> prefix (T n) (T m)"
proof
  assume pre: "prefix (T n) (T m)"
  show "anc c n m"
  proof (cases "length (T n) < length (T m)")
    case True
    obtain a where a: "node_inv c N T V a n" "anc c a m" using tree_descend[OF assms pre True] by blast
    have "anc c n a" using anc_step[OF node_inv_fields(2)[OF a(1)] anc_refl] .
    then show ?thesis using a(2) by (rule anc_trans)
  next
    case False
    then have "T n = T m" using pre by (auto simp: prefix_def)
    then show ?thesis using tree_node_unique[OF assms] anc_refl by simp
  qed
qed (use anc_tree[OF _ assms(1,3)] in blast)

text \<open>A child of \<open>q\<close> whose first page lies on the way to \<open>m\<close> is an ancestor of \<open>m\<close>.\<close>

lemma child_on_way:
  assumes inv: "tree_inv c N T V" and a: "node_inv c N T V a q" "a \<in> N" and m: "m \<in> N"
    and pre: "prefix (T q @ ys) (T m)" "rc_page_size c \<le> length ys"
    and page: "take (rc_page_size c) (tn_key (nd c a)) = take (rc_page_size c) ys"
  shows "anc c a m"
proof -
  have p: "0 < rc_page_size c" using inv by (simp add: tree_inv_def)
  obtain z where z: "T m = T q @ ys @ z" using pre(1) by (auto simp: prefix_def)
  have "ys \<noteq> []" using pre(2) p by auto
  then have "prefix (T q) (T m)" "length (T q) < length (T m)" using z by simp_all
  from tree_descend[OF inv node_inv_fields(1)[OF a(1)] m this] obtain b where
    b: "node_inv c N T V b q" "anc c b m" "take (rc_page_size c) (tn_key (nd c b)) = take (rc_page_size c) (drop (length (T q)) (T m))"
    by blast
  have "take (rc_page_size c) (drop (length (T q)) (T m)) = take (rc_page_size c) ys" using pre(2) by (simp add: z)
  then have "b = a" using tree_child_unique[OF inv b(1) a(1)] b(3) page by simp
  then show ?thesis using b(2) by simp
qed

section \<open>The stored sequences\<close>

definition stored :: "nat set \<Rightarrow> (nat \<Rightarrow> int list) \<Rightarrow> (nat \<Rightarrow> int list) \<Rightarrow> int list \<Rightarrow> int list \<Rightarrow> bool" where
  "stored N T V xs vs \<longleftrightarrow> (\<exists>n \<in> N. prefix xs (T n) \<and> vs = take (length xs) (V n))"

lemma stored_unique:
  assumes inv: "tree_inv c N T V" and al: "rc_page_size c dvd length xs" and st: "stored N T V xs vs" "stored N T V xs ws"
  shows "vs = ws"
proof (cases "xs = []")
  case False
  let ?p = "rc_page_size c"
  obtain m1 m2 where m: "m1 \<in> N" "prefix xs (T m1)" "vs = take (length xs) (V m1)"
      "m2 \<in> N" "prefix xs (T m2)" "ws = take (length xs) (V m2)" using st by (auto simp: stored_def)
  have "length xs - 1 < length (T m1)" using False prefix_length_le[OF m(2)] by (cases xs) auto
  from anc_covering[OF inv m(1) this] obtain a q where
    a: "anc c a m1" "node_inv c N T V a q" "a \<in> N" "length (T q) \<le> length xs - 1" "length xs - 1 < length (T a)" by blast
  note fa = node_inv_fields[OF a(2)]
  have pa: "prefix (T a) (T m1)" "prefix (V a) (V m1)" using anc_tree[OF a(1) inv m(1)] by blast+
  have lens: "length (T q) < length xs" "length xs \<le> length (T a)" using a(4,5) False by (cases xs; simp)+
  have xa: "prefix xs (T a)" using pa(1) m(2) lens(2) by (meson prefix_length_prefix)
  have qx: "prefix (T q) xs" using fa(4) xa lens(1) by (metis append_prefixD less_imp_le prefix_length_prefix prefix_order.refl)
  then obtain ys where ys: "xs = T q @ ys" by (auto simp: prefix_def)
  have "?p dvd length ys" using al ys tree_lengths(1)[OF inv fa(1)] by (metis dvd_add_right_iff length_append)
  then have py: "?p \<le> length ys" using lens(1) ys by (simp add: dvd_imp_le)
  have "prefix (T q @ ys) (T q @ tn_key (nd c a))" using xa ys fa(4) by simp
  then have "take ?p (tn_key (nd c a)) = take ?p ys" using py by (auto simp: prefix_def)
  then have "anc c a m2" using child_on_way[OF inv a(2,3) m(4), of ys] m(5) ys py by simp
  then have pv: "prefix (V a) (V m2)" using anc_tree[OF _ inv m(4)] by blast
  have "length xs \<le> length (V a)" using lens(2) tree_lengths(2)[OF inv a(3)] by simp
  then have "take (length xs) (V m1) = take (length xs) (V a)" "take (length xs) (V m2) = take (length xs) (V a)"
    using pa(2) pv by (auto simp: prefix_def)
  then show ?thesis using m(3,6) by simp
qed (use st in \<open>auto simp: stored_def\<close>)

text \<open>The longest page-aligned prefix of a key that is stored.\<close>

definition longest_stored :: "radix_cache \<Rightarrow> nat set \<Rightarrow> (nat \<Rightarrow> int list) \<Rightarrow> (nat \<Rightarrow> int list) \<Rightarrow> int list \<Rightarrow> int list \<Rightarrow> bool" where
  "longest_stored c N T V key xs \<longleftrightarrow> prefix xs key \<and> rc_page_size c dvd length xs \<and> (\<exists>vs. stored N T V xs vs) \<and>
     (\<forall>ys vs. prefix ys key \<longrightarrow> rc_page_size c dvd length ys \<longrightarrow> stored N T V ys vs \<longrightarrow> length ys \<le> length xs)"

end
