(* ===== verification/Radix_Split.thy ===== *)
theory Radix_Split
  imports Radix_Tree
begin

text \<open>
  What the operations of the prefix cache do, over the invariant of \<open>Radix_Tree\<close> extended by the
  lock counts and the two size counters: splitting a node, looking a key up and inserting one.
\<close>

section \<open>Matching keys\<close>

text \<open>The length of the longest common prefix in whole pages.\<close>

definition page_match :: "nat \<Rightarrow> int list \<Rightarrow> int list \<Rightarrow> nat \<Rightarrow> bool" where
  "page_match p xs ys m \<longleftrightarrow> m \<le> length xs \<and> m \<le> length ys \<and> p dvd m \<and> take m xs = take m ys \<and>
     (m < length xs \<longrightarrow> m < length ys \<longrightarrow> take p (drop m xs) \<noteq> take p (drop m ys))"

lemma key_match_page_size1: "page_match 1 xs ys (key_match_page_size1 xs ys)"
  unfolding page_match_def by (induction xs ys rule: key_match_page_size1.induct) auto

lemma take_add_append: "take (p + m) xs = take p xs @ take m (drop p xs)"
  by (simp add: take_add)

lemma key_match_paged: "0 < p \<Longrightarrow> p dvd length xs \<Longrightarrow> p dvd length ys \<Longrightarrow> page_match p xs ys (key_match_paged p xs ys)"
proof (induction p xs ys rule: key_match_paged.induct)
  case (1 p xs ys)
  show ?case
  proof (cases "xs = [] \<or> ys = [] \<or> take p xs \<noteq> take p ys")
    case True
    then show ?thesis using 1(2) by (auto simp: page_match_def key_match_paged.simps[of p xs ys])
  next
    case False
    let ?m = "key_match_paged p (drop p xs) (drop p ys)"
    have p: "p \<le> length xs" "p \<le> length ys" using 1(2-) False by (simp_all add: dvd_imp_le)
    have "page_match p (drop p xs) (drop p ys) ?m" using 1 False p by (simp add: dvd_diff_nat)
    then have "page_match p xs ys (p + ?m)" using p False
      by (auto simp: page_match_def take_add_append less_diff_conv add.commute)
    then show ?thesis using False 1(2) by (simp add: key_match_paged.simps[of p xs ys])
  qed
qed

lemma key_match:
  assumes "0 < rc_page_size c" "rc_page_size c dvd length xs" "rc_page_size c dvd length ys"
  shows "page_match (rc_page_size c) xs ys (key_match c xs ys)"
  using key_match_page_size1[of xs ys] key_match_paged[OF assms] by (simp add: key_match_def)

lemma page_match_first:
  assumes "page_match p xs ys m" "0 < p" "xs \<noteq> []" "ys \<noteq> []" "take p xs = take p ys"
  shows "p \<le> m"
proof (rule ccontr)
  assume "\<not> p \<le> m"
  then have "m = 0" using assms(1,2) by (auto simp: page_match_def dest: dvd_imp_le)
  then show False using assms by (simp add: page_match_def)
qed

section \<open>The invariant of the cache\<close>

text \<open>The slots that the nodes of the tree hold.\<close>

definition tree_slots :: "radix_cache \<Rightarrow> nat set \<Rightarrow> int multiset" where
  "tree_slots c N = (\<Sum>n \<in> N. mset (tn_value (nd c n)))"

definition evictable_sum :: "radix_cache \<Rightarrow> nat set \<Rightarrow> int" where
  "evictable_sum c N = (\<Sum>n \<in> N - {rc_root c}. if tn_lock_ref (nd c n) = 0 then int (length (tn_value (nd c n))) else 0)"

definition protected_sum :: "radix_cache \<Rightarrow> nat set \<Rightarrow> int" where
  "protected_sum c N = (\<Sum>n \<in> N - {rc_root c}. if tn_lock_ref (nd c n) = 0 then 0 else int (length (tn_value (nd c n))))"

text \<open>The number of lock holders at or below a node.\<close>

definition holders :: "(nat \<Rightarrow> int list) \<Rightarrow> nat multiset \<Rightarrow> nat \<Rightarrow> nat" where
  "holders T H n = size (filter_mset (\<lambda>h. prefix (T n) (T h)) H)"

definition locks_inv :: "radix_cache \<Rightarrow> nat set \<Rightarrow> (nat \<Rightarrow> int list) \<Rightarrow> nat multiset \<Rightarrow> bool" where
  "locks_inv c N T H \<longleftrightarrow> set_mset H \<subseteq> N \<and> (\<forall>n \<in> N - {rc_root c}. tn_lock_ref (nd c n) = int (holders T H n))"

definition cache_inv ::
  "radix_cache \<Rightarrow> nat set \<Rightarrow> (nat \<Rightarrow> int list) \<Rightarrow> (nat \<Rightarrow> int list) \<Rightarrow> nat multiset \<Rightarrow> bool" where
  "cache_inv c N T V H \<longleftrightarrow> tree_inv c N T V \<and> locks_inv c N T H \<and>
     rc_evictable_size c = evictable_sum c N \<and> rc_protected_size c = protected_sum c N"

lemma cache_inv_same_view: "same_view c c' \<Longrightarrow> cache_inv c' N T V H = cache_inv c N T V H"
  unfolding cache_inv_def using tree_inv_same_view[of c c' N T V]
  by (simp add: locks_inv_def evictable_sum_def protected_sum_def same_view_def cong: if_cong)

lemma tree_slots_same_view: "same_view c c' \<Longrightarrow> tree_slots c' N = tree_slots c N"
  by (simp add: tree_slots_def same_view_def)

text \<open>The nodes and what is on the way to them survive; the configuration and the freed slots do not change.\<close>

definition tree_grows :: "radix_cache \<Rightarrow> nat set \<Rightarrow> (nat \<Rightarrow> int list) \<Rightarrow> (nat \<Rightarrow> int list) \<Rightarrow>
    radix_cache \<Rightarrow> nat set \<Rightarrow> (nat \<Rightarrow> int list) \<Rightarrow> (nat \<Rightarrow> int list) \<Rightarrow> bool" where
  "tree_grows c N T V c' N' T' V' \<longleftrightarrow> N \<subseteq> N' \<and> (\<forall>n \<in> N. T' n = T n \<and> V' n = V n) \<and>
     rc_page_size c' = rc_page_size c \<and> rc_disable c' = rc_disable c \<and> rc_root c' = rc_root c \<and> rc_freed c' = rc_freed c"

lemma tree_grows_refl [simp]: "tree_grows c N T V c N T V"
  by (simp add: tree_grows_def)

lemma tree_grows_trans: "tree_grows c N T V c1 N1 T1 V1 \<Longrightarrow> tree_grows c1 N1 T1 V1 c2 N2 T2 V2 \<Longrightarrow> tree_grows c N T V c2 N2 T2 V2"
  by (auto simp: tree_grows_def)

lemma tree_grows_same_view: "same_view c c' \<Longrightarrow> tree_grows c N T V c' N T V"
  by (simp add: tree_grows_def same_view_def)

section \<open>Splitting a node\<close>

lemma record_remove_event_queue:
  "record_remove_event n c = c\<lparr>rc_kv_event_queue := rc_kv_event_queue (record_remove_event n c)\<rparr>"
  by (simp add: record_remove_event_def)

definition split_view :: "radix_cache \<Rightarrow> nat \<Rightarrow> nat \<Rightarrow> nat \<Rightarrow> radix_cache \<Rightarrow> bool" where
  "split_view c child q k c' \<longleftrightarrow> (let nn = rc_counter c; p = rc_page_size c; x = nd c child in
     rc_page_size c' = p \<and> rc_disable c' = rc_disable c \<and> rc_root c' = rc_root c \<and> rc_freed c' = rc_freed c \<and>
     rc_counter c' = nn + 1 \<and> rc_evictable_size c' = rc_evictable_size c \<and> rc_protected_size c' = rc_protected_size c \<and>
     (\<forall>n. tn_children (nd c' n) = (if n = nn then [(take p (drop k (tn_key x)), child)]
        else if n = q then AList.update (take p (tn_key x)) nn (tn_children (nd c q)) else tn_children (nd c n))) \<and>
     (\<forall>n. tn_parent (nd c' n) = (if n = nn then Some q else if n = child then Some nn else tn_parent (nd c n))) \<and>
     (\<forall>n. tn_key (nd c' n) = (if n = nn then take k (tn_key x) else if n = child then drop k (tn_key x) else tn_key (nd c n))) \<and>
     (\<forall>n. tn_value (nd c' n) = (if n = nn then take k (tn_value x) else if n = child then drop k (tn_value x) else tn_value (nd c n))) \<and>
     (\<forall>n. tn_lock_ref (nd c' n) = (if n = nn then tn_lock_ref x else tn_lock_ref (nd c n))))"

lemma split_view_same_view: "split_view c child q k c1 \<Longrightarrow> same_view c1 c2 \<Longrightarrow> split_view c child q k c2"
  by (simp add: split_view_def same_view_def Let_def)

lemma split_node_view:
  assumes "tn_parent (nd c child) = Some q" "child \<noteq> rc_counter c" "q \<noteq> rc_counter c" "q \<noteq> child"
  shows "\<exists>c'. split_node (tn_key (nd c child)) child k c = Some (rc_counter c, c') \<and> split_view c child q k c'"
proof -
  obtain e where e: "record_remove_event child c = c\<lparr>rc_kv_event_queue := e\<rparr>" using record_remove_event_queue by blast
  let ?s = "\<lambda>c4. Some (rc_counter c, record_store_event child (record_store_event (rc_counter c) c4))"
  obtain c4 where c4: "split_node (tn_key (nd c child)) child k c = ?s c4" "split_view c child q k c4"
    using assms by (simp add: split_node_def e TreeNode_def monotonic_def upd_node_def get_child_key_def Let_def
      split_view_def cong: if_cong)
  then show ?thesis using split_view_same_view same_view_record(1) by (metis same_view_trans)
qed

text \<open>The tokens and slots on the way to the nodes after the split.\<close>

definition split_way :: "nat \<Rightarrow> nat \<Rightarrow> int list \<Rightarrow> nat \<Rightarrow> (nat \<Rightarrow> int list) \<Rightarrow> nat \<Rightarrow> int list" where
  "split_way nn q xs k T = T(nn := T q @ take k xs)"

definition split_step :: "radix_cache \<Rightarrow> nat set \<Rightarrow> (nat \<Rightarrow> int list) \<Rightarrow> (nat \<Rightarrow> int list) \<Rightarrow> nat \<Rightarrow> nat \<Rightarrow> nat \<Rightarrow> bool" where
  "split_step c N T V child q k \<longleftrightarrow> tree_inv c N T V \<and> child \<in> N \<and> node_inv c N T V child q \<and>
     0 < k \<and> k < length (tn_key (nd c child)) \<and> rc_page_size c dvd k"

lemma split_step_nodes:
  assumes "split_step c N T V child q k"
  shows "rc_counter c \<notin> N" "rc_counter c \<noteq> child" "rc_counter c \<noteq> q" "rc_counter c \<noteq> rc_root c"
    "child \<noteq> q" "child \<noteq> rc_root c" "q \<in> N" "child \<in> N"
proof -
  have n: "node_inv c N T V child q" and ch: "child \<in> N" using assms by (simp_all add: split_step_def)
  have b: "\<forall>n \<in> N. n < rc_counter c" and r: "rc_root c \<in> N" "T (rc_root c) = []"
    using assms by (simp_all add: split_step_def tree_inv_def)
  show "rc_counter c \<notin> N" using b by blast
  then show "rc_counter c \<noteq> child" "rc_counter c \<noteq> q" "rc_counter c \<noteq> rc_root c"
    using ch node_inv_fields(1)[OF n] r by auto
  show "child \<noteq> q" using node_shorter[OF n] by blast
  show "child \<noteq> rc_root c" using node_shorter[OF n] r(2) by auto
  show "q \<in> N" "child \<in> N" using node_inv_fields(1)[OF n] ch by simp_all
qed

lemma split_step_pages:
  assumes "split_step c N T V child q k"
  shows "0 < rc_page_size c" "rc_page_size c \<le> k" "rc_page_size c dvd length (tn_key (nd c child)) - k"
    "rc_page_size c \<le> length (tn_key (nd c child)) - k"
proof -
  have k: "0 < k" "k < length (tn_key (nd c child))" "rc_page_size c dvd k" and n: "node_inv c N T V child q"
    using assms by (simp_all add: split_step_def)
  show p: "0 < rc_page_size c" using assms by (simp add: split_step_def tree_inv_def)
  show "rc_page_size c \<le> k" using k by (simp add: dvd_imp_le)
  show "rc_page_size c dvd length (tn_key (nd c child)) - k" using k node_inv_fields(7)[OF n] by (simp add: dvd_diff_nat)
  then show "rc_page_size c \<le> length (tn_key (nd c child)) - k" using k by (simp add: dvd_imp_le)
qed

lemma wf_dict_mem: "wf_dict d \<Longrightarrow> (k, v) \<in> set d \<longleftrightarrow> map_of d k = Some v"
  by (auto simp: wf_dict_map_of dest: map_of_SomeD)

text \<open>The new dictionary of \<open>q\<close> differs from the old one in the entry that led to \<open>child\<close>.\<close>

lemma split_children:
  assumes "split_step c N T V child q k"
  shows "(a, m) \<in> set (AList.update (take (rc_page_size c) (tn_key (nd c child))) nn (tn_children (nd c q))) \<longleftrightarrow>
    (a, m) = (take (rc_page_size c) (tn_key (nd c child)), nn) \<or> (a, m) \<in> set (tn_children (nd c q)) \<and> m \<noteq> child"
proof -
  let ?d = "tn_children (nd c q)" and ?k = "take (rc_page_size c) (tn_key (nd c child))"
  have n: "node_inv c N T V child q" using assms by (simp add: split_step_def)
  have ci: "children_inv c N q" using assms node_inv_fields(1)[OF n] by (simp add: split_step_def tree_inv_def)
  then have wf: "wf_dict ?d" by (simp add: children_inv_def)
  have m: "map_of ?d ?k = Some child" using wf_dict_map_of[OF wf node_inv_fields(3)[OF n]] .
  have "(a, m) \<in> set (AList.update ?k nn ?d) \<longleftrightarrow> map_of (AList.update ?k nn ?d) a = Some m"
    using wf_dict_mem[OF wf_dict_update[OF wf]] .
  also have "\<dots> \<longleftrightarrow> (if a = ?k then m = nn else (a, m) \<in> set ?d)" by (auto simp: update_conv' wf_dict_mem[OF wf])
  also have "\<dots> \<longleftrightarrow> (a, m) = (?k, nn) \<or> (a, m) \<in> set ?d \<and> m \<noteq> child"
  proof (cases "a = ?k")
    case True
    then have "(a, m) \<in> set ?d \<longleftrightarrow> m = child" using m by (auto simp: wf_dict_mem[OF wf])
    then show ?thesis using True by simp
  next
    case False
    then have "(a, m) \<in> set ?d \<Longrightarrow> m \<noteq> child" using ci by (auto simp: children_inv_def)
    then show ?thesis using False by auto
  qed
  finally show ?thesis .
qed

lemma split_view_fields:
  assumes "split_view c child q k c'"
  shows "rc_page_size c' = rc_page_size c" "rc_disable c' = rc_disable c" "rc_root c' = rc_root c" "rc_freed c' = rc_freed c"
    "rc_counter c' = rc_counter c + 1" "rc_evictable_size c' = rc_evictable_size c" "rc_protected_size c' = rc_protected_size c"
    "tn_children (nd c' m) = (if m = rc_counter c then [(take (rc_page_size c) (drop k (tn_key (nd c child))), child)]
        else if m = q then AList.update (take (rc_page_size c) (tn_key (nd c child))) (rc_counter c) (tn_children (nd c q))
        else tn_children (nd c m))"
    "tn_parent (nd c' m) = (if m = rc_counter c then Some q else if m = child then Some (rc_counter c) else tn_parent (nd c m))"
    "tn_key (nd c' m) = (if m = rc_counter c then take k (tn_key (nd c child))
        else if m = child then drop k (tn_key (nd c child)) else tn_key (nd c m))"
    "tn_value (nd c' m) = (if m = rc_counter c then take k (tn_value (nd c child))
        else if m = child then drop k (tn_value (nd c child)) else tn_value (nd c m))"
    "tn_lock_ref (nd c' m) = (if m = rc_counter c then tn_lock_ref (nd c child) else tn_lock_ref (nd c m))"
  using assms by (simp_all add: split_view_def Let_def)

lemma split_way_old: "rc_counter c \<notin> N \<Longrightarrow> m \<in> N \<Longrightarrow> split_way (rc_counter c) q xs k T m = T m"
  by (auto simp: split_way_def)

lemma split_node_inv:
  assumes s: "split_step c N T V child q k" and v: "split_view c child q k c'"
    and T': "T' = split_way (rc_counter c) q (tn_key (nd c child)) k T"
    and V': "V' = split_way (rc_counter c) q (tn_value (nd c child)) k V"
    and m: "m \<in> insert (rc_counter c) N - {rc_root c}"
  shows "\<exists>r. node_inv c' (insert (rc_counter c) N) T' V' m r"
proof -
  let ?nn = "rc_counter c" and ?p = "rc_page_size c" and ?x = "nd c child"
  have inv: "tree_inv c N T V" and n: "node_inv c N T V child q" and k: "k < length (tn_key ?x)" "?p dvd k" "0 < k"
    using s by (simp_all add: split_step_def)
  note f = node_inv_fields[OF n] and d = split_step_nodes[OF s] and pg = split_step_pages[OF s]
    and ch = split_children[OF s] and vf = split_view_fields[OF v]
  have old: "T' e = T e" "V' e = V e" if "e \<in> N" for e using that split_way_old[OF d(1)] by (simp_all add: T' V')
  have tk: "take ?p (take k (tn_key ?x)) = take ?p (tn_key ?x)" using pg(2) by (simp add: min_def)
  consider "m = ?nn" | "m = child" | "m \<in> N" "m \<noteq> rc_root c" "m \<noteq> ?nn" "m \<noteq> child" using m by blast
  then show ?thesis
  proof cases
    case 1
    have "node_inv c' (insert ?nn N) T' V' ?nn q"
      unfolding node_inv_def using d k pg f(6,8) tk old[OF d(7)]
      by (simp add: vf ch) (simp add: T' V' split_way_def)
    then show ?thesis using 1 by blast
  next
    case 2
    have "node_inv c' (insert ?nn N) T' V' child ?nn"
      unfolding node_inv_def using d k pg f(4,5,8) old[OF d(8)]
      by (simp add: vf) (simp add: T' V' split_way_def)
    then show ?thesis using 2 by blast
  next
    case 3
    then obtain r where r: "node_inv c N T V m r" using tree_parent[OF inv] by blast
    note fr = node_inv_fields[OF r]
    have "r \<noteq> ?nn" using fr(1) d(1) by blast
    then have "(take ?p (tn_key (nd c m)), m) \<in> set (tn_children (nd c' r))"
      using fr(3) 3(4) by (cases "r = q") (simp_all add: vf ch)
    then have "node_inv c' (insert ?nn N) T' V' m r"
      unfolding node_inv_def using fr 3 old[OF 3(1)] old[OF fr(1)] by (simp add: vf)
    then show ?thesis by blast
  qed
qed

lemma split_children_inv:
  assumes s: "split_step c N T V child q k" and v: "split_view c child q k c'" and m: "m \<in> insert (rc_counter c) N"
  shows "children_inv c' (insert (rc_counter c) N) m"
proof (cases "m = rc_counter c")
  case True
  then show ?thesis
    unfolding children_inv_def using split_step_nodes[OF s] by (simp add: split_view_fields[OF v] wf_dict_def)
next
  case False
  let ?nn = "rc_counter c" and ?p = "rc_page_size c" and ?x = "nd c child"
  have inv: "tree_inv c N T V" and n: "node_inv c N T V child q" using s by (simp_all add: split_step_def)
  note f = node_inv_fields[OF n] and d = split_step_nodes[OF s] and ch = split_children[OF s] and vf = split_view_fields[OF v]
  have tk: "take ?p (take k (tn_key ?x)) = take ?p (tn_key ?x)" using split_step_pages(2)[OF s] by (simp add: min_def)
  have ci: "children_inv c N m" using inv m False by (simp add: tree_inv_def)
  have wf: "wf_dict (tn_children (nd c' m))" using ci False by (cases "m = q") (simp_all add: children_inv_def vf)
  have "e \<in> insert ?nn N \<and> e \<noteq> rc_root c \<and> tn_parent (nd c' e) = Some m \<and> a = take ?p (tn_key (nd c' e))"
    if e: "(a, e) \<in> set (tn_children (nd c' m))" for a e
  proof (cases "m = q \<and> e = ?nn")
    case True
    then have "a = take ?p (tn_key ?x)" using e d ci by (auto simp: vf ch children_inv_def)
    then show ?thesis using True d tk by (simp add: vf)
  next
    case ne: False
    have old: "(a, e) \<in> set (tn_children (nd c m))" "m = q \<longrightarrow> e \<noteq> child"
      using e False ne by (auto simp: vf ch split: if_splits)
    then have o: "e \<in> N" "e \<noteq> rc_root c" "tn_parent (nd c e) = Some m" "a = take ?p (tn_key (nd c e))"
      using ci by (auto simp: children_inv_def)
    then have "e \<noteq> child" using old(2) f(2) by auto
    then show ?thesis using o d(1) by (auto simp: vf)
  qed
  then show ?thesis unfolding children_inv_def using wf vf(1,3) by auto
qed

lemma split_tree:
  assumes s: "split_step c N T V child q k" and v: "split_view c child q k c'"
    and T': "T' = split_way (rc_counter c) q (tn_key (nd c child)) k T"
    and V': "V' = split_way (rc_counter c) q (tn_value (nd c child)) k V"
  shows "tree_inv c' (insert (rc_counter c) N) T' V'"
proof -
  note d = split_step_nodes[OF s] and vf = split_view_fields[OF v]
  have inv: "tree_inv c N T V" using s by (simp add: split_step_def)
  have "T' (rc_root c) = T (rc_root c)" "V' (rc_root c) = V (rc_root c)" using d(4) by (simp_all add: T' V' split_way_def)
  then show ?thesis unfolding tree_inv_def
    using inv split_node_inv[OF s v T' V'] split_children_inv[OF s v] d split_step_pages(1)[OF s]
    by (auto simp: tree_inv_def vf less_Suc_eq)
qed

text \<open>The new node has the holders of the old one: who passes its first page, passes all of it.\<close>

lemma split_holders:
  assumes s: "split_step c N T V child q k" and T': "T' = split_way (rc_counter c) q (tn_key (nd c child)) k T"
    and H: "set_mset H \<subseteq> N"
  shows "m \<in> N \<Longrightarrow> holders T' H m = holders T H m" "holders T' H (rc_counter c) = holders T H child"
proof -
  have inv: "tree_inv c N T V" and n: "node_inv c N T V child q" and k: "k < length (tn_key (nd c child))"
    using s by (simp_all add: split_step_def)
  note f = node_inv_fields[OF n] and d = split_step_nodes[OF s] and pg = split_step_pages[OF s]
  have old: "T' e = T e" if "e \<in> N" for e using that split_way_old[OF d(1)] by (simp add: T')
  show "holders T' H m = holders T H m" if "m \<in> N"
    unfolding holders_def using old that H by (auto intro!: arg_cong[where f = size] filter_mset_cong)
  have "prefix (T' (rc_counter c)) (T' h) \<longleftrightarrow> prefix (T child) (T h)" if h: "h \<in># H" for h
  proof
    have hN: "h \<in> N" using h H by blast
    have new: "T' (rc_counter c) = T q @ take k (tn_key (nd c child))" by (simp add: T' split_way_def)
    show "prefix (T' (rc_counter c)) (T' h)" if "prefix (T child) (T h)"
    proof -
      have "prefix (T' (rc_counter c)) (T child)" by (simp add: new f(4) take_is_prefix)
      then show ?thesis using that old[OF hN] by (metis prefix_order.trans)
    qed
    assume "prefix (T' (rc_counter c)) (T' h)"
    then have "prefix (T q @ take k (tn_key (nd c child))) (T h)" using old[OF hN] new by simp
    then have "anc c child h" using child_on_way[OF inv n d(8) hN] pg(2) k by (simp add: min_def)
    then show "prefix (T child) (T h)" using anc_tree[OF _ inv hN] by blast
  qed
  then show "holders T' H (rc_counter c) = holders T H child"
    unfolding holders_def by (auto intro!: arg_cong[where f = size] filter_mset_cong)
qed

lemma sum_split:
  fixes g g' :: "nat \<Rightarrow> 'a::comm_monoid_add"
  assumes "finite A" "child \<in> A" "nn \<notin> A" "\<And>m. m \<in> A - {child} \<Longrightarrow> g' m = g m" "g' nn + g' child = g child"
  shows "sum g' (insert nn A) = sum g A"
proof -
  have "sum g' (insert nn A) = g' nn + (g' child + sum g' (A - {child}))" using assms(1-3) by (simp add: sum.remove)
  also have "\<dots> = g child + sum g (A - {child})" using assms(4,5) by (simp add: add.assoc[symmetric] cong: sum.cong_simp)
  finally show ?thesis using assms(1,2) by (simp add: sum.remove)
qed

end
