(* ===== verification/Radix_Lookup.thy ===== *)
theory Radix_Lookup
  imports Radix_Split
begin

text \<open>
  Looking keys up in the prefix cache and inserting them: both walk from the root along the longest
  stored prefix of the key, splitting the last node where the key leaves it.
\<close>

section \<open>Steps that keep what is stored\<close>

definition same_content ::
  "nat multiset \<Rightarrow> radix_cache \<Rightarrow> nat set \<Rightarrow> (nat \<Rightarrow> int list) \<Rightarrow> (nat \<Rightarrow> int list) \<Rightarrow>
     radix_cache \<Rightarrow> nat set \<Rightarrow> (nat \<Rightarrow> int list) \<Rightarrow> (nat \<Rightarrow> int list) \<Rightarrow> bool" where
  "same_content H c N T V c' N' T' V' \<longleftrightarrow> cache_inv c' N' T' V' H \<and> tree_grows c N T V c' N' T' V' \<and>
     tree_slots c' N' = tree_slots c N \<and> (\<forall>xs vs. stored N' T' V' xs vs \<longleftrightarrow> stored N T V xs vs)"

lemma same_content_refl: "cache_inv c N T V H \<Longrightarrow> same_content H c N T V c N T V"
  by (simp add: same_content_def)

lemma same_content_trans:
  "same_content H c N T V c1 N1 T1 V1 \<Longrightarrow> same_content H c1 N1 T1 V1 c2 N2 T2 V2 \<Longrightarrow> same_content H c N T V c2 N2 T2 V2"
  by (auto simp: same_content_def intro: tree_grows_trans)

lemma same_content_view: "cache_inv c N T V H \<Longrightarrow> same_view c c' \<Longrightarrow> same_content H c N T V c' N T V"
  by (simp add: same_content_def cache_inv_same_view tree_slots_same_view tree_grows_same_view)

lemma stored_insert_prefix:
  assumes "m \<in> N" "prefix (T nn) (T m)" "prefix (V nn) (V m)" "length (V nn) = length (T nn)"
  shows "stored (insert nn N) T V xs vs \<longleftrightarrow> stored N T V xs vs"
proof -
  have "prefix xs (T m) \<and> take (length xs) (V nn) = take (length xs) (V m)" if "prefix xs (T nn)"
  proof -
    have "length xs \<le> length (V nn)" using prefix_length_le[OF that] assms(4) by simp
    then show ?thesis using that assms(2,3) by (auto simp: prefix_def)
  qed
  then show ?thesis using assms(1) unfolding stored_def by blast
qed

lemma stored_cong: "(\<And>n. n \<in> N \<Longrightarrow> T' n = T n) \<Longrightarrow> (\<And>n. n \<in> N \<Longrightarrow> V' n = V n) \<Longrightarrow> stored N T' V' xs vs = stored N T V xs vs"
  by (simp add: stored_def)

lemma split_sums:
  assumes s: "split_step c N T V child q k" and v: "split_view c child q k c'"
  shows "evictable_sum c' (insert (rc_counter c) N) = evictable_sum c N"
    "protected_sum c' (insert (rc_counter c) N) = protected_sum c N"
    "tree_slots c' (insert (rc_counter c) N) = tree_slots c N"
proof -
  note d = split_step_nodes[OF s] and vf = split_view_fields[OF v]
  have fin: "finite N" using s by (simp add: split_step_def tree_inv_def)
  have k: "k < length (tn_value (nd c child))" using s by (simp add: split_step_def node_inv_def)
  have eq: "insert (rc_counter c) N - {rc_root c'} = insert (rc_counter c) (N - {rc_root c})" using d(4) vf(3) by auto
  have old: "m \<noteq> rc_counter c" if "m \<in> N" for m using that d(1) by blast
  show "evictable_sum c' (insert (rc_counter c) N) = evictable_sum c N"
    unfolding evictable_sum_def eq using fin d k old by (intro sum_split[where child = child]) (auto simp: vf)
  show "protected_sum c' (insert (rc_counter c) N) = protected_sum c N"
    unfolding protected_sum_def eq using fin d k old by (intro sum_split[where child = child]) (auto simp: vf)
  show "tree_slots c' (insert (rc_counter c) N) = tree_slots c N"
    unfolding tree_slots_def using fin d k old
    by (intro sum_split[where child = child]) (auto simp: vf simp flip: mset_append)
qed

lemma split_same_content:
  assumes inv: "cache_inv c N T V H" and s: "split_step c N T V child q k" and v: "split_view c child q k c'"
    and T': "T' = split_way (rc_counter c) q (tn_key (nd c child)) k T"
    and V': "V' = split_way (rc_counter c) q (tn_value (nd c child)) k V"
  shows "same_content H c N T V c' (insert (rc_counter c) N) T' V'"
proof -
  note d = split_step_nodes[OF s] and vf = split_view_fields[OF v] and sums = split_sums[OF s v]
  have n: "node_inv c N T V child q" and t: "tree_inv c N T V" using s by (simp_all add: split_step_def)
  have H: "set_mset H \<subseteq> N" "\<forall>m \<in> N - {rc_root c}. tn_lock_ref (nd c m) = int (holders T H m)"
    using inv by (simp_all add: cache_inv_def locks_inv_def)
  have old: "T' e = T e" "V' e = V e" if "e \<in> N" for e using that split_way_old[OF d(1)] by (simp_all add: T' V')
  have h: "\<And>m. m \<in> N \<Longrightarrow> holders T' H m = holders T H m" "holders T' H (rc_counter c) = holders T H child"
    using split_holders[OF s T' H(1)] by blast+
  have "locks_inv c' (insert (rc_counter c) N) T' H"
    unfolding locks_inv_def using H d h by (auto simp: vf)
  then have ci: "cache_inv c' (insert (rc_counter c) N) T' V' H"
    using split_tree[OF s v T' V'] sums(1,2) inv by (simp add: cache_inv_def vf)
  have st: "stored (insert (rc_counter c) N) T' V' xs vs \<longleftrightarrow> stored N T V xs vs" for xs vs
  proof -
    have "prefix (T' (rc_counter c)) (T' child)" "prefix (V' (rc_counter c)) (V' child)"
      using node_inv_fields(4,5)[OF n] old[OF d(8)] by (simp_all add: T' V' split_way_def take_is_prefix)
    moreover have "length (V' (rc_counter c)) = length (T' (rc_counter c))"
      using node_inv_fields(8)[OF n] tree_lengths(2)[OF t d(7)] by (simp add: T' V' split_way_def)
    ultimately have "stored (insert (rc_counter c) N) T' V' xs vs \<longleftrightarrow> stored N T' V' xs vs"
      using stored_insert_prefix[OF d(8)] by blast
    then show ?thesis using stored_cong[of N T' T V' V] old by simp
  qed
  show ?thesis unfolding same_content_def using ci st sums(3) old by (auto simp: tree_grows_def vf)
qed

section \<open>Where the walk ends\<close>

text \<open>The walk cannot go on at \<open>n\<close>: the rest of the key is empty or no child starts with its first page.\<close>

definition stuck :: "radix_cache \<Rightarrow> nat \<Rightarrow> int list \<Rightarrow> bool" where
  "stuck c n rest \<longleftrightarrow> rest = [] \<or> map_of (tn_children (nd c n)) (take (rc_page_size c) rest) = None"

lemma stuck_longest:
  assumes inv: "tree_inv c N T V" and n: "n \<in> N" "stuck c n rest" and al: "rc_page_size c dvd length ys"
    and ys: "prefix ys (T n @ rest)" "prefix ys (T m)" "m \<in> N"
  shows "length ys \<le> length (T n)"
proof (rule ccontr)
  let ?p = "rc_page_size c"
  assume "\<not> ?thesis"
  then have lt: "length (T n) < length ys" by simp
  then have "prefix (T n) ys" using ys(1) by (metis append_prefixD less_imp_le prefix_length_prefix prefix_order.refl)
  then obtain zs where zs: "ys = T n @ zs" by (auto simp: prefix_def)
  have "?p dvd length zs" using al zs tree_lengths(1)[OF inv n(1)] by (metis dvd_add_right_iff length_append)
  then have pz: "?p \<le> length zs" using lt zs by (simp add: dvd_imp_le)
  have "prefix (T n) (T m)" using ys(2) zs by (auto intro: append_prefixD)
  moreover have "length (T n) < length (T m)" using lt prefix_length_le[OF ys(2)] by linarith
  ultimately have "prefix (T n) (T m)" "length (T n) < length (T m)" by blast+
  from tree_descend[OF inv n(1) ys(3) this] obtain a where a: "node_inv c N T V a n"
      "take ?p (tn_key (nd c a)) = take ?p (drop (length (T n)) (T m))" by blast
  have "take ?p (drop (length (T n)) (T m)) = take ?p zs" using ys(2) zs pz by (auto simp: prefix_def)
  moreover have "take ?p rest = take ?p zs" using ys(1) zs pz by (auto simp: prefix_def)
  ultimately have "(take ?p rest, a) \<in> set (tn_children (nd c n))" using node_inv_fields(3)[OF a(1)] a(2) by simp
  then have "map_of (tn_children (nd c n)) (take ?p rest) \<noteq> None" by (metis map_of_eq_None_iff fst_conv image_eqI)
  moreover have "rest \<noteq> []" using ys(1) lt prefix_length_le[OF ys(1)] by auto
  ultimately show False using n(2) by (simp add: stuck_def)
qed

section \<open>One step down\<close>

lemma descend_match:
  assumes inv: "tree_inv c N T V" and node: "node \<in> N" and key: "key \<noteq> []" "rc_page_size c dvd length key"
    and child: "map_of (tn_children (nd c node)) (get_child_key c key) = Some child"
    and m: "m = key_match (touch child c) (tn_key (nd (touch child c) child)) key"
  shows "page_match (rc_page_size c) (tn_key (nd c child)) key m" "rc_page_size c \<le> m"
proof -
  note t = tree_child[OF inv node child]
  have p: "0 < rc_page_size c" using inv by (simp add: tree_inv_def)
  have "same_view c (touch child c)" by simp
  then have "rc_page_size (touch child c) = rc_page_size c" "tn_key (nd (touch child c) child) = tn_key (nd c child)"
    by (simp_all add: same_view_def)
  then show pm: "page_match (rc_page_size c) (tn_key (nd c child)) key m"
    using key_match[of "touch child c" "tn_key (nd c child)" key] m p key(2) node_inv_fields(7)[OF t(5)] by simp
  show "rc_page_size c \<le> m"
    using page_match_first[OF pm p node_inv_fields(6)[OF t(5)] key(1)] t(4) by (simp add: get_child_key_def)
qed

lemma descend_split:
  assumes inv: "cache_inv c N T V H" and node: "node \<in> N" and key: "key \<noteq> []" "rc_page_size c dvd length key"
    and child: "map_of (tn_children (nd c node)) (get_child_key c key) = Some child"
    and m: "m = key_match (touch child c) (tn_key (nd (touch child c) child)) key"
    and short: "m < length (tn_key (nd c child))"
  shows "\<exists>nn c2 N2 T2 V2. split_node (tn_key (nd (touch child c) child)) child m (touch child c) = Some (nn, c2) \<and>
    same_content H c N T V c2 N2 T2 V2 \<and> nn \<in> N2 \<and> T2 nn = T node @ take m key \<and>
    V2 nn = V node @ tn_value (nd c2 nn) \<and> stuck c2 nn (drop m key)"
proof -
  let ?c1 = "touch child c" and ?p = "rc_page_size c"
  have tinv: "tree_inv c N T V" using inv by (simp add: cache_inv_def)
  note t = tree_child[OF tinv node child] and dm = descend_match[OF tinv node key child m]
  have sv: "same_view c ?c1" by simp
  then have f: "rc_page_size ?c1 = ?p" "rc_counter ?c1 = rc_counter c" "\<And>n. tn_key (nd ?c1 n) = tn_key (nd c n)"
      "\<And>n. tn_value (nd ?c1 n) = tn_value (nd c n)" by (simp_all add: same_view_def)
  have inv1: "cache_inv ?c1 N T V H" using inv cache_inv_same_view[OF sv] by simp
  have tinv1: "tree_inv ?c1 N T V" using inv1 by (simp add: cache_inv_def)
  have "map_of (tn_children (nd ?c1 node)) (get_child_key c key) = Some child" using child sv by (simp add: same_view_def)
  note t1 = tree_child[OF tinv1 node this]
  have p: "0 < ?p" using tinv by (simp add: tree_inv_def)
  have st: "split_step ?c1 N T V child node m"
    unfolding split_step_def using tinv1 t1 short dm p by (simp add: f page_match_def)
  note d = split_step_nodes[OF st]
  obtain c2 where c2: "split_node (tn_key (nd ?c1 child)) child m ?c1 = Some (rc_counter ?c1, c2)" "split_view ?c1 child node m c2"
    using split_node_view[OF t1(3) d(2)[symmetric] d(3)[symmetric] d(5)[symmetric], of m] by blast
  let ?T2 = "split_way (rc_counter c) node (tn_key (nd c child)) m T"
  let ?V2 = "split_way (rc_counter c) node (tn_value (nd c child)) m V"
  have "same_content H ?c1 N T V c2 (insert (rc_counter c) N) ?T2 ?V2"
    using split_same_content[OF inv1 st c2(2)] by (simp add: f)
  then have sc: "same_content H c N T V c2 (insert (rc_counter c) N) ?T2 ?V2"
    using same_content_trans[OF same_content_view[OF inv sv]] by blast
  have tk: "take m (tn_key (nd c child)) = take m key" using dm(1) by (simp add: page_match_def)
  have "stuck c2 (rc_counter c) (drop m key)"
    using dm(1) short by (auto simp: stuck_def split_view_fields[OF c2(2)] f page_match_def)
  moreover have "tn_value (nd c2 (rc_counter c)) = take m (tn_value (nd c child))" by (simp add: split_view_fields[OF c2(2)] f)
  ultimately show ?thesis using c2(1) sc tk
    by (intro exI[of _ "rc_counter c"] exI[of _ c2] exI[of _ "insert (rc_counter c) N"] exI[of _ ?T2] exI[of _ ?V2])
      (simp add: f split_way_def)
qed

lemma descend_whole:
  assumes inv: "cache_inv c N T V H" and node: "node \<in> N" and key: "key \<noteq> []" "rc_page_size c dvd length key"
    and child: "map_of (tn_children (nd c node)) (get_child_key c key) = Some child"
    and m: "m = key_match (touch child c) (tn_key (nd (touch child c) child)) key"
    and long: "\<not> m < length (tn_key (nd c child))"
  shows "child \<in> N" "T child = T node @ take m key" "V child = V node @ tn_value (nd c child)"
proof -
  have tinv: "tree_inv c N T V" using inv by (simp add: cache_inv_def)
  note t = tree_child[OF tinv node child] and dm = descend_match[OF tinv node key child m]
  have pm: "m \<le> length (tn_key (nd c child))" "take m (tn_key (nd c child)) = take m key"
    using dm(1) unfolding page_match_def by blast+
  have "take m (tn_key (nd c child)) = tn_key (nd c child)" using pm(1) long by (metis nless_le take_all_iff)
  then show "T child = T node @ take m key" using node_inv_fields(4)[OF t(5)] pm(2) by metis
  show "child \<in> N" "V child = V node @ tn_value (nd c child)" using t(1) node_inv_fields(5)[OF t(5)] by blast+
qed

section \<open>The loops\<close>

lemma match_loop_walks:
  assumes "cache_inv c N T V H" "node \<in> N" "rc_page_size c dvd length key" "V node = concat vals"
  shows "\<exists>vals' node' c' N' T' V' rest. match_loop node key vals c = Some (vals', node', c') \<and>
    same_content H c N T V c' N' T' V' \<and> node' \<in> N' \<and> V' node' = concat vals' \<and> T node @ key = T' node' @ rest \<and> stuck c' node' rest"
  using assms
proof (induction "length key" arbitrary: c node key vals rule: less_induct)
  case less
  note inv = less.prems(1) and node = less.prems(2) and al = less.prems(3) and val = less.prems(4)
  show ?case
  proof (cases "if key = [] then None else map_of (tn_children (nd c node)) (get_child_key c key)")
    case None
    then have "stuck c node key" by (auto simp: stuck_def get_child_key_def split: if_splits)
    then show ?thesis using None inv node val same_content_refl[OF inv]
      by (subst match_loop.simps) (intro exI[of _ vals] exI[of _ node] exI[of _ c] exI[of _ N] exI[of _ T] exI[of _ V] exI[of _ key], simp)
  next
    case (Some child)
    then have key: "key \<noteq> []" and child: "map_of (tn_children (nd c node)) (get_child_key c key) = Some child"
      by (auto split: if_splits)
    define m where "m = key_match (touch child c) (tn_key (nd (touch child c) child)) key"
    have f: "tn_key (nd (touch child c) n) = tn_key (nd c n)" "tn_value (nd (touch child c) n) = tn_value (nd c n)"
        "rc_page_size (touch child c) = rc_page_size c" for n
      using same_view_touch[of c child] by (simp_all add: same_view_def)
    have mf: "key_match (touch child c) (tn_key (nd c child)) key = m" by (simp add: m_def f)
    have tinv: "tree_inv c N T V" using inv by (simp add: cache_inv_def)
    note dm = descend_match[OF tinv node key al child m_def]
    have p: "0 < rc_page_size c" using tinv by (simp add: tree_inv_def)
    show ?thesis
    proof (cases "m < length (tn_key (nd c child))")
      case True
      from descend_split[OF inv node key al child m_def True] obtain nn c2 N2 T2 V2 where
        s: "split_node (tn_key (nd (touch child c) child)) child m (touch child c) = Some (nn, c2)"
          "same_content H c N T V c2 N2 T2 V2" "nn \<in> N2" "T2 nn = T node @ take m key" "V2 nn = V node @ tn_value (nd c2 nn)"
          "stuck c2 nn (drop m key)" by blast
      have "match_loop node key vals c = Some (vals @ [tn_value (nd c2 nn)], nn, c2)"
        using Some True s(1) by (subst match_loop.simps) (simp add: mf Let_def f)
      then show ?thesis using s val
        by (intro exI[of _ "vals @ [tn_value (nd c2 nn)]"] exI[of _ nn] exI[of _ c2] exI[of _ N2] exI[of _ T2] exI[of _ V2]
            exI[of _ "drop m key"]) simp
    next
      case False
      let ?c1 = "touch child c"
      note w = descend_whole[OF inv node key al child m_def False]
      have inv1: "cache_inv ?c1 N T V H" using inv cache_inv_same_view[OF same_view_touch] by simp
      have "match_loop node key vals c = match_loop child (drop m key) (vals @ [tn_value (nd ?c1 child)]) ?c1"
        using Some False by (subst match_loop.simps) (simp add: mf Let_def f)
      moreover have "length (drop m key) < length key" using dm(2) p key by simp
      moreover have "rc_page_size ?c1 dvd length (drop m key)" using al dm(1) by (simp add: f page_match_def dvd_diff_nat)
      moreover have "V child = concat (vals @ [tn_value (nd ?c1 child)])" using w(3) val by (simp add: f)
      ultimately obtain vals' node' c' N' T' V' rest where
        r: "match_loop node key vals c = Some (vals', node', c')" "same_content H ?c1 N T V c' N' T' V'" "node' \<in> N'"
          "V' node' = concat vals'" "T child @ drop m key = T' node' @ rest" "stuck c' node' rest"
        using less.hyps[OF _ inv1 w(1)] by metis
      have "same_content H c N T V c' N' T' V'"
        using same_content_trans[OF same_content_view[OF inv same_view_touch] r(2)] .
      moreover have "T node @ key = T' node' @ rest" using r(5) w(2) by simp
      ultimately show ?thesis using r by blast
    qed
  qed
qed

lemma descend_step:
  assumes inv: "cache_inv c N T V H" and node: "node \<in> N" and key: "key \<noteq> []" "rc_page_size c dvd length key"
    and child: "map_of (tn_children (nd c node)) (get_child_key c key) = Some child"
    and m: "m = key_match (touch child c) (tn_key (nd (touch child c) child)) key"
  shows "\<exists>n2 c2 N2 T2 V2. (if m < length (tn_key (nd (touch child c) child))
      then split_node (tn_key (nd (touch child c) child)) child m (touch child c) else Some (child, touch child c)) = Some (n2, c2) \<and>
    same_content H c N T V c2 N2 T2 V2 \<and> n2 \<in> N2 \<and> T2 n2 = T node @ take m key"
proof (cases "m < length (tn_key (nd c child))")
  case True
  have "tn_key (nd (touch child c) child) = tn_key (nd c child)" using same_view_touch[of c child] by (simp add: same_view_def)
  then show ?thesis using descend_split[OF assms True] True by simp blast
next
  case False
  have "tn_key (nd (touch child c) child) = tn_key (nd c child)" using same_view_touch[of c child] by (simp add: same_view_def)
  then show ?thesis using descend_whole[OF assms False] same_content_view[OF inv same_view_touch, of child] False by auto
qed

lemma insert_loop_walks:
  assumes "cache_inv c N T V H" "node \<in> N" "rc_page_size c dvd length key"
  shows "\<exists>node' c' N' T' V' j. insert_loop node key vals t0 c = Some (node', drop j key, drop j vals, t0 + j, c') \<and>
    same_content H c N T V c' N' T' V' \<and> node' \<in> N' \<and> j \<le> length key \<and> T' node' = T node @ take j key \<and> stuck c' node' (drop j key)"
  using assms
proof (induction "length key" arbitrary: c N T V node key vals t0 rule: less_induct)
  case less
  note inv = less.prems(1) and node = less.prems(2) and al = less.prems(3)
  have tinv: "tree_inv c N T V" using inv by (simp add: cache_inv_def)
  show ?case
  proof (cases "if key = [] then None else map_of (tn_children (nd c node)) (get_child_key c key)")
    case None
    then have "stuck c node key" by (auto simp: stuck_def get_child_key_def split: if_splits)
    moreover have "insert_loop node key vals t0 c = Some (node, drop 0 key, drop 0 vals, t0 + 0, c)"
      using None by (subst insert_loop.simps) simp
    ultimately show ?thesis using node same_content_refl[OF inv]
      by (intro exI[of _ node] exI[of _ c] exI[of _ N] exI[of _ T] exI[of _ V] exI[of _ 0]) simp
  next
    case (Some child)
    then have key: "key \<noteq> []" and child: "map_of (tn_children (nd c node)) (get_child_key c key) = Some child"
      by (auto split: if_splits)
    define m where "m = key_match (touch child c) (tn_key (nd (touch child c) child)) key"
    note dm = descend_match[OF tinv node key al child m_def]
    obtain n2 c2 N2 T2 V2 where
      s: "(if m < length (tn_key (nd (touch child c) child))
          then split_node (tn_key (nd (touch child c) child)) child m (touch child c) else Some (child, touch child c)) = Some (n2, c2)"
        "same_content H c N T V c2 N2 T2 V2" "n2 \<in> N2" "T2 n2 = T node @ take m key"
      using descend_step[OF inv node key al child m_def] by blast
    have eq: "insert_loop node key vals t0 c = insert_loop n2 (drop m key) (drop m vals) (t0 + m) c2"
      using Some s(1) unfolding m_def by (subst insert_loop.simps) (simp add: Let_def)
    have m: "m \<le> length key" "rc_page_size c dvd m" using dm(1) by (simp_all add: page_match_def)
    have inv2: "cache_inv c2 N2 T2 V2 H" and pg: "rc_page_size c2 = rc_page_size c" using s(2) by (simp_all add: same_content_def tree_grows_def)
    have "0 < rc_page_size c" using tinv by (simp add: tree_inv_def)
    then have "length (drop m key) < length key" using dm(2) key by simp
    moreover have "rc_page_size c2 dvd length (drop m key)" using al m by (simp add: pg dvd_diff_nat)
    ultimately obtain node' c' N' T' V' j where
      r: "insert_loop n2 (drop m key) (drop m vals) (t0 + m) c2 = Some (node', drop j (drop m key), drop j (drop m vals), t0 + m + j, c')"
        "same_content H c2 N2 T2 V2 c' N' T' V'" "node' \<in> N'" "j \<le> length (drop m key)"
        "T' node' = T2 n2 @ take j (drop m key)" "stuck c' node' (drop j (drop m key))"
      using less.hyps[OF _ inv2 s(3), of "drop m key" "drop m vals" "t0 + m"] by blast
    then have "insert_loop node key vals t0 c = Some (node', drop (m + j) key, drop (m + j) vals, t0 + (m + j), c')"
      by (simp add: eq add.commute add.left_commute)
    moreover have "T' node' = T node @ take (m + j) key" using r(5) s(4) by (simp add: take_add_append)
    ultimately show ?thesis using same_content_trans[OF s(2) r(2)] r(3,4,6) m(1)
      by (intro exI[of _ node'] exI[of _ c'] exI[of _ N'] exI[of _ T'] exI[of _ V'] exI[of _ "m + j"]) (simp add: add.commute)
  qed
qed

section \<open>Adding a leaf\<close>

definition leaf_view :: "radix_cache \<Rightarrow> nat \<Rightarrow> int list \<Rightarrow> int list \<Rightarrow> radix_cache \<Rightarrow> bool" where
  "leaf_view c node key vals c' \<longleftrightarrow> (let nn = rc_counter c; p = rc_page_size c in
     rc_page_size c' = p \<and> rc_disable c' = rc_disable c \<and> rc_root c' = rc_root c \<and> rc_freed c' = rc_freed c \<and>
     rc_counter c' = nn + 1 \<and> rc_evictable_size c' = rc_evictable_size c + int (length vals) \<and>
     rc_protected_size c' = rc_protected_size c \<and>
     (\<forall>n. tn_children (nd c' n) = (if n = nn then []
        else if n = node then AList.update (take p key) nn (tn_children (nd c node)) else tn_children (nd c n))) \<and>
     (\<forall>n. tn_parent (nd c' n) = (if n = nn then Some node else tn_parent (nd c n))) \<and>
     (\<forall>n. tn_key (nd c' n) = (if n = nn then key else tn_key (nd c n))) \<and>
     (\<forall>n. tn_value (nd c' n) = (if n = nn then vals else tn_value (nd c n))) \<and>
     (\<forall>n. tn_lock_ref (nd c' n) = (if n = nn then 0 else tn_lock_ref (nd c n))))"

lemma add_leaf_view:
  assumes "node \<noteq> rc_counter c"
  shows "leaf_view c node key vals (add_leaf node key vals c)"
proof -
  obtain c4 where "add_leaf node key vals c = record_store_event (rc_counter c) c4" "leaf_view c node key vals c4"
    using assms by (simp add: add_leaf_def TreeNode_def monotonic_def upd_node_def get_child_key_def Let_def
      leaf_view_def cong: if_cong)
  then show ?thesis using same_view_record(1)[of c4 "rc_counter c"] by (simp add: leaf_view_def same_view_def Let_def)
qed

lemma leaf_view_fields:
  assumes "leaf_view c node key vals c'"
  shows "rc_page_size c' = rc_page_size c" "rc_disable c' = rc_disable c" "rc_root c' = rc_root c" "rc_freed c' = rc_freed c"
    "rc_counter c' = rc_counter c + 1" "rc_evictable_size c' = rc_evictable_size c + int (length vals)"
    "rc_protected_size c' = rc_protected_size c"
    "tn_children (nd c' m) = (if m = rc_counter c then [] else if m = node
        then AList.update (take (rc_page_size c) key) (rc_counter c) (tn_children (nd c node)) else tn_children (nd c m))"
    "tn_parent (nd c' m) = (if m = rc_counter c then Some node else tn_parent (nd c m))"
    "tn_key (nd c' m) = (if m = rc_counter c then key else tn_key (nd c m))"
    "tn_value (nd c' m) = (if m = rc_counter c then vals else tn_value (nd c m))"
    "tn_lock_ref (nd c' m) = (if m = rc_counter c then 0 else tn_lock_ref (nd c m))"
  using assms by (simp_all add: leaf_view_def Let_def)

lemma leaf_children:
  assumes wf: "wf_dict d" and new: "map_of d k = None"
  shows "(a, m) \<in> set (AList.update k nn d) \<longleftrightarrow> (a, m) = (k, nn) \<or> (a, m) \<in> set d"
proof -
  have "(a, m) \<in> set (AList.update k nn d) \<longleftrightarrow> map_of (AList.update k nn d) a = Some m"
    using wf_dict_mem[OF wf_dict_update[OF wf]] .
  also have "\<dots> \<longleftrightarrow> (if a = k then m = nn else (a, m) \<in> set d)" by (auto simp: update_conv' wf_dict_mem[OF wf])
  finally show ?thesis using new wf_dict_mem[OF wf, of k m] by auto
qed

lemma leaf_tree:
  assumes inv: "tree_inv c N T V" and node: "node \<in> N" and key: "key \<noteq> []" "rc_page_size c dvd length key"
    and len: "length vals = length key" and st: "stuck c node key" and v: "leaf_view c node key vals c'"
    and T': "T' = T(rc_counter c := T node @ key)" and V': "V' = V(rc_counter c := V node @ vals)"
  shows "tree_inv c' (insert (rc_counter c) N) T' V'"
proof -
  let ?nn = "rc_counter c" and ?p = "rc_page_size c"
  note vf = leaf_view_fields[OF v]
  have b: "\<forall>n \<in> N. n < ?nn" and r: "rc_root c \<in> N" using inv by (simp_all add: tree_inv_def)
  then have nn: "?nn \<notin> N" "?nn \<noteq> rc_root c" "node \<noteq> ?nn" using node by auto
  have old: "T' e = T e" "V' e = V e" if "e \<in> N" for e using that nn(1) by (auto simp: T' V')
  have ci: "children_inv c N m" if "m \<in> N" for m using inv that by (simp add: tree_inv_def)
  have none: "map_of (tn_children (nd c node)) (take ?p key) = None" using st key(1) by (simp add: stuck_def)
  have ch: "(a, m) \<in> set (tn_children (nd c' node)) \<longleftrightarrow> (a, m) = (take ?p key, ?nn) \<or> (a, m) \<in> set (tn_children (nd c node))" for a m
    using leaf_children[OF _ none] ci[OF node] nn(3) by (simp add: vf children_inv_def)
  have "\<exists>q. node_inv c' (insert ?nn N) T' V' m q" if m: "m \<in> insert ?nn N - {rc_root c}" for m
  proof (cases "m = ?nn")
    case True
    have "node_inv c' (insert ?nn N) T' V' ?nn node"
      unfolding node_inv_def using node key len ch[of "take ?p key" ?nn] old[OF node] by (simp add: vf(1,9-11)) (simp add: T' V')
    then show ?thesis using True by blast
  next
    case False
    then obtain q where q: "node_inv c N T V m q" using tree_parent[OF inv] m by blast
    note f = node_inv_fields[OF q]
    have "(take ?p (tn_key (nd c m)), m) \<in> set (tn_children (nd c' q))"
      using f(1,3) nn(1) ch by (cases "q = node") (auto simp: vf(8))
    then have "node_inv c' (insert ?nn N) T' V' m q"
      unfolding node_inv_def using f False m old[of m] old[OF f(1)] by (simp add: vf(1,9-11))
    then show ?thesis by blast
  qed
  moreover have "children_inv c' (insert ?nn N) m" if m: "m \<in> insert ?nn N" for m
  proof (cases "m = ?nn")
    case False
    then have mN: "m \<in> N" using m by simp
    have wf: "wf_dict (tn_children (nd c' m))" using ci[OF mN] False by (cases "m = node") (simp_all add: children_inv_def vf(8))
    have "e \<in> insert ?nn N \<and> e \<noteq> rc_root c \<and> tn_parent (nd c' e) = Some m \<and> a = take ?p (tn_key (nd c' e))"
      if e: "(a, e) \<in> set (tn_children (nd c' m))" for a e
    proof (cases "(a, e) \<in> set (tn_children (nd c m))")
      case True
      then have "e \<in> N" "e \<noteq> rc_root c" "tn_parent (nd c e) = Some m" "a = take ?p (tn_key (nd c e))"
        using ci[OF mN] by (auto simp: children_inv_def)
      then show ?thesis using nn(1) by (auto simp: vf(9,10))
    next
      case new: False
      then have "m = node" using e False by (auto simp: vf(8) split: if_splits)
      then have "a = take ?p key" "e = ?nn" "m = node" using e new ch by auto
      then show ?thesis using nn by (simp add: vf(9,10))
    qed
    then show ?thesis unfolding children_inv_def using wf vf(1,3) by auto
  qed (simp add: children_inv_def vf(8))
  ultimately show ?thesis unfolding tree_inv_def
    using inv nn old[OF r] by (auto simp: tree_inv_def vf(1,3,5,9-11) less_Suc_eq)
qed

text \<open>What is stored once a key with its slots has been added.\<close>

definition stores_also :: "(int list \<Rightarrow> int list \<Rightarrow> bool) \<Rightarrow> int list \<Rightarrow> int list \<Rightarrow> int list \<Rightarrow> int list \<Rightarrow> bool" where
  "stores_also st key slots xs vs \<longleftrightarrow> st xs vs \<or> prefix xs key \<and> vs = take (length xs) slots"

lemma leaf_holders:
  assumes inv: "cache_inv c N T V H" and node: "node \<in> N" and key: "key \<noteq> []" "rc_page_size c dvd length key"
    and st: "stuck c node key" and T': "T' = T(rc_counter c := T node @ key)"
  shows "m \<in> N \<Longrightarrow> holders T' H m = holders T H m" "holders T' H (rc_counter c) = 0"
proof -
  have t: "tree_inv c N T V" and H: "set_mset H \<subseteq> N" using inv by (simp_all add: cache_inv_def locks_inv_def)
  then have nn: "rc_counter c \<notin> N" by (auto simp: tree_inv_def)
  have old: "T' e = T e" if "e \<in> N" for e using that nn by (auto simp: T')
  show "holders T' H m = holders T H m" if "m \<in> N"
    unfolding holders_def using old that H by (auto intro!: arg_cong[where f = size] filter_mset_cong)
  have "\<not> prefix (T' (rc_counter c)) (T' h)" if h: "h \<in># H" for h
  proof
    have hN: "h \<in> N" using h H by blast
    assume "prefix (T' (rc_counter c)) (T' h)"
    then have "prefix (T node @ key) (T h)" using old[OF hN] by (simp add: T')
    moreover have "rc_page_size c dvd length (T node @ key)" using tree_lengths(1)[OF t node] key(2) by simp
    ultimately have "length (T node @ key) \<le> length (T node)" using stuck_longest[OF t node st _ _ _ hN] by blast
    then show False using key(1) by simp
  qed
  then show "holders T' H (rc_counter c) = 0" by (simp add: holders_def filter_mset_eq_conv[of _ H "{#}"])
qed

lemma leaf_cache:
  assumes inv: "cache_inv c N T V H" and node: "node \<in> N" and key: "key \<noteq> []" "rc_page_size c dvd length key"
    and len: "length vals = length key" and st: "stuck c node key"
    and T': "T' = T(rc_counter c := T node @ key)" and V': "V' = V(rc_counter c := V node @ vals)"
    and c': "c' = add_leaf node key vals c"
  shows "cache_inv c' (insert (rc_counter c) N) T' V' H" "tree_grows c N T V c' (insert (rc_counter c) N) T' V'"
    "tree_slots c' (insert (rc_counter c) N) = tree_slots c N + mset vals"
    "stored (insert (rc_counter c) N) T' V' xs vs \<longleftrightarrow> stores_also (stored N T V) (T node @ key) (V node @ vals) xs vs"
proof -
  let ?nn = "rc_counter c"
  have t: "tree_inv c N T V" and H: "set_mset H \<subseteq> N" "\<forall>n \<in> N - {rc_root c}. tn_lock_ref (nd c n) = int (holders T H n)"
    using inv by (simp_all add: cache_inv_def locks_inv_def)
  have fin: "finite N" and r: "rc_root c \<in> N" and nn: "?nn \<notin> N" using t by (auto simp: tree_inv_def)
  then have ne: "node \<noteq> ?nn" "?nn \<noteq> rc_root c" using node by auto
  have v: "leaf_view c node key vals c'" using add_leaf_view[OF ne(1)] c' by simp
  note vf = leaf_view_fields[OF v] and lh = leaf_holders[OF inv node key st T']
  have old: "T' e = T e" "V' e = V e" "e \<noteq> ?nn" if "e \<in> N" for e using that nn by (auto simp: T' V')
  have eq: "insert ?nn N - {rc_root c'} = insert ?nn (N - {rc_root c})" using ne(2) vf(3) by auto
  have same: "tn_lock_ref (nd c' e) = tn_lock_ref (nd c e)" "tn_value (nd c' e) = tn_value (nd c e)" if "e \<in> N" for e
    using old(3)[OF that] by (simp_all add: vf(11,12))
  have leaf: "tn_lock_ref (nd c' ?nn) = 0" "tn_value (nd c' ?nn) = vals" by (simp_all add: vf(11,12))
  have "locks_inv c' (insert ?nn N) T' H" unfolding locks_inv_def using H lh old(3) by (auto simp: vf(3,12))
  moreover have "evictable_sum c' (insert ?nn N) = evictable_sum c N + int (length vals)"
    unfolding evictable_sum_def eq using fin nn by (auto simp: leaf same intro!: sum.cong cong: if_cong)
  moreover have "protected_sum c' (insert ?nn N) = protected_sum c N"
    unfolding protected_sum_def eq using fin nn by (auto simp: leaf same intro!: sum.cong cong: if_cong)
  ultimately show "cache_inv c' (insert ?nn N) T' V' H"
    using leaf_tree[OF t node key len st v T' V'] inv by (simp add: cache_inv_def vf(6,7))
  show "tree_grows c N T V c' (insert ?nn N) T' V'" using old by (auto simp: tree_grows_def vf(1-4))
  show "tree_slots c' (insert ?nn N) = tree_slots c N + mset vals"
    unfolding tree_slots_def using fin nn by (auto simp: leaf same add.commute intro!: sum.cong)
  have "stored (insert ?nn N) T' V' xs vs \<longleftrightarrow> stored N T' V' xs vs \<or> prefix xs (T' ?nn) \<and> vs = take (length xs) (V' ?nn)"
    by (auto simp: stored_def)
  then show "stored (insert ?nn N) T' V' xs vs \<longleftrightarrow> stores_also (stored N T V) (T node @ key) (V node @ vals) xs vs"
    using stored_cong[of N T' T V' V] old by (simp add: stores_also_def T' V')
qed

section \<open>The operations\<close>

lemma stuck_is_longest:
  assumes t: "tree_inv c' N' T' V'" and n: "n \<in> N'" "stuck c' n rest" and key: "key = T' n @ rest"
    and pg: "rc_page_size c' = rc_page_size c" and st: "\<And>xs vs. stored N' T' V' xs vs \<longleftrightarrow> stored N T V xs vs"
  shows "longest_stored c N T V key (T' n)" "stored N T V (T' n) (V' n)"
proof -
  show s: "stored N T V (T' n) (V' n)"
    unfolding st[symmetric] using n(1) tree_lengths(2)[OF t n(1)] by (auto simp: stored_def)
  have "length ys \<le> length (T' n)" if ys: "prefix ys key" "rc_page_size c dvd length ys" "stored N T V ys vs" for ys vs
  proof -
    obtain m where m: "m \<in> N'" "prefix ys (T' m)" using ys(3) unfolding st[symmetric] by (auto simp: stored_def)
    then show ?thesis using stuck_longest[OF t n _ _ m(2,1)] ys pg key by simp
  qed
  moreover have "prefix (T' n) key" "rc_page_size c dvd length (T' n)" using tree_lengths(1)[OF t n(1)] pg key by simp_all
  ultimately show "longest_stored c N T V key (T' n)" unfolding longest_stored_def using s by blast
qed

lemma longest_stored_aligned:
  assumes "longest_stored c N T V (page_aligned c key) xs" "0 < rc_page_size c"
  shows "longest_stored c N T V key xs"
proof -
  have "prefix ys (page_aligned c key)" if "prefix ys key" "rc_page_size c dvd length ys" for ys
    using that assms(2) prefix_length_le[OF that(1)] by (auto simp: page_aligned_def prefix_def dvd_def elim!: dvdE)
  moreover have "prefix (page_aligned c key) key" by (simp add: page_aligned_def take_is_prefix)
  ultimately show ?thesis using assms(1) unfolding longest_stored_def by (meson prefix_order.trans)
qed

lemma match_prefix_walks:
  assumes inv: "cache_inv c N T V H" and key: "\<not> rc_disable c" "key \<noteq> []"
  shows "\<exists>node c' N' T' V'. match_prefix key c = Some ((V' node, node), c') \<and> same_content H c N T V c' N' T' V' \<and> node \<in> N' \<and>
    longest_stored c N T V key (T' node) \<and> stored N T V (T' node) (V' node)"
proof -
  let ?key = "page_aligned c key" and ?c1 = "touch (rc_root c) c"
  have t: "tree_inv c N T V" using inv by (simp add: cache_inv_def)
  have root: "rc_root c \<in> N" "T (rc_root c) = []" "V (rc_root c) = []" and p: "0 < rc_page_size c" using t by (simp_all add: tree_inv_def)
  have inv1: "cache_inv ?c1 N T V H" using inv cache_inv_same_view[OF same_view_touch] by simp
  have pg: "rc_page_size ?c1 = rc_page_size c" using same_view_touch[of c "rc_root c"] by (simp add: same_view_def)
  have al: "rc_page_size ?c1 dvd length ?key" by (simp add: page_aligned_def pg min.absorb2[OF div_times_less_eq_dividend])
  have "V (rc_root c) = concat []" by (simp add: root)
  from match_loop_walks[OF inv1 root(1) al this] obtain vals node c' N' T' V' rest where
    w: "match_loop (rc_root c) ?key [] ?c1 = Some (vals, node, c')" "same_content H ?c1 N T V c' N' T' V'" "node \<in> N'"
      "V' node = concat vals" "T (rc_root c) @ ?key = T' node @ rest" "stuck c' node rest" by blast
  have sc: "same_content H c N T V c' N' T' V'" using same_content_trans[OF same_content_view[OF inv same_view_touch] w(2)] .
  then have t': "tree_inv c' N' T' V'" and pg': "rc_page_size c' = rc_page_size c"
    and st: "\<And>xs vs. stored N' T' V' xs vs \<longleftrightarrow> stored N T V xs vs" by (simp_all add: same_content_def cache_inv_def tree_grows_def)
  have "page_aligned c key = T' node @ rest" using w(5) root(2) by simp
  note lg = stuck_is_longest[OF t' w(3,6) this pg' st]
  have "longest_stored c N T V key (T' node)" using longest_stored_aligned[OF lg(1) p] .
  moreover have "match_prefix key c = Some ((V' node, node), c')"
    using key w(1,4) by (simp add: match_prefix_def match_prefix_helper_def)
  ultimately show ?thesis using sc w(3) lg(2) by blast
qed

lemma insert_loop_from_root:
  assumes inv: "cache_inv c N T V H" and key: "rc_page_size c dvd length key"
  shows "\<exists>node c2 N2 T2 V2 j. insert_loop (rc_root c) key vals 0 (touch (rc_root c) c) = Some (node, drop j key, drop j vals, j, c2) \<and>
    same_content H c N T V c2 N2 T2 V2 \<and> node \<in> N2 \<and> j \<le> length key \<and> T2 node = take j key \<and> stuck c2 node (drop j key)"
proof -
  let ?c1 = "touch (rc_root c) c"
  have t: "tree_inv c N T V" using inv by (simp add: cache_inv_def)
  have root: "rc_root c \<in> N" "T (rc_root c) = []" using t by (simp_all add: tree_inv_def)
  have inv1: "cache_inv ?c1 N T V H" using inv cache_inv_same_view[OF same_view_touch] by simp
  have al: "rc_page_size ?c1 dvd length key" using key same_view_touch[of c "rc_root c"] by (simp add: same_view_def)
  obtain node c2 N2 T2 V2 j where
    w: "insert_loop (rc_root c) key vals 0 ?c1 = Some (node, drop j key, drop j vals, j, c2)" "same_content H ?c1 N T V c2 N2 T2 V2"
      "node \<in> N2" "j \<le> length key" "T2 node = take j key" "stuck c2 node (drop j key)"
    using insert_loop_walks[OF inv1 root(1) al, of vals 0] root(2) by auto
  have "same_content H c N T V c2 N2 T2 V2" using same_content_trans[OF same_content_view[OF inv same_view_touch] w(2)] .
  then show ?thesis using w by blast
qed

lemma radix_insert_walks:
  assumes inv: "cache_inv c N T V H" and en: "\<not> rc_disable c" and key: "rc_page_size c dvd length key" "length vals = length key"
  shows "\<exists>c' N' T' V' j ws. radix_insert key (Some vals) c = Some (j, c') \<and> cache_inv c' N' T' V' H \<and> tree_grows c N T V c' N' T' V' \<and>
    j \<le> length key \<and> longest_stored c N T V key (take j key) \<and> stored N T V (take j key) ws \<and>
    tree_slots c' N' = tree_slots c N + mset (drop j vals) \<and>
    (\<forall>xs vs. stored N' T' V' xs vs \<longleftrightarrow> stores_also (stored N T V) key (ws @ drop j vals) xs vs)"
proof -
  obtain node c2 N2 T2 V2 j where
    w: "insert_loop (rc_root c) key vals 0 (touch (rc_root c) c) = Some (node, drop j key, drop j vals, j, c2)"
      "same_content H c N T V c2 N2 T2 V2" "node \<in> N2" "j \<le> length key" "T2 node = take j key" "stuck c2 node (drop j key)"
    using insert_loop_from_root[OF inv key(1)] by blast
  from w(2) have inv2: "cache_inv c2 N2 T2 V2 H" and pg: "rc_page_size c2 = rc_page_size c" and gr: "tree_grows c N T V c2 N2 T2 V2"
    and sl: "tree_slots c2 N2 = tree_slots c N" and st: "\<And>xs vs. stored N2 T2 V2 xs vs \<longleftrightarrow> stored N T V xs vs"
    by (simp_all add: same_content_def tree_grows_def)
  have t2: "tree_inv c2 N2 T2 V2" using inv2 by (simp add: cache_inv_def)
  have full: "key = T2 node @ drop j key" using w(5) by simp
  note lg = stuck_is_longest[OF t2 w(3,6) full pg st]
  have run: "radix_insert key (Some vals) c = Some (j, if drop j key \<noteq> [] then add_leaf node (drop j key) (drop j vals) c2 else c2)"
    if "key \<noteq> []" using en w(1) that by (simp add: radix_insert_def insert_helper_def Let_def)
  show ?thesis
  proof (cases "drop j key = []")
    case True
    have "\<exists>c3. radix_insert key (Some vals) c = Some (j, c3) \<and> same_view c2 c3"
    proof (cases "key = []")
      case False
      then show ?thesis using run True by simp
    next
      case k: True
      then have "insert_loop (rc_root c) key vals 0 (touch (rc_root c) c) = Some (rc_root c, [], vals, 0, touch (rc_root c) c)" by (subst insert_loop.simps) simp
      then have "c2 = touch (rc_root c) c" "j = 0" using w(1,4) k by auto
      then show ?thesis using k en by (simp add: radix_insert_def insert_helper_def Let_def)
    qed
    then obtain c3 where c3: "radix_insert key (Some vals) c = Some (j, c3)" "same_view c2 c3" by blast
    have jk: "take j key = key" "drop j vals = []" using True key(2) by simp_all
    have sc3: "same_content H c N T V c3 N2 T2 V2" using same_content_trans[OF w(2) same_content_view[OF inv2 c3(2)]] .
    have "stores_also (stored N T V) key (V2 node) xs vs \<longleftrightarrow> stored N T V xs vs" for xs vs
      using w(3,5) jk(1) unfolding stores_also_def st[symmetric] by (auto simp: stored_def)
    then show ?thesis using c3(1) sc3 lg w(4) jk(2) w(5)
      by (intro exI[of _ c3] exI[of _ N2] exI[of _ T2] exI[of _ V2] exI[of _ j] exI[of _ "V2 node"]) (simp add: same_content_def)
  next
    case False
    define c3 where "c3 = add_leaf node (drop j key) (drop j vals) c2"
    let ?T3 = "T2(rc_counter c2 := T2 node @ drop j key)" and ?V3 = "V2(rc_counter c2 := V2 node @ drop j vals)"
    have "rc_page_size c dvd length (take j key)" using lg(1) w(5) by (simp add: longest_stored_def)
    then have "rc_page_size c2 dvd length (drop j key)" using key(1) w(4) pg by (simp add: min.absorb2 dvd_diff_nat)
    then have "length (drop j vals) = length (drop j key)" "rc_page_size c2 dvd length (drop j key)" using key(2) by simp_all
    note lc = leaf_cache[OF inv2 w(3) False this(2,1) w(6) refl refl c3_def]
    have "radix_insert key (Some vals) c = Some (j, c3)" using run False by (cases "key = []") (auto simp: c3_def)
    then show ?thesis using lc(1,3) tree_grows_trans[OF gr lc(2)] lg w(4,5) sl lc(4) st full
      by (intro exI[of _ c3] exI[of _ "insert (rc_counter c2) N2"] exI[of _ ?T3] exI[of _ ?V3] exI[of _ j] exI[of _ "V2 node"])
        (simp add: stores_also_def)
  qed
qed

end
