(* ===== verification/Radix_Locks.thy ===== *)
theory Radix_Locks
  imports Radix_Lookup
begin

text \<open>
  Locking and unlocking a node of the prefix cache, with all its ancestors, and the accounting of
  evictable and protected slots.
\<close>

section \<open>The nodes on the way\<close>

definition way :: "radix_cache \<Rightarrow> nat set \<Rightarrow> (nat \<Rightarrow> int list) \<Rightarrow> nat \<Rightarrow> nat set" where
  "way c N T m = {n \<in> N - {rc_root c}. prefix (T n) (T m)}"

lemma way_root:
  assumes "tree_inv c N T V"
  shows "way c N T (rc_root c) = {}"
proof -
  have "T (rc_root c) = []" using assms by (simp add: tree_inv_def)
  then show ?thesis using tree_root_only[OF assms] by (auto simp: way_def)
qed

lemma way_parent:
  assumes inv: "tree_inv c N T V" and m: "m \<in> N" "m \<noteq> rc_root c" and q: "tn_parent (nd c m) = Some q"
  shows "way c N T m = insert m (way c N T q)" "m \<notin> way c N T q" "q \<in> N" "length (T q) < length (T m)"
proof -
  obtain q' where q': "node_inv c N T V m q'" using tree_parent[OF inv m] by blast
  then have qq: "q' = q" using node_inv_fields(2)[OF q'] q by simp
  note f = node_inv_fields[OF q'[unfolded qq]]
  show "q \<in> N" by (rule f)
  show lt: "length (T q) < length (T m)" using node_shorter[OF q'] qq by simp
  have "prefix (T n) (T m) \<longleftrightarrow> n = m \<or> prefix (T n) (T q)" if n: "n \<in> N" for n
  proof -
    have "anc c n m \<longleftrightarrow> n = m \<or> anc c n q" using q by (auto simp: anc.simps[of c n m] intro: anc_refl)
    then show ?thesis using anc_iff_prefix[OF inv n] m(1) f(1) by simp
  qed
  then show "way c N T m = insert m (way c N T q)" using m by (auto simp: way_def)
  show "m \<notin> way c N T q" using lt prefix_length_le by (fastforce simp: way_def)
qed

section \<open>The loops\<close>

text \<open>A step that changes locks and sizes only.\<close>

definition lock_view :: "radix_cache \<Rightarrow> radix_cache \<Rightarrow> (nat \<Rightarrow> int) \<Rightarrow> int \<Rightarrow> bool" where
  "lock_view c c' d moved \<longleftrightarrow> rc_page_size c' = rc_page_size c \<and> rc_disable c' = rc_disable c \<and> rc_root c' = rc_root c \<and>
     rc_counter c' = rc_counter c \<and> rc_freed c' = rc_freed c \<and>
     rc_evictable_size c' = rc_evictable_size c - moved \<and> rc_protected_size c' = rc_protected_size c + moved \<and>
     (\<forall>n. tn_children (nd c' n) = tn_children (nd c n)) \<and> (\<forall>n. tn_parent (nd c' n) = tn_parent (nd c n)) \<and>
     (\<forall>n. tn_key (nd c' n) = tn_key (nd c n)) \<and> (\<forall>n. tn_value (nd c' n) = tn_value (nd c n)) \<and>
     (\<forall>n. tn_lock_ref (nd c' n) = tn_lock_ref (nd c n) + d n)"

lemma lock_view_tree: "lock_view c c' d moved \<Longrightarrow> tree_inv c' N T V = tree_inv c N T V"
  by (simp add: lock_view_def tree_inv_def node_inv_def children_inv_def)

lemma lock_view_way: "lock_view c c' d moved \<Longrightarrow> way c' N T m = way c N T m"
  by (simp add: lock_view_def way_def)

lemma lock_view_trans:
  "lock_view c c1 d x \<Longrightarrow> lock_view c1 c2 e y \<Longrightarrow> lock_view c c2 (\<lambda>n. d n + e n) (x + y)"
  by (simp add: lock_view_def)

lemma lock_view_cong: "lock_view c c' d x \<Longrightarrow> d = e \<Longrightarrow> x = y \<Longrightarrow> lock_view c c' e y"
  by simp

text \<open>The slots of the nodes of \<open>W\<close> with the lock count \<open>l\<close>.\<close>

definition slots_locked :: "radix_cache \<Rightarrow> int \<Rightarrow> nat set \<Rightarrow> int" where
  "slots_locked c l W = (\<Sum>n \<in> W. if tn_lock_ref (nd c n) = l then int (length (tn_value (nd c n))) else 0)"

lemma inc_loop_locks:
  assumes "tree_inv c N T V" "node \<in> N"
  shows "\<exists>c'. inc_loop node delta c = Some (delta - slots_locked c 0 (way c N T node), c') \<and>
    lock_view c c' (\<lambda>n. if n \<in> way c N T node then 1 else 0) (slots_locked c 0 (way c N T node))"
  using assms
proof (induction "length (T node)" arbitrary: node delta c rule: less_induct)
  case less
  note inv = less.prems(1)
  show ?case
  proof (cases "node = rc_root c")
    case True
    then show ?thesis
      by (subst inc_loop.simps) (simp add: way_root[OF inv] slots_locked_def lock_view_def)
  next
    case False
    then obtain q where q: "tn_parent (nd c node) = Some q" using tree_parent[OF inv less.prems(2)] node_inv_fields(2) by metis
    note w = way_parent[OF inv less.prems(2) False q]
    define k where "k = (if tn_lock_ref (nd c node) = 0 then int (length (tn_value (nd c node))) else 0)"
    define c2 where "c2 = upd_node node (\<lambda>x. x\<lparr>tn_lock_ref := tn_lock_ref x + 1\<rparr>)
        (c\<lparr>rc_evictable_size := rc_evictable_size c - k, rc_protected_size := rc_protected_size c + k\<rparr>)"
    have eq: "inc_loop node delta c = inc_loop q (delta - k) c2"
      using False q by (subst inc_loop.simps) (simp add: Let_def k_def c2_def)
    have v2: "lock_view c c2 (\<lambda>n. if n = node then 1 else 0) k" by (simp add: lock_view_def c2_def upd_node_def)
    have inv2: "tree_inv c2 N T V" using lock_view_tree[OF v2] inv by simp
    obtain c' where c': "inc_loop q (delta - k) c2 = Some (delta - k - slots_locked c2 0 (way c2 N T q), c')"
      "lock_view c2 c' (\<lambda>n. if n \<in> way c2 N T q then 1 else 0) (slots_locked c2 0 (way c2 N T q))"
      using less.hyps[OF w(4) inv2 w(3)] by blast
    have sum: "slots_locked c 0 (way c N T node) = k + slots_locked c2 0 (way c2 N T q)"
    proof -
      have fin: "finite (way c N T q)" using inv by (simp add: way_def tree_inv_def)
      have "slots_locked c2 0 (way c N T q) = slots_locked c 0 (way c N T q)"
        unfolding slots_locked_def using v2 w(2) by (intro sum.cong) (auto simp: lock_view_def)
      then show ?thesis using fin w(1,2) lock_view_way[OF v2] by (simp add: slots_locked_def k_def)
    qed
    have "lock_view c c' (\<lambda>n. if n \<in> way c N T node then 1 else 0) (slots_locked c 0 (way c N T node))"
      using lock_view_trans[OF v2 c'(2)]
      by (rule lock_view_cong) (use w(1,2) sum lock_view_way[OF v2] in auto)
    then show ?thesis using eq c'(1) sum by simp
  qed
qed

lemma dec_loop_locks:
  assumes "tree_inv c N T V" "node \<in> N"
  shows "\<exists>c'. dec_loop node delta c = Some (delta + slots_locked c 1 (way c N T node), c') \<and>
    lock_view c c' (\<lambda>n. if n \<in> way c N T node then - 1 else 0) (- slots_locked c 1 (way c N T node))"
  using assms
proof (induction "length (T node)" arbitrary: node delta c rule: less_induct)
  case less
  note inv = less.prems(1)
  show ?case
  proof (cases "node = rc_root c")
    case True
    then show ?thesis
      by (subst dec_loop.simps) (simp add: way_root[OF inv] slots_locked_def lock_view_def)
  next
    case False
    then obtain q where q: "tn_parent (nd c node) = Some q" using tree_parent[OF inv less.prems(2)] node_inv_fields(2) by metis
    note w = way_parent[OF inv less.prems(2) False q]
    define k where "k = (if tn_lock_ref (nd c node) = 1 then int (length (tn_value (nd c node))) else 0)"
    define c2 where "c2 = upd_node node (\<lambda>x. x\<lparr>tn_lock_ref := tn_lock_ref x - 1\<rparr>)
        (c\<lparr>rc_evictable_size := rc_evictable_size c + k, rc_protected_size := rc_protected_size c - k\<rparr>)"
    have eq: "dec_loop node delta c = dec_loop q (delta + k) c2"
      using False q by (subst dec_loop.simps) (simp add: Let_def k_def c2_def)
    have v2: "lock_view c c2 (\<lambda>n. if n = node then - 1 else 0) (- k)" by (simp add: lock_view_def c2_def upd_node_def)
    have inv2: "tree_inv c2 N T V" using lock_view_tree[OF v2] inv by simp
    obtain c' where c': "dec_loop q (delta + k) c2 = Some (delta + k + slots_locked c2 1 (way c2 N T q), c')"
      "lock_view c2 c' (\<lambda>n. if n \<in> way c2 N T q then - 1 else 0) (- slots_locked c2 1 (way c2 N T q))"
      using less.hyps[OF w(4) inv2 w(3)] by blast
    have sum: "slots_locked c 1 (way c N T node) = k + slots_locked c2 1 (way c2 N T q)"
    proof -
      have fin: "finite (way c N T q)" using inv by (simp add: way_def tree_inv_def)
      have "slots_locked c2 1 (way c N T q) = slots_locked c 1 (way c N T q)"
        unfolding slots_locked_def using v2 w(2) by (intro sum.cong) (auto simp: lock_view_def)
      then show ?thesis using fin w(1,2) lock_view_way[OF v2] by (simp add: slots_locked_def k_def)
    qed
    have "lock_view c c' (\<lambda>n. if n \<in> way c N T node then - 1 else 0) (- slots_locked c 1 (way c N T node))"
      using lock_view_trans[OF v2 c'(2)]
      by (rule lock_view_cong) (use w(1,2) sum lock_view_way[OF v2] in auto)
    then show ?thesis using eq c'(1) sum by simp
  qed
qed

section \<open>Locking and unlocking\<close>

lemma holders_add: "holders T (add_mset m H) n = holders T H n + (if prefix (T n) (T m) then 1 else 0)"
  by (simp add: holders_def)

lemma cache_inv_locks:
  assumes inv: "cache_inv c N T V H" and v: "lock_view c c' d moved" and H': "set_mset H' \<subseteq> N"
    and lock: "\<And>n. n \<in> N - {rc_root c} \<Longrightarrow> int (holders T H n) + d n = int (holders T H' n)"
    and ev: "evictable_sum c' N = evictable_sum c N - moved" and pr: "protected_sum c' N = protected_sum c N + moved"
  shows "cache_inv c' N T V H'" "tree_grows c N T V c' N T V" "tree_slots c' N = tree_slots c N"
proof -
  show "cache_inv c' N T V H'"
    using assms lock_view_tree[OF v] unfolding cache_inv_def locks_inv_def by (auto simp: lock_view_def)
  show "tree_grows c N T V c' N T V" "tree_slots c' N = tree_slots c N"
    using v by (simp_all add: lock_view_def tree_grows_def tree_slots_def)
qed

lemma cache_inv_lock_nonneg: "cache_inv c N T V H \<Longrightarrow> n \<in> N - {rc_root c} \<Longrightarrow> tn_lock_ref (nd c n) = int (holders T H n)"
  by (simp add: cache_inv_def locks_inv_def)

lemma sum_on_subset: "finite A \<Longrightarrow> W \<subseteq> A \<Longrightarrow> sum f W = (\<Sum>n \<in> A. if n \<in> W then f n else 0)" for f :: "nat \<Rightarrow> int"
  by (simp add: sum.inter_restrict[symmetric] Int_absorb1)

lemma inc_lock_ref_locks:
  assumes inv: "cache_inv c N T V H" and en: "\<not> rc_disable c" and node: "node \<in> N"
  shows "\<exists>c'. inc_lock_ref node c = Some (rc_evictable_size c' - rc_evictable_size c, c') \<and> cache_inv c' N T V (add_mset node H) \<and>
    tree_grows c N T V c' N T V \<and> tree_slots c' N = tree_slots c N \<and> (\<forall>m. tn_value (nd c' m) = tn_value (nd c m))"
proof -
  let ?W = "way c N T node"
  have t: "tree_inv c N T V" and H: "set_mset H \<subseteq> N" using inv by (simp_all add: cache_inv_def locks_inv_def)
  obtain c' where c': "inc_loop node 0 c = Some (0 - slots_locked c 0 ?W, c')"
    "lock_view c c' (\<lambda>n. if n \<in> ?W then 1 else 0) (slots_locked c 0 ?W)" using inc_loop_locks[OF t node] by blast
  have W: "?W \<subseteq> N - {rc_root c}" and fin: "finite (N - {rc_root c})" using t by (auto simp: way_def tree_inv_def)
  have f: "rc_root c' = rc_root c" "tn_value (nd c' n) = tn_value (nd c n)"
      "tn_lock_ref (nd c' n) = tn_lock_ref (nd c n) + (if n \<in> ?W then 1 else 0)" for n
    using c'(2) by (simp_all add: lock_view_def)
  note nn = cache_inv_lock_nonneg[OF inv]
  have lock: "int (holders T H n) + (if n \<in> ?W then 1 else 0) = int (holders T (add_mset node H) n)" if "n \<in> N - {rc_root c}" for n
    using that by (simp add: holders_add way_def)
  have "evictable_sum c' N = evictable_sum c N - slots_locked c 0 ?W"
    unfolding evictable_sum_def slots_locked_def sum_on_subset[OF fin W] f minus_minus diff_minus_eq_add add_uminus_conv_diff sum_subtractf[symmetric]
    by (intro sum.cong refl, drule nn, auto)
  moreover have "protected_sum c' N = protected_sum c N + slots_locked c 0 ?W"
    unfolding protected_sum_def slots_locked_def sum_on_subset[OF fin W] f minus_minus diff_minus_eq_add add_uminus_conv_diff sum.distrib[symmetric]
    by (intro sum.cong refl, drule nn, auto)
  ultimately have r: "cache_inv c' N T V (add_mset node H)" "tree_grows c N T V c' N T V" "tree_slots c' N = tree_slots c N"
    using cache_inv_locks[OF inv c'(2) _ lock] H node by auto
  have "inc_lock_ref node c = Some (rc_evictable_size c' - rc_evictable_size c, c')"
    using en c' by (simp add: inc_lock_ref_def lock_view_def)
  then show ?thesis using r f(2) by blast
qed

lemma dec_lock_ref_locks:
  assumes inv: "cache_inv c N T V (add_mset node H)" and en: "\<not> rc_disable c"
  shows "\<exists>c'. dec_lock_ref node c = Some (rc_evictable_size c' - rc_evictable_size c, c') \<and> cache_inv c' N T V H \<and>
    tree_grows c N T V c' N T V \<and> tree_slots c' N = tree_slots c N \<and> (\<forall>m. tn_value (nd c' m) = tn_value (nd c m))"
proof -
  let ?W = "way c N T node"
  have t: "tree_inv c N T V" and H: "set_mset H \<subseteq> N" "node \<in> N" using inv by (simp_all add: cache_inv_def locks_inv_def)
  obtain c' where c': "dec_loop node 0 c = Some (0 + slots_locked c 1 ?W, c')"
    "lock_view c c' (\<lambda>n. if n \<in> ?W then - 1 else 0) (- slots_locked c 1 ?W)" using dec_loop_locks[OF t H(2)] by blast
  have W: "?W \<subseteq> N - {rc_root c}" and fin: "finite (N - {rc_root c})" using t by (auto simp: way_def tree_inv_def)
  have f: "rc_root c' = rc_root c" "tn_value (nd c' n) = tn_value (nd c n)"
      "tn_lock_ref (nd c' n) = tn_lock_ref (nd c n) + (if n \<in> ?W then - 1 else 0)" for n
    using c'(2) by (simp_all add: lock_view_def)
  have nn: "tn_lock_ref (nd c n) = int (holders T H n) + (if n \<in> ?W then 1 else 0)" if "n \<in> N - {rc_root c}" for n
    using cache_inv_lock_nonneg[OF inv that] that by (simp add: holders_add way_def)
  have lock: "int (holders T (add_mset node H) n) + (if n \<in> ?W then - 1 else 0) = int (holders T H n)" if "n \<in> N - {rc_root c}" for n
    using that by (simp add: holders_add way_def)
  have "evictable_sum c' N = evictable_sum c N - - slots_locked c 1 ?W"
    unfolding evictable_sum_def slots_locked_def sum_on_subset[OF fin W] f minus_minus diff_minus_eq_add add_uminus_conv_diff sum.distrib[symmetric]
    by (intro sum.cong refl, drule nn, auto)
  moreover have "protected_sum c' N = protected_sum c N + - slots_locked c 1 ?W"
    unfolding protected_sum_def slots_locked_def sum_on_subset[OF fin W] f minus_minus diff_minus_eq_add add_uminus_conv_diff sum_subtractf[symmetric]
    by (intro sum.cong refl, drule nn, auto)
  ultimately have r: "cache_inv c' N T V H" "tree_grows c N T V c' N T V" "tree_slots c' N = tree_slots c N"
    using cache_inv_locks[OF inv c'(2) _ lock] H by auto
  have "dec_lock_ref node c = Some (rc_evictable_size c' - rc_evictable_size c, c')"
    using en c' by (simp add: dec_lock_ref_def lock_view_def)
  then show ?thesis using r f(2) by blast
qed

end
