(* ===== verification/Radix_Walk.thy ===== *)
theory Radix_Walk
  imports Radix_Locks
begin

text \<open>
  Walking the whole prefix cache: its subtrees, its leaves and its total size.
\<close>

section \<open>Subtrees\<close>

definition below :: "nat set \<Rightarrow> (nat \<Rightarrow> int list) \<Rightarrow> nat \<Rightarrow> nat set" where
  "below N T n = {m \<in> N. prefix (T n) (T m)}"

lemma below_self: "n \<in> N \<Longrightarrow> n \<in> below N T n"
  by (simp add: below_def)

lemma below_root: "tree_inv c N T V \<Longrightarrow> below N T (rc_root c) = N"
  by (simp add: below_def tree_inv_def)

abbreviation kids :: "radix_cache \<Rightarrow> nat \<Rightarrow> nat list" where
  "kids c n \<equiv> map snd (tn_children (nd c n))"

lemma kid_node:
  assumes inv: "tree_inv c N T V" and n: "n \<in> N" and a: "a \<in> set (kids c n)"
  shows "a \<in> N" "node_inv c N T V a n"
proof -
  obtain k where k: "(k, a) \<in> set (tn_children (nd c n))" using a by auto
  have ci: "children_inv c N n" using inv n by (simp add: tree_inv_def)
  then have "map_of (tn_children (nd c n)) k = Some a" using k by (simp add: children_inv_def wf_dict_map_of)
  then show "a \<in> N" "node_inv c N T V a n" using tree_child[OF inv n] by blast+
qed

lemma kids_distinct:
  assumes inv: "tree_inv c N T V" and n: "n \<in> N"
  shows "distinct (kids c n)"
proof -
  have ci: "children_inv c N n" using inv n by (simp add: tree_inv_def)
  have "fst e = take (rc_page_size c) (tn_key (nd c (snd e)))" if "e \<in> set (tn_children (nd c n))" for e
    using ci that by (auto simp: children_inv_def)
  then have eq: "map fst (tn_children (nd c n)) = map (\<lambda>m. take (rc_page_size c) (tn_key (nd c m))) (kids c n)" by simp
  have "distinct (map (\<lambda>m. take (rc_page_size c) (tn_key (nd c m))) (kids c n))"
    using ci unfolding children_inv_def wf_dict_def eq by blast
  then show ?thesis unfolding distinct_map[of _ "kids c n"] by (rule conjunct1)
qed

lemma below_kids:
  assumes inv: "tree_inv c N T V" and n: "n \<in> N"
  shows "below N T n = insert n (\<Union>a \<in> set (kids c n). below N T a)" "a \<in> set (kids c n) \<Longrightarrow> n \<notin> below N T a"
    "a \<in> set (kids c n) \<Longrightarrow> b \<in> set (kids c n) \<Longrightarrow> a \<noteq> b \<Longrightarrow> below N T a \<inter> below N T b = {}"
proof -
  let ?p = "rc_page_size c"
  note kn = kid_node[OF inv n]
  have "m \<in> insert n (\<Union>a \<in> set (kids c n). below N T a)" if m: "m \<in> below N T n" for m
  proof (cases "length (T n) < length (T m)")
    case True
    then obtain a where a: "node_inv c N T V a n" "anc c a m"
      using tree_descend[OF inv n, of m] m by (auto simp: below_def)
    have "m \<in> N" using m by (simp add: below_def)
    then have "m \<in> below N T a" using anc_tree[OF a(2) inv] by (simp add: below_def)
    moreover have "a \<in> set (kids c n)" using node_inv_fields(3)[OF a(1)] by force
    ultimately show ?thesis by blast
  next
    case False
    then have "T n = T m" "m \<in> N" using m by (auto simp: below_def prefix_def)
    then show ?thesis using tree_node_unique[OF inv n] by simp
  qed
  moreover have "below N T a \<subseteq> below N T n" if "a \<in> set (kids c n)" for a
    using node_inv_fields(4)[OF kn(2)[OF that]] by (auto simp: below_def intro: append_prefixD)
  ultimately show "below N T n = insert n (\<Union>a \<in> set (kids c n). below N T a)" using below_self[OF n] by blast
  show "n \<notin> below N T a" if "a \<in> set (kids c n)" for a
    using node_shorter[OF kn(2)[OF that]] prefix_length_le by (fastforce simp: below_def)
  have page: "take ?p (tn_key (nd c a)) = take ?p (drop (length (T n)) (T m))" if "a \<in> set (kids c n)" "m \<in> below N T a" for a m
  proof -
    note f = node_inv_fields[OF kn(2)[OF that(1)]]
    have "?p \<le> length (tn_key (nd c a))" using f(6,7) by (simp add: dvd_imp_le)
    then show ?thesis using that(2) f(4) by (auto simp: below_def prefix_def)
  qed
  show "below N T a \<inter> below N T b = {}" if "a \<in> set (kids c n)" "b \<in> set (kids c n)" "a \<noteq> b"
  proof (rule ccontr)
    assume "\<not> ?thesis"
    then obtain m where "m \<in> below N T a" "m \<in> below N T b" by blast
    then have "a = b" using page that(1,2) tree_child_unique[OF inv kn(2)[OF that(1)] kn(2)[OF that(2)]] by metis
    then show False using that(3) by simp
  qed
qed

section \<open>Walking the tree\<close>

text \<open>A stack of nodes whose subtrees do not overlap.\<close>

definition stack_inv :: "nat set \<Rightarrow> (nat \<Rightarrow> int list) \<Rightarrow> nat list \<Rightarrow> bool" where
  "stack_inv N T stack \<longleftrightarrow> set stack \<subseteq> N \<and> distinct stack \<and>
     (\<forall>a \<in> set stack. \<forall>b \<in> set stack. a \<noteq> b \<longrightarrow> below N T a \<inter> below N T b = {})"

definition cover :: "nat set \<Rightarrow> (nat \<Rightarrow> int list) \<Rightarrow> nat list \<Rightarrow> nat set" where
  "cover N T stack = (\<Union>a \<in> set stack. below N T a)"

lemma stack_expand:
  assumes inv: "tree_inv c N T V" and s: "stack_inv N T (rest @ [cur])"
  shows "stack_inv N T (rest @ kids c cur)" "cover N T (rest @ [cur]) = insert cur (cover N T (rest @ kids c cur))"
    "cur \<notin> cover N T (rest @ kids c cur)"
proof -
  have cur: "cur \<in> N" "cur \<notin> set rest" and rs: "stack_inv N T rest" using s by (auto simp: stack_inv_def)
  note bk = below_kids[OF inv cur(1)] and kn = kid_node[OF inv cur(1)]
  have dis: "below N T a \<inter> below N T cur = {}" if "a \<in> set rest" for a
    using s that cur(2) unfolding stack_inv_def by fastforce
  then have dk: "below N T a \<inter> below N T b = {}" if "a \<in> set rest" "b \<in> set (kids c cur)" for a b
    using that bk(1) by blast
  have "b \<notin> set rest" if b: "b \<in> set (kids c cur)" for b
  proof
    assume "b \<in> set rest"
    then have "below N T b \<inter> below N T b = {}" using dk b by blast
    then show False using below_self[OF kn(1)[OF b]] by blast
  qed
  then have "distinct (rest @ kids c cur)" using rs kids_distinct[OF inv cur(1)] by (auto simp: stack_inv_def)
  moreover have "set (rest @ kids c cur) \<subseteq> N" using rs kn(1) by (auto simp: stack_inv_def)
  moreover have "below N T a \<inter> below N T b = {}" if "a \<in> set (rest @ kids c cur)" "b \<in> set (rest @ kids c cur)" "a \<noteq> b" for a b
  proof -
    consider "a \<in> set rest" "b \<in> set rest" | "a \<in> set rest" "b \<in> set (kids c cur)" | "a \<in> set (kids c cur)" "b \<in> set rest"
      | "a \<in> set (kids c cur)" "b \<in> set (kids c cur)" using \<open>a \<in> set (rest @ kids c cur)\<close> \<open>b \<in> set (rest @ kids c cur)\<close> by auto
    then show ?thesis
    proof cases
      case 1
      then show ?thesis using rs \<open>a \<noteq> b\<close> by (simp add: stack_inv_def)
    qed (use dk bk(3) \<open>a \<noteq> b\<close> in blast)+
  qed
  ultimately show "stack_inv N T (rest @ kids c cur)" by (simp add: stack_inv_def)
  show "cover N T (rest @ [cur]) = insert cur (cover N T (rest @ kids c cur))" unfolding cover_def using bk(1) by auto
  show "cur \<notin> cover N T (rest @ kids c cur)" unfolding cover_def using dis bk(2) below_self[OF cur(1)] by fastforce
qed

lemma cover_finite: "tree_inv c N T V \<Longrightarrow> finite (cover N T stack)"
  by (simp add: cover_def below_def tree_inv_def)

lemma collect_loop_leaves:
  assumes inv: "tree_inv c N T V" and s: "stack_inv N T stack"
  shows "\<exists>ls. collect_loop c stack ret = Some (ret @ ls) \<and> distinct ls \<and> set ls = {n \<in> cover N T stack. tn_children (nd c n) = []}"
  using s
proof (induction "card (cover N T stack)" arbitrary: stack ret rule: less_induct)
  case less
  show ?case
  proof (cases "stack = []")
    case True
    then show ?thesis by (subst collect_loop.simps) (simp add: cover_def)
  next
    case False
    define cur where "cur = last stack"
    define rest where "rest = butlast stack"
    have st: "stack = rest @ [cur]" using False by (simp add: cur_def rest_def)
    note e = stack_expand[OF inv less.prems[unfolded st]]
    have lt: "card (cover N T (rest @ kids c cur)) < card (cover N T stack)"
      unfolding st e(2) using e(3) cover_finite[OF inv] by simp
    define ret' where "ret' = (if tn_children (nd c cur) = [] then ret @ [cur] else ret)"
    have eq: "collect_loop c stack ret = collect_loop c (rest @ kids c cur) ret'"
      using False by (subst collect_loop.simps) (simp add: Let_def cur_def[symmetric] rest_def[symmetric] ret'_def)
    obtain ls where ls: "collect_loop c stack ret = Some (ret' @ ls)" "distinct ls"
      "set ls = {n \<in> cover N T (rest @ kids c cur). tn_children (nd c n) = []}"
      using less.hyps[OF lt e(1), of ret'] unfolding eq by blast
    show ?thesis
    proof (cases "tn_children (nd c cur) = []")
      case True
      then show ?thesis using ls e(2,3) unfolding st by (intro exI[of _ "cur # ls"]) (auto simp: ret'_def)
    next
      case False
      then show ?thesis using ls e(2) unfolding st by (intro exI[of _ ls]) (auto simp: ret'_def)
    qed
  qed
qed

lemma total_size_loop_sum:
  assumes inv: "tree_inv c N T V" and s: "stack_inv N T stack"
  shows "total_size_loop c stack k = Some (k + (\<Sum>n \<in> cover N T stack. length (tn_value (nd c n))))"
  using s
proof (induction "card (cover N T stack)" arbitrary: stack k rule: less_induct)
  case less
  show ?case
  proof (cases "stack = []")
    case True
    then show ?thesis by (subst total_size_loop.simps) (simp add: cover_def)
  next
    case False
    define cur where "cur = last stack"
    define rest where "rest = butlast stack"
    have st: "stack = rest @ [cur]" using False by (simp add: cur_def rest_def)
    note e = stack_expand[OF inv less.prems[unfolded st]]
    have lt: "card (cover N T (rest @ kids c cur)) < card (cover N T stack)"
      unfolding st e(2) using e(3) cover_finite[OF inv] by simp
    have "total_size_loop c stack k = total_size_loop c (rest @ kids c cur) (k + length (tn_value (nd c cur)))"
      using False by (subst total_size_loop.simps) (simp add: Let_def cur_def[symmetric] rest_def[symmetric])
    then show ?thesis using less.hyps[OF lt e(1)] e(2,3) cover_finite[OF inv] unfolding st by simp
  qed
qed

lemma root_stack: "tree_inv c N T V \<Longrightarrow> stack_inv N T [rc_root c]" "tree_inv c N T V \<Longrightarrow> cover N T [rc_root c] = N"
  using below_root[of c N T V] by (simp_all add: stack_inv_def cover_def tree_inv_def)

lemma collect_leaves_all:
  assumes "tree_inv c N T V"
  shows "\<exists>ls. collect_leaves c = Some ls \<and> distinct ls \<and> set ls = {n \<in> N. tn_children (nd c n) = []}"
  using collect_loop_leaves[OF assms root_stack(1)[OF assms], of "[]"] root_stack(2)[OF assms] by (simp add: collect_leaves_def)

lemma size_sum_msets: "finite A \<Longrightarrow> size (sum f A) = (\<Sum>n \<in> A. size (f n))" for f :: "'b \<Rightarrow> 'a multiset"
  by (induction A rule: finite_induct) auto

lemma total_size_sum:
  assumes inv: "cache_inv c N T V H"
  shows "\<exists>k. total_size c = Some k \<and> int k = rc_evictable_size c + rc_protected_size c \<and> k = size (tree_slots c N)"
proof -
  have t: "tree_inv c N T V" using inv by (simp add: cache_inv_def)
  have fin: "finite N" "rc_root c \<in> N" "tn_value (nd c (rc_root c)) = []" using t by (simp_all add: tree_inv_def)
  let ?k = "\<Sum>n \<in> N. length (tn_value (nd c n))"
  have "total_size c = Some ?k"
    using total_size_loop_sum[OF t root_stack(1)[OF t], of 0] root_stack(2)[OF t] by (simp add: total_size_def)
  moreover have "?k = (\<Sum>n \<in> N - {rc_root c}. length (tn_value (nd c n)))" using fin by (simp add: sum.remove)
  then have "int ?k = rc_evictable_size c + rc_protected_size c"
    using inv unfolding cache_inv_def evictable_sum_def protected_sum_def
    by (simp add: sum.distrib[symmetric] if_distrib[of "(+) _"] cong: if_cong)
  moreover have "?k = size (tree_slots c N)" using fin(1) by (simp add: tree_slots_def size_sum_msets)
  ultimately show ?thesis by blast
qed

end
