(* ===== verification/Radix_Evict.thy ===== *)
theory Radix_Evict
  imports Radix_Walk
begin

text \<open>
  Eviction from the prefix cache, against its specification: the victims are unlocked leaves, each
  least recently used at its time.
\<close>

section \<open>The specification\<close>

definition victim :: "radix_cache \<Rightarrow> nat set \<Rightarrow> nat \<Rightarrow> bool" where
  "victim c N x \<longleftrightarrow> x \<in> N \<and> x \<noteq> rc_root c \<and> tn_lock_ref (nd c x) = 0 \<and> (\<forall>m \<in> N. tn_parent (nd c m) \<noteq> Some x)"

fun lru_run :: "radix_cache \<Rightarrow> nat set \<Rightarrow> nat list \<Rightarrow> bool" where
  "lru_run c N [] = True"
| "lru_run c N (x # xs) = (victim c N x \<and> (\<forall>y. victim c N y \<longrightarrow> \<not> node_lt c y x) \<and> lru_run c (N - {x}) xs)"

definition slots_of :: "radix_cache \<Rightarrow> nat list \<Rightarrow> int list" where
  "slots_of c xs = concat (map (\<lambda>x. tn_value (nd c x)) xs)"

interpretation node_order: strict_weak_order "node_lt c" for c
  by unfold_locales (auto simp: node_lt_def)

section \<open>Removing a leaf\<close>

definition gone_view :: "radix_cache \<Rightarrow> nat \<Rightarrow> nat \<Rightarrow> radix_cache \<Rightarrow> bool" where
  "gone_view c x q c' \<longleftrightarrow> rc_page_size c' = rc_page_size c \<and> rc_disable c' = rc_disable c \<and> rc_root c' = rc_root c \<and>
     rc_counter c' = rc_counter c \<and> rc_evictable_size c' = rc_evictable_size c - int (length (tn_key (nd c x))) \<and>
     rc_protected_size c' = rc_protected_size c \<and>
     (\<forall>n. tn_children (nd c' n) = (if n = q then AList.delete (take (rc_page_size c) (tn_key (nd c x))) (tn_children (nd c q))
        else tn_children (nd c n))) \<and>
     (\<forall>n. tn_parent (nd c' n) = tn_parent (nd c n)) \<and> (\<forall>n. tn_key (nd c' n) = tn_key (nd c n)) \<and>
     (\<forall>n. tn_value (nd c' n) = tn_value (nd c n)) \<and> (\<forall>n. tn_lock_ref (nd c' n) = tn_lock_ref (nd c n)) \<and>
     (\<forall>n. tn_last_access_time (nd c' n) = tn_last_access_time (nd c n))"

lemma gone_view_fields:
  assumes "gone_view c x q c'"
  shows "rc_page_size c' = rc_page_size c" "rc_disable c' = rc_disable c" "rc_root c' = rc_root c"
    "rc_counter c' = rc_counter c" "rc_evictable_size c' = rc_evictable_size c - int (length (tn_key (nd c x)))"
    "rc_protected_size c' = rc_protected_size c"
    "tn_children (nd c' n) = (if n = q then AList.delete (take (rc_page_size c) (tn_key (nd c x))) (tn_children (nd c q))
        else tn_children (nd c n))"
    "tn_parent (nd c' n) = tn_parent (nd c n)" "tn_key (nd c' n) = tn_key (nd c n)" "tn_value (nd c' n) = tn_value (nd c n)"
    "tn_lock_ref (nd c' n) = tn_lock_ref (nd c n)" "tn_last_access_time (nd c' n) = tn_last_access_time (nd c n)"
  using assms by (simp_all add: gone_view_def)

lemma delete_leaf_view:
  assumes inv: "tree_inv c N T V" and x: "x \<in> N" "x \<noteq> rc_root c" and q: "tn_parent (nd c x) = Some q"
  shows "\<exists>c'. delete_leaf x (call_free vs c) = Some c' \<and> gone_view c x q c' \<and> rc_freed c' = rc_freed c @ [vs]"
proof -
  obtain q' where "node_inv c N T V x q'" using tree_parent[OF inv x] by blast
  then have n: "node_inv c N T V x q" using q by (simp add: node_inv_def)
  note f = node_inv_fields[OF n]
  have ci: "children_inv c N q" using inv f(1) by (simp add: tree_inv_def)
  obtain kv where kv: "find (\<lambda>(k, v). v = x) (tn_children (nd c q)) = Some kv"
    using f(3) by (cases "find (\<lambda>(k, v). v = x) (tn_children (nd c q))") (auto simp: find_None_iff)
  then have "kv \<in> set (tn_children (nd c q))" "snd kv = x" by (auto simp: find_Some_iff split_def)
  then have "fst kv = take (rc_page_size c) (tn_key (nd c x))" using ci by (auto simp: children_inv_def)
  moreover have "tn_children (nd c q) \<noteq> []" using f(3) by auto
  ultimately show ?thesis using q kv
    by (simp add: delete_leaf_def call_free_def Let_def upd_node_def gone_view_def cong: if_cong)
qed

lemma leaf_iff:
  assumes inv: "tree_inv c N T V" and n: "n \<in> N"
  shows "tn_children (nd c n) = [] \<longleftrightarrow> (\<forall>m \<in> N. tn_parent (nd c m) \<noteq> Some n)"
proof
  assume l: "tn_children (nd c n) = []"
  show "\<forall>m \<in> N. tn_parent (nd c m) \<noteq> Some n"
  proof (intro ballI notI)
    fix m assume m: "m \<in> N" "tn_parent (nd c m) = Some n"
    then have "m \<noteq> rc_root c" using inv by (auto simp: tree_inv_def)
    then obtain q where "node_inv c N T V m q" using tree_parent[OF inv m(1)] by blast
    then show False using m(2) l by (simp add: node_inv_def)
  qed
next
  assume p: "\<forall>m \<in> N. tn_parent (nd c m) \<noteq> Some n"
  have "children_inv c N n" using inv n by (simp add: tree_inv_def)
  then have "\<forall>(k, m) \<in> set (tn_children (nd c n)). False" using p by (auto simp: children_inv_def)
  then show "tn_children (nd c n) = []" by (cases "tn_children (nd c n)") auto
qed

lemma set_delete: "set (AList.delete k d) = {e \<in> set d. fst e \<noteq> k}"
  by (auto simp: AList.delete_eq)

lemma gone_tree:
  assumes inv: "tree_inv c N T V" and x: "victim c N x" and q: "tn_parent (nd c x) = Some q" and v: "gone_view c x q c'"
  shows "tree_inv c' (N - {x}) T V"
proof -
  let ?p = "rc_page_size c"
  note vf = gone_view_fields[OF v]
  have xN: "x \<in> N" "x \<noteq> rc_root c" "\<And>m. m \<in> N \<Longrightarrow> tn_parent (nd c m) \<noteq> Some x" using x by (auto simp: victim_def)
  obtain q' where "node_inv c N T V x q'" using tree_parent[OF inv xN(1,2)] by blast
  then have nx: "node_inv c N T V x q" using q by (simp add: node_inv_def)
  have "\<exists>r. node_inv c' (N - {x}) T V m r" if m: "m \<in> N - {x} - {rc_root c}" for m
  proof -
    obtain r where r: "node_inv c N T V m r" using tree_parent[OF inv] m by blast
    note f = node_inv_fields[OF r]
    have rx: "r \<noteq> x" using f(2) xN(3)[of m] m by auto
    have "take ?p (tn_key (nd c m)) \<noteq> take ?p (tn_key (nd c x))" if "r = q"
      using tree_child_unique[OF inv r] nx that m by auto
    then have "(take ?p (tn_key (nd c m)), m) \<in> set (tn_children (nd c' r))"
      using f(3) by (auto simp: vf(7) set_delete)
    then have "node_inv c' (N - {x}) T V m r" unfolding node_inv_def using f rx by (simp add: vf)
    then show ?thesis by blast
  qed
  moreover have "children_inv c' (N - {x}) m" if m: "m \<in> N - {x}" for m
  proof -
    have ci: "children_inv c N m" using inv m by (simp add: tree_inv_def)
    have "e \<noteq> x" if "(a, e) \<in> set (tn_children (nd c' m))" for a e
    proof
      assume "e = x"
      then have e: "(a, x) \<in> set (tn_children (nd c m))" using that by (auto simp: vf(7) set_delete split: if_splits)
      then have "m = q" "a = take ?p (tn_key (nd c x))" using ci q by (auto simp: children_inv_def)
      then show False using that \<open>e = x\<close> by (auto simp: vf(7) set_delete)
    qed
    moreover have "set (tn_children (nd c' m)) \<subseteq> set (tn_children (nd c m))" by (auto simp: vf(7) set_delete)
    moreover have "wf_dict (tn_children (nd c' m))" using ci by (auto simp: vf(7) children_inv_def wf_dict_def distinct_delete)
    ultimately show ?thesis using ci unfolding children_inv_def by (auto simp: vf(1,3,8,9))
  qed
  ultimately show ?thesis using inv xN(2) unfolding tree_inv_def by (auto simp: vf)
qed

lemma gone_cache:
  assumes inv: "cache_inv c N T V H" and x: "victim c N x" and q: "tn_parent (nd c x) = Some q" and v: "gone_view c x q c'"
  shows "cache_inv c' (N - {x}) T V H" "tree_slots c N = mset (tn_value (nd c x)) + tree_slots c' (N - {x})"
proof -
  note vf = gone_view_fields[OF v]
  have t: "tree_inv c N T V" and H: "set_mset H \<subseteq> N" and l: "\<forall>n \<in> N - {rc_root c}. tn_lock_ref (nd c n) = int (holders T H n)"
    using inv by (simp_all add: cache_inv_def locks_inv_def)
  have fin: "finite N" using t by (simp add: tree_inv_def)
  have xN: "x \<in> N" "x \<noteq> rc_root c" "tn_lock_ref (nd c x) = 0" using x by (simp_all add: victim_def)
  then obtain q' where "node_inv c N T V x q'" using tree_parent[OF t] by blast
  then have len: "length (tn_key (nd c x)) = length (tn_value (nd c x))" by (simp add: node_inv_def)
  have "holders T H x = 0" using l xN by auto
  then have "x \<notin># H" by (auto simp: holders_def)
  then have "locks_inv c' (N - {x}) T H" using H l by (auto simp: locks_inv_def vf(3,11))
  moreover have "N - {x} - {rc_root c} = N - {rc_root c} - {x}" by blast
  then have "evictable_sum c N = int (length (tn_value (nd c x))) + evictable_sum c' (N - {x})"
      "protected_sum c N = protected_sum c' (N - {x})"
    using fin xN by (simp_all add: evictable_sum_def protected_sum_def vf(3,10,11) sum.remove[of "N - {rc_root c}" x] cong: if_cong)
  ultimately show "cache_inv c' (N - {x}) T V H"
    using gone_tree[OF t x q v] inv len by (simp add: cache_inv_def vf(5,6))
  show "tree_slots c N = mset (tn_value (nd c x)) + tree_slots c' (N - {x})"
    using fin xN(1) by (simp add: tree_slots_def vf(10) sum.remove[of N x])
qed

lemma node_lt_gone: "gone_view c x q c' \<Longrightarrow> node_lt c' = node_lt c"
  by (simp add: gone_view_def node_lt_def fun_eq_iff)

lemma victim_gone: "gone_view c x q c' \<Longrightarrow> victim c' M = victim c M"
  by (simp add: gone_view_def victim_def fun_eq_iff)

lemma lru_run_gone: "gone_view c x q c' \<Longrightarrow> lru_run c' M xs = lru_run c M xs"
  by (induction xs arbitrary: M) (simp_all add: victim_gone[of c x q c'] node_lt_gone[of c x q c'])

section \<open>Nothing left to evict\<close>

text \<open>Below an unlocked node there is a victim, so without victims nothing is evictable.\<close>

lemma holders_none: "holders T H n = 0 \<longleftrightarrow> (\<forall>h \<in># H. \<not> prefix (T n) (T h))"
  by (auto simp: holders_def size_eq_0_iff_empty filter_mset_eq_mempty_iff)

lemma deepest_unlocked:
  assumes inv: "cache_inv c N T V H" and n: "n \<in> N - {rc_root c}" "tn_lock_ref (nd c n) = 0"
  shows "\<exists>x. victim c N x"
proof -
  let ?U = "{m \<in> N - {rc_root c}. tn_lock_ref (nd c m) = 0}"
  have t: "tree_inv c N T V" using inv by (simp add: cache_inv_def)
  have fin: "finite ?U" using t by (simp add: tree_inv_def)
  define d where "d = Max ((\<lambda>m. length (T m)) ` ?U)"
  have "d \<in> (\<lambda>m. length (T m)) ` ?U" unfolding d_def using fin n by (intro Max_in) auto
  then obtain x where x: "x \<in> ?U" "length (T x) = d" by auto
  have "tn_parent (nd c m) \<noteq> Some x" if m: "m \<in> N" for m
  proof
    assume p: "tn_parent (nd c m) = Some x"
    then have mr: "m \<noteq> rc_root c" using t by (auto simp: tree_inv_def)
    then obtain q where "node_inv c N T V m q" using tree_parent[OF t m] by blast
    then have nm: "node_inv c N T V m x" using p by (simp add: node_inv_def)
    have "holders T H x = 0" using cache_inv_lock_nonneg[OF inv, of x] x(1) by auto
    then have "\<not> prefix (T x) (T h)" if "h \<in># H" for h using that by (simp add: holders_none)
    then have "\<not> prefix (T m) (T h)" if "h \<in># H" for h using that node_inv_fields(4)[OF nm] by (metis append_prefixD)
    then have "holders T H m = 0" by (simp add: holders_none)
    then have "m \<in> ?U" using cache_inv_lock_nonneg[OF inv, of m] m mr by simp
    then have "length (T m) \<le> d" unfolding d_def using fin by (intro Max_ge) auto
    then show False using node_shorter[OF nm] x(2) by simp
  qed
  then show ?thesis using x(1) by (auto simp: victim_def)
qed

lemma no_victim_no_evictable:
  assumes inv: "cache_inv c N T V H" and no: "\<And>x. \<not> victim c N x"
  shows "rc_evictable_size c = 0"
proof -
  have "tn_lock_ref (nd c n) \<noteq> 0" if "n \<in> N - {rc_root c}" for n using deepest_unlocked[OF inv that] no by blast
  then show ?thesis using inv by (simp add: cache_inv_def evictable_sum_def)
qed

section \<open>The loop\<close>

definition leaves_inv :: "radix_cache \<Rightarrow> nat set \<Rightarrow> nat list \<Rightarrow> bool" where
  "leaves_inv c N leaves \<longleftrightarrow> is_heap (node_lt c) leaves \<and> distinct leaves \<and> set leaves \<subseteq> N \<and>
     (\<forall>n \<in> set leaves. tn_children (nd c n) = []) \<and> (\<forall>x. victim c N x \<longrightarrow> x \<in> set leaves)"

lemma heappop_leaves:
  assumes "leaves_inv c N leaves" "leaves \<noteq> []"
  obtains x rest where "heappop (node_lt c) leaves = Inr (x, rest)" "mset leaves = add_mset x (mset rest)"
    "x \<in> N" "x \<notin> set rest" "tn_children (nd c x) = []" "is_heap (node_lt c) rest" "distinct rest"
    "\<And>y. victim c N y \<Longrightarrow> \<not> node_lt c y x"
proof -
  have h: "is_heap (node_lt c) leaves" "distinct leaves" using assms(1) by (simp_all add: leaves_inv_def)
  obtain x rest where p: "heappop (node_lt c) leaves = Inr (x, rest)" "mset leaves = add_mset x (mset rest)"
    using heappop_mset[OF assms(2)] by blast
  have s: "set leaves = insert x (set rest)" using arg_cong[OF p(2), of set_mset] by simp
  have d: "distinct (x # rest)" using h(2) p(2) by (metis mset.simps(2) mset_eq_imp_distinct_iff)
  have m: "\<not> node_lt c y x" if "victim c N y" for y
  proof -
    have "y = x \<or> y \<in># mset rest" using assms(1) that s by (auto simp: leaves_inv_def)
    then show ?thesis using node_order.heappop_min[OF h(1) p(1)] node_order.lt_irrefl by blast
  qed
  show thesis
    using that[OF p] m d s assms(1) node_order.heappop_heap[OF h(1) p(1)] by (auto simp: leaves_inv_def)
qed

lemma gone_view_record: "gone_view c x q c1 \<Longrightarrow> gone_view c x q (record_remove_event y c1)"
  by (simp add: gone_view_def record_remove_event_def)

lemma root_leaf:
  assumes inv: "tree_inv c N T V" and r: "tn_children (nd c (rc_root c)) = []"
  shows "N = {rc_root c}"
proof -
  have "rc_root c \<in> N" using inv by (simp add: tree_inv_def)
  from below_kids(1)[OF inv this] show ?thesis using r below_root[OF inv] by simp
qed

lemma leaves_skip:
  assumes "leaves_inv c N leaves" "mset leaves = add_mset x (mset rest)" "is_heap (node_lt c) rest" "distinct rest"
    and "\<not> victim c N x"
  shows "leaves_inv c N rest"
proof -
  have "set leaves = insert x (set rest)" using arg_cong[OF assms(2), of set_mset] by simp
  then show ?thesis using assms by (auto simp: leaves_inv_def)
qed

lemma leaves_next:
  assumes inv: "tree_inv c N T V" and l: "leaves_inv c N leaves" and m: "mset leaves = add_mset x (mset rest)"
    and rest: "is_heap (node_lt c) rest" "distinct rest" "x \<notin> set rest"
    and x: "victim c N x" and q: "tn_parent (nd c x) = Some q" and v: "gone_view c x q c'"
  shows "leaves_inv c' (N - {x}) (if tn_children (nd c' q) = [] then heappush (node_lt c') rest q else rest)"
proof -
  note vf = gone_view_fields[OF v]
  have s: "set leaves = insert x (set rest)" using arg_cong[OF m, of set_mset] by simp
  have xN: "x \<in> N" "x \<noteq> rc_root c" "\<And>m. m \<in> N \<Longrightarrow> tn_parent (nd c m) \<noteq> Some x" using x by (auto simp: victim_def)
  then obtain q' where "node_inv c N T V x q'" using tree_parent[OF inv] by blast
  then have n: "node_inv c N T V x q" using q by (simp add: node_inv_def)
  have qN: "q \<in> N" "q \<noteq> x" using node_inv_fields(1)[OF n] node_shorter[OF n] by auto
  have qr: "q \<notin> set rest" using node_inv_fields(3)[OF n] l s by (auto simp: leaves_inv_def)
  have inv': "tree_inv c' (N - {x}) T V" using gone_tree[OF inv x q v] .
  have sub: "set rest \<subseteq> N - {x}" "\<forall>n \<in> set rest. tn_children (nd c' n) = []"
    using l s rest(3) qr by (auto simp: leaves_inv_def vf(7))
  have vic: "y \<in> set rest \<or> y = q \<and> tn_children (nd c' q) = []" if y: "victim c' (N - {x}) y" for y
  proof (cases "y = q")
    case True
    then show ?thesis using leaf_iff[OF inv', of q] y by (auto simp: victim_def)
  next
    case False
    then have "victim c N y" using y q unfolding victim_gone[OF v] by (auto simp: victim_def)
    then show ?thesis using l s y by (auto simp: leaves_inv_def victim_def)
  qed
  have set_push: "set (heappush (node_lt c') rest q) = insert q (set rest)" "distinct (heappush (node_lt c') rest q)"
    using heappush_mset[of "node_lt c'" rest q] qr rest(2)
    by (metis set_mset_mset set_mset_add_mset_insert, metis distinct.simps(2) mset.simps(2) mset_eq_imp_distinct_iff)
  show ?thesis
    unfolding leaves_inv_def using sub vic qN rest(1,2) set_push node_order.heappush_heap[OF rest(1), of q]
    by (auto simp: node_lt_gone[OF v])
qed

lemma slots_of_simps [simp]: "slots_of c [] = []" "slots_of c (x # xs) = tn_value (nd c x) @ slots_of c xs"
  by (simp_all add: slots_of_def)

text \<open>What a run of the loop has done when it stops.\<close>

definition evicted ::
  "int \<Rightarrow> radix_cache \<Rightarrow> nat set \<Rightarrow> (nat \<Rightarrow> int list) \<Rightarrow> (nat \<Rightarrow> int list) \<Rightarrow> nat multiset \<Rightarrow> nat list \<Rightarrow> radix_cache \<Rightarrow> bool" where
  "evicted k c N T V H xs c' \<longleftrightarrow> lru_run c N xs \<and> cache_inv c' (N - set xs) T V H \<and>
     rc_page_size c' = rc_page_size c \<and> rc_disable c' = rc_disable c \<and> rc_root c' = rc_root c \<and>
     rc_freed c' = rc_freed c @ map (\<lambda>x. tn_value (nd c x)) xs \<and>
     tree_slots c N = mset (slots_of c xs) + tree_slots c' (N - set xs) \<and>
     (k \<le> int (length (slots_of c xs)) \<or> rc_evictable_size c' = 0) \<and>
     (xs \<noteq> [] \<longrightarrow> int (length (slots_of c (butlast xs))) < k)"

lemma evicted_none: "cache_inv c N T V H \<Longrightarrow> k \<le> 0 \<or> rc_evictable_size c = 0 \<Longrightarrow> evicted k c N T V H [] c"
  by (simp add: evicted_def)

lemma evicted_Cons:
  assumes inv: "cache_inv c N T V H" and x: "victim c N x" "\<And>y. victim c N y \<Longrightarrow> \<not> node_lt c y x"
    and q: "tn_parent (nd c x) = Some q" and v: "gone_view c x q c1" and f: "rc_freed c1 = rc_freed c @ [tn_value (nd c x)]"
    and k: "0 < k" and e: "evicted (k - int (length (tn_value (nd c x)))) c1 (N - {x}) T V H xs c'"
  shows "evicted k c N T V H (x # xs) c'"
proof -
  note vf = gone_view_fields[OF v]
  have so: "slots_of c1 ys = slots_of c ys" for ys by (simp add: slots_of_def vf(10))
  have N: "N - {x} - set xs = N - set (x # xs)" by auto
  show ?thesis
    using e x k gone_cache(2)[OF inv x(1) q v] unfolding evicted_def N lru_run.simps lru_run_gone[OF v] so
    by (auto simp: vf(1-3,10) f)
qed

lemma evict_loop_step:
  assumes inv: "cache_inv c N T V H" and lv: "leaves_inv c N leaves" and k: "k < num" "leaves \<noteq> []"
    and p: "heappop (node_lt c) leaves = Inr (x, rest)" "mset leaves = add_mset x (mset rest)" "x \<notin> set rest"
      "is_heap (node_lt c) rest" "distinct rest"
    and x: "victim c N x"
  shows "\<exists>q c2 leaves2. evict_loop num k leaves c = evict_loop num (k + int (length (tn_value (nd c x)))) leaves2 c2 \<and>
    leaves_inv c2 (N - {x}) leaves2 \<and> length leaves2 \<le> length leaves \<and> tn_parent (nd c x) = Some q \<and> gone_view c x q c2 \<and>
    rc_freed c2 = rc_freed c @ [tn_value (nd c x)]"
proof -
  let ?v = "tn_value (nd c x)"
  have t: "tree_inv c N T V" using inv by (simp add: cache_inv_def)
  have xN: "x \<in> N" "x \<noteq> rc_root c" "tn_lock_ref (nd c x) = 0" using x by (simp_all add: victim_def)
  obtain q where q: "tn_parent (nd c x) = Some q" using tree_parent[OF t xN(1,2)] node_inv_fields(2) by metis
  obtain c1 where c1: "delete_leaf x (call_free ?v c) = Some c1" "gone_view c x q c1" "rc_freed c1 = rc_freed c @ [?v]"
    using delete_leaf_view[OF t xN(1,2) q] by blast
  define c2 where "c2 = record_remove_event x c1"
  have v: "gone_view c x q c2" "rc_freed c2 = rc_freed c @ [?v]"
    using gone_view_record[OF c1(2)] c1(3) by (simp_all add: c2_def record_remove_event_def)
  define leaves2 where "leaves2 = (if tn_children (nd c2 q) = [] then heappush (node_lt c2) rest q else rest)"
  have l2: "leaves_inv c2 (N - {x}) leaves2"
    unfolding leaves2_def using leaves_next[OF t lv p(2,4,5,3) x q v(1)] .
  have nd2: "nd c2 = nd c1" "node_lt c2 = node_lt c1" by (simp_all add: c2_def record_remove_event_def node_lt_def fun_eq_iff)
  have "evict_loop num k leaves c = evict_loop num (k + int (length ?v)) leaves2 c2"
    using k p(1) xN c1(1) q gone_view_fields(8)[OF c1(2)]
    by (subst evict_loop.simps) (simp add: Let_def call_free_def leaves2_def nd2 c2_def[symmetric])
  moreover have "length leaves2 \<le> length leaves"
    using arg_cong[OF heappush_mset[of "node_lt c2" rest q], of size] arg_cong[OF p(2), of size] by (simp add: leaves2_def)
  ultimately show ?thesis using l2 q v by blast
qed

lemma evict_loop_lru:
  assumes "cache_inv c N T V H" "leaves_inv c N leaves"
  shows "\<exists>xs c'. evict_loop num k leaves c = Some c' \<and> evicted (num - k) c N T V H xs c'"
  using assms
proof (induction "2 * card N + length leaves" arbitrary: c N k leaves rule: less_induct)
  case less
  note inv = less.prems(1) and lv = less.prems(2)
  have t: "tree_inv c N T V" and fin: "finite N" using inv by (auto simp: cache_inv_def tree_inv_def)
  consider "\<not> k < num" | "k < num" "leaves = []" | "k < num" "leaves \<noteq> []" by blast
  then show ?case
  proof cases
    case 1
    then show ?thesis using evicted_none[OF inv, of "num - k"] by (subst evict_loop.simps) auto
  next
    case 2
    then have "rc_evictable_size c = 0" using no_victim_no_evictable[OF inv] lv by (auto simp: leaves_inv_def)
    then show ?thesis using 2 evicted_none[OF inv, of "num - k"] by (subst evict_loop.simps) auto
  next
    case 3
    obtain x rest where p: "heappop (node_lt c) leaves = Inr (x, rest)" "mset leaves = add_mset x (mset rest)"
      "x \<in> N" "x \<notin> set rest" "tn_children (nd c x) = []" "is_heap (node_lt c) rest" "distinct rest"
      "\<And>y. victim c N y \<Longrightarrow> \<not> node_lt c y x" using heappop_leaves[OF lv 3(2)] by blast
    have len: "length leaves = Suc (length rest)" using arg_cong[OF p(2), of size] by simp
    consider "x = rc_root c" | "x \<noteq> rc_root c" "0 < tn_lock_ref (nd c x)" | "x \<noteq> rc_root c" "\<not> 0 < tn_lock_ref (nd c x)" by blast
    then show ?thesis
    proof cases
      case 1
      then have "\<not> victim c N y" for y using root_leaf[OF t] p(5) by (auto simp: victim_def)
      then have "rc_evictable_size c = 0" using no_victim_no_evictable[OF inv] by blast
      then show ?thesis using 1 3 p(1) evicted_none[OF inv, of "num - k"] by (subst evict_loop.simps) auto
    next
      case 2
      then have "leaves_inv c N rest" using leaves_skip[OF lv p(2,6,7)] by (auto simp: victim_def)
      then have "\<exists>xs c'. evict_loop num k rest c = Some c' \<and> evicted (num - k) c N T V H xs c'"
        using less.hyps[OF _ inv] len by simp
      then show ?thesis using 2 3 p(1) by (subst evict_loop.simps) auto
    next
      case x: 3
      have lock: "tn_lock_ref (nd c x) = 0" using cache_inv_lock_nonneg[OF inv, of x] x p(3) by simp
      then have vic: "victim c N x" using leaf_iff[OF t p(3)] p(3,5) x(1) by (simp add: victim_def)
      let ?v = "tn_value (nd c x)"
      obtain q c2 leaves2 where st: "evict_loop num k leaves c = evict_loop num (k + int (length ?v)) leaves2 c2"
          "leaves_inv c2 (N - {x}) leaves2" "length leaves2 \<le> length leaves"
        and q: "tn_parent (nd c x) = Some q" and v: "gone_view c x q c2" "rc_freed c2 = rc_freed c @ [?v]"
        using evict_loop_step[OF inv lv 3 p(1,2,4,6,7) vic] by blast
      have "2 * card (N - {x}) + length leaves2 < 2 * card N + length leaves" using card.remove[OF fin p(3)] st(3) by simp
      then obtain xs c' where r: "evict_loop num (k + int (length ?v)) leaves2 c2 = Some c'"
          "evicted (num - (k + int (length ?v))) c2 (N - {x}) T V H xs c'"
        using less.hyps[OF _ gone_cache(1)[OF inv vic q v(1)] st(2)] by blast
      have "evicted (num - k) c N T V H (x # xs) c'"
        using evicted_Cons[OF inv vic p(8) q v] r(2) 3(1) by (simp add: diff_diff_eq)
      then show ?thesis unfolding st(1) using r(1) by blast
    qed
  qed
qed

lemma evict_lru:
  assumes inv: "cache_inv c N T V H" and en: "\<not> rc_disable c"
  shows "\<exists>xs c'. evict num c = Some c' \<and> evicted num c N T V H xs c'"
proof -
  have t: "tree_inv c N T V" using inv by (simp add: cache_inv_def)
  obtain ls where ls: "collect_leaves c = Some ls" "distinct ls" "set ls = {n \<in> N. tn_children (nd c n) = []}"
    using collect_leaves_all[OF t] by blast
  have m: "mset (heapify (node_lt c) ls) = mset ls" by (rule heapify_mset)
  have "set (heapify (node_lt c) ls) = set ls" "distinct (heapify (node_lt c) ls)"
    using ls(2) mset_eq_setD[OF m] mset_eq_imp_distinct_iff[OF m] by simp_all
  then have "leaves_inv c N (heapify (node_lt c) ls)"
    using ls(3) node_order.heapify_heap leaf_iff[OF t] by (auto simp: leaves_inv_def victim_def)
  from evict_loop_lru[OF inv this, of num 0] show ?thesis using en ls(1) by (simp add: evict_def)
qed

end
