(* ===== verification/Prefix_Cache.thy ===== *)
theory Prefix_Cache
  imports Radix_Evict
begin

text \<open>
  The prefix cache as its clients see it: which token sequences are cached with which slots, the
  runs of the operations, and what each operation does to the contents, the locks and the sizes.
\<close>

section \<open>The contents\<close>

text \<open>The nodes of the tree with the tokens and slots on the way to them.\<close>

inductive path :: "radix_cache \<Rightarrow> nat \<Rightarrow> int list \<Rightarrow> int list \<Rightarrow> bool" for c where
  path_root: "path c (rc_root c) [] []"
| path_child: "path c q xs vs \<Longrightarrow> (k, n) \<in> set (tn_children (nd c q)) \<Longrightarrow>
    path c n (xs @ tn_key (nd c n)) (vs @ tn_value (nd c n))"

definition cached :: "radix_cache \<Rightarrow> int list \<Rightarrow> int list \<Rightarrow> bool" where
  "cached c xs vs \<longleftrightarrow> length xs = length vs \<and> (\<exists>n ys ws. path c n (xs @ ys) (vs @ ws))"

definition cache_slots :: "radix_cache \<Rightarrow> int multiset" where
  "cache_slots c = tree_slots c {n. \<exists>xs vs. path c n xs vs}"

lemma path_tree:
  assumes inv: "tree_inv c N T V"
  shows "path c n xs vs \<longleftrightarrow> n \<in> N \<and> xs = T n \<and> vs = V n"
proof
  assume "path c n xs vs"
  then show "n \<in> N \<and> xs = T n \<and> vs = V n"
  proof (induction rule: path.induct)
    case path_root
    then show ?case using inv by (simp add: tree_inv_def)
  next
    case (path_child q xs vs k n)
    then have "n \<in> set (kids c q)" by force
    then show ?case using kid_node[OF inv, of q n] path_child.IH node_inv_fields[of c N T V n q] by simp
  qed
next
  assume n: "n \<in> N \<and> xs = T n \<and> vs = V n"
  have "\<forall>n \<in> N. length (T n) = l \<longrightarrow> path c n (T n) (V n)" for l
  proof (induction l rule: less_induct)
    case (less l)
    show ?case
    proof (intro ballI impI)
      fix n assume n: "n \<in> N" "length (T n) = l"
      show "path c n (T n) (V n)"
      proof (cases "n = rc_root c")
        case True
        then show ?thesis using path_root inv by (simp add: tree_inv_def)
      next
        case False
        then obtain q where q: "node_inv c N T V n q" using tree_parent[OF inv n(1)] by blast
        then have "path c q (T q) (V q)" using less node_shorter[OF q] node_inv_fields(1)[OF q] n(2) by blast
        from path_child[OF this node_inv_fields(3)[OF q]] show ?thesis using node_inv_fields(4,5)[OF q] by simp
      qed
    qed
  qed
  then show "path c n xs vs" using n by blast
qed

lemma cached_stored:
  assumes inv: "tree_inv c N T V"
  shows "cached c xs vs \<longleftrightarrow> stored N T V xs vs"
proof
  assume "cached c xs vs"
  then obtain n ys ws where "length xs = length vs" "path c n (xs @ ys) (vs @ ws)" by (auto simp: cached_def)
  then have "n \<in> N" "T n = xs @ ys" "V n = vs @ ws" "length xs = length vs" by (simp_all add: path_tree[OF inv])
  then show "stored N T V xs vs" by (auto simp: stored_def intro!: bexI[of _ n])
next
  assume "stored N T V xs vs"
  then obtain n where n: "n \<in> N" "prefix xs (T n)" "vs = take (length xs) (V n)" by (auto simp: stored_def)
  obtain ys where ys: "T n = xs @ ys" using n(2) by (auto simp: prefix_def)
  have "length xs = length vs" using n(3) tree_lengths(2)[OF inv n(1)] ys by simp
  moreover have "path c n (xs @ ys) (vs @ drop (length xs) (V n))" using n ys by (simp add: path_tree[OF inv])
  ultimately show "cached c xs vs" unfolding cached_def by blast
qed

lemma cache_slots_tree: "tree_inv c N T V \<Longrightarrow> cache_slots c = tree_slots c N"
  by (simp add: cache_slots_def path_tree)

section \<open>Runs\<close>

text \<open>
  The states a client reaches with an enabled cache, with the multiset of the nodes it holds locks
  on: it looks keys up, inserts page-aligned keys, locks nodes of the tree and unlocks what it
  locked, evicts, takes the events, and resets the cache when it holds no locks.
\<close>

inductive radix_run :: "radix_cache \<Rightarrow> nat multiset \<Rightarrow> bool" where
  start: "0 < page_size \<Longrightarrow> radix_run (RadixCache page_size False events hash clock) {#}"
| match: "radix_run c H \<Longrightarrow> match_prefix key c = Some (r, c') \<Longrightarrow> radix_run c' H"
| insert: "radix_run c H \<Longrightarrow> rc_page_size c dvd length key \<Longrightarrow> length vals = length key \<Longrightarrow>
    radix_insert key (Some vals) c = Some (r, c') \<Longrightarrow> radix_run c' H"
| lock: "radix_run c H \<Longrightarrow> path c n xs vs \<Longrightarrow> inc_lock_ref n c = Some (d, c') \<Longrightarrow> radix_run c' (add_mset n H)"
| unlock: "radix_run c (add_mset n H) \<Longrightarrow> dec_lock_ref n c = Some (d, c') \<Longrightarrow> radix_run c' H"
| evict: "radix_run c H \<Longrightarrow> evict k c = Some c' \<Longrightarrow> radix_run c' H"
| events: "radix_run c H \<Longrightarrow> take_events c = (es, c') \<Longrightarrow> radix_run c' H"
| free: "radix_run c H \<Longrightarrow> radix_run (call_free idx c) H"
| reset: "radix_run c {#} \<Longrightarrow> radix_run (radix_reset c) {#}"

lemma reset_inv:
  assumes "0 < rc_page_size c"
  shows "cache_inv (radix_reset c) {rc_counter c} (\<lambda>_. []) (\<lambda>_. []) {#}"
  using assms
  by (simp add: radix_reset_def TreeNode_def monotonic_def upd_node_def record_all_cleared_event_def Let_def cache_inv_def
      tree_inv_def children_inv_def locks_inv_def evictable_sum_def protected_sum_def)

lemma reset_fields: "rc_page_size (radix_reset c) = rc_page_size c" "rc_disable (radix_reset c) = rc_disable c"
  by (simp_all add: radix_reset_def TreeNode_def monotonic_def upd_node_def record_all_cleared_event_def Let_def)

lemma same_view_events: "take_events c = (es, c') \<Longrightarrow> same_view c c'"
  by (auto simp: take_events_def same_view_def split: if_splits)

lemma cache_inv_call_free: "cache_inv (call_free idx c) N T V H = cache_inv c N T V H"
  by (simp add: call_free_def cache_inv_def tree_inv_def node_inv_def children_inv_def locks_inv_def evictable_sum_def protected_sum_def cong: if_cong)

definition good :: "radix_cache \<Rightarrow> nat multiset \<Rightarrow> bool" where
  "good c H \<longleftrightarrow> \<not> rc_disable c \<and> (\<exists>N T V. cache_inv c N T V H)"

lemma match_prefix_good:
  assumes "good c H" "match_prefix key c = Some (r, c')"
  shows "good c' H"
proof (cases "key = []")
  case True
  then show ?thesis using assms by (simp add: match_prefix_def)
next
  case False
  obtain N T V where inv: "cache_inv c N T V H" "\<not> rc_disable c" using assms(1) by (auto simp: good_def)
  then show ?thesis
    using match_prefix_walks[OF inv False] assms(2) unfolding good_def same_content_def tree_grows_def by fastforce
qed

lemma radix_run_good: "radix_run c H \<Longrightarrow> good c H"
proof (induction rule: radix_run.induct)
  case (start page_size events hash clock)
  obtain c0 where "RadixCache page_size False events hash clock = radix_reset c0" "rc_page_size c0 = page_size" "\<not> rc_disable c0"
    unfolding RadixCache_def using that by fastforce
  then show ?case using reset_inv[of c0] reset_fields[of c0] start unfolding good_def by metis
next
  case (match c H key r c')
  then show ?case using match_prefix_good by blast
next
  case (insert c H key vals r c')
  then obtain N T V where inv: "cache_inv c N T V H" "\<not> rc_disable c" by (auto simp: good_def)
  then show ?case using radix_insert_walks[OF inv insert.hyps(2,3)] insert.hyps(4) unfolding good_def tree_grows_def by fastforce
next
  case (lock c H n xs vs d c')
  then obtain N T V where inv: "cache_inv c N T V H" "\<not> rc_disable c" by (auto simp: good_def)
  then have "n \<in> N" using lock.hyps(2) path_tree[of c N T V] by (simp add: cache_inv_def)
  then obtain c2 where "inc_lock_ref n c = Some (rc_evictable_size c2 - rc_evictable_size c, c2)"
      "cache_inv c2 N T V (add_mset n H)" "tree_grows c N T V c2 N T V" using inc_lock_ref_locks[OF inv] by blast
  then show ?case using lock.hyps(3) inv(2) unfolding good_def tree_grows_def by auto
next
  case (unlock c n H d c')
  then obtain N T V where inv: "cache_inv c N T V (add_mset n H)" "\<not> rc_disable c" by (auto simp: good_def)
  then obtain c2 where "dec_lock_ref n c = Some (rc_evictable_size c2 - rc_evictable_size c, c2)"
      "cache_inv c2 N T V H" "tree_grows c N T V c2 N T V" using dec_lock_ref_locks[OF inv] by blast
  then show ?case using unlock.hyps(2) inv(2) unfolding good_def tree_grows_def by auto
next
  case (evict c H k c')
  then obtain N T V where inv: "cache_inv c N T V H" "\<not> rc_disable c" by (auto simp: good_def)
  then show ?case using evict_lru[OF inv, of k] evict.hyps(2) unfolding good_def evicted_def by fastforce
next
  case (events c H es c')
  note sv = same_view_events[OF events.hyps(2)]
  then show ?case using events.IH cache_inv_same_view[OF sv] by (simp add: good_def same_view_def)
next
  case (free c H idx)
  then show ?case by (simp add: good_def cache_inv_call_free) (simp add: call_free_def)
next
  case (reset c)
  then have "0 < rc_page_size c" by (auto simp: good_def cache_inv_def tree_inv_def)
  then show ?case using reset_inv reset_fields reset.IH unfolding good_def by blast
qed

lemma goodE:
  assumes "good c H"
  obtains N T V where "cache_inv c N T V H" "\<not> rc_disable c" "tree_inv c N T V"
  using assms by (auto simp: good_def cache_inv_def)

section \<open>What the operations promise\<close>

text \<open>Nodes of the tree that survive keep what is on the way to them.\<close>

lemma tree_grows_path:
  assumes "tree_inv c N T V" "tree_inv c' N' T' V'" "tree_grows c N T V c' N' T' V'" "path c n xs vs"
  shows "path c' n xs vs"
  using assms by (auto simp: path_tree tree_grows_def)

lemma longest_cached:
  assumes t: "tree_inv c N T V" and l: "longest_stored c N T V key xs" and m: "m \<le> length key" "rc_page_size c dvd m"
    and st: "cached c (take m key) ws"
  shows "m \<le> length xs"
proof -
  have "length (take m key) \<le> length xs"
    using l m st unfolding longest_stored_def cached_stored[OF t] by (metis length_take min.absorb2 take_is_prefix)
  then show ?thesis using m(1) by simp
qed

definition matched :: "radix_cache \<Rightarrow> int list \<Rightarrow> int list \<Rightarrow> nat \<Rightarrow> radix_cache \<Rightarrow> bool" where
  "matched c key vs n c' \<longleftrightarrow> cached c (take (length vs) key) vs \<and> rc_page_size c dvd length vs \<and> length vs \<le> length key \<and>
    (\<forall>m ws. length vs < m \<and> m \<le> length key \<and> rc_page_size c dvd m \<longrightarrow> \<not> cached c (take m key) ws) \<and>
    path c' n (take (length vs) key) vs \<and>
    (\<forall>xs ws. cached c' xs ws = cached c xs ws) \<and> cache_slots c' = cache_slots c \<and> rc_freed c' = rc_freed c \<and>
    (\<forall>m xs ws. path c m xs ws \<longrightarrow> path c' m xs ws)"

lemma match_prefix_matched_nonempty:
  assumes run: "radix_run c H" and key: "key \<noteq> []"
  shows "\<exists>vs n c'. match_prefix key c = Some ((vs, n), c') \<and> matched c key vs n c'"
proof -
  obtain N T V where inv: "cache_inv c N T V H" "\<not> rc_disable c" "tree_inv c N T V" using goodE[OF radix_run_good[OF run]] .
  from match_prefix_walks[OF inv(1,2) key] obtain n c' N' T' V' where
    w: "match_prefix key c = Some ((V' n, n), c')" "same_content H c N T V c' N' T' V'" "n \<in> N'"
      "longest_stored c N T V key (T' n)" "stored N T V (T' n) (V' n)" by blast
  have t': "tree_inv c' N' T' V'" and gr: "tree_grows c N T V c' N' T' V'" and sl: "tree_slots c' N' = tree_slots c N"
    and st: "\<And>xs ws. stored N' T' V' xs ws = stored N T V xs ws" using w(2) by (simp_all add: same_content_def cache_inv_def)
  have len: "length (V' n) = length (T' n)" using tree_lengths(2)[OF t' w(3)] .
  have pre: "prefix (T' n) key" "rc_page_size c dvd length (T' n)" using w(4) by (simp_all add: longest_stored_def)
  then have tk: "take (length (V' n)) key = T' n" by (auto simp: len prefix_def)
  show ?thesis unfolding matched_def
  proof (intro exI conjI)
    show "match_prefix key c = Some ((V' n, n), c')" by (rule w(1))
    show "cached c (take (length (V' n)) key) (V' n)" using w(5) by (simp add: tk cached_stored[OF inv(3)])
    show "rc_page_size c dvd length (V' n)" "length (V' n) \<le> length key" using pre len prefix_length_le by auto
    show "\<forall>m ws. length (V' n) < m \<and> m \<le> length key \<and> rc_page_size c dvd m \<longrightarrow> \<not> cached c (take m key) ws"
      using longest_cached[OF inv(3) w(4)] len by (metis linorder_not_le)
    show "path c' n (take (length (V' n)) key) (V' n)" using w(3) by (simp add: tk path_tree[OF t'])
    show "\<forall>xs ws. cached c' xs ws = cached c xs ws" by (simp add: cached_stored[OF inv(3)] cached_stored[OF t'] st)
    show "cache_slots c' = cache_slots c" by (simp add: cache_slots_tree[OF inv(3)] cache_slots_tree[OF t'] sl)
    show "rc_freed c' = rc_freed c" using gr by (simp add: tree_grows_def)
    show "\<forall>m xs ws. path c m xs ws \<longrightarrow> path c' m xs ws" using tree_grows_path[OF inv(3) t' gr] by blast
  qed
qed

lemma match_prefix_matched:
  assumes run: "radix_run c H"
  shows "\<exists>vs n c'. match_prefix key c = Some ((vs, n), c') \<and> matched c key vs n c'"
proof (cases "key = []")
  case True
  have "cached c [] []" unfolding cached_def using path_root[of c] by auto
  then have "matched c [] [] (rc_root c) c" by (simp add: matched_def path_root)
  then show ?thesis using True by (auto simp: match_prefix_def)
qed (use match_prefix_matched_nonempty[OF run] in blast)

definition inserted :: "radix_cache \<Rightarrow> int list \<Rightarrow> int list \<Rightarrow> nat \<Rightarrow> int list \<Rightarrow> radix_cache \<Rightarrow> bool" where
  "inserted c key vals j ws c' \<longleftrightarrow> j \<le> length key \<and> rc_page_size c dvd j \<and>
    cached c (take j key) ws \<and> (\<forall>m us. j < m \<and> m \<le> length key \<and> rc_page_size c dvd m \<longrightarrow> \<not> cached c (take m key) us) \<and>
    (\<forall>xs us. cached c' xs us \<longleftrightarrow> cached c xs us \<or> prefix xs key \<and> us = take (length xs) (ws @ drop j vals)) \<and>
    cache_slots c' = cache_slots c + mset (drop j vals) \<and> rc_freed c' = rc_freed c \<and> rc_page_size c' = rc_page_size c \<and>
    (\<forall>m xs us. path c m xs us \<longrightarrow> path c' m xs us)"

lemma radix_insert_inserted:
  assumes run: "radix_run c H" and key: "rc_page_size c dvd length key" "length vals = length key"
  shows "\<exists>j ws c'. radix_insert key (Some vals) c = Some (j, c') \<and> inserted c key vals j ws c'"
proof -
  obtain N T V where inv: "cache_inv c N T V H" "\<not> rc_disable c" "tree_inv c N T V" using goodE[OF radix_run_good[OF run]] .
  from radix_insert_walks[OF inv(1,2) key] obtain c' N' T' V' j ws where
    w: "radix_insert key (Some vals) c = Some (j, c')" "cache_inv c' N' T' V' H" "tree_grows c N T V c' N' T' V'" "j \<le> length key"
      "longest_stored c N T V key (take j key)" "stored N T V (take j key) ws"
      "tree_slots c' N' = tree_slots c N + mset (drop j vals)"
      "\<And>xs us. stored N' T' V' xs us \<longleftrightarrow> stores_also (stored N T V) key (ws @ drop j vals) xs us" by blast
  have t': "tree_inv c' N' T' V'" using w(2) by (simp add: cache_inv_def)
  show ?thesis unfolding inserted_def
  proof (intro exI conjI)
    show "radix_insert key (Some vals) c = Some (j, c')" by (rule w(1))
    show "j \<le> length key" by (rule w(4))
    then show "rc_page_size c dvd j" using w(5) by (simp add: longest_stored_def min.absorb2)
    show "cached c (take j key) ws" using w(6) by (simp add: cached_stored[OF inv(3)])
    show "\<forall>m us. j < m \<and> m \<le> length key \<and> rc_page_size c dvd m \<longrightarrow> \<not> cached c (take m key) us"
      using longest_cached[OF inv(3) w(5)] w(4) by (metis length_take linorder_not_le min.absorb2)
    show "\<forall>xs us. cached c' xs us \<longleftrightarrow> cached c xs us \<or> prefix xs key \<and> us = take (length xs) (ws @ drop j vals)"
      by (simp add: cached_stored[OF inv(3)] cached_stored[OF t'] w(8) stores_also_def)
    show "cache_slots c' = cache_slots c + mset (drop j vals)" by (simp add: cache_slots_tree[OF inv(3)] cache_slots_tree[OF t'] w(7))
    show "rc_freed c' = rc_freed c" "rc_page_size c' = rc_page_size c" using w(3) by (simp_all add: tree_grows_def)
    show "\<forall>m xs us. path c m xs us \<longrightarrow> path c' m xs us" using tree_grows_path[OF inv(3) t' w(3)] by blast
  qed
qed

text \<open>
  C25. \<open>match_prefix\<close> finds the longest cached prefix. On an enabled cache it always returns; the slots
  it returns are the cached slots of a prefix of the key of whole pages, no longer prefix of whole
  pages of the key is cached, and the returned node is the node of the tree at exactly that prefix
  (split off where the key leaves a node). Neither the cached sequences nor the slots the cache
  owns change, and every node that was in the tree stays there with its tokens and slots.
\<close>

theorem match_prefix_longest:
  assumes run: "radix_run c H"
  shows "\<exists>vs n c'. match_prefix key c = Some ((vs, n), c') \<and>
    cached c (take (length vs) key) vs \<and> rc_page_size c dvd length vs \<and> length vs \<le> length key \<and>
    (\<forall>m ws. length vs < m \<and> m \<le> length key \<and> rc_page_size c dvd m \<longrightarrow> \<not> cached c (take m key) ws) \<and>
    path c' n (take (length vs) key) vs \<and>
    (\<forall>xs ws. cached c' xs ws = cached c xs ws) \<and> cache_slots c' = cache_slots c \<and> rc_freed c' = rc_freed c \<and>
    (\<forall>m xs ws. path c m xs ws \<longrightarrow> path c' m xs ws)"
  using match_prefix_matched[OF assms] unfolding matched_def .

text \<open>
  C26. \<open>insert\<close> adds exactly the missing part of a key. For a key of whole pages with one slot per
  token it always returns the length of the longest cached prefix of whole pages; afterwards the
  cached sequences are those from before and the prefixes of the key, where the tokens that were
  cached keep their old slots and only the rest gets the new ones. The cache takes ownership of
  exactly these new slots, and every node of the tree stays there.
\<close>

theorem radix_insert_extends:
  assumes run: "radix_run c H" and key: "rc_page_size c dvd length key" "length vals = length key"
  shows "\<exists>j ws c'. radix_insert key (Some vals) c = Some (j, c') \<and> j \<le> length key \<and> rc_page_size c dvd j \<and>
    cached c (take j key) ws \<and> (\<forall>m us. j < m \<and> m \<le> length key \<and> rc_page_size c dvd m \<longrightarrow> \<not> cached c (take m key) us) \<and>
    (\<forall>xs us. cached c' xs us \<longleftrightarrow> cached c xs us \<or> prefix xs key \<and> us = take (length xs) (ws @ drop j vals)) \<and>
    cache_slots c' = cache_slots c + mset (drop j vals) \<and> rc_freed c' = rc_freed c \<and> rc_page_size c' = rc_page_size c \<and>
    (\<forall>m xs us. path c m xs us \<longrightarrow> path c' m xs us)"
  using radix_insert_inserted[OF assms] unfolding inserted_def .

text \<open>The locks at or below a node, and the slots under a predicate on nodes.\<close>

definition locks_below :: "radix_cache \<Rightarrow> nat multiset \<Rightarrow> int list \<Rightarrow> nat" where
  "locks_below c H xs = size (filter_mset (\<lambda>h. \<exists>ys us. path c h (xs @ ys) us) H)"

lemma locks_below_tree:
  assumes "cache_inv c N T V H" "n \<in> N"
  shows "locks_below c H (T n) = holders T H n"
proof -
  have t: "tree_inv c N T V" and H: "set_mset H \<subseteq> N" using assms(1) by (simp_all add: cache_inv_def locks_inv_def)
  then have "(\<exists>ys us. path c h (T n @ ys) us) \<longleftrightarrow> prefix (T n) (T h)" if "h \<in># H" for h
    using that by (auto simp: path_tree[OF t] intro: prefixI[OF sym] elim: prefixE)
  then show ?thesis unfolding locks_below_def holders_def by (auto intro!: arg_cong[where f = size] filter_mset_cong)
qed

lemma sums_nonneg: "0 \<le> evictable_sum c N" "0 \<le> protected_sum c N"
  by (simp_all add: evictable_sum_def protected_sum_def sum_nonneg)

text \<open>
  C30. The accounting of the cache is right in every run. The lock count of every node but the root is
  the number of held locks at or below it, whatever splits happened since they were taken; the
  tree walk of \<open>total_size\<close> ends and counts the slots of the cache, and it equals the evictable and
  the protected size together, neither of which is negative; without locks nothing is protected.
\<close>

theorem radix_accounting:
  assumes "radix_run c H"
  shows "(\<forall>n xs vs. path c n xs vs \<and> n \<noteq> rc_root c \<longrightarrow> tn_lock_ref (nd c n) = int (locks_below c H xs)) \<and>
    (\<exists>k. total_size c = Some k \<and> k = size (cache_slots c) \<and> int k = rc_evictable_size c + rc_protected_size c) \<and>
    0 \<le> rc_evictable_size c \<and> 0 \<le> rc_protected_size c \<and> (H = {#} \<longrightarrow> rc_protected_size c = 0)"
proof -
  obtain N T V where inv: "cache_inv c N T V H" "tree_inv c N T V" using goodE[OF radix_run_good[OF assms]] .
  have "rc_evictable_size c = evictable_sum c N" "rc_protected_size c = protected_sum c N" using inv(1) by (simp_all add: cache_inv_def)
  moreover have "protected_sum c N = 0" if "H = {#}"
    unfolding protected_sum_def using cache_inv_lock_nonneg[OF inv(1)] that by (intro sum.neutral) (simp add: holders_def)
  moreover have "tn_lock_ref (nd c n) = int (locks_below c H xs)" if "path c n xs vs" "n \<noteq> rc_root c" for n xs vs
    using that cache_inv_lock_nonneg[OF inv(1), of n] locks_below_tree[OF inv(1), of n] by (simp add: path_tree[OF inv(2)])
  ultimately show ?thesis using total_size_sum[OF inv(1)] sums_nonneg cache_slots_tree[OF inv(2)] by auto
qed

lemma lru_run_nodes: "lru_run c N xs \<Longrightarrow> set xs \<subseteq> N \<and> distinct xs"
  by (induction xs arbitrary: N) (auto simp: victim_def)

text \<open>
  C27. \<open>evict\<close> implements least-recently-used eviction of unlocked leaves. It always returns; the freed
  slots are those of a sequence of nodes each of which was, when its turn came, an unlocked leaf
  other than the root, and none of the unlocked leaves then in the tree had been used less
  recently (a node becomes a leaf when its last child goes). It frees at least as many slots as asked for unless nothing
  evictable is left, and no node more than needed. Slots are neither lost nor freed twice: what the
  cache owned is what it owns now and what it freed. Whatever is locked stays cached.
\<close>

theorem evict_refines_lru:
  assumes run: "radix_run c H"
  shows "\<exists>xs c'. evict k c = Some c' \<and> lru_run c {n. \<exists>ys vs. path c n ys vs} xs \<and>
    rc_freed c' = rc_freed c @ map (\<lambda>x. tn_value (nd c x)) xs \<and>
    (k \<le> int (length (slots_of c xs)) \<or> rc_evictable_size c' = 0) \<and>
    (xs \<noteq> [] \<longrightarrow> int (length (slots_of c (butlast xs))) < k) \<and>
    cache_slots c = mset (slots_of c xs) + cache_slots c' \<and>
    (\<forall>h ys vs. h \<in># H \<longrightarrow> path c h ys vs \<longrightarrow> path c' h ys vs) \<and>
    (\<forall>n ys vs. path c' n ys vs \<longleftrightarrow> path c n ys vs \<and> n \<notin> set xs)"
proof -
  obtain N T V where inv: "cache_inv c N T V H" "\<not> rc_disable c" "tree_inv c N T V" using goodE[OF radix_run_good[OF run]] .
  obtain xs c' where e: "evict k c = Some c'" "evicted k c N T V H xs c'" using evict_lru[OF inv(1,2)] by blast
  have inv': "cache_inv c' (N - set xs) T V H" using e(2) by (simp add: evicted_def)
  then have t': "tree_inv c' (N - set xs) T V" and H: "set_mset H \<subseteq> N - set xs" by (simp_all add: cache_inv_def locks_inv_def)
  have nodes: "{n. \<exists>ys vs. path c n ys vs} = N" by (simp add: path_tree[OF inv(3)])
  show ?thesis
  proof (intro exI conjI)
    show "\<forall>n ys vs. path c' n ys vs \<longleftrightarrow> path c n ys vs \<and> n \<notin> set xs" by (auto simp: path_tree[OF inv(3)] path_tree[OF t'])
    show "\<forall>h ys vs. h \<in># H \<longrightarrow> path c h ys vs \<longrightarrow> path c' h ys vs" using H by (auto simp: path_tree[OF inv(3)] path_tree[OF t'])
    show "cache_slots c = mset (slots_of c xs) + cache_slots c'"
      using e(2) by (simp add: cache_slots_tree[OF inv(3)] cache_slots_tree[OF t'] evicted_def)
  qed (use e in \<open>simp_all add: nodes evicted_def\<close>)
qed

text \<open>
  Locking protects and unlocking undoes it. \<open>inc_lock_ref\<close> on a node of the tree always returns, the
  returned difference is what the evictable size loses and the protected size gains, every node on
  the way then has a positive lock count, and nothing else about the tree changes; \<open>dec_lock_ref\<close> on the same node
  returns the opposite difference and restores both sizes and all lock counts.
\<close>

theorem lock_roundtrip:
  assumes run: "radix_run c H" and n: "path c n xs vs"
  shows "\<exists>d c1 c2. inc_lock_ref n c = Some (d, c1) \<and> d \<le> 0 \<and>
    rc_evictable_size c1 = rc_evictable_size c + d \<and> rc_protected_size c1 = rc_protected_size c - d \<and>
    (\<forall>m ys us. path c1 m ys us = path c m ys us) \<and>
    (\<forall>m ys us. path c m ys us \<and> m \<noteq> rc_root c \<and> prefix ys xs \<longrightarrow> 0 < tn_lock_ref (nd c1 m)) \<and>
    dec_lock_ref n c1 = Some (- d, c2) \<and>
    rc_evictable_size c2 = rc_evictable_size c \<and> rc_protected_size c2 = rc_protected_size c \<and>
    (\<forall>m ys us. path c2 m ys us \<longleftrightarrow> path c m ys us) \<and>
    (\<forall>m ys us. path c m ys us \<and> m \<noteq> rc_root c \<longrightarrow> tn_lock_ref (nd c2 m) = tn_lock_ref (nd c m))"
proof -
  obtain N T V where inv: "cache_inv c N T V H" "\<not> rc_disable c" "tree_inv c N T V" using goodE[OF radix_run_good[OF run]] .
  have nN: "n \<in> N" "xs = T n" using n by (simp_all add: path_tree[OF inv(3)])
  obtain c1 where c1: "inc_lock_ref n c = Some (rc_evictable_size c1 - rc_evictable_size c, c1)"
      "cache_inv c1 N T V (add_mset n H)" "tree_grows c N T V c1 N T V" "tree_slots c1 N = tree_slots c N"
      "\<And>m. tn_value (nd c1 m) = tn_value (nd c m)"
    using inc_lock_ref_locks[OF inv(1,2) nN(1)] by blast
  have en: "\<not> rc_disable c1" "rc_root c1 = rc_root c" using c1(3) inv(2) by (simp_all add: tree_grows_def)
  obtain c2 where c2: "dec_lock_ref n c1 = Some (rc_evictable_size c2 - rc_evictable_size c1, c2)"
      "cache_inv c2 N T V H" "tree_grows c1 N T V c2 N T V" "tree_slots c2 N = tree_slots c N"
      "\<And>m. tn_value (nd c2 m) = tn_value (nd c m)"
    using dec_lock_ref_locks[OF c1(2) en(1)] c1(4,5) by auto
  have t: "tree_inv c1 N T V" "tree_inv c2 N T V" using c1(2) c2(2) by (simp_all add: cache_inv_def)
  have r2: "rc_root c2 = rc_root c" using c2(3) en(2) by (simp add: tree_grows_def)
  have lock2: "tn_lock_ref (nd c2 m) = tn_lock_ref (nd c m)" if "m \<in> N - {rc_root c}" for m
    using cache_inv_lock_nonneg[OF inv(1) that] cache_inv_lock_nonneg[OF c2(2), of m] that r2 by simp
  have lock1: "tn_lock_ref (nd c1 m) = tn_lock_ref (nd c m) + (if prefix (T m) (T n) then 1 else 0)" if "m \<in> N - {rc_root c}" for m
    using cache_inv_lock_nonneg[OF inv(1) that] cache_inv_lock_nonneg[OF c1(2), of m] that en(2) by (simp add: holders_add)
  have nn: "0 \<le> tn_lock_ref (nd c m)" if "m \<in> N - {rc_root c}" for m using cache_inv_lock_nonneg[OF inv(1) that] by simp
  have tot: "rc_evictable_size b + rc_protected_size b = int (size (tree_slots b N))" if "cache_inv b N T V K" for b K
    using total_size_sum[OF that] by auto
  have ev2: "rc_evictable_size c2 = rc_evictable_size c"
    using inv(1) c2(2) lock2 unfolding cache_inv_def evictable_sum_def by (auto simp: r2 c2(5) intro!: sum.cong cong: if_cong)
  have "evictable_sum c1 N \<le> evictable_sum c N"
    unfolding evictable_sum_def en(2) c1(5) by (rule sum_mono, frule nn, drule lock1) auto
  then have le: "rc_evictable_size c1 \<le> rc_evictable_size c" using inv(1) c1(2) by (simp add: cache_inv_def)
  show ?thesis
    using c1(1) c2(1) le ev2 tot[OF inv(1)] tot[OF c1(2)] tot[OF c2(2)] c1(4) c2(4) lock1 lock2 nn nN(2)
    by (intro exI[of _ "rc_evictable_size c1 - rc_evictable_size c"] exI[of _ c1] exI[of _ c2])
      (auto simp: path_tree[OF inv(3)] path_tree[OF t(1)] path_tree[OF t(2)] add_strict_increasing2)
qed

section \<open>A concrete cache\<close>

definition sample_cache :: radix_cache where
  "sample_cache = snd (the (radix_insert [1, 2, 3] (Some [7, 8, 9]) (RadixCache 1 False False (\<lambda>_. 0) (\<lambda>_. 0))))"

lemma sample_cache_run: "radix_run sample_cache {#}"
proof -
  let ?c = "RadixCache 1 False False (\<lambda>_. 0) (\<lambda>_. 0)"
  have "\<not> Option.is_none (radix_insert [1, 2, 3] (Some [7, 8, 9]) ?c)" by code_simp
  then obtain r c' where r: "radix_insert [1, 2, 3] (Some [7, 8, 9]) ?c = Some (r, c')" by (auto simp: Option.is_none_def)
  moreover have "rc_page_size ?c dvd length [1 :: int, 2, 3]" by code_simp
  ultimately show ?thesis using radix_run.insert[OF radix_run.start _ _ r] by (simp add: sample_cache_def)
qed

theorem match_prefix_longest_witness:
  "\<exists>n c'. match_prefix [1, 2, 5] sample_cache = Some (([7, 8], n), c') \<and> cached sample_cache [1, 2] [7, 8] \<and>
    path c' n [1, 2] [7, 8] \<and> cache_slots c' = cache_slots sample_cache"
proof -
  have "map_option (fst \<circ> fst) (match_prefix [1, 2, 5] sample_cache) = Some [7, 8]" by code_simp
  then show ?thesis using match_prefix_longest[OF sample_cache_run, of "[1, 2, 5]"] by auto
qed

theorem radix_insert_extends_witness:
  "\<exists>ws c'. radix_insert [1, 2, 5] (Some [4, 5, 6]) sample_cache = Some (2, c') \<and> cached c' [1, 2, 5] (ws @ [6]) \<and>
    cache_slots c' = cache_slots sample_cache + {#6#}"
proof -
  have e: "map_option fst (radix_insert [1, 2, 5] (Some [4, 5, 6]) sample_cache) = Some 2" by code_simp
  have p: "rc_page_size sample_cache = 1" by code_simp
  obtain ws c' where r: "radix_insert [1, 2, 5] (Some [4, 5, 6]) sample_cache = Some (2, c')" "cached sample_cache (take 2 [1, 2, 5]) ws"
      "\<forall>xs us. cached c' xs us \<longleftrightarrow> cached sample_cache xs us \<or> prefix xs [1, 2, 5] \<and> us = take (length xs) (ws @ drop 2 [4, 5, 6])"
      "cache_slots c' = cache_slots sample_cache + mset (drop 2 [4, 5, 6])"
    using radix_insert_extends[OF sample_cache_run, of "[1, 2, 5]" "[4, 5, 6]"] e p by auto
  have "length ws = 2" using r(2) by (simp add: cached_def)
  then have "cached c' [1, 2, 5] (ws @ [6])" unfolding r(3)[rule_format] by simp
  then show ?thesis using r(1,4) by auto
qed

theorem radix_accounting_witness:
  "total_size sample_cache = Some 3 \<and> size (cache_slots sample_cache) = 3 \<and> rc_protected_size sample_cache = 0"
proof -
  have "total_size sample_cache = Some 3" by code_simp
  then show ?thesis using radix_accounting[OF sample_cache_run] by auto
qed

theorem evict_refines_lru_witness:
  "\<exists>xs c'. evict 2 sample_cache = Some c' \<and> rc_freed c' = [[7, 8, 9]] \<and> cache_slots sample_cache = {#7, 8, 9#} + cache_slots c'"
proof -
  have e: "map_option rc_freed (evict 2 sample_cache) = Some [[7, 8, 9]]" and f: "rc_freed sample_cache = []" by code_simp+
  obtain xs c' where r: "evict 2 sample_cache = Some c'" "rc_freed c' = map (\<lambda>x. tn_value (nd sample_cache x)) xs"
      "cache_slots sample_cache = mset (slots_of sample_cache xs) + cache_slots c'"
    using evict_refines_lru[OF sample_cache_run, of 2] by (auto simp: f)
  have fr: "rc_freed c' = [[7, 8, 9]]" using e r(1) by simp
  then have "slots_of sample_cache xs = concat [[7, 8, 9]]" using r(2) unfolding slots_of_def by metis
  then show ?thesis using r(1,3) fr by auto
qed

theorem lock_roundtrip_witness:
  "\<exists>c1 c2. inc_lock_ref 1 sample_cache = Some (- 3, c1) \<and> rc_protected_size c1 = 3 \<and> dec_lock_ref 1 c1 = Some (3, c2) \<and>
    rc_protected_size c2 = 0"
proof -
  have ch: "tn_children (nd sample_cache (rc_root sample_cache)) = [([1], 1)]" by code_simp
  have "path sample_cache 1 ([] @ tn_key (nd sample_cache 1)) ([] @ tn_value (nd sample_cache 1))"
    by (rule path_child[OF path_root, of "[1]"]) (simp add: ch)
  note r = lock_roundtrip[OF sample_cache_run this]
  have "map_option fst (inc_lock_ref 1 sample_cache) = Some (- 3)" "rc_protected_size sample_cache = 0" by code_simp+
  then show ?thesis using r by auto
qed

end
