(* ===== verification/Cache_Requests.thy ===== *)
theory Cache_Requests
  imports Prefix_Cache
begin

text \<open>
  The requests' side of the prefix cache: \<open>cache_finished_req\<close> and \<open>cache_unfinished_req\<close> move the slots of a
  request between its row, the cache and the allocator.
\<close>

section \<open>What a request holds\<close>

text \<open>
  A request with these tokens owns a row that is long enough; the slots of its prefix are the
  beginning of the row and are cached at its last node. The slots after the prefix are its own.
\<close>

definition req_holds :: "radix_cache \<Rightarrow> req_pool \<Rightarrow> cache_req \<Rightarrow> int list \<Rightarrow> bool" where
  "req_holds c p r tokens \<longleftrightarrow> cr_req_pool_idx r < length (rp_req_to_token p) \<and>
     length tokens \<le> length (rp_req_to_token p ! cr_req_pool_idx r) \<and>
     length (cr_prefix_indices r) \<le> length tokens \<and>
     take (length (cr_prefix_indices r)) (rp_req_to_token p ! cr_req_pool_idx r) = cr_prefix_indices r \<and>
     path c (cr_last_node r) (take (length (cr_prefix_indices r)) tokens) (cr_prefix_indices r)"

definition own_slots :: "req_pool \<Rightarrow> cache_req \<Rightarrow> nat \<Rightarrow> int list" where
  "own_slots p r n = drop (length (cr_prefix_indices r)) (kv_row p r n)"

lemma run_page: "radix_run c H \<Longrightarrow> 0 < rc_page_size c \<and> \<not> rc_disable c"
  using radix_run_good[of c H] by (auto simp: good_def cache_inv_def tree_inv_def)

lemma path_aligned:
  assumes "radix_run c H" "path c n xs vs"
  shows "rc_page_size c dvd length xs" "length vs = length xs" "cached c xs vs"
proof -
  obtain N T V where t: "tree_inv c N T V" using goodE[OF radix_run_good[OF assms(1)]] .
  show "rc_page_size c dvd length xs" "length vs = length xs"
    using assms(2) tree_lengths[OF t, of n] by (simp_all add: path_tree[OF t])
  then show "cached c xs vs" unfolding cached_def using assms(2) by (metis append_Nil2)
qed

lemma cached_unique:
  assumes "radix_run c H" "cached c xs vs" "cached c xs ws" "rc_page_size c dvd length xs"
  shows "vs = ws"
proof -
  obtain N T V where t: "tree_inv c N T V" using goodE[OF radix_run_good[OF assms(1)]] .
  show ?thesis using stored_unique[OF t assms(4)] assms(2,3) by (simp add: cached_stored[OF t])
qed

lemma cached_take:
  assumes "cached c xs vs" "k \<le> length xs"
  shows "cached c (take k xs) (take k vs)"
proof -
  obtain n ys ws where p: "length xs = length vs" "path c n (xs @ ys) (vs @ ws)" using assms(1) by (auto simp: cached_def)
  then have "path c n (take k xs @ drop k xs @ ys) (take k vs @ drop k vs @ ws)" by (metis append.assoc append_take_drop_id)
  then show ?thesis unfolding cached_def using p(1) by (metis length_take)
qed

lemma page_aligned_take:
  assumes "0 < rc_page_size c"
  shows "page_aligned c xs = take (length (page_aligned c xs)) xs" "length (page_aligned c xs) \<le> length xs"
    "rc_page_size c dvd length (page_aligned c xs)"
    "m \<le> length xs \<Longrightarrow> rc_page_size c dvd m \<Longrightarrow> m \<le> length (page_aligned c xs)"
    "rc_page_size c = 1 \<Longrightarrow> page_aligned c xs = xs"
proof -
  have len: "length (page_aligned c xs) = length xs div rc_page_size c * rc_page_size c"
    by (auto simp: page_aligned_def min.absorb2[OF div_times_less_eq_dividend])
  then show "page_aligned c xs = take (length (page_aligned c xs)) xs" by (auto simp: page_aligned_def)
  show "length (page_aligned c xs) \<le> length xs" "rc_page_size c dvd length (page_aligned c xs)" by (simp_all add: len)
  show "m \<le> length (page_aligned c xs)" if le: "m \<le> length xs" and dv: "rc_page_size c dvd m"
  proof -
    obtain k where k: "m = rc_page_size c * k" using dv by (rule dvdE)
    have "k \<le> length xs div rc_page_size c" using le assms by (simp add: k less_eq_div_iff_mult_less_eq mult.commute)
    then show ?thesis by (simp add: len k mult.commute)
  qed
  show "rc_page_size c = 1 \<Longrightarrow> page_aligned c xs = xs" by (simp add: page_aligned_def)
qed

text \<open>A list cut at \<open>L \<le> j \<le> a\<close>.\<close>

lemma slice_parts:
  assumes "L \<le> j" "j \<le> a" "a \<le> length xs"
  shows "drop L xs = slice L j xs @ drop j (take a xs) @ drop a xs"
proof -
  have "drop L xs = take (j - L) (drop L xs) @ drop (j - L) (drop L xs)" by (rule append_take_drop_id[symmetric])
  also have "drop (j - L) (drop L xs) = drop j xs" using assms(1) by simp
  also have "drop j xs = drop j (take a xs @ drop a xs)" by simp
  also have "\<dots> = drop j (take a xs) @ drop a xs" using assms(2,3) by (subst drop_append) simp
  finally show ?thesis by (simp add: slice_def)
qed

lemma path_call_free [simp]: "path (call_free idx c) = path c"
proof -
  have "path (call_free idx c) n xs vs \<Longrightarrow> path c n xs vs" for n xs vs
    by (induction rule: path.induct) (auto simp: call_free_def intro: path_root[of c] path_child[of c])
  moreover have "path c n xs vs \<Longrightarrow> path (call_free idx c) n xs vs" for n xs vs
  proof (induction rule: path.induct)
    case path_root
    then show ?case using path.path_root[of "call_free idx c"] by (simp add: call_free_def)
  next
    case (path_child q xs vs k n)
    then show ?case using path.path_child[of "call_free idx c" q xs vs k n] by (simp add: call_free_def)
  qed
  ultimately show ?thesis by (auto simp: fun_eq_iff)
qed

lemma contents_call_free [simp]: "cached (call_free idx c) = cached c" "cache_slots (call_free idx c) = cache_slots c"
  by (simp_all add: cached_def cache_slots_def tree_slots_def fun_eq_iff) (simp add: call_free_def)

lemma call_free_fields [simp]: "rc_freed (call_free idx c) = rc_freed c @ [idx]" "rc_page_size (call_free idx c) = rc_page_size c"
  "rc_disable (call_free idx c) = rc_disable c"
  by (simp_all add: call_free_def)

lemma unlock_run:
  assumes "radix_run c (add_mset n H)"
  shows "\<exists>d c'. dec_lock_ref n c = Some (d, c') \<and> radix_run c' H \<and> cache_slots c' = cache_slots c \<and> rc_freed c' = rc_freed c \<and>
    rc_page_size c' = rc_page_size c \<and> (\<forall>m xs vs. path c' m xs vs \<longleftrightarrow> path c m xs vs) \<and> (\<forall>xs vs. cached c' xs vs \<longleftrightarrow> cached c xs vs)"
proof -
  obtain N T V where inv: "cache_inv c N T V (add_mset n H)" "\<not> rc_disable c" "tree_inv c N T V"
    using goodE[OF radix_run_good[OF assms]] .
  obtain c' where c': "dec_lock_ref n c = Some (rc_evictable_size c' - rc_evictable_size c, c')" "cache_inv c' N T V H"
      "tree_grows c N T V c' N T V" "tree_slots c' N = tree_slots c N"
    using dec_lock_ref_locks[OF inv(1,2)] by blast
  have t': "tree_inv c' N T V" using c'(2) by (simp add: cache_inv_def)
  have "radix_run c' H" using radix_run.unlock[OF assms c'(1)] .
  then show ?thesis using c' by (auto simp: cache_slots_tree[OF inv(3)] cache_slots_tree[OF t'] path_tree[OF inv(3)]
    path_tree[OF t'] cached_stored[OF inv(3)] cached_stored[OF t'] tree_grows_def)
qed

section \<open>Handing the aligned part to the cache\<close>

text \<open>
  Inserting the whole pages of a request: the cached part reaches at least as far as the
  prefix of the request.
\<close>

lemma insert_request:
  assumes run: "radix_run c H" and req: "req_holds c p r tokens" and kv: "kv = kv_row p r (length tokens)"
    and al: "al = length (page_aligned c kv)"
  shows "\<exists>j ws c'. radix_insert (take al tokens) (Some (page_aligned c kv)) c = Some (j, c') \<and>
    inserted c (take al tokens) (page_aligned c kv) j ws c' \<and> radix_run c' H \<and>
    length (cr_prefix_indices r) \<le> j \<and> j \<le> al \<and> al \<le> length kv \<and> length kv = length tokens"
proof -
  let ?L = "length (cr_prefix_indices r)"
  have p: "0 < rc_page_size c" using run_page[OF run] by simp
  note pa = page_aligned_take[OF p, where xs = kv, folded al]
  have n: "length kv = length tokens" "?L \<le> length tokens" using req by (simp_all add: req_holds_def kv kv_row_def min.absorb2)
  have path: "path c (cr_last_node r) (take ?L tokens) (cr_prefix_indices r)" using req by (simp add: req_holds_def)
  note pal = path_aligned[OF run path]
  have len: "length (take al tokens) = al" "length (page_aligned c kv) = length (take al tokens)" using pa(2) n al by simp_all
  obtain j ws c' where i: "radix_insert (take al tokens) (Some (page_aligned c kv)) c = Some (j, c')"
      "inserted c (take al tokens) (page_aligned c kv) j ws c'"
    using radix_insert_inserted[OF run _ len(2)] pa(3) len(1) by auto
  have run': "radix_run c' H" using radix_run.insert[OF run _ len(2) i(1)] pa(3) len(1) by simp
  have L: "rc_page_size c dvd ?L" using pal(1) n(2) by (simp add: min.absorb2)
  then have La: "?L \<le> al" using pa(4) n by simp
  have "cached c (take ?L (take al tokens)) (cr_prefix_indices r)" using pal(3) La by (simp add: min.absorb1)
  moreover have "\<not> cached c (take ?L (take al tokens)) us" if "j < ?L" for us
    using i(2) L La that unfolding inserted_def len(1) by blast
  ultimately have "\<not> j < ?L" by blast
  then show ?thesis using i run' n(1) pa(2) len(1) by (auto simp: inserted_def)
qed

lemma fold_kv_free: "kv_items (fold kv_free frees a) = kv_items a + mset (concat frees)"
  by (induction frees arbitrary: a) (simp_all add: kv.free_items)

lemma inserted_key:
  assumes "inserted c key vals j ws c'" "length vals = length key"
  shows "cached c' key (ws @ drop j vals)" "\<And>xs us. cached c xs us \<Longrightarrow> cached c' xs us"
proof -
  have "length ws = j" using assms(1) by (auto simp: inserted_def cached_def)
  then have "take (length key) (ws @ drop j vals) = ws @ drop j vals" using assms by (simp add: inserted_def)
  then show "cached c' key (ws @ drop j vals)" using assms(1) by (simp add: inserted_def)
  show "\<And>xs us. cached c xs us \<Longrightarrow> cached c' xs us" using assms(1) by (simp add: inserted_def)
qed

lemma finished_walk:
  assumes run: "radix_run c H" and req: "req_holds c p r tokens" and kv: "kv = kv_row p r (length tokens)"
    and al: "al = length (page_aligned c kv)" and pre: "pre = (if rc_page_size c \<noteq> 1 then [drop al kv] else [])"
    and c1: "c1 = (if rc_page_size c \<noteq> 1 then call_free (drop al kv) c else c)"
  shows "\<exists>j ws c2. radix_insert (take al tokens) (Some (page_aligned c kv)) c1 = Some (j, c2) \<and> radix_run c2 H \<and>
    length (cr_prefix_indices r) \<le> j \<and> j \<le> al \<and> al \<le> length kv \<and> length kv = length tokens \<and>
    cache_slots c2 = cache_slots c + mset (drop j (take al kv)) \<and> rc_freed c2 = rc_freed c @ pre \<and> cached c2 (take al tokens) ws"
proof -
  have pg: "0 < rc_page_size c" using run_page[OF run] by simp
  have run1: "radix_run c1 H" using radix_run.free[OF run] run by (simp add: c1)
  have c1f: "rc_page_size c1 = rc_page_size c" "cache_slots c1 = cache_slots c" "rc_freed c1 = rc_freed c @ pre" "path c1 = path c"
    by (simp_all add: c1 pre)
  have pa1: "page_aligned c1 xs = page_aligned c xs" for xs :: "int list" by (simp add: page_aligned_def c1f)
  have req1: "req_holds c1 p r tokens" using req by (simp add: req_holds_def c1f)
  have al1: "al = length (page_aligned c1 kv)" by (simp add: al pa1)
  have pav: "page_aligned c kv = take al kv" using page_aligned_take(1)[OF pg, where xs = kv] by (simp add: al)
  obtain j ws c2 where i: "radix_insert (take al tokens) (Some (page_aligned c kv)) c1 = Some (j, c2)"
      "inserted c1 (take al tokens) (page_aligned c kv) j ws c2" "radix_run c2 H"
      "length (cr_prefix_indices r) \<le> j" "j \<le> al" "al \<le> length kv" "length kv = length tokens"
    using insert_request[OF run1 req1 kv al1] unfolding pa1 by blast
  have "length (page_aligned c kv) = length (take al tokens)" using i(6,7) by (simp add: al[symmetric])
  note ik = inserted_key(1)[OF i(2) this]
  show ?thesis using i ik by (intro exI[of _ j] exI[of _ "ws @ drop j (page_aligned c kv)"] exI[of _ c2])
    (simp add: inserted_def c1f pav)
qed

text \<open>
  C28. Finishing a request neither leaks nor double-frees KV slots. When the slots of the request's
  prefix are cached at its locked last node (so that they are whole pages) and the rest of its row is its
  own, \<open>cache_finished_req\<close> returns; of the request's own slots the cache takes those of new whole pages and all others are freed:
  once the freed slots are handed to the allocator, allocator and cache
  together have gained exactly the request's own slots. The whole pages of the request are cached
  afterwards, its lock is released, and its row goes back to the request pool.
\<close>

theorem cache_finished_req_conserves:
  assumes run: "radix_run c (add_mset (cr_last_node r) H)" and req: "req_holds c p r tokens"
    and tokens: "tokens = butlast (cr_origin_input_ids r @ cr_output_ids r)"
  shows "\<exists>c' p' frees ws. cache_finished_req r c p = Some (c', p') \<and> radix_run c' H \<and> rc_freed c' = rc_freed c @ frees \<and>
    kv_items (fold kv_free frees a) + cache_slots c' = kv_items a + cache_slots c + mset (own_slots p r (length tokens)) \<and>
    cached c' (page_aligned c tokens) ws \<and>
    p' = p\<lparr>rp_free_slots := rp_free_slots p @ [int (cr_req_pool_idx r)]\<rparr>"
proof -
  define kv where "kv = kv_row p r (length tokens)"
  define al where "al = length (page_aligned c kv)"
  define L where "L = length (cr_prefix_indices r)"
  define pre where "pre = (if rc_page_size c \<noteq> 1 then [drop al kv] else [])"
  define c1 where "c1 = (if rc_page_size c \<noteq> 1 then call_free (drop al kv) c else c)"
  have pg: "0 < rc_page_size c" "\<not> rc_disable c" using run_page[OF run] by simp_all
  obtain j ws c2 where i: "radix_insert (take al tokens) (Some (page_aligned c kv)) c1 = Some (j, c2)"
    and run2: "radix_run c2 (add_mset (cr_last_node r) H)" and le: "L \<le> j" "j \<le> al" "al \<le> length kv" "length kv = length tokens"
    and c2: "cache_slots c2 = cache_slots c + mset (drop j (take al kv))" "rc_freed c2 = rc_freed c @ pre" "cached c2 (take al tokens) ws"
    using finished_walk[OF run req kv_def al_def pre_def c1_def] unfolding L_def by blast
  define c3 where "c3 = call_free (slice L j kv) c2"
  have run3: "radix_run c3 (add_mset (cr_last_node r) H)" using radix_run.free[OF run2] by (simp add: c3_def)
  obtain d c' where u: "dec_lock_ref (cr_last_node r) c3 = Some (d, c')" "radix_run c' H" "cache_slots c' = cache_slots c3"
      "rc_freed c' = rc_freed c3" "\<And>xs vs. cached c' xs vs \<longleftrightarrow> cached c3 xs vs" using unlock_run[OF run3] by blast
  have ret: "cache_finished_req r c p = Some (c', rp_free [int (cr_req_pool_idx r)] p)"
    unfolding cache_finished_req_def Let_def tokens[symmetric] kv_def[symmetric] al_def[symmetric] c1_def[symmetric] L_def[symmetric]
    using pg(2) i u(1)[unfolded c3_def] by simp
  have "rc_page_size c = 1 \<Longrightarrow> drop al kv = []" using page_aligned_take(5)[OF pg(1), where xs = kv] by (simp add: al_def)
  then have "mset (concat pre) = mset (drop al kv)" by (auto simp: pre_def)
  moreover have "own_slots p r (length tokens) = slice L j kv @ drop j (take al kv) @ drop al kv"
    using slice_parts[OF le(1-3)] by (simp add: own_slots_def kv_def[symmetric] L_def)
  ultimately have "kv_items (fold kv_free (pre @ [slice L j kv]) a) + cache_slots c' =
      kv_items a + cache_slots c + mset (own_slots p r (length tokens))"
    unfolding fold_kv_free by (simp add: u(3) c3_def c2(1) ac_simps)
  moreover have "rc_freed c' = rc_freed c @ pre @ [slice L j kv]" using u(4) c2(2) by (simp add: c3_def)
  moreover have "page_aligned c tokens = take al tokens"
    using le(4) page_aligned_take(1)[OF pg(1), where xs = tokens] by (simp add: al_def page_aligned_def)
  then have "cached c' (page_aligned c tokens) ws" using c2(3) u(5) by (simp add: c3_def)
  ultimately show ?thesis using ret u(2) unfolding rp_free_def by blast
qed

section \<open>Requests that go on\<close>

lemma lock_run:
  assumes run: "radix_run c H" and n: "path c n xs vs"
  shows "\<exists>d c'. inc_lock_ref n c = Some (d, c') \<and> radix_run c' (add_mset n H) \<and> cache_slots c' = cache_slots c \<and>
    rc_freed c' = rc_freed c \<and> (\<forall>m xs vs. path c' m xs vs \<longleftrightarrow> path c m xs vs)"
proof -
  obtain N T V where inv: "cache_inv c N T V H" "\<not> rc_disable c" "tree_inv c N T V" using goodE[OF radix_run_good[OF run]] .
  have "n \<in> N" using n by (simp add: path_tree[OF inv(3)])
  then obtain c' where c': "inc_lock_ref n c = Some (rc_evictable_size c' - rc_evictable_size c, c')" "cache_inv c' N T V (add_mset n H)"
      "tree_grows c N T V c' N T V" "tree_slots c' N = tree_slots c N"
    using inc_lock_ref_locks[OF inv(1,2)] by blast
  have t': "tree_inv c' N T V" using c'(2) by (simp add: cache_inv_def)
  have "radix_run c' (add_mset n H)" using radix_run.lock[OF run n c'(1)] .
  then show ?thesis using c' by (auto simp: cache_slots_tree[OF inv(3)] cache_slots_tree[OF t'] path_tree[OF inv(3)]
    path_tree[OF t'] tree_grows_def)
qed

text \<open>A key of whole pages that is cached is matched entirely.\<close>

lemma match_cached:
  assumes run: "radix_run c H" and key: "cached c key us" "rc_page_size c dvd length key"
  shows "\<exists>n c'. match_prefix key c = Some ((us, n), c') \<and> radix_run c' H \<and> path c' n key us \<and>
    cache_slots c' = cache_slots c \<and> rc_freed c' = rc_freed c"
proof -
  obtain vs n c' where m: "match_prefix key c = Some ((vs, n), c')" "matched c key vs n c'" using match_prefix_matched[OF run] by blast
  have "\<not> length vs < length key"
  proof
    assume "length vs < length key"
    then have "\<not> cached c (take (length key) key) us" using m(2) key(2) unfolding matched_def by blast
    then show False using key(1) by simp
  qed
  then have k: "take (length vs) key = key" by simp
  then have "vs = us" using cached_unique[OF run _ key] m(2) by (simp add: matched_def)
  then show ?thesis using m k radix_run.match[OF run m(1)] by (auto simp: matched_def)
qed

text \<open>Writing the cached slots after the prefix into the row of the request.\<close>

lemma write_row:
  assumes "row < length (rp_req_to_token p)" "al \<le> n" "n \<le> length (rp_req_to_token p ! row)" "length us = al" "L \<le> al"
    "take L (rp_req_to_token p ! row) = take L us"
  shows "take n (rp_req_to_token (rp_write row L (drop L us) p) ! row) = us @ drop al (take n (rp_req_to_token p ! row))"
proof -
  let ?r = "rp_req_to_token p ! row"
  have "rp_req_to_token (rp_write row L (drop L us) p) ! row = take L ?r @ drop L us @ drop al ?r"
    using assms(1,4,5) by (simp add: rp_write_def Let_def)
  also have "\<dots> = us @ drop al ?r" using assms(6) by (metis append_assoc append_take_drop_id)
  finally show ?thesis using assms(2,4) by (simp add: take_drop add.commute)
qed

lemma unfinished_walk:
  assumes run: "radix_run c (add_mset (cr_last_node r) H)" and req: "req_holds c p r fill" and kv: "kv = kv_row p r (length fill)"
    and al: "al = length (page_aligned c kv)" and L: "L = length (cr_prefix_indices r)"
  shows "\<exists>j c1 us n c3. radix_insert (take al fill) (Some (page_aligned c kv)) c = Some (j, c1) \<and>
    match_prefix (take al fill) (call_free (slice L j kv) c1) = Some ((us, n), c3) \<and> radix_run c3 (add_mset (cr_last_node r) H) \<and>
    path c3 n (take al fill) us \<and> length us = al \<and> take L us = cr_prefix_indices r \<and> L \<le> j \<and> j \<le> al \<and> al \<le> length kv \<and>
    length kv = length fill \<and> cache_slots c3 = cache_slots c + mset (drop j (take al kv)) \<and> rc_freed c3 = rc_freed c @ [slice L j kv]"
proof -
  have pg: "0 < rc_page_size c" using run_page[OF run] by simp
  obtain j ws c1 where i: "radix_insert (take al fill) (Some (page_aligned c kv)) c = Some (j, c1)"
      "inserted c (take al fill) (page_aligned c kv) j ws c1" "radix_run c1 (add_mset (cr_last_node r) H)"
      "L \<le> j" "j \<le> al" "al \<le> length kv" "length kv = length fill"
    using insert_request[OF run req kv al] unfolding L by blast
  have pav: "page_aligned c kv = take al kv" "rc_page_size c dvd al"
    using page_aligned_take[OF pg, where xs = kv] by (simp_all add: al)
  define us where "us = ws @ drop j (take al kv)"
  define c2 where "c2 = call_free (slice L j kv) c1"
  have run2: "radix_run c2 (add_mset (cr_last_node r) H)" using radix_run.free[OF i(3)] by (simp add: c2_def)
  have us: "cached c2 (take al fill) us" "\<And>xs vs. cached c xs vs \<Longrightarrow> cached c2 xs vs"
    using inserted_key[OF i(2)] i(6,7) by (simp_all add: c2_def us_def pav(1))
  have len: "length us = al" "length (take al fill) = al" using us(1) i(6,7) by (simp_all add: cached_def)
  have c2f: "rc_page_size c2 = rc_page_size c" "cache_slots c2 = cache_slots c + mset (drop j (take al kv))"
      "rc_freed c2 = rc_freed c @ [slice L j kv]"
    using i(2) by (simp_all add: c2_def inserted_def pav(1))
  obtain n c3 where m: "match_prefix (take al fill) c2 = Some ((us, n), c3)" "radix_run c3 (add_mset (cr_last_node r) H)"
      "path c3 n (take al fill) us" "cache_slots c3 = cache_slots c2" "rc_freed c3 = rc_freed c2"
    using match_cached[OF run2 us(1)] pav(2) len(2) c2f(1) by auto
  have "path c (cr_last_node r) (take L fill) (cr_prefix_indices r)" using req by (simp add: req_holds_def L)
  note pa = path_aligned[OF run this]
  have "take L us = cr_prefix_indices r"
  proof (rule cached_unique[OF run2])
    show "cached c2 (take L fill) (take L us)" using cached_take[OF us(1), of L] i(4,5) len(2) by (simp add: min.absorb1)
    show "cached c2 (take L fill) (cr_prefix_indices r)" by (rule us(2)[OF pa(3)])
    show "rc_page_size c2 dvd length (take L fill)" using pa(1) by (simp add: c2f(1))
  qed
  then show ?thesis using i m len(1) c2f(2,3) unfolding c2_def by auto
qed


section \<open>Concrete requests\<close>

text \<open>The equations that run the cache on a concrete input.\<close>

lemmas cache_eval = cache_unfinished_req_def RadixCache_def radix_reset_def TreeNode_def
  monotonic_def upd_node_def record_all_cleared_event_def kv_row_def page_aligned_def radix_insert_def insert_helper_def
  insert_loop.simps touch_def get_child_key_def key_match_def key_match_paged.simps split_node_def add_leaf_def
  record_store_event_def record_remove_event_def match_prefix_def match_prefix_helper_def match_loop.simps call_free_def slice_def
  rp_write_def dec_lock_ref_def inc_lock_ref_def dec_loop.simps inc_loop.simps Let_def

definition sample_req :: cache_req where
  "sample_req = \<lparr>cr_req_pool_idx = 0, cr_origin_input_ids = [1, 2, 5], cr_output_ids = [6, 4], cr_fill_ids = [1, 2, 5],
     cr_prefix_indices = [], cr_last_node = 0\<rparr>"

definition sample_pool :: req_pool where
  "sample_pool = \<lparr>rp_size = 1, rp_req_to_token = [[20, 21, 22, 23, 0]], rp_free_slots = []\<rparr>"

text \<open>The request that found nothing cached holds a lock on the root.\<close>

lemma sample_locked: "radix_run sample_cache {#0#}" "path sample_cache 0 [] []"
proof -
  have r: "rc_root sample_cache = 0" by code_simp
  then show p: "path sample_cache 0 [] []" using path_root[of sample_cache] by simp
  have "inc_lock_ref 0 sample_cache = Some (0, sample_cache)"
    using run_page[OF sample_cache_run] by (simp add: inc_lock_ref_def inc_loop.simps r)
  then show "radix_run sample_cache {#0#}" using radix_run.lock[OF sample_cache_run p] by simp
qed

theorem cache_finished_req_conserves_witness:
  "\<exists>c' p' frees. cache_finished_req sample_req sample_cache sample_pool = Some (c', p') \<and>
    mset (concat frees) + cache_slots c' = cache_slots sample_cache + {#20, 21, 22, 23#} \<and> rp_free_slots p' = [0]"
proof -
  have h: "req_holds sample_cache sample_pool sample_req [1, 2, 5, 6]"
    using sample_locked(2) by (simp add: req_holds_def sample_req_def sample_pool_def)
  have run: "radix_run sample_cache (add_mset (cr_last_node sample_req) {#})" using sample_locked(1) by (simp add: sample_req_def)
  have t: "[1, 2, 5, 6] = butlast (cr_origin_input_ids sample_req @ cr_output_ids sample_req)" by (simp add: sample_req_def)
  have o: "own_slots sample_pool sample_req (length [1 :: int, 2, 5, 6]) = [20, 21, 22, 23]" by code_simp
  from cache_finished_req_conserves[OF run h t, where a = "TokenToKVPoolAllocator 0"] obtain c' p' frees where
    r: "cache_finished_req sample_req sample_cache sample_pool = Some (c', p')"
      "kv_items (fold kv_free frees (TokenToKVPoolAllocator 0)) + cache_slots c' =
        kv_items (TokenToKVPoolAllocator 0) + cache_slots sample_cache + mset [20, 21, 22, 23]"
      "rp_free_slots p' = [0]" unfolding o by (auto simp: sample_pool_def sample_req_def)
  have "mset (concat frees) + cache_slots c' = cache_slots sample_cache + {#20, 21, 22, 23#}"
    using r(2) unfolding fold_kv_free by (simp add: fresh_items)
  then show ?thesis using r(1,3) by blast
qed


text \<open>
  With pages of two tokens, a request whose prefix ends inside a page: another request caches the
  same tokens in between. The second call then frees the last slot of the request's own page and
  takes the cached slots as its prefix, but it writes the row from the end of the
  old prefix on, so that position two of the row keeps a slot of the page that was given up.
\<close>

definition stale_req :: "int list \<Rightarrow> cache_req" where
  "stale_req fill = \<lparr>cr_req_pool_idx = 0, cr_origin_input_ids = [1, 2, 3, 4, 5], cr_output_ids = [], cr_fill_ids = fill,
     cr_prefix_indices = [], cr_last_node = 0\<rparr>"

definition stale_pool :: req_pool where
  "stale_pool = \<lparr>rp_size = 1, rp_req_to_token = [[10, 11, 12, 13]], rp_free_slots = []\<rparr>"

definition stale_run :: "(cache_req \<times> radix_cache \<times> req_pool) option" where
  "stale_run =
     (case cache_unfinished_req (stale_req [1, 2, 3]) (RadixCache 2 False False (\<lambda>_. 0) (\<lambda>_. 0)) stale_pool of
        None \<Rightarrow> None
      | Some (r1, c1, p1) \<Rightarrow>
          (case radix_insert [1, 2, 3, 4] (Some [10, 11, 20, 21]) c1 of
             None \<Rightarrow> None
           | Some (_, c2) \<Rightarrow> cache_unfinished_req (r1\<lparr>cr_fill_ids := [1, 2, 3, 4]\<rparr>) c2 p1))"

theorem unaligned_prefix_stale_row:
  "map_option (\<lambda>(r', c', p'). (cr_prefix_indices r', rp_req_to_token p' ! 0, rc_freed c')) stale_run =
     Some ([10, 11, 20, 21], [10, 11, 12, 21], [[], [13]])"
  by (simp add: stale_run_def stale_req_def stale_pool_def cache_eval)

end
