(* ===== verification/Spec2Isabelle.thy ===== *)
theory Spec2Isabelle
  imports
    Hexgen_Prelude
    Scheduling_Types
    Local_Scheduler
    Matched_Dp
    Py_Random
    Model_Analyzer
    Estimator
    Global_Scheduler
    Framework
    Autoscaling_Stability
    Workload_Evaluation
    Py_Heapq
    Event_Loop
    Memory_Planner
    Serving_Engine
    Engine_Safety
    Placement
    Afd_Analyzer
    Cluster_Manager
    Cluster_Accounting
    Arrival_Process
    Cluster_Config
    Afd_Deployment
    Py_Io
    Runtime_Apply
    Process_Table
    Runtime_Safety
    Live_Metrics
    Live_Autoscaler
    Live_Rounds
    Live_Safety
    Placement_Search
    Simulation_Search
    Kv_Allocator
    Radix_Cache
    Radix_Tree
    Radix_Split
    Radix_Lookup
    Radix_Locks
    Radix_Walk
    Radix_Evict
    Prefix_Cache
    Cache_Requests
begin

text \<open>
  Verification of the HexGen-3 scheduler and cluster simulator, the Python code under
  \<open>src/scheduler\<close>, and of the KV slot allocators and the prefix cache of its serving runtime under
  \<open>src/runtime/python/sglang/srt/mem_cache\<close>.

  \<^bold>\<open>The program.\<close> HexGen-3 serves large language models with the attention and the feed-forward
  (FFN) part of decoding on different GPUs. Its scheduler decides how many GPUs of each
  type the prefill, attention and FFN workers get and which tensor/data/expert parallelism every
  slice uses; a discrete-event simulator predicts how requests fare on a cluster. The serving runtime, a fork of SGLang,
  shares the KV slots of common prompt prefixes between requests. Paths below are relative to
  \<open>src/scheduler/simulator\<close>, those of the runtime to \<open>src/runtime/python/sglang/srt/mem_cache\<close>.

  \<^bold>\<open>The scheduler\<close> (\<open>scheduling/\<close>)
  \<^item> \<open>Scheduling_Types\<close>: \<open>types.py\<close>. Workload profiles, replicas and strategies, the allocation matrix with
    \<open>add\<close>, \<open>move\<close>, \<open>uniform\<close>, \<open>validate\<close>. Moves conserve GPUs, additions never exceed the
    capacity, the uniform allocation exhausts it.
  \<^item> \<open>Local_Scheduler\<close>, \<open>Matched_Dp\<close>: \<open>local_scheduler.py\<close>. Enumeration of strategies (sound, complete, without
    duplicates), projection of a previous strategy, cost-aware choice, and the search that gives attention and FFN
    workers equal data parallelism: the dynamic program is optimal for every total, and the choice
    over it is optimal among all matched choices.
  \<^item> \<open>Model_Analyzer\<close>: \<open>core/model_analyzer.py\<close>, \<open>core/roofline.py\<close>, \<open>configs/hardware.py\<close>. The analytic
    cost model; total on admissible shapes, and its attention/FFN split loses nothing.
  \<^item> \<open>Estimator\<close>: \<open>estimator.py\<close>. Throughput of replicas and slices and the latency replay; it provides
    the estimator that the local scheduler takes as an argument.
  \<^item> \<open>Global_Scheduler\<close>: \<open>global_scheduler.py\<close>. Simulated annealing over allocations with a plan cache: for every
    random tape the result stays within capacity and is never worse than the start.
  \<^item> \<open>Framework\<close>: \<open>framework.py\<close>. Autoscaling: expansion factors, proportional scaling, quantisation of
    decode workers, rescheduling.
  \<^item> \<open>Autoscaling_Stability\<close>: \<open>../cli/_autoscaling_stability.py\<close>. The check of a proposal before it is applied: for
    every budget and course of time the result fits the capacity, obeys a ban on scaling in and is safe when a
    known admissible plan is; the local search is complete.
  \<^item> \<open>Workload_Evaluation\<close>: \<open>evaluation.py\<close>. The scheduler measured over cluster sizes, and one framework driven through
    load windows: which windows raise, and that the recorded allocations form a chain of valid ones.
  \<^item> \<open>Cluster_Config\<close>: the configuration builders of \<open>framework.py\<close>. Node names never clash, the nodes hold exactly
    the planned GPUs, and the cluster manager starts on the result.
  \<^item> \<open>Afd_Deployment\<close>: \<open>afd_deployment.py\<close>. Which plans can be launched as three server processes, and that the
    commands carry the plan's parallelism.

  \<^bold>\<open>The live autoscaler\<close> (\<open>../cli/\<close>)
  \<^item> \<open>Py_Io\<close>: computations on a state that may raise, the rules for their outcomes, and parsing of text.
  \<^item> \<open>Runtime_Apply\<close>: \<open>_runtime_apply.py\<close>. The helper that turns a planned window into server processes: GPU ids, environments,
    the load balancer's command, the pid file, stopping and launching.
  \<^item> \<open>Process_Table\<close>: the locale \<open>process_table\<close>, the laws of signals, process groups and process creation that the helper
    relies on, and the lemmas about the helper that follow from them.
  \<^item> \<open>Runtime_Safety\<close>: the interpretation for \<open>unix_os\<close>, a table of processes with groups, zombies and missing programs. All
    running processes stay in the pid file, each stage gets its own GPUs, wrong plans are refused before any effect; and
    two runs in which the helper misses its aim.
  \<^item> \<open>Live_Metrics\<close>: the metrics side of \<open>run_hexgen3_live_autoscaler.py\<close>. Every sample of a growing file is counted once,
    weighted averages lie between the samples, workloads are well formed.
  \<^item> \<open>Live_Autoscaler\<close>: planning, confirmation, draining, applying and the loop of \<open>main\<close>, composed of the framework, the
    stability check, the deployment planner and the helper. \<open>Live_Rounds\<close> describes the new state of a round, and \<open>Live_Safety\<close> proves
    the invariant of all reachable states.

  \<^bold>\<open>The simulator\<close> (\<open>core/\<close>)
  \<^item> \<open>Py_Heapq\<close>: the part of CPython's \<open>heapq\<close> that the event loop and the prefix cache use, with the locales
    \<open>strict_weak_order\<close> and \<open>priority_queue\<close>.
  \<^item> \<open>Event_Loop\<close>: \<open>request.py\<close>, \<open>events.py\<close>. The loop processes events in time order and returns within its
    event budget.
  \<^item> \<open>Memory_Planner\<close>: \<open>memory.py\<close>, \<open>config.py\<close>. KV blocks; allocation and release refine an abstract pool, and
    admission guarantees allocation.
  \<^item> \<open>Serving_Engine\<close>, \<open>Engine_Safety\<close>: \<open>engine.py\<close>. Prefill, continuous batching, decode. A step keeps the
    queues, the batch, the active set and the block accounting consistent.
  \<^item> \<open>Placement\<close>: \<open>scheduler.py\<close>. The placement policies; the locale \<open>placement_policy\<close> states what the cluster
    manager relies on and is interpreted by \<open>place_request\<close>.
  \<^item> \<open>Afd_Analyzer\<close>: \<open>afd_analyzer.py\<close>. Time lines of attention and FFN instances. The memo table is
    transparent, the FFN loop always returns, batches on one attention instance never overlap.
  \<^item> \<open>Cluster_Manager\<close>, \<open>Cluster_Accounting\<close>: \<open>cluster_manager.py\<close>. All event handlers over the loop, the engines,
    the policies and the AFD analyzer, and \<open>run_simulation\<close>. A simulation always returns, and every generated
    request ends in exactly one of: pending, active, completed, rejected.
  \<^item> \<open>Arrival_Process\<close>: \<open>arrival.py\<close>.
  \<^item> \<open>Placement_Search\<close>, \<open>Simulation_Search\<close>: \<open>placement.py\<close>. Physical nodes split into replicas, directly (both strategies
    interpret the locale \<open>node_splitter\<close>) or by simulating every distribution over the workloads: never more GPUs than
    there are, every distribution once, the best one returned.

  \<^bold>\<open>The runtime's KV cache\<close>
  \<^item> \<open>Kv_Allocator\<close>: \<open>TokenToKVPoolAllocator\<close> of \<open>allocator.py\<close> and \<open>ReqToTokenPool\<close> of \<open>memory_pool.py\<close>, both
    interpretations of the locale \<open>slot_pool\<close>. Slots are neither lost nor handed out twice.
  \<^item> \<open>Radix_Cache\<close>: \<open>radix_cache.py\<close>, every operation of the radix tree over a store of nodes.
  \<^item> \<open>Radix_Tree\<close>, \<open>Radix_Split\<close>, \<open>Radix_Lookup\<close>, \<open>Radix_Locks\<close>, \<open>Radix_Walk\<close>, \<open>Radix_Evict\<close>: the invariant of the
    tree (tokens determine nodes), and what splitting, the two walks down, locking, the walks over the whole
    tree and eviction do to it; all loops return.
  \<^item> \<open>Prefix_Cache\<close>: the contents of the cache and the runs of its clients. Lookup finds the longest cached prefix, insertion
    adds the rest, lock counts and sizes are right, eviction is least recently used and spares what is locked.
  \<^item> \<open>Cache_Requests\<close>: finishing and continuing a request conserve the slots of cache, request and allocator.

  \<^bold>\<open>Shared.\<close> \<open>Hexgen_Prelude\<close>, \<open>Py_Random\<close>: results with exceptions, dictionaries, minima by key, decimal numerals, random tapes.

  \<^bold>\<open>Modelling.\<close> A function that may raise returns \<open>py_error + 'a\<close>; every \<open>raise\<close>, \<open>assert\<close>, missing key and
  division by zero of the source is a branch. Dictionaries are association lists in insertion order. Python
  integers are \<^typ>\<open>int\<close>. Floats are \<^typ>\<open>real\<close>: rounding errors are not modelled, and
  theorems that compare floats hold for exact arithmetic. Random generators are tapes, so statements hold for every
  seed. Parameters stand for code outside the repository: \<open>set_order\<close> (the iteration
  order of a set), \<open>auto_config\<close> (\<open>transformers.AutoConfig\<close>), \<open>md5\<close> (\<open>hashlib\<close>), \<open>gamma\<close> (\<open>numpy.random.gamma\<close>), \<open>str_float\<close> (printing of
  floats), and the operating system of the runtime helper, a record of system calls over an arbitrary state. Request
  objects, which the engines' queues and the manager share, live in a store indexed by request id; an
  update through any of them is an update of the store. In the same way the nodes of the prefix cache, which requests
  keep references to, live in a store indexed by creation number; tensors of slots are lists, and slots that
  the cache frees are recorded in order for its allocator. The engine's event callback is an outbox that the cluster
  manager empties after each engine call. The plan cache of the global
  scheduler shares its plans with the search, which writes into the best one; the model keeps the cache key beside a plan so
  that this write reaches the cached entry. What a round of the live autoscaler sees from outside (clock,
  metrics directory, polls until a deadline, server answers) is the record \<open>observation\<close>; theorems hold for all observations. Unique event ids (\<open>uuid\<close>) are not compared by the source and are left empty.

  \<^bold>\<open>Loops.\<close> Loops over data are structural or come with a measure. \<open>EventLoop.run\<close>, the FFN run loop, the gamma
  arrivals and the loops over the radix tree are partial functions, where \<open>None\<close> is not returning; for each there is a
  theorem that it returns: by the event budget, by the analyzer's own assertion, as soon as the samples reach the end of the
  window, or by the invariant of the tree. The retry loop of the
  annealing step has the source's own bound of 32 attempts.

  \<^bold>\<open>Not modelled.\<close> Reports, serialisers, trace export, printing, argument parsing and the two one-shot command
  line programs only move data. The rest of \<open>src/runtime\<close> (GPU kernels, processes, sockets, and the paged, sliding-window
  and host-memory variants of the allocator and the cache) and \<open>src/comm\<close>, which is C++, are not modelled: their behaviour
  rests on CUDA, PyTorch and network libraries outside the repository.
\<close>

end
